(* ===== verification/Nghttp2_Base.thy ===== *)
theory Nghttp2_Base
  imports Main "HOL-Library.Word"
begin

text \<open>
  Prelude of the development: the integer types of the C sources, the library's error
  codes, the allocator, and the facts on words, bytes, lists and array memory that the
  component theories share.
\<close>

unbundle bit_operations_syntax

section \<open>Types of the C sources\<close>

text \<open>
  Unsigned integers whose wrap-around or bit pattern matters are machine words; a size that
  only counts the elements of an array is a natural number; a signed 32-bit value is an
  integer together with the range predicate \<open>int32_ok\<close>, so that signed overflow, which C
  leaves undefined, is visible as a value outside the range.
\<close>

type_synonym u8 = "8 word"
type_synonym u16 = "16 word"
type_synonym u32 = "32 word"
type_synonym u64 = "64 word"
type_synonym bytes = "u8 list"

definition INT32_MAX :: int where "INT32_MAX = 2147483647"

definition INT32_MIN :: int where "INT32_MIN = - 2147483648"

definition int32_ok :: "int \<Rightarrow> bool" where
  "int32_ok x \<longleftrightarrow> INT32_MIN \<le> x \<and> x \<le> INT32_MAX"

definition NGHTTP2_MAX_WINDOW_SIZE :: int where "NGHTTP2_MAX_WINDOW_SIZE = 2147483647"

lemmas int32_defs = INT32_MAX_def INT32_MIN_def int32_ok_def

section \<open>Error codes\<close>

text \<open>
  The negative codes of \<open>nghttp2_error\<close> (nghttp2.h) and \<open>nghttp2_internal_error\<close>
  (nghttp2_int.h). A C function that returns 0 or a negative code returns here a value of
  \<open>'a res\<close>: \<open>Inr\<close> for success, \<open>Inl\<close> for the code.
\<close>

datatype nghttp2_error =
    ERR_INVALID_ARGUMENT | ERR_BUFFER_ERROR | ERR_UNSUPPORTED_VERSION | ERR_WOULDBLOCK
  | ERR_PROTO | ERR_INVALID_FRAME | ERR_EOF | ERR_DEFERRED | ERR_STREAM_ID_NOT_AVAILABLE
  | ERR_STREAM_CLOSED | ERR_STREAM_CLOSING | ERR_STREAM_SHUT_WR | ERR_INVALID_STREAM_ID
  | ERR_INVALID_STREAM_STATE | ERR_DEFERRED_DATA_EXIST | ERR_START_STREAM_NOT_ALLOWED
  | ERR_GOAWAY_ALREADY_SENT | ERR_INVALID_HEADER_BLOCK | ERR_INVALID_STATE
  | ERR_TEMPORAL_CALLBACK_FAILURE | ERR_FRAME_SIZE_ERROR | ERR_HEADER_COMP
  | ERR_FLOW_CONTROL | ERR_INSUFF_BUFSIZE | ERR_PAUSE | ERR_TOO_MANY_INFLIGHT_SETTINGS
  | ERR_PUSH_DISABLED | ERR_DATA_EXIST | ERR_SESSION_CLOSING | ERR_HTTP_HEADER
  | ERR_HTTP_MESSAGING | ERR_REFUSED_STREAM | ERR_INTERNAL | ERR_CANCEL
  | ERR_SETTINGS_EXPECTED | ERR_TOO_MANY_SETTINGS | ERR_FATAL | ERR_NOMEM
  | ERR_CALLBACK_FAILURE | ERR_BAD_CLIENT_MAGIC | ERR_FLOODED | ERR_TOO_MANY_CONTINUATIONS
  | ERR_IGN_HEADER_BLOCK | ERR_IGN_PAYLOAD | ERR_IGN_HTTP_HEADER | ERR_REMOVE_HTTP_HEADER
  | ERR_PUSH_CANCEL

type_synonym 'a res = "nghttp2_error + 'a"

fun nghttp2_error_code :: "nghttp2_error \<Rightarrow> int" where
  "nghttp2_error_code ERR_INVALID_ARGUMENT = - 501"
| "nghttp2_error_code ERR_BUFFER_ERROR = - 502"
| "nghttp2_error_code ERR_UNSUPPORTED_VERSION = - 503"
| "nghttp2_error_code ERR_WOULDBLOCK = - 504"
| "nghttp2_error_code ERR_PROTO = - 505"
| "nghttp2_error_code ERR_INVALID_FRAME = - 506"
| "nghttp2_error_code ERR_EOF = - 507"
| "nghttp2_error_code ERR_DEFERRED = - 508"
| "nghttp2_error_code ERR_STREAM_ID_NOT_AVAILABLE = - 509"
| "nghttp2_error_code ERR_STREAM_CLOSED = - 510"
| "nghttp2_error_code ERR_STREAM_CLOSING = - 511"
| "nghttp2_error_code ERR_STREAM_SHUT_WR = - 512"
| "nghttp2_error_code ERR_INVALID_STREAM_ID = - 513"
| "nghttp2_error_code ERR_INVALID_STREAM_STATE = - 514"
| "nghttp2_error_code ERR_DEFERRED_DATA_EXIST = - 515"
| "nghttp2_error_code ERR_START_STREAM_NOT_ALLOWED = - 516"
| "nghttp2_error_code ERR_GOAWAY_ALREADY_SENT = - 517"
| "nghttp2_error_code ERR_INVALID_HEADER_BLOCK = - 518"
| "nghttp2_error_code ERR_INVALID_STATE = - 519"
| "nghttp2_error_code ERR_TEMPORAL_CALLBACK_FAILURE = - 521"
| "nghttp2_error_code ERR_FRAME_SIZE_ERROR = - 522"
| "nghttp2_error_code ERR_HEADER_COMP = - 523"
| "nghttp2_error_code ERR_FLOW_CONTROL = - 524"
| "nghttp2_error_code ERR_INSUFF_BUFSIZE = - 525"
| "nghttp2_error_code ERR_PAUSE = - 526"
| "nghttp2_error_code ERR_TOO_MANY_INFLIGHT_SETTINGS = - 527"
| "nghttp2_error_code ERR_PUSH_DISABLED = - 528"
| "nghttp2_error_code ERR_DATA_EXIST = - 529"
| "nghttp2_error_code ERR_SESSION_CLOSING = - 530"
| "nghttp2_error_code ERR_HTTP_HEADER = - 531"
| "nghttp2_error_code ERR_HTTP_MESSAGING = - 532"
| "nghttp2_error_code ERR_REFUSED_STREAM = - 533"
| "nghttp2_error_code ERR_INTERNAL = - 534"
| "nghttp2_error_code ERR_CANCEL = - 535"
| "nghttp2_error_code ERR_SETTINGS_EXPECTED = - 536"
| "nghttp2_error_code ERR_TOO_MANY_SETTINGS = - 537"
| "nghttp2_error_code ERR_FATAL = - 900"
| "nghttp2_error_code ERR_NOMEM = - 901"
| "nghttp2_error_code ERR_CALLBACK_FAILURE = - 902"
| "nghttp2_error_code ERR_BAD_CLIENT_MAGIC = - 903"
| "nghttp2_error_code ERR_FLOODED = - 904"
| "nghttp2_error_code ERR_TOO_MANY_CONTINUATIONS = - 905"
| "nghttp2_error_code ERR_IGN_HEADER_BLOCK = - 103"
| "nghttp2_error_code ERR_IGN_PAYLOAD = - 104"
| "nghttp2_error_code ERR_IGN_HTTP_HEADER = - 105"
| "nghttp2_error_code ERR_REMOVE_HTTP_HEADER = - 106"
| "nghttp2_error_code ERR_PUSH_CANCEL = - 107"

section \<open>The allocator\<close>

text \<open>
  The application supplies the allocator (\<open>nghttp2_mem\<close>). What the library sees of it is
  whether a request returns NULL: the model is the sequence of the outcomes of the next
  requests, so that a theorem that quantifies over it covers every pattern of failures. When
  the sequence is used up, requests succeed.
\<close>

type_synonym nghttp2_mem = "bool list"

fun mem_alloc :: "nghttp2_mem \<Rightarrow> bool \<times> nghttp2_mem" where
  "mem_alloc [] = (True, [])"
| "mem_alloc (ok # outcomes) = (ok, outcomes)"

section \<open>Shared collections and lemmas\<close>

named_theorems wf_intros \<open>introduction rules for the well-formedness invariants\<close>

named_theorems byte_simps \<open>the content of byte arrays\<close>

text \<open>Writing a block of bytes into an array at an offset, as \<open>memcpy\<close> does.\<close>

definition blit :: "nat \<Rightarrow> 'a list \<Rightarrow> 'a list \<Rightarrow> 'a list" where
  "blit i xs mem = take i mem @ xs @ drop (i + length xs) mem"

lemma length_blit [simp]: "i + length xs \<le> length mem \<Longrightarrow> length (blit i xs mem) = length mem"
  by (simp add: blit_def)

lemma blit_Nil [simp]: "i \<le> length mem \<Longrightarrow> blit i [] mem = mem"
  by (simp add: blit_def)

lemma take_blit_before [simp]:
  "n \<le> i \<Longrightarrow> i \<le> length mem \<Longrightarrow> take n (blit i xs mem) = take n mem"
  by (simp add: blit_def min_def)

lemma take_blit_end [simp]:
  "i \<le> length mem \<Longrightarrow> n = i + length xs \<Longrightarrow> take n (blit i xs mem) = take i mem @ xs"
  by (simp add: blit_def)

lemma drop_blit_after [simp]:
  "i + length xs \<le> n \<Longrightarrow> i + length xs \<le> length mem \<Longrightarrow> drop n (blit i xs mem) = drop n mem"
  by (simp add: blit_def)

lemma drop_blit_at:
  "i + length xs \<le> length mem \<Longrightarrow> drop i (blit i xs mem) = xs @ drop (i + length xs) mem"
  by (simp add: blit_def)

lemma blit_one: "i < length mem \<Longrightarrow> blit i [x] mem = mem[i := x]"
  by (simp add: blit_def upd_conv_take_nth_drop)

text \<open>The segment \<open>[i, j)\<close> of an array.\<close>

definition segment :: "nat \<Rightarrow> nat \<Rightarrow> 'a list \<Rightarrow> 'a list" where
  "segment i j mem = take (j - i) (drop i mem)"

lemma length_segment [simp]: "j \<le> length mem \<Longrightarrow> length (segment i j mem) = j - i"
  by (simp add: segment_def)

lemma segment_same [simp]: "segment i i mem = []"
  by (simp add: segment_def)

lemma segment_empty [simp]: "j \<le> i \<Longrightarrow> segment i j mem = []"
  by (simp add: segment_def)

lemma segment_take: "segment i j mem = drop i (take j mem)"
  by (simp add: segment_def drop_take)

lemma segment_split: "i \<le> j \<Longrightarrow> j \<le> k \<Longrightarrow> segment i k mem = segment i j mem @ segment j k mem"
proof -
  assume "i \<le> j" and "j \<le> k"
  then have "take (k - i) (drop i mem) = take (j - i + (k - j)) (drop i mem)" by simp
  also have "\<dots> = take (j - i) (drop i mem) @ take (k - j) (drop (j - i) (drop i mem))"
    by (rule take_add)
  finally show ?thesis using \<open>i \<le> j\<close> by (simp add: segment_def)
qed

lemma segment_blit_append:
  assumes "i \<le> j" and "j \<le> length mem"
  shows "segment i (j + length xs) (blit j xs mem) = segment i j mem @ xs"
  using assms by (simp add: segment_take)

lemma segment_blit_outside:
  assumes "i + length xs \<le> j" and "i + length xs \<le> length mem"
  shows "segment j k (blit i xs mem) = segment j k mem"
  using assms by (simp add: segment_def)

lemma segment_blit_prepend:
  assumes "i + length xs \<le> k" and "k \<le> length mem"
  shows "segment i k (blit i xs mem) = xs @ segment (i + length xs) k mem"
  using assms by (simp add: segment_def drop_blit_at)

text \<open>Bytes and words.\<close>

lemma unat_u8_lt [simp]: "unat (b :: u8) < 256"
  using unsigned_less [of b] by simp

lemma uint_u8_lt [simp]: "uint (b :: u8) < 256"
  using unsigned_less [of b] by simp

lemma word_of_nat_unat_u8 [simp]: "word_of_nat (unat (b :: u8)) = b"
  by simp

end
