(* ===== verification/Nghttp2_Helper.thy ===== *)
theory Nghttp2_Helper
  imports Nghttp2_Base "HOL-Library.Monad_Syntax"
begin

text \<open>
  Model of \<open>src/src/nghttp2/lib/nghttp2_helper.c\<close>: byte-order conversion, the character
  tables and the checks of header names, header values, methods, paths and authorities, the
  arithmetic of flow-control windows, and the error strings.
\<close>

section \<open>Byte order\<close>

text \<open>
  \<open>htons\<close>/\<open>htonl\<close> followed by \<open>memcpy\<close> store the most significant byte first on every
  host; the functions return the bytes they store.
\<close>

definition nghttp2_put_uint16be :: "u16 \<Rightarrow> bytes" where
  "nghttp2_put_uint16be n = [ucast (drop_bit 8 n), ucast n]"

definition nghttp2_put_uint32be :: "u32 \<Rightarrow> bytes" where
  "nghttp2_put_uint32be n =
     [ucast (drop_bit 24 n), ucast (drop_bit 16 n), ucast (drop_bit 8 n), ucast n]"

definition nghttp2_get_uint16 :: "bytes \<Rightarrow> u16" where
  "nghttp2_get_uint16 data = push_bit 8 (ucast (data ! 0)) OR ucast (data ! 1)"

definition nghttp2_get_uint32 :: "bytes \<Rightarrow> u32" where
  "nghttp2_get_uint32 data =
     push_bit 24 (ucast (data ! 0)) OR push_bit 16 (ucast (data ! 1)) OR
     push_bit 8 (ucast (data ! 2)) OR ucast (data ! 3)"

section \<open>Case mapping\<close>

definition DOWNCASE_TBL :: "u8 list" where
  "DOWNCASE_TBL = [
  0, 1, 2, 3, 4, 5, 6, 7, 8, 9, 10, 11, 12, 13, 14, 15, 16, 17, 18, 19, 20, 21, 22, 23, 24, 25,
   26, 27, 28, 29, 30, 31, 32, 33, 34, 35, 36, 37, 38, 39, 40, 41, 42, 43, 44, 45, 46, 47, 48,
   49, 50, 51, 52, 53, 54, 55, 56, 57, 58, 59, 60, 61, 62, 63, 64, 97, 98, 99, 100, 101, 102,
   103, 104, 105, 106, 107, 108, 109, 110, 111, 112, 113, 114, 115, 116, 117, 118, 119, 120,
   121, 122, 91, 92, 93, 94, 95, 96, 97, 98, 99, 100, 101, 102, 103, 104, 105, 106, 107, 108,
   109, 110, 111, 112, 113, 114, 115, 116, 117, 118, 119, 120, 121, 122, 123, 124, 125, 126,
   127, 128, 129, 130, 131, 132, 133, 134, 135, 136, 137, 138, 139, 140, 141, 142, 143, 144,
   145, 146, 147, 148, 149, 150, 151, 152, 153, 154, 155, 156, 157, 158, 159, 160, 161, 162,
   163, 164, 165, 166, 167, 168, 169, 170, 171, 172, 173, 174, 175, 176, 177, 178, 179, 180,
   181, 182, 183, 184, 185, 186, 187, 188, 189, 190, 191, 192, 193, 194, 195, 196, 197, 198,
   199, 200, 201, 202, 203, 204, 205, 206, 207, 208, 209, 210, 211, 212, 213, 214, 215, 216,
   217, 218, 219, 220, 221, 222, 223, 224, 225, 226, 227, 228, 229, 230, 231, 232, 233, 234,
   235, 236, 237, 238, 239, 240, 241, 242, 243, 244, 245, 246, 247, 248, 249, 250, 251, 252,
   253, 254, 255]"

fun nghttp2_downcase :: "bytes \<Rightarrow> bytes" where
  "nghttp2_downcase [] = []"
| "nghttp2_downcase (c # s) = DOWNCASE_TBL ! unat c # nghttp2_downcase s"

section \<open>Flow-control windows\<close>


text \<open>
  The four values behind the pointer arguments of \<open>nghttp2_adjust_local_window_size\<close>. All
  of them are \<open>int32_t\<close>, and a signed operation that leaves the range is undefined in C:
  \<open>i32\<close> makes the model return \<open>None\<close> there.
\<close>

record window =
  local_window_size :: int
  recv_window_size :: int
  recv_reduction :: int
  delta :: int

definition i32 :: "int \<Rightarrow> int option" where
  "i32 x = (if int32_ok x then Some x else None)"

definition nghttp2_adjust_local_window_size :: "window \<Rightarrow> (unit res \<times> window) option" where
  "nghttp2_adjust_local_window_size w =
     (if 0 < delta w then do {
        new_recv_window_size \<leftarrow> i32 (max 0 (recv_window_size w) - delta w);
        if 0 \<le> new_recv_window_size
        then Some (Inr (), w\<lparr>recv_window_size := new_recv_window_size\<rparr>)
        else do {
          d \<leftarrow> i32 (- new_recv_window_size);
          limit \<leftarrow> i32 (NGHTTP2_MAX_WINDOW_SIZE - d);
          if limit < local_window_size w then Some (Inl ERR_FLOW_CONTROL, w)
          else do {
            lws \<leftarrow> i32 (local_window_size w + d);
            let recv_reduction_delta = min (recv_reduction w) d;
            red \<leftarrow> i32 (recv_reduction w - recv_reduction_delta);
            rws \<leftarrow> (if recv_window_size w < 0
                    then i32 (recv_window_size w + recv_reduction_delta)
                    else Some recv_reduction_delta);
            dlt \<leftarrow> i32 (delta w - recv_reduction_delta);
            Some (Inr (), \<lparr>local_window_size = lws, recv_window_size = rws,
                           recv_reduction = red, delta = dlt\<rparr>)
          }
        }
      }
      else do {
        lws \<leftarrow> i32 (local_window_size w + delta w);
        if lws < 0 then Some (Inl ERR_FLOW_CONTROL, w)
        else do {
          lo \<leftarrow> i32 (INT32_MIN - delta w);
          if recv_window_size w < lo then Some (Inl ERR_FLOW_CONTROL, w)
          else do {
            hi \<leftarrow> i32 (INT32_MAX + delta w);
            if hi < recv_reduction w then Some (Inl ERR_FLOW_CONTROL, w)
            else do {
              rws \<leftarrow> i32 (recv_window_size w + delta w);
              red \<leftarrow> i32 (recv_reduction w - delta w);
              Some (Inr (), \<lparr>local_window_size = lws, recv_window_size = rws,
                             recv_reduction = red, delta = 0\<rparr>)
            }
          }
        }
      })"

text \<open>The assertion \<open>delta >= 0\<close> of the C function is its failure \<open>None\<close>.\<close>

definition nghttp2_increase_local_window_size :: "window \<Rightarrow> (unit res \<times> window) option" where
  "nghttp2_increase_local_window_size w =
     (if delta w < 0 then None
      else do {
        limit \<leftarrow> i32 (NGHTTP2_MAX_WINDOW_SIZE - delta w);
        if limit < local_window_size w then Some (Inl ERR_FLOW_CONTROL, w)
        else do {
          lws \<leftarrow> i32 (local_window_size w + delta w);
          let recv_reduction_delta = min (recv_reduction w) (delta w);
          red \<leftarrow> i32 (recv_reduction w - recv_reduction_delta);
          rws \<leftarrow> i32 (recv_window_size w + recv_reduction_delta);
          dlt \<leftarrow> i32 (delta w - recv_reduction_delta);
          Some (Inr (), \<lparr>local_window_size = lws, recv_window_size = rws,
                         recv_reduction = red, delta = dlt\<rparr>)
        }
      })"

text \<open>C divides towards zero.\<close>

definition nghttp2_should_send_window_update :: "int \<Rightarrow> int \<Rightarrow> bool" where
  "nghttp2_should_send_window_update lws rws \<longleftrightarrow>
     0 < rws \<and> (if lws < 0 then - (- lws div 2) else lws div 2) \<le> rws"

section \<open>Error strings\<close>

definition nghttp2_strerror :: "int \<Rightarrow> string" where
  "nghttp2_strerror error_code =
    (if error_code = 0 then ''Success''
     else if error_code = - 501 then ''Invalid argument''
     else if error_code = - 502 then ''Out of buffer space''
     else if error_code = - 503 then ''Unsupported SPDY version''
     else if error_code = - 504 then ''Operation would block''
     else if error_code = - 505 then ''Protocol error''
     else if error_code = - 506 then ''Invalid frame octets''
     else if error_code = - 507 then ''EOF''
     else if error_code = - 508 then ''Data transfer deferred''
     else if error_code = - 509 then ''No more Stream ID available''
     else if error_code = - 510 then ''Stream was already closed or invalid''
     else if error_code = - 511 then ''Stream is closing''
     else if error_code = - 512 then ''The transmission is not allowed for this stream''
     else if error_code = - 513 then ''Stream ID is invalid''
     else if error_code = - 514 then ''Invalid stream state''
     else if error_code = - 515 then ''Another DATA frame has already been deferred''
     else if error_code = - 516 then ''request HEADERS is not allowed''
     else if error_code = - 517 then ''GOAWAY has already been sent''
     else if error_code = - 518 then ''Invalid header block''
     else if error_code = - 519 then ''Invalid state''
     else if error_code = - 521 then ''The user callback function failed due to the temporal error''
     else if error_code = - 522 then ''The length of the frame is invalid''
     else if error_code = - 523 then ''Header compression/decompression error''
     else if error_code = - 524 then ''Flow control error''
     else if error_code = - 525 then ''Insufficient buffer size given to function''
     else if error_code = - 526 then ''Callback was paused by the application''
     else if error_code = - 527 then ''Too many inflight SETTINGS''
     else if error_code = - 528 then ''Server push is disabled by peer''
     else if error_code = - 529 then ''DATA or HEADERS frame has already been submitted for the stream''
     else if error_code = - 530 then ''The current session is closing''
     else if error_code = - 531 then ''Invalid HTTP header field was received''
     else if error_code = - 532 then ''Violation in HTTP messaging rule''
     else if error_code = - 533 then ''Stream was refused''
     else if error_code = - 534 then ''Internal error''
     else if error_code = - 535 then ''Cancel''
     else if error_code = - 536 then ''When a local endpoint expects to receive SETTINGS frame, it receives an other type of frame''
     else if error_code = - 901 then ''Out of memory''
     else if error_code = - 902 then ''The user callback function failed''
     else if error_code = - 903 then ''Received bad client magic byte string''
     else if error_code = - 904 then ''Flooding was detected in this HTTP/2 session, and it must be closed''
     else if error_code = - 537 then ''SETTINGS frame contained more than the maximum allowed entries''
     else if error_code = - 905 then ''Too many CONTINUATION frames following a HEADER frame''
     else ''Unknown error code'')"

section \<open>Character classes\<close>

text \<open>The loop that every check shares: stop at the first byte whose table entry is zero.\<close>

fun check_chars :: "nat list \<Rightarrow> bytes \<Rightarrow> bool" where
  "check_chars tbl [] = True"
| "check_chars tbl (c # s) = (if tbl ! unat c = 0 then False else check_chars tbl s)"

definition VALID_HD_NAME_CHARS :: "nat list" where
  "VALID_HD_NAME_CHARS = [
  0, 0, 0, 0, 0, 0, 0, 0, 0, 0, 0, 0, 0, 0, 0, 0, 0, 0, 0, 0, 0, 0, 0, 0, 0, 0, 0, 0, 0, 0, 0,
   0, 0, 1, 0, 1, 1, 1, 1, 1, 0, 0, 1, 1, 0, 1, 1, 0, 1, 1, 1, 1, 1, 1, 1, 1, 1, 1, 0, 0, 0, 0,
   0, 0, 0, 0, 0, 0, 0, 0, 0, 0, 0, 0, 0, 0, 0, 0, 0, 0, 0, 0, 0, 0, 0, 0, 0, 0, 0, 0, 0, 0, 0,
   0, 1, 1, 1, 1, 1, 1, 1, 1, 1, 1, 1, 1, 1, 1, 1, 1, 1, 1, 1, 1, 1, 1, 1, 1, 1, 1, 1, 1, 1, 0,
   1, 0, 1, 0, 0, 0, 0, 0, 0, 0, 0, 0, 0, 0, 0, 0, 0, 0, 0, 0, 0, 0, 0, 0, 0, 0, 0, 0, 0, 0, 0,
   0, 0, 0, 0, 0, 0, 0, 0, 0, 0, 0, 0, 0, 0, 0, 0, 0, 0, 0, 0, 0, 0, 0, 0, 0, 0, 0, 0, 0, 0, 0,
   0, 0, 0, 0, 0, 0, 0, 0, 0, 0, 0, 0, 0, 0, 0, 0, 0, 0, 0, 0, 0, 0, 0, 0, 0, 0, 0, 0, 0, 0, 0,
   0, 0, 0, 0, 0, 0, 0, 0, 0, 0, 0, 0, 0, 0, 0, 0, 0, 0, 0, 0, 0, 0, 0, 0, 0, 0, 0, 0, 0, 0, 0,
   0, 0, 0, 0, 0, 0, 0, 0]"

definition nghttp2_check_header_name :: "bytes \<Rightarrow> bool" where
  "nghttp2_check_header_name name =
     (if length name = 0 then False
      else if name ! 0 = 58 then
        (if length name = 1 then False else check_chars VALID_HD_NAME_CHARS (drop 1 name))
      else check_chars VALID_HD_NAME_CHARS name)"

definition VALID_HD_VALUE_CHARS :: "nat list" where
  "VALID_HD_VALUE_CHARS = [
  0, 0, 0, 0, 0, 0, 0, 0, 0, 1, 0, 0, 0, 0, 0, 0, 0, 0, 0, 0, 0, 0, 0, 0, 0, 0, 0, 0, 0, 0, 0,
   0, 1, 1, 1, 1, 1, 1, 1, 1, 1, 1, 1, 1, 1, 1, 1, 1, 1, 1, 1, 1, 1, 1, 1, 1, 1, 1, 1, 1, 1, 1,
   1, 1, 1, 1, 1, 1, 1, 1, 1, 1, 1, 1, 1, 1, 1, 1, 1, 1, 1, 1, 1, 1, 1, 1, 1, 1, 1, 1, 1, 1, 1,
   1, 1, 1, 1, 1, 1, 1, 1, 1, 1, 1, 1, 1, 1, 1, 1, 1, 1, 1, 1, 1, 1, 1, 1, 1, 1, 1, 1, 1, 1, 1,
   1, 1, 1, 0, 1, 1, 1, 1, 1, 1, 1, 1, 1, 1, 1, 1, 1, 1, 1, 1, 1, 1, 1, 1, 1, 1, 1, 1, 1, 1, 1,
   1, 1, 1, 1, 1, 1, 1, 1, 1, 1, 1, 1, 1, 1, 1, 1, 1, 1, 1, 1, 1, 1, 1, 1, 1, 1, 1, 1, 1, 1, 1,
   1, 1, 1, 1, 1, 1, 1, 1, 1, 1, 1, 1, 1, 1, 1, 1, 1, 1, 1, 1, 1, 1, 1, 1, 1, 1, 1, 1, 1, 1, 1,
   1, 1, 1, 1, 1, 1, 1, 1, 1, 1, 1, 1, 1, 1, 1, 1, 1, 1, 1, 1, 1, 1, 1, 1, 1, 1, 1, 1, 1, 1, 1,
   1, 1, 1, 1, 1, 1, 1, 1]"

definition nghttp2_check_header_value :: "bytes \<Rightarrow> bool" where
  "nghttp2_check_header_value value = check_chars VALID_HD_VALUE_CHARS value"

definition nghttp2_check_header_value_rfc9113 :: "bytes \<Rightarrow> bool" where
  "nghttp2_check_header_value_rfc9113 value =
     (if length value = 0 then True
      else if value ! 0 = 32 \<or> value ! 0 = 9 \<or> value ! (length value - 1) = 32 \<or>
              value ! (length value - 1) = 9 then False
      else nghttp2_check_header_value value)"

definition VALID_METHOD_CHARS :: "nat list" where
  "VALID_METHOD_CHARS = [
  0, 0, 0, 0, 0, 0, 0, 0, 0, 0, 0, 0, 0, 0, 0, 0, 0, 0, 0, 0, 0, 0, 0, 0, 0, 0, 0, 0, 0, 0, 0,
   0, 0, 1, 0, 1, 1, 1, 1, 1, 0, 0, 1, 1, 0, 1, 1, 0, 1, 1, 1, 1, 1, 1, 1, 1, 1, 1, 0, 0, 0, 0,
   0, 0, 0, 1, 1, 1, 1, 1, 1, 1, 1, 1, 1, 1, 1, 1, 1, 1, 1, 1, 1, 1, 1, 1, 1, 1, 1, 1, 1, 0, 0,
   0, 1, 1, 1, 1, 1, 1, 1, 1, 1, 1, 1, 1, 1, 1, 1, 1, 1, 1, 1, 1, 1, 1, 1, 1, 1, 1, 1, 1, 1, 0,
   1, 0, 1, 0, 0, 0, 0, 0, 0, 0, 0, 0, 0, 0, 0, 0, 0, 0, 0, 0, 0, 0, 0, 0, 0, 0, 0, 0, 0, 0, 0,
   0, 0, 0, 0, 0, 0, 0, 0, 0, 0, 0, 0, 0, 0, 0, 0, 0, 0, 0, 0, 0, 0, 0, 0, 0, 0, 0, 0, 0, 0, 0,
   0, 0, 0, 0, 0, 0, 0, 0, 0, 0, 0, 0, 0, 0, 0, 0, 0, 0, 0, 0, 0, 0, 0, 0, 0, 0, 0, 0, 0, 0, 0,
   0, 0, 0, 0, 0, 0, 0, 0, 0, 0, 0, 0, 0, 0, 0, 0, 0, 0, 0, 0, 0, 0, 0, 0, 0, 0, 0, 0, 0, 0, 0,
   0, 0, 0, 0, 0, 0, 0, 0]"

definition nghttp2_check_method :: "bytes \<Rightarrow> bool" where
  "nghttp2_check_method value =
     (if length value = 0 then False else check_chars VALID_METHOD_CHARS value)"

definition VALID_PATH_CHARS :: "nat list" where
  "VALID_PATH_CHARS = [
  0, 0, 0, 0, 0, 0, 0, 0, 0, 0, 0, 0, 0, 0, 0, 0, 0, 0, 0, 0, 0, 0, 0, 0, 0, 0, 0, 0, 0, 0, 0,
   0, 0, 1, 1, 1, 1, 1, 1, 1, 1, 1, 1, 1, 1, 1, 1, 1, 1, 1, 1, 1, 1, 1, 1, 1, 1, 1, 1, 1, 1, 1,
   1, 1, 1, 1, 1, 1, 1, 1, 1, 1, 1, 1, 1, 1, 1, 1, 1, 1, 1, 1, 1, 1, 1, 1, 1, 1, 1, 1, 1, 1, 1,
   1, 1, 1, 1, 1, 1, 1, 1, 1, 1, 1, 1, 1, 1, 1, 1, 1, 1, 1, 1, 1, 1, 1, 1, 1, 1, 1, 1, 1, 1, 1,
   1, 1, 1, 0, 1, 1, 1, 1, 1, 1, 1, 1, 1, 1, 1, 1, 1, 1, 1, 1, 1, 1, 1, 1, 1, 1, 1, 1, 1, 1, 1,
   1, 1, 1, 1, 1, 1, 1, 1, 1, 1, 1, 1, 1, 1, 1, 1, 1, 1, 1, 1, 1, 1, 1, 1, 1, 1, 1, 1, 1, 1, 1,
   1, 1, 1, 1, 1, 1, 1, 1, 1, 1, 1, 1, 1, 1, 1, 1, 1, 1, 1, 1, 1, 1, 1, 1, 1, 1, 1, 1, 1, 1, 1,
   1, 1, 1, 1, 1, 1, 1, 1, 1, 1, 1, 1, 1, 1, 1, 1, 1, 1, 1, 1, 1, 1, 1, 1, 1, 1, 1, 1, 1, 1, 1,
   1, 1, 1, 1, 1, 1, 1, 1]"

definition nghttp2_check_path :: "bytes \<Rightarrow> bool" where
  "nghttp2_check_path value = check_chars VALID_PATH_CHARS value"

definition VALID_AUTHORITY_CHARS :: "nat list" where
  "VALID_AUTHORITY_CHARS = [
  0, 0, 0, 0, 0, 0, 0, 0, 0, 0, 0, 0, 0, 0, 0, 0, 0, 0, 0, 0, 0, 0, 0, 0, 0, 0, 0, 0, 0, 0, 0,
   0, 0, 1, 0, 0, 1, 1, 1, 1, 1, 1, 1, 1, 1, 1, 1, 0, 1, 1, 1, 1, 1, 1, 1, 1, 1, 1, 1, 1, 0, 1,
   0, 0, 1, 1, 1, 1, 1, 1, 1, 1, 1, 1, 1, 1, 1, 1, 1, 1, 1, 1, 1, 1, 1, 1, 1, 1, 1, 1, 1, 1, 0,
   1, 0, 1, 0, 1, 1, 1, 1, 1, 1, 1, 1, 1, 1, 1, 1, 1, 1, 1, 1, 1, 1, 1, 1, 1, 1, 1, 1, 1, 1, 0,
   0, 0, 1, 0, 0, 0, 0, 0, 0, 0, 0, 0, 0, 0, 0, 0, 0, 0, 0, 0, 0, 0, 0, 0, 0, 0, 0, 0, 0, 0, 0,
   0, 0, 0, 0, 0, 0, 0, 0, 0, 0, 0, 0, 0, 0, 0, 0, 0, 0, 0, 0, 0, 0, 0, 0, 0, 0, 0, 0, 0, 0, 0,
   0, 0, 0, 0, 0, 0, 0, 0, 0, 0, 0, 0, 0, 0, 0, 0, 0, 0, 0, 0, 0, 0, 0, 0, 0, 0, 0, 0, 0, 0, 0,
   0, 0, 0, 0, 0, 0, 0, 0, 0, 0, 0, 0, 0, 0, 0, 0, 0, 0, 0, 0, 0, 0, 0, 0, 0, 0, 0, 0, 0, 0, 0,
   0, 0, 0, 0, 0, 0, 0, 0]"

definition nghttp2_check_authority :: "bytes \<Rightarrow> bool" where
  "nghttp2_check_authority value = check_chars VALID_AUTHORITY_CHARS value"

section \<open>Memory copy and HTTP/2 error strings\<close>

text \<open>
  The destination is an array and an offset; the result is the array after the copy and the
  offset one beyond the copied bytes.
\<close>

definition nghttp2_cpymem :: "bytes \<Rightarrow> nat \<Rightarrow> bytes \<Rightarrow> bytes \<times> nat" where
  "nghttp2_cpymem mem dest src =
     (if length src = 0 then (mem, dest) else (blit dest src mem, dest + length src))"

definition nghttp2_http2_strerror :: "u32 \<Rightarrow> string" where
  "nghttp2_http2_strerror error_code =
    (if error_code = 0 then ''NO_ERROR''
     else if error_code = 1 then ''PROTOCOL_ERROR''
     else if error_code = 2 then ''INTERNAL_ERROR''
     else if error_code = 3 then ''FLOW_CONTROL_ERROR''
     else if error_code = 4 then ''SETTINGS_TIMEOUT''
     else if error_code = 5 then ''STREAM_CLOSED''
     else if error_code = 6 then ''FRAME_SIZE_ERROR''
     else if error_code = 7 then ''REFUSED_STREAM''
     else if error_code = 8 then ''CANCEL''
     else if error_code = 9 then ''COMPRESSION_ERROR''
     else if error_code = 10 then ''CONNECT_ERROR''
     else if error_code = 11 then ''ENHANCE_YOUR_CALM''
     else if error_code = 12 then ''INADEQUATE_SECURITY''
     else if error_code = 13 then ''HTTP_1_1_REQUIRED''
     else ''unknown'')"

section \<open>Byte order: round trips\<close>

lemma bit_u8_high [simp]: "8 \<le> i \<Longrightarrow> \<not> bit (b :: u8) i"
  using bit_imp_le_length [of b i] by auto

lemma length_2_conv: "length xs = 2 \<longleftrightarrow> (\<exists>a b. xs = [a, b])"
  by (auto simp: length_Suc_conv numeral_eq_Suc)

lemma length_4_conv: "length xs = 4 \<longleftrightarrow> (\<exists>a b c d. xs = [a, b, c, d])"
  by (auto simp: length_Suc_conv numeral_eq_Suc)

lemma length_put_uint16 [simp]: "length (nghttp2_put_uint16be n) = 2"
  by (simp add: nghttp2_put_uint16be_def)

lemma length_put_uint32 [simp]: "length (nghttp2_put_uint32be n) = 4"
  by (simp add: nghttp2_put_uint32be_def)

lemma get_put_uint16 [simp]: "nghttp2_get_uint16 (nghttp2_put_uint16be n @ s) = n"
  by (rule bit_word_eqI)
    (auto simp: nghttp2_get_uint16_def nghttp2_put_uint16be_def bit_simps)

lemma get_put_uint32 [simp]: "nghttp2_get_uint32 (nghttp2_put_uint32be n @ s) = n"
proof (rule bit_word_eqI)
  fix i
  assume "i < LENGTH(32)"
  then show "bit (nghttp2_get_uint32 (nghttp2_put_uint32be n @ s)) i = bit n i"
    by (cases "i < 8"; cases "i < 16"; cases "i < 24")
      (auto simp: nghttp2_get_uint32_def nghttp2_put_uint32be_def bit_simps)
qed

lemmas get_put_uint_exact [simp] =
  get_put_uint16 [where s = "[]", simplified] get_put_uint32 [where s = "[]", simplified]

lemma put_get_uint16:
  "length data = 2 \<Longrightarrow> nghttp2_put_uint16be (nghttp2_get_uint16 data) = data"
  unfolding length_2_conv
  by (auto simp: nghttp2_get_uint16_def nghttp2_put_uint16be_def bit_simps
      intro!: bit_word_eqI)

lemma put_get_uint32:
  "length data = 4 \<Longrightarrow> nghttp2_put_uint32be (nghttp2_get_uint32 data) = data"
  unfolding length_4_conv
  by (auto simp: nghttp2_get_uint32_def nghttp2_put_uint32be_def bit_simps
      intro!: bit_word_eqI)

section \<open>Character tables against their grammar\<close>

definition is_lower :: "int \<Rightarrow> bool" where "is_lower c \<longleftrightarrow> 97 \<le> c \<and> c \<le> 122"

definition is_upper :: "int \<Rightarrow> bool" where "is_upper c \<longleftrightarrow> 65 \<le> c \<and> c \<le> 90"

definition is_digit :: "int \<Rightarrow> bool" where "is_digit c \<longleftrightarrow> 48 \<le> c \<and> c \<le> 57"

definition is_one_of :: "string \<Rightarrow> int \<Rightarrow> bool" where
  "is_one_of s c \<longleftrightarrow> c \<in> set (map of_char s)"

text \<open>
  The \<open>tchar\<close> of RFC 9110 without the letters and digits; the byte 39 is the apostrophe.
\<close>

definition token_symbols :: string where
  "token_symbols = ''!#$%&*+-.^_`|~'' @ [CHR 39]"

definition authority_symbols :: string where
  "authority_symbols = ''!$%&()*+,-.:;=@[]_~'' @ [CHR 39]"

definition name_char :: "int \<Rightarrow> bool" where
  "name_char c \<longleftrightarrow> is_lower c \<or> is_digit c \<or> is_one_of token_symbols c"

definition method_char :: "int \<Rightarrow> bool" where
  "method_char c \<longleftrightarrow> is_lower c \<or> is_upper c \<or> is_digit c \<or> is_one_of token_symbols c"

definition value_char :: "int \<Rightarrow> bool" where
  "value_char c \<longleftrightarrow> c = 9 \<or> 32 \<le> c \<and> c \<noteq> 127"

definition path_char :: "int \<Rightarrow> bool" where
  "path_char c \<longleftrightarrow> 33 \<le> c \<and> c \<noteq> 127"

definition authority_char :: "int \<Rightarrow> bool" where
  "authority_char c \<longleftrightarrow> is_lower c \<or> is_upper c \<or> is_digit c \<or> is_one_of authority_symbols c"

lemma is_token_symbol:
  "is_one_of token_symbols c \<longleftrightarrow> c \<in> {33, 35, 36, 37, 38, 39, 42, 43, 45, 46, 94, 95, 96, 124, 126}"
  by (auto simp: is_one_of_def token_symbols_def)

lemma is_authority_symbol:
  "is_one_of authority_symbols c \<longleftrightarrow>
   c \<in> {33, 36, 37, 38, 39, 40, 41, 42, 43, 44, 45, 46, 58, 59, 61, 64, 91, 93, 95, 126}"
  by (auto simp: is_one_of_def authority_symbols_def)

lemmas char_class_defs = name_char_def method_char_def value_char_def path_char_def
  authority_char_def is_lower_def is_upper_def is_digit_def is_token_symbol is_authority_symbol

text \<open>A table of 256 entries against the function that it tabulates, from index \<open>n\<close> on.\<close>

fun table_of :: "(int \<Rightarrow> 'a) \<Rightarrow> int \<Rightarrow> 'a list \<Rightarrow> bool" where
  "table_of f n [] \<longleftrightarrow> n = 256"
| "table_of f n (x # xs) \<longleftrightarrow> x = f n \<and> table_of f (n + 1) xs"

lemma table_of_nth: "table_of f n xs \<Longrightarrow> i < length xs \<Longrightarrow> xs ! i = f (n + int i)"
  by (induction f n xs arbitrary: i rule: table_of.induct) (auto simp: nth_Cons' add_ac)

lemma table_of_length: "table_of f n xs \<Longrightarrow> n + int (length xs) = 256"
  by (induction f n xs rule: table_of.induct) auto

lemma table_of_u8: "table_of f 0 tbl \<Longrightarrow> tbl ! unat (c :: u8) = f (uint c)"
  using table_of_nth [of f 0 tbl "unat c"] table_of_length [of f 0 tbl] unat_u8_lt [of c]
  by simp

definition flag :: "(int \<Rightarrow> bool) \<Rightarrow> int \<Rightarrow> nat" where
  "flag P c = (if P c then 1 else 0)"

lemma VALID_HD_NAME_CHARS_table: "table_of (flag name_char) 0 VALID_HD_NAME_CHARS"
  by (simp add: VALID_HD_NAME_CHARS_def flag_def char_class_defs)

lemma VALID_HD_VALUE_CHARS_table: "table_of (flag value_char) 0 VALID_HD_VALUE_CHARS"
  by (simp add: VALID_HD_VALUE_CHARS_def flag_def char_class_defs)

lemma VALID_METHOD_CHARS_table: "table_of (flag method_char) 0 VALID_METHOD_CHARS"
  by (simp add: VALID_METHOD_CHARS_def flag_def char_class_defs)

lemma VALID_PATH_CHARS_table: "table_of (flag path_char) 0 VALID_PATH_CHARS"
  by (simp add: VALID_PATH_CHARS_def flag_def char_class_defs)

lemma VALID_AUTHORITY_CHARS_table: "table_of (flag authority_char) 0 VALID_AUTHORITY_CHARS"
  by (simp add: VALID_AUTHORITY_CHARS_def flag_def char_class_defs)

lemma check_chars_table:
  "table_of (flag P) 0 tbl \<Longrightarrow> check_chars tbl s \<longleftrightarrow> list_all (\<lambda>c. P (uint c)) s"
  by (induction s) (auto simp: table_of_u8 flag_def)

lemmas check_chars_tables =
  VALID_HD_NAME_CHARS_table [THEN check_chars_table]
  VALID_HD_VALUE_CHARS_table [THEN check_chars_table]
  VALID_METHOD_CHARS_table [THEN check_chars_table]
  VALID_PATH_CHARS_table [THEN check_chars_table]
  VALID_AUTHORITY_CHARS_table [THEN check_chars_table]

definition downcase_char :: "int \<Rightarrow> u8" where
  "downcase_char c = (if is_upper c then word_of_int (c + 32) else word_of_int c)"

lemma DOWNCASE_TBL_table: "table_of downcase_char 0 DOWNCASE_TBL"
  by (simp add: DOWNCASE_TBL_def downcase_char_def is_upper_def)

lemma nghttp2_downcase_map:
  "nghttp2_downcase s = map (\<lambda>c. if is_upper (uint c) then c + 32 else c) s"
  by (induction s) (auto simp: table_of_u8 [OF DOWNCASE_TBL_table] downcase_char_def)

lemma length_downcase [simp]: "length (nghttp2_downcase s) = length s"
  by (simp add: nghttp2_downcase_map)

lemma uint_downcased: "is_upper (uint (c :: u8)) \<Longrightarrow> uint (c + 32) = uint c + 32"
  by (simp add: is_upper_def uint_word_ariths)

lemma downcase_no_upper: "c \<in> set (nghttp2_downcase s) \<Longrightarrow> \<not> is_upper (uint c)"
  by (auto simp: nghttp2_downcase_map uint_downcased split: if_splits)
    (auto simp: is_upper_def)

lemma check_header_value_iff:
  "nghttp2_check_header_value v \<longleftrightarrow> list_all (\<lambda>c. value_char (uint c)) v"
  by (simp add: nghttp2_check_header_value_def check_chars_tables)

section \<open>Flow-control windows: no overflow, and the peer's view\<close>

text \<open>
  What the library keeps true of a window: every field is an \<open>int32_t\<close>, the window size is
  not negative and neither is the reduction that is hidden from the peer.
\<close>

definition window_ok :: "window \<Rightarrow> bool" where
  "window_ok w \<longleftrightarrow> 0 \<le> local_window_size w \<and> local_window_size w \<le> NGHTTP2_MAX_WINDOW_SIZE \<and>
     int32_ok (recv_window_size w) \<and> 0 \<le> recv_reduction w \<and> int32_ok (recv_reduction w) \<and>
     int32_ok (delta w)"

text \<open>The number of bytes the peer may still send: what was granted less what has arrived.\<close>

definition peer_window :: "window \<Rightarrow> int" where
  "peer_window w = local_window_size w - recv_window_size w"

lemmas window_defs = window_ok_def peer_window_def NGHTTP2_MAX_WINDOW_SIZE_def int32_defs i32_def

lemma adjust_local_window_size_defined:
  "window_ok w \<Longrightarrow> \<exists>r w'. nghttp2_adjust_local_window_size w = Some (r, w') \<and> window_ok w'"
  by (auto simp: nghttp2_adjust_local_window_size_def window_defs Let_def split: if_splits)

text \<open>
  What an adjustment should do. A positive request first gives back the bytes that have arrived,
  and what goes beyond them enlarges the window; a negative request narrows it. Bytes that an
  earlier narrowing withheld are withheld from the enlargement, and a narrowing withholds all of
  its bytes; so the peer is told the request less what is withheld.
\<close>

definition window_growth :: "window \<Rightarrow> int" where
  "window_growth w =
     (if 0 < delta w then max 0 (delta w - max 0 (recv_window_size w)) else delta w)"

definition window_withheld :: "window \<Rightarrow> int" where
  "window_withheld w =
     (if 0 < delta w then min (recv_reduction w) (window_growth w) else delta w)"

definition window_adjusted :: "window \<Rightarrow> window" where
  "window_adjusted w =
     (let announced = delta w - window_withheld w in
      \<lparr>local_window_size = local_window_size w + window_growth w,
       recv_window_size = recv_window_size w + window_growth w - announced,
       recv_reduction = recv_reduction w - window_withheld w,
       delta = announced\<rparr>)"

definition window_fits :: "window \<Rightarrow> bool" where
  "window_fits w \<longleftrightarrow>
     0 \<le> local_window_size w + window_growth w \<and>
     local_window_size w + window_growth w \<le> NGHTTP2_MAX_WINDOW_SIZE \<and>
     (delta w \<le> 0 \<longrightarrow> INT32_MIN \<le> recv_window_size w + delta w \<and> recv_reduction w - delta w \<le> INT32_MAX)"

lemmas window_spec_defs = window_growth_def window_withheld_def window_adjusted_def window_fits_def

lemma adjust_positive:
  assumes "window_ok w" "0 < delta w"
  shows "nghttp2_adjust_local_window_size w =
    Some (if window_fits w then (Inr (), window_adjusted w) else (Inl ERR_FLOW_CONTROL, w))"
  using assms
  by (auto simp: nghttp2_adjust_local_window_size_def window_defs window_spec_defs Let_def min_def max_def)

lemma adjust_negative:
  assumes "window_ok w" "delta w \<le> 0"
  shows "nghttp2_adjust_local_window_size w =
    Some (if window_fits w then (Inr (), window_adjusted w) else (Inl ERR_FLOW_CONTROL, w))"
  using assms
  by (auto simp: nghttp2_adjust_local_window_size_def window_defs window_spec_defs Let_def)

lemma increase_local_window_size_peer:
  "nghttp2_increase_local_window_size w = Some (Inr (), w') \<Longrightarrow>
   peer_window w' = peer_window w + delta w'"
  by (auto simp: nghttp2_increase_local_window_size_def window_defs Let_def
      split: if_splits bind_splits)

lemma strerror_of_code:
  "e \<noteq> ERR_FATAL \<Longrightarrow> nghttp2_error_code e \<le> - 500 \<Longrightarrow> nghttp2_strerror (nghttp2_error_code e) \<noteq> nghttp2_strerror 1"
  by (cases e) (simp_all add: nghttp2_strerror_def)

section \<open>Properties\<close>



text \<open>
  A header field name passes the check exactly when it is a non-empty token without
  upper-case letters, or such a token after one colon (a pseudo header field).
\<close>

theorem check_header_name_iff:
  "nghttp2_check_header_name name \<longleftrightarrow>
     (\<exists>t. t \<noteq> [] \<and> (name = t \<or> name = 58 # t) \<and> list_all (\<lambda>c. name_char (uint c)) t)"
proof (cases name)
  case Nil
  then show ?thesis by (auto simp: nghttp2_check_header_name_def)
next
  case (Cons c s)
  have "\<not> name_char 58"
    by (simp add: char_class_defs)
  moreover have "(\<exists>t. t \<noteq> [] \<and> (name = t \<or> name = 58 # t) \<and> list_all P t) \<longleftrightarrow>
      list_all P (c # s) \<or> c = 58 \<and> s \<noteq> [] \<and> list_all P s" for P
    using Cons by auto
  moreover have "nghttp2_check_header_name name \<longleftrightarrow>
      (if c = 58 then s \<noteq> [] \<and> list_all (\<lambda>c. name_char (uint c)) s
       else list_all (\<lambda>c. name_char (uint c)) (c # s))"
    unfolding Cons nghttp2_check_header_name_def check_chars_tables by simp
  ultimately show ?thesis by (cases "c = 58") simp_all
qed

text \<open>
  C37. The strict check of RFC 9113 accepts a header field value exactly when every byte is
  HTAB or a visible or extended character, and neither end is a space or a tab.
\<close>

theorem check_header_value_rfc9113_iff:
  "nghttp2_check_header_value_rfc9113 v \<longleftrightarrow>
     list_all (\<lambda>c. value_char (uint c)) v \<and>
     (v = [] \<or> hd v \<notin> {32, 9} \<and> last v \<notin> {32, 9})"
  by (cases "v = []")
    (auto simp: nghttp2_check_header_value_rfc9113_def check_header_value_iff
      hd_conv_nth last_conv_nth)

end
