(* ===== verification/Nghttp2_Buf.thy ===== *)
theory Nghttp2_Buf
  imports Nghttp2_Helper
begin

text \<open>
  Model of \<open>src/src/nghttp2/lib/nghttp2_buf.c\<close> and the macros of \<open>nghttp2_buf.h\<close>: a byte
  buffer with a read and a write position, and a chain of such buffers that grows up to a
  number of chunks. Most of the library writes its output through these functions.
\<close>

section \<open>A single buffer\<close>

text \<open>
  The array \<open>[begin, end)\<close> is the field \<open>arr\<close>; the pointers \<open>pos\<close>, \<open>last\<close> and
  \<open>mark\<close> are offsets from \<open>begin\<close>. A buffer that owns no memory has an empty array. The
  content of memory that was just allocated is not specified in C and is never read before it
  is written; the model fills it with zeros.
\<close>

record nghttp2_buf =
  arr :: bytes
  pos :: nat
  last :: nat
  mark :: nat

definition nghttp2_buf_len :: "nghttp2_buf \<Rightarrow> nat" where
  "nghttp2_buf_len buf = last buf - pos buf"

definition nghttp2_buf_avail :: "nghttp2_buf \<Rightarrow> nat" where
  "nghttp2_buf_avail buf = length (arr buf) - last buf"

definition nghttp2_buf_mark_avail :: "nghttp2_buf \<Rightarrow> nat" where
  "nghttp2_buf_mark_avail buf = mark buf - last buf"

definition nghttp2_buf_cap :: "nghttp2_buf \<Rightarrow> nat" where
  "nghttp2_buf_cap buf = length (arr buf)"

definition nghttp2_buf_shift_right :: "nat \<Rightarrow> nghttp2_buf \<Rightarrow> nghttp2_buf" where
  "nghttp2_buf_shift_right amt buf = buf\<lparr>pos := pos buf + amt, last := last buf + amt\<rparr>"

definition nghttp2_buf_shift_left :: "nat \<Rightarrow> nghttp2_buf \<Rightarrow> nghttp2_buf" where
  "nghttp2_buf_shift_left amt buf = buf\<lparr>pos := pos buf - amt, last := last buf - amt\<rparr>"

definition nghttp2_buf_init :: nghttp2_buf where
  "nghttp2_buf_init = \<lparr>arr = [], pos = 0, last = 0, mark = 0\<rparr>"

definition nghttp2_buf_reserve ::
    "nghttp2_buf \<Rightarrow> nat \<Rightarrow> nghttp2_mem \<Rightarrow> unit res \<times> nghttp2_buf \<times> nghttp2_mem" where
  "nghttp2_buf_reserve buf new_cap mem =
     (let cap = nghttp2_buf_cap buf in
      if new_cap \<le> cap then (Inr (), buf, mem)
      else
        let new_cap = max new_cap (cap * 2);
            (ok, mem) = mem_alloc mem
        in if \<not> ok then (Inl ERR_NOMEM, buf, mem)
           else (Inr (), buf\<lparr>arr := arr buf @ replicate (new_cap - cap) 0\<rparr>, mem))"

definition nghttp2_buf_init2 ::
    "nat \<Rightarrow> nghttp2_mem \<Rightarrow> unit res \<times> nghttp2_buf \<times> nghttp2_mem" where
  "nghttp2_buf_init2 initial mem = nghttp2_buf_reserve nghttp2_buf_init initial mem"

definition nghttp2_buf_free :: "nghttp2_buf \<Rightarrow> nghttp2_buf" where
  "nghttp2_buf_free buf = buf\<lparr>arr := []\<rparr>"

definition nghttp2_buf_reset :: "nghttp2_buf \<Rightarrow> nghttp2_buf" where
  "nghttp2_buf_reset buf = buf\<lparr>pos := 0, last := 0, mark := 0\<rparr>"

text \<open>The buffer borrows the given array and is empty at first.\<close>

definition nghttp2_buf_wrap_init :: "bytes \<Rightarrow> nghttp2_buf" where
  "nghttp2_buf_wrap_init bs = \<lparr>arr = bs, pos = 0, last = 0, mark = 0\<rparr>"

text \<open>
  \<open>buf->last = nghttp2_cpymem(buf->last, p, n)\<close>, the write that every producer of output
  uses.
\<close>

definition buf_write :: "bytes \<Rightarrow> nghttp2_buf \<Rightarrow> nghttp2_buf" where
  "buf_write p buf =
     (let (a, l) = nghttp2_cpymem (arr buf) (last buf) p in buf\<lparr>arr := a, last := l\<rparr>)"

section \<open>A chain of buffers\<close>

text \<open>
  The list \<open>chain\<close> holds the buffers in the order of their \<open>next\<close> pointers, from
  \<open>head\<close>; \<open>cur\<close> is the index of the buffer that is written. The counts that the code
  compares and increments are 64-bit words.
\<close>

record nghttp2_bufs =
  chain :: "nghttp2_buf list"
  cur :: nat
  bufs_mem :: nghttp2_mem
  chunk_length :: nat
  max_chunk :: u64
  chunk_used :: u64
  chunk_keep :: u64
  offset :: nat

abbreviation cur_buf :: "nghttp2_bufs \<Rightarrow> nghttp2_buf" where
  "cur_buf bufs \<equiv> chain bufs ! cur bufs"

definition set_cur_buf :: "nghttp2_buf \<Rightarrow> nghttp2_bufs \<Rightarrow> nghttp2_bufs" where
  "set_cur_buf buf bufs = bufs\<lparr>chain := (chain bufs)[cur bufs := buf]\<rparr>"

definition buf_chain_new ::
    "nat \<Rightarrow> nghttp2_mem \<Rightarrow> nghttp2_buf res \<times> nghttp2_mem" where
  "buf_chain_new len mem =
     (let (ok, mem) = mem_alloc mem in
      if \<not> ok then (Inl ERR_NOMEM, mem)
      else (case nghttp2_buf_init2 len mem of
              (Inl _, _, mem) \<Rightarrow> (Inl ERR_NOMEM, mem)
            | (Inr _, buf, mem) \<Rightarrow> (Inr buf, mem)))"

definition nghttp2_bufs_init3 ::
    "nat \<Rightarrow> u64 \<Rightarrow> u64 \<Rightarrow> nat \<Rightarrow> nghttp2_mem \<Rightarrow> nghttp2_bufs res \<times> nghttp2_mem" where
  "nghttp2_bufs_init3 len maxc keep off mem =
     (if keep = 0 \<or> maxc < keep \<or> len < off then (Inl ERR_INVALID_ARGUMENT, mem)
      else (case buf_chain_new len mem of
              (Inl e, mem) \<Rightarrow> (Inl e, mem)
            | (Inr buf, mem) \<Rightarrow>
                (Inr \<lparr>chain = [nghttp2_buf_shift_right off buf], cur = 0, bufs_mem = mem,
                      chunk_length = len, max_chunk = maxc, chunk_used = 1, chunk_keep = keep,
                      offset = off\<rparr>, mem)))"

definition nghttp2_bufs_init2 ::
    "nat \<Rightarrow> u64 \<Rightarrow> nat \<Rightarrow> nghttp2_mem \<Rightarrow> nghttp2_bufs res \<times> nghttp2_mem" where
  "nghttp2_bufs_init2 len maxc off mem = nghttp2_bufs_init3 len maxc maxc off mem"

definition nghttp2_bufs_init ::
    "nat \<Rightarrow> u64 \<Rightarrow> nghttp2_mem \<Rightarrow> nghttp2_bufs res \<times> nghttp2_mem" where
  "nghttp2_bufs_init len maxc mem = nghttp2_bufs_init2 len maxc 0 mem"

definition nghttp2_bufs_free :: "nghttp2_bufs \<Rightarrow> nghttp2_bufs" where
  "nghttp2_bufs_free bufs = bufs\<lparr>chain := []\<rparr>"

definition nghttp2_bufs_realloc :: "nghttp2_bufs \<Rightarrow> nat \<Rightarrow> unit res \<times> nghttp2_bufs" where
  "nghttp2_bufs_realloc bufs len =
     (if len < offset bufs then (Inl ERR_INVALID_ARGUMENT, bufs)
      else (case buf_chain_new len (bufs_mem bufs) of
              (Inl e, mem) \<Rightarrow> (Inl e, bufs\<lparr>bufs_mem := mem\<rparr>)
            | (Inr buf, mem) \<Rightarrow>
                (Inr (), (nghttp2_bufs_free bufs)
                   \<lparr>chain := [nghttp2_buf_shift_right (offset bufs) buf], cur := 0,
                    bufs_mem := mem, chunk_length := len, chunk_used := 1\<rparr>)))"

definition nghttp2_bufs_wrap_init :: "bytes \<Rightarrow> nghttp2_mem \<Rightarrow> nghttp2_bufs res \<times> nghttp2_mem"
  where
  "nghttp2_bufs_wrap_init bs mem =
     (let (ok, mem) = mem_alloc mem in
      if \<not> ok then (Inl ERR_NOMEM, mem)
      else (Inr \<lparr>chain = [nghttp2_buf_wrap_init bs], cur = 0, bufs_mem = mem,
                 chunk_length = length bs, max_chunk = 1, chunk_used = 1, chunk_keep = 1,
                 offset = 0\<rparr>, mem))"

definition nghttp2_bufs_wrap_init2 ::
    "bytes list \<Rightarrow> nghttp2_mem \<Rightarrow> nghttp2_bufs res \<times> nghttp2_mem" where
  "nghttp2_bufs_wrap_init2 vec mem =
     (if length vec = 0 then nghttp2_bufs_wrap_init [] mem
      else
        let (ok, mem) = mem_alloc mem in
        if \<not> ok then (Inl ERR_NOMEM, mem)
        else (Inr \<lparr>chain = map nghttp2_buf_wrap_init vec, cur = 0, bufs_mem = mem,
                   chunk_length = 0, max_chunk = of_nat (length vec),
                   chunk_used = of_nat (length vec), chunk_keep = of_nat (length vec),
                   offset = 0\<rparr>, mem))"

text \<open>
  \<open>ci\<close> walks from \<open>cur\<close> to the end of the chain; the list is the rest of the chain at
  \<open>ci\<close> and \<open>i\<close> its index.
\<close>

fun seek_last_present :: "nghttp2_buf list \<Rightarrow> nat \<Rightarrow> nat \<Rightarrow> nat" where
  "seek_last_present [] i c = c"
| "seek_last_present (buf # rest) i c =
     (if nghttp2_buf_len buf = 0 then c else seek_last_present rest (Suc i) i)"

definition nghttp2_bufs_seek_last_present :: "nghttp2_bufs \<Rightarrow> nghttp2_bufs" where
  "nghttp2_bufs_seek_last_present bufs =
     bufs\<lparr>cur := seek_last_present (drop (cur bufs) (chain bufs)) (cur bufs) (cur bufs)\<rparr>"

definition nghttp2_bufs_len :: "nghttp2_bufs \<Rightarrow> nat" where
  "nghttp2_bufs_len bufs = sum_list (map nghttp2_buf_len (chain bufs))"

definition bufs_alloc_chain :: "nghttp2_bufs \<Rightarrow> unit res \<times> nghttp2_bufs" where
  "bufs_alloc_chain bufs =
     (if Suc (cur bufs) < length (chain bufs) then (Inr (), bufs\<lparr>cur := Suc (cur bufs)\<rparr>)
      else if max_chunk bufs = chunk_used bufs then (Inl ERR_BUFFER_ERROR, bufs)
      else (case buf_chain_new (chunk_length bufs) (bufs_mem bufs) of
              (Inl e, mem) \<Rightarrow> (Inl e, bufs\<lparr>bufs_mem := mem\<rparr>)
            | (Inr buf, mem) \<Rightarrow>
                (Inr (), bufs\<lparr>chain := chain bufs @ [nghttp2_buf_shift_right (offset bufs) buf],
                              cur := length (chain bufs), bufs_mem := mem,
                              chunk_used := chunk_used bufs + 1\<rparr>)))"

lemma unat_dec_diff: "m \<noteq> u \<Longrightarrow> unat (m - (u + 1)) < unat (m - u)" for m u :: u64
proof -
  assume "m \<noteq> u"
  then have "m - u \<noteq> 0" by simp
  then have "unat (m - u - 1) < unat (m - u)"
    by (simp add: unat_minus_one unat_gt_0)
  then show ?thesis by (simp add: algebra_simps)
qed

lemma bufs_alloc_chain_cases:
  assumes "bufs_alloc_chain bufs = (Inr u, bufs')"
  shows "(chain bufs' = chain bufs \<and> Suc (cur bufs) < length (chain bufs) \<and>
           bufs' = bufs\<lparr>cur := Suc (cur bufs)\<rparr>) \<or>
         (max_chunk bufs \<noteq> chunk_used bufs \<and> max_chunk bufs' = max_chunk bufs \<and>
           chunk_used bufs' = chunk_used bufs + 1)"
  using assms by (auto simp: bufs_alloc_chain_def split: if_splits sum.splits prod.splits)

text \<open>
  Each turn of the loop of \<open>nghttp2_bufs_add\<close> writes bytes, moves to the next buffer, or
  allocates one; the last can happen only until \<open>chunk_used\<close> meets \<open>max_chunk\<close>.
\<close>

function nghttp2_bufs_add :: "nghttp2_bufs \<Rightarrow> bytes \<Rightarrow> unit res \<times> nghttp2_bufs" where
  "nghttp2_bufs_add bufs p =
     (if length p = 0 then (Inr (), bufs)
      else
        let nwrite = min (nghttp2_buf_avail (cur_buf bufs)) (length p) in
        if nwrite = 0 then
          (case bufs_alloc_chain bufs of
             (Inl e, bufs') \<Rightarrow> (Inl e, bufs')
           | (Inr _, bufs') \<Rightarrow> nghttp2_bufs_add bufs' p)
        else nghttp2_bufs_add (set_cur_buf (buf_write (take nwrite p) (cur_buf bufs)) bufs)
               (drop nwrite p))"
  by pat_completeness auto
termination
proof (relation "measures [\<lambda>(b, p). unat (max_chunk b - chunk_used b),
    \<lambda>(b, p). length (chain b) - cur b, \<lambda>(b, p). length p]", goal_cases)
  case 1
  show ?case by simp
next
  case (2 bufs p nwrite x y u)
  from 2(3) have "bufs_alloc_chain bufs = (Inr u, y)" using 2 by simp
  from bufs_alloc_chain_cases [OF this] show ?case
    by (auto simp: unat_dec_diff)
next
  case (3 bufs p nwrite)
  then show ?case by (auto simp: set_cur_buf_def)
qed

declare nghttp2_bufs_add.simps [simp del]

definition bufs_ensure_addb :: "nghttp2_bufs \<Rightarrow> unit res \<times> nghttp2_bufs" where
  "bufs_ensure_addb bufs =
     (if 0 < nghttp2_buf_avail (cur_buf bufs) then (Inr (), bufs) else bufs_alloc_chain bufs)"

text \<open>
  The four single-byte writes differ in what they store at \<open>last\<close> and whether \<open>last\<close>
  moves. After \<open>bufs_ensure_addb\<close> there is room for the byte unless the next chunk has none;
  then C writes (and, for the two \<open>or\<close> operations, reads) outside the array, and the result of
  the model is \<open>None\<close>.
\<close>

definition bufs_store_byte :: "(u8 \<Rightarrow> u8) \<Rightarrow> nat \<Rightarrow> nghttp2_bufs \<Rightarrow> nghttp2_bufs option" where
  "bufs_store_byte f step bufs =
     (let buf = cur_buf bufs in
      if last buf < length (arr buf)
      then Some (set_cur_buf (buf\<lparr>arr := (arr buf)[last buf := f (arr buf ! last buf)],
                                 last := last buf + step\<rparr>) bufs)
      else None)"

definition nghttp2_bufs_addb :: "nghttp2_bufs \<Rightarrow> u8 \<Rightarrow> (unit res \<times> nghttp2_bufs) option" where
  "nghttp2_bufs_addb bufs b =
     (case bufs_ensure_addb bufs of
        (Inl e, bufs) \<Rightarrow> Some (Inl e, bufs)
      | (Inr _, bufs) \<Rightarrow> map_option (Pair (Inr ())) (bufs_store_byte (\<lambda>_. b) 1 bufs))"

definition nghttp2_bufs_addb_hold :: "nghttp2_bufs \<Rightarrow> u8 \<Rightarrow> (unit res \<times> nghttp2_bufs) option" where
  "nghttp2_bufs_addb_hold bufs b =
     (case bufs_ensure_addb bufs of
        (Inl e, bufs) \<Rightarrow> Some (Inl e, bufs)
      | (Inr _, bufs) \<Rightarrow> map_option (Pair (Inr ())) (bufs_store_byte (\<lambda>_. b) 0 bufs))"

definition nghttp2_bufs_orb :: "nghttp2_bufs \<Rightarrow> u8 \<Rightarrow> (unit res \<times> nghttp2_bufs) option" where
  "nghttp2_bufs_orb bufs b =
     (case bufs_ensure_addb bufs of
        (Inl e, bufs) \<Rightarrow> Some (Inl e, bufs)
      | (Inr _, bufs) \<Rightarrow> map_option (Pair (Inr ())) (bufs_store_byte (\<lambda>x. x OR b) 1 bufs))"

definition nghttp2_bufs_orb_hold :: "nghttp2_bufs \<Rightarrow> u8 \<Rightarrow> (unit res \<times> nghttp2_bufs) option" where
  "nghttp2_bufs_orb_hold bufs b =
     (case bufs_ensure_addb bufs of
        (Inl e, bufs) \<Rightarrow> Some (Inl e, bufs)
      | (Inr _, bufs) \<Rightarrow> map_option (Pair (Inr ())) (bufs_store_byte (\<lambda>x. x OR b) 0 bufs))"

text \<open>The bytes of one buffer between \<open>pos\<close> and \<open>last\<close>.\<close>

definition buf_data :: "nghttp2_buf \<Rightarrow> bytes" where
  "buf_data buf = segment (pos buf) (last buf) (arr buf)"

text \<open>The loop that copies every buffer of a chain behind the others.\<close>

fun copy_chain :: "nghttp2_buf list \<Rightarrow> nghttp2_buf \<Rightarrow> nghttp2_buf" where
  "copy_chain [] resbuf = resbuf"
| "copy_chain (buf # rest) resbuf = copy_chain rest (buf_write (buf_data buf) resbuf)"

text \<open>
  The result is the length and what is stored through \<open>out\<close>; \<open>None\<close> means that
  \<open>*out\<close> is left as it was.
\<close>

definition nghttp2_bufs_remove ::
    "nghttp2_bufs \<Rightarrow> (nat \<times> bytes option) res \<times> nghttp2_bufs" where
  "nghttp2_bufs_remove bufs =
     (let len = sum_list (map nghttp2_buf_len (chain bufs)) in
      if len = 0 then (Inr (0, None), bufs)
      else
        let (ok, mem) = mem_alloc (bufs_mem bufs); bufs = bufs\<lparr>bufs_mem := mem\<rparr> in
        if \<not> ok then (Inl ERR_NOMEM, bufs)
        else (Inr (len, Some (arr (copy_chain (chain bufs)
                                (nghttp2_buf_wrap_init (replicate len 0))))), bufs))"

definition nghttp2_bufs_remove_copy :: "nghttp2_bufs \<Rightarrow> bytes \<Rightarrow> nat \<times> bytes" where
  "nghttp2_bufs_remove_copy bufs out =
     (nghttp2_bufs_len bufs, arr (copy_chain (chain bufs) (nghttp2_buf_wrap_init out)))"

text \<open>
  The loop of \<open>nghttp2_bufs_reset\<close>: reset the buffers until \<open>k\<close>, a 64-bit counter that
  starts at \<open>chunk_keep\<close>, comes to zero. The result is the chain up to the buffer where the
  loop stopped, and whether it stopped before the end (\<open>ci\<close> is not NULL).
\<close>

fun reset_chain :: "nat \<Rightarrow> u64 \<Rightarrow> nghttp2_buf list \<Rightarrow> nghttp2_buf list \<times> bool" where
  "reset_chain off k [] = ([], False)"
| "reset_chain off k (buf # rest) =
     (let buf' = nghttp2_buf_shift_right off (nghttp2_buf_reset buf) in
      if k - 1 = 0 then ([buf'], True)
      else (let (rest', stopped) = reset_chain off (k - 1) rest in (buf' # rest', stopped)))"

definition nghttp2_bufs_reset :: "nghttp2_bufs \<Rightarrow> nghttp2_bufs" where
  "nghttp2_bufs_reset bufs =
     (let (ch, stopped) = reset_chain (offset bufs) (chunk_keep bufs) (chain bufs) in
      bufs\<lparr>chain := ch, chunk_used := (if stopped then chunk_keep bufs else chunk_used bufs),
           cur := 0\<rparr>)"

definition nghttp2_bufs_advance :: "nghttp2_bufs \<Rightarrow> unit res \<times> nghttp2_bufs" where
  "nghttp2_bufs_advance bufs = bufs_alloc_chain bufs"

definition nghttp2_bufs_next_present :: "nghttp2_bufs \<Rightarrow> bool" where
  "nghttp2_bufs_next_present bufs \<longleftrightarrow>
     Suc (cur bufs) < length (chain bufs) \<and>
     nghttp2_buf_len (chain bufs ! Suc (cur bufs)) \<noteq> 0"

definition nghttp2_bufs_cur_avail :: "nghttp2_bufs \<Rightarrow> nat" where
  "nghttp2_bufs_cur_avail bufs = nghttp2_buf_avail (cur_buf bufs)"

section \<open>Invariants and content\<close>

definition buf_ok :: "nghttp2_buf \<Rightarrow> bool" where
  "buf_ok buf \<longleftrightarrow> pos buf \<le> last buf \<and> last buf \<le> length (arr buf)"

text \<open>
  A chain is well formed when the current buffer exists, every buffer keeps
  \<open>pos \<le> last \<le> end\<close>, the buffers behind the current one are empty, and the chunk counters
  agree with the chain and its limit.
\<close>

definition bufs_wf :: "nghttp2_bufs \<Rightarrow> bool" where
  "bufs_wf bufs \<longleftrightarrow> cur bufs < length (chain bufs) \<and> list_all buf_ok (chain bufs) \<and>
     list_all (\<lambda>buf. last buf = pos buf) (drop (Suc (cur bufs)) (chain bufs)) \<and>
     unat (chunk_used bufs) = length (chain bufs) \<and> chunk_used bufs \<le> max_chunk bufs \<and>
     offset bufs \<le> chunk_length bufs"

definition bufs_data :: "nghttp2_bufs \<Rightarrow> bytes" where
  "bufs_data bufs = concat (map buf_data (chain bufs))"

text \<open>Every buffer that can become current has room for a byte.\<close>

definition bufs_roomy :: "nghttp2_bufs \<Rightarrow> bool" where
  "bufs_roomy bufs \<longleftrightarrow> offset bufs < chunk_length bufs \<and>
     list_all (\<lambda>buf. 0 < nghttp2_buf_avail buf) (drop (Suc (cur bufs)) (chain bufs))"

lemma buf_ok_write:
  "buf_ok buf \<Longrightarrow> length p \<le> nghttp2_buf_avail buf \<Longrightarrow> buf_ok (buf_write p buf)"
  by (auto simp: buf_ok_def buf_write_def nghttp2_cpymem_def nghttp2_buf_avail_def)

lemma buf_data_write:
  "buf_ok buf \<Longrightarrow> length p \<le> nghttp2_buf_avail buf \<Longrightarrow>
   buf_data (buf_write p buf) = buf_data buf @ p"
  by (auto simp: buf_ok_def buf_write_def nghttp2_cpymem_def nghttp2_buf_avail_def buf_data_def
      segment_blit_append)

lemma avail_write:
  "length p \<le> nghttp2_buf_avail buf \<Longrightarrow> last buf \<le> length (arr buf) \<Longrightarrow>
   nghttp2_buf_avail (buf_write p buf) = nghttp2_buf_avail buf - length p"
  by (auto simp: buf_write_def nghttp2_cpymem_def nghttp2_buf_avail_def)

lemma length_buf_data: "buf_ok buf \<Longrightarrow> length (buf_data buf) = nghttp2_buf_len buf"
  by (simp add: buf_ok_def buf_data_def nghttp2_buf_len_def)

lemma concat_empty_tail:
  "list_all (\<lambda>buf. last buf = pos buf) bs \<Longrightarrow> concat (map buf_data bs) = []"
  by (auto simp: list_all_iff buf_data_def)

lemma bufs_data_cur:
  assumes "bufs_wf bufs"
  shows "bufs_data bufs =
    concat (map buf_data (take (cur bufs) (chain bufs))) @ buf_data (cur_buf bufs)"
proof -
  have c: "cur bufs < length (chain bufs)"
    and e: "concat (map buf_data (drop (Suc (cur bufs)) (chain bufs))) = []"
    using assms by (auto simp: bufs_wf_def concat_empty_tail)
  have "concat (map buf_data (chain bufs)) = concat (map buf_data (take (cur bufs) (chain bufs))) @
      concat (map buf_data (drop (cur bufs) (chain bufs)))"
    by (metis append_take_drop_id concat_append map_append)
  also have "drop (cur bufs) (chain bufs) = cur_buf bufs # drop (Suc (cur bufs)) (chain bufs)"
    using c by (simp add: Cons_nth_drop_Suc)
  finally show ?thesis using e by (simp add: bufs_data_def)
qed

lemma set_cur_buf_wf [wf_intros]:
  "bufs_wf bufs \<Longrightarrow> buf_ok buf \<Longrightarrow> bufs_wf (set_cur_buf buf bufs)"
  by (auto simp: bufs_wf_def set_cur_buf_def list_all_length nth_list_update)

lemma set_cur_buf_data:
  "bufs_wf bufs \<Longrightarrow> buf_ok buf \<Longrightarrow> buf_data buf = buf_data (cur_buf bufs) @ p \<Longrightarrow>
   bufs_data (set_cur_buf buf bufs) = bufs_data bufs @ p"
  using bufs_data_cur [of bufs] bufs_data_cur [OF set_cur_buf_wf, of bufs buf]
  by (simp add: set_cur_buf_def bufs_wf_def)

lemma cur_buf_ok: "bufs_wf bufs \<Longrightarrow> buf_ok (cur_buf bufs)"
  by (simp add: bufs_wf_def list_all_length)

text \<open>Allocation: a new chunk is empty and has the whole chunk behind the offset free.\<close>

lemma buf_chain_new_Inr:
  "buf_chain_new len mem = (Inr buf, mem') \<Longrightarrow>
   buf = \<lparr>arr = replicate len 0, pos = 0, last = 0, mark = 0\<rparr>"
  by (auto simp: buf_chain_new_def nghttp2_buf_init2_def nghttp2_buf_reserve_def
      nghttp2_buf_init_def nghttp2_buf_cap_def Let_def split: prod.splits if_splits sum.splits)

lemma buf_chain_new_Inl: "buf_chain_new len mem = (Inl e, mem') \<Longrightarrow> e = ERR_NOMEM"
  by (auto simp: buf_chain_new_def split: prod.splits if_splits sum.splits)

lemma bufs_alloc_chain_Inl:
  assumes "bufs_alloc_chain bufs = (Inl e, bufs')"
  shows "(e = ERR_BUFFER_ERROR \<and> bufs' = bufs \<and> Suc (cur bufs) \<ge> length (chain bufs) \<and>
            max_chunk bufs = chunk_used bufs) \<or>
         (e = ERR_NOMEM \<and> (\<exists>mem. bufs' = bufs\<lparr>bufs_mem := mem\<rparr>))"
  using assms
  by (auto simp: bufs_alloc_chain_def split: prod.splits if_splits sum.splits
      dest: buf_chain_new_Inl)

lemma bufs_mem_irrelevant [simp]:
  "bufs_wf (bufs\<lparr>bufs_mem := m\<rparr>) = bufs_wf bufs" "bufs_data (bufs\<lparr>bufs_mem := m\<rparr>) = bufs_data bufs"
  "bufs_roomy (bufs\<lparr>bufs_mem := m\<rparr>) = bufs_roomy bufs"
  by (simp_all add: bufs_wf_def bufs_data_def bufs_roomy_def)

lemma unat_succ_lt: "u \<le> m \<Longrightarrow> u \<noteq> m \<Longrightarrow> unat (u + 1) = Suc (unat u)" for u m :: u64
proof -
  assume "u \<le> m" and "u \<noteq> m"
  then have "unat u < unat m" by (simp add: word_less_nat_alt [symmetric])
  moreover have "unat m < 2 ^ 64" using unsigned_less [of m] by simp
  ultimately show ?thesis by (simp add: unat_word_ariths)
qed

lemma bufs_alloc_chain_Inr:
  assumes wf: "bufs_wf bufs" and eq: "bufs_alloc_chain bufs = (Inr u, bufs')"
  shows "bufs_wf bufs' \<and> bufs_data bufs' = bufs_data bufs \<and>
    (bufs_roomy bufs \<longrightarrow> bufs_roomy bufs' \<and> 0 < nghttp2_buf_avail (cur_buf bufs'))"
proof (cases "Suc (cur bufs) < length (chain bufs)")
  case True
  with eq have b': "bufs' = bufs\<lparr>cur := Suc (cur bufs)\<rparr>"
    by (simp add: bufs_alloc_chain_def)
  have "drop (Suc (cur bufs)) (chain bufs) =
      chain bufs ! Suc (cur bufs) # drop (Suc (Suc (cur bufs))) (chain bufs)"
    using True by (simp add: Cons_nth_drop_Suc)
  with wf True show ?thesis
    by (auto simp: b' bufs_wf_def bufs_data_def bufs_roomy_def)
next
  case False
  with eq obtain buf mem where new: "buf_chain_new (chunk_length bufs) (bufs_mem bufs) = (Inr buf, mem)"
    and neq: "max_chunk bufs \<noteq> chunk_used bufs"
    and b': "bufs' = bufs\<lparr>chain := chain bufs @ [nghttp2_buf_shift_right (offset bufs) buf],
        cur := length (chain bufs), bufs_mem := mem, chunk_used := chunk_used bufs + 1\<rparr>"
    by (auto simp: bufs_alloc_chain_def split: prod.splits if_splits sum.splits)
  have le: "chunk_used bufs \<le> max_chunk bufs" using wf by (simp add: bufs_wf_def)
  have "unat (chunk_used bufs + 1) = Suc (unat (chunk_used bufs))"
    using le neq by (intro unat_succ_lt) auto
  moreover have "chunk_used bufs + 1 \<le> max_chunk bufs"
    using le neq by (metis inc_le order_le_less)
  ultimately show ?thesis
    using wf buf_chain_new_Inr [OF new]
    by (auto simp: b' bufs_wf_def bufs_data_def bufs_roomy_def buf_ok_def buf_data_def
        nghttp2_buf_shift_right_def nghttp2_buf_avail_def)
qed

lemma nghttp2_bufs_add_Nil [simp]: "nghttp2_bufs_add bufs [] = (Inr (), bufs)"
  by (simp add: nghttp2_bufs_add.simps)

lemma nghttp2_bufs_add_step:
  assumes "length p \<noteq> 0" and "n = min (nghttp2_buf_avail (cur_buf bufs)) (length p)"
  shows "nghttp2_bufs_add bufs p =
    (if n = 0 then (case bufs_alloc_chain bufs of
        (Inl e, bufs') \<Rightarrow> (Inl e, bufs')
      | (Inr _, bufs') \<Rightarrow> nghttp2_bufs_add bufs' p)
     else nghttp2_bufs_add (set_cur_buf (buf_write (take n p) (cur_buf bufs)) bufs) (drop n p))"
  unfolding assms(2) using assms(1) by (subst nghttp2_bufs_add.simps) (simp only: Let_def if_False)

lemma nghttp2_bufs_add_ok:
  assumes "bufs_wf bufs" and "nghttp2_bufs_add bufs p = (r, bufs')"
  shows "bufs_wf bufs' \<and> (\<exists>q s. p = q @ s \<and> bufs_data bufs' = bufs_data bufs @ q \<and>
           (if r = Inr () then s = [] else r \<in> {Inl ERR_NOMEM, Inl ERR_BUFFER_ERROR}))"
  using assms
proof (induction bufs p arbitrary: rule: nghttp2_bufs_add.induct)
  case (1 bufs p)
  define n where "n = min (nghttp2_buf_avail (cur_buf bufs)) (length p)"
  consider (fin) "length p = 0" | (alloc) "length p \<noteq> 0" and "n = 0"
    | (copy) "length p \<noteq> 0" and "n \<noteq> 0"
    by blast
  then show ?case
  proof cases
    case fin
    then show ?thesis using "1.prems" by auto
  next
    case alloc
    obtain ra bufsa where a: "bufs_alloc_chain bufs = (ra, bufsa)" by fastforce
    show ?thesis
    proof (cases ra)
      case (Inl e)
      then have "nghttp2_bufs_add bufs p = (Inl e, bufsa)"
        using alloc a nghttp2_bufs_add_step [OF _ n_def] by simp
      with "1.prems" a Inl bufs_alloc_chain_Inl [of bufs e bufsa] show ?thesis
        by auto
    next
      case (Inr u)
      then have "nghttp2_bufs_add bufs p = nghttp2_bufs_add bufsa p"
        using alloc a nghttp2_bufs_add_step [OF _ n_def] by simp
      with "1.IH"(1) [of n ra bufsa u] "1.prems" alloc a Inr bufs_alloc_chain_Inr [of bufs u bufsa]
      show ?thesis by (auto simp: n_def)
    qed
  next
    case copy
    let ?b = "set_cur_buf (buf_write (take n p) (cur_buf bufs)) bufs"
    have ok: "buf_ok (cur_buf bufs)" using "1.prems" by (simp add: cur_buf_ok)
    have len: "length (take n p) \<le> nghttp2_buf_avail (cur_buf bufs)" by (simp add: n_def)
    have wf: "bufs_wf ?b" and data: "bufs_data ?b = bufs_data bufs @ take n p"
      using "1.prems"(1) buf_ok_write [OF ok len] buf_data_write [OF ok len]
      by (auto intro: set_cur_buf_wf set_cur_buf_data)
    have "nghttp2_bufs_add bufs p = nghttp2_bufs_add ?b (drop n p)"
      using copy nghttp2_bufs_add_step [OF _ n_def] by simp
    with "1.IH"(2) [of n] "1.prems" copy wf obtain q s where
      "bufs_wf bufs'" "drop n p = q @ s" "bufs_data bufs' = bufs_data ?b @ q"
      "if r = Inr () then s = [] else r \<in> {Inl ERR_NOMEM, Inl ERR_BUFFER_ERROR}"
      by (auto simp: n_def)
    moreover have "p = (take n p @ q) @ s"
      using calculation by (metis append_assoc append_take_drop_id)
    ultimately show ?thesis using data by (metis append_assoc)
  qed
qed

lemma nghttp2_bufs_add_frame:
  "nghttp2_bufs_add bufs p = (r, bufs') \<Longrightarrow>
   chunk_length bufs' = chunk_length bufs \<and> offset bufs' = offset bufs \<and>
   max_chunk bufs' = max_chunk bufs \<and> chunk_keep bufs' = chunk_keep bufs"
proof (induction bufs p rule: nghttp2_bufs_add.induct)
  case (1 bufs p)
  then show ?case
    by (subst (asm) (3) nghttp2_bufs_add.simps)
      (auto simp: Let_def set_cur_buf_def bufs_alloc_chain_def
        split: if_splits prod.splits sum.splits)
qed

text \<open>The room that is left: in the current and later buffers, and in chunks to come.\<close>

definition bufs_space :: "nghttp2_bufs \<Rightarrow> nat" where
  "bufs_space bufs = sum_list (map nghttp2_buf_avail (drop (cur bufs) (chain bufs))) +
     unat (max_chunk bufs - chunk_used bufs) * (chunk_length bufs - offset bufs)"

lemma drop_cur_Cons:
  "bufs_wf bufs \<Longrightarrow>
   drop (cur bufs) (chain bufs) = cur_buf bufs # drop (Suc (cur bufs)) (chain bufs)"
  by (simp add: bufs_wf_def Cons_nth_drop_Suc)

lemma bufs_space_write:
  assumes "bufs_wf bufs" and "length p \<le> nghttp2_buf_avail (cur_buf bufs)"
  shows "bufs_space (set_cur_buf (buf_write p (cur_buf bufs)) bufs) = bufs_space bufs - length p"
proof -
  let ?b = "set_cur_buf (buf_write p (cur_buf bufs)) bufs"
  have ok: "buf_ok (cur_buf bufs)" using assms by (simp add: cur_buf_ok)
  have wf: "bufs_wf ?b" using assms ok by (intro set_cur_buf_wf buf_ok_write)
  have "cur_buf ?b = buf_write p (cur_buf bufs)"
    using assms(1) by (simp add: set_cur_buf_def bufs_wf_def)
  moreover have "drop (Suc (cur ?b)) (chain ?b) = drop (Suc (cur bufs)) (chain bufs)"
    by (simp add: set_cur_buf_def)
  moreover have "unat (max_chunk ?b - chunk_used ?b) * (chunk_length ?b - offset ?b) =
      unat (max_chunk bufs - chunk_used bufs) * (chunk_length bufs - offset bufs)"
    by (simp add: set_cur_buf_def)
  ultimately show ?thesis
    using assms ok drop_cur_Cons [OF assms(1)] drop_cur_Cons [OF wf]
    by (simp add: bufs_space_def avail_write buf_ok_def)
qed

lemma unat_diff_succ: "m \<noteq> u \<Longrightarrow> unat (m - (u + 1)) = unat (m - u) - 1" for m u :: u64
proof -
  assume "m \<noteq> u"
  then have "unat (m - u - 1) = unat (m - u) - 1" by (intro unat_minus_one) simp
  then show ?thesis by (simp add: algebra_simps)
qed

lemma buf_chain_new_unfailing [simp]:
  "buf_chain_new len [] = (Inr \<lparr>arr = replicate len 0, pos = 0, last = 0, mark = 0\<rparr>, [])"
  by (simp add: buf_chain_new_def nghttp2_buf_init2_def nghttp2_buf_reserve_def
      nghttp2_buf_init_def nghttp2_buf_cap_def Let_def)

lemma bufs_alloc_chain_space:
  assumes wf: "bufs_wf bufs" and full: "nghttp2_buf_avail (cur_buf bufs) = 0"
    and mem: "bufs_mem bufs = []"
  shows "(case bufs_alloc_chain bufs of
            (Inl e, bufs') \<Rightarrow> bufs_space bufs = 0
          | (Inr u, bufs') \<Rightarrow> bufs_space bufs' = bufs_space bufs \<and> bufs_mem bufs' = [])"
proof -
  have d: "drop (cur bufs) (chain bufs) = cur_buf bufs # drop (Suc (cur bufs)) (chain bufs)"
    by (rule drop_cur_Cons [OF wf])
  have "Suc (cur bufs) < length (chain bufs) \<or> Suc (cur bufs) = length (chain bufs)"
    using wf by (auto simp: bufs_wf_def)
  then consider (nxt) "Suc (cur bufs) < length (chain bufs)"
    | (lim) "Suc (cur bufs) = length (chain bufs)" and "max_chunk bufs = chunk_used bufs"
    | (new) "Suc (cur bufs) = length (chain bufs)" and "max_chunk bufs \<noteq> chunk_used bufs"
    by blast
  then show ?thesis
  proof cases
    case nxt
    then show ?thesis using full mem by (simp add: bufs_alloc_chain_def bufs_space_def d)
  next
    case lim
    then show ?thesis using full by (simp add: bufs_alloc_chain_def bufs_space_def d)
  next
    case new
    then have "unat (max_chunk bufs - chunk_used bufs) \<noteq> 0"
      by (simp add: unat_eq_0)
    then have "unat (max_chunk bufs - chunk_used bufs) * (chunk_length bufs - offset bufs) =
        (chunk_length bufs - offset bufs) +
        (unat (max_chunk bufs - chunk_used bufs) - 1) * (chunk_length bufs - offset bufs)"
      by (simp add: mult_eq_if)
    then show ?thesis using new full mem
      by (simp add: bufs_alloc_chain_def bufs_space_def d unat_diff_succ
          nghttp2_buf_shift_right_def nghttp2_buf_avail_def)
  qed
qed

lemma nghttp2_bufs_add_space:
  assumes "bufs_wf bufs" and "bufs_mem bufs = []"
  shows "fst (nghttp2_bufs_add bufs p) = Inr () \<longleftrightarrow> length p \<le> bufs_space bufs"
  using assms
proof (induction bufs p rule: nghttp2_bufs_add.induct)
  case (1 bufs p)
  define n where "n = min (nghttp2_buf_avail (cur_buf bufs)) (length p)"
  consider (fin) "length p = 0" | (alloc) "length p \<noteq> 0" and "n = 0"
    | (copy) "length p \<noteq> 0" and "n \<noteq> 0"
    by blast
  then show ?case
  proof cases
    case fin
    then show ?thesis by simp
  next
    case alloc
    then have full: "nghttp2_buf_avail (cur_buf bufs) = 0"
      by (auto simp: n_def min_def split: if_splits)
    obtain ra bufsa where a: "bufs_alloc_chain bufs = (ra, bufsa)" by fastforce
    show ?thesis
    proof (cases ra)
      case (Inl e)
      then have "nghttp2_bufs_add bufs p = (Inl e, bufsa)"
        using alloc a nghttp2_bufs_add_step [OF _ n_def] by simp
      then show ?thesis
        using bufs_alloc_chain_space [OF "1.prems"(1) full "1.prems"(2)] a Inl alloc by simp
    next
      case (Inr u)
      then have "nghttp2_bufs_add bufs p = nghttp2_bufs_add bufsa p"
        using alloc a nghttp2_bufs_add_step [OF _ n_def] by simp
      then show ?thesis
        using "1.IH"(1) [of n ra bufsa u] bufs_alloc_chain_space [OF "1.prems"(1) full "1.prems"(2)]
          bufs_alloc_chain_Inr [OF "1.prems"(1), of u bufsa] a Inr alloc
        by (simp add: n_def)
    qed
  next
    case copy
    let ?b = "set_cur_buf (buf_write (take n p) (cur_buf bufs)) bufs"
    have ok: "buf_ok (cur_buf bufs)" using "1.prems" by (simp add: cur_buf_ok)
    have len: "length (take n p) \<le> nghttp2_buf_avail (cur_buf bufs)" by (simp add: n_def)
    have sp: "bufs_space ?b = bufs_space bufs - n"
      using bufs_space_write [OF "1.prems"(1) len] by (simp add: n_def)
    have "n \<le> bufs_space bufs"
      using drop_cur_Cons [OF "1.prems"(1)] by (simp add: bufs_space_def n_def)
    moreover have "nghttp2_bufs_add bufs p = nghttp2_bufs_add ?b (drop n p)"
      using copy nghttp2_bufs_add_step [OF _ n_def] by simp
    moreover have "bufs_wf ?b" using "1.prems"(1) buf_ok_write [OF ok len]
      by (intro set_cur_buf_wf)
    moreover have "bufs_mem ?b = []" using "1.prems"(2) by (simp add: set_cur_buf_def)
    ultimately show ?thesis
      using "1.IH"(2) [of n] copy sp by (auto simp: n_def)
  qed
qed

text \<open>Single bytes: with room in every chunk, one byte is appended inside the arrays.\<close>

lemma set_cur_buf_roomy [simp]: "bufs_roomy (set_cur_buf buf bufs) = bufs_roomy bufs"
  by (simp add: bufs_roomy_def set_cur_buf_def)

lemma put_byte_write:
  assumes "0 < nghttp2_buf_avail buf"
  shows "buf\<lparr>arr := (arr buf)[last buf := b], last := last buf + 1\<rparr> = buf_write [b] buf"
  using assms by (simp add: nghttp2_buf_avail_def buf_write_def nghttp2_cpymem_def blit_one)

text \<open>
  The room that a single byte finds: in the current buffer, or else at the start of the next
  buffer of the chain, or else in a new chunk.
\<close>

definition next_chunk_room :: "nghttp2_bufs \<Rightarrow> nat" where
  "next_chunk_room bufs =
     (if Suc (cur bufs) < length (chain bufs) then nghttp2_buf_avail (chain bufs ! Suc (cur bufs))
      else chunk_length bufs - offset bufs)"

lemma bufs_alloc_chain_room:
  assumes "bufs_wf bufs" "bufs_alloc_chain bufs = (Inr u, bufs')"
  shows "nghttp2_buf_avail (cur_buf bufs') = next_chunk_room bufs"
  using assms(2)
  by (auto simp: bufs_alloc_chain_def next_chunk_room_def nghttp2_buf_shift_right_def nghttp2_buf_avail_def
      nth_append dest!: buf_chain_new_Inr split: if_splits sum.splits prod.splits)

text \<open>Where the next chunk has room, adding a byte is adding the string of this byte.\<close>

lemma bufs_addb_add:
  assumes wf: "bufs_wf bufs"
  shows "nghttp2_bufs_addb bufs b =
    (if 0 < nghttp2_buf_avail (cur_buf bufs) \<or> 0 < next_chunk_room bufs \<or>
        (\<exists>e b'. bufs_alloc_chain bufs = (Inl e, b'))
     then Some (nghttp2_bufs_add bufs [b]) else None)"
proof (cases "0 < nghttp2_buf_avail (cur_buf bufs)")
  case True
  then have "nghttp2_bufs_add bufs [b] = (Inr (), set_cur_buf (buf_write [b] (cur_buf bufs)) bufs)"
    by (subst nghttp2_bufs_add_step [OF _ refl]) (auto simp: min_def)
  then show ?thesis using True put_byte_write [OF True]
    by (simp add: nghttp2_bufs_addb_def bufs_ensure_addb_def bufs_store_byte_def Let_def nghttp2_buf_avail_def)
next
  case False
  obtain r b' where a: "bufs_alloc_chain bufs = (r, b')" by fastforce
  have e: "bufs_ensure_addb bufs = (r, b')" using a False by (simp add: bufs_ensure_addb_def)
  have step: "nghttp2_bufs_add bufs [b] =
      (case r of Inl e \<Rightarrow> (Inl e, b') | Inr _ \<Rightarrow> nghttp2_bufs_add b' [b])"
    using False a by (subst nghttp2_bufs_add_step [OF _ refl]) (auto split: sum.splits)
  show ?thesis
  proof (cases r)
    case (Inl err)
    then show ?thesis using a e step by (simp add: nghttp2_bufs_addb_def)
  next
    case (Inr u)
    have room: "nghttp2_buf_avail (cur_buf b') = next_chunk_room bufs"
      using bufs_alloc_chain_room [OF wf] a Inr by simp
    show ?thesis
    proof (cases "0 < next_chunk_room bufs")
      case True
      then have av: "0 < nghttp2_buf_avail (cur_buf b')" using room by simp
      then have "nghttp2_bufs_add b' [b] = (Inr (), set_cur_buf (buf_write [b] (cur_buf b')) b')"
        by (subst nghttp2_bufs_add_step [OF _ refl]) (auto simp: min_def)
      then show ?thesis using True Inr e step av put_byte_write [OF av]
        by (simp add: nghttp2_bufs_addb_def bufs_store_byte_def Let_def nghttp2_buf_avail_def)
    next
      case no: False
      then show ?thesis using False Inr e room a
        by (simp add: nghttp2_bufs_addb_def bufs_store_byte_def Let_def nghttp2_buf_avail_def)
    qed
  qed
qed

lemma nghttp2_bufs_addb_is_add:
  assumes "bufs_wf bufs" and "bufs_roomy bufs"
  shows "nghttp2_bufs_addb bufs b = Some (nghttp2_bufs_add bufs [b])"
proof -
  have "0 < next_chunk_room bufs \<or> (\<exists>e b'. bufs_alloc_chain bufs = (Inl e, b'))"
  proof (cases "bufs_alloc_chain bufs")
    case (Pair r b')
    then show ?thesis
      using bufs_alloc_chain_Inr [OF assms(1), of "()" b'] bufs_alloc_chain_room [OF assms(1), of "()" b'] assms(2)
      by (cases r) auto
  qed
  then show ?thesis unfolding bufs_addb_add [OF assms(1)] by (rule if_P [OF disjI2])
qed

text \<open>The other writes differ from \<open>nghttp2_bufs_addb\<close> in the byte stored and in \<open>last\<close>.\<close>

definition bufs_take_back :: "nghttp2_bufs \<Rightarrow> nghttp2_bufs" where
  "bufs_take_back bufs = set_cur_buf ((cur_buf bufs)\<lparr>last := last (cur_buf bufs) - 1\<rparr>) bufs"

text \<open>The byte that the next single-byte write replaces.\<close>

definition next_byte :: "nghttp2_bufs \<Rightarrow> u8" where
  "next_byte bufs =
     (let bufs = snd (bufs_ensure_addb bufs) in arr (cur_buf bufs) ! last (cur_buf bufs))"

lemma bufs_ensure_addb_wf:
  assumes "bufs_wf bufs" "bufs_ensure_addb bufs = (r, bufs')"
  shows "bufs_wf bufs'"
  using assms bufs_alloc_chain_Inr [OF assms(1)] bufs_alloc_chain_Inl [of bufs]
  by (cases r) (fastforce simp: bufs_ensure_addb_def split: if_splits)+

lemma bufs_hold_orb:
  assumes wf: "bufs_wf bufs"
  shows "nghttp2_bufs_orb bufs b = nghttp2_bufs_addb bufs (next_byte bufs OR b)"
    and "nghttp2_bufs_orb_hold bufs b = nghttp2_bufs_addb_hold bufs (next_byte bufs OR b)"
    and "nghttp2_bufs_addb_hold bufs b =
      map_option (\<lambda>(r, bufs'). (r, if r = Inr () then bufs_take_back bufs' else bufs')) (nghttp2_bufs_addb bufs b)"
proof -
  obtain r b' where e: "bufs_ensure_addb bufs = (r, b')" by fastforce
  have c: "cur b' < length (chain b')" using bufs_ensure_addb_wf [OF wf e] by (simp add: bufs_wf_def)
  show "nghttp2_bufs_orb bufs b = nghttp2_bufs_addb bufs (next_byte bufs OR b)"
    "nghttp2_bufs_orb_hold bufs b = nghttp2_bufs_addb_hold bufs (next_byte bufs OR b)"
    "nghttp2_bufs_addb_hold bufs b =
      map_option (\<lambda>(r, bufs'). (r, if r = Inr () then bufs_take_back bufs' else bufs')) (nghttp2_bufs_addb bufs b)"
    using c
    by (cases r; simp add: e nghttp2_bufs_orb_def nghttp2_bufs_orb_hold_def nghttp2_bufs_addb_def
        nghttp2_bufs_addb_hold_def next_byte_def bufs_store_byte_def bufs_take_back_def set_cur_buf_def Let_def)+
qed

lemma bufs_roomy_add:
  assumes "bufs_wf bufs" and "bufs_roomy bufs" and "nghttp2_bufs_add bufs p = (r, bufs')"
  shows "bufs_roomy bufs'"
  using assms
proof (induction bufs p rule: nghttp2_bufs_add.induct)
  case (1 bufs p)
  define n where "n = min (nghttp2_buf_avail (cur_buf bufs)) (length p)"
  show ?case
  proof (cases "length p = 0")
    case True
    then show ?thesis using "1.prems" by auto
  next
    case ne: False
    show ?thesis
    proof (cases "n = 0")
      case True
      obtain ra bufsa where a: "bufs_alloc_chain bufs = (ra, bufsa)" by fastforce
      show ?thesis
      proof (cases ra)
        case (Inl e)
        then have "bufs' = bufsa"
          using ne True a nghttp2_bufs_add_step [OF _ n_def] "1.prems"(3) by simp
        with "1.prems" a Inl bufs_alloc_chain_Inl [of bufs e bufsa] show ?thesis by auto
      next
        case (Inr u)
        then have "nghttp2_bufs_add bufs p = nghttp2_bufs_add bufsa p"
          using ne True a nghttp2_bufs_add_step [OF _ n_def] by simp
        with "1.IH"(1) [of n ra bufsa u] "1.prems" ne True a Inr
          bufs_alloc_chain_Inr [of bufs u bufsa] show ?thesis by (simp add: n_def)
      qed
    next
      case False
      have len: "length (take n p) \<le> nghttp2_buf_avail (cur_buf bufs)" by (simp add: n_def)
      have "nghttp2_bufs_add bufs p =
          nghttp2_bufs_add (set_cur_buf (buf_write (take n p) (cur_buf bufs)) bufs) (drop n p)"
        using ne False nghttp2_bufs_add_step [OF _ n_def] by simp
      moreover have "bufs_wf (set_cur_buf (buf_write (take n p) (cur_buf bufs)) bufs)"
        using "1.prems"(1) buf_ok_write [OF cur_buf_ok len] by (intro set_cur_buf_wf) auto
      ultimately show ?thesis using "1.IH"(2) [of n] "1.prems" ne False by (simp add: n_def)
    qed
  qed
qed

lemma buf_write_append:
  assumes "last buf + length p + length q \<le> length (arr buf)"
  shows "buf_write q (buf_write p buf) = buf_write (p @ q) buf"
  using assms by (simp add: buf_write_def nghttp2_cpymem_def blit_def ac_simps)

lemma nghttp2_bufs_add_fit:
  assumes wf: "bufs_wf bufs" and fit: "length p \<le> nghttp2_buf_avail (cur_buf bufs)" and ne: "p \<noteq> []"
  shows "nghttp2_bufs_add bufs (p @ q) =
    nghttp2_bufs_add (set_cur_buf (buf_write p (cur_buf bufs)) bufs) q"
proof -
  let ?b = "set_cur_buf (buf_write p (cur_buf bufs)) bufs"
  let ?av = "nghttp2_buf_avail (cur_buf bufs)"
  define n where "n = min ?av (length (p @ q))"
  have ok: "buf_ok (cur_buf bufs)" by (rule cur_buf_ok [OF wf])
  have c: "cur bufs < length (chain bufs)" using wf by (simp add: bufs_wf_def)
  have n: "length p \<le> n" using fit by (simp add: n_def)
  moreover have "0 < length p" using ne by simp
  ultimately have n0: "n \<noteq> 0" by linarith
  have step: "nghttp2_bufs_add bufs (p @ q) =
      nghttp2_bufs_add (set_cur_buf (buf_write (p @ take (n - length p) q) (cur_buf bufs)) bufs)
        (drop (n - length p) q)"
    using nghttp2_bufs_add_step [OF _ n_def] ne n n0 by simp
  have cb: "cur_buf ?b = buf_write p (cur_buf bufs)" using c by (simp add: set_cur_buf_def)
  have av: "nghttp2_buf_avail (cur_buf ?b) = ?av - length p"
    using ok fit by (simp add: cb avail_write buf_ok_def)
  show ?thesis
  proof (cases "n - length p = 0 \<or> q = []")
    case True
    then show ?thesis using step by auto
  next
    case False
    have m: "n - length p = min (nghttp2_buf_avail (cur_buf ?b)) (length q)"
      using n by (auto simp: av n_def)
    have w: "buf_write (take (n - length p) q) (cur_buf ?b) =
        buf_write (p @ take (n - length p) q) (cur_buf bufs)"
      unfolding cb using ok n by (intro buf_write_append) (auto simp: buf_ok_def nghttp2_buf_avail_def n_def)
    have "set_cur_buf (buf_write (take (n - length p) q) (cur_buf ?b)) ?b =
        set_cur_buf (buf_write (p @ take (n - length p) q) (cur_buf bufs)) bufs"
      unfolding w by (simp add: set_cur_buf_def)
    then show ?thesis using step nghttp2_bufs_add_step [OF _ m] False by simp
  qed
qed

lemma nghttp2_bufs_add_append:
  assumes "bufs_wf bufs"
  shows "nghttp2_bufs_add bufs (p @ q) =
    (case nghttp2_bufs_add bufs p of
       (Inl e, b) \<Rightarrow> (Inl e, b) | (Inr _, b) \<Rightarrow> nghttp2_bufs_add b q)"
  using assms
proof (induction bufs p rule: nghttp2_bufs_add.induct)
  case (1 bufs p)
  define n where "n = min (nghttp2_buf_avail (cur_buf bufs)) (length p)"
  show ?case
  proof (cases "length p = 0")
    case True
    then show ?thesis by simp
  next
    case ne: False
    show ?thesis
    proof (cases "n = 0")
      case True
      then have z: "0 = min (nghttp2_buf_avail (cur_buf bufs)) (length (p @ q))"
        using ne by (auto simp: n_def min_def split: if_splits)
      obtain ra bufsa where a: "bufs_alloc_chain bufs = (ra, bufsa)" by fastforce
      show ?thesis
      proof (cases ra)
        case (Inl e)
        then show ?thesis
          using ne True a nghttp2_bufs_add_step [OF _ n_def] nghttp2_bufs_add_step [OF _ z] by simp
      next
        case (Inr u)
        have "bufs_wf bufsa" using bufs_alloc_chain_Inr [OF "1.prems"] a Inr by simp
        with "1.IH"(1) [of n ra bufsa u] Inr a True ne
        have "nghttp2_bufs_add bufsa (p @ q) = (case nghttp2_bufs_add bufsa p of
            (Inl e, b) \<Rightarrow> (Inl e, b) | (Inr _, b) \<Rightarrow> nghttp2_bufs_add b q)" by (simp add: n_def)
        then show ?thesis
          using ne True a Inr nghttp2_bufs_add_step [OF _ n_def] nghttp2_bufs_add_step [OF _ z] by simp
      qed
    next
      case False
      let ?b = "set_cur_buf (buf_write (take n p) (cur_buf bufs)) bufs"
      have len: "length (take n p) \<le> nghttp2_buf_avail (cur_buf bufs)" by (simp add: n_def)
      have wf: "bufs_wf ?b"
        using "1.prems"(1) buf_ok_write [OF cur_buf_ok len] by (intro set_cur_buf_wf) auto
      have "nghttp2_bufs_add bufs (p @ q) = nghttp2_bufs_add bufs (take n p @ (drop n p @ q))"
        by (metis append_assoc append_take_drop_id)
      also have "\<dots> = nghttp2_bufs_add ?b (drop n p @ q)"
        using nghttp2_bufs_add_fit [OF "1.prems" len] False ne by simp
      also have "\<dots> = (case nghttp2_bufs_add ?b (drop n p) of
          (Inl e, b) \<Rightarrow> (Inl e, b) | (Inr _, b) \<Rightarrow> nghttp2_bufs_add b q)"
        using "1.IH"(2) [of n] wf ne False by (simp add: n_def)
      also have "nghttp2_bufs_add ?b (drop n p) = nghttp2_bufs_add bufs p"
        using ne False nghttp2_bufs_add_step [OF _ n_def] by simp
      finally show ?thesis .
    qed
  qed
qed

text \<open>Reading the chain back.\<close>

lemma bufs_len_data: "bufs_wf bufs \<Longrightarrow> nghttp2_bufs_len bufs = length (bufs_data bufs)"
  unfolding nghttp2_bufs_len_def bufs_data_def length_concat map_map o_def
  by (intro arg_cong [where f = sum_list] map_cong)
    (auto simp: length_buf_data bufs_wf_def list_all_iff)

lemma copy_chain_data:
  assumes "list_all buf_ok ch" and "buf_ok res"
    and "length (concat (map buf_data ch)) \<le> nghttp2_buf_avail res"
  shows "buf_ok (copy_chain ch res) \<and> buf_data (copy_chain ch res) = buf_data res @ concat (map buf_data ch)
    \<and> length (arr (copy_chain ch res)) = length (arr res) \<and> pos (copy_chain ch res) = pos res"
  using assms
proof (induction ch arbitrary: res)
  case Nil
  then show ?case by simp
next
  case (Cons buf ch)
  let ?res = "buf_write (buf_data buf) res"
  have le: "length (buf_data buf) \<le> nghttp2_buf_avail res" using Cons.prems by simp
  with Cons.prems have "length (arr ?res) = length (arr res)" "pos ?res = pos res"
    by (auto simp: buf_write_def nghttp2_cpymem_def buf_ok_def nghttp2_buf_avail_def)
  moreover have "nghttp2_buf_avail ?res = nghttp2_buf_avail res - length (buf_data buf)"
    using le Cons.prems by (simp add: avail_write buf_ok_def)
  moreover have "buf_ok ?res" and "buf_data ?res = buf_data res @ buf_data buf"
    using le Cons.prems by (simp_all add: buf_ok_write buf_data_write)
  ultimately show ?case
    using Cons.IH [of ?res] Cons.prems by simp
qed

lemma copy_chain_whole:
  assumes "list_all buf_ok ch" and "length out = length (concat (map buf_data ch))"
  shows "arr (copy_chain ch (nghttp2_buf_wrap_init out)) = concat (map buf_data ch)"
proof -
  let ?r = "copy_chain ch (nghttp2_buf_wrap_init out)"
  have w: "buf_ok (nghttp2_buf_wrap_init out)" "buf_data (nghttp2_buf_wrap_init out) = []"
    "nghttp2_buf_avail (nghttp2_buf_wrap_init out) = length out"
    "length (arr (nghttp2_buf_wrap_init out)) = length out" "pos (nghttp2_buf_wrap_init out) = 0"
    by (simp_all add: buf_ok_def nghttp2_buf_wrap_init_def nghttp2_buf_avail_def buf_data_def)
  have r: "buf_ok ?r" "buf_data ?r = concat (map buf_data ch)" "length (arr ?r) = length out"
    "pos ?r = 0"
    using copy_chain_data [OF assms(1) w(1)] assms(2) w by simp_all
  then have "segment 0 (last ?r) (arr ?r) = concat (map buf_data ch)"
    by (simp add: buf_data_def [of ?r])
  moreover have "length (segment 0 (last ?r) (arr ?r)) = last ?r" using r by (simp add: buf_ok_def)
  ultimately show ?thesis using r assms(2) by (simp add: segment_def)
qed

lemma reset_chain_props:
  assumes "reset_chain off k ch = (ch', stopped)" and "k \<noteq> 0"
  shows "ch' = map (\<lambda>buf. nghttp2_buf_shift_right off (nghttp2_buf_reset buf)) (take (unat k) ch) \<and>
    (stopped \<longleftrightarrow> unat k \<le> length ch)"
  using assms
proof (induction off k ch arbitrary: ch' stopped rule: reset_chain.induct)
  case (1 off k)
  then show ?case by (simp add: unat_eq_0)
next
  case (2 off k buf rest)
  have k: "unat (k - 1) = unat k - 1" using "2.prems" by (simp add: unat_minus_one)
  have "0 < unat k" using "2.prems" by (simp add: unat_gt_0)
  then obtain n where n: "unat k = Suc n" by (cases "unat k") auto
  show ?case
  proof (cases "k - 1 = 0")
    case True
    then have "n = 0" using k n by simp
    with "2.prems" True n show ?thesis by (auto simp: Let_def)
  next
    case False
    obtain r s where r: "reset_chain off (k - 1) rest = (r, s)" by fastforce
    from "2.IH" [OF refl False r False] "2.prems" False n k r show ?thesis
      by (auto simp: Let_def)
  qed
qed

section \<open>Interface: writing to a byte sink\<close>

text \<open>
  The callers of \<open>nghttp2_bufs_add\<close> rely only on this: a write that succeeds appends its
  bytes, a write that fails has appended a part of them, and the sink stays well formed. The
  sequence \<open>rv = f(); if (rv != 0) return rv; ...\<close> of the callers is \<open>and_then\<close>.
\<close>

definition and_then :: "unit res \<times> 's \<Rightarrow> ('s \<Rightarrow> 'a res \<times> 's) \<Rightarrow> 'a res \<times> 's" where
  "and_then m k = (case m of (Inl e, s) \<Rightarrow> (Inl e, s) | (Inr _, s) \<Rightarrow> k s)"

text \<open>The same for steps that may write outside their arrays.\<close>

definition and_then_opt ::
    "(unit res \<times> 's) option \<Rightarrow> ('s \<Rightarrow> ('a res \<times> 's) option) \<Rightarrow> ('a res \<times> 's) option" where
  "and_then_opt m k =
     (case m of None \<Rightarrow> None | Some (Inl e, s) \<Rightarrow> Some (Inl e, s) | Some (Inr _, s) \<Rightarrow> k s)"

definition writes ::
    "('s \<Rightarrow> bool) \<Rightarrow> ('s \<Rightarrow> bytes) \<Rightarrow> ('s \<Rightarrow> unit res \<times> 's) \<Rightarrow> bytes \<Rightarrow> bool" where
  "writes invar content f p \<longleftrightarrow> (\<forall>s r s'. invar s \<longrightarrow> f s = (r, s') \<longrightarrow>
     invar s' \<and> (\<exists>q t. p = q @ t \<and> content s' = content s @ q \<and> (r = Inr () \<longrightarrow> t = [])))"

locale byte_sink =
  fixes invar :: "'s \<Rightarrow> bool"
    and content :: "'s \<Rightarrow> bytes"
    and put :: "'s \<Rightarrow> bytes \<Rightarrow> unit res \<times> 's"
  assumes put_writes: "writes invar content (\<lambda>s. put s p) p"
begin

lemma writes_skip: "writes invar content (\<lambda>s. (Inr (), s)) []"
  by (simp add: writes_def)

lemma writes_seq:
  assumes f: "writes invar content f p" and g: "writes invar content g q"
  shows "writes invar content (\<lambda>s. and_then (f s) g) (p @ q)"
  unfolding writes_def
proof (intro allI impI)
  fix s r s'
  assume inv: "invar s" and eq: "and_then (f s) g = (r, s')"
  obtain rf sf where fs: "f s = (rf, sf)" by fastforce
  from f inv fs obtain q1 t1 where 1: "invar sf" "p = q1 @ t1" "content sf = content s @ q1"
    "rf = Inr () \<longrightarrow> t1 = []" unfolding writes_def by blast
  show "invar s' \<and> (\<exists>q' t. p @ q = q' @ t \<and> content s' = content s @ q' \<and> (r = Inr () \<longrightarrow> t = []))"
  proof (cases rf)
    case (Inl e)
    then have "s' = sf" "r = Inl e" using eq fs by (auto simp: and_then_def)
    with 1 show ?thesis by auto
  next
    case (Inr u)
    then have "g sf = (r, s')" using eq fs by (simp add: and_then_def)
    with g 1(1) obtain q2 t2 where "invar s'" "q = q2 @ t2" "content s' = content sf @ q2"
      "r = Inr () \<longrightarrow> t2 = []" unfolding writes_def by blast
    with 1 Inr show ?thesis by auto
  qed
qed

lemma writes_Inr:
  assumes "writes invar content f p" and "invar s" and "f s = (Inr (), s')"
  shows "invar s' \<and> content s' = content s @ p"
proof -
  from assms obtain q t where "invar s'" "p = q @ t" "content s' = content s @ q" "t = []"
    unfolding writes_def by blast
  then show ?thesis by simp
qed

end

interpretation bufs: byte_sink bufs_wf bufs_data nghttp2_bufs_add
proof unfold_locales
  fix p
  show "writes bufs_wf bufs_data (\<lambda>s. nghttp2_bufs_add s p) p"
    unfolding writes_def using nghttp2_bufs_add_ok by meson
qed

section \<open>Properties\<close>

text \<open>
  C32. Appending to a well-formed chain keeps it well formed. The content grows by a prefix of
  the data, which is all of it when the call succeeds; the only errors are NOMEM and
  BUFFER_ERROR; and when the allocator does not fail, the call succeeds exactly when the data
  fits into the room that the chunks and the chunk limit leave.
\<close>

theorem bufs_add_correct:
  assumes "bufs_wf bufs" and "nghttp2_bufs_add bufs p = (r, bufs')"
  shows "bufs_wf bufs' \<and>
    (\<exists>q t. p = q @ t \<and> bufs_data bufs' = bufs_data bufs @ q \<and>
      (if r = Inr () then t = [] else r \<in> {Inl ERR_NOMEM, Inl ERR_BUFFER_ERROR})) \<and>
    (bufs_mem bufs = [] \<longrightarrow> (r = Inr () \<longleftrightarrow> length p \<le> bufs_space bufs))"
  using nghttp2_bufs_add_ok [OF assms] nghttp2_bufs_add_space [OF assms(1)] assms(2)
  by (metis fst_conv)

definition example_bufs :: nghttp2_bufs where
  "example_bufs = \<lparr>chain = [\<lparr>arr = [1, 2, 0], pos = 1, last = 2, mark = 0\<rparr>], cur = 0,
     bufs_mem = [], chunk_length = 3, max_chunk = 2, chunk_used = 1, chunk_keep = 1, offset = 1\<rparr>"

theorem bufs_add_correct_witness:
  "bufs_wf example_bufs \<and> bufs_data example_bufs = [2] \<and> bufs_space example_bufs = 3 \<and>
   fst (nghttp2_bufs_add example_bufs [7, 8, 9]) = Inr () \<and>
   bufs_data (snd (nghttp2_bufs_add example_bufs [7, 8, 9])) = [2, 7, 8, 9]"
proof -
  have wf: "bufs_wf example_bufs" and d: "bufs_data example_bufs = [2]"
    and sp: "bufs_space example_bufs = 3" and m: "bufs_mem example_bufs = []"
    by (simp_all add: example_bufs_def bufs_wf_def buf_ok_def bufs_data_def buf_data_def
        segment_def bufs_space_def nghttp2_buf_avail_def)
  obtain r b' where eq: "nghttp2_bufs_add example_bufs [7, 8, 9] = (r, b')" by fastforce
  from bufs_add_correct [OF wf eq] sp m d eq wf show ?thesis by auto
qed

text \<open>
  \<open>nghttp2_bufs_remove\<close> hands out the whole content in one block, and leaves \<open>*out\<close>
  unassigned when there is none.
\<close>

theorem bufs_remove_correct:
  assumes "bufs_wf bufs" and "bufs_mem bufs = []"
  shows "nghttp2_bufs_remove bufs =
    (Inr (length (bufs_data bufs), if bufs_data bufs = [] then None else Some (bufs_data bufs)), bufs)"
proof -
  have ok: "list_all buf_ok (chain bufs)" using assms by (simp add: bufs_wf_def)
  have len: "sum_list (map nghttp2_buf_len (chain bufs)) = length (bufs_data bufs)"
    using bufs_len_data [OF assms(1)] by (simp add: nghttp2_bufs_len_def)
  show ?thesis
    using copy_chain_whole [OF ok, of "replicate (length (bufs_data bufs)) 0"] assms(2)
    by (auto simp: nghttp2_bufs_remove_def len Let_def bufs_data_def)
qed

theorem bufs_remove_correct_witness:
  "bufs_wf example_bufs \<and> bufs_mem example_bufs = [] \<and>
   nghttp2_bufs_remove example_bufs = (Inr (1, Some [2]), example_bufs)"
proof -
  have wf: "bufs_wf example_bufs" and d: "bufs_data example_bufs = [2]"
    and m: "bufs_mem example_bufs = []"
    by (simp_all add: example_bufs_def bufs_wf_def buf_ok_def bufs_data_def buf_data_def
        segment_def)
  from bufs_remove_correct [OF wf m] wf m d show ?thesis by simp
qed

text \<open>
  Resetting a chain whose chunks can hold the offset empties it, returns to the first
  buffer and keeps no more than \<open>chunk_keep\<close> chunks; the chain stays well formed.
\<close>

theorem bufs_reset_correct:
  assumes "bufs_wf bufs" and "chunk_keep bufs \<noteq> 0" and "chunk_keep bufs \<le> max_chunk bufs"
    and "list_all (\<lambda>buf. offset bufs \<le> length (arr buf)) (chain bufs)"
  shows "bufs_wf (nghttp2_bufs_reset bufs) \<and> bufs_data (nghttp2_bufs_reset bufs) = [] \<and>
    cur (nghttp2_bufs_reset bufs) = 0 \<and>
    length (chain (nghttp2_bufs_reset bufs)) = min (unat (chunk_keep bufs)) (length (chain bufs))"
proof -
  obtain ch stopped where r: "reset_chain (offset bufs) (chunk_keep bufs) (chain bufs) = (ch, stopped)"
    by fastforce
  from reset_chain_props [OF r assms(2)] have
    ch: "ch = map (\<lambda>buf. nghttp2_buf_shift_right (offset bufs) (nghttp2_buf_reset buf))
        (take (unat (chunk_keep bufs)) (chain bufs))"
    and st: "stopped \<longleftrightarrow> unat (chunk_keep bufs) \<le> length (chain bufs)" by auto
  have "0 < unat (chunk_keep bufs)" using assms(2) by (simp add: unat_gt_0)
  moreover have "list_all (\<lambda>buf. buf_ok buf \<and> last buf = pos buf) ch"
    using assms(4)
    by (auto simp: ch list_all_iff buf_ok_def nghttp2_buf_shift_right_def nghttp2_buf_reset_def
        dest!: in_set_takeD)
  moreover from this have "concat (map buf_data ch) = []"
    by (intro concat_empty_tail) (auto simp: list_all_iff)
  ultimately show ?thesis
    using assms(1,3) st
    by (auto simp: nghttp2_bufs_reset_def r bufs_wf_def bufs_data_def ch list_all_iff
        dest!: in_set_dropD)
qed

theorem bufs_reset_correct_witness:
  "bufs_wf example_bufs \<and> bufs_data (nghttp2_bufs_reset example_bufs) = []"
  using bufs_reset_correct [of example_bufs]
  by (simp add: example_bufs_def bufs_wf_def buf_ok_def)

text \<open>
  C35. The single-byte writes. Adding a byte to a well-formed chain writes outside the array exactly
  when the current buffer is full and the call moves to a next buffer, or a new chunk, that has
  no room either, because this room is not checked. In all other cases adding a byte is adding
  the string of this byte (so it appends it or fails with NOMEM or BUFFER_ERROR and appends
  nothing). The \<open>or\<close> variants store the byte combined with the one that is there, and the
  \<open>hold\<close> variants leave \<open>last\<close> where it was.
\<close>

theorem bufs_single_bytes:
  assumes "bufs_wf bufs"
  shows "(nghttp2_bufs_addb bufs b = None \<longleftrightarrow>
      nghttp2_buf_avail (cur_buf bufs) = 0 \<and> next_chunk_room bufs = 0 \<and>
      fst (bufs_alloc_chain bufs) = Inr ()) \<and>
    (nghttp2_bufs_addb bufs b \<noteq> None \<longrightarrow> nghttp2_bufs_addb bufs b = Some (nghttp2_bufs_add bufs [b])) \<and>
    nghttp2_bufs_orb bufs b = nghttp2_bufs_addb bufs (next_byte bufs OR b) \<and>
    nghttp2_bufs_orb_hold bufs b = nghttp2_bufs_addb_hold bufs (next_byte bufs OR b) \<and>
    nghttp2_bufs_addb_hold bufs b =
      map_option (\<lambda>(r, bufs'). (r, if r = Inr () then bufs_take_back bufs' else bufs')) (nghttp2_bufs_addb bufs b)"
proof -
  have "(\<exists>e b'. bufs_alloc_chain bufs = (Inl e, b')) \<longleftrightarrow> fst (bufs_alloc_chain bufs) \<noteq> Inr ()"
    by (cases "bufs_alloc_chain bufs"; cases "fst (bufs_alloc_chain bufs)") auto
  then show ?thesis using bufs_addb_add [OF assms, of b] bufs_hold_orb [OF assms, of b] by simp
qed

text \<open>The chain over two empty arrays, where the first byte is lost.\<close>

theorem bufs_single_bytes_witness:
  "nghttp2_bufs_addb example_bufs 9 = Some (nghttp2_bufs_add example_bufs [9]) \<and>
   (\<exists>bufs. nghttp2_bufs_wrap_init2 [[], []] [] = (Inr bufs, []) \<and> nghttp2_bufs_addb bufs 9 = None)"
proof -
  have wf: "bufs_wf example_bufs" by (simp add: example_bufs_def bufs_wf_def buf_ok_def)
  have av: "nghttp2_buf_avail (cur_buf example_bufs) = 1" by (simp add: example_bufs_def nghttp2_buf_avail_def)
  obtain bufs where b: "nghttp2_bufs_wrap_init2 [[], []] [] = (Inr bufs, [])" "bufs_wf bufs"
    "nghttp2_buf_avail (cur_buf bufs) = 0" "next_chunk_room bufs = 0" "fst (bufs_alloc_chain bufs) = Inr ()"
    by (auto simp: nghttp2_bufs_wrap_init2_def nghttp2_buf_wrap_init_def bufs_wf_def buf_ok_def
        nghttp2_buf_avail_def next_chunk_room_def bufs_alloc_chain_def)
  have "nghttp2_bufs_addb bufs 9 = None" using bufs_single_bytes [OF b(2), of 9] b(3-5) by blast
  moreover have "nghttp2_bufs_addb example_bufs 9 = Some (nghttp2_bufs_add example_bufs [9])"
    using bufs_single_bytes [OF wf, of 9] av by auto
  ultimately show ?thesis using b(1) by blast
qed

end
