(* ===== verification/Nghttp2_Frame.thy ===== *)
theory Nghttp2_Frame
  imports Nghttp2_Buf
begin

text \<open>
  Model of \<open>src/src/nghttp2/lib/nghttp2_frame.c\<close> and \<open>nghttp2_priority_spec.c\<close>: the frames of
  HTTP/2, how they are written to frame buffers and read from received bytes, padding, the split
  of a header block into CONTINUATION frames, and the helpers on settings and header lists. The
  two functions that call the header compressor are in \<open>Nghttp2_Frame_Headers\<close>.
\<close>

unbundle bit_operations_syntax

section \<open>Constants\<close>

named_theorems frame_consts \<open>the numbers of frame types, flags and settings\<close>

definition NGHTTP2_DATA :: u8 where [frame_consts]: "NGHTTP2_DATA = 0"
definition NGHTTP2_HEADERS :: u8 where [frame_consts]: "NGHTTP2_HEADERS = 0x01"
definition NGHTTP2_PRIORITY :: u8 where [frame_consts]: "NGHTTP2_PRIORITY = 0x02"
definition NGHTTP2_RST_STREAM :: u8 where [frame_consts]: "NGHTTP2_RST_STREAM = 0x03"
definition NGHTTP2_SETTINGS :: u8 where [frame_consts]: "NGHTTP2_SETTINGS = 0x04"
definition NGHTTP2_PUSH_PROMISE :: u8 where [frame_consts]: "NGHTTP2_PUSH_PROMISE = 0x05"
definition NGHTTP2_PING :: u8 where [frame_consts]: "NGHTTP2_PING = 0x06"
definition NGHTTP2_GOAWAY :: u8 where [frame_consts]: "NGHTTP2_GOAWAY = 0x07"
definition NGHTTP2_WINDOW_UPDATE :: u8 where [frame_consts]: "NGHTTP2_WINDOW_UPDATE = 0x08"
definition NGHTTP2_CONTINUATION :: u8 where [frame_consts]: "NGHTTP2_CONTINUATION = 0x09"
definition NGHTTP2_ALTSVC :: u8 where [frame_consts]: "NGHTTP2_ALTSVC = 0x0a"
definition NGHTTP2_ORIGIN :: u8 where [frame_consts]: "NGHTTP2_ORIGIN = 0x0c"
definition NGHTTP2_PRIORITY_UPDATE :: u8 where [frame_consts]: "NGHTTP2_PRIORITY_UPDATE = 0x10"

definition NGHTTP2_FLAG_NONE :: u8 where [frame_consts]: "NGHTTP2_FLAG_NONE = 0"
definition NGHTTP2_FLAG_END_STREAM :: u8 where [frame_consts]: "NGHTTP2_FLAG_END_STREAM = 0x01"
definition NGHTTP2_FLAG_END_HEADERS :: u8 where [frame_consts]: "NGHTTP2_FLAG_END_HEADERS = 0x04"
definition NGHTTP2_FLAG_ACK :: u8 where [frame_consts]: "NGHTTP2_FLAG_ACK = 0x01"
definition NGHTTP2_FLAG_PADDED :: u8 where [frame_consts]: "NGHTTP2_FLAG_PADDED = 0x08"
definition NGHTTP2_FLAG_PRIORITY :: u8 where [frame_consts]: "NGHTTP2_FLAG_PRIORITY = 0x20"

definition NGHTTP2_SETTINGS_HEADER_TABLE_SIZE :: int where
  [frame_consts]: "NGHTTP2_SETTINGS_HEADER_TABLE_SIZE = 0x01"
definition NGHTTP2_SETTINGS_ENABLE_PUSH :: int where
  [frame_consts]: "NGHTTP2_SETTINGS_ENABLE_PUSH = 0x02"
definition NGHTTP2_SETTINGS_MAX_CONCURRENT_STREAMS :: int where
  [frame_consts]: "NGHTTP2_SETTINGS_MAX_CONCURRENT_STREAMS = 0x03"
definition NGHTTP2_SETTINGS_INITIAL_WINDOW_SIZE :: int where
  [frame_consts]: "NGHTTP2_SETTINGS_INITIAL_WINDOW_SIZE = 0x04"
definition NGHTTP2_SETTINGS_MAX_FRAME_SIZE :: int where
  [frame_consts]: "NGHTTP2_SETTINGS_MAX_FRAME_SIZE = 0x05"
definition NGHTTP2_SETTINGS_MAX_HEADER_LIST_SIZE :: int where
  [frame_consts]: "NGHTTP2_SETTINGS_MAX_HEADER_LIST_SIZE = 0x06"
definition NGHTTP2_SETTINGS_ENABLE_CONNECT_PROTOCOL :: int where
  [frame_consts]: "NGHTTP2_SETTINGS_ENABLE_CONNECT_PROTOCOL = 0x08"
definition NGHTTP2_SETTINGS_NO_RFC7540_PRIORITIES :: int where
  [frame_consts]: "NGHTTP2_SETTINGS_NO_RFC7540_PRIORITIES = 0x09"

definition NGHTTP2_STREAM_ID_MASK :: u32 where "NGHTTP2_STREAM_ID_MASK = mask 31"
definition NGHTTP2_WINDOW_SIZE_INCREMENT_MASK :: u32 where "NGHTTP2_WINDOW_SIZE_INCREMENT_MASK = mask 31"
definition NGHTTP2_FRAME_HDLEN :: nat where [frame_consts]: "NGHTTP2_FRAME_HDLEN = 9"
definition NGHTTP2_MAX_FRAME_SIZE_MAX :: nat where [frame_consts]: "NGHTTP2_MAX_FRAME_SIZE_MAX = 16777215"
definition NGHTTP2_MAX_FRAME_SIZE_MIN :: nat where [frame_consts]: "NGHTTP2_MAX_FRAME_SIZE_MIN = 16384"
definition NGHTTP2_FRAME_SETTINGS_ENTRY_LENGTH :: nat where
  [frame_consts]: "NGHTTP2_FRAME_SETTINGS_ENTRY_LENGTH = 6"
definition NGHTTP2_PRIORITY_SPECLEN :: nat where [frame_consts]: "NGHTTP2_PRIORITY_SPECLEN = 5"
definition NGHTTP2_FRAME_SIZE_ERROR :: int where "NGHTTP2_FRAME_SIZE_ERROR = 6"

definition NGHTTP2_DEFAULT_WEIGHT :: int where "NGHTTP2_DEFAULT_WEIGHT = 16"
definition NGHTTP2_MIN_WEIGHT :: int where "NGHTTP2_MIN_WEIGHT = 1"
definition NGHTTP2_MAX_WEIGHT :: int where "NGHTTP2_MAX_WEIGHT = 256"

definition NGHTTP2_NV_FLAG_NO_INDEX :: u8 where "NGHTTP2_NV_FLAG_NO_INDEX = 0x01"
definition NGHTTP2_NV_FLAG_NO_COPY_NAME :: u8 where "NGHTTP2_NV_FLAG_NO_COPY_NAME = 0x02"
definition NGHTTP2_NV_FLAG_NO_COPY_VALUE :: u8 where "NGHTTP2_NV_FLAG_NO_COPY_VALUE = 0x04"

section \<open>Data\<close>

record nghttp2_frame_hd =
  hd_length :: nat
  hd_stream_id :: int
  hd_type :: u8
  hd_flags :: u8
  hd_reserved :: u8

record nghttp2_priority_spec =
  ps_stream_id :: int
  ps_weight :: int
  ps_exclusive :: u8

record nghttp2_nv =
  nv_name :: bytes
  nv_value :: bytes
  nv_flags :: u8

record nghttp2_settings_entry =
  settings_id :: int
  settings_value :: u32

datatype nghttp2_headers_category = HCAT_REQUEST | HCAT_RESPONSE | HCAT_PUSH_RESPONSE | HCAT_HEADERS

text \<open>Every frame struct starts with its header, so that a frame can be read through the union.\<close>

record frame_base =
  fhd :: nghttp2_frame_hd

record nghttp2_data = frame_base +
  data_padlen :: nat

record nghttp2_headers = frame_base +
  headers_padlen :: nat
  headers_pri_spec :: nghttp2_priority_spec
  headers_nva :: "nghttp2_nv list"
  headers_cat :: nghttp2_headers_category

record nghttp2_priority = frame_base +
  priority_spec :: nghttp2_priority_spec

record nghttp2_rst_stream = frame_base +
  rst_error_code :: u32

record nghttp2_settings = frame_base +
  settings_iv :: "nghttp2_settings_entry list"

record nghttp2_push_promise = frame_base +
  push_padlen :: nat
  push_nva :: "nghttp2_nv list"
  promised_stream_id :: int
  push_reserved :: u8

record nghttp2_ping = frame_base +
  ping_opaque_data :: bytes

record nghttp2_goaway = frame_base +
  last_stream_id :: int
  goaway_error_code :: u32
  goaway_opaque_data :: bytes
  goaway_reserved :: u8

record nghttp2_window_update = frame_base +
  window_size_increment :: int
  window_reserved :: u8

text \<open>
  The payloads of the extension frames. \<open>altsvc_origin_len\<close> and \<open>altsvc_field_value_len\<close>
  are separate from the contents, since the parser takes the first from the wire unchecked.
\<close>

record nghttp2_ext_altsvc =
  altsvc_origin :: bytes
  altsvc_origin_len :: nat
  altsvc_field_value :: bytes
  altsvc_field_value_len :: nat

record nghttp2_ext_priority_update =
  pu_stream_id :: int
  pu_field_value :: bytes

record 'p nghttp2_extension = frame_base +
  ext_payload :: 'p

section \<open>Priority specifications\<close>

definition nghttp2_priority_spec_init :: "int \<Rightarrow> int \<Rightarrow> int \<Rightarrow> nghttp2_priority_spec" where
  "nghttp2_priority_spec_init stream_id weight exclusive =
     \<lparr>ps_stream_id = stream_id, ps_weight = weight, ps_exclusive = (if exclusive \<noteq> 0 then 1 else 0)\<rparr>"

definition nghttp2_priority_spec_default_init :: nghttp2_priority_spec where
  "nghttp2_priority_spec_default_init =
     \<lparr>ps_stream_id = 0, ps_weight = NGHTTP2_DEFAULT_WEIGHT, ps_exclusive = 0\<rparr>"

definition nghttp2_priority_spec_check_default :: "nghttp2_priority_spec \<Rightarrow> bool" where
  "nghttp2_priority_spec_check_default p \<longleftrightarrow>
     ps_stream_id p = 0 \<and> ps_weight p = NGHTTP2_DEFAULT_WEIGHT \<and> ps_exclusive p = 0"

definition nghttp2_priority_spec_normalize_weight :: "nghttp2_priority_spec \<Rightarrow> nghttp2_priority_spec" where
  "nghttp2_priority_spec_normalize_weight p =
     (if ps_weight p < NGHTTP2_MIN_WEIGHT then p\<lparr>ps_weight := NGHTTP2_MIN_WEIGHT\<rparr>
      else if NGHTTP2_MAX_WEIGHT < ps_weight p then p\<lparr>ps_weight := NGHTTP2_MAX_WEIGHT\<rparr>
      else p)"

section \<open>Frame headers and initialisation\<close>

text \<open>
  The functions that write to a pointer return the bytes they write there. The third byte of the
  shifted length is overwritten by the type.
\<close>

definition nghttp2_frame_pack_frame_hd :: "nghttp2_frame_hd \<Rightarrow> bytes" where
  "nghttp2_frame_pack_frame_hd h =
     (nghttp2_put_uint32be (word_of_nat (hd_length h * 2 ^ 8)))[3 := hd_type h] @ [hd_flags h] @
     nghttp2_put_uint32be (word_of_int (hd_stream_id h))"

definition nghttp2_frame_unpack_frame_hd :: "bytes \<Rightarrow> nghttp2_frame_hd" where
  "nghttp2_frame_unpack_frame_hd buf =
     \<lparr>hd_length = unat (drop_bit 8 (nghttp2_get_uint32 buf)),
      hd_stream_id = uint (nghttp2_get_uint32 (drop 5 buf) AND NGHTTP2_STREAM_ID_MASK),
      hd_type = buf ! 3, hd_flags = buf ! 4, hd_reserved = 0\<rparr>"

definition nghttp2_frame_hd_init :: "nat \<Rightarrow> u8 \<Rightarrow> u8 \<Rightarrow> int \<Rightarrow> nghttp2_frame_hd" where
  "nghttp2_frame_hd_init len type flags stream_id =
     \<lparr>hd_length = len, hd_stream_id = stream_id, hd_type = type, hd_flags = flags, hd_reserved = 0\<rparr>"

definition nghttp2_frame_headers_init ::
  "u8 \<Rightarrow> int \<Rightarrow> nghttp2_headers_category \<Rightarrow> nghttp2_priority_spec option \<Rightarrow> nghttp2_nv list \<Rightarrow> nghttp2_headers" where
  "nghttp2_frame_headers_init flags stream_id cat pri_spec nva =
     \<lparr>fhd = nghttp2_frame_hd_init 0 NGHTTP2_HEADERS flags stream_id, headers_padlen = 0,
      headers_pri_spec = (case pri_spec of Some p \<Rightarrow> p | None \<Rightarrow> nghttp2_priority_spec_default_init),
      headers_nva = nva, headers_cat = cat\<rparr>"

definition nghttp2_frame_priority_init :: "int \<Rightarrow> nghttp2_priority_spec \<Rightarrow> nghttp2_priority" where
  "nghttp2_frame_priority_init stream_id pri_spec =
     \<lparr>fhd = nghttp2_frame_hd_init NGHTTP2_PRIORITY_SPECLEN NGHTTP2_PRIORITY NGHTTP2_FLAG_NONE stream_id,
      priority_spec = pri_spec\<rparr>"

definition nghttp2_frame_rst_stream_init :: "int \<Rightarrow> u32 \<Rightarrow> nghttp2_rst_stream" where
  "nghttp2_frame_rst_stream_init stream_id error_code =
     \<lparr>fhd = nghttp2_frame_hd_init 4 NGHTTP2_RST_STREAM NGHTTP2_FLAG_NONE stream_id, rst_error_code = error_code\<rparr>"

definition nghttp2_frame_settings_init :: "u8 \<Rightarrow> nghttp2_settings_entry list \<Rightarrow> nghttp2_settings" where
  "nghttp2_frame_settings_init flags iv =
     \<lparr>fhd = nghttp2_frame_hd_init (length iv * NGHTTP2_FRAME_SETTINGS_ENTRY_LENGTH) NGHTTP2_SETTINGS flags 0,
      settings_iv = iv\<rparr>"

definition nghttp2_frame_push_promise_init ::
  "u8 \<Rightarrow> int \<Rightarrow> int \<Rightarrow> nghttp2_nv list \<Rightarrow> nghttp2_push_promise" where
  "nghttp2_frame_push_promise_init flags stream_id promised nva =
     \<lparr>fhd = nghttp2_frame_hd_init 0 NGHTTP2_PUSH_PROMISE flags stream_id, push_padlen = 0, push_nva = nva,
      promised_stream_id = promised, push_reserved = 0\<rparr>"

definition nghttp2_frame_ping_init :: "u8 \<Rightarrow> bytes option \<Rightarrow> nghttp2_ping" where
  "nghttp2_frame_ping_init flags opaque_data =
     \<lparr>fhd = nghttp2_frame_hd_init 8 NGHTTP2_PING flags 0,
      ping_opaque_data = (case opaque_data of Some d \<Rightarrow> take 8 d | None \<Rightarrow> replicate 8 0)\<rparr>"

definition nghttp2_frame_goaway_init :: "int \<Rightarrow> u32 \<Rightarrow> bytes \<Rightarrow> nghttp2_goaway" where
  "nghttp2_frame_goaway_init last_id error_code opaque_data =
     \<lparr>fhd = nghttp2_frame_hd_init (8 + length opaque_data) NGHTTP2_GOAWAY NGHTTP2_FLAG_NONE 0,
      last_stream_id = last_id, goaway_error_code = error_code, goaway_opaque_data = opaque_data,
      goaway_reserved = 0\<rparr>"

definition nghttp2_frame_window_update_init :: "u8 \<Rightarrow> int \<Rightarrow> int \<Rightarrow> nghttp2_window_update" where
  "nghttp2_frame_window_update_init flags stream_id increment =
     \<lparr>fhd = nghttp2_frame_hd_init 4 NGHTTP2_WINDOW_UPDATE flags stream_id,
      window_size_increment = increment, window_reserved = 0\<rparr>"

definition nghttp2_frame_trail_padlen :: "nghttp2_frame_hd \<Rightarrow> nat \<Rightarrow> nat" where
  "nghttp2_frame_trail_padlen h padlen =
     (if padlen = 0 then 0 else padlen - (if hd_flags h AND NGHTTP2_FLAG_PADDED \<noteq> 0 then 1 else 0))"

definition nghttp2_frame_data_init :: "u8 \<Rightarrow> int \<Rightarrow> nghttp2_data" where
  "nghttp2_frame_data_init flags stream_id =
     \<lparr>fhd = nghttp2_frame_hd_init 0 NGHTTP2_DATA flags stream_id, data_padlen = 0\<rparr>"

definition nghttp2_frame_extension_init :: "u8 \<Rightarrow> u8 \<Rightarrow> int \<Rightarrow> 'p \<Rightarrow> 'p nghttp2_extension" where
  "nghttp2_frame_extension_init type flags stream_id payload =
     \<lparr>fhd = nghttp2_frame_hd_init 0 type flags stream_id, ext_payload = payload\<rparr>"

definition nghttp2_frame_altsvc_init :: "int \<Rightarrow> bytes \<Rightarrow> bytes \<Rightarrow> nghttp2_ext_altsvc nghttp2_extension" where
  "nghttp2_frame_altsvc_init stream_id origin field_value =
     \<lparr>fhd = nghttp2_frame_hd_init (2 + length origin + length field_value) NGHTTP2_ALTSVC NGHTTP2_FLAG_NONE stream_id,
      ext_payload = \<lparr>altsvc_origin = origin, altsvc_origin_len = length origin,
                     altsvc_field_value = field_value, altsvc_field_value_len = length field_value\<rparr>\<rparr>"

definition nghttp2_frame_origin_init :: "bytes list \<Rightarrow> bytes list nghttp2_extension" where
  "nghttp2_frame_origin_init ov =
     \<lparr>fhd = nghttp2_frame_hd_init (foldl (\<lambda>payloadlen orig. payloadlen + (2 + length orig)) 0 ov)
        NGHTTP2_ORIGIN NGHTTP2_FLAG_NONE 0, ext_payload = ov\<rparr>"

definition nghttp2_frame_priority_update_init :: "int \<Rightarrow> bytes \<Rightarrow> nghttp2_ext_priority_update nghttp2_extension" where
  "nghttp2_frame_priority_update_init stream_id field_value =
     \<lparr>fhd = nghttp2_frame_hd_init (4 + length field_value) NGHTTP2_PRIORITY_UPDATE NGHTTP2_FLAG_NONE 0,
      ext_payload = \<lparr>pu_stream_id = stream_id, pu_field_value = field_value\<rparr>\<rparr>"

definition nghttp2_frame_priority_len :: "u8 \<Rightarrow> nat" where
  "nghttp2_frame_priority_len flags =
     (if flags AND NGHTTP2_FLAG_PRIORITY \<noteq> 0 then NGHTTP2_PRIORITY_SPECLEN else 0)"

definition nghttp2_frame_headers_payload_nv_offset :: "nghttp2_headers \<Rightarrow> nat" where
  "nghttp2_frame_headers_payload_nv_offset frame = nghttp2_frame_priority_len (hd_flags (fhd frame))"

section \<open>Writing and reading frames\<close>

text \<open>
  The pack functions work on the first buffer of the chain, which is the current one; \<open>None\<close> is
  a failed assertion. \<open>prepend_frame_hd\<close> is the pair of statements \<open>buf->pos -= NGHTTP2_FRAME_HDLEN\<close>
  and \<open>nghttp2_frame_pack_frame_hd(buf->pos, hd)\<close> that every one of them has.
\<close>

abbreviation head_buf :: "nghttp2_bufs \<Rightarrow> nghttp2_buf" where
  "head_buf bufs \<equiv> chain bufs ! 0"

definition set_head_buf :: "nghttp2_buf \<Rightarrow> nghttp2_bufs \<Rightarrow> nghttp2_bufs" where
  "set_head_buf buf bufs = bufs\<lparr>chain := (chain bufs)[0 := buf]\<rparr>"

definition prepend_frame_hd :: "nghttp2_frame_hd \<Rightarrow> nghttp2_buf \<Rightarrow> nghttp2_buf" where
  "prepend_frame_hd h buf =
     (let p = pos buf - NGHTTP2_FRAME_HDLEN
      in buf\<lparr>pos := p, arr := blit p (nghttp2_frame_pack_frame_hd h) (arr buf)\<rparr>)"

fun pack_continuations :: "nghttp2_frame_hd \<Rightarrow> nghttp2_buf list \<Rightarrow> nghttp2_buf list" where
  "pack_continuations h [] = []"
| "pack_continuations h [buf] =
     [prepend_frame_hd (h\<lparr>hd_length := nghttp2_buf_len buf, hd_flags := NGHTTP2_FLAG_END_HEADERS\<rparr>) buf]"
| "pack_continuations h (buf # bs) =
     prepend_frame_hd (h\<lparr>hd_length := nghttp2_buf_len buf\<rparr>) buf # pack_continuations h bs"

definition frame_pack_headers_shared :: "nghttp2_bufs \<Rightarrow> nghttp2_frame_hd \<Rightarrow> nghttp2_bufs" where
  "frame_pack_headers_shared bufs frame_hd =
     (let buf = head_buf bufs;
          h = frame_hd\<lparr>hd_length := nghttp2_buf_len buf\<rparr>;
          h = (if cur bufs \<noteq> 0 then h\<lparr>hd_flags := hd_flags h AND NOT NGHTTP2_FLAG_END_HEADERS\<rparr> else h);
          bufs = set_head_buf (prepend_frame_hd h buf) bufs
      in if cur bufs \<noteq> 0 then
           bufs\<lparr>chain := take 1 (chain bufs) @
             pack_continuations (h\<lparr>hd_type := NGHTTP2_CONTINUATION, hd_flags := NGHTTP2_FLAG_NONE\<rparr>)
               (segment 1 (cur bufs + 1) (chain bufs)) @
             drop (cur bufs + 1) (chain bufs)\<rparr>
         else bufs)"

definition nghttp2_frame_pack_priority_spec :: "nghttp2_priority_spec \<Rightarrow> bytes" where
  "nghttp2_frame_pack_priority_spec p =
     (let buf = nghttp2_put_uint32be (word_of_int (ps_stream_id p));
          buf = (if ps_exclusive p \<noteq> 0 then buf[0 := buf ! 0 OR 0x80] else buf)
      in buf @ [word_of_int (ps_weight p - 1)])"

definition nghttp2_frame_unpack_priority_spec :: "bytes \<Rightarrow> nghttp2_priority_spec" where
  "nghttp2_frame_unpack_priority_spec payload =
     (let dep_stream_id = uint (nghttp2_get_uint32 payload AND NGHTTP2_STREAM_ID_MASK);
          exclusive = (if payload ! 0 AND 0x80 > 0 then 1 else 0);
          weight = uint (payload ! 4) + 1
      in nghttp2_priority_spec_init dep_stream_id weight exclusive)"

definition nghttp2_frame_unpack_headers_payload :: "nghttp2_headers \<Rightarrow> bytes \<Rightarrow> nghttp2_headers" where
  "nghttp2_frame_unpack_headers_payload frame payload =
     frame\<lparr>headers_pri_spec :=
         (if hd_flags (fhd frame) AND NGHTTP2_FLAG_PRIORITY \<noteq> 0 then nghttp2_frame_unpack_priority_spec payload
          else nghttp2_priority_spec_default_init),
       headers_nva := []\<rparr>"

definition nghttp2_frame_pack_priority :: "nghttp2_bufs \<Rightarrow> nghttp2_priority \<Rightarrow> nghttp2_bufs option" where
  "nghttp2_frame_pack_priority bufs frame =
     (if cur bufs \<noteq> 0 then None
      else if \<not> NGHTTP2_PRIORITY_SPECLEN \<le> nghttp2_buf_avail (head_buf bufs) then None
      else Some (set_head_buf
        (buf_write (nghttp2_frame_pack_priority_spec (priority_spec frame))
          (prepend_frame_hd (fhd frame) (head_buf bufs))) bufs))"

definition nghttp2_frame_unpack_priority_payload :: "nghttp2_priority \<Rightarrow> bytes \<Rightarrow> nghttp2_priority" where
  "nghttp2_frame_unpack_priority_payload frame payload =
     frame\<lparr>priority_spec := nghttp2_frame_unpack_priority_spec payload\<rparr>"

definition nghttp2_frame_pack_rst_stream :: "nghttp2_bufs \<Rightarrow> nghttp2_rst_stream \<Rightarrow> nghttp2_bufs option" where
  "nghttp2_frame_pack_rst_stream bufs frame =
     (if cur bufs \<noteq> 0 then None
      else if \<not> 4 \<le> nghttp2_buf_avail (head_buf bufs) then None
      else Some (set_head_buf
        (buf_write (nghttp2_put_uint32be (rst_error_code frame))
          (prepend_frame_hd (fhd frame) (head_buf bufs))) bufs))"

definition nghttp2_frame_unpack_rst_stream_payload :: "nghttp2_rst_stream \<Rightarrow> bytes \<Rightarrow> nghttp2_rst_stream" where
  "nghttp2_frame_unpack_rst_stream_payload frame payload =
     frame\<lparr>rst_error_code := nghttp2_get_uint32 payload\<rparr>"

definition nghttp2_frame_pack_settings_payload :: "nghttp2_settings_entry list \<Rightarrow> bytes" where
  "nghttp2_frame_pack_settings_payload iv =
     concat (map (\<lambda>e. nghttp2_put_uint16be (word_of_int (settings_id e)) @
                      nghttp2_put_uint32be (settings_value e)) iv)"

definition nghttp2_frame_pack_settings ::
  "nghttp2_bufs \<Rightarrow> nghttp2_settings \<Rightarrow> (unit res \<times> nghttp2_bufs) option" where
  "nghttp2_frame_pack_settings bufs frame =
     (if cur bufs \<noteq> 0 then None
      else if nghttp2_buf_avail (head_buf bufs) < hd_length (fhd frame) then Some (Inl ERR_FRAME_SIZE_ERROR, bufs)
      else Some (Inr (), set_head_buf
        (buf_write (nghttp2_frame_pack_settings_payload (settings_iv frame))
          (prepend_frame_hd (fhd frame) (head_buf bufs))) bufs))"

definition nghttp2_frame_unpack_settings_payload ::
  "nghttp2_settings \<Rightarrow> nghttp2_settings_entry list \<Rightarrow> nghttp2_settings" where
  "nghttp2_frame_unpack_settings_payload frame iv = frame\<lparr>settings_iv := iv\<rparr>"

definition nghttp2_frame_unpack_settings_entry :: "bytes \<Rightarrow> nghttp2_settings_entry" where
  "nghttp2_frame_unpack_settings_entry payload =
     \<lparr>settings_id = uint (nghttp2_get_uint16 payload), settings_value = nghttp2_get_uint32 (drop 2 payload)\<rparr>"

definition nghttp2_frame_unpack_settings_payload2 ::
  "bytes \<Rightarrow> nghttp2_mem \<Rightarrow> nghttp2_settings_entry list res \<times> nghttp2_mem" where
  "nghttp2_frame_unpack_settings_payload2 payload mem =
     (let niv = length payload div NGHTTP2_FRAME_SETTINGS_ENTRY_LENGTH in
      if niv = 0 then (Inr [], mem)
      else
        let (ok, mem) = mem_alloc mem in
        if \<not> ok then (Inl ERR_NOMEM, mem)
        else (Inr (map (\<lambda>i. nghttp2_frame_unpack_settings_entry
                              (drop (i * NGHTTP2_FRAME_SETTINGS_ENTRY_LENGTH) payload)) [0..<niv]), mem))"

definition nghttp2_frame_unpack_push_promise_payload :: "nghttp2_push_promise \<Rightarrow> bytes \<Rightarrow> nghttp2_push_promise" where
  "nghttp2_frame_unpack_push_promise_payload frame payload =
     frame\<lparr>promised_stream_id := uint (nghttp2_get_uint32 payload AND NGHTTP2_STREAM_ID_MASK), push_nva := []\<rparr>"

definition nghttp2_frame_pack_ping :: "nghttp2_bufs \<Rightarrow> nghttp2_ping \<Rightarrow> nghttp2_bufs option" where
  "nghttp2_frame_pack_ping bufs frame =
     (if cur bufs \<noteq> 0 then None
      else if \<not> 8 \<le> nghttp2_buf_avail (head_buf bufs) then None
      else Some (set_head_buf
        (buf_write (ping_opaque_data frame) (prepend_frame_hd (fhd frame) (head_buf bufs))) bufs))"

definition nghttp2_frame_unpack_ping_payload :: "nghttp2_ping \<Rightarrow> bytes \<Rightarrow> nghttp2_ping" where
  "nghttp2_frame_unpack_ping_payload frame payload = frame\<lparr>ping_opaque_data := take 8 payload\<rparr>"

definition nghttp2_frame_pack_goaway ::
  "nghttp2_bufs \<Rightarrow> nghttp2_goaway \<Rightarrow> (unit res \<times> nghttp2_bufs) option" where
  "nghttp2_frame_pack_goaway bufs frame =
     (if cur bufs \<noteq> 0 then None
      else
        let buf = prepend_frame_hd (fhd frame) (head_buf bufs);
            buf = buf_write (nghttp2_put_uint32be (word_of_int (last_stream_id frame))) buf;
            buf = buf_write (nghttp2_put_uint32be (goaway_error_code frame)) buf
        in Some (case nghttp2_bufs_add (set_head_buf buf bufs) (goaway_opaque_data frame) of
             (Inl ERR_BUFFER_ERROR, bufs) \<Rightarrow> (Inl ERR_FRAME_SIZE_ERROR, bufs)
           | (Inl e, bufs) \<Rightarrow> (Inl e, bufs)
           | (Inr _, bufs) \<Rightarrow> (Inr (), bufs)))"

definition nghttp2_frame_unpack_goaway_payload :: "nghttp2_goaway \<Rightarrow> bytes \<Rightarrow> bytes \<Rightarrow> nghttp2_goaway" where
  "nghttp2_frame_unpack_goaway_payload frame payload var_gift_payload =
     frame\<lparr>last_stream_id := uint (nghttp2_get_uint32 payload AND NGHTTP2_STREAM_ID_MASK),
       goaway_error_code := nghttp2_get_uint32 (drop 4 payload), goaway_opaque_data := var_gift_payload\<rparr>"

definition nghttp2_frame_unpack_goaway_payload2 ::
  "nghttp2_goaway \<Rightarrow> bytes \<Rightarrow> nghttp2_mem \<Rightarrow> nghttp2_goaway res \<times> nghttp2_mem" where
  "nghttp2_frame_unpack_goaway_payload2 frame payload mem =
     (let len = (if 8 < length payload then length payload - 8 else 0) in
      if len = 0 then (Inr (nghttp2_frame_unpack_goaway_payload frame payload []), mem)
      else
        let (ok, mem) = mem_alloc mem in
        if \<not> ok then (Inl ERR_NOMEM, mem)
        else (Inr (nghttp2_frame_unpack_goaway_payload frame payload (take len (drop 8 payload))), mem))"

definition nghttp2_frame_pack_window_update :: "nghttp2_bufs \<Rightarrow> nghttp2_window_update \<Rightarrow> nghttp2_bufs option" where
  "nghttp2_frame_pack_window_update bufs frame =
     (if cur bufs \<noteq> 0 then None
      else if \<not> 4 \<le> nghttp2_buf_avail (head_buf bufs) then None
      else Some (set_head_buf
        (buf_write (nghttp2_put_uint32be (word_of_int (window_size_increment frame)))
          (prepend_frame_hd (fhd frame) (head_buf bufs))) bufs))"

definition nghttp2_frame_unpack_window_update_payload ::
  "nghttp2_window_update \<Rightarrow> bytes \<Rightarrow> nghttp2_window_update" where
  "nghttp2_frame_unpack_window_update_payload frame payload =
     frame\<lparr>window_size_increment := uint (nghttp2_get_uint32 payload AND NGHTTP2_WINDOW_SIZE_INCREMENT_MASK)\<rparr>"

section \<open>Extension frames\<close>

definition nghttp2_frame_pack_altsvc ::
  "nghttp2_bufs \<Rightarrow> nghttp2_ext_altsvc nghttp2_extension \<Rightarrow> nghttp2_bufs option" where
  "nghttp2_frame_pack_altsvc bufs frame =
     (let altsvc = ext_payload frame; buf = head_buf bufs in
      if \<not> 2 + altsvc_origin_len altsvc + altsvc_field_value_len altsvc \<le> nghttp2_buf_avail buf then None
      else
        let buf = prepend_frame_hd (fhd frame) buf;
            buf = buf_write (nghttp2_put_uint16be (word_of_nat (altsvc_origin_len altsvc))) buf
        in case nghttp2_bufs_add (set_head_buf buf bufs) (altsvc_origin altsvc) of
             (Inl e, bufs) \<Rightarrow> None
           | (Inr _, bufs) \<Rightarrow>
               (case nghttp2_bufs_add bufs (altsvc_field_value altsvc) of
                  (Inl e, bufs) \<Rightarrow> None
                | (Inr _, bufs) \<Rightarrow> Some bufs))"

text \<open>
  \<open>payload\<close> is the payload after the length field; \<open>field_value_len\<close> is the difference of
  two pointers, cast to an unsigned 64-bit number.
\<close>

definition nghttp2_frame_unpack_altsvc_payload ::
  "nghttp2_ext_altsvc nghttp2_extension \<Rightarrow> nat \<Rightarrow> bytes \<Rightarrow> nghttp2_ext_altsvc nghttp2_extension" where
  "nghttp2_frame_unpack_altsvc_payload frame origin_len payload =
     frame\<lparr>ext_payload :=
       (if length payload = 0 then
          \<lparr>altsvc_origin = [], altsvc_origin_len = 0, altsvc_field_value = [], altsvc_field_value_len = 0\<rparr>
        else
          \<lparr>altsvc_origin = take origin_len payload, altsvc_origin_len = origin_len,
           altsvc_field_value = drop origin_len payload,
           altsvc_field_value_len = unat (word_of_int (int (length payload) - int origin_len) :: u64)\<rparr>)\<rparr>"

text \<open>The result is the number that the C function returns; 0 is success.\<close>

definition nghttp2_frame_unpack_altsvc_payload2 ::
  "nghttp2_ext_altsvc nghttp2_extension \<Rightarrow> bytes \<Rightarrow> nghttp2_mem \<Rightarrow>
    int \<times> nghttp2_ext_altsvc nghttp2_extension \<times> nghttp2_mem" where
  "nghttp2_frame_unpack_altsvc_payload2 frame payload mem =
     (if length payload < 2 then (NGHTTP2_FRAME_SIZE_ERROR, frame, mem)
      else
        let origin_len = unat (nghttp2_get_uint16 payload); (ok, mem) = mem_alloc mem in
        if \<not> ok then (nghttp2_error_code ERR_NOMEM, frame, mem)
        else (0, nghttp2_frame_unpack_altsvc_payload frame origin_len (drop 2 payload), mem))"

fun pack_origins :: "bytes list \<Rightarrow> nghttp2_buf \<Rightarrow> nghttp2_buf" where
  "pack_origins [] buf = buf"
| "pack_origins (orig # ov) buf =
     pack_origins ov (buf_write orig (buf_write (nghttp2_put_uint16be (word_of_nat (length orig))) buf))"

definition nghttp2_frame_pack_origin ::
  "nghttp2_bufs \<Rightarrow> bytes list nghttp2_extension \<Rightarrow> (unit res \<times> nghttp2_bufs) option" where
  "nghttp2_frame_pack_origin bufs frame =
     (if nghttp2_buf_avail (head_buf bufs) < hd_length (fhd frame) then Some (Inl ERR_FRAME_SIZE_ERROR, bufs)
      else
        let buf = pack_origins (ext_payload frame) (prepend_frame_hd (fhd frame) (head_buf bufs)) in
        if nghttp2_buf_len buf \<noteq> NGHTTP2_FRAME_HDLEN + hd_length (fhd frame) then None
        else Some (Inr (), set_head_buf buf bufs))"

text \<open>
  The first loop checks the lengths and counts the origins that are not empty, and the second
  copies them.
\<close>

function origin_count :: "bytes \<Rightarrow> nat \<Rightarrow> nat res" where
  "origin_count p nov =
     (if length p = 0 then Inr nov
      else if length p < 2 then Inl ERR_FRAME_SIZE_ERROR
      else
        let originlen = unat (nghttp2_get_uint16 p); p = drop 2 p in
        if originlen = 0 then origin_count p nov
        else if length p < originlen then Inl ERR_FRAME_SIZE_ERROR
        else origin_count (drop originlen p) (nov + 1))"
  by pat_completeness auto
termination by (relation "measure (\<lambda>(p, nov). length p)") auto

function origin_copy :: "bytes \<Rightarrow> bytes list" where
  "origin_copy p =
     (if length p = 0 then []
      else
        let originlen = unat (nghttp2_get_uint16 p); p = drop 2 p in
        if originlen = 0 then origin_copy p else take originlen p # origin_copy (drop originlen p))"
  by pat_completeness auto
termination by (relation "measure length") auto

declare origin_count.simps [simp del] origin_copy.simps [simp del]

definition nghttp2_frame_unpack_origin_payload ::
  "bytes list nghttp2_extension \<Rightarrow> bytes \<Rightarrow> nghttp2_mem \<Rightarrow> bytes list nghttp2_extension res \<times> nghttp2_mem" where
  "nghttp2_frame_unpack_origin_payload frame payload mem =
     (case origin_count payload 0 of
        Inl e \<Rightarrow> (Inl e, mem)
      | Inr nov \<Rightarrow>
          if nov = 0 then (Inr (frame\<lparr>ext_payload := []\<rparr>), mem)
          else
            let (ok, mem) = mem_alloc mem in
            if \<not> ok then (Inl ERR_NOMEM, mem)
            else (Inr (frame\<lparr>ext_payload := origin_copy payload\<rparr>), mem))"

definition nghttp2_frame_pack_priority_update ::
  "nghttp2_bufs \<Rightarrow> nghttp2_ext_priority_update nghttp2_extension \<Rightarrow> nghttp2_bufs option" where
  "nghttp2_frame_pack_priority_update bufs frame =
     (let pu = ext_payload frame; buf = head_buf bufs in
      if \<not> 4 + length (pu_field_value pu) \<le> nghttp2_buf_avail buf then None
      else
        let buf = prepend_frame_hd (fhd frame) buf;
            buf = buf_write (nghttp2_put_uint32be (word_of_int (pu_stream_id pu))) buf
        in case nghttp2_bufs_add (set_head_buf buf bufs) (pu_field_value pu) of
             (Inl e, bufs) \<Rightarrow> None
           | (Inr _, bufs) \<Rightarrow> Some bufs)"

definition nghttp2_frame_unpack_priority_update_payload ::
  "nghttp2_ext_priority_update nghttp2_extension \<Rightarrow> bytes \<Rightarrow> nghttp2_ext_priority_update nghttp2_extension option" where
  "nghttp2_frame_unpack_priority_update_payload frame payload =
     (if \<not> 4 \<le> length payload then None
      else Some (frame\<lparr>ext_payload :=
        \<lparr>pu_stream_id = uint (nghttp2_get_uint32 payload AND NGHTTP2_STREAM_ID_MASK),
         pu_field_value = (if 4 < length payload then drop 4 payload else [])\<rparr>\<rparr>))"

section \<open>Settings and header lists\<close>

text \<open>\<open>None\<close> is the NULL pointer: there is nothing to copy, or the allocation failed.\<close>

definition nghttp2_frame_iv_copy ::
  "nghttp2_settings_entry list \<Rightarrow> nghttp2_mem \<Rightarrow> nghttp2_settings_entry list option \<times> nghttp2_mem" where
  "nghttp2_frame_iv_copy iv mem =
     (if length iv = 0 then (None, mem)
      else let (ok, mem) = mem_alloc mem in (if ok then Some iv else None, mem))"

text \<open>The C library promises the sign of the result of \<open>memcmp\<close>.\<close>

fun memcmp :: "bytes \<Rightarrow> bytes \<Rightarrow> nat \<Rightarrow> int" where
  "memcmp (x # xs) (y # ys) (Suc n) = (if x < y then - 1 else if y < x then 1 else memcmp xs ys n)"
| "memcmp _ _ _ = 0"

definition nghttp2_nv_equal :: "nghttp2_nv \<Rightarrow> nghttp2_nv \<Rightarrow> bool" where
  "nghttp2_nv_equal a b =
     (if length (nv_name a) \<noteq> length (nv_name b) \<or> length (nv_value a) \<noteq> length (nv_value b) then False
      else if memcmp (nv_name a) (nv_name b) (length (nv_name a)) \<noteq> 0 then False
      else if memcmp (nv_value a) (nv_value b) (length (nv_value a)) \<noteq> 0 then False
      else True)"

definition bytes_compar :: "bytes \<Rightarrow> bytes \<Rightarrow> int" where
  "bytes_compar a b =
     (if length a = length b then memcmp a b (length a)
      else if length a < length b then
        (let rv = memcmp a b (length a) in if rv = 0 then - 1 else rv)
      else (let rv = memcmp a b (length b) in if rv = 0 then 1 else rv))"

definition nghttp2_nv_compare_name :: "nghttp2_nv \<Rightarrow> nghttp2_nv \<Rightarrow> int" where
  "nghttp2_nv_compare_name lhs rhs = bytes_compar (nv_name lhs) (nv_name rhs)"

definition nv_compar :: "nghttp2_nv \<Rightarrow> nghttp2_nv \<Rightarrow> int" where
  "nv_compar a b =
     (let rv = bytes_compar (nv_name a) (nv_name b) in
      if rv = 0 then bytes_compar (nv_value a) (nv_value b) else rv)"

text \<open>\<open>qsort\<close> is an argument: the C library leaves the order of equal elements open.\<close>

definition nghttp2_nv_array_sort ::
  "((nghttp2_nv \<Rightarrow> nghttp2_nv \<Rightarrow> int) \<Rightarrow> nghttp2_nv list \<Rightarrow> nghttp2_nv list) \<Rightarrow> nghttp2_nv list \<Rightarrow> nghttp2_nv list" where
  "nghttp2_nv_array_sort qsort nva = qsort nv_compar nva"

definition nv_copy :: "nghttp2_nv \<Rightarrow> nghttp2_nv" where
  "nv_copy nv =
     \<lparr>nv_name = (if nv_flags nv AND NGHTTP2_NV_FLAG_NO_COPY_NAME \<noteq> 0 then nv_name nv
                 else nghttp2_downcase (nv_name nv)),
      nv_value = nv_value nv, nv_flags = nv_flags nv\<rparr>"

definition nghttp2_nv_array_copy ::
  "nghttp2_nv list \<Rightarrow> nghttp2_mem \<Rightarrow> nghttp2_nv list res \<times> nghttp2_mem" where
  "nghttp2_nv_array_copy nva mem =
     (if length nva = 0 then (Inr [], mem)
      else
        let (ok, mem) = mem_alloc mem in
        if \<not> ok then (Inl ERR_NOMEM, mem) else (Inr (map nv_copy nva), mem))"

fun nghttp2_iv_check :: "nghttp2_settings_entry list \<Rightarrow> bool" where
  "nghttp2_iv_check [] = True"
| "nghttp2_iv_check (e # iv) =
     (let i = settings_id e; v = unat (settings_value e) in
      if i = NGHTTP2_SETTINGS_ENABLE_PUSH \<and> v \<noteq> 0 \<and> v \<noteq> 1 then False
      else if i = NGHTTP2_SETTINGS_INITIAL_WINDOW_SIZE \<and> nat NGHTTP2_MAX_WINDOW_SIZE < v then False
      else if i = NGHTTP2_SETTINGS_MAX_FRAME_SIZE \<and>
        (v < NGHTTP2_MAX_FRAME_SIZE_MIN \<or> NGHTTP2_MAX_FRAME_SIZE_MAX < v) then False
      else if i = NGHTTP2_SETTINGS_ENABLE_CONNECT_PROTOCOL \<and> v \<noteq> 0 \<and> v \<noteq> 1 then False
      else if i = NGHTTP2_SETTINGS_NO_RFC7540_PRIORITIES \<and> v \<noteq> 0 \<and> v \<noteq> 1 then False
      else nghttp2_iv_check iv)"

section \<open>Padding\<close>

definition frame_set_pad :: "nghttp2_buf \<Rightarrow> nat \<Rightarrow> bool \<Rightarrow> nghttp2_buf" where
  "frame_set_pad buf padlen framehd_only =
     (let p = pos buf - 1;
          a = blit p (segment (pos buf) (pos buf + NGHTTP2_FRAME_HDLEN) (arr buf)) (arr buf);
          a = a[p + 4 := (a ! (p + 4)) OR NGHTTP2_FLAG_PADDED];
          newlen = unat (drop_bit 8 (nghttp2_get_uint32 (drop p a))) + padlen;
          a = blit p (nghttp2_put_uint32be (word_of_nat (newlen * 2 ^ 8 + unat (a ! (p + 3))))) a;
          buf = buf\<lparr>pos := p, arr := a\<rparr>
      in if framehd_only then buf
         else
           let trail_padlen = padlen - 1 in
           buf\<lparr>arr := blit (last buf) (replicate trail_padlen 0) (a[p + NGHTTP2_FRAME_HDLEN := word_of_nat trail_padlen]),
               last := last buf + trail_padlen\<rparr>)"

definition nghttp2_frame_add_pad ::
  "nghttp2_bufs \<Rightarrow> nghttp2_frame_hd \<Rightarrow> nat \<Rightarrow> bool \<Rightarrow> (nghttp2_bufs \<times> nghttp2_frame_hd) option" where
  "nghttp2_frame_add_pad bufs h padlen framehd_only =
     (if padlen = 0 then Some (bufs, h)
      else if \<not> padlen - 1 \<le> nghttp2_buf_avail (head_buf bufs) then None
      else Some (set_head_buf (frame_set_pad (head_buf bufs) padlen framehd_only) bufs,
                 h\<lparr>hd_length := hd_length h + padlen, hd_flags := hd_flags h OR NGHTTP2_FLAG_PADDED\<rparr>))"

end
