(* ===== verification/Nghttp2_Frame_Correct.thy ===== *)
theory Nghttp2_Frame_Correct
  imports Nghttp2_Frame "HOL-Library.Multiset"
begin

text \<open>
  Properties of the frame layer (\<open>Nghttp2_Frame\<close>): the frame header and all frames without a
  header block survive packing and unpacking, padding and CONTINUATION frames are laid out so that
  a receiver recovers the payload, and the helpers on settings and header lists meet their
  specifications. The frame types share the locale \<open>frame_codec\<close>.
\<close>

unbundle bit_operations_syntax

section \<open>Round trips of the fields\<close>

lemma length_pack_frame_hd [simp]: "length (nghttp2_frame_pack_frame_hd h) = 9"
  by (simp add: nghttp2_frame_pack_frame_hd_def)

lemma bit_get_uint32:
  "bit (nghttp2_get_uint32 (a # b # c # d # s)) n \<longleftrightarrow>
     (if n < 8 then bit d n else if n < 16 then bit c (n - 8) else if n < 24 then bit b (n - 16) else
      n < 32 \<and> bit a (n - 24))"
  by (auto simp: nghttp2_get_uint32_def bit_simps dest: bit_imp_le_length)

lemma put_uint32_eq:
  "nghttp2_put_uint32be w = [ucast (drop_bit 24 w), ucast (drop_bit 16 w), ucast (drop_bit 8 w), ucast w]"
  by (simp add: nghttp2_put_uint32be_def)

lemma bit_w32: "bit (w :: u32) n \<Longrightarrow> n < 32"
  by (drule bit_imp_le_length) simp

lemma get_uint32_upper:
  "drop_bit 8 (nghttp2_get_uint32 ((nghttp2_put_uint32be w)[3 := t] @ r)) = drop_bit 8 w"
proof (rule bit_word_eqI)
  fix i assume "i < LENGTH(32)"
  show "bit (drop_bit 8 (nghttp2_get_uint32 ((nghttp2_put_uint32be w)[3 := t] @ r))) i = bit (drop_bit 8 w) i"
    by (auto simp: put_uint32_eq bit_get_uint32 bit_simps dest: bit_w32)
qed

lemma masked_id:
  assumes "0 \<le> i" "i < 2 ^ 31"
  shows "uint ((word_of_int i :: u32) AND mask 31) = i"
proof -
  have "uint (take_bit 31 (word_of_int i :: u32)) = take_bit 31 (take_bit 32 i)"
    by (simp add: unsigned_take_bit_eq uint_word_of_int_eq)
  also have "\<dots> = i" using assms by (simp add: take_bit_int_eq_self)
  finally show ?thesis by (simp add: take_bit_eq_mask)
qed

lemma unat_shifted_length:
  assumes "l < 2 ^ 24"
  shows "unat (drop_bit 8 (word_of_nat (l * 2 ^ 8) :: u32)) = l"
proof -
  have "l * 2 ^ 8 < 2 ^ LENGTH(32)" using assms by simp
  then have "unat (word_of_nat (l * 2 ^ 8) :: u32) = l * 2 ^ 8" unfolding unsigned_of_nat of_nat_id by (rule take_bit_nat_eq_self)
  then show ?thesis unfolding unat_drop_bit_eq by (simp add: drop_bit_eq_div)
qed

definition valid_frame_hd :: "nghttp2_frame_hd \<Rightarrow> bool" where
  "valid_frame_hd h \<longleftrightarrow> hd_length h < 2 ^ 24 \<and> 0 \<le> hd_stream_id h \<and> hd_stream_id h < 2 ^ 31 \<and> hd_reserved h = 0"

lemma unpack_pack_frame_hd:
  assumes "valid_frame_hd h"
  shows "nghttp2_frame_unpack_frame_hd (nghttp2_frame_pack_frame_hd h @ s) = h"
proof -
  let ?w = "word_of_nat (hd_length h * 2 ^ 8) :: u32"
  have l: "length ((nghttp2_put_uint32be ?w)[3 := hd_type h]) = 4" by simp
  have "hd_length (nghttp2_frame_unpack_frame_hd (nghttp2_frame_pack_frame_hd h @ s)) = hd_length h"
    using assms unat_shifted_length [of "hd_length h"]
    by (simp add: nghttp2_frame_unpack_frame_hd_def nghttp2_frame_pack_frame_hd_def get_uint32_upper valid_frame_hd_def)
  moreover have "drop 5 (nghttp2_frame_pack_frame_hd h @ s) = nghttp2_put_uint32be (word_of_int (hd_stream_id h)) @ s"
    by (simp add: nghttp2_frame_pack_frame_hd_def)
  then have "hd_stream_id (nghttp2_frame_unpack_frame_hd (nghttp2_frame_pack_frame_hd h @ s)) = hd_stream_id h"
    using assms by (simp add: nghttp2_frame_unpack_frame_hd_def NGHTTP2_STREAM_ID_MASK_def masked_id valid_frame_hd_def)
  moreover have "(nghttp2_frame_pack_frame_hd h @ s) ! 3 = hd_type h" "(nghttp2_frame_pack_frame_hd h @ s) ! 4 = hd_flags h"
    using l by (simp_all add: nghttp2_frame_pack_frame_hd_def nth_append)
  ultimately show ?thesis
    using assms by (simp add: nghttp2_frame_unpack_frame_hd_def valid_frame_hd_def)
qed

lemma low_bits: "(0x7f :: u8) = mask 7"
  by (simp add: mask_eq_exp_minus_1)

lemma bit_0x80: "bit (0x80 :: int) n \<longleftrightarrow> n = 7"
proof -
  have "(0x80 :: int) = 2 ^ 7" by simp
  then show ?thesis unfolding \<open>0x80 = 2 ^ 7\<close> bit_exp_iff by auto
qed

lemma pack_unpack_frame_hd:
  assumes "length b = 9"
  shows "nghttp2_frame_pack_frame_hd (nghttp2_frame_unpack_frame_hd b) = b[5 := b ! 5 AND 0x7f]"
proof -
  obtain b0 b1 b2 b3 b4 b5 b6 b7 b8 where b: "b = [b0, b1, b2, b3, b4, b5, b6, b7, b8]"
    using assms by (auto simp: length_Suc_conv eval_nat_numeral)
  let ?w = "nghttp2_get_uint32 [b0, b1, b2, b3]"
  have "word_of_nat (unat (drop_bit 8 ?w) * 2 ^ 8) = push_bit 8 (drop_bit 8 ?w)"
    by (simp add: push_bit_eq_mult)
  moreover have "(nghttp2_put_uint32be (push_bit 8 (drop_bit 8 ?w)))[3 := b3] = [b0, b1, b2, b3]"
    by (auto simp: bit_get_uint32 put_uint32_eq bit_simps intro!: bit_word_eqI dest: bit_imp_le_length)
  moreover have "nghttp2_put_uint32be (word_of_int (uint (nghttp2_get_uint32 [b5, b6, b7, b8] AND mask 31))) =
      [b5 AND 0x7f, b6, b7, b8]"
    unfolding low_bits
    by (auto simp: bit_get_uint32 put_uint32_eq bit_simps intro!: bit_word_eqI dest: bit_imp_le_length)
  ultimately show ?thesis
    unfolding b by (simp add: nghttp2_frame_unpack_frame_hd_def nghttp2_frame_pack_frame_hd_def
        nghttp2_get_uint32_def NGHTTP2_STREAM_ID_MASK_def)
qed

definition valid_pri_spec :: "nghttp2_priority_spec \<Rightarrow> bool" where
  "valid_pri_spec p \<longleftrightarrow> 0 \<le> ps_stream_id p \<and> ps_stream_id p < 2 ^ 31 \<and>
     NGHTTP2_MIN_WEIGHT \<le> ps_weight p \<and> ps_weight p \<le> NGHTTP2_MAX_WEIGHT \<and> ps_exclusive p \<in> {0, 1}"

lemma length_pack_priority_spec [simp]: "length (nghttp2_frame_pack_priority_spec p) = 5"
  by (simp add: nghttp2_frame_pack_priority_spec_def Let_def)

lemma set_top_bit:
  "nghttp2_get_uint32 ((nghttp2_put_uint32be w)[0 := nghttp2_put_uint32be w ! 0 OR 0x80] @ s) AND mask 31 = w AND mask 31"
  by (rule bit_word_eqI) (auto simp: put_uint32_eq bit_get_uint32 bit_simps bit_0x80)

lemma unpack_pack_priority_spec:
  assumes "valid_pri_spec p"
  shows "nghttp2_frame_unpack_priority_spec (nghttp2_frame_pack_priority_spec p @ s) = p"
proof -
  let ?w = "word_of_int (ps_stream_id p) :: u32" let ?b = "nghttp2_put_uint32be ?w"
  have id: "uint (?w AND mask 31) = ps_stream_id p" using assms by (intro masked_id) (auto simp: valid_pri_spec_def)
  have w: "uint (word_of_int (ps_weight p - 1) :: u8) = ps_weight p - 1"
    using assms unfolding uint_word_of_int_eq
    by (intro take_bit_int_eq_self) (auto simp: valid_pri_spec_def NGHTTP2_MIN_WEIGHT_def NGHTTP2_MAX_WEIGHT_def)
  have top: "?b ! 0 AND 0x80 = 0"
  proof (rule bit_word_eqI)
    have "\<not> bit (ps_stream_id p) 31" using assms by (simp add: valid_pri_spec_def bit_iff_odd)
    then have "\<not> bit ?w 31" by (simp add: bit_word_of_int_iff)
    then show "bit (?b ! 0 AND 0x80) n = bit (0 :: u8) n" if "n < LENGTH(8)" for n
      using that by (auto simp: put_uint32_eq bit_simps bit_0x80)
  qed
  obtain x y z u where b: "?b = [x, y, z, u]" by (simp add: put_uint32_eq)
  show ?thesis
  proof (cases "ps_exclusive p = 0")
    case True
    then show ?thesis
      using id w top b get_put_uint32 [of ?w] by (simp add: nghttp2_frame_pack_priority_spec_def nghttp2_frame_unpack_priority_spec_def
          nghttp2_priority_spec_init_def NGHTTP2_STREAM_ID_MASK_def Let_def)
  next
    case False
    then show ?thesis
      using id w b set_top_bit [of ?w] assms by (simp add: nghttp2_frame_pack_priority_spec_def nghttp2_frame_unpack_priority_spec_def
          nghttp2_priority_spec_init_def NGHTTP2_STREAM_ID_MASK_def Let_def valid_pri_spec_def)
  qed
qed

section \<open>Frames in a fresh frame buffer\<close>

text \<open>
  A frame buffer ready for a frame: it is empty, the first chunk is the current one, and there is
  room for a header in front of \<open>pos\<close> and for \<open>n\<close> bytes behind it.
\<close>

definition frame_start :: "nghttp2_bufs \<Rightarrow> nat \<Rightarrow> bool" where
  "frame_start bufs n \<longleftrightarrow> bufs_wf bufs \<and> cur bufs = 0 \<and> last (head_buf bufs) = pos (head_buf bufs) \<and>
     NGHTTP2_FRAME_HDLEN \<le> pos (head_buf bufs) \<and> n \<le> nghttp2_buf_avail (head_buf bufs)"

definition put_frame :: "nghttp2_bufs \<Rightarrow> nghttp2_frame_hd \<Rightarrow> bytes \<Rightarrow> nghttp2_bufs" where
  "put_frame bufs h p = set_head_buf (buf_write p (prepend_frame_hd h (head_buf bufs))) bufs"

lemma head_buf_ok: "bufs_wf bufs \<Longrightarrow> buf_ok (head_buf bufs)"
  by (cases "chain bufs") (auto simp: bufs_wf_def)

lemma set_head_buf_wf:
  assumes "bufs_wf bufs" "cur bufs = 0" "buf_ok b"
  shows "bufs_wf (set_head_buf b bufs)" "bufs_data (set_head_buf b bufs) = buf_data b" "cur (set_head_buf b bufs) = 0"
    "head_buf (set_head_buf b bufs) = b"
proof -
  obtain x xs where c: "chain bufs = x # xs" using assms(1) by (cases "chain bufs") (auto simp: bufs_wf_def)
  have "concat (map buf_data xs) = []"
    using assms(1,2) c by (auto simp: bufs_wf_def list_all_iff buf_data_def)
  then show "bufs_data (set_head_buf b bufs) = buf_data b" using c by (simp add: set_head_buf_def bufs_data_def)
  show "bufs_wf (set_head_buf b bufs)" using assms c by (simp add: set_head_buf_def bufs_wf_def)
  show "cur (set_head_buf b bufs) = 0" "head_buf (set_head_buf b bufs) = b"
    using assms(2) c by (simp_all add: set_head_buf_def)
qed

lemma prepend_ok:
  assumes "buf_ok b" "NGHTTP2_FRAME_HDLEN \<le> pos b"
  shows "buf_ok (prepend_frame_hd h b)" "buf_data (prepend_frame_hd h b) = nghttp2_frame_pack_frame_hd h @ buf_data b"
    "nghttp2_buf_avail (prepend_frame_hd h b) = nghttp2_buf_avail b" "last (prepend_frame_hd h b) = last b"
proof -
  let ?p = "pos b - 9"
  have l: "?p + 9 = pos b" "pos b \<le> last b" "last b \<le> length (arr b)"
    using assms by (auto simp: buf_ok_def NGHTTP2_FRAME_HDLEN_def)
  then have len: "length (blit ?p (nghttp2_frame_pack_frame_hd h) (arr b)) = length (arr b)" by simp
  show "buf_ok (prepend_frame_hd h b)" using l len
    by (simp add: prepend_frame_hd_def buf_ok_def NGHTTP2_FRAME_HDLEN_def Let_def)
  show "buf_data (prepend_frame_hd h b) = nghttp2_frame_pack_frame_hd h @ buf_data b"
    using l segment_blit_prepend [of ?p "nghttp2_frame_pack_frame_hd h" "last b" "arr b"]
    by (simp add: prepend_frame_hd_def buf_data_def NGHTTP2_FRAME_HDLEN_def Let_def)
  show "nghttp2_buf_avail (prepend_frame_hd h b) = nghttp2_buf_avail b" "last (prepend_frame_hd h b) = last b"
    using len by (simp_all add: prepend_frame_hd_def nghttp2_buf_avail_def NGHTTP2_FRAME_HDLEN_def Let_def)
qed

lemma buf_write_fit:
  assumes "buf_ok b" "length p \<le> nghttp2_buf_avail b"
  shows "buf_ok (buf_write p b)" "buf_data (buf_write p b) = buf_data b @ p"
    "nghttp2_buf_avail (buf_write p b) = nghttp2_buf_avail b - length p"
  using assms buf_ok_write [of b p] buf_data_write [of b p] avail_write [of p b]
  by (auto simp: buf_ok_def nghttp2_buf_avail_def)

lemma put_frame_data:
  assumes "frame_start bufs (length p)"
  shows "bufs_wf (put_frame bufs h p)" "bufs_data (put_frame bufs h p) = nghttp2_frame_pack_frame_hd h @ p"
    "cur (put_frame bufs h p) = 0"
proof -
  let ?b = "head_buf bufs" let ?c = "prepend_frame_hd h ?b"
  have s: "bufs_wf bufs" "cur bufs = 0" "last ?b = pos ?b" "NGHTTP2_FRAME_HDLEN \<le> pos ?b" "length p \<le> nghttp2_buf_avail ?b"
    using assms by (auto simp: frame_start_def)
  note c = prepend_ok [OF head_buf_ok [OF s(1)] s(4), of h]
  have d: "buf_ok (buf_write p ?c)" "buf_data (buf_write p ?c) = nghttp2_frame_pack_frame_hd h @ p"
    using buf_write_fit [OF c(1), of p] c(2,3) s(3,5) by (simp_all add: buf_data_def)
  show "bufs_wf (put_frame bufs h p)" "bufs_data (put_frame bufs h p) = nghttp2_frame_pack_frame_hd h @ p"
    "cur (put_frame bufs h p) = 0"
    unfolding put_frame_def using set_head_buf_wf [OF s(1,2) d(1)] d(2) by simp_all
qed

text \<open>A write that fits into the current buffer goes there.\<close>

lemma bufs_add_fits:
  assumes "bufs_wf bufs" "cur bufs = 0" "length p \<le> nghttp2_buf_avail (head_buf bufs)"
  shows "nghttp2_bufs_add bufs p = (Inr (), set_head_buf (buf_write p (head_buf bufs)) bufs)"
proof (cases "p = []")
  case True
  have "buf_write [] (head_buf bufs) = head_buf bufs"
    using head_buf_ok [OF assms(1)] by (simp add: buf_write_def nghttp2_cpymem_def buf_ok_def)
  then show ?thesis using True by (simp add: set_head_buf_def)
next
  case False
  then show ?thesis using nghttp2_bufs_add_fit [OF assms(1) _ False, of "[]"] assms
    by (simp add: set_head_buf_def set_cur_buf_def)
qed

lemma write_then_add:
  assumes s: "frame_start bufs (length p + length q)"
  shows "nghttp2_bufs_add (put_frame bufs h p) q = (Inr (), put_frame bufs h (p @ q))"
proof -
  let ?b = "head_buf bufs"
  have b: "bufs_wf bufs" "cur bufs = 0" "last ?b = pos ?b" "NGHTTP2_FRAME_HDLEN \<le> pos ?b"
    "length p + length q \<le> nghttp2_buf_avail ?b"
    using s by (auto simp: frame_start_def)
  note c = prepend_ok [OF head_buf_ok [OF b(1)] b(4), of h]
  have fp: "frame_start bufs (length p)" using s by (simp add: frame_start_def)
  note w = buf_write_fit [OF c(1), of p]
  have hb: "head_buf (put_frame bufs h p) = buf_write p (prepend_frame_hd h ?b)"
    unfolding put_frame_def using w b(5) c(3) by (intro set_head_buf_wf(4) [OF b(1,2)]) simp
  have "nghttp2_bufs_add (put_frame bufs h p) q =
      (Inr (), set_head_buf (buf_write q (buf_write p (prepend_frame_hd h ?b))) (put_frame bufs h p))"
    using bufs_add_fits [OF put_frame_data(1,3) [OF fp], of q h] hb w(3) c(3) b(5) by simp
  also have "buf_write q (buf_write p (prepend_frame_hd h ?b)) = buf_write (p @ q) (prepend_frame_hd h ?b)"
    by (rule buf_write_append) (use c b in \<open>auto simp: nghttp2_buf_avail_def buf_ok_def\<close>)
  finally show ?thesis by (simp add: put_frame_def set_head_buf_def)
qed

lemma put_frame_split:
  assumes "frame_start bufs (length p + length q)"
  shows "set_head_buf (buf_write q (buf_write p (prepend_frame_hd h (head_buf bufs)))) bufs = put_frame bufs h (p @ q)"
proof -
  let ?b = "head_buf bufs"
  have b: "bufs_wf bufs" "NGHTTP2_FRAME_HDLEN \<le> pos ?b" "length p + length q \<le> nghttp2_buf_avail ?b"
    using assms by (auto simp: frame_start_def)
  note c = prepend_ok [OF head_buf_ok [OF b(1)] b(2), of h]
  show ?thesis unfolding put_frame_def
    by (subst buf_write_append) (use c b in \<open>auto simp: nghttp2_buf_avail_def buf_ok_def\<close>)
qed

section \<open>The frames as a code\<close>

text \<open>
  The contract of a frame type: the frames that are \<open>ok\<close> have a valid header whose length is that
  of the payload, packing puts the header and the payload into the buffer, and unpacking the
  payload for the header returns the frame. \<open>recv_with\<close> reads a frame from received bytes; the
  second component of its result is what follows the frame.
\<close>

definition recv_with :: "(nghttp2_frame_hd \<Rightarrow> bytes \<Rightarrow> 'f option) \<Rightarrow> bytes \<Rightarrow> ('f \<times> bytes) option" where
  "recv_with rd d =
     (let h = nghttp2_frame_unpack_frame_hd d in
      map_option (\<lambda>f. (f, drop (9 + hd_length h) d)) (rd h (take (hd_length h) (drop 9 d))))"

locale frame_codec =
  fixes head_of :: "'f \<Rightarrow> nghttp2_frame_hd"
    and payload :: "'f \<Rightarrow> bytes"
    and pack :: "nghttp2_bufs \<Rightarrow> 'f \<Rightarrow> (unit res \<times> nghttp2_bufs) option"
    and unpack :: "nghttp2_frame_hd \<Rightarrow> bytes \<Rightarrow> 'f option"
    and ok :: "'f \<Rightarrow> bool"
  assumes head_law: "ok f \<Longrightarrow> valid_frame_hd (head_of f) \<and> hd_length (head_of f) = length (payload f)"
    and pack_law: "ok f \<Longrightarrow> frame_start bufs (length (payload f)) \<Longrightarrow>
      pack bufs f = Some (Inr (), put_frame bufs (head_of f) (payload f))"
    and unpack_law: "ok f \<Longrightarrow> unpack (head_of f) (payload f) = Some f"
begin

lemma roundtrip:
  assumes f: "ok f" and s: "frame_start bufs (hd_length (head_of f))"
    and rd: "\<And>p. rd (head_of f) p = map_option C (unpack (head_of f) p)"
  shows "\<exists>bufs'. pack bufs f = Some (Inr (), bufs') \<and> bufs_wf bufs' \<and>
    recv_with rd (bufs_data bufs' @ rest) = Some (C f, rest)"
proof -
  let ?b = "put_frame bufs (head_of f) (payload f)"
  have v: "valid_frame_hd (head_of f)" and l: "hd_length (head_of f) = length (payload f)" using head_law [OF f] by auto
  have s': "frame_start bufs (length (payload f))" using s l by simp
  have d: "bufs_data ?b @ rest = nghttp2_frame_pack_frame_hd (head_of f) @ payload f @ rest"
    using put_frame_data(2) [OF s'] by simp
  have h: "nghttp2_frame_unpack_frame_hd (bufs_data ?b @ rest) = head_of f"
    unfolding d by (rule unpack_pack_frame_hd [OF v])
  have "take (hd_length (head_of f)) (drop 9 (bufs_data ?b @ rest)) = payload f"
    "drop (9 + hd_length (head_of f)) (bufs_data ?b @ rest) = rest"
    unfolding d l by simp_all
  then have "recv_with rd (bufs_data ?b @ rest) = Some (C f, rest)"
    using h rd unpack_law [OF f] by (simp add: recv_with_def Let_def)
  then show ?thesis using pack_law [OF f s'] put_frame_data(1) [OF s'] by blast
qed

end

definition valid_stream_id :: "int \<Rightarrow> bool" where
  "valid_stream_id i \<longleftrightarrow> 0 \<le> i \<and> i < 2 ^ 31"

lemma valid_hd_init [simp]:
  "valid_frame_hd (nghttp2_frame_hd_init len type flags i) \<longleftrightarrow> len < 2 ^ 24 \<and> valid_stream_id i"
  by (auto simp: valid_frame_hd_def nghttp2_frame_hd_init_def valid_stream_id_def)

lemma hd_init_sel [simp]:
  "hd_length (nghttp2_frame_hd_init len type flags i) = len" "hd_stream_id (nghttp2_frame_hd_init len type flags i) = i"
  "hd_type (nghttp2_frame_hd_init len type flags i) = type" "hd_flags (nghttp2_frame_hd_init len type flags i) = flags"
  by (simp_all add: nghttp2_frame_hd_init_def)

definition of_void :: "nghttp2_bufs option \<Rightarrow> (unit res \<times> nghttp2_bufs) option" where
  "of_void r = map_option (\<lambda>bufs. (Inr (), bufs)) r"

lemma frame_start_cases:
  "frame_start bufs n \<Longrightarrow> cur bufs = 0 \<and> \<not> nghttp2_buf_avail (head_buf bufs) < n"
  by (simp add: frame_start_def)

text \<open>PRIORITY, RST_STREAM, PING and WINDOW_UPDATE.\<close>

definition priority_ok :: "nghttp2_priority \<Rightarrow> bool" where
  "priority_ok f \<longleftrightarrow> f = nghttp2_frame_priority_init (hd_stream_id (fhd f)) (priority_spec f) \<and>
     valid_stream_id (hd_stream_id (fhd f)) \<and> valid_pri_spec (priority_spec f)"

definition read_priority :: "nghttp2_frame_hd \<Rightarrow> bytes \<Rightarrow> nghttp2_priority option" where
  "read_priority h p =
     Some (nghttp2_frame_unpack_priority_payload \<lparr>fhd = h, priority_spec = nghttp2_priority_spec_default_init\<rparr> p)"

interpretation priority_frame: frame_codec fhd "\<lambda>f. nghttp2_frame_pack_priority_spec (priority_spec f)"
  "\<lambda>bufs f. of_void (nghttp2_frame_pack_priority bufs f)" read_priority priority_ok
proof (unfold_locales, goal_cases)
  case (1 f)
  then obtain i p where "f = nghttp2_frame_priority_init i p" "valid_stream_id i" "valid_pri_spec p"
    by (auto simp: priority_ok_def)
  then show ?case by (simp add: nghttp2_frame_priority_init_def frame_consts)
next
  case (2 f bufs)
  then show ?case using frame_start_cases [OF 2(2)]
    by (simp add: nghttp2_frame_pack_priority_def put_frame_def of_void_def frame_consts)
next
  case (3 f)
  then show ?case using unpack_pack_priority_spec [of "priority_spec f" "[]"]
    by (simp add: priority_ok_def read_priority_def nghttp2_frame_unpack_priority_payload_def)
qed

definition rst_stream_ok :: "nghttp2_rst_stream \<Rightarrow> bool" where
  "rst_stream_ok f \<longleftrightarrow> f = nghttp2_frame_rst_stream_init (hd_stream_id (fhd f)) (rst_error_code f) \<and>
     valid_stream_id (hd_stream_id (fhd f))"

definition read_rst_stream :: "nghttp2_frame_hd \<Rightarrow> bytes \<Rightarrow> nghttp2_rst_stream option" where
  "read_rst_stream h p = Some (nghttp2_frame_unpack_rst_stream_payload \<lparr>fhd = h, rst_error_code = 0\<rparr> p)"

interpretation rst_stream_frame: frame_codec fhd "\<lambda>f. nghttp2_put_uint32be (rst_error_code f)"
  "\<lambda>bufs f. of_void (nghttp2_frame_pack_rst_stream bufs f)" read_rst_stream rst_stream_ok
proof (unfold_locales, goal_cases)
  case (1 f)
  then obtain i p where "f = nghttp2_frame_rst_stream_init i p" "valid_stream_id i"
    by (auto simp: rst_stream_ok_def)
  then show ?case by (simp add: nghttp2_frame_rst_stream_init_def)
next
  case (2 f bufs)
  then show ?case using frame_start_cases [OF 2(2)]
    by (simp add: nghttp2_frame_pack_rst_stream_def put_frame_def of_void_def)
next
  case (3 f)
  then show ?case by (simp add: read_rst_stream_def nghttp2_frame_unpack_rst_stream_payload_def)
qed

definition ping_ok :: "nghttp2_ping \<Rightarrow> bool" where
  "ping_ok f \<longleftrightarrow> f = nghttp2_frame_ping_init (hd_flags (fhd f)) (Some (ping_opaque_data f)) \<and>
     length (ping_opaque_data f) = 8"

definition read_ping :: "nghttp2_frame_hd \<Rightarrow> bytes \<Rightarrow> nghttp2_ping option" where
  "read_ping h p = Some (nghttp2_frame_unpack_ping_payload \<lparr>fhd = h, ping_opaque_data = []\<rparr> p)"

interpretation ping_frame: frame_codec fhd ping_opaque_data
  "\<lambda>bufs f. of_void (nghttp2_frame_pack_ping bufs f)" read_ping ping_ok
proof (unfold_locales, goal_cases)
  case (1 f)
  then obtain i p where "f = nghttp2_frame_ping_init i (Some p)" "length p = 8"
    by (auto simp: ping_ok_def)
  then show ?case by (simp add: nghttp2_frame_ping_init_def valid_stream_id_def)
next
  case (2 f bufs)
  then have "length (ping_opaque_data f) = 8" by (simp add: ping_ok_def)
  then show ?case using frame_start_cases [OF 2(2)]
    by (simp add: nghttp2_frame_pack_ping_def put_frame_def of_void_def)
next
  case (3 f)
  then show ?case by (simp add: read_ping_def nghttp2_frame_unpack_ping_payload_def ping_ok_def)
qed

definition window_update_ok :: "nghttp2_window_update \<Rightarrow> bool" where
  "window_update_ok f \<longleftrightarrow>
     f = nghttp2_frame_window_update_init (hd_flags (fhd f)) (hd_stream_id (fhd f)) (window_size_increment f) \<and>
     valid_stream_id (hd_stream_id (fhd f)) \<and> valid_stream_id (window_size_increment f)"

definition read_window_update :: "nghttp2_frame_hd \<Rightarrow> bytes \<Rightarrow> nghttp2_window_update option" where
  "read_window_update h p = Some (nghttp2_frame_unpack_window_update_payload
     \<lparr>fhd = h, window_size_increment = 0, window_reserved = 0\<rparr> p)"

interpretation window_update_frame: frame_codec fhd
  "\<lambda>f. nghttp2_put_uint32be (word_of_int (window_size_increment f))"
  "\<lambda>bufs f. of_void (nghttp2_frame_pack_window_update bufs f)" read_window_update window_update_ok
proof (unfold_locales, goal_cases)
  case (1 f)
  then obtain i p g where "f = nghttp2_frame_window_update_init g i p" "valid_stream_id i"
    by (auto simp: window_update_ok_def)
  then show ?case by (simp add: nghttp2_frame_window_update_init_def)
next
  case (2 f bufs)
  then show ?case using frame_start_cases [OF 2(2)]
    by (simp add: nghttp2_frame_pack_window_update_def put_frame_def of_void_def)
next
  case (3 f)
  then obtain i p g where "f = nghttp2_frame_window_update_init g i p" "valid_stream_id p"
    by (auto simp: window_update_ok_def)
  then show ?case using masked_id [of p]
    by (simp add: read_window_update_def nghttp2_frame_unpack_window_update_payload_def
        nghttp2_frame_window_update_init_def NGHTTP2_WINDOW_SIZE_INCREMENT_MASK_def valid_stream_id_def)
qed

text \<open>SETTINGS: entries of six bytes.\<close>

definition settings_entry_ok :: "nghttp2_settings_entry \<Rightarrow> bool" where
  "settings_entry_ok e \<longleftrightarrow> 0 \<le> settings_id e \<and> settings_id e < 2 ^ 16"

definition settings_ok :: "nghttp2_settings \<Rightarrow> bool" where
  "settings_ok f \<longleftrightarrow> f = nghttp2_frame_settings_init (hd_flags (fhd f)) (settings_iv f) \<and>
     list_all settings_entry_ok (settings_iv f) \<and> length (settings_iv f) * 6 < 2 ^ 24"

definition read_settings :: "nghttp2_frame_hd \<Rightarrow> bytes \<Rightarrow> nghttp2_settings option" where
  "read_settings h p =
     (case nghttp2_frame_unpack_settings_payload2 p [] of
        (Inl e, _) \<Rightarrow> None
      | (Inr iv, _) \<Rightarrow> Some (nghttp2_frame_unpack_settings_payload \<lparr>fhd = h, settings_iv = []\<rparr> iv))"

lemma length_settings_payload [simp]: "length (nghttp2_frame_pack_settings_payload iv) = length iv * 6"
  by (induction iv) (simp_all add: nghttp2_frame_pack_settings_payload_def)

lemma unpack_settings_entry:
  assumes "settings_entry_ok e"
  shows "nghttp2_frame_unpack_settings_entry
    (nghttp2_put_uint16be (word_of_int (settings_id e)) @ nghttp2_put_uint32be (settings_value e) @ s) = e"
proof -
  have "uint (word_of_int (settings_id e) :: u16) = settings_id e"
    using assms by (simp add: uint_word_of_int_eq take_bit_int_eq_self settings_entry_ok_def)
  then show ?thesis by (simp add: nghttp2_frame_unpack_settings_entry_def)
qed

lemma unpack_settings_at:
  assumes "list_all settings_entry_ok iv" "i < length iv"
  shows "nghttp2_frame_unpack_settings_entry (drop (i * 6) (nghttp2_frame_pack_settings_payload iv)) = iv ! i"
  using assms
proof (induction iv arbitrary: i)
  case Nil
  then show ?case by simp
next
  case (Cons e iv)
  show ?case
  proof (cases i)
    case 0
    then show ?thesis using Cons.prems unpack_settings_entry [of e]
      by (simp add: nghttp2_frame_pack_settings_payload_def)
  next
    case (Suc j)
    then have "drop (i * 6) (nghttp2_frame_pack_settings_payload (e # iv)) =
        drop (j * 6) (nghttp2_frame_pack_settings_payload iv)"
      by (simp add: nghttp2_frame_pack_settings_payload_def)
    then show ?thesis using Cons Suc by simp
  qed
qed

lemma unpack_pack_settings:
  assumes "list_all settings_entry_ok iv"
  shows "fst (nghttp2_frame_unpack_settings_payload2 (nghttp2_frame_pack_settings_payload iv) []) = Inr iv"
  using unpack_settings_at [OF assms]
  by (auto simp: nghttp2_frame_unpack_settings_payload2_def NGHTTP2_FRAME_SETTINGS_ENTRY_LENGTH_def Let_def
      intro: nth_equalityI)

interpretation settings_frame: frame_codec fhd "\<lambda>f. nghttp2_frame_pack_settings_payload (settings_iv f)"
  nghttp2_frame_pack_settings read_settings settings_ok
proof (unfold_locales, goal_cases)
  case (1 f)
  then obtain g iv where "f = nghttp2_frame_settings_init g iv" "length iv * 6 < 2 ^ 24"
    by (auto simp: settings_ok_def)
  then show ?case
    by (simp add: nghttp2_frame_settings_init_def valid_stream_id_def NGHTTP2_FRAME_SETTINGS_ENTRY_LENGTH_def)
next
  case (2 f bufs)
  then have "hd_length (fhd f) = length (settings_iv f) * 6"
    by (metis settings_ok_def nghttp2_frame_settings_init_def NGHTTP2_FRAME_SETTINGS_ENTRY_LENGTH_def
        hd_init_sel(1) frame_base.select_convs(1))
  then show ?case using frame_start_cases [OF 2(2)]
    by (simp add: nghttp2_frame_pack_settings_def put_frame_def)
next
  case (3 f)
  then have "list_all settings_entry_ok (settings_iv f)" by (simp add: settings_ok_def)
  then show ?case using unpack_pack_settings [of "settings_iv f"]
    by (auto simp: read_settings_def nghttp2_frame_unpack_settings_payload_def split: prod.splits sum.splits)
qed

text \<open>GOAWAY with its debug data.\<close>

definition goaway_ok :: "nghttp2_goaway \<Rightarrow> bool" where
  "goaway_ok f \<longleftrightarrow>
     f = nghttp2_frame_goaway_init (last_stream_id f) (goaway_error_code f) (goaway_opaque_data f) \<and>
     valid_stream_id (last_stream_id f) \<and> 8 + length (goaway_opaque_data f) < 2 ^ 24"

definition goaway_payload :: "nghttp2_goaway \<Rightarrow> bytes" where
  "goaway_payload f = (nghttp2_put_uint32be (word_of_int (last_stream_id f)) @
     nghttp2_put_uint32be (goaway_error_code f)) @ goaway_opaque_data f"

definition read_goaway :: "nghttp2_frame_hd \<Rightarrow> bytes \<Rightarrow> nghttp2_goaway option" where
  "read_goaway h p =
     (case nghttp2_frame_unpack_goaway_payload2 \<lparr>fhd = h, last_stream_id = 0, goaway_error_code = 0,
        goaway_opaque_data = [], goaway_reserved = 0\<rparr> p [] of
        (Inl e, _) \<Rightarrow> None
      | (Inr f, _) \<Rightarrow> Some f)"

interpretation goaway_frame: frame_codec fhd goaway_payload nghttp2_frame_pack_goaway read_goaway goaway_ok
proof (unfold_locales, goal_cases)
  case (1 f)
  then obtain i e d where "f = nghttp2_frame_goaway_init i e d" "8 + length d < 2 ^ 24"
    by (auto simp: goaway_ok_def)
  then show ?case by (simp add: nghttp2_frame_goaway_init_def goaway_payload_def valid_stream_id_def)
next
  case (2 f bufs)
  let ?a = "nghttp2_put_uint32be (word_of_int (last_stream_id f))" let ?b = "nghttp2_put_uint32be (goaway_error_code f)"
  have s: "frame_start bufs (length (?a @ ?b) + length (goaway_opaque_data f))"
    using 2(2) by (simp add: goaway_payload_def)
  then have s8: "frame_start bufs (length ?a + length ?b)" by (simp add: frame_start_def)
  show ?case
    using frame_start_cases [OF s] put_frame_split [OF s8, of "fhd f"] write_then_add [OF s, of "fhd f"]
    by (simp add: nghttp2_frame_pack_goaway_def goaway_payload_def Let_def)
next
  case (3 f)
  then obtain i e d where "f = nghttp2_frame_goaway_init i e d" "valid_stream_id i" by (auto simp: goaway_ok_def)
  then show ?case using masked_id [of i]
    by (auto simp: read_goaway_def nghttp2_frame_unpack_goaway_payload2_def nghttp2_frame_unpack_goaway_payload_def
        goaway_payload_def nghttp2_frame_goaway_init_def NGHTTP2_STREAM_ID_MASK_def valid_stream_id_def Let_def)
qed

text \<open>ALTSVC.\<close>

definition altsvc_ok :: "nghttp2_ext_altsvc nghttp2_extension \<Rightarrow> bool" where
  "altsvc_ok f \<longleftrightarrow>
     f = nghttp2_frame_altsvc_init (hd_stream_id (fhd f)) (altsvc_origin (ext_payload f)) (altsvc_field_value (ext_payload f)) \<and>
     valid_stream_id (hd_stream_id (fhd f)) \<and> length (altsvc_origin (ext_payload f)) < 2 ^ 16 \<and>
     2 + length (altsvc_origin (ext_payload f)) + length (altsvc_field_value (ext_payload f)) < 2 ^ 24"

definition altsvc_payload :: "nghttp2_ext_altsvc nghttp2_extension \<Rightarrow> bytes" where
  "altsvc_payload f = nghttp2_put_uint16be (word_of_nat (altsvc_origin_len (ext_payload f))) @
     altsvc_origin (ext_payload f) @ altsvc_field_value (ext_payload f)"

definition read_altsvc :: "nghttp2_frame_hd \<Rightarrow> bytes \<Rightarrow> nghttp2_ext_altsvc nghttp2_extension option" where
  "read_altsvc h p =
     (let (rv, f, _) = nghttp2_frame_unpack_altsvc_payload2 \<lparr>fhd = h, ext_payload =
        \<lparr>altsvc_origin = [], altsvc_origin_len = 0, altsvc_field_value = [], altsvc_field_value_len = 0\<rparr>\<rparr> p []
      in if rv \<noteq> 0 then None else Some f)"

lemma unat_small16: "n < 2 ^ 16 \<Longrightarrow> unat (word_of_nat n :: u16) = n"
  by (simp add: unsigned_of_nat take_bit_nat_eq_self)

lemma unat_small64: "n < 2 ^ 64 \<Longrightarrow> unat (word_of_nat n :: u64) = n"
  by (simp add: unsigned_of_nat take_bit_nat_eq_self)

lemma altsvc_sel:
  assumes "altsvc_ok f"
  obtains i og fv where "f = nghttp2_frame_altsvc_init i og fv" "valid_stream_id i" "length og < 2 ^ 16"
    "2 + length og + length fv < 2 ^ 24"
  using assms by (auto simp: altsvc_ok_def)

interpretation altsvc_frame: frame_codec fhd altsvc_payload "\<lambda>bufs f. of_void (nghttp2_frame_pack_altsvc bufs f)"
  read_altsvc altsvc_ok
proof (unfold_locales, goal_cases)
  case (1 f)
  then show ?case
    by (elim altsvc_sel) (simp add: nghttp2_frame_altsvc_init_def altsvc_payload_def)
next
  case (2 f bufs)
  then obtain i og fv where f: "f = nghttp2_frame_altsvc_init i og fv" by (elim altsvc_sel)
  let ?p = "nghttp2_put_uint16be (word_of_nat (length og))"
  have s: "frame_start bufs (length ?p + length og + length fv)"
    using 2(2) f by (simp add: altsvc_payload_def nghttp2_frame_altsvc_init_def)
  then have s1: "frame_start bufs (length ?p + length og)" and s2: "frame_start bufs (length (?p @ og) + length fv)"
    by (simp_all add: frame_start_def)
  show ?case
    using frame_start_cases [OF s] write_then_add [OF s1, of "fhd f"] write_then_add [OF s2, of "fhd f"] f
    by (simp add: nghttp2_frame_pack_altsvc_def altsvc_payload_def nghttp2_frame_altsvc_init_def of_void_def
        put_frame_def Let_def)
next
  case (3 f)
  then obtain i og fv where f: "f = nghttp2_frame_altsvc_init i og fv" "length og < 2 ^ 16" "2 + length og + length fv < 2 ^ 24"
    by (elim altsvc_sel)
  moreover have "unat (word_of_nat (length fv) :: u64) = length fv" using f by (intro unat_small64) simp
  ultimately show ?case using unat_small16 [of "length og"]
    by (auto simp: read_altsvc_def nghttp2_frame_unpack_altsvc_payload2_def nghttp2_frame_unpack_altsvc_payload_def
        altsvc_payload_def nghttp2_frame_altsvc_init_def Let_def)
qed

text \<open>ORIGIN: a sequence of origins with their lengths; the parser drops empty ones.\<close>

definition origin_bytes :: "bytes list \<Rightarrow> bytes" where
  "origin_bytes ov = concat (map (\<lambda>og. nghttp2_put_uint16be (word_of_nat (length og)) @ og) ov)"

lemma length_origin_bytes: "length (origin_bytes ov) = foldl (\<lambda>l og. l + (2 + length og)) 0 ov"
proof -
  have "foldl (\<lambda>l og. l + (2 + length og)) n ov = n + length (origin_bytes ov)" for n
    by (induction ov arbitrary: n) (simp_all add: origin_bytes_def)
  then show ?thesis by simp
qed

definition origin_ok :: "bytes list nghttp2_extension \<Rightarrow> bool" where
  "origin_ok f \<longleftrightarrow> f = nghttp2_frame_origin_init (ext_payload f) \<and>
     list_all (\<lambda>og. og \<noteq> [] \<and> length og < 2 ^ 16) (ext_payload f) \<and> length (origin_bytes (ext_payload f)) < 2 ^ 24"

definition read_origin :: "nghttp2_frame_hd \<Rightarrow> bytes \<Rightarrow> bytes list nghttp2_extension option" where
  "read_origin h p =
     (case nghttp2_frame_unpack_origin_payload \<lparr>fhd = h, ext_payload = []\<rparr> p [] of
        (Inl e, _) \<Rightarrow> None
      | (Inr f, _) \<Rightarrow> Some f)"

lemma pack_origins_write:
  assumes "buf_ok b" "length (origin_bytes ov) \<le> nghttp2_buf_avail b"
  shows "pack_origins ov b = buf_write (origin_bytes ov) b"
  using assms
proof (induction ov arbitrary: b)
  case Nil
  then show ?case by (simp add: origin_bytes_def buf_write_def nghttp2_cpymem_def buf_ok_def)
next
  case (Cons og ov)
  let ?l = "nghttp2_put_uint16be (word_of_nat (length og))"
  have ob: "origin_bytes (og # ov) = (?l @ og) @ origin_bytes ov" by (simp add: origin_bytes_def)
  have av: "last b + (2 + length og + length (origin_bytes ov)) \<le> length (arr b)"
    using Cons.prems ob by (auto simp: nghttp2_buf_avail_def buf_ok_def)
  have w: "buf_write og (buf_write ?l b) = buf_write (?l @ og) b"
    using av by (intro buf_write_append) simp
  have "buf_ok (buf_write (?l @ og) b)" "length (origin_bytes ov) \<le> nghttp2_buf_avail (buf_write (?l @ og) b)"
    using buf_write_fit [OF Cons.prems(1), of "?l @ og"] Cons.prems(2) ob by auto
  then have "pack_origins (og # ov) b = buf_write (origin_bytes ov) (buf_write (?l @ og) b)"
    using Cons.IH w by simp
  also have "\<dots> = buf_write (origin_bytes (og # ov)) b"
    unfolding ob using av by (intro buf_write_append) simp
  finally show ?case .
qed

lemma origin_parse:
  assumes "list_all (\<lambda>og. length og < 2 ^ 16) ov"
  shows "origin_count (origin_bytes ov) n = Inr (n + length (filter (\<lambda>og. og \<noteq> []) ov))"
    and "origin_copy (origin_bytes ov) = filter (\<lambda>og. og \<noteq> []) ov"
  using assms
proof (induction ov arbitrary: n)
  case Nil
  { case 1 show ?case by (simp add: origin_bytes_def origin_count.simps) }
  { case 2 show ?case by (simp add: origin_bytes_def origin_copy.simps) }
next
  case (Cons og ov)
  let ?l = "nghttp2_put_uint16be (word_of_nat (length og))"
  have ob: "origin_bytes (og # ov) = ?l @ og @ origin_bytes ov" by (simp add: origin_bytes_def)
  { case 1
    then have "unat (word_of_nat (length og) :: u16) = length og" by (intro unat_small16) simp
    then show ?case using Cons.IH(1) 1 unfolding ob by (subst origin_count.simps) (auto simp: Let_def) }
  { case 2
    then have "unat (word_of_nat (length og) :: u16) = length og" by (intro unat_small16) simp
    then show ?case using Cons.IH(2) 2 unfolding ob by (subst origin_copy.simps) (auto simp: Let_def) }
qed

interpretation origin_frame: frame_codec fhd "\<lambda>f. origin_bytes (ext_payload f)" nghttp2_frame_pack_origin
  read_origin origin_ok
proof (unfold_locales, goal_cases)
  case (1 f)
  then obtain ov where "f = nghttp2_frame_origin_init ov" "length (origin_bytes ov) < 2 ^ 24"
    by (auto simp: origin_ok_def)
  then show ?case by (simp add: nghttp2_frame_origin_init_def length_origin_bytes valid_stream_id_def)
next
  case (2 f bufs)
  then obtain ov where f: "f = nghttp2_frame_origin_init ov" by (auto simp: origin_ok_def)
  have h: "ext_payload f = ov" "hd_length (fhd f) = length (origin_bytes ov)"
    using f by (simp_all add: nghttp2_frame_origin_init_def length_origin_bytes)
  have s: "bufs_wf bufs" "last (head_buf bufs) = pos (head_buf bufs)" "NGHTTP2_FRAME_HDLEN \<le> pos (head_buf bufs)"
    "length (origin_bytes ov) \<le> nghttp2_buf_avail (head_buf bufs)"
    using 2(2) h by (auto simp: frame_start_def)
  let ?c = "prepend_frame_hd (fhd f) (head_buf bufs)"
  note c = prepend_ok [OF head_buf_ok [OF s(1)] s(3), of "fhd f"]
  have w: "pack_origins ov ?c = buf_write (origin_bytes ov) ?c" using c s by (intro pack_origins_write) auto
  have "buf_ok (buf_write (origin_bytes ov) ?c)"
    "buf_data (buf_write (origin_bytes ov) ?c) = nghttp2_frame_pack_frame_hd (fhd f) @ origin_bytes ov"
    using buf_write_fit [OF c(1), of "origin_bytes ov"] c(2,3) s by (simp_all add: buf_data_def)
  then have "nghttp2_buf_len (buf_write (origin_bytes ov) ?c) = 9 + length (origin_bytes ov)"
    using length_buf_data [of "buf_write (origin_bytes ov) ?c"] by simp
  then show ?case using s(4) h w
    by (simp add: nghttp2_frame_pack_origin_def put_frame_def NGHTTP2_FRAME_HDLEN_def Let_def)
next
  case (3 f)
  then have l: "list_all (\<lambda>og. length og < 2 ^ 16) (ext_payload f)" "filter (\<lambda>og. og \<noteq> []) (ext_payload f) = ext_payload f"
    by (auto simp: origin_ok_def list_all_iff)
  then show ?case using origin_parse [OF l(1)]
    by (auto simp: read_origin_def nghttp2_frame_unpack_origin_payload_def split: prod.splits sum.splits)
qed

text \<open>PRIORITY_UPDATE.\<close>

definition priority_update_ok :: "nghttp2_ext_priority_update nghttp2_extension \<Rightarrow> bool" where
  "priority_update_ok f \<longleftrightarrow>
     f = nghttp2_frame_priority_update_init (pu_stream_id (ext_payload f)) (pu_field_value (ext_payload f)) \<and>
     valid_stream_id (pu_stream_id (ext_payload f)) \<and> 4 + length (pu_field_value (ext_payload f)) < 2 ^ 24"

definition priority_update_payload :: "nghttp2_ext_priority_update nghttp2_extension \<Rightarrow> bytes" where
  "priority_update_payload f =
     nghttp2_put_uint32be (word_of_int (pu_stream_id (ext_payload f))) @ pu_field_value (ext_payload f)"

definition read_priority_update :: "nghttp2_frame_hd \<Rightarrow> bytes \<Rightarrow> nghttp2_ext_priority_update nghttp2_extension option" where
  "read_priority_update h p = nghttp2_frame_unpack_priority_update_payload
     \<lparr>fhd = h, ext_payload = \<lparr>pu_stream_id = 0, pu_field_value = []\<rparr>\<rparr> p"

interpretation priority_update_frame: frame_codec fhd priority_update_payload
  "\<lambda>bufs f. of_void (nghttp2_frame_pack_priority_update bufs f)" read_priority_update priority_update_ok
proof (unfold_locales, goal_cases)
  case (1 f)
  then obtain i v where "f = nghttp2_frame_priority_update_init i v" "4 + length v < 2 ^ 24"
    by (auto simp: priority_update_ok_def)
  then show ?case by (simp add: nghttp2_frame_priority_update_init_def priority_update_payload_def valid_stream_id_def)
next
  case (2 f bufs)
  let ?p = "nghttp2_put_uint32be (word_of_int (pu_stream_id (ext_payload f)))"
  have s: "frame_start bufs (length ?p + length (pu_field_value (ext_payload f)))"
    using 2(2) by (simp add: priority_update_payload_def)
  show ?case
    using frame_start_cases [OF s] write_then_add [OF s, of "fhd f"]
    by (simp add: nghttp2_frame_pack_priority_update_def priority_update_payload_def of_void_def put_frame_def Let_def)
next
  case (3 f)
  then obtain i v where "f = nghttp2_frame_priority_update_init i v" "valid_stream_id i"
    by (auto simp: priority_update_ok_def)
  then show ?case using masked_id [of i]
    by (auto simp: read_priority_update_def nghttp2_frame_unpack_priority_update_payload_def
        priority_update_payload_def nghttp2_frame_priority_update_init_def NGHTTP2_STREAM_ID_MASK_def valid_stream_id_def)
qed

section \<open>All frames\<close>

text \<open>The union of the frames, and the switches over the frame type of the sender and the receiver.\<close>

datatype nghttp2_frame =
    Priority_frame nghttp2_priority | Rst_stream_frame nghttp2_rst_stream | Settings_frame nghttp2_settings
  | Ping_frame nghttp2_ping | Goaway_frame nghttp2_goaway | Window_update_frame nghttp2_window_update
  | Altsvc_frame "nghttp2_ext_altsvc nghttp2_extension" | Origin_frame "bytes list nghttp2_extension"
  | Priority_update_frame "nghttp2_ext_priority_update nghttp2_extension"

fun pack_frame :: "nghttp2_bufs \<Rightarrow> nghttp2_frame \<Rightarrow> (unit res \<times> nghttp2_bufs) option" where
  "pack_frame bufs (Priority_frame f) = of_void (nghttp2_frame_pack_priority bufs f)"
| "pack_frame bufs (Rst_stream_frame f) = of_void (nghttp2_frame_pack_rst_stream bufs f)"
| "pack_frame bufs (Settings_frame f) = nghttp2_frame_pack_settings bufs f"
| "pack_frame bufs (Ping_frame f) = of_void (nghttp2_frame_pack_ping bufs f)"
| "pack_frame bufs (Goaway_frame f) = nghttp2_frame_pack_goaway bufs f"
| "pack_frame bufs (Window_update_frame f) = of_void (nghttp2_frame_pack_window_update bufs f)"
| "pack_frame bufs (Altsvc_frame f) = of_void (nghttp2_frame_pack_altsvc bufs f)"
| "pack_frame bufs (Origin_frame f) = nghttp2_frame_pack_origin bufs f"
| "pack_frame bufs (Priority_update_frame f) = of_void (nghttp2_frame_pack_priority_update bufs f)"

definition read_frame :: "nghttp2_frame_hd \<Rightarrow> bytes \<Rightarrow> nghttp2_frame option" where
  "read_frame h p =
     (if hd_type h = NGHTTP2_PRIORITY then map_option Priority_frame (read_priority h p)
      else if hd_type h = NGHTTP2_RST_STREAM then map_option Rst_stream_frame (read_rst_stream h p)
      else if hd_type h = NGHTTP2_SETTINGS then map_option Settings_frame (read_settings h p)
      else if hd_type h = NGHTTP2_PING then map_option Ping_frame (read_ping h p)
      else if hd_type h = NGHTTP2_GOAWAY then map_option Goaway_frame (read_goaway h p)
      else if hd_type h = NGHTTP2_WINDOW_UPDATE then map_option Window_update_frame (read_window_update h p)
      else if hd_type h = NGHTTP2_ALTSVC then map_option Altsvc_frame (read_altsvc h p)
      else if hd_type h = NGHTTP2_ORIGIN then map_option Origin_frame (read_origin h p)
      else if hd_type h = NGHTTP2_PRIORITY_UPDATE then map_option Priority_update_frame (read_priority_update h p)
      else None)"

definition recv_frame :: "bytes \<Rightarrow> (nghttp2_frame \<times> bytes) option" where
  "recv_frame d = recv_with read_frame d"

fun frame_ok :: "nghttp2_frame \<Rightarrow> bool" where
  "frame_ok (Priority_frame f) = priority_ok f"
| "frame_ok (Rst_stream_frame f) = rst_stream_ok f"
| "frame_ok (Settings_frame f) = settings_ok f"
| "frame_ok (Ping_frame f) = ping_ok f"
| "frame_ok (Goaway_frame f) = goaway_ok f"
| "frame_ok (Window_update_frame f) = window_update_ok f"
| "frame_ok (Altsvc_frame f) = altsvc_ok f"
| "frame_ok (Origin_frame f) = origin_ok f"
| "frame_ok (Priority_update_frame f) = priority_update_ok f"

fun frame_hd_of :: "nghttp2_frame \<Rightarrow> nghttp2_frame_hd" where
  "frame_hd_of (Priority_frame f) = fhd f"
| "frame_hd_of (Rst_stream_frame f) = fhd f"
| "frame_hd_of (Settings_frame f) = fhd f"
| "frame_hd_of (Ping_frame f) = fhd f"
| "frame_hd_of (Goaway_frame f) = fhd f"
| "frame_hd_of (Window_update_frame f) = fhd f"
| "frame_hd_of (Altsvc_frame f) = fhd f"
| "frame_hd_of (Origin_frame f) = fhd f"
| "frame_hd_of (Priority_update_frame f) = fhd f"

lemma init_types:
  "hd_type (fhd (nghttp2_frame_priority_init i ps)) = NGHTTP2_PRIORITY"
  "hd_type (fhd (nghttp2_frame_rst_stream_init i ec)) = NGHTTP2_RST_STREAM"
  "hd_type (fhd (nghttp2_frame_settings_init fl iv)) = NGHTTP2_SETTINGS"
  "hd_type (fhd (nghttp2_frame_ping_init fl od)) = NGHTTP2_PING"
  "hd_type (fhd (nghttp2_frame_goaway_init i ec bs)) = NGHTTP2_GOAWAY"
  "hd_type (fhd (nghttp2_frame_window_update_init fl i w)) = NGHTTP2_WINDOW_UPDATE"
  "hd_type (fhd (nghttp2_frame_altsvc_init i og fv)) = NGHTTP2_ALTSVC"
  "hd_type (fhd (nghttp2_frame_origin_init ov)) = NGHTTP2_ORIGIN"
  "hd_type (fhd (nghttp2_frame_priority_update_init i fv)) = NGHTTP2_PRIORITY_UPDATE"
  by (simp_all add: nghttp2_frame_priority_init_def nghttp2_frame_rst_stream_init_def nghttp2_frame_settings_init_def
      nghttp2_frame_ping_init_def nghttp2_frame_goaway_init_def nghttp2_frame_window_update_init_def
      nghttp2_frame_altsvc_init_def nghttp2_frame_origin_init_def nghttp2_frame_priority_update_init_def)

lemma ok_types:
  "priority_ok a \<Longrightarrow> hd_type (fhd a) = NGHTTP2_PRIORITY" "rst_stream_ok b \<Longrightarrow> hd_type (fhd b) = NGHTTP2_RST_STREAM"
  "settings_ok c \<Longrightarrow> hd_type (fhd c) = NGHTTP2_SETTINGS" "ping_ok d \<Longrightarrow> hd_type (fhd d) = NGHTTP2_PING"
  "goaway_ok e \<Longrightarrow> hd_type (fhd e) = NGHTTP2_GOAWAY" "window_update_ok f \<Longrightarrow> hd_type (fhd f) = NGHTTP2_WINDOW_UPDATE"
  "altsvc_ok g \<Longrightarrow> hd_type (fhd g) = NGHTTP2_ALTSVC" "origin_ok h \<Longrightarrow> hd_type (fhd h) = NGHTTP2_ORIGIN"
  "priority_update_ok i \<Longrightarrow> hd_type (fhd i) = NGHTTP2_PRIORITY_UPDATE"
          apply (metis priority_ok_def init_types(1))
         apply (metis rst_stream_ok_def init_types(2))
        apply (metis settings_ok_def init_types(3))
       apply (metis ping_ok_def init_types(4))
      apply (metis goaway_ok_def init_types(5))
     apply (metis window_update_ok_def init_types(6))
    apply (metis altsvc_ok_def init_types(7))
   apply (metis origin_ok_def init_types(8))
  apply (metis priority_update_ok_def init_types(9))
  done

text \<open>
  C25. Every frame type but DATA, HEADERS and PUSH_PROMISE survives the wire: packing a well formed
  frame into an empty frame buffer with enough room succeeds, and a receiver that reads the nine
  byte header and then the payload of the announced length gets the same frame and is left with
  exactly the bytes that follow it.
\<close>

theorem frame_roundtrip:
  assumes "frame_ok f" "frame_start bufs (hd_length (frame_hd_of f))"
  shows "\<exists>bufs'. pack_frame bufs f = Some (Inr (), bufs') \<and> bufs_wf bufs' \<and>
    recv_frame (bufs_data bufs' @ rest) = Some (f, rest)"
proof (cases f)
  case (Priority_frame x)
  then show ?thesis using assms ok_types(1) [of x] priority_frame.roundtrip [of x bufs read_frame Priority_frame rest]
    by (simp add: recv_frame_def read_frame_def frame_consts)
next
  case (Rst_stream_frame x)
  then show ?thesis using assms ok_types(2) [of x] rst_stream_frame.roundtrip [of x bufs read_frame Rst_stream_frame rest]
    by (simp add: recv_frame_def read_frame_def frame_consts)
next
  case (Settings_frame x)
  then show ?thesis using assms ok_types(3) [of x] settings_frame.roundtrip [of x bufs read_frame Settings_frame rest]
    by (simp add: recv_frame_def read_frame_def frame_consts)
next
  case (Ping_frame x)
  then show ?thesis using assms ok_types(4) [of x] ping_frame.roundtrip [of x bufs read_frame Ping_frame rest]
    by (simp add: recv_frame_def read_frame_def frame_consts)
next
  case (Goaway_frame x)
  then show ?thesis using assms ok_types(5) [of x] goaway_frame.roundtrip [of x bufs read_frame Goaway_frame rest]
    by (simp add: recv_frame_def read_frame_def frame_consts)
next
  case (Window_update_frame x)
  then show ?thesis using assms ok_types(6) [of x] window_update_frame.roundtrip [of x bufs read_frame Window_update_frame rest]
    by (simp add: recv_frame_def read_frame_def frame_consts)
next
  case (Altsvc_frame x)
  then show ?thesis using assms ok_types(7) [of x] altsvc_frame.roundtrip [of x bufs read_frame Altsvc_frame rest]
    by (simp add: recv_frame_def read_frame_def frame_consts)
next
  case (Origin_frame x)
  then show ?thesis using assms ok_types(8) [of x] origin_frame.roundtrip [of x bufs read_frame Origin_frame rest]
    by (simp add: recv_frame_def read_frame_def frame_consts)
next
  case (Priority_update_frame x)
  then show ?thesis using assms ok_types(9) [of x] priority_update_frame.roundtrip [of x bufs read_frame Priority_update_frame rest]
    by (simp add: recv_frame_def read_frame_def frame_consts)
qed

definition example_frame_bufs :: nghttp2_bufs where
  "example_frame_bufs = \<lparr>chain = [\<lparr>arr = replicate 40 0, pos = 10, last = 10, mark = 0\<rparr>], cur = 0, bufs_mem = [],
     chunk_length = 40, max_chunk = 1, chunk_used = 1, chunk_keep = 1, offset = 10\<rparr>"

lemma example_frame_start: "n \<le> 30 \<Longrightarrow> frame_start example_frame_bufs n"
  by (simp add: frame_start_def example_frame_bufs_def bufs_wf_def buf_ok_def nghttp2_buf_avail_def
      NGHTTP2_FRAME_HDLEN_def)

theorem frame_roundtrip_witness:
  "\<exists>bufs'. pack_frame example_frame_bufs (Goaway_frame (nghttp2_frame_goaway_init 7 2 [104, 105])) = Some (Inr (), bufs') \<and>
    recv_frame (bufs_data bufs' @ [1, 2, 3]) = Some (Goaway_frame (nghttp2_frame_goaway_init 7 2 [104, 105]), [1, 2, 3])"
proof -
  let ?f = "Goaway_frame (nghttp2_frame_goaway_init 7 2 [104, 105])"
  have "frame_ok ?f" "hd_length (frame_hd_of ?f) \<le> 30"
    by (simp_all add: goaway_ok_def nghttp2_frame_goaway_init_def valid_stream_id_def)
  then show ?thesis using frame_roundtrip [of ?f example_frame_bufs "[1, 2, 3]"] example_frame_start by blast
qed

text \<open>
  The nine byte frame header: unpacking what was packed returns the header, and packing what
  was unpacked returns the bytes, except for the reserved bit in front of the stream identifier,
  which the receiver ignores and the sender leaves zero.
\<close>

theorem frame_hd_roundtrip:
  assumes "valid_frame_hd h" "length b = 9"
  shows "nghttp2_frame_unpack_frame_hd (nghttp2_frame_pack_frame_hd h @ s) = h \<and>
    nghttp2_frame_pack_frame_hd (nghttp2_frame_unpack_frame_hd b) = b[5 := b ! 5 AND 0x7f]"
  using unpack_pack_frame_hd [OF assms(1)] pack_unpack_frame_hd [OF assms(2)] by blast

theorem frame_hd_roundtrip_witness:
  "nghttp2_frame_unpack_frame_hd (nghttp2_frame_pack_frame_hd (nghttp2_frame_hd_init 16384 0 1 2147483647) @ [9]) =
     nghttp2_frame_hd_init 16384 0 1 2147483647 \<and>
   nghttp2_frame_pack_frame_hd (nghttp2_frame_unpack_frame_hd [0, 0, 4, 8, 0, 0xff, 1, 2, 3]) = [0, 0, 4, 8, 0, 0x7f, 1, 2, 3]"
  using frame_hd_roundtrip [of "nghttp2_frame_hd_init 16384 0 1 2147483647" "[0, 0, 4, 8, 0, 0xff, 1, 2, 3]" "[9]"]
  by (simp add: valid_stream_id_def)

section \<open>Padding\<close>

lemma put_length_type:
  assumes "l < 2 ^ 24"
  shows "nghttp2_put_uint32be (word_of_nat (l * 2 ^ 8 + unat t)) = (nghttp2_put_uint32be (word_of_nat (l * 2 ^ 8)))[3 := t]"
proof -
  let ?w = "word_of_nat l :: u32"
  have eq: "word_of_nat (l * 2 ^ 8 + unat t) = push_bit 8 ?w OR ucast t"
  proof -
    have "word_of_nat (l * 2 ^ 8 + unat t) = push_bit 8 ?w + ucast t"
      by (simp add: push_bit_eq_mult)
    also have "\<dots> = push_bit 8 ?w OR ucast t"
      by (rule disjunctive_add) (auto simp: bit_simps dest: bit_imp_le_length)
    finally show ?thesis .
  qed
  have eq2: "word_of_nat (l * 2 ^ 8) = push_bit 8 ?w" by (simp add: push_bit_eq_mult)
  show ?thesis unfolding eq eq2
    by (auto simp: put_uint32_eq bit_simps intro!: bit_word_eqI dest: bit_imp_le_length)
qed

lemma pack_set_flags:
  "(nghttp2_frame_pack_frame_hd h)[4 := f] = nghttp2_frame_pack_frame_hd (h\<lparr>hd_flags := f\<rparr>)"
  by (simp add: nghttp2_frame_pack_frame_hd_def list_update_append)

lemma pack_set_length:
  assumes "l < 2 ^ 24"
  shows "nghttp2_put_uint32be (word_of_nat (l * 2 ^ 8 + unat (hd_type h))) @ drop 4 (nghttp2_frame_pack_frame_hd h) =
    nghttp2_frame_pack_frame_hd (h\<lparr>hd_length := l\<rparr>)"
  using put_length_type [OF assms, of "hd_type h"] by (simp add: nghttp2_frame_pack_frame_hd_def)

lemma hd_nth:
  "nghttp2_frame_pack_frame_hd h ! 3 = hd_type h" "nghttp2_frame_pack_frame_hd h ! 4 = hd_flags h"
  by (simp_all add: nghttp2_frame_pack_frame_hd_def nth_append)

definition padded_hd :: "nat \<Rightarrow> nghttp2_frame_hd \<Rightarrow> nghttp2_frame_hd" where
  "padded_hd padlen h = h\<lparr>hd_length := hd_length h + padlen, hd_flags := hd_flags h OR NGHTTP2_FLAG_PADDED\<rparr>"

lemma hd_update_swap:
  "(h :: nghttp2_frame_hd)\<lparr>hd_flags := f, hd_length := l\<rparr> = h\<lparr>hd_length := l, hd_flags := f\<rparr>"
  by (cases h) simp

lemma frame_set_pad_layout:
  assumes a: "arr b = pre @ x # nghttp2_frame_pack_frame_hd h @ p @ post"
    and pos: "pos b = length pre + 1" "last b = length pre + 10 + length p"
    and h: "valid_frame_hd h" "hd_length h + padlen < 2 ^ 24" and pad: "0 < padlen" "padlen - 1 \<le> length post"
  shows "frame_set_pad b padlen False =
    b\<lparr>pos := length pre, last := last b + (padlen - 1),
      arr := pre @ nghttp2_frame_pack_frame_hd (padded_hd padlen h) @ word_of_nat (padlen - 1) # p @
        replicate (padlen - 1) 0 @ drop (padlen - 1) post\<rparr>"
proof -
  let ?n = "length pre" let ?hd = "nghttp2_frame_pack_frame_hd h" let ?f = "hd_flags h OR NGHTTP2_FLAG_PADDED"
  let ?h1 = "h\<lparr>hd_flags := ?f\<rparr>" let ?y = "?hd ! 8"
  have seg: "segment (pos b) (pos b + 9) (arr b) = ?hd" unfolding a pos by (simp add: segment_def)
  have d8: "drop 8 ?hd = [?y]"
    using Cons_nth_drop_Suc [of 8 ?hd] by simp
  have a1: "blit ?n ?hd (arr b) = pre @ ?hd @ ?y # p @ post"
    unfolding a blit_def using d8 by simp
  have a2: "(pre @ ?hd @ ?y # p @ post)[?n + 4 := (pre @ ?hd @ ?y # p @ post) ! (?n + 4) OR NGHTTP2_FLAG_PADDED] =
      pre @ nghttp2_frame_pack_frame_hd ?h1 @ ?y # p @ post"
    by (simp add: list_update_append nth_append hd_nth pack_set_flags)
  have v1: "valid_frame_hd ?h1" using h by (simp add: valid_frame_hd_def)
  have len: "unat (drop_bit 8 (nghttp2_get_uint32 (drop ?n (pre @ nghttp2_frame_pack_frame_hd ?h1 @ ?y # p @ post)))) = hd_length h"
    using arg_cong [OF unpack_pack_frame_hd [OF v1, of "?y # p @ post"], of hd_length]
    by (simp add: nghttp2_frame_unpack_frame_hd_def)
  have ty: "(pre @ nghttp2_frame_pack_frame_hd ?h1 @ ?y # p @ post) ! (?n + 3) = hd_type h"
    by (simp add: nth_append hd_nth)
  have a3: "blit ?n (nghttp2_put_uint32be (word_of_nat ((hd_length h + padlen) * 2 ^ 8 + unat (hd_type h))))
      (pre @ nghttp2_frame_pack_frame_hd ?h1 @ ?y # p @ post) =
      pre @ nghttp2_frame_pack_frame_hd (padded_hd padlen h) @ ?y # p @ post"
    using pack_set_length [OF h(2), of ?h1] by (simp add: blit_def padded_hd_def hd_update_swap)
  have a4: "(pre @ nghttp2_frame_pack_frame_hd (padded_hd padlen h) @ ?y # p @ post)[?n + 9 := word_of_nat (padlen - 1)] =
      pre @ nghttp2_frame_pack_frame_hd (padded_hd padlen h) @ word_of_nat (padlen - 1) # p @ post"
    by (simp add: list_update_append)
  have a5: "blit (last b) (replicate (padlen - 1) 0)
      (pre @ nghttp2_frame_pack_frame_hd (padded_hd padlen h) @ word_of_nat (padlen - 1) # p @ post) =
      pre @ nghttp2_frame_pack_frame_hd (padded_hd padlen h) @ word_of_nat (padlen - 1) # p @
        replicate (padlen - 1) 0 @ drop (padlen - 1) post"
    using pos pad by (cases padlen) (simp_all add: blit_def)
  have pb: "pos b - 1 = ?n" using pos by simp
  show ?thesis
    unfolding frame_set_pad_def Let_def NGHTTP2_FRAME_HDLEN_def seg pb a1 a2 len ty a3
    by (simp add: a4 a5 del: One_nat_def)
qed

text \<open>
  C27. Padding a frame in a buffer that has a spare byte in front of it: the header moves one byte to
  the left and gets the padded flag and the new length, the padding length field appears between
  header and payload, the payload stays where it is and is followed by zeros; the header that is
  returned is the one in the buffer, and a receiver that skips the padding finds the payload.
\<close>

theorem frame_add_pad_correct:
  assumes "bufs_wf bufs" "cur bufs = 0" "1 \<le> pos (head_buf bufs)"
    "buf_data (head_buf bufs) = nghttp2_frame_pack_frame_hd h @ p" "valid_frame_hd h"
    "0 < padlen" "padlen \<le> 256" "hd_length h + padlen < 2 ^ 24" "padlen - 1 \<le> nghttp2_buf_avail (head_buf bufs)"
  shows "\<exists>bufs' h'. nghttp2_frame_add_pad bufs h padlen False = Some (bufs', h') \<and> bufs_wf bufs' \<and>
    bufs_data bufs' = nghttp2_frame_pack_frame_hd h' @ [word_of_nat (padlen - 1)] @ p @ replicate (padlen - 1) 0 \<and>
    hd_length h' = hd_length h + padlen \<and> hd_flags h' AND NGHTTP2_FLAG_PADDED \<noteq> 0 \<and>
    unat (word_of_nat (padlen - 1) :: u8) = nghttp2_frame_trail_padlen h' padlen"
proof -
  let ?b = "head_buf bufs" let ?hd = "nghttp2_frame_pack_frame_hd h"
  have ok: "pos ?b \<le> last ?b" "last ?b \<le> length (arr ?b)" using head_buf_ok [OF assms(1)] by (auto simp: buf_ok_def)
  define post where "post = drop (last ?b) (arr ?b)"
  obtain pre x where px: "take (pos ?b) (arr ?b) = pre @ [x]" "length pre = pos ?b - 1"
  proof -
    have "length (take (pos ?b) (arr ?b)) = pos ?b" using ok by simp
    then show ?thesis using assms(3) that by (metis append_butlast_last_id length_butlast list.size(3) not_one_le_zero)
  qed
  have l: "length (?hd @ p) = last ?b - pos ?b"
    using length_buf_data [OF head_buf_ok [OF assms(1)]] assms(4) by (simp add: nghttp2_buf_len_def)
  have arr: "arr ?b = pre @ x # ?hd @ p @ post"
  proof -
    have "arr ?b = take (pos ?b) (arr ?b) @ segment (pos ?b) (last ?b) (arr ?b) @ post"
      using ok by (simp add: segment_def post_def) (metis append_take_drop_id drop_drop le_add_diff_inverse2)
    then show ?thesis using px assms(4) by (simp add: buf_data_def)
  qed
  have post: "length post = nghttp2_buf_avail ?b" by (simp add: post_def nghttp2_buf_avail_def)
  let ?new = "frame_set_pad ?b padlen False" let ?h = "padded_hd padlen h"
  have new: "?new = ?b\<lparr>pos := length pre, last := last ?b + (padlen - 1),
      arr := pre @ nghttp2_frame_pack_frame_hd ?h @ word_of_nat (padlen - 1) # p @
        replicate (padlen - 1) 0 @ drop (padlen - 1) post\<rparr>"
    using l ok assms px post by (intro frame_set_pad_layout [OF arr]) auto
  have lb: "last ?b + (padlen - 1) - length pre = 9 + 1 + length p + (padlen - 1)" using l ok px assms(3) by simp
  have dat: "buf_data ?new = nghttp2_frame_pack_frame_hd ?h @ [word_of_nat (padlen - 1)] @ p @ replicate (padlen - 1) 0"
    unfolding new by (simp add: buf_data_def segment_def lb del: One_nat_def)
  have "buf_ok ?new" unfolding new using ok assms(3,9) post px l by (simp add: buf_ok_def) linarith
  note w = set_head_buf_wf [OF assms(1,2) this]
  have bit: "(hd_flags h OR NGHTTP2_FLAG_PADDED) AND NGHTTP2_FLAG_PADDED \<noteq> 0"
    by (simp add: bit.conj_disj_distrib2 NGHTTP2_FLAG_PADDED_def and.commute)
  moreover have "unat (word_of_nat (padlen - 1) :: u8) = padlen - 1"
    using assms(7) by (simp add: unsigned_of_nat take_bit_nat_eq_self)
  ultimately show ?thesis
    using w(1,2) dat assms(6,9) unfolding nghttp2_frame_add_pad_def
    by (simp add: padded_hd_def nghttp2_frame_trail_padlen_def del: One_nat_def)
qed

theorem frame_add_pad_correct_witness:
  "\<exists>bufs' h'. nghttp2_frame_add_pad (put_frame example_frame_bufs (nghttp2_frame_hd_init 2 0 1 5) [7, 8])
      (nghttp2_frame_hd_init 2 0 1 5) 3 False = Some (bufs', h') \<and>
    bufs_data bufs' = nghttp2_frame_pack_frame_hd h' @ [2, 7, 8, 0, 0] \<and> hd_length h' = 5"
proof -
  let ?h = "nghttp2_frame_hd_init 2 0 1 5" let ?b = "put_frame example_frame_bufs ?h [7, 8]"
  have s: "frame_start example_frame_bufs (length [7, 8 :: u8])" by (rule example_frame_start) simp
  have hb: "head_buf ?b = buf_write [7, 8] (prepend_frame_hd ?h (head_buf example_frame_bufs))"
    by (simp add: put_frame_def set_head_buf_def example_frame_bufs_def)
  have "pos (head_buf ?b) = 1" "nghttp2_buf_avail (head_buf ?b) = 28"
    unfolding hb by (simp_all add: example_frame_bufs_def buf_write_def prepend_frame_hd_def nghttp2_cpymem_def
        NGHTTP2_FRAME_HDLEN_def nghttp2_buf_avail_def blit_def Let_def)
  moreover have "buf_data (head_buf ?b) = nghttp2_frame_pack_frame_hd ?h @ [7, 8]"
    using put_frame_data(2) [OF s, of ?h] by (simp add: bufs_data_def put_frame_def set_head_buf_def example_frame_bufs_def)
  moreover have "replicate 2 0 = [0, 0 :: u8]" by (simp add: numeral_2_eq_2)
  ultimately show ?thesis
    using frame_add_pad_correct [of ?b ?h "[7, 8]" 3] put_frame_data [OF s, of ?h]
    by (auto simp: valid_stream_id_def)
qed

section \<open>Header blocks over several frames\<close>

text \<open>
  A receiver of a header block as the protocol prescribes it: the first frame, and then
  CONTINUATION frames on the same stream until one has the END_HEADERS flag. The result is the
  block and the bytes that follow it.
\<close>

function header_block :: "int option \<Rightarrow> bytes \<Rightarrow> (bytes \<times> bytes) option" where
  "header_block sid d =
     (if length d < 9 then None
      else
        let h = nghttp2_frame_unpack_frame_hd d; p = take (hd_length h) (drop 9 d); r = drop (9 + hd_length h) d in
        if sid \<noteq> None \<and> (hd_type h \<noteq> NGHTTP2_CONTINUATION \<or> sid \<noteq> Some (hd_stream_id h)) then None
        else if hd_flags h AND NGHTTP2_FLAG_END_HEADERS \<noteq> 0 then Some (p, r)
        else map_option (\<lambda>(q, r). (p @ q, r)) (header_block (Some (hd_stream_id h)) r))"
  by pat_completeness auto
termination by (relation "measure (\<lambda>(sid, d). length d)") auto

declare header_block.simps [simp del]

lemma header_block_step:
  assumes "valid_frame_hd h" "hd_length h = length p" "sid = None \<or> hd_type h = NGHTTP2_CONTINUATION \<and> sid = Some (hd_stream_id h)"
  shows "header_block sid (nghttp2_frame_pack_frame_hd h @ p @ r) =
    (if hd_flags h AND NGHTTP2_FLAG_END_HEADERS \<noteq> 0 then Some (p, r)
     else map_option (\<lambda>(q, r). (p @ q, r)) (header_block (Some (hd_stream_id h)) r))"
  using assms unpack_pack_frame_hd [OF assms(1), of "p @ r"]
  by (subst header_block.simps) (auto simp: Let_def)

definition chunk_ok :: "nghttp2_buf \<Rightarrow> bool" where
  "chunk_ok b \<longleftrightarrow> buf_ok b \<and> NGHTTP2_FRAME_HDLEN \<le> pos b \<and> nghttp2_buf_len b < 2 ^ 24"

lemma pack_continuations_block:
  assumes "bs \<noteq> []" "list_all chunk_ok bs" "valid_stream_id (hd_stream_id h)" "hd_reserved h = 0"
    "hd_type h = NGHTTP2_CONTINUATION" "hd_flags h = NGHTTP2_FLAG_NONE"
  shows "header_block (Some (hd_stream_id h)) (concat (map buf_data (pack_continuations h bs)) @ rest) =
    Some (concat (map buf_data bs), rest)"
  using assms
proof (induction h bs rule: pack_continuations.induct)
  case (2 h b)
  let ?h = "h\<lparr>hd_length := nghttp2_buf_len b, hd_flags := NGHTTP2_FLAG_END_HEADERS\<rparr>"
  have c: "buf_ok b" "NGHTTP2_FRAME_HDLEN \<le> pos b" using 2 by (simp_all add: chunk_ok_def)
  have "valid_frame_hd ?h" using 2 by (simp add: valid_frame_hd_def valid_stream_id_def chunk_ok_def)
  then show ?case using 2 prepend_ok(2) [OF c, of ?h] length_buf_data [OF c(1)]
      header_block_step [of ?h "buf_data b" "Some (hd_stream_id h)" rest]
    by (simp add: NGHTTP2_FLAG_END_HEADERS_def)
next
  case (3 h b b' bs)
  let ?h = "h\<lparr>hd_length := nghttp2_buf_len b\<rparr>"
  have c: "buf_ok b" "NGHTTP2_FRAME_HDLEN \<le> pos b" using 3 by (simp_all add: chunk_ok_def)
  have "valid_frame_hd ?h" using 3 by (simp add: valid_frame_hd_def valid_stream_id_def chunk_ok_def)
  then show ?case using 3 prepend_ok(2) [OF c, of ?h] length_buf_data [OF c(1)]
      header_block_step [of ?h "buf_data b" "Some (hd_stream_id h)"]
    by (simp add: NGHTTP2_FLAG_NONE_def)
qed simp_all

lemma pack_continuations_length [simp]: "length (pack_continuations h bs) = length bs"
  by (induction h bs rule: pack_continuations.induct) simp_all

lemma pack_continuations_ok: "list_all chunk_ok bs \<Longrightarrow> list_all buf_ok (pack_continuations h bs)"
  by (induction h bs rule: pack_continuations.induct) (simp_all add: chunk_ok_def prepend_ok)

text \<open>
  C26. A header block that was serialised into the chunks of a frame buffer is sent as one HEADERS
  or PUSH_PROMISE frame and CONTINUATION frames: only the last frame has the END_HEADERS flag, so
  that a receiver collects exactly the block that was serialised and stops behind the last frame;
  the chain stays well formed.
\<close>

theorem frame_pack_headers_shared_correct:
  assumes "bufs_wf bufs" "list_all chunk_ok (take (cur bufs + 1) (chain bufs))"
    "valid_frame_hd (h\<lparr>hd_length := 0\<rparr>)" "hd_flags h AND NGHTTP2_FLAG_END_HEADERS \<noteq> 0"
  shows "header_block None (bufs_data (frame_pack_headers_shared bufs h) @ rest) = Some (bufs_data bufs, rest) \<and>
    bufs_wf (frame_pack_headers_shared bufs h)"
proof -
  obtain b bs where c: "chain bufs = b # bs" using assms(1) by (cases "chain bufs") (auto simp: bufs_wf_def)
  have cb: "chunk_ok b" using assms(2) c by simp
  then have ok: "buf_ok b" "NGHTTP2_FRAME_HDLEN \<le> pos b" by (simp_all add: chunk_ok_def)
  have tail: "concat (map buf_data (drop (cur bufs) bs)) = []"
    using assms(1) c by (intro concat_empty_tail) (simp add: bufs_wf_def)
  show ?thesis
  proof (cases "cur bufs = 0")
    case True
    let ?h = "h\<lparr>hd_length := nghttp2_buf_len b\<rparr>"
    have "valid_frame_hd ?h" using assms(3) cb by (simp add: valid_frame_hd_def chunk_ok_def)
    then have "header_block None (nghttp2_frame_pack_frame_hd ?h @ buf_data b @ rest) = Some (buf_data b, rest)"
      using assms(4) length_buf_data [OF ok(1)] by (subst header_block_step) simp_all
    moreover have f: "frame_pack_headers_shared bufs h = set_head_buf (prepend_frame_hd ?h b) bufs"
      using True c by (simp add: frame_pack_headers_shared_def set_head_buf_def Let_def)
    ultimately show ?thesis
      using set_head_buf_wf [OF assms(1) True prepend_ok(1) [OF ok, of ?h]] prepend_ok(2) [OF ok, of ?h] tail c True
      by (simp add: bufs_data_def)
  next
    case False
    let ?m = "take (cur bufs) bs" let ?r = "drop (cur bufs) bs"
    let ?h = "h\<lparr>hd_length := nghttp2_buf_len b, hd_flags := hd_flags h AND NOT NGHTTP2_FLAG_END_HEADERS\<rparr>"
    let ?c = "?h\<lparr>hd_type := NGHTTP2_CONTINUATION, hd_flags := NGHTTP2_FLAG_NONE\<rparr>"
    have lm: "cur bufs \<le> length bs" using assms(1) c by (simp add: bufs_wf_def)
    have frame: "frame_pack_headers_shared bufs h = bufs\<lparr>chain := prepend_frame_hd ?h b # pack_continuations ?c ?m @ ?r\<rparr>"
      using False c by (simp add: frame_pack_headers_shared_def set_head_buf_def segment_def Let_def)
    have ch: "?m \<noteq> []" "list_all chunk_ok ?m" using False lm assms(2) c by auto
    have fl: "hd_flags ?h AND NGHTTP2_FLAG_END_HEADERS = 0"
      by (simp add: NGHTTP2_FLAG_END_HEADERS_def and.assoc)
    have v: "valid_frame_hd ?h" using assms(3) cb by (simp add: valid_frame_hd_def chunk_ok_def)
    have "header_block (Some (hd_stream_id ?c)) (concat (map buf_data (pack_continuations ?c ?m)) @ rest) =
        Some (concat (map buf_data ?m), rest)"
      using assms(3) by (intro pack_continuations_block [OF ch]) (simp_all add: valid_frame_hd_def valid_stream_id_def)
    then have "header_block None (nghttp2_frame_pack_frame_hd ?h @ buf_data b @
        concat (map buf_data (pack_continuations ?c ?m)) @ rest) = Some (buf_data b @ concat (map buf_data ?m), rest)"
      using header_block_step [OF v, of "buf_data b" None] length_buf_data [OF ok(1)] fl by simp
    moreover have "bufs_data (frame_pack_headers_shared bufs h) =
        nghttp2_frame_pack_frame_hd ?h @ buf_data b @ concat (map buf_data (pack_continuations ?c ?m))"
      unfolding bufs_data_def frame using prepend_ok(2) [OF ok, of ?h] tail by simp
    moreover have "bufs_data bufs = buf_data b @ concat (map buf_data ?m)"
    proof -
      have "concat (map buf_data bs) = concat (map buf_data ?m) @ concat (map buf_data ?r)"
        by (simp only: append_take_drop_id map_append [symmetric] concat_append [symmetric])
      then show ?thesis unfolding tail using c by (simp add: bufs_data_def)
    qed
    moreover have "bufs_wf (frame_pack_headers_shared bufs h)"
    proof -
      have "list_all buf_ok ?r" using assms(1) c by (auto simp: bufs_wf_def list_all_iff dest: in_set_dropD)
      then show ?thesis unfolding frame
        using assms(1) c lm pack_continuations_ok [OF ch(2), of ?c] prepend_ok(1) [OF ok, of ?h]
        by (simp add: bufs_wf_def)
    qed
    ultimately show ?thesis by simp
  qed
qed

theorem frame_pack_headers_shared_correct_witness:
  "let b = \<lparr>arr = replicate 9 0 @ [1, 2], pos = 9, last = 11, mark = 0\<rparr>;
       bufs = \<lparr>chain = [b, b], cur = 1, bufs_mem = [], chunk_length = 11, max_chunk = 2, chunk_used = 2,
                chunk_keep = 2, offset = 9\<rparr>
   in header_block None (bufs_data (frame_pack_headers_shared bufs
        (nghttp2_frame_hd_init 4 NGHTTP2_HEADERS 5 3)) @ [9]) = Some ([1, 2, 1, 2], [9])"
proof -
  let ?b = "\<lparr>arr = replicate 9 0 @ [1, 2], pos = 9, last = 11, mark = 0\<rparr>"
  let ?bufs = "\<lparr>chain = [?b, ?b], cur = 1, bufs_mem = [], chunk_length = 11, max_chunk = 2, chunk_used = 2,
    chunk_keep = 2, offset = 9\<rparr>"
  let ?h = "nghttp2_frame_hd_init 4 NGHTTP2_HEADERS 5 3"
  have d: "buf_data ?b = [1, 2]" by (simp add: buf_data_def segment_def)
  have "bufs_wf ?bufs" by (simp add: bufs_wf_def buf_ok_def)
  moreover have "list_all chunk_ok (take (cur ?bufs + 1) (chain ?bufs))"
    by (simp add: chunk_ok_def buf_ok_def nghttp2_buf_len_def NGHTTP2_FRAME_HDLEN_def)
  moreover have "valid_frame_hd (?h\<lparr>hd_length := 0\<rparr>)" "hd_flags ?h AND NGHTTP2_FLAG_END_HEADERS \<noteq> 0"
    by (simp_all add: valid_frame_hd_def nghttp2_frame_hd_init_def NGHTTP2_FLAG_END_HEADERS_def)
  ultimately show ?thesis
    using frame_pack_headers_shared_correct [of ?bufs ?h "[9]"] d by (simp add: bufs_data_def Let_def)
qed

section \<open>Settings, sorting and malformed payloads\<close>

text \<open>The values that RFC 9113, RFC 8441 and RFC 9218 allow.\<close>

definition setting_allowed :: "nghttp2_settings_entry \<Rightarrow> bool" where
  "setting_allowed e \<longleftrightarrow>
     (settings_id e \<in> {2, 8, 9} \<longrightarrow> uint (settings_value e) \<le> 1) \<and>
     (settings_id e = 4 \<longrightarrow> uint (settings_value e) \<le> 2147483647) \<and>
     (settings_id e = 5 \<longrightarrow> 16384 \<le> uint (settings_value e) \<and> uint (settings_value e) \<le> 16777215)"

lemma iv_check_entry:
  fixes i :: int and v :: nat
  shows "(if i = 2 \<and> v \<noteq> 0 \<and> v \<noteq> 1 then False else if i = 4 \<and> 2147483647 < v then False
    else if i = 5 \<and> (v < 16384 \<or> 16777215 < v) then False else if i = 8 \<and> v \<noteq> 0 \<and> v \<noteq> 1 then False
    else if i = 9 \<and> v \<noteq> 0 \<and> v \<noteq> 1 then False else r) \<longleftrightarrow>
    ((i \<in> {2, 8, 9} \<longrightarrow> int v \<le> 1) \<and> (i = 4 \<longrightarrow> int v \<le> 2147483647) \<and>
     (i = 5 \<longrightarrow> 16384 \<le> int v \<and> int v \<le> 16777215)) \<and> r"
proof -
  consider "i = 2 \<or> i = 8 \<or> i = 9" | "i = 4" | "i = 5" | "i \<notin> {2, 4, 5, 8, 9}" by blast
  then show ?thesis by cases auto
qed

text \<open>
  C33. The check of outgoing settings accepts a list exactly when every entry has an allowed value:
  a switch for the three boolean settings, a 31-bit initial window, and a frame size between
  \<open>2^14\<close> and \<open>2^24 - 1\<close>; settings it does not know are accepted.
\<close>

theorem iv_check_iff: "nghttp2_iv_check iv \<longleftrightarrow> list_all setting_allowed iv"
proof (induction iv)
  case Nil
  then show ?case by simp
next
  case (Cons e iv)
  have v: "int (unat (settings_value e)) = uint (settings_value e)" by simp
  have w: "nat 2147483647 = 2147483647" by simp
  have "nghttp2_iv_check (e # iv) \<longleftrightarrow> setting_allowed e \<and> nghttp2_iv_check iv"
    unfolding setting_allowed_def nghttp2_iv_check.simps Let_def frame_consts NGHTTP2_MAX_WINDOW_SIZE_def w v [symmetric]
    by (rule iv_check_entry)
  then show ?case using Cons by simp
qed

lemma memcmp_lex:
  assumes "length a = length b"
  shows "memcmp a b (length a) < 0 \<longleftrightarrow> ord_class.lexordp a b" "memcmp a b (length a) = 0 \<longleftrightarrow> a = b"
    "0 < memcmp a b (length a) \<longleftrightarrow> ord_class.lexordp b a"
  using assms by (induction a b rule: list_induct2) auto

lemma bytes_compar_lex:
  "bytes_compar a b < 0 \<longleftrightarrow> ord_class.lexordp a b" "bytes_compar a b = 0 \<longleftrightarrow> a = b" "0 < bytes_compar a b \<longleftrightarrow> ord_class.lexordp b a"
proof -
  have step: "bytes_compar (x # a) (y # b) = (if x < y then - 1 else if y < x then 1 else bytes_compar a b)" for x y a b
    by (simp add: bytes_compar_def Let_def)
  have "(bytes_compar a b < 0 \<longleftrightarrow> ord_class.lexordp a b) \<and> (bytes_compar a b = 0 \<longleftrightarrow> a = b) \<and> (0 < bytes_compar a b \<longleftrightarrow> ord_class.lexordp b a)"
  proof (induction a arbitrary: b)
    case Nil
    then show ?case by (cases b) (simp_all add: bytes_compar_def)
  next
    case (Cons x a)
    show ?case
    proof (cases b)
      case Nil
      then show ?thesis by (simp add: bytes_compar_def)
    next
      case (Cons y ys)
      then show ?thesis using Cons.IH [of ys] by (auto simp: step)
    qed
  qed
  then show "bytes_compar a b < 0 \<longleftrightarrow> ord_class.lexordp a b" "bytes_compar a b = 0 \<longleftrightarrow> a = b" "0 < bytes_compar a b \<longleftrightarrow> ord_class.lexordp b a"
    by blast+
qed

text \<open>The order of header fields: by name, then by value.\<close>

definition nv_le :: "nghttp2_nv \<Rightarrow> nghttp2_nv \<Rightarrow> bool" where
  "nv_le a b \<longleftrightarrow> ord_class.lexordp (nv_name a) (nv_name b) \<or>
     nv_name a = nv_name b \<and> (ord_class.lexordp (nv_value a) (nv_value b) \<or> nv_value a = nv_value b)"

lemma nv_compar_le: "nv_compar a b \<le> 0 \<longleftrightarrow> nv_le a b"
  using bytes_compar_lex [of "nv_name a" "nv_name b"] bytes_compar_lex [of "nv_value a" "nv_value b"]
  by (auto simp: nv_compar_def nv_le_def Let_def)

definition comparator_ok :: "('a \<Rightarrow> 'a \<Rightarrow> int) \<Rightarrow> bool" where
  "comparator_ok cmp \<longleftrightarrow> (\<forall>a b. cmp a b \<le> 0 \<or> cmp b a \<le> 0) \<and> (\<forall>a b c. cmp a b \<le> 0 \<longrightarrow> cmp b c \<le> 0 \<longrightarrow> cmp a c \<le> 0)"

lemma nv_compar_ok: "comparator_ok nv_compar"
  unfolding comparator_ok_def nv_compar_le nv_le_def
proof (intro conjI allI impI)
  fix a b c :: nghttp2_nv
  show "(ord_class.lexordp (nv_name a) (nv_name b) \<or> nv_name a = nv_name b \<and> (ord_class.lexordp (nv_value a) (nv_value b) \<or> nv_value a = nv_value b)) \<or>
     (ord_class.lexordp (nv_name b) (nv_name a) \<or> nv_name b = nv_name a \<and> (ord_class.lexordp (nv_value b) (nv_value a) \<or> nv_value b = nv_value a))"
    using lexordp_linear [of "nv_name a" "nv_name b"] lexordp_linear [of "nv_value a" "nv_value b"] by auto
  assume "ord_class.lexordp (nv_name a) (nv_name b) \<or> nv_name a = nv_name b \<and> (ord_class.lexordp (nv_value a) (nv_value b) \<or> nv_value a = nv_value b)"
    and "ord_class.lexordp (nv_name b) (nv_name c) \<or> nv_name b = nv_name c \<and> (ord_class.lexordp (nv_value b) (nv_value c) \<or> nv_value b = nv_value c)"
  then show "ord_class.lexordp (nv_name a) (nv_name c) \<or> nv_name a = nv_name c \<and> (ord_class.lexordp (nv_value a) (nv_value c) \<or> nv_value a = nv_value c)"
    using lexordp_trans [of "nv_name a" "nv_name b" "nv_name c"] lexordp_trans [of "nv_value a" "nv_value b" "nv_value c"]
    by auto
qed

definition qsort_contract :: "(('a \<Rightarrow> 'a \<Rightarrow> int) \<Rightarrow> 'a list \<Rightarrow> 'a list) \<Rightarrow> bool" where
  "qsort_contract qsort \<longleftrightarrow>
     (\<forall>cmp xs. comparator_ok cmp \<longrightarrow> mset (qsort cmp xs) = mset xs \<and> sorted_wrt (\<lambda>a b. cmp a b \<le> 0) (qsort cmp xs))"

text \<open>
  Sorting a header list: the comparison function is a total preorder, which \<open>qsort\<close> needs, and
  is the lexicographic order of the names and then of the values as unsigned bytes; with a
  \<open>qsort\<close> that sorts, the result is the same fields in that order.
\<close>

theorem nv_array_sort_correct:
  assumes "qsort_contract qsort"
  shows "mset (nghttp2_nv_array_sort qsort nva) = mset nva \<and> sorted_wrt nv_le (nghttp2_nv_array_sort qsort nva)"
  using assms nv_compar_ok unfolding qsort_contract_def nghttp2_nv_array_sort_def nv_compar_le [symmetric] by blast

fun insert_by :: "('a \<Rightarrow> 'a \<Rightarrow> int) \<Rightarrow> 'a \<Rightarrow> 'a list \<Rightarrow> 'a list" where
  "insert_by cmp x [] = [x]"
| "insert_by cmp x (y # ys) = (if cmp x y \<le> 0 then x # y # ys else y # insert_by cmp x ys)"

definition isort :: "('a \<Rightarrow> 'a \<Rightarrow> int) \<Rightarrow> 'a list \<Rightarrow> 'a list" where
  "isort cmp xs = foldr (insert_by cmp) xs []"

lemma isort_contract: "qsort_contract isort"
proof -
  have m: "mset (insert_by cmp x ys) = add_mset x (mset ys)" for cmp :: "'a \<Rightarrow> 'a \<Rightarrow> int" and x ys
    by (induction ys) auto
  have s: "sorted_wrt (\<lambda>a b. cmp a b \<le> 0) (insert_by cmp x ys)"
    if "comparator_ok cmp" "sorted_wrt (\<lambda>a b. cmp a b \<le> 0) ys" for cmp :: "'a \<Rightarrow> 'a \<Rightarrow> int" and x ys
    using that(2)
  proof (induction ys)
    case (Cons y ys)
    have "set (insert_by cmp x ys) = insert x (set ys)" using arg_cong [OF m [of cmp x ys], of set_mset] by simp
    then show ?case using Cons that(1) unfolding comparator_ok_def by (auto; metis)
  qed simp
  have "mset (isort cmp xs) = mset xs \<and> sorted_wrt (\<lambda>a b. cmp a b \<le> 0) (isort cmp xs)"
    if "comparator_ok cmp" for cmp :: "'a \<Rightarrow> 'a \<Rightarrow> int" and xs
    using s [OF that] by (induction xs) (auto simp: isort_def m)
  then show ?thesis by (simp add: qsort_contract_def)
qed

theorem nv_array_sort_correct_witness:
  "sorted_wrt nv_le (nghttp2_nv_array_sort isort
     [\<lparr>nv_name = [98], nv_value = [1], nv_flags = 0\<rparr>, \<lparr>nv_name = [97], nv_value = [2], nv_flags = 0\<rparr>])"
  using nv_array_sort_correct [OF isort_contract] by blast

text \<open>Every payload that the ORIGIN parser accepts is the encoding of a list of origins.\<close>

lemma origin_count_encoded:
  "origin_count p n = Inl ERR_FRAME_SIZE_ERROR \<or>
   (\<exists>ov. list_all (\<lambda>og. length og < 2 ^ 16) ov \<and> p = origin_bytes ov)"
proof (induction p n rule: origin_count.induct)
  case (1 p n)
  consider (empty) "length p = 0" | (short) "0 < length p" "length p < 2" | (entry) "2 \<le> length p" by linarith
  then show ?case
  proof cases
    case empty
    then show ?thesis by (intro disjI2 exI [of _ "[]"]) (simp add: origin_bytes_def)
  next
    case short
    then show ?thesis by (subst origin_count.simps) simp
  next
    case entry
    let ?w = "nghttp2_get_uint16 p" let ?n = "unat ?w" and ?q = "drop 2 p"
    have "nghttp2_get_uint16 (take 2 p) = ?w" by (simp add: nghttp2_get_uint16_def)
    then have "nghttp2_put_uint16be ?w = take 2 p"
      using put_get_uint16 [of "take 2 p"] entry by simp
    then have p: "p = nghttp2_put_uint16be ?w @ ?q" by (metis append_take_drop_id)
    have ne: "p \<noteq> []" using entry by auto
    have n: "?n < 2 ^ 16" using unsigned_less [of ?w, where ?'a = nat] by simp
    have add: "\<exists>ov. list_all (\<lambda>og. length og < 2 ^ 16) ov \<and> p = origin_bytes ov"
      if ov: "list_all (\<lambda>og. length og < 2 ^ 16) ov" "drop ?n ?q = origin_bytes ov" and le: "?n \<le> length ?q" for ov
    proof (intro exI conjI)
      have l: "length (take ?n ?q) = ?n" using le by simp
      show "list_all (\<lambda>og. length og < 2 ^ 16) (take ?n ?q # ov)" using ov(1) n l by simp
      have "p = nghttp2_put_uint16be ?w @ take ?n ?q @ origin_bytes ov"
        using p ov(2) by (metis append_take_drop_id)
      also have "\<dots> = origin_bytes (take ?n ?q # ov)"
        unfolding origin_bytes_def list.map concat.simps l by simp
      finally show "p = origin_bytes (take ?n ?q # ov)" .
    qed
    have IH1: "origin_count ?q n = Inl ERR_FRAME_SIZE_ERROR \<or>
        (\<exists>ov. list_all (\<lambda>og. length og < 2 ^ 16) ov \<and> ?q = origin_bytes ov)" if "?n = 0"
      using 1(1) [OF _ _ refl refl that] entry ne by auto
    have IH2: "origin_count (drop ?n ?q) (n + 1) = Inl ERR_FRAME_SIZE_ERROR \<or>
        (\<exists>ov. list_all (\<lambda>og. length og < 2 ^ 16) ov \<and> drop ?n ?q = origin_bytes ov)"
      if "?n \<noteq> 0" "\<not> length ?q < ?n"
      using 1(2) [OF _ _ refl refl that] entry ne by auto
    have eq: "origin_count p n =
        (if ?n = 0 then origin_count ?q n else if length ?q < ?n then Inl ERR_FRAME_SIZE_ERROR
         else origin_count (drop ?n ?q) (n + 1))"
      using entry ne by (subst origin_count.simps) (simp add: Let_def)
    consider (zero) "?n = 0" | (long) "?n \<noteq> 0" "length ?q < ?n" | (fits) "?n \<noteq> 0" "\<not> length ?q < ?n" by blast
    then show ?thesis
    proof cases
      case zero
      then show ?thesis using IH1 add eq by auto
    next
      case long
      then show ?thesis using eq by simp
    next
      case fits
      then show ?thesis using IH2 add eq by auto
    qed
  qed
qed

lemma origin_payload_encoded:
  assumes "list_all (\<lambda>og. length og < 2 ^ 16) ov"
  shows "nghttp2_frame_unpack_origin_payload f (origin_bytes ov) mem =
    (let ov = filter (\<lambda>og. og \<noteq> []) ov; (ok, mem') = (if ov = [] then (True, mem) else mem_alloc mem) in
     (if ok then Inr (f\<lparr>ext_payload := ov\<rparr>) else Inl ERR_NOMEM, mem'))"
  using origin_parse(1) [OF assms, of 0] origin_parse(2) [OF assms]
  by (auto simp: nghttp2_frame_unpack_origin_payload_def Let_def split: prod.splits)

lemma origin_payload_other:
  assumes "\<nexists>ov. list_all (\<lambda>og. length og < 2 ^ 16) ov \<and> p = origin_bytes ov"
  shows "nghttp2_frame_unpack_origin_payload f p mem = (Inl ERR_FRAME_SIZE_ERROR, mem)"
  using origin_count_encoded [of p 0] assms by (auto simp: nghttp2_frame_unpack_origin_payload_def)

text \<open>The ALTSVC parser on a payload with an origin length.\<close>

lemma altsvc_payload_encoded:
  assumes "length (og @ fv) < 2 ^ 64" "length og = unat n"
  shows "nghttp2_frame_unpack_altsvc_payload2 g (nghttp2_put_uint16be n @ og @ fv) mem =
    (let (ok, mem') = mem_alloc mem in
     if ok then (0, g\<lparr>ext_payload := \<lparr>altsvc_origin = og, altsvc_origin_len = length og,
                      altsvc_field_value = fv, altsvc_field_value_len = length fv\<rparr>\<rparr>, mem')
     else (- 901, g, mem'))"
  using assms
  by (auto simp: nghttp2_frame_unpack_altsvc_payload2_def nghttp2_frame_unpack_altsvc_payload_def Let_def
      unsigned_of_nat take_bit_eq_mod split: prod.splits)

lemma altsvc_payload_overlong:
  assumes "p \<noteq> []" "length p < unat n"
  shows "nghttp2_frame_unpack_altsvc_payload2 g (nghttp2_put_uint16be n @ p) mem =
    (let (ok, mem') = mem_alloc mem in
     if ok then (0, g\<lparr>ext_payload := \<lparr>altsvc_origin = p, altsvc_origin_len = unat n,
                      altsvc_field_value = [], altsvc_field_value_len = 2 ^ 64 - (unat n - length p)\<rparr>\<rparr>, mem')
     else (- 901, g, mem'))"
proof -
  have n: "unat n < 2 ^ 16" using unsigned_less [of n, where ?'a = nat] by simp
  define m where "m = unat n"
  define k where "k = int (length p) - int m"
  have m: "length p < m" "m < 65536" using assms(2) n by (simp_all add: m_def)
  have "unat (word_of_int k :: u64) = nat (k mod 2 ^ 64)"
    by (simp add: unsigned_of_int take_bit_eq_mod)
  also have "k mod 2 ^ 64 = (k + 2 ^ 64) mod 2 ^ 64" by (simp only: mod_add_self2)
  also have "\<dots> = k + 2 ^ 64" using m by (intro mod_pos_pos_trivial) (simp_all add: k_def)
  also have "nat (k + 2 ^ 64) = 2 ^ 64 - (m - length p)" using m unfolding k_def by simp
  finally have "unat (word_of_int (int (length p) - int (unat n)) :: u64) = 2 ^ 64 - (unat n - length p)"
    unfolding k_def m_def .
  then show ?thesis using assms
    by (auto simp: nghttp2_frame_unpack_altsvc_payload2_def nghttp2_frame_unpack_altsvc_payload_def Let_def
        split: prod.splits)
qed

lemma altsvc_payload_empty:
  "nghttp2_frame_unpack_altsvc_payload2 g (nghttp2_put_uint16be n) mem =
    (let (ok, mem') = mem_alloc mem in
     if ok then (0, g\<lparr>ext_payload := \<lparr>altsvc_origin = [], altsvc_origin_len = 0,
                      altsvc_field_value = [], altsvc_field_value_len = 0\<rparr>\<rparr>, mem')
     else (- 901, g, mem'))"
  by (auto simp: nghttp2_frame_unpack_altsvc_payload2_def nghttp2_frame_unpack_altsvc_payload_def Let_def
      nghttp2_put_uint16be_def split: prod.splits)

text \<open>
  C34. Malformed extension payloads. The ORIGIN parser accepts exactly the concatenations of origins
  with their two-byte lengths, gives back the origins that are not empty (NOMEM when these are
  some and the allocation fails), and reports a frame size error and allocates nothing for
  every other payload. The ALTSVC parser splits every payload at its origin length; a payload
  shorter than the length field gets the positive protocol code 6, where the header documents a
  negative error code; and an origin length beyond the payload is not an error: the field value
  then gets a length that has wrapped around, \<open>2 ^ 64\<close> less the missing bytes; only when
  nothing follows the length field, all is empty.
\<close>

theorem extension_payloads_exact:
  "(\<forall>ov. list_all (\<lambda>og. length og < 2 ^ 16) ov \<longrightarrow>
      nghttp2_frame_unpack_origin_payload f (origin_bytes ov) mem =
        (let ov = filter (\<lambda>og. og \<noteq> []) ov; (ok, mem') = (if ov = [] then (True, mem) else mem_alloc mem) in
         (if ok then Inr (f\<lparr>ext_payload := ov\<rparr>) else Inl ERR_NOMEM, mem'))) \<and>
   (\<forall>p. (\<nexists>ov. list_all (\<lambda>og. length og < 2 ^ 16) ov \<and> p = origin_bytes ov) \<longrightarrow>
      nghttp2_frame_unpack_origin_payload f p mem = (Inl ERR_FRAME_SIZE_ERROR, mem)) \<and>
   (\<forall>p. length p < 2 \<longrightarrow> nghttp2_frame_unpack_altsvc_payload2 g p mem = (6, g, mem)) \<and>
   (\<forall>n og fv. length (og @ fv) < 2 ^ 64 \<longrightarrow> length og = unat n \<longrightarrow>
      nghttp2_frame_unpack_altsvc_payload2 g (nghttp2_put_uint16be n @ og @ fv) mem =
        (let (ok, mem') = mem_alloc mem in
         if ok then (0, g\<lparr>ext_payload := \<lparr>altsvc_origin = og, altsvc_origin_len = length og,
                          altsvc_field_value = fv, altsvc_field_value_len = length fv\<rparr>\<rparr>, mem')
         else (- 901, g, mem'))) \<and>
   (\<forall>n p. p \<noteq> [] \<longrightarrow> length p < unat n \<longrightarrow>
      nghttp2_frame_unpack_altsvc_payload2 g (nghttp2_put_uint16be n @ p) mem =
        (let (ok, mem') = mem_alloc mem in
         if ok then (0, g\<lparr>ext_payload := \<lparr>altsvc_origin = p, altsvc_origin_len = unat n,
                          altsvc_field_value = [], altsvc_field_value_len = 2 ^ 64 - (unat n - length p)\<rparr>\<rparr>, mem')
         else (- 901, g, mem'))) \<and>
   (\<forall>n. nghttp2_frame_unpack_altsvc_payload2 g (nghttp2_put_uint16be n) mem =
        (let (ok, mem') = mem_alloc mem in
         if ok then (0, g\<lparr>ext_payload := \<lparr>altsvc_origin = [], altsvc_origin_len = 0,
                          altsvc_field_value = [], altsvc_field_value_len = 0\<rparr>\<rparr>, mem')
         else (- 901, g, mem')))"
proof (intro conjI allI impI)
  fix p :: bytes
  assume "length p < 2"
  then show "nghttp2_frame_unpack_altsvc_payload2 g p mem = (6, g, mem)"
    by (simp add: nghttp2_frame_unpack_altsvc_payload2_def NGHTTP2_FRAME_SIZE_ERROR_def)
qed (rule altsvc_payload_empty | rule origin_payload_encoded origin_payload_other altsvc_payload_encoded altsvc_payload_overlong; assumption)+

text \<open>
  Two origins, one of them empty; a truncated entry; an ALTSVC payload of one byte; one with an
  origin of two bytes; and one whose origin length is five with two bytes to come.
\<close>

theorem extension_payloads_exact_witness:
  "\<forall>h g. fst (nghttp2_frame_unpack_origin_payload \<lparr>fhd = h, ext_payload = []\<rparr> [0, 2, 104, 105, 0, 0] []) =
     Inr \<lparr>fhd = h, ext_payload = [[104, 105]]\<rparr> \<and>
   nghttp2_frame_unpack_origin_payload \<lparr>fhd = h, ext_payload = []\<rparr> [0, 5, 104, 105] [] = (Inl ERR_FRAME_SIZE_ERROR, []) \<and>
   nghttp2_frame_unpack_altsvc_payload2 g [0] [] = (6, g, []) \<and>
   (case nghttp2_frame_unpack_altsvc_payload2 g [0, 2, 104, 105, 97] [] of
      (rv, g', _) \<Rightarrow> rv = 0 \<and> altsvc_origin (ext_payload g') = [104, 105] \<and> altsvc_field_value (ext_payload g') = [97]) \<and>
   (case nghttp2_frame_unpack_altsvc_payload2 g [0, 5, 104, 105] [] of
      (rv, g', _) \<Rightarrow> rv = 0 \<and> altsvc_field_value_len (ext_payload g') = 2 ^ 64 - 3)"
proof (intro allI)
  fix h and g :: "nghttp2_ext_altsvc nghttp2_extension"
  let ?f = "\<lparr>fhd = h, ext_payload = []\<rparr> :: bytes list nghttp2_extension"
  note t = extension_payloads_exact [of ?f "[]" g]
  have b: "[0, 2, 104, 105, 0, 0] = origin_bytes [[104, 105], []]"
    by (simp add: origin_bytes_def nghttp2_put_uint16be_def)
  have o1: "fst (nghttp2_frame_unpack_origin_payload ?f [0, 2, 104, 105, 0, 0] []) = Inr \<lparr>fhd = h, ext_payload = [[104, 105]]\<rparr>"
    unfolding b using t [THEN conjunct1, rule_format, of "[[104, 105], []]"] by simp
  have "\<nexists>ov. list_all (\<lambda>og. length og < 2 ^ 16) ov \<and> [0, 5, 104, 105] = origin_bytes ov"
  proof
    assume "\<exists>ov. list_all (\<lambda>og. length og < 2 ^ 16) ov \<and> [0, 5, 104, 105] = origin_bytes ov"
    then obtain ov where "list_all (\<lambda>og. length og < 2 ^ 16) ov" "[0, 5, 104, 105] = origin_bytes ov" by blast
    then have "\<exists>n. origin_count [0, 5, 104, 105] 0 = Inr n" using origin_parse(1) [of ov 0] by auto
    then show False by (simp add: origin_count.simps nghttp2_get_uint16_def)
  qed
  then have o2: "nghttp2_frame_unpack_origin_payload ?f [0, 5, 104, 105] [] = (Inl ERR_FRAME_SIZE_ERROR, [])"
    using t by blast
  have a1: "nghttp2_frame_unpack_altsvc_payload2 g [0] [] = (6, g, [])"
    using t [THEN conjunct2, THEN conjunct2, THEN conjunct1, rule_format, of "[0]"] by simp
  have p: "nghttp2_put_uint16be 2 = [0, 2]" "nghttp2_put_uint16be 5 = [0, 5]"
    by (simp_all add: nghttp2_put_uint16be_def)
  have a2: "nghttp2_frame_unpack_altsvc_payload2 g [0, 2, 104, 105, 97] [] =
      (0, g\<lparr>ext_payload := \<lparr>altsvc_origin = [104, 105], altsvc_origin_len = 2,
        altsvc_field_value = [97], altsvc_field_value_len = 1\<rparr>\<rparr>, [])"
    using t [THEN conjunct2, THEN conjunct2, THEN conjunct2, THEN conjunct1, rule_format, of "[104, 105]" "[97]" 2] p
    by simp
  have a3: "nghttp2_frame_unpack_altsvc_payload2 g [0, 5, 104, 105] [] =
      (0, g\<lparr>ext_payload := \<lparr>altsvc_origin = [104, 105], altsvc_origin_len = 5,
        altsvc_field_value = [], altsvc_field_value_len = 2 ^ 64 - 3\<rparr>\<rparr>, [])"
    using t [THEN conjunct2, THEN conjunct2, THEN conjunct2, THEN conjunct2, THEN conjunct1, rule_format, of "[104, 105]" 5] p
    by simp
  show "fst (nghttp2_frame_unpack_origin_payload ?f [0, 2, 104, 105, 0, 0] []) =
     Inr \<lparr>fhd = h, ext_payload = [[104, 105]]\<rparr> \<and>
   nghttp2_frame_unpack_origin_payload ?f [0, 5, 104, 105] [] = (Inl ERR_FRAME_SIZE_ERROR, []) \<and>
   nghttp2_frame_unpack_altsvc_payload2 g [0] [] = (6, g, []) \<and>
   (case nghttp2_frame_unpack_altsvc_payload2 g [0, 2, 104, 105, 97] [] of
      (rv, g', _) \<Rightarrow> rv = 0 \<and> altsvc_origin (ext_payload g') = [104, 105] \<and> altsvc_field_value (ext_payload g') = [97]) \<and>
   (case nghttp2_frame_unpack_altsvc_payload2 g [0, 5, 104, 105] [] of
      (rv, g', _) \<Rightarrow> rv = 0 \<and> altsvc_field_value_len (ext_payload g') = 2 ^ 64 - 3)"
    using o1 o2 a1 by (simp add: a2 a3)
qed

end
