(* ===== verification/Nghttp2_Map.thy ===== *)
theory Nghttp2_Map
  imports Nghttp2_Base
begin

text \<open>
  Model of \<open>src/src/nghttp2/lib/nghttp2_map.c\<close>: the hash table from stream identifiers to
  objects, with linear probing in Robin Hood order and deletion by backward shift. \<open>mpsl\<close>
  holds one byte per slot: 0 for an empty slot, and otherwise one more than the distance of the
  entry from its home slot. The loops of \<open>map_insert\<close> and of the backward shift end at an
  empty slot; they are partial functions of the model, and that they return is a theorem.
\<close>

unbundle bit_operations_syntax

section \<open>State and operations\<close>

record 'a nghttp2_map =
  mkeys :: "int list"
  mdata :: "'a option list"
  mpsl :: "u8 list"
  mmem :: nghttp2_mem
  mseed :: u64
  msize :: nat
  mhashbits :: nat

definition NGHTTP2_INITIAL_HASHBITS :: nat where "NGHTTP2_INITIAL_HASHBITS = 4"
definition NGHTTP2_MAP_HASHER :: u64 where "NGHTTP2_MAP_HASHER = 0xf1357aea2e62a9c5"
definition NGHTTP2_MAP_FIBO :: u64 where "NGHTTP2_MAP_FIBO = 0x9e3779b97f4a7c15"
definition NGHTTP2_MAP_MAX_HASHBITS :: nat where "NGHTTP2_MAP_MAX_HASHBITS = 63"
definition NGHTTP2_MAX_PSL_RESIZE_THRESH :: nat where "NGHTTP2_MAX_PSL_RESIZE_THRESH = 128"

definition nghttp2_map_init :: "u64 \<Rightarrow> nghttp2_mem \<Rightarrow> 'a nghttp2_map" where
  "nghttp2_map_init seed mem =
     \<lparr>mkeys = [], mdata = [], mpsl = [], mmem = mem, mseed = seed, msize = 0, mhashbits = 0\<rparr>"

definition map_index :: "'a nghttp2_map \<Rightarrow> int \<Rightarrow> nat" where
  "map_index m key32 =
     (let key = word_of_int key32;
          key = key + mseed m;
          key = key * NGHTTP2_MAP_HASHER
      in unat (drop_bit (64 - mhashbits m) (key * NGHTTP2_MAP_FIBO)))"

text \<open>\<open>(idx + 1) & mask\<close>, where \<open>mask\<close> is the table length minus one and the length a power of 2.\<close>

definition next_slot :: "'a nghttp2_map \<Rightarrow> nat \<Rightarrow> nat" where
  "next_slot m idx = (idx + 1) mod 2 ^ mhashbits m"

definition map_set_entry :: "nat \<Rightarrow> int \<Rightarrow> 'a option \<Rightarrow> nat \<Rightarrow> 'a nghttp2_map \<Rightarrow> 'a nghttp2_map" where
  "map_set_entry idx key d psl m =
     m\<lparr>mkeys := (mkeys m)[idx := key], mdata := (mdata m)[idx := d], mpsl := (mpsl m)[idx := word_of_nat psl]\<rparr>"

partial_function (option) map_insert_loop ::
  "nat \<Rightarrow> nat \<Rightarrow> int \<Rightarrow> 'a option \<Rightarrow> 'a nghttp2_map \<Rightarrow> (nat res \<times> 'a nghttp2_map) option" where
  "map_insert_loop idx psl key d m =
     (let kpsl = unat (mpsl m ! idx) in
      if kpsl = 0 then
        (let m = map_set_entry idx key d psl m in Some (Inr idx, m\<lparr>msize := msize m + 1\<rparr>))
      else if kpsl < psl then
        map_insert_loop (next_slot m idx) (kpsl + 1) (mkeys m ! idx) (mdata m ! idx)
          (map_set_entry idx key d psl m)
      else if mkeys m ! idx = key then Some (Inl ERR_INVALID_ARGUMENT, m)
      else map_insert_loop (next_slot m idx) (psl + 1) key d m)"

definition map_insert :: "int \<Rightarrow> 'a option \<Rightarrow> 'a nghttp2_map \<Rightarrow> (nat res \<times> 'a nghttp2_map) option" where
  "map_insert key d m = map_insert_loop (map_index m key) 1 key d m"

text \<open>The loop of \<open>map_resize\<close> over the old slots; \<open>None\<close> also stands for the failed assertion.\<close>

fun rehash :: "nat list \<Rightarrow> 'a nghttp2_map \<Rightarrow> 'a nghttp2_map \<Rightarrow> 'a nghttp2_map option" where
  "rehash [] m new_map = Some new_map"
| "rehash (i # is) m new_map =
     (if mpsl m ! i = 0 then rehash is m new_map
      else
        (case map_insert (mkeys m ! i) (mdata m ! i) new_map of
           Some (Inr _, new_map) \<Rightarrow> rehash is m new_map
         | _ \<Rightarrow> None))"

definition map_resize :: "nat \<Rightarrow> 'a nghttp2_map \<Rightarrow> (unit res \<times> 'a nghttp2_map) option" where
  "map_resize new_hashbits m =
     (if NGHTTP2_MAP_MAX_HASHBITS < new_hashbits then Some (Inl ERR_NOMEM, m)
      else
        let tablelen = 2 ^ new_hashbits; (ok, mem) = mem_alloc (mmem m); m = m\<lparr>mmem := mem\<rparr> in
        if \<not> ok then Some (Inl ERR_NOMEM, m)
        else
          let new_map = \<lparr>mkeys = replicate tablelen 0, mdata = replicate tablelen None,
                mpsl = replicate tablelen 0, mmem = mem, mseed = mseed m, msize = 0,
                mhashbits = new_hashbits\<rparr>
          in
            map_option (\<lambda>new_map.
                (Inr (), m\<lparr>mkeys := mkeys new_map, mdata := mdata new_map, mpsl := mpsl new_map,
                           mhashbits := new_hashbits\<rparr>))
              (if msize m \<noteq> 0 then rehash [0..<2 ^ mhashbits m] m new_map else Some new_map))"

definition nghttp2_map_insert :: "int \<Rightarrow> 'a \<Rightarrow> 'a nghttp2_map \<Rightarrow> (unit res \<times> 'a nghttp2_map) option" where
  "nghttp2_map_insert key d m =
     (let tablelen = 2 ^ mhashbits m in
      if tablelen - tablelen div 8 \<le> msize m + 1 then
        (case map_resize (if mhashbits m \<noteq> 0 then mhashbits m + 1 else NGHTTP2_INITIAL_HASHBITS) m of
           None \<Rightarrow> None
         | Some (Inl e, m) \<Rightarrow> Some (Inl e, m)
         | Some (Inr _, m) \<Rightarrow>
             (case map_insert key (Some d) m of
                None \<Rightarrow> None
              | Some (Inl e, m) \<Rightarrow> Some (Inl e, m)
              | Some (Inr _, m) \<Rightarrow> Some (Inr (), m)))
      else
        (case map_insert key (Some d) m of
           None \<Rightarrow> None
         | Some (Inl e, m) \<Rightarrow> Some (Inl e, m)
         | Some (Inr idx, m) \<Rightarrow>
             if unat (mpsl m ! idx) - 1 < NGHTTP2_MAX_PSL_RESIZE_THRESH then Some (Inr (), m)
             else map_resize (mhashbits m + 1) m))"

text \<open>The search loop ends because \<open>psl\<close> grows and no slot holds more than 255.\<close>

function map_find_loop :: "nat \<Rightarrow> nat \<Rightarrow> int \<Rightarrow> 'a nghttp2_map \<Rightarrow> nat option" where
  "map_find_loop idx psl key m =
     (if unat (mpsl m ! idx) < psl then None
      else if mkeys m ! idx = key then Some idx
      else map_find_loop (next_slot m idx) (psl + 1) key m)"
  by pat_completeness auto

termination map_find_loop
proof (relation "measure (\<lambda>(idx, psl, key, m). 256 - psl)", goal_cases)
  case 1
  then show ?case by simp
next
  case (2 idx psl key m)
  then have "psl < 256" using unat_u8_lt [of "mpsl m ! idx"] by linarith
  then show ?case by simp
qed

declare map_find_loop.simps [simp del]

definition nghttp2_map_find :: "'a nghttp2_map \<Rightarrow> int \<Rightarrow> 'a option" where
  "nghttp2_map_find m key =
     (if msize m = 0 then None
      else
        (case map_find_loop (map_index m key) 1 key m of
           None \<Rightarrow> None
         | Some idx \<Rightarrow> mdata m ! idx))"

partial_function (option) map_shift_loop :: "nat \<Rightarrow> nat \<Rightarrow> 'a nghttp2_map \<Rightarrow> 'a nghttp2_map option" where
  "map_shift_loop dest idx m =
     (let kpsl = unat (mpsl m ! idx) in
      if kpsl \<le> 1 then Some (m\<lparr>mpsl := (mpsl m)[dest := 0]\<rparr>)
      else map_shift_loop idx (next_slot m idx)
             (map_set_entry dest (mkeys m ! idx) (mdata m ! idx) (kpsl - 1) m))"

definition nghttp2_map_remove :: "int \<Rightarrow> 'a nghttp2_map \<Rightarrow> (unit res \<times> 'a nghttp2_map) option" where
  "nghttp2_map_remove key m =
     (if msize m = 0 then Some (Inl ERR_INVALID_ARGUMENT, m)
      else
        (case map_find_loop (map_index m key) 1 key m of
           None \<Rightarrow> Some (Inl ERR_INVALID_ARGUMENT, m)
         | Some idx \<Rightarrow>
             map_option (\<lambda>m. (Inr (), m\<lparr>msize := msize m - 1\<rparr>)) (map_shift_loop idx (next_slot m idx) m)))"

definition nghttp2_map_clear :: "'a nghttp2_map \<Rightarrow> 'a nghttp2_map" where
  "nghttp2_map_clear m =
     (if msize m = 0 then m
      else m\<lparr>mpsl := replicate (2 ^ mhashbits m) 0, msize := 0\<rparr>)"

definition nghttp2_map_size :: "'a nghttp2_map \<Rightarrow> nat" where
  "nghttp2_map_size m = msize m"

fun map_each_loop :: "('a option \<Rightarrow> 'c \<Rightarrow> int \<times> 'c) \<Rightarrow> nat list \<Rightarrow> 'a nghttp2_map \<Rightarrow> 'c \<Rightarrow> int \<times> 'c" where
  "map_each_loop f [] m c = (0, c)"
| "map_each_loop f (i # is) m c =
     (if mpsl m ! i = 0 then map_each_loop f is m c
      else let (rv, c) = f (mdata m ! i) c in if rv \<noteq> 0 then (rv, c) else map_each_loop f is m c)"

definition nghttp2_map_each :: "('a option \<Rightarrow> 'c \<Rightarrow> int \<times> 'c) \<Rightarrow> 'a nghttp2_map \<Rightarrow> 'c \<Rightarrow> int \<times> 'c" where
  "nghttp2_map_each f m c =
     (if msize m = 0 then (0, c) else map_each_loop f [0..<2 ^ mhashbits m] m c)"

section \<open>Distances on the ring of slots\<close>

definition ring_dist :: "nat \<Rightarrow> nat \<Rightarrow> nat \<Rightarrow> nat" where
  "ring_dist n h i = (i + n - h) mod n"

lemma ring_dist_self [simp]: "h < n \<Longrightarrow> ring_dist n h h = 0"
  by (simp add: ring_dist_def)

lemma ring_dist_lt [simp]: "0 < n \<Longrightarrow> ring_dist n h i < n"
  by (simp add: ring_dist_def)

lemma ring_dist_cases:
  assumes "h < n" "i < n"
  shows "ring_dist n h i = (if h \<le> i then i - h else i + n - h)"
  using assms by (auto simp: ring_dist_def mod_if)

lemma ring_dist_next:
  assumes "h < n" "i < n" "ring_dist n h i + 1 < n"
  shows "ring_dist n h ((i + 1) mod n) = ring_dist n h i + 1"
proof (cases "i + 1 = n")
  case True
  then have "(i + 1) mod n = 0" by simp
  then show ?thesis using assms True by (auto simp: ring_dist_cases)
next
  case False
  then have "(i + 1) mod n = i + 1" using assms by simp
  then show ?thesis using assms False by (auto simp: ring_dist_cases split: if_splits)
qed

lemma ring_dist_from_next:
  assumes "e < n" "i < n" "i \<noteq> e"
  shows "ring_dist n ((i + 1) mod n) e + 1 = ring_dist n i e"
proof (cases "i + 1 = n")
  case True
  then have "(i + 1) mod n = 0" by simp
  then show ?thesis using assms True by (auto simp: ring_dist_cases)
next
  case False
  then have "(i + 1) mod n = i + 1" using assms by simp
  then show ?thesis using assms False by (auto simp: ring_dist_cases split: if_splits)
qed

lemma ring_dist_add: "h < n \<Longrightarrow> i < n \<Longrightarrow> (h + ring_dist n h i) mod n = i"
  by (auto simp: ring_dist_cases mod_if)

lemma ring_dist_inj: "h < n \<Longrightarrow> i < n \<Longrightarrow> j < n \<Longrightarrow> ring_dist n h i = ring_dist n h j \<Longrightarrow> i = j"
  by (metis ring_dist_add)

lemma ring_dist_prev:
  assumes "h < n" "i < n" "0 < ring_dist n h ((i + 1) mod n)"
  shows "ring_dist n h i + 1 = ring_dist n h ((i + 1) mod n)"
proof (cases "i + 1 = n")
  case True
  then have "(i + 1) mod n = 0" by simp
  then show ?thesis using assms True by (auto simp: ring_dist_cases split: if_splits)
next
  case False
  then have "(i + 1) mod n = i + 1" using assms by simp
  then show ?thesis using assms False by (auto simp: ring_dist_cases split: if_splits)
qed

lemma ring_dist_next_self: "i < n \<Longrightarrow> 1 < n \<Longrightarrow> ring_dist n ((i + 1) mod n) i = n - 1"
  by (cases "i + 1 = n") (auto simp: ring_dist_cases)

lemma next_slot_inj:
  "p < 2 ^ mhashbits m \<Longrightarrow> q < 2 ^ mhashbits m \<Longrightarrow> next_slot m p = next_slot m q \<Longrightarrow> p = q"
  by (auto simp: next_slot_def mod_if split: if_splits)
section \<open>The invariant of the table\<close>

abbreviation slots :: "'a nghttp2_map \<Rightarrow> nat" where
  "slots m \<equiv> 2 ^ mhashbits m"

abbreviation psl_at :: "'a nghttp2_map \<Rightarrow> nat \<Rightarrow> nat" where
  "psl_at m i \<equiv> unat (mpsl m ! i)"

definition occupied :: "'a nghttp2_map \<Rightarrow> nat set" where
  "occupied m = {i. i < slots m \<and> mpsl m ! i \<noteq> 0}"

text \<open>
  Robin Hood tables: an entry knows its distance from home, and the distance grows by at most
  one from a slot to the next.
\<close>

definition map_table :: "'a nghttp2_map \<Rightarrow> bool" where
  "map_table m \<longleftrightarrow>
     0 < mhashbits m \<and> mhashbits m \<le> NGHTTP2_MAP_MAX_HASHBITS \<and>
     length (mkeys m) = slots m \<and> length (mdata m) = slots m \<and> length (mpsl m) = slots m \<and>
     (\<forall>i \<in> occupied m. psl_at m i = ring_dist (slots m) (map_index m (mkeys m ! i)) i + 1 \<and> mdata m ! i \<noteq> None) \<and>
     (\<forall>i < slots m. psl_at m (next_slot m i) \<le> psl_at m i + 1)"

lemma slots_pos: "map_table m \<Longrightarrow> 1 < slots m"
  using one_less_power [of "2 :: nat" "mhashbits m"] by (simp add: map_table_def)

lemma map_index_bound:
  assumes "0 < mhashbits m" "mhashbits m \<le> NGHTTP2_MAP_MAX_HASHBITS"
  shows "map_index m key < slots m"
proof -
  have hb: "mhashbits m \<le> 64" using assms by (simp add: NGHTTP2_MAP_MAX_HASHBITS_def)
  have "unat (drop_bit (64 - mhashbits m) w) < 2 ^ mhashbits m" for w :: u64
  proof -
    have "unat w < 2 ^ (64 - mhashbits m) * 2 ^ mhashbits m"
      using unsigned_less [of w, where ?'a = nat] hb by (simp flip: power_add)
    moreover have "unat (drop_bit (64 - mhashbits m) w) = unat w div 2 ^ (64 - mhashbits m)"
      by (metis unat_drop_bit_eq drop_bit_eq_div)
    ultimately show ?thesis by (simp add: less_mult_imp_div_less mult.commute)
  qed
  then show ?thesis by (simp add: map_index_def Let_def)
qed

lemma map_index_lt: "map_table m \<Longrightarrow> map_index m key < slots m"
  by (simp add: map_index_bound map_table_def)

lemma next_slot_lt: "next_slot m i < slots m"
  by (simp add: next_slot_def)

lemma map_set_entry_frame [simp]:
  "mhashbits (map_set_entry i key d v m) = mhashbits m" "mseed (map_set_entry i key d v m) = mseed m"
  "msize (map_set_entry i key d v m) = msize m" "mmem (map_set_entry i key d v m) = mmem m"
  "map_index (map_set_entry i key d v m) = map_index m" "next_slot (map_set_entry i key d v m) = next_slot m"
  by (simp_all add: map_set_entry_def fun_eq_iff map_index_def next_slot_def)

lemma set_entry_nth:
  assumes "length (mkeys m) = slots m" "length (mdata m) = slots m" "length (mpsl m) = slots m"
    and "i < slots m" "j < slots m" "v \<le> 255"
  shows "mkeys (map_set_entry i key d v m) ! j = (if j = i then key else mkeys m ! j)"
    and "mdata (map_set_entry i key d v m) ! j = (if j = i then d else mdata m ! j)"
    and "psl_at (map_set_entry i key d v m) j = (if j = i then v else psl_at m j)"
  using assms by (auto simp: map_set_entry_def nth_list_update unsigned_of_nat take_bit_eq_mod)

lemma map_set_entry_nth:
  assumes "map_table m" "i < slots m" "j < slots m" "v \<le> 255"
  shows "mkeys (map_set_entry i key d v m) ! j = (if j = i then key else mkeys m ! j)"
    and "mdata (map_set_entry i key d v m) ! j = (if j = i then d else mdata m ! j)"
    and "psl_at (map_set_entry i key d v m) j = (if j = i then v else psl_at m j)"
  using set_entry_nth [OF _ _ _ assms(2-4)] assms(1) by (auto simp: map_table_def)

lemma occupied_psl: "i \<in> occupied m \<longleftrightarrow> i < slots m \<and> psl_at m i \<noteq> 0"
  by (simp add: occupied_def unat_eq_zero)

lemma occupied_set_entry:
  assumes "map_table m" "i < slots m" "0 < v" "v \<le> 255"
  shows "occupied (map_set_entry i key d v m) = insert i (occupied m)"
  using assms map_set_entry_nth(3) [OF assms(1,2) _ assms(4)]
  by (auto simp: occupied_psl split: if_splits)

lemma next_slot_neq: "1 < slots m \<Longrightarrow> i < slots m \<Longrightarrow> next_slot m i \<noteq> i"
  by (cases "i + 1 = slots m") (auto simp: next_slot_def)

lemma table_set_entry:
  assumes m: "map_table m" and i: "i < slots m"
    and v: "v = ring_dist (slots m) (map_index m key) i + 1" "v \<le> 255" and d: "d \<noteq> None"
    and prev: "\<And>q. q < slots m \<Longrightarrow> next_slot m q = i \<Longrightarrow> v \<le> psl_at m q + 1"
    and nxt: "psl_at m (next_slot m i) \<le> v + 1"
  shows "map_table (map_set_entry i key d v m)"
proof -
  let ?m = "map_set_entry i key d v m"
  note nth = map_set_entry_nth [OF m i _ v(2), of _ key d]
  have len: "length (mkeys ?m) = slots m" "length (mdata ?m) = slots m" "length (mpsl ?m) = slots m"
    using m by (simp_all add: map_set_entry_def map_table_def)
  have "psl_at ?m j = ring_dist (slots m) (map_index m (mkeys ?m ! j)) j + 1 \<and> mdata ?m ! j \<noteq> None"
    if "j \<in> occupied ?m" for j
  proof -
    have j: "j < slots m" using that by (simp add: occupied_psl)
    show ?thesis
    proof (cases "j = i")
      case True
      then show ?thesis using nth [OF j] v(1) d by simp
    next
      case False
      then have "j \<in> occupied m" using that nth(3) [OF j] j by (simp add: occupied_psl)
      then show ?thesis using m False nth [OF j] by (simp add: map_table_def)
    qed
  qed
  moreover have "psl_at ?m (next_slot m j) \<le> psl_at ?m j + 1" if j: "j < slots m" for j
  proof -
    have old: "psl_at m (next_slot m j) \<le> psl_at m j + 1" using m j by (simp add: map_table_def)
    show ?thesis
      using nth(3) [OF j] nth(3) [OF next_slot_lt, of j] prev [OF j] nxt old next_slot_neq [OF slots_pos [OF m] j] v(1)
      by (cases "j = i"; cases "next_slot m j = i") auto
  qed
  ultimately show ?thesis using m len by (simp add: map_table_def)
qed

text \<open>Along the ring the distances cannot drop faster than one per slot.\<close>

lemma psl_chain:
  assumes m: "map_table m" and j: "j < slots m"
  shows "psl_at m ((j + t) mod slots m) \<le> psl_at m j + t"
proof (induction t)
  case 0
  then show ?case using j by simp
next
  case (Suc t)
  have "next_slot m ((j + t) mod slots m) = (j + Suc t) mod slots m"
    by (simp add: next_slot_def mod_Suc_eq)
  moreover have "psl_at m (next_slot m ((j + t) mod slots m)) \<le> psl_at m ((j + t) mod slots m) + 1"
    using m by (simp add: map_table_def)
  ultimately show ?case using Suc by simp
qed

lemma psl_dist:
  assumes "map_table m" "j < slots m" "i < slots m"
  shows "psl_at m i \<le> psl_at m j + ring_dist (slots m) j i"
  using psl_chain [OF assms(1,2), of "ring_dist (slots m) j i"] ring_dist_add [OF assms(2,3)] by simp

text \<open>A stored key is seen by every probe between its home and its slot.\<close>

lemma psl_before:
  assumes m: "map_table m" and j: "j \<in> occupied m" and i: "i < slots m"
    and d: "ring_dist (slots m) (map_index m (mkeys m ! j)) i \<le> ring_dist (slots m) (map_index m (mkeys m ! j)) j"
  shows "ring_dist (slots m) (map_index m (mkeys m ! j)) i + 1 \<le> psl_at m i"
proof -
  let ?n = "slots m" let ?h = "map_index m (mkeys m ! j)"
  have jn: "j < ?n" using j by (simp add: occupied_def)
  have h: "?h < ?n" by (rule map_index_lt [OF m])
  have "ring_dist ?n i j = ring_dist ?n ?h j - ring_dist ?n ?h i"
    using d h jn i by (auto simp: ring_dist_cases split: if_splits)
  moreover have "psl_at m j = ring_dist ?n ?h j + 1" using m j by (simp add: map_table_def)
  ultimately show ?thesis using psl_dist [OF m i jn] d by simp
qed

section \<open>Searching\<close>

definition keys_distinct :: "'a nghttp2_map \<Rightarrow> bool" where
  "keys_distinct m \<longleftrightarrow> inj_on ((!) (mkeys m)) (occupied m)"

lemma keys_distinctD:
  "keys_distinct m \<Longrightarrow> mkeys m ! i = mkeys m ! j \<Longrightarrow> i \<in> occupied m \<Longrightarrow> j \<in> occupied m \<Longrightarrow> i = j"
  by (simp add: keys_distinct_def inj_on_def)

lemma find_loop_present:
  assumes m: "map_table m" and j: "j \<in> occupied m" "mkeys m ! j = key"
    and inj: "keys_distinct m"
    and i: "i < slots m" "ring_dist (slots m) (map_index m key) i \<le> ring_dist (slots m) (map_index m key) j"
    and psl: "psl = ring_dist (slots m) (map_index m key) i + 1"
  shows "map_find_loop i psl key m = Some j"
  using i psl
proof (induction "ring_dist (slots m) (map_index m key) j - ring_dist (slots m) (map_index m key) i"
    arbitrary: i psl)
  case 0
  have h: "map_index m key < slots m" by (rule map_index_lt [OF m])
  have jn: "j < slots m" using j by (simp add: occupied_def)
  have "i = j" using 0 ring_dist_inj [OF h 0(2) jn] by simp
  moreover have "psl \<le> psl_at m i" using psl_before [OF m j(1) 0(2)] 0 j(2) by simp
  ultimately show ?case using j(2) by (subst map_find_loop.simps) simp
next
  case (Suc x)
  let ?n = "slots m" let ?h = "map_index m key"
  have h: "?h < ?n" by (rule map_index_lt [OF m])
  have jn: "j < ?n" using j by (simp add: occupied_def)
  have lt: "ring_dist ?n ?h i < ring_dist ?n ?h j" using Suc.hyps(2) by simp
  have p: "psl \<le> psl_at m i" using psl_before [OF m j(1) Suc.prems(1)] Suc.prems j(2) by simp
  then have "i \<in> occupied m" using Suc.prems by (simp add: occupied_psl)
  then have ne: "mkeys m ! i \<noteq> key" using keys_distinctD [OF inj, of i j] j lt by auto
  have nx: "ring_dist ?n ?h (next_slot m i) = ring_dist ?n ?h i + 1"
    unfolding next_slot_def
    by (rule ring_dist_next [OF h Suc.prems(1)]) (use ring_dist_lt [of ?n ?h j] slots_pos [OF m] lt in linarith)
  have "map_find_loop (next_slot m i) (psl + 1) key m = Some j"
    using Suc.hyps lt nx Suc.prems by (intro Suc.hyps(1)) (auto simp: next_slot_lt)
  then show ?case using p ne by (subst map_find_loop.simps) simp
qed

lemma find_loop_absent:
  assumes "map_table m" "\<And>j. j \<in> occupied m \<Longrightarrow> mkeys m ! j \<noteq> key" "i < slots m" "0 < psl"
  shows "map_find_loop i psl key m = None"
  using assms
proof (induction i psl key m rule: map_find_loop.induct)
  case (1 i psl key m)
  show ?case
  proof (cases "psl_at m i < psl")
    case True
    then show ?thesis by (subst map_find_loop.simps) simp
  next
    case False
    then have "i \<in> occupied m" using "1.prems" by (simp add: occupied_psl)
    then have "mkeys m ! i \<noteq> key" using "1.prems" by blast
    moreover from this have "map_find_loop (next_slot m i) (psl + 1) key m = None"
      using False by (intro "1.IH") (auto simp: next_slot_lt "1.prems")
    ultimately show ?thesis using False by (subst map_find_loop.simps) simp
  qed
qed

section \<open>Inserting\<close>

definition entries :: "'a nghttp2_map \<Rightarrow> (int \<times> 'a option) set" where
  "entries m = (\<lambda>i. (mkeys m ! i, mdata m ! i)) ` occupied m"

lemma full_circle:
  assumes m: "map_table m" and e: "e < slots m" "psl_at m e = 0" and i: "i < slots m"
  shows "psl_at m i < slots m"
  using psl_dist [OF m e(1) i] e(2) ring_dist_lt [of "slots m" e i] slots_pos [OF m] by linarith

lemma entries_set_entry:
  assumes "map_table m" "i < slots m" "0 < v" "v \<le> 255"
  shows "entries (map_set_entry i key d v m) =
    insert (key, d) ((\<lambda>j. (mkeys m ! j, mdata m ! j)) ` (occupied m - {i}))"
proof -
  let ?f = "\<lambda>j. (mkeys (map_set_entry i key d v m) ! j, mdata (map_set_entry i key d v m) ! j)"
  have "?f i = (key, d)" using map_set_entry_nth [OF assms(1,2,2,4)] by simp
  moreover have "?f j = (mkeys m ! j, mdata m ! j)" if "j \<in> occupied m - {i}" for j
    using map_set_entry_nth [OF assms(1,2) _ assms(4), of j] that by (simp add: occupied_def)
  moreover have "entries (map_set_entry i key d v m) = insert (?f i) (?f ` (occupied m - {i}))"
    using occupied_set_entry [OF assms] unfolding entries_def by auto
  ultimately show ?thesis by auto
qed

lemma inj_set_entry:
  assumes "map_table m" "i < slots m" "0 < v" "v \<le> 255" "keys_distinct m"
    and "\<And>j. j \<in> occupied m \<Longrightarrow> j \<noteq> i \<Longrightarrow> mkeys m ! j \<noteq> key"
  shows "keys_distinct (map_set_entry i key d v m)"
proof -
  have lt: "j \<in> occupied m \<Longrightarrow> j < slots m" for j by (simp add: occupied_def)
  show ?thesis
    unfolding keys_distinct_def occupied_set_entry [OF assms(1-4)]
  proof (rule inj_onI)
    fix x y
    assume x: "x \<in> insert i (occupied m)" and y: "y \<in> insert i (occupied m)"
      and eq: "mkeys (map_set_entry i key d v m) ! x = mkeys (map_set_entry i key d v m) ! y"
    have "x < slots m" "y < slots m" using x y lt assms(2) by auto
    with eq have "(if x = i then key else mkeys m ! x) = (if y = i then key else mkeys m ! y)"
      using map_set_entry_nth(1) [OF assms(1,2) _ assms(4)] by simp
    then show "x = y" using x y assms(6) keys_distinctD [OF assms(5), of x y]
      by (auto split: if_splits)
  qed
qed

text \<open>
  The counters that a probe meets from a slot up to the first empty one, and the counter of the
  entry that ends in this empty slot: a probe that arrives with \<open>c\<close> at a slot whose entry has
  the counter \<open>p\<close> leaves with the smaller of the two, by one slot further from home.
\<close>

definition probe :: "'a nghttp2_map \<Rightarrow> nat \<Rightarrow> nat list" where
  "probe m i = takeWhile (\<lambda>p. p \<noteq> 0) (rotate i (map unat (mpsl m)))"

definition carry :: "nat \<Rightarrow> nat list \<Rightarrow> nat" where
  "carry c ps = foldl (\<lambda>c p. min c p + 1) c ps"

definition landing_psl :: "'a nghttp2_map \<Rightarrow> int \<Rightarrow> nat" where
  "landing_psl m key = carry 1 (probe m (map_index m key))"

lemma carry_simps [simp]: "carry c [] = c" "carry c (p # ps) = carry (min c p + 1) ps"
  by (simp_all add: carry_def)

lemma rotate_next_slot:
  assumes "length xs = slots m"
  shows "rotate (next_slot m i) xs = rotate1 (rotate i xs)"
  using rotate_conv_mod [of "Suc i" xs] assms by (simp add: next_slot_def)

lemma rotate_slot:
  assumes "length xs = slots m" "i < slots m"
  shows "\<exists>ys. rotate i xs = xs ! i # ys \<and> rotate (next_slot m i) xs = ys @ [xs ! i]"
proof -
  have ne: "xs \<noteq> []" using assms by auto
  then have "rotate i xs = xs ! i # tl (rotate i xs)"
    using hd_rotate_conv_nth [OF ne, of i] assms by (cases "rotate i xs") auto
  then have "rotate i xs = xs ! i # tl (rotate i xs) \<and>
      rotate (next_slot m i) xs = tl (rotate i xs) @ [xs ! i]"
    using rotate_next_slot [OF assms(1)] by (metis rotate1.simps(2))
  then show ?thesis by blast
qed

lemma probe_stop: "length (mpsl m) = slots m \<Longrightarrow> i < slots m \<Longrightarrow> psl_at m i = 0 \<Longrightarrow> probe m i = []"
  using rotate_slot [of "map unat (mpsl m)" m i] by (auto simp: probe_def)

lemma probe_step:
  assumes len: "length (mpsl m) = slots m" and i: "i < slots m" "psl_at m i \<noteq> 0"
    and e: "e < slots m" "psl_at m e = 0"
  shows "probe m i = psl_at m i # probe m (next_slot m i)"
proof -
  let ?ps = "map unat (mpsl m) :: nat list"
  obtain ys where ys: "rotate i ?ps = ?ps ! i # ys" "rotate (next_slot m i) ?ps = ys @ [?ps ! i]"
    using rotate_slot [of ?ps m i] len i by auto
  have "0 \<in> set ?ps" using e len by (metis length_map nth_map nth_mem)
  then have "0 \<in> set (?ps ! i # ys)" using ys(1) by (metis set_rotate)
  then have "0 \<in> set ys" using i len by simp
  then show ?thesis
    using ys i len takeWhile_append1 [of 0 ys "\<lambda>p. p \<noteq> 0" "[?ps ! i]"] by (simp add: probe_def)
qed

lemma probe_set_entry:
  assumes len: "length (mpsl m) = slots m" and i: "i < slots m" and e: "e < slots m" "psl_at m e = 0" "e \<noteq> i"
  shows "probe (map_set_entry i key d v m) (next_slot m i) = probe m (next_slot m i)"
proof -
  let ?m = "map_set_entry i key d v m"
  let ?ps = "map unat (mpsl m) :: nat list" let ?qs = "map unat (mpsl ?m) :: nat list"
  obtain ys where ys: "rotate i ?ps = ?ps ! i # ys" "rotate (next_slot m i) ?ps = ys @ [?ps ! i]"
    using rotate_slot [of ?ps m i] len i by auto
  have lq: "length ?qs = slots m" using len by (simp add: map_set_entry_def)
  have qs: "?qs = ?ps[i := unat (word_of_nat v :: u8)]" by (simp add: map_set_entry_def map_update)
  obtain zs where zs: "rotate i ?qs = ?qs ! i # zs" "rotate (next_slot m i) ?qs = zs @ [?qs ! i]"
    using rotate_slot [OF lq i] by blast
  have same: "zs ! k = ys ! k" if k: "Suc k < slots m" for k
  proof -
    have "(i + Suc k) mod slots m \<noteq> i" using k i by (auto simp: mod_if)
    then have "rotate i ?qs ! Suc k = rotate i ?ps ! Suc k"
      using k len lq nth_rotate [of "Suc k" ?qs i] nth_rotate [of "Suc k" ?ps i] unfolding qs by simp
    then show ?thesis using ys(1) zs(1) by simp
  qed
  have lens: "Suc (length zs) = slots m" "Suc (length ys) = slots m"
    using arg_cong [OF ys(1), of length] arg_cong [OF zs(1), of length] len lq by simp_all
  have zy: "zs = ys" by (rule nth_equalityI) (use lens same in auto)
  have "0 \<in> set ys"
  proof -
    let ?k = "ring_dist (slots m) i e"
    have k: "(i + ?k) mod slots m = e" "?k < slots m" using ring_dist_add [OF i e(1)] by simp_all
    then have "?k \<noteq> 0" using e(3) i by (metis add_0_right mod_less)
    then obtain k' where k': "?k = Suc k'" using not0_implies_Suc by blast
    have "rotate i ?ps ! ?k = ?ps ! ((i + ?k) mod length ?ps)"
      by (rule nth_rotate) (use k(2) len in simp)
    then have "rotate i ?ps ! ?k = 0" using k(1) e len by simp
    then have "ys ! k' = 0" using ys(1) k' by simp
    moreover have "k' < length ys" using k(2) k' lens by simp
    ultimately show ?thesis by (metis nth_mem)
  qed
  then show ?thesis
    using ys(2) zs(2) zy takeWhile_append1 [of 0 ys "\<lambda>p. p \<noteq> 0"] by (simp add: probe_def)
qed

text \<open>What the insertion of a new entry changes.\<close>

definition inserted :: "'a nghttp2_map \<Rightarrow> int \<Rightarrow> 'a option \<Rightarrow> nat \<Rightarrow> 'a nghttp2_map \<Rightarrow> bool" where
  "inserted m key d j m' \<longleftrightarrow>
     map_table m' \<and> keys_distinct m' \<and> entries m' = insert (key, d) (entries m) \<and>
     j \<notin> occupied m \<and> occupied m' = insert j (occupied m) \<and> msize m' = msize m + 1 \<and>
     mhashbits m' = mhashbits m \<and> mseed m' = mseed m \<and> mmem m' = mmem m"

lemma insert_loop_new:
  assumes m: "map_table m" and inj: "keys_distinct m"
    and e: "e < slots m" "psl_at m e = 0"
    and i: "i < slots m" and psl: "psl = ring_dist (slots m) (map_index m key) i + 1" "psl \<le> b + 1"
    and prev: "\<And>q. q < slots m \<Longrightarrow> next_slot m q = i \<Longrightarrow> psl \<le> psl_at m q + 1"
    and new: "\<And>j. j \<in> occupied m \<Longrightarrow> mkeys m ! j \<noteq> key" and d: "d \<noteq> None"
    and ahead: "\<And>j. j < slots m \<Longrightarrow> ring_dist (slots m) i j \<le> ring_dist (slots m) i e \<Longrightarrow> psl_at m j \<le> b"
    and all: "\<And>j. j < slots m \<Longrightarrow> psl_at m j \<le> b + 1" and b: "b \<le> 254"
  shows "\<exists>j m'. map_insert_loop i psl key d m = Some (Inr j, m') \<and> inserted m key d j m' \<and>
    (\<forall>x < slots m. psl_at m' x \<le> b + 1) \<and> psl_at m' j = carry psl (probe m i)"
  using assms
proof (induction "ring_dist (slots m) i e" arbitrary: i psl key d m rule: less_induct)
  case less
  note m = less.prems(1) and inj = less.prems(2) and e = less.prems(3,4) and i = less.prems(5)
    and pslb = less.prems(6,7) and prev = less.prems(8) and new = less.prems(9) and d = less.prems(10)
    and ahead = less.prems(11) and all = less.prems(12) and b = less.prems(13)
  have psl: "psl = ring_dist (slots m) (map_index m key) i + 1" "psl \<le> 255" using pslb b by simp_all
  have len: "length (mpsl m) = slots m" using m by (simp add: map_table_def)
  let ?n = "slots m" let ?k = "psl_at m i" let ?m = "map_set_entry i key d psl m"
  have p0: "0 < psl" using psl by simp
  have rh: "psl_at m (next_slot m i) \<le> ?k + 1" using m i by (simp add: map_table_def)
  show ?case
  proof (cases "?k = 0")
    case True
    have t: "map_table ?m" using rh True by (intro table_set_entry [OF m i psl d prev]) auto
    have ni: "i \<notin> occupied m" using True by (simp add: occupied_psl)
    then have e': "entries ?m = insert (key, d) (entries m)"
      using entries_set_entry [OF m i p0 psl(2)] by (simp add: entries_def)
    let ?r = "?m\<lparr>msize := msize m + 1\<rparr>"
    have "map_table ?r" "occupied ?r = occupied ?m" "entries ?r = entries ?m" "keys_distinct ?r = keys_distinct ?m"
      using t by (simp_all add: map_table_def occupied_def entries_def keys_distinct_def map_index_def next_slot_def)
    then have "inserted m key d i ?r"
      using ni e' occupied_set_entry [OF m i p0 psl(2)] inj_set_entry [OF m i p0 psl(2) inj new]
      by (simp add: inserted_def)
    moreover have "map_insert_loop i psl key d m = Some (Inr i, ?r)"
      using True by (subst map_insert_loop.simps) (simp add: Let_def)
    moreover have "psl_at ?r x \<le> b + 1" if "x < ?n" for x
      using map_set_entry_nth(3) [OF m i that psl(2), of key d] all [OF that] pslb(2) by simp
    moreover have "psl_at ?r i = carry psl (probe m i)"
      using map_set_entry_nth(3) [OF m i i psl(2), of key d] probe_stop [OF len i True] by simp
    ultimately show ?thesis by blast
  next
    case occ: False
    then have io: "i \<in> occupied m" using i by (simp add: occupied_psl)
    have ie: "i \<noteq> e" using occ e by auto
    have dn: "ring_dist ?n (next_slot m i) e + 1 = ring_dist ?n i e"
      unfolding next_slot_def by (rule ring_dist_from_next [OF e(1) i ie])
    have kb: "?k \<le> b" using ahead [OF i] i by simp
    have pr: "probe m i = ?k # probe m (next_slot m i)" by (rule probe_step [OF len i occ e])
    have kn: "?k < ?n" by (rule full_circle [OF m e i])
    have kd: "?k = ring_dist ?n (map_index m (mkeys m ! i)) i + 1" "mdata m ! i \<noteq> None"
      using m io by (auto simp: map_table_def)
    have prev': "q = i" if "q < ?n" "next_slot m q = next_slot m i" for q
      by (rule next_slot_inj [OF that(1) i that(2)])
    have ahead': "psl_at m j \<le> b \<and> j \<noteq> i"
      if "j < ?n" "ring_dist ?n (next_slot m i) j \<le> ring_dist ?n (next_slot m i) e" for j
    proof -
      have "ring_dist ?n i e < ?n" by simp
      moreover have "ring_dist ?n (next_slot m i) i = ?n - 1"
        unfolding next_slot_def by (rule ring_dist_next_self [OF i slots_pos [OF m]])
      ultimately have "\<not> ring_dist ?n (next_slot m i) i \<le> ring_dist ?n (next_slot m i) e" using dn by linarith
      then have "j \<noteq> i" using that(2) by auto
      then have "ring_dist ?n (next_slot m i) j + 1 = ring_dist ?n i j"
        unfolding next_slot_def by (intro ring_dist_from_next that(1) i) auto
      then show ?thesis using ahead [OF that(1)] that(2) dn \<open>j \<noteq> i\<close> by simp
    qed
    show ?thesis
    proof (cases "?k < psl")
      case True
      let ?key = "mkeys m ! i" let ?d = "mdata m ! i"
      have t: "map_table ?m" using rh True by (intro table_set_entry [OF m i psl d prev]) auto
      note nth = map_set_entry_nth [OF m i _ psl(2), of _ key d]
      have inj': "keys_distinct ?m" by (rule inj_set_entry [OF m i p0 psl(2) inj new])
      have occ': "occupied ?m = occupied m"
        using occupied_set_entry [OF m i p0 psl(2)] io by (simp add: insert_absorb)
      have "\<exists>j m'. map_insert_loop (next_slot m i) (?k + 1) ?key ?d ?m = Some (Inr j, m') \<and>
          inserted ?m ?key ?d j m' \<and> (\<forall>x < slots ?m. psl_at m' x \<le> b + 1) \<and>
          psl_at m' j = carry (?k + 1) (probe ?m (next_slot m i))"
      proof (rule less.hyps)
        show "ring_dist (slots ?m) (next_slot m i) e < ring_dist ?n i e" using dn by simp
        show "map_table ?m" "keys_distinct ?m" by fact+
        show "e < slots ?m" "psl_at ?m e = 0" using e ie nth(3) [OF e(1)] by auto
        show "next_slot m i < slots ?m" by (simp add: next_slot_lt)
        show "?k + 1 = ring_dist (slots ?m) (map_index ?m ?key) (next_slot m i) + 1"
          using kd kn ring_dist_next [OF map_index_lt [OF m] i] by (simp add: next_slot_def)
        show "?k + 1 \<le> b + 1" using kb by simp
        show "psl_at ?m j \<le> b + 1" if "j < slots ?m" for j
          using nth(3) [of j] all [of j] pslb(2) that by simp
        show "b \<le> 254" by (rule b)
        show "?k + 1 \<le> psl_at ?m q + 1" if "q < slots ?m" "next_slot ?m q = next_slot m i" for q
          using prev' [of q] that nth(3) [OF i] True by simp
        show "mkeys ?m ! j \<noteq> ?key" if "j \<in> occupied ?m" for j
        proof (cases "j = i")
          case True
          then show ?thesis using new [OF io] nth(1) [OF i] by simp
        next
          case False
          have "j \<in> occupied m" using that occ' by simp
          moreover from this have "j < slots m" by (simp add: occupied_def)
          ultimately show ?thesis using nth(1) [of j] False keys_distinctD [OF inj, of j i] io by auto
        qed
        show "?d \<noteq> None" by (rule kd(2))
        show "psl_at ?m j \<le> b"
          if "j < slots ?m" "ring_dist (slots ?m) (next_slot m i) j \<le> ring_dist (slots ?m) (next_slot m i) e" for j
          using ahead' [of j] that nth(3) [of j] by simp
      qed
      then obtain j m' where l: "map_insert_loop (next_slot m i) (?k + 1) ?key ?d ?m = Some (Inr j, m')"
        "inserted ?m ?key ?d j m'" "\<forall>x < ?n. psl_at m' x \<le> b + 1"
        "psl_at m' j = carry (?k + 1) (probe ?m (next_slot m i))" by auto
      have "insert (?key, ?d) (entries ?m) = insert (key, d) (entries m)"
        using entries_set_entry [OF m i p0 psl(2)] io by (auto simp: entries_def)
      then have "inserted m key d j m'" using l(2) occ' by (simp add: inserted_def)
      moreover have "map_insert_loop i psl key d m = Some (Inr j, m')"
        using l(1) occ True by (subst map_insert_loop.simps) (simp add: Let_def)
      moreover have "psl_at m' j = carry psl (probe m i)"
        using l(4) True pr probe_set_entry [OF len i e ie [symmetric]] by (simp add: min_def)
      ultimately show ?thesis using l(3) by blast
    next
      case False
      have "\<exists>j m'. map_insert_loop (next_slot m i) (psl + 1) key d m = Some (Inr j, m') \<and> inserted m key d j m' \<and>
          (\<forall>x < slots m. psl_at m' x \<le> b + 1) \<and> psl_at m' j = carry (psl + 1) (probe m (next_slot m i))"
      proof (rule less.hyps)
        show "ring_dist ?n (next_slot m i) e < ring_dist ?n i e" using dn by simp
        show "psl + 1 = ring_dist ?n (map_index m key) (next_slot m i) + 1"
          using psl False kn ring_dist_next [OF map_index_lt [OF m] i] by (simp add: next_slot_def)
        show "psl + 1 \<le> psl_at m q + 1" if "q < ?n" "next_slot m q = next_slot m i" for q
          using prev' [OF that] False by simp
        show "psl + 1 \<le> b + 1" using False kb by simp
        show "psl_at m j \<le> b"
          if "j < ?n" "ring_dist ?n (next_slot m i) j \<le> ring_dist ?n (next_slot m i) e" for j
          using ahead' [OF that] by simp
      qed (use m inj e d new next_slot_lt all b in auto)
      moreover have "mkeys m ! i \<noteq> key" using new [OF io] .
      then have "map_insert_loop i psl key d m = map_insert_loop (next_slot m i) (psl + 1) key d m"
        using occ False by (subst map_insert_loop.simps) (simp add: Let_def)
      moreover have "carry psl (probe m i) = carry (psl + 1) (probe m (next_slot m i))"
        using pr False by (simp add: min_def)
      ultimately show ?thesis by simp
    qed
  qed
qed

lemma insert_loop_dup:
  assumes m: "map_table m" and j: "j \<in> occupied m" "mkeys m ! j = key"
    and i: "i < slots m" "ring_dist (slots m) (map_index m key) i \<le> ring_dist (slots m) (map_index m key) j"
    and psl: "psl = ring_dist (slots m) (map_index m key) i + 1"
  shows "map_insert_loop i psl key d m = Some (Inl ERR_INVALID_ARGUMENT, m)"
  using i psl
proof (induction "ring_dist (slots m) (map_index m key) j - ring_dist (slots m) (map_index m key) i"
    arbitrary: i psl)
  case 0
  have jn: "j < slots m" using j by (simp add: occupied_def)
  have "i = j" using 0 ring_dist_inj [OF map_index_lt [OF m, of key] 0(2) jn] by simp
  moreover have "psl \<le> psl_at m i" using psl_before [OF m j(1) 0(2)] 0 j(2) by simp
  moreover have "0 < psl" using 0 by simp
  ultimately show ?case using j(2) by (subst map_insert_loop.simps) (simp add: Let_def)
next
  case (Suc x)
  let ?n = "slots m" let ?h = "map_index m key"
  have lt: "ring_dist ?n ?h i < ring_dist ?n ?h j" using Suc.hyps(2) by simp
  have p: "psl \<le> psl_at m i" using psl_before [OF m j(1) Suc.prems(1)] Suc.prems j(2) by simp
  have nx: "ring_dist ?n ?h (next_slot m i) = ring_dist ?n ?h i + 1"
    unfolding next_slot_def
    by (rule ring_dist_next [OF map_index_lt [OF m] Suc.prems(1)])
      (use ring_dist_lt [of ?n ?h j] slots_pos [OF m] lt in linarith)
  have "map_insert_loop (next_slot m i) (psl + 1) key d m = Some (Inl ERR_INVALID_ARGUMENT, m)"
    using Suc.hyps lt nx Suc.prems by (intro Suc.hyps(1)) (auto simp: next_slot_lt)
  moreover have "0 < psl" using Suc.prems by simp
  ultimately show ?case using p by (subst map_insert_loop.simps) (simp add: Let_def)
qed

definition table_ok :: "'a nghttp2_map \<Rightarrow> bool" where
  "table_ok m \<longleftrightarrow> map_table m \<and> keys_distinct m \<and>
     card (occupied m) = msize m \<and> msize m < slots m"

lemma finite_occupied [simp]: "finite (occupied m)"
  by (simp add: occupied_def)

lemma table_ok_empty_slot:
  assumes "table_ok m"
  obtains e where "e < slots m" "psl_at m e = 0"
proof -
  have "card (occupied m) < card {..<slots m}" using assms by (simp add: table_ok_def)
  then have "occupied m \<noteq> {..<slots m}" by (metis less_irrefl)
  moreover have "occupied m \<subseteq> {..<slots m}" by (auto simp: occupied_def)
  ultimately obtain e where "e < slots m" "e \<notin> occupied m" by blast
  then show ?thesis using that by (simp add: occupied_psl)
qed

text \<open>All slots from the home of an entry to the entry are in use.\<close>

lemma psl_le_size:
  assumes m: "map_table m" and i: "i < slots m"
  shows "psl_at m i \<le> card (occupied m)"
proof (cases "i \<in> occupied m")
  case True
  let ?n = "slots m" let ?h = "map_index m (mkeys m ! i)"
  let ?S = "(\<lambda>t. (?h + t) mod ?n) ` {..ring_dist ?n ?h i}"
  have h: "?h < ?n" by (rule map_index_lt [OF m])
  have dn: "ring_dist ?n ?h i < ?n" by simp
  have d: "ring_dist ?n ?h ((?h + t) mod ?n) = t" if "t < ?n" for t
    using that h by (auto simp: ring_dist_def mod_if)
  have "inj_on (\<lambda>t. (?h + t) mod ?n) {..ring_dist ?n ?h i}"
    by (rule inj_on_inverseI [where g = "ring_dist ?n ?h"]) (use d le_less_trans [OF _ dn] in blast)
  then have "card ?S = ring_dist ?n ?h i + 1" by (simp add: card_image)
  moreover have "?S \<subseteq> occupied m"
  proof
    fix x assume "x \<in> ?S"
    then obtain t where t: "x = (?h + t) mod ?n" "t \<le> ring_dist ?n ?h i" by blast
    then have "x < ?n" "ring_dist ?n ?h x = t" using d [OF le_less_trans [OF t(2) dn]] by simp_all
    then show "x \<in> occupied m" using psl_before [OF m True, of x] t(2) by (simp add: occupied_psl)
  qed
  moreover have "psl_at m i = ring_dist ?n ?h i + 1" using m True by (simp add: map_table_def)
  ultimately show ?thesis using card_mono [OF finite_occupied, of ?S m] by simp
next
  case False
  then show ?thesis using i by (simp add: occupied_psl)
qed

text \<open>A bound on all the probe counters of a table.\<close>

definition psl_below :: "nat \<Rightarrow> 'a nghttp2_map \<Rightarrow> bool" where
  "psl_below b m \<longleftrightarrow> list_all (\<lambda>p. unat p \<le> b) (mpsl m)"

lemma psl_below_iff: "length (mpsl m) = slots m \<Longrightarrow> psl_below b m \<longleftrightarrow> (\<forall>i < slots m. psl_at m i \<le> b)"
  by (simp add: psl_below_def list_all_length)

lemma psl_below_table: "map_table m \<Longrightarrow> psl_below b m \<longleftrightarrow> (\<forall>i < slots m. psl_at m i \<le> b)"
  by (rule psl_below_iff) (simp add: map_table_def)

lemma psl_below_mono: "psl_below b m \<Longrightarrow> b \<le> c \<Longrightarrow> psl_below c m"
  by (auto simp: psl_below_def list_all_iff)

lemma map_insert_new:
  assumes "table_ok m" "psl_below b m" "b \<le> 254" "\<And>j. j \<in> occupied m \<Longrightarrow> mkeys m ! j \<noteq> key" "d \<noteq> None"
  shows "\<exists>j m'. map_insert key d m = Some (Inr j, m') \<and> inserted m key d j m' \<and> psl_below (b + 1) m' \<and>
    psl_at m' j = landing_psl m key"
proof -
  have m: "map_table m" "keys_distinct m" "card (occupied m) = msize m"
    using assms(1) by (simp_all add: table_ok_def)
  obtain e where e: "e < slots m" "psl_at m e = 0" by (rule table_ok_empty_slot [OF assms(1)])
  have p: "psl_at m j \<le> b" if "j < slots m" for j using assms(2) that by (simp add: psl_below_table [OF m(1)])
  have "\<exists>j m'. map_insert_loop (map_index m key) 1 key d m = Some (Inr j, m') \<and> inserted m key d j m' \<and>
      (\<forall>x < slots m. psl_at m' x \<le> b + 1) \<and> psl_at m' j = carry 1 (probe m (map_index m key))"
    using assms(3-5) map_index_lt [OF m(1), of key] p
    by (intro insert_loop_new [OF m(1,2) e]) (auto intro: le_SucI)
  then obtain j m' where r: "map_insert_loop (map_index m key) 1 key d m = Some (Inr j, m')" "inserted m key d j m'"
    "\<forall>x < slots m. psl_at m' x \<le> b + 1" "psl_at m' j = carry 1 (probe m (map_index m key))" by blast
  have "psl_below (b + 1) m'" using r(2,3) psl_below_table [of m' "b + 1"] by (simp add: inserted_def)
  then show ?thesis using r by (auto simp: map_insert_def landing_psl_def)
qed

lemma map_insert_dup:
  assumes "map_table m" "j \<in> occupied m" "mkeys m ! j = key"
  shows "map_insert key d m = Some (Inl ERR_INVALID_ARGUMENT, m)"
  unfolding map_insert_def
  by (rule insert_loop_dup [OF assms map_index_lt [OF assms(1)]]) (use map_index_lt [OF assms(1)] in auto)

lemma inserted_ok:
  assumes "inserted m key d j m'" "table_ok m" "msize m + 1 < slots m"
  shows "table_ok m'"
proof -
  have "card (occupied m') = card (occupied m) + 1" using assms(1) by (simp add: inserted_def)
  then show ?thesis using assms by (simp add: table_ok_def inserted_def)
qed

section \<open>Removing\<close>

text \<open>
  During the backward shift the slot \<open>dest\<close> is a hole: it still holds the entry that was
  moved or removed, with a counter that fits its neighbours.
\<close>

definition hole_table :: "nat \<Rightarrow> 'a nghttp2_map \<Rightarrow> bool" where
  "hole_table dest m \<longleftrightarrow>
     0 < mhashbits m \<and> mhashbits m \<le> NGHTTP2_MAP_MAX_HASHBITS \<and>
     length (mkeys m) = slots m \<and> length (mdata m) = slots m \<and> length (mpsl m) = slots m \<and>
     dest \<in> occupied m \<and>
     (\<forall>i \<in> occupied m - {dest}. psl_at m i = ring_dist (slots m) (map_index m (mkeys m ! i)) i + 1 \<and> mdata m ! i \<noteq> None) \<and>
     inj_on ((!) (mkeys m)) (occupied m - {dest}) \<and>
     (\<forall>i < slots m. psl_at m (next_slot m i) \<le> psl_at m i + 1)"

definition hole_entries :: "nat \<Rightarrow> 'a nghttp2_map \<Rightarrow> (int \<times> 'a option) set" where
  "hole_entries dest m = (\<lambda>i. (mkeys m ! i, mdata m ! i)) ` (occupied m - {dest})"

definition removed :: "nat \<Rightarrow> 'a nghttp2_map \<Rightarrow> 'a nghttp2_map \<Rightarrow> bool" where
  "removed dest m m' \<longleftrightarrow>
     map_table m' \<and> keys_distinct m' \<and> entries m' = hole_entries dest m \<and>
     (\<exists>x \<in> occupied m. occupied m' = occupied m - {x}) \<and> msize m' = msize m \<and>
     mhashbits m' = mhashbits m \<and> mseed m' = mseed m \<and> mmem m' = mmem m"

lemma hole_slots: "hole_table dest m \<Longrightarrow> 1 < slots m"
  using one_less_power [of "2 :: nat" "mhashbits m"] by (simp add: hole_table_def)

text \<open>Closing the hole.\<close>

lemma hole_close:
  assumes h: "hole_table dest m" and k: "psl_at m (next_slot m dest) \<le> 1"
  shows "removed dest m (m\<lparr>mpsl := (mpsl m)[dest := 0]\<rparr>)"
proof -
  let ?m = "m\<lparr>mpsl := (mpsl m)[dest := 0]\<rparr>"
  have len: "length (mpsl m) = slots m" and d: "dest \<in> occupied m" "dest < slots m"
    using h by (auto simp: hole_table_def occupied_def)
  have p: "psl_at ?m i = (if i = dest then 0 else psl_at m i)" if "i < slots m" for i
    using that len by (simp add: nth_list_update)
  have occ: "occupied ?m = occupied m - {dest}"
    using p d by (auto simp: occupied_psl split: if_splits)
  have idx: "map_index ?m = map_index m" "next_slot ?m = next_slot m"
    by (simp_all add: fun_eq_iff map_index_def next_slot_def)
  have "psl_at ?m i = ring_dist (slots ?m) (map_index ?m (mkeys ?m ! i)) i + 1 \<and> mdata ?m ! i \<noteq> None"
    if "i \<in> occupied ?m" for i
  proof -
    have i: "i \<in> occupied m - {dest}" using that occ by simp
    then have "psl_at ?m i = psl_at m i" using p [of i] by (simp add: occupied_def)
    then show ?thesis using h i idx by (simp add: hole_table_def)
  qed
  moreover have "psl_at ?m (next_slot ?m i) \<le> psl_at ?m i + 1" if "i < slots m" for i
  proof -
    have "psl_at m (next_slot m i) \<le> psl_at m i + 1" using h that by (simp add: hole_table_def)
    then show ?thesis using p [OF that] p [OF next_slot_lt, of i] k idx by auto
  qed
  ultimately have "map_table ?m" using h by (simp add: hole_table_def map_table_def)
  moreover have "keys_distinct ?m" using h occ by (simp add: keys_distinct_def hole_table_def)
  moreover have "entries ?m = hole_entries dest m" using occ by (simp add: entries_def hole_entries_def)
  ultimately show ?thesis using occ d by (auto simp: removed_def)
qed

text \<open>Moving the next entry into the hole moves the hole.\<close>

lemma hole_move:
  assumes h: "hole_table dest m" and k: "1 < psl_at m (next_slot m dest)"
  defines "idx \<equiv> next_slot m dest"
  defines "m' \<equiv> map_set_entry dest (mkeys m ! idx) (mdata m ! idx) (psl_at m idx - 1) m"
  shows "hole_table idx m'" "hole_entries idx m' = hole_entries dest m" "occupied m' = occupied m"
    "\<And>e. e < slots m \<Longrightarrow> psl_at m e = 0 \<Longrightarrow> psl_at m' e = 0"
proof -
  let ?n = "slots m" let ?k = "psl_at m idx"
  have d: "dest \<in> occupied m" "dest < ?n" using h by (auto simp: hole_table_def occupied_def)
  have hb: "mhashbits m' = mhashbits m" and f: "map_index m' = map_index m" "next_slot m' = next_slot m"
    by (simp_all add: m'_def)
  have i: "idx < ?n" "idx \<in> occupied m" using k by (simp_all add: idx_def next_slot_lt occupied_psl)
  have ne: "idx \<noteq> dest" unfolding idx_def by (rule next_slot_neq [OF hole_slots [OF h] d(2)])
  have len: "length (mkeys m) = ?n" "length (mdata m) = ?n" "length (mpsl m) = ?n"
    using h by (simp_all add: hole_table_def)
  have k255: "?k - 1 \<le> 255" using unat_u8_lt [of "mpsl m ! idx"] by linarith
  note nth = set_entry_nth [OF len d(2) _ k255, of _ "mkeys m ! idx" "mdata m ! idx", folded m'_def]
  show occ: "occupied m' = occupied m"
    using nth(3) d k hb unfolding idx_def [symmetric] by (auto simp: occupied_psl split: if_splits)
  have old: "psl_at m j = ring_dist ?n (map_index m (mkeys m ! j)) j + 1" "mdata m ! j \<noteq> None"
    if "j \<in> occupied m" "j \<noteq> dest" for j using h that by (auto simp: hole_table_def)
  have hm: "map_index m key < ?n" for key
    by (rule map_index_bound) (use h in \<open>simp_all add: hole_table_def\<close>)
  have home: "?k - 1 = ring_dist ?n (map_index m (mkeys m ! idx)) dest + 1"
    using old(1) [OF i(2) ne] k ring_dist_prev [OF hm d(2), of "mkeys m ! idx"]
    unfolding idx_def next_slot_def by simp
  have "psl_at m' j = ring_dist ?n (map_index m (mkeys m' ! j)) j + 1 \<and> mdata m' ! j \<noteq> None"
    if "j \<in> occupied m - {idx}" for j
  proof -
    have j: "j < ?n" using that by (simp add: occupied_def)
    show ?thesis
      using nth [OF j] home old [OF i(2) ne] old [of j] that by (cases "j = dest") auto
  qed
  moreover have inj': "inj_on ((!) (mkeys m)) (occupied m - {dest})" using h by (simp add: hole_table_def)
  have "inj_on ((!) (mkeys m')) (occupied m - {idx})"
  proof (rule inj_onI)
    fix x y
    assume x: "x \<in> occupied m - {idx}" and y: "y \<in> occupied m - {idx}" and eq: "mkeys m' ! x = mkeys m' ! y"
    let ?s = "\<lambda>j. if j = dest then idx else j"
    have "x < ?n" "y < ?n" using x y by (auto simp: occupied_def)
    then have "mkeys m ! ?s x = mkeys m ! ?s y" using eq nth(1) by (auto split: if_splits)
    moreover have "?s x \<in> occupied m - {dest}" "?s y \<in> occupied m - {dest}" using x y i ne by auto
    ultimately have "?s x = ?s y" using inj_onD [OF inj'] by blast
    then show "x = y" using x y by (auto split: if_splits)
  qed
  moreover have "psl_at m' (next_slot m j) \<le> psl_at m' j + 1" if j: "j < ?n" for j
  proof -
    have rh: "\<And>q. q < ?n \<Longrightarrow> psl_at m (next_slot m q) \<le> psl_at m q + 1" using h by (simp add: hole_table_def)
    have "?k \<le> psl_at m dest + 1" using rh [OF d(2)] by (simp add: idx_def)
    then show ?thesis
      using nth(3) [OF j] nth(3) [OF next_slot_lt, of j] rh [OF j] next_slot_neq [OF hole_slots [OF h] j] k
      unfolding idx_def [symmetric] by (cases "j = dest"; cases "next_slot m j = dest") (auto simp: idx_def)
  qed
  moreover have "length (mkeys m') = ?n" "length (mdata m') = ?n" "length (mpsl m') = ?n"
    using len by (simp_all add: m'_def map_set_entry_def)
  ultimately show "hole_table idx m'" using h i hb f occ by (simp add: hole_table_def)
  show "hole_entries idx m' = hole_entries dest m"
  proof -
    let ?f = "\<lambda>m j. (mkeys m ! j, mdata m ! j)"
    have "?f m' dest = ?f m idx" using nth [OF d(2)] by simp
    moreover have "?f m' ` (occupied m - {idx, dest}) = ?f m ` (occupied m - {idx, dest})"
      by (rule image_cong) (use nth in \<open>auto simp: occupied_def\<close>)
    moreover have "occupied m - {idx} = insert dest (occupied m - {idx, dest})"
      "occupied m - {dest} = insert idx (occupied m - {idx, dest})" using d i ne by auto
    ultimately show ?thesis by (simp add: hole_entries_def occ)
  qed
  show "psl_at m' e = 0" if "e < ?n" "psl_at m e = 0" for e
    using nth(3) [OF that(1)] that d(1) by (auto simp: occupied_psl)
qed

lemma shift_loop_correct:
  assumes "hole_table dest m" "e < slots m" "psl_at m e = 0"
  shows "\<exists>m'. map_shift_loop dest (next_slot m dest) m = Some m' \<and> removed dest m m'"
  using assms
proof (induction "ring_dist (slots m) (next_slot m dest) e" arbitrary: dest m rule: less_induct)
  case less
  note h = less.prems(1) and e = less.prems(2,3)
  let ?i = "next_slot m dest"
  show ?case
  proof (cases "psl_at m ?i \<le> 1")
    case True
    then have "map_shift_loop dest ?i m = Some (m\<lparr>mpsl := (mpsl m)[dest := 0]\<rparr>)"
      by (subst map_shift_loop.simps) (simp add: Let_def)
    then show ?thesis using hole_close [OF h True] by blast
  next
    case False
    define m' where "m' = map_set_entry dest (mkeys m ! ?i) (mdata m ! ?i) (psl_at m ?i - 1) m"
    have k: "1 < psl_at m ?i" using False by simp
    have fr: "mhashbits m' = mhashbits m" "next_slot m' = next_slot m" "msize m' = msize m"
      "mseed m' = mseed m" "mmem m' = mmem m" by (simp_all add: m'_def)
    note mv = hole_move [OF h k, folded m'_def]
    have "?i \<noteq> e" using k e by auto
    then have "ring_dist (slots m) (next_slot m ?i) e < ring_dist (slots m) ?i e"
      using ring_dist_from_next [OF e(1) next_slot_lt [of m dest]] by (simp add: next_slot_def)
    then obtain r where r: "map_shift_loop ?i (next_slot m' ?i) m' = Some r" "removed ?i m' r"
      using less.hyps [of m' ?i] mv(1) mv(4) [OF e] e(1) fr by auto
    then have "removed dest m r" using mv(2,3) fr by (simp add: removed_def)
    moreover have "map_shift_loop dest ?i m = Some r"
      using r(1) False fr by (subst map_shift_loop.simps) (simp add: Let_def m'_def)
    ultimately show ?thesis by blast
  qed
qed

section \<open>Growing the table\<close>

definition entry_at :: "'a nghttp2_map \<Rightarrow> nat \<Rightarrow> int \<times> 'a option" where
  "entry_at m i = (mkeys m ! i, mdata m ! i)"

lemma entries_alt: "entries m = entry_at m ` occupied m"
  by (simp add: entries_def entry_at_def)

lemma key_in_entries: "(\<exists>j \<in> occupied m. mkeys m ! j = key) \<longleftrightarrow> key \<in> fst ` entries m"
  by (auto simp: entries_def image_iff)

lemma map_index_half:
  assumes "mhashbits N = mhashbits m + 1" "mseed N = mseed m" "mhashbits N \<le> 64"
  shows "map_index m key = map_index N key div 2"
proof -
  have "64 - mhashbits m = 64 - mhashbits N + 1" using assms by simp
  moreover have "drop_bit (k + 1) w = drop_bit 1 (drop_bit k w)" for w :: u64 and k
    by (simp only: drop_bit_drop_bit) (simp add: add.commute)
  moreover have "unat (drop_bit 1 w) = unat w div 2" for w :: u64
    by (metis unat_drop_bit_eq drop_bit_eq_div power_one_right)
  ultimately show ?thesis using assms(2) by (simp only: map_index_def Let_def)
qed

text \<open>
  The start of a run: going back from an entry one meets a slot whose entry is at home, and all
  slots between are in use.
\<close>

lemma run_start:
  assumes N: "map_table N" and e: "e < slots N" "psl_at N e = 0" and j: "j \<in> occupied N"
  obtains s t where "s < slots N" "t < slots N" "j = (s + t) mod slots N" "psl_at N s = 1"
    "\<And>u. u \<le> t \<Longrightarrow> (s + u) mod slots N \<in> occupied N"
proof -
  let ?n = "slots N" let ?x = "ring_dist ?n e j"
  have jn: "j < ?n" "psl_at N j \<noteq> 0" using j by (auto simp: occupied_psl)
  have n: "0 < ?n" by simp
  have jx: "(e + ?x) mod ?n = j" by (rule ring_dist_add [OF e(1) jn(1)])
  let ?P = "\<lambda>y. y \<le> ?x \<and> psl_at N ((e + y) mod ?n) \<le> 1"
  define y where "y = (GREATEST y. ?P y)"
  have P0: "?P 0" using e by simp
  have b: "?P y' \<Longrightarrow> y' \<le> ?x" for y' by simp
  have y: "?P y" unfolding y_def by (rule GreatestI_nat [where P = ?P, OF P0 b]) 
  have above: "2 \<le> psl_at N ((e + z) mod ?n)" if "y < z" "z \<le> ?x" for z
  proof (rule ccontr)
    assume "\<not> ?thesis"
    then have "z \<le> y" unfolding y_def using that by (intro Greatest_le_nat [where P = ?P, OF _ b]) auto
    then show False using that by simp
  qed
  have one: "psl_at N ((e + y) mod ?n) = 1"
  proof (rule ccontr)
    assume "\<not> ?thesis"
    then have z: "psl_at N ((e + y) mod ?n) = 0" using y by linarith
    then have "y \<noteq> ?x" using jx jn by auto
    then have lt: "y < ?x" using y by simp
    have "next_slot N ((e + y) mod ?n) = (e + Suc y) mod ?n"
      by (simp add: next_slot_def mod_Suc_eq)
    moreover have "psl_at N (next_slot N ((e + y) mod ?n)) \<le> psl_at N ((e + y) mod ?n) + 1"
      using N by (simp add: map_table_def)
    ultimately have "psl_at N ((e + Suc y) mod ?n) \<le> 1" using z by simp
    then show False using above [of "Suc y"] lt by simp
  qed
  show ?thesis
  proof (rule that [of "(e + y) mod ?n" "?x - y"])
    have xn: "?x < ?n" by simp
    show "?x - y < ?n" by (rule le_less_trans [OF diff_le_self xn])
    show "(e + y) mod ?n < ?n" by simp
    have *: "((e + y) mod ?n + u) mod ?n = (e + (y + u)) mod ?n" for u
      by (simp add: mod_add_left_eq add.assoc)
    show "j = ((e + y) mod ?n + (?x - y)) mod ?n" unfolding * using y jx by simp
    show "psl_at N ((e + y) mod ?n) = 1" by (rule one)
    show "((e + y) mod ?n + u) mod ?n \<in> occupied N" if "u \<le> ?x - y" for u
    proof (cases "u = 0")
      case True
      then show ?thesis unfolding * using one by (simp add: occupied_psl)
    next
      case False
      then have "2 \<le> psl_at N ((e + (y + u)) mod ?n)" using that y by (intro above) linarith+
      then show ?thesis unfolding * occupied_psl by simp
    qed
  qed
qed

lemma mod_cancel_nat:
  fixes a b c n :: nat
  assumes "(a + c) mod n = (b + c) mod n" "a < n"
  shows "a = b mod n"
proof -
  have "(int a + int c) mod int n = (int b + int c) mod int n"
    using arg_cong [OF assms(1), of int] by (simp add: zmod_int)
  then have "(int a + int c - int c) mod int n = (int b + int c - int c) mod int n"
    by (rule mod_diff_cong) simp
  then have "a mod n = b mod n" by (simp flip: zmod_int)
  then show ?thesis using assms(2) by simp
qed

lemma mod_double_half: "(x mod (2 * n)) div 2 = x div 2 mod (n :: nat)"
  by (simp add: mod_mult2_eq)

text \<open>The slot of an entry from its home and its counter.\<close>

lemma slot_of_home:
  assumes "map_table m" "i \<in> occupied m"
  shows "i = (map_index m (mkeys m ! i) + (psl_at m i - 1)) mod slots m"
proof -
  have "psl_at m i - 1 = ring_dist (slots m) (map_index m (mkeys m ! i)) i" "i < slots m"
    using assms by (auto simp: map_table_def occupied_def)
  then show ?thesis using ring_dist_add [OF map_index_lt [OF assms(1)]] by simp
qed

text \<open>
  Doubling the table does not make a probe longer: a run of entries that ends far from the home
  of its last entry was at least as long in the smaller table.
\<close>

lemma double_psl:
  assumes m: "map_table m" and N: "map_table N" "keys_distinct N"
    and hb: "mhashbits N = mhashbits m + 1" "mseed N = mseed m"
    and sub: "\<And>i. i \<in> occupied N \<Longrightarrow> \<exists>i' \<in> occupied m. mkeys m ! i' = mkeys N ! i"
    and e: "e < slots N" "psl_at N e = 0"
    and b: "\<And>i. i < slots m \<Longrightarrow> psl_at m i \<le> b" and j: "j < slots N"
  shows "psl_at N j \<le> b"
proof (cases "j \<in> occupied N")
  case False
  then show ?thesis using j by (simp add: occupied_psl)
next
  case True
  let ?n = "slots m"
  have n2: "slots N = 2 * ?n" using hb by simp
  obtain s t where st: "s < slots N" "t < slots N" "j = (s + t) mod slots N" "psl_at N s = 1"
    "\<And>u. u \<le> t \<Longrightarrow> (s + u) mod slots N \<in> occupied N"
    by (rule run_start [OF N(1) e True]) blast
  let ?c = "\<lambda>u. (s + u) mod slots N"
  define f where "f u = (SOME i'. i' \<in> occupied m \<and> mkeys m ! i' = mkeys N ! ?c u)" for u
  have f: "f u \<in> occupied m \<and> mkeys m ! f u = mkeys N ! ?c u" if "u \<le> t" for u
    unfolding f_def by (rule someI_ex) (use sub [OF st(5) [OF that]] in blast)
  have hi: "psl_at N (?c u) \<le> u + 1" for u using psl_chain [OF N(1) st(1), of u] st(4) by simp
  have lo: "psl_at N j \<le> psl_at N (?c u) + (t - u)" if "u \<le> t" for u
  proof -
    have "(?c u + (t - u)) mod slots N = j"
      using mod_add_left_eq [of "s + u" "slots N" "t - u"] that st(3) by (simp add: add.assoc)
    then show ?thesis using psl_chain [OF N(1), of "?c u" "t - u"] by simp
  qed
  have pt: "psl_at N j \<le> t + 1" using hi [of t] st(3) by simp
  let ?w = "t + 1 - psl_at N j"
  have in_range: "f u \<in> (\<lambda>x. (s div 2 + x) mod ?n) ` {..<?w + b}" if u: "u \<le> t" for u
  proof -
    let ?p = "psl_at N (?c u)" let ?o = "u + 1 - ?p"
    have occ: "?c u \<in> occupied N" by (rule st(5) [OF u])
    have p1: "1 \<le> ?p" using occ by (simp add: occupied_psl)
    let ?h = "map_index N (mkeys N ! ?c u)"
    have "(?h + (?p - 1)) mod slots N = (s + u) mod slots N"
      using slot_of_home [OF N(1) occ] by simp
    moreover have "s + u = s + ?o + (?p - 1)" using hi [of u] p1 by simp
    ultimately have "(?h + (?p - 1)) mod slots N = (s + ?o + (?p - 1)) mod slots N" by simp
    then have h: "?h = (s + ?o) mod slots N"
      by (rule mod_cancel_nat) (rule map_index_lt [OF N(1)])
    have "map_index m (mkeys m ! f u) = ?h div 2"
      using map_index_half [OF hb, of "mkeys N ! ?c u"] N(1) f [OF u]
      by (simp add: map_table_def NGHTTP2_MAP_MAX_HASHBITS_def)
    also have "\<dots> = (s + ?o) mod slots N div 2" by (rule arg_cong [OF h])
    also have "\<dots> = (s + ?o) div 2 mod ?n" by (simp only: n2 mod_double_half)
    finally have hm: "map_index m (mkeys m ! f u) = (s + ?o) div 2 mod ?n" .
    have fo: "f u \<in> occupied m" using f [OF u] by simp
    define q where "q = (s + ?o) div 2 - s div 2"
    have q: "(s + ?o) div 2 = s div 2 + q" "q \<le> ?o" unfolding q_def by linarith+
    have "f u = ((s + ?o) div 2 + (psl_at m (f u) - 1)) mod ?n"
      using slot_of_home [OF m fo] unfolding hm by (simp add: mod_add_left_eq)
    then have fu: "f u = (s div 2 + (q + (psl_at m (f u) - 1))) mod ?n" unfolding q(1) by (simp add: add.assoc)
    have "1 \<le> psl_at m (f u)" "psl_at m (f u) \<le> b" using fo b by (auto simp: occupied_psl)
    moreover have "?o \<le> ?w" using lo [OF u] p1 hi [of u] u pt by linarith
    ultimately have "q + (psl_at m (f u) - 1) < ?w + b" using q(2) by linarith
    then show ?thesis using fu by blast
  qed
  have inj: "inj_on f {..t}"
  proof (rule inj_onI)
    fix u v
    assume u: "u \<in> {..t}" and v: "v \<in> {..t}" and eq: "f u = f v"
    have "mkeys N ! ?c u = mkeys N ! ?c v" using f [of u] f [of v] u v eq by simp
    then have "?c u = ?c v" using keys_distinctD [OF N(2)] st(5) u v by simp
    then have "u mod slots N = v mod slots N"
      using mod_cancel_nat [of u s "slots N" v] u v st(2) by (simp add: add.commute)
    then show "u = v" using u v st(2) by simp
  qed
  have "t + 1 = card (f ` {..t})" using inj by (simp add: card_image)
  also have "\<dots> \<le> card ((\<lambda>x. (s div 2 + x) mod ?n) ` {..<?w + b})"
    by (rule card_mono) (use in_range in auto)
  also have "\<dots> \<le> ?w + b" using card_image_le [of "{..<?w + b}"] by simp
  finally show ?thesis using pt by linarith
qed

lemma double_psl_below:
  assumes m: "table_ok m" and N: "table_ok N" and hb: "mhashbits N = mhashbits m + 1" "mseed N = mseed m"
    and sub: "entries N \<subseteq> entries m" and b: "psl_below b m"
  shows "psl_below b N"
proof -
  have t: "map_table m" "map_table N" "keys_distinct N" using m N by (simp_all add: table_ok_def)
  obtain e where e: "e < slots N" "psl_at N e = 0" by (rule table_ok_empty_slot [OF N])
  have "\<exists>i' \<in> occupied m. mkeys m ! i' = mkeys N ! i" if "i \<in> occupied N" for i
    using sub that by (force simp: entries_def)
  then show ?thesis
    using double_psl [OF t(1-3) hb _ e, of b] b by (auto simp: psl_below_table t)
qed

lemma rehash_correct:
  assumes "map_table m" "keys_distinct m" "distinct is" "\<forall>i \<in> set is. i < slots m"
    and "table_ok N" "fst ` entries N \<inter> fst ` (entry_at m ` (occupied m \<inter> set is)) = {}"
    and "msize N + card (occupied m \<inter> set is) < slots N"
    and "table_ok m" "mhashbits N = mhashbits m + 1" "mseed N = mseed m" "entries N \<subseteq> entries m"
    and "psl_below b m" "b \<le> 254"
  shows "\<exists>N'. rehash is m N = Some N' \<and> table_ok N' \<and>
    entries N' = entries N \<union> entry_at m ` (occupied m \<inter> set is) \<and>
    msize N' = msize N + card (occupied m \<inter> set is) \<and> mhashbits N' = mhashbits N \<and> mseed N' = mseed N"
  using assms
proof (induction "is" arbitrary: N)
  case Nil
  then show ?case by simp
next
  case (Cons i "is")
  show ?case
  proof (cases "i \<in> occupied m")
    case False
    then have "occupied m \<inter> set (i # is) = occupied m \<inter> set is" "mpsl m ! i = 0"
      using Cons.prems(4) by (auto simp: occupied_def)
    then show ?thesis using Cons by simp
  next
    case True
    have s: "occupied m \<inter> set (i # is) = insert i (occupied m \<inter> set is)" "i \<notin> occupied m \<inter> set is"
      using True Cons.prems(3) by auto
    then have c: "card (occupied m \<inter> set (i # is)) = card (occupied m \<inter> set is) + 1" by simp
    have fresh: "mkeys m ! i \<notin> fst ` entries N"
      using Cons.prems(6) s(1) by (auto simp: entry_at_def)
    then have new: "mkeys N ! j \<noteq> mkeys m ! i" if "j \<in> occupied N" for j
      using key_in_entries [of N "mkeys m ! i"] that by auto
    have d: "mdata m ! i \<noteq> None" using Cons.prems(1) True by (simp add: map_table_def)
    obtain j N1 where N1: "map_insert (mkeys m ! i) (mdata m ! i) N = Some (Inr j, N1)"
      "inserted N (mkeys m ! i) (mdata m ! i) j N1"
      using map_insert_new [OF Cons.prems(5) double_psl_below [OF Cons.prems(8) Cons.prems(5) Cons.prems(9-12)]
          Cons.prems(13) new d] by blast
    have ok: "table_ok N1" using inserted_ok [OF N1(2) Cons.prems(5)] Cons.prems(7) c by simp
    have e1: "entries N1 = insert (entry_at m i) (entries N)" "msize N1 = msize N + 1"
      "mhashbits N1 = mhashbits N" "mseed N1 = mseed N"
      using N1(2) by (simp_all add: inserted_def entry_at_def)
    have "mkeys m ! i \<notin> fst ` (entry_at m ` (occupied m \<inter> set is))"
    proof
      assume "mkeys m ! i \<in> fst ` (entry_at m ` (occupied m \<inter> set is))"
      then obtain x where "x \<in> occupied m" "x \<in> set is" "mkeys m ! x = mkeys m ! i" by (auto simp: entry_at_def)
      then show False using keys_distinctD [OF Cons.prems(2), of x i] True Cons.prems(3) by auto
    qed
    then have "fst ` entries N1 \<inter> fst ` (entry_at m ` (occupied m \<inter> set is)) = {}"
      using Cons.prems(6) s(1) e1(1) by (auto simp: entry_at_def)
    moreover have "entries N1 \<subseteq> entries m" using e1(1) Cons.prems(11) True by (auto simp: entries_alt)
    moreover have "msize N1 + card (occupied m \<inter> set is) < slots N1" using Cons.prems(7) c e1 by simp
    moreover have "mhashbits N1 = mhashbits m + 1" "mseed N1 = mseed m" using e1 Cons.prems(9,10) by simp_all
    moreover have "distinct is" "\<forall>i \<in> set is. i < slots m" using Cons.prems(3,4) by simp_all
    ultimately obtain N' where "rehash is m N1 = Some N'" "table_ok N'"
      "entries N' = entries N1 \<union> entry_at m ` (occupied m \<inter> set is)"
      "msize N' = msize N1 + card (occupied m \<inter> set is)" "mhashbits N' = mhashbits N1" "mseed N' = mseed N1"
      using Cons.IH [OF Cons.prems(1,2) _ _ ok _ _ Cons.prems(8) _ _ _ Cons.prems(12,13)] by blast
    then show ?thesis using N1(1) True s(1) c e1 by (auto simp: occupied_def)
  qed
qed

definition map_inv :: "'a nghttp2_map \<Rightarrow> bool" where
  "map_inv m \<longleftrightarrow> mhashbits m = 0 \<and> msize m = 0 \<and> mpsl m = [] \<or> table_ok m"

text \<open>The abstract contents: the map from the keys in use to their objects.\<close>

definition map_abs :: "'a nghttp2_map \<Rightarrow> int \<rightharpoonup> 'a" where
  "map_abs m = map_of (map (\<lambda>i. (mkeys m ! i, the (mdata m ! i)))
     (filter (\<lambda>i. mpsl m ! i \<noteq> 0) [0..<length (mpsl m)]))"

definition empty_table :: "nat \<Rightarrow> nghttp2_mem \<Rightarrow> u64 \<Rightarrow> 'a nghttp2_map" where
  "empty_table hb mem seed = \<lparr>mkeys = replicate (2 ^ hb) 0, mdata = replicate (2 ^ hb) None,
     mpsl = replicate (2 ^ hb) 0, mmem = mem, mseed = seed, msize = 0, mhashbits = hb\<rparr>"

lemma empty_table_fields [simp]:
  "length (mkeys (empty_table hb mem seed)) = 2 ^ hb" "length (mdata (empty_table hb mem seed)) = 2 ^ hb"
  "length (mpsl (empty_table hb mem seed)) = 2 ^ hb" "mmem (empty_table hb mem seed) = mem"
  "mseed (empty_table hb mem seed) = seed" "msize (empty_table hb mem seed) = 0"
  "mhashbits (empty_table hb mem seed) = hb" "i < 2 ^ hb \<Longrightarrow> mpsl (empty_table hb mem seed) ! i = 0"
  by (simp_all add: empty_table_def)

lemma empty_table_occupied [simp]: "occupied (empty_table hb mem seed) = {}"
  by (simp add: occupied_def)

lemma empty_table_next [simp]: "next_slot (empty_table hb mem seed) i < 2 ^ hb"
  by (simp add: next_slot_def)

lemma empty_table_ok:
  assumes "0 < hb" "hb \<le> NGHTTP2_MAP_MAX_HASHBITS"
  shows "table_ok (empty_table hb mem seed)" "entries (empty_table hb mem seed) = {}"
  using assms by (simp_all add: table_ok_def map_table_def keys_distinct_def entries_def)

lemma map_resize_correct:
  assumes inv: "map_inv m" and hb: "0 < hb" "mhashbits m \<noteq> 0 \<Longrightarrow> hb = mhashbits m + 1" "hb \<le> NGHTTP2_MAP_MAX_HASHBITS"
    and psl: "psl_below b m" "b \<le> 254"
  shows "\<exists>m'. map_resize hb m = Some (if fst (mem_alloc (mmem m)) then Inr () else Inl ERR_NOMEM, m') \<and>
    mmem m' = snd (mem_alloc (mmem m)) \<and> msize m' = msize m \<and>
    (if fst (mem_alloc (mmem m))
     then table_ok m' \<and> mhashbits m' = hb \<and> (if mhashbits m = 0 then entries m' = {} else entries m' = entries m) \<and>
       psl_below b m'
     else m' = m\<lparr>mmem := snd (mem_alloc (mmem m))\<rparr>)"
proof -
  obtain ok mem where a: "mem_alloc (mmem m) = (ok, mem)" by fastforce
  let ?m = "m\<lparr>mmem := mem\<rparr>" let ?N = "empty_table hb mem (mseed m) :: 'a nghttp2_map"
  have N: "table_ok ?N" "entries ?N = {}" "msize ?N = 0" "mhashbits ?N = hb" "mseed ?N = mseed m"
    using empty_table_ok [of hb mem "mseed m"] hb by simp_all
  define r where "r = (if msize m \<noteq> 0 then rehash [0..<slots m] ?m ?N else Some ?N)"
  have eq: "map_resize hb m = (if \<not> ok then Some (Inl ERR_NOMEM, ?m) else
      map_option (\<lambda>N'. (Inr (), ?m\<lparr>mkeys := mkeys N', mdata := mdata N', mpsl := mpsl N', mhashbits := hb\<rparr>)) r)"
    using hb a by (simp add: map_resize_def empty_table_def r_def Let_def)
  have "\<exists>N'. r = Some N' \<and> table_ok N' \<and> mhashbits N' = hb \<and> mseed N' = mseed m \<and> msize N' = msize m \<and>
    (if mhashbits m = 0 then entries N' = {} else entries N' = entries m) \<and> psl_below b N'"
  proof (cases "msize m = 0")
    case True
    then have "mhashbits m \<noteq> 0 \<Longrightarrow> entries m = {}"
      using inv by (auto simp: map_inv_def table_ok_def entries_def)
    moreover have "psl_below b ?N" by (simp add: psl_below_def empty_table_def list_all_iff)
    ultimately show ?thesis using True N by (auto simp: r_def)
  next
    case False
    then have t: "table_ok m" and h0: "mhashbits m \<noteq> 0" using inv by (auto simp: map_inv_def table_ok_def map_table_def)
    have fr: "map_table ?m = map_table m" "keys_distinct ?m = keys_distinct m" "occupied ?m = occupied m"
      "entry_at ?m = entry_at m"
      by (auto simp: map_table_def keys_distinct_def occupied_def entry_at_def fun_eq_iff map_index_def next_slot_def)
    have fr2: "table_ok ?m = table_ok m" "entries ?m = entries m" "psl_below b ?m = psl_below b m"
      by (simp_all add: fr table_ok_def entries_alt psl_below_def)
    have "msize m < slots m" using t by (simp add: table_ok_def)
    also have "\<dots> < 2 ^ hb" using hb h0 by simp
    finally have "msize m < 2 ^ hb" .
    moreover have "occupied m \<inter> set [0..<slots m] = occupied m" by (auto simp: occupied_def)
    moreover have "map_table m" "keys_distinct m" "card (occupied m) = msize m" using t by (simp_all add: table_ok_def)
    moreover have "\<exists>N'. rehash [0..<slots m] ?m ?N = Some N' \<and> table_ok N' \<and>
        entries N' = entries ?N \<union> entry_at ?m ` (occupied ?m \<inter> set [0..<slots m]) \<and>
        msize N' = msize ?N + card (occupied ?m \<inter> set [0..<slots m]) \<and>
        mhashbits N' = mhashbits ?N \<and> mseed N' = mseed ?N"
      by (rule rehash_correct [where b = b])
        (use t N psl hb(2) [OF h0] calculation in \<open>simp_all only: fr fr2\<close>, simp_all)
    ultimately obtain N' where N': "rehash [0..<slots m] ?m ?N = Some N'" "table_ok N'" "entries N' = entry_at m ` occupied m"
      "msize N' = msize m" "mhashbits N' = hb" "mseed N' = mseed m"
      using N unfolding fr by auto
    have en: "entries N' = entries m" using N'(3) by (simp only: entries_alt [of m])
    then have "psl_below b N'"
      using double_psl_below [OF t N'(2) _ N'(6) _ psl(1)] N'(5) hb(2) [OF h0] by simp
    then show ?thesis using h0 False N' en by (simp add: r_def)
  qed
  then obtain N' where r: "r = Some N'" "table_ok N'" "mhashbits N' = hb" "mseed N' = mseed m" "msize N' = msize m"
    "if mhashbits m = 0 then entries N' = {} else entries N' = entries m" "psl_below b N'" by blast
  let ?r = "?m\<lparr>mkeys := mkeys N', mdata := mdata N', mpsl := mpsl N', mhashbits := hb\<rparr>"
  have "table_ok ?r = table_ok N'" "entries ?r = entries N'" "psl_below b ?r = psl_below b N'"
    using r by (simp_all add: table_ok_def map_table_def keys_distinct_def occupied_def entries_def map_index_def
        next_slot_def psl_below_def)
  then show ?thesis using eq a r by auto
qed

section \<open>The table as a finite map\<close>

lemma occupied_list: "length (mpsl m) = slots m \<Longrightarrow> set (filter (\<lambda>i. mpsl m ! i \<noteq> 0) [0..<length (mpsl m)]) = occupied m"
  by (auto simp: occupied_def)

lemma map_abs_entries:
  assumes "table_ok m"
  shows "map_abs m k = Some d \<longleftrightarrow> (k, Some d) \<in> entries m"
proof -
  let ?is = "filter (\<lambda>i. mpsl m ! i \<noteq> 0) [0..<length (mpsl m)]"
  have m: "map_table m" "keys_distinct m" using assms by (simp_all add: table_ok_def)
  then have s: "set ?is = occupied m" by (intro occupied_list) (simp add: map_table_def)
  have "distinct (map (\<lambda>i. mkeys m ! i) ?is)"
    using m(2) s unfolding distinct_map keys_distinct_def by simp
  then have "map_abs m k = Some d \<longleftrightarrow> (\<exists>i \<in> occupied m. k = mkeys m ! i \<and> d = the (mdata m ! i))"
    unfolding map_abs_def s [symmetric] by (subst map_of_eq_Some_iff) (auto simp: comp_def)
  moreover have "i \<in> occupied m \<Longrightarrow> d = the (mdata m ! i) \<longleftrightarrow> Some d = mdata m ! i" for i
    using m(1) by (auto simp: map_table_def)
  ultimately show ?thesis by (auto simp: entries_def image_iff)
qed

lemma map_abs_zero [simp]: "mpsl m = [] \<Longrightarrow> map_abs m = Map.empty"
  by (simp add: map_abs_def)

lemma map_abs_eqI:
  assumes "table_ok m" "\<And>k d. f k = Some d \<longleftrightarrow> (k, Some d) \<in> entries m"
  shows "map_abs m = f"
proof
  fix k
  have "map_abs m k = Some d \<longleftrightarrow> f k = Some d" for d
    using map_abs_entries [OF assms(1)] assms(2) by simp
  then show "map_abs m k = f k" by (metis option.exhaust)
qed

lemma entries_some: "table_ok m \<Longrightarrow> (k, x) \<in> entries m \<Longrightarrow> \<exists>d. x = Some d"
  by (auto simp: entries_def table_ok_def map_table_def)

lemma map_abs_key:
  assumes "table_ok m"
  shows "map_abs m k = None \<longleftrightarrow> (\<forall>j \<in> occupied m. mkeys m ! j \<noteq> k)"
proof -
  have "map_abs m k \<noteq> None \<longleftrightarrow> k \<in> fst ` entries m"
    using map_abs_entries [OF assms] entries_some [OF assms] by (force simp: image_iff)
  then show ?thesis using key_in_entries [of m k] by blast
qed

lemma map_abs_same: "table_ok m \<Longrightarrow> table_ok m' \<Longrightarrow> entries m' = entries m \<Longrightarrow> map_abs m' = map_abs m"
  by (rule map_abs_eqI) (simp_all add: map_abs_entries)

lemma map_abs_inserted:
  assumes "table_ok m" "table_ok m'" "inserted m key (Some d) j m'" "map_abs m key = None"
  shows "map_abs m' = (map_abs m)(key \<mapsto> d)"
proof (rule map_abs_eqI [OF assms(2)])
  fix k x
  have "(key, Some y) \<notin> entries m" for y using map_abs_entries [OF assms(1), of key y] assms(4) by simp
  then show "((map_abs m)(key \<mapsto> d)) k = Some x \<longleftrightarrow> (k, Some x) \<in> entries m'"
    using assms(3) map_abs_entries [OF assms(1), of k x] by (auto simp: inserted_def)
qed

lemma find_loop_abs:
  assumes "table_ok m"
  shows "map_abs m key = (case map_find_loop (map_index m key) 1 key m of None \<Rightarrow> None | Some j \<Rightarrow> mdata m ! j)"
    and "map_find_loop (map_index m key) 1 key m = Some j \<Longrightarrow> j \<in> occupied m \<and> mkeys m ! j = key"
proof -
  have m: "map_table m" "keys_distinct m" using assms by (simp_all add: table_ok_def)
  have i: "map_index m key < slots m" by (rule map_index_lt [OF m(1)])
  have "(\<exists>j \<in> occupied m. mkeys m ! j = key \<and> map_find_loop (map_index m key) 1 key m = Some j) \<or>
    map_abs m key = None \<and> map_find_loop (map_index m key) 1 key m = None"
  proof (cases "map_abs m key")
    case None
    then show ?thesis using map_abs_key [OF assms] find_loop_absent [OF m(1) _ i] by auto
  next
    case (Some d)
    then obtain j where j: "j \<in> occupied m" "mkeys m ! j = key" using map_abs_key [OF assms, of key] by auto
    then show ?thesis using find_loop_present [OF m(1) j m(2) i] i by auto
  qed
  note r = this
  then show "map_find_loop (map_index m key) 1 key m = Some j \<Longrightarrow> j \<in> occupied m \<and> mkeys m ! j = key" by auto
  have "map_abs m key = mdata m ! i" if "i \<in> occupied m" "mkeys m ! i = key" for i
  proof -
    have e: "(key, mdata m ! i) \<in> entries m" using that by (auto simp: entries_def)
    then obtain d where "mdata m ! i = Some d" using entries_some [OF assms] by blast
    then show ?thesis using e map_abs_entries [OF assms, of key d] by simp
  qed
  then show "map_abs m key = (case map_find_loop (map_index m key) 1 key m of None \<Rightarrow> None | Some j \<Rightarrow> mdata m ! j)"
    using r by auto
qed

lemma map_size_dom:
  assumes "map_inv m"
  shows "msize m = card (dom (map_abs m))"
proof (cases "table_ok m")
  case True
  have "k \<in> dom (map_abs m) \<longleftrightarrow> k \<in> (!) (mkeys m) ` occupied m" for k
    using map_abs_key [OF True, of k] by (auto simp: domIff image_iff)
  then have "dom (map_abs m) = (!) (mkeys m) ` occupied m" by blast
  then show ?thesis using True by (simp add: card_image table_ok_def keys_distinct_def)
next
  case False
  then show ?thesis using assms by (simp add: map_inv_def)
qed

lemma find_result:
  assumes "map_inv m"
  shows "nghttp2_map_find m key = map_abs m key"
proof (cases "msize m = 0")
  case True
  then have "mpsl m = [] \<or> table_ok m \<and> occupied m = {}" using assms by (auto simp: map_inv_def table_ok_def)
  then have "map_abs m key = None" using map_abs_key [of m key] by auto
  then show ?thesis using True by (simp add: nghttp2_map_find_def)
next
  case False
  then have "table_ok m" using assms by (auto simp: map_inv_def)
  then show ?thesis using False find_loop_abs(1) [of m key] by (simp add: nghttp2_map_find_def)
qed


lemma map_inv_zero: "map_inv m \<Longrightarrow> mhashbits m = 0 \<Longrightarrow> mpsl m = [] \<and> msize m = 0"
  by (auto simp: map_inv_def table_ok_def map_table_def)

lemma map_insert_step:
  assumes t: "table_ok m" and psl: "psl_below b m" "b \<le> 254" and size: "msize m + 1 < slots m"
  shows "if map_abs m key = None
    then \<exists>j m'. map_insert key (Some d) m = Some (Inr j, m') \<and> table_ok m' \<and> mhashbits m' = mhashbits m \<and>
      msize m' = msize m + 1 \<and> mmem m' = mmem m \<and> map_abs m' = (map_abs m)(key \<mapsto> d) \<and>
      psl_below (b + 1) m' \<and> psl_at m' j = landing_psl m key
    else map_insert key (Some d) m = Some (Inl ERR_INVALID_ARGUMENT, m)"
proof (cases "map_abs m key")
  case None
  obtain j m' where r: "map_insert key (Some d) m = Some (Inr j, m')" "inserted m key (Some d) j m'"
    "psl_below (b + 1) m'" "psl_at m' j = landing_psl m key"
    using map_insert_new [OF t psl, of key "Some d"] None map_abs_key [OF t, of key] by auto
  have t': "table_ok m'" by (rule inserted_ok [OF r(2) t size])
  show ?thesis using r t' None map_abs_inserted [OF t t' r(2) None] by (simp add: inserted_def)
next
  case (Some x)
  then obtain j where "j \<in> occupied m" "mkeys m ! j = key" using map_abs_key [OF t, of key] by auto
  then show ?thesis using Some map_insert_dup t by (auto simp: table_ok_def)
qed

text \<open>Whether a table can grow: the allocator gives memory, and the table has fewer than \<open>2 ^ 63\<close> slots.\<close>

definition can_grow :: "'a nghttp2_map \<Rightarrow> bool" where
  "can_grow m \<longleftrightarrow> fst (mem_alloc (mmem m)) \<and> mhashbits m < NGHTTP2_MAP_MAX_HASHBITS"

definition grown_bits :: "'a nghttp2_map \<Rightarrow> nat" where
  "grown_bits m = (if mhashbits m = 0 then 4 else mhashbits m + 1)"

lemma map_resize_abs:
  assumes inv: "map_inv m" and psl: "psl_below b m" "b \<le> 254"
  shows "\<exists>m'. map_resize (grown_bits m) m = Some (if can_grow m then Inr () else Inl ERR_NOMEM, m') \<and>
    map_inv m' \<and> map_abs m' = map_abs m \<and> msize m' = msize m \<and> psl_below b m' \<and>
    (if can_grow m then table_ok m' \<and> mhashbits m' = grown_bits m else mhashbits m' = mhashbits m)"
proof (cases "NGHTTP2_MAP_MAX_HASHBITS < grown_bits m")
  case True
  then have "\<not> can_grow m"
    by (auto simp: can_grow_def grown_bits_def NGHTTP2_MAP_MAX_HASHBITS_def split: if_splits)
  then show ?thesis using True inv psl by (simp add: map_resize_def)
next
  case False
  then have hm: "grown_bits m \<le> NGHTTP2_MAP_MAX_HASHBITS" by simp
  let ?ok = "fst (mem_alloc (mmem m))"
  have ok: "can_grow m = ?ok"
    using hm by (auto simp: can_grow_def grown_bits_def NGHTTP2_MAP_MAX_HASHBITS_def split: if_splits)
  obtain m' where m': "map_resize (grown_bits m) m = Some (if ?ok then Inr () else Inl ERR_NOMEM, m')" "msize m' = msize m"
    "if ?ok then table_ok m' \<and> mhashbits m' = grown_bits m \<and>
       (if mhashbits m = 0 then entries m' = {} else entries m' = entries m) \<and> psl_below b m'
     else m' = m\<lparr>mmem := snd (mem_alloc (mmem m))\<rparr>"
  proof -
    have h: "0 < grown_bits m" "mhashbits m \<noteq> 0 \<Longrightarrow> grown_bits m = mhashbits m + 1" by (simp_all add: grown_bits_def)
    show ?thesis using map_resize_correct [OF inv h hm psl] that by blast
  qed
  show ?thesis
  proof (cases ?ok)
    case True
    have "map_abs m' = map_abs m"
    proof (cases "mhashbits m = 0")
      case True
      then show ?thesis using m' \<open>?ok\<close> map_inv_zero [OF inv] by (intro map_abs_eqI) auto
    next
      case False
      then have "table_ok m" using inv by (simp add: map_inv_def)
      then show ?thesis using m' \<open>?ok\<close> False by (intro map_abs_same) auto
    qed
    then show ?thesis using m' True ok by (simp add: map_inv_def)
  next
    case False
    let ?r = "m\<lparr>mmem := snd (mem_alloc (mmem m))\<rparr>"
    have "map_inv ?r" "map_abs ?r = map_abs m" "psl_below b ?r"
      using inv psl by (simp_all add: map_inv_def table_ok_def map_table_def keys_distinct_def occupied_def
          map_index_def next_slot_def map_abs_def psl_below_def)
    then show ?thesis using m' False ok by simp
  qed
qed

text \<open>Too full for one more entry, and too long a probe.\<close>

definition crowded :: "'a nghttp2_map \<Rightarrow> bool" where
  "crowded m \<longleftrightarrow> 7 * slots m \<le> 8 * (msize m + 1)"

definition far_probe :: "'a nghttp2_map \<Rightarrow> int \<Rightarrow> bool" where
  "far_probe m key \<longleftrightarrow> 128 < landing_psl m key"

text \<open>What an insertion reports, and the number of slots it leaves (as a power of two).\<close>

definition insert_report :: "'a nghttp2_map \<Rightarrow> int \<Rightarrow> unit res" where
  "insert_report m key =
     (if crowded m \<and> \<not> can_grow m then Inl ERR_NOMEM
      else if map_abs m key \<noteq> None then Inl ERR_INVALID_ARGUMENT
      else if \<not> crowded m \<and> far_probe m key \<and> \<not> can_grow m then Inl ERR_NOMEM
      else Inr ())"

definition insert_bits :: "'a nghttp2_map \<Rightarrow> int \<Rightarrow> nat" where
  "insert_bits m key =
     (if can_grow m \<and> (crowded m \<or> map_abs m key = None \<and> far_probe m key) then grown_bits m
      else mhashbits m)"

lemma seven_eighths: "n = 8 * x \<Longrightarrow> n - n div 8 \<le> k \<longleftrightarrow> 7 * n \<le> 8 * (k :: nat)"
  by auto

lemma crowded_iff: "slots m - slots m div 8 \<le> msize m + 1 \<longleftrightarrow> crowded m"
proof (cases "mhashbits m < 3")
  case True
  then consider "mhashbits m = 0" | "mhashbits m = 1" | "mhashbits m = 2" by linarith
  then show ?thesis by cases (auto simp: crowded_def)
next
  case False
  then have "slots m = 2 ^ 3 * 2 ^ (mhashbits m - 3)" by (metis le_add_diff_inverse not_less power_add)
  then have "slots m = 8 * 2 ^ (mhashbits m - 3)" by simp
  then show ?thesis unfolding crowded_def by (rule seven_eighths)
qed

lemma grown_bits_alt: "(if mhashbits m \<noteq> 0 then mhashbits m + 1 else NGHTTP2_INITIAL_HASHBITS) = grown_bits m"
  by (simp add: grown_bits_def NGHTTP2_INITIAL_HASHBITS_def)

lemma nghttp2_map_insert_alt:
  "nghttp2_map_insert key d m =
     (if crowded m then
        (case map_resize (grown_bits m) m of
           None \<Rightarrow> None
         | Some (Inl e, m1) \<Rightarrow> Some (Inl e, m1)
         | Some (Inr _, m1) \<Rightarrow>
             (case map_insert key (Some d) m1 of
                None \<Rightarrow> None
              | Some (Inl e, m2) \<Rightarrow> Some (Inl e, m2)
              | Some (Inr _, m2) \<Rightarrow> Some (Inr (), m2)))
      else
        (case map_insert key (Some d) m of
           None \<Rightarrow> None
         | Some (Inl e, m1) \<Rightarrow> Some (Inl e, m1)
         | Some (Inr j, m1) \<Rightarrow>
             if psl_at m1 j - 1 < 128 then Some (Inr (), m1) else map_resize (mhashbits m1 + 1) m1))"
  unfolding nghttp2_map_insert_def Let_def crowded_iff grown_bits_alt NGHTTP2_MAX_PSL_RESIZE_THRESH_def ..

lemma crowded_fits:
  assumes "map_inv m" "\<not> crowded m"
  shows "table_ok m" "msize m + 1 < slots m" "mhashbits m \<noteq> 0"
proof -
  show s: "msize m + 1 < slots m" using assms(2) by (simp add: crowded_def)
  show "table_ok m" using assms(1) s by (auto simp: map_inv_def)
  then show "mhashbits m \<noteq> 0" by (simp add: table_ok_def map_table_def)
qed

lemma insert_crowded:
  assumes inv: "map_inv m" and psl: "psl_below b m" "b \<le> 254" and c: "crowded m"
  shows "\<exists>m'. nghttp2_map_insert key d m = Some (insert_report m key, m') \<and> map_inv m' \<and> psl_below (b + 1) m' \<and>
    mhashbits m' = insert_bits m key \<and>
    map_abs m' = (if insert_report m key = Inr () then (map_abs m)(key \<mapsto> d) else map_abs m)"
proof -
  obtain m1 where r: "map_resize (grown_bits m) m = Some (if can_grow m then Inr () else Inl ERR_NOMEM, m1)"
    "map_inv m1" "map_abs m1 = map_abs m" "msize m1 = msize m" "psl_below b m1"
    "if can_grow m then table_ok m1 \<and> mhashbits m1 = grown_bits m else mhashbits m1 = mhashbits m"
    using map_resize_abs [OF inv psl] by blast
  have pb: "psl_below (b + 1) m1" by (rule psl_below_mono [OF r(5)]) simp
  show ?thesis
  proof (cases "can_grow m")
    case False
    then show ?thesis using r pb c by (simp add: nghttp2_map_insert_alt insert_report_def insert_bits_def)
  next
    case True
    then have t: "table_ok m1" "mhashbits m1 = grown_bits m" using r(6) by auto
    have "msize m + 1 < slots m1"
    proof (cases "mhashbits m = 0")
      case True
      then show ?thesis using t map_inv_zero [OF inv] by (simp add: grown_bits_def)
    next
      case False
      then have "msize m < slots m" using inv by (simp add: map_inv_def table_ok_def)
      then show ?thesis using t False by (simp add: grown_bits_def)
    qed
    then have step: "if map_abs m key = None
      then \<exists>j m'. map_insert key (Some d) m1 = Some (Inr j, m') \<and> table_ok m' \<and> mhashbits m' = mhashbits m1 \<and>
        msize m' = msize m + 1 \<and> mmem m' = mmem m1 \<and> map_abs m' = (map_abs m)(key \<mapsto> d) \<and>
        psl_below (b + 1) m' \<and> psl_at m' j = landing_psl m1 key
      else map_insert key (Some d) m1 = Some (Inl ERR_INVALID_ARGUMENT, m1)"
      by (rule map_insert_step [OF t(1) r(5) psl(2), of key d, unfolded r(3,4)])
    show ?thesis
      using step r pb t True c
      by (auto simp: nghttp2_map_insert_alt insert_report_def insert_bits_def map_inv_def split: if_splits)
  qed
qed

lemma insert_roomy:
  assumes inv: "map_inv m" and psl: "psl_below b m" "b \<le> 253" and c: "\<not> crowded m"
  shows "\<exists>m'. nghttp2_map_insert key d m = Some (insert_report m key, m') \<and> map_inv m' \<and> psl_below (b + 1) m' \<and>
    mhashbits m' = insert_bits m key \<and>
    map_abs m' = (if map_abs m key = None then (map_abs m)(key \<mapsto> d) else map_abs m)"
proof -
  note t = crowded_fits [OF inv c]
  have b: "b \<le> 254" "b + 1 \<le> 254" using psl(2) by simp_all
  have eq: "nghttp2_map_insert key d m =
      (case map_insert key (Some d) m of None \<Rightarrow> None
       | Some (Inl e, m1) \<Rightarrow> Some (Inl e, m1)
       | Some (Inr j, m1) \<Rightarrow>
           if psl_at m1 j - 1 < 128 then Some (Inr (), m1) else map_resize (mhashbits m1 + 1) m1)"
    using c by (simp add: nghttp2_map_insert_alt)
  show ?thesis
  proof (cases "map_abs m key")
    case (Some x)
    then have "map_insert key (Some d) m = Some (Inl ERR_INVALID_ARGUMENT, m)"
      using map_insert_step [OF t(1) psl(1) b(1) t(2), of key d] by simp
    then show ?thesis unfolding eq
      using Some inv psl_below_mono [OF psl(1), of "b + 1"] c by (simp add: insert_report_def insert_bits_def)
  next
    case None
    then obtain j m1 where m1: "map_insert key (Some d) m = Some (Inr j, m1)" "table_ok m1" "mhashbits m1 = mhashbits m"
      "mmem m1 = mmem m" "map_abs m1 = (map_abs m)(key \<mapsto> d)" "psl_below (b + 1) m1" "psl_at m1 j = landing_psl m key"
      using map_insert_step [OF t(1) psl(1) b(1) t(2), of key d] by auto
    have inv1: "map_inv m1" using m1(2) by (simp add: map_inv_def)
    have far: "psl_at m1 j - 1 < 128 \<longleftrightarrow> \<not> far_probe m key" using m1(7) by (auto simp: far_probe_def)
    have grow: "can_grow m1 = can_grow m" "grown_bits m1 = grown_bits m" "grown_bits m1 = mhashbits m1 + 1"
      using m1(3,4) t(3) by (simp_all add: can_grow_def grown_bits_def)
    show ?thesis
    proof (cases "far_probe m key")
      case False
      then show ?thesis unfolding eq using m1 inv1 far None c by (simp add: insert_report_def insert_bits_def)
    next
      case True
      then have "nghttp2_map_insert key d m = map_resize (grown_bits m1) m1"
        unfolding eq using m1(1) far grow(3) by simp
      then show ?thesis
        using map_resize_abs [OF inv1 m1(6) b(2)] True None c grow m1(3,5)
        by (auto simp: insert_report_def insert_bits_def split: if_splits)
    qed
  qed
qed

text \<open>
  The contents after an insertion. When the table is too full and cannot grow nothing is stored;
  when it cannot grow after a long probe the entry is stored although an error is reported.
\<close>

definition insert_contents :: "'a nghttp2_map \<Rightarrow> int \<Rightarrow> 'a \<Rightarrow> int \<rightharpoonup> 'a" where
  "insert_contents m key d =
     (if map_abs m key \<noteq> None \<or> crowded m \<and> \<not> can_grow m then map_abs m else (map_abs m)(key \<mapsto> d))"

lemma insert_result:
  assumes inv: "map_inv m" and psl: "psl_below b m" "b \<le> 253"
  shows "\<exists>m'. nghttp2_map_insert key d m = Some (insert_report m key, m') \<and> map_inv m' \<and>
    map_abs m' = insert_contents m key d \<and> mhashbits m' = insert_bits m key \<and> psl_below (b + 1) m'"
proof (cases "crowded m")
  case True
  obtain m' where "nghttp2_map_insert key d m = Some (insert_report m key, m')" "map_inv m'" "psl_below (b + 1) m'"
    "mhashbits m' = insert_bits m key"
    "map_abs m' = (if insert_report m key = Inr () then (map_abs m)(key \<mapsto> d) else map_abs m)"
    using insert_crowded [OF inv psl(1) _ True, of key d] psl(2) by auto
  moreover have "insert_report m key = Inr () \<longleftrightarrow> can_grow m \<and> map_abs m key = None"
    using True by (simp add: insert_report_def)
  ultimately show ?thesis using True by (auto simp: insert_contents_def)
next
  case False
  then show ?thesis using insert_roomy [OF inv psl False, of key d] by (auto simp: insert_contents_def)
qed

lemma size_psl_below:
  assumes "map_inv m" "nghttp2_map_size m \<le> b"
  shows "psl_below b m"
proof (cases "table_ok m")
  case True
  then have m: "map_table m" "card (occupied m) \<le> b" using assms(2) by (simp_all add: table_ok_def nghttp2_map_size_def)
  then show ?thesis using psl_le_size [OF m(1)] le_trans unfolding psl_below_table [OF m(1)] by blast
next
  case False
  then show ?thesis using assms(1) by (simp add: map_inv_def psl_below_def)
qed

lemma insert_success:
  assumes "map_inv m" "psl_below 253 m" "nghttp2_map_insert k d m = Some (Inr (), m')"
  shows "map_inv m' \<and> map_abs m k = None \<and> map_abs m' = (map_abs m)(k \<mapsto> d)"
proof -
  have "insert_report m k = Inr ()" "map_inv m'" "map_abs m' = insert_contents m k d"
    using insert_result [OF assms(1,2), of k d] assms(3) by auto
  then show ?thesis by (auto simp: insert_report_def insert_contents_def split: if_splits)
qed

lemma remove_result:
  assumes inv: "map_inv m"
  shows "case map_abs m key of
      None \<Rightarrow> nghttp2_map_remove key m = Some (Inl ERR_INVALID_ARGUMENT, m)
    | Some d \<Rightarrow> \<exists>m'. nghttp2_map_remove key m = Some (Inr (), m') \<and> map_inv m' \<and>
        map_abs m' = (map_abs m)(key := None) \<and> msize m' = msize m - 1"
proof (cases "msize m = 0")
  case True
  then have "map_abs m key = None" using find_result [OF inv, of key] by (simp add: nghttp2_map_find_def)
  then show ?thesis using True by (simp add: nghttp2_map_remove_def)
next
  case False
  then have t: "table_ok m" using inv by (auto simp: map_inv_def)
  note f = find_loop_abs [OF t, of key]
  show ?thesis
  proof (cases "map_find_loop (map_index m key) 1 key m")
    case None
    then show ?thesis using False f(1) by (simp add: nghttp2_map_remove_def)
  next
    case (Some j)
    then have j: "j \<in> occupied m" "mkeys m ! j = key" and a: "map_abs m key = mdata m ! j"
      using f by auto
    have m: "map_table m" "keys_distinct m" using t by (simp_all add: table_ok_def)
    obtain d where d: "mdata m ! j = Some d" using m(1) j(1) by (auto simp: map_table_def)
    obtain e where e: "e < slots m" "psl_at m e = 0" by (rule table_ok_empty_slot [OF t])
    have "hole_table j m"
      using m j by (auto simp: hole_table_def map_table_def keys_distinct_def inj_on_def)
    then obtain m' where s: "map_shift_loop j (next_slot m j) m = Some m'" "removed j m m'"
      using shift_loop_correct [OF _ e] by blast
    let ?r = "m'\<lparr>msize := msize m' - 1\<rparr>"
    have fr: "map_table ?r = map_table m'" "keys_distinct ?r = keys_distinct m'" "occupied ?r = occupied m'"
      "entries ?r = entries m'" "slots ?r = slots m'"
      by (simp_all add: map_table_def keys_distinct_def occupied_def entries_def map_index_def next_slot_def)
    have "card (occupied m') = msize m - 1" using s(2) t by (auto simp: removed_def table_ok_def)
    then have t': "table_ok ?r" using s(2) t unfolding table_ok_def fr by (auto simp: removed_def)
    have "map_abs ?r = (map_abs m)(key := None)"
    proof (rule map_abs_eqI [OF t'])
      fix k x
      have "i \<noteq> j \<longleftrightarrow> mkeys m ! i \<noteq> key" if "i \<in> occupied m" for i
        using keys_distinctD [OF m(2) _ that j(1)] j(2) by auto
      then have "hole_entries j m = {e \<in> entries m. fst e \<noteq> key}"
        unfolding hole_entries_def entries_def by auto
      then have "(k, Some x) \<in> entries ?r \<longleftrightarrow> (k, Some x) \<in> entries m \<and> k \<noteq> key"
        using s(2) unfolding fr removed_def by simp
      then show "((map_abs m)(key := None)) k = Some x \<longleftrightarrow> (k, Some x) \<in> entries ?r"
        using map_abs_entries [OF t, of k x] by auto
    qed
    moreover have "nghttp2_map_remove key m = Some (Inr (), ?r)"
      using False Some s(1) by (simp add: nghttp2_map_remove_def)
    ultimately show ?thesis using a d t' s(2) by (simp add: map_inv_def removed_def)
  qed
qed

lemma find_fun: "map_inv m \<Longrightarrow> nghttp2_map_find m = map_abs m"
  by (simp add: find_result fun_eq_iff)

section \<open>The interface of the table\<close>

text \<open>
  What the session relies on: a table with a contents function, and operations that return and
  act on the contents as on a finite map. \<open>room\<close> says that the counters leave room for one more
  entry.
\<close>

locale object_table =
  fixes find :: "'m \<Rightarrow> int \<Rightarrow> 'a option"
    and insert_op :: "int \<Rightarrow> 'a \<Rightarrow> 'm \<Rightarrow> (unit res \<times> 'm) option"
    and remove_op :: "int \<Rightarrow> 'm \<Rightarrow> (unit res \<times> 'm) option"
    and tinv :: "'m \<Rightarrow> bool" and room :: "'m \<Rightarrow> bool"
  assumes insert_law: "tinv m \<Longrightarrow> room m \<Longrightarrow> insert_op k d m = Some (Inr (), m') \<Longrightarrow>
      tinv m' \<and> find m k = None \<and> find m' = (find m)(k \<mapsto> d)"
    and remove_law: "tinv m \<Longrightarrow> find m k \<noteq> None \<Longrightarrow>
      \<exists>m'. remove_op k m = Some (Inr (), m') \<and> tinv m' \<and> find m' = (find m)(k := None)"
begin

text \<open>Removing what was inserted restores the table.\<close>

lemma insert_remove:
  assumes "tinv m" "room m" "insert_op k d m = Some (Inr (), m1)"
  shows "\<exists>m2. remove_op k m1 = Some (Inr (), m2) \<and> tinv m2 \<and> find m2 = find m"
proof -
  have i: "tinv m1" "find m k = None" "find m1 = (find m)(k \<mapsto> d)" using insert_law [OF assms] by auto
  then obtain m2 where "remove_op k m1 = Some (Inr (), m2)" "tinv m2" "find m2 = (find m1)(k := None)"
    using remove_law [of m1 k] by auto
  then show ?thesis using i by (simp add: fun_upd_idem)
qed

text \<open>Operations on one key do not disturb another.\<close>

lemma insert_remove_other:
  assumes "tinv m" "room m" "insert_op k d m = Some (Inr (), m1)" "find m k' \<noteq> None"
  shows "\<exists>m2. remove_op k' m1 = Some (Inr (), m2) \<and> find m2 k = Some d"
proof -
  have i: "tinv m1" "find m k = None" "find m1 = (find m)(k \<mapsto> d)" using insert_law [OF assms(1-3)] by auto
  then have "find m1 k' \<noteq> None" using assms(4) by auto
  then obtain m2 where "remove_op k' m1 = Some (Inr (), m2)" "find m2 = (find m1)(k' := None)"
    using remove_law [OF i(1)] by blast
  then show ?thesis using i assms(4) by auto
qed

end

interpretation stream_map: object_table nghttp2_map_find nghttp2_map_insert nghttp2_map_remove map_inv
  "psl_below 253"
proof
  fix m m' :: "'a nghttp2_map" and k d
  assume a: "map_inv m" "psl_below 253 m" "nghttp2_map_insert k d m = Some (Inr (), m')"
  note r = insert_success [OF a]
  have "nghttp2_map_find m' = map_abs m'" "nghttp2_map_find m = map_abs m"
    using r a(1) by (simp_all add: find_fun)
  then show "map_inv m' \<and> nghttp2_map_find m k = None \<and> nghttp2_map_find m' = (nghttp2_map_find m)(k \<mapsto> d)"
    using r by simp
next
  fix m :: "'a nghttp2_map" and k
  assume a: "map_inv m" "nghttp2_map_find m k \<noteq> None"
  obtain m' where "nghttp2_map_remove k m = Some (Inr (), m')" "map_inv m'" "map_abs m' = (map_abs m)(k := None)"
    using remove_result [OF a(1), of k] a(2) find_fun [OF a(1)] by auto
  moreover from this have "nghttp2_map_find m' = (nghttp2_map_find m)(k := None)"
    using find_fun [of m] find_fun [of m'] a(1) by simp
  ultimately show "\<exists>m'. nghttp2_map_remove k m = Some (Inr (), m') \<and> map_inv m' \<and>
      nghttp2_map_find m' = (nghttp2_map_find m)(k := None)" by blast
qed

section \<open>The properties of the table\<close>

lemma map_init_inv [simp]: "map_inv (nghttp2_map_init seed mem)" "map_abs (nghttp2_map_init seed mem) = Map.empty"
  by (simp_all add: map_inv_def nghttp2_map_init_def map_abs_def)

lemma map_init_insert [simp]:
  "psl_below b (nghttp2_map_init seed mem)" "crowded (nghttp2_map_init seed mem)"
  "can_grow (nghttp2_map_init seed [])" "grown_bits (nghttp2_map_init seed mem) = 4"
  by (simp_all add: psl_below_def crowded_def can_grow_def grown_bits_def nghttp2_map_init_def
      NGHTTP2_MAP_MAX_HASHBITS_def)

lemma first_insert:
  "\<exists>m. nghttp2_map_insert key d (nghttp2_map_init seed []) = Some (Inr (), m) \<and> map_inv m \<and> map_abs m = [key \<mapsto> d]"
  using insert_result [of "nghttp2_map_init seed []" 0 key d] by (auto simp: insert_report_def insert_contents_def)

text \<open>
  C29. Looking a key up by probing from its home slot, and giving up at the first slot that is
  closer to its home than the probe is, returns the object stored under the key, for every table
  that keeps the invariant, the table that was never filled included.
\<close>

theorem map_find_correct:
  assumes "map_inv m"
  shows "nghttp2_map_find m key = map_abs m key"
  by (rule find_result [OF assms])

theorem map_find_correct_witness:
  "\<exists>m :: string nghttp2_map. map_inv m \<and> nghttp2_map_find m 3 = Some ''x'' \<and> nghttp2_map_find m 5 = None"
proof -
  obtain m where "map_inv m" "map_abs m = [3 \<mapsto> ''x'']" using first_insert [of 3 "''x''" 7] by blast
  then show ?thesis using map_find_correct [of m 3] map_find_correct [of m 5] by auto
qed

text \<open>
  C28. An insertion returns and keeps the invariant, and its report, its effect on the contents and
  the number of slots it leaves are exactly these. A table that reaches the load 7/8 must grow
  first: when it cannot (the allocator fails, or there are \<open>2 ^ 63\<close> slots) the report is NOMEM
  and nothing is stored. Otherwise a key in use gives INVALID_ARGUMENT and leaves the contents,
  and a new key is bound to the object. When the table had not grown and the entry that ends the
  chain of displacements is more than 127 slots from its home, the table grows afterwards; if it
  cannot, the report is NOMEM although the entry is stored. No probe counter grows by more than
  one, also when the table is doubled. The counters are single bytes, and the theorem is stated
  for tables where they are at most 253; a table with at most 253 entries is always one
  (\<open>size_psl_below\<close>).
\<close>

theorem map_insert_correct:
  assumes "map_inv m" "psl_below b m" "b \<le> 253"
  shows "\<exists>m'. nghttp2_map_insert key d m = Some (insert_report m key, m') \<and> map_inv m' \<and>
    map_abs m' = insert_contents m key d \<and> mhashbits m' = insert_bits m key \<and> psl_below (b + 1) m'"
  by (rule insert_result [OF assms])

theorem map_insert_correct_witness:
  "(\<exists>m. nghttp2_map_insert 3 ''x'' (nghttp2_map_init 7 []) = Some (Inr (), m) \<and> map_inv m \<and>
    map_abs m = [3 \<mapsto> ''x''] \<and> mhashbits m = 4 \<and> psl_below 1 m) \<and>
   (\<exists>m. nghttp2_map_insert 3 ''x'' (nghttp2_map_init 7 [False]) = Some (Inl ERR_NOMEM, m) \<and>
    map_abs m = Map.empty)"
proof -
  have "\<not> can_grow (nghttp2_map_init 7 [False])" by (simp add: can_grow_def nghttp2_map_init_def)
  then show ?thesis
    using map_insert_correct [of "nghttp2_map_init 7 []" 0 3 "''x''"]
      map_insert_correct [of "nghttp2_map_init 7 [False]" 0 3 "''x''"]
    by (auto simp: insert_report_def insert_contents_def insert_bits_def)
qed

text \<open>
  C30. Removing a key with the backward shift returns: it deletes exactly that key and keeps the
  invariant when the key is in use, and reports the invalid argument error otherwise. The size
  of the table is the number of its keys.
\<close>

theorem map_remove_correct:
  assumes "map_inv m"
  shows "(case map_abs m key of
      None \<Rightarrow> nghttp2_map_remove key m = Some (Inl ERR_INVALID_ARGUMENT, m)
    | Some d \<Rightarrow> \<exists>m'. nghttp2_map_remove key m = Some (Inr (), m') \<and> map_inv m' \<and>
        map_abs m' = (map_abs m)(key := None) \<and> nghttp2_map_size m' = nghttp2_map_size m - 1) \<and>
    nghttp2_map_size m = card (dom (map_abs m))"
  using remove_result [OF assms] map_size_dom [OF assms] unfolding nghttp2_map_size_def by blast

theorem map_remove_correct_witness:
  "\<exists>m m' :: string nghttp2_map. nghttp2_map_size m = 1 \<and> nghttp2_map_remove 3 m = Some (Inr (), m') \<and>
    map_abs m' = Map.empty \<and> nghttp2_map_remove 4 m = Some (Inl ERR_INVALID_ARGUMENT, m)"
proof -
  obtain m where "map_inv m" "map_abs m = [3 \<mapsto> ''x'']" using first_insert [of 3 "''x''" 7] by blast
  then show ?thesis using map_remove_correct [of m 3] map_remove_correct [of m 4] by auto
qed

text \<open>
  Inserting an object and removing it again both succeed and leave a table with the same
  contents, whatever entries the two operations moved around.
\<close>

theorem map_insert_remove_roundtrip:
  assumes "map_inv m" "psl_below 253 m" "nghttp2_map_insert k d m = Some (Inr (), m1)"
  shows "\<exists>m2. nghttp2_map_remove k m1 = Some (Inr (), m2) \<and> map_inv m2 \<and>
    nghttp2_map_find m2 = nghttp2_map_find m"
  by (rule stream_map.insert_remove [OF assms])

theorem map_insert_remove_roundtrip_witness:
  "\<exists>m m1 :: string nghttp2_map. nghttp2_map_insert 3 ''x'' (nghttp2_map_init 7 []) = Some (Inr (), m) \<and>
    nghttp2_map_remove 3 m = Some (Inr (), m1) \<and> nghttp2_map_find m1 = nghttp2_map_find (nghttp2_map_init 7 [])"
proof -
  obtain m where m: "nghttp2_map_insert 3 ''x'' (nghttp2_map_init 7 []) = Some (Inr (), m)"
    using first_insert [of 3 "''x''" 7] by blast
  show ?thesis using map_insert_remove_roundtrip [OF map_init_inv(1) _ m] m by auto
qed

text \<open>Visiting a list of objects until a visit returns a value other than 0.\<close>

fun visit :: "('a option \<Rightarrow> 'c \<Rightarrow> int \<times> 'c) \<Rightarrow> 'a option list \<Rightarrow> 'c \<Rightarrow> int \<times> 'c" where
  "visit f [] c = (0, c)"
| "visit f (d # ds) c = (let (rv, c) = f d c in if rv \<noteq> 0 then (rv, c) else visit f ds c)"

lemma map_each_loop_visit:
  "map_each_loop f is m c = visit f (map ((!) (mdata m)) (filter (\<lambda>i. mpsl m ! i \<noteq> 0) is)) c"
  by (induction "is" arbitrary: c) (auto split: prod.split)

lemma map_each_result:
  assumes "map_inv m"
  shows "\<exists>ks. distinct ks \<and> set ks = dom (map_abs m) \<and> nghttp2_map_each f m c = visit f (map (map_abs m) ks) c"
proof (cases "msize m = 0")
  case True
  then have "map_abs m = Map.empty"
    using find_fun [OF assms] by (simp add: nghttp2_map_find_def fun_eq_iff)
  then show ?thesis using True by (intro exI [of _ "[]"]) (simp add: nghttp2_map_each_def)
next
  case False
  then have t: "table_ok m" using assms by (auto simp: map_inv_def)
  let ?is = "filter (\<lambda>i. mpsl m ! i \<noteq> 0) [0..<slots m]" let ?ks = "map ((!) (mkeys m)) ?is"
  have len: "length (mpsl m) = slots m" using t by (simp add: table_ok_def map_table_def)
  have s: "set ?is = occupied m" using occupied_list [OF len] len by simp
  have "distinct ?ks" using t s unfolding distinct_map table_ok_def keys_distinct_def by simp
  moreover have "k \<in> dom (map_abs m) \<longleftrightarrow> k \<in> set ?ks" for k
    using map_abs_key [OF t, of k] s by (auto simp: domIff image_iff)
  moreover have vals: "map (map_abs m) ?ks = map ((!) (mdata m)) ?is"
  proof -
    have "map_abs m (mkeys m ! i) = mdata m ! i" if "i \<in> set ?is" for i
    proof -
      have e: "(mkeys m ! i, mdata m ! i) \<in> entries m" using that s by (auto simp: entries_def)
      then obtain d where "mdata m ! i = Some d" using entries_some [OF t] by blast
      then show ?thesis using e map_abs_entries [OF t] by simp
    qed
    then show ?thesis unfolding map_map comp_def by (rule map_cong [OF refl])
  qed
  moreover have "nghttp2_map_each f m c = visit f (map (map_abs m) ?ks) c"
    unfolding vals using False by (simp add: nghttp2_map_each_def map_each_loop_visit)
  ultimately show ?thesis by blast
qed

lemma map_clear_result:
  assumes "map_inv m"
  shows "map_inv (nghttp2_map_clear m) \<and> map_abs (nghttp2_map_clear m) = Map.empty"
proof (cases "msize m = 0")
  case True
  then have "map_abs m = Map.empty" using find_fun [OF assms] by (simp add: nghttp2_map_find_def fun_eq_iff)
  then show ?thesis using True assms by (simp add: nghttp2_map_clear_def)
next
  case False
  then have t: "table_ok m" using assms by (auto simp: map_inv_def)
  define c where "c = m\<lparr>mpsl := replicate (slots m) 0, msize := 0\<rparr>"
  have c: "mpsl c = replicate (slots m) 0" "msize c = 0" "mkeys c = mkeys m" "mdata c = mdata m"
    "mhashbits c = mhashbits m" "next_slot c i < slots m" for i
    by (simp_all add: c_def next_slot_def)
  then have o: "occupied c = {}" by (simp add: occupied_def)
  have "table_ok c" using t o c by (simp add: table_ok_def map_table_def keys_distinct_def)
  moreover from this have "map_abs c = Map.empty" using o by (intro map_abs_eqI) (auto simp: entries_def)
  ultimately show ?thesis using False by (simp add: nghttp2_map_clear_def map_inv_def c_def)
qed

text \<open>
  C31. The iteration calls the callback on the object of every key exactly once, in some order of
  the keys, and stops with its result at the first call that returns a value other than 0.
  Clearing the table keeps the invariant and leaves no key.
\<close>

theorem map_each_clear_correct:
  assumes "map_inv m"
  shows "(\<exists>ks. distinct ks \<and> set ks = dom (map_abs m) \<and>
      nghttp2_map_each f m c = visit f (map (map_abs m) ks) c) \<and>
    map_inv (nghttp2_map_clear m) \<and> map_abs (nghttp2_map_clear m) = Map.empty"
  by (rule conjI [OF map_each_result [OF assms] map_clear_result [OF assms]])

theorem map_each_clear_correct_witness:
  "\<exists>m :: string nghttp2_map. nghttp2_map_each (\<lambda>d c. (0, c @ [d])) m [] = (0, [Some ''x'']) \<and>
    map_abs (nghttp2_map_clear m) = Map.empty"
proof -
  obtain m where m: "map_inv m" "map_abs m = [3 \<mapsto> ''x'']" using first_insert [of 3 "''x''" 7] by blast
  obtain ks where "distinct ks" "set ks = {3 :: int}"
    "nghttp2_map_each (\<lambda>d c. (0, c @ [d])) m [] = visit (\<lambda>d c. (0, c @ [d])) (map (map_abs m) ks) []"
    "map_abs (nghttp2_map_clear m) = Map.empty"
    using map_each_clear_correct [OF m(1), of "\<lambda>d c. (0, c @ [d])" "[]"] unfolding m(2) dom_empty dom_fun_upd by auto
  moreover from this have "ks = [3]" by (cases ks rule: remdups_adj.cases) auto
  ultimately show ?thesis using m(2) by auto
qed
end
