(* ===== verification/Nghttp2_Ratelim.thy ===== *)
theory Nghttp2_Ratelim
  imports Nghttp2_Base
begin

text \<open>
  Model of \<open>src/src/nghttp2/lib/nghttp2_ratelim.c\<close>: the token bucket that limits how often
  a peer may reset streams. All fields are \<open>uint64_t\<close>, so the model computes on 64-bit
  words and the theorems compare it with the arithmetic on unbounded numbers.
\<close>

record nghttp2_ratelim =
  burst :: u64
  rate :: u64
  val :: u64
  tstamp :: u64

definition UINT64_MAX :: u64 where "UINT64_MAX = 18446744073709551615"

definition nghttp2_ratelim_init :: "u64 \<Rightarrow> u64 \<Rightarrow> nghttp2_ratelim" where
  "nghttp2_ratelim_init b r = \<lparr>burst = b, rate = r, val = b, tstamp = 0\<rparr>"

definition nghttp2_ratelim_update :: "nghttp2_ratelim \<Rightarrow> u64 \<Rightarrow> nghttp2_ratelim" where
  "nghttp2_ratelim_update rl t =
     (if t = tstamp rl then rl
      else
        let d = (if tstamp rl < t then t - tstamp rl else 1);
            rl = rl\<lparr>tstamp := t\<rparr>
        in if UINT64_MAX div d < rate rl then rl\<lparr>val := burst rl\<rparr>
           else
             let gain = rate rl * d in
             if UINT64_MAX - gain < val rl then rl\<lparr>val := burst rl\<rparr>
             else rl\<lparr>val := min (val rl + gain) (burst rl)\<rparr>)"

definition nghttp2_ratelim_drain :: "nghttp2_ratelim \<Rightarrow> u64 \<Rightarrow> bool \<times> nghttp2_ratelim" where
  "nghttp2_ratelim_drain rl n =
     (if val rl < n then (False, rl) else (True, rl\<lparr>val := val rl - n\<rparr>))"

section \<open>The bucket as unbounded arithmetic\<close>

text \<open>The invariant: the bucket never holds more than its capacity.\<close>

definition ratelim_ok :: "nghttp2_ratelim \<Rightarrow> bool" where
  "ratelim_ok rl \<longleftrightarrow> val rl \<le> burst rl"

text \<open>The time that counts between two time stamps: a clock that went back counts as one.\<close>

definition elapsed :: "nat \<Rightarrow> nat \<Rightarrow> nat" where
  "elapsed t0 t = (if t = t0 then 0 else if t0 < t then t - t0 else 1)"

lemma unat_UINT64_MAX: "unat UINT64_MAX = 2 ^ 64 - 1"
  by (simp add: UINT64_MAX_def)

lemma unat_u64_lt: "unat (x :: u64) < 2 ^ 64"
  using unsigned_less [of x, where ?'a = nat] by simp

lemma unat_u64_le: "unat (x :: u64) \<le> 2 ^ 64 - 1"
  using unat_u64_lt [of x] by simp

lemma mult_fits_iff:
  fixes r d :: u64
  assumes "d \<noteq> 0"
  shows "UINT64_MAX div d < r \<longleftrightarrow> 2 ^ 64 \<le> unat r * unat d"
proof -
  have "0 < unat d" using assms by (simp add: unat_gt_0)
  have "UINT64_MAX div d < r \<longleftrightarrow> (2 ^ 64 - 1) div unat d < unat r"
    by (simp add: word_less_nat_alt unat_div unat_UINT64_MAX)
  also have "\<dots> \<longleftrightarrow> 2 ^ 64 - 1 < unat r * unat d"
    using \<open>0 < unat d\<close> by (simp add: div_less_iff_less_mult)
  finally show ?thesis by (simp add: less_eq_Suc_le)
qed

lemma add_fits_iff:
  fixes v g :: u64
  shows "UINT64_MAX - g < v \<longleftrightarrow> 2 ^ 64 \<le> unat v + unat g"
proof -
  have "unat (UINT64_MAX - g) = 2 ^ 64 - 1 - unat g"
    using unat_u64_le [of g] by (simp add: unat_sub word_le_nat_alt unat_UINT64_MAX)
  then show ?thesis using unat_u64_le [of g] by (auto simp: word_less_nat_alt)
qed

lemma unat_min_word: "unat (min a b :: 'a :: len word) = min (unat a) (unat b)"
  by (simp add: min_def word_le_nat_alt)

lemma ratelim_update_val:
  assumes ok: "ratelim_ok rl"
  shows "unat (val (nghttp2_ratelim_update rl t)) =
    min (unat (burst rl)) (unat (val rl) + unat (rate rl) * elapsed (unat (tstamp rl)) (unat t))"
proof (cases "t = tstamp rl")
  case True
  then show ?thesis using ok
    by (simp add: nghttp2_ratelim_update_def elapsed_def ratelim_ok_def word_le_nat_alt)
next
  case False
  define d where "d = (if tstamp rl < t then t - tstamp rl else 1)"
  define e where "e = elapsed (unat (tstamp rl)) (unat t)"
  have d: "unat d = e" "d \<noteq> 0"
    using False
    by (auto simp: d_def e_def elapsed_def unat_sub word_less_nat_alt word_le_nat_alt
        word_unat_eq_iff)
  have b: "unat (burst rl) < 2 ^ 64" by (rule unat_u64_lt)
  show ?thesis
  proof (cases "2 ^ 64 \<le> unat (rate rl) * e")
    case True
    then have "val (nghttp2_ratelim_update rl t) = burst rl"
      using False mult_fits_iff [of d "rate rl"] d
      by (simp add: nghttp2_ratelim_update_def d_def [symmetric] Let_def)
    then show ?thesis using True b by (simp add: e_def [symmetric])
  next
    case noov: False
    then have g: "unat (rate rl * d) = unat (rate rl) * e"
      using d by (simp add: unat_word_ariths)
    show ?thesis
    proof (cases "2 ^ 64 \<le> unat (val rl) + unat (rate rl) * e")
      case True
      then have "val (nghttp2_ratelim_update rl t) = burst rl"
        using False mult_fits_iff [of d "rate rl"] add_fits_iff [of "rate rl * d" "val rl"] d g noov
        by (simp add: nghttp2_ratelim_update_def d_def [symmetric] Let_def)
      then show ?thesis using True b by (simp add: e_def [symmetric])
    next
      case fit: False
      then have "unat (val rl + rate rl * d) = unat (val rl) + unat (rate rl) * e"
        using g by (simp add: unat_word_ariths)
      moreover have "val (nghttp2_ratelim_update rl t) = min (val rl + rate rl * d) (burst rl)"
        using False mult_fits_iff [of d "rate rl"] add_fits_iff [of "rate rl * d" "val rl"] d g noov fit
        by (simp add: nghttp2_ratelim_update_def d_def [symmetric] Let_def)
      ultimately show ?thesis
        by (simp add: unat_min_word e_def [symmetric] min.commute)
    qed
  qed
qed

lemma ratelim_update_frame [simp]:
  "burst (nghttp2_ratelim_update rl t) = burst rl" "rate (nghttp2_ratelim_update rl t) = rate rl"
  "tstamp (nghttp2_ratelim_update rl t) = t"
  by (simp_all add: nghttp2_ratelim_update_def Let_def)

lemma ratelim_update_ok: "ratelim_ok rl \<Longrightarrow> ratelim_ok (nghttp2_ratelim_update rl t)"
  using ratelim_update_val [of rl t] by (simp add: ratelim_ok_def word_le_nat_alt)

lemma ratelim_drain_cases:
  assumes "nghttp2_ratelim_drain rl n = (ok, rl')"
  shows "ok \<longleftrightarrow> unat n \<le> unat (val rl)"
    and "unat (val rl') = (if ok then unat (val rl) - unat n else unat (val rl))"
    and "burst rl' = burst rl" "rate rl' = rate rl" "tstamp rl' = tstamp rl"
  using assms
  by (auto simp: nghttp2_ratelim_drain_def word_less_nat_alt unat_sub_if' split: if_splits)

lemma ratelim_drain_ok:
  "ratelim_ok rl \<Longrightarrow> nghttp2_ratelim_drain rl n = (ok, rl') \<Longrightarrow> ratelim_ok rl'"
  using ratelim_drain_cases [of rl n ok rl'] by (auto simp: ratelim_ok_def word_le_nat_alt split: if_splits)

section \<open>Runs\<close>

text \<open>A run of the limiter: clock readings and requests, and which of the requests it grants.\<close>

datatype ratelim_op = Update u64 | Drain u64

fun ratelim_run :: "nghttp2_ratelim \<Rightarrow> ratelim_op list \<Rightarrow> bool list \<times> nghttp2_ratelim" where
  "ratelim_run rl [] = ([], rl)"
| "ratelim_run rl (Update t # ops) = ratelim_run (nghttp2_ratelim_update rl t) ops"
| "ratelim_run rl (Drain n # ops) =
     (let (ok, rl) = nghttp2_ratelim_drain rl n; (oks, rl) = ratelim_run rl ops in (ok # oks, rl))"

text \<open>
  The token bucket of capacity \<open>b\<close> and rate \<open>r\<close> on unbounded numbers, from its tokens and the
  time of its last refill.
\<close>

fun bucket_run :: "nat \<Rightarrow> nat \<Rightarrow> nat \<Rightarrow> nat \<Rightarrow> ratelim_op list \<Rightarrow> bool list \<times> nat \<times> nat" where
  "bucket_run b r v t0 [] = ([], v, t0)"
| "bucket_run b r v t0 (Update t # ops) =
     bucket_run b r (min b (v + r * elapsed t0 (unat t))) (unat t) ops"
| "bucket_run b r v t0 (Drain n # ops) =
     (let (oks, rest) = bucket_run b r (if unat n \<le> v then v - unat n else v) t0 ops
      in ((unat n \<le> v) # oks, rest))"

text \<open>The time that passes during a run, and the amount granted.\<close>

fun time_passed :: "nat \<Rightarrow> ratelim_op list \<Rightarrow> nat" where
  "time_passed t0 [] = 0"
| "time_passed t0 (Update t # ops) = elapsed t0 (unat t) + time_passed (unat t) ops"
| "time_passed t0 (Drain n # ops) = time_passed t0 ops"

fun granted :: "ratelim_op list \<Rightarrow> bool list \<Rightarrow> nat" where
  "granted (Update t # ops) oks = granted ops oks"
| "granted (Drain n # ops) (ok # oks) = (if ok then unat n else 0) + granted ops oks"
| "granted ops oks = 0"

lemma ratelim_run_bucket:
  assumes "ratelim_ok rl" "ratelim_run rl ops = (oks, rl')"
  shows "bucket_run (unat (burst rl)) (unat (rate rl)) (unat (val rl)) (unat (tstamp rl)) ops =
      (oks, unat (val rl'), unat (tstamp rl')) \<and>
    ratelim_ok rl' \<and> burst rl' = burst rl \<and> rate rl' = rate rl"
  using assms
proof (induction ops arbitrary: rl oks)
  case Nil
  then show ?case by simp
next
  case (Cons x ops)
  show ?case
  proof (cases x)
    case (Update t)
    then show ?thesis
      using Cons.IH [OF ratelim_update_ok [OF Cons.prems(1)], of t oks] Cons.prems
      by (simp add: ratelim_update_val)
  next
    case (Drain n)
    obtain ok rl1 where d: "nghttp2_ratelim_drain rl n = (ok, rl1)" by fastforce
    obtain oks1 where o: "ratelim_run rl1 ops = (oks1, rl')" "oks = ok # oks1"
      using Cons.prems(2) d Drain by (auto split: prod.splits)
    show ?thesis
      using Cons.IH [OF ratelim_drain_ok [OF Cons.prems(1) d] o(1)] ratelim_drain_cases [OF d] o(2) Drain
      by (auto split: if_splits)
  qed
qed

lemma bucket_run_granted:
  "bucket_run b r v t0 ops = (oks, v', t') \<Longrightarrow> granted ops oks + v' \<le> v + r * time_passed t0 ops"
proof (induction ops arbitrary: v t0 oks)
  case Nil
  then show ?case by simp
next
  case (Cons x ops)
  show ?case
  proof (cases x)
    case (Update t)
    let ?e = "elapsed t0 (unat t)"
    have "granted ops oks + v' \<le> min b (v + r * ?e) + r * time_passed (unat t) ops"
      using Cons Update by simp
    also have "\<dots> \<le> v + r * ?e + r * time_passed (unat t) ops" by simp
    finally show ?thesis using Update by (simp add: algebra_simps)
  next
    case (Drain n)
    then show ?thesis using Cons by (fastforce split: prod.splits if_splits)
  qed
qed

section \<open>Properties\<close>

text \<open>
  C38. However the limiter is used after its initialisation, with any clock readings and any
  requests, it grants exactly the requests that a token bucket on unbounded numbers grants and
  ends with the same tokens and the same time of the last refill, in spite of 64-bit overflow in
  the gain. The tokens never exceed the burst, and what it grants is at most the burst and the
  rate times the time that has passed.
\<close>

theorem ratelim_run_exact:
  "let (oks, rl) = ratelim_run (nghttp2_ratelim_init b r) ops in
   (oks, unat (val rl), unat (tstamp rl)) = bucket_run (unat b) (unat r) (unat b) 0 ops \<and>
   burst rl = b \<and> rate rl = r \<and> val rl \<le> b \<and>
   granted ops oks + unat (val rl) \<le> unat b + unat r * time_passed 0 ops"
proof -
  let ?rl = "nghttp2_ratelim_init b r"
  obtain oks rl where run: "ratelim_run ?rl ops = (oks, rl)" by fastforce
  have "ratelim_ok ?rl" by (simp add: ratelim_ok_def nghttp2_ratelim_init_def)
  from ratelim_run_bucket [OF this run]
  have "bucket_run (unat b) (unat r) (unat b) 0 ops = (oks, unat (val rl), unat (tstamp rl))"
    "ratelim_ok rl" "burst rl = b" "rate rl = r"
    by (simp_all add: nghttp2_ratelim_init_def)
  then show ?thesis using bucket_run_granted run by (simp add: ratelim_ok_def)
qed

end
