(* ===== verification/Nghttp2_Queue.thy ===== *)
theory Nghttp2_Queue
  imports Nghttp2_Base
begin

text \<open>
  Model of \<open>src/src/nghttp2/lib/nghttp2_queue.c\<close>: a singly linked queue. The cells live in an
  explicit heap, because the operations mutate cells through two aliases (\<open>front\<close> and
  \<open>back\<close>) and free them. A value \<open>None\<close> stands for a failed assertion or an access to a cell
  that is not allocated. The outcome of \<open>malloc\<close> is an argument: the address of the new cell,
  or \<open>None\<close> for NULL.
\<close>

record 'a nghttp2_queue_cell =
  cdata :: 'a
  cnext :: "nat option"

record nghttp2_queue =
  qfront :: "nat option"
  qback :: "nat option"

type_synonym 'a cells = "nat \<rightharpoonup> 'a nghttp2_queue_cell"
type_synonym 'a qstate = "'a cells \<times> nghttp2_queue"

definition nghttp2_queue_init :: "'a cells \<Rightarrow> 'a qstate" where
  "nghttp2_queue_init h = (h, \<lparr>qfront = None, qback = None\<rparr>)"

partial_function (option) free_cells :: "'a cells \<Rightarrow> nat option \<Rightarrow> 'a cells option" where
  "free_cells h p =
     (case p of
        None \<Rightarrow> Some h
      | Some a \<Rightarrow>
          (case h a of
             None \<Rightarrow> None
           | Some c \<Rightarrow> free_cells (h(a := None)) (cnext c)))"

definition nghttp2_queue_free :: "'a qstate \<Rightarrow> 'a cells option" where
  "nghttp2_queue_free s = free_cells (fst s) (qfront (snd s))"

fun nghttp2_queue_push :: "nat option \<Rightarrow> 'a \<Rightarrow> 'a qstate \<Rightarrow> ('a qstate res) option" where
  "nghttp2_queue_push None x s = Some (Inl ERR_NOMEM)"
| "nghttp2_queue_push (Some a) x (h, q) =
     (let h = h(a \<mapsto> \<lparr>cdata = x, cnext = None\<rparr>) in
      case qback q of
        Some b \<Rightarrow>
          (case h b of
             None \<Rightarrow> None
           | Some c \<Rightarrow> Some (Inr (h(b \<mapsto> c\<lparr>cnext := Some a\<rparr>), q\<lparr>qback := Some a\<rparr>)))
      | None \<Rightarrow> Some (Inr (h, q\<lparr>qfront := Some a, qback := Some a\<rparr>)))"

fun nghttp2_queue_pop :: "'a qstate \<Rightarrow> 'a qstate option" where
  "nghttp2_queue_pop (h, q) =
     (case qfront q of
        None \<Rightarrow> None
      | Some f \<Rightarrow>
          (case h f of
             None \<Rightarrow> None
           | Some c \<Rightarrow>
               let q = q\<lparr>qfront := cnext c\<rparr>;
                   q = (if Some f = qback q then q\<lparr>qback := None\<rparr> else q)
               in Some (h(f := None), q)))"

fun nghttp2_queue_front :: "'a qstate \<Rightarrow> 'a option" where
  "nghttp2_queue_front (h, q) = Option.bind (qfront q) (\<lambda>f. map_option cdata (h f))"

fun nghttp2_queue_back :: "'a qstate \<Rightarrow> 'a option" where
  "nghttp2_queue_back (h, q) = Option.bind (qback q) (\<lambda>b. map_option cdata (h b))"

definition nghttp2_queue_empty :: "'a qstate \<Rightarrow> bool" where
  "nghttp2_queue_empty s \<longleftrightarrow> qfront (snd s) = None"

section \<open>The list a queue represents\<close>

text \<open>
  \<open>qchain h p as xs\<close>: following the links from \<open>p\<close> visits the cells at the addresses \<open>as\<close>, which
  carry the data \<open>xs\<close>, and ends with NULL.
\<close>

fun qchain :: "'a cells \<Rightarrow> nat option \<Rightarrow> nat list \<Rightarrow> 'a list \<Rightarrow> bool" where
  "qchain h p [] [] \<longleftrightarrow> p = None"
| "qchain h p (a # as) (x # xs) \<longleftrightarrow>
     p = Some a \<and> a \<notin> set as \<and> (\<exists>c. h a = Some c \<and> cdata c = x \<and> qchain h (cnext c) as xs)"
| "qchain h p _ _ \<longleftrightarrow> False"

definition queue_repr :: "'a qstate \<Rightarrow> nat list \<Rightarrow> 'a list \<Rightarrow> bool" where
  "queue_repr s as xs \<longleftrightarrow>
     qchain (fst s) (qfront (snd s)) as xs \<and>
     qback (snd s) = (if as = [] then None else Some (last as))"

lemma qchain_length: "qchain h p as xs \<Longrightarrow> length as = length xs"
  by (induction h p as xs rule: qchain.induct) auto

lemma qchain_upd [simp]: "a \<notin> set as \<Longrightarrow> qchain (h(a := c)) p as xs = qchain h p as xs"
  by (induction h p as xs rule: qchain.induct) auto

lemma qchain_None [simp]: "qchain h None as xs \<longleftrightarrow> as = [] \<and> xs = []"
  by (cases as; cases xs) auto

lemma qchain_Some:
  "qchain h (Some a) as xs \<longleftrightarrow>
     (\<exists>as' x xs' c. as = a # as' \<and> xs = x # xs' \<and> a \<notin> set as' \<and> h a = Some c \<and> cdata c = x \<and>
       qchain h (cnext c) as' xs')"
  by (cases as; cases xs) auto

lemma qchain_dom: "qchain h p as xs \<Longrightarrow> a \<in> set as \<Longrightarrow> \<exists>c. h a = Some c"
  by (induction h p as xs rule: qchain.induct) auto

lemma qchain_last_data:
  "qchain h p as xs \<Longrightarrow> as \<noteq> [] \<Longrightarrow> \<exists>c. h (last as) = Some c \<and> cdata c = last xs"
proof (induction h p as xs rule: qchain.induct)
  case (2 h p a as x xs)
  then show ?case by (cases as; cases xs) auto
qed auto

lemma qchain_snoc:
  assumes "qchain h p as xs" "as \<noteq> []" "a \<notin> set as" "h (last as) = Some c"
  shows "qchain (h(a \<mapsto> \<lparr>cdata = x, cnext = None\<rparr>, last as \<mapsto> c\<lparr>cnext := Some a\<rparr>)) p
           (as @ [a]) (xs @ [x])"
  using assms
proof (induction h p as xs rule: qchain.induct)
  case (2 h p b bs y ys)
  show ?case
  proof (cases bs)
    case Nil
    with 2 show ?thesis by (cases ys) auto
  next
    case (Cons b' bs')
    with 2 obtain c' where c': "h b = Some c'" "cdata c' = y" "qchain h (cnext c') bs ys" by auto
    have "last bs \<in> set bs" using Cons by simp
    then have "last bs \<noteq> b" "b \<noteq> a" using 2 by auto
    with 2 c' Cons show ?thesis by simp
  qed
qed auto

lemma queue_push_repr:
  assumes "queue_repr s as xs" "a \<notin> set as"
  shows "\<exists>s'. nghttp2_queue_push (Some a) x s = Some (Inr s') \<and> queue_repr s' (as @ [a]) (xs @ [x])
     \<and> (\<forall>b. b \<notin> set as \<and> b \<noteq> a \<longrightarrow> fst s' b = fst s b)"
proof (cases s)
  case (Pair h q)
  show ?thesis
  proof (cases "as = []")
    case True
    with assms Pair have "xs = []" using qchain_length by (fastforce simp: queue_repr_def)
    with True assms Pair show ?thesis by (auto simp: queue_repr_def Let_def)
  next
    case False
    with assms Pair obtain c where c: "h (last as) = Some c"
      by (auto simp: queue_repr_def dest: qchain_last_data)
    have l: "last as \<in> set as" using False by simp
    with assms(2) have "last as \<noteq> a" by auto
    with assms Pair False c l show ?thesis by (auto simp: queue_repr_def Let_def qchain_snoc)
  qed
qed

lemma queue_pop_repr:
  assumes "queue_repr s (a # as) (x # xs)"
  shows "\<exists>s'. nghttp2_queue_pop s = Some s' \<and> queue_repr s' as xs \<and> fst s' = (fst s)(a := None)"
proof (cases s)
  case (Pair h q)
  with assms obtain c where c: "qfront q = Some a" "h a = Some c" "qchain h (cnext c) as xs"
    "a \<notin> set as" "qback q = Some (last (a # as))"
    by (auto simp: queue_repr_def split: if_splits)
  show ?thesis
  proof (cases as)
    case Nil
    with c Pair show ?thesis by (cases xs) (auto simp: queue_repr_def Let_def)
  next
    case (Cons b bs)
    then have "last as \<noteq> a" using c by (metis last_in_set list.distinct(1))
    with Cons c Pair show ?thesis by (auto simp: queue_repr_def Let_def)
  qed
qed

lemma free_cells_chain:
  "qchain h p as xs \<Longrightarrow> free_cells h p = Some (h |` (- set as))"
proof (induction as arbitrary: h p xs)
  case Nil
  then show ?case by (cases xs) (auto simp: free_cells.simps)
next
  case (Cons a as)
  then obtain x xs' c where c: "xs = x # xs'" "p = Some a" "a \<notin> set as" "h a = Some c"
    "qchain h (cnext c) as xs'"
    by (cases xs) auto
  then have "free_cells (h(a := None)) (cnext c) = Some ((h(a := None)) |` (- set as))"
    by (intro Cons.IH [of _ _ xs']) (simp add: qchain_upd del: fun_upd_apply)
  moreover have "(h(a := None)) |` (- set as) = h |` (- set (a # as))"
    by (rule ext) (simp add: restrict_map_def)
  ultimately show ?case using c by (simp add: free_cells.simps [of h "Some a"])
qed

section \<open>The interface\<close>

text \<open>
  What a client relies on: a queue that holds \<open>xs\<close>, the effect of \<open>push\<close> at a fresh cell and of
  \<open>pop\<close>. From these laws alone a sequence of pushes followed by as many pops returns the
  elements in the order in which they were pushed.
\<close>

locale fifo =
  fixes push :: "nat \<Rightarrow> 'a \<Rightarrow> 's \<Rightarrow> 's option"
    and front :: "'s \<Rightarrow> 'a option"
    and pop :: "'s \<Rightarrow> 's option"
    and holds :: "'s \<Rightarrow> nat list \<Rightarrow> 'a list \<Rightarrow> bool"
  assumes push_holds: "holds s as xs \<Longrightarrow> a \<notin> set as \<Longrightarrow>
      \<exists>s'. push a x s = Some s' \<and> holds s' (as @ [a]) (xs @ [x])"
    and front_holds: "holds s (a # as) (x # xs) \<Longrightarrow> front s = Some x"
    and pop_holds: "holds s (a # as) (x # xs) \<Longrightarrow> \<exists>s'. pop s = Some s' \<and> holds s' as xs"
    and holds_length: "holds s as xs \<Longrightarrow> length as = length xs"
begin

fun push_all :: "nat list \<Rightarrow> 'a list \<Rightarrow> 's \<Rightarrow> 's option" where
  "push_all (a # as) (x # xs) s = Option.bind (push a x s) (push_all as xs)"
| "push_all _ _ s = Some s"

fun drain :: "nat \<Rightarrow> 's \<Rightarrow> ('a list \<times> 's) option" where
  "drain 0 s = Some ([], s)"
| "drain (Suc n) s =
     Option.bind (front s) (\<lambda>x. Option.bind (pop s) (\<lambda>s'.
       map_option (\<lambda>(xs, t). (x # xs, t)) (drain n s')))"

lemma push_all_holds:
  assumes "holds s as xs" "distinct (as @ bs)" "length bs = length ys"
  shows "\<exists>s'. push_all bs ys s = Some s' \<and> holds s' (as @ bs) (xs @ ys)"
  using assms(3,1,2)
proof (induction bs ys arbitrary: s as xs rule: list_induct2)
  case Nil
  then show ?case by simp
next
  case (Cons b bs y ys)
  then obtain s' where "push b y s = Some s'" "holds s' (as @ [b]) (xs @ [y])"
    using push_holds [of s as xs b y] by auto
  with Cons.IH [of s' "as @ [b]" "xs @ [y]"] Cons.prems show ?case by auto
qed

lemma drain_holds:
  assumes "holds s (as @ bs) (xs @ ys)" "length as = length xs"
  shows "\<exists>s'. drain (length xs) s = Some (xs, s') \<and> holds s' bs ys"
  using assms(2,1)
proof (induction as xs arbitrary: s rule: list_induct2)
  case Nil
  then show ?case by simp
next
  case (Cons a as x xs)
  then obtain s' where "pop s = Some s'" "holds s' (as @ bs) (xs @ ys)"
    using pop_holds [of s a "as @ bs" x "xs @ ys"] by auto
  with Cons.IH [of s'] front_holds [of s a "as @ bs" x "xs @ ys"] Cons.prems show ?case by auto
qed

lemma push_drain:
  assumes "holds s [] []" "distinct bs" "length bs = length ys"
  shows "\<exists>s' s''. push_all bs ys s = Some s' \<and> drain (length ys) s' = Some (ys, s'') \<and> holds s'' [] []"
proof -
  obtain s' where "push_all bs ys s = Some s'" "holds s' bs ys"
    using push_all_holds [OF assms(1), of bs ys] assms(2,3) by auto
  then show ?thesis using drain_holds [of s' bs "[]" ys "[]"] assms(3) by auto
qed

end

text \<open>The push that a client performs when \<open>malloc\<close> has returned a cell.\<close>

definition queue_push_at :: "nat \<Rightarrow> 'a \<Rightarrow> 'a qstate \<Rightarrow> 'a qstate option" where
  "queue_push_at a x s =
     Option.bind (nghttp2_queue_push (Some a) x s) (\<lambda>r. case r of Inl _ \<Rightarrow> None | Inr s' \<Rightarrow> Some s')"

interpretation queue: fifo queue_push_at nghttp2_queue_front nghttp2_queue_pop queue_repr
proof
  fix s :: "'a qstate" and as xs a and x :: 'a
  assume "queue_repr s as xs" "a \<notin> set as"
  from queue_push_repr [OF this, of x]
  show "\<exists>s'. queue_push_at a x s = Some s' \<and> queue_repr s' (as @ [a]) (xs @ [x])"
    by (auto simp: queue_push_at_def)
next
  fix s :: "'a qstate" and a as x xs
  assume "queue_repr s (a # as) (x # xs)"
  then show "nghttp2_queue_front s = Some x" by (cases s) (auto simp: queue_repr_def)
next
  fix s :: "'a qstate" and a as x xs
  assume "queue_repr s (a # as) (x # xs)"
  from queue_pop_repr [OF this]
  show "\<exists>s'. nghttp2_queue_pop s = Some s' \<and> queue_repr s' as xs" by auto
next
  fix s :: "'a qstate" and as xs
  assume "queue_repr s as xs"
  then show "length as = length xs" by (auto simp: queue_repr_def dest: qchain_length)
qed

section \<open>Properties\<close>

text \<open>
  C39. The linked queue is first-in first-out and frees what it allocated: from a queue that
  represents \<open>xs\<close> in the cells \<open>as\<close>, \<open>front\<close>, \<open>back\<close> and \<open>empty\<close> read the first element, the last
  element and whether there is none, \<open>push\<close> at a fresh cell appends, \<open>pop\<close> removes the first
  element and releases exactly its cell, a failed allocation changes nothing, popping an empty
  queue fails the assertion, and \<open>free\<close> terminates and releases exactly the queue's cells.
\<close>

theorem queue_fifo:
  assumes "queue_repr s as xs" and "a \<notin> set as"
  shows "(nghttp2_queue_empty s \<longleftrightarrow> xs = []) \<and>
    nghttp2_queue_front s = (if xs = [] then None else Some (hd xs)) \<and>
    nghttp2_queue_back s = (if xs = [] then None else Some (last xs)) \<and>
    (\<exists>s'. nghttp2_queue_push (Some a) x s = Some (Inr s') \<and> queue_repr s' (as @ [a]) (xs @ [x])) \<and>
    nghttp2_queue_push None x s = Some (Inl ERR_NOMEM) \<and>
    (if xs = [] then nghttp2_queue_pop s = None
     else \<exists>s'. nghttp2_queue_pop s = Some s' \<and> queue_repr s' (tl as) (tl xs) \<and>
       fst s' = (fst s)(hd as := None)) \<and>
    nghttp2_queue_free s = Some (fst s |` (- set as))"
proof (intro conjI)
  obtain h q where s: "s = (h, q)" by (cases s)
  from assms(1) s have c: "qchain h (qfront q) as xs"
    and b: "qback q = (if as = [] then None else Some (last as))" by (auto simp: queue_repr_def)
  have l: "length as = length xs" using c by (rule qchain_length)
  show "nghttp2_queue_empty s \<longleftrightarrow> xs = []"
    using c s by (cases as; cases xs) (auto simp: nghttp2_queue_empty_def)
  show "nghttp2_queue_front s = (if xs = [] then None else Some (hd xs))"
    using c s by (cases as; cases xs) auto
  show "nghttp2_queue_back s = (if xs = [] then None else Some (last xs))"
    using qchain_last_data [OF c] b s l by auto
  show "\<exists>s'. nghttp2_queue_push (Some a) x s = Some (Inr s') \<and> queue_repr s' (as @ [a]) (xs @ [x])"
    using queue_push_repr [OF assms, of x] by auto
  show "nghttp2_queue_push None x s = Some (Inl ERR_NOMEM)" by simp
  show "if xs = [] then nghttp2_queue_pop s = None
        else \<exists>s'. nghttp2_queue_pop s = Some s' \<and> queue_repr s' (tl as) (tl xs) \<and>
          fst s' = (fst s)(hd as := None)"
  proof (cases xs)
    case Nil
    with l c s show ?thesis by simp
  next
    case (Cons y ys)
    with l obtain b bs where "as = b # bs" by (cases as) auto
    with Cons queue_pop_repr [of s b bs y ys] assms(1) show ?thesis by simp
  qed
  show "nghttp2_queue_free s = Some (fst s |` (- set as))"
    using free_cells_chain [OF c] s by (simp add: nghttp2_queue_free_def)
qed

theorem queue_fifo_witness:
  "\<exists>s'. nghttp2_queue_push (Some 7) (2 :: nat)
     (([5 \<mapsto> \<lparr>cdata = 1, cnext = None\<rparr>], \<lparr>qfront = Some 5, qback = Some 5\<rparr>) :: nat qstate)
     = Some (Inr s') \<and> queue_repr s' [5, 7] [1, 2]"
  using queue_fifo [of "([5 \<mapsto> \<lparr>cdata = 1, cnext = None\<rparr>], \<lparr>qfront = Some 5, qback = Some 5\<rparr>)"
      "[5]" "[1]" 7 2]
  by (simp add: queue_repr_def)

text \<open>
  Elements pushed one after another into distinct cells of an empty queue come out in the
  same order, and the queue is empty again afterwards.
\<close>

theorem queue_push_then_drain:
  assumes "distinct bs" and "length bs = length ys"
  shows "\<exists>s' s''. queue.push_all bs ys (nghttp2_queue_init h) = Some s' \<and>
    queue.drain (length ys) s' = Some (ys, s'') \<and> nghttp2_queue_empty s''"
proof -
  have "queue_repr (nghttp2_queue_init h) [] []" by (simp add: queue_repr_def nghttp2_queue_init_def)
  from queue.push_drain [OF this assms] show ?thesis
    by (auto simp: queue_repr_def nghttp2_queue_empty_def)
qed

theorem queue_push_then_drain_witness:
  "\<exists>s' s''. queue.push_all [4, 2] ''ab'' (nghttp2_queue_init Map.empty) = Some s' \<and>
    queue.drain (length ''ab'') s' = Some (''ab'', s'') \<and> nghttp2_queue_empty s''"
  by (rule queue_push_then_drain) simp_all

end
