(* ===== verification/Nghttp2_Rcbuf.thy ===== *)
theory Nghttp2_Rcbuf
  imports Nghttp2_Base
begin

text \<open>
  Model of \<open>src/src/nghttp2/lib/nghttp2_rcbuf.c\<close>: reference counted byte buffers. The buffers
  live in an explicit store. \<open>None\<close> stands for behaviour the C code must not show: access to a
  freed buffer, a failed assertion, or overflow of the \<open>int32_t\<close> counter. The outcome of the
  allocation is an argument: the address of the object, or \<open>None\<close> for NULL.
\<close>

record nghttp2_rcbuf =
  rcbase :: bytes
  rclen :: nat
  rcref :: int

type_synonym rcstore = "nat \<rightharpoonup> nghttp2_rcbuf"

text \<open>
  The bytes of a fresh buffer are whatever \<open>malloc\<close> left there: the argument \<open>junk\<close>, of which
  the first \<open>n\<close> bytes are taken (and padded with zeros when there are fewer).
\<close>

definition fresh_bytes :: "bytes \<Rightarrow> nat \<Rightarrow> bytes" where
  "fresh_bytes junk n = take n junk @ replicate (n - length junk) 0"

fun nghttp2_rcbuf_new :: "nat option \<Rightarrow> bytes \<Rightarrow> nat \<Rightarrow> rcstore \<Rightarrow> rcstore res" where
  "nghttp2_rcbuf_new None junk n st = Inl ERR_NOMEM"
| "nghttp2_rcbuf_new (Some p) junk n st =
     Inr (st(p \<mapsto> \<lparr>rcbase = fresh_bytes junk n, rclen = n, rcref = 1\<rparr>))"

fun nghttp2_rcbuf_new2 :: "nat option \<Rightarrow> bytes \<Rightarrow> bytes \<Rightarrow> rcstore \<Rightarrow> (rcstore res) option" where
  "nghttp2_rcbuf_new2 a junk src st =
     (case nghttp2_rcbuf_new a junk (length src + 1) st of
        Inl e \<Rightarrow> Some (Inl e)
      | Inr st \<Rightarrow>
          Option.bind a (\<lambda>p. Option.bind (st p) (\<lambda>rb.
            let rcbase' = blit (length src) [0] (blit 0 src (rcbase rb)) in
            Some (Inr (st(p \<mapsto> rb\<lparr>rclen := length src, rcbase := rcbase'\<rparr>))))))"

definition nghttp2_rcbuf_del :: "nat \<Rightarrow> rcstore \<Rightarrow> rcstore" where
  "nghttp2_rcbuf_del p st = st(p := None)"

definition nghttp2_rcbuf_incref :: "nat \<Rightarrow> rcstore \<Rightarrow> rcstore option" where
  "nghttp2_rcbuf_incref p st =
     (case st p of
        None \<Rightarrow> None
      | Some rb \<Rightarrow>
          if rcref rb = - 1 then Some st
          else if rcref rb = INT32_MAX then None
          else Some (st(p \<mapsto> rb\<lparr>rcref := rcref rb + 1\<rparr>)))"

fun nghttp2_rcbuf_decref :: "nat option \<Rightarrow> rcstore \<Rightarrow> rcstore option" where
  "nghttp2_rcbuf_decref None st = Some st"
| "nghttp2_rcbuf_decref (Some p) st =
     (case st p of
        None \<Rightarrow> None
      | Some rb \<Rightarrow>
          if rcref rb = - 1 then Some st
          else if \<not> 0 < rcref rb then None
          else
            let st = st(p \<mapsto> rb\<lparr>rcref := rcref rb - 1\<rparr>) in
            Some (if rcref rb - 1 = 0 then nghttp2_rcbuf_del p st else st))"

definition nghttp2_rcbuf_get_buf :: "nghttp2_rcbuf \<Rightarrow> bytes" where
  "nghttp2_rcbuf_get_buf rb = take (rclen rb) (rcbase rb)"

definition nghttp2_rcbuf_is_static :: "nghttp2_rcbuf \<Rightarrow> bool" where
  "nghttp2_rcbuf_is_static rb \<longleftrightarrow> rcref rb = - 1"

section \<open>Owners\<close>

text \<open>
  An abstract owner count per buffer: \<open>new\<close> creates the first owner, \<open>incref\<close> adds one and
  \<open>decref\<close> removes one. A run of \<open>n\<close> owners is legal when the number of owners is positive before
  every step and never exceeds what the counter can hold.
\<close>

datatype rc_op = Incref | Decref

fun rc_step :: "nat \<Rightarrow> rc_op \<Rightarrow> rcstore \<Rightarrow> rcstore option" where
  "rc_step p Incref st = nghttp2_rcbuf_incref p st"
| "rc_step p Decref st = nghttp2_rcbuf_decref (Some p) st"

fun rc_run :: "nat \<Rightarrow> rc_op list \<Rightarrow> rcstore \<Rightarrow> rcstore option" where
  "rc_run p [] st = Some st"
| "rc_run p (x # xs) st = Option.bind (rc_step p x st) (rc_run p xs)"

fun owners :: "rc_op list \<Rightarrow> int \<Rightarrow> int option" where
  "owners [] n = Some n"
| "owners (Incref # xs) n = (if 0 < n \<and> n < INT32_MAX then owners xs (n + 1) else None)"
| "owners (Decref # xs) n = (if 0 < n then owners xs (n - 1) else None)"

lemma rc_run_owners:
  assumes "owners xs n = Some m" and "0 < n" and "st p = Some rb" and "rcref rb = n"
  shows "rc_run p xs st = Some (if m = 0 then st(p := None) else st(p \<mapsto> rb\<lparr>rcref := m\<rparr>))"
  using assms
proof (induction xs n arbitrary: st rb rule: owners.induct)
  case (1 n)
  then show ?case by (auto simp: fun_upd_idem)
next
  case (2 xs n)
  then show ?case by (auto simp: nghttp2_rcbuf_incref_def split: if_splits)
next
  case (3 xs n)
  show ?case
  proof (cases "n = 1")
    case True
    then have "xs = [] \<and> m = 0"
      using 3 by (cases xs; cases "hd xs") (auto split: if_splits)
    with True 3 show ?thesis by (auto simp: nghttp2_rcbuf_del_def)
  next
    case False
    with 3 have "rc_run p xs (st(p \<mapsto> rb\<lparr>rcref := n - 1\<rparr>)) =
      Some (if m = 0 then (st(p \<mapsto> rb\<lparr>rcref := n - 1\<rparr>))(p := None)
        else (st(p \<mapsto> rb\<lparr>rcref := n - 1\<rparr>))(p \<mapsto> rb\<lparr>rcref := n - 1, rcref := m\<rparr>))"
      by (intro "3.IH") auto
    with False 3 show ?thesis by (simp add: Let_def)
  qed
qed

lemma rcbuf_new2_get:
  assumes "nghttp2_rcbuf_new2 (Some p) junk src st = Some (Inr st')"
  shows "\<exists>rb. st' = st(p \<mapsto> rb) \<and> nghttp2_rcbuf_get_buf rb = src \<and> rcref rb = 1 \<and>
    rcbase rb = src @ [0]"
  using assms
  by (auto simp: Let_def nghttp2_rcbuf_get_buf_def fresh_bytes_def blit_def)

section \<open>Properties\<close>

text \<open>
  C40. Reference counting is exact: a buffer created from \<open>src\<close> holds \<open>src\<close> followed by a NUL
  byte and is returned as \<open>src\<close>, and after every sequence of \<open>incref\<close> and \<open>decref\<close> calls in which
  each call is made by a current owner (and there are fewer than \<open>INT32_MAX\<close> of them) nothing
  undefined happened, the buffer is unchanged while owners remain, it is freed exactly when the
  last owner is gone, and no other buffer is touched.
\<close>

theorem rcbuf_refcount_exact:
  assumes "owners ops 1 = Some m"
  shows "\<exists>st1. nghttp2_rcbuf_new2 (Some p) junk src st = Some (Inr st1) \<and>
    rc_run p ops st1 =
      Some (if m = 0 then st(p := None)
            else st(p \<mapsto> \<lparr>rcbase = src @ [0], rclen = length src, rcref = m\<rparr>))"
proof -
  define rb where "rb = \<lparr>rcbase = src @ [0], rclen = length src, rcref = 1\<rparr>"
  have n: "nghttp2_rcbuf_new2 (Some p) junk src st = Some (Inr (st(p \<mapsto> rb)))"
    by (simp add: rb_def Let_def blit_def fresh_bytes_def)
  have "rc_run p ops (st(p \<mapsto> rb)) =
      Some (if m = 0 then (st(p \<mapsto> rb))(p := None) else (st(p \<mapsto> rb))(p \<mapsto> rb\<lparr>rcref := m\<rparr>))"
    by (rule rc_run_owners [OF assms]) (simp_all add: rb_def)
  with n show ?thesis by (simp add: rb_def)
qed

theorem rcbuf_refcount_exact_witness:
  "\<exists>st1. nghttp2_rcbuf_new2 (Some 3) [] [104, 105] Map.empty = Some (Inr st1) \<and>
    rc_run 3 [Incref, Decref, Incref] st1 =
      Some [3 \<mapsto> \<lparr>rcbase = [104, 105, 0], rclen = 2, rcref = 2\<rparr>]"
  using rcbuf_refcount_exact [of "[Incref, Decref, Incref]" 2 3 "[]" "[104, 105]" Map.empty]
  by (simp add: INT32_MAX_def eval_nat_numeral)

end
