(* ===== verification/Nghttp2_Pq.thy ===== *)
theory Nghttp2_Pq
  imports Nghttp2_Base "HOL-Library.Multiset"
begin

text \<open>
  Model of \<open>src/src/nghttp2/lib/nghttp2_pq.c\<close>: a binary heap of pointers in which every entry
  carries its own position (\<open>index\<close>), so that an entry can be removed from the middle.
  Entries are values of a type \<open>'e\<close> of identities (the pointers); \<open>pqindex\<close> is the content of
  their \<open>index\<close> fields. \<open>pqq\<close> is the part of the array \<open>q\<close> below \<open>length\<close>, the only part that is
  ever read. The comparison is an argument of the operations that call \<open>pq->less\<close>, because its
  value depends on the state of the entries at the time of the call.
\<close>

record 'e nghttp2_pq =
  pqq :: "'e list"
  pqindex :: "'e \<Rightarrow> nat"
  pqcapacity :: nat
  pqmem :: nghttp2_mem

definition nghttp2_pq_init :: "nghttp2_mem \<Rightarrow> ('e \<Rightarrow> nat) \<Rightarrow> 'e nghttp2_pq" where
  "nghttp2_pq_init mem ix = \<lparr>pqq = [], pqindex = ix, pqcapacity = 0, pqmem = mem\<rparr>"

definition nghttp2_pq_free :: "'e nghttp2_pq \<Rightarrow> 'e nghttp2_pq" where
  "nghttp2_pq_free pq = pq\<lparr>pqq := []\<rparr>"

definition pq_swap :: "nat \<Rightarrow> nat \<Rightarrow> 'e nghttp2_pq \<Rightarrow> 'e nghttp2_pq" where
  "pq_swap i j pq =
     (let a = pqq pq ! i; b = pqq pq ! j in
      pq\<lparr>pqq := (pqq pq)[i := b, j := a], pqindex := (pqindex pq)(b := i, a := j)\<rparr>)"

fun bubble_up :: "('e \<Rightarrow> 'e \<Rightarrow> bool) \<Rightarrow> nat \<Rightarrow> 'e nghttp2_pq \<Rightarrow> 'e nghttp2_pq" where
  "bubble_up lt index pq =
     (if index = 0 then pq
      else
        let parent = (index - 1) div 2 in
        if \<not> lt (pqq pq ! index) (pqq pq ! parent) then pq
        else bubble_up lt parent (pq_swap parent index pq))"

declare bubble_up.simps [simp del]

fun nghttp2_pq_push ::
  "('e \<Rightarrow> 'e \<Rightarrow> bool) \<Rightarrow> 'e \<Rightarrow> 'e nghttp2_pq \<Rightarrow> unit res \<times> 'e nghttp2_pq" where
  "nghttp2_pq_push lt item pq =
     (let (ok, pq) =
        (if pqcapacity pq \<le> length (pqq pq) then
           let ncapacity = max 4 (pqcapacity pq * 2); (ok, mem) = mem_alloc (pqmem pq) in
           (ok, if ok then pq\<lparr>pqmem := mem, pqcapacity := ncapacity\<rparr> else pq\<lparr>pqmem := mem\<rparr>)
         else (True, pq))
      in
        if \<not> ok then (Inl ERR_NOMEM, pq)
        else
          let pq = pq\<lparr>pqq := pqq pq @ [item], pqindex := (pqindex pq)(item := length (pqq pq))\<rparr>
          in (Inr (), bubble_up lt (length (pqq pq) - 1) pq))"

definition nghttp2_pq_top :: "'e nghttp2_pq \<Rightarrow> 'e option" where
  "nghttp2_pq_top pq = (if length (pqq pq) = 0 then None else Some (pqq pq ! 0))"

text \<open>The inner loop of \<open>bubble_down\<close>: the least of a position and its two children.\<close>

fun min_child :: "('e \<Rightarrow> 'e \<Rightarrow> bool) \<Rightarrow> 'e list \<Rightarrow> nat \<Rightarrow> nat \<Rightarrow> nat \<Rightarrow> nat" where
  "min_child lt q 0 j minindex = minindex"
| "min_child lt q (Suc n) j minindex =
     (if length q \<le> j then minindex
      else min_child lt q n (Suc j) (if lt (q ! j) (q ! minindex) then j else minindex))"

lemma min_child_range:
  "min_child lt q n j m = m \<or>
   (j \<le> min_child lt q n j m \<and> min_child lt q n j m < j + n \<and> min_child lt q n j m < length q)"
  by (induction lt q n j m rule: min_child.induct) (auto split: if_splits)

lemma min_child_down:
  assumes "min_child lt q 2 (index * 2 + 1) index \<noteq> index"
  shows "index < min_child lt q 2 (index * 2 + 1) index"
    and "min_child lt q 2 (index * 2 + 1) index < length q"
    and "(min_child lt q 2 (index * 2 + 1) index - 1) div 2 = index"
  using assms min_child_range [of lt q 2 "index * 2 + 1" index] by auto

function bubble_down :: "('e \<Rightarrow> 'e \<Rightarrow> bool) \<Rightarrow> nat \<Rightarrow> 'e nghttp2_pq \<Rightarrow> 'e nghttp2_pq" where
  "bubble_down lt index pq =
     (let minindex = min_child lt (pqq pq) 2 (index * 2 + 1) index in
      if minindex = index then pq
      else bubble_down lt minindex (pq_swap index minindex pq))"
  by pat_completeness auto

termination bubble_down
proof (relation "measure (\<lambda>(lt, index, pq). length (pqq pq) - index)", goal_cases)
  case 1
  then show ?case by simp
next
  case (2 lt index pq minindex)
  then show ?case using min_child_down [of lt "pqq pq" index]
    by (auto simp: pq_swap_def Let_def intro!: diff_less_mono2)
qed

declare bubble_down.simps [simp del]

definition nghttp2_pq_pop :: "('e \<Rightarrow> 'e \<Rightarrow> bool) \<Rightarrow> 'e nghttp2_pq \<Rightarrow> 'e nghttp2_pq" where
  "nghttp2_pq_pop lt pq =
     (if 0 < length (pqq pq) then
        let q = (pqq pq)[0 := pqq pq ! (length (pqq pq) - 1)];
            pq = pq\<lparr>pqq := butlast q, pqindex := (pqindex pq)(q ! 0 := 0)\<rparr>
        in bubble_down lt 0 pq
      else pq)"

definition nghttp2_pq_remove :: "('e \<Rightarrow> 'e \<Rightarrow> bool) \<Rightarrow> 'e \<Rightarrow> 'e nghttp2_pq \<Rightarrow> 'e nghttp2_pq option" where
  "nghttp2_pq_remove lt item pq =
     (let i = pqindex pq item; n = length (pqq pq) in
      if \<not> (i < n \<and> pqq pq ! i = item) then None
      else if i = 0 then Some (nghttp2_pq_pop lt pq)
      else if i = n - 1 then Some (pq\<lparr>pqq := butlast (pqq pq)\<rparr>)
      else
        let q = (pqq pq)[i := pqq pq ! (n - 1)];
            pq = pq\<lparr>pqq := butlast q, pqindex := (pqindex pq)(q ! i := i)\<rparr>
        in Some (if lt item (q ! i) then bubble_down lt i pq else bubble_up lt i pq))"

definition nghttp2_pq_empty :: "'e nghttp2_pq \<Rightarrow> bool" where
  "nghttp2_pq_empty pq \<longleftrightarrow> length (pqq pq) = 0"

definition nghttp2_pq_size :: "'e nghttp2_pq \<Rightarrow> nat" where
  "nghttp2_pq_size pq = length (pqq pq)"

text \<open>
  \<open>update\<close> calls back into the application for every entry. The callback may change the entries
  (the state \<open>c\<close>), and with them the order, and reports a change with a value other than 0.
\<close>

fun pq_callbacks :: "('e \<Rightarrow> 'c \<Rightarrow> int \<times> 'c) \<Rightarrow> 'e list \<Rightarrow> int \<Rightarrow> 'c \<Rightarrow> int \<times> 'c" where
  "pq_callbacks f [] rv c = (rv, c)"
| "pq_callbacks f (e # es) rv c =
     (let (r, c) = f e c in pq_callbacks f es (or rv r) c)"

fun heapify :: "('e \<Rightarrow> 'e \<Rightarrow> bool) \<Rightarrow> nat \<Rightarrow> 'e nghttp2_pq \<Rightarrow> 'e nghttp2_pq" where
  "heapify lt 0 pq = pq"
| "heapify lt (Suc i) pq = heapify lt i (bubble_down lt i pq)"

definition nghttp2_pq_update ::
  "('c \<Rightarrow> 'e \<Rightarrow> 'e \<Rightarrow> bool) \<Rightarrow> ('e \<Rightarrow> 'c \<Rightarrow> int \<times> 'c) \<Rightarrow> 'c \<Rightarrow> 'e nghttp2_pq \<Rightarrow> 'c \<times> 'e nghttp2_pq" where
  "nghttp2_pq_update lt f c pq =
     (if length (pqq pq) = 0 then (c, pq)
      else
        let (rv, c) = pq_callbacks f (pqq pq) 0 c in
        (c, if rv \<noteq> 0 then heapify (lt c) (length (pqq pq)) pq else pq))"

fun pq_each :: "('e \<Rightarrow> 'c \<Rightarrow> int \<times> 'c) \<Rightarrow> 'e list \<Rightarrow> 'c \<Rightarrow> int \<times> 'c" where
  "pq_each f [] c = (0, c)"
| "pq_each f (e # es) c = (let (r, c) = f e c in if r \<noteq> 0 then (1, c) else pq_each f es c)"

definition nghttp2_pq_each :: "('e \<Rightarrow> 'c \<Rightarrow> int \<times> 'c) \<Rightarrow> 'c \<Rightarrow> 'e nghttp2_pq \<Rightarrow> int \<times> 'c" where
  "nghttp2_pq_each f c pq = (if length (pqq pq) = 0 then (0, c) else pq_each f (pqq pq) c)"

section \<open>Positions and content\<close>

text \<open>
  The part of the invariant that does not depend on the order: every stored entry knows its
  position (so no entry is stored twice), and the array is large enough.
\<close>

definition pq_indexed :: "'e nghttp2_pq \<Rightarrow> bool" where
  "pq_indexed pq \<longleftrightarrow> (\<forall>i < length (pqq pq). pqindex pq (pqq pq ! i) = i)"

definition pq_ok :: "'e nghttp2_pq \<Rightarrow> bool" where
  "pq_ok pq \<longleftrightarrow> pq_indexed pq \<and> length (pqq pq) \<le> pqcapacity pq"

lemma pq_indexed_distinct: "pq_indexed pq \<Longrightarrow> distinct (pqq pq)"
  unfolding pq_indexed_def distinct_conv_nth by metis

lemma length_pq_swap [simp]: "length (pqq (pq_swap i j pq)) = length (pqq pq)"
  by (simp add: pq_swap_def Let_def)

lemma capacity_pq_swap [simp]: "pqcapacity (pq_swap i j pq) = pqcapacity pq"
  by (simp add: pq_swap_def Let_def)

lemma mset_pq_swap [simp]:
  "i < length (pqq pq) \<Longrightarrow> j < length (pqq pq) \<Longrightarrow> mset (pqq (pq_swap i j pq)) = mset (pqq pq)"
  by (simp add: pq_swap_def Let_def mset_swap)

lemma nth_pq_swap:
  "i < length (pqq pq) \<Longrightarrow> j < length (pqq pq) \<Longrightarrow> k < length (pqq pq) \<Longrightarrow>
   pqq (pq_swap i j pq) ! k =
     (if k = j then pqq pq ! i else if k = i then pqq pq ! j else pqq pq ! k)"
  by (simp add: pq_swap_def Let_def nth_list_update)

lemma indexed_pq_swap [simp]:
  assumes "pq_indexed pq" "i < length (pqq pq)" "j < length (pqq pq)"
  shows "pq_indexed (pq_swap i j pq)"
  unfolding pq_indexed_def
proof (intro allI impI)
  fix k assume "k < length (pqq (pq_swap i j pq))"
  then have k: "k < length (pqq pq)" by simp
  have eq: "\<And>a b. a < length (pqq pq) \<Longrightarrow> b < length (pqq pq) \<Longrightarrow> pqq pq ! a = pqq pq ! b \<longleftrightarrow> a = b"
    using pq_indexed_distinct [OF assms(1)] by (simp add: nth_eq_iff_index_eq)
  show "pqindex (pq_swap i j pq) (pqq (pq_swap i j pq) ! k) = k"
    using assms k by (simp add: nth_pq_swap eq) (auto simp: pq_swap_def Let_def eq pq_indexed_def)
qed

lemma bubble_up_keeps:
  assumes "pq_indexed pq" "index < length (pqq pq)"
  shows "pq_indexed (bubble_up lt index pq)"
    and "mset (pqq (bubble_up lt index pq)) = mset (pqq pq)"
    and "length (pqq (bubble_up lt index pq)) = length (pqq pq)"
    and "pqcapacity (bubble_up lt index pq) = pqcapacity pq"
  using assms
proof (induction lt index pq rule: bubble_up.induct)
  case (1 lt index pq)
  {
    case 1
    show ?case using "1.IH"(1) 1 by (subst bubble_up.simps) (simp add: Let_def)
  next
    case 2
    show ?case using "1.IH"(2) 2 by (subst bubble_up.simps) (simp add: Let_def)
  next
    case 3
    show ?case using "1.IH"(3) 3 by (subst bubble_up.simps) (simp add: Let_def)
  next
    case 4
    show ?case using "1.IH"(4) 4 by (subst bubble_up.simps) (simp add: Let_def)
  }
qed

lemma bubble_down_keeps:
  assumes "pq_indexed pq"
  shows "pq_indexed (bubble_down lt index pq)"
    and "mset (pqq (bubble_down lt index pq)) = mset (pqq pq)"
    and "length (pqq (bubble_down lt index pq)) = length (pqq pq)"
    and "pqcapacity (bubble_down lt index pq) = pqcapacity pq"
  using assms
proof (induction lt index pq rule: bubble_down.induct)
  case (1 lt index pq)
  define m where "m = min_child lt (pqq pq) 2 (index * 2 + 1) index"
  have m: "m \<noteq> index \<Longrightarrow> index < length (pqq pq) \<and> m < length (pqq pq)"
    using min_child_down [of lt "pqq pq" index] by (auto simp: m_def)
  note IH = "1.IH" [OF m_def]
  have step: "bubble_down lt index pq =
      (if m = index then pq else bubble_down lt m (pq_swap index m pq))"
    by (subst bubble_down.simps) (simp add: Let_def m_def)
  {
    case 1
    then show ?case using IH(1) m by (simp add: step)
  next
    case 2
    then show ?case using IH(2) m by (simp add: step)
  next
    case 3
    then show ?case using IH(3) m by (simp add: step)
  next
    case 4
    then show ?case using IH(4) m by (simp add: step)
  }
qed

text \<open>The last entry takes the place of the one at \<open>i\<close>, as in \<open>pop\<close> and \<open>remove\<close>.\<close>

definition replace_by_last :: "nat \<Rightarrow> 'e nghttp2_pq \<Rightarrow> 'e nghttp2_pq" where
  "replace_by_last i pq =
     (let q = (pqq pq)[i := pqq pq ! (length (pqq pq) - 1)] in
      pq\<lparr>pqq := butlast q, pqindex := (pqindex pq)(q ! i := i)\<rparr>)"

lemma mset_replace_last:
  assumes "i < length q"
  shows "mset (butlast (q[i := q ! (length q - 1)])) = mset q - {# q ! i #}"
proof -
  have "q \<noteq> []" using assms by auto
  then obtain xs x where q: "q = xs @ [x]" by (metis rev_exhaust)
  show ?thesis
    using assms q by (cases "i = length xs") (auto simp: list_update_append nth_append mset_update
        butlast_append)
qed

lemma replace_by_last:
  assumes "pq_indexed pq" "i < length (pqq pq)"
  shows "pq_indexed (replace_by_last i pq)"
    and "mset (pqq (replace_by_last i pq)) = mset (pqq pq) - {# pqq pq ! i #}"
    and "\<And>j. j < length (pqq pq) - 1 \<Longrightarrow> j \<noteq> i \<Longrightarrow> pqq (replace_by_last i pq) ! j = pqq pq ! j"
    and "length (pqq (replace_by_last i pq)) = length (pqq pq) - 1"
    and "pqcapacity (replace_by_last i pq) = pqcapacity pq"
proof -
  let ?n = "length (pqq pq)"
  have eq: "\<And>a b. a < ?n \<Longrightarrow> b < ?n \<Longrightarrow> pqq pq ! a = pqq pq ! b \<longleftrightarrow> a = b"
    using pq_indexed_distinct [OF assms(1)] by (simp add: nth_eq_iff_index_eq)
  show "pq_indexed (replace_by_last i pq)"
    using assms by (auto simp: replace_by_last_def Let_def pq_indexed_def nth_butlast
        nth_list_update eq)
  show "mset (pqq (replace_by_last i pq)) = mset (pqq pq) - {# pqq pq ! i #}"
    using mset_replace_last [OF assms(2)] by (simp add: replace_by_last_def Let_def)
qed (simp_all add: replace_by_last_def Let_def nth_butlast)

section \<open>The order\<close>

text \<open>
  What the queue needs of its comparison: on the entries at hand it is a strict weak order.
  The set is a parameter because the comparison of the scheduler is an order only as long as
  the entries stay within a window.
\<close>

locale strict_weak_order =
  fixes lt :: "'e \<Rightarrow> 'e \<Rightarrow> bool"
    and S :: "'e set"
  assumes lt_asym: "x \<in> S \<Longrightarrow> y \<in> S \<Longrightarrow> lt x y \<Longrightarrow> \<not> lt y x"
    and not_lt_trans: "x \<in> S \<Longrightarrow> y \<in> S \<Longrightarrow> z \<in> S \<Longrightarrow> \<not> lt x y \<Longrightarrow> \<not> lt y z \<Longrightarrow> \<not> lt x z"
begin

definition le :: "'e \<Rightarrow> 'e \<Rightarrow> bool" where
  "le x y \<longleftrightarrow> \<not> lt y x"

lemma le_refl: "x \<in> S \<Longrightarrow> le x x"
  using lt_asym by (auto simp: le_def)

lemma le_trans: "le x y \<Longrightarrow> le y z \<Longrightarrow> x \<in> S \<Longrightarrow> y \<in> S \<Longrightarrow> z \<in> S \<Longrightarrow> le x z"
  using not_lt_trans unfolding le_def by blast

lemma lt_le: "lt x y \<Longrightarrow> x \<in> S \<Longrightarrow> y \<in> S \<Longrightarrow> le x y"
  using lt_asym by (auto simp: le_def)

text \<open>
  \<open>heap_from q b\<close>: every entry whose parent is at \<open>b\<close> or later is not smaller than its parent.
  \<open>heap_but q b k\<close> excuses the edges to \<open>k\<close> and from \<open>k\<close> as given by the two flags, and
  relates the parent of \<open>k\<close> with the children of \<open>k\<close> instead.
\<close>

definition heap_from :: "'e list \<Rightarrow> nat \<Rightarrow> bool" where
  "heap_from q b \<longleftrightarrow> (\<forall>i < length q. 0 < i \<longrightarrow> b \<le> (i - 1) div 2 \<longrightarrow> le (q ! ((i - 1) div 2)) (q ! i))"

definition bridge :: "'e list \<Rightarrow> nat \<Rightarrow> nat \<Rightarrow> bool" where
  "bridge q b k \<longleftrightarrow> (\<forall>c < length q. 0 < c \<longrightarrow> (c - 1) div 2 = k \<longrightarrow> 0 < k \<longrightarrow> b \<le> (k - 1) div 2 \<longrightarrow>
      le (q ! ((k - 1) div 2)) (q ! c))"

definition heap_up :: "'e list \<Rightarrow> nat \<Rightarrow> bool" where
  "heap_up q k \<longleftrightarrow> (\<forall>i < length q. 0 < i \<longrightarrow> i \<noteq> k \<longrightarrow> le (q ! ((i - 1) div 2)) (q ! i)) \<and> bridge q 0 k"

definition heap_down :: "'e list \<Rightarrow> nat \<Rightarrow> nat \<Rightarrow> bool" where
  "heap_down q b k \<longleftrightarrow>
     (\<forall>i < length q. 0 < i \<longrightarrow> b \<le> (i - 1) div 2 \<longrightarrow> (i - 1) div 2 \<noteq> k \<longrightarrow>
        le (q ! ((i - 1) div 2)) (q ! i)) \<and> bridge q b k"

lemma parent_neq: "0 < i \<Longrightarrow> (i - 1) div 2 \<noteq> (i :: nat)"
  by auto

lemma heap_up_swap:
  assumes up: "heap_up (pqq pq) k" and k: "k < length (pqq pq)" "0 < k"
    and S: "set (pqq pq) \<subseteq> S" and lt: "lt (pqq pq ! k) (pqq pq ! ((k - 1) div 2))"
  shows "heap_up (pqq (pq_swap ((k - 1) div 2) k pq)) ((k - 1) div 2)"
proof -
  define q p q' where defs: "q = pqq pq" "p = (k - 1) div 2" "q' = pqq (pq_swap p k pq)"
  have p: "p < k" "p < length q" using k by (auto simp: defs)
  have pk: "(k - Suc 0) div 2 = p" by (simp add: defs)
  have nth: "q' ! i = (if i = k then q ! p else if i = p then q ! k else q ! i)" if "i < length q" for i
    using that k p by (simp add: defs nth_pq_swap)
  have len: "length q' = length q" by (simp add: defs)
  have inS: "q ! i \<in> S" if "i < length q" for i using S that by (auto simp: defs)
  have edge: "le (q ! ((i - 1) div 2)) (q ! i)" if "i < length q" "0 < i" "i \<noteq> k" for i
    using up that by (auto simp: heap_up_def defs)
  have over: "le (q ! p) (q ! c)" if "c < length q" "0 < c" "(c - 1) div 2 = k" for c
    using up that k by (auto simp: heap_up_def bridge_def defs)
  have kp: "le (q ! k) (q ! p)" using lt k p inS by (intro lt_le) (auto simp: defs)
  have "le (q' ! ((i - 1) div 2)) (q' ! i)" if i: "i < length q" "0 < i" "i \<noteq> p" for i
  proof (cases "i = k")
    case True
    then show ?thesis using p kp k by (simp add: nth pk flip: defs(1))
  next
    case False
    have "(i - 1) div 2 < length q" using i by auto
    then have e: "q' ! ((i - 1) div 2) =
        (if (i - 1) div 2 = k then q ! p else if (i - 1) div 2 = p then q ! k else q ! ((i - 1) div 2))"
      by (rule nth)
    have "q' ! i = q ! i" using i False by (simp add: nth)
    moreover have "le (q ! k) (q ! i)" if "(i - 1) div 2 = p"
      using kp edge [OF i(1,2) False] that i k p inS by (metis le_trans defs(1))
    ultimately show ?thesis using over [OF i(1,2)] edge [OF i(1,2) False] e by auto
  qed
  moreover have "le (q' ! ((p - 1) div 2)) (q' ! c)"
    if c: "c < length q" "0 < c" "(c - 1) div 2 = p" "0 < p" for c
  proof -
    have pp: "(p - 1) div 2 < p" using c by auto
    then have "q' ! ((p - 1) div 2) = q ! ((p - 1) div 2)" using p by (simp add: nth)
    moreover have 1: "le (q ! ((p - 1) div 2)) (q ! p)" using edge [of p] p c by simp
    moreover have "le (q ! ((p - 1) div 2)) (q ! c)" if "c \<noteq> k"
      using 1 edge [of c] c that p pp inS by (metis le_trans less_trans)
    ultimately show ?thesis using c p parent_neq [of c] by (auto simp: nth)
  qed
  ultimately have "heap_up q' p" by (auto simp: heap_up_def bridge_def len)
  then show ?thesis by (simp add: defs)
qed

lemma bubble_up_heap:
  assumes "heap_up (pqq pq) k" "k < length (pqq pq)" "set (pqq pq) \<subseteq> S"
  shows "heap_from (pqq (bubble_up lt k pq)) 0"
  using assms
proof (induction k arbitrary: pq rule: less_induct)
  case (less k)
  show ?case
  proof (cases "k = 0 \<or> \<not> lt (pqq pq ! k) (pqq pq ! ((k - 1) div 2))")
    case True
    then have "bubble_up lt k pq = pq" by (subst bubble_up.simps) auto
    with less.prems True show ?thesis by (auto simp: heap_up_def heap_from_def le_def)
  next
    case False
    let ?pq = "pq_swap ((k - 1) div 2) k pq"
    have p: "(k - 1) div 2 < k" using False by auto
    then have "mset (pqq ?pq) = mset (pqq pq)" using less.prems(2) by simp
    then have "set (pqq ?pq) \<subseteq> S" using less.prems(3) by (metis set_mset_mset)
    then have "heap_from (pqq (bubble_up lt ((k - 1) div 2) ?pq)) 0"
      using False less.prems p by (intro less.IH heap_up_swap) auto
    moreover have "bubble_up lt k pq = bubble_up lt ((k - 1) div 2) ?pq"
      using False by (subst bubble_up.simps) (simp add: Let_def)
    ultimately show ?thesis by simp
  qed
qed

lemma min_child_least:
  assumes "m < length q" "set q \<subseteq> S"
  shows "le (q ! min_child lt q n j m) (q ! m) \<and>
    (\<forall>c. j \<le> c \<and> c < j + n \<and> c < length q \<longrightarrow> le (q ! min_child lt q n j m) (q ! c))"
  using assms(1)
proof (induction n arbitrary: j m)
  case 0
  then show ?case using assms(2) by (auto intro!: le_refl)
next
  case (Suc n)
  show ?case
  proof (cases "length q \<le> j")
    case True
    with Suc.prems assms(2) show ?thesis by (auto intro!: le_refl)
  next
    case False
    have inS: "\<And>i. i < length q \<Longrightarrow> q ! i \<in> S" using assms(2) by auto
    define m' where "m' = (if lt (q ! j) (q ! m) then j else m)"
    have m': "m' < length q" "le (q ! m') (q ! m)" "le (q ! m') (q ! j)"
      using False Suc.prems inS [of j] inS [of m] lt_asym [of "q ! j" "q ! m"] lt_asym [of "q ! m" "q ! m"]
        lt_asym [of "q ! j" "q ! j"]
      by (auto simp: m'_def le_def)
    define r where "r = min_child lt q n (Suc j) m'"
    have IH: "le (q ! r) (q ! m')"
      "\<And>c. Suc j \<le> c \<Longrightarrow> c < Suc j + n \<Longrightarrow> c < length q \<Longrightarrow> le (q ! r) (q ! c)"
      using Suc.IH [OF m'(1), of "Suc j"] by (auto simp: r_def)
    have r: "r < length q" using min_child_range [of lt q n "Suc j" m'] m'(1) by (auto simp: r_def)
    have step: "min_child lt q (Suc n) j m = r" using False by (simp add: r_def m'_def)
    have "le (q ! r) (q ! m)" "le (q ! r) (q ! j)"
      using le_trans [OF IH(1)] m' r inS Suc.prems False by auto
    moreover have "le (q ! r) (q ! c)" if "j \<le> c" "c < j + Suc n" "c < length q" for c
      using that IH(2) [of c] calculation by (cases "c = j") auto
    ultimately show ?thesis unfolding step by auto
  qed
qed

lemma min_child_children:
  assumes "k < length q" "set q \<subseteq> S" "c < length q" "0 < c" "(c - 1) div 2 = k"
  shows "le (q ! min_child lt q 2 (k * 2 + 1) k) (q ! c)"
proof -
  have "k * 2 + 1 \<le> c" "c < k * 2 + 1 + 2" using assms(4,5) by auto
  then show ?thesis using min_child_least [OF assms(1,2), of 2 "k * 2 + 1"] assms(3) by blast
qed

lemma heap_down_swap:
  assumes down: "heap_down (pqq pq) b k" and S: "set (pqq pq) \<subseteq> S" and b: "b \<le> k"
    and m: "m = min_child lt (pqq pq) 2 (k * 2 + 1) k" "m \<noteq> k"
  shows "heap_down (pqq (pq_swap k m pq)) b m"
proof -
  define q q' where defs: "q = pqq pq" "q' = pqq (pq_swap k m pq)"
  have mk: "k < m" "m < length q" "(m - 1) div 2 = k"
    using m min_child_down [of lt q k] by (auto simp: defs)
  have nth: "q' ! i = (if i = m then q ! k else if i = k then q ! m else q ! i)" if "i < length q" for i
    using that mk by (simp add: defs nth_pq_swap)
  have len: "length q' = length q" by (simp add: defs)
  have edge: "le (q ! ((i - 1) div 2)) (q ! i)"
    if "i < length q" "0 < i" "b \<le> (i - 1) div 2" "(i - 1) div 2 \<noteq> k" for i
    using down that by (auto simp: heap_down_def defs)
  have over: "le (q ! ((k - 1) div 2)) (q ! m)" if "0 < k" "b \<le> (k - 1) div 2"
    using down that mk by (auto simp: heap_down_def bridge_def defs)
  have least: "le (q ! m) (q ! c)" if "c < length q" "0 < c" "(c - 1) div 2 = k" for c
    using min_child_children [of k q c] that mk S m by (auto simp: defs)
  have leastk: "le (q ! m) (q ! k)"
    using min_child_least [of k q 2 "k * 2 + 1"] mk S m by (auto simp: defs)
  have "le (q' ! ((i - 1) div 2)) (q' ! i)"
    if i: "i < length q" "0 < i" "b \<le> (i - 1) div 2" "(i - 1) div 2 \<noteq> m" for i
  proof -
    have "(i - 1) div 2 < length q" using i by auto
    then have e: "q' ! ((i - 1) div 2) = (if (i - 1) div 2 = k then q ! m else q ! ((i - 1) div 2))"
      using i by (simp add: nth)
    show ?thesis
    proof (cases "i = k")
      case True
      with i mk have "(k - 1) div 2 \<noteq> k" using parent_neq by blast
      then show ?thesis using True i over mk e by (auto simp: nth)
    next
      case False
      then show ?thesis using e i mk leastk least [OF i(1,2)] edge [OF i(1-3)] by (auto simp: nth)
    qed
  qed
  moreover have "le (q' ! ((m - 1) div 2)) (q' ! c)"
    if c: "c < length q" "0 < c" "(c - 1) div 2 = m" for c
  proof -
    have "le (q ! m) (q ! c)" using edge [OF c(1,2)] c mk b m by auto
    moreover have "c \<noteq> m" "c \<noteq> k" using c mk by auto
    ultimately show ?thesis using c mk by (simp add: nth)
  qed
  ultimately have "heap_down q' b m" by (auto simp: heap_down_def bridge_def len)
  then show ?thesis by (simp add: defs)
qed

lemma bubble_down_heap:
  assumes "heap_down (pqq pq) b k" "set (pqq pq) \<subseteq> S" "b \<le> k"
  shows "heap_from (pqq (bubble_down lt k pq)) b"
  using assms
proof (induction "length (pqq pq) - k" arbitrary: k pq rule: less_induct)
  case less
  define m where "m = min_child lt (pqq pq) 2 (k * 2 + 1) k"
  have step: "bubble_down lt k pq = (if m = k then pq else bubble_down lt m (pq_swap k m pq))"
    by (subst bubble_down.simps) (simp add: Let_def m_def)
  show ?case
  proof (cases "m = k")
    case True
    have "le (pqq pq ! ((i - 1) div 2)) (pqq pq ! i)"
      if "i < length (pqq pq)" "0 < i" "b \<le> (i - 1) div 2" for i
    proof (cases "(i - 1) div 2 = k")
      case True
      with that \<open>m = k\<close> min_child_children [of k "pqq pq" i] less.prems(2) show ?thesis
        by (auto simp: m_def)
    next
      case False
      with that less.prems(1) show ?thesis by (auto simp: heap_down_def)
    qed
    then show ?thesis using True by (simp add: step heap_from_def)
  next
    case False
    have mk: "k < m" "m < length (pqq pq)"
      using False min_child_down [of lt "pqq pq" k] by (auto simp: m_def)
    then have "mset (pqq (pq_swap k m pq)) = mset (pqq pq)" by simp
    then have "set (pqq (pq_swap k m pq)) \<subseteq> S" using less.prems(2) by (metis set_mset_mset)
    moreover have "heap_down (pqq (pq_swap k m pq)) b m"
      using less.prems False by (intro heap_down_swap) (auto simp: m_def)
    ultimately have "heap_from (pqq (bubble_down lt m (pq_swap k m pq))) b"
      using mk less.prems by (intro less.hyps) auto
    with False show ?thesis by (simp add: step)
  qed
qed

lemma heap_root_least:
  assumes "heap_from q 0" "set q \<subseteq> S" "i < length q"
  shows "le (q ! 0) (q ! i)"
  using assms(3)
proof (induction i rule: less_induct)
  case (less i)
  show ?case
  proof (cases "i = 0")
    case True
    have "q ! 0 \<in> set q" using less.prems by (intro nth_mem) auto
    then show ?thesis using True assms(2) by (auto intro!: le_refl)
  next
    case False
    then have p: "(i - 1) div 2 < i" by auto
    have "le (q ! 0) (q ! ((i - 1) div 2))" using less p by auto
    moreover have "le (q ! ((i - 1) div 2)) (q ! i)"
      using assms(1) less.prems False by (simp add: heap_from_def)
    moreover have "q ! 0 \<in> set q" "q ! ((i - 1) div 2) \<in> set q" "q ! i \<in> set q"
      using less.prems p by (auto intro!: nth_mem)
    ultimately show ?thesis using assms(2) by (blast intro: le_trans)
  qed
qed

definition pq_inv :: "'e nghttp2_pq \<Rightarrow> bool" where
  "pq_inv pq \<longleftrightarrow> pq_ok pq \<and> set (pqq pq) \<subseteq> S \<and> heap_from (pqq pq) 0"

lemma pq_init_inv: "pq_inv (nghttp2_pq_init mem ix)"
  by (simp add: pq_inv_def pq_ok_def pq_indexed_def nghttp2_pq_init_def heap_from_def)

lemma pq_top_least:
  assumes "pq_inv pq"
  shows "nghttp2_pq_top pq = None \<longleftrightarrow> pqq pq = []"
    and "nghttp2_pq_top pq = Some x \<Longrightarrow> x \<in> set (pqq pq) \<and> (\<forall>y \<in> set (pqq pq). \<not> lt y x)"
  using assms heap_root_least [of "pqq pq"]
  by (auto simp: nghttp2_pq_top_def pq_inv_def le_def in_set_conv_nth split: if_splits)

lemma heap_up_snoc:
  assumes "heap_from q 0"
  shows "heap_up (q @ [x]) (length q)"
proof -
  have "(i - 1) div 2 < length q" if "i < length q" for i using that by auto
  then show ?thesis using assms by (auto simp: heap_up_def heap_from_def bridge_def nth_append)
qed

lemma pq_snoc_inv:
  assumes "pq_indexed pq" "set (pqq pq) \<subseteq> S" "heap_from (pqq pq) 0" "length (pqq pq) < pqcapacity pq"
    and "x \<in> S" "x \<notin> set (pqq pq)"
  defines "pq1 \<equiv> pq\<lparr>pqq := pqq pq @ [x], pqindex := (pqindex pq)(x := length (pqq pq))\<rparr>"
  shows "pq_inv (bubble_up lt (length (pqq pq)) pq1)"
    and "mset (pqq (bubble_up lt (length (pqq pq)) pq1)) = add_mset x (mset (pqq pq))"
proof -
  have "pq_indexed pq1"
    using assms(1,6) by (auto simp: pq1_def pq_indexed_def nth_append less_Suc_eq)
  moreover have l: "length (pqq pq) < length (pqq pq1)" by (simp add: pq1_def)
  ultimately have k: "pq_indexed (bubble_up lt (length (pqq pq)) pq1)"
      "mset (pqq (bubble_up lt (length (pqq pq)) pq1)) = mset (pqq pq1)"
      "length (pqq (bubble_up lt (length (pqq pq)) pq1)) = length (pqq pq1)"
      "pqcapacity (bubble_up lt (length (pqq pq)) pq1) = pqcapacity pq1"
    by (auto intro!: bubble_up_keeps)
  have S1: "set (pqq pq1) \<subseteq> S" using assms(2,5) by (simp add: pq1_def)
  then have "set (pqq (bubble_up lt (length (pqq pq)) pq1)) \<subseteq> S" using k(2) by (metis set_mset_mset)
  moreover have "heap_from (pqq (bubble_up lt (length (pqq pq)) pq1)) 0"
    using heap_up_snoc [OF assms(3), of x] l S1 by (intro bubble_up_heap) (simp_all add: pq1_def)
  ultimately show "pq_inv (bubble_up lt (length (pqq pq)) pq1)"
    using k assms(4) by (simp add: pq_inv_def pq_ok_def pq1_def)
  show "mset (pqq (bubble_up lt (length (pqq pq)) pq1)) = add_mset x (mset (pqq pq))"
    using k(2) by (simp add: pq1_def)
qed

lemma pq_push_cases:
  assumes inv: "pq_inv pq" and x: "x \<in> S" "x \<notin> set (pqq pq)"
    and push: "nghttp2_pq_push lt x pq = (r, pq')"
  shows "pq_inv pq' \<and>
    (r = Inr () \<and> mset (pqq pq') = add_mset x (mset (pqq pq)) \<or>
     r = Inl ERR_NOMEM \<and> pqq pq' = pqq pq \<and> False \<in> set (pqmem pq))"
proof -
  have base: "pq_indexed pq" "set (pqq pq) \<subseteq> S" "heap_from (pqq pq) 0" "length (pqq pq) \<le> pqcapacity pq"
    using inv by (auto simp: pq_inv_def pq_ok_def)
  show ?thesis
  proof (cases "pqcapacity pq \<le> length (pqq pq)")
    case False
    with push have e: "r = Inr ()"
      "pq' = bubble_up lt (length (pqq pq))
         (pq\<lparr>pqq := pqq pq @ [x], pqindex := (pqindex pq)(x := length (pqq pq))\<rparr>)"
      by auto
    show ?thesis using pq_snoc_inv [OF base(1-3) _ x] False e by simp
  next
    case True
    obtain ok mem where m: "mem_alloc (pqmem pq) = (ok, mem)" by fastforce
    show ?thesis
    proof (cases ok)
      case False
      then have "False \<in> set (pqmem pq)" using m by (cases "pqmem pq") auto
      with False push m True inv show ?thesis by (auto simp: pq_inv_def pq_ok_def pq_indexed_def)
    next
      case ok: True
      define pq0 where "pq0 = pq\<lparr>pqmem := mem, pqcapacity := max 4 (pqcapacity pq * 2)\<rparr>"
      have f: "pq_indexed pq0" "pqq pq0 = pqq pq" "pqindex pq0 = pqindex pq"
        "length (pqq pq) < pqcapacity pq0"
        using base True by (auto simp: pq0_def pq_indexed_def)
      have e: "r = Inr ()"
        "pq' = bubble_up lt (length (pqq pq))
         (pq0\<lparr>pqq := pqq pq @ [x], pqindex := (pqindex pq)(x := length (pqq pq))\<rparr>)"
        using push m ok True by (auto simp: pq0_def)
      show ?thesis using pq_snoc_inv [of pq0 x] base x e f by simp
    qed
  qed
qed

lemma heap_from_butlast: "heap_from q 0 \<Longrightarrow> heap_from (butlast q) 0"
proof -
  have "(i - 1) div 2 < length q - 1" if "i < length q - 1" for i using that by auto
  then show "heap_from q 0 \<Longrightarrow> heap_from (butlast q) 0" by (auto simp: heap_from_def nth_butlast)
qed

lemma pq_pop_correct:
  assumes inv: "pq_inv pq" and ne: "pqq pq \<noteq> []"
  shows "pq_inv (nghttp2_pq_pop lt pq) \<and>
    mset (pqq (nghttp2_pq_pop lt pq)) = mset (pqq pq) - {# pqq pq ! 0 #}"
proof -
  define q where "q = pqq pq"
  define pq1 where "pq1 = replace_by_last 0 pq"
  have n: "0 < length q" using ne by (simp add: q_def)
  have pop: "nghttp2_pq_pop lt pq = bubble_down lt 0 pq1"
    using ne by (simp add: nghttp2_pq_pop_def pq1_def replace_by_last_def Let_def)
  have base: "pq_indexed pq" "set q \<subseteq> S" "heap_from q 0" "length q \<le> pqcapacity pq"
    using inv by (auto simp: pq_inv_def pq_ok_def q_def)
  note r = replace_by_last [OF base(1), of 0, folded q_def pq1_def, OF n]
  have S1: "set (pqq pq1) \<subseteq> S"
    using r(2) base(2) by (metis diff_subset_eq_self order_trans set_mset_mono set_mset_mset)
  have "heap_down (pqq pq1) 0 0"
  proof -
    have "le (pqq pq1 ! ((i - 1) div 2)) (pqq pq1 ! i)"
      if "i < length (pqq pq1)" "0 < i" "(i - 1) div 2 \<noteq> 0" for i
      using that base(3) r(3,4) by (auto simp: heap_from_def)
    then show ?thesis by (auto simp: heap_down_def bridge_def)
  qed
  then have "heap_from (pqq (bubble_down lt 0 pq1)) 0" using S1 by (intro bubble_down_heap) auto
  moreover have "set (pqq (bubble_down lt 0 pq1)) \<subseteq> S"
    using S1 bubble_down_keeps(2) [OF r(1), of lt 0] by (metis set_mset_mset)
  ultimately show ?thesis
    using bubble_down_keeps [OF r(1), of lt 0] r base(4)
    by (simp add: pop pq_inv_def pq_ok_def q_def)
qed

lemma pq_remove_middle:
  assumes inv: "pq_inv pq" and i: "0 < i" "i < length (pqq pq) - 1"
  defines "x \<equiv> pqq pq ! (length (pqq pq) - 1)"
  defines "pq1 \<equiv> replace_by_last i pq"
  shows "lt (pqq pq ! i) x \<Longrightarrow> heap_down (pqq pq1) 0 i"
    and "\<not> lt (pqq pq ! i) x \<Longrightarrow> heap_up (pqq pq1) i"
proof -
  define q where "q = pqq pq"
  have base: "pq_indexed pq" "set q \<subseteq> S" "heap_from q 0"
    using inv by (auto simp: pq_inv_def pq_ok_def q_def)
  have il: "i < length q" using i by (simp add: q_def)
  note r = replace_by_last [OF base(1), of i, folded q_def pq1_def, OF il]
  have inS: "\<And>j. j < length q \<Longrightarrow> q ! j \<in> S" using base(2) by auto
  have e: "le (q ! ((j - 1) div 2)) (q ! j)" if "j < length q" "0 < j" for j
    using base(3) that by (auto simp: heap_from_def)
  have x: "x \<in> S" "x = q ! (length q - 1)" using inS [of "length q - 1"] i by (auto simp: q_def x_def)
  have nth: "pqq pq1 ! j = (if j = i then x else q ! j)" if "j < length q - 1" for j
    using r(3,4) that i by (auto simp: replace_by_last_def x_def pq1_def q_def nth_butlast)
  have len: "length (pqq pq1) = length q - 1" by (rule r(4))
  have par: "(j - 1) div 2 < length q" "(j - 1) div 2 < length q - 1" if "j < length q - 1" for j
    using that by auto
  have br: "bridge (pqq pq1) 0 i"
  proof -
    have "le (q ! ((i - 1) div 2)) (q ! c)" if "c < length q - 1" "0 < c" "(c - 1) div 2 = i" for c
      using le_trans [OF e [of i] e [of c, unfolded that(3)]] that i il inS by auto
    moreover have "(i - 1) div 2 \<noteq> i" using i by auto
    moreover have "c \<noteq> i" if "0 < c" "(c - 1) div 2 = i" for c using that by auto
    ultimately show ?thesis using i by (auto simp: bridge_def len nth)
  qed
  show "heap_down (pqq pq1) 0 i" if l: "lt (pqq pq ! i) x"
  proof -
    have "le (q ! ((i - 1) div 2)) x"
      using le_trans [OF e [of i] lt_le [of "q ! i" x]] i il inS x l by (auto simp: q_def)
    then have "le (pqq pq1 ! ((j - 1) div 2)) (pqq pq1 ! j)"
      if "j < length q - 1" "0 < j" "(j - 1) div 2 \<noteq> i" for j
      using that e [of j] by (auto simp: nth)
    then show ?thesis using br by (auto simp: heap_down_def len)
  qed
  show "heap_up (pqq pq1) i" if l: "\<not> lt (pqq pq ! i) x"
  proof -
    have xi: "le x (q ! i)" using l by (simp add: le_def q_def)
    have "le x (q ! c)" if "c < length q - 1" "0 < c" "(c - 1) div 2 = i" for c
      using that e [of c] xi x inS il by (auto intro: le_trans)
    then have "le (pqq pq1 ! ((j - 1) div 2)) (pqq pq1 ! j)" if "j < length q - 1" "0 < j" "j \<noteq> i" for j
      using that e [of j] by (auto simp: nth)
    then show ?thesis using br by (auto simp: heap_up_def len)
  qed
qed

lemma pq_remove_correct:
  assumes inv: "pq_inv pq" and x: "x \<in> set (pqq pq)"
  shows "\<exists>pq'. nghttp2_pq_remove lt x pq = Some pq' \<and> pq_inv pq' \<and>
    mset (pqq pq') = mset (pqq pq) - {# x #}"
proof -
  define q i where defs: "q = pqq pq" "i = pqindex pq x"
  have base: "pq_indexed pq" "set q \<subseteq> S" "heap_from q 0" "length q \<le> pqcapacity pq"
    using inv by (auto simp: pq_inv_def pq_ok_def defs)
  have i: "i < length q" "q ! i = x"
    using x base(1) by (auto simp: defs pq_indexed_def in_set_conv_nth)
  show ?thesis
  proof (cases "i = 0")
    case True
    then show ?thesis using pq_pop_correct [OF inv] i
      by (auto simp: nghttp2_pq_remove_def Let_def defs [symmetric])
  next
    case pos: False
    show ?thesis
    proof (cases "i = length q - 1")
      case True
      have "q = butlast q @ [x]"
        using i True by (metis append_butlast_last_id last_conv_nth length_0_conv not_less0)
      then have "mset (butlast q) = mset q - {#x#}" by (metis add_mset_remove_trivial mset_append
            add_mset_add_single mset.simps mset_single_iff_right)
      moreover have "set (butlast q) \<subseteq> S" using base(2) in_set_butlastD by fastforce
      moreover have "pq_indexed (pq\<lparr>pqq := butlast q\<rparr>)"
        using base(1) by (auto simp: pq_indexed_def nth_butlast defs)
      ultimately show ?thesis using base heap_from_butlast [of q] True pos i
        by (auto simp: nghttp2_pq_remove_def Let_def defs [symmetric] pq_inv_def pq_ok_def)
    next
      case False
      define pq1 where "pq1 = replace_by_last i pq"
      let ?y = "q ! (length q - 1)"
      define pq' where "pq' = (if lt x ?y then bubble_down lt i pq1 else bubble_up lt i pq1)"
      have il: "0 < i" "i < length (pqq pq) - 1" using pos False i by (auto simp: defs)
      note r = replace_by_last [OF base(1), of i, folded defs(1) pq1_def, OF i(1)]
      have S1: "set (pqq pq1) \<subseteq> S"
        using r(2) base(2) by (metis diff_subset_eq_self order_trans set_mset_mono set_mset_mset)
      have h: "heap_from (pqq pq') 0"
        using pq_remove_middle [OF inv il, folded defs pq1_def] S1 i il r(4)
          bubble_down_heap [of pq1 0 i] bubble_up_heap [of pq1 i]
        by (auto simp: defs pq'_def)
      have k: "pq_indexed pq'" "mset (pqq pq') = mset (pqq pq1)" "length (pqq pq') = length (pqq pq1)"
        "pqcapacity pq' = pqcapacity pq1"
        using bubble_down_keeps [OF r(1)] bubble_up_keeps [OF r(1)] il r(4)
        by (auto simp: defs pq'_def)
      have "set (pqq pq') \<subseteq> S" using k(2) S1 by (metis set_mset_mset)
      moreover have "nghttp2_pq_remove lt x pq = Some pq'"
        using pos False i
        by (simp add: nghttp2_pq_remove_def Let_def defs [symmetric] pq1_def replace_by_last_def
            pq'_def)
      ultimately show ?thesis using h k r base(4) i by (auto simp: pq_inv_def pq_ok_def defs(1))
    qed
  qed
qed

lemma heapify_correct:
  assumes "pq_indexed pq" "set (pqq pq) \<subseteq> S" "heap_from (pqq pq) n"
  shows "heap_from (pqq (heapify lt n pq)) 0 \<and> pq_indexed (heapify lt n pq) \<and>
    mset (pqq (heapify lt n pq)) = mset (pqq pq) \<and>
    pqcapacity (heapify lt n pq) = pqcapacity pq"
  using assms
proof (induction n arbitrary: pq)
  case 0
  then show ?case by simp
next
  case (Suc n)
  let ?pq = "bubble_down lt n pq"
  have "heap_down (pqq pq) n n"
    using Suc.prems(3) by (auto simp: heap_down_def heap_from_def bridge_def Suc_le_eq)
  then have "heap_from (pqq ?pq) n" using Suc.prems by (intro bubble_down_heap) auto
  moreover note k = bubble_down_keeps [OF Suc.prems(1), of lt n]
  moreover have "set (pqq ?pq) \<subseteq> S" using k(2) Suc.prems(2) by (metis set_mset_mset)
  ultimately show ?case using Suc.IH [of ?pq] by simp
qed

end

section \<open>The queue as its clients see it\<close>

definition heap_ordered :: "('e \<Rightarrow> 'e \<Rightarrow> bool) \<Rightarrow> 'e list \<Rightarrow> bool" where
  "heap_ordered lt q \<longleftrightarrow> (\<forall>i < length q. 0 < i \<longrightarrow> \<not> lt (q ! i) (q ! ((i - 1) div 2)))"

text \<open>
  The invariant: positions agree, the array is large enough, the comparison is a strict weak
  order on the stored entries, and no entry is smaller than its parent.
\<close>

definition pq_valid :: "('e \<Rightarrow> 'e \<Rightarrow> bool) \<Rightarrow> 'e nghttp2_pq \<Rightarrow> bool" where
  "pq_valid lt pq \<longleftrightarrow>
     pq_ok pq \<and> strict_weak_order lt (set (pqq pq)) \<and> heap_ordered lt (pqq pq)"

lemma swo_subset: "strict_weak_order lt S \<Longrightarrow> T \<subseteq> S \<Longrightarrow> strict_weak_order lt T"
  unfolding strict_weak_order_def by blast

lemma pq_valid_inv:
  assumes "strict_weak_order lt S" "set (pqq pq) \<subseteq> S"
  shows "pq_valid lt pq \<longleftrightarrow> strict_weak_order.pq_inv lt S pq"
  using assms swo_subset [OF assms]
  by (simp add: pq_valid_def strict_weak_order.pq_inv_def heap_ordered_def
      strict_weak_order.heap_from_def strict_weak_order.le_def)

lemma swo_S_irrelevant:
  "strict_weak_order lt S \<Longrightarrow> strict_weak_order.pq_inv lt S pq \<Longrightarrow> pq_valid lt pq"
  using pq_valid_inv [of lt S pq] by (auto simp: strict_weak_order.pq_inv_def)

lemma pq_valid_top:
  assumes "pq_valid lt pq"
  shows "nghttp2_pq_top pq = None \<longleftrightarrow> pqq pq = []"
    and "nghttp2_pq_top pq = Some x \<Longrightarrow> x \<in> set (pqq pq) \<and> (\<forall>y \<in> set (pqq pq). \<not> lt y x)"
proof -
  have swo: "strict_weak_order lt (set (pqq pq))" using assms by (simp add: pq_valid_def)
  have inv: "strict_weak_order.pq_inv lt (set (pqq pq)) pq"
    using pq_valid_inv [OF swo] assms by simp
  show "nghttp2_pq_top pq = None \<longleftrightarrow> pqq pq = []"
    by (rule strict_weak_order.pq_top_least(1) [OF swo inv])
  show "nghttp2_pq_top pq = Some x \<Longrightarrow> x \<in> set (pqq pq) \<and> (\<forall>y \<in> set (pqq pq). \<not> lt y x)"
    by (rule strict_weak_order.pq_top_least(2) [OF swo inv])
qed

lemma pq_valid_push:
  assumes "pq_valid lt pq" "strict_weak_order lt (insert x (set (pqq pq)))" "x \<notin> set (pqq pq)"
    and "nghttp2_pq_push lt x pq = (r, pq')"
  shows "pq_valid lt pq' \<and>
    (r = Inr () \<and> mset (pqq pq') = add_mset x (mset (pqq pq)) \<or>
     r = Inl ERR_NOMEM \<and> pqq pq' = pqq pq \<and> False \<in> set (pqmem pq))"
proof -
  have "strict_weak_order.pq_inv lt (insert x (set (pqq pq))) pq"
    using pq_valid_inv [OF assms(2)] assms(1) by blast
  from strict_weak_order.pq_push_cases [OF assms(2) this _ assms(3,4)]
  show ?thesis using swo_S_irrelevant [OF assms(2)] by blast
qed

lemma pq_valid_remove:
  assumes "pq_valid lt pq" "x \<in> set (pqq pq)"
  shows "\<exists>pq'. nghttp2_pq_remove lt x pq = Some pq' \<and> pq_valid lt pq' \<and>
    mset (pqq pq') = mset (pqq pq) - {# x #}"
proof -
  have swo: "strict_weak_order lt (set (pqq pq))" using assms by (simp add: pq_valid_def)
  have inv: "strict_weak_order.pq_inv lt (set (pqq pq)) pq"
    using pq_valid_inv [OF swo] assms by simp
  show ?thesis
    using strict_weak_order.pq_remove_correct [OF swo inv assms(2)] swo_S_irrelevant [OF swo] by blast
qed

lemma pq_valid_pop:
  assumes "pq_valid lt pq" "nghttp2_pq_top pq = Some x"
  shows "pq_valid lt (nghttp2_pq_pop lt pq) \<and> mset (pqq (nghttp2_pq_pop lt pq)) = mset (pqq pq) - {# x #}"
proof -
  have swo: "strict_weak_order lt (set (pqq pq))" using assms by (simp add: pq_valid_def)
  have inv: "strict_weak_order.pq_inv lt (set (pqq pq)) pq"
    using pq_valid_inv [OF swo] assms by simp
  have "pqq pq \<noteq> []" "x = pqq pq ! 0" using assms(2) by (auto simp: nghttp2_pq_top_def split: if_splits)
  then show ?thesis
    using strict_weak_order.pq_pop_correct [OF swo inv] swo_S_irrelevant [OF swo] by blast
qed

lemma pq_remove_capacity:
  assumes "pq_indexed pq" "nghttp2_pq_remove lt x pq = Some pq'"
  shows "pqcapacity pq' = pqcapacity pq"
proof -
  define i where "i = pqindex pq x"
  have i: "i < length (pqq pq)"
    using assms(2) by (auto simp: nghttp2_pq_remove_def Let_def i_def split: if_splits)
  note r = replace_by_last [OF assms(1) i]
  have pop: "nghttp2_pq_pop lt pq = bubble_down lt 0 (replace_by_last 0 pq)" if "pqq pq \<noteq> []"
    using that by (simp add: nghttp2_pq_pop_def replace_by_last_def Let_def)
  have "pq' = nghttp2_pq_pop lt pq \<and> i = 0 \<or> pq' = pq\<lparr>pqq := butlast (pqq pq)\<rparr> \<or>
      pq' = bubble_down lt i (replace_by_last i pq) \<or>
      i < length (pqq pq) - 1 \<and> pq' = bubble_up lt i (replace_by_last i pq)"
    using assms(2) i
    by (auto simp: nghttp2_pq_remove_def Let_def i_def replace_by_last_def split: if_splits)
  then show ?thesis
    using bubble_down_keeps(4) [OF r(1)] bubble_up_keeps(4) [OF r(1), of i] r(4,5) pop i by auto
qed

lemma pq_push_room: "length (pqq pq) < pqcapacity pq \<Longrightarrow> fst (nghttp2_pq_push lt x pq) = Inr ()"
  by (simp add: Let_def)

lemma pq_valid_cong:
  assumes "\<And>x y. x \<in> set (pqq pq) \<Longrightarrow> y \<in> set (pqq pq) \<Longrightarrow> lt x y = lt' x y"
  shows "pq_valid lt pq = pq_valid lt' pq"
proof -
  have "heap_ordered lt (pqq pq) = heap_ordered lt' (pqq pq)"
  proof -
    have "(i - 1) div 2 < length (pqq pq)" if "i < length (pqq pq)" for i using that by auto
    then show ?thesis using assms by (auto simp: heap_ordered_def)
  qed
  moreover have "strict_weak_order lt (set (pqq pq)) = strict_weak_order lt' (set (pqq pq))"
    using assms unfolding strict_weak_order_def by blast
  ultimately show ?thesis by (simp add: pq_valid_def)
qed

text \<open>Popping until the queue is empty.\<close>

fun pq_drain :: "('e \<Rightarrow> 'e \<Rightarrow> bool) \<Rightarrow> nat \<Rightarrow> 'e nghttp2_pq \<Rightarrow> 'e list" where
  "pq_drain lt 0 pq = []"
| "pq_drain lt (Suc n) pq =
     (case nghttp2_pq_top pq of
        None \<Rightarrow> []
      | Some x \<Rightarrow> x # pq_drain lt n (nghttp2_pq_pop lt pq))"

lemma pq_drain_spec:
  assumes "pq_valid lt pq" "length (pqq pq) \<le> n"
  shows "sorted_wrt (\<lambda>x y. \<not> lt y x) (pq_drain lt n pq) \<and> mset (pq_drain lt n pq) = mset (pqq pq)"
  using assms
proof (induction n arbitrary: pq)
  case 0
  then show ?case by simp
next
  case (Suc n)
  show ?case
  proof (cases "nghttp2_pq_top pq")
    case None
    with pq_valid_top(1) [OF Suc.prems(1)] show ?thesis by simp
  next
    case (Some x)
    have x: "x \<in> set (pqq pq)" "\<forall>y \<in> set (pqq pq). \<not> lt y x"
      using pq_valid_top(2) [OF Suc.prems(1) Some] by auto
    have pop: "pq_valid lt (nghttp2_pq_pop lt pq)"
      "mset (pqq (nghttp2_pq_pop lt pq)) = mset (pqq pq) - {# x #}"
      using pq_valid_pop [OF Suc.prems(1) Some] by auto
    then have "size (mset (pqq (nghttp2_pq_pop lt pq))) = length (pqq pq) - 1"
      using x by (simp add: size_Diff_singleton)
    then have "length (pqq (nghttp2_pq_pop lt pq)) \<le> n" using Suc.prems(2) by simp
    note IH = Suc.IH [OF pop(1) this]
    then have "set (pq_drain lt n (nghttp2_pq_pop lt pq)) \<subseteq> set (pqq pq)"
      using pop(2) by (metis diff_subset_eq_self set_mset_mono set_mset_mset)
    with IH pop x Some show ?thesis by auto
  qed
qed

declare nghttp2_pq_push.simps [simp del]

section \<open>Properties\<close>

lemma pq_push_error:
  assumes "nghttp2_pq_push lt x pq = (r, pq')"
  shows "r = Inl ERR_NOMEM \<longleftrightarrow> pqcapacity pq \<le> length (pqq pq) \<and> \<not> fst (mem_alloc (pqmem pq))"
  using assms by (auto simp: nghttp2_pq_push.simps Let_def split: if_splits prod.splits)

lemma pq_pop_empty: "pqq pq = [] \<Longrightarrow> nghttp2_pq_pop lt pq = pq"
  by (simp add: nghttp2_pq_pop_def)

lemma pq_valid_capacity: "pq_valid lt pq \<Longrightarrow> length (pqq pq) \<le> pqcapacity pq"
  by (simp add: pq_valid_def pq_ok_def)


text \<open>A queue with three entries, for the witnesses.\<close>

definition pq_example :: "nat nghttp2_pq" where
  "pq_example = \<lparr>pqq = [10, 12, 11], pqindex = (\<lambda>_. 0)(12 := 1, 11 := 2), pqcapacity = 4, pqmem = []\<rparr>"

lemma swo_nat: "strict_weak_order (<) (S :: nat set)"
  by unfold_locales auto

lemma pq_example_valid: "pq_valid (<) pq_example"
  by (auto simp: pq_valid_def pq_ok_def pq_indexed_def heap_ordered_def swo_nat pq_example_def
      less_Suc_eq numeral_3_eq_3)


text \<open>
  C16. Popping a valid queue until it is empty returns all its entries in the order of the
  comparison.
\<close>

theorem pq_drain_sorted:
  assumes "pq_valid lt pq"
  shows "sorted_wrt (\<lambda>x y. \<not> lt y x) (pq_drain lt (nghttp2_pq_size pq) pq) \<and>
    mset (pq_drain lt (nghttp2_pq_size pq) pq) = mset (pqq pq)"
  using pq_drain_spec [OF assms] by (simp add: nghttp2_pq_size_def)

theorem pq_drain_sorted_witness:
  "sorted (pq_drain (<) (nghttp2_pq_size pq_example) pq_example)"
  using pq_drain_sorted [OF pq_example_valid] by (simp add: linorder_not_less)

text \<open>
  \<open>update\<close> restores the heap order whatever the callback does to the entries: it ends with
  the same entries and a valid queue for the new state, provided that a callback that reports
  no change on every entry has left the order of the entries as it was.
\<close>

theorem pq_update_correct:
  assumes "pq_valid (less_in c) pq" and "nghttp2_pq_update less_in f c pq = (c', pq')"
    and "strict_weak_order (less_in c') (set (pqq pq))"
    and "fst (pq_callbacks f (pqq pq) 0 c) = 0 \<Longrightarrow>
      (\<forall>x \<in> set (pqq pq). \<forall>y \<in> set (pqq pq). less_in c' x y = less_in c x y)"
  shows "pq_valid (less_in c') pq' \<and> mset (pqq pq') = mset (pqq pq)"
proof (cases "pqq pq = []")
  case True
  then show ?thesis using assms by (auto simp: nghttp2_pq_update_def pq_valid_def heap_ordered_def)
next
  case ne: False
  obtain rv c1 where cb: "pq_callbacks f (pqq pq) 0 c = (rv, c1)" by fastforce
  have c1: "c1 = c'" using assms(2) ne cb by (simp add: nghttp2_pq_update_def)
  show ?thesis
  proof (cases "rv = 0")
    case True
    have par: "(i - 1) div 2 < length (pqq pq)" if "i < length (pqq pq)" for i using that by auto
    from True have "pq' = pq" using assms(2) ne cb by (simp add: nghttp2_pq_update_def)
    moreover have "heap_ordered (less_in c') (pqq pq)"
      using assms(1,4) True cb par by (auto simp: pq_valid_def heap_ordered_def)
    ultimately show ?thesis using assms(1,3) by (simp add: pq_valid_def)
  next
    case False
    then have pq': "pq' = heapify (less_in c') (length (pqq pq)) pq"
      using assms(2) ne cb c1 by (simp add: nghttp2_pq_update_def)
    have "strict_weak_order.heap_from (less_in c') (pqq pq) (length (pqq pq))"
      by (auto simp: strict_weak_order.heap_from_def [OF assms(3)])
    from strict_weak_order.heapify_correct [OF assms(3) _ subset_refl this]
    have h: "strict_weak_order.heap_from (less_in c') (pqq pq') 0" "pq_indexed pq'"
      "mset (pqq pq') = mset (pqq pq)" "pqcapacity pq' = pqcapacity pq"
      using assms(1) by (auto simp: pq' pq_valid_def pq_ok_def)
    then have "strict_weak_order.pq_inv (less_in c') (set (pqq pq)) pq'"
      using assms(1) mset_eq_setD [OF h(3)] mset_eq_length [OF h(3)]
      by (simp add: strict_weak_order.pq_inv_def [OF assms(3)] pq_ok_def pq_valid_def)
    with h(3) show ?thesis using swo_S_irrelevant [OF assms(3)] by blast
  qed
qed

theorem pq_update_correct_witness:
  "pq_valid (\<lambda>x y. y < x) (snd (nghttp2_pq_update (\<lambda>rev x y. if rev then y < x else x < y)
     (\<lambda>e rev. (1, True)) False pq_example))"
proof -
  have swo: "strict_weak_order (\<lambda>x y. y < x) (S :: nat set)" for S by unfold_locales auto
  have c: "fst (nghttp2_pq_update (\<lambda>rev x y. if rev then y < x else x < y)
     (\<lambda>e rev. (1, True)) False pq_example) = True"
    by (simp add: nghttp2_pq_update_def pq_example_def)
  show ?thesis
    using pq_update_correct [of "\<lambda>rev x y. if rev then y < x else x < y" False pq_example
        "\<lambda>e rev. (1, True)" True "snd (nghttp2_pq_update (\<lambda>rev x y. if rev then y < x else x < y)
        (\<lambda>e rev. (1, True)) False pq_example)"] pq_example_valid swo c
    by (simp add: prod_eq_iff pq_example_def)
qed

end
