(* ===== verification/Nghttp2_Stream.thy ===== *)
theory Nghttp2_Stream
  imports Nghttp2_Base
begin

text \<open>
  Model of \<open>src/src/nghttp2/lib/nghttp2_stream.c\<close> and of the priority encoding of
  \<open>nghttp2_extpri.c\<close>: the state of one HTTP/2 stream and the operations on it. Pointers to
  streams and outbound items are numbers, NULL is \<open>None\<close>; an operation whose assertion fails
  has the value \<open>None\<close>. The record leaves out \<open>pq_entry\<close> (the index of the queue model),
  \<open>stream_user_data\<close>, \<open>closed_next\<close> and the never used \<open>pending_penalty\<close>.
\<close>

unbundle bit_operations_syntax

section \<open>State\<close>

datatype nghttp2_stream_state =
  STREAM_INITIAL | STREAM_OPENING | STREAM_OPENED | STREAM_CLOSING | STREAM_RESERVED | STREAM_IDLE

datatype nghttp2_stream_proto_state =
    STATE_IDLE | STATE_OPEN | STATE_RESERVED_LOCAL | STATE_RESERVED_REMOTE
  | STATE_HALF_CLOSED_LOCAL | STATE_HALF_CLOSED_REMOTE | STATE_CLOSED

definition SHUT_RD :: u8 where "SHUT_RD = 1"
definition SHUT_WR :: u8 where "SHUT_WR = 2"

definition STREAM_FLAG_PUSH :: u8 where "STREAM_FLAG_PUSH = 0x01"
definition STREAM_FLAG_CLOSED :: u8 where "STREAM_FLAG_CLOSED = 0x02"
definition STREAM_FLAG_DEFERRED_FLOW_CONTROL :: u8 where "STREAM_FLAG_DEFERRED_FLOW_CONTROL = 0x04"
definition STREAM_FLAG_DEFERRED_USER :: u8 where "STREAM_FLAG_DEFERRED_USER = 0x08"
definition STREAM_FLAG_DEFERRED_ALL :: u8 where "STREAM_FLAG_DEFERRED_ALL = 0x0c"


definition NGHTTP2_EXTPRI_DEFAULT_URGENCY :: u8 where "NGHTTP2_EXTPRI_DEFAULT_URGENCY = 3"
definition NGHTTP2_EXTPRI_URGENCY_LEVELS :: nat where "NGHTTP2_EXTPRI_URGENCY_LEVELS = 8"
definition NGHTTP2_EXTPRI_INC_MASK :: u8 where "NGHTTP2_EXTPRI_INC_MASK = 0x80"

record nghttp2_stream =
  st_state :: nghttp2_stream_state
  st_content_length :: int
  st_recv_content_length :: int
  st_cycle :: u64
  st_seq :: u64
  st_item :: "nat option"
  st_last_writelen :: u64
  st_stream_id :: int
  st_remote_window_size :: int
  st_recv_window_size :: int
  st_consumed_size :: int
  st_recv_reduction :: int
  st_local_window_size :: int
  st_status_code :: int
  st_http_flags :: u32
  st_flags :: u8
  st_shut_flags :: u8
  st_queued :: bool
  st_window_update_queued :: bool
  st_extpri :: u8
  st_http_extpri :: u8

section \<open>Operations\<close>

definition nghttp2_stream_init ::
  "int \<Rightarrow> u8 \<Rightarrow> nghttp2_stream_state \<Rightarrow> int \<Rightarrow> int \<Rightarrow> nghttp2_stream" where
  "nghttp2_stream_init stream_id flags initial_state remote_initial local_initial =
     \<lparr>st_state = initial_state, st_content_length = - 1, st_recv_content_length = 0,
      st_cycle = 0, st_seq = 0, st_item = None, st_last_writelen = 0, st_stream_id = stream_id,
      st_remote_window_size = remote_initial, st_recv_window_size = 0, st_consumed_size = 0,
      st_recv_reduction = 0, st_local_window_size = local_initial, st_status_code = - 1,
      st_http_flags = 0, st_flags = flags, st_shut_flags = 0, st_queued = False,
      st_window_update_queued = False, st_extpri = NGHTTP2_EXTPRI_DEFAULT_URGENCY,
      st_http_extpri = NGHTTP2_EXTPRI_DEFAULT_URGENCY\<rparr>"

definition nghttp2_stream_shutdown :: "u8 \<Rightarrow> nghttp2_stream \<Rightarrow> nghttp2_stream" where
  "nghttp2_stream_shutdown flag stream = stream\<lparr>st_shut_flags := st_shut_flags stream OR flag\<rparr>"

definition nghttp2_stream_attach_item :: "nat \<Rightarrow> nghttp2_stream \<Rightarrow> nghttp2_stream option" where
  "nghttp2_stream_attach_item item stream =
     (if st_flags stream AND STREAM_FLAG_DEFERRED_ALL \<noteq> 0 then None
      else if st_item stream \<noteq> None then None
      else Some (stream\<lparr>st_item := Some item\<rparr>))"

definition nghttp2_stream_detach_item :: "nghttp2_stream \<Rightarrow> nghttp2_stream" where
  "nghttp2_stream_detach_item stream =
     stream\<lparr>st_item := None, st_flags := st_flags stream AND NOT STREAM_FLAG_DEFERRED_ALL\<rparr>"

definition nghttp2_stream_defer_item :: "u8 \<Rightarrow> nghttp2_stream \<Rightarrow> nghttp2_stream option" where
  "nghttp2_stream_defer_item flags stream =
     (if st_item stream = None then None
      else Some (stream\<lparr>st_flags := st_flags stream OR flags\<rparr>))"

definition nghttp2_stream_resume_deferred_item :: "u8 \<Rightarrow> nghttp2_stream \<Rightarrow> nghttp2_stream option" where
  "nghttp2_stream_resume_deferred_item flags stream =
     (if st_item stream = None then None
      else Some (stream\<lparr>st_flags := st_flags stream AND NOT flags\<rparr>))"

definition nghttp2_stream_check_deferred_item :: "nghttp2_stream \<Rightarrow> bool" where
  "nghttp2_stream_check_deferred_item stream \<longleftrightarrow>
     st_item stream \<noteq> None \<and> st_flags stream AND STREAM_FLAG_DEFERRED_ALL \<noteq> 0"

definition nghttp2_stream_check_deferred_by_flow_control :: "nghttp2_stream \<Rightarrow> bool" where
  "nghttp2_stream_check_deferred_by_flow_control stream \<longleftrightarrow>
     st_item stream \<noteq> None \<and> st_flags stream AND STREAM_FLAG_DEFERRED_FLOW_CONTROL \<noteq> 0"

text \<open>
  The sum is computed in \<open>int64_t\<close>, where it cannot overflow for three 32-bit operands.
\<close>

definition update_initial_window_size :: "int \<Rightarrow> int \<Rightarrow> int \<Rightarrow> int option" where
  "update_initial_window_size window new old =
     (let new_window_size = window + new - old in
      if new_window_size < INT32_MIN \<or> NGHTTP2_MAX_WINDOW_SIZE < new_window_size then None
      else Some new_window_size)"

definition nghttp2_stream_update_remote_initial_window_size ::
  "int \<Rightarrow> int \<Rightarrow> nghttp2_stream \<Rightarrow> nghttp2_stream option" where
  "nghttp2_stream_update_remote_initial_window_size new old stream =
     map_option (\<lambda>w. stream\<lparr>st_remote_window_size := w\<rparr>)
       (update_initial_window_size (st_remote_window_size stream) new old)"

definition nghttp2_stream_update_local_initial_window_size ::
  "int \<Rightarrow> int \<Rightarrow> nghttp2_stream \<Rightarrow> nghttp2_stream option" where
  "nghttp2_stream_update_local_initial_window_size new old stream =
     map_option (\<lambda>w. stream\<lparr>st_local_window_size := w\<rparr>)
       (update_initial_window_size (st_local_window_size stream) new old)"

definition nghttp2_stream_promise_fulfilled :: "nghttp2_stream \<Rightarrow> nghttp2_stream" where
  "nghttp2_stream_promise_fulfilled stream =
     stream\<lparr>st_state := STREAM_OPENED, st_flags := st_flags stream AND NOT STREAM_FLAG_PUSH\<rparr>"

text \<open>The argument \<open>None\<close> is the root stream.\<close>

fun nghttp2_stream_get_state :: "nghttp2_stream option \<Rightarrow> nghttp2_stream_proto_state" where
  "nghttp2_stream_get_state None = STATE_IDLE"
| "nghttp2_stream_get_state (Some stream) =
     (if st_flags stream AND STREAM_FLAG_CLOSED \<noteq> 0 then STATE_CLOSED
      else if st_flags stream AND STREAM_FLAG_PUSH \<noteq> 0 \<and> st_shut_flags stream AND SHUT_RD \<noteq> 0
        then STATE_RESERVED_LOCAL
      else if st_flags stream AND STREAM_FLAG_PUSH \<noteq> 0 \<and> st_shut_flags stream AND SHUT_WR \<noteq> 0
        then STATE_RESERVED_REMOTE
      else if st_shut_flags stream AND SHUT_RD \<noteq> 0 then STATE_HALF_CLOSED_REMOTE
      else if st_shut_flags stream AND SHUT_WR \<noteq> 0 then STATE_HALF_CLOSED_LOCAL
      else if st_state stream = STREAM_IDLE then STATE_IDLE
      else STATE_OPEN)"

section \<open>Extensible priorities\<close>

record nghttp2_extpri =
  ep_urgency :: u32
  ep_inc :: int

definition nghttp2_extpri_uint8_urgency :: "u8 \<Rightarrow> u32" where
  "nghttp2_extpri_uint8_urgency pri = ucast (pri AND NOT NGHTTP2_EXTPRI_INC_MASK)"

definition nghttp2_extpri_uint8_inc :: "u8 \<Rightarrow> bool" where
  "nghttp2_extpri_uint8_inc pri \<longleftrightarrow> pri AND NGHTTP2_EXTPRI_INC_MASK \<noteq> 0"

definition nghttp2_extpri_to_uint8 :: "nghttp2_extpri \<Rightarrow> u8" where
  "nghttp2_extpri_to_uint8 extpri = ucast (push_bit 7 (word_of_int (ep_inc extpri)) OR ep_urgency extpri)"

definition nghttp2_extpri_from_uint8 :: "u8 \<Rightarrow> nghttp2_extpri" where
  "nghttp2_extpri_from_uint8 u8extpri =
     \<lparr>ep_urgency = nghttp2_extpri_uint8_urgency u8extpri,
      ep_inc = of_bool (nghttp2_extpri_uint8_inc u8extpri)\<rparr>"

section \<open>Lemmas\<close>

lemma deferred_flags [simp]:
  "(f AND NOT STREAM_FLAG_DEFERRED_ALL) AND STREAM_FLAG_DEFERRED_ALL = 0"
  by (rule bit_eqI) (auto simp: bit_simps)

lemma or_flags_nonzero: "g AND m \<noteq> (0 :: u8) \<Longrightarrow> (f OR g) AND m \<noteq> 0"
  by (auto simp: bit_eq_iff bit_simps)

lemma extpri_roundtrip_small:
  "u < 8 \<Longrightarrow> nghttp2_extpri_uint8_urgency (ucast (push_bit 7 (of_bool b) OR (u :: u32))) = u \<and>
   nghttp2_extpri_uint8_inc (ucast (push_bit 7 (of_bool b :: u32) OR u)) = b"
proof -
  assume "u < 8"
  then have "u \<in> set (map word_of_nat [0..<8])"
    by (auto simp: image_iff word_less_nat_alt intro!: bexI [of _ "unat u"])
  then have "u \<in> {0, 1, 2, 3, 4, 5, 6, 7}" by (simp add: upt_rec numeral_eq_Suc)
  then show ?thesis
    by (cases b) (auto simp: nghttp2_extpri_uint8_urgency_def nghttp2_extpri_uint8_inc_def
        NGHTTP2_EXTPRI_INC_MASK_def)
qed

section \<open>Properties\<close>

text \<open>
  A priority with an urgency below the number of levels and an incremental flag of 0 or 1
  survives the encoding in one byte.
\<close>

theorem extpri_roundtrip:
  assumes "unat (ep_urgency p) < NGHTTP2_EXTPRI_URGENCY_LEVELS" and "ep_inc p \<in> {0, 1}"
  shows "nghttp2_extpri_from_uint8 (nghttp2_extpri_to_uint8 p) = p"
proof -
  have "ep_urgency p < 8"
    using assms(1) by (simp add: NGHTTP2_EXTPRI_URGENCY_LEVELS_def word_less_nat_alt)
  then show ?thesis
    using assms(2) extpri_roundtrip_small [of "ep_urgency p" "ep_inc p = 1"]
    by (cases p) (auto simp: nghttp2_extpri_from_uint8_def nghttp2_extpri_to_uint8_def)
qed

theorem extpri_roundtrip_witness:
  "nghttp2_extpri_from_uint8 (nghttp2_extpri_to_uint8 \<lparr>ep_urgency = 5, ep_inc = 1\<rparr>) =
     \<lparr>ep_urgency = 5, ep_inc = 1\<rparr>"
  by (rule extpri_roundtrip) (simp_all add: NGHTTP2_EXTPRI_URGENCY_LEVELS_def)

end
