(* ===== verification/Nghttp2_Sched.thy ===== *)
theory Nghttp2_Sched
  imports Nghttp2_Pq Nghttp2_Stream
begin

text \<open>
  Model of the data scheduler of \<open>src/src/nghttp2/lib/nghttp2_session.c\<close> (\<open>stream_less\<close>,
  \<open>pq_get_first_cycle\<close> and the \<open>session_ob_data\<close>, \<open>session_attach\<close>, \<open>session_detach\<close>,
  \<open>session_defer\<close>, \<open>session_resume\<close>, \<open>session_sched\<close> and \<open>session_update_stream_priority\<close>
  functions). Streams with data to send wait in one priority queue per urgency level, ordered
  by a 64-bit virtual time \<open>cycle\<close> that wraps around.
\<close>

unbundle bit_operations_syntax

section \<open>State\<close>

record nghttp2_sched =
  sc_streams :: "nat \<Rightarrow> nghttp2_stream"
  sc_queues :: "nat nghttp2_pq list"

definition NGHTTP2_STREAM_MAX_CYCLE_GAP :: u64 where
  "NGHTTP2_STREAM_MAX_CYCLE_GAP = 16777215"

definition stream_less :: "(nat \<Rightarrow> nghttp2_stream) \<Rightarrow> nat \<Rightarrow> nat \<Rightarrow> bool" where
  "stream_less streams l r =
     (let lhs = streams l; rhs = streams r in
      if st_cycle lhs = st_cycle rhs then st_seq lhs < st_seq rhs
      else st_cycle rhs - st_cycle lhs \<le> NGHTTP2_STREAM_MAX_CYCLE_GAP)"

definition pq_get_first_cycle :: "(nat \<Rightarrow> nghttp2_stream) \<Rightarrow> nat nghttp2_pq \<Rightarrow> u64" where
  "pq_get_first_cycle streams pq =
     (case nghttp2_pq_top pq of None \<Rightarrow> 0 | Some x \<Rightarrow> st_cycle (streams x))"

definition set_stream :: "nat \<Rightarrow> nghttp2_stream \<Rightarrow> nghttp2_sched \<Rightarrow> nghttp2_sched" where
  "set_stream x st s = s\<lparr>sc_streams := (sc_streams s)(x := st)\<rparr>"

definition set_queue :: "nat \<Rightarrow> nat nghttp2_pq \<Rightarrow> nghttp2_sched \<Rightarrow> nghttp2_sched" where
  "set_queue u pq s = s\<lparr>sc_queues := (sc_queues s)[u := pq]\<rparr>"

definition urgency_of :: "nghttp2_stream \<Rightarrow> nat" where
  "urgency_of st = unat (nghttp2_extpri_uint8_urgency (st_extpri st))"

section \<open>Operations\<close>

definition session_ob_data_push :: "nat \<Rightarrow> nghttp2_sched \<Rightarrow> (unit res \<times> nghttp2_sched) option" where
  "session_ob_data_push x s =
     (let st = sc_streams s x; u = urgency_of st in
      if st_queued st then None
      else if \<not> u < NGHTTP2_EXTPRI_URGENCY_LEVELS then None
      else
        let pq = sc_queues s ! u;
            st = st\<lparr>st_cycle := pq_get_first_cycle (sc_streams s) pq\<rparr>;
            st = (if nghttp2_extpri_uint8_inc (st_extpri st)
                  then st\<lparr>st_cycle := st_cycle st + st_last_writelen st\<rparr> else st);
            s = set_stream x st s
        in case nghttp2_pq_push (stream_less (sc_streams s)) x pq of
             (Inl e, pq) \<Rightarrow> Some (Inl e, set_queue u pq s)
           | (Inr _, pq) \<Rightarrow>
               Some (Inr (), set_stream x (st\<lparr>st_queued := True\<rparr>) (set_queue u pq s)))"

definition session_ob_data_remove :: "nat \<Rightarrow> nghttp2_sched \<Rightarrow> nghttp2_sched option" where
  "session_ob_data_remove x s =
     (let st = sc_streams s x; u = urgency_of st in
      if \<not> st_queued st then None
      else if \<not> u < NGHTTP2_EXTPRI_URGENCY_LEVELS then None
      else
        map_option (\<lambda>pq. set_stream x (st\<lparr>st_queued := False\<rparr>) (set_queue u pq s))
          (nghttp2_pq_remove (stream_less (sc_streams s)) x (sc_queues s ! u)))"

definition session_attach_stream_item ::
  "nat \<Rightarrow> nat \<Rightarrow> nghttp2_sched \<Rightarrow> (unit res \<times> nghttp2_sched) option" where
  "session_attach_stream_item x item s =
     Option.bind (nghttp2_stream_attach_item item (sc_streams s x)) (\<lambda>st.
       case session_ob_data_push x (set_stream x st s) of
         None \<Rightarrow> None
       | Some (Inl e, s) \<Rightarrow>
           Some (Inl e, set_stream x (nghttp2_stream_detach_item (sc_streams s x)) s)
       | Some (Inr _, s) \<Rightarrow> Some (Inr (), s))"

definition session_detach_stream_item :: "nat \<Rightarrow> nghttp2_sched \<Rightarrow> nghttp2_sched option" where
  "session_detach_stream_item x s =
     (let s = set_stream x (nghttp2_stream_detach_item (sc_streams s x)) s in
      if \<not> st_queued (sc_streams s x) then Some s else session_ob_data_remove x s)"

definition session_defer_stream_item :: "nat \<Rightarrow> u8 \<Rightarrow> nghttp2_sched \<Rightarrow> nghttp2_sched option" where
  "session_defer_stream_item x flags s =
     Option.bind (nghttp2_stream_defer_item flags (sc_streams s x)) (\<lambda>st.
       let s = set_stream x st s in
       if \<not> st_queued (sc_streams s x) then Some s else session_ob_data_remove x s)"

definition session_resume_deferred_stream_item ::
  "nat \<Rightarrow> u8 \<Rightarrow> nghttp2_sched \<Rightarrow> (unit res \<times> nghttp2_sched) option" where
  "session_resume_deferred_stream_item x flags s =
     Option.bind (nghttp2_stream_resume_deferred_item flags (sc_streams s x)) (\<lambda>st.
       let s = set_stream x st s in
       if st_flags st AND STREAM_FLAG_DEFERRED_ALL \<noteq> 0 then Some (Inr (), s)
       else session_ob_data_push x s)"

fun first_nonempty :: "nat nghttp2_pq list \<Rightarrow> nat option" where
  "first_nonempty [] = None"
| "first_nonempty (pq # pqs) =
     (case nghttp2_pq_top pq of None \<Rightarrow> first_nonempty pqs | Some x \<Rightarrow> Some x)"

definition session_sched_get_next_outbound_item :: "nghttp2_sched \<Rightarrow> nat option" where
  "session_sched_get_next_outbound_item s =
     (case first_nonempty (sc_queues s) of
        None \<Rightarrow> None
      | Some x \<Rightarrow> st_item (sc_streams s x))"

definition session_sched_empty :: "nghttp2_sched \<Rightarrow> bool" where
  "session_sched_empty s \<longleftrightarrow> list_all nghttp2_pq_empty (sc_queues s)"

definition session_sched_reschedule_stream :: "nat \<Rightarrow> nghttp2_sched \<Rightarrow> nghttp2_sched option" where
  "session_sched_reschedule_stream x s =
     (let st = sc_streams s x; u = urgency_of st; penalty = st_last_writelen st in
      if \<not> u < NGHTTP2_EXTPRI_URGENCY_LEVELS then None
      else
        let pq = sc_queues s ! u in
        if \<not> nghttp2_extpri_uint8_inc (st_extpri st) \<or> nghttp2_pq_size pq = 1 then Some s
        else
          Option.bind (nghttp2_pq_remove (stream_less (sc_streams s)) x pq) (\<lambda>pq.
            let s = set_stream x (st\<lparr>st_cycle := st_cycle st + penalty\<rparr>) s in
            case nghttp2_pq_push (stream_less (sc_streams s)) x pq of
              (Inl _, pq) \<Rightarrow> None
            | (Inr _, pq) \<Rightarrow> Some (set_queue u pq s)))"

definition session_update_stream_priority ::
  "nat \<Rightarrow> u8 \<Rightarrow> nghttp2_sched \<Rightarrow> (unit res \<times> nghttp2_sched) option" where
  "session_update_stream_priority x u8extpri s =
     (if st_extpri (sc_streams s x) = u8extpri then Some (Inr (), s)
      else if st_queued (sc_streams s x) then
        Option.bind (session_ob_data_remove x s) (\<lambda>s.
          session_ob_data_push x (set_stream x ((sc_streams s x)\<lparr>st_extpri := u8extpri\<rparr>) s))
      else Some (Inr (), set_stream x ((sc_streams s x)\<lparr>st_extpri := u8extpri\<rparr>) s))"

section \<open>The order of the virtual time\<close>

text \<open>
  The comparison of cycles by wrapping subtraction is not an order on all 64-bit values. It is
  one on the streams whose cycle lies within the maximal gap after some point in time: there it
  compares the distances from that point.
\<close>

definition dist :: "(nat \<Rightarrow> nghttp2_stream) \<Rightarrow> u64 \<Rightarrow> nat \<Rightarrow> nat" where
  "dist streams b x = unat (st_cycle (streams x) - b)"

definition cycle_window :: "(nat \<Rightarrow> nghttp2_stream) \<Rightarrow> u64 \<Rightarrow> nat set" where
  "cycle_window streams b = {x. st_cycle (streams x) - b \<le> NGHTTP2_STREAM_MAX_CYCLE_GAP}"

lemma in_window_iff: "x \<in> cycle_window streams b \<longleftrightarrow> dist streams b x \<le> 16777215"
  by (simp add: cycle_window_def dist_def NGHTTP2_STREAM_MAX_CYCLE_GAP_def word_le_nat_alt)

lemma cycle_eq_iff: "st_cycle (streams x) = st_cycle (streams y) \<longleftrightarrow> dist streams b x = dist streams b y"
  by (simp add: dist_def flip: word_unat_eq_iff)

lemma cycle_diff_small:
  assumes "x \<in> cycle_window streams b" "y \<in> cycle_window streams b"
  shows "st_cycle (streams y) - st_cycle (streams x) \<le> NGHTTP2_STREAM_MAX_CYCLE_GAP \<longleftrightarrow>
    dist streams b x \<le> dist streams b y"
proof -
  define p q where pq: "p = st_cycle (streams x) - b" "q = st_cycle (streams y) - b"
  have d: "st_cycle (streams y) - st_cycle (streams x) = q - p" by (simp add: pq)
  have s: "unat p \<le> 16777215" "unat q \<le> 16777215"
    using assms by (simp_all add: in_window_iff dist_def pq)
  have "unat (q - p) = (if unat p \<le> unat q then unat q - unat p else unat q + 2 ^ 64 - unat p)"
    by (simp add: unat_sub_if')
  then show ?thesis using s
    by (auto simp: d dist_def pq [symmetric] NGHTTP2_STREAM_MAX_CYCLE_GAP_def word_le_nat_alt)
qed

lemma stream_less_window:
  assumes "x \<in> cycle_window streams b" "y \<in> cycle_window streams b"
  shows "stream_less streams x y \<longleftrightarrow>
    dist streams b x < dist streams b y \<or>
    dist streams b x = dist streams b y \<and> st_seq (streams x) < st_seq (streams y)"
  using cycle_diff_small [OF assms] cycle_eq_iff [of streams x y b]
  by (auto simp: stream_less_def Let_def)

interpretation sched: strict_weak_order "stream_less streams" "cycle_window streams b"
  for streams and b
  by unfold_locales (auto simp: stream_less_window)

section \<open>One level of the scheduler\<close>

definition level_ord :: "(nat \<Rightarrow> nghttp2_stream) \<Rightarrow> nat nghttp2_pq \<Rightarrow> bool" where
  "level_ord streams pq \<longleftrightarrow>
     pq_valid (stream_less streams) pq \<and> (\<exists>b. set (pqq pq) \<subseteq> cycle_window streams b)"

lemma level_ord_cong:
  assumes "\<And>x. x \<in> set (pqq pq) \<Longrightarrow> st_cycle (streams x) = st_cycle (streams' x) \<and>
      st_seq (streams x) = st_seq (streams' x)"
  shows "level_ord streams pq = level_ord streams' pq"
proof -
  have "pq_valid (stream_less streams) pq = pq_valid (stream_less streams') pq"
    by (rule pq_valid_cong) (simp add: stream_less_def Let_def assms)
  moreover have "set (pqq pq) \<subseteq> cycle_window streams b \<longleftrightarrow> set (pqq pq) \<subseteq> cycle_window streams' b" for b
    using assms by (auto simp: cycle_window_def subset_iff)
  ultimately show ?thesis by (simp add: level_ord_def)
qed

lemma level_first_window:
  assumes "level_ord streams pq"
  shows "set (pqq pq) \<subseteq> cycle_window streams (pq_get_first_cycle streams pq)"
proof (cases "nghttp2_pq_top pq")
  case None
  then have "pqq pq = []" using pq_valid_top(1) assms by (auto simp: level_ord_def)
  then show ?thesis by simp
next
  case (Some t)
  obtain b where v: "pq_valid (stream_less streams) pq" and b: "set (pqq pq) \<subseteq> cycle_window streams b"
    using assms by (auto simp: level_ord_def)
  have t: "t \<in> set (pqq pq)" "\<forall>y \<in> set (pqq pq). \<not> stream_less streams y t"
    using pq_valid_top(2) [OF v Some] by auto
  show ?thesis
  proof
    fix y assume y: "y \<in> set (pqq pq)"
    then have w: "y \<in> cycle_window streams b" "t \<in> cycle_window streams b" using b t by auto
    with t y have "dist streams b t \<le> dist streams b y" using stream_less_window [OF w] by auto
    then have "st_cycle (streams y) - st_cycle (streams t) \<le> NGHTTP2_STREAM_MAX_CYCLE_GAP"
      using cycle_diff_small [OF w(2,1)] by simp
    then show "y \<in> cycle_window streams (pq_get_first_cycle streams pq)"
      using Some by (simp add: cycle_window_def pq_get_first_cycle_def)
  qed
qed

lemma level_push:
  assumes ord: "level_ord streams pq" and x: "x \<notin> set (pqq pq)"
    and b: "set (pqq pq) \<subseteq> cycle_window streams b"
    and st: "st_cycle st - b \<le> NGHTTP2_STREAM_MAX_CYCLE_GAP"
    and push: "nghttp2_pq_push (stream_less (streams(x := st))) x pq = (r, pq')"
  shows "level_ord (streams(x := st)) pq' \<and>
    (r = Inr () \<and> set (pqq pq') = insert x (set (pqq pq)) \<or> r = Inl ERR_NOMEM \<and> pqq pq' = pqq pq)"
proof -
  let ?streams = "streams(x := st)"
  have "level_ord ?streams pq" using ord x
    by (subst level_ord_cong [of pq _ streams]) auto
  then have v: "pq_valid (stream_less ?streams) pq" by (simp add: level_ord_def)
  have w: "insert x (set (pqq pq)) \<subseteq> cycle_window ?streams b"
    using b st x by (auto simp: cycle_window_def)
  have p: "pq_valid (stream_less ?streams) pq' \<and>
    (r = Inr () \<and> mset (pqq pq') = add_mset x (mset (pqq pq)) \<or>
     r = Inl ERR_NOMEM \<and> pqq pq' = pqq pq \<and> False \<in> set (pqmem pq))"
    by (rule pq_valid_push [OF v swo_subset [OF sched.strict_weak_order_axioms w] x push])
  then have s: "r = Inr () \<and> set (pqq pq') = insert x (set (pqq pq)) \<or> r = Inl ERR_NOMEM \<and> pqq pq' = pqq pq"
    by (metis set_mset_add_mset_insert set_mset_mset)
  then have "set (pqq pq') \<subseteq> cycle_window ?streams b" using w by auto
  with p s show ?thesis by (auto simp: level_ord_def)
qed

lemma level_remove:
  assumes ord: "level_ord streams pq" and x: "x \<in> set (pqq pq)"
  shows "\<exists>pq'. nghttp2_pq_remove (stream_less streams) x pq = Some pq' \<and> level_ord streams pq' \<and>
    set (pqq pq') = set (pqq pq) - {x} \<and> length (pqq pq') < pqcapacity pq'"
proof -
  have v: "pq_valid (stream_less streams) pq" using ord by (simp add: level_ord_def)
  then have i: "pq_indexed pq" "length (pqq pq) \<le> pqcapacity pq" by (auto simp: pq_valid_def pq_ok_def)
  obtain pq' where r: "nghttp2_pq_remove (stream_less streams) x pq = Some pq'"
      "pq_valid (stream_less streams) pq'" "mset (pqq pq') = mset (pqq pq) - {#x#}"
    using pq_valid_remove [OF v x] by auto
  have "set (pqq pq') = set (pqq pq) - {x}"
    using r(3) pq_indexed_distinct [OF i(1)]
    by (metis mset_remove1 mset_eq_setD set_remove1_eq)
  moreover have "length (pqq pq') < length (pqq pq)"
    using arg_cong [OF r(3), of size] length_pos_if_in_set [OF x] x
    by (simp add: size_Diff_singleton)
  moreover have "pqcapacity pq' = pqcapacity pq" by (rule pq_remove_capacity [OF i(1) r(1)])
  ultimately show ?thesis using r i ord by (fastforce simp: level_ord_def)
qed

section \<open>The invariant of the scheduler\<close>

abbreviation deferred :: "nghttp2_stream \<Rightarrow> bool" where
  "deferred st \<equiv> st_flags st AND STREAM_FLAG_DEFERRED_ALL \<noteq> 0"

text \<open>
  Every level is a valid queue within a cycle window; a stream is in the queue of its urgency
  exactly when it is marked as queued; a queued stream has an item that is not deferred; only a
  stream with an item is deferred.
\<close>

definition sched_inv :: "nghttp2_sched \<Rightarrow> bool" where
  "sched_inv s \<longleftrightarrow>
     length (sc_queues s) = NGHTTP2_EXTPRI_URGENCY_LEVELS \<and>
     (\<forall>u < NGHTTP2_EXTPRI_URGENCY_LEVELS. level_ord (sc_streams s) (sc_queues s ! u)) \<and>
     (\<forall>u < NGHTTP2_EXTPRI_URGENCY_LEVELS. \<forall>x.
        x \<in> set (pqq (sc_queues s ! u)) \<longleftrightarrow> st_queued (sc_streams s x) \<and> urgency_of (sc_streams s x) = u) \<and>
     (\<forall>x. urgency_of (sc_streams s x) < NGHTTP2_EXTPRI_URGENCY_LEVELS \<and>
        st_last_writelen (sc_streams s x) \<le> NGHTTP2_STREAM_MAX_CYCLE_GAP \<and>
        (st_queued (sc_streams s x) \<longrightarrow> st_item (sc_streams s x) \<noteq> None \<and> \<not> deferred (sc_streams s x)) \<and>
        (st_item (sc_streams s x) = None \<longrightarrow> \<not> deferred (sc_streams s x)))"

text \<open>No stream is forgotten: what can be sent is queued.\<close>

definition sched_live :: "nghttp2_sched \<Rightarrow> bool" where
  "sched_live s \<longleftrightarrow>
     (\<forall>x. st_item (sc_streams s x) \<noteq> None \<and> \<not> deferred (sc_streams s x) \<longrightarrow> st_queued (sc_streams s x))"

lemma sched_inv_update:
  assumes inv: "sched_inv s" and u: "u = urgency_of (sc_streams s x)" "urgency_of st = u"
    and ord: "level_ord ((sc_streams s)(x := st)) pq'"
    and mem: "set (pqq pq') =
      (if st_queued st then insert x (set (pqq (sc_queues s ! u))) else set (pqq (sc_queues s ! u)) - {x})"
    and st: "st_last_writelen st \<le> NGHTTP2_STREAM_MAX_CYCLE_GAP"
      "st_queued st \<longrightarrow> st_item st \<noteq> None \<and> \<not> deferred st" "st_item st = None \<longrightarrow> \<not> deferred st"
  shows "sched_inv (s\<lparr>sc_streams := (sc_streams s)(x := st), sc_queues := (sc_queues s)[u := pq']\<rparr>)"
proof -
  have q: "(sc_queues s)[u := pq'] ! v = (if v = u then pq' else sc_queues s ! v)"
    if "v < NGHTTP2_EXTPRI_URGENCY_LEVELS" for v
    using inv that u by (auto simp: sched_inv_def nth_list_update)
  have "level_ord ((sc_streams s)(x := st)) (sc_queues s ! v)"
    if v: "v < NGHTTP2_EXTPRI_URGENCY_LEVELS" "v \<noteq> u" for v
  proof -
    have "x \<notin> set (pqq (sc_queues s ! v))" using inv v u by (auto simp: sched_inv_def)
    then show ?thesis using inv v by (subst level_ord_cong [of _ _ "sc_streams s"]) (auto simp: sched_inv_def)
  qed
  then have levels: "level_ord ((sc_streams s)(x := st)) ((sc_queues s)[u := pq'] ! v)"
    if "v < NGHTTP2_EXTPRI_URGENCY_LEVELS" for v
    using that ord q by auto
  have old: "y \<in> set (pqq (sc_queues s ! v)) \<longleftrightarrow>
      st_queued (sc_streams s y) \<and> urgency_of (sc_streams s y) = v"
    if "v < NGHTTP2_EXTPRI_URGENCY_LEVELS" for v y
    using inv that by (simp add: sched_inv_def)
  have members: "y \<in> set (pqq ((sc_queues s)[u := pq'] ! v)) \<longleftrightarrow>
      st_queued (((sc_streams s)(x := st)) y) \<and> urgency_of (((sc_streams s)(x := st)) y) = v"
    if "v < NGHTTP2_EXTPRI_URGENCY_LEVELS" for v y
    using old [OF that, of y] q [OF that] mem u by (cases "y = x"; cases "v = u") auto
  show ?thesis unfolding sched_inv_def
    using inv levels members st u by (simp add: sched_inv_def)
qed

lemma sched_inv_set_stream:
  assumes inv: "sched_inv s"
    and same: "st_cycle st = st_cycle (sc_streams s x)" "st_seq st = st_seq (sc_streams s x)"
      "st_queued st = st_queued (sc_streams s x)" "urgency_of st = urgency_of (sc_streams s x)"
    and st: "st_last_writelen st \<le> NGHTTP2_STREAM_MAX_CYCLE_GAP"
      "st_queued st \<longrightarrow> st_item st \<noteq> None \<and> \<not> deferred st" "st_item st = None \<longrightarrow> \<not> deferred st"
  shows "sched_inv (set_stream x st s)"
proof -
  let ?u = "urgency_of (sc_streams s x)"
  have ul: "?u < NGHTTP2_EXTPRI_URGENCY_LEVELS" using inv by (simp add: sched_inv_def)
  have "level_ord ((sc_streams s)(x := st)) (sc_queues s ! ?u)"
    using inv ul same by (subst level_ord_cong [of _ _ "sc_streams s"]) (auto simp: sched_inv_def)
  moreover have "x \<in> set (pqq (sc_queues s ! ?u)) \<longleftrightarrow> st_queued st"
    using inv ul same by (auto simp: sched_inv_def)
  ultimately show ?thesis
    using sched_inv_update [OF inv refl same(4) _ _ st, of "sc_queues s ! ?u"]
    by (auto simp: set_stream_def insert_absorb)
qed

lemma sched_inv_unqueued:
  assumes inv: "sched_inv s" and nq: "\<not> st_queued (sc_streams s x)" "\<not> st_queued st"
    and st: "urgency_of st < NGHTTP2_EXTPRI_URGENCY_LEVELS"
      "st_last_writelen st \<le> NGHTTP2_STREAM_MAX_CYCLE_GAP" "st_item st = None \<longrightarrow> \<not> deferred st"
  shows "sched_inv (set_stream x st s)"
proof -
  have "level_ord ((sc_streams s)(x := st)) (sc_queues s ! v)"
    if v: "v < NGHTTP2_EXTPRI_URGENCY_LEVELS" for v
  proof -
    have "x \<notin> set (pqq (sc_queues s ! v))" using inv v nq by (auto simp: sched_inv_def)
    then show ?thesis using inv v by (subst level_ord_cong [of _ _ "sc_streams s"]) (auto simp: sched_inv_def)
  qed
  then show ?thesis using inv nq st by (simp add: sched_inv_def set_stream_def)
qed

lemma level_of:
  assumes "sched_inv s"
  shows "urgency_of (sc_streams s x) < NGHTTP2_EXTPRI_URGENCY_LEVELS"
    and "level_ord (sc_streams s) (sc_queues s ! urgency_of (sc_streams s x))"
    and "x \<in> set (pqq (sc_queues s ! urgency_of (sc_streams s x))) \<longleftrightarrow> st_queued (sc_streams s x)"
  using assms by (auto simp: sched_inv_def)

text \<open>What an operation on the stream \<open>x\<close> leaves alone.\<close>

definition only_stream :: "nat \<Rightarrow> nghttp2_sched \<Rightarrow> nghttp2_sched \<Rightarrow> bool" where
  "only_stream x s s' \<longleftrightarrow> (\<forall>y. y \<noteq> x \<longrightarrow> sc_streams s' y = sc_streams s y) \<and>
     st_item (sc_streams s' x) = st_item (sc_streams s x) \<and>
     st_flags (sc_streams s' x) = st_flags (sc_streams s x)"

lemma unqueued_upd [simp]:
  "\<not> st_queued st \<Longrightarrow> st\<lparr>st_cycle := c, st_queued := False\<rparr> = st\<lparr>st_cycle := c\<rparr>"
  by (cases st) simp

lemma ob_data_push:
  assumes inv: "sched_inv s" and x: "\<not> st_queued (sc_streams s x)" "st_item (sc_streams s x) \<noteq> None"
      "\<not> deferred (sc_streams s x)"
  shows "\<exists>r s'. session_ob_data_push x s = Some (r, s') \<and> sched_inv s' \<and> only_stream x s s' \<and>
    (st_queued (sc_streams s' x) \<longleftrightarrow> r = Inr ())"
proof -
  define streams st u where "streams = sc_streams s" and "st = streams x" and "u = urgency_of st"
  define pq where "pq = sc_queues s ! u"
  define c where "c = pq_get_first_cycle streams pq"
  define st1 where "st1 = (if nghttp2_extpri_uint8_inc (st_extpri st)
      then st\<lparr>st_cycle := c + st_last_writelen st\<rparr> else st\<lparr>st_cycle := c\<rparr>)"
  note defs = streams_def st_def u_def pq_def
  have l: "u < NGHTTP2_EXTPRI_URGENCY_LEVELS" "level_ord streams pq" "x \<notin> set (pqq pq)"
    using level_of [OF inv, of x] x(1) by (auto simp: defs)
  have wl: "st_last_writelen st \<le> NGHTTP2_STREAM_MAX_CYCLE_GAP" using inv by (simp add: sched_inv_def defs)
  have f: "urgency_of st1 = u" "st_queued st1 = False" "st_last_writelen st1 = st_last_writelen st"
    "st_item st1 = st_item st" "st_flags st1 = st_flags st"
    using x(1) by (auto simp: st1_def u_def urgency_of_def defs)
  have near: "st_cycle st1 - c \<le> NGHTTP2_STREAM_MAX_CYCLE_GAP" using wl by (auto simp: st1_def)
  obtain r pq' where p: "nghttp2_pq_push (stream_less (streams(x := st1))) x pq = (r, pq')" by fastforce
  have lp: "level_ord (streams(x := st1)) pq'"
    "r = Inr () \<and> set (pqq pq') = insert x (set (pqq pq)) \<or> r = Inl ERR_NOMEM \<and> pqq pq' = pqq pq"
    using level_push [OF l(2,3) level_first_window [OF l(2)] _ p] near by (auto simp: c_def)
  define st2 where "st2 = st1\<lparr>st_queued := (r = Inr ())\<rparr>"
  have "level_ord (streams(x := st2)) pq'"
    using lp(1) by (subst level_ord_cong [of _ _ "streams(x := st1)"]) (auto simp: st2_def)
  then have "sched_inv (s\<lparr>sc_streams := (sc_streams s)(x := st2), sc_queues := (sc_queues s)[u := pq']\<rparr>)"
    using lp(2) l(3) wl x f
    by (intro sched_inv_update [OF inv]) (auto simp: st2_def urgency_of_def defs)
  moreover have "session_ob_data_push x s =
      Some (r, s\<lparr>sc_streams := (sc_streams s)(x := st2), sc_queues := (sc_queues s)[u := pq']\<rparr>)"
  proof -
    note fold = defs [symmetric] c_def [symmetric] set_stream_def set_queue_def
    show ?thesis
    proof (cases "nghttp2_extpri_uint8_inc (st_extpri st)")
      case True
      then have "st1 = st\<lparr>st_cycle := c + st_last_writelen st\<rparr>" by (simp add: st1_def)
      with True p lp(2) x(1) l(1) show ?thesis
        by (auto simp: session_ob_data_push_def Let_def fold st2_def)
    next
      case False
      then have "st1 = st\<lparr>st_cycle := c\<rparr>" by (simp add: st1_def)
      with False p lp(2) x(1) l(1) show ?thesis
        by (auto simp: session_ob_data_push_def Let_def fold st2_def)
    qed
  qed
  ultimately show ?thesis using f by (auto simp: only_stream_def st2_def defs)
qed

lemma ob_data_remove:
  assumes inv: "sched_inv s" and x: "st_queued (sc_streams s x)"
  shows "\<exists>pq'. nghttp2_pq_remove (stream_less (sc_streams s)) x
      (sc_queues s ! urgency_of (sc_streams s x)) = Some pq' \<and>
    session_ob_data_remove x s = Some (set_stream x ((sc_streams s x)\<lparr>st_queued := False\<rparr>)
      (set_queue (urgency_of (sc_streams s x)) pq' s)) \<and>
    level_ord (sc_streams s) pq' \<and>
    set (pqq pq') = set (pqq (sc_queues s ! urgency_of (sc_streams s x))) - {x}"
proof -
  note l = level_of [OF inv, of x]
  have m: "x \<in> set (pqq (sc_queues s ! urgency_of (sc_streams s x)))" using l(3) x by simp
  obtain pq' where "nghttp2_pq_remove (stream_less (sc_streams s)) x
      (sc_queues s ! urgency_of (sc_streams s x)) = Some pq'" "level_ord (sc_streams s) pq'"
      "set (pqq pq') = set (pqq (sc_queues s ! urgency_of (sc_streams s x))) - {x}"
    using level_remove [OF l(2) m] by auto
  then show ?thesis using x l(1) by (simp add: session_ob_data_remove_def Let_def)
qed

text \<open>
  Removal after a change of the item or the flags of the stream, as \<open>detach\<close> and \<open>defer\<close> do:
  the changed stream need not satisfy the invariant while it is still queued.
\<close>

lemma ob_data_remove_changed:
  assumes inv: "sched_inv s" and x: "st_queued (sc_streams s x)"
    and same: "st_cycle st = st_cycle (sc_streams s x)" "st_seq st = st_seq (sc_streams s x)"
      "st_queued st" "st_extpri st = st_extpri (sc_streams s x)"
      "st_last_writelen st = st_last_writelen (sc_streams s x)"
    and st: "st_item st = None \<longrightarrow> \<not> deferred st"
  shows "\<exists>s'. session_ob_data_remove x (set_stream x st s) = Some s' \<and> sched_inv s' \<and>
    only_stream x (set_stream x st s) s' \<and> sc_streams s' x = st\<lparr>st_queued := False\<rparr>"
proof -
  define u where "u = urgency_of (sc_streams s x)"
  have us: "urgency_of st = u" using same by (simp add: urgency_of_def u_def)
  obtain pq' where p: "nghttp2_pq_remove (stream_less (sc_streams s)) x (sc_queues s ! u) = Some pq'"
      "level_ord (sc_streams s) pq'" "set (pqq pq') = set (pqq (sc_queues s ! u)) - {x}"
    using ob_data_remove [OF inv x] by (auto simp: u_def)
  let ?st = "st\<lparr>st_queued := False\<rparr>"
  have less: "stream_less ((sc_streams s)(x := st)) = stream_less (sc_streams s)"
    using same by (intro ext) (simp add: stream_less_def Let_def)
  have "level_ord ((sc_streams s)(x := ?st)) pq'"
    using p(2) same by (subst level_ord_cong [of _ _ "sc_streams s"]) auto
  then have "sched_inv (s\<lparr>sc_streams := (sc_streams s)(x := ?st), sc_queues := (sc_queues s)[u := pq']\<rparr>)"
    using p(3) same st us inv
    by (intro sched_inv_update) (auto simp: u_def urgency_of_def sched_inv_def)
  moreover have "session_ob_data_remove x (set_stream x st s) =
      Some (s\<lparr>sc_streams := (sc_streams s)(x := ?st), sc_queues := (sc_queues s)[u := pq']\<rparr>)"
    using p(1) us same(3) level_of(1) [OF inv, of x]
    by (simp add: session_ob_data_remove_def Let_def set_stream_def set_queue_def less u_def)
  ultimately show ?thesis by (auto simp: only_stream_def set_stream_def)
qed

section \<open>Runs of the scheduler\<close>

text \<open>
  The calls that the session makes, and what it has to ensure before each: an item is attached
  only to a stream that has none; an item is deferred for a reason; only a deferred item is
  resumed; a stream is rescheduled after its turn, that is while it is queued and no stream of
  its level is ahead of it; an urgency is one of the eight levels. \<open>Written x n\<close> is the
  assignment of \<open>last_writelen\<close> after a DATA frame was packed, whose payload length is a 24-bit
  number.
\<close>

datatype sched_op =
    Attach nat nat | Detach nat | Defer nat u8 | Resume nat u8 | Reschedule nat
  | SetPriority nat u8 | Written nat u64

definition note_written :: "nat \<Rightarrow> u64 \<Rightarrow> nghttp2_sched \<Rightarrow> nghttp2_sched" where
  "note_written x n s = set_stream x ((sc_streams s x)\<lparr>st_last_writelen := n\<rparr>) s"

fun sched_exec :: "sched_op \<Rightarrow> nghttp2_sched \<Rightarrow> (unit res \<times> nghttp2_sched) option" where
  "sched_exec (Attach x item) s = session_attach_stream_item x item s"
| "sched_exec (Detach x) s = map_option (Pair (Inr ())) (session_detach_stream_item x s)"
| "sched_exec (Defer x f) s = map_option (Pair (Inr ())) (session_defer_stream_item x f s)"
| "sched_exec (Resume x f) s = session_resume_deferred_stream_item x f s"
| "sched_exec (Reschedule x) s = map_option (Pair (Inr ())) (session_sched_reschedule_stream x s)"
| "sched_exec (SetPriority x p) s = session_update_stream_priority x p s"
| "sched_exec (Written x n) s = Some (Inr (), note_written x n s)"

fun sched_pre :: "sched_op \<Rightarrow> nghttp2_sched \<Rightarrow> bool" where
  "sched_pre (Attach x item) s \<longleftrightarrow> st_item (sc_streams s x) = None"
| "sched_pre (Detach x) s \<longleftrightarrow> True"
| "sched_pre (Defer x f) s \<longleftrightarrow>
     st_item (sc_streams s x) \<noteq> None \<and> f AND STREAM_FLAG_DEFERRED_ALL \<noteq> 0"
| "sched_pre (Resume x f) s \<longleftrightarrow> nghttp2_stream_check_deferred_item (sc_streams s x)"
| "sched_pre (Reschedule x) s \<longleftrightarrow>
     st_queued (sc_streams s x) \<and>
     st_cycle (sc_streams s x) =
       pq_get_first_cycle (sc_streams s) (sc_queues s ! urgency_of (sc_streams s x))"
| "sched_pre (SetPriority x p) s \<longleftrightarrow>
     unat (nghttp2_extpri_uint8_urgency p) < NGHTTP2_EXTPRI_URGENCY_LEVELS"
| "sched_pre (Written x n) s \<longleftrightarrow> n \<le> NGHTTP2_STREAM_MAX_CYCLE_GAP"

text \<open>A step keeps the invariant, and a step that succeeds forgets no stream.\<close>

definition sched_good :: "nghttp2_sched \<Rightarrow> (unit res \<times> nghttp2_sched) option \<Rightarrow> bool" where
  "sched_good s r \<longleftrightarrow>
     (\<exists>v s'. r = Some (v, s') \<and> sched_inv s' \<and> (v = Inr () \<longrightarrow> sched_live s \<longrightarrow> sched_live s'))"

lemma only_stream_live:
  assumes "only_stream x s s'" "sched_live s"
    and "st_item (sc_streams s' x) \<noteq> None \<and> \<not> deferred (sc_streams s' x) \<longrightarrow> st_queued (sc_streams s' x)"
  shows "sched_live s'"
  using assms unfolding sched_live_def only_stream_def by metis

lemma set_stream_live:
  assumes "only_stream x (set_stream x st s) s'" "sched_live s"
    and "st_item st \<noteq> None \<and> \<not> deferred st \<longrightarrow> st_queued (sc_streams s' x)"
  shows "sched_live s'"
  unfolding sched_live_def
proof (intro allI impI)
  fix y
  assume y: "st_item (sc_streams s' y) \<noteq> None \<and> \<not> deferred (sc_streams s' y)"
  show "st_queued (sc_streams s' y)"
  proof (cases "y = x")
    case True
    with y assms(1,3) show ?thesis by (simp add: only_stream_def set_stream_def)
  next
    case False
    with assms(1) have "sc_streams s' y = sc_streams s y" by (simp add: only_stream_def set_stream_def)
    with y assms(2) show ?thesis by (simp add: sched_live_def)
  qed
qed

lemma attach_good:
  assumes inv: "sched_inv s" and x: "st_item (sc_streams s x) = None"
  shows "sched_good s (session_attach_stream_item x item s)"
proof -
  let ?st = "(sc_streams s x)\<lparr>st_item := Some item\<rparr>"
  have nd: "\<not> deferred (sc_streams s x)" "\<not> st_queued (sc_streams s x)"
    using inv x by (auto simp: sched_inv_def)
  have inv': "sched_inv (set_stream x ?st s)"
    using inv nd by (intro sched_inv_set_stream) (auto simp: urgency_of_def sched_inv_def)
  obtain r s' where p: "session_ob_data_push x (set_stream x ?st s) = Some (r, s')" "sched_inv s'"
    "only_stream x (set_stream x ?st s) s'" "st_queued (sc_streams s' x) \<longleftrightarrow> r = Inr ()"
    using ob_data_push [OF inv', of x] nd by (auto simp: set_stream_def)
  have a: "nghttp2_stream_attach_item item (sc_streams s x) = Some ?st"
    using nd x by (simp add: nghttp2_stream_attach_item_def)
  show ?thesis
  proof (cases r)
    case (Inr v)
    have "sched_live s'" if "sched_live s"
      using p(3,4) that Inr by (rule_tac set_stream_live) auto
    then show ?thesis using Inr p a by (auto simp: sched_good_def session_attach_stream_item_def)
  next
    case (Inl e)
    let ?s = "set_stream x (nghttp2_stream_detach_item (sc_streams s' x)) s'"
    have "sched_inv ?s"
      using p(2,4) Inl
      by (intro sched_inv_set_stream) (auto simp: urgency_of_def sched_inv_def nghttp2_stream_detach_item_def)
    then show ?thesis using Inl p a by (auto simp: sched_good_def session_attach_stream_item_def)
  qed
qed

lemma detach_good:
  assumes inv: "sched_inv s"
  shows "sched_good s (map_option (Pair (Inr ())) (session_detach_stream_item x s))"
proof -
  let ?st = "nghttp2_stream_detach_item (sc_streams s x)"
  have st: "st_item ?st = None" "\<not> deferred ?st" "st_queued ?st = st_queued (sc_streams s x)"
    "st_cycle ?st = st_cycle (sc_streams s x)" "st_seq ?st = st_seq (sc_streams s x)"
    "st_extpri ?st = st_extpri (sc_streams s x)" "st_last_writelen ?st = st_last_writelen (sc_streams s x)"
    by (auto simp: nghttp2_stream_detach_item_def)
  have live: "sched_live (set_stream x ?st s)" if "sched_live s"
    using that st by (auto simp: sched_live_def set_stream_def)
  show ?thesis
  proof (cases "st_queued (sc_streams s x)")
    case True
    obtain s' where "session_ob_data_remove x (set_stream x ?st s) = Some s'" "sched_inv s'"
      "only_stream x (set_stream x ?st s) s'" "sc_streams s' x = ?st\<lparr>st_queued := False\<rparr>"
      using ob_data_remove_changed [OF inv True, of ?st] st True by auto
    then show ?thesis using True st live
      by (auto simp: sched_good_def session_detach_stream_item_def Let_def set_stream_def
          intro: only_stream_live)
  next
    case False
    then have "sched_inv (set_stream x ?st s)"
      using inv st by (intro sched_inv_set_stream) (auto simp: urgency_of_def sched_inv_def)
    then show ?thesis using False st live
      by (auto simp: sched_good_def session_detach_stream_item_def Let_def set_stream_def)
  qed
qed

lemma defer_good:
  assumes inv: "sched_inv s" and x: "st_item (sc_streams s x) \<noteq> None" "f AND STREAM_FLAG_DEFERRED_ALL \<noteq> 0"
  shows "sched_good s (map_option (Pair (Inr ())) (session_defer_stream_item x f s))"
proof -
  let ?st = "(sc_streams s x)\<lparr>st_flags := st_flags (sc_streams s x) OR f\<rparr>"
  have d: "deferred ?st" using or_flags_nonzero [OF x(2)] by simp
  have a: "nghttp2_stream_defer_item f (sc_streams s x) = Some ?st"
    using x by (simp add: nghttp2_stream_defer_item_def)
  show ?thesis
  proof (cases "st_queued (sc_streams s x)")
    case True
    obtain s' where r: "session_ob_data_remove x (set_stream x ?st s) = Some s'" "sched_inv s'"
      "only_stream x (set_stream x ?st s) s'" "sc_streams s' x = ?st\<lparr>st_queued := False\<rparr>"
      using ob_data_remove_changed [OF inv True, of ?st] x True by auto
    have "sched_live s'" if "sched_live s" using set_stream_live [OF r(3) that] d by simp
    then show ?thesis using True r a
      by (simp add: sched_good_def session_defer_stream_item_def Let_def set_stream_def)
  next
    case False
    then have "sched_inv (set_stream x ?st s)"
      using inv x by (intro sched_inv_set_stream) (auto simp: urgency_of_def sched_inv_def)
    moreover have "sched_live (set_stream x ?st s)" if "sched_live s"
      using that d by (simp add: sched_live_def set_stream_def)
    ultimately show ?thesis using False a
      by (simp add: sched_good_def session_defer_stream_item_def Let_def set_stream_def)
  qed
qed

lemma resume_good:
  assumes inv: "sched_inv s" and x: "nghttp2_stream_check_deferred_item (sc_streams s x)"
  shows "sched_good s (session_resume_deferred_stream_item x f s)"
proof -
  let ?st = "(sc_streams s x)\<lparr>st_flags := st_flags (sc_streams s x) AND NOT f\<rparr>"
  have i: "st_item (sc_streams s x) \<noteq> None" "deferred (sc_streams s x)"
    using x by (auto simp: nghttp2_stream_check_deferred_item_def)
  then have nq: "\<not> st_queued (sc_streams s x)" using inv by (auto simp: sched_inv_def)
  have a: "nghttp2_stream_resume_deferred_item f (sc_streams s x) = Some ?st"
    using i by (simp add: nghttp2_stream_resume_deferred_item_def)
  have inv': "sched_inv (set_stream x ?st s)"
    using inv nq i by (intro sched_inv_set_stream) (auto simp: urgency_of_def sched_inv_def)
  show ?thesis
  proof (cases "deferred ?st")
    case True
    then have "sched_live (set_stream x ?st s)" if "sched_live s"
      using that by (simp add: sched_live_def set_stream_def)
    then show ?thesis using True a inv'
      by (simp add: sched_good_def session_resume_deferred_stream_item_def Let_def)
  next
    case False
    obtain r s' where p: "session_ob_data_push x (set_stream x ?st s) = Some (r, s')" "sched_inv s'"
      "only_stream x (set_stream x ?st s) s'" "st_queued (sc_streams s' x) \<longleftrightarrow> r = Inr ()"
      using ob_data_push [OF inv', of x] nq i False by (auto simp: set_stream_def)
    have "sched_live s'" if "sched_live s" "r = Inr ()"
      using set_stream_live [OF p(3) that(1)] p(4) that(2) by simp
    then show ?thesis using False a p
      by (simp add: sched_good_def session_resume_deferred_stream_item_def Let_def)
  qed
qed

lemma set_priority_good:
  assumes inv: "sched_inv s"
    and p: "unat (nghttp2_extpri_uint8_urgency p) < NGHTTP2_EXTPRI_URGENCY_LEVELS"
  shows "sched_good s (session_update_stream_priority x p s)"
proof (cases "st_extpri (sc_streams s x) = p")
  case True
  then show ?thesis using inv by (simp add: sched_good_def session_update_stream_priority_def)
next
  case changed: False
  show ?thesis
  proof (cases "st_queued (sc_streams s x)")
    case False
    let ?st = "(sc_streams s x)\<lparr>st_extpri := p\<rparr>"
    have "sched_inv (set_stream x ?st s)"
      using inv False p by (intro sched_inv_unqueued) (auto simp: urgency_of_def sched_inv_def)
    moreover have "sched_live (set_stream x ?st s)" if "sched_live s"
      using that by (simp add: sched_live_def set_stream_def)
    ultimately show ?thesis using changed False
      by (simp add: sched_good_def session_update_stream_priority_def)
  next
    case True
    have q: "st_item (sc_streams s x) \<noteq> None" "\<not> deferred (sc_streams s x)"
      using inv True by (auto simp: sched_inv_def)
    have "set_stream x (sc_streams s x) s = s" by (simp add: set_stream_def)
    then obtain s1 where r: "session_ob_data_remove x s = Some s1" "sched_inv s1"
      "only_stream x s s1" "sc_streams s1 x = (sc_streams s x)\<lparr>st_queued := False\<rparr>"
      using ob_data_remove_changed [OF inv True, of "sc_streams s x"] q True by auto
    let ?st = "(sc_streams s1 x)\<lparr>st_extpri := p\<rparr>"
    have inv2: "sched_inv (set_stream x ?st s1)"
      using r p q inv by (intro sched_inv_unqueued) (auto simp: urgency_of_def sched_inv_def)
    obtain v s2 where w: "session_ob_data_push x (set_stream x ?st s1) = Some (v, s2)" "sched_inv s2"
      "only_stream x (set_stream x ?st s1) s2" "st_queued (sc_streams s2 x) \<longleftrightarrow> v = Inr ()"
      using ob_data_push [OF inv2, of x] q r(4) by (auto simp: set_stream_def)
    have "sched_live s2" if "sched_live s" "v = Inr ()"
    proof (rule only_stream_live [OF _ that(1)])
      show "only_stream x s s2" using r(3,4) w(3) by (simp add: only_stream_def set_stream_def)
    qed (use w(4) that(2) in simp)
    then show ?thesis using changed True r w
      by (simp add: sched_good_def session_update_stream_priority_def)
  qed
qed

lemma reschedule_good:
  assumes inv: "sched_inv s" and x: "st_queued (sc_streams s x)"
    and first: "st_cycle (sc_streams s x) =
       pq_get_first_cycle (sc_streams s) (sc_queues s ! urgency_of (sc_streams s x))"
  shows "sched_good s (map_option (Pair (Inr ())) (session_sched_reschedule_stream x s))"
proof -
  define streams st u where "streams = sc_streams s" and "st = streams x" and "u = urgency_of st"
  define pq where "pq = sc_queues s ! u"
  note defs = streams_def st_def u_def pq_def
  have l: "u < NGHTTP2_EXTPRI_URGENCY_LEVELS" "level_ord streams pq" "x \<in> set (pqq pq)"
    using level_of [OF inv, of x] x by (auto simp: defs)
  have wl: "st_last_writelen st \<le> NGHTTP2_STREAM_MAX_CYCLE_GAP" using inv by (simp add: sched_inv_def defs)
  have same: "sched_good s (Some (Inr (), s))" using inv by (simp add: sched_good_def)
  show ?thesis
  proof (cases "\<not> nghttp2_extpri_uint8_inc (st_extpri st) \<or> nghttp2_pq_size pq = 1")
    case True
    then show ?thesis using same l(1) by (simp add: session_sched_reschedule_stream_def Let_def defs)
  next
    case False
    let ?st = "st\<lparr>st_cycle := st_cycle st + st_last_writelen st\<rparr>"
    obtain pq1 where r: "nghttp2_pq_remove (stream_less streams) x pq = Some pq1"
        "level_ord streams pq1" "set (pqq pq1) = set (pqq pq) - {x}" "length (pqq pq1) < pqcapacity pq1"
      using level_remove [OF l(2,3)] by auto
    have room: "fst (nghttp2_pq_push (stream_less (streams(x := ?st))) x pq1) = Inr ()"
      by (rule pq_push_room [OF r(4)])
    obtain pq2 where p: "nghttp2_pq_push (stream_less (streams(x := ?st))) x pq1 = (Inr (), pq2)"
      using room by (metis prod.collapse)
    have c: "pq_get_first_cycle streams pq = st_cycle st" using first by (simp add: defs)
    have w: "set (pqq pq1) \<subseteq> cycle_window streams (st_cycle st)"
      using level_first_window [OF l(2)] r(3) c by auto
    have lp: "level_ord (streams(x := ?st)) pq2" "set (pqq pq2) = insert x (set (pqq pq))"
      using level_push [OF r(2) _ w _ p] r(3) l(3) wl by auto
    have "sched_inv (s\<lparr>sc_streams := (sc_streams s)(x := ?st), sc_queues := (sc_queues s)[u := pq2]\<rparr>)"
      using inv lp wl x
      by (intro sched_inv_update [OF inv]) (auto simp: defs urgency_of_def sched_inv_def)
    moreover have "session_sched_reschedule_stream x s =
        Some (s\<lparr>sc_streams := (sc_streams s)(x := ?st), sc_queues := (sc_queues s)[u := pq2]\<rparr>)"
      using False l(1) r(1) p
      by (simp add: session_sched_reschedule_stream_def Let_def defs set_stream_def set_queue_def)
    moreover have "sched_live (s\<lparr>sc_streams := (sc_streams s)(x := ?st), sc_queues := (sc_queues s)[u := pq2]\<rparr>)"
      if "sched_live s" using that x by (simp add: sched_live_def defs)
    ultimately show ?thesis by (simp add: sched_good_def)
  qed
qed

lemma written_good:
  assumes "sched_inv s" and "n \<le> NGHTTP2_STREAM_MAX_CYCLE_GAP"
  shows "sched_good s (Some (Inr (), note_written x n s))"
proof -
  have "sched_inv (note_written x n s)" unfolding note_written_def
    using assms by (intro sched_inv_set_stream) (auto simp: urgency_of_def sched_inv_def)
  moreover have "sched_live (note_written x n s)" if "sched_live s"
    using that by (simp add: sched_live_def note_written_def set_stream_def)
  ultimately show ?thesis by (simp add: sched_good_def)
qed

lemmas sched_ops_good =
  attach_good detach_good defer_good resume_good reschedule_good set_priority_good written_good

lemma sched_exec_good: "sched_inv s \<Longrightarrow> sched_pre opn s \<Longrightarrow> sched_good s (sched_exec opn s)"
  by (cases opn) (auto intro: sched_ops_good)

text \<open>The states of the scheduler that runs can reach, with any pattern of allocation failures.\<close>

definition sched_init :: "nghttp2_mem list \<Rightarrow> (nat \<Rightarrow> nghttp2_stream) \<Rightarrow> nghttp2_sched" where
  "sched_init mems streams =
     \<lparr>sc_streams = streams,
      sc_queues = map (\<lambda>i. nghttp2_pq_init (mems ! i) (\<lambda>_. 0)) [0..<NGHTTP2_EXTPRI_URGENCY_LEVELS]\<rparr>"

inductive sched_reachable :: "nghttp2_sched \<Rightarrow> bool \<Rightarrow> bool" where
  start: "length mems = NGHTTP2_EXTPRI_URGENCY_LEVELS \<Longrightarrow>
    (\<And>x. \<exists>i rw lw. streams x = nghttp2_stream_init i 0 STREAM_INITIAL rw lw \<lparr>st_seq := seq x\<rparr>) \<Longrightarrow>
    sched_reachable (sched_init mems streams) True"
| step: "sched_reachable s ok \<Longrightarrow> sched_pre opn s \<Longrightarrow> sched_exec opn s = Some (v, s') \<Longrightarrow>
    sched_reachable s' (ok \<and> v = Inr ())"

lemma sched_init_inv:
  assumes "\<And>x. \<exists>i rw lw. streams x = nghttp2_stream_init i 0 STREAM_INITIAL rw lw \<lparr>st_seq := seq x\<rparr>"
  shows "sched_inv (sched_init mems streams) \<and> sched_live (sched_init mems streams)"
proof -
  have st: "\<not> st_queued (streams x)" "st_item (streams x) = None" "st_flags (streams x) = 0"
    "urgency_of (streams x) = 3" "st_last_writelen (streams x) = 0" for x
    using assms [of x] by (auto simp: nghttp2_stream_init_def urgency_of_def
        NGHTTP2_EXTPRI_DEFAULT_URGENCY_def nghttp2_extpri_uint8_urgency_def NGHTTP2_EXTPRI_INC_MASK_def)
  have "pq_valid lt (nghttp2_pq_init mem ix)" for lt mem and ix :: "nat \<Rightarrow> nat"
    by (simp add: pq_valid_def nghttp2_pq_init_def pq_ok_def pq_indexed_def heap_ordered_def
        strict_weak_order_def)
  then show ?thesis using st
    by (simp add: sched_inv_def sched_live_def sched_init_def level_ord_def
        NGHTTP2_EXTPRI_URGENCY_LEVELS_def nghttp2_pq_init_def)
qed

lemma sched_reachable_inv:
  "sched_reachable s ok \<Longrightarrow> sched_inv s \<and> (ok \<longrightarrow> sched_live s)"
proof (induction rule: sched_reachable.induct)
  case (start mems streams seq)
  then show ?case using sched_init_inv [of streams seq mems] by blast
next
  case (step s ok opn v s')
  then show ?case using sched_exec_good [of s opn] by (auto simp: sched_good_def)
qed

section \<open>The next item\<close>

lemma first_nonempty_None: "first_nonempty qs = None \<longleftrightarrow> (\<forall>pq \<in> set qs. nghttp2_pq_top pq = None)"
  by (induction qs rule: first_nonempty.induct) (auto split: option.splits)

lemma first_nonempty_Some:
  "first_nonempty qs = Some x \<Longrightarrow>
   \<exists>u < length qs. nghttp2_pq_top (qs ! u) = Some x \<and> (\<forall>v < u. nghttp2_pq_top (qs ! v) = None)"
proof (induction qs rule: first_nonempty.induct)
  case (2 pq pqs)
  show ?case
  proof (cases "nghttp2_pq_top pq")
    case None
    with 2 obtain u where "u < length pqs" "nghttp2_pq_top (pqs ! u) = Some x"
      "\<forall>v < u. nghttp2_pq_top (pqs ! v) = None" by auto
    with None show ?thesis
      by (intro exI [of _ "Suc u"]) (auto simp: nth_Cons split: nat.splits)
  next
    case (Some y)
    with 2 show ?thesis by auto
  qed
qed simp

lemma top_stream_first:
  assumes inv: "sched_inv s" and u: "u < NGHTTP2_EXTPRI_URGENCY_LEVELS"
    and top: "nghttp2_pq_top (sc_queues s ! u) = Some x"
  shows "st_queued (sc_streams s x) \<and> urgency_of (sc_streams s x) = u \<and>
    (\<forall>y. st_queued (sc_streams s y) \<and> urgency_of (sc_streams s y) = u \<longrightarrow>
      st_cycle (sc_streams s y) - st_cycle (sc_streams s x) \<le> NGHTTP2_STREAM_MAX_CYCLE_GAP \<and>
      (st_cycle (sc_streams s y) = st_cycle (sc_streams s x) \<longrightarrow>
        st_seq (sc_streams s x) \<le> st_seq (sc_streams s y)))"
proof -
  have l: "level_ord (sc_streams s) (sc_queues s ! u)" using inv u by (simp add: sched_inv_def)
  have m: "y \<in> set (pqq (sc_queues s ! u)) \<longleftrightarrow> st_queued (sc_streams s y) \<and> urgency_of (sc_streams s y) = u" for y
    using inv u by (simp add: sched_inv_def)
  have t: "x \<in> set (pqq (sc_queues s ! u))"
    "\<And>y. y \<in> set (pqq (sc_queues s ! u)) \<Longrightarrow> \<not> stream_less (sc_streams s) y x"
    using pq_valid_top(2) [OF _ top] l by (auto simp: level_ord_def)
  have w: "y \<in> set (pqq (sc_queues s ! u)) \<Longrightarrow>
      st_cycle (sc_streams s y) - st_cycle (sc_streams s x) \<le> NGHTTP2_STREAM_MAX_CYCLE_GAP" for y
    using level_first_window [OF l] top by (auto simp: pq_get_first_cycle_def cycle_window_def)
  have "y \<in> set (pqq (sc_queues s ! u)) \<Longrightarrow> st_cycle (sc_streams s y) = st_cycle (sc_streams s x) \<Longrightarrow>
      st_seq (sc_streams s x) \<le> st_seq (sc_streams s y)" for y
    using t(2) [of y] by (auto simp: stream_less_def Let_def)
  then show ?thesis using m t(1) w by auto
qed

section \<open>Properties\<close>

text \<open>
  C13. The scheduler never fails an assertion: in every state that a run reaches (whatever
  allocations failed on the way), each call whose precondition holds returns, the invariant of
  the queues, of the wrapping cycle window and of the queued marks holds, and as long as no call
  has reported an error every stream with an item that is not deferred is queued.
\<close>

theorem sched_run_correct:
  assumes "sched_reachable s ok"
  shows "sched_inv s \<and> (ok \<longrightarrow> sched_live s) \<and>
    (sched_pre opn s \<longrightarrow> (\<exists>v s'. sched_exec opn s = Some (v, s')))"
  using sched_reachable_inv [OF assms] sched_exec_good [of s opn] by (auto simp: sched_good_def)

text \<open>The initial state of the witnesses: all streams idle, allocations succeed.\<close>

definition sched_example :: nghttp2_sched where
  "sched_example = sched_init (replicate 8 []) (\<lambda>x. nghttp2_stream_init (int x) 0 STREAM_INITIAL 65535 65535)"

lemma sched_example_reachable: "sched_reachable sched_example True"
proof -
  have "\<exists>i rw lw. nghttp2_stream_init (int x) 0 STREAM_INITIAL 65535 65535 =
      nghttp2_stream_init i 0 STREAM_INITIAL rw lw \<lparr>st_seq := 0\<rparr>" for x :: nat
    by (intro exI [of _ "int x"] exI [of _ 65535]) (simp add: nghttp2_stream_init_def)
  from sched_reachable.start [of "replicate 8 []" _ "\<lambda>_. 0", OF _ this]
  show ?thesis by (simp add: sched_example_def NGHTTP2_EXTPRI_URGENCY_LEVELS_def)
qed

theorem sched_run_correct_witness:
  "\<exists>v s'. sched_exec (Attach 1 7) sched_example = Some (v, s')"
proof -
  have "sched_pre (Attach 1 7) sched_example"
    by (simp add: sched_example_def sched_init_def nghttp2_stream_init_def)
  then show ?thesis using sched_run_correct [OF sched_example_reachable, of "Attach 1 7"] by blast
qed

text \<open>
  C14. The next item is the right one: after a run without errors, no item is returned only when
  no stream has an item ready to be sent, and otherwise the item of a queued stream is returned
  such that every other ready stream has a less urgent level, or the same level and a later
  virtual time, or the same time and no smaller sequence number.
\<close>

theorem sched_next_item_correct:
  assumes "sched_reachable s True"
  shows "case session_sched_get_next_outbound_item s of
      None \<Rightarrow> (\<forall>y. st_item (sc_streams s y) = None \<or> deferred (sc_streams s y)) \<and> session_sched_empty s
    | Some i \<Rightarrow> \<exists>x. st_item (sc_streams s x) = Some i \<and> \<not> deferred (sc_streams s x) \<and>
        (\<forall>y. st_item (sc_streams s y) \<noteq> None \<and> \<not> deferred (sc_streams s y) \<longrightarrow>
          urgency_of (sc_streams s x) < urgency_of (sc_streams s y) \<or>
          urgency_of (sc_streams s x) = urgency_of (sc_streams s y) \<and>
          st_cycle (sc_streams s y) - st_cycle (sc_streams s x) \<le> NGHTTP2_STREAM_MAX_CYCLE_GAP \<and>
          (st_cycle (sc_streams s y) = st_cycle (sc_streams s x) \<longrightarrow>
            st_seq (sc_streams s x) \<le> st_seq (sc_streams s y)))"
proof -
  have inv: "sched_inv s" and live: "sched_live s" using sched_reachable_inv [OF assms] by auto
  have len: "length (sc_queues s) = NGHTTP2_EXTPRI_URGENCY_LEVELS" using inv by (simp add: sched_inv_def)
  have ready: "st_queued (sc_streams s y) \<and> urgency_of (sc_streams s y) < NGHTTP2_EXTPRI_URGENCY_LEVELS"
    if "st_item (sc_streams s y) \<noteq> None \<and> \<not> deferred (sc_streams s y)" for y
    using live that level_of(1) [OF inv, of y] unfolding sched_live_def by blast
  have qd: "nghttp2_pq_top (sc_queues s ! urgency_of (sc_streams s y)) \<noteq> None"
    if "st_queued (sc_streams s y)" for y
    using level_of [OF inv, of y] that by (auto simp: nghttp2_pq_top_def)
  show ?thesis
  proof (cases "first_nonempty (sc_queues s)")
    case None
    then have none: "nghttp2_pq_top pq = None" if "pq \<in> set (sc_queues s)" for pq
      using that by (auto simp: first_nonempty_None)
    then have "\<not> st_queued (sc_streams s y)" for y
      using qd [of y] none [OF nth_mem, of "urgency_of (sc_streams s y)"] level_of(1) [OF inv, of y] len
      by auto
    moreover have "session_sched_empty s"
      unfolding session_sched_empty_def list_all_iff
    proof
      fix pq assume "pq \<in> set (sc_queues s)"
      from none [OF this] show "nghttp2_pq_empty pq"
        by (simp add: nghttp2_pq_empty_def nghttp2_pq_top_def split: if_splits)
    qed
    ultimately show ?thesis using None live
      by (auto simp: session_sched_get_next_outbound_item_def sched_live_def)
  next
    case (Some x)
    then obtain u where u: "u < NGHTTP2_EXTPRI_URGENCY_LEVELS" "nghttp2_pq_top (sc_queues s ! u) = Some x"
      "\<forall>v < u. nghttp2_pq_top (sc_queues s ! v) = None"
      using first_nonempty_Some [OF Some] len by auto
    note t = top_stream_first [OF inv u(1,2)]
    then obtain i where i: "st_item (sc_streams s x) = Some i" "\<not> deferred (sc_streams s x)"
      using inv by (auto simp: sched_inv_def)
    have later: "u < urgency_of (sc_streams s y) \<or> urgency_of (sc_streams s y) = u"
      if "st_queued (sc_streams s y)" for y
      using qd [OF that] u(3) by (metis linorder_neqE_nat)
    have "\<forall>y. st_item (sc_streams s y) \<noteq> None \<and> \<not> deferred (sc_streams s y) \<longrightarrow>
          urgency_of (sc_streams s x) < urgency_of (sc_streams s y) \<or>
          urgency_of (sc_streams s x) = urgency_of (sc_streams s y) \<and>
          st_cycle (sc_streams s y) - st_cycle (sc_streams s x) \<le> NGHTTP2_STREAM_MAX_CYCLE_GAP \<and>
          (st_cycle (sc_streams s y) = st_cycle (sc_streams s x) \<longrightarrow>
            st_seq (sc_streams s x) \<le> st_seq (sc_streams s y))"
      using t ready later by metis
    moreover have "session_sched_get_next_outbound_item s = Some i"
      using Some i by (simp add: session_sched_get_next_outbound_item_def)
    ultimately show ?thesis using i by auto
  qed
qed

theorem sched_next_item_correct_witness:
  "let s = snd (the (sched_exec (Attach 1 7) sched_example)) in
   session_sched_get_next_outbound_item s = Some 7 \<and>
   (\<exists>x. st_item (sc_streams s x) = Some 7 \<and> \<not> deferred (sc_streams s x))"
proof -
  define r where "r = sched_exec (Attach 1 7) sched_example"
  have v: "r \<noteq> None" "fst (the r) = Inr ()" "session_sched_get_next_outbound_item (snd (the r)) = Some 7"
    unfolding r_def by code_simp+
  then have "sched_exec (Attach 1 7) sched_example = Some (Inr (), snd (the r))"
    by (cases r) (auto simp: r_def prod_eq_iff)
  moreover have "sched_pre (Attach 1 7) sched_example"
    by (simp add: sched_example_def sched_init_def nghttp2_stream_init_def)
  ultimately have "sched_reachable (snd (the r)) True"
    using sched_reachable.step [OF sched_example_reachable] by fastforce
  from sched_next_item_correct [OF this] v(3) show ?thesis unfolding Let_def r_def [symmetric] by auto
qed

end
