(* ===== verification/Nghttp2_Huffman_Data.thy ===== *)
theory Nghttp2_Huffman_Data
  imports Nghttp2_Base
begin

text \<open>
  The tables of \<open>src/src/nghttp2/lib/nghttp2_hd_huffman_data.c\<close>: the code of every symbol
  (left aligned, with its length in bits) and the transition table of the decoder, which reads
  four bits at a time. The table is split into parts of seven states each, in the order of the
  source; \<open>huff_decode_table\<close> is their concatenation.
\<close>

datatype nghttp2_huff_sym = Huff_sym (hnbits: nat) (hcode: u32)

datatype nghttp2_huff_decode = Huff_decode (hfstate: u16) (hflags: u8) (hsym: u8)

definition huff_sym_table :: "nghttp2_huff_sym list" where
  "huff_sym_table = [
    Huff_sym 13 0xffc00000, Huff_sym 23 0xffffb000, Huff_sym 28 0xfffffe20, Huff_sym 28 0xfffffe30,
    Huff_sym 28 0xfffffe40, Huff_sym 28 0xfffffe50, Huff_sym 28 0xfffffe60, Huff_sym 28 0xfffffe70,
    Huff_sym 28 0xfffffe80, Huff_sym 24 0xffffea00, Huff_sym 30 0xfffffff0, Huff_sym 28 0xfffffe90,
    Huff_sym 28 0xfffffea0, Huff_sym 30 0xfffffff4, Huff_sym 28 0xfffffeb0, Huff_sym 28 0xfffffec0,
    Huff_sym 28 0xfffffed0, Huff_sym 28 0xfffffee0, Huff_sym 28 0xfffffef0, Huff_sym 28 0xffffff00,
    Huff_sym 28 0xffffff10, Huff_sym 28 0xffffff20, Huff_sym 30 0xfffffff8, Huff_sym 28 0xffffff30,
    Huff_sym 28 0xffffff40, Huff_sym 28 0xffffff50, Huff_sym 28 0xffffff60, Huff_sym 28 0xffffff70,
    Huff_sym 28 0xffffff80, Huff_sym 28 0xffffff90, Huff_sym 28 0xffffffa0, Huff_sym 28 0xffffffb0,
    Huff_sym 6 0x50000000, Huff_sym 10 0xfe000000, Huff_sym 10 0xfe400000, Huff_sym 12 0xffa00000,
    Huff_sym 13 0xffc80000, Huff_sym 6 0x54000000, Huff_sym 8 0xf8000000, Huff_sym 11 0xff400000,
    Huff_sym 10 0xfe800000, Huff_sym 10 0xfec00000, Huff_sym 8 0xf9000000, Huff_sym 11 0xff600000,
    Huff_sym 8 0xfa000000, Huff_sym 6 0x58000000, Huff_sym 6 0x5c000000, Huff_sym 6 0x60000000,
    Huff_sym 5 0x0, Huff_sym 5 0x8000000, Huff_sym 5 0x10000000, Huff_sym 6 0x64000000,
    Huff_sym 6 0x68000000, Huff_sym 6 0x6c000000, Huff_sym 6 0x70000000, Huff_sym 6 0x74000000,
    Huff_sym 6 0x78000000, Huff_sym 6 0x7c000000, Huff_sym 7 0xb8000000, Huff_sym 8 0xfb000000,
    Huff_sym 15 0xfff80000, Huff_sym 6 0x80000000, Huff_sym 12 0xffb00000, Huff_sym 10 0xff000000,
    Huff_sym 13 0xffd00000, Huff_sym 6 0x84000000, Huff_sym 7 0xba000000, Huff_sym 7 0xbc000000,
    Huff_sym 7 0xbe000000, Huff_sym 7 0xc0000000, Huff_sym 7 0xc2000000, Huff_sym 7 0xc4000000,
    Huff_sym 7 0xc6000000, Huff_sym 7 0xc8000000, Huff_sym 7 0xca000000, Huff_sym 7 0xcc000000,
    Huff_sym 7 0xce000000, Huff_sym 7 0xd0000000, Huff_sym 7 0xd2000000, Huff_sym 7 0xd4000000,
    Huff_sym 7 0xd6000000, Huff_sym 7 0xd8000000, Huff_sym 7 0xda000000, Huff_sym 7 0xdc000000,
    Huff_sym 7 0xde000000, Huff_sym 7 0xe0000000, Huff_sym 7 0xe2000000, Huff_sym 7 0xe4000000,
    Huff_sym 8 0xfc000000, Huff_sym 7 0xe6000000, Huff_sym 8 0xfd000000, Huff_sym 13 0xffd80000,
    Huff_sym 19 0xfffe0000, Huff_sym 13 0xffe00000, Huff_sym 14 0xfff00000, Huff_sym 6 0x88000000,
    Huff_sym 15 0xfffa0000, Huff_sym 5 0x18000000, Huff_sym 6 0x8c000000, Huff_sym 5 0x20000000,
    Huff_sym 6 0x90000000, Huff_sym 5 0x28000000, Huff_sym 6 0x94000000, Huff_sym 6 0x98000000,
    Huff_sym 6 0x9c000000, Huff_sym 5 0x30000000, Huff_sym 7 0xe8000000, Huff_sym 7 0xea000000,
    Huff_sym 6 0xa0000000, Huff_sym 6 0xa4000000, Huff_sym 6 0xa8000000, Huff_sym 5 0x38000000,
    Huff_sym 6 0xac000000, Huff_sym 7 0xec000000, Huff_sym 6 0xb0000000, Huff_sym 5 0x40000000,
    Huff_sym 5 0x48000000, Huff_sym 6 0xb4000000, Huff_sym 7 0xee000000, Huff_sym 7 0xf0000000,
    Huff_sym 7 0xf2000000, Huff_sym 7 0xf4000000, Huff_sym 7 0xf6000000, Huff_sym 15 0xfffc0000,
    Huff_sym 11 0xff800000, Huff_sym 14 0xfff40000, Huff_sym 13 0xffe80000, Huff_sym 28 0xffffffc0,
    Huff_sym 20 0xfffe6000, Huff_sym 22 0xffff4800, Huff_sym 20 0xfffe7000, Huff_sym 20 0xfffe8000,
    Huff_sym 22 0xffff4c00, Huff_sym 22 0xffff5000, Huff_sym 22 0xffff5400, Huff_sym 23 0xffffb200,
    Huff_sym 22 0xffff5800, Huff_sym 23 0xffffb400, Huff_sym 23 0xffffb600, Huff_sym 23 0xffffb800,
    Huff_sym 23 0xffffba00, Huff_sym 23 0xffffbc00, Huff_sym 24 0xffffeb00, Huff_sym 23 0xffffbe00,
    Huff_sym 24 0xffffec00, Huff_sym 24 0xffffed00, Huff_sym 22 0xffff5c00, Huff_sym 23 0xffffc000,
    Huff_sym 24 0xffffee00, Huff_sym 23 0xffffc200, Huff_sym 23 0xffffc400, Huff_sym 23 0xffffc600,
    Huff_sym 23 0xffffc800, Huff_sym 21 0xfffee000, Huff_sym 22 0xffff6000, Huff_sym 23 0xffffca00,
    Huff_sym 22 0xffff6400, Huff_sym 23 0xffffcc00, Huff_sym 23 0xffffce00, Huff_sym 24 0xffffef00,
    Huff_sym 22 0xffff6800, Huff_sym 21 0xfffee800, Huff_sym 20 0xfffe9000, Huff_sym 22 0xffff6c00,
    Huff_sym 22 0xffff7000, Huff_sym 23 0xffffd000, Huff_sym 23 0xffffd200, Huff_sym 21 0xfffef000,
    Huff_sym 23 0xffffd400, Huff_sym 22 0xffff7400, Huff_sym 22 0xffff7800, Huff_sym 24 0xfffff000,
    Huff_sym 21 0xfffef800, Huff_sym 22 0xffff7c00, Huff_sym 23 0xffffd600, Huff_sym 23 0xffffd800,
    Huff_sym 21 0xffff0000, Huff_sym 21 0xffff0800, Huff_sym 22 0xffff8000, Huff_sym 21 0xffff1000,
    Huff_sym 23 0xffffda00, Huff_sym 22 0xffff8400, Huff_sym 23 0xffffdc00, Huff_sym 23 0xffffde00,
    Huff_sym 20 0xfffea000, Huff_sym 22 0xffff8800, Huff_sym 22 0xffff8c00, Huff_sym 22 0xffff9000,
    Huff_sym 23 0xffffe000, Huff_sym 22 0xffff9400, Huff_sym 22 0xffff9800, Huff_sym 23 0xffffe200,
    Huff_sym 26 0xfffff800, Huff_sym 26 0xfffff840, Huff_sym 20 0xfffeb000, Huff_sym 19 0xfffe2000,
    Huff_sym 22 0xffff9c00, Huff_sym 23 0xffffe400, Huff_sym 22 0xffffa000, Huff_sym 25 0xfffff600,
    Huff_sym 26 0xfffff880, Huff_sym 26 0xfffff8c0, Huff_sym 26 0xfffff900, Huff_sym 27 0xfffffbc0,
    Huff_sym 27 0xfffffbe0, Huff_sym 26 0xfffff940, Huff_sym 24 0xfffff100, Huff_sym 25 0xfffff680,
    Huff_sym 19 0xfffe4000, Huff_sym 21 0xffff1800, Huff_sym 26 0xfffff980, Huff_sym 27 0xfffffc00,
    Huff_sym 27 0xfffffc20, Huff_sym 26 0xfffff9c0, Huff_sym 27 0xfffffc40, Huff_sym 24 0xfffff200,
    Huff_sym 21 0xffff2000, Huff_sym 21 0xffff2800, Huff_sym 26 0xfffffa00, Huff_sym 26 0xfffffa40,
    Huff_sym 28 0xffffffd0, Huff_sym 27 0xfffffc60, Huff_sym 27 0xfffffc80, Huff_sym 27 0xfffffca0,
    Huff_sym 20 0xfffec000, Huff_sym 24 0xfffff300, Huff_sym 20 0xfffed000, Huff_sym 21 0xffff3000,
    Huff_sym 22 0xffffa400, Huff_sym 21 0xffff3800, Huff_sym 21 0xffff4000, Huff_sym 23 0xffffe600,
    Huff_sym 22 0xffffa800, Huff_sym 22 0xffffac00, Huff_sym 25 0xfffff700, Huff_sym 25 0xfffff780,
    Huff_sym 24 0xfffff400, Huff_sym 24 0xfffff500, Huff_sym 26 0xfffffa80, Huff_sym 23 0xffffe800,
    Huff_sym 26 0xfffffac0, Huff_sym 27 0xfffffcc0, Huff_sym 26 0xfffffb00, Huff_sym 26 0xfffffb40,
    Huff_sym 27 0xfffffce0, Huff_sym 27 0xfffffd00, Huff_sym 27 0xfffffd20, Huff_sym 27 0xfffffd40,
    Huff_sym 27 0xfffffd60, Huff_sym 28 0xffffffe0, Huff_sym 27 0xfffffd80, Huff_sym 27 0xfffffda0,
    Huff_sym 27 0xfffffdc0, Huff_sym 27 0xfffffde0, Huff_sym 27 0xfffffe00, Huff_sym 26 0xfffffb80,
    Huff_sym 30 0xfffffffc]"

definition huff_decode_table_0 :: "nghttp2_huff_decode list list" where
  "huff_decode_table_0 = [
   [Huff_decode 0x4 0 0, Huff_decode 0x5 0 0, Huff_decode 0x7 0 0, Huff_decode 0x8 0 0,
    Huff_decode 0xb 0 0, Huff_decode 0xc 0 0, Huff_decode 0x10 0 0, Huff_decode 0x13 0 0,
    Huff_decode 0x19 0 0, Huff_decode 0x1c 0 0, Huff_decode 0x20 0 0, Huff_decode 0x23 0 0,
    Huff_decode 0x2a 0 0, Huff_decode 0x31 0 0, Huff_decode 0x39 0 0, Huff_decode 0x40 1 0],
   [Huff_decode 0x0 3 48, Huff_decode 0x0 3 49, Huff_decode 0x0 3 50, Huff_decode 0x0 3 97,
    Huff_decode 0x0 3 99, Huff_decode 0x0 3 101, Huff_decode 0x0 3 105, Huff_decode 0x0 3 111,
    Huff_decode 0x0 3 115, Huff_decode 0x0 3 116, Huff_decode 0xd 0 0, Huff_decode 0xe 0 0,
    Huff_decode 0x11 0 0, Huff_decode 0x12 0 0, Huff_decode 0x14 0 0, Huff_decode 0x15 0 0],
   [Huff_decode 0x1 2 48, Huff_decode 0x16 3 48, Huff_decode 0x1 2 49, Huff_decode 0x16 3 49,
    Huff_decode 0x1 2 50, Huff_decode 0x16 3 50, Huff_decode 0x1 2 97, Huff_decode 0x16 3 97,
    Huff_decode 0x1 2 99, Huff_decode 0x16 3 99, Huff_decode 0x1 2 101, Huff_decode 0x16 3 101,
    Huff_decode 0x1 2 105, Huff_decode 0x16 3 105, Huff_decode 0x1 2 111, Huff_decode 0x16 3 111],
   [Huff_decode 0x2 2 48, Huff_decode 0x9 2 48, Huff_decode 0x17 2 48, Huff_decode 0x28 3 48,
    Huff_decode 0x2 2 49, Huff_decode 0x9 2 49, Huff_decode 0x17 2 49, Huff_decode 0x28 3 49,
    Huff_decode 0x2 2 50, Huff_decode 0x9 2 50, Huff_decode 0x17 2 50, Huff_decode 0x28 3 50,
    Huff_decode 0x2 2 97, Huff_decode 0x9 2 97, Huff_decode 0x17 2 97, Huff_decode 0x28 3 97],
   [Huff_decode 0x3 2 48, Huff_decode 0x6 2 48, Huff_decode 0xa 2 48, Huff_decode 0xf 2 48,
    Huff_decode 0x18 2 48, Huff_decode 0x1f 2 48, Huff_decode 0x29 2 48, Huff_decode 0x38 3 48,
    Huff_decode 0x3 2 49, Huff_decode 0x6 2 49, Huff_decode 0xa 2 49, Huff_decode 0xf 2 49,
    Huff_decode 0x18 2 49, Huff_decode 0x1f 2 49, Huff_decode 0x29 2 49, Huff_decode 0x38 3 49],
   [Huff_decode 0x3 2 50, Huff_decode 0x6 2 50, Huff_decode 0xa 2 50, Huff_decode 0xf 2 50,
    Huff_decode 0x18 2 50, Huff_decode 0x1f 2 50, Huff_decode 0x29 2 50, Huff_decode 0x38 3 50,
    Huff_decode 0x3 2 97, Huff_decode 0x6 2 97, Huff_decode 0xa 2 97, Huff_decode 0xf 2 97,
    Huff_decode 0x18 2 97, Huff_decode 0x1f 2 97, Huff_decode 0x29 2 97, Huff_decode 0x38 3 97],
   [Huff_decode 0x2 2 99, Huff_decode 0x9 2 99, Huff_decode 0x17 2 99, Huff_decode 0x28 3 99,
    Huff_decode 0x2 2 101, Huff_decode 0x9 2 101, Huff_decode 0x17 2 101, Huff_decode 0x28 3 101,
    Huff_decode 0x2 2 105, Huff_decode 0x9 2 105, Huff_decode 0x17 2 105, Huff_decode 0x28 3 105,
    Huff_decode 0x2 2 111, Huff_decode 0x9 2 111, Huff_decode 0x17 2 111, Huff_decode 0x28 3 111]]"

definition huff_decode_table_1 :: "nghttp2_huff_decode list list" where
  "huff_decode_table_1 = [
   [Huff_decode 0x3 2 99, Huff_decode 0x6 2 99, Huff_decode 0xa 2 99, Huff_decode 0xf 2 99,
    Huff_decode 0x18 2 99, Huff_decode 0x1f 2 99, Huff_decode 0x29 2 99, Huff_decode 0x38 3 99,
    Huff_decode 0x3 2 101, Huff_decode 0x6 2 101, Huff_decode 0xa 2 101, Huff_decode 0xf 2 101,
    Huff_decode 0x18 2 101, Huff_decode 0x1f 2 101, Huff_decode 0x29 2 101, Huff_decode 0x38 3 101],
   [Huff_decode 0x3 2 105, Huff_decode 0x6 2 105, Huff_decode 0xa 2 105, Huff_decode 0xf 2 105,
    Huff_decode 0x18 2 105, Huff_decode 0x1f 2 105, Huff_decode 0x29 2 105, Huff_decode 0x38 3 105,
    Huff_decode 0x3 2 111, Huff_decode 0x6 2 111, Huff_decode 0xa 2 111, Huff_decode 0xf 2 111,
    Huff_decode 0x18 2 111, Huff_decode 0x1f 2 111, Huff_decode 0x29 2 111, Huff_decode 0x38 3 111],
   [Huff_decode 0x1 2 115, Huff_decode 0x16 3 115, Huff_decode 0x1 2 116, Huff_decode 0x16 3 116,
    Huff_decode 0x0 3 32, Huff_decode 0x0 3 37, Huff_decode 0x0 3 45, Huff_decode 0x0 3 46,
    Huff_decode 0x0 3 47, Huff_decode 0x0 3 51, Huff_decode 0x0 3 52, Huff_decode 0x0 3 53,
    Huff_decode 0x0 3 54, Huff_decode 0x0 3 55, Huff_decode 0x0 3 56, Huff_decode 0x0 3 57],
   [Huff_decode 0x2 2 115, Huff_decode 0x9 2 115, Huff_decode 0x17 2 115, Huff_decode 0x28 3 115,
    Huff_decode 0x2 2 116, Huff_decode 0x9 2 116, Huff_decode 0x17 2 116, Huff_decode 0x28 3 116,
    Huff_decode 0x1 2 32, Huff_decode 0x16 3 32, Huff_decode 0x1 2 37, Huff_decode 0x16 3 37,
    Huff_decode 0x1 2 45, Huff_decode 0x16 3 45, Huff_decode 0x1 2 46, Huff_decode 0x16 3 46],
   [Huff_decode 0x3 2 115, Huff_decode 0x6 2 115, Huff_decode 0xa 2 115, Huff_decode 0xf 2 115,
    Huff_decode 0x18 2 115, Huff_decode 0x1f 2 115, Huff_decode 0x29 2 115, Huff_decode 0x38 3 115,
    Huff_decode 0x3 2 116, Huff_decode 0x6 2 116, Huff_decode 0xa 2 116, Huff_decode 0xf 2 116,
    Huff_decode 0x18 2 116, Huff_decode 0x1f 2 116, Huff_decode 0x29 2 116, Huff_decode 0x38 3 116],
   [Huff_decode 0x2 2 32, Huff_decode 0x9 2 32, Huff_decode 0x17 2 32, Huff_decode 0x28 3 32,
    Huff_decode 0x2 2 37, Huff_decode 0x9 2 37, Huff_decode 0x17 2 37, Huff_decode 0x28 3 37,
    Huff_decode 0x2 2 45, Huff_decode 0x9 2 45, Huff_decode 0x17 2 45, Huff_decode 0x28 3 45,
    Huff_decode 0x2 2 46, Huff_decode 0x9 2 46, Huff_decode 0x17 2 46, Huff_decode 0x28 3 46],
   [Huff_decode 0x3 2 32, Huff_decode 0x6 2 32, Huff_decode 0xa 2 32, Huff_decode 0xf 2 32,
    Huff_decode 0x18 2 32, Huff_decode 0x1f 2 32, Huff_decode 0x29 2 32, Huff_decode 0x38 3 32,
    Huff_decode 0x3 2 37, Huff_decode 0x6 2 37, Huff_decode 0xa 2 37, Huff_decode 0xf 2 37,
    Huff_decode 0x18 2 37, Huff_decode 0x1f 2 37, Huff_decode 0x29 2 37, Huff_decode 0x38 3 37]]"

definition huff_decode_table_2 :: "nghttp2_huff_decode list list" where
  "huff_decode_table_2 = [
   [Huff_decode 0x3 2 45, Huff_decode 0x6 2 45, Huff_decode 0xa 2 45, Huff_decode 0xf 2 45,
    Huff_decode 0x18 2 45, Huff_decode 0x1f 2 45, Huff_decode 0x29 2 45, Huff_decode 0x38 3 45,
    Huff_decode 0x3 2 46, Huff_decode 0x6 2 46, Huff_decode 0xa 2 46, Huff_decode 0xf 2 46,
    Huff_decode 0x18 2 46, Huff_decode 0x1f 2 46, Huff_decode 0x29 2 46, Huff_decode 0x38 3 46],
   [Huff_decode 0x1 2 47, Huff_decode 0x16 3 47, Huff_decode 0x1 2 51, Huff_decode 0x16 3 51,
    Huff_decode 0x1 2 52, Huff_decode 0x16 3 52, Huff_decode 0x1 2 53, Huff_decode 0x16 3 53,
    Huff_decode 0x1 2 54, Huff_decode 0x16 3 54, Huff_decode 0x1 2 55, Huff_decode 0x16 3 55,
    Huff_decode 0x1 2 56, Huff_decode 0x16 3 56, Huff_decode 0x1 2 57, Huff_decode 0x16 3 57],
   [Huff_decode 0x2 2 47, Huff_decode 0x9 2 47, Huff_decode 0x17 2 47, Huff_decode 0x28 3 47,
    Huff_decode 0x2 2 51, Huff_decode 0x9 2 51, Huff_decode 0x17 2 51, Huff_decode 0x28 3 51,
    Huff_decode 0x2 2 52, Huff_decode 0x9 2 52, Huff_decode 0x17 2 52, Huff_decode 0x28 3 52,
    Huff_decode 0x2 2 53, Huff_decode 0x9 2 53, Huff_decode 0x17 2 53, Huff_decode 0x28 3 53],
   [Huff_decode 0x3 2 47, Huff_decode 0x6 2 47, Huff_decode 0xa 2 47, Huff_decode 0xf 2 47,
    Huff_decode 0x18 2 47, Huff_decode 0x1f 2 47, Huff_decode 0x29 2 47, Huff_decode 0x38 3 47,
    Huff_decode 0x3 2 51, Huff_decode 0x6 2 51, Huff_decode 0xa 2 51, Huff_decode 0xf 2 51,
    Huff_decode 0x18 2 51, Huff_decode 0x1f 2 51, Huff_decode 0x29 2 51, Huff_decode 0x38 3 51],
   [Huff_decode 0x3 2 52, Huff_decode 0x6 2 52, Huff_decode 0xa 2 52, Huff_decode 0xf 2 52,
    Huff_decode 0x18 2 52, Huff_decode 0x1f 2 52, Huff_decode 0x29 2 52, Huff_decode 0x38 3 52,
    Huff_decode 0x3 2 53, Huff_decode 0x6 2 53, Huff_decode 0xa 2 53, Huff_decode 0xf 2 53,
    Huff_decode 0x18 2 53, Huff_decode 0x1f 2 53, Huff_decode 0x29 2 53, Huff_decode 0x38 3 53],
   [Huff_decode 0x2 2 54, Huff_decode 0x9 2 54, Huff_decode 0x17 2 54, Huff_decode 0x28 3 54,
    Huff_decode 0x2 2 55, Huff_decode 0x9 2 55, Huff_decode 0x17 2 55, Huff_decode 0x28 3 55,
    Huff_decode 0x2 2 56, Huff_decode 0x9 2 56, Huff_decode 0x17 2 56, Huff_decode 0x28 3 56,
    Huff_decode 0x2 2 57, Huff_decode 0x9 2 57, Huff_decode 0x17 2 57, Huff_decode 0x28 3 57],
   [Huff_decode 0x3 2 54, Huff_decode 0x6 2 54, Huff_decode 0xa 2 54, Huff_decode 0xf 2 54,
    Huff_decode 0x18 2 54, Huff_decode 0x1f 2 54, Huff_decode 0x29 2 54, Huff_decode 0x38 3 54,
    Huff_decode 0x3 2 55, Huff_decode 0x6 2 55, Huff_decode 0xa 2 55, Huff_decode 0xf 2 55,
    Huff_decode 0x18 2 55, Huff_decode 0x1f 2 55, Huff_decode 0x29 2 55, Huff_decode 0x38 3 55]]"

definition huff_decode_table_3 :: "nghttp2_huff_decode list list" where
  "huff_decode_table_3 = [
   [Huff_decode 0x3 2 56, Huff_decode 0x6 2 56, Huff_decode 0xa 2 56, Huff_decode 0xf 2 56,
    Huff_decode 0x18 2 56, Huff_decode 0x1f 2 56, Huff_decode 0x29 2 56, Huff_decode 0x38 3 56,
    Huff_decode 0x3 2 57, Huff_decode 0x6 2 57, Huff_decode 0xa 2 57, Huff_decode 0xf 2 57,
    Huff_decode 0x18 2 57, Huff_decode 0x1f 2 57, Huff_decode 0x29 2 57, Huff_decode 0x38 3 57],
   [Huff_decode 0x1a 0 0, Huff_decode 0x1b 0 0, Huff_decode 0x1d 0 0, Huff_decode 0x1e 0 0,
    Huff_decode 0x21 0 0, Huff_decode 0x22 0 0, Huff_decode 0x24 0 0, Huff_decode 0x25 0 0,
    Huff_decode 0x2b 0 0, Huff_decode 0x2e 0 0, Huff_decode 0x32 0 0, Huff_decode 0x35 0 0,
    Huff_decode 0x3a 0 0, Huff_decode 0x3d 0 0, Huff_decode 0x41 0 0, Huff_decode 0x44 1 0],
   [Huff_decode 0x0 3 61, Huff_decode 0x0 3 65, Huff_decode 0x0 3 95, Huff_decode 0x0 3 98,
    Huff_decode 0x0 3 100, Huff_decode 0x0 3 102, Huff_decode 0x0 3 103, Huff_decode 0x0 3 104,
    Huff_decode 0x0 3 108, Huff_decode 0x0 3 109, Huff_decode 0x0 3 110, Huff_decode 0x0 3 112,
    Huff_decode 0x0 3 114, Huff_decode 0x0 3 117, Huff_decode 0x26 0 0, Huff_decode 0x27 0 0],
   [Huff_decode 0x1 2 61, Huff_decode 0x16 3 61, Huff_decode 0x1 2 65, Huff_decode 0x16 3 65,
    Huff_decode 0x1 2 95, Huff_decode 0x16 3 95, Huff_decode 0x1 2 98, Huff_decode 0x16 3 98,
    Huff_decode 0x1 2 100, Huff_decode 0x16 3 100, Huff_decode 0x1 2 102, Huff_decode 0x16 3 102,
    Huff_decode 0x1 2 103, Huff_decode 0x16 3 103, Huff_decode 0x1 2 104, Huff_decode 0x16 3 104],
   [Huff_decode 0x2 2 61, Huff_decode 0x9 2 61, Huff_decode 0x17 2 61, Huff_decode 0x28 3 61,
    Huff_decode 0x2 2 65, Huff_decode 0x9 2 65, Huff_decode 0x17 2 65, Huff_decode 0x28 3 65,
    Huff_decode 0x2 2 95, Huff_decode 0x9 2 95, Huff_decode 0x17 2 95, Huff_decode 0x28 3 95,
    Huff_decode 0x2 2 98, Huff_decode 0x9 2 98, Huff_decode 0x17 2 98, Huff_decode 0x28 3 98],
   [Huff_decode 0x3 2 61, Huff_decode 0x6 2 61, Huff_decode 0xa 2 61, Huff_decode 0xf 2 61,
    Huff_decode 0x18 2 61, Huff_decode 0x1f 2 61, Huff_decode 0x29 2 61, Huff_decode 0x38 3 61,
    Huff_decode 0x3 2 65, Huff_decode 0x6 2 65, Huff_decode 0xa 2 65, Huff_decode 0xf 2 65,
    Huff_decode 0x18 2 65, Huff_decode 0x1f 2 65, Huff_decode 0x29 2 65, Huff_decode 0x38 3 65],
   [Huff_decode 0x3 2 95, Huff_decode 0x6 2 95, Huff_decode 0xa 2 95, Huff_decode 0xf 2 95,
    Huff_decode 0x18 2 95, Huff_decode 0x1f 2 95, Huff_decode 0x29 2 95, Huff_decode 0x38 3 95,
    Huff_decode 0x3 2 98, Huff_decode 0x6 2 98, Huff_decode 0xa 2 98, Huff_decode 0xf 2 98,
    Huff_decode 0x18 2 98, Huff_decode 0x1f 2 98, Huff_decode 0x29 2 98, Huff_decode 0x38 3 98]]"

definition huff_decode_table_4 :: "nghttp2_huff_decode list list" where
  "huff_decode_table_4 = [
   [Huff_decode 0x2 2 100, Huff_decode 0x9 2 100, Huff_decode 0x17 2 100, Huff_decode 0x28 3 100,
    Huff_decode 0x2 2 102, Huff_decode 0x9 2 102, Huff_decode 0x17 2 102, Huff_decode 0x28 3 102,
    Huff_decode 0x2 2 103, Huff_decode 0x9 2 103, Huff_decode 0x17 2 103, Huff_decode 0x28 3 103,
    Huff_decode 0x2 2 104, Huff_decode 0x9 2 104, Huff_decode 0x17 2 104, Huff_decode 0x28 3 104],
   [Huff_decode 0x3 2 100, Huff_decode 0x6 2 100, Huff_decode 0xa 2 100, Huff_decode 0xf 2 100,
    Huff_decode 0x18 2 100, Huff_decode 0x1f 2 100, Huff_decode 0x29 2 100, Huff_decode 0x38 3 100,
    Huff_decode 0x3 2 102, Huff_decode 0x6 2 102, Huff_decode 0xa 2 102, Huff_decode 0xf 2 102,
    Huff_decode 0x18 2 102, Huff_decode 0x1f 2 102, Huff_decode 0x29 2 102, Huff_decode 0x38 3 102],
   [Huff_decode 0x3 2 103, Huff_decode 0x6 2 103, Huff_decode 0xa 2 103, Huff_decode 0xf 2 103,
    Huff_decode 0x18 2 103, Huff_decode 0x1f 2 103, Huff_decode 0x29 2 103, Huff_decode 0x38 3 103,
    Huff_decode 0x3 2 104, Huff_decode 0x6 2 104, Huff_decode 0xa 2 104, Huff_decode 0xf 2 104,
    Huff_decode 0x18 2 104, Huff_decode 0x1f 2 104, Huff_decode 0x29 2 104, Huff_decode 0x38 3 104],
   [Huff_decode 0x1 2 108, Huff_decode 0x16 3 108, Huff_decode 0x1 2 109, Huff_decode 0x16 3 109,
    Huff_decode 0x1 2 110, Huff_decode 0x16 3 110, Huff_decode 0x1 2 112, Huff_decode 0x16 3 112,
    Huff_decode 0x1 2 114, Huff_decode 0x16 3 114, Huff_decode 0x1 2 117, Huff_decode 0x16 3 117,
    Huff_decode 0x0 3 58, Huff_decode 0x0 3 66, Huff_decode 0x0 3 67, Huff_decode 0x0 3 68],
   [Huff_decode 0x2 2 108, Huff_decode 0x9 2 108, Huff_decode 0x17 2 108, Huff_decode 0x28 3 108,
    Huff_decode 0x2 2 109, Huff_decode 0x9 2 109, Huff_decode 0x17 2 109, Huff_decode 0x28 3 109,
    Huff_decode 0x2 2 110, Huff_decode 0x9 2 110, Huff_decode 0x17 2 110, Huff_decode 0x28 3 110,
    Huff_decode 0x2 2 112, Huff_decode 0x9 2 112, Huff_decode 0x17 2 112, Huff_decode 0x28 3 112],
   [Huff_decode 0x3 2 108, Huff_decode 0x6 2 108, Huff_decode 0xa 2 108, Huff_decode 0xf 2 108,
    Huff_decode 0x18 2 108, Huff_decode 0x1f 2 108, Huff_decode 0x29 2 108, Huff_decode 0x38 3 108,
    Huff_decode 0x3 2 109, Huff_decode 0x6 2 109, Huff_decode 0xa 2 109, Huff_decode 0xf 2 109,
    Huff_decode 0x18 2 109, Huff_decode 0x1f 2 109, Huff_decode 0x29 2 109, Huff_decode 0x38 3 109],
   [Huff_decode 0x3 2 110, Huff_decode 0x6 2 110, Huff_decode 0xa 2 110, Huff_decode 0xf 2 110,
    Huff_decode 0x18 2 110, Huff_decode 0x1f 2 110, Huff_decode 0x29 2 110, Huff_decode 0x38 3 110,
    Huff_decode 0x3 2 112, Huff_decode 0x6 2 112, Huff_decode 0xa 2 112, Huff_decode 0xf 2 112,
    Huff_decode 0x18 2 112, Huff_decode 0x1f 2 112, Huff_decode 0x29 2 112, Huff_decode 0x38 3 112]]"

definition huff_decode_table_5 :: "nghttp2_huff_decode list list" where
  "huff_decode_table_5 = [
   [Huff_decode 0x2 2 114, Huff_decode 0x9 2 114, Huff_decode 0x17 2 114, Huff_decode 0x28 3 114,
    Huff_decode 0x2 2 117, Huff_decode 0x9 2 117, Huff_decode 0x17 2 117, Huff_decode 0x28 3 117,
    Huff_decode 0x1 2 58, Huff_decode 0x16 3 58, Huff_decode 0x1 2 66, Huff_decode 0x16 3 66,
    Huff_decode 0x1 2 67, Huff_decode 0x16 3 67, Huff_decode 0x1 2 68, Huff_decode 0x16 3 68],
   [Huff_decode 0x3 2 114, Huff_decode 0x6 2 114, Huff_decode 0xa 2 114, Huff_decode 0xf 2 114,
    Huff_decode 0x18 2 114, Huff_decode 0x1f 2 114, Huff_decode 0x29 2 114, Huff_decode 0x38 3 114,
    Huff_decode 0x3 2 117, Huff_decode 0x6 2 117, Huff_decode 0xa 2 117, Huff_decode 0xf 2 117,
    Huff_decode 0x18 2 117, Huff_decode 0x1f 2 117, Huff_decode 0x29 2 117, Huff_decode 0x38 3 117],
   [Huff_decode 0x2 2 58, Huff_decode 0x9 2 58, Huff_decode 0x17 2 58, Huff_decode 0x28 3 58,
    Huff_decode 0x2 2 66, Huff_decode 0x9 2 66, Huff_decode 0x17 2 66, Huff_decode 0x28 3 66,
    Huff_decode 0x2 2 67, Huff_decode 0x9 2 67, Huff_decode 0x17 2 67, Huff_decode 0x28 3 67,
    Huff_decode 0x2 2 68, Huff_decode 0x9 2 68, Huff_decode 0x17 2 68, Huff_decode 0x28 3 68],
   [Huff_decode 0x3 2 58, Huff_decode 0x6 2 58, Huff_decode 0xa 2 58, Huff_decode 0xf 2 58,
    Huff_decode 0x18 2 58, Huff_decode 0x1f 2 58, Huff_decode 0x29 2 58, Huff_decode 0x38 3 58,
    Huff_decode 0x3 2 66, Huff_decode 0x6 2 66, Huff_decode 0xa 2 66, Huff_decode 0xf 2 66,
    Huff_decode 0x18 2 66, Huff_decode 0x1f 2 66, Huff_decode 0x29 2 66, Huff_decode 0x38 3 66],
   [Huff_decode 0x3 2 67, Huff_decode 0x6 2 67, Huff_decode 0xa 2 67, Huff_decode 0xf 2 67,
    Huff_decode 0x18 2 67, Huff_decode 0x1f 2 67, Huff_decode 0x29 2 67, Huff_decode 0x38 3 67,
    Huff_decode 0x3 2 68, Huff_decode 0x6 2 68, Huff_decode 0xa 2 68, Huff_decode 0xf 2 68,
    Huff_decode 0x18 2 68, Huff_decode 0x1f 2 68, Huff_decode 0x29 2 68, Huff_decode 0x38 3 68],
   [Huff_decode 0x2c 0 0, Huff_decode 0x2d 0 0, Huff_decode 0x2f 0 0, Huff_decode 0x30 0 0,
    Huff_decode 0x33 0 0, Huff_decode 0x34 0 0, Huff_decode 0x36 0 0, Huff_decode 0x37 0 0,
    Huff_decode 0x3b 0 0, Huff_decode 0x3c 0 0, Huff_decode 0x3e 0 0, Huff_decode 0x3f 0 0,
    Huff_decode 0x42 0 0, Huff_decode 0x43 0 0, Huff_decode 0x45 0 0, Huff_decode 0x48 1 0],
   [Huff_decode 0x0 3 69, Huff_decode 0x0 3 70, Huff_decode 0x0 3 71, Huff_decode 0x0 3 72,
    Huff_decode 0x0 3 73, Huff_decode 0x0 3 74, Huff_decode 0x0 3 75, Huff_decode 0x0 3 76,
    Huff_decode 0x0 3 77, Huff_decode 0x0 3 78, Huff_decode 0x0 3 79, Huff_decode 0x0 3 80,
    Huff_decode 0x0 3 81, Huff_decode 0x0 3 82, Huff_decode 0x0 3 83, Huff_decode 0x0 3 84]]"

definition huff_decode_table_6 :: "nghttp2_huff_decode list list" where
  "huff_decode_table_6 = [
   [Huff_decode 0x1 2 69, Huff_decode 0x16 3 69, Huff_decode 0x1 2 70, Huff_decode 0x16 3 70,
    Huff_decode 0x1 2 71, Huff_decode 0x16 3 71, Huff_decode 0x1 2 72, Huff_decode 0x16 3 72,
    Huff_decode 0x1 2 73, Huff_decode 0x16 3 73, Huff_decode 0x1 2 74, Huff_decode 0x16 3 74,
    Huff_decode 0x1 2 75, Huff_decode 0x16 3 75, Huff_decode 0x1 2 76, Huff_decode 0x16 3 76],
   [Huff_decode 0x2 2 69, Huff_decode 0x9 2 69, Huff_decode 0x17 2 69, Huff_decode 0x28 3 69,
    Huff_decode 0x2 2 70, Huff_decode 0x9 2 70, Huff_decode 0x17 2 70, Huff_decode 0x28 3 70,
    Huff_decode 0x2 2 71, Huff_decode 0x9 2 71, Huff_decode 0x17 2 71, Huff_decode 0x28 3 71,
    Huff_decode 0x2 2 72, Huff_decode 0x9 2 72, Huff_decode 0x17 2 72, Huff_decode 0x28 3 72],
   [Huff_decode 0x3 2 69, Huff_decode 0x6 2 69, Huff_decode 0xa 2 69, Huff_decode 0xf 2 69,
    Huff_decode 0x18 2 69, Huff_decode 0x1f 2 69, Huff_decode 0x29 2 69, Huff_decode 0x38 3 69,
    Huff_decode 0x3 2 70, Huff_decode 0x6 2 70, Huff_decode 0xa 2 70, Huff_decode 0xf 2 70,
    Huff_decode 0x18 2 70, Huff_decode 0x1f 2 70, Huff_decode 0x29 2 70, Huff_decode 0x38 3 70],
   [Huff_decode 0x3 2 71, Huff_decode 0x6 2 71, Huff_decode 0xa 2 71, Huff_decode 0xf 2 71,
    Huff_decode 0x18 2 71, Huff_decode 0x1f 2 71, Huff_decode 0x29 2 71, Huff_decode 0x38 3 71,
    Huff_decode 0x3 2 72, Huff_decode 0x6 2 72, Huff_decode 0xa 2 72, Huff_decode 0xf 2 72,
    Huff_decode 0x18 2 72, Huff_decode 0x1f 2 72, Huff_decode 0x29 2 72, Huff_decode 0x38 3 72],
   [Huff_decode 0x2 2 73, Huff_decode 0x9 2 73, Huff_decode 0x17 2 73, Huff_decode 0x28 3 73,
    Huff_decode 0x2 2 74, Huff_decode 0x9 2 74, Huff_decode 0x17 2 74, Huff_decode 0x28 3 74,
    Huff_decode 0x2 2 75, Huff_decode 0x9 2 75, Huff_decode 0x17 2 75, Huff_decode 0x28 3 75,
    Huff_decode 0x2 2 76, Huff_decode 0x9 2 76, Huff_decode 0x17 2 76, Huff_decode 0x28 3 76],
   [Huff_decode 0x3 2 73, Huff_decode 0x6 2 73, Huff_decode 0xa 2 73, Huff_decode 0xf 2 73,
    Huff_decode 0x18 2 73, Huff_decode 0x1f 2 73, Huff_decode 0x29 2 73, Huff_decode 0x38 3 73,
    Huff_decode 0x3 2 74, Huff_decode 0x6 2 74, Huff_decode 0xa 2 74, Huff_decode 0xf 2 74,
    Huff_decode 0x18 2 74, Huff_decode 0x1f 2 74, Huff_decode 0x29 2 74, Huff_decode 0x38 3 74],
   [Huff_decode 0x3 2 75, Huff_decode 0x6 2 75, Huff_decode 0xa 2 75, Huff_decode 0xf 2 75,
    Huff_decode 0x18 2 75, Huff_decode 0x1f 2 75, Huff_decode 0x29 2 75, Huff_decode 0x38 3 75,
    Huff_decode 0x3 2 76, Huff_decode 0x6 2 76, Huff_decode 0xa 2 76, Huff_decode 0xf 2 76,
    Huff_decode 0x18 2 76, Huff_decode 0x1f 2 76, Huff_decode 0x29 2 76, Huff_decode 0x38 3 76]]"

definition huff_decode_table_7 :: "nghttp2_huff_decode list list" where
  "huff_decode_table_7 = [
   [Huff_decode 0x1 2 77, Huff_decode 0x16 3 77, Huff_decode 0x1 2 78, Huff_decode 0x16 3 78,
    Huff_decode 0x1 2 79, Huff_decode 0x16 3 79, Huff_decode 0x1 2 80, Huff_decode 0x16 3 80,
    Huff_decode 0x1 2 81, Huff_decode 0x16 3 81, Huff_decode 0x1 2 82, Huff_decode 0x16 3 82,
    Huff_decode 0x1 2 83, Huff_decode 0x16 3 83, Huff_decode 0x1 2 84, Huff_decode 0x16 3 84],
   [Huff_decode 0x2 2 77, Huff_decode 0x9 2 77, Huff_decode 0x17 2 77, Huff_decode 0x28 3 77,
    Huff_decode 0x2 2 78, Huff_decode 0x9 2 78, Huff_decode 0x17 2 78, Huff_decode 0x28 3 78,
    Huff_decode 0x2 2 79, Huff_decode 0x9 2 79, Huff_decode 0x17 2 79, Huff_decode 0x28 3 79,
    Huff_decode 0x2 2 80, Huff_decode 0x9 2 80, Huff_decode 0x17 2 80, Huff_decode 0x28 3 80],
   [Huff_decode 0x3 2 77, Huff_decode 0x6 2 77, Huff_decode 0xa 2 77, Huff_decode 0xf 2 77,
    Huff_decode 0x18 2 77, Huff_decode 0x1f 2 77, Huff_decode 0x29 2 77, Huff_decode 0x38 3 77,
    Huff_decode 0x3 2 78, Huff_decode 0x6 2 78, Huff_decode 0xa 2 78, Huff_decode 0xf 2 78,
    Huff_decode 0x18 2 78, Huff_decode 0x1f 2 78, Huff_decode 0x29 2 78, Huff_decode 0x38 3 78],
   [Huff_decode 0x3 2 79, Huff_decode 0x6 2 79, Huff_decode 0xa 2 79, Huff_decode 0xf 2 79,
    Huff_decode 0x18 2 79, Huff_decode 0x1f 2 79, Huff_decode 0x29 2 79, Huff_decode 0x38 3 79,
    Huff_decode 0x3 2 80, Huff_decode 0x6 2 80, Huff_decode 0xa 2 80, Huff_decode 0xf 2 80,
    Huff_decode 0x18 2 80, Huff_decode 0x1f 2 80, Huff_decode 0x29 2 80, Huff_decode 0x38 3 80],
   [Huff_decode 0x2 2 81, Huff_decode 0x9 2 81, Huff_decode 0x17 2 81, Huff_decode 0x28 3 81,
    Huff_decode 0x2 2 82, Huff_decode 0x9 2 82, Huff_decode 0x17 2 82, Huff_decode 0x28 3 82,
    Huff_decode 0x2 2 83, Huff_decode 0x9 2 83, Huff_decode 0x17 2 83, Huff_decode 0x28 3 83,
    Huff_decode 0x2 2 84, Huff_decode 0x9 2 84, Huff_decode 0x17 2 84, Huff_decode 0x28 3 84],
   [Huff_decode 0x3 2 81, Huff_decode 0x6 2 81, Huff_decode 0xa 2 81, Huff_decode 0xf 2 81,
    Huff_decode 0x18 2 81, Huff_decode 0x1f 2 81, Huff_decode 0x29 2 81, Huff_decode 0x38 3 81,
    Huff_decode 0x3 2 82, Huff_decode 0x6 2 82, Huff_decode 0xa 2 82, Huff_decode 0xf 2 82,
    Huff_decode 0x18 2 82, Huff_decode 0x1f 2 82, Huff_decode 0x29 2 82, Huff_decode 0x38 3 82],
   [Huff_decode 0x3 2 83, Huff_decode 0x6 2 83, Huff_decode 0xa 2 83, Huff_decode 0xf 2 83,
    Huff_decode 0x18 2 83, Huff_decode 0x1f 2 83, Huff_decode 0x29 2 83, Huff_decode 0x38 3 83,
    Huff_decode 0x3 2 84, Huff_decode 0x6 2 84, Huff_decode 0xa 2 84, Huff_decode 0xf 2 84,
    Huff_decode 0x18 2 84, Huff_decode 0x1f 2 84, Huff_decode 0x29 2 84, Huff_decode 0x38 3 84]]"

definition huff_decode_table_8 :: "nghttp2_huff_decode list list" where
  "huff_decode_table_8 = [
   [Huff_decode 0x0 3 85, Huff_decode 0x0 3 86, Huff_decode 0x0 3 87, Huff_decode 0x0 3 89,
    Huff_decode 0x0 3 106, Huff_decode 0x0 3 107, Huff_decode 0x0 3 113, Huff_decode 0x0 3 118,
    Huff_decode 0x0 3 119, Huff_decode 0x0 3 120, Huff_decode 0x0 3 121, Huff_decode 0x0 3 122,
    Huff_decode 0x46 0 0, Huff_decode 0x47 0 0, Huff_decode 0x49 0 0, Huff_decode 0x4a 1 0],
   [Huff_decode 0x1 2 85, Huff_decode 0x16 3 85, Huff_decode 0x1 2 86, Huff_decode 0x16 3 86,
    Huff_decode 0x1 2 87, Huff_decode 0x16 3 87, Huff_decode 0x1 2 89, Huff_decode 0x16 3 89,
    Huff_decode 0x1 2 106, Huff_decode 0x16 3 106, Huff_decode 0x1 2 107, Huff_decode 0x16 3 107,
    Huff_decode 0x1 2 113, Huff_decode 0x16 3 113, Huff_decode 0x1 2 118, Huff_decode 0x16 3 118],
   [Huff_decode 0x2 2 85, Huff_decode 0x9 2 85, Huff_decode 0x17 2 85, Huff_decode 0x28 3 85,
    Huff_decode 0x2 2 86, Huff_decode 0x9 2 86, Huff_decode 0x17 2 86, Huff_decode 0x28 3 86,
    Huff_decode 0x2 2 87, Huff_decode 0x9 2 87, Huff_decode 0x17 2 87, Huff_decode 0x28 3 87,
    Huff_decode 0x2 2 89, Huff_decode 0x9 2 89, Huff_decode 0x17 2 89, Huff_decode 0x28 3 89],
   [Huff_decode 0x3 2 85, Huff_decode 0x6 2 85, Huff_decode 0xa 2 85, Huff_decode 0xf 2 85,
    Huff_decode 0x18 2 85, Huff_decode 0x1f 2 85, Huff_decode 0x29 2 85, Huff_decode 0x38 3 85,
    Huff_decode 0x3 2 86, Huff_decode 0x6 2 86, Huff_decode 0xa 2 86, Huff_decode 0xf 2 86,
    Huff_decode 0x18 2 86, Huff_decode 0x1f 2 86, Huff_decode 0x29 2 86, Huff_decode 0x38 3 86],
   [Huff_decode 0x3 2 87, Huff_decode 0x6 2 87, Huff_decode 0xa 2 87, Huff_decode 0xf 2 87,
    Huff_decode 0x18 2 87, Huff_decode 0x1f 2 87, Huff_decode 0x29 2 87, Huff_decode 0x38 3 87,
    Huff_decode 0x3 2 89, Huff_decode 0x6 2 89, Huff_decode 0xa 2 89, Huff_decode 0xf 2 89,
    Huff_decode 0x18 2 89, Huff_decode 0x1f 2 89, Huff_decode 0x29 2 89, Huff_decode 0x38 3 89],
   [Huff_decode 0x2 2 106, Huff_decode 0x9 2 106, Huff_decode 0x17 2 106, Huff_decode 0x28 3 106,
    Huff_decode 0x2 2 107, Huff_decode 0x9 2 107, Huff_decode 0x17 2 107, Huff_decode 0x28 3 107,
    Huff_decode 0x2 2 113, Huff_decode 0x9 2 113, Huff_decode 0x17 2 113, Huff_decode 0x28 3 113,
    Huff_decode 0x2 2 118, Huff_decode 0x9 2 118, Huff_decode 0x17 2 118, Huff_decode 0x28 3 118],
   [Huff_decode 0x3 2 106, Huff_decode 0x6 2 106, Huff_decode 0xa 2 106, Huff_decode 0xf 2 106,
    Huff_decode 0x18 2 106, Huff_decode 0x1f 2 106, Huff_decode 0x29 2 106, Huff_decode 0x38 3 106,
    Huff_decode 0x3 2 107, Huff_decode 0x6 2 107, Huff_decode 0xa 2 107, Huff_decode 0xf 2 107,
    Huff_decode 0x18 2 107, Huff_decode 0x1f 2 107, Huff_decode 0x29 2 107, Huff_decode 0x38 3 107]]"

definition huff_decode_table_9 :: "nghttp2_huff_decode list list" where
  "huff_decode_table_9 = [
   [Huff_decode 0x3 2 113, Huff_decode 0x6 2 113, Huff_decode 0xa 2 113, Huff_decode 0xf 2 113,
    Huff_decode 0x18 2 113, Huff_decode 0x1f 2 113, Huff_decode 0x29 2 113, Huff_decode 0x38 3 113,
    Huff_decode 0x3 2 118, Huff_decode 0x6 2 118, Huff_decode 0xa 2 118, Huff_decode 0xf 2 118,
    Huff_decode 0x18 2 118, Huff_decode 0x1f 2 118, Huff_decode 0x29 2 118, Huff_decode 0x38 3 118],
   [Huff_decode 0x1 2 119, Huff_decode 0x16 3 119, Huff_decode 0x1 2 120, Huff_decode 0x16 3 120,
    Huff_decode 0x1 2 121, Huff_decode 0x16 3 121, Huff_decode 0x1 2 122, Huff_decode 0x16 3 122,
    Huff_decode 0x0 3 38, Huff_decode 0x0 3 42, Huff_decode 0x0 3 44, Huff_decode 0x0 3 59,
    Huff_decode 0x0 3 88, Huff_decode 0x0 3 90, Huff_decode 0x4b 0 0, Huff_decode 0x4e 0 0],
   [Huff_decode 0x2 2 119, Huff_decode 0x9 2 119, Huff_decode 0x17 2 119, Huff_decode 0x28 3 119,
    Huff_decode 0x2 2 120, Huff_decode 0x9 2 120, Huff_decode 0x17 2 120, Huff_decode 0x28 3 120,
    Huff_decode 0x2 2 121, Huff_decode 0x9 2 121, Huff_decode 0x17 2 121, Huff_decode 0x28 3 121,
    Huff_decode 0x2 2 122, Huff_decode 0x9 2 122, Huff_decode 0x17 2 122, Huff_decode 0x28 3 122],
   [Huff_decode 0x3 2 119, Huff_decode 0x6 2 119, Huff_decode 0xa 2 119, Huff_decode 0xf 2 119,
    Huff_decode 0x18 2 119, Huff_decode 0x1f 2 119, Huff_decode 0x29 2 119, Huff_decode 0x38 3 119,
    Huff_decode 0x3 2 120, Huff_decode 0x6 2 120, Huff_decode 0xa 2 120, Huff_decode 0xf 2 120,
    Huff_decode 0x18 2 120, Huff_decode 0x1f 2 120, Huff_decode 0x29 2 120, Huff_decode 0x38 3 120],
   [Huff_decode 0x3 2 121, Huff_decode 0x6 2 121, Huff_decode 0xa 2 121, Huff_decode 0xf 2 121,
    Huff_decode 0x18 2 121, Huff_decode 0x1f 2 121, Huff_decode 0x29 2 121, Huff_decode 0x38 3 121,
    Huff_decode 0x3 2 122, Huff_decode 0x6 2 122, Huff_decode 0xa 2 122, Huff_decode 0xf 2 122,
    Huff_decode 0x18 2 122, Huff_decode 0x1f 2 122, Huff_decode 0x29 2 122, Huff_decode 0x38 3 122],
   [Huff_decode 0x1 2 38, Huff_decode 0x16 3 38, Huff_decode 0x1 2 42, Huff_decode 0x16 3 42,
    Huff_decode 0x1 2 44, Huff_decode 0x16 3 44, Huff_decode 0x1 2 59, Huff_decode 0x16 3 59,
    Huff_decode 0x1 2 88, Huff_decode 0x16 3 88, Huff_decode 0x1 2 90, Huff_decode 0x16 3 90,
    Huff_decode 0x4c 0 0, Huff_decode 0x4d 0 0, Huff_decode 0x4f 0 0, Huff_decode 0x51 0 0],
   [Huff_decode 0x2 2 38, Huff_decode 0x9 2 38, Huff_decode 0x17 2 38, Huff_decode 0x28 3 38,
    Huff_decode 0x2 2 42, Huff_decode 0x9 2 42, Huff_decode 0x17 2 42, Huff_decode 0x28 3 42,
    Huff_decode 0x2 2 44, Huff_decode 0x9 2 44, Huff_decode 0x17 2 44, Huff_decode 0x28 3 44,
    Huff_decode 0x2 2 59, Huff_decode 0x9 2 59, Huff_decode 0x17 2 59, Huff_decode 0x28 3 59]]"

definition huff_decode_table_10 :: "nghttp2_huff_decode list list" where
  "huff_decode_table_10 = [
   [Huff_decode 0x3 2 38, Huff_decode 0x6 2 38, Huff_decode 0xa 2 38, Huff_decode 0xf 2 38,
    Huff_decode 0x18 2 38, Huff_decode 0x1f 2 38, Huff_decode 0x29 2 38, Huff_decode 0x38 3 38,
    Huff_decode 0x3 2 42, Huff_decode 0x6 2 42, Huff_decode 0xa 2 42, Huff_decode 0xf 2 42,
    Huff_decode 0x18 2 42, Huff_decode 0x1f 2 42, Huff_decode 0x29 2 42, Huff_decode 0x38 3 42],
   [Huff_decode 0x3 2 44, Huff_decode 0x6 2 44, Huff_decode 0xa 2 44, Huff_decode 0xf 2 44,
    Huff_decode 0x18 2 44, Huff_decode 0x1f 2 44, Huff_decode 0x29 2 44, Huff_decode 0x38 3 44,
    Huff_decode 0x3 2 59, Huff_decode 0x6 2 59, Huff_decode 0xa 2 59, Huff_decode 0xf 2 59,
    Huff_decode 0x18 2 59, Huff_decode 0x1f 2 59, Huff_decode 0x29 2 59, Huff_decode 0x38 3 59],
   [Huff_decode 0x2 2 88, Huff_decode 0x9 2 88, Huff_decode 0x17 2 88, Huff_decode 0x28 3 88,
    Huff_decode 0x2 2 90, Huff_decode 0x9 2 90, Huff_decode 0x17 2 90, Huff_decode 0x28 3 90,
    Huff_decode 0x0 3 33, Huff_decode 0x0 3 34, Huff_decode 0x0 3 40, Huff_decode 0x0 3 41,
    Huff_decode 0x0 3 63, Huff_decode 0x50 0 0, Huff_decode 0x52 0 0, Huff_decode 0x54 0 0],
   [Huff_decode 0x3 2 88, Huff_decode 0x6 2 88, Huff_decode 0xa 2 88, Huff_decode 0xf 2 88,
    Huff_decode 0x18 2 88, Huff_decode 0x1f 2 88, Huff_decode 0x29 2 88, Huff_decode 0x38 3 88,
    Huff_decode 0x3 2 90, Huff_decode 0x6 2 90, Huff_decode 0xa 2 90, Huff_decode 0xf 2 90,
    Huff_decode 0x18 2 90, Huff_decode 0x1f 2 90, Huff_decode 0x29 2 90, Huff_decode 0x38 3 90],
   [Huff_decode 0x1 2 33, Huff_decode 0x16 3 33, Huff_decode 0x1 2 34, Huff_decode 0x16 3 34,
    Huff_decode 0x1 2 40, Huff_decode 0x16 3 40, Huff_decode 0x1 2 41, Huff_decode 0x16 3 41,
    Huff_decode 0x1 2 63, Huff_decode 0x16 3 63, Huff_decode 0x0 3 39, Huff_decode 0x0 3 43,
    Huff_decode 0x0 3 124, Huff_decode 0x53 0 0, Huff_decode 0x55 0 0, Huff_decode 0x58 0 0],
   [Huff_decode 0x2 2 33, Huff_decode 0x9 2 33, Huff_decode 0x17 2 33, Huff_decode 0x28 3 33,
    Huff_decode 0x2 2 34, Huff_decode 0x9 2 34, Huff_decode 0x17 2 34, Huff_decode 0x28 3 34,
    Huff_decode 0x2 2 40, Huff_decode 0x9 2 40, Huff_decode 0x17 2 40, Huff_decode 0x28 3 40,
    Huff_decode 0x2 2 41, Huff_decode 0x9 2 41, Huff_decode 0x17 2 41, Huff_decode 0x28 3 41],
   [Huff_decode 0x3 2 33, Huff_decode 0x6 2 33, Huff_decode 0xa 2 33, Huff_decode 0xf 2 33,
    Huff_decode 0x18 2 33, Huff_decode 0x1f 2 33, Huff_decode 0x29 2 33, Huff_decode 0x38 3 33,
    Huff_decode 0x3 2 34, Huff_decode 0x6 2 34, Huff_decode 0xa 2 34, Huff_decode 0xf 2 34,
    Huff_decode 0x18 2 34, Huff_decode 0x1f 2 34, Huff_decode 0x29 2 34, Huff_decode 0x38 3 34]]"

definition huff_decode_table_11 :: "nghttp2_huff_decode list list" where
  "huff_decode_table_11 = [
   [Huff_decode 0x3 2 40, Huff_decode 0x6 2 40, Huff_decode 0xa 2 40, Huff_decode 0xf 2 40,
    Huff_decode 0x18 2 40, Huff_decode 0x1f 2 40, Huff_decode 0x29 2 40, Huff_decode 0x38 3 40,
    Huff_decode 0x3 2 41, Huff_decode 0x6 2 41, Huff_decode 0xa 2 41, Huff_decode 0xf 2 41,
    Huff_decode 0x18 2 41, Huff_decode 0x1f 2 41, Huff_decode 0x29 2 41, Huff_decode 0x38 3 41],
   [Huff_decode 0x2 2 63, Huff_decode 0x9 2 63, Huff_decode 0x17 2 63, Huff_decode 0x28 3 63,
    Huff_decode 0x1 2 39, Huff_decode 0x16 3 39, Huff_decode 0x1 2 43, Huff_decode 0x16 3 43,
    Huff_decode 0x1 2 124, Huff_decode 0x16 3 124, Huff_decode 0x0 3 35, Huff_decode 0x0 3 62,
    Huff_decode 0x56 0 0, Huff_decode 0x57 0 0, Huff_decode 0x59 0 0, Huff_decode 0x5a 0 0],
   [Huff_decode 0x3 2 63, Huff_decode 0x6 2 63, Huff_decode 0xa 2 63, Huff_decode 0xf 2 63,
    Huff_decode 0x18 2 63, Huff_decode 0x1f 2 63, Huff_decode 0x29 2 63, Huff_decode 0x38 3 63,
    Huff_decode 0x2 2 39, Huff_decode 0x9 2 39, Huff_decode 0x17 2 39, Huff_decode 0x28 3 39,
    Huff_decode 0x2 2 43, Huff_decode 0x9 2 43, Huff_decode 0x17 2 43, Huff_decode 0x28 3 43],
   [Huff_decode 0x3 2 39, Huff_decode 0x6 2 39, Huff_decode 0xa 2 39, Huff_decode 0xf 2 39,
    Huff_decode 0x18 2 39, Huff_decode 0x1f 2 39, Huff_decode 0x29 2 39, Huff_decode 0x38 3 39,
    Huff_decode 0x3 2 43, Huff_decode 0x6 2 43, Huff_decode 0xa 2 43, Huff_decode 0xf 2 43,
    Huff_decode 0x18 2 43, Huff_decode 0x1f 2 43, Huff_decode 0x29 2 43, Huff_decode 0x38 3 43],
   [Huff_decode 0x2 2 124, Huff_decode 0x9 2 124, Huff_decode 0x17 2 124, Huff_decode 0x28 3 124,
    Huff_decode 0x1 2 35, Huff_decode 0x16 3 35, Huff_decode 0x1 2 62, Huff_decode 0x16 3 62,
    Huff_decode 0x0 3 0, Huff_decode 0x0 3 36, Huff_decode 0x0 3 64, Huff_decode 0x0 3 91,
    Huff_decode 0x0 3 93, Huff_decode 0x0 3 126, Huff_decode 0x5b 0 0, Huff_decode 0x5c 0 0],
   [Huff_decode 0x3 2 124, Huff_decode 0x6 2 124, Huff_decode 0xa 2 124, Huff_decode 0xf 2 124,
    Huff_decode 0x18 2 124, Huff_decode 0x1f 2 124, Huff_decode 0x29 2 124, Huff_decode 0x38 3 124,
    Huff_decode 0x2 2 35, Huff_decode 0x9 2 35, Huff_decode 0x17 2 35, Huff_decode 0x28 3 35,
    Huff_decode 0x2 2 62, Huff_decode 0x9 2 62, Huff_decode 0x17 2 62, Huff_decode 0x28 3 62],
   [Huff_decode 0x3 2 35, Huff_decode 0x6 2 35, Huff_decode 0xa 2 35, Huff_decode 0xf 2 35,
    Huff_decode 0x18 2 35, Huff_decode 0x1f 2 35, Huff_decode 0x29 2 35, Huff_decode 0x38 3 35,
    Huff_decode 0x3 2 62, Huff_decode 0x6 2 62, Huff_decode 0xa 2 62, Huff_decode 0xf 2 62,
    Huff_decode 0x18 2 62, Huff_decode 0x1f 2 62, Huff_decode 0x29 2 62, Huff_decode 0x38 3 62]]"

definition huff_decode_table_12 :: "nghttp2_huff_decode list list" where
  "huff_decode_table_12 = [
   [Huff_decode 0x1 2 0, Huff_decode 0x16 3 0, Huff_decode 0x1 2 36, Huff_decode 0x16 3 36,
    Huff_decode 0x1 2 64, Huff_decode 0x16 3 64, Huff_decode 0x1 2 91, Huff_decode 0x16 3 91,
    Huff_decode 0x1 2 93, Huff_decode 0x16 3 93, Huff_decode 0x1 2 126, Huff_decode 0x16 3 126,
    Huff_decode 0x0 3 94, Huff_decode 0x0 3 125, Huff_decode 0x5d 0 0, Huff_decode 0x5e 0 0],
   [Huff_decode 0x2 2 0, Huff_decode 0x9 2 0, Huff_decode 0x17 2 0, Huff_decode 0x28 3 0,
    Huff_decode 0x2 2 36, Huff_decode 0x9 2 36, Huff_decode 0x17 2 36, Huff_decode 0x28 3 36,
    Huff_decode 0x2 2 64, Huff_decode 0x9 2 64, Huff_decode 0x17 2 64, Huff_decode 0x28 3 64,
    Huff_decode 0x2 2 91, Huff_decode 0x9 2 91, Huff_decode 0x17 2 91, Huff_decode 0x28 3 91],
   [Huff_decode 0x3 2 0, Huff_decode 0x6 2 0, Huff_decode 0xa 2 0, Huff_decode 0xf 2 0,
    Huff_decode 0x18 2 0, Huff_decode 0x1f 2 0, Huff_decode 0x29 2 0, Huff_decode 0x38 3 0,
    Huff_decode 0x3 2 36, Huff_decode 0x6 2 36, Huff_decode 0xa 2 36, Huff_decode 0xf 2 36,
    Huff_decode 0x18 2 36, Huff_decode 0x1f 2 36, Huff_decode 0x29 2 36, Huff_decode 0x38 3 36],
   [Huff_decode 0x3 2 64, Huff_decode 0x6 2 64, Huff_decode 0xa 2 64, Huff_decode 0xf 2 64,
    Huff_decode 0x18 2 64, Huff_decode 0x1f 2 64, Huff_decode 0x29 2 64, Huff_decode 0x38 3 64,
    Huff_decode 0x3 2 91, Huff_decode 0x6 2 91, Huff_decode 0xa 2 91, Huff_decode 0xf 2 91,
    Huff_decode 0x18 2 91, Huff_decode 0x1f 2 91, Huff_decode 0x29 2 91, Huff_decode 0x38 3 91],
   [Huff_decode 0x2 2 93, Huff_decode 0x9 2 93, Huff_decode 0x17 2 93, Huff_decode 0x28 3 93,
    Huff_decode 0x2 2 126, Huff_decode 0x9 2 126, Huff_decode 0x17 2 126, Huff_decode 0x28 3 126,
    Huff_decode 0x1 2 94, Huff_decode 0x16 3 94, Huff_decode 0x1 2 125, Huff_decode 0x16 3 125,
    Huff_decode 0x0 3 60, Huff_decode 0x0 3 96, Huff_decode 0x0 3 123, Huff_decode 0x5f 0 0],
   [Huff_decode 0x3 2 93, Huff_decode 0x6 2 93, Huff_decode 0xa 2 93, Huff_decode 0xf 2 93,
    Huff_decode 0x18 2 93, Huff_decode 0x1f 2 93, Huff_decode 0x29 2 93, Huff_decode 0x38 3 93,
    Huff_decode 0x3 2 126, Huff_decode 0x6 2 126, Huff_decode 0xa 2 126, Huff_decode 0xf 2 126,
    Huff_decode 0x18 2 126, Huff_decode 0x1f 2 126, Huff_decode 0x29 2 126, Huff_decode 0x38 3 126],
   [Huff_decode 0x2 2 94, Huff_decode 0x9 2 94, Huff_decode 0x17 2 94, Huff_decode 0x28 3 94,
    Huff_decode 0x2 2 125, Huff_decode 0x9 2 125, Huff_decode 0x17 2 125, Huff_decode 0x28 3 125,
    Huff_decode 0x1 2 60, Huff_decode 0x16 3 60, Huff_decode 0x1 2 96, Huff_decode 0x16 3 96,
    Huff_decode 0x1 2 123, Huff_decode 0x16 3 123, Huff_decode 0x60 0 0, Huff_decode 0x6e 0 0]]"

definition huff_decode_table_13 :: "nghttp2_huff_decode list list" where
  "huff_decode_table_13 = [
   [Huff_decode 0x3 2 94, Huff_decode 0x6 2 94, Huff_decode 0xa 2 94, Huff_decode 0xf 2 94,
    Huff_decode 0x18 2 94, Huff_decode 0x1f 2 94, Huff_decode 0x29 2 94, Huff_decode 0x38 3 94,
    Huff_decode 0x3 2 125, Huff_decode 0x6 2 125, Huff_decode 0xa 2 125, Huff_decode 0xf 2 125,
    Huff_decode 0x18 2 125, Huff_decode 0x1f 2 125, Huff_decode 0x29 2 125, Huff_decode 0x38 3 125],
   [Huff_decode 0x2 2 60, Huff_decode 0x9 2 60, Huff_decode 0x17 2 60, Huff_decode 0x28 3 60,
    Huff_decode 0x2 2 96, Huff_decode 0x9 2 96, Huff_decode 0x17 2 96, Huff_decode 0x28 3 96,
    Huff_decode 0x2 2 123, Huff_decode 0x9 2 123, Huff_decode 0x17 2 123, Huff_decode 0x28 3 123,
    Huff_decode 0x61 0 0, Huff_decode 0x65 0 0, Huff_decode 0x6f 0 0, Huff_decode 0x85 0 0],
   [Huff_decode 0x3 2 60, Huff_decode 0x6 2 60, Huff_decode 0xa 2 60, Huff_decode 0xf 2 60,
    Huff_decode 0x18 2 60, Huff_decode 0x1f 2 60, Huff_decode 0x29 2 60, Huff_decode 0x38 3 60,
    Huff_decode 0x3 2 96, Huff_decode 0x6 2 96, Huff_decode 0xa 2 96, Huff_decode 0xf 2 96,
    Huff_decode 0x18 2 96, Huff_decode 0x1f 2 96, Huff_decode 0x29 2 96, Huff_decode 0x38 3 96],
   [Huff_decode 0x3 2 123, Huff_decode 0x6 2 123, Huff_decode 0xa 2 123, Huff_decode 0xf 2 123,
    Huff_decode 0x18 2 123, Huff_decode 0x1f 2 123, Huff_decode 0x29 2 123, Huff_decode 0x38 3 123,
    Huff_decode 0x62 0 0, Huff_decode 0x63 0 0, Huff_decode 0x66 0 0, Huff_decode 0x69 0 0,
    Huff_decode 0x70 0 0, Huff_decode 0x77 0 0, Huff_decode 0x86 0 0, Huff_decode 0x99 0 0],
   [Huff_decode 0x0 3 92, Huff_decode 0x0 3 195, Huff_decode 0x0 3 208, Huff_decode 0x64 0 0,
    Huff_decode 0x67 0 0, Huff_decode 0x68 0 0, Huff_decode 0x6a 0 0, Huff_decode 0x6b 0 0,
    Huff_decode 0x71 0 0, Huff_decode 0x74 0 0, Huff_decode 0x78 0 0, Huff_decode 0x7e 0 0,
    Huff_decode 0x87 0 0, Huff_decode 0x8e 0 0, Huff_decode 0x9a 0 0, Huff_decode 0xa9 0 0],
   [Huff_decode 0x1 2 92, Huff_decode 0x16 3 92, Huff_decode 0x1 2 195, Huff_decode 0x16 3 195,
    Huff_decode 0x1 2 208, Huff_decode 0x16 3 208, Huff_decode 0x0 3 128, Huff_decode 0x0 3 130,
    Huff_decode 0x0 3 131, Huff_decode 0x0 3 162, Huff_decode 0x0 3 184, Huff_decode 0x0 3 194,
    Huff_decode 0x0 3 224, Huff_decode 0x0 3 226, Huff_decode 0x6c 0 0, Huff_decode 0x6d 0 0],
   [Huff_decode 0x2 2 92, Huff_decode 0x9 2 92, Huff_decode 0x17 2 92, Huff_decode 0x28 3 92,
    Huff_decode 0x2 2 195, Huff_decode 0x9 2 195, Huff_decode 0x17 2 195, Huff_decode 0x28 3 195,
    Huff_decode 0x2 2 208, Huff_decode 0x9 2 208, Huff_decode 0x17 2 208, Huff_decode 0x28 3 208,
    Huff_decode 0x1 2 128, Huff_decode 0x16 3 128, Huff_decode 0x1 2 130, Huff_decode 0x16 3 130]]"

definition huff_decode_table_14 :: "nghttp2_huff_decode list list" where
  "huff_decode_table_14 = [
   [Huff_decode 0x3 2 92, Huff_decode 0x6 2 92, Huff_decode 0xa 2 92, Huff_decode 0xf 2 92,
    Huff_decode 0x18 2 92, Huff_decode 0x1f 2 92, Huff_decode 0x29 2 92, Huff_decode 0x38 3 92,
    Huff_decode 0x3 2 195, Huff_decode 0x6 2 195, Huff_decode 0xa 2 195, Huff_decode 0xf 2 195,
    Huff_decode 0x18 2 195, Huff_decode 0x1f 2 195, Huff_decode 0x29 2 195, Huff_decode 0x38 3 195],
   [Huff_decode 0x3 2 208, Huff_decode 0x6 2 208, Huff_decode 0xa 2 208, Huff_decode 0xf 2 208,
    Huff_decode 0x18 2 208, Huff_decode 0x1f 2 208, Huff_decode 0x29 2 208, Huff_decode 0x38 3 208,
    Huff_decode 0x2 2 128, Huff_decode 0x9 2 128, Huff_decode 0x17 2 128, Huff_decode 0x28 3 128,
    Huff_decode 0x2 2 130, Huff_decode 0x9 2 130, Huff_decode 0x17 2 130, Huff_decode 0x28 3 130],
   [Huff_decode 0x3 2 128, Huff_decode 0x6 2 128, Huff_decode 0xa 2 128, Huff_decode 0xf 2 128,
    Huff_decode 0x18 2 128, Huff_decode 0x1f 2 128, Huff_decode 0x29 2 128, Huff_decode 0x38 3 128,
    Huff_decode 0x3 2 130, Huff_decode 0x6 2 130, Huff_decode 0xa 2 130, Huff_decode 0xf 2 130,
    Huff_decode 0x18 2 130, Huff_decode 0x1f 2 130, Huff_decode 0x29 2 130, Huff_decode 0x38 3 130],
   [Huff_decode 0x1 2 131, Huff_decode 0x16 3 131, Huff_decode 0x1 2 162, Huff_decode 0x16 3 162,
    Huff_decode 0x1 2 184, Huff_decode 0x16 3 184, Huff_decode 0x1 2 194, Huff_decode 0x16 3 194,
    Huff_decode 0x1 2 224, Huff_decode 0x16 3 224, Huff_decode 0x1 2 226, Huff_decode 0x16 3 226,
    Huff_decode 0x0 3 153, Huff_decode 0x0 3 161, Huff_decode 0x0 3 167, Huff_decode 0x0 3 172],
   [Huff_decode 0x2 2 131, Huff_decode 0x9 2 131, Huff_decode 0x17 2 131, Huff_decode 0x28 3 131,
    Huff_decode 0x2 2 162, Huff_decode 0x9 2 162, Huff_decode 0x17 2 162, Huff_decode 0x28 3 162,
    Huff_decode 0x2 2 184, Huff_decode 0x9 2 184, Huff_decode 0x17 2 184, Huff_decode 0x28 3 184,
    Huff_decode 0x2 2 194, Huff_decode 0x9 2 194, Huff_decode 0x17 2 194, Huff_decode 0x28 3 194],
   [Huff_decode 0x3 2 131, Huff_decode 0x6 2 131, Huff_decode 0xa 2 131, Huff_decode 0xf 2 131,
    Huff_decode 0x18 2 131, Huff_decode 0x1f 2 131, Huff_decode 0x29 2 131, Huff_decode 0x38 3 131,
    Huff_decode 0x3 2 162, Huff_decode 0x6 2 162, Huff_decode 0xa 2 162, Huff_decode 0xf 2 162,
    Huff_decode 0x18 2 162, Huff_decode 0x1f 2 162, Huff_decode 0x29 2 162, Huff_decode 0x38 3 162],
   [Huff_decode 0x3 2 184, Huff_decode 0x6 2 184, Huff_decode 0xa 2 184, Huff_decode 0xf 2 184,
    Huff_decode 0x18 2 184, Huff_decode 0x1f 2 184, Huff_decode 0x29 2 184, Huff_decode 0x38 3 184,
    Huff_decode 0x3 2 194, Huff_decode 0x6 2 194, Huff_decode 0xa 2 194, Huff_decode 0xf 2 194,
    Huff_decode 0x18 2 194, Huff_decode 0x1f 2 194, Huff_decode 0x29 2 194, Huff_decode 0x38 3 194]]"

definition huff_decode_table_15 :: "nghttp2_huff_decode list list" where
  "huff_decode_table_15 = [
   [Huff_decode 0x2 2 224, Huff_decode 0x9 2 224, Huff_decode 0x17 2 224, Huff_decode 0x28 3 224,
    Huff_decode 0x2 2 226, Huff_decode 0x9 2 226, Huff_decode 0x17 2 226, Huff_decode 0x28 3 226,
    Huff_decode 0x1 2 153, Huff_decode 0x16 3 153, Huff_decode 0x1 2 161, Huff_decode 0x16 3 161,
    Huff_decode 0x1 2 167, Huff_decode 0x16 3 167, Huff_decode 0x1 2 172, Huff_decode 0x16 3 172],
   [Huff_decode 0x3 2 224, Huff_decode 0x6 2 224, Huff_decode 0xa 2 224, Huff_decode 0xf 2 224,
    Huff_decode 0x18 2 224, Huff_decode 0x1f 2 224, Huff_decode 0x29 2 224, Huff_decode 0x38 3 224,
    Huff_decode 0x3 2 226, Huff_decode 0x6 2 226, Huff_decode 0xa 2 226, Huff_decode 0xf 2 226,
    Huff_decode 0x18 2 226, Huff_decode 0x1f 2 226, Huff_decode 0x29 2 226, Huff_decode 0x38 3 226],
   [Huff_decode 0x2 2 153, Huff_decode 0x9 2 153, Huff_decode 0x17 2 153, Huff_decode 0x28 3 153,
    Huff_decode 0x2 2 161, Huff_decode 0x9 2 161, Huff_decode 0x17 2 161, Huff_decode 0x28 3 161,
    Huff_decode 0x2 2 167, Huff_decode 0x9 2 167, Huff_decode 0x17 2 167, Huff_decode 0x28 3 167,
    Huff_decode 0x2 2 172, Huff_decode 0x9 2 172, Huff_decode 0x17 2 172, Huff_decode 0x28 3 172],
   [Huff_decode 0x3 2 153, Huff_decode 0x6 2 153, Huff_decode 0xa 2 153, Huff_decode 0xf 2 153,
    Huff_decode 0x18 2 153, Huff_decode 0x1f 2 153, Huff_decode 0x29 2 153, Huff_decode 0x38 3 153,
    Huff_decode 0x3 2 161, Huff_decode 0x6 2 161, Huff_decode 0xa 2 161, Huff_decode 0xf 2 161,
    Huff_decode 0x18 2 161, Huff_decode 0x1f 2 161, Huff_decode 0x29 2 161, Huff_decode 0x38 3 161],
   [Huff_decode 0x3 2 167, Huff_decode 0x6 2 167, Huff_decode 0xa 2 167, Huff_decode 0xf 2 167,
    Huff_decode 0x18 2 167, Huff_decode 0x1f 2 167, Huff_decode 0x29 2 167, Huff_decode 0x38 3 167,
    Huff_decode 0x3 2 172, Huff_decode 0x6 2 172, Huff_decode 0xa 2 172, Huff_decode 0xf 2 172,
    Huff_decode 0x18 2 172, Huff_decode 0x1f 2 172, Huff_decode 0x29 2 172, Huff_decode 0x38 3 172],
   [Huff_decode 0x72 0 0, Huff_decode 0x73 0 0, Huff_decode 0x75 0 0, Huff_decode 0x76 0 0,
    Huff_decode 0x79 0 0, Huff_decode 0x7b 0 0, Huff_decode 0x7f 0 0, Huff_decode 0x82 0 0,
    Huff_decode 0x88 0 0, Huff_decode 0x8b 0 0, Huff_decode 0x8f 0 0, Huff_decode 0x92 0 0,
    Huff_decode 0x9b 0 0, Huff_decode 0xa2 0 0, Huff_decode 0xaa 0 0, Huff_decode 0xb4 0 0],
   [Huff_decode 0x0 3 176, Huff_decode 0x0 3 177, Huff_decode 0x0 3 179, Huff_decode 0x0 3 209,
    Huff_decode 0x0 3 216, Huff_decode 0x0 3 217, Huff_decode 0x0 3 227, Huff_decode 0x0 3 229,
    Huff_decode 0x0 3 230, Huff_decode 0x7a 0 0, Huff_decode 0x7c 0 0, Huff_decode 0x7d 0 0,
    Huff_decode 0x80 0 0, Huff_decode 0x81 0 0, Huff_decode 0x83 0 0, Huff_decode 0x84 0 0]]"

definition huff_decode_table_16 :: "nghttp2_huff_decode list list" where
  "huff_decode_table_16 = [
   [Huff_decode 0x1 2 176, Huff_decode 0x16 3 176, Huff_decode 0x1 2 177, Huff_decode 0x16 3 177,
    Huff_decode 0x1 2 179, Huff_decode 0x16 3 179, Huff_decode 0x1 2 209, Huff_decode 0x16 3 209,
    Huff_decode 0x1 2 216, Huff_decode 0x16 3 216, Huff_decode 0x1 2 217, Huff_decode 0x16 3 217,
    Huff_decode 0x1 2 227, Huff_decode 0x16 3 227, Huff_decode 0x1 2 229, Huff_decode 0x16 3 229],
   [Huff_decode 0x2 2 176, Huff_decode 0x9 2 176, Huff_decode 0x17 2 176, Huff_decode 0x28 3 176,
    Huff_decode 0x2 2 177, Huff_decode 0x9 2 177, Huff_decode 0x17 2 177, Huff_decode 0x28 3 177,
    Huff_decode 0x2 2 179, Huff_decode 0x9 2 179, Huff_decode 0x17 2 179, Huff_decode 0x28 3 179,
    Huff_decode 0x2 2 209, Huff_decode 0x9 2 209, Huff_decode 0x17 2 209, Huff_decode 0x28 3 209],
   [Huff_decode 0x3 2 176, Huff_decode 0x6 2 176, Huff_decode 0xa 2 176, Huff_decode 0xf 2 176,
    Huff_decode 0x18 2 176, Huff_decode 0x1f 2 176, Huff_decode 0x29 2 176, Huff_decode 0x38 3 176,
    Huff_decode 0x3 2 177, Huff_decode 0x6 2 177, Huff_decode 0xa 2 177, Huff_decode 0xf 2 177,
    Huff_decode 0x18 2 177, Huff_decode 0x1f 2 177, Huff_decode 0x29 2 177, Huff_decode 0x38 3 177],
   [Huff_decode 0x3 2 179, Huff_decode 0x6 2 179, Huff_decode 0xa 2 179, Huff_decode 0xf 2 179,
    Huff_decode 0x18 2 179, Huff_decode 0x1f 2 179, Huff_decode 0x29 2 179, Huff_decode 0x38 3 179,
    Huff_decode 0x3 2 209, Huff_decode 0x6 2 209, Huff_decode 0xa 2 209, Huff_decode 0xf 2 209,
    Huff_decode 0x18 2 209, Huff_decode 0x1f 2 209, Huff_decode 0x29 2 209, Huff_decode 0x38 3 209],
   [Huff_decode 0x2 2 216, Huff_decode 0x9 2 216, Huff_decode 0x17 2 216, Huff_decode 0x28 3 216,
    Huff_decode 0x2 2 217, Huff_decode 0x9 2 217, Huff_decode 0x17 2 217, Huff_decode 0x28 3 217,
    Huff_decode 0x2 2 227, Huff_decode 0x9 2 227, Huff_decode 0x17 2 227, Huff_decode 0x28 3 227,
    Huff_decode 0x2 2 229, Huff_decode 0x9 2 229, Huff_decode 0x17 2 229, Huff_decode 0x28 3 229],
   [Huff_decode 0x3 2 216, Huff_decode 0x6 2 216, Huff_decode 0xa 2 216, Huff_decode 0xf 2 216,
    Huff_decode 0x18 2 216, Huff_decode 0x1f 2 216, Huff_decode 0x29 2 216, Huff_decode 0x38 3 216,
    Huff_decode 0x3 2 217, Huff_decode 0x6 2 217, Huff_decode 0xa 2 217, Huff_decode 0xf 2 217,
    Huff_decode 0x18 2 217, Huff_decode 0x1f 2 217, Huff_decode 0x29 2 217, Huff_decode 0x38 3 217],
   [Huff_decode 0x3 2 227, Huff_decode 0x6 2 227, Huff_decode 0xa 2 227, Huff_decode 0xf 2 227,
    Huff_decode 0x18 2 227, Huff_decode 0x1f 2 227, Huff_decode 0x29 2 227, Huff_decode 0x38 3 227,
    Huff_decode 0x3 2 229, Huff_decode 0x6 2 229, Huff_decode 0xa 2 229, Huff_decode 0xf 2 229,
    Huff_decode 0x18 2 229, Huff_decode 0x1f 2 229, Huff_decode 0x29 2 229, Huff_decode 0x38 3 229]]"

definition huff_decode_table_17 :: "nghttp2_huff_decode list list" where
  "huff_decode_table_17 = [
   [Huff_decode 0x1 2 230, Huff_decode 0x16 3 230, Huff_decode 0x0 3 129, Huff_decode 0x0 3 132,
    Huff_decode 0x0 3 133, Huff_decode 0x0 3 134, Huff_decode 0x0 3 136, Huff_decode 0x0 3 146,
    Huff_decode 0x0 3 154, Huff_decode 0x0 3 156, Huff_decode 0x0 3 160, Huff_decode 0x0 3 163,
    Huff_decode 0x0 3 164, Huff_decode 0x0 3 169, Huff_decode 0x0 3 170, Huff_decode 0x0 3 173],
   [Huff_decode 0x2 2 230, Huff_decode 0x9 2 230, Huff_decode 0x17 2 230, Huff_decode 0x28 3 230,
    Huff_decode 0x1 2 129, Huff_decode 0x16 3 129, Huff_decode 0x1 2 132, Huff_decode 0x16 3 132,
    Huff_decode 0x1 2 133, Huff_decode 0x16 3 133, Huff_decode 0x1 2 134, Huff_decode 0x16 3 134,
    Huff_decode 0x1 2 136, Huff_decode 0x16 3 136, Huff_decode 0x1 2 146, Huff_decode 0x16 3 146],
   [Huff_decode 0x3 2 230, Huff_decode 0x6 2 230, Huff_decode 0xa 2 230, Huff_decode 0xf 2 230,
    Huff_decode 0x18 2 230, Huff_decode 0x1f 2 230, Huff_decode 0x29 2 230, Huff_decode 0x38 3 230,
    Huff_decode 0x2 2 129, Huff_decode 0x9 2 129, Huff_decode 0x17 2 129, Huff_decode 0x28 3 129,
    Huff_decode 0x2 2 132, Huff_decode 0x9 2 132, Huff_decode 0x17 2 132, Huff_decode 0x28 3 132],
   [Huff_decode 0x3 2 129, Huff_decode 0x6 2 129, Huff_decode 0xa 2 129, Huff_decode 0xf 2 129,
    Huff_decode 0x18 2 129, Huff_decode 0x1f 2 129, Huff_decode 0x29 2 129, Huff_decode 0x38 3 129,
    Huff_decode 0x3 2 132, Huff_decode 0x6 2 132, Huff_decode 0xa 2 132, Huff_decode 0xf 2 132,
    Huff_decode 0x18 2 132, Huff_decode 0x1f 2 132, Huff_decode 0x29 2 132, Huff_decode 0x38 3 132],
   [Huff_decode 0x2 2 133, Huff_decode 0x9 2 133, Huff_decode 0x17 2 133, Huff_decode 0x28 3 133,
    Huff_decode 0x2 2 134, Huff_decode 0x9 2 134, Huff_decode 0x17 2 134, Huff_decode 0x28 3 134,
    Huff_decode 0x2 2 136, Huff_decode 0x9 2 136, Huff_decode 0x17 2 136, Huff_decode 0x28 3 136,
    Huff_decode 0x2 2 146, Huff_decode 0x9 2 146, Huff_decode 0x17 2 146, Huff_decode 0x28 3 146],
   [Huff_decode 0x3 2 133, Huff_decode 0x6 2 133, Huff_decode 0xa 2 133, Huff_decode 0xf 2 133,
    Huff_decode 0x18 2 133, Huff_decode 0x1f 2 133, Huff_decode 0x29 2 133, Huff_decode 0x38 3 133,
    Huff_decode 0x3 2 134, Huff_decode 0x6 2 134, Huff_decode 0xa 2 134, Huff_decode 0xf 2 134,
    Huff_decode 0x18 2 134, Huff_decode 0x1f 2 134, Huff_decode 0x29 2 134, Huff_decode 0x38 3 134],
   [Huff_decode 0x3 2 136, Huff_decode 0x6 2 136, Huff_decode 0xa 2 136, Huff_decode 0xf 2 136,
    Huff_decode 0x18 2 136, Huff_decode 0x1f 2 136, Huff_decode 0x29 2 136, Huff_decode 0x38 3 136,
    Huff_decode 0x3 2 146, Huff_decode 0x6 2 146, Huff_decode 0xa 2 146, Huff_decode 0xf 2 146,
    Huff_decode 0x18 2 146, Huff_decode 0x1f 2 146, Huff_decode 0x29 2 146, Huff_decode 0x38 3 146]]"

definition huff_decode_table_18 :: "nghttp2_huff_decode list list" where
  "huff_decode_table_18 = [
   [Huff_decode 0x1 2 154, Huff_decode 0x16 3 154, Huff_decode 0x1 2 156, Huff_decode 0x16 3 156,
    Huff_decode 0x1 2 160, Huff_decode 0x16 3 160, Huff_decode 0x1 2 163, Huff_decode 0x16 3 163,
    Huff_decode 0x1 2 164, Huff_decode 0x16 3 164, Huff_decode 0x1 2 169, Huff_decode 0x16 3 169,
    Huff_decode 0x1 2 170, Huff_decode 0x16 3 170, Huff_decode 0x1 2 173, Huff_decode 0x16 3 173],
   [Huff_decode 0x2 2 154, Huff_decode 0x9 2 154, Huff_decode 0x17 2 154, Huff_decode 0x28 3 154,
    Huff_decode 0x2 2 156, Huff_decode 0x9 2 156, Huff_decode 0x17 2 156, Huff_decode 0x28 3 156,
    Huff_decode 0x2 2 160, Huff_decode 0x9 2 160, Huff_decode 0x17 2 160, Huff_decode 0x28 3 160,
    Huff_decode 0x2 2 163, Huff_decode 0x9 2 163, Huff_decode 0x17 2 163, Huff_decode 0x28 3 163],
   [Huff_decode 0x3 2 154, Huff_decode 0x6 2 154, Huff_decode 0xa 2 154, Huff_decode 0xf 2 154,
    Huff_decode 0x18 2 154, Huff_decode 0x1f 2 154, Huff_decode 0x29 2 154, Huff_decode 0x38 3 154,
    Huff_decode 0x3 2 156, Huff_decode 0x6 2 156, Huff_decode 0xa 2 156, Huff_decode 0xf 2 156,
    Huff_decode 0x18 2 156, Huff_decode 0x1f 2 156, Huff_decode 0x29 2 156, Huff_decode 0x38 3 156],
   [Huff_decode 0x3 2 160, Huff_decode 0x6 2 160, Huff_decode 0xa 2 160, Huff_decode 0xf 2 160,
    Huff_decode 0x18 2 160, Huff_decode 0x1f 2 160, Huff_decode 0x29 2 160, Huff_decode 0x38 3 160,
    Huff_decode 0x3 2 163, Huff_decode 0x6 2 163, Huff_decode 0xa 2 163, Huff_decode 0xf 2 163,
    Huff_decode 0x18 2 163, Huff_decode 0x1f 2 163, Huff_decode 0x29 2 163, Huff_decode 0x38 3 163],
   [Huff_decode 0x2 2 164, Huff_decode 0x9 2 164, Huff_decode 0x17 2 164, Huff_decode 0x28 3 164,
    Huff_decode 0x2 2 169, Huff_decode 0x9 2 169, Huff_decode 0x17 2 169, Huff_decode 0x28 3 169,
    Huff_decode 0x2 2 170, Huff_decode 0x9 2 170, Huff_decode 0x17 2 170, Huff_decode 0x28 3 170,
    Huff_decode 0x2 2 173, Huff_decode 0x9 2 173, Huff_decode 0x17 2 173, Huff_decode 0x28 3 173],
   [Huff_decode 0x3 2 164, Huff_decode 0x6 2 164, Huff_decode 0xa 2 164, Huff_decode 0xf 2 164,
    Huff_decode 0x18 2 164, Huff_decode 0x1f 2 164, Huff_decode 0x29 2 164, Huff_decode 0x38 3 164,
    Huff_decode 0x3 2 169, Huff_decode 0x6 2 169, Huff_decode 0xa 2 169, Huff_decode 0xf 2 169,
    Huff_decode 0x18 2 169, Huff_decode 0x1f 2 169, Huff_decode 0x29 2 169, Huff_decode 0x38 3 169],
   [Huff_decode 0x3 2 170, Huff_decode 0x6 2 170, Huff_decode 0xa 2 170, Huff_decode 0xf 2 170,
    Huff_decode 0x18 2 170, Huff_decode 0x1f 2 170, Huff_decode 0x29 2 170, Huff_decode 0x38 3 170,
    Huff_decode 0x3 2 173, Huff_decode 0x6 2 173, Huff_decode 0xa 2 173, Huff_decode 0xf 2 173,
    Huff_decode 0x18 2 173, Huff_decode 0x1f 2 173, Huff_decode 0x29 2 173, Huff_decode 0x38 3 173]]"

definition huff_decode_table_19 :: "nghttp2_huff_decode list list" where
  "huff_decode_table_19 = [
   [Huff_decode 0x89 0 0, Huff_decode 0x8a 0 0, Huff_decode 0x8c 0 0, Huff_decode 0x8d 0 0,
    Huff_decode 0x90 0 0, Huff_decode 0x91 0 0, Huff_decode 0x93 0 0, Huff_decode 0x96 0 0,
    Huff_decode 0x9c 0 0, Huff_decode 0x9f 0 0, Huff_decode 0xa3 0 0, Huff_decode 0xa6 0 0,
    Huff_decode 0xab 0 0, Huff_decode 0xae 0 0, Huff_decode 0xb5 0 0, Huff_decode 0xbe 0 0],
   [Huff_decode 0x0 3 178, Huff_decode 0x0 3 181, Huff_decode 0x0 3 185, Huff_decode 0x0 3 186,
    Huff_decode 0x0 3 187, Huff_decode 0x0 3 189, Huff_decode 0x0 3 190, Huff_decode 0x0 3 196,
    Huff_decode 0x0 3 198, Huff_decode 0x0 3 228, Huff_decode 0x0 3 232, Huff_decode 0x0 3 233,
    Huff_decode 0x94 0 0, Huff_decode 0x95 0 0, Huff_decode 0x97 0 0, Huff_decode 0x98 0 0],
   [Huff_decode 0x1 2 178, Huff_decode 0x16 3 178, Huff_decode 0x1 2 181, Huff_decode 0x16 3 181,
    Huff_decode 0x1 2 185, Huff_decode 0x16 3 185, Huff_decode 0x1 2 186, Huff_decode 0x16 3 186,
    Huff_decode 0x1 2 187, Huff_decode 0x16 3 187, Huff_decode 0x1 2 189, Huff_decode 0x16 3 189,
    Huff_decode 0x1 2 190, Huff_decode 0x16 3 190, Huff_decode 0x1 2 196, Huff_decode 0x16 3 196],
   [Huff_decode 0x2 2 178, Huff_decode 0x9 2 178, Huff_decode 0x17 2 178, Huff_decode 0x28 3 178,
    Huff_decode 0x2 2 181, Huff_decode 0x9 2 181, Huff_decode 0x17 2 181, Huff_decode 0x28 3 181,
    Huff_decode 0x2 2 185, Huff_decode 0x9 2 185, Huff_decode 0x17 2 185, Huff_decode 0x28 3 185,
    Huff_decode 0x2 2 186, Huff_decode 0x9 2 186, Huff_decode 0x17 2 186, Huff_decode 0x28 3 186],
   [Huff_decode 0x3 2 178, Huff_decode 0x6 2 178, Huff_decode 0xa 2 178, Huff_decode 0xf 2 178,
    Huff_decode 0x18 2 178, Huff_decode 0x1f 2 178, Huff_decode 0x29 2 178, Huff_decode 0x38 3 178,
    Huff_decode 0x3 2 181, Huff_decode 0x6 2 181, Huff_decode 0xa 2 181, Huff_decode 0xf 2 181,
    Huff_decode 0x18 2 181, Huff_decode 0x1f 2 181, Huff_decode 0x29 2 181, Huff_decode 0x38 3 181],
   [Huff_decode 0x3 2 185, Huff_decode 0x6 2 185, Huff_decode 0xa 2 185, Huff_decode 0xf 2 185,
    Huff_decode 0x18 2 185, Huff_decode 0x1f 2 185, Huff_decode 0x29 2 185, Huff_decode 0x38 3 185,
    Huff_decode 0x3 2 186, Huff_decode 0x6 2 186, Huff_decode 0xa 2 186, Huff_decode 0xf 2 186,
    Huff_decode 0x18 2 186, Huff_decode 0x1f 2 186, Huff_decode 0x29 2 186, Huff_decode 0x38 3 186],
   [Huff_decode 0x2 2 187, Huff_decode 0x9 2 187, Huff_decode 0x17 2 187, Huff_decode 0x28 3 187,
    Huff_decode 0x2 2 189, Huff_decode 0x9 2 189, Huff_decode 0x17 2 189, Huff_decode 0x28 3 189,
    Huff_decode 0x2 2 190, Huff_decode 0x9 2 190, Huff_decode 0x17 2 190, Huff_decode 0x28 3 190,
    Huff_decode 0x2 2 196, Huff_decode 0x9 2 196, Huff_decode 0x17 2 196, Huff_decode 0x28 3 196]]"

definition huff_decode_table_20 :: "nghttp2_huff_decode list list" where
  "huff_decode_table_20 = [
   [Huff_decode 0x3 2 187, Huff_decode 0x6 2 187, Huff_decode 0xa 2 187, Huff_decode 0xf 2 187,
    Huff_decode 0x18 2 187, Huff_decode 0x1f 2 187, Huff_decode 0x29 2 187, Huff_decode 0x38 3 187,
    Huff_decode 0x3 2 189, Huff_decode 0x6 2 189, Huff_decode 0xa 2 189, Huff_decode 0xf 2 189,
    Huff_decode 0x18 2 189, Huff_decode 0x1f 2 189, Huff_decode 0x29 2 189, Huff_decode 0x38 3 189],
   [Huff_decode 0x3 2 190, Huff_decode 0x6 2 190, Huff_decode 0xa 2 190, Huff_decode 0xf 2 190,
    Huff_decode 0x18 2 190, Huff_decode 0x1f 2 190, Huff_decode 0x29 2 190, Huff_decode 0x38 3 190,
    Huff_decode 0x3 2 196, Huff_decode 0x6 2 196, Huff_decode 0xa 2 196, Huff_decode 0xf 2 196,
    Huff_decode 0x18 2 196, Huff_decode 0x1f 2 196, Huff_decode 0x29 2 196, Huff_decode 0x38 3 196],
   [Huff_decode 0x1 2 198, Huff_decode 0x16 3 198, Huff_decode 0x1 2 228, Huff_decode 0x16 3 228,
    Huff_decode 0x1 2 232, Huff_decode 0x16 3 232, Huff_decode 0x1 2 233, Huff_decode 0x16 3 233,
    Huff_decode 0x0 3 1, Huff_decode 0x0 3 135, Huff_decode 0x0 3 137, Huff_decode 0x0 3 138,
    Huff_decode 0x0 3 139, Huff_decode 0x0 3 140, Huff_decode 0x0 3 141, Huff_decode 0x0 3 143],
   [Huff_decode 0x2 2 198, Huff_decode 0x9 2 198, Huff_decode 0x17 2 198, Huff_decode 0x28 3 198,
    Huff_decode 0x2 2 228, Huff_decode 0x9 2 228, Huff_decode 0x17 2 228, Huff_decode 0x28 3 228,
    Huff_decode 0x2 2 232, Huff_decode 0x9 2 232, Huff_decode 0x17 2 232, Huff_decode 0x28 3 232,
    Huff_decode 0x2 2 233, Huff_decode 0x9 2 233, Huff_decode 0x17 2 233, Huff_decode 0x28 3 233],
   [Huff_decode 0x3 2 198, Huff_decode 0x6 2 198, Huff_decode 0xa 2 198, Huff_decode 0xf 2 198,
    Huff_decode 0x18 2 198, Huff_decode 0x1f 2 198, Huff_decode 0x29 2 198, Huff_decode 0x38 3 198,
    Huff_decode 0x3 2 228, Huff_decode 0x6 2 228, Huff_decode 0xa 2 228, Huff_decode 0xf 2 228,
    Huff_decode 0x18 2 228, Huff_decode 0x1f 2 228, Huff_decode 0x29 2 228, Huff_decode 0x38 3 228],
   [Huff_decode 0x3 2 232, Huff_decode 0x6 2 232, Huff_decode 0xa 2 232, Huff_decode 0xf 2 232,
    Huff_decode 0x18 2 232, Huff_decode 0x1f 2 232, Huff_decode 0x29 2 232, Huff_decode 0x38 3 232,
    Huff_decode 0x3 2 233, Huff_decode 0x6 2 233, Huff_decode 0xa 2 233, Huff_decode 0xf 2 233,
    Huff_decode 0x18 2 233, Huff_decode 0x1f 2 233, Huff_decode 0x29 2 233, Huff_decode 0x38 3 233],
   [Huff_decode 0x1 2 1, Huff_decode 0x16 3 1, Huff_decode 0x1 2 135, Huff_decode 0x16 3 135,
    Huff_decode 0x1 2 137, Huff_decode 0x16 3 137, Huff_decode 0x1 2 138, Huff_decode 0x16 3 138,
    Huff_decode 0x1 2 139, Huff_decode 0x16 3 139, Huff_decode 0x1 2 140, Huff_decode 0x16 3 140,
    Huff_decode 0x1 2 141, Huff_decode 0x16 3 141, Huff_decode 0x1 2 143, Huff_decode 0x16 3 143]]"

definition huff_decode_table_21 :: "nghttp2_huff_decode list list" where
  "huff_decode_table_21 = [
   [Huff_decode 0x2 2 1, Huff_decode 0x9 2 1, Huff_decode 0x17 2 1, Huff_decode 0x28 3 1,
    Huff_decode 0x2 2 135, Huff_decode 0x9 2 135, Huff_decode 0x17 2 135, Huff_decode 0x28 3 135,
    Huff_decode 0x2 2 137, Huff_decode 0x9 2 137, Huff_decode 0x17 2 137, Huff_decode 0x28 3 137,
    Huff_decode 0x2 2 138, Huff_decode 0x9 2 138, Huff_decode 0x17 2 138, Huff_decode 0x28 3 138],
   [Huff_decode 0x3 2 1, Huff_decode 0x6 2 1, Huff_decode 0xa 2 1, Huff_decode 0xf 2 1,
    Huff_decode 0x18 2 1, Huff_decode 0x1f 2 1, Huff_decode 0x29 2 1, Huff_decode 0x38 3 1,
    Huff_decode 0x3 2 135, Huff_decode 0x6 2 135, Huff_decode 0xa 2 135, Huff_decode 0xf 2 135,
    Huff_decode 0x18 2 135, Huff_decode 0x1f 2 135, Huff_decode 0x29 2 135, Huff_decode 0x38 3 135],
   [Huff_decode 0x3 2 137, Huff_decode 0x6 2 137, Huff_decode 0xa 2 137, Huff_decode 0xf 2 137,
    Huff_decode 0x18 2 137, Huff_decode 0x1f 2 137, Huff_decode 0x29 2 137, Huff_decode 0x38 3 137,
    Huff_decode 0x3 2 138, Huff_decode 0x6 2 138, Huff_decode 0xa 2 138, Huff_decode 0xf 2 138,
    Huff_decode 0x18 2 138, Huff_decode 0x1f 2 138, Huff_decode 0x29 2 138, Huff_decode 0x38 3 138],
   [Huff_decode 0x2 2 139, Huff_decode 0x9 2 139, Huff_decode 0x17 2 139, Huff_decode 0x28 3 139,
    Huff_decode 0x2 2 140, Huff_decode 0x9 2 140, Huff_decode 0x17 2 140, Huff_decode 0x28 3 140,
    Huff_decode 0x2 2 141, Huff_decode 0x9 2 141, Huff_decode 0x17 2 141, Huff_decode 0x28 3 141,
    Huff_decode 0x2 2 143, Huff_decode 0x9 2 143, Huff_decode 0x17 2 143, Huff_decode 0x28 3 143],
   [Huff_decode 0x3 2 139, Huff_decode 0x6 2 139, Huff_decode 0xa 2 139, Huff_decode 0xf 2 139,
    Huff_decode 0x18 2 139, Huff_decode 0x1f 2 139, Huff_decode 0x29 2 139, Huff_decode 0x38 3 139,
    Huff_decode 0x3 2 140, Huff_decode 0x6 2 140, Huff_decode 0xa 2 140, Huff_decode 0xf 2 140,
    Huff_decode 0x18 2 140, Huff_decode 0x1f 2 140, Huff_decode 0x29 2 140, Huff_decode 0x38 3 140],
   [Huff_decode 0x3 2 141, Huff_decode 0x6 2 141, Huff_decode 0xa 2 141, Huff_decode 0xf 2 141,
    Huff_decode 0x18 2 141, Huff_decode 0x1f 2 141, Huff_decode 0x29 2 141, Huff_decode 0x38 3 141,
    Huff_decode 0x3 2 143, Huff_decode 0x6 2 143, Huff_decode 0xa 2 143, Huff_decode 0xf 2 143,
    Huff_decode 0x18 2 143, Huff_decode 0x1f 2 143, Huff_decode 0x29 2 143, Huff_decode 0x38 3 143],
   [Huff_decode 0x9d 0 0, Huff_decode 0x9e 0 0, Huff_decode 0xa0 0 0, Huff_decode 0xa1 0 0,
    Huff_decode 0xa4 0 0, Huff_decode 0xa5 0 0, Huff_decode 0xa7 0 0, Huff_decode 0xa8 0 0,
    Huff_decode 0xac 0 0, Huff_decode 0xad 0 0, Huff_decode 0xaf 0 0, Huff_decode 0xb1 0 0,
    Huff_decode 0xb6 0 0, Huff_decode 0xb9 0 0, Huff_decode 0xbf 0 0, Huff_decode 0xcf 0 0]]"

definition huff_decode_table_22 :: "nghttp2_huff_decode list list" where
  "huff_decode_table_22 = [
   [Huff_decode 0x0 3 147, Huff_decode 0x0 3 149, Huff_decode 0x0 3 150, Huff_decode 0x0 3 151,
    Huff_decode 0x0 3 152, Huff_decode 0x0 3 155, Huff_decode 0x0 3 157, Huff_decode 0x0 3 158,
    Huff_decode 0x0 3 165, Huff_decode 0x0 3 166, Huff_decode 0x0 3 168, Huff_decode 0x0 3 174,
    Huff_decode 0x0 3 175, Huff_decode 0x0 3 180, Huff_decode 0x0 3 182, Huff_decode 0x0 3 183],
   [Huff_decode 0x1 2 147, Huff_decode 0x16 3 147, Huff_decode 0x1 2 149, Huff_decode 0x16 3 149,
    Huff_decode 0x1 2 150, Huff_decode 0x16 3 150, Huff_decode 0x1 2 151, Huff_decode 0x16 3 151,
    Huff_decode 0x1 2 152, Huff_decode 0x16 3 152, Huff_decode 0x1 2 155, Huff_decode 0x16 3 155,
    Huff_decode 0x1 2 157, Huff_decode 0x16 3 157, Huff_decode 0x1 2 158, Huff_decode 0x16 3 158],
   [Huff_decode 0x2 2 147, Huff_decode 0x9 2 147, Huff_decode 0x17 2 147, Huff_decode 0x28 3 147,
    Huff_decode 0x2 2 149, Huff_decode 0x9 2 149, Huff_decode 0x17 2 149, Huff_decode 0x28 3 149,
    Huff_decode 0x2 2 150, Huff_decode 0x9 2 150, Huff_decode 0x17 2 150, Huff_decode 0x28 3 150,
    Huff_decode 0x2 2 151, Huff_decode 0x9 2 151, Huff_decode 0x17 2 151, Huff_decode 0x28 3 151],
   [Huff_decode 0x3 2 147, Huff_decode 0x6 2 147, Huff_decode 0xa 2 147, Huff_decode 0xf 2 147,
    Huff_decode 0x18 2 147, Huff_decode 0x1f 2 147, Huff_decode 0x29 2 147, Huff_decode 0x38 3 147,
    Huff_decode 0x3 2 149, Huff_decode 0x6 2 149, Huff_decode 0xa 2 149, Huff_decode 0xf 2 149,
    Huff_decode 0x18 2 149, Huff_decode 0x1f 2 149, Huff_decode 0x29 2 149, Huff_decode 0x38 3 149],
   [Huff_decode 0x3 2 150, Huff_decode 0x6 2 150, Huff_decode 0xa 2 150, Huff_decode 0xf 2 150,
    Huff_decode 0x18 2 150, Huff_decode 0x1f 2 150, Huff_decode 0x29 2 150, Huff_decode 0x38 3 150,
    Huff_decode 0x3 2 151, Huff_decode 0x6 2 151, Huff_decode 0xa 2 151, Huff_decode 0xf 2 151,
    Huff_decode 0x18 2 151, Huff_decode 0x1f 2 151, Huff_decode 0x29 2 151, Huff_decode 0x38 3 151],
   [Huff_decode 0x2 2 152, Huff_decode 0x9 2 152, Huff_decode 0x17 2 152, Huff_decode 0x28 3 152,
    Huff_decode 0x2 2 155, Huff_decode 0x9 2 155, Huff_decode 0x17 2 155, Huff_decode 0x28 3 155,
    Huff_decode 0x2 2 157, Huff_decode 0x9 2 157, Huff_decode 0x17 2 157, Huff_decode 0x28 3 157,
    Huff_decode 0x2 2 158, Huff_decode 0x9 2 158, Huff_decode 0x17 2 158, Huff_decode 0x28 3 158],
   [Huff_decode 0x3 2 152, Huff_decode 0x6 2 152, Huff_decode 0xa 2 152, Huff_decode 0xf 2 152,
    Huff_decode 0x18 2 152, Huff_decode 0x1f 2 152, Huff_decode 0x29 2 152, Huff_decode 0x38 3 152,
    Huff_decode 0x3 2 155, Huff_decode 0x6 2 155, Huff_decode 0xa 2 155, Huff_decode 0xf 2 155,
    Huff_decode 0x18 2 155, Huff_decode 0x1f 2 155, Huff_decode 0x29 2 155, Huff_decode 0x38 3 155]]"

definition huff_decode_table_23 :: "nghttp2_huff_decode list list" where
  "huff_decode_table_23 = [
   [Huff_decode 0x3 2 157, Huff_decode 0x6 2 157, Huff_decode 0xa 2 157, Huff_decode 0xf 2 157,
    Huff_decode 0x18 2 157, Huff_decode 0x1f 2 157, Huff_decode 0x29 2 157, Huff_decode 0x38 3 157,
    Huff_decode 0x3 2 158, Huff_decode 0x6 2 158, Huff_decode 0xa 2 158, Huff_decode 0xf 2 158,
    Huff_decode 0x18 2 158, Huff_decode 0x1f 2 158, Huff_decode 0x29 2 158, Huff_decode 0x38 3 158],
   [Huff_decode 0x1 2 165, Huff_decode 0x16 3 165, Huff_decode 0x1 2 166, Huff_decode 0x16 3 166,
    Huff_decode 0x1 2 168, Huff_decode 0x16 3 168, Huff_decode 0x1 2 174, Huff_decode 0x16 3 174,
    Huff_decode 0x1 2 175, Huff_decode 0x16 3 175, Huff_decode 0x1 2 180, Huff_decode 0x16 3 180,
    Huff_decode 0x1 2 182, Huff_decode 0x16 3 182, Huff_decode 0x1 2 183, Huff_decode 0x16 3 183],
   [Huff_decode 0x2 2 165, Huff_decode 0x9 2 165, Huff_decode 0x17 2 165, Huff_decode 0x28 3 165,
    Huff_decode 0x2 2 166, Huff_decode 0x9 2 166, Huff_decode 0x17 2 166, Huff_decode 0x28 3 166,
    Huff_decode 0x2 2 168, Huff_decode 0x9 2 168, Huff_decode 0x17 2 168, Huff_decode 0x28 3 168,
    Huff_decode 0x2 2 174, Huff_decode 0x9 2 174, Huff_decode 0x17 2 174, Huff_decode 0x28 3 174],
   [Huff_decode 0x3 2 165, Huff_decode 0x6 2 165, Huff_decode 0xa 2 165, Huff_decode 0xf 2 165,
    Huff_decode 0x18 2 165, Huff_decode 0x1f 2 165, Huff_decode 0x29 2 165, Huff_decode 0x38 3 165,
    Huff_decode 0x3 2 166, Huff_decode 0x6 2 166, Huff_decode 0xa 2 166, Huff_decode 0xf 2 166,
    Huff_decode 0x18 2 166, Huff_decode 0x1f 2 166, Huff_decode 0x29 2 166, Huff_decode 0x38 3 166],
   [Huff_decode 0x3 2 168, Huff_decode 0x6 2 168, Huff_decode 0xa 2 168, Huff_decode 0xf 2 168,
    Huff_decode 0x18 2 168, Huff_decode 0x1f 2 168, Huff_decode 0x29 2 168, Huff_decode 0x38 3 168,
    Huff_decode 0x3 2 174, Huff_decode 0x6 2 174, Huff_decode 0xa 2 174, Huff_decode 0xf 2 174,
    Huff_decode 0x18 2 174, Huff_decode 0x1f 2 174, Huff_decode 0x29 2 174, Huff_decode 0x38 3 174],
   [Huff_decode 0x2 2 175, Huff_decode 0x9 2 175, Huff_decode 0x17 2 175, Huff_decode 0x28 3 175,
    Huff_decode 0x2 2 180, Huff_decode 0x9 2 180, Huff_decode 0x17 2 180, Huff_decode 0x28 3 180,
    Huff_decode 0x2 2 182, Huff_decode 0x9 2 182, Huff_decode 0x17 2 182, Huff_decode 0x28 3 182,
    Huff_decode 0x2 2 183, Huff_decode 0x9 2 183, Huff_decode 0x17 2 183, Huff_decode 0x28 3 183],
   [Huff_decode 0x3 2 175, Huff_decode 0x6 2 175, Huff_decode 0xa 2 175, Huff_decode 0xf 2 175,
    Huff_decode 0x18 2 175, Huff_decode 0x1f 2 175, Huff_decode 0x29 2 175, Huff_decode 0x38 3 175,
    Huff_decode 0x3 2 180, Huff_decode 0x6 2 180, Huff_decode 0xa 2 180, Huff_decode 0xf 2 180,
    Huff_decode 0x18 2 180, Huff_decode 0x1f 2 180, Huff_decode 0x29 2 180, Huff_decode 0x38 3 180]]"

definition huff_decode_table_24 :: "nghttp2_huff_decode list list" where
  "huff_decode_table_24 = [
   [Huff_decode 0x3 2 182, Huff_decode 0x6 2 182, Huff_decode 0xa 2 182, Huff_decode 0xf 2 182,
    Huff_decode 0x18 2 182, Huff_decode 0x1f 2 182, Huff_decode 0x29 2 182, Huff_decode 0x38 3 182,
    Huff_decode 0x3 2 183, Huff_decode 0x6 2 183, Huff_decode 0xa 2 183, Huff_decode 0xf 2 183,
    Huff_decode 0x18 2 183, Huff_decode 0x1f 2 183, Huff_decode 0x29 2 183, Huff_decode 0x38 3 183],
   [Huff_decode 0x0 3 188, Huff_decode 0x0 3 191, Huff_decode 0x0 3 197, Huff_decode 0x0 3 231,
    Huff_decode 0x0 3 239, Huff_decode 0xb0 0 0, Huff_decode 0xb2 0 0, Huff_decode 0xb3 0 0,
    Huff_decode 0xb7 0 0, Huff_decode 0xb8 0 0, Huff_decode 0xba 0 0, Huff_decode 0xbb 0 0,
    Huff_decode 0xc0 0 0, Huff_decode 0xc7 0 0, Huff_decode 0xd0 0 0, Huff_decode 0xdf 0 0],
   [Huff_decode 0x1 2 188, Huff_decode 0x16 3 188, Huff_decode 0x1 2 191, Huff_decode 0x16 3 191,
    Huff_decode 0x1 2 197, Huff_decode 0x16 3 197, Huff_decode 0x1 2 231, Huff_decode 0x16 3 231,
    Huff_decode 0x1 2 239, Huff_decode 0x16 3 239, Huff_decode 0x0 3 9, Huff_decode 0x0 3 142,
    Huff_decode 0x0 3 144, Huff_decode 0x0 3 145, Huff_decode 0x0 3 148, Huff_decode 0x0 3 159],
   [Huff_decode 0x2 2 188, Huff_decode 0x9 2 188, Huff_decode 0x17 2 188, Huff_decode 0x28 3 188,
    Huff_decode 0x2 2 191, Huff_decode 0x9 2 191, Huff_decode 0x17 2 191, Huff_decode 0x28 3 191,
    Huff_decode 0x2 2 197, Huff_decode 0x9 2 197, Huff_decode 0x17 2 197, Huff_decode 0x28 3 197,
    Huff_decode 0x2 2 231, Huff_decode 0x9 2 231, Huff_decode 0x17 2 231, Huff_decode 0x28 3 231],
   [Huff_decode 0x3 2 188, Huff_decode 0x6 2 188, Huff_decode 0xa 2 188, Huff_decode 0xf 2 188,
    Huff_decode 0x18 2 188, Huff_decode 0x1f 2 188, Huff_decode 0x29 2 188, Huff_decode 0x38 3 188,
    Huff_decode 0x3 2 191, Huff_decode 0x6 2 191, Huff_decode 0xa 2 191, Huff_decode 0xf 2 191,
    Huff_decode 0x18 2 191, Huff_decode 0x1f 2 191, Huff_decode 0x29 2 191, Huff_decode 0x38 3 191],
   [Huff_decode 0x3 2 197, Huff_decode 0x6 2 197, Huff_decode 0xa 2 197, Huff_decode 0xf 2 197,
    Huff_decode 0x18 2 197, Huff_decode 0x1f 2 197, Huff_decode 0x29 2 197, Huff_decode 0x38 3 197,
    Huff_decode 0x3 2 231, Huff_decode 0x6 2 231, Huff_decode 0xa 2 231, Huff_decode 0xf 2 231,
    Huff_decode 0x18 2 231, Huff_decode 0x1f 2 231, Huff_decode 0x29 2 231, Huff_decode 0x38 3 231],
   [Huff_decode 0x2 2 239, Huff_decode 0x9 2 239, Huff_decode 0x17 2 239, Huff_decode 0x28 3 239,
    Huff_decode 0x1 2 9, Huff_decode 0x16 3 9, Huff_decode 0x1 2 142, Huff_decode 0x16 3 142,
    Huff_decode 0x1 2 144, Huff_decode 0x16 3 144, Huff_decode 0x1 2 145, Huff_decode 0x16 3 145,
    Huff_decode 0x1 2 148, Huff_decode 0x16 3 148, Huff_decode 0x1 2 159, Huff_decode 0x16 3 159]]"

definition huff_decode_table_25 :: "nghttp2_huff_decode list list" where
  "huff_decode_table_25 = [
   [Huff_decode 0x3 2 239, Huff_decode 0x6 2 239, Huff_decode 0xa 2 239, Huff_decode 0xf 2 239,
    Huff_decode 0x18 2 239, Huff_decode 0x1f 2 239, Huff_decode 0x29 2 239, Huff_decode 0x38 3 239,
    Huff_decode 0x2 2 9, Huff_decode 0x9 2 9, Huff_decode 0x17 2 9, Huff_decode 0x28 3 9,
    Huff_decode 0x2 2 142, Huff_decode 0x9 2 142, Huff_decode 0x17 2 142, Huff_decode 0x28 3 142],
   [Huff_decode 0x3 2 9, Huff_decode 0x6 2 9, Huff_decode 0xa 2 9, Huff_decode 0xf 2 9,
    Huff_decode 0x18 2 9, Huff_decode 0x1f 2 9, Huff_decode 0x29 2 9, Huff_decode 0x38 3 9,
    Huff_decode 0x3 2 142, Huff_decode 0x6 2 142, Huff_decode 0xa 2 142, Huff_decode 0xf 2 142,
    Huff_decode 0x18 2 142, Huff_decode 0x1f 2 142, Huff_decode 0x29 2 142, Huff_decode 0x38 3 142],
   [Huff_decode 0x2 2 144, Huff_decode 0x9 2 144, Huff_decode 0x17 2 144, Huff_decode 0x28 3 144,
    Huff_decode 0x2 2 145, Huff_decode 0x9 2 145, Huff_decode 0x17 2 145, Huff_decode 0x28 3 145,
    Huff_decode 0x2 2 148, Huff_decode 0x9 2 148, Huff_decode 0x17 2 148, Huff_decode 0x28 3 148,
    Huff_decode 0x2 2 159, Huff_decode 0x9 2 159, Huff_decode 0x17 2 159, Huff_decode 0x28 3 159],
   [Huff_decode 0x3 2 144, Huff_decode 0x6 2 144, Huff_decode 0xa 2 144, Huff_decode 0xf 2 144,
    Huff_decode 0x18 2 144, Huff_decode 0x1f 2 144, Huff_decode 0x29 2 144, Huff_decode 0x38 3 144,
    Huff_decode 0x3 2 145, Huff_decode 0x6 2 145, Huff_decode 0xa 2 145, Huff_decode 0xf 2 145,
    Huff_decode 0x18 2 145, Huff_decode 0x1f 2 145, Huff_decode 0x29 2 145, Huff_decode 0x38 3 145],
   [Huff_decode 0x3 2 148, Huff_decode 0x6 2 148, Huff_decode 0xa 2 148, Huff_decode 0xf 2 148,
    Huff_decode 0x18 2 148, Huff_decode 0x1f 2 148, Huff_decode 0x29 2 148, Huff_decode 0x38 3 148,
    Huff_decode 0x3 2 159, Huff_decode 0x6 2 159, Huff_decode 0xa 2 159, Huff_decode 0xf 2 159,
    Huff_decode 0x18 2 159, Huff_decode 0x1f 2 159, Huff_decode 0x29 2 159, Huff_decode 0x38 3 159],
   [Huff_decode 0x0 3 171, Huff_decode 0x0 3 206, Huff_decode 0x0 3 215, Huff_decode 0x0 3 225,
    Huff_decode 0x0 3 236, Huff_decode 0x0 3 237, Huff_decode 0xbc 0 0, Huff_decode 0xbd 0 0,
    Huff_decode 0xc1 0 0, Huff_decode 0xc4 0 0, Huff_decode 0xc8 0 0, Huff_decode 0xcb 0 0,
    Huff_decode 0xd1 0 0, Huff_decode 0xd8 0 0, Huff_decode 0xe0 0 0, Huff_decode 0xee 0 0],
   [Huff_decode 0x1 2 171, Huff_decode 0x16 3 171, Huff_decode 0x1 2 206, Huff_decode 0x16 3 206,
    Huff_decode 0x1 2 215, Huff_decode 0x16 3 215, Huff_decode 0x1 2 225, Huff_decode 0x16 3 225,
    Huff_decode 0x1 2 236, Huff_decode 0x16 3 236, Huff_decode 0x1 2 237, Huff_decode 0x16 3 237,
    Huff_decode 0x0 3 199, Huff_decode 0x0 3 207, Huff_decode 0x0 3 234, Huff_decode 0x0 3 235]]"

definition huff_decode_table_26 :: "nghttp2_huff_decode list list" where
  "huff_decode_table_26 = [
   [Huff_decode 0x2 2 171, Huff_decode 0x9 2 171, Huff_decode 0x17 2 171, Huff_decode 0x28 3 171,
    Huff_decode 0x2 2 206, Huff_decode 0x9 2 206, Huff_decode 0x17 2 206, Huff_decode 0x28 3 206,
    Huff_decode 0x2 2 215, Huff_decode 0x9 2 215, Huff_decode 0x17 2 215, Huff_decode 0x28 3 215,
    Huff_decode 0x2 2 225, Huff_decode 0x9 2 225, Huff_decode 0x17 2 225, Huff_decode 0x28 3 225],
   [Huff_decode 0x3 2 171, Huff_decode 0x6 2 171, Huff_decode 0xa 2 171, Huff_decode 0xf 2 171,
    Huff_decode 0x18 2 171, Huff_decode 0x1f 2 171, Huff_decode 0x29 2 171, Huff_decode 0x38 3 171,
    Huff_decode 0x3 2 206, Huff_decode 0x6 2 206, Huff_decode 0xa 2 206, Huff_decode 0xf 2 206,
    Huff_decode 0x18 2 206, Huff_decode 0x1f 2 206, Huff_decode 0x29 2 206, Huff_decode 0x38 3 206],
   [Huff_decode 0x3 2 215, Huff_decode 0x6 2 215, Huff_decode 0xa 2 215, Huff_decode 0xf 2 215,
    Huff_decode 0x18 2 215, Huff_decode 0x1f 2 215, Huff_decode 0x29 2 215, Huff_decode 0x38 3 215,
    Huff_decode 0x3 2 225, Huff_decode 0x6 2 225, Huff_decode 0xa 2 225, Huff_decode 0xf 2 225,
    Huff_decode 0x18 2 225, Huff_decode 0x1f 2 225, Huff_decode 0x29 2 225, Huff_decode 0x38 3 225],
   [Huff_decode 0x2 2 236, Huff_decode 0x9 2 236, Huff_decode 0x17 2 236, Huff_decode 0x28 3 236,
    Huff_decode 0x2 2 237, Huff_decode 0x9 2 237, Huff_decode 0x17 2 237, Huff_decode 0x28 3 237,
    Huff_decode 0x1 2 199, Huff_decode 0x16 3 199, Huff_decode 0x1 2 207, Huff_decode 0x16 3 207,
    Huff_decode 0x1 2 234, Huff_decode 0x16 3 234, Huff_decode 0x1 2 235, Huff_decode 0x16 3 235],
   [Huff_decode 0x3 2 236, Huff_decode 0x6 2 236, Huff_decode 0xa 2 236, Huff_decode 0xf 2 236,
    Huff_decode 0x18 2 236, Huff_decode 0x1f 2 236, Huff_decode 0x29 2 236, Huff_decode 0x38 3 236,
    Huff_decode 0x3 2 237, Huff_decode 0x6 2 237, Huff_decode 0xa 2 237, Huff_decode 0xf 2 237,
    Huff_decode 0x18 2 237, Huff_decode 0x1f 2 237, Huff_decode 0x29 2 237, Huff_decode 0x38 3 237],
   [Huff_decode 0x2 2 199, Huff_decode 0x9 2 199, Huff_decode 0x17 2 199, Huff_decode 0x28 3 199,
    Huff_decode 0x2 2 207, Huff_decode 0x9 2 207, Huff_decode 0x17 2 207, Huff_decode 0x28 3 207,
    Huff_decode 0x2 2 234, Huff_decode 0x9 2 234, Huff_decode 0x17 2 234, Huff_decode 0x28 3 234,
    Huff_decode 0x2 2 235, Huff_decode 0x9 2 235, Huff_decode 0x17 2 235, Huff_decode 0x28 3 235],
   [Huff_decode 0x3 2 199, Huff_decode 0x6 2 199, Huff_decode 0xa 2 199, Huff_decode 0xf 2 199,
    Huff_decode 0x18 2 199, Huff_decode 0x1f 2 199, Huff_decode 0x29 2 199, Huff_decode 0x38 3 199,
    Huff_decode 0x3 2 207, Huff_decode 0x6 2 207, Huff_decode 0xa 2 207, Huff_decode 0xf 2 207,
    Huff_decode 0x18 2 207, Huff_decode 0x1f 2 207, Huff_decode 0x29 2 207, Huff_decode 0x38 3 207]]"

definition huff_decode_table_27 :: "nghttp2_huff_decode list list" where
  "huff_decode_table_27 = [
   [Huff_decode 0x3 2 234, Huff_decode 0x6 2 234, Huff_decode 0xa 2 234, Huff_decode 0xf 2 234,
    Huff_decode 0x18 2 234, Huff_decode 0x1f 2 234, Huff_decode 0x29 2 234, Huff_decode 0x38 3 234,
    Huff_decode 0x3 2 235, Huff_decode 0x6 2 235, Huff_decode 0xa 2 235, Huff_decode 0xf 2 235,
    Huff_decode 0x18 2 235, Huff_decode 0x1f 2 235, Huff_decode 0x29 2 235, Huff_decode 0x38 3 235],
   [Huff_decode 0xc2 0 0, Huff_decode 0xc3 0 0, Huff_decode 0xc5 0 0, Huff_decode 0xc6 0 0,
    Huff_decode 0xc9 0 0, Huff_decode 0xca 0 0, Huff_decode 0xcc 0 0, Huff_decode 0xcd 0 0,
    Huff_decode 0xd2 0 0, Huff_decode 0xd5 0 0, Huff_decode 0xd9 0 0, Huff_decode 0xdc 0 0,
    Huff_decode 0xe1 0 0, Huff_decode 0xe7 0 0, Huff_decode 0xef 0 0, Huff_decode 0xf6 0 0],
   [Huff_decode 0x0 3 192, Huff_decode 0x0 3 193, Huff_decode 0x0 3 200, Huff_decode 0x0 3 201,
    Huff_decode 0x0 3 202, Huff_decode 0x0 3 205, Huff_decode 0x0 3 210, Huff_decode 0x0 3 213,
    Huff_decode 0x0 3 218, Huff_decode 0x0 3 219, Huff_decode 0x0 3 238, Huff_decode 0x0 3 240,
    Huff_decode 0x0 3 242, Huff_decode 0x0 3 243, Huff_decode 0x0 3 255, Huff_decode 0xce 0 0],
   [Huff_decode 0x1 2 192, Huff_decode 0x16 3 192, Huff_decode 0x1 2 193, Huff_decode 0x16 3 193,
    Huff_decode 0x1 2 200, Huff_decode 0x16 3 200, Huff_decode 0x1 2 201, Huff_decode 0x16 3 201,
    Huff_decode 0x1 2 202, Huff_decode 0x16 3 202, Huff_decode 0x1 2 205, Huff_decode 0x16 3 205,
    Huff_decode 0x1 2 210, Huff_decode 0x16 3 210, Huff_decode 0x1 2 213, Huff_decode 0x16 3 213],
   [Huff_decode 0x2 2 192, Huff_decode 0x9 2 192, Huff_decode 0x17 2 192, Huff_decode 0x28 3 192,
    Huff_decode 0x2 2 193, Huff_decode 0x9 2 193, Huff_decode 0x17 2 193, Huff_decode 0x28 3 193,
    Huff_decode 0x2 2 200, Huff_decode 0x9 2 200, Huff_decode 0x17 2 200, Huff_decode 0x28 3 200,
    Huff_decode 0x2 2 201, Huff_decode 0x9 2 201, Huff_decode 0x17 2 201, Huff_decode 0x28 3 201],
   [Huff_decode 0x3 2 192, Huff_decode 0x6 2 192, Huff_decode 0xa 2 192, Huff_decode 0xf 2 192,
    Huff_decode 0x18 2 192, Huff_decode 0x1f 2 192, Huff_decode 0x29 2 192, Huff_decode 0x38 3 192,
    Huff_decode 0x3 2 193, Huff_decode 0x6 2 193, Huff_decode 0xa 2 193, Huff_decode 0xf 2 193,
    Huff_decode 0x18 2 193, Huff_decode 0x1f 2 193, Huff_decode 0x29 2 193, Huff_decode 0x38 3 193],
   [Huff_decode 0x3 2 200, Huff_decode 0x6 2 200, Huff_decode 0xa 2 200, Huff_decode 0xf 2 200,
    Huff_decode 0x18 2 200, Huff_decode 0x1f 2 200, Huff_decode 0x29 2 200, Huff_decode 0x38 3 200,
    Huff_decode 0x3 2 201, Huff_decode 0x6 2 201, Huff_decode 0xa 2 201, Huff_decode 0xf 2 201,
    Huff_decode 0x18 2 201, Huff_decode 0x1f 2 201, Huff_decode 0x29 2 201, Huff_decode 0x38 3 201]]"

definition huff_decode_table_28 :: "nghttp2_huff_decode list list" where
  "huff_decode_table_28 = [
   [Huff_decode 0x2 2 202, Huff_decode 0x9 2 202, Huff_decode 0x17 2 202, Huff_decode 0x28 3 202,
    Huff_decode 0x2 2 205, Huff_decode 0x9 2 205, Huff_decode 0x17 2 205, Huff_decode 0x28 3 205,
    Huff_decode 0x2 2 210, Huff_decode 0x9 2 210, Huff_decode 0x17 2 210, Huff_decode 0x28 3 210,
    Huff_decode 0x2 2 213, Huff_decode 0x9 2 213, Huff_decode 0x17 2 213, Huff_decode 0x28 3 213],
   [Huff_decode 0x3 2 202, Huff_decode 0x6 2 202, Huff_decode 0xa 2 202, Huff_decode 0xf 2 202,
    Huff_decode 0x18 2 202, Huff_decode 0x1f 2 202, Huff_decode 0x29 2 202, Huff_decode 0x38 3 202,
    Huff_decode 0x3 2 205, Huff_decode 0x6 2 205, Huff_decode 0xa 2 205, Huff_decode 0xf 2 205,
    Huff_decode 0x18 2 205, Huff_decode 0x1f 2 205, Huff_decode 0x29 2 205, Huff_decode 0x38 3 205],
   [Huff_decode 0x3 2 210, Huff_decode 0x6 2 210, Huff_decode 0xa 2 210, Huff_decode 0xf 2 210,
    Huff_decode 0x18 2 210, Huff_decode 0x1f 2 210, Huff_decode 0x29 2 210, Huff_decode 0x38 3 210,
    Huff_decode 0x3 2 213, Huff_decode 0x6 2 213, Huff_decode 0xa 2 213, Huff_decode 0xf 2 213,
    Huff_decode 0x18 2 213, Huff_decode 0x1f 2 213, Huff_decode 0x29 2 213, Huff_decode 0x38 3 213],
   [Huff_decode 0x1 2 218, Huff_decode 0x16 3 218, Huff_decode 0x1 2 219, Huff_decode 0x16 3 219,
    Huff_decode 0x1 2 238, Huff_decode 0x16 3 238, Huff_decode 0x1 2 240, Huff_decode 0x16 3 240,
    Huff_decode 0x1 2 242, Huff_decode 0x16 3 242, Huff_decode 0x1 2 243, Huff_decode 0x16 3 243,
    Huff_decode 0x1 2 255, Huff_decode 0x16 3 255, Huff_decode 0x0 3 203, Huff_decode 0x0 3 204],
   [Huff_decode 0x2 2 218, Huff_decode 0x9 2 218, Huff_decode 0x17 2 218, Huff_decode 0x28 3 218,
    Huff_decode 0x2 2 219, Huff_decode 0x9 2 219, Huff_decode 0x17 2 219, Huff_decode 0x28 3 219,
    Huff_decode 0x2 2 238, Huff_decode 0x9 2 238, Huff_decode 0x17 2 238, Huff_decode 0x28 3 238,
    Huff_decode 0x2 2 240, Huff_decode 0x9 2 240, Huff_decode 0x17 2 240, Huff_decode 0x28 3 240],
   [Huff_decode 0x3 2 218, Huff_decode 0x6 2 218, Huff_decode 0xa 2 218, Huff_decode 0xf 2 218,
    Huff_decode 0x18 2 218, Huff_decode 0x1f 2 218, Huff_decode 0x29 2 218, Huff_decode 0x38 3 218,
    Huff_decode 0x3 2 219, Huff_decode 0x6 2 219, Huff_decode 0xa 2 219, Huff_decode 0xf 2 219,
    Huff_decode 0x18 2 219, Huff_decode 0x1f 2 219, Huff_decode 0x29 2 219, Huff_decode 0x38 3 219],
   [Huff_decode 0x3 2 238, Huff_decode 0x6 2 238, Huff_decode 0xa 2 238, Huff_decode 0xf 2 238,
    Huff_decode 0x18 2 238, Huff_decode 0x1f 2 238, Huff_decode 0x29 2 238, Huff_decode 0x38 3 238,
    Huff_decode 0x3 2 240, Huff_decode 0x6 2 240, Huff_decode 0xa 2 240, Huff_decode 0xf 2 240,
    Huff_decode 0x18 2 240, Huff_decode 0x1f 2 240, Huff_decode 0x29 2 240, Huff_decode 0x38 3 240]]"

definition huff_decode_table_29 :: "nghttp2_huff_decode list list" where
  "huff_decode_table_29 = [
   [Huff_decode 0x2 2 242, Huff_decode 0x9 2 242, Huff_decode 0x17 2 242, Huff_decode 0x28 3 242,
    Huff_decode 0x2 2 243, Huff_decode 0x9 2 243, Huff_decode 0x17 2 243, Huff_decode 0x28 3 243,
    Huff_decode 0x2 2 255, Huff_decode 0x9 2 255, Huff_decode 0x17 2 255, Huff_decode 0x28 3 255,
    Huff_decode 0x1 2 203, Huff_decode 0x16 3 203, Huff_decode 0x1 2 204, Huff_decode 0x16 3 204],
   [Huff_decode 0x3 2 242, Huff_decode 0x6 2 242, Huff_decode 0xa 2 242, Huff_decode 0xf 2 242,
    Huff_decode 0x18 2 242, Huff_decode 0x1f 2 242, Huff_decode 0x29 2 242, Huff_decode 0x38 3 242,
    Huff_decode 0x3 2 243, Huff_decode 0x6 2 243, Huff_decode 0xa 2 243, Huff_decode 0xf 2 243,
    Huff_decode 0x18 2 243, Huff_decode 0x1f 2 243, Huff_decode 0x29 2 243, Huff_decode 0x38 3 243],
   [Huff_decode 0x3 2 255, Huff_decode 0x6 2 255, Huff_decode 0xa 2 255, Huff_decode 0xf 2 255,
    Huff_decode 0x18 2 255, Huff_decode 0x1f 2 255, Huff_decode 0x29 2 255, Huff_decode 0x38 3 255,
    Huff_decode 0x2 2 203, Huff_decode 0x9 2 203, Huff_decode 0x17 2 203, Huff_decode 0x28 3 203,
    Huff_decode 0x2 2 204, Huff_decode 0x9 2 204, Huff_decode 0x17 2 204, Huff_decode 0x28 3 204],
   [Huff_decode 0x3 2 203, Huff_decode 0x6 2 203, Huff_decode 0xa 2 203, Huff_decode 0xf 2 203,
    Huff_decode 0x18 2 203, Huff_decode 0x1f 2 203, Huff_decode 0x29 2 203, Huff_decode 0x38 3 203,
    Huff_decode 0x3 2 204, Huff_decode 0x6 2 204, Huff_decode 0xa 2 204, Huff_decode 0xf 2 204,
    Huff_decode 0x18 2 204, Huff_decode 0x1f 2 204, Huff_decode 0x29 2 204, Huff_decode 0x38 3 204],
   [Huff_decode 0xd3 0 0, Huff_decode 0xd4 0 0, Huff_decode 0xd6 0 0, Huff_decode 0xd7 0 0,
    Huff_decode 0xda 0 0, Huff_decode 0xdb 0 0, Huff_decode 0xdd 0 0, Huff_decode 0xde 0 0,
    Huff_decode 0xe2 0 0, Huff_decode 0xe4 0 0, Huff_decode 0xe8 0 0, Huff_decode 0xeb 0 0,
    Huff_decode 0xf0 0 0, Huff_decode 0xf3 0 0, Huff_decode 0xf7 0 0, Huff_decode 0xfa 0 0],
   [Huff_decode 0x0 3 211, Huff_decode 0x0 3 212, Huff_decode 0x0 3 214, Huff_decode 0x0 3 221,
    Huff_decode 0x0 3 222, Huff_decode 0x0 3 223, Huff_decode 0x0 3 241, Huff_decode 0x0 3 244,
    Huff_decode 0x0 3 245, Huff_decode 0x0 3 246, Huff_decode 0x0 3 247, Huff_decode 0x0 3 248,
    Huff_decode 0x0 3 250, Huff_decode 0x0 3 251, Huff_decode 0x0 3 252, Huff_decode 0x0 3 253],
   [Huff_decode 0x1 2 211, Huff_decode 0x16 3 211, Huff_decode 0x1 2 212, Huff_decode 0x16 3 212,
    Huff_decode 0x1 2 214, Huff_decode 0x16 3 214, Huff_decode 0x1 2 221, Huff_decode 0x16 3 221,
    Huff_decode 0x1 2 222, Huff_decode 0x16 3 222, Huff_decode 0x1 2 223, Huff_decode 0x16 3 223,
    Huff_decode 0x1 2 241, Huff_decode 0x16 3 241, Huff_decode 0x1 2 244, Huff_decode 0x16 3 244]]"

definition huff_decode_table_30 :: "nghttp2_huff_decode list list" where
  "huff_decode_table_30 = [
   [Huff_decode 0x2 2 211, Huff_decode 0x9 2 211, Huff_decode 0x17 2 211, Huff_decode 0x28 3 211,
    Huff_decode 0x2 2 212, Huff_decode 0x9 2 212, Huff_decode 0x17 2 212, Huff_decode 0x28 3 212,
    Huff_decode 0x2 2 214, Huff_decode 0x9 2 214, Huff_decode 0x17 2 214, Huff_decode 0x28 3 214,
    Huff_decode 0x2 2 221, Huff_decode 0x9 2 221, Huff_decode 0x17 2 221, Huff_decode 0x28 3 221],
   [Huff_decode 0x3 2 211, Huff_decode 0x6 2 211, Huff_decode 0xa 2 211, Huff_decode 0xf 2 211,
    Huff_decode 0x18 2 211, Huff_decode 0x1f 2 211, Huff_decode 0x29 2 211, Huff_decode 0x38 3 211,
    Huff_decode 0x3 2 212, Huff_decode 0x6 2 212, Huff_decode 0xa 2 212, Huff_decode 0xf 2 212,
    Huff_decode 0x18 2 212, Huff_decode 0x1f 2 212, Huff_decode 0x29 2 212, Huff_decode 0x38 3 212],
   [Huff_decode 0x3 2 214, Huff_decode 0x6 2 214, Huff_decode 0xa 2 214, Huff_decode 0xf 2 214,
    Huff_decode 0x18 2 214, Huff_decode 0x1f 2 214, Huff_decode 0x29 2 214, Huff_decode 0x38 3 214,
    Huff_decode 0x3 2 221, Huff_decode 0x6 2 221, Huff_decode 0xa 2 221, Huff_decode 0xf 2 221,
    Huff_decode 0x18 2 221, Huff_decode 0x1f 2 221, Huff_decode 0x29 2 221, Huff_decode 0x38 3 221],
   [Huff_decode 0x2 2 222, Huff_decode 0x9 2 222, Huff_decode 0x17 2 222, Huff_decode 0x28 3 222,
    Huff_decode 0x2 2 223, Huff_decode 0x9 2 223, Huff_decode 0x17 2 223, Huff_decode 0x28 3 223,
    Huff_decode 0x2 2 241, Huff_decode 0x9 2 241, Huff_decode 0x17 2 241, Huff_decode 0x28 3 241,
    Huff_decode 0x2 2 244, Huff_decode 0x9 2 244, Huff_decode 0x17 2 244, Huff_decode 0x28 3 244],
   [Huff_decode 0x3 2 222, Huff_decode 0x6 2 222, Huff_decode 0xa 2 222, Huff_decode 0xf 2 222,
    Huff_decode 0x18 2 222, Huff_decode 0x1f 2 222, Huff_decode 0x29 2 222, Huff_decode 0x38 3 222,
    Huff_decode 0x3 2 223, Huff_decode 0x6 2 223, Huff_decode 0xa 2 223, Huff_decode 0xf 2 223,
    Huff_decode 0x18 2 223, Huff_decode 0x1f 2 223, Huff_decode 0x29 2 223, Huff_decode 0x38 3 223],
   [Huff_decode 0x3 2 241, Huff_decode 0x6 2 241, Huff_decode 0xa 2 241, Huff_decode 0xf 2 241,
    Huff_decode 0x18 2 241, Huff_decode 0x1f 2 241, Huff_decode 0x29 2 241, Huff_decode 0x38 3 241,
    Huff_decode 0x3 2 244, Huff_decode 0x6 2 244, Huff_decode 0xa 2 244, Huff_decode 0xf 2 244,
    Huff_decode 0x18 2 244, Huff_decode 0x1f 2 244, Huff_decode 0x29 2 244, Huff_decode 0x38 3 244],
   [Huff_decode 0x1 2 245, Huff_decode 0x16 3 245, Huff_decode 0x1 2 246, Huff_decode 0x16 3 246,
    Huff_decode 0x1 2 247, Huff_decode 0x16 3 247, Huff_decode 0x1 2 248, Huff_decode 0x16 3 248,
    Huff_decode 0x1 2 250, Huff_decode 0x16 3 250, Huff_decode 0x1 2 251, Huff_decode 0x16 3 251,
    Huff_decode 0x1 2 252, Huff_decode 0x16 3 252, Huff_decode 0x1 2 253, Huff_decode 0x16 3 253]]"

definition huff_decode_table_31 :: "nghttp2_huff_decode list list" where
  "huff_decode_table_31 = [
   [Huff_decode 0x2 2 245, Huff_decode 0x9 2 245, Huff_decode 0x17 2 245, Huff_decode 0x28 3 245,
    Huff_decode 0x2 2 246, Huff_decode 0x9 2 246, Huff_decode 0x17 2 246, Huff_decode 0x28 3 246,
    Huff_decode 0x2 2 247, Huff_decode 0x9 2 247, Huff_decode 0x17 2 247, Huff_decode 0x28 3 247,
    Huff_decode 0x2 2 248, Huff_decode 0x9 2 248, Huff_decode 0x17 2 248, Huff_decode 0x28 3 248],
   [Huff_decode 0x3 2 245, Huff_decode 0x6 2 245, Huff_decode 0xa 2 245, Huff_decode 0xf 2 245,
    Huff_decode 0x18 2 245, Huff_decode 0x1f 2 245, Huff_decode 0x29 2 245, Huff_decode 0x38 3 245,
    Huff_decode 0x3 2 246, Huff_decode 0x6 2 246, Huff_decode 0xa 2 246, Huff_decode 0xf 2 246,
    Huff_decode 0x18 2 246, Huff_decode 0x1f 2 246, Huff_decode 0x29 2 246, Huff_decode 0x38 3 246],
   [Huff_decode 0x3 2 247, Huff_decode 0x6 2 247, Huff_decode 0xa 2 247, Huff_decode 0xf 2 247,
    Huff_decode 0x18 2 247, Huff_decode 0x1f 2 247, Huff_decode 0x29 2 247, Huff_decode 0x38 3 247,
    Huff_decode 0x3 2 248, Huff_decode 0x6 2 248, Huff_decode 0xa 2 248, Huff_decode 0xf 2 248,
    Huff_decode 0x18 2 248, Huff_decode 0x1f 2 248, Huff_decode 0x29 2 248, Huff_decode 0x38 3 248],
   [Huff_decode 0x2 2 250, Huff_decode 0x9 2 250, Huff_decode 0x17 2 250, Huff_decode 0x28 3 250,
    Huff_decode 0x2 2 251, Huff_decode 0x9 2 251, Huff_decode 0x17 2 251, Huff_decode 0x28 3 251,
    Huff_decode 0x2 2 252, Huff_decode 0x9 2 252, Huff_decode 0x17 2 252, Huff_decode 0x28 3 252,
    Huff_decode 0x2 2 253, Huff_decode 0x9 2 253, Huff_decode 0x17 2 253, Huff_decode 0x28 3 253],
   [Huff_decode 0x3 2 250, Huff_decode 0x6 2 250, Huff_decode 0xa 2 250, Huff_decode 0xf 2 250,
    Huff_decode 0x18 2 250, Huff_decode 0x1f 2 250, Huff_decode 0x29 2 250, Huff_decode 0x38 3 250,
    Huff_decode 0x3 2 251, Huff_decode 0x6 2 251, Huff_decode 0xa 2 251, Huff_decode 0xf 2 251,
    Huff_decode 0x18 2 251, Huff_decode 0x1f 2 251, Huff_decode 0x29 2 251, Huff_decode 0x38 3 251],
   [Huff_decode 0x3 2 252, Huff_decode 0x6 2 252, Huff_decode 0xa 2 252, Huff_decode 0xf 2 252,
    Huff_decode 0x18 2 252, Huff_decode 0x1f 2 252, Huff_decode 0x29 2 252, Huff_decode 0x38 3 252,
    Huff_decode 0x3 2 253, Huff_decode 0x6 2 253, Huff_decode 0xa 2 253, Huff_decode 0xf 2 253,
    Huff_decode 0x18 2 253, Huff_decode 0x1f 2 253, Huff_decode 0x29 2 253, Huff_decode 0x38 3 253],
   [Huff_decode 0x0 3 254, Huff_decode 0xe3 0 0, Huff_decode 0xe5 0 0, Huff_decode 0xe6 0 0,
    Huff_decode 0xe9 0 0, Huff_decode 0xea 0 0, Huff_decode 0xec 0 0, Huff_decode 0xed 0 0,
    Huff_decode 0xf1 0 0, Huff_decode 0xf2 0 0, Huff_decode 0xf4 0 0, Huff_decode 0xf5 0 0,
    Huff_decode 0xf8 0 0, Huff_decode 0xf9 0 0, Huff_decode 0xfb 0 0, Huff_decode 0xfc 0 0]]"

definition huff_decode_table_32 :: "nghttp2_huff_decode list list" where
  "huff_decode_table_32 = [
   [Huff_decode 0x1 2 254, Huff_decode 0x16 3 254, Huff_decode 0x0 3 2, Huff_decode 0x0 3 3,
    Huff_decode 0x0 3 4, Huff_decode 0x0 3 5, Huff_decode 0x0 3 6, Huff_decode 0x0 3 7,
    Huff_decode 0x0 3 8, Huff_decode 0x0 3 11, Huff_decode 0x0 3 12, Huff_decode 0x0 3 14,
    Huff_decode 0x0 3 15, Huff_decode 0x0 3 16, Huff_decode 0x0 3 17, Huff_decode 0x0 3 18],
   [Huff_decode 0x2 2 254, Huff_decode 0x9 2 254, Huff_decode 0x17 2 254, Huff_decode 0x28 3 254,
    Huff_decode 0x1 2 2, Huff_decode 0x16 3 2, Huff_decode 0x1 2 3, Huff_decode 0x16 3 3,
    Huff_decode 0x1 2 4, Huff_decode 0x16 3 4, Huff_decode 0x1 2 5, Huff_decode 0x16 3 5,
    Huff_decode 0x1 2 6, Huff_decode 0x16 3 6, Huff_decode 0x1 2 7, Huff_decode 0x16 3 7],
   [Huff_decode 0x3 2 254, Huff_decode 0x6 2 254, Huff_decode 0xa 2 254, Huff_decode 0xf 2 254,
    Huff_decode 0x18 2 254, Huff_decode 0x1f 2 254, Huff_decode 0x29 2 254, Huff_decode 0x38 3 254,
    Huff_decode 0x2 2 2, Huff_decode 0x9 2 2, Huff_decode 0x17 2 2, Huff_decode 0x28 3 2,
    Huff_decode 0x2 2 3, Huff_decode 0x9 2 3, Huff_decode 0x17 2 3, Huff_decode 0x28 3 3],
   [Huff_decode 0x3 2 2, Huff_decode 0x6 2 2, Huff_decode 0xa 2 2, Huff_decode 0xf 2 2,
    Huff_decode 0x18 2 2, Huff_decode 0x1f 2 2, Huff_decode 0x29 2 2, Huff_decode 0x38 3 2,
    Huff_decode 0x3 2 3, Huff_decode 0x6 2 3, Huff_decode 0xa 2 3, Huff_decode 0xf 2 3,
    Huff_decode 0x18 2 3, Huff_decode 0x1f 2 3, Huff_decode 0x29 2 3, Huff_decode 0x38 3 3],
   [Huff_decode 0x2 2 4, Huff_decode 0x9 2 4, Huff_decode 0x17 2 4, Huff_decode 0x28 3 4,
    Huff_decode 0x2 2 5, Huff_decode 0x9 2 5, Huff_decode 0x17 2 5, Huff_decode 0x28 3 5,
    Huff_decode 0x2 2 6, Huff_decode 0x9 2 6, Huff_decode 0x17 2 6, Huff_decode 0x28 3 6,
    Huff_decode 0x2 2 7, Huff_decode 0x9 2 7, Huff_decode 0x17 2 7, Huff_decode 0x28 3 7],
   [Huff_decode 0x3 2 4, Huff_decode 0x6 2 4, Huff_decode 0xa 2 4, Huff_decode 0xf 2 4,
    Huff_decode 0x18 2 4, Huff_decode 0x1f 2 4, Huff_decode 0x29 2 4, Huff_decode 0x38 3 4,
    Huff_decode 0x3 2 5, Huff_decode 0x6 2 5, Huff_decode 0xa 2 5, Huff_decode 0xf 2 5,
    Huff_decode 0x18 2 5, Huff_decode 0x1f 2 5, Huff_decode 0x29 2 5, Huff_decode 0x38 3 5],
   [Huff_decode 0x3 2 6, Huff_decode 0x6 2 6, Huff_decode 0xa 2 6, Huff_decode 0xf 2 6,
    Huff_decode 0x18 2 6, Huff_decode 0x1f 2 6, Huff_decode 0x29 2 6, Huff_decode 0x38 3 6,
    Huff_decode 0x3 2 7, Huff_decode 0x6 2 7, Huff_decode 0xa 2 7, Huff_decode 0xf 2 7,
    Huff_decode 0x18 2 7, Huff_decode 0x1f 2 7, Huff_decode 0x29 2 7, Huff_decode 0x38 3 7]]"

definition huff_decode_table_33 :: "nghttp2_huff_decode list list" where
  "huff_decode_table_33 = [
   [Huff_decode 0x1 2 8, Huff_decode 0x16 3 8, Huff_decode 0x1 2 11, Huff_decode 0x16 3 11,
    Huff_decode 0x1 2 12, Huff_decode 0x16 3 12, Huff_decode 0x1 2 14, Huff_decode 0x16 3 14,
    Huff_decode 0x1 2 15, Huff_decode 0x16 3 15, Huff_decode 0x1 2 16, Huff_decode 0x16 3 16,
    Huff_decode 0x1 2 17, Huff_decode 0x16 3 17, Huff_decode 0x1 2 18, Huff_decode 0x16 3 18],
   [Huff_decode 0x2 2 8, Huff_decode 0x9 2 8, Huff_decode 0x17 2 8, Huff_decode 0x28 3 8,
    Huff_decode 0x2 2 11, Huff_decode 0x9 2 11, Huff_decode 0x17 2 11, Huff_decode 0x28 3 11,
    Huff_decode 0x2 2 12, Huff_decode 0x9 2 12, Huff_decode 0x17 2 12, Huff_decode 0x28 3 12,
    Huff_decode 0x2 2 14, Huff_decode 0x9 2 14, Huff_decode 0x17 2 14, Huff_decode 0x28 3 14],
   [Huff_decode 0x3 2 8, Huff_decode 0x6 2 8, Huff_decode 0xa 2 8, Huff_decode 0xf 2 8,
    Huff_decode 0x18 2 8, Huff_decode 0x1f 2 8, Huff_decode 0x29 2 8, Huff_decode 0x38 3 8,
    Huff_decode 0x3 2 11, Huff_decode 0x6 2 11, Huff_decode 0xa 2 11, Huff_decode 0xf 2 11,
    Huff_decode 0x18 2 11, Huff_decode 0x1f 2 11, Huff_decode 0x29 2 11, Huff_decode 0x38 3 11],
   [Huff_decode 0x3 2 12, Huff_decode 0x6 2 12, Huff_decode 0xa 2 12, Huff_decode 0xf 2 12,
    Huff_decode 0x18 2 12, Huff_decode 0x1f 2 12, Huff_decode 0x29 2 12, Huff_decode 0x38 3 12,
    Huff_decode 0x3 2 14, Huff_decode 0x6 2 14, Huff_decode 0xa 2 14, Huff_decode 0xf 2 14,
    Huff_decode 0x18 2 14, Huff_decode 0x1f 2 14, Huff_decode 0x29 2 14, Huff_decode 0x38 3 14],
   [Huff_decode 0x2 2 15, Huff_decode 0x9 2 15, Huff_decode 0x17 2 15, Huff_decode 0x28 3 15,
    Huff_decode 0x2 2 16, Huff_decode 0x9 2 16, Huff_decode 0x17 2 16, Huff_decode 0x28 3 16,
    Huff_decode 0x2 2 17, Huff_decode 0x9 2 17, Huff_decode 0x17 2 17, Huff_decode 0x28 3 17,
    Huff_decode 0x2 2 18, Huff_decode 0x9 2 18, Huff_decode 0x17 2 18, Huff_decode 0x28 3 18],
   [Huff_decode 0x3 2 15, Huff_decode 0x6 2 15, Huff_decode 0xa 2 15, Huff_decode 0xf 2 15,
    Huff_decode 0x18 2 15, Huff_decode 0x1f 2 15, Huff_decode 0x29 2 15, Huff_decode 0x38 3 15,
    Huff_decode 0x3 2 16, Huff_decode 0x6 2 16, Huff_decode 0xa 2 16, Huff_decode 0xf 2 16,
    Huff_decode 0x18 2 16, Huff_decode 0x1f 2 16, Huff_decode 0x29 2 16, Huff_decode 0x38 3 16],
   [Huff_decode 0x3 2 17, Huff_decode 0x6 2 17, Huff_decode 0xa 2 17, Huff_decode 0xf 2 17,
    Huff_decode 0x18 2 17, Huff_decode 0x1f 2 17, Huff_decode 0x29 2 17, Huff_decode 0x38 3 17,
    Huff_decode 0x3 2 18, Huff_decode 0x6 2 18, Huff_decode 0xa 2 18, Huff_decode 0xf 2 18,
    Huff_decode 0x18 2 18, Huff_decode 0x1f 2 18, Huff_decode 0x29 2 18, Huff_decode 0x38 3 18]]"

definition huff_decode_table_34 :: "nghttp2_huff_decode list list" where
  "huff_decode_table_34 = [
   [Huff_decode 0x0 3 19, Huff_decode 0x0 3 20, Huff_decode 0x0 3 21, Huff_decode 0x0 3 23,
    Huff_decode 0x0 3 24, Huff_decode 0x0 3 25, Huff_decode 0x0 3 26, Huff_decode 0x0 3 27,
    Huff_decode 0x0 3 28, Huff_decode 0x0 3 29, Huff_decode 0x0 3 30, Huff_decode 0x0 3 31,
    Huff_decode 0x0 3 127, Huff_decode 0x0 3 220, Huff_decode 0x0 3 249, Huff_decode 0xfd 0 0],
   [Huff_decode 0x1 2 19, Huff_decode 0x16 3 19, Huff_decode 0x1 2 20, Huff_decode 0x16 3 20,
    Huff_decode 0x1 2 21, Huff_decode 0x16 3 21, Huff_decode 0x1 2 23, Huff_decode 0x16 3 23,
    Huff_decode 0x1 2 24, Huff_decode 0x16 3 24, Huff_decode 0x1 2 25, Huff_decode 0x16 3 25,
    Huff_decode 0x1 2 26, Huff_decode 0x16 3 26, Huff_decode 0x1 2 27, Huff_decode 0x16 3 27],
   [Huff_decode 0x2 2 19, Huff_decode 0x9 2 19, Huff_decode 0x17 2 19, Huff_decode 0x28 3 19,
    Huff_decode 0x2 2 20, Huff_decode 0x9 2 20, Huff_decode 0x17 2 20, Huff_decode 0x28 3 20,
    Huff_decode 0x2 2 21, Huff_decode 0x9 2 21, Huff_decode 0x17 2 21, Huff_decode 0x28 3 21,
    Huff_decode 0x2 2 23, Huff_decode 0x9 2 23, Huff_decode 0x17 2 23, Huff_decode 0x28 3 23],
   [Huff_decode 0x3 2 19, Huff_decode 0x6 2 19, Huff_decode 0xa 2 19, Huff_decode 0xf 2 19,
    Huff_decode 0x18 2 19, Huff_decode 0x1f 2 19, Huff_decode 0x29 2 19, Huff_decode 0x38 3 19,
    Huff_decode 0x3 2 20, Huff_decode 0x6 2 20, Huff_decode 0xa 2 20, Huff_decode 0xf 2 20,
    Huff_decode 0x18 2 20, Huff_decode 0x1f 2 20, Huff_decode 0x29 2 20, Huff_decode 0x38 3 20],
   [Huff_decode 0x3 2 21, Huff_decode 0x6 2 21, Huff_decode 0xa 2 21, Huff_decode 0xf 2 21,
    Huff_decode 0x18 2 21, Huff_decode 0x1f 2 21, Huff_decode 0x29 2 21, Huff_decode 0x38 3 21,
    Huff_decode 0x3 2 23, Huff_decode 0x6 2 23, Huff_decode 0xa 2 23, Huff_decode 0xf 2 23,
    Huff_decode 0x18 2 23, Huff_decode 0x1f 2 23, Huff_decode 0x29 2 23, Huff_decode 0x38 3 23],
   [Huff_decode 0x2 2 24, Huff_decode 0x9 2 24, Huff_decode 0x17 2 24, Huff_decode 0x28 3 24,
    Huff_decode 0x2 2 25, Huff_decode 0x9 2 25, Huff_decode 0x17 2 25, Huff_decode 0x28 3 25,
    Huff_decode 0x2 2 26, Huff_decode 0x9 2 26, Huff_decode 0x17 2 26, Huff_decode 0x28 3 26,
    Huff_decode 0x2 2 27, Huff_decode 0x9 2 27, Huff_decode 0x17 2 27, Huff_decode 0x28 3 27],
   [Huff_decode 0x3 2 24, Huff_decode 0x6 2 24, Huff_decode 0xa 2 24, Huff_decode 0xf 2 24,
    Huff_decode 0x18 2 24, Huff_decode 0x1f 2 24, Huff_decode 0x29 2 24, Huff_decode 0x38 3 24,
    Huff_decode 0x3 2 25, Huff_decode 0x6 2 25, Huff_decode 0xa 2 25, Huff_decode 0xf 2 25,
    Huff_decode 0x18 2 25, Huff_decode 0x1f 2 25, Huff_decode 0x29 2 25, Huff_decode 0x38 3 25]]"

definition huff_decode_table_35 :: "nghttp2_huff_decode list list" where
  "huff_decode_table_35 = [
   [Huff_decode 0x3 2 26, Huff_decode 0x6 2 26, Huff_decode 0xa 2 26, Huff_decode 0xf 2 26,
    Huff_decode 0x18 2 26, Huff_decode 0x1f 2 26, Huff_decode 0x29 2 26, Huff_decode 0x38 3 26,
    Huff_decode 0x3 2 27, Huff_decode 0x6 2 27, Huff_decode 0xa 2 27, Huff_decode 0xf 2 27,
    Huff_decode 0x18 2 27, Huff_decode 0x1f 2 27, Huff_decode 0x29 2 27, Huff_decode 0x38 3 27],
   [Huff_decode 0x1 2 28, Huff_decode 0x16 3 28, Huff_decode 0x1 2 29, Huff_decode 0x16 3 29,
    Huff_decode 0x1 2 30, Huff_decode 0x16 3 30, Huff_decode 0x1 2 31, Huff_decode 0x16 3 31,
    Huff_decode 0x1 2 127, Huff_decode 0x16 3 127, Huff_decode 0x1 2 220, Huff_decode 0x16 3 220,
    Huff_decode 0x1 2 249, Huff_decode 0x16 3 249, Huff_decode 0xfe 0 0, Huff_decode 0xff 0 0],
   [Huff_decode 0x2 2 28, Huff_decode 0x9 2 28, Huff_decode 0x17 2 28, Huff_decode 0x28 3 28,
    Huff_decode 0x2 2 29, Huff_decode 0x9 2 29, Huff_decode 0x17 2 29, Huff_decode 0x28 3 29,
    Huff_decode 0x2 2 30, Huff_decode 0x9 2 30, Huff_decode 0x17 2 30, Huff_decode 0x28 3 30,
    Huff_decode 0x2 2 31, Huff_decode 0x9 2 31, Huff_decode 0x17 2 31, Huff_decode 0x28 3 31],
   [Huff_decode 0x3 2 28, Huff_decode 0x6 2 28, Huff_decode 0xa 2 28, Huff_decode 0xf 2 28,
    Huff_decode 0x18 2 28, Huff_decode 0x1f 2 28, Huff_decode 0x29 2 28, Huff_decode 0x38 3 28,
    Huff_decode 0x3 2 29, Huff_decode 0x6 2 29, Huff_decode 0xa 2 29, Huff_decode 0xf 2 29,
    Huff_decode 0x18 2 29, Huff_decode 0x1f 2 29, Huff_decode 0x29 2 29, Huff_decode 0x38 3 29],
   [Huff_decode 0x3 2 30, Huff_decode 0x6 2 30, Huff_decode 0xa 2 30, Huff_decode 0xf 2 30,
    Huff_decode 0x18 2 30, Huff_decode 0x1f 2 30, Huff_decode 0x29 2 30, Huff_decode 0x38 3 30,
    Huff_decode 0x3 2 31, Huff_decode 0x6 2 31, Huff_decode 0xa 2 31, Huff_decode 0xf 2 31,
    Huff_decode 0x18 2 31, Huff_decode 0x1f 2 31, Huff_decode 0x29 2 31, Huff_decode 0x38 3 31],
   [Huff_decode 0x2 2 127, Huff_decode 0x9 2 127, Huff_decode 0x17 2 127, Huff_decode 0x28 3 127,
    Huff_decode 0x2 2 220, Huff_decode 0x9 2 220, Huff_decode 0x17 2 220, Huff_decode 0x28 3 220,
    Huff_decode 0x2 2 249, Huff_decode 0x9 2 249, Huff_decode 0x17 2 249, Huff_decode 0x28 3 249,
    Huff_decode 0x0 3 10, Huff_decode 0x0 3 13, Huff_decode 0x0 3 22, Huff_decode 0x100 0 0],
   [Huff_decode 0x3 2 127, Huff_decode 0x6 2 127, Huff_decode 0xa 2 127, Huff_decode 0xf 2 127,
    Huff_decode 0x18 2 127, Huff_decode 0x1f 2 127, Huff_decode 0x29 2 127, Huff_decode 0x38 3 127,
    Huff_decode 0x3 2 220, Huff_decode 0x6 2 220, Huff_decode 0xa 2 220, Huff_decode 0xf 2 220,
    Huff_decode 0x18 2 220, Huff_decode 0x1f 2 220, Huff_decode 0x29 2 220, Huff_decode 0x38 3 220]]"

definition huff_decode_table_36 :: "nghttp2_huff_decode list list" where
  "huff_decode_table_36 = [
   [Huff_decode 0x3 2 249, Huff_decode 0x6 2 249, Huff_decode 0xa 2 249, Huff_decode 0xf 2 249,
    Huff_decode 0x18 2 249, Huff_decode 0x1f 2 249, Huff_decode 0x29 2 249, Huff_decode 0x38 3 249,
    Huff_decode 0x1 2 10, Huff_decode 0x16 3 10, Huff_decode 0x1 2 13, Huff_decode 0x16 3 13,
    Huff_decode 0x1 2 22, Huff_decode 0x16 3 22, Huff_decode 0x100 0 0, Huff_decode 0x100 0 0],
   [Huff_decode 0x2 2 10, Huff_decode 0x9 2 10, Huff_decode 0x17 2 10, Huff_decode 0x28 3 10,
    Huff_decode 0x2 2 13, Huff_decode 0x9 2 13, Huff_decode 0x17 2 13, Huff_decode 0x28 3 13,
    Huff_decode 0x2 2 22, Huff_decode 0x9 2 22, Huff_decode 0x17 2 22, Huff_decode 0x28 3 22,
    Huff_decode 0x100 0 0, Huff_decode 0x100 0 0, Huff_decode 0x100 0 0, Huff_decode 0x100 0 0],
   [Huff_decode 0x3 2 10, Huff_decode 0x6 2 10, Huff_decode 0xa 2 10, Huff_decode 0xf 2 10,
    Huff_decode 0x18 2 10, Huff_decode 0x1f 2 10, Huff_decode 0x29 2 10, Huff_decode 0x38 3 10,
    Huff_decode 0x3 2 13, Huff_decode 0x6 2 13, Huff_decode 0xa 2 13, Huff_decode 0xf 2 13,
    Huff_decode 0x18 2 13, Huff_decode 0x1f 2 13, Huff_decode 0x29 2 13, Huff_decode 0x38 3 13],
   [Huff_decode 0x3 2 22, Huff_decode 0x6 2 22, Huff_decode 0xa 2 22, Huff_decode 0xf 2 22,
    Huff_decode 0x18 2 22, Huff_decode 0x1f 2 22, Huff_decode 0x29 2 22, Huff_decode 0x38 3 22,
    Huff_decode 0x100 0 0, Huff_decode 0x100 0 0, Huff_decode 0x100 0 0, Huff_decode 0x100 0 0,
    Huff_decode 0x100 0 0, Huff_decode 0x100 0 0, Huff_decode 0x100 0 0, Huff_decode 0x100 0 0],
   [Huff_decode 0x100 0 0, Huff_decode 0x100 0 0, Huff_decode 0x100 0 0, Huff_decode 0x100 0 0,
    Huff_decode 0x100 0 0, Huff_decode 0x100 0 0, Huff_decode 0x100 0 0, Huff_decode 0x100 0 0,
    Huff_decode 0x100 0 0, Huff_decode 0x100 0 0, Huff_decode 0x100 0 0, Huff_decode 0x100 0 0,
    Huff_decode 0x100 0 0, Huff_decode 0x100 0 0, Huff_decode 0x100 0 0, Huff_decode 0x100 0 0]]"

definition huff_decode_table :: "nghttp2_huff_decode list list" where
  "huff_decode_table =
     huff_decode_table_0 @ huff_decode_table_1 @ huff_decode_table_2 @
     huff_decode_table_3 @ huff_decode_table_4 @ huff_decode_table_5 @
     huff_decode_table_6 @ huff_decode_table_7 @ huff_decode_table_8 @
     huff_decode_table_9 @ huff_decode_table_10 @ huff_decode_table_11 @
     huff_decode_table_12 @ huff_decode_table_13 @ huff_decode_table_14 @
     huff_decode_table_15 @ huff_decode_table_16 @ huff_decode_table_17 @
     huff_decode_table_18 @ huff_decode_table_19 @ huff_decode_table_20 @
     huff_decode_table_21 @ huff_decode_table_22 @ huff_decode_table_23 @
     huff_decode_table_24 @ huff_decode_table_25 @ huff_decode_table_26 @
     huff_decode_table_27 @ huff_decode_table_28 @ huff_decode_table_29 @
     huff_decode_table_30 @ huff_decode_table_31 @ huff_decode_table_32 @
     huff_decode_table_33 @ huff_decode_table_34 @ huff_decode_table_35 @
     huff_decode_table_36"

end
