(* ===== verification/Nghttp2_Huffman_Tree.thy ===== *)
theory Nghttp2_Huffman_Tree
  imports Nghttp2_Huffman_Data
begin

text \<open>
  The code of RFC 7541 as a tree, and the proof that the two tables of the library agree with
  it: the path to the leaf of a symbol is its code in \<open>huff_sym_table\<close>, and row \<open>i\<close> of
  \<open>huff_decode_table\<close> is what walking four bits down from inner node \<open>i\<close> gives. Inner nodes are
  numbered in preorder.
\<close>

datatype htree = Leaf nat | Node nat htree htree

named_theorems huff_defs \<open>definitions of the inner nodes\<close>

section \<open>The tree\<close>

definition hn_255 :: htree where [huff_defs]: "hn_255 = Node 255 (Leaf 22) (Leaf 256)"
definition hn_254 :: htree where [huff_defs]: "hn_254 = Node 254 (Leaf 10) (Leaf 13)"
definition hn_253 :: htree where [huff_defs]: "hn_253 = Node 253 hn_254 hn_255"
definition hn_252 :: htree where [huff_defs]: "hn_252 = Node 252 (Leaf 249) hn_253"
definition hn_251 :: htree where [huff_defs]: "hn_251 = Node 251 (Leaf 127) (Leaf 220)"
definition hn_250 :: htree where [huff_defs]: "hn_250 = Node 250 hn_251 hn_252"
definition hn_249 :: htree where [huff_defs]: "hn_249 = Node 249 (Leaf 30) (Leaf 31)"
definition hn_248 :: htree where [huff_defs]: "hn_248 = Node 248 (Leaf 28) (Leaf 29)"
definition hn_247 :: htree where [huff_defs]: "hn_247 = Node 247 hn_248 hn_249"
definition hn_246 :: htree where [huff_defs]: "hn_246 = Node 246 hn_247 hn_250"
definition hn_245 :: htree where [huff_defs]: "hn_245 = Node 245 (Leaf 26) (Leaf 27)"
definition hn_244 :: htree where [huff_defs]: "hn_244 = Node 244 (Leaf 24) (Leaf 25)"
definition hn_243 :: htree where [huff_defs]: "hn_243 = Node 243 hn_244 hn_245"
definition hn_242 :: htree where [huff_defs]: "hn_242 = Node 242 (Leaf 21) (Leaf 23)"
definition hn_241 :: htree where [huff_defs]: "hn_241 = Node 241 (Leaf 19) (Leaf 20)"
definition hn_240 :: htree where [huff_defs]: "hn_240 = Node 240 hn_241 hn_242"
definition hn_239 :: htree where [huff_defs]: "hn_239 = Node 239 hn_240 hn_243"
definition hn_238 :: htree where [huff_defs]: "hn_238 = Node 238 hn_239 hn_246"
definition hn_237 :: htree where [huff_defs]: "hn_237 = Node 237 (Leaf 17) (Leaf 18)"
definition hn_236 :: htree where [huff_defs]: "hn_236 = Node 236 (Leaf 15) (Leaf 16)"
definition hn_235 :: htree where [huff_defs]: "hn_235 = Node 235 hn_236 hn_237"
definition hn_234 :: htree where [huff_defs]: "hn_234 = Node 234 (Leaf 12) (Leaf 14)"
definition hn_233 :: htree where [huff_defs]: "hn_233 = Node 233 (Leaf 8) (Leaf 11)"
definition hn_232 :: htree where [huff_defs]: "hn_232 = Node 232 hn_233 hn_234"
definition hn_231 :: htree where [huff_defs]: "hn_231 = Node 231 hn_232 hn_235"
definition hn_230 :: htree where [huff_defs]: "hn_230 = Node 230 (Leaf 6) (Leaf 7)"
definition hn_229 :: htree where [huff_defs]: "hn_229 = Node 229 (Leaf 4) (Leaf 5)"
definition hn_228 :: htree where [huff_defs]: "hn_228 = Node 228 hn_229 hn_230"
definition hn_227 :: htree where [huff_defs]: "hn_227 = Node 227 (Leaf 2) (Leaf 3)"
definition hn_226 :: htree where [huff_defs]: "hn_226 = Node 226 (Leaf 254) hn_227"
definition hn_225 :: htree where [huff_defs]: "hn_225 = Node 225 hn_226 hn_228"
definition hn_224 :: htree where [huff_defs]: "hn_224 = Node 224 hn_225 hn_231"
definition hn_223 :: htree where [huff_defs]: "hn_223 = Node 223 hn_224 hn_238"
definition hn_222 :: htree where [huff_defs]: "hn_222 = Node 222 (Leaf 252) (Leaf 253)"
definition hn_221 :: htree where [huff_defs]: "hn_221 = Node 221 (Leaf 250) (Leaf 251)"
definition hn_220 :: htree where [huff_defs]: "hn_220 = Node 220 hn_221 hn_222"
definition hn_219 :: htree where [huff_defs]: "hn_219 = Node 219 (Leaf 247) (Leaf 248)"
definition hn_218 :: htree where [huff_defs]: "hn_218 = Node 218 (Leaf 245) (Leaf 246)"
definition hn_217 :: htree where [huff_defs]: "hn_217 = Node 217 hn_218 hn_219"
definition hn_216 :: htree where [huff_defs]: "hn_216 = Node 216 hn_217 hn_220"
definition hn_215 :: htree where [huff_defs]: "hn_215 = Node 215 (Leaf 241) (Leaf 244)"
definition hn_214 :: htree where [huff_defs]: "hn_214 = Node 214 (Leaf 222) (Leaf 223)"
definition hn_213 :: htree where [huff_defs]: "hn_213 = Node 213 hn_214 hn_215"
definition hn_212 :: htree where [huff_defs]: "hn_212 = Node 212 (Leaf 214) (Leaf 221)"
definition hn_211 :: htree where [huff_defs]: "hn_211 = Node 211 (Leaf 211) (Leaf 212)"
definition hn_210 :: htree where [huff_defs]: "hn_210 = Node 210 hn_211 hn_212"
definition hn_209 :: htree where [huff_defs]: "hn_209 = Node 209 hn_210 hn_213"
definition hn_208 :: htree where [huff_defs]: "hn_208 = Node 208 hn_209 hn_216"
definition hn_207 :: htree where [huff_defs]: "hn_207 = Node 207 hn_208 hn_223"
definition hn_206 :: htree where [huff_defs]: "hn_206 = Node 206 (Leaf 203) (Leaf 204)"
definition hn_205 :: htree where [huff_defs]: "hn_205 = Node 205 (Leaf 255) hn_206"
definition hn_204 :: htree where [huff_defs]: "hn_204 = Node 204 (Leaf 242) (Leaf 243)"
definition hn_203 :: htree where [huff_defs]: "hn_203 = Node 203 hn_204 hn_205"
definition hn_202 :: htree where [huff_defs]: "hn_202 = Node 202 (Leaf 238) (Leaf 240)"
definition hn_201 :: htree where [huff_defs]: "hn_201 = Node 201 (Leaf 218) (Leaf 219)"
definition hn_200 :: htree where [huff_defs]: "hn_200 = Node 200 hn_201 hn_202"
definition hn_199 :: htree where [huff_defs]: "hn_199 = Node 199 hn_200 hn_203"
definition hn_198 :: htree where [huff_defs]: "hn_198 = Node 198 (Leaf 210) (Leaf 213)"
definition hn_197 :: htree where [huff_defs]: "hn_197 = Node 197 (Leaf 202) (Leaf 205)"
definition hn_196 :: htree where [huff_defs]: "hn_196 = Node 196 hn_197 hn_198"
definition hn_195 :: htree where [huff_defs]: "hn_195 = Node 195 (Leaf 200) (Leaf 201)"
definition hn_194 :: htree where [huff_defs]: "hn_194 = Node 194 (Leaf 192) (Leaf 193)"
definition hn_193 :: htree where [huff_defs]: "hn_193 = Node 193 hn_194 hn_195"
definition hn_192 :: htree where [huff_defs]: "hn_192 = Node 192 hn_193 hn_196"
definition hn_191 :: htree where [huff_defs]: "hn_191 = Node 191 hn_192 hn_199"
definition hn_190 :: htree where [huff_defs]: "hn_190 = Node 190 hn_191 hn_207"
definition hn_189 :: htree where [huff_defs]: "hn_189 = Node 189 (Leaf 234) (Leaf 235)"
definition hn_188 :: htree where [huff_defs]: "hn_188 = Node 188 (Leaf 199) (Leaf 207)"
definition hn_187 :: htree where [huff_defs]: "hn_187 = Node 187 hn_188 hn_189"
definition hn_186 :: htree where [huff_defs]: "hn_186 = Node 186 (Leaf 236) (Leaf 237)"
definition hn_185 :: htree where [huff_defs]: "hn_185 = Node 185 hn_186 hn_187"
definition hn_184 :: htree where [huff_defs]: "hn_184 = Node 184 (Leaf 215) (Leaf 225)"
definition hn_183 :: htree where [huff_defs]: "hn_183 = Node 183 (Leaf 171) (Leaf 206)"
definition hn_182 :: htree where [huff_defs]: "hn_182 = Node 182 hn_183 hn_184"
definition hn_181 :: htree where [huff_defs]: "hn_181 = Node 181 hn_182 hn_185"
definition hn_180 :: htree where [huff_defs]: "hn_180 = Node 180 hn_181 hn_190"
definition hn_179 :: htree where [huff_defs]: "hn_179 = Node 179 (Leaf 148) (Leaf 159)"
definition hn_178 :: htree where [huff_defs]: "hn_178 = Node 178 (Leaf 144) (Leaf 145)"
definition hn_177 :: htree where [huff_defs]: "hn_177 = Node 177 hn_178 hn_179"
definition hn_176 :: htree where [huff_defs]: "hn_176 = Node 176 (Leaf 9) (Leaf 142)"
definition hn_175 :: htree where [huff_defs]: "hn_175 = Node 175 (Leaf 239) hn_176"
definition hn_174 :: htree where [huff_defs]: "hn_174 = Node 174 hn_175 hn_177"
definition hn_173 :: htree where [huff_defs]: "hn_173 = Node 173 (Leaf 197) (Leaf 231)"
definition hn_172 :: htree where [huff_defs]: "hn_172 = Node 172 (Leaf 188) (Leaf 191)"
definition hn_171 :: htree where [huff_defs]: "hn_171 = Node 171 hn_172 hn_173"
definition hn_170 :: htree where [huff_defs]: "hn_170 = Node 170 hn_171 hn_174"
definition hn_169 :: htree where [huff_defs]: "hn_169 = Node 169 hn_170 hn_180"
definition hn_168 :: htree where [huff_defs]: "hn_168 = Node 168 (Leaf 182) (Leaf 183)"
definition hn_167 :: htree where [huff_defs]: "hn_167 = Node 167 (Leaf 175) (Leaf 180)"
definition hn_166 :: htree where [huff_defs]: "hn_166 = Node 166 hn_167 hn_168"
definition hn_165 :: htree where [huff_defs]: "hn_165 = Node 165 (Leaf 168) (Leaf 174)"
definition hn_164 :: htree where [huff_defs]: "hn_164 = Node 164 (Leaf 165) (Leaf 166)"
definition hn_163 :: htree where [huff_defs]: "hn_163 = Node 163 hn_164 hn_165"
definition hn_162 :: htree where [huff_defs]: "hn_162 = Node 162 hn_163 hn_166"
definition hn_161 :: htree where [huff_defs]: "hn_161 = Node 161 (Leaf 157) (Leaf 158)"
definition hn_160 :: htree where [huff_defs]: "hn_160 = Node 160 (Leaf 152) (Leaf 155)"
definition hn_159 :: htree where [huff_defs]: "hn_159 = Node 159 hn_160 hn_161"
definition hn_158 :: htree where [huff_defs]: "hn_158 = Node 158 (Leaf 150) (Leaf 151)"
definition hn_157 :: htree where [huff_defs]: "hn_157 = Node 157 (Leaf 147) (Leaf 149)"
definition hn_156 :: htree where [huff_defs]: "hn_156 = Node 156 hn_157 hn_158"
definition hn_155 :: htree where [huff_defs]: "hn_155 = Node 155 hn_156 hn_159"
definition hn_154 :: htree where [huff_defs]: "hn_154 = Node 154 hn_155 hn_162"
definition hn_153 :: htree where [huff_defs]: "hn_153 = Node 153 hn_154 hn_169"
definition hn_152 :: htree where [huff_defs]: "hn_152 = Node 152 (Leaf 141) (Leaf 143)"
definition hn_151 :: htree where [huff_defs]: "hn_151 = Node 151 (Leaf 139) (Leaf 140)"
definition hn_150 :: htree where [huff_defs]: "hn_150 = Node 150 hn_151 hn_152"
definition hn_149 :: htree where [huff_defs]: "hn_149 = Node 149 (Leaf 137) (Leaf 138)"
definition hn_148 :: htree where [huff_defs]: "hn_148 = Node 148 (Leaf 1) (Leaf 135)"
definition hn_147 :: htree where [huff_defs]: "hn_147 = Node 147 hn_148 hn_149"
definition hn_146 :: htree where [huff_defs]: "hn_146 = Node 146 hn_147 hn_150"
definition hn_145 :: htree where [huff_defs]: "hn_145 = Node 145 (Leaf 232) (Leaf 233)"
definition hn_144 :: htree where [huff_defs]: "hn_144 = Node 144 (Leaf 198) (Leaf 228)"
definition hn_143 :: htree where [huff_defs]: "hn_143 = Node 143 hn_144 hn_145"
definition hn_142 :: htree where [huff_defs]: "hn_142 = Node 142 hn_143 hn_146"
definition hn_141 :: htree where [huff_defs]: "hn_141 = Node 141 (Leaf 190) (Leaf 196)"
definition hn_140 :: htree where [huff_defs]: "hn_140 = Node 140 (Leaf 187) (Leaf 189)"
definition hn_139 :: htree where [huff_defs]: "hn_139 = Node 139 hn_140 hn_141"
definition hn_138 :: htree where [huff_defs]: "hn_138 = Node 138 (Leaf 185) (Leaf 186)"
definition hn_137 :: htree where [huff_defs]: "hn_137 = Node 137 (Leaf 178) (Leaf 181)"
definition hn_136 :: htree where [huff_defs]: "hn_136 = Node 136 hn_137 hn_138"
definition hn_135 :: htree where [huff_defs]: "hn_135 = Node 135 hn_136 hn_139"
definition hn_134 :: htree where [huff_defs]: "hn_134 = Node 134 hn_135 hn_142"
definition hn_133 :: htree where [huff_defs]: "hn_133 = Node 133 hn_134 hn_153"
definition hn_132 :: htree where [huff_defs]: "hn_132 = Node 132 (Leaf 170) (Leaf 173)"
definition hn_131 :: htree where [huff_defs]: "hn_131 = Node 131 (Leaf 164) (Leaf 169)"
definition hn_130 :: htree where [huff_defs]: "hn_130 = Node 130 hn_131 hn_132"
definition hn_129 :: htree where [huff_defs]: "hn_129 = Node 129 (Leaf 160) (Leaf 163)"
definition hn_128 :: htree where [huff_defs]: "hn_128 = Node 128 (Leaf 154) (Leaf 156)"
definition hn_127 :: htree where [huff_defs]: "hn_127 = Node 127 hn_128 hn_129"
definition hn_126 :: htree where [huff_defs]: "hn_126 = Node 126 hn_127 hn_130"
definition hn_125 :: htree where [huff_defs]: "hn_125 = Node 125 (Leaf 136) (Leaf 146)"
definition hn_124 :: htree where [huff_defs]: "hn_124 = Node 124 (Leaf 133) (Leaf 134)"
definition hn_123 :: htree where [huff_defs]: "hn_123 = Node 123 hn_124 hn_125"
definition hn_122 :: htree where [huff_defs]: "hn_122 = Node 122 (Leaf 129) (Leaf 132)"
definition hn_121 :: htree where [huff_defs]: "hn_121 = Node 121 (Leaf 230) hn_122"
definition hn_120 :: htree where [huff_defs]: "hn_120 = Node 120 hn_121 hn_123"
definition hn_119 :: htree where [huff_defs]: "hn_119 = Node 119 hn_120 hn_126"
definition hn_118 :: htree where [huff_defs]: "hn_118 = Node 118 (Leaf 227) (Leaf 229)"
definition hn_117 :: htree where [huff_defs]: "hn_117 = Node 117 (Leaf 216) (Leaf 217)"
definition hn_116 :: htree where [huff_defs]: "hn_116 = Node 116 hn_117 hn_118"
definition hn_115 :: htree where [huff_defs]: "hn_115 = Node 115 (Leaf 179) (Leaf 209)"
definition hn_114 :: htree where [huff_defs]: "hn_114 = Node 114 (Leaf 176) (Leaf 177)"
definition hn_113 :: htree where [huff_defs]: "hn_113 = Node 113 hn_114 hn_115"
definition hn_112 :: htree where [huff_defs]: "hn_112 = Node 112 hn_113 hn_116"
definition hn_111 :: htree where [huff_defs]: "hn_111 = Node 111 hn_112 hn_119"
definition hn_110 :: htree where [huff_defs]: "hn_110 = Node 110 hn_111 hn_133"
definition hn_109 :: htree where [huff_defs]: "hn_109 = Node 109 (Leaf 167) (Leaf 172)"
definition hn_108 :: htree where [huff_defs]: "hn_108 = Node 108 (Leaf 153) (Leaf 161)"
definition hn_107 :: htree where [huff_defs]: "hn_107 = Node 107 hn_108 hn_109"
definition hn_106 :: htree where [huff_defs]: "hn_106 = Node 106 (Leaf 224) (Leaf 226)"
definition hn_105 :: htree where [huff_defs]: "hn_105 = Node 105 hn_106 hn_107"
definition hn_104 :: htree where [huff_defs]: "hn_104 = Node 104 (Leaf 184) (Leaf 194)"
definition hn_103 :: htree where [huff_defs]: "hn_103 = Node 103 (Leaf 131) (Leaf 162)"
definition hn_102 :: htree where [huff_defs]: "hn_102 = Node 102 hn_103 hn_104"
definition hn_101 :: htree where [huff_defs]: "hn_101 = Node 101 hn_102 hn_105"
definition hn_100 :: htree where [huff_defs]: "hn_100 = Node 100 (Leaf 128) (Leaf 130)"
definition hn_99 :: htree where [huff_defs]: "hn_99 = Node 99 (Leaf 208) hn_100"
definition hn_98 :: htree where [huff_defs]: "hn_98 = Node 98 (Leaf 92) (Leaf 195)"
definition hn_97 :: htree where [huff_defs]: "hn_97 = Node 97 hn_98 hn_99"
definition hn_96 :: htree where [huff_defs]: "hn_96 = Node 96 hn_97 hn_101"
definition hn_95 :: htree where [huff_defs]: "hn_95 = Node 95 hn_96 hn_110"
definition hn_94 :: htree where [huff_defs]: "hn_94 = Node 94 (Leaf 123) hn_95"
definition hn_93 :: htree where [huff_defs]: "hn_93 = Node 93 (Leaf 60) (Leaf 96)"
definition hn_92 :: htree where [huff_defs]: "hn_92 = Node 92 hn_93 hn_94"
definition hn_91 :: htree where [huff_defs]: "hn_91 = Node 91 (Leaf 94) (Leaf 125)"
definition hn_90 :: htree where [huff_defs]: "hn_90 = Node 90 hn_91 hn_92"
definition hn_89 :: htree where [huff_defs]: "hn_89 = Node 89 (Leaf 93) (Leaf 126)"
definition hn_88 :: htree where [huff_defs]: "hn_88 = Node 88 hn_89 hn_90"
definition hn_87 :: htree where [huff_defs]: "hn_87 = Node 87 (Leaf 64) (Leaf 91)"
definition hn_86 :: htree where [huff_defs]: "hn_86 = Node 86 (Leaf 0) (Leaf 36)"
definition hn_85 :: htree where [huff_defs]: "hn_85 = Node 85 hn_86 hn_87"
definition hn_84 :: htree where [huff_defs]: "hn_84 = Node 84 hn_85 hn_88"
definition hn_83 :: htree where [huff_defs]: "hn_83 = Node 83 (Leaf 35) (Leaf 62)"
definition hn_82 :: htree where [huff_defs]: "hn_82 = Node 82 (Leaf 124) hn_83"
definition hn_81 :: htree where [huff_defs]: "hn_81 = Node 81 hn_82 hn_84"
definition hn_80 :: htree where [huff_defs]: "hn_80 = Node 80 (Leaf 39) (Leaf 43)"
definition hn_79 :: htree where [huff_defs]: "hn_79 = Node 79 (Leaf 63) hn_80"
definition hn_78 :: htree where [huff_defs]: "hn_78 = Node 78 hn_79 hn_81"
definition hn_77 :: htree where [huff_defs]: "hn_77 = Node 77 (Leaf 40) (Leaf 41)"
definition hn_76 :: htree where [huff_defs]: "hn_76 = Node 76 (Leaf 33) (Leaf 34)"
definition hn_75 :: htree where [huff_defs]: "hn_75 = Node 75 hn_76 hn_77"
definition hn_74 :: htree where [huff_defs]: "hn_74 = Node 74 hn_75 hn_78"
definition hn_73 :: htree where [huff_defs]: "hn_73 = Node 73 (Leaf 88) (Leaf 90)"
definition hn_72 :: htree where [huff_defs]: "hn_72 = Node 72 hn_73 hn_74"
definition hn_71 :: htree where [huff_defs]: "hn_71 = Node 71 (Leaf 44) (Leaf 59)"
definition hn_70 :: htree where [huff_defs]: "hn_70 = Node 70 (Leaf 38) (Leaf 42)"
definition hn_69 :: htree where [huff_defs]: "hn_69 = Node 69 hn_70 hn_71"
definition hn_68 :: htree where [huff_defs]: "hn_68 = Node 68 hn_69 hn_72"
definition hn_67 :: htree where [huff_defs]: "hn_67 = Node 67 (Leaf 121) (Leaf 122)"
definition hn_66 :: htree where [huff_defs]: "hn_66 = Node 66 (Leaf 119) (Leaf 120)"
definition hn_65 :: htree where [huff_defs]: "hn_65 = Node 65 hn_66 hn_67"
definition hn_64 :: htree where [huff_defs]: "hn_64 = Node 64 hn_65 hn_68"
definition hn_63 :: htree where [huff_defs]: "hn_63 = Node 63 (Leaf 113) (Leaf 118)"
definition hn_62 :: htree where [huff_defs]: "hn_62 = Node 62 (Leaf 106) (Leaf 107)"
definition hn_61 :: htree where [huff_defs]: "hn_61 = Node 61 hn_62 hn_63"
definition hn_60 :: htree where [huff_defs]: "hn_60 = Node 60 (Leaf 87) (Leaf 89)"
definition hn_59 :: htree where [huff_defs]: "hn_59 = Node 59 (Leaf 85) (Leaf 86)"
definition hn_58 :: htree where [huff_defs]: "hn_58 = Node 58 hn_59 hn_60"
definition hn_57 :: htree where [huff_defs]: "hn_57 = Node 57 hn_58 hn_61"
definition hn_56 :: htree where [huff_defs]: "hn_56 = Node 56 hn_57 hn_64"
definition hn_55 :: htree where [huff_defs]: "hn_55 = Node 55 (Leaf 83) (Leaf 84)"
definition hn_54 :: htree where [huff_defs]: "hn_54 = Node 54 (Leaf 81) (Leaf 82)"
definition hn_53 :: htree where [huff_defs]: "hn_53 = Node 53 hn_54 hn_55"
definition hn_52 :: htree where [huff_defs]: "hn_52 = Node 52 (Leaf 79) (Leaf 80)"
definition hn_51 :: htree where [huff_defs]: "hn_51 = Node 51 (Leaf 77) (Leaf 78)"
definition hn_50 :: htree where [huff_defs]: "hn_50 = Node 50 hn_51 hn_52"
definition hn_49 :: htree where [huff_defs]: "hn_49 = Node 49 hn_50 hn_53"
definition hn_48 :: htree where [huff_defs]: "hn_48 = Node 48 (Leaf 75) (Leaf 76)"
definition hn_47 :: htree where [huff_defs]: "hn_47 = Node 47 (Leaf 73) (Leaf 74)"
definition hn_46 :: htree where [huff_defs]: "hn_46 = Node 46 hn_47 hn_48"
definition hn_45 :: htree where [huff_defs]: "hn_45 = Node 45 (Leaf 71) (Leaf 72)"
definition hn_44 :: htree where [huff_defs]: "hn_44 = Node 44 (Leaf 69) (Leaf 70)"
definition hn_43 :: htree where [huff_defs]: "hn_43 = Node 43 hn_44 hn_45"
definition hn_42 :: htree where [huff_defs]: "hn_42 = Node 42 hn_43 hn_46"
definition hn_41 :: htree where [huff_defs]: "hn_41 = Node 41 hn_42 hn_49"
definition hn_40 :: htree where [huff_defs]: "hn_40 = Node 40 hn_41 hn_56"
definition hn_39 :: htree where [huff_defs]: "hn_39 = Node 39 (Leaf 67) (Leaf 68)"
definition hn_38 :: htree where [huff_defs]: "hn_38 = Node 38 (Leaf 58) (Leaf 66)"
definition hn_37 :: htree where [huff_defs]: "hn_37 = Node 37 hn_38 hn_39"
definition hn_36 :: htree where [huff_defs]: "hn_36 = Node 36 (Leaf 114) (Leaf 117)"
definition hn_35 :: htree where [huff_defs]: "hn_35 = Node 35 hn_36 hn_37"
definition hn_34 :: htree where [huff_defs]: "hn_34 = Node 34 (Leaf 110) (Leaf 112)"
definition hn_33 :: htree where [huff_defs]: "hn_33 = Node 33 (Leaf 108) (Leaf 109)"
definition hn_32 :: htree where [huff_defs]: "hn_32 = Node 32 hn_33 hn_34"
definition hn_31 :: htree where [huff_defs]: "hn_31 = Node 31 hn_32 hn_35"
definition hn_30 :: htree where [huff_defs]: "hn_30 = Node 30 (Leaf 103) (Leaf 104)"
definition hn_29 :: htree where [huff_defs]: "hn_29 = Node 29 (Leaf 100) (Leaf 102)"
definition hn_28 :: htree where [huff_defs]: "hn_28 = Node 28 hn_29 hn_30"
definition hn_27 :: htree where [huff_defs]: "hn_27 = Node 27 (Leaf 95) (Leaf 98)"
definition hn_26 :: htree where [huff_defs]: "hn_26 = Node 26 (Leaf 61) (Leaf 65)"
definition hn_25 :: htree where [huff_defs]: "hn_25 = Node 25 hn_26 hn_27"
definition hn_24 :: htree where [huff_defs]: "hn_24 = Node 24 hn_25 hn_28"
definition hn_23 :: htree where [huff_defs]: "hn_23 = Node 23 hn_24 hn_31"
definition hn_22 :: htree where [huff_defs]: "hn_22 = Node 22 hn_23 hn_40"
definition hn_21 :: htree where [huff_defs]: "hn_21 = Node 21 (Leaf 56) (Leaf 57)"
definition hn_20 :: htree where [huff_defs]: "hn_20 = Node 20 (Leaf 54) (Leaf 55)"
definition hn_19 :: htree where [huff_defs]: "hn_19 = Node 19 hn_20 hn_21"
definition hn_18 :: htree where [huff_defs]: "hn_18 = Node 18 (Leaf 52) (Leaf 53)"
definition hn_17 :: htree where [huff_defs]: "hn_17 = Node 17 (Leaf 47) (Leaf 51)"
definition hn_16 :: htree where [huff_defs]: "hn_16 = Node 16 hn_17 hn_18"
definition hn_15 :: htree where [huff_defs]: "hn_15 = Node 15 hn_16 hn_19"
definition hn_14 :: htree where [huff_defs]: "hn_14 = Node 14 (Leaf 45) (Leaf 46)"
definition hn_13 :: htree where [huff_defs]: "hn_13 = Node 13 (Leaf 32) (Leaf 37)"
definition hn_12 :: htree where [huff_defs]: "hn_12 = Node 12 hn_13 hn_14"
definition hn_11 :: htree where [huff_defs]: "hn_11 = Node 11 (Leaf 115) (Leaf 116)"
definition hn_10 :: htree where [huff_defs]: "hn_10 = Node 10 hn_11 hn_12"
definition hn_9 :: htree where [huff_defs]: "hn_9 = Node 9 hn_10 hn_15"
definition hn_8 :: htree where [huff_defs]: "hn_8 = Node 8 (Leaf 105) (Leaf 111)"
definition hn_7 :: htree where [huff_defs]: "hn_7 = Node 7 (Leaf 99) (Leaf 101)"
definition hn_6 :: htree where [huff_defs]: "hn_6 = Node 6 hn_7 hn_8"
definition hn_5 :: htree where [huff_defs]: "hn_5 = Node 5 (Leaf 50) (Leaf 97)"
definition hn_4 :: htree where [huff_defs]: "hn_4 = Node 4 (Leaf 48) (Leaf 49)"
definition hn_3 :: htree where [huff_defs]: "hn_3 = Node 3 hn_4 hn_5"
definition hn_2 :: htree where [huff_defs]: "hn_2 = Node 2 hn_3 hn_6"
definition hn_1 :: htree where [huff_defs]: "hn_1 = Node 1 hn_2 hn_9"
definition hn_0 :: htree where [huff_defs]: "hn_0 = Node 0 hn_1 hn_22"

definition huff_tree :: htree where "huff_tree = hn_0"

fun node_id :: "htree \<Rightarrow> nat" where
  "node_id (Node i l r) = i"
| "node_id (Leaf s) = 0"

section \<open>Walking four bits\<close>

text \<open>
  A node on the path of at most seven ones from the root: the input may end there, because the
  rest of the last byte is padding.
\<close>

definition accepting :: "nat \<Rightarrow> bool" where
  "accepting i \<longleftrightarrow> i \<in> {0, 22, 40, 56, 64, 68, 72, 74}"

fun entry_of :: "htree \<Rightarrow> nat option \<Rightarrow> nghttp2_huff_decode" where
  "entry_of t None = Huff_decode (word_of_nat (node_id t)) (if accepting (node_id t) then 1 else 0) 0"
| "entry_of t (Some s) =
     Huff_decode (word_of_nat (node_id t)) (if accepting (node_id t) then 3 else 2) (word_of_nat s)"

definition failure_entry :: nghttp2_huff_decode where
  "failure_entry = Huff_decode 0x100 0 0"

text \<open>
  One step: a leaf emits its symbol and continues at the root; the end-of-string symbol is an
  error.
\<close>

fun hop :: "htree \<Rightarrow> nat option \<Rightarrow> (htree \<times> nat option) option" where
  "hop (Leaf s) e = (if s = 256 then None else Some (huff_tree, Some s))"
| "hop (Node i l r) e = Some (Node i l r, e)"

fun hchild :: "bool \<Rightarrow> htree \<Rightarrow> htree" where
  "hchild b (Node i l r) = (if b then r else l)"
| "hchild b (Leaf s) = Leaf s"

text \<open>Following a path down from a node.\<close>

fun follow :: "htree \<Rightarrow> bool list \<Rightarrow> htree option" where
  "follow t [] = Some t"
| "follow (Node i l r) (b # bs) = follow (if b then r else l) bs"
| "follow (Leaf s) (b # bs) = None"

text \<open>The bits of a word and the code of a symbol, most significant bit first.\<close>

definition word_bits :: "'a :: len word \<Rightarrow> bool list" where
  "word_bits w = map (\<lambda>i. bit w (LENGTH('a) - 1 - i)) [0..<LENGTH('a)]"

definition code_bits :: "nghttp2_huff_sym \<Rightarrow> bool list" where
  "code_bits e = take (hnbits e) (word_bits (hcode e))"

lemma upt_zero: "[0..<numeral n] = 0 # (if (1 :: nat) < numeral n then 1 # [2..<numeral n] else [])"
  by (simp add: upt_conv_Cons numeral_2_eq_2)

lemma word_bits_32:
  "word_bits (w :: u32) =
     [bit w 31, bit w 30, bit w 29, bit w 28, bit w 27, bit w 26, bit w 25, bit w 24,
      bit w 23, bit w 22, bit w 21, bit w 20, bit w 19, bit w 18, bit w 17, bit w 16,
      bit w 15, bit w 14, bit w 13, bit w 12, bit w 11, bit w 10, bit w 9, bit w 8,
      bit w 7, bit w 6, bit w 5, bit w 4, bit w 3, bit w 2, bit w 1, bit w 0]"
  by (simp add: word_bits_def upt_zero)

text \<open>The entries for all strings of \<open>n\<close> bits, in order.\<close>

fun row_of :: "nat \<Rightarrow> (htree \<times> nat option) option \<Rightarrow> nghttp2_huff_decode list" where
  "row_of 0 None = [failure_entry]"
| "row_of (Suc n) None = row_of n None @ row_of n None"
| "row_of 0 (Some (t, e)) = [entry_of t e]"
| "row_of (Suc n) (Some (t, e)) = row_of n (hop (hchild False t) e) @ row_of n (hop (hchild True t) e)"

definition row4 :: "htree \<Rightarrow> nghttp2_huff_decode list" where
  "row4 t = row_of (Suc (Suc (Suc (Suc 0)))) (Some (t, None))"

lemma row_of_Node:
  "row_of 0 (Some (Node i l r, e)) = [entry_of (Node i l r) e]"
  "row_of (Suc n) (Some (Node i l r, e)) = row_of n (hop l e) @ row_of n (hop r e)"
  by simp_all

declare row_of.simps(3,4) [simp del]

definition huff_nodes_0 :: "htree list" where
  "huff_nodes_0 = [hn_0, hn_1, hn_2, hn_3, hn_4, hn_5, hn_6]"
definition huff_nodes_1 :: "htree list" where
  "huff_nodes_1 = [hn_7, hn_8, hn_9, hn_10, hn_11, hn_12, hn_13]"
definition huff_nodes_2 :: "htree list" where
  "huff_nodes_2 = [hn_14, hn_15, hn_16, hn_17, hn_18, hn_19, hn_20]"
definition huff_nodes_3 :: "htree list" where
  "huff_nodes_3 = [hn_21, hn_22, hn_23, hn_24, hn_25, hn_26, hn_27]"
definition huff_nodes_4 :: "htree list" where
  "huff_nodes_4 = [hn_28, hn_29, hn_30, hn_31, hn_32, hn_33, hn_34]"
definition huff_nodes_5 :: "htree list" where
  "huff_nodes_5 = [hn_35, hn_36, hn_37, hn_38, hn_39, hn_40, hn_41]"
definition huff_nodes_6 :: "htree list" where
  "huff_nodes_6 = [hn_42, hn_43, hn_44, hn_45, hn_46, hn_47, hn_48]"
definition huff_nodes_7 :: "htree list" where
  "huff_nodes_7 = [hn_49, hn_50, hn_51, hn_52, hn_53, hn_54, hn_55]"
definition huff_nodes_8 :: "htree list" where
  "huff_nodes_8 = [hn_56, hn_57, hn_58, hn_59, hn_60, hn_61, hn_62]"
definition huff_nodes_9 :: "htree list" where
  "huff_nodes_9 = [hn_63, hn_64, hn_65, hn_66, hn_67, hn_68, hn_69]"
definition huff_nodes_10 :: "htree list" where
  "huff_nodes_10 = [hn_70, hn_71, hn_72, hn_73, hn_74, hn_75, hn_76]"
definition huff_nodes_11 :: "htree list" where
  "huff_nodes_11 = [hn_77, hn_78, hn_79, hn_80, hn_81, hn_82, hn_83]"
definition huff_nodes_12 :: "htree list" where
  "huff_nodes_12 = [hn_84, hn_85, hn_86, hn_87, hn_88, hn_89, hn_90]"
definition huff_nodes_13 :: "htree list" where
  "huff_nodes_13 = [hn_91, hn_92, hn_93, hn_94, hn_95, hn_96, hn_97]"
definition huff_nodes_14 :: "htree list" where
  "huff_nodes_14 = [hn_98, hn_99, hn_100, hn_101, hn_102, hn_103, hn_104]"
definition huff_nodes_15 :: "htree list" where
  "huff_nodes_15 = [hn_105, hn_106, hn_107, hn_108, hn_109, hn_110, hn_111]"
definition huff_nodes_16 :: "htree list" where
  "huff_nodes_16 = [hn_112, hn_113, hn_114, hn_115, hn_116, hn_117, hn_118]"
definition huff_nodes_17 :: "htree list" where
  "huff_nodes_17 = [hn_119, hn_120, hn_121, hn_122, hn_123, hn_124, hn_125]"
definition huff_nodes_18 :: "htree list" where
  "huff_nodes_18 = [hn_126, hn_127, hn_128, hn_129, hn_130, hn_131, hn_132]"
definition huff_nodes_19 :: "htree list" where
  "huff_nodes_19 = [hn_133, hn_134, hn_135, hn_136, hn_137, hn_138, hn_139]"
definition huff_nodes_20 :: "htree list" where
  "huff_nodes_20 = [hn_140, hn_141, hn_142, hn_143, hn_144, hn_145, hn_146]"
definition huff_nodes_21 :: "htree list" where
  "huff_nodes_21 = [hn_147, hn_148, hn_149, hn_150, hn_151, hn_152, hn_153]"
definition huff_nodes_22 :: "htree list" where
  "huff_nodes_22 = [hn_154, hn_155, hn_156, hn_157, hn_158, hn_159, hn_160]"
definition huff_nodes_23 :: "htree list" where
  "huff_nodes_23 = [hn_161, hn_162, hn_163, hn_164, hn_165, hn_166, hn_167]"
definition huff_nodes_24 :: "htree list" where
  "huff_nodes_24 = [hn_168, hn_169, hn_170, hn_171, hn_172, hn_173, hn_174]"
definition huff_nodes_25 :: "htree list" where
  "huff_nodes_25 = [hn_175, hn_176, hn_177, hn_178, hn_179, hn_180, hn_181]"
definition huff_nodes_26 :: "htree list" where
  "huff_nodes_26 = [hn_182, hn_183, hn_184, hn_185, hn_186, hn_187, hn_188]"
definition huff_nodes_27 :: "htree list" where
  "huff_nodes_27 = [hn_189, hn_190, hn_191, hn_192, hn_193, hn_194, hn_195]"
definition huff_nodes_28 :: "htree list" where
  "huff_nodes_28 = [hn_196, hn_197, hn_198, hn_199, hn_200, hn_201, hn_202]"
definition huff_nodes_29 :: "htree list" where
  "huff_nodes_29 = [hn_203, hn_204, hn_205, hn_206, hn_207, hn_208, hn_209]"
definition huff_nodes_30 :: "htree list" where
  "huff_nodes_30 = [hn_210, hn_211, hn_212, hn_213, hn_214, hn_215, hn_216]"
definition huff_nodes_31 :: "htree list" where
  "huff_nodes_31 = [hn_217, hn_218, hn_219, hn_220, hn_221, hn_222, hn_223]"
definition huff_nodes_32 :: "htree list" where
  "huff_nodes_32 = [hn_224, hn_225, hn_226, hn_227, hn_228, hn_229, hn_230]"
definition huff_nodes_33 :: "htree list" where
  "huff_nodes_33 = [hn_231, hn_232, hn_233, hn_234, hn_235, hn_236, hn_237]"
definition huff_nodes_34 :: "htree list" where
  "huff_nodes_34 = [hn_238, hn_239, hn_240, hn_241, hn_242, hn_243, hn_244]"
definition huff_nodes_35 :: "htree list" where
  "huff_nodes_35 = [hn_245, hn_246, hn_247, hn_248, hn_249, hn_250, hn_251]"
definition huff_nodes_36 :: "htree list" where
  "huff_nodes_36 = [hn_252, hn_253, hn_254, hn_255]"

definition huff_nodes :: "htree list" where
  "huff_nodes =
     huff_nodes_0 @ huff_nodes_1 @ huff_nodes_2 @ huff_nodes_3 @
     huff_nodes_4 @ huff_nodes_5 @ huff_nodes_6 @ huff_nodes_7 @
     huff_nodes_8 @ huff_nodes_9 @ huff_nodes_10 @ huff_nodes_11 @
     huff_nodes_12 @ huff_nodes_13 @ huff_nodes_14 @ huff_nodes_15 @
     huff_nodes_16 @ huff_nodes_17 @ huff_nodes_18 @ huff_nodes_19 @
     huff_nodes_20 @ huff_nodes_21 @ huff_nodes_22 @ huff_nodes_23 @
     huff_nodes_24 @ huff_nodes_25 @ huff_nodes_26 @ huff_nodes_27 @
     huff_nodes_28 @ huff_nodes_29 @ huff_nodes_30 @ huff_nodes_31 @
     huff_nodes_32 @ huff_nodes_33 @ huff_nodes_34 @ huff_nodes_35 @
     huff_nodes_36"

lemma root_rows:
  "row_of (0) (Some (huff_tree, Some s)) =
     [Huff_decode 0 3 (word_of_nat s)]"
  "row_of (Suc (0)) (Some (huff_tree, Some s)) =
     [Huff_decode 1 2 (word_of_nat s), Huff_decode 22 3 (word_of_nat s)]"
  "row_of (Suc (Suc (0))) (Some (huff_tree, Some s)) =
     [Huff_decode 2 2 (word_of_nat s), Huff_decode 9 2 (word_of_nat s),
      Huff_decode 23 2 (word_of_nat s), Huff_decode 40 3 (word_of_nat s)]"
  "row_of (Suc (Suc (Suc (0)))) (Some (huff_tree, Some s)) =
     [Huff_decode 3 2 (word_of_nat s), Huff_decode 6 2 (word_of_nat s),
      Huff_decode 10 2 (word_of_nat s), Huff_decode 15 2 (word_of_nat s),
      Huff_decode 24 2 (word_of_nat s), Huff_decode 31 2 (word_of_nat s),
      Huff_decode 41 2 (word_of_nat s), Huff_decode 56 3 (word_of_nat s)]"
  by (simp_all add: huff_tree_def huff_defs accepting_def row_of_Node)

lemmas row_eval = huff_defs row_of_Node row4_def root_rows accepting_def failure_entry_def

lemma huff_rows_0: "map row4 huff_nodes_0 = huff_decode_table_0"
  by (simp add: row_eval huff_nodes_0_def huff_decode_table_0_def)

lemma huff_rows_1: "map row4 huff_nodes_1 = huff_decode_table_1"
  by (simp add: row_eval huff_nodes_1_def huff_decode_table_1_def)

lemma huff_rows_2: "map row4 huff_nodes_2 = huff_decode_table_2"
  by (simp add: row_eval huff_nodes_2_def huff_decode_table_2_def)

lemma huff_rows_3: "map row4 huff_nodes_3 = huff_decode_table_3"
  by (simp add: row_eval huff_nodes_3_def huff_decode_table_3_def)

lemma huff_rows_4: "map row4 huff_nodes_4 = huff_decode_table_4"
  by (simp add: row_eval huff_nodes_4_def huff_decode_table_4_def)

lemma huff_rows_5: "map row4 huff_nodes_5 = huff_decode_table_5"
  by (simp add: row_eval huff_nodes_5_def huff_decode_table_5_def)

lemma huff_rows_6: "map row4 huff_nodes_6 = huff_decode_table_6"
  by (simp add: row_eval huff_nodes_6_def huff_decode_table_6_def)

lemma huff_rows_7: "map row4 huff_nodes_7 = huff_decode_table_7"
  by (simp add: row_eval huff_nodes_7_def huff_decode_table_7_def)

lemma huff_rows_8: "map row4 huff_nodes_8 = huff_decode_table_8"
  by (simp add: row_eval huff_nodes_8_def huff_decode_table_8_def)

lemma huff_rows_9: "map row4 huff_nodes_9 = huff_decode_table_9"
  by (simp add: row_eval huff_nodes_9_def huff_decode_table_9_def)

lemma huff_rows_10: "map row4 huff_nodes_10 = huff_decode_table_10"
  by (simp add: row_eval huff_nodes_10_def huff_decode_table_10_def)

lemma huff_rows_11: "map row4 huff_nodes_11 = huff_decode_table_11"
  by (simp add: row_eval huff_nodes_11_def huff_decode_table_11_def)

lemma huff_rows_12: "map row4 huff_nodes_12 = huff_decode_table_12"
  by (simp add: row_eval huff_nodes_12_def huff_decode_table_12_def)

lemma huff_rows_13: "map row4 huff_nodes_13 = huff_decode_table_13"
  by (simp add: row_eval huff_nodes_13_def huff_decode_table_13_def)

lemma huff_rows_14: "map row4 huff_nodes_14 = huff_decode_table_14"
  by (simp add: row_eval huff_nodes_14_def huff_decode_table_14_def)

lemma huff_rows_15: "map row4 huff_nodes_15 = huff_decode_table_15"
  by (simp add: row_eval huff_nodes_15_def huff_decode_table_15_def)

lemma huff_rows_16: "map row4 huff_nodes_16 = huff_decode_table_16"
  by (simp add: row_eval huff_nodes_16_def huff_decode_table_16_def)

lemma huff_rows_17: "map row4 huff_nodes_17 = huff_decode_table_17"
  by (simp add: row_eval huff_nodes_17_def huff_decode_table_17_def)

lemma huff_rows_18: "map row4 huff_nodes_18 = huff_decode_table_18"
  by (simp add: row_eval huff_nodes_18_def huff_decode_table_18_def)

lemma huff_rows_19: "map row4 huff_nodes_19 = huff_decode_table_19"
  by (simp add: row_eval huff_nodes_19_def huff_decode_table_19_def)

lemma huff_rows_20: "map row4 huff_nodes_20 = huff_decode_table_20"
  by (simp add: row_eval huff_nodes_20_def huff_decode_table_20_def)

lemma huff_rows_21: "map row4 huff_nodes_21 = huff_decode_table_21"
  by (simp add: row_eval huff_nodes_21_def huff_decode_table_21_def)

lemma huff_rows_22: "map row4 huff_nodes_22 = huff_decode_table_22"
  by (simp add: row_eval huff_nodes_22_def huff_decode_table_22_def)

lemma huff_rows_23: "map row4 huff_nodes_23 = huff_decode_table_23"
  by (simp add: row_eval huff_nodes_23_def huff_decode_table_23_def)

lemma huff_rows_24: "map row4 huff_nodes_24 = huff_decode_table_24"
  by (simp add: row_eval huff_nodes_24_def huff_decode_table_24_def)

lemma huff_rows_25: "map row4 huff_nodes_25 = huff_decode_table_25"
  by (simp add: row_eval huff_nodes_25_def huff_decode_table_25_def)

lemma huff_rows_26: "map row4 huff_nodes_26 = huff_decode_table_26"
  by (simp add: row_eval huff_nodes_26_def huff_decode_table_26_def)

lemma huff_rows_27: "map row4 huff_nodes_27 = huff_decode_table_27"
  by (simp add: row_eval huff_nodes_27_def huff_decode_table_27_def)

lemma huff_rows_28: "map row4 huff_nodes_28 = huff_decode_table_28"
  by (simp add: row_eval huff_nodes_28_def huff_decode_table_28_def)

lemma huff_rows_29: "map row4 huff_nodes_29 = huff_decode_table_29"
  by (simp add: row_eval huff_nodes_29_def huff_decode_table_29_def)

lemma huff_rows_30: "map row4 huff_nodes_30 = huff_decode_table_30"
  by (simp add: row_eval huff_nodes_30_def huff_decode_table_30_def)

lemma huff_rows_31: "map row4 huff_nodes_31 = huff_decode_table_31"
  by (simp add: row_eval huff_nodes_31_def huff_decode_table_31_def)

lemma huff_rows_32: "map row4 huff_nodes_32 = huff_decode_table_32"
  by (simp add: row_eval huff_nodes_32_def huff_decode_table_32_def)

lemma huff_rows_33: "map row4 huff_nodes_33 = huff_decode_table_33"
  by (simp add: row_eval huff_nodes_33_def huff_decode_table_33_def)

lemma huff_rows_34: "map row4 huff_nodes_34 = huff_decode_table_34"
  by (simp add: row_eval huff_nodes_34_def huff_decode_table_34_def)

lemma huff_rows_35: "map row4 huff_nodes_35 = huff_decode_table_35"
  by (simp add: row_eval huff_nodes_35_def huff_decode_table_35_def)

lemma huff_rows_36: "map row4 huff_nodes_36 = butlast huff_decode_table_36"
  by (simp add: row_eval huff_nodes_36_def huff_decode_table_36_def)
named_theorems huff_in \<open>the nodes of the list\<close>

named_theorems huff_child \<open>the children of the nodes\<close>

text \<open>Membership and children of the nodes, seven at a time.\<close>

lemma huff_in_0 [huff_in]:
  "hn_0 \<in> set huff_nodes"
  "hn_1 \<in> set huff_nodes"
  "hn_2 \<in> set huff_nodes"
  "hn_3 \<in> set huff_nodes"
  "hn_4 \<in> set huff_nodes"
  "hn_5 \<in> set huff_nodes"
  "hn_6 \<in> set huff_nodes"
  by (simp_all add: huff_nodes_def huff_nodes_0_def)

lemma huff_in_1 [huff_in]:
  "hn_7 \<in> set huff_nodes"
  "hn_8 \<in> set huff_nodes"
  "hn_9 \<in> set huff_nodes"
  "hn_10 \<in> set huff_nodes"
  "hn_11 \<in> set huff_nodes"
  "hn_12 \<in> set huff_nodes"
  "hn_13 \<in> set huff_nodes"
  by (simp_all add: huff_nodes_def huff_nodes_1_def)

lemma huff_in_2 [huff_in]:
  "hn_14 \<in> set huff_nodes"
  "hn_15 \<in> set huff_nodes"
  "hn_16 \<in> set huff_nodes"
  "hn_17 \<in> set huff_nodes"
  "hn_18 \<in> set huff_nodes"
  "hn_19 \<in> set huff_nodes"
  "hn_20 \<in> set huff_nodes"
  by (simp_all add: huff_nodes_def huff_nodes_2_def)

lemma huff_in_3 [huff_in]:
  "hn_21 \<in> set huff_nodes"
  "hn_22 \<in> set huff_nodes"
  "hn_23 \<in> set huff_nodes"
  "hn_24 \<in> set huff_nodes"
  "hn_25 \<in> set huff_nodes"
  "hn_26 \<in> set huff_nodes"
  "hn_27 \<in> set huff_nodes"
  by (simp_all add: huff_nodes_def huff_nodes_3_def)

lemma huff_in_4 [huff_in]:
  "hn_28 \<in> set huff_nodes"
  "hn_29 \<in> set huff_nodes"
  "hn_30 \<in> set huff_nodes"
  "hn_31 \<in> set huff_nodes"
  "hn_32 \<in> set huff_nodes"
  "hn_33 \<in> set huff_nodes"
  "hn_34 \<in> set huff_nodes"
  by (simp_all add: huff_nodes_def huff_nodes_4_def)

lemma huff_in_5 [huff_in]:
  "hn_35 \<in> set huff_nodes"
  "hn_36 \<in> set huff_nodes"
  "hn_37 \<in> set huff_nodes"
  "hn_38 \<in> set huff_nodes"
  "hn_39 \<in> set huff_nodes"
  "hn_40 \<in> set huff_nodes"
  "hn_41 \<in> set huff_nodes"
  by (simp_all add: huff_nodes_def huff_nodes_5_def)

lemma huff_in_6 [huff_in]:
  "hn_42 \<in> set huff_nodes"
  "hn_43 \<in> set huff_nodes"
  "hn_44 \<in> set huff_nodes"
  "hn_45 \<in> set huff_nodes"
  "hn_46 \<in> set huff_nodes"
  "hn_47 \<in> set huff_nodes"
  "hn_48 \<in> set huff_nodes"
  by (simp_all add: huff_nodes_def huff_nodes_6_def)

lemma huff_in_7 [huff_in]:
  "hn_49 \<in> set huff_nodes"
  "hn_50 \<in> set huff_nodes"
  "hn_51 \<in> set huff_nodes"
  "hn_52 \<in> set huff_nodes"
  "hn_53 \<in> set huff_nodes"
  "hn_54 \<in> set huff_nodes"
  "hn_55 \<in> set huff_nodes"
  by (simp_all add: huff_nodes_def huff_nodes_7_def)

lemma huff_in_8 [huff_in]:
  "hn_56 \<in> set huff_nodes"
  "hn_57 \<in> set huff_nodes"
  "hn_58 \<in> set huff_nodes"
  "hn_59 \<in> set huff_nodes"
  "hn_60 \<in> set huff_nodes"
  "hn_61 \<in> set huff_nodes"
  "hn_62 \<in> set huff_nodes"
  by (simp_all add: huff_nodes_def huff_nodes_8_def)

lemma huff_in_9 [huff_in]:
  "hn_63 \<in> set huff_nodes"
  "hn_64 \<in> set huff_nodes"
  "hn_65 \<in> set huff_nodes"
  "hn_66 \<in> set huff_nodes"
  "hn_67 \<in> set huff_nodes"
  "hn_68 \<in> set huff_nodes"
  "hn_69 \<in> set huff_nodes"
  by (simp_all add: huff_nodes_def huff_nodes_9_def)

lemma huff_in_10 [huff_in]:
  "hn_70 \<in> set huff_nodes"
  "hn_71 \<in> set huff_nodes"
  "hn_72 \<in> set huff_nodes"
  "hn_73 \<in> set huff_nodes"
  "hn_74 \<in> set huff_nodes"
  "hn_75 \<in> set huff_nodes"
  "hn_76 \<in> set huff_nodes"
  by (simp_all add: huff_nodes_def huff_nodes_10_def)

lemma huff_in_11 [huff_in]:
  "hn_77 \<in> set huff_nodes"
  "hn_78 \<in> set huff_nodes"
  "hn_79 \<in> set huff_nodes"
  "hn_80 \<in> set huff_nodes"
  "hn_81 \<in> set huff_nodes"
  "hn_82 \<in> set huff_nodes"
  "hn_83 \<in> set huff_nodes"
  by (simp_all add: huff_nodes_def huff_nodes_11_def)

lemma huff_in_12 [huff_in]:
  "hn_84 \<in> set huff_nodes"
  "hn_85 \<in> set huff_nodes"
  "hn_86 \<in> set huff_nodes"
  "hn_87 \<in> set huff_nodes"
  "hn_88 \<in> set huff_nodes"
  "hn_89 \<in> set huff_nodes"
  "hn_90 \<in> set huff_nodes"
  by (simp_all add: huff_nodes_def huff_nodes_12_def)

lemma huff_in_13 [huff_in]:
  "hn_91 \<in> set huff_nodes"
  "hn_92 \<in> set huff_nodes"
  "hn_93 \<in> set huff_nodes"
  "hn_94 \<in> set huff_nodes"
  "hn_95 \<in> set huff_nodes"
  "hn_96 \<in> set huff_nodes"
  "hn_97 \<in> set huff_nodes"
  by (simp_all add: huff_nodes_def huff_nodes_13_def)

lemma huff_in_14 [huff_in]:
  "hn_98 \<in> set huff_nodes"
  "hn_99 \<in> set huff_nodes"
  "hn_100 \<in> set huff_nodes"
  "hn_101 \<in> set huff_nodes"
  "hn_102 \<in> set huff_nodes"
  "hn_103 \<in> set huff_nodes"
  "hn_104 \<in> set huff_nodes"
  by (simp_all add: huff_nodes_def huff_nodes_14_def)

lemma huff_in_15 [huff_in]:
  "hn_105 \<in> set huff_nodes"
  "hn_106 \<in> set huff_nodes"
  "hn_107 \<in> set huff_nodes"
  "hn_108 \<in> set huff_nodes"
  "hn_109 \<in> set huff_nodes"
  "hn_110 \<in> set huff_nodes"
  "hn_111 \<in> set huff_nodes"
  by (simp_all add: huff_nodes_def huff_nodes_15_def)

lemma huff_in_16 [huff_in]:
  "hn_112 \<in> set huff_nodes"
  "hn_113 \<in> set huff_nodes"
  "hn_114 \<in> set huff_nodes"
  "hn_115 \<in> set huff_nodes"
  "hn_116 \<in> set huff_nodes"
  "hn_117 \<in> set huff_nodes"
  "hn_118 \<in> set huff_nodes"
  by (simp_all add: huff_nodes_def huff_nodes_16_def)

lemma huff_in_17 [huff_in]:
  "hn_119 \<in> set huff_nodes"
  "hn_120 \<in> set huff_nodes"
  "hn_121 \<in> set huff_nodes"
  "hn_122 \<in> set huff_nodes"
  "hn_123 \<in> set huff_nodes"
  "hn_124 \<in> set huff_nodes"
  "hn_125 \<in> set huff_nodes"
  by (simp_all add: huff_nodes_def huff_nodes_17_def)

lemma huff_in_18 [huff_in]:
  "hn_126 \<in> set huff_nodes"
  "hn_127 \<in> set huff_nodes"
  "hn_128 \<in> set huff_nodes"
  "hn_129 \<in> set huff_nodes"
  "hn_130 \<in> set huff_nodes"
  "hn_131 \<in> set huff_nodes"
  "hn_132 \<in> set huff_nodes"
  by (simp_all add: huff_nodes_def huff_nodes_18_def)

lemma huff_in_19 [huff_in]:
  "hn_133 \<in> set huff_nodes"
  "hn_134 \<in> set huff_nodes"
  "hn_135 \<in> set huff_nodes"
  "hn_136 \<in> set huff_nodes"
  "hn_137 \<in> set huff_nodes"
  "hn_138 \<in> set huff_nodes"
  "hn_139 \<in> set huff_nodes"
  by (simp_all add: huff_nodes_def huff_nodes_19_def)

lemma huff_in_20 [huff_in]:
  "hn_140 \<in> set huff_nodes"
  "hn_141 \<in> set huff_nodes"
  "hn_142 \<in> set huff_nodes"
  "hn_143 \<in> set huff_nodes"
  "hn_144 \<in> set huff_nodes"
  "hn_145 \<in> set huff_nodes"
  "hn_146 \<in> set huff_nodes"
  by (simp_all add: huff_nodes_def huff_nodes_20_def)

lemma huff_in_21 [huff_in]:
  "hn_147 \<in> set huff_nodes"
  "hn_148 \<in> set huff_nodes"
  "hn_149 \<in> set huff_nodes"
  "hn_150 \<in> set huff_nodes"
  "hn_151 \<in> set huff_nodes"
  "hn_152 \<in> set huff_nodes"
  "hn_153 \<in> set huff_nodes"
  by (simp_all add: huff_nodes_def huff_nodes_21_def)

lemma huff_in_22 [huff_in]:
  "hn_154 \<in> set huff_nodes"
  "hn_155 \<in> set huff_nodes"
  "hn_156 \<in> set huff_nodes"
  "hn_157 \<in> set huff_nodes"
  "hn_158 \<in> set huff_nodes"
  "hn_159 \<in> set huff_nodes"
  "hn_160 \<in> set huff_nodes"
  by (simp_all add: huff_nodes_def huff_nodes_22_def)

lemma huff_in_23 [huff_in]:
  "hn_161 \<in> set huff_nodes"
  "hn_162 \<in> set huff_nodes"
  "hn_163 \<in> set huff_nodes"
  "hn_164 \<in> set huff_nodes"
  "hn_165 \<in> set huff_nodes"
  "hn_166 \<in> set huff_nodes"
  "hn_167 \<in> set huff_nodes"
  by (simp_all add: huff_nodes_def huff_nodes_23_def)

lemma huff_in_24 [huff_in]:
  "hn_168 \<in> set huff_nodes"
  "hn_169 \<in> set huff_nodes"
  "hn_170 \<in> set huff_nodes"
  "hn_171 \<in> set huff_nodes"
  "hn_172 \<in> set huff_nodes"
  "hn_173 \<in> set huff_nodes"
  "hn_174 \<in> set huff_nodes"
  by (simp_all add: huff_nodes_def huff_nodes_24_def)

lemma huff_in_25 [huff_in]:
  "hn_175 \<in> set huff_nodes"
  "hn_176 \<in> set huff_nodes"
  "hn_177 \<in> set huff_nodes"
  "hn_178 \<in> set huff_nodes"
  "hn_179 \<in> set huff_nodes"
  "hn_180 \<in> set huff_nodes"
  "hn_181 \<in> set huff_nodes"
  by (simp_all add: huff_nodes_def huff_nodes_25_def)

lemma huff_in_26 [huff_in]:
  "hn_182 \<in> set huff_nodes"
  "hn_183 \<in> set huff_nodes"
  "hn_184 \<in> set huff_nodes"
  "hn_185 \<in> set huff_nodes"
  "hn_186 \<in> set huff_nodes"
  "hn_187 \<in> set huff_nodes"
  "hn_188 \<in> set huff_nodes"
  by (simp_all add: huff_nodes_def huff_nodes_26_def)

lemma huff_in_27 [huff_in]:
  "hn_189 \<in> set huff_nodes"
  "hn_190 \<in> set huff_nodes"
  "hn_191 \<in> set huff_nodes"
  "hn_192 \<in> set huff_nodes"
  "hn_193 \<in> set huff_nodes"
  "hn_194 \<in> set huff_nodes"
  "hn_195 \<in> set huff_nodes"
  by (simp_all add: huff_nodes_def huff_nodes_27_def)

lemma huff_in_28 [huff_in]:
  "hn_196 \<in> set huff_nodes"
  "hn_197 \<in> set huff_nodes"
  "hn_198 \<in> set huff_nodes"
  "hn_199 \<in> set huff_nodes"
  "hn_200 \<in> set huff_nodes"
  "hn_201 \<in> set huff_nodes"
  "hn_202 \<in> set huff_nodes"
  by (simp_all add: huff_nodes_def huff_nodes_28_def)

lemma huff_in_29 [huff_in]:
  "hn_203 \<in> set huff_nodes"
  "hn_204 \<in> set huff_nodes"
  "hn_205 \<in> set huff_nodes"
  "hn_206 \<in> set huff_nodes"
  "hn_207 \<in> set huff_nodes"
  "hn_208 \<in> set huff_nodes"
  "hn_209 \<in> set huff_nodes"
  by (simp_all add: huff_nodes_def huff_nodes_29_def)

lemma huff_in_30 [huff_in]:
  "hn_210 \<in> set huff_nodes"
  "hn_211 \<in> set huff_nodes"
  "hn_212 \<in> set huff_nodes"
  "hn_213 \<in> set huff_nodes"
  "hn_214 \<in> set huff_nodes"
  "hn_215 \<in> set huff_nodes"
  "hn_216 \<in> set huff_nodes"
  by (simp_all add: huff_nodes_def huff_nodes_30_def)

lemma huff_in_31 [huff_in]:
  "hn_217 \<in> set huff_nodes"
  "hn_218 \<in> set huff_nodes"
  "hn_219 \<in> set huff_nodes"
  "hn_220 \<in> set huff_nodes"
  "hn_221 \<in> set huff_nodes"
  "hn_222 \<in> set huff_nodes"
  "hn_223 \<in> set huff_nodes"
  by (simp_all add: huff_nodes_def huff_nodes_31_def)

lemma huff_in_32 [huff_in]:
  "hn_224 \<in> set huff_nodes"
  "hn_225 \<in> set huff_nodes"
  "hn_226 \<in> set huff_nodes"
  "hn_227 \<in> set huff_nodes"
  "hn_228 \<in> set huff_nodes"
  "hn_229 \<in> set huff_nodes"
  "hn_230 \<in> set huff_nodes"
  by (simp_all add: huff_nodes_def huff_nodes_32_def)

lemma huff_in_33 [huff_in]:
  "hn_231 \<in> set huff_nodes"
  "hn_232 \<in> set huff_nodes"
  "hn_233 \<in> set huff_nodes"
  "hn_234 \<in> set huff_nodes"
  "hn_235 \<in> set huff_nodes"
  "hn_236 \<in> set huff_nodes"
  "hn_237 \<in> set huff_nodes"
  by (simp_all add: huff_nodes_def huff_nodes_33_def)

lemma huff_in_34 [huff_in]:
  "hn_238 \<in> set huff_nodes"
  "hn_239 \<in> set huff_nodes"
  "hn_240 \<in> set huff_nodes"
  "hn_241 \<in> set huff_nodes"
  "hn_242 \<in> set huff_nodes"
  "hn_243 \<in> set huff_nodes"
  "hn_244 \<in> set huff_nodes"
  by (simp_all add: huff_nodes_def huff_nodes_34_def)

lemma huff_in_35 [huff_in]:
  "hn_245 \<in> set huff_nodes"
  "hn_246 \<in> set huff_nodes"
  "hn_247 \<in> set huff_nodes"
  "hn_248 \<in> set huff_nodes"
  "hn_249 \<in> set huff_nodes"
  "hn_250 \<in> set huff_nodes"
  "hn_251 \<in> set huff_nodes"
  by (simp_all add: huff_nodes_def huff_nodes_35_def)

lemma huff_in_36 [huff_in]:
  "hn_252 \<in> set huff_nodes"
  "hn_253 \<in> set huff_nodes"
  "hn_254 \<in> set huff_nodes"
  "hn_255 \<in> set huff_nodes"
  by (simp_all add: huff_nodes_def huff_nodes_36_def)

lemma huff_child_0 [huff_child]:
  "hchild b hn_0 = (if b then hn_22 else hn_1)"
  "hchild b hn_1 = (if b then hn_9 else hn_2)"
  "hchild b hn_2 = (if b then hn_6 else hn_3)"
  "hchild b hn_3 = (if b then hn_5 else hn_4)"
  "hchild b hn_4 = (if b then (Leaf 49) else (Leaf 48))"
  "hchild b hn_5 = (if b then (Leaf 97) else (Leaf 50))"
  "hchild b hn_6 = (if b then hn_8 else hn_7)"
  by (simp_all add: huff_defs)

lemma huff_child_1 [huff_child]:
  "hchild b hn_7 = (if b then (Leaf 101) else (Leaf 99))"
  "hchild b hn_8 = (if b then (Leaf 111) else (Leaf 105))"
  "hchild b hn_9 = (if b then hn_15 else hn_10)"
  "hchild b hn_10 = (if b then hn_12 else hn_11)"
  "hchild b hn_11 = (if b then (Leaf 116) else (Leaf 115))"
  "hchild b hn_12 = (if b then hn_14 else hn_13)"
  "hchild b hn_13 = (if b then (Leaf 37) else (Leaf 32))"
  by (simp_all add: huff_defs)

lemma huff_child_2 [huff_child]:
  "hchild b hn_14 = (if b then (Leaf 46) else (Leaf 45))"
  "hchild b hn_15 = (if b then hn_19 else hn_16)"
  "hchild b hn_16 = (if b then hn_18 else hn_17)"
  "hchild b hn_17 = (if b then (Leaf 51) else (Leaf 47))"
  "hchild b hn_18 = (if b then (Leaf 53) else (Leaf 52))"
  "hchild b hn_19 = (if b then hn_21 else hn_20)"
  "hchild b hn_20 = (if b then (Leaf 55) else (Leaf 54))"
  by (simp_all add: huff_defs)

lemma huff_child_3 [huff_child]:
  "hchild b hn_21 = (if b then (Leaf 57) else (Leaf 56))"
  "hchild b hn_22 = (if b then hn_40 else hn_23)"
  "hchild b hn_23 = (if b then hn_31 else hn_24)"
  "hchild b hn_24 = (if b then hn_28 else hn_25)"
  "hchild b hn_25 = (if b then hn_27 else hn_26)"
  "hchild b hn_26 = (if b then (Leaf 65) else (Leaf 61))"
  "hchild b hn_27 = (if b then (Leaf 98) else (Leaf 95))"
  by (simp_all add: huff_defs)

lemma huff_child_4 [huff_child]:
  "hchild b hn_28 = (if b then hn_30 else hn_29)"
  "hchild b hn_29 = (if b then (Leaf 102) else (Leaf 100))"
  "hchild b hn_30 = (if b then (Leaf 104) else (Leaf 103))"
  "hchild b hn_31 = (if b then hn_35 else hn_32)"
  "hchild b hn_32 = (if b then hn_34 else hn_33)"
  "hchild b hn_33 = (if b then (Leaf 109) else (Leaf 108))"
  "hchild b hn_34 = (if b then (Leaf 112) else (Leaf 110))"
  by (simp_all add: huff_defs)

lemma huff_child_5 [huff_child]:
  "hchild b hn_35 = (if b then hn_37 else hn_36)"
  "hchild b hn_36 = (if b then (Leaf 117) else (Leaf 114))"
  "hchild b hn_37 = (if b then hn_39 else hn_38)"
  "hchild b hn_38 = (if b then (Leaf 66) else (Leaf 58))"
  "hchild b hn_39 = (if b then (Leaf 68) else (Leaf 67))"
  "hchild b hn_40 = (if b then hn_56 else hn_41)"
  "hchild b hn_41 = (if b then hn_49 else hn_42)"
  by (simp_all add: huff_defs)

lemma huff_child_6 [huff_child]:
  "hchild b hn_42 = (if b then hn_46 else hn_43)"
  "hchild b hn_43 = (if b then hn_45 else hn_44)"
  "hchild b hn_44 = (if b then (Leaf 70) else (Leaf 69))"
  "hchild b hn_45 = (if b then (Leaf 72) else (Leaf 71))"
  "hchild b hn_46 = (if b then hn_48 else hn_47)"
  "hchild b hn_47 = (if b then (Leaf 74) else (Leaf 73))"
  "hchild b hn_48 = (if b then (Leaf 76) else (Leaf 75))"
  by (simp_all add: huff_defs)

lemma huff_child_7 [huff_child]:
  "hchild b hn_49 = (if b then hn_53 else hn_50)"
  "hchild b hn_50 = (if b then hn_52 else hn_51)"
  "hchild b hn_51 = (if b then (Leaf 78) else (Leaf 77))"
  "hchild b hn_52 = (if b then (Leaf 80) else (Leaf 79))"
  "hchild b hn_53 = (if b then hn_55 else hn_54)"
  "hchild b hn_54 = (if b then (Leaf 82) else (Leaf 81))"
  "hchild b hn_55 = (if b then (Leaf 84) else (Leaf 83))"
  by (simp_all add: huff_defs)

lemma huff_child_8 [huff_child]:
  "hchild b hn_56 = (if b then hn_64 else hn_57)"
  "hchild b hn_57 = (if b then hn_61 else hn_58)"
  "hchild b hn_58 = (if b then hn_60 else hn_59)"
  "hchild b hn_59 = (if b then (Leaf 86) else (Leaf 85))"
  "hchild b hn_60 = (if b then (Leaf 89) else (Leaf 87))"
  "hchild b hn_61 = (if b then hn_63 else hn_62)"
  "hchild b hn_62 = (if b then (Leaf 107) else (Leaf 106))"
  by (simp_all add: huff_defs)

lemma huff_child_9 [huff_child]:
  "hchild b hn_63 = (if b then (Leaf 118) else (Leaf 113))"
  "hchild b hn_64 = (if b then hn_68 else hn_65)"
  "hchild b hn_65 = (if b then hn_67 else hn_66)"
  "hchild b hn_66 = (if b then (Leaf 120) else (Leaf 119))"
  "hchild b hn_67 = (if b then (Leaf 122) else (Leaf 121))"
  "hchild b hn_68 = (if b then hn_72 else hn_69)"
  "hchild b hn_69 = (if b then hn_71 else hn_70)"
  by (simp_all add: huff_defs)

lemma huff_child_10 [huff_child]:
  "hchild b hn_70 = (if b then (Leaf 42) else (Leaf 38))"
  "hchild b hn_71 = (if b then (Leaf 59) else (Leaf 44))"
  "hchild b hn_72 = (if b then hn_74 else hn_73)"
  "hchild b hn_73 = (if b then (Leaf 90) else (Leaf 88))"
  "hchild b hn_74 = (if b then hn_78 else hn_75)"
  "hchild b hn_75 = (if b then hn_77 else hn_76)"
  "hchild b hn_76 = (if b then (Leaf 34) else (Leaf 33))"
  by (simp_all add: huff_defs)

lemma huff_child_11 [huff_child]:
  "hchild b hn_77 = (if b then (Leaf 41) else (Leaf 40))"
  "hchild b hn_78 = (if b then hn_81 else hn_79)"
  "hchild b hn_79 = (if b then hn_80 else (Leaf 63))"
  "hchild b hn_80 = (if b then (Leaf 43) else (Leaf 39))"
  "hchild b hn_81 = (if b then hn_84 else hn_82)"
  "hchild b hn_82 = (if b then hn_83 else (Leaf 124))"
  "hchild b hn_83 = (if b then (Leaf 62) else (Leaf 35))"
  by (simp_all add: huff_defs)

lemma huff_child_12 [huff_child]:
  "hchild b hn_84 = (if b then hn_88 else hn_85)"
  "hchild b hn_85 = (if b then hn_87 else hn_86)"
  "hchild b hn_86 = (if b then (Leaf 36) else (Leaf 0))"
  "hchild b hn_87 = (if b then (Leaf 91) else (Leaf 64))"
  "hchild b hn_88 = (if b then hn_90 else hn_89)"
  "hchild b hn_89 = (if b then (Leaf 126) else (Leaf 93))"
  "hchild b hn_90 = (if b then hn_92 else hn_91)"
  by (simp_all add: huff_defs)

lemma huff_child_13 [huff_child]:
  "hchild b hn_91 = (if b then (Leaf 125) else (Leaf 94))"
  "hchild b hn_92 = (if b then hn_94 else hn_93)"
  "hchild b hn_93 = (if b then (Leaf 96) else (Leaf 60))"
  "hchild b hn_94 = (if b then hn_95 else (Leaf 123))"
  "hchild b hn_95 = (if b then hn_110 else hn_96)"
  "hchild b hn_96 = (if b then hn_101 else hn_97)"
  "hchild b hn_97 = (if b then hn_99 else hn_98)"
  by (simp_all add: huff_defs)

lemma huff_child_14 [huff_child]:
  "hchild b hn_98 = (if b then (Leaf 195) else (Leaf 92))"
  "hchild b hn_99 = (if b then hn_100 else (Leaf 208))"
  "hchild b hn_100 = (if b then (Leaf 130) else (Leaf 128))"
  "hchild b hn_101 = (if b then hn_105 else hn_102)"
  "hchild b hn_102 = (if b then hn_104 else hn_103)"
  "hchild b hn_103 = (if b then (Leaf 162) else (Leaf 131))"
  "hchild b hn_104 = (if b then (Leaf 194) else (Leaf 184))"
  by (simp_all add: huff_defs)

lemma huff_child_15 [huff_child]:
  "hchild b hn_105 = (if b then hn_107 else hn_106)"
  "hchild b hn_106 = (if b then (Leaf 226) else (Leaf 224))"
  "hchild b hn_107 = (if b then hn_109 else hn_108)"
  "hchild b hn_108 = (if b then (Leaf 161) else (Leaf 153))"
  "hchild b hn_109 = (if b then (Leaf 172) else (Leaf 167))"
  "hchild b hn_110 = (if b then hn_133 else hn_111)"
  "hchild b hn_111 = (if b then hn_119 else hn_112)"
  by (simp_all add: huff_defs)

lemma huff_child_16 [huff_child]:
  "hchild b hn_112 = (if b then hn_116 else hn_113)"
  "hchild b hn_113 = (if b then hn_115 else hn_114)"
  "hchild b hn_114 = (if b then (Leaf 177) else (Leaf 176))"
  "hchild b hn_115 = (if b then (Leaf 209) else (Leaf 179))"
  "hchild b hn_116 = (if b then hn_118 else hn_117)"
  "hchild b hn_117 = (if b then (Leaf 217) else (Leaf 216))"
  "hchild b hn_118 = (if b then (Leaf 229) else (Leaf 227))"
  by (simp_all add: huff_defs)

lemma huff_child_17 [huff_child]:
  "hchild b hn_119 = (if b then hn_126 else hn_120)"
  "hchild b hn_120 = (if b then hn_123 else hn_121)"
  "hchild b hn_121 = (if b then hn_122 else (Leaf 230))"
  "hchild b hn_122 = (if b then (Leaf 132) else (Leaf 129))"
  "hchild b hn_123 = (if b then hn_125 else hn_124)"
  "hchild b hn_124 = (if b then (Leaf 134) else (Leaf 133))"
  "hchild b hn_125 = (if b then (Leaf 146) else (Leaf 136))"
  by (simp_all add: huff_defs)

lemma huff_child_18 [huff_child]:
  "hchild b hn_126 = (if b then hn_130 else hn_127)"
  "hchild b hn_127 = (if b then hn_129 else hn_128)"
  "hchild b hn_128 = (if b then (Leaf 156) else (Leaf 154))"
  "hchild b hn_129 = (if b then (Leaf 163) else (Leaf 160))"
  "hchild b hn_130 = (if b then hn_132 else hn_131)"
  "hchild b hn_131 = (if b then (Leaf 169) else (Leaf 164))"
  "hchild b hn_132 = (if b then (Leaf 173) else (Leaf 170))"
  by (simp_all add: huff_defs)

lemma huff_child_19 [huff_child]:
  "hchild b hn_133 = (if b then hn_153 else hn_134)"
  "hchild b hn_134 = (if b then hn_142 else hn_135)"
  "hchild b hn_135 = (if b then hn_139 else hn_136)"
  "hchild b hn_136 = (if b then hn_138 else hn_137)"
  "hchild b hn_137 = (if b then (Leaf 181) else (Leaf 178))"
  "hchild b hn_138 = (if b then (Leaf 186) else (Leaf 185))"
  "hchild b hn_139 = (if b then hn_141 else hn_140)"
  by (simp_all add: huff_defs)

lemma huff_child_20 [huff_child]:
  "hchild b hn_140 = (if b then (Leaf 189) else (Leaf 187))"
  "hchild b hn_141 = (if b then (Leaf 196) else (Leaf 190))"
  "hchild b hn_142 = (if b then hn_146 else hn_143)"
  "hchild b hn_143 = (if b then hn_145 else hn_144)"
  "hchild b hn_144 = (if b then (Leaf 228) else (Leaf 198))"
  "hchild b hn_145 = (if b then (Leaf 233) else (Leaf 232))"
  "hchild b hn_146 = (if b then hn_150 else hn_147)"
  by (simp_all add: huff_defs)

lemma huff_child_21 [huff_child]:
  "hchild b hn_147 = (if b then hn_149 else hn_148)"
  "hchild b hn_148 = (if b then (Leaf 135) else (Leaf 1))"
  "hchild b hn_149 = (if b then (Leaf 138) else (Leaf 137))"
  "hchild b hn_150 = (if b then hn_152 else hn_151)"
  "hchild b hn_151 = (if b then (Leaf 140) else (Leaf 139))"
  "hchild b hn_152 = (if b then (Leaf 143) else (Leaf 141))"
  "hchild b hn_153 = (if b then hn_169 else hn_154)"
  by (simp_all add: huff_defs)

lemma huff_child_22 [huff_child]:
  "hchild b hn_154 = (if b then hn_162 else hn_155)"
  "hchild b hn_155 = (if b then hn_159 else hn_156)"
  "hchild b hn_156 = (if b then hn_158 else hn_157)"
  "hchild b hn_157 = (if b then (Leaf 149) else (Leaf 147))"
  "hchild b hn_158 = (if b then (Leaf 151) else (Leaf 150))"
  "hchild b hn_159 = (if b then hn_161 else hn_160)"
  "hchild b hn_160 = (if b then (Leaf 155) else (Leaf 152))"
  by (simp_all add: huff_defs)

lemma huff_child_23 [huff_child]:
  "hchild b hn_161 = (if b then (Leaf 158) else (Leaf 157))"
  "hchild b hn_162 = (if b then hn_166 else hn_163)"
  "hchild b hn_163 = (if b then hn_165 else hn_164)"
  "hchild b hn_164 = (if b then (Leaf 166) else (Leaf 165))"
  "hchild b hn_165 = (if b then (Leaf 174) else (Leaf 168))"
  "hchild b hn_166 = (if b then hn_168 else hn_167)"
  "hchild b hn_167 = (if b then (Leaf 180) else (Leaf 175))"
  by (simp_all add: huff_defs)

lemma huff_child_24 [huff_child]:
  "hchild b hn_168 = (if b then (Leaf 183) else (Leaf 182))"
  "hchild b hn_169 = (if b then hn_180 else hn_170)"
  "hchild b hn_170 = (if b then hn_174 else hn_171)"
  "hchild b hn_171 = (if b then hn_173 else hn_172)"
  "hchild b hn_172 = (if b then (Leaf 191) else (Leaf 188))"
  "hchild b hn_173 = (if b then (Leaf 231) else (Leaf 197))"
  "hchild b hn_174 = (if b then hn_177 else hn_175)"
  by (simp_all add: huff_defs)

lemma huff_child_25 [huff_child]:
  "hchild b hn_175 = (if b then hn_176 else (Leaf 239))"
  "hchild b hn_176 = (if b then (Leaf 142) else (Leaf 9))"
  "hchild b hn_177 = (if b then hn_179 else hn_178)"
  "hchild b hn_178 = (if b then (Leaf 145) else (Leaf 144))"
  "hchild b hn_179 = (if b then (Leaf 159) else (Leaf 148))"
  "hchild b hn_180 = (if b then hn_190 else hn_181)"
  "hchild b hn_181 = (if b then hn_185 else hn_182)"
  by (simp_all add: huff_defs)

lemma huff_child_26 [huff_child]:
  "hchild b hn_182 = (if b then hn_184 else hn_183)"
  "hchild b hn_183 = (if b then (Leaf 206) else (Leaf 171))"
  "hchild b hn_184 = (if b then (Leaf 225) else (Leaf 215))"
  "hchild b hn_185 = (if b then hn_187 else hn_186)"
  "hchild b hn_186 = (if b then (Leaf 237) else (Leaf 236))"
  "hchild b hn_187 = (if b then hn_189 else hn_188)"
  "hchild b hn_188 = (if b then (Leaf 207) else (Leaf 199))"
  by (simp_all add: huff_defs)

lemma huff_child_27 [huff_child]:
  "hchild b hn_189 = (if b then (Leaf 235) else (Leaf 234))"
  "hchild b hn_190 = (if b then hn_207 else hn_191)"
  "hchild b hn_191 = (if b then hn_199 else hn_192)"
  "hchild b hn_192 = (if b then hn_196 else hn_193)"
  "hchild b hn_193 = (if b then hn_195 else hn_194)"
  "hchild b hn_194 = (if b then (Leaf 193) else (Leaf 192))"
  "hchild b hn_195 = (if b then (Leaf 201) else (Leaf 200))"
  by (simp_all add: huff_defs)

lemma huff_child_28 [huff_child]:
  "hchild b hn_196 = (if b then hn_198 else hn_197)"
  "hchild b hn_197 = (if b then (Leaf 205) else (Leaf 202))"
  "hchild b hn_198 = (if b then (Leaf 213) else (Leaf 210))"
  "hchild b hn_199 = (if b then hn_203 else hn_200)"
  "hchild b hn_200 = (if b then hn_202 else hn_201)"
  "hchild b hn_201 = (if b then (Leaf 219) else (Leaf 218))"
  "hchild b hn_202 = (if b then (Leaf 240) else (Leaf 238))"
  by (simp_all add: huff_defs)

lemma huff_child_29 [huff_child]:
  "hchild b hn_203 = (if b then hn_205 else hn_204)"
  "hchild b hn_204 = (if b then (Leaf 243) else (Leaf 242))"
  "hchild b hn_205 = (if b then hn_206 else (Leaf 255))"
  "hchild b hn_206 = (if b then (Leaf 204) else (Leaf 203))"
  "hchild b hn_207 = (if b then hn_223 else hn_208)"
  "hchild b hn_208 = (if b then hn_216 else hn_209)"
  "hchild b hn_209 = (if b then hn_213 else hn_210)"
  by (simp_all add: huff_defs)

lemma huff_child_30 [huff_child]:
  "hchild b hn_210 = (if b then hn_212 else hn_211)"
  "hchild b hn_211 = (if b then (Leaf 212) else (Leaf 211))"
  "hchild b hn_212 = (if b then (Leaf 221) else (Leaf 214))"
  "hchild b hn_213 = (if b then hn_215 else hn_214)"
  "hchild b hn_214 = (if b then (Leaf 223) else (Leaf 222))"
  "hchild b hn_215 = (if b then (Leaf 244) else (Leaf 241))"
  "hchild b hn_216 = (if b then hn_220 else hn_217)"
  by (simp_all add: huff_defs)

lemma huff_child_31 [huff_child]:
  "hchild b hn_217 = (if b then hn_219 else hn_218)"
  "hchild b hn_218 = (if b then (Leaf 246) else (Leaf 245))"
  "hchild b hn_219 = (if b then (Leaf 248) else (Leaf 247))"
  "hchild b hn_220 = (if b then hn_222 else hn_221)"
  "hchild b hn_221 = (if b then (Leaf 251) else (Leaf 250))"
  "hchild b hn_222 = (if b then (Leaf 253) else (Leaf 252))"
  "hchild b hn_223 = (if b then hn_238 else hn_224)"
  by (simp_all add: huff_defs)

lemma huff_child_32 [huff_child]:
  "hchild b hn_224 = (if b then hn_231 else hn_225)"
  "hchild b hn_225 = (if b then hn_228 else hn_226)"
  "hchild b hn_226 = (if b then hn_227 else (Leaf 254))"
  "hchild b hn_227 = (if b then (Leaf 3) else (Leaf 2))"
  "hchild b hn_228 = (if b then hn_230 else hn_229)"
  "hchild b hn_229 = (if b then (Leaf 5) else (Leaf 4))"
  "hchild b hn_230 = (if b then (Leaf 7) else (Leaf 6))"
  by (simp_all add: huff_defs)

lemma huff_child_33 [huff_child]:
  "hchild b hn_231 = (if b then hn_235 else hn_232)"
  "hchild b hn_232 = (if b then hn_234 else hn_233)"
  "hchild b hn_233 = (if b then (Leaf 11) else (Leaf 8))"
  "hchild b hn_234 = (if b then (Leaf 14) else (Leaf 12))"
  "hchild b hn_235 = (if b then hn_237 else hn_236)"
  "hchild b hn_236 = (if b then (Leaf 16) else (Leaf 15))"
  "hchild b hn_237 = (if b then (Leaf 18) else (Leaf 17))"
  by (simp_all add: huff_defs)

lemma huff_child_34 [huff_child]:
  "hchild b hn_238 = (if b then hn_246 else hn_239)"
  "hchild b hn_239 = (if b then hn_243 else hn_240)"
  "hchild b hn_240 = (if b then hn_242 else hn_241)"
  "hchild b hn_241 = (if b then (Leaf 20) else (Leaf 19))"
  "hchild b hn_242 = (if b then (Leaf 23) else (Leaf 21))"
  "hchild b hn_243 = (if b then hn_245 else hn_244)"
  "hchild b hn_244 = (if b then (Leaf 25) else (Leaf 24))"
  by (simp_all add: huff_defs)

lemma huff_child_35 [huff_child]:
  "hchild b hn_245 = (if b then (Leaf 27) else (Leaf 26))"
  "hchild b hn_246 = (if b then hn_250 else hn_247)"
  "hchild b hn_247 = (if b then hn_249 else hn_248)"
  "hchild b hn_248 = (if b then (Leaf 29) else (Leaf 28))"
  "hchild b hn_249 = (if b then (Leaf 31) else (Leaf 30))"
  "hchild b hn_250 = (if b then hn_252 else hn_251)"
  "hchild b hn_251 = (if b then (Leaf 220) else (Leaf 127))"
  by (simp_all add: huff_defs)

lemma huff_child_36 [huff_child]:
  "hchild b hn_252 = (if b then hn_253 else (Leaf 249))"
  "hchild b hn_253 = (if b then hn_255 else hn_254)"
  "hchild b hn_254 = (if b then (Leaf 13) else (Leaf 10))"
  "hchild b hn_255 = (if b then (Leaf 256) else (Leaf 22))"
  by (simp_all add: huff_defs)

text \<open>A leaf, or a node of the list.\<close>

definition htree_ok :: "htree \<Rightarrow> bool" where
  "htree_ok t \<longleftrightarrow> (\<exists>s \<le> 256. t = Leaf s) \<or> t \<in> set huff_nodes"

lemma htree_ok_Leaf [simp]: "s \<le> 256 \<Longrightarrow> htree_ok (Leaf s)"
  by (simp add: htree_ok_def)

lemma htree_ok_node: "t \<in> set huff_nodes \<Longrightarrow> htree_ok t"
  by (simp add: htree_ok_def)

lemma huff_nodes_all:
  "set huff_nodes = set huff_nodes_0 \<union> set huff_nodes_1 \<union> set huff_nodes_2 \<union> set huff_nodes_3 \<union>
     set huff_nodes_4 \<union> set huff_nodes_5 \<union> set huff_nodes_6 \<union> set huff_nodes_7 \<union>
     set huff_nodes_8 \<union> set huff_nodes_9 \<union> set huff_nodes_10 \<union> set huff_nodes_11 \<union>
     set huff_nodes_12 \<union> set huff_nodes_13 \<union> set huff_nodes_14 \<union> set huff_nodes_15 \<union>
     set huff_nodes_16 \<union> set huff_nodes_17 \<union> set huff_nodes_18 \<union> set huff_nodes_19 \<union>
     set huff_nodes_20 \<union> set huff_nodes_21 \<union> set huff_nodes_22 \<union> set huff_nodes_23 \<union>
     set huff_nodes_24 \<union> set huff_nodes_25 \<union> set huff_nodes_26 \<union> set huff_nodes_27 \<union>
     set huff_nodes_28 \<union> set huff_nodes_29 \<union> set huff_nodes_30 \<union> set huff_nodes_31 \<union>
     set huff_nodes_32 \<union> set huff_nodes_33 \<union> set huff_nodes_34 \<union> set huff_nodes_35 \<union>
     set huff_nodes_36"
  by (auto simp: huff_nodes_def)

lemma huff_closed_0: "t \<in> set huff_nodes_0 \<Longrightarrow> htree_ok (hchild b t)"
  by (auto simp: huff_nodes_0_def huff_child huff_in htree_ok_node)

lemma huff_closed_1: "t \<in> set huff_nodes_1 \<Longrightarrow> htree_ok (hchild b t)"
  by (auto simp: huff_nodes_1_def huff_child huff_in htree_ok_node)

lemma huff_closed_2: "t \<in> set huff_nodes_2 \<Longrightarrow> htree_ok (hchild b t)"
  by (auto simp: huff_nodes_2_def huff_child huff_in htree_ok_node)

lemma huff_closed_3: "t \<in> set huff_nodes_3 \<Longrightarrow> htree_ok (hchild b t)"
  by (auto simp: huff_nodes_3_def huff_child huff_in htree_ok_node)

lemma huff_closed_4: "t \<in> set huff_nodes_4 \<Longrightarrow> htree_ok (hchild b t)"
  by (auto simp: huff_nodes_4_def huff_child huff_in htree_ok_node)

lemma huff_closed_5: "t \<in> set huff_nodes_5 \<Longrightarrow> htree_ok (hchild b t)"
  by (auto simp: huff_nodes_5_def huff_child huff_in htree_ok_node)

lemma huff_closed_6: "t \<in> set huff_nodes_6 \<Longrightarrow> htree_ok (hchild b t)"
  by (auto simp: huff_nodes_6_def huff_child huff_in htree_ok_node)

lemma huff_closed_7: "t \<in> set huff_nodes_7 \<Longrightarrow> htree_ok (hchild b t)"
  by (auto simp: huff_nodes_7_def huff_child huff_in htree_ok_node)

lemma huff_closed_8: "t \<in> set huff_nodes_8 \<Longrightarrow> htree_ok (hchild b t)"
  by (auto simp: huff_nodes_8_def huff_child huff_in htree_ok_node)

lemma huff_closed_9: "t \<in> set huff_nodes_9 \<Longrightarrow> htree_ok (hchild b t)"
  by (auto simp: huff_nodes_9_def huff_child huff_in htree_ok_node)

lemma huff_closed_10: "t \<in> set huff_nodes_10 \<Longrightarrow> htree_ok (hchild b t)"
  by (auto simp: huff_nodes_10_def huff_child huff_in htree_ok_node)

lemma huff_closed_11: "t \<in> set huff_nodes_11 \<Longrightarrow> htree_ok (hchild b t)"
  by (auto simp: huff_nodes_11_def huff_child huff_in htree_ok_node)

lemma huff_closed_12: "t \<in> set huff_nodes_12 \<Longrightarrow> htree_ok (hchild b t)"
  by (auto simp: huff_nodes_12_def huff_child huff_in htree_ok_node)

lemma huff_closed_13: "t \<in> set huff_nodes_13 \<Longrightarrow> htree_ok (hchild b t)"
  by (auto simp: huff_nodes_13_def huff_child huff_in htree_ok_node)

lemma huff_closed_14: "t \<in> set huff_nodes_14 \<Longrightarrow> htree_ok (hchild b t)"
  by (auto simp: huff_nodes_14_def huff_child huff_in htree_ok_node)

lemma huff_closed_15: "t \<in> set huff_nodes_15 \<Longrightarrow> htree_ok (hchild b t)"
  by (auto simp: huff_nodes_15_def huff_child huff_in htree_ok_node)

lemma huff_closed_16: "t \<in> set huff_nodes_16 \<Longrightarrow> htree_ok (hchild b t)"
  by (auto simp: huff_nodes_16_def huff_child huff_in htree_ok_node)

lemma huff_closed_17: "t \<in> set huff_nodes_17 \<Longrightarrow> htree_ok (hchild b t)"
  by (auto simp: huff_nodes_17_def huff_child huff_in htree_ok_node)

lemma huff_closed_18: "t \<in> set huff_nodes_18 \<Longrightarrow> htree_ok (hchild b t)"
  by (auto simp: huff_nodes_18_def huff_child huff_in htree_ok_node)

lemma huff_closed_19: "t \<in> set huff_nodes_19 \<Longrightarrow> htree_ok (hchild b t)"
  by (auto simp: huff_nodes_19_def huff_child huff_in htree_ok_node)

lemma huff_closed_20: "t \<in> set huff_nodes_20 \<Longrightarrow> htree_ok (hchild b t)"
  by (auto simp: huff_nodes_20_def huff_child huff_in htree_ok_node)

lemma huff_closed_21: "t \<in> set huff_nodes_21 \<Longrightarrow> htree_ok (hchild b t)"
  by (auto simp: huff_nodes_21_def huff_child huff_in htree_ok_node)

lemma huff_closed_22: "t \<in> set huff_nodes_22 \<Longrightarrow> htree_ok (hchild b t)"
  by (auto simp: huff_nodes_22_def huff_child huff_in htree_ok_node)

lemma huff_closed_23: "t \<in> set huff_nodes_23 \<Longrightarrow> htree_ok (hchild b t)"
  by (auto simp: huff_nodes_23_def huff_child huff_in htree_ok_node)

lemma huff_closed_24: "t \<in> set huff_nodes_24 \<Longrightarrow> htree_ok (hchild b t)"
  by (auto simp: huff_nodes_24_def huff_child huff_in htree_ok_node)

lemma huff_closed_25: "t \<in> set huff_nodes_25 \<Longrightarrow> htree_ok (hchild b t)"
  by (auto simp: huff_nodes_25_def huff_child huff_in htree_ok_node)

lemma huff_closed_26: "t \<in> set huff_nodes_26 \<Longrightarrow> htree_ok (hchild b t)"
  by (auto simp: huff_nodes_26_def huff_child huff_in htree_ok_node)

lemma huff_closed_27: "t \<in> set huff_nodes_27 \<Longrightarrow> htree_ok (hchild b t)"
  by (auto simp: huff_nodes_27_def huff_child huff_in htree_ok_node)

lemma huff_closed_28: "t \<in> set huff_nodes_28 \<Longrightarrow> htree_ok (hchild b t)"
  by (auto simp: huff_nodes_28_def huff_child huff_in htree_ok_node)

lemma huff_closed_29: "t \<in> set huff_nodes_29 \<Longrightarrow> htree_ok (hchild b t)"
  by (auto simp: huff_nodes_29_def huff_child huff_in htree_ok_node)

lemma huff_closed_30: "t \<in> set huff_nodes_30 \<Longrightarrow> htree_ok (hchild b t)"
  by (auto simp: huff_nodes_30_def huff_child huff_in htree_ok_node)

lemma huff_closed_31: "t \<in> set huff_nodes_31 \<Longrightarrow> htree_ok (hchild b t)"
  by (auto simp: huff_nodes_31_def huff_child huff_in htree_ok_node)

lemma huff_closed_32: "t \<in> set huff_nodes_32 \<Longrightarrow> htree_ok (hchild b t)"
  by (auto simp: huff_nodes_32_def huff_child huff_in htree_ok_node)

lemma huff_closed_33: "t \<in> set huff_nodes_33 \<Longrightarrow> htree_ok (hchild b t)"
  by (auto simp: huff_nodes_33_def huff_child huff_in htree_ok_node)

lemma huff_closed_34: "t \<in> set huff_nodes_34 \<Longrightarrow> htree_ok (hchild b t)"
  by (auto simp: huff_nodes_34_def huff_child huff_in htree_ok_node)

lemma huff_closed_35: "t \<in> set huff_nodes_35 \<Longrightarrow> htree_ok (hchild b t)"
  by (auto simp: huff_nodes_35_def huff_child huff_in htree_ok_node)

lemma huff_closed_36: "t \<in> set huff_nodes_36 \<Longrightarrow> htree_ok (hchild b t)"
  by (auto simp: huff_nodes_36_def huff_child huff_in htree_ok_node)

lemmas huff_closed_parts =
  huff_closed_0 huff_closed_1 huff_closed_2 huff_closed_3 huff_closed_4 huff_closed_5
  huff_closed_6 huff_closed_7 huff_closed_8 huff_closed_9 huff_closed_10 huff_closed_11
  huff_closed_12 huff_closed_13 huff_closed_14 huff_closed_15 huff_closed_16 huff_closed_17
  huff_closed_18 huff_closed_19 huff_closed_20 huff_closed_21 huff_closed_22 huff_closed_23
  huff_closed_24 huff_closed_25 huff_closed_26 huff_closed_27 huff_closed_28 huff_closed_29
  huff_closed_30 huff_closed_31 huff_closed_32 huff_closed_33 huff_closed_34 huff_closed_35
  huff_closed_36

lemmas huff_rows_parts =
  huff_rows_0 huff_rows_1 huff_rows_2 huff_rows_3 huff_rows_4 huff_rows_5
  huff_rows_6 huff_rows_7 huff_rows_8 huff_rows_9 huff_rows_10 huff_rows_11
  huff_rows_12 huff_rows_13 huff_rows_14 huff_rows_15 huff_rows_16 huff_rows_17
  huff_rows_18 huff_rows_19 huff_rows_20 huff_rows_21 huff_rows_22 huff_rows_23
  huff_rows_24 huff_rows_25 huff_rows_26 huff_rows_27 huff_rows_28 huff_rows_29
  huff_rows_30 huff_rows_31 huff_rows_32 huff_rows_33 huff_rows_34 huff_rows_35
  huff_rows_36

lemmas huff_nodes_parts =
  huff_nodes_0_def huff_nodes_1_def huff_nodes_2_def huff_nodes_3_def huff_nodes_4_def huff_nodes_5_def
  huff_nodes_6_def huff_nodes_7_def huff_nodes_8_def huff_nodes_9_def huff_nodes_10_def huff_nodes_11_def
  huff_nodes_12_def huff_nodes_13_def huff_nodes_14_def huff_nodes_15_def huff_nodes_16_def huff_nodes_17_def
  huff_nodes_18_def huff_nodes_19_def huff_nodes_20_def huff_nodes_21_def huff_nodes_22_def huff_nodes_23_def
  huff_nodes_24_def huff_nodes_25_def huff_nodes_26_def huff_nodes_27_def huff_nodes_28_def huff_nodes_29_def
  huff_nodes_30_def huff_nodes_31_def huff_nodes_32_def huff_nodes_33_def huff_nodes_34_def huff_nodes_35_def
  huff_nodes_36_def
lemma huff_closed: "t \<in> set huff_nodes \<Longrightarrow> htree_ok (hchild b t)"
  unfolding huff_nodes_all by (elim UnE) (erule huff_closed_parts)+

lemma huff_rows: "map row4 huff_nodes = butlast huff_decode_table"
  by (simp add: huff_nodes_def huff_decode_table_def huff_rows_parts butlast_append
      huff_decode_table_36_def)

lemma huff_ids: "map node_id huff_nodes = [0..<256]"
  by (simp add: huff_nodes_def huff_nodes_parts huff_defs upt_zero)

lemma huff_inner: "list_all (\<lambda>t. \<exists>i l r. t = Node i l r) huff_nodes"
  by (simp add: huff_nodes_def huff_nodes_parts huff_defs)

lemma huff_nodes_Node: "t \<in> set huff_nodes \<Longrightarrow> \<exists>i l r. t = Node i l r"
  using huff_inner by (auto simp: list_all_iff)

lemma follow_step: "t \<in> set huff_nodes \<Longrightarrow> follow t (b # bs) = follow (hchild b t) bs"
  using huff_nodes_Node [of t] by auto

lemma huff_codes:
  "map (\<lambda>e. follow huff_tree (code_bits e)) huff_sym_table = map (\<lambda>s. Some (Leaf s)) [0..<257]"
  by (simp add: huff_sym_table_def huff_tree_def huff_in huff_child follow_step code_bits_def
      word_bits_32 upt_zero)

section \<open>Every leaf and every inner node occurs once\<close>

fun leaves :: "htree \<Rightarrow> nat list" where
  "leaves (Leaf s) = [s]"
| "leaves (Node i l r) = leaves l @ leaves r"

fun inner_ids :: "htree \<Rightarrow> nat list" where
  "inner_ids (Leaf s) = []"
| "inner_ids (Node i l r) = i # inner_ids l @ inner_ids r"

lemma distinct_leaves: "distinct (leaves huff_tree)"
  by (simp add: huff_tree_def huff_defs)

lemma inner_ids_tree: "inner_ids huff_tree = [0..<256]"
  by (simp add: huff_tree_def huff_defs upt_zero)

lemma follow_leaf: "follow t p = Some (Leaf s) \<Longrightarrow> s \<in> set (leaves t)"
  by (induction t p rule: follow.induct) (auto split: if_splits)

lemma follow_leaf_unique:
  "distinct (leaves t) \<Longrightarrow> follow t p = Some (Leaf s) \<Longrightarrow> follow t q = Some (Leaf s) \<Longrightarrow> p = q"
proof (induction t p arbitrary: q rule: follow.induct)
  case (1 t)
  then show ?case by (cases q) auto
next
  case (2 i l r b bs)
  show ?case
  proof (cases q)
    case Nil
    then show ?thesis using "2.prems"(3) by simp
  next
    case (Cons c cs)
    have "s \<in> set (leaves (if b then r else l))" "s \<in> set (leaves (if c then r else l))"
      using "2.prems"(2,3) Cons follow_leaf by auto
    with "2.prems"(1) have "c = b" by (auto split: if_splits)
    with "2.IH" [of cs] "2.prems" Cons show ?thesis by (auto split: if_splits)
  qed
qed simp

lemma follow_id: "follow t p = Some (Node i l r) \<Longrightarrow> i \<in> set (inner_ids t)"
  by (induction t p rule: follow.induct) (auto split: if_splits)

lemma follow_node_unique:
  "distinct (inner_ids t) \<Longrightarrow> follow t p = Some (Node i l r) \<Longrightarrow> follow t q = Some (Node i l' r') \<Longrightarrow> p = q"
proof (induction t p arbitrary: q rule: follow.induct)
  case (1 t)
  then have t: "t = Node i l r" by simp
  show ?case
  proof (cases q)
    case (Cons c cs)
    then have "i \<in> set (inner_ids (if c then r else l))" using 1 t follow_id by simp
    with 1 t show ?thesis by (auto split: if_splits)
  qed simp
next
  case (2 j l2 r2 b bs)
  show ?case
  proof (cases q)
    case Nil
    then have "j = i" using "2.prems"(3) by simp
    moreover have "i \<in> set (inner_ids (if b then r2 else l2))" using "2.prems"(2) follow_id by simp
    ultimately show ?thesis using "2.prems"(1) by (auto split: if_splits)
  next
    case (Cons c cs)
    have "i \<in> set (inner_ids (if b then r2 else l2))" "i \<in> set (inner_ids (if c then r2 else l2))"
      using "2.prems"(2,3) Cons follow_id by auto
    with "2.prems"(1) have "c = b" by (auto split: if_splits)
    with "2.IH" [of cs] "2.prems" Cons show ?thesis by (auto split: if_splits)
  qed
qed simp

lemma follow_append:
  "follow t (p @ q) = (case follow t p of None \<Rightarrow> None | Some u \<Rightarrow> follow u q)"
  by (induction t p rule: follow.induct) auto

lemma length_huff_sym_table [simp]: "length huff_sym_table = 257"
  by (simp add: huff_sym_table_def)

lemma huff_code: "s < 257 \<Longrightarrow> follow huff_tree (code_bits (huff_sym_table ! s)) = Some (Leaf s)"
  using arg_cong [OF huff_codes, of "\<lambda>l. l ! s"]
  by simp

end
