(* ===== verification/Nghttp2_Huffman.thy ===== *)
theory Nghttp2_Huffman
  imports Nghttp2_Buf Nghttp2_Huffman_Tree
begin

text \<open>
  Model of \<open>src/src/nghttp2/lib/nghttp2_hd_huffman.c\<close>: the encoder, which collects code bits in
  a 64-bit register and writes them four bytes at a time into the current buffer of a chain or,
  when it is nearly full, byte by byte across buffers; and the decoder, a table driven
  automaton that reads four bits per step and can be fed in pieces.
\<close>

unbundle bit_operations_syntax

section \<open>Encoder\<close>

fun count_bits :: "bytes \<Rightarrow> nat \<Rightarrow> nat" where
  "count_bits [] nbits = nbits"
| "count_bits (c # src) nbits = count_bits src (nbits + hnbits (huff_sym_table ! unat c))"

definition nghttp2_hd_huff_encode_count :: "bytes \<Rightarrow> nat" where
  "nghttp2_hd_huff_encode_count src = (count_bits src 0 + 7) div 8"

text \<open>The loop that writes whole bytes from the top of the register.\<close>

fun huff_flush :: "nghttp2_bufs \<Rightarrow> u64 \<Rightarrow> nat \<Rightarrow> ((u64 \<times> nat) res \<times> nghttp2_bufs) option" where
  "huff_flush bufs code nbits =
     (if nbits < 8 then Some (Inr (code, nbits), bufs)
      else
        (case nghttp2_bufs_addb bufs (ucast (drop_bit 56 code)) of
           None \<Rightarrow> None
         | Some (Inl e, bufs) \<Rightarrow> Some (Inl e, bufs)
         | Some (Inr _, bufs) \<Rightarrow> huff_flush bufs (push_bit 8 code) (nbits - 8)))"

declare huff_flush.simps [simp del]

fun huff_encode_loop ::
  "nghttp2_bufs \<Rightarrow> bytes \<Rightarrow> u64 \<Rightarrow> nat \<Rightarrow> nat \<Rightarrow> ((u64 \<times> nat) res \<times> nghttp2_bufs) option" where
  "huff_encode_loop bufs [] code nbits avail = Some (Inr (code, nbits), bufs)"
| "huff_encode_loop bufs (c # src) code nbits avail =
     (let sym = huff_sym_table ! unat c;
          code = code OR push_bit (32 - nbits) (ucast (hcode sym));
          nbits = nbits + hnbits sym
      in
        if nbits < 32 then huff_encode_loop bufs src code nbits avail
        else if 4 \<le> avail then
          let x = nghttp2_put_uint32be (ucast (drop_bit 32 code));
              bufs = set_cur_buf (buf_write x (cur_buf bufs)) bufs
          in huff_encode_loop bufs src (push_bit 32 code) (nbits - 32) (avail - 4)
        else
          (case huff_flush bufs code nbits of
             None \<Rightarrow> None
           | Some (Inl e, bufs) \<Rightarrow> Some (Inl e, bufs)
           | Some (Inr (code, nbits), bufs) \<Rightarrow>
               huff_encode_loop bufs src code nbits (nghttp2_bufs_cur_avail bufs)))"

definition huff_encode_finish :: "nghttp2_bufs \<Rightarrow> u64 \<Rightarrow> nat \<Rightarrow> (unit res \<times> nghttp2_bufs) option" where
  "huff_encode_finish bufs code nbits =
     (case huff_flush bufs code nbits of
        None \<Rightarrow> None
      | Some (Inl e, bufs) \<Rightarrow> Some (Inl e, bufs)
      | Some (Inr (code, nbits), bufs) \<Rightarrow>
          if nbits \<noteq> 0 then
            nghttp2_bufs_addb bufs (ucast (drop_bit 56 code) OR (push_bit (8 - nbits) 1 - 1))
          else Some (Inr (), bufs))"

definition nghttp2_hd_huff_encode :: "nghttp2_bufs \<Rightarrow> bytes \<Rightarrow> (unit res \<times> nghttp2_bufs) option" where
  "nghttp2_hd_huff_encode bufs src =
     (case huff_encode_loop bufs src 0 0 (nghttp2_bufs_cur_avail bufs) of
        None \<Rightarrow> None
      | Some (Inl e, bufs) \<Rightarrow> Some (Inl e, bufs)
      | Some (Inr (code, nbits), bufs) \<Rightarrow> huff_encode_finish bufs code nbits)"

section \<open>Decoder\<close>

definition HUFF_ACCEPTED :: u8 where "HUFF_ACCEPTED = 1"

definition HUFF_SYM :: u8 where "HUFF_SYM = 2"

record nghttp2_hd_huff_decode_context =
  hc_fstate :: u16
  hc_flags :: u8

definition nghttp2_hd_huff_decode_context_init :: nghttp2_hd_huff_decode_context where
  "nghttp2_hd_huff_decode_context_init = \<lparr>hc_fstate = 0, hc_flags = HUFF_ACCEPTED\<rparr>"

text \<open>
  \<open>*buf->last++ = t.sym\<close> when the transition emits a symbol. The code does not check the room of
  the buffer; where it would write past the end, the result of the model is \<open>None\<close>.
\<close>

definition huff_emit :: "nghttp2_huff_decode \<Rightarrow> nghttp2_buf \<Rightarrow> nghttp2_buf option" where
  "huff_emit t buf =
     (if hflags t AND HUFF_SYM = 0 then Some buf
      else if last buf < length (arr buf)
      then Some (buf\<lparr>arr := (arr buf)[last buf := hsym t], last := last buf + 1\<rparr>)
      else None)"

fun huff_decode_loop ::
  "nghttp2_huff_decode \<Rightarrow> nghttp2_buf \<Rightarrow> bytes \<Rightarrow> (nghttp2_huff_decode \<times> nghttp2_buf) option" where
  "huff_decode_loop t buf [] = Some (t, buf)"
| "huff_decode_loop t buf (c # src) =
     do {
       let t = huff_decode_table ! unat (hfstate t) ! unat (drop_bit 4 c);
       buf \<leftarrow> huff_emit t buf;
       let t = huff_decode_table ! unat (hfstate t) ! unat (c AND 0xf);
       buf \<leftarrow> huff_emit t buf;
       huff_decode_loop t buf src
     }"

definition nghttp2_hd_huff_decode ::
  "nghttp2_hd_huff_decode_context \<Rightarrow> nghttp2_buf \<Rightarrow> bytes \<Rightarrow> bool \<Rightarrow>
   (nat res \<times> nghttp2_hd_huff_decode_context \<times> nghttp2_buf) option" where
  "nghttp2_hd_huff_decode ctx buf src fin =
     do {
       (t, buf) \<leftarrow> huff_decode_loop (Huff_decode (hc_fstate ctx) (hc_flags ctx) 0) buf src;
       let ctx = \<lparr>hc_fstate = hfstate t, hc_flags = hflags t\<rparr>;
       if fin \<and> hc_flags ctx AND HUFF_ACCEPTED = 0 then Some (Inl ERR_HEADER_COMP, ctx, buf)
       else Some (Inr (length src), ctx, buf)
     }"

definition nghttp2_hd_huff_decode_failure_state :: "nghttp2_hd_huff_decode_context \<Rightarrow> bool" where
  "nghttp2_hd_huff_decode_failure_state ctx \<longleftrightarrow> hc_fstate ctx = 0x100"

definition nghttp2_huff_estimate_decode_length :: "nat \<Rightarrow> nat" where
  "nghttp2_huff_estimate_decode_length len = len * 8 div 5"

section \<open>Bits and bytes\<close>

lemma length_word_bits [simp]: "length (word_bits (w :: 'a :: len word)) = LENGTH('a)"
  by (simp add: word_bits_def)

lemma nth_word_bits [simp]:
  "i < LENGTH('a) \<Longrightarrow> word_bits (w :: 'a :: len word) ! i = bit w (LENGTH('a) - 1 - i)"
  by (simp add: word_bits_def)

lemma word_bits_inject: "word_bits v = word_bits w \<longleftrightarrow> v = (w :: 'a :: len word)"
proof
  assume eq: "word_bits v = word_bits w"
  show "v = w"
  proof (rule bit_word_eqI)
    fix n assume "n < LENGTH('a)"
    then show "bit v n \<longleftrightarrow> bit w n"
      using arg_cong [OF eq, of "\<lambda>l. l ! (LENGTH('a) - 1 - n)"] by simp
  qed
qed simp

text \<open>The value of a string of bits, most significant first, and the byte made of eight bits.\<close>

definition bits_val :: "bool list \<Rightarrow> nat" where
  "bits_val bs = horner_sum of_bool 2 (rev bs)"

definition byte_of_bits :: "bool list \<Rightarrow> u8" where
  "byte_of_bits bs = word_of_nat (bits_val bs)"

lemma bits_val_Nil [simp]: "bits_val [] = 0"
  by (simp add: bits_val_def)

lemma bits_val_Cons: "bits_val (b # bs) = of_bool b * 2 ^ length bs + bits_val bs"
  by (simp add: bits_val_def horner_sum_append ac_simps)

lemma bits_val_lt: "bits_val bs < 2 ^ length bs"
  by (induction bs) (auto simp: bits_val_Cons)

lemma bits_val_bits: "bits_val (rev (map (bit n) [0..<k])) = take_bit k n"
  by (simp add: bits_val_def horner_sum_bit_eq_take_bit)

lemma word_bits_rev: "word_bits (w :: 'a :: len word) = rev (map (bit (unat w)) [0..<LENGTH('a)])"
  by (rule nth_equalityI) (simp_all add: rev_nth bit_unsigned_iff bit_imp_le_length)

lemma bits_val_word_bits: "bits_val (word_bits (w :: 'a :: len word)) = unat w"
  by (simp add: word_bits_rev bits_val_bits take_bit_eq_mod)

lemma word_bits_byte: "length bs = 8 \<Longrightarrow> word_bits (byte_of_bits bs) = bs"
proof -
  assume l: "length bs = 8"
  have "unat (byte_of_bits bs) = bits_val bs"
    using bits_val_lt [of bs] l by (simp add: byte_of_bits_def unsigned_of_nat take_bit_eq_mod)
  then show ?thesis using l
    by (intro nth_equalityI)
      (auto simp: word_bits_rev rev_nth bits_val_def bit_horner_sum_bit_iff)
qed

definition bytes_bits :: "bytes \<Rightarrow> bool list" where
  "bytes_bits bs = concat (map word_bits bs)"

lemma bytes_bits_simps [simp]:
  "bytes_bits [] = []" "bytes_bits (b # bs) = word_bits b @ bytes_bits bs"
  "bytes_bits (xs @ ys) = bytes_bits xs @ bytes_bits ys"
  by (simp_all add: bytes_bits_def)

lemma length_bytes_bits [simp]: "length (bytes_bits bs) = 8 * length bs"
  by (induction bs) auto

lemma bytes_bits_inject: "bytes_bits xs = bytes_bits ys \<Longrightarrow> xs = ys"
proof (induction xs arbitrary: ys)
  case Nil
  then have "length (bytes_bits ys) = 0" by simp
  then show ?case by simp
next
  case (Cons x xs)
  from arg_cong [OF Cons.prems, of length] obtain y ys' where "ys = y # ys'" by (cases ys) auto
  with Cons show ?case by (auto simp: word_bits_inject)
qed

text \<open>Packing a string of bits into bytes, the last of which is filled up with ones.\<close>

fun pack_bits :: "bool list \<Rightarrow> bytes" where
  "pack_bits bs =
     (if bs = [] then []
      else byte_of_bits (take 8 (bs @ replicate 7 True)) # pack_bits (drop 8 bs))"

declare pack_bits.simps [simp del]

lemma pack_bits_Nil [simp]: "pack_bits [] = []"
  by (simp add: pack_bits.simps)

lemma pack_bits_short:
  "bs \<noteq> [] \<Longrightarrow> length bs \<le> 8 \<Longrightarrow> pack_bits bs = [byte_of_bits (bs @ replicate (8 - length bs) True)]"
proof -
  assume bs: "bs \<noteq> []" "length bs \<le> 8"
  then have "0 < length bs" by simp
  then have "8 - length bs \<le> 7" by linarith
  then show ?thesis using bs by (subst pack_bits.simps) (simp add: min_def)
qed

lemma pack_bits_append: "length p = 8 * k \<Longrightarrow> pack_bits (p @ q) = pack_bits p @ pack_bits q"
proof (induction k arbitrary: p)
  case 0
  then show ?case by simp
next
  case (Suc k)
  then have l: "8 \<le> length p" by simp
  then have "p \<noteq> []" by auto
  with l Suc.IH [of "drop 8 p"] Suc.prems show ?case
    by (simp add: pack_bits.simps [of "p @ q"] pack_bits.simps [of p])
qed

lemma pack_bits_bytes: "pack_bits (bytes_bits bs) = bs"
proof (induction bs)
  case (Cons b bs)
  have "pack_bits (word_bits b @ bytes_bits bs) = pack_bits (word_bits b) @ bs"
    using Cons.IH pack_bits_append [of "word_bits b" 1 "bytes_bits bs"] by simp
  moreover have "length (word_bits b) \<noteq> 0" by simp
  then have "word_bits b \<noteq> []" by force
  then have "pack_bits (word_bits b) = [b]"
    by (subst pack_bits_short) (simp_all add: word_bits_inject [symmetric] word_bits_byte)
  ultimately show ?case by simp
qed simp

lemma bytes_pack_bits:
  "bytes_bits (pack_bits bs) = bs @ replicate ((8 - length bs mod 8) mod 8) True"
proof (induction bs rule: pack_bits.induct)
  case (1 bs)
  show ?case
  proof (cases "bs = []")
    case True
    then show ?thesis by simp
  next
    case ne: False
    show ?thesis
    proof (cases "length bs < 8")
      case True
      with ne show ?thesis
        by (simp add: pack_bits_short word_bits_byte)
    next
      case False
      then have "bytes_bits (pack_bits bs) = take 8 bs @ bytes_bits (pack_bits (drop 8 bs))"
        using ne by (simp add: pack_bits.simps [of bs] word_bits_byte)
      then show ?thesis using 1 ne False by (simp add: le_mod_geq)
    qed
  qed
qed

lemma div_bytes: "0 < n \<Longrightarrow> (n + 7) div 8 = Suc ((n - 8 + 7) div (8 :: nat))"
proof -
  assume "0 < n"
  show ?thesis
  proof (cases "n < 8")
    case True
    with \<open>0 < n\<close> have e: "n + 7 = 8 + (n - 1)" "n - 1 < 8" "n - 8 + 7 < 8" by auto
    have "(8 + (n - 1)) div 8 = Suc ((n - 1) div 8)" by simp
    then show ?thesis using e by simp
  next
    case False
    then have "n + 7 = 8 + (n - 8 + 7)" by simp
    moreover have "(8 + (n - 8 + 7)) div 8 = Suc ((n - 8 + 7) div 8)" by simp
    ultimately show ?thesis by simp
  qed
qed

lemma length_pack_bits: "length (pack_bits bs) = (length bs + 7) div 8"
proof (induction bs rule: pack_bits.induct)
  case (1 bs)
  show ?case
  proof (cases "bs = []")
    case True
    then show ?thesis by simp
  next
    case False
    then have "0 < length bs" by simp
    then have "(length bs + 7) div 8 = Suc ((length bs - 8 + 7) div 8)" by (rule div_bytes)
    with 1 False show ?thesis by (simp add: pack_bits.simps [of bs])
  qed
qed

section \<open>The register of the encoder\<close>

text \<open>
  \<open>reg code p\<close>: the bits \<open>p\<close> are at the top of the register and the rest of it is zero.
\<close>

definition reg :: "u64 \<Rightarrow> bool list \<Rightarrow> bool" where
  "reg code p \<longleftrightarrow> length p \<le> 64 \<and> word_bits code = p @ replicate (64 - length p) False"

lemma reg_bit: "reg code p \<Longrightarrow> i < 64 \<Longrightarrow> bit code (63 - i) = (i < length p \<and> p ! i)"
proof -
  assume r: "reg code p" and i: "i < 64"
  have "word_bits code ! i = (p @ replicate (64 - length p) False) ! i" using r by (simp add: reg_def)
  then show ?thesis using i by (simp add: nth_append split: if_splits)
qed

lemma regI: "length p \<le> 64 \<Longrightarrow> (\<And>i. i < 64 \<Longrightarrow> bit code (63 - i) = (i < length p \<and> p ! i)) \<Longrightarrow> reg code p"
proof -
  assume l: "length p \<le> 64" and b: "\<And>i. i < 64 \<Longrightarrow> bit code (63 - i) = (i < length p \<and> p ! i)"
  have "word_bits code = p @ replicate (64 - length p) False"
  proof (rule nth_equalityI)
    fix i assume "i < length (word_bits code)"
    then have "i < 64" by simp
    then show "word_bits code ! i = (p @ replicate (64 - length p) False) ! i"
      using b [of i] l by (simp add: nth_append)
  qed (use l in simp)
  with l show ?thesis by (simp add: reg_def)
qed

lemma reg_0: "reg 0 []"
  by (rule regI) simp_all

lemma reg_shift:
  assumes "reg code p" and "k \<le> length p" and "k < 64"
  shows "reg (push_bit k code) (drop k p)"
proof (rule regI)
  fix i :: nat assume i: "i < 64"
  show "bit (push_bit k code) (63 - i) = (i < length (drop k p) \<and> drop k p ! i)"
  proof (cases "i + k < 64")
    case True
    then have "bit (push_bit k code) (63 - i) = bit code (63 - (i + k))"
      using i by (auto simp: bit_push_bit_iff)
    then show ?thesis using reg_bit [OF assms(1) True] assms(2) by (simp add: add.commute less_diff_conv)
  next
    case False
    then show ?thesis using i assms by (auto simp: bit_push_bit_iff reg_def)
  qed
qed (use assms in \<open>auto simp: reg_def\<close>)

lemma reg_top: "reg code p \<Longrightarrow> 8 \<le> length p \<Longrightarrow> word_bits (ucast (drop_bit 56 code) :: u8) = take 8 p"
  using reg_bit [of code p]
  by (intro nth_equalityI) (auto simp: bit_ucast_iff bit_drop_bit_eq)

lemma reg_top_byte:
  "reg code p \<Longrightarrow> 8 \<le> length p \<Longrightarrow> ucast (drop_bit 56 code) = byte_of_bits (take 8 p)"
  using reg_top [of code p] word_bits_byte [of "take 8 p"] by (metis length_take min.absorb2 word_bits_inject)

lemma reg_top32:
  assumes "reg code p" and "32 \<le> length p"
  shows "bytes_bits (nghttp2_put_uint32be (ucast (drop_bit 32 code))) = take 32 p"
proof (rule nth_equalityI)
  let ?x = "ucast (drop_bit 32 code) :: u32"
  fix i assume "i < length (bytes_bits (nghttp2_put_uint32be ?x))"
  then have i: "i < 32" by (simp add: nghttp2_put_uint32be_def)
  have x: "bit ?x j = bit code (j + 32)" if "j < 32" for j
    using that by (simp add: bit_ucast_iff bit_drop_bit_eq add.commute)
  have "bytes_bits (nghttp2_put_uint32be ?x) ! i = bit ?x (31 - i)"
    using i by (auto simp: nghttp2_put_uint32be_def nth_append bit_ucast_iff bit_drop_bit_eq
        bit_imp_le_length)
  then show "bytes_bits (nghttp2_put_uint32be ?x) ! i = take 32 p ! i"
    using i x [of "31 - i"] reg_bit [OF assms(1), of i] assms(2) by simp
qed (use assms in \<open>simp add: nghttp2_put_uint32be_def\<close>)

lemma reg_or:
  assumes "reg code p" and "length p < 32" and "word_bits (c :: u32) = q @ replicate (32 - length q) False"
    and "length q \<le> 32"
  shows "reg (code OR push_bit (32 - length p) (ucast c)) (p @ q)"
proof (rule regI)
  fix i :: nat assume i: "i < 64"
  have c: "bit c (31 - j) = (j < length q \<and> q ! j)" if "j < 32" for j
  proof -
    have "word_bits c ! j = (q @ replicate (32 - length q) False) ! j" using assms(3) by simp
    then show ?thesis using that by (simp add: nth_append split: if_splits)
  qed
  have "bit (push_bit (32 - length p) (ucast c :: u64)) (63 - i) =
      (length p \<le> i \<and> i < length p + 32 \<and> bit c (31 - (i - length p)))"
  proof (cases "length p \<le> i")
    case True
    then have "63 - i - (32 - length p) = 31 - (i - length p)" "32 - length p \<le> 63 - i \<longleftrightarrow> i < length p + 32"
      using i assms(2) by auto
    then show ?thesis using True by (auto simp: bit_push_bit_iff bit_ucast_iff)
  next
    case False
    then have "\<not> bit c (63 - i - (32 - length p))"
      using i assms(2) bit_imp_le_length [of c "63 - i - (32 - length p)"] by auto
    then show ?thesis using False by (auto simp: bit_push_bit_iff bit_ucast_iff)
  qed
  then show "bit (code OR push_bit (32 - length p) (ucast c)) (63 - i) =
      (i < length (p @ q) \<and> (p @ q) ! i)"
    using reg_bit [OF assms(1) i] c [of "i - length p"] assms(4)
    by (cases "length p \<le> i"; cases "i < length p + 32") (auto simp: bit_or_iff nth_append)
qed (use assms in simp)

lemma reg_pad:
  assumes "reg code p" and "length p < 8" and "p \<noteq> []"
  shows "ucast (drop_bit 56 code) OR (push_bit (8 - length p) 1 - 1) =
    byte_of_bits (p @ replicate (8 - length p) True)"
proof -
  have m: "push_bit (8 - length p) 1 - 1 = (mask (8 - length p) :: u8)"
    by (simp add: mask_eq_exp_minus_1 push_bit_eq_mult)
  have "word_bits (ucast (drop_bit 56 code) OR (mask (8 - length p) :: u8)) =
      p @ replicate (8 - length p) True"
    using assms(2) reg_bit [OF assms(1)]
    by (intro nth_equalityI) (auto simp: bit_or_iff bit_ucast_iff bit_drop_bit_eq bit_mask_iff nth_append)
  moreover have "length (p @ replicate (8 - length p) True) = 8" using assms(2) by simp
  ultimately show ?thesis using word_bits_byte unfolding m by (metis word_bits_inject)
qed

section \<open>The encoder writes the packed codes\<close>

definition sym_bits :: "u8 \<Rightarrow> bool list" where
  "sym_bits c = code_bits (huff_sym_table ! unat c)"

definition huff_bits :: "bytes \<Rightarrow> bool list" where
  "huff_bits src = concat (map sym_bits src)"

definition huff_bytes :: "bytes \<Rightarrow> bytes" where
  "huff_bytes src = pack_bits (huff_bits src)"

lemma huff_bits_simps [simp]:
  "huff_bits [] = []" "huff_bits (c # src) = sym_bits c @ huff_bits src"
  "huff_bits (xs @ ys) = huff_bits xs @ huff_bits ys"
  by (simp_all add: huff_bits_def)

definition sym_ok :: "nghttp2_huff_sym \<Rightarrow> bool" where
  "sym_ok e \<longleftrightarrow> 5 \<le> hnbits e \<and> hnbits e \<le> 30 \<and>
     list_all Not (drop (hnbits e) (word_bits (hcode e)))"

lemma huff_sym_table_ok: "list_all sym_ok huff_sym_table"
  by (simp add: huff_sym_table_def sym_ok_def word_bits_32)

lemma sym_ok_nth: "n < 257 \<Longrightarrow> sym_ok (huff_sym_table ! n)"
  using huff_sym_table_ok by (simp add: list_all_length)

lemma unat_lt_257 [simp]: "unat (c :: u8) < 257"
  by (rule less_trans [OF unat_u8_lt]) simp

lemma sym_code:
  assumes "n < 257"
  defines "e \<equiv> huff_sym_table ! n"
  shows "length (code_bits e) = hnbits e" "5 \<le> hnbits e" "hnbits e \<le> 30"
    "word_bits (hcode e) = code_bits e @ replicate (32 - hnbits e) False"
proof -
  have ok: "sym_ok e" using sym_ok_nth [OF assms(1)] by (simp add: e_def)
  then show l: "length (code_bits e) = hnbits e" "5 \<le> hnbits e" "hnbits e \<le> 30"
    by (auto simp: sym_ok_def code_bits_def)
  have "drop (hnbits e) (word_bits (hcode e)) = replicate (32 - hnbits e) False"
    using ok by (intro nth_equalityI) (auto simp: sym_ok_def list_all_length)
  then show "word_bits (hcode e) = code_bits e @ replicate (32 - hnbits e) False"
    by (metis append_take_drop_id code_bits_def)
qed

lemma huff_flush_adds:
  assumes "bufs_wf bufs" "bufs_roomy bufs" "reg code p" "length p = n"
  shows "\<exists>code'. reg code' (drop (8 * (n div 8)) p) \<and>
    huff_flush bufs code n = Some
      (case nghttp2_bufs_add bufs (pack_bits (take (8 * (n div 8)) p)) of
         (Inl e, b) \<Rightarrow> (Inl e, b) | (Inr _, b) \<Rightarrow> (Inr (code', n mod 8), b))"
  using assms
proof (induction n arbitrary: bufs code p rule: less_induct)
  case (less n)
  show ?case
  proof (cases "n < 8")
    case True
    with less.prems show ?thesis by (auto simp: huff_flush.simps)
  next
    case False
    define b where "b = byte_of_bits (take 8 p)"
    have n: "8 * (n div 8) = 8 + 8 * ((n - 8) div 8)" "n mod 8 = (n - 8) mod 8"
      using False by (auto simp: le_div_geq le_mod_geq)
    have pk: "pack_bits (take (8 * (n div 8)) p) = b # pack_bits (take (8 * ((n - 8) div 8)) (drop 8 p))"
    proof -
      have t: "take (8 * (n div 8)) p = take 8 p @ take (8 * ((n - 8) div 8)) (drop 8 p)"
        unfolding n(1) by (rule take_add)
      have "pack_bits (take 8 p) = [b]"
        using False less.prems(4) by (subst pack_bits_short) (auto simp: b_def)
      then show ?thesis
        unfolding t using pack_bits_append [of "take 8 p" 1] False less.prems(4) by simp
    qed
    have top: "ucast (drop_bit 56 code) = b"
      using reg_top_byte [OF less.prems(3)] False less.prems(4) by (simp add: b_def)
    obtain r b1 where a: "nghttp2_bufs_add bufs [b] = (r, b1)" by fastforce
    have fl: "huff_flush bufs code n = (case (r, b1) of (Inl e, bufs) \<Rightarrow> Some (Inl e, bufs)
         | (Inr _, bufs) \<Rightarrow> huff_flush bufs (push_bit 8 code) (n - 8))"
      using False a nghttp2_bufs_addb_is_add [OF less.prems(1,2)] by (subst huff_flush.simps) (simp add: top)
    have split: "nghttp2_bufs_add bufs (b # q) =
        (case (r, b1) of (Inl e, b) \<Rightarrow> (Inl e, b) | (Inr _, b) \<Rightarrow> nghttp2_bufs_add b q)" for q
      using nghttp2_bufs_add_append [OF less.prems(1), of "[b]" q] a by simp
    have wf1: "bufs_wf b1" "bufs_roomy b1"
      using nghttp2_bufs_add_ok [OF less.prems(1) a] bufs_roomy_add [OF less.prems(1,2) a] by auto
    have reg1: "reg (push_bit 8 code) (drop 8 p)"
      using reg_shift [OF less.prems(3), of 8] False less.prems(4) by simp
    from less.IH [of "n - 8" b1 "push_bit 8 code" "drop 8 p"] False less.prems(4) wf1 reg1
    obtain code' where c: "reg code' (drop (8 * ((n - 8) div 8)) (drop 8 p))"
      "huff_flush b1 (push_bit 8 code) (n - 8) = Some
        (case nghttp2_bufs_add b1 (pack_bits (take (8 * ((n - 8) div 8)) (drop 8 p))) of
           (Inl e, b) \<Rightarrow> (Inl e, b) | (Inr _, b) \<Rightarrow> (Inr (code', (n - 8) mod 8), b))" by auto
    have "reg code' (drop (8 * (n div 8)) p)" using c(1) n(1) by (simp add: add.commute)
    moreover have "huff_flush bufs code n = Some
      (case nghttp2_bufs_add bufs (pack_bits (take (8 * (n div 8)) p)) of
         (Inl e, b) \<Rightarrow> (Inl e, b) | (Inr _, b) \<Rightarrow> (Inr (code', n mod 8), b))"
      unfolding pk split fl n(2) using c(2) by (cases r) simp_all
    ultimately show ?thesis by blast
  qed
qed

lemma huff_finish_adds:
  assumes "bufs_wf bufs" "bufs_roomy bufs" "reg code p" "length p = n"
  shows "huff_encode_finish bufs code n = Some (nghttp2_bufs_add bufs (pack_bits p))"
proof -
  let ?k = "8 * (n div 8)"
  obtain code' where c: "reg code' (drop ?k p)"
    "huff_flush bufs code n = Some (case nghttp2_bufs_add bufs (pack_bits (take ?k p)) of
         (Inl e, b) \<Rightarrow> (Inl e, b) | (Inr _, b) \<Rightarrow> (Inr (code', n mod 8), b))"
    using huff_flush_adds [OF assms] by auto
  obtain r b where a: "nghttp2_bufs_add bufs (pack_bits (take ?k p)) = (r, b)" by fastforce
  have "pack_bits p = pack_bits (take ?k p) @ pack_bits (drop ?k p)"
    using pack_bits_append [of "take ?k p" "n div 8" "drop ?k p"] assms(4) by simp
  then have sp: "nghttp2_bufs_add bufs (pack_bits p) =
      (case (r, b) of (Inl e, b) \<Rightarrow> (Inl e, b) | (Inr _, b) \<Rightarrow> nghttp2_bufs_add b (pack_bits (drop ?k p)))"
    using nghttp2_bufs_add_append [OF assms(1)] a by simp
  have l: "length (drop ?k p) = n mod 8" using assms(4) by (simp add: minus_mult_div_eq_mod)
  have wf: "bufs_wf b" "bufs_roomy b"
    using nghttp2_bufs_add_ok [OF assms(1) a] bufs_roomy_add [OF assms(1,2) a] by auto
  show ?thesis
  proof (cases "n mod 8 = 0")
    case True
    then have "pack_bits (drop ?k p) = []" using l by simp
    then show ?thesis using sp c(2) a True by (cases r) (simp_all add: huff_encode_finish_def)
  next
    case False
    then have ne: "drop ?k p \<noteq> []" using l by force
    have pb: "pack_bits (drop ?k p) = [byte_of_bits (drop ?k p @ replicate (8 - n mod 8) True)]"
      using pack_bits_short [OF ne] l by simp
    have "ucast (drop_bit 56 code') OR (push_bit (8 - n mod 8) 1 - 1) =
        byte_of_bits (drop ?k p @ replicate (8 - n mod 8) True)"
      using reg_pad [OF c(1) _ ne] l by simp
    then show ?thesis
      using sp c(2) a False pb nghttp2_bufs_addb_is_add [OF wf]
      by (cases r) (simp_all add: huff_encode_finish_def)
  qed
qed

lemma huff_encode_loop_adds:
  assumes "bufs_wf bufs" "bufs_roomy bufs" "reg code p" "length p < 32"
  shows "(case huff_encode_loop bufs src code (length p) (nghttp2_bufs_cur_avail bufs) of
        None \<Rightarrow> None
      | Some (Inl e, bufs) \<Rightarrow> Some (Inl e, bufs)
      | Some (Inr (code, nbits), bufs) \<Rightarrow> huff_encode_finish bufs code nbits) =
    Some (nghttp2_bufs_add bufs (pack_bits (p @ huff_bits src)))"
  using assms
proof (induction src arbitrary: bufs code p)
  case Nil
  then show ?case by (simp add: huff_finish_adds)
next
  case (Cons c src)
  define e where "e = huff_sym_table ! unat c"
  define code1 where "code1 = code OR push_bit (32 - length p) (ucast (hcode e))"
  define p1 where "p1 = p @ sym_bits c"
  note s = sym_code [OF unat_lt_257 [of c], folded e_def]
  have l1: "length p + hnbits e = length p1" "length p1 < 64" "32 \<le> length p1 \<Longrightarrow> length p1 < 62"
    using s Cons.prems(4) by (auto simp: p1_def sym_bits_def e_def [symmetric])
  have reg1: "reg code1 p1"
    using reg_or [OF Cons.prems(3,4), of "hcode e" "code_bits e"] s
    by (simp add: code1_def p1_def sym_bits_def e_def [symmetric])
  show ?case
  proof (cases "length p1 < 32")
    case True
    then show ?thesis
      using Cons.IH [OF Cons.prems(1,2) reg1 True]
      by (simp add: Let_def e_def [symmetric] code1_def [symmetric] l1(1) p1_def)
  next
    case ge: False
    show ?thesis
    proof (cases "4 \<le> nghttp2_bufs_cur_avail bufs")
      case True
      define x where "x = nghttp2_put_uint32be (ucast (drop_bit 32 code1))"
      let ?b = "set_cur_buf (buf_write x (cur_buf bufs)) bufs"
      have lx: "length x = 4" by (simp add: x_def nghttp2_put_uint32be_def)
      then have fit: "length x \<le> nghttp2_buf_avail (cur_buf bufs)" "x \<noteq> []"
        using True by (auto simp: nghttp2_bufs_cur_avail_def)
      have ok: "buf_ok (cur_buf bufs)" by (rule cur_buf_ok [OF Cons.prems(1)])
      have wf: "bufs_wf ?b" "bufs_roomy ?b"
        using Cons.prems(1,2) buf_ok_write [OF ok fit(1)] by (auto intro: set_cur_buf_wf)
      have av: "nghttp2_bufs_cur_avail ?b = nghttp2_bufs_cur_avail bufs - 4"
        using fit lx ok Cons.prems(1)
        by (simp add: nghttp2_bufs_cur_avail_def set_cur_buf_def bufs_wf_def avail_write buf_ok_def)
      have "pack_bits (take 32 p1) = x"
        using reg_top32 [OF reg1] ge pack_bits_bytes [of x] by (simp add: x_def)
      then have pk: "pack_bits (p1 @ huff_bits src) = x @ pack_bits (drop 32 p1 @ huff_bits src)"
        using pack_bits_append [of "take 32 p1" 4 "drop 32 p1 @ huff_bits src"] ge
        by (simp flip: append_assoc)
      have "reg (push_bit 32 code1) (drop 32 p1)" using reg_shift [OF reg1, of 32] ge by simp
      from Cons.IH [OF wf this] l1 ge
      show ?thesis
        using True nghttp2_bufs_add_fit [OF Cons.prems(1) fit, of "pack_bits (drop 32 p1 @ huff_bits src)"]
        by (simp add: Let_def e_def [symmetric] code1_def [symmetric] l1(1) x_def [symmetric] av pk
            p1_def [symmetric] flip: append_assoc)
    next
      case False
      let ?n = "length p1" let ?k = "8 * (length p1 div 8)"
      obtain code' where f: "reg code' (drop ?k p1)"
        "huff_flush bufs code1 ?n = Some (case nghttp2_bufs_add bufs (pack_bits (take ?k p1)) of
           (Inl e, b) \<Rightarrow> (Inl e, b) | (Inr _, b) \<Rightarrow> (Inr (code', ?n mod 8), b))"
        using huff_flush_adds [OF Cons.prems(1,2) reg1 refl] by auto
      obtain r b where a: "nghttp2_bufs_add bufs (pack_bits (take ?k p1)) = (r, b)" by fastforce
      have eq: "p1 @ huff_bits src = take ?k p1 @ (drop ?k p1 @ huff_bits src)"
        by (metis append_assoc append_take_drop_id)
      have "pack_bits (p1 @ huff_bits src) =
          pack_bits (take ?k p1) @ pack_bits (drop ?k p1 @ huff_bits src)"
        by (subst eq) (rule pack_bits_append [of _ "?n div 8"], simp)
      then have sp: "nghttp2_bufs_add bufs (pack_bits (p1 @ huff_bits src)) = (case (r, b) of
          (Inl e, b) \<Rightarrow> (Inl e, b) | (Inr _, b) \<Rightarrow> nghttp2_bufs_add b (pack_bits (drop ?k p1 @ huff_bits src)))"
        using nghttp2_bufs_add_append [OF Cons.prems(1)] a by simp
      have wf: "bufs_wf b" "bufs_roomy b"
        using nghttp2_bufs_add_ok [OF Cons.prems(1) a] bufs_roomy_add [OF Cons.prems(1,2) a] by auto
      have l: "length (drop ?k p1) = ?n mod 8" by (simp add: minus_mult_div_eq_mod)
      have "length (drop ?k p1) < 32" unfolding l by (rule less_trans [of _ 8]) simp_all
      from Cons.IH [OF wf f(1) this, unfolded l] show ?thesis
        using ge False sp f(2) a
        by (cases r) (simp_all add: Let_def e_def [symmetric] code1_def [symmetric] l1(1)
            p1_def [symmetric] l flip: append_assoc)
    qed
  qed
qed

lemma huff_encode_is_add:
  assumes "bufs_wf bufs" "bufs_roomy bufs"
  shows "nghttp2_hd_huff_encode bufs src = Some (nghttp2_bufs_add bufs (huff_bytes src))"
  using huff_encode_loop_adds [OF assms reg_0, of src]
  by (simp add: nghttp2_hd_huff_encode_def huff_bytes_def)

lemma count_bits_length: "count_bits src n = n + length (huff_bits src)"
  by (induction src arbitrary: n) (auto simp: sym_bits_def sym_code)

lemma huff_encode_count: "nghttp2_hd_huff_encode_count src = length (huff_bytes src)"
  by (simp add: nghttp2_hd_huff_encode_count_def huff_bytes_def length_pack_bits count_bits_length)

end
