(* ===== verification/Nghttp2_Huffman_Correct.thy ===== *)
theory Nghttp2_Huffman_Correct
  imports Nghttp2_Huffman
begin

text \<open>
  The decoder computes the inverse of the code: its runs are walks in the tree, a walk from the
  root splits its input into codes, and the accepting states are those where the rest of the
  input is a padding of at most seven ones.
\<close>

unbundle bit_operations_syntax

section \<open>Walks in the tree\<close>

fun walk :: "htree \<Rightarrow> bool list \<Rightarrow> (htree \<times> nat list) option" where
  "walk t [] = Some (t, [])"
| "walk t (b # bs) =
     (case hop (hchild b t) None of
        None \<Rightarrow> None
      | Some (t', e) \<Rightarrow>
          (case walk t' bs of
             None \<Rightarrow> None
           | Some (u, ss) \<Rightarrow> Some (u, case e of None \<Rightarrow> ss | Some s \<Rightarrow> s # ss)))"

definition table_code :: "nat \<Rightarrow> bool list" where
  "table_code s = code_bits (huff_sym_table ! s)"

lemma length_row_of [simp]: "length (row_of n x) = 2 ^ n"
proof (induction n arbitrary: x)
  case 0
  then show ?case by (cases x) (auto simp: row_of.simps)
next
  case (Suc n)
  then show ?case by (cases x) (auto simp: row_of.simps)
qed

lemma row_of_None: "i < 2 ^ n \<Longrightarrow> row_of n None ! i = failure_entry"
  by (induction n arbitrary: i) (auto simp: nth_append)

lemma row_of_walk:
  "row_of (length bs) (Some (t, e)) ! bits_val bs =
     (case walk t bs of
        None \<Rightarrow> failure_entry
      | Some (u, ss) \<Rightarrow> entry_of u (if ss = [] then e else Some (List.last ss)))"
proof (induction bs arbitrary: t e)
  case Nil
  then show ?case by (simp add: row_of.simps)
next
  case (Cons b bs)
  have lt: "bits_val bs < 2 ^ length bs" by (rule bits_val_lt)
  have "row_of (length (b # bs)) (Some (t, e)) ! bits_val (b # bs) =
      row_of (length bs) (hop (hchild b t) e) ! bits_val bs"
    using lt by (cases b) (simp_all add: row_of.simps bits_val_Cons nth_append)
  also have "\<dots> = (case walk t (b # bs) of
        None \<Rightarrow> failure_entry
      | Some (u, ss) \<Rightarrow> entry_of u (if ss = [] then e else Some (List.last ss)))"
  proof (cases "hchild b t")
    case (Leaf s)
    then show ?thesis using Cons.IH [of huff_tree "Some s"] row_of_None [OF lt]
      by (auto split: option.splits)
  next
    case (Node i l r)
    then show ?thesis using Cons.IH [of "hchild b t" e] by (auto split: option.splits)
  qed
  finally show ?case .
qed

lemma root_node: "huff_tree \<in> set huff_nodes"
  by (simp add: huff_tree_def huff_in)

lemma walk_step_cases:
  assumes "t \<in> set huff_nodes"
  obtains (leaf) s where "hchild b t = Leaf s" "s < 256"
    | (eos) "hchild b t = Leaf 256"
    | (inner) "hchild b t \<in> set huff_nodes" "\<And>e. hop (hchild b t) e = Some (hchild b t, e)"
proof -
  from huff_closed [OF assms, of b] consider s where "s \<le> 256" "hchild b t = Leaf s"
    | "hchild b t \<in> set huff_nodes" unfolding htree_ok_def by blast
  then show thesis
  proof cases
    case 1
    then show thesis using leaf eos by (cases "s = 256") auto
  next
    case 2
    moreover obtain i l r where "hchild b t = Node i l r" using huff_nodes_Node [OF 2] by blast
    ultimately show thesis using inner by auto
  qed
qed

lemma follow_snoc: "t \<in> set huff_nodes \<Longrightarrow> follow huff_tree p = Some t \<Longrightarrow>
    follow huff_tree (p @ [b]) = Some (hchild b t)"
  by (simp add: follow_append follow_step)

lemma walk_path:
  assumes "t \<in> set huff_nodes" "follow huff_tree p = Some t" "walk t bs = Some (u, ss)"
  shows "u \<in> set huff_nodes \<and> list_all (\<lambda>s. s < 256) ss \<and>
    (\<exists>p'. follow huff_tree p' = Some u \<and> p @ bs = concat (map table_code ss) @ p')"
  using assms
proof (induction bs arbitrary: t p ss)
  case Nil
  then show ?case by auto
next
  case (Cons b bs)
  from Cons.prems(1) show ?case
  proof (cases rule: walk_step_cases [where b = b])
    case (leaf s)
    then obtain ss' where w: "walk huff_tree bs = Some (u, ss')" "ss = s # ss'"
      using Cons.prems(3) by (auto split: option.splits)
    have "follow huff_tree (p @ [b]) = Some (Leaf s)"
      using follow_snoc [OF Cons.prems(1,2), of b] leaf by simp
    then have "p @ [b] = table_code s"
      unfolding table_code_def using leaf huff_code [of s]
      by (intro follow_leaf_unique [OF distinct_leaves]) auto
    then show ?thesis using Cons.IH [OF root_node _ w(1), of "[]"] w(2) leaf
      by (auto simp flip: append_assoc)
  next
    case eos
    then show ?thesis using Cons.prems(3) by simp
  next
    case inner
    have "walk (hchild b t) bs = Some (u, ss)"
      using Cons.prems(3) inner by (auto split: option.splits)
    from Cons.IH [OF inner(1) follow_snoc [OF Cons.prems(1,2)] this] show ?thesis by auto
  qed
qed

lemma walk_code:
  "t \<in> set huff_nodes \<Longrightarrow> follow t p = Some (Leaf s) \<Longrightarrow> s < 256 \<Longrightarrow>
   walk t (p @ bs) = (case walk huff_tree bs of None \<Rightarrow> None | Some (u, ss) \<Rightarrow> Some (u, s # ss))"
proof (induction p arbitrary: t)
  case Nil
  then show ?case using huff_nodes_Node [of t] by auto
next
  case (Cons b p)
  have f: "follow (hchild b t) p = Some (Leaf s)" using Cons.prems by (simp add: follow_step)
  from Cons.prems(1) show ?case
  proof (cases rule: walk_step_cases [where b = b])
    case (leaf s')
    then have "p = []" "s' = s" using f by (cases p; simp)+
    then show ?thesis using leaf by (simp split: option.splits)
  next
    case eos
    then show ?thesis using f Cons.prems(3) by (cases p) auto
  next
    case inner
    then show ?thesis using Cons.IH [OF inner(1) f Cons.prems(3)] by (simp split: option.splits)
  qed
qed

lemma walk_inner:
  "t \<in> set huff_nodes \<Longrightarrow> follow t p = Some u \<Longrightarrow> u \<in> set huff_nodes \<Longrightarrow> walk t p = Some (u, [])"
proof (induction p arbitrary: t)
  case (Cons b p)
  have f: "follow (hchild b t) p = Some u" using Cons.prems by (simp add: follow_step)
  have nl: "\<And>s. u \<noteq> Leaf s" using huff_nodes_Node [OF Cons.prems(3)] by auto
  from Cons.prems(1) show ?case
  proof (cases rule: walk_step_cases [where b = b])
    case (leaf s')
    then have False using f nl [of s'] by (cases p) simp_all
    then show ?thesis ..
  next
    case eos
    then have False using f nl [of 256] by (cases p) simp_all
    then show ?thesis ..
  next
    case inner
    then show ?thesis using Cons.IH [OF inner(1) f Cons.prems(3)] by simp
  qed
qed simp

lemma length_table_code: "s < 257 \<Longrightarrow> 5 \<le> length (table_code s)"
  using sym_code [of s] by (simp add: table_code_def)

lemma length_codes: "list_all (\<lambda>s. s < 256) ss \<Longrightarrow> 5 * length ss \<le> length (concat (map table_code ss))"
proof (induction ss)
  case (Cons s ss)
  then show ?case using length_table_code [of s] by simp
qed simp

lemma walk_root_count: "walk huff_tree bs = Some (u, ss) \<Longrightarrow> 5 * length ss \<le> length bs"
  using walk_path [OF root_node, of "[]" bs u ss] length_codes [of ss]
  by (auto dest!: arg_cong [where f = length])

lemma walk_nibble_count:
  "t \<in> set huff_nodes \<Longrightarrow> walk t bs = Some (u, ss) \<Longrightarrow> length bs \<le> 4 \<Longrightarrow> length ss \<le> 1"
proof (induction bs arbitrary: t ss)
  case (Cons b bs)
  from Cons.prems(1) show ?case
  proof (cases rule: walk_step_cases [where b = b])
    case (leaf s)
    then obtain ss' where w: "walk huff_tree bs = Some (u, ss')" "ss = s # ss'"
      using Cons.prems(2) by (auto split: option.splits)
    then show ?thesis using walk_root_count [OF w(1)] Cons.prems(3) by (cases ss') simp_all
  next
    case eos
    then show ?thesis using Cons.prems(2) by simp
  next
    case inner
    then show ?thesis using Cons.IH [OF inner(1), of ss] Cons.prems by (auto split: option.splits)
  qed
qed simp

lemma walk_closed: "t \<in> set huff_nodes \<Longrightarrow> walk t bs = Some (u, ss) \<Longrightarrow> u \<in> set huff_nodes"
proof (induction bs arbitrary: t ss)
  case (Cons b bs)
  from Cons.prems(1) show ?case
    using Cons.IH Cons.prems(2) root_node
    by (cases rule: walk_step_cases [where b = b]) (auto split: option.splits)
qed simp

lemma walk_append:
  "walk t (xs @ ys) = (case walk t xs of
      None \<Rightarrow> None
    | Some (u, ss) \<Rightarrow> (case walk u ys of None \<Rightarrow> None | Some (v, ss') \<Rightarrow> Some (v, ss @ ss')))"
  by (induction t xs rule: walk.induct) (auto split: option.splits)

section \<open>The table steps along the tree\<close>

lemma length_huff_nodes: "length huff_nodes = 256"
  using arg_cong [OF huff_ids, of length] by simp

lemma length_huff_decode_table: "length huff_decode_table = 257"
proof -
  have "length (butlast huff_decode_table) = 256"
    using arg_cong [OF huff_rows, of length] length_huff_nodes by simp
  then show ?thesis by simp
qed

lemma table_node:
  assumes "t \<in> set huff_nodes"
  shows "node_id t < 256" "huff_decode_table ! node_id t = row4 t"
proof -
  obtain j where j: "j < 256" "t = huff_nodes ! j"
    using assms by (auto simp: in_set_conv_nth length_huff_nodes)
  have "node_id t = j"
    using arg_cong [OF huff_ids, of "\<lambda>l. l ! j"] j by (simp add: length_huff_nodes)
  moreover have "row4 t = huff_decode_table ! j"
    using arg_cong [OF huff_rows, of "\<lambda>l. l ! j"] j
    by (simp add: length_huff_nodes nth_butlast length_huff_decode_table)
  ultimately show "node_id t < 256" "huff_decode_table ! node_id t = row4 t" using j by auto
qed

lemma table_failure: "n < 16 \<Longrightarrow> huff_decode_table ! 256 ! n = failure_entry"
proof -
  assume n: "n < 16"
  have "huff_decode_table \<noteq> []" using length_huff_decode_table by auto
  then have "huff_decode_table ! 256 = List.last huff_decode_table"
    by (simp add: last_conv_nth length_huff_decode_table)
  also have "\<dots> = replicate 16 failure_entry"
    by (simp add: huff_decode_table_def huff_decode_table_36_def failure_entry_def numeral_eq_Suc)
  finally show ?thesis using n by simp
qed

text \<open>The entry represents the node \<open>t\<close>.\<close>

definition at_node :: "nghttp2_huff_decode \<Rightarrow> htree \<Rightarrow> bool" where
  "at_node e t \<longleftrightarrow> t \<in> set huff_nodes \<and> hfstate e = word_of_nat (node_id t) \<and>
     (hflags e AND HUFF_ACCEPTED \<noteq> 0 \<longleftrightarrow> accepting (node_id t))"

definition put_sym :: "u8 \<Rightarrow> nghttp2_buf \<Rightarrow> nghttp2_buf" where
  "put_sym s buf = buf\<lparr>arr := (arr buf)[last buf := s], last := last buf + 1\<rparr>"

fun put_syms :: "bytes \<Rightarrow> nghttp2_buf \<Rightarrow> nghttp2_buf" where
  "put_syms [] buf = buf"
| "put_syms (s # ss) buf = put_syms ss (put_sym s buf)"

lemma put_syms_append: "put_syms (xs @ ys) buf = put_syms ys (put_syms xs buf)"
  by (induction xs arbitrary: buf) auto

lemma put_syms_write: "last buf + length xs \<le> length (arr buf) \<Longrightarrow> put_syms xs buf = buf_write xs buf"
proof (induction xs arbitrary: buf)
  case Nil
  then show ?case by (simp add: buf_write_def nghttp2_cpymem_def)
next
  case (Cons x xs)
  have "put_sym x buf = buf_write [x] buf"
    using Cons.prems by (simp add: put_sym_def buf_write_def nghttp2_cpymem_def blit_one)
  moreover have "put_syms xs (put_sym x buf) = buf_write xs (put_sym x buf)"
    using Cons.prems by (intro Cons.IH) (simp add: put_sym_def)
  ultimately show ?case using buf_write_append [of buf "[x]" xs] Cons.prems by simp
qed

text \<open>
  The automaton on a buffer without end: a device for the proofs. It agrees with the decoder as
  long as \<open>last\<close> stays inside the array.
\<close>

definition emit_raw :: "nghttp2_huff_decode \<Rightarrow> nghttp2_buf \<Rightarrow> nghttp2_buf" where
  "emit_raw t buf = (if hflags t AND HUFF_SYM \<noteq> 0 then put_sym (hsym t) buf else buf)"

fun raw_loop ::
  "nghttp2_huff_decode \<Rightarrow> nghttp2_buf \<Rightarrow> bytes \<Rightarrow> nghttp2_huff_decode \<times> nghttp2_buf" where
  "raw_loop t buf [] = (t, buf)"
| "raw_loop t buf (c # src) =
     (let t = huff_decode_table ! unat (hfstate t) ! unat (drop_bit 4 c);
          buf = emit_raw t buf;
          t = huff_decode_table ! unat (hfstate t) ! unat (c AND 0xf);
          buf = emit_raw t buf
      in raw_loop t buf src)"

lemma emit_raw_grows: "last buf \<le> last (emit_raw t buf)" "length (arr (emit_raw t buf)) = length (arr buf)"
  by (simp_all add: emit_raw_def put_sym_def)

lemma emit_raw_fits: "last (emit_raw t buf) \<le> length (arr buf) \<Longrightarrow> huff_emit t buf = Some (emit_raw t buf)"
  by (simp add: emit_raw_def huff_emit_def put_sym_def split: if_splits)

lemma raw_loop_grows:
  "last buf \<le> last (snd (raw_loop t buf src))" "length (arr (snd (raw_loop t buf src))) = length (arr buf)"
proof (induction src arbitrary: t buf)
  case (Cons c src)
  case 1
  show ?case unfolding raw_loop.simps Let_def by (rule order_trans [OF _ Cons.IH(1)]) (meson emit_raw_grows order_trans)
  case 2
  show ?case unfolding raw_loop.simps Let_def by (simp only: Cons.IH(2) emit_raw_grows)
qed simp_all

lemma raw_loop_fits:
  "last (snd (raw_loop t buf src)) \<le> length (arr buf) \<Longrightarrow> huff_decode_loop t buf src = Some (raw_loop t buf src)"
proof (induction src arbitrary: t buf)
  case (Cons c src)
  define t1 where "t1 = huff_decode_table ! unat (hfstate t) ! unat (drop_bit 4 c)"
  define b1 where "b1 = emit_raw t1 buf"
  define t2 where "t2 = huff_decode_table ! unat (hfstate t1) ! unat (c AND 0xf)"
  define b2 where "b2 = emit_raw t2 b1"
  have r: "raw_loop t buf (c # src) = raw_loop t2 b2 src"
    by (simp add: Let_def t1_def b1_def t2_def b2_def)
  have fit: "last (snd (raw_loop t2 b2 src)) \<le> length (arr buf)" using Cons.prems unfolding r .
  have l: "last b2 \<le> length (arr buf)" using raw_loop_grows(1) [of b2 t2 src] fit by simp
  have l1: "last b1 \<le> length (arr buf)" using emit_raw_grows(1) [of b1 t2] l by (simp add: b2_def)
  have a: "length (arr b1) = length (arr buf)" "length (arr b2) = length (arr buf)"
    by (simp_all add: b1_def b2_def emit_raw_grows)
  have "huff_emit t1 buf = Some b1" using emit_raw_fits [of t1 buf] l1 by (simp add: b1_def)
  moreover have "huff_emit t2 b1 = Some b2" using emit_raw_fits [of t2 b1] l a by (simp add: b2_def)
  moreover have "huff_decode_loop t2 b2 src = Some (raw_loop t2 b2 src)"
    using Cons.IH [of t2 b2] fit a by simp
  ultimately show ?case unfolding r by (simp add: Let_def t1_def t2_def)
qed simp

lemma raw_loop_put_fits:
  assumes "raw_loop t buf src = (t', put_syms ss buf)" "last buf + length ss \<le> length (arr buf)"
  shows "huff_decode_loop t buf src = Some (t', put_syms ss buf)"
proof -
  have "last (put_syms ss buf) = last buf + length ss"
    by (induction ss arbitrary: buf) (simp_all add: put_sym_def)
  then show ?thesis using raw_loop_fits [of t buf src] assms by simp
qed

lemma step_node:
  assumes "at_node e t" "length bs = 4"
  defines "e' \<equiv> huff_decode_table ! unat (hfstate e) ! bits_val bs"
  shows "case walk t bs of
      None \<Rightarrow> e' = failure_entry
    | Some (u, ss) \<Rightarrow> at_node e' u \<and> emit_raw e' buf = put_syms (map word_of_nat ss) buf"
proof -
  have t: "t \<in> set huff_nodes" using assms(1) by (simp add: at_node_def)
  have "unat (hfstate e) = node_id t"
    using assms(1) table_node(1) [OF t] by (simp add: at_node_def unsigned_of_nat take_bit_eq_mod)
  then have "e' = row4 t ! bits_val bs" using table_node(2) [OF t] by (simp add: e'_def)
  then have e': "e' = (case walk t bs of None \<Rightarrow> failure_entry
      | Some (u, ss) \<Rightarrow> entry_of u (if ss = [] then None else Some (List.last ss)))"
    using row_of_walk [of bs t None] assms(2) by (simp add: row4_def numeral_eq_Suc)
  show ?thesis
  proof (cases "walk t bs")
    case None
    then show ?thesis using e' by simp
  next
    case (Some a)
    then obtain u ss where w: "walk t bs = Some (u, ss)" by (cases a) auto
    have l: "length ss \<le> 1" using walk_nibble_count [OF t w] assms(2) by simp
    have u: "u \<in> set huff_nodes" by (rule walk_closed [OF t w])
    show ?thesis using w l u e'
      by (cases ss) (auto simp: at_node_def emit_raw_def put_sym_def HUFF_ACCEPTED_def HUFF_SYM_def)
  qed
qed

lemma high_nibble: "bits_val (take 4 (word_bits (c :: u8))) = unat (drop_bit 4 c)"
proof -
  have "take 4 (word_bits c) = rev (map (bit (drop_bit 4 (unat c))) [0..<4])"
    by (rule nth_equalityI) (auto simp: rev_nth bit_unsigned_iff bit_drop_bit_eq)
  then show ?thesis
    by (simp add: bits_val_bits unsigned_drop_bit_eq take_bit_eq_mod drop_bit_eq_div less_mult_imp_div_less
        unat_div)
qed

lemma low_nibble: "bits_val (drop 4 (word_bits (c :: u8))) = unat (c AND 0xf)"
proof -
  have m: "(0xf :: u8) = mask 4" by (simp add: mask_eq_exp_minus_1)
  have "drop 4 (word_bits c) = rev (map (bit (unat c)) [0..<4])"
    by (rule nth_equalityI) (auto simp: rev_nth bit_unsigned_iff)
  then show ?thesis unfolding m by (simp add: bits_val_bits unsigned_take_bit_eq flip: take_bit_eq_mask)
qed

lemma step_failure:
  "hfstate e = 256 \<Longrightarrow> length bs = 4 \<Longrightarrow> huff_decode_table ! unat (hfstate e) ! bits_val bs = failure_entry"
  using table_failure [of "bits_val bs"] bits_val_lt [of bs] by simp

lemma emit_failure [simp]: "emit_raw failure_entry buf = buf"
  by (simp add: emit_raw_def failure_entry_def)

lemma failure_entry_fields [simp]: "hfstate failure_entry = 256" "hflags failure_entry = 0"
  by (simp_all add: failure_entry_def)

lemma raw_loop_step:
  "raw_loop e buf (c # src) =
    (let e = huff_decode_table ! unat (hfstate e) ! bits_val (take 4 (word_bits c));
         buf = emit_raw e buf;
         e = huff_decode_table ! unat (hfstate e) ! bits_val (drop 4 (word_bits c));
         buf = emit_raw e buf
     in raw_loop e buf src)"
  by (simp add: high_nibble low_nibble)

lemma huff_loop_failure:
  "hfstate e = 256 \<Longrightarrow> hflags e = 0 \<Longrightarrow>
   \<exists>e'. raw_loop e buf src = (e', buf) \<and> hfstate e' = 256 \<and> hflags e' = 0"
proof (induction src arbitrary: e)
  case (Cons c src)
  then show ?case
    using step_failure [of e "take 4 (word_bits c)"] step_failure [of failure_entry "drop 4 (word_bits c)"]
    by (simp add: raw_loop_step Let_def del: raw_loop.simps)
qed simp

lemma huff_loop_walk:
  assumes "at_node e t"
  shows "case walk t (bytes_bits src) of
      Some (u, ss) \<Rightarrow>
        \<exists>e'. raw_loop e buf src = (e', put_syms (map word_of_nat ss) buf) \<and> at_node e' u
    | None \<Rightarrow> \<exists>e' k u ss. raw_loop e buf src = (e', put_syms (map word_of_nat ss) buf) \<and>
        hfstate e' = 256 \<and> hflags e' = 0 \<and> walk t (take k (bytes_bits src)) = Some (u, ss)"
  using assms
proof (induction src arbitrary: e t buf)
  case Nil
  then show ?case by simp
next
  case (Cons c src)
  let ?h = "take 4 (word_bits c)" let ?l = "drop 4 (word_bits c)"
  have split: "bytes_bits (c # src) = ?h @ ?l @ bytes_bits src" by simp
  define e1 where "e1 = huff_decode_table ! unat (hfstate e) ! bits_val ?h"
  define e2 where "e2 = huff_decode_table ! unat (hfstate e1) ! bits_val ?l"
  have loop: "raw_loop e buf (c # src) =
      raw_loop e2 (emit_raw e2 (emit_raw e1 buf)) src"
    by (simp add: raw_loop_step Let_def e1_def e2_def del: raw_loop.simps)
  show ?case
  proof (cases "walk t ?h")
    case None
    then have "e1 = failure_entry" using step_node [OF Cons.prems, of ?h buf] by (simp add: e1_def)
    moreover from this have "e2 = failure_entry" using step_failure [of e1 ?l] by (simp add: e2_def)
    ultimately obtain e' where f: "raw_loop e buf (c # src) = (e', put_syms (map word_of_nat []) buf)"
      "hfstate e' = 256" "hflags e' = 0"
      using huff_loop_failure [of failure_entry buf src] loop by auto
    have w: "walk t (bytes_bits (c # src)) = None" unfolding split using None by (simp add: walk_append)
    have "walk t (take 0 (bytes_bits (c # src))) = Some (t, [])" by simp
    with f show ?thesis unfolding w option.case by blast
  next
    case (Some a)
    then obtain t1 s1 where w1: "walk t ?h = Some (t1, s1)" by (cases a) auto
    have n1: "at_node e1 t1" "emit_raw e1 buf = put_syms (map word_of_nat s1) buf"
      using step_node [OF Cons.prems, of ?h buf] w1 by (auto simp: e1_def)
    show ?thesis
    proof (cases "walk t1 ?l")
      case None
      then have "e2 = failure_entry" using step_node [OF n1(1), of ?l buf] by (simp add: e2_def)
      then obtain e' where f: "raw_loop e buf (c # src) = (e', put_syms (map word_of_nat s1) buf)"
        "hfstate e' = 256" "hflags e' = 0"
        using huff_loop_failure [of failure_entry "put_syms (map word_of_nat s1) buf" src] loop n1(2)
        by auto
      have w: "walk t (bytes_bits (c # src)) = None"
        unfolding split using None w1 by (simp add: walk_append)
      have "walk t (take 4 (bytes_bits (c # src))) = Some (t1, s1)" using w1 by simp
      with f show ?thesis unfolding w option.case by blast
    next
      case (Some a2)
      then obtain t2 s2 where w2: "walk t1 ?l = Some (t2, s2)" by (cases a2) auto
      have n2: "at_node e2 t2" "emit_raw e2 b = put_syms (map word_of_nat s2) b" for b
        using step_node [OF n1(1), of ?l] w2 by (auto simp: e2_def)
      have wb: "walk t (word_bits c) = Some (t2, s1 @ s2)"
        using w1 w2 walk_append [of t ?h ?l] by simp
      let ?b = "put_syms (map word_of_nat (s1 @ s2)) buf"
      have loop2: "raw_loop e buf (c # src) = raw_loop e2 ?b src"
        using loop n1(2) n2(2) by (simp add: put_syms_append)
      note IH = Cons.IH [OF n2(1), of ?b]
      show ?thesis
      proof (cases "walk t2 (bytes_bits src)")
        case None
        with IH obtain e' k u ss where i: "raw_loop e2 ?b src = (e', put_syms (map word_of_nat ss) ?b)"
          "hfstate e' = 256" "hflags e' = 0" "walk t2 (take k (bytes_bits src)) = Some (u, ss)" by auto
        have "walk t (take (8 + k) (bytes_bits (c # src))) = Some (u, (s1 @ s2) @ ss)"
          using wb i(4) by (simp add: walk_append)
        moreover have w: "walk t (bytes_bits (c # src)) = None" using None wb by (simp add: walk_append)
        moreover have "raw_loop e buf (c # src) = (e', put_syms (map word_of_nat ((s1 @ s2) @ ss)) buf)"
          using loop2 i(1) by (simp add: put_syms_append)
        ultimately show ?thesis using i(2,3) unfolding w option.case by blast
      next
        case (Some a3)
        then obtain u ss where w3: "walk t2 (bytes_bits src) = Some (u, ss)" by (cases a3) auto
        with IH obtain e' where "raw_loop e2 ?b src = (e', put_syms (map word_of_nat ss) ?b)" "at_node e' u"
          by auto
        then show ?thesis using loop2 wb w3
          by (simp add: walk_append put_syms_append del: raw_loop.simps)
      qed
    qed
  qed
qed

section \<open>Accepting states\<close>

lemma ones_path:
  "follow huff_tree [] = Some hn_0"
  "follow huff_tree [True] = Some hn_22"
  "follow huff_tree [True, True] = Some hn_40"
  "follow huff_tree [True, True, True] = Some hn_56"
  "follow huff_tree [True, True, True, True] = Some hn_64"
  "follow huff_tree [True, True, True, True, True] = Some hn_68"
  "follow huff_tree [True, True, True, True, True, True] = Some hn_72"
  "follow huff_tree [True, True, True, True, True, True, True] = Some hn_74"
  by (simp_all add: huff_tree_def follow_step huff_in huff_child)

lemma accept_ids:
  "node_id hn_0 = 0" "node_id hn_22 = 22" "node_id hn_40 = 40" "node_id hn_56 = 56"
  "node_id hn_64 = 64" "node_id hn_68 = 68" "node_id hn_72 = 72" "node_id hn_74 = 74"
  by (simp_all add: huff_defs)

lemma huff_tree_id: "node_id huff_tree = 0"
  by (simp add: huff_tree_def accept_ids)

lemma replicate_lt8:
  "k < 8 \<Longrightarrow> replicate k x \<in> {[], [x], [x, x], [x, x, x], [x, x, x, x], [x, x, x, x, x],
     [x, x, x, x, x, x], [x, x, x, x, x, x, x]}"
  by (auto simp: less_Suc_eq numeral_eq_Suc)

lemma ones_accepting:
  assumes "k < 8"
  shows "\<exists>t \<in> set huff_nodes. follow huff_tree (replicate k True) = Some t \<and> accepting (node_id t)"
  using replicate_lt8 [OF assms, of True]
  by (auto simp: ones_path huff_in accept_ids accepting_def huff_tree_id root_node)

lemma accepting_ones:
  assumes "accepting i"
  shows "\<exists>k < 8. map_option node_id (follow huff_tree (replicate k True)) = Some i"
proof -
  let ?S = "{[], [True], [True, True], [True, True, True], [True, True, True, True],
    [True, True, True, True, True], [True, True, True, True, True, True],
    [True, True, True, True, True, True, True]}"
  have "\<exists>p \<in> ?S. map_option node_id (follow huff_tree p) = Some i"
    using assms by (auto simp: accepting_def ones_path accept_ids huff_tree_id)
  moreover have "p = replicate (length p) True \<and> length p < 8" if "p \<in> ?S" for p
    using that by auto
  ultimately show ?thesis by metis
qed

lemma accepting_iff:
  assumes "u \<in> set huff_nodes" "follow huff_tree p = Some u"
  shows "accepting (node_id u) \<longleftrightarrow> (\<exists>k < 8. p = replicate k True)"
proof
  assume "accepting (node_id u)"
  then obtain k v where k: "k < 8" "follow huff_tree (replicate k True) = Some v" "node_id v = node_id u"
    using accepting_ones by blast
  obtain i l r where u: "u = Node i l r" using huff_nodes_Node [OF assms(1)] by blast
  have "v \<in> set huff_nodes" using ones_accepting [OF k(1)] k(2) by auto
  then obtain j l' r' where "v = Node j l' r'" using huff_nodes_Node by blast
  with k u have "p = replicate k True"
    using follow_node_unique [of huff_tree p i l r "replicate k True" l' r'] assms(2)
    by (simp add: inner_ids_tree)
  with k(1) show "\<exists>k < 8. p = replicate k True" by blast
next
  assume "\<exists>k < 8. p = replicate k True"
  then show "accepting (node_id u)" using ones_accepting assms(2) by fastforce
qed

section \<open>Valid encodings\<close>

text \<open>
  The bytes \<open>src\<close> are an encoding of \<open>s\<close>: the codes of \<open>s\<close>, filled up with fewer than eight ones.
\<close>

definition huff_valid :: "bytes \<Rightarrow> bytes \<Rightarrow> bool" where
  "huff_valid src s \<longleftrightarrow> (\<exists>k < 8. bytes_bits src = huff_bits s @ replicate k True)"

lemma walk_huff_bits:
  "walk huff_tree (huff_bits s @ bs) =
     (case walk huff_tree bs of None \<Rightarrow> None | Some (u, ss) \<Rightarrow> Some (u, map unat s @ ss))"
proof (induction s)
  case Nil
  then show ?case by (auto split: option.splits)
next
  case (Cons c s)
  have "follow huff_tree (sym_bits c) = Some (Leaf (unat c))"
    unfolding sym_bits_def by (rule huff_code) simp
  from walk_code [OF root_node this, of "huff_bits s @ bs"] Cons show ?case
    by (auto split: option.splits)
qed

lemma huff_bits_of_nats:
  "list_all (\<lambda>s. s < 256) ss \<Longrightarrow> huff_bits (map word_of_nat ss) = concat (map table_code ss)"
proof (induction ss)
  case (Cons s ss)
  then show ?case by (simp add: sym_bits_def table_code_def unsigned_of_nat take_bit_eq_mod)
qed simp

lemma map_word_unat [simp]: "map word_of_nat (map unat (s :: bytes)) = s"
  by (induction s) auto

lemma huff_valid_walk:
  "huff_valid src s \<longleftrightarrow>
   (\<exists>u. walk huff_tree (bytes_bits src) = Some (u, map unat s) \<and> accepting (node_id u))"
proof
  assume "huff_valid src s"
  then obtain k where k: "k < 8" "bytes_bits src = huff_bits s @ replicate k True"
    by (auto simp: huff_valid_def)
  from ones_accepting [OF k(1)] obtain t where t: "t \<in> set huff_nodes"
    "follow huff_tree (replicate k True) = Some t" "accepting (node_id t)" by blast
  from walk_inner [OF root_node t(2,1)] show "\<exists>u. walk huff_tree (bytes_bits src) = Some (u, map unat s) \<and>
      accepting (node_id u)"
    using t(3) by (simp add: k(2) walk_huff_bits)
next
  assume "\<exists>u. walk huff_tree (bytes_bits src) = Some (u, map unat s) \<and> accepting (node_id u)"
  then obtain u where u: "walk huff_tree (bytes_bits src) = Some (u, map unat s)" "accepting (node_id u)"
    by blast
  from walk_path [OF root_node _ u(1), of "[]"] obtain p where p: "u \<in> set huff_nodes"
    "list_all (\<lambda>s. s < 256) (map unat s)" "follow huff_tree p = Some u"
    "bytes_bits src = concat (map table_code (map unat s)) @ p" by auto
  with accepting_iff [OF p(1,3)] u(2) huff_bits_of_nats [OF p(2), unfolded map_word_unat] show "huff_valid src s"
    by (auto simp: huff_valid_def)
qed

lemma huff_valid_unique: "huff_valid src s \<Longrightarrow> huff_valid src s' \<Longrightarrow> s = s'"
  unfolding huff_valid_walk by (metis Pair_inject map_word_unat option.inject)

lemma huff_bytes_valid: "huff_valid (huff_bytes s) s"
  unfolding huff_valid_def huff_bytes_def bytes_pack_bits by (auto intro!: exI)

lemma at_root: "at_node (Huff_decode 0 HUFF_ACCEPTED 0) huff_tree"
  by (simp add: at_node_def root_node huff_tree_id HUFF_ACCEPTED_def accepting_def)

lemma put_syms_fits:
  assumes "buf_ok buf" "nghttp2_huff_estimate_decode_length n \<le> nghttp2_buf_avail buf" "5 * length xs \<le> 8 * n"
  shows "buf_ok (put_syms xs buf) \<and> buf_data (put_syms xs buf) = buf_data buf @ xs"
proof -
  have l: "length xs \<le> nghttp2_buf_avail buf"
    using assms(2,3) by (simp add: nghttp2_huff_estimate_decode_length_def)
  then have "put_syms xs buf = buf_write xs buf"
    using assms(1) by (intro put_syms_write) (auto simp: nghttp2_buf_avail_def buf_ok_def)
  then show ?thesis using buf_ok_write [OF assms(1) l] buf_data_write [OF assms(1) l] by simp
qed

lemma huff_decode_cases:
  assumes "buf_ok buf" "nghttp2_huff_estimate_decode_length (length src) \<le> nghttp2_buf_avail buf"
  obtains (valid) s ctx buf' where
      "nghttp2_hd_huff_decode nghttp2_hd_huff_decode_context_init buf src True = Some (Inr (length src), ctx, buf')"
      "huff_valid src s" "buf_ok buf'" "buf_data buf' = buf_data buf @ s"
    | (invalid) ctx buf' where
      "nghttp2_hd_huff_decode nghttp2_hd_huff_decode_context_init buf src True = Some (Inl ERR_HEADER_COMP, ctx, buf')"
      "\<And>s. \<not> huff_valid src s" "buf_ok buf'"
proof (cases "walk huff_tree (bytes_bits src)")
  case None
  with huff_loop_walk [OF at_root, where src = src and buf = buf] obtain e k u ss where
    e: "raw_loop (Huff_decode 0 HUFF_ACCEPTED 0) buf src = (e, put_syms (map word_of_nat ss) buf)"
    "hflags e = 0" "walk huff_tree (take k (bytes_bits src)) = Some (u, ss)" by auto
  have n: "5 * length ss \<le> 8 * length src" using walk_root_count [OF e(3)] by auto
  have d: "huff_decode_loop (Huff_decode 0 HUFF_ACCEPTED 0) buf src = Some (e, put_syms (map word_of_nat ss) buf)"
  proof (rule raw_loop_put_fits [OF e(1)])
    have "length ss \<le> nghttp2_buf_avail buf"
      using n assms(2) by (simp add: nghttp2_huff_estimate_decode_length_def)
    then show "last buf + length (map word_of_nat ss) \<le> length (arr buf)"
      using assms(1) by (auto simp: nghttp2_buf_avail_def buf_ok_def)
  qed
  have "buf_ok (put_syms (map word_of_nat ss) buf)" using put_syms_fits [OF assms] n by simp
  moreover have "\<not> huff_valid src s" for s using None by (simp add: huff_valid_walk)
  ultimately show thesis using d e(2)
    by (intro invalid) (simp_all add: nghttp2_hd_huff_decode_def nghttp2_hd_huff_decode_context_init_def)
next
  case (Some a)
  then obtain u ss where w: "walk huff_tree (bytes_bits src) = Some (u, ss)" by (cases a) auto
  with huff_loop_walk [OF at_root, where src = src and buf = buf] obtain e where
    e: "raw_loop (Huff_decode 0 HUFF_ACCEPTED 0) buf src = (e, put_syms (map word_of_nat ss) buf)"
    "at_node e u" by auto
  have n: "5 * length ss \<le> 8 * length src" using walk_root_count [OF w] by simp
  have d: "huff_decode_loop (Huff_decode 0 HUFF_ACCEPTED 0) buf src = Some (e, put_syms (map word_of_nat ss) buf)"
  proof (rule raw_loop_put_fits [OF e(1)])
    have "length ss \<le> nghttp2_buf_avail buf"
      using n assms(2) by (simp add: nghttp2_huff_estimate_decode_length_def)
    then show "last buf + length (map word_of_nat ss) \<le> length (arr buf)"
      using assms(1) by (auto simp: nghttp2_buf_avail_def buf_ok_def)
  qed
  have b: "buf_ok (put_syms (map word_of_nat ss) buf)"
    "buf_data (put_syms (map word_of_nat ss) buf) = buf_data buf @ map word_of_nat ss"
    using put_syms_fits [OF assms, of "map word_of_nat ss"] n by auto
  have "list_all (\<lambda>s. s < 256) ss" using walk_path [OF root_node _ w, of "[]"] by simp
  then have ss: "map unat (map word_of_nat ss :: bytes) = ss"
    by (auto simp: list_all_iff unsigned_of_nat take_bit_eq_mod intro!: map_idI)
  show thesis
  proof (cases "accepting (node_id u)")
    case True
    then have "huff_valid src (map word_of_nat ss)" unfolding huff_valid_walk ss using w by blast
    with True d e(2) b show thesis
      by (intro valid) (simp_all add: nghttp2_hd_huff_decode_def nghttp2_hd_huff_decode_context_init_def
          at_node_def)
  next
    case False
    then have "\<not> huff_valid src s" for s using w by (simp add: huff_valid_walk)
    with False d e(2) b show thesis
      by (intro invalid) (simp_all add: nghttp2_hd_huff_decode_def nghttp2_hd_huff_decode_context_init_def
          at_node_def)
  qed
qed

lemma huff_decode_loop_append:
  "huff_decode_loop e buf (xs @ ys) =
     (case huff_decode_loop e buf xs of None \<Rightarrow> None | Some (e, buf) \<Rightarrow> huff_decode_loop e buf ys)"
  by (induction e buf xs rule: huff_decode_loop.induct) (simp_all add: Let_def split: bind_splits)

section \<open>Properties\<close>

text \<open>
  C11. The encoder writes the packed code: whatever the state of the buffer chain, the encoder
  with its 64-bit register and its four-byte fast path behaves exactly (result, final chain and
  errors included) as one write of the codes of the input packed into bytes and padded with
  ones, and the size computed beforehand is the number of these bytes.
\<close>

theorem huff_encode_correct:
  assumes "bufs_wf bufs" and "bufs_roomy bufs"
  shows "nghttp2_hd_huff_encode bufs src = Some (nghttp2_bufs_add bufs (huff_bytes src)) \<and>
    nghttp2_hd_huff_encode_count src = length (huff_bytes src)"
  using huff_encode_is_add [OF assms] huff_encode_count by blast

theorem huff_encode_correct_witness:
  "nghttp2_hd_huff_encode example_bufs [119, 119, 119] =
    Some (nghttp2_bufs_add example_bufs (huff_bytes [119, 119, 119]))"
proof -
  have "bufs_wf example_bufs" "bufs_roomy example_bufs"
    by (simp_all add: example_bufs_def bufs_wf_def buf_ok_def bufs_roomy_def)
  from huff_encode_correct [OF this] show ?thesis by blast
qed

text \<open>
  C10. The decoder accepts exactly the valid encodings and is memory safe: started afresh on a
  buffer with as much room as the library's estimate, it never writes past the end; it succeeds
  exactly when the input is the code of some string followed by fewer than eight ones, then it
  appends this string, which is unique; and otherwise it returns the compression error.
\<close>

theorem huff_decode_exact:
  assumes "buf_ok buf" and "nghttp2_huff_estimate_decode_length (length src) \<le> nghttp2_buf_avail buf"
  shows "\<exists>r ctx buf'. nghttp2_hd_huff_decode nghttp2_hd_huff_decode_context_init buf src True = Some (r, ctx, buf') \<and>
    buf_ok buf' \<and>
    (if r = Inr (length src)
     then \<exists>s. huff_valid src s \<and> buf_data buf' = buf_data buf @ s \<and> (\<forall>s'. huff_valid src s' \<longrightarrow> s' = s)
     else r = Inl ERR_HEADER_COMP \<and> (\<forall>s. \<not> huff_valid src s))"
  using assms
proof (cases rule: huff_decode_cases [of buf src])
  case (valid s ctx' buf'')
  then show ?thesis using huff_valid_unique by auto
next
  case (invalid ctx' buf'')
  then show ?thesis by auto
qed

text \<open>A buffer with room for ten bytes.\<close>

definition huff_example_buf :: nghttp2_buf where
  "huff_example_buf = \<lparr>arr = replicate 10 0, pos = 0, last = 0, mark = 10\<rparr>"

lemma huff_example_buf_ok:
  "buf_ok huff_example_buf" "nghttp2_buf_avail huff_example_buf = 10" "buf_data huff_example_buf = []"
  by (simp_all add: huff_example_buf_def buf_ok_def nghttp2_buf_avail_def buf_data_def)

theorem huff_decode_exact_witness:
  "\<exists>r ctx buf'. nghttp2_hd_huff_decode nghttp2_hd_huff_decode_context_init huff_example_buf [0xff, 0xff] True =
    Some (r, ctx, buf') \<and> buf_ok buf'"
proof -
  have "nghttp2_huff_estimate_decode_length (length [0xff, 0xff :: u8]) \<le> nghttp2_buf_avail huff_example_buf"
    by (simp add: huff_example_buf_ok nghttp2_huff_estimate_decode_length_def)
  from huff_decode_exact [OF huff_example_buf_ok(1) this] show ?thesis by blast
qed

text \<open>
  C9. Decoding inverts encoding: what the encoder appends to a chain, the decoder turns back
  into the original string.
\<close>

theorem huff_roundtrip:
  assumes "bufs_wf bufs" and "bufs_roomy bufs" and "nghttp2_hd_huff_encode bufs s = Some (Inr (), bufs')"
    and "buf_ok buf"
    and "nghttp2_huff_estimate_decode_length (nghttp2_hd_huff_encode_count s) \<le> nghttp2_buf_avail buf"
  shows "\<exists>e ctx buf'. bufs_data bufs' = bufs_data bufs @ e \<and>
    nghttp2_hd_huff_decode nghttp2_hd_huff_decode_context_init buf e True = Some (Inr (length e), ctx, buf') \<and>
    buf_data buf' = buf_data buf @ s"
proof -
  have e: "bufs_data bufs' = bufs_data bufs @ huff_bytes s"
    using nghttp2_bufs_add_ok [OF assms(1), of "huff_bytes s"] huff_encode_is_add [OF assms(1,2)] assms(3)
    by auto
  have "nghttp2_huff_estimate_decode_length (length (huff_bytes s)) \<le> nghttp2_buf_avail buf"
    using assms(5) by (simp add: huff_encode_count)
  with assms(4) show ?thesis
  proof (cases rule: huff_decode_cases [of buf "huff_bytes s"])
    case (valid s' ctx buf')
    with huff_valid_unique [OF huff_bytes_valid, of s s'] e show ?thesis by blast
  next
    case (invalid ctx buf')
    with huff_bytes_valid [of s] show ?thesis by blast
  qed
qed

theorem huff_roundtrip_witness:
  "\<exists>bufs' e ctx buf'. nghttp2_hd_huff_encode example_bufs [119, 119] = Some (Inr (), bufs') \<and>
    bufs_data bufs' = bufs_data example_bufs @ e \<and>
    nghttp2_hd_huff_decode nghttp2_hd_huff_decode_context_init huff_example_buf e True = Some (Inr (length e), ctx, buf') \<and>
    buf_data buf' = [119, 119]"
proof -
  have wf: "bufs_wf example_bufs" "bufs_roomy example_bufs"
    by (simp_all add: example_bufs_def bufs_wf_def buf_ok_def bufs_roomy_def)
  have c: "nghttp2_hd_huff_encode_count [119, 119] = 2"
    by (simp add: nghttp2_hd_huff_encode_count_def huff_sym_table_def)
  have "fst (nghttp2_bufs_add example_bufs (huff_bytes [119, 119])) = Inr ()"
    using nghttp2_bufs_add_space [OF wf(1)] c
    by (simp add: example_bufs_def bufs_space_def nghttp2_buf_avail_def huff_encode_count)
  then obtain bufs' where b: "nghttp2_hd_huff_encode example_bufs [119, 119] = Some (Inr (), bufs')"
    by (simp add: huff_encode_is_add [OF wf] prod_eq_iff)
  have "nghttp2_huff_estimate_decode_length (nghttp2_hd_huff_encode_count [119, 119]) \<le> nghttp2_buf_avail huff_example_buf"
    by (simp add: c huff_example_buf_ok nghttp2_huff_estimate_decode_length_def)
  from huff_roundtrip [OF wf b huff_example_buf_ok(1) this] show ?thesis
    using b by (simp add: huff_example_buf_ok)
qed

lemma huff_decode_append:
  "nghttp2_hd_huff_decode ctx buf (xs @ ys) fin =
     (case nghttp2_hd_huff_decode ctx buf xs False of
        None \<Rightarrow> None
      | Some (_, ctx', buf') \<Rightarrow>
          (case nghttp2_hd_huff_decode ctx' buf' ys fin of
             None \<Rightarrow> None
           | Some (Inl e, ctx'', buf'') \<Rightarrow> Some (Inl e, ctx'', buf'')
           | Some (Inr n, ctx'', buf'') \<Rightarrow> Some (Inr (length xs + n), ctx'', buf'')))"
proof (cases "huff_decode_loop (Huff_decode (hc_fstate ctx) (hc_flags ctx) 0) buf xs")
  case None
  then show ?thesis by (simp add: nghttp2_hd_huff_decode_def huff_decode_loop_append)
next
  case (Some a)
  then obtain t b where 1: "huff_decode_loop (Huff_decode (hc_fstate ctx) (hc_flags ctx) 0) buf xs = Some (t, b)"
    by (cases a) auto
  show ?thesis
  proof (cases "ys = []")
    case True
    then show ?thesis using 1 by (auto simp: nghttp2_hd_huff_decode_def Let_def)
  next
    case False
    then have "huff_decode_loop (Huff_decode (hfstate t) (hflags t) 0) b ys = huff_decode_loop t b ys"
      by (cases ys) simp_all
    then show ?thesis using 1
      by (cases "huff_decode_loop t b ys")
        (auto simp: nghttp2_hd_huff_decode_def huff_decode_loop_append Let_def split: prod.splits)
  qed
qed

text \<open>
  C12. The decoder may be fed in pieces: decoding a first piece that is not the last one and
  then the rest from the context and buffer it left is decoding the whole, also where the
  buffer is too small.
\<close>

theorem huff_decode_pieces:
  "nghttp2_hd_huff_decode ctx buf (xs @ ys) fin =
     (case nghttp2_hd_huff_decode ctx buf xs False of
        None \<Rightarrow> None
      | Some (_, ctx', buf') \<Rightarrow>
          (case nghttp2_hd_huff_decode ctx' buf' ys fin of
             None \<Rightarrow> None
           | Some (Inl e, ctx'', buf'') \<Rightarrow> Some (Inl e, ctx'', buf'')
           | Some (Inr n, ctx'', buf'') \<Rightarrow> Some (Inr (length xs + n), ctx'', buf'')))"
  by (rule huff_decode_append)

end
