(* ===== verification/Nghttp2_Hd_Token.thy ===== *)
theory Nghttp2_Hd_Token
  imports Nghttp2_Frame "HOL-Library.Monad_Syntax"
begin

text \<open>
  The data of HPACK in \<open>src/src/nghttp2/lib/nghttp2_hd.c\<close> and \<open>nghttp2_hd.h\<close>: the tokens of well
  known header fields, the static table, the generated function \<open>lookup_token\<close>, and the hash of
  a name. The theorem of this theory is that these four agree with each other.
\<close>

unbundle bit_operations_syntax

section \<open>Tokens\<close>

named_theorems token_consts \<open>the values of the tokens\<close>

definition NGHTTP2_TOKEN__AUTHORITY :: int where [token_consts]: "NGHTTP2_TOKEN__AUTHORITY = 0"
definition NGHTTP2_TOKEN__METHOD :: int where [token_consts]: "NGHTTP2_TOKEN__METHOD = 1"
definition NGHTTP2_TOKEN__PATH :: int where [token_consts]: "NGHTTP2_TOKEN__PATH = 3"
definition NGHTTP2_TOKEN__SCHEME :: int where [token_consts]: "NGHTTP2_TOKEN__SCHEME = 5"
definition NGHTTP2_TOKEN__STATUS :: int where [token_consts]: "NGHTTP2_TOKEN__STATUS = 7"
definition NGHTTP2_TOKEN_ACCEPT_CHARSET :: int where [token_consts]: "NGHTTP2_TOKEN_ACCEPT_CHARSET = 14"
definition NGHTTP2_TOKEN_ACCEPT_ENCODING :: int where [token_consts]: "NGHTTP2_TOKEN_ACCEPT_ENCODING = 15"
definition NGHTTP2_TOKEN_ACCEPT_LANGUAGE :: int where [token_consts]: "NGHTTP2_TOKEN_ACCEPT_LANGUAGE = 16"
definition NGHTTP2_TOKEN_ACCEPT_RANGES :: int where [token_consts]: "NGHTTP2_TOKEN_ACCEPT_RANGES = 17"
definition NGHTTP2_TOKEN_ACCEPT :: int where [token_consts]: "NGHTTP2_TOKEN_ACCEPT = 18"
definition NGHTTP2_TOKEN_ACCESS_CONTROL_ALLOW_ORIGIN :: int where [token_consts]: "NGHTTP2_TOKEN_ACCESS_CONTROL_ALLOW_ORIGIN = 19"
definition NGHTTP2_TOKEN_AGE :: int where [token_consts]: "NGHTTP2_TOKEN_AGE = 20"
definition NGHTTP2_TOKEN_ALLOW :: int where [token_consts]: "NGHTTP2_TOKEN_ALLOW = 21"
definition NGHTTP2_TOKEN_AUTHORIZATION :: int where [token_consts]: "NGHTTP2_TOKEN_AUTHORIZATION = 22"
definition NGHTTP2_TOKEN_CACHE_CONTROL :: int where [token_consts]: "NGHTTP2_TOKEN_CACHE_CONTROL = 23"
definition NGHTTP2_TOKEN_CONTENT_DISPOSITION :: int where [token_consts]: "NGHTTP2_TOKEN_CONTENT_DISPOSITION = 24"
definition NGHTTP2_TOKEN_CONTENT_ENCODING :: int where [token_consts]: "NGHTTP2_TOKEN_CONTENT_ENCODING = 25"
definition NGHTTP2_TOKEN_CONTENT_LANGUAGE :: int where [token_consts]: "NGHTTP2_TOKEN_CONTENT_LANGUAGE = 26"
definition NGHTTP2_TOKEN_CONTENT_LENGTH :: int where [token_consts]: "NGHTTP2_TOKEN_CONTENT_LENGTH = 27"
definition NGHTTP2_TOKEN_CONTENT_LOCATION :: int where [token_consts]: "NGHTTP2_TOKEN_CONTENT_LOCATION = 28"
definition NGHTTP2_TOKEN_CONTENT_RANGE :: int where [token_consts]: "NGHTTP2_TOKEN_CONTENT_RANGE = 29"
definition NGHTTP2_TOKEN_CONTENT_TYPE :: int where [token_consts]: "NGHTTP2_TOKEN_CONTENT_TYPE = 30"
definition NGHTTP2_TOKEN_COOKIE :: int where [token_consts]: "NGHTTP2_TOKEN_COOKIE = 31"
definition NGHTTP2_TOKEN_DATE :: int where [token_consts]: "NGHTTP2_TOKEN_DATE = 32"
definition NGHTTP2_TOKEN_ETAG :: int where [token_consts]: "NGHTTP2_TOKEN_ETAG = 33"
definition NGHTTP2_TOKEN_EXPECT :: int where [token_consts]: "NGHTTP2_TOKEN_EXPECT = 34"
definition NGHTTP2_TOKEN_EXPIRES :: int where [token_consts]: "NGHTTP2_TOKEN_EXPIRES = 35"
definition NGHTTP2_TOKEN_FROM :: int where [token_consts]: "NGHTTP2_TOKEN_FROM = 36"
definition NGHTTP2_TOKEN_HOST :: int where [token_consts]: "NGHTTP2_TOKEN_HOST = 37"
definition NGHTTP2_TOKEN_IF_MATCH :: int where [token_consts]: "NGHTTP2_TOKEN_IF_MATCH = 38"
definition NGHTTP2_TOKEN_IF_MODIFIED_SINCE :: int where [token_consts]: "NGHTTP2_TOKEN_IF_MODIFIED_SINCE = 39"
definition NGHTTP2_TOKEN_IF_NONE_MATCH :: int where [token_consts]: "NGHTTP2_TOKEN_IF_NONE_MATCH = 40"
definition NGHTTP2_TOKEN_IF_RANGE :: int where [token_consts]: "NGHTTP2_TOKEN_IF_RANGE = 41"
definition NGHTTP2_TOKEN_IF_UNMODIFIED_SINCE :: int where [token_consts]: "NGHTTP2_TOKEN_IF_UNMODIFIED_SINCE = 42"
definition NGHTTP2_TOKEN_LAST_MODIFIED :: int where [token_consts]: "NGHTTP2_TOKEN_LAST_MODIFIED = 43"
definition NGHTTP2_TOKEN_LINK :: int where [token_consts]: "NGHTTP2_TOKEN_LINK = 44"
definition NGHTTP2_TOKEN_LOCATION :: int where [token_consts]: "NGHTTP2_TOKEN_LOCATION = 45"
definition NGHTTP2_TOKEN_MAX_FORWARDS :: int where [token_consts]: "NGHTTP2_TOKEN_MAX_FORWARDS = 46"
definition NGHTTP2_TOKEN_PROXY_AUTHENTICATE :: int where [token_consts]: "NGHTTP2_TOKEN_PROXY_AUTHENTICATE = 47"
definition NGHTTP2_TOKEN_PROXY_AUTHORIZATION :: int where [token_consts]: "NGHTTP2_TOKEN_PROXY_AUTHORIZATION = 48"
definition NGHTTP2_TOKEN_RANGE :: int where [token_consts]: "NGHTTP2_TOKEN_RANGE = 49"
definition NGHTTP2_TOKEN_REFERER :: int where [token_consts]: "NGHTTP2_TOKEN_REFERER = 50"
definition NGHTTP2_TOKEN_REFRESH :: int where [token_consts]: "NGHTTP2_TOKEN_REFRESH = 51"
definition NGHTTP2_TOKEN_RETRY_AFTER :: int where [token_consts]: "NGHTTP2_TOKEN_RETRY_AFTER = 52"
definition NGHTTP2_TOKEN_SERVER :: int where [token_consts]: "NGHTTP2_TOKEN_SERVER = 53"
definition NGHTTP2_TOKEN_SET_COOKIE :: int where [token_consts]: "NGHTTP2_TOKEN_SET_COOKIE = 54"
definition NGHTTP2_TOKEN_STRICT_TRANSPORT_SECURITY :: int where [token_consts]: "NGHTTP2_TOKEN_STRICT_TRANSPORT_SECURITY = 55"
definition NGHTTP2_TOKEN_TRANSFER_ENCODING :: int where [token_consts]: "NGHTTP2_TOKEN_TRANSFER_ENCODING = 56"
definition NGHTTP2_TOKEN_USER_AGENT :: int where [token_consts]: "NGHTTP2_TOKEN_USER_AGENT = 57"
definition NGHTTP2_TOKEN_VARY :: int where [token_consts]: "NGHTTP2_TOKEN_VARY = 58"
definition NGHTTP2_TOKEN_VIA :: int where [token_consts]: "NGHTTP2_TOKEN_VIA = 59"
definition NGHTTP2_TOKEN_WWW_AUTHENTICATE :: int where [token_consts]: "NGHTTP2_TOKEN_WWW_AUTHENTICATE = 60"
definition NGHTTP2_TOKEN_TE :: int where [token_consts]: "NGHTTP2_TOKEN_TE = 61"
definition NGHTTP2_TOKEN_CONNECTION :: int where [token_consts]: "NGHTTP2_TOKEN_CONNECTION = 62"
definition NGHTTP2_TOKEN_KEEP_ALIVE :: int where [token_consts]: "NGHTTP2_TOKEN_KEEP_ALIVE = 63"
definition NGHTTP2_TOKEN_PROXY_CONNECTION :: int where [token_consts]: "NGHTTP2_TOKEN_PROXY_CONNECTION = 64"
definition NGHTTP2_TOKEN_UPGRADE :: int where [token_consts]: "NGHTTP2_TOKEN_UPGRADE = 65"
definition NGHTTP2_TOKEN__PROTOCOL :: int where [token_consts]: "NGHTTP2_TOKEN__PROTOCOL = 66"
definition NGHTTP2_TOKEN_PRIORITY :: int where [token_consts]: "NGHTTP2_TOKEN_PRIORITY = 67"

section \<open>The static table\<close>

text \<open>A string literal as the bytes that the C compiler stores.\<close>

definition lit :: "string \<Rightarrow> bytes" where
  "lit s = map of_char s"

record nghttp2_hd_static_entry =
  se_name :: bytes
  se_value :: bytes
  se_token :: int
  se_hash :: u32

definition MAKE_STATIC_ENT :: "string \<Rightarrow> string \<Rightarrow> int \<Rightarrow> u32 \<Rightarrow> nghttp2_hd_static_entry" where
  "MAKE_STATIC_ENT n v t h = \<lparr>se_name = lit n, se_value = lit v, se_token = t, se_hash = h\<rparr>"

definition NGHTTP2_STATIC_TABLE_LENGTH :: nat where "NGHTTP2_STATIC_TABLE_LENGTH = 61"

definition static_table :: "nghttp2_hd_static_entry list" where
  "static_table = [
     MAKE_STATIC_ENT '':authority'' '''' 0 3153725150,
     MAKE_STATIC_ENT '':method'' ''GET'' 1 695666056,
     MAKE_STATIC_ENT '':method'' ''POST'' 1 695666056,
     MAKE_STATIC_ENT '':path'' ''/'' 3 3292848686,
     MAKE_STATIC_ENT '':path'' ''/index.html'' 3 3292848686,
     MAKE_STATIC_ENT '':scheme'' ''http'' 5 2510477674,
     MAKE_STATIC_ENT '':scheme'' ''https'' 5 2510477674,
     MAKE_STATIC_ENT '':status'' ''200'' 7 4000288983,
     MAKE_STATIC_ENT '':status'' ''204'' 7 4000288983,
     MAKE_STATIC_ENT '':status'' ''206'' 7 4000288983,
     MAKE_STATIC_ENT '':status'' ''304'' 7 4000288983,
     MAKE_STATIC_ENT '':status'' ''400'' 7 4000288983,
     MAKE_STATIC_ENT '':status'' ''404'' 7 4000288983,
     MAKE_STATIC_ENT '':status'' ''500'' 7 4000288983,
     MAKE_STATIC_ENT ''accept-charset'' '''' 14 3664010344,
     MAKE_STATIC_ENT ''accept-encoding'' ''gzip, deflate'' 15 3379649177,
     MAKE_STATIC_ENT ''accept-language'' '''' 16 1979086614,
     MAKE_STATIC_ENT ''accept-ranges'' '''' 17 1713753958,
     MAKE_STATIC_ENT ''accept'' '''' 18 136609321,
     MAKE_STATIC_ENT ''access-control-allow-origin'' '''' 19 2710797292,
     MAKE_STATIC_ENT ''age'' '''' 20 742476188,
     MAKE_STATIC_ENT ''allow'' '''' 21 2930878514,
     MAKE_STATIC_ENT ''authorization'' '''' 22 2436257726,
     MAKE_STATIC_ENT ''cache-control'' '''' 23 1355326669,
     MAKE_STATIC_ENT ''content-disposition'' '''' 24 3889184348,
     MAKE_STATIC_ENT ''content-encoding'' '''' 25 65203592,
     MAKE_STATIC_ENT ''content-language'' '''' 26 24973587,
     MAKE_STATIC_ENT ''content-length'' '''' 27 1308181789,
     MAKE_STATIC_ENT ''content-location'' '''' 28 2302364718,
     MAKE_STATIC_ENT ''content-range'' '''' 29 3555523146,
     MAKE_STATIC_ENT ''content-type'' '''' 30 4244048277,
     MAKE_STATIC_ENT ''cookie'' '''' 31 2007449791,
     MAKE_STATIC_ENT ''date'' '''' 32 3564297305,
     MAKE_STATIC_ENT ''etag'' '''' 33 113792960,
     MAKE_STATIC_ENT ''expect'' '''' 34 2530896728,
     MAKE_STATIC_ENT ''expires'' '''' 35 1049544579,
     MAKE_STATIC_ENT ''from'' '''' 36 2513272949,
     MAKE_STATIC_ENT ''host'' '''' 37 2952701295,
     MAKE_STATIC_ENT ''if-match'' '''' 38 3597694698,
     MAKE_STATIC_ENT ''if-modified-since'' '''' 39 2213050793,
     MAKE_STATIC_ENT ''if-none-match'' '''' 40 2536202615,
     MAKE_STATIC_ENT ''if-range'' '''' 41 2340978238,
     MAKE_STATIC_ENT ''if-unmodified-since'' '''' 42 3794814858,
     MAKE_STATIC_ENT ''last-modified'' '''' 43 3226950251,
     MAKE_STATIC_ENT ''link'' '''' 44 232457833,
     MAKE_STATIC_ENT ''location'' '''' 45 200649126,
     MAKE_STATIC_ENT ''max-forwards'' '''' 46 1826162134,
     MAKE_STATIC_ENT ''proxy-authenticate'' '''' 47 2709445359,
     MAKE_STATIC_ENT ''proxy-authorization'' '''' 48 2686392507,
     MAKE_STATIC_ENT ''range'' '''' 49 4208725202,
     MAKE_STATIC_ENT ''referer'' '''' 50 3969579366,
     MAKE_STATIC_ENT ''refresh'' '''' 51 3572655668,
     MAKE_STATIC_ENT ''retry-after'' '''' 52 3336180598,
     MAKE_STATIC_ENT ''server'' '''' 53 1085029842,
     MAKE_STATIC_ENT ''set-cookie'' '''' 54 1848371000,
     MAKE_STATIC_ENT ''strict-transport-security'' '''' 55 4138147361,
     MAKE_STATIC_ENT ''transfer-encoding'' '''' 56 3719590988,
     MAKE_STATIC_ENT ''user-agent'' '''' 57 606444526,
     MAKE_STATIC_ENT ''vary'' '''' 58 1085005381,
     MAKE_STATIC_ENT ''via'' '''' 59 1762798611,
     MAKE_STATIC_ENT ''www-authenticate'' '''' 60 779865858]"

section \<open>Token lookup\<close>

definition memeq :: "bytes \<Rightarrow> bytes \<Rightarrow> nat \<Rightarrow> bool" where
  "memeq s1 s2 n \<longleftrightarrow> memcmp s1 s2 n = 0"

text \<open>The cases of the outer \<open>switch (namelen)\<close>; a \<open>break\<close> leads to the final \<open>return -1\<close>.\<close>

definition lookup_token_2 :: "bytes \<Rightarrow> int" where
  "lookup_token_2 name =
     (if name ! 1 = of_char (CHR ''e'') then
        (if memeq (lit ''t'') name 1 then NGHTTP2_TOKEN_TE
         else - 1)
      else - 1)"

definition lookup_token_3 :: "bytes \<Rightarrow> int" where
  "lookup_token_3 name =
     (if name ! 2 = of_char (CHR ''a'') then
        (if memeq (lit ''vi'') name 2 then NGHTTP2_TOKEN_VIA
         else - 1)
      else if name ! 2 = of_char (CHR ''e'') then
        (if memeq (lit ''ag'') name 2 then NGHTTP2_TOKEN_AGE
         else - 1)
      else - 1)"

definition lookup_token_4 :: "bytes \<Rightarrow> int" where
  "lookup_token_4 name =
     (if name ! 3 = of_char (CHR ''e'') then
        (if memeq (lit ''dat'') name 3 then NGHTTP2_TOKEN_DATE
         else - 1)
      else if name ! 3 = of_char (CHR ''g'') then
        (if memeq (lit ''eta'') name 3 then NGHTTP2_TOKEN_ETAG
         else - 1)
      else if name ! 3 = of_char (CHR ''k'') then
        (if memeq (lit ''lin'') name 3 then NGHTTP2_TOKEN_LINK
         else - 1)
      else if name ! 3 = of_char (CHR ''m'') then
        (if memeq (lit ''fro'') name 3 then NGHTTP2_TOKEN_FROM
         else - 1)
      else if name ! 3 = of_char (CHR ''t'') then
        (if memeq (lit ''hos'') name 3 then NGHTTP2_TOKEN_HOST
         else - 1)
      else if name ! 3 = of_char (CHR ''y'') then
        (if memeq (lit ''var'') name 3 then NGHTTP2_TOKEN_VARY
         else - 1)
      else - 1)"

definition lookup_token_5 :: "bytes \<Rightarrow> int" where
  "lookup_token_5 name =
     (if name ! 4 = of_char (CHR ''e'') then
        (if memeq (lit ''rang'') name 4 then NGHTTP2_TOKEN_RANGE
         else - 1)
      else if name ! 4 = of_char (CHR ''h'') then
        (if memeq (lit '':pat'') name 4 then NGHTTP2_TOKEN__PATH
         else - 1)
      else if name ! 4 = of_char (CHR ''w'') then
        (if memeq (lit ''allo'') name 4 then NGHTTP2_TOKEN_ALLOW
         else - 1)
      else - 1)"

definition lookup_token_6 :: "bytes \<Rightarrow> int" where
  "lookup_token_6 name =
     (if name ! 5 = of_char (CHR ''e'') then
        (if memeq (lit ''cooki'') name 5 then NGHTTP2_TOKEN_COOKIE
         else - 1)
      else if name ! 5 = of_char (CHR ''r'') then
        (if memeq (lit ''serve'') name 5 then NGHTTP2_TOKEN_SERVER
         else - 1)
      else if name ! 5 = of_char (CHR ''t'') then
        (if memeq (lit ''accep'') name 5 then NGHTTP2_TOKEN_ACCEPT
         else if memeq (lit ''expec'') name 5 then NGHTTP2_TOKEN_EXPECT
         else - 1)
      else - 1)"

definition lookup_token_7 :: "bytes \<Rightarrow> int" where
  "lookup_token_7 name =
     (if name ! 6 = of_char (CHR ''d'') then
        (if memeq (lit '':metho'') name 6 then NGHTTP2_TOKEN__METHOD
         else - 1)
      else if name ! 6 = of_char (CHR ''e'') then
        (if memeq (lit '':schem'') name 6 then NGHTTP2_TOKEN__SCHEME
         else if memeq (lit ''upgrad'') name 6 then NGHTTP2_TOKEN_UPGRADE
         else - 1)
      else if name ! 6 = of_char (CHR ''h'') then
        (if memeq (lit ''refres'') name 6 then NGHTTP2_TOKEN_REFRESH
         else - 1)
      else if name ! 6 = of_char (CHR ''r'') then
        (if memeq (lit ''refere'') name 6 then NGHTTP2_TOKEN_REFERER
         else - 1)
      else if name ! 6 = of_char (CHR ''s'') then
        (if memeq (lit '':statu'') name 6 then NGHTTP2_TOKEN__STATUS
         else if memeq (lit ''expire'') name 6 then NGHTTP2_TOKEN_EXPIRES
         else - 1)
      else - 1)"

definition lookup_token_8 :: "bytes \<Rightarrow> int" where
  "lookup_token_8 name =
     (if name ! 7 = of_char (CHR ''e'') then
        (if memeq (lit ''if-rang'') name 7 then NGHTTP2_TOKEN_IF_RANGE
         else - 1)
      else if name ! 7 = of_char (CHR ''h'') then
        (if memeq (lit ''if-matc'') name 7 then NGHTTP2_TOKEN_IF_MATCH
         else - 1)
      else if name ! 7 = of_char (CHR ''n'') then
        (if memeq (lit ''locatio'') name 7 then NGHTTP2_TOKEN_LOCATION
         else - 1)
      else if name ! 7 = of_char (CHR ''y'') then
        (if memeq (lit ''priorit'') name 7 then NGHTTP2_TOKEN_PRIORITY
         else - 1)
      else - 1)"

definition lookup_token_9 :: "bytes \<Rightarrow> int" where
  "lookup_token_9 name =
     (if name ! 8 = of_char (CHR ''l'') then
        (if memeq (lit '':protoco'') name 8 then NGHTTP2_TOKEN__PROTOCOL
         else - 1)
      else - 1)"

definition lookup_token_10 :: "bytes \<Rightarrow> int" where
  "lookup_token_10 name =
     (if name ! 9 = of_char (CHR ''e'') then
        (if memeq (lit ''keep-aliv'') name 9 then NGHTTP2_TOKEN_KEEP_ALIVE
         else if memeq (lit ''set-cooki'') name 9 then NGHTTP2_TOKEN_SET_COOKIE
         else - 1)
      else if name ! 9 = of_char (CHR ''n'') then
        (if memeq (lit ''connectio'') name 9 then NGHTTP2_TOKEN_CONNECTION
         else - 1)
      else if name ! 9 = of_char (CHR ''t'') then
        (if memeq (lit ''user-agen'') name 9 then NGHTTP2_TOKEN_USER_AGENT
         else - 1)
      else if name ! 9 = of_char (CHR ''y'') then
        (if memeq (lit '':authorit'') name 9 then NGHTTP2_TOKEN__AUTHORITY
         else - 1)
      else - 1)"

definition lookup_token_11 :: "bytes \<Rightarrow> int" where
  "lookup_token_11 name =
     (if name ! 10 = of_char (CHR ''r'') then
        (if memeq (lit ''retry-afte'') name 10 then NGHTTP2_TOKEN_RETRY_AFTER
         else - 1)
      else - 1)"

definition lookup_token_12 :: "bytes \<Rightarrow> int" where
  "lookup_token_12 name =
     (if name ! 11 = of_char (CHR ''e'') then
        (if memeq (lit ''content-typ'') name 11 then NGHTTP2_TOKEN_CONTENT_TYPE
         else - 1)
      else if name ! 11 = of_char (CHR ''s'') then
        (if memeq (lit ''max-forward'') name 11 then NGHTTP2_TOKEN_MAX_FORWARDS
         else - 1)
      else - 1)"

definition lookup_token_13 :: "bytes \<Rightarrow> int" where
  "lookup_token_13 name =
     (if name ! 12 = of_char (CHR ''d'') then
        (if memeq (lit ''last-modifie'') name 12 then NGHTTP2_TOKEN_LAST_MODIFIED
         else - 1)
      else if name ! 12 = of_char (CHR ''e'') then
        (if memeq (lit ''content-rang'') name 12 then NGHTTP2_TOKEN_CONTENT_RANGE
         else - 1)
      else if name ! 12 = of_char (CHR ''h'') then
        (if memeq (lit ''if-none-matc'') name 12 then NGHTTP2_TOKEN_IF_NONE_MATCH
         else - 1)
      else if name ! 12 = of_char (CHR ''l'') then
        (if memeq (lit ''cache-contro'') name 12 then NGHTTP2_TOKEN_CACHE_CONTROL
         else - 1)
      else if name ! 12 = of_char (CHR ''n'') then
        (if memeq (lit ''authorizatio'') name 12 then NGHTTP2_TOKEN_AUTHORIZATION
         else - 1)
      else if name ! 12 = of_char (CHR ''s'') then
        (if memeq (lit ''accept-range'') name 12 then NGHTTP2_TOKEN_ACCEPT_RANGES
         else - 1)
      else - 1)"

definition lookup_token_14 :: "bytes \<Rightarrow> int" where
  "lookup_token_14 name =
     (if name ! 13 = of_char (CHR ''h'') then
        (if memeq (lit ''content-lengt'') name 13 then NGHTTP2_TOKEN_CONTENT_LENGTH
         else - 1)
      else if name ! 13 = of_char (CHR ''t'') then
        (if memeq (lit ''accept-charse'') name 13 then NGHTTP2_TOKEN_ACCEPT_CHARSET
         else - 1)
      else - 1)"

definition lookup_token_15 :: "bytes \<Rightarrow> int" where
  "lookup_token_15 name =
     (if name ! 14 = of_char (CHR ''e'') then
        (if memeq (lit ''accept-languag'') name 14 then NGHTTP2_TOKEN_ACCEPT_LANGUAGE
         else - 1)
      else if name ! 14 = of_char (CHR ''g'') then
        (if memeq (lit ''accept-encodin'') name 14 then NGHTTP2_TOKEN_ACCEPT_ENCODING
         else - 1)
      else - 1)"

definition lookup_token_16 :: "bytes \<Rightarrow> int" where
  "lookup_token_16 name =
     (if name ! 15 = of_char (CHR ''e'') then
        (if memeq (lit ''content-languag'') name 15 then NGHTTP2_TOKEN_CONTENT_LANGUAGE
         else if memeq (lit ''www-authenticat'') name 15 then NGHTTP2_TOKEN_WWW_AUTHENTICATE
         else - 1)
      else if name ! 15 = of_char (CHR ''g'') then
        (if memeq (lit ''content-encodin'') name 15 then NGHTTP2_TOKEN_CONTENT_ENCODING
         else - 1)
      else if name ! 15 = of_char (CHR ''n'') then
        (if memeq (lit ''content-locatio'') name 15 then NGHTTP2_TOKEN_CONTENT_LOCATION
         else if memeq (lit ''proxy-connectio'') name 15 then NGHTTP2_TOKEN_PROXY_CONNECTION
         else - 1)
      else - 1)"

definition lookup_token_17 :: "bytes \<Rightarrow> int" where
  "lookup_token_17 name =
     (if name ! 16 = of_char (CHR ''e'') then
        (if memeq (lit ''if-modified-sinc'') name 16 then NGHTTP2_TOKEN_IF_MODIFIED_SINCE
         else - 1)
      else if name ! 16 = of_char (CHR ''g'') then
        (if memeq (lit ''transfer-encodin'') name 16 then NGHTTP2_TOKEN_TRANSFER_ENCODING
         else - 1)
      else - 1)"

definition lookup_token_18 :: "bytes \<Rightarrow> int" where
  "lookup_token_18 name =
     (if name ! 17 = of_char (CHR ''e'') then
        (if memeq (lit ''proxy-authenticat'') name 17 then NGHTTP2_TOKEN_PROXY_AUTHENTICATE
         else - 1)
      else - 1)"

definition lookup_token_19 :: "bytes \<Rightarrow> int" where
  "lookup_token_19 name =
     (if name ! 18 = of_char (CHR ''e'') then
        (if memeq (lit ''if-unmodified-sinc'') name 18 then NGHTTP2_TOKEN_IF_UNMODIFIED_SINCE
         else - 1)
      else if name ! 18 = of_char (CHR ''n'') then
        (if memeq (lit ''content-dispositio'') name 18 then NGHTTP2_TOKEN_CONTENT_DISPOSITION
         else if memeq (lit ''proxy-authorizatio'') name 18 then NGHTTP2_TOKEN_PROXY_AUTHORIZATION
         else - 1)
      else - 1)"

definition lookup_token_25 :: "bytes \<Rightarrow> int" where
  "lookup_token_25 name =
     (if name ! 24 = of_char (CHR ''y'') then
        (if memeq (lit ''strict-transport-securit'') name 24 then NGHTTP2_TOKEN_STRICT_TRANSPORT_SECURITY
         else - 1)
      else - 1)"

definition lookup_token_27 :: "bytes \<Rightarrow> int" where
  "lookup_token_27 name =
     (if name ! 26 = of_char (CHR ''n'') then
        (if memeq (lit ''access-control-allow-origi'') name 26 then NGHTTP2_TOKEN_ACCESS_CONTROL_ALLOW_ORIGIN
         else - 1)
      else - 1)"

definition lookup_token :: "bytes \<Rightarrow> int" where
  "lookup_token name =
     (let namelen = length name in
      if namelen = 2 then lookup_token_2 name
      else if namelen = 3 then lookup_token_3 name
      else if namelen = 4 then lookup_token_4 name
      else if namelen = 5 then lookup_token_5 name
      else if namelen = 6 then lookup_token_6 name
      else if namelen = 7 then lookup_token_7 name
      else if namelen = 8 then lookup_token_8 name
      else if namelen = 9 then lookup_token_9 name
      else if namelen = 10 then lookup_token_10 name
      else if namelen = 11 then lookup_token_11 name
      else if namelen = 12 then lookup_token_12 name
      else if namelen = 13 then lookup_token_13 name
      else if namelen = 14 then lookup_token_14 name
      else if namelen = 15 then lookup_token_15 name
      else if namelen = 16 then lookup_token_16 name
      else if namelen = 17 then lookup_token_17 name
      else if namelen = 18 then lookup_token_18 name
      else if namelen = 19 then lookup_token_19 name
      else if namelen = 25 then lookup_token_25 name
      else if namelen = 27 then lookup_token_27 name
      else - 1)"

section \<open>Hash of a name\<close>

fun name_hash_loop :: "u32 \<Rightarrow> bytes \<Rightarrow> u32" where
  "name_hash_loop h [] = h"
| "name_hash_loop h (c # cs) =
     (let h = h XOR ucast c;
          h = h + (push_bit 1 h + push_bit 4 h + push_bit 7 h + push_bit 8 h + push_bit 24 h)
      in name_hash_loop h cs)"

definition name_hash :: "bytes \<Rightarrow> u32" where
  "name_hash name = name_hash_loop 2166136261 name"

section \<open>Agreement of the tables\<close>

text \<open>The names that the tokens of the header file stand for.\<close>

definition token_table :: "(string \<times> int) list" where
  "token_table = [
     ('':authority'', NGHTTP2_TOKEN__AUTHORITY),
     ('':method'', NGHTTP2_TOKEN__METHOD),
     ('':path'', NGHTTP2_TOKEN__PATH),
     ('':scheme'', NGHTTP2_TOKEN__SCHEME),
     ('':status'', NGHTTP2_TOKEN__STATUS),
     (''accept-charset'', NGHTTP2_TOKEN_ACCEPT_CHARSET),
     (''accept-encoding'', NGHTTP2_TOKEN_ACCEPT_ENCODING),
     (''accept-language'', NGHTTP2_TOKEN_ACCEPT_LANGUAGE),
     (''accept-ranges'', NGHTTP2_TOKEN_ACCEPT_RANGES),
     (''accept'', NGHTTP2_TOKEN_ACCEPT),
     (''access-control-allow-origin'', NGHTTP2_TOKEN_ACCESS_CONTROL_ALLOW_ORIGIN),
     (''age'', NGHTTP2_TOKEN_AGE),
     (''allow'', NGHTTP2_TOKEN_ALLOW),
     (''authorization'', NGHTTP2_TOKEN_AUTHORIZATION),
     (''cache-control'', NGHTTP2_TOKEN_CACHE_CONTROL),
     (''content-disposition'', NGHTTP2_TOKEN_CONTENT_DISPOSITION),
     (''content-encoding'', NGHTTP2_TOKEN_CONTENT_ENCODING),
     (''content-language'', NGHTTP2_TOKEN_CONTENT_LANGUAGE),
     (''content-length'', NGHTTP2_TOKEN_CONTENT_LENGTH),
     (''content-location'', NGHTTP2_TOKEN_CONTENT_LOCATION),
     (''content-range'', NGHTTP2_TOKEN_CONTENT_RANGE),
     (''content-type'', NGHTTP2_TOKEN_CONTENT_TYPE),
     (''cookie'', NGHTTP2_TOKEN_COOKIE),
     (''date'', NGHTTP2_TOKEN_DATE),
     (''etag'', NGHTTP2_TOKEN_ETAG),
     (''expect'', NGHTTP2_TOKEN_EXPECT),
     (''expires'', NGHTTP2_TOKEN_EXPIRES),
     (''from'', NGHTTP2_TOKEN_FROM),
     (''host'', NGHTTP2_TOKEN_HOST),
     (''if-match'', NGHTTP2_TOKEN_IF_MATCH),
     (''if-modified-since'', NGHTTP2_TOKEN_IF_MODIFIED_SINCE),
     (''if-none-match'', NGHTTP2_TOKEN_IF_NONE_MATCH),
     (''if-range'', NGHTTP2_TOKEN_IF_RANGE),
     (''if-unmodified-since'', NGHTTP2_TOKEN_IF_UNMODIFIED_SINCE),
     (''last-modified'', NGHTTP2_TOKEN_LAST_MODIFIED),
     (''link'', NGHTTP2_TOKEN_LINK),
     (''location'', NGHTTP2_TOKEN_LOCATION),
     (''max-forwards'', NGHTTP2_TOKEN_MAX_FORWARDS),
     (''proxy-authenticate'', NGHTTP2_TOKEN_PROXY_AUTHENTICATE),
     (''proxy-authorization'', NGHTTP2_TOKEN_PROXY_AUTHORIZATION),
     (''range'', NGHTTP2_TOKEN_RANGE),
     (''referer'', NGHTTP2_TOKEN_REFERER),
     (''refresh'', NGHTTP2_TOKEN_REFRESH),
     (''retry-after'', NGHTTP2_TOKEN_RETRY_AFTER),
     (''server'', NGHTTP2_TOKEN_SERVER),
     (''set-cookie'', NGHTTP2_TOKEN_SET_COOKIE),
     (''strict-transport-security'', NGHTTP2_TOKEN_STRICT_TRANSPORT_SECURITY),
     (''transfer-encoding'', NGHTTP2_TOKEN_TRANSFER_ENCODING),
     (''user-agent'', NGHTTP2_TOKEN_USER_AGENT),
     (''vary'', NGHTTP2_TOKEN_VARY),
     (''via'', NGHTTP2_TOKEN_VIA),
     (''www-authenticate'', NGHTTP2_TOKEN_WWW_AUTHENTICATE),
     (''te'', NGHTTP2_TOKEN_TE),
     (''connection'', NGHTTP2_TOKEN_CONNECTION),
     (''keep-alive'', NGHTTP2_TOKEN_KEEP_ALIVE),
     (''proxy-connection'', NGHTTP2_TOKEN_PROXY_CONNECTION),
     (''upgrade'', NGHTTP2_TOKEN_UPGRADE),
     ('':protocol'', NGHTTP2_TOKEN__PROTOCOL),
     (''priority'', NGHTTP2_TOKEN_PRIORITY)]"

definition token_of :: "bytes \<Rightarrow> int option" where
  "token_of = map_of (map (\<lambda>(s, t). (lit s, t)) token_table)"


lemma memcmp_take: "n \<le> length a \<Longrightarrow> n \<le> length b \<Longrightarrow> memcmp a b n = 0 \<longleftrightarrow> take n a = take n b"
  by (induction a b n rule: memcmp.induct) (auto split: if_splits)

lemma memeq_whole: "length a = n \<Longrightarrow> length b = n \<Longrightarrow> memeq a b n \<longleftrightarrow> a = b"
  by (simp add: memeq_def memcmp_take)

lemma length_lit [simp]: "length (lit s) = length s"
  by (simp add: lit_def)

lemma lit_append: "lit (s @ t) = lit s @ lit t"
  by (simp add: lit_def)

text \<open>The two tests of a case together compare the whole name.\<close>

lemma lookup_case:
  assumes "length name = Suc (length s)" "name ! length s = of_char c"
  shows "memeq (lit s) name (length s) \<longleftrightarrow> name = lit (s @ [c])"
proof -
  have "name = take (length s) name @ [name ! length s]"
    using assms(1) by (metis lessI order_refl take_Suc_conv_app_nth take_all)
  then show ?thesis using assms by (auto simp: memeq_def memcmp_take lit_append) (simp_all add: lit_def)
qed

text \<open>Elimination rules for the outcome of the inner \<open>switch\<close> and of its \<open>if\<close> cascades.\<close>

lemma switch_elim:
  "(if name ! n = of_char c then x else r) \<noteq> (- 1 :: int) \<Longrightarrow>
     (name ! n = of_char c \<Longrightarrow> x \<noteq> - 1 \<Longrightarrow> K) \<Longrightarrow> (r \<noteq> - 1 \<Longrightarrow> K) \<Longrightarrow> K"
  by (simp split: if_splits)

lemma memeq_elim:
  assumes "(if memeq (lit s) name n then t else r) \<noteq> (- 1 :: int)" "name ! n = of_char c"
    and "r \<noteq> - 1 \<Longrightarrow> token_of name \<noteq> None"
    and "length name = Suc n" "length s = n" "list_ex (\<lambda>(u, t). u = s @ [c]) token_table"
  shows "token_of name \<noteq> None"
proof (cases "memeq (lit s) name n")
  case True
  then have "name = lit (s @ [c])" using lookup_case [of name s c] assms by simp
  moreover have "lit (s @ [c]) \<in> fst ` set (map (\<lambda>(s, t). (lit s, t)) token_table)"
    using assms(6) by (force simp: list_ex_iff)
  ultimately show ?thesis unfolding token_of_def map_of_eq_None_iff by simp
next
  case False
  then show ?thesis using assms by simp
qed

lemmas lookup_elims = switch_elim memeq_elim notE [OF _ refl]

lemma lookup_token_2_name: "lookup_token_2 name \<noteq> - 1 \<Longrightarrow> length name = 2 \<Longrightarrow> token_of name \<noteq> None"
  unfolding lookup_token_2_def
  by (erule switch_elim | erule (1) memeq_elim | (erule notE, rule refl) | (simp add: token_table_def; fail))+

lemma lookup_token_3_name: "lookup_token_3 name \<noteq> - 1 \<Longrightarrow> length name = 3 \<Longrightarrow> token_of name \<noteq> None"
  unfolding lookup_token_3_def
  by (erule switch_elim | erule (1) memeq_elim | (erule notE, rule refl) | (simp add: token_table_def; fail))+

lemma lookup_token_4_name: "lookup_token_4 name \<noteq> - 1 \<Longrightarrow> length name = 4 \<Longrightarrow> token_of name \<noteq> None"
  unfolding lookup_token_4_def
  by (erule switch_elim | erule (1) memeq_elim | (erule notE, rule refl) | (simp add: token_table_def; fail))+

lemma lookup_token_5_name: "lookup_token_5 name \<noteq> - 1 \<Longrightarrow> length name = 5 \<Longrightarrow> token_of name \<noteq> None"
  unfolding lookup_token_5_def
  by (erule switch_elim | erule (1) memeq_elim | (erule notE, rule refl) | (simp add: token_table_def; fail))+

lemma lookup_token_6_name: "lookup_token_6 name \<noteq> - 1 \<Longrightarrow> length name = 6 \<Longrightarrow> token_of name \<noteq> None"
  unfolding lookup_token_6_def
  by (erule switch_elim | erule (1) memeq_elim | (erule notE, rule refl) | (simp add: token_table_def; fail))+

lemma lookup_token_7_name: "lookup_token_7 name \<noteq> - 1 \<Longrightarrow> length name = 7 \<Longrightarrow> token_of name \<noteq> None"
  unfolding lookup_token_7_def
  by (erule switch_elim | erule (1) memeq_elim | (erule notE, rule refl) | (simp add: token_table_def; fail))+

lemma lookup_token_8_name: "lookup_token_8 name \<noteq> - 1 \<Longrightarrow> length name = 8 \<Longrightarrow> token_of name \<noteq> None"
  unfolding lookup_token_8_def
  by (erule switch_elim | erule (1) memeq_elim | (erule notE, rule refl) | (simp add: token_table_def; fail))+

lemma lookup_token_9_name: "lookup_token_9 name \<noteq> - 1 \<Longrightarrow> length name = 9 \<Longrightarrow> token_of name \<noteq> None"
  unfolding lookup_token_9_def
  by (erule switch_elim | erule (1) memeq_elim | (erule notE, rule refl) | (simp add: token_table_def; fail))+

lemma lookup_token_10_name: "lookup_token_10 name \<noteq> - 1 \<Longrightarrow> length name = 10 \<Longrightarrow> token_of name \<noteq> None"
  unfolding lookup_token_10_def
  by (erule switch_elim | erule (1) memeq_elim | (erule notE, rule refl) | (simp add: token_table_def; fail))+

lemma lookup_token_11_name: "lookup_token_11 name \<noteq> - 1 \<Longrightarrow> length name = 11 \<Longrightarrow> token_of name \<noteq> None"
  unfolding lookup_token_11_def
  by (erule switch_elim | erule (1) memeq_elim | (erule notE, rule refl) | (simp add: token_table_def; fail))+

lemma lookup_token_12_name: "lookup_token_12 name \<noteq> - 1 \<Longrightarrow> length name = 12 \<Longrightarrow> token_of name \<noteq> None"
  unfolding lookup_token_12_def
  by (erule switch_elim | erule (1) memeq_elim | (erule notE, rule refl) | (simp add: token_table_def; fail))+

lemma lookup_token_13_name: "lookup_token_13 name \<noteq> - 1 \<Longrightarrow> length name = 13 \<Longrightarrow> token_of name \<noteq> None"
  unfolding lookup_token_13_def
  by (erule switch_elim | erule (1) memeq_elim | (erule notE, rule refl) | (simp add: token_table_def; fail))+

lemma lookup_token_14_name: "lookup_token_14 name \<noteq> - 1 \<Longrightarrow> length name = 14 \<Longrightarrow> token_of name \<noteq> None"
  unfolding lookup_token_14_def
  by (erule switch_elim | erule (1) memeq_elim | (erule notE, rule refl) | (simp add: token_table_def; fail))+

lemma lookup_token_15_name: "lookup_token_15 name \<noteq> - 1 \<Longrightarrow> length name = 15 \<Longrightarrow> token_of name \<noteq> None"
  unfolding lookup_token_15_def
  by (erule switch_elim | erule (1) memeq_elim | (erule notE, rule refl) | (simp add: token_table_def; fail))+

lemma lookup_token_16_name: "lookup_token_16 name \<noteq> - 1 \<Longrightarrow> length name = 16 \<Longrightarrow> token_of name \<noteq> None"
  unfolding lookup_token_16_def
  by (erule switch_elim | erule (1) memeq_elim | (erule notE, rule refl) | (simp add: token_table_def; fail))+

lemma lookup_token_17_name: "lookup_token_17 name \<noteq> - 1 \<Longrightarrow> length name = 17 \<Longrightarrow> token_of name \<noteq> None"
  unfolding lookup_token_17_def
  by (erule switch_elim | erule (1) memeq_elim | (erule notE, rule refl) | (simp add: token_table_def; fail))+

lemma lookup_token_18_name: "lookup_token_18 name \<noteq> - 1 \<Longrightarrow> length name = 18 \<Longrightarrow> token_of name \<noteq> None"
  unfolding lookup_token_18_def
  by (erule switch_elim | erule (1) memeq_elim | (erule notE, rule refl) | (simp add: token_table_def; fail))+

lemma lookup_token_19_name: "lookup_token_19 name \<noteq> - 1 \<Longrightarrow> length name = 19 \<Longrightarrow> token_of name \<noteq> None"
  unfolding lookup_token_19_def
  by (erule switch_elim | erule (1) memeq_elim | (erule notE, rule refl) | (simp add: token_table_def; fail))+

lemma lookup_token_25_name: "lookup_token_25 name \<noteq> - 1 \<Longrightarrow> length name = 25 \<Longrightarrow> token_of name \<noteq> None"
  unfolding lookup_token_25_def
  by (erule switch_elim | erule (1) memeq_elim | (erule notE, rule refl) | (simp add: token_table_def; fail))+

lemma lookup_token_27_name: "lookup_token_27 name \<noteq> - 1 \<Longrightarrow> length name = 27 \<Longrightarrow> token_of name \<noteq> None"
  unfolding lookup_token_27_def
  by (erule switch_elim | erule (1) memeq_elim | (erule notE, rule refl) | (simp add: token_table_def; fail))+

lemmas lookup_defs = lookup_token_2_def lookup_token_3_def lookup_token_4_def lookup_token_5_def lookup_token_6_def lookup_token_7_def lookup_token_8_def lookup_token_9_def lookup_token_10_def lookup_token_11_def lookup_token_12_def lookup_token_13_def lookup_token_14_def lookup_token_15_def lookup_token_16_def lookup_token_17_def lookup_token_18_def lookup_token_19_def lookup_token_25_def lookup_token_27_def

lemmas lookup_names = lookup_token_2_name lookup_token_3_name lookup_token_4_name lookup_token_5_name lookup_token_6_name lookup_token_7_name lookup_token_8_name lookup_token_9_name lookup_token_10_name lookup_token_11_name lookup_token_12_name lookup_token_13_name lookup_token_14_name lookup_token_15_name lookup_token_16_name lookup_token_17_name lookup_token_18_name lookup_token_19_name lookup_token_25_name lookup_token_27_name

lemma length_case:
  "(if n = k then x else r) \<noteq> (- 1 :: int) \<Longrightarrow> (n = k \<Longrightarrow> x \<noteq> - 1 \<Longrightarrow> K) \<Longrightarrow> (r \<noteq> - 1 \<Longrightarrow> K) \<Longrightarrow> K"
  by (simp split: if_splits)

lemma lookup_token_known: "lookup_token name \<noteq> - 1 \<Longrightarrow> token_of name \<noteq> None"
  unfolding lookup_token_def Let_def
  by (erule length_case | erule (1) lookup_names | (erule notE, rule refl))+

lemma lookup_token_listed: "list_all (\<lambda>(s, t). lookup_token (lit s) = t) token_table"
  by (simp add: token_table_def lookup_token_def lookup_defs memeq_def memcmp_take lit_def)

lemma lookup_token_is_token_of: "lookup_token name = (case token_of name of None \<Rightarrow> - 1 | Some t \<Rightarrow> t)"
proof (cases "token_of name")
  case None
  then show ?thesis using lookup_token_known [of name] by auto
next
  case (Some t)
  then obtain s where "(s, t) \<in> set token_table" "name = lit s"
    unfolding token_of_def by (auto dest!: map_of_SomeD)
  then show ?thesis using lookup_token_listed Some by (auto simp: list_all_iff)
qed

lemma name_hash_step [code]:
  "name_hash_loop h [] = h"
  "name_hash_loop h (c # cs) = name_hash_loop ((h XOR ucast c) * 16777619) cs"
proof -
  have "x + (push_bit 1 x + push_bit 4 x + push_bit 7 x + push_bit 8 x + push_bit 24 x) = x * 16777619" for x :: u32
    by (simp add: push_bit_eq_mult)
  then show "name_hash_loop h (c # cs) = name_hash_loop ((h XOR ucast c) * 16777619) cs"
    unfolding name_hash_loop.simps Let_def by metis
qed simp

lemma static_table_hashes: "list_all (\<lambda>e. name_hash (se_name e) = se_hash e) static_table"
  unfolding static_table_def by code_simp

lemma static_table_tokens: "list_all (\<lambda>e. lookup_token (se_name e) = se_token e) static_table"
  unfolding static_table_def MAKE_STATIC_ENT_def
  by (simp add: lookup_token_def lookup_defs memeq_def memcmp_take lit_def token_consts)

lemma static_table_first:
  "list_all (\<lambda>t. t \<le> NGHTTP2_TOKEN_WWW_AUTHENTICATE \<longrightarrow> se_token (static_table ! nat t) = t) (map snd token_table)"
  by code_simp

lemma token_table_distinct: "distinct (map snd token_table)"
  by code_simp

lemma token_table_pos: "list_all (\<lambda>t. 0 \<le> t) (map snd token_table)"
  by code_simp

lemma length_static_table [simp]: "length static_table = 61"
  by (simp add: static_table_def)

lemma token_of_table: "token_of name = Some t \<Longrightarrow> \<exists>s. (s, t) \<in> set token_table \<and> name = lit s"
  unfolding token_of_def by (auto dest!: map_of_SomeD)

lemma lookup_token_inj: "lookup_token a = lookup_token b \<Longrightarrow> lookup_token a \<noteq> - 1 \<Longrightarrow> a = b"
proof -
  assume e: "lookup_token a = lookup_token b" and n: "lookup_token a \<noteq> - 1"
  then obtain t where a: "token_of a = Some t" and t: "lookup_token a = t"
    by (auto simp: lookup_token_is_token_of [of a] split: option.splits)
  moreover obtain u where b: "token_of b = Some u" "lookup_token b = u"
    using e n by (auto simp: lookup_token_is_token_of [of b] split: option.splits)
  ultimately obtain x y where "(x, t) \<in> set token_table" "a = lit x" "(y, t) \<in> set token_table" "b = lit y"
    using e by (auto dest!: token_of_table)
  moreover from this have "x = y"
    using token_table_distinct by (metis distinct_map inj_on_contraD prod.inject snd_conv)
  ultimately show "a = b" by simp
qed

lemma lookup_token_range: "lookup_token name \<noteq> - 1 \<Longrightarrow> 0 \<le> lookup_token name"
  using token_table_pos by (auto simp: lookup_token_is_token_of list_all_iff dest!: token_of_table split: option.splits)

lemma static_entry_token: "i < 61 \<Longrightarrow> lookup_token (se_name (static_table ! i)) = se_token (static_table ! i)"
  using static_table_tokens by (simp add: list_all_length)

text \<open>A token up to \<open>NGHTTP2_TOKEN_WWW_AUTHENTICATE\<close> is the index of the first entry with its name.\<close>

lemma token_entry:
  assumes "lookup_token name = t" "t \<noteq> - 1" "t \<le> NGHTTP2_TOKEN_WWW_AUTHENTICATE"
  shows "nat t < 61 \<and> se_token (static_table ! nat t) = t \<and> se_name (static_table ! nat t) = name"
proof -
  have p: "0 \<le> t" using lookup_token_range [of name] assms by simp
  then have i: "nat t < 61" using assms(3) by (simp add: token_consts)
  have "t \<in> set (map snd token_table)"
    using assms(1,2) by (force simp: lookup_token_is_token_of dest!: token_of_table split: option.splits)
  then have s: "se_token (static_table ! nat t) = t"
    using static_table_first assms(3) unfolding list_all_iff by blast
  then have "lookup_token (se_name (static_table ! nat t)) = lookup_token name"
    using static_entry_token [OF i] assms(1) by simp
  then show ?thesis using lookup_token_inj assms s i by metis
qed

section \<open>Property\<close>

text \<open>
  C7. The generated data of HPACK agree. The nested switch of \<open>lookup_token\<close> (on the length, the
  last character and the other characters) returns exactly the token of the header file for the
  known names and -1 for all others; different known names have different tokens; and every row
  of the static table carries the token of its name, the FNV hash of its name, and a token that
  is the index of a row with that token, as the search loops of the compressor require.
\<close>

theorem hd_tables_agree:
  "lookup_token name = (case token_of name of None \<Rightarrow> - 1 | Some t \<Rightarrow> t) \<and>
   inj_on lookup_token {name. lookup_token name \<noteq> - 1} \<and>
   length static_table = NGHTTP2_STATIC_TABLE_LENGTH \<and>
   list_all (\<lambda>e. lookup_token (se_name e) = se_token e \<and> name_hash (se_name e) = se_hash e \<and>
     se_token e = se_token (static_table ! nat (se_token e)) \<and>
     se_name e = se_name (static_table ! nat (se_token e))) static_table"
proof (intro conjI)
  show "lookup_token name = (case token_of name of None \<Rightarrow> - 1 | Some t \<Rightarrow> t)"
    by (rule lookup_token_is_token_of)
  show "inj_on lookup_token {name. lookup_token name \<noteq> - 1}"
    using lookup_token_inj by (auto intro!: inj_onI)
  show "length static_table = NGHTTP2_STATIC_TABLE_LENGTH"
    by (simp add: NGHTTP2_STATIC_TABLE_LENGTH_def)
  have r: "list_all (\<lambda>e. 0 \<le> se_token e \<and> se_token e \<le> NGHTTP2_TOKEN_WWW_AUTHENTICATE) static_table"
    unfolding static_table_def by code_simp
  show "list_all (\<lambda>e. lookup_token (se_name e) = se_token e \<and> name_hash (se_name e) = se_hash e \<and>
     se_token e = se_token (static_table ! nat (se_token e)) \<and>
     se_name e = se_name (static_table ! nat (se_token e))) static_table"
    unfolding list_all_iff
  proof (intro ballI)
    fix e
    assume e: "e \<in> set static_table"
    then have 1: "lookup_token (se_name e) = se_token e" "name_hash (se_name e) = se_hash e"
      "se_token e \<noteq> - 1" "se_token e \<le> NGHTTP2_TOKEN_WWW_AUTHENTICATE"
      using static_table_tokens static_table_hashes r unfolding list_all_iff by auto
    then show "lookup_token (se_name e) = se_token e \<and> name_hash (se_name e) = se_hash e \<and>
       se_token e = se_token (static_table ! nat (se_token e)) \<and>
       se_name e = se_name (static_table ! nat (se_token e))"
      using token_entry [OF 1(1,3,4)] by simp
  qed
qed

end
