(* ===== verification/Nghttp2_Hd_Table.thy ===== *)
theory Nghttp2_Hd_Table
  imports Nghttp2_Hd_Token
begin

text \<open>
  The header tables of HPACK, from \<open>src/src/nghttp2/lib/nghttp2_hd.c\<close>: the ring buffer that holds
  the dynamic table, the hash map through which the compressor finds entries, and the context
  with insertion, eviction and lookup.

  Names and values are immutable once they are created, so a handle \<open>nghttp2_rcbuf *\<close> is
  represented by the bytes it refers to; the counting of references is in \<open>Nghttp2_Rcbuf\<close>. An
  entry is represented by its contents. Where the code compares the addresses of entries, the
  model compares their sequence numbers, which differ for the entries of a table (shown below).
  The chain of a bucket, linked by the member \<open>next\<close>, is a list. \<open>None\<close> as the result of an
  operation stands for a failed assertion or the read of an uninitialised slot.
\<close>

unbundle bit_operations_syntax

section \<open>Entries\<close>

record nghttp2_hd_nv =
  hn_name :: bytes
  hn_value :: bytes
  hn_token :: int
  hn_flags :: u8

record nghttp2_hd_entry =
  ent_nv :: nghttp2_hd_nv
  ent_cnv :: nghttp2_nv
  ent_seq :: u32
  ent_hash :: u32

definition NGHTTP2_NV_FLAG_NONE :: u8 where "NGHTTP2_NV_FLAG_NONE = 0"

text \<open>The member \<open>seq\<close> is not set here; its caller sets it before it is read.\<close>

definition nghttp2_hd_entry_init :: "nghttp2_hd_nv \<Rightarrow> nghttp2_hd_entry" where
  "nghttp2_hd_entry_init nv =
     \<lparr>ent_nv = nv,
      ent_cnv = \<lparr>nv_name = hn_name nv, nv_value = hn_value nv, nv_flags = hn_flags nv\<rparr>,
      ent_seq = 0, ent_hash = 0\<rparr>"

definition name_eq :: "nghttp2_hd_nv \<Rightarrow> nghttp2_nv \<Rightarrow> bool" where
  "name_eq a b \<longleftrightarrow> length (hn_name a) = length (nv_name b) \<and> memeq (hn_name a) (nv_name b) (length (nv_name b))"

definition value_eq :: "nghttp2_hd_nv \<Rightarrow> nghttp2_nv \<Rightarrow> bool" where
  "value_eq a b \<longleftrightarrow>
     length (hn_value a) = length (nv_value b) \<and> memeq (hn_value a) (nv_value b) (length (nv_value b))"

section \<open>The hash map of the compressor\<close>

definition HD_MAP_SIZE :: nat where "HD_MAP_SIZE = 128"

type_synonym nghttp2_hd_map = "nghttp2_hd_entry list list"

definition hd_bucket :: "u32 \<Rightarrow> nat" where
  "hd_bucket hash = unat (hash AND word_of_nat (HD_MAP_SIZE - 1))"

definition hd_map_init :: nghttp2_hd_map where
  "hd_map_init = replicate HD_MAP_SIZE []"

definition hd_map_insert :: "nghttp2_hd_map \<Rightarrow> nghttp2_hd_entry \<Rightarrow> nghttp2_hd_map" where
  "hd_map_insert mp ent =
     (let b = hd_bucket (ent_hash ent) in
      if mp ! b = [] then mp[b := [ent]] else mp[b := ent # mp ! b])"

fun hd_map_find_loop ::
  "nghttp2_nv \<Rightarrow> int \<Rightarrow> u32 \<Rightarrow> bool \<Rightarrow> nghttp2_hd_entry option \<Rightarrow> nghttp2_hd_entry list \<Rightarrow>
   nghttp2_hd_entry option \<times> bool" where
  "hd_map_find_loop nv token hash name_only res [] = (res, False)"
| "hd_map_find_loop nv token hash name_only res (p # ps) =
     (if token \<noteq> hn_token (ent_nv p) \<or> (token = - 1 \<and> (hash \<noteq> ent_hash p \<or> \<not> name_eq (ent_nv p) nv))
      then hd_map_find_loop nv token hash name_only res ps
      else if res = None \<and> name_only then (Some p, False)
      else
        let res = (if res = None then Some p else res) in
        if value_eq (ent_nv p) nv then (Some p, True)
        else hd_map_find_loop nv token hash name_only res ps)"

definition hd_map_find ::
  "nghttp2_hd_map \<Rightarrow> nghttp2_nv \<Rightarrow> int \<Rightarrow> u32 \<Rightarrow> bool \<Rightarrow> nghttp2_hd_entry option \<times> bool" where
  "hd_map_find mp nv token hash name_only =
     hd_map_find_loop nv token hash name_only None (mp ! hd_bucket hash)"

fun hd_chain_remove :: "nghttp2_hd_entry \<Rightarrow> nghttp2_hd_entry list \<Rightarrow> nghttp2_hd_entry list" where
  "hd_chain_remove ent [] = []"
| "hd_chain_remove ent (p # ps) = (if ent_seq p \<noteq> ent_seq ent then p # hd_chain_remove ent ps else ps)"

definition hd_map_remove :: "nghttp2_hd_map \<Rightarrow> nghttp2_hd_entry \<Rightarrow> nghttp2_hd_map" where
  "hd_map_remove mp ent =
     (let b = hd_bucket (ent_hash ent) in mp[b := hd_chain_remove ent (mp ! b)])"

section \<open>The ring buffer\<close>

text \<open>A slot that was never written is \<open>None\<close>. The sizes in the loops stay far below \<open>2 ^ 64\<close>.\<close>

record nghttp2_hd_ringbuf =
  rb_buffer :: "nghttp2_hd_entry option list"
  rb_mask :: u64
  rb_first :: u64
  rb_len :: nat

text \<open>The loop \<open>for (size = 1; size < bufsize; size <<= 1)\<close>, after \<open>k\<close> rounds.\<close>

function ring_size :: "nat \<Rightarrow> nat \<Rightarrow> nat" where
  "ring_size k bufsize = (if 2 ^ k < bufsize then ring_size (k + 1) bufsize else 2 ^ k)"
  by pat_completeness auto
termination
proof (relation "measure (\<lambda>(k, bufsize). bufsize - k)")
  fix k bufsize :: nat
  assume "2 ^ k < bufsize"
  then have "k < bufsize" using less_exp [of k] by linarith
  then show "((k + 1, bufsize), k, bufsize) \<in> measure (\<lambda>(k, bufsize). bufsize - k)" by simp
qed simp

declare ring_size.simps [simp del]

definition hd_ringbuf_init :: "nat \<Rightarrow> nghttp2_mem \<Rightarrow> nghttp2_hd_ringbuf res \<times> nghttp2_mem" where
  "hd_ringbuf_init bufsize mem =
     (let max_size = (2 ^ 64 - 1) div 8 in
      if max_size < bufsize then (Inl ERR_NOMEM, mem)
      else
        let size = ring_size 0 bufsize in
        if max_size < size then (Inl ERR_NOMEM, mem)
        else
          let (ok, mem) = mem_alloc mem in
          if \<not> ok then (Inl ERR_NOMEM, mem)
          else (Inr \<lparr>rb_buffer = replicate size None, rb_mask = word_of_nat (size - 1), rb_first = 0, rb_len = 0\<rparr>,
                mem))"

definition hd_ringbuf_get :: "nghttp2_hd_ringbuf \<Rightarrow> nat \<Rightarrow> nghttp2_hd_entry option" where
  "hd_ringbuf_get rb idx =
     (if idx < rb_len rb then rb_buffer rb ! unat ((rb_first rb + word_of_nat idx) AND rb_mask rb) else None)"

definition hd_ringbuf_reserve ::
  "nghttp2_hd_ringbuf \<Rightarrow> nat \<Rightarrow> nghttp2_mem \<Rightarrow> unit res \<times> nghttp2_hd_ringbuf \<times> nghttp2_mem" where
  "hd_ringbuf_reserve rb bufsize mem =
     (if bufsize \<le> unat (rb_mask rb + 1) then (Inr (), rb, mem)
      else
        let size = ring_size 0 bufsize; (ok, mem) = mem_alloc mem in
        if \<not> ok then (Inl ERR_NOMEM, rb, mem)
        else
          let buffer = map (hd_ringbuf_get rb) [0..<rb_len rb] @ replicate (size - rb_len rb) None in
          (Inr (), rb\<lparr>rb_buffer := buffer, rb_mask := word_of_nat (size - 1), rb_first := 0\<rparr>, mem))"

definition hd_ringbuf_push_front ::
  "nghttp2_hd_ringbuf \<Rightarrow> nghttp2_hd_entry \<Rightarrow> nghttp2_mem \<Rightarrow> unit res \<times> nghttp2_hd_ringbuf \<times> nghttp2_mem" where
  "hd_ringbuf_push_front rb ent mem =
     (case hd_ringbuf_reserve rb (rb_len rb + 1) mem of
        (Inl e, rb, mem) \<Rightarrow> (Inl e, rb, mem)
      | (Inr _, rb, mem) \<Rightarrow>
          let first = rb_first rb - 1 in
          (Inr (), rb\<lparr>rb_first := first,
                      rb_buffer := (rb_buffer rb)[unat (first AND rb_mask rb) := Some ent],
                      rb_len := rb_len rb + 1\<rparr>, mem))"

definition hd_ringbuf_pop_back :: "nghttp2_hd_ringbuf \<Rightarrow> nghttp2_hd_ringbuf option" where
  "hd_ringbuf_pop_back rb = (if 0 < rb_len rb then Some (rb\<lparr>rb_len := rb_len rb - 1\<rparr>) else None)"

section \<open>The context\<close>

record nghttp2_hd_context =
  hd_table :: nghttp2_hd_ringbuf
  hd_mem :: nghttp2_mem
  hd_table_bufsize :: nat
  hd_table_bufsize_max :: nat
  next_seq :: u32
  hd_bad :: bool

definition NGHTTP2_HD_DEFAULT_MAX_BUFFER_SIZE :: nat where "NGHTTP2_HD_DEFAULT_MAX_BUFFER_SIZE = 2 ^ 12"

definition NGHTTP2_HD_ENTRY_OVERHEAD :: nat where "NGHTTP2_HD_ENTRY_OVERHEAD = 32"

definition hd_context_init :: "nghttp2_mem \<Rightarrow> nghttp2_hd_context res" where
  "hd_context_init mem =
     (case hd_ringbuf_init (NGHTTP2_HD_DEFAULT_MAX_BUFFER_SIZE div NGHTTP2_HD_ENTRY_OVERHEAD) mem of
        (Inl e, mem) \<Rightarrow> Inl e
      | (Inr rb, mem) \<Rightarrow>
          Inr \<lparr>hd_table = rb, hd_mem = mem, hd_table_bufsize = 0,
               hd_table_bufsize_max = NGHTTP2_HD_DEFAULT_MAX_BUFFER_SIZE, next_seq = 0, hd_bad = False\<rparr>)"

definition entry_room :: "nat \<Rightarrow> nat \<Rightarrow> nat" where
  "entry_room namelen valuelen = NGHTTP2_HD_ENTRY_OVERHEAD + namelen + valuelen"

text \<open>
  The eviction loop of \<open>add_hd_table_incremental\<close>, which makes space for an entry of size
  \<open>room\<close>. The map is absent in the decompressor.
\<close>

function hd_evict ::
  "nat \<Rightarrow> nghttp2_hd_context \<Rightarrow> nghttp2_hd_map option \<Rightarrow> (nghttp2_hd_context \<times> nghttp2_hd_map option) option" where
  "hd_evict room ctx mp =
     (if hd_table_bufsize_max ctx < hd_table_bufsize ctx + room \<and> 0 < rb_len (hd_table ctx) then
        (case hd_ringbuf_get (hd_table ctx) (rb_len (hd_table ctx) - 1) of
           None \<Rightarrow> None
         | Some ent \<Rightarrow>
             (case hd_ringbuf_pop_back (hd_table ctx) of
                None \<Rightarrow> None
              | Some rb \<Rightarrow>
                  hd_evict room
                    (ctx\<lparr>hd_table_bufsize := hd_table_bufsize ctx -
                           entry_room (length (hn_name (ent_nv ent))) (length (hn_value (ent_nv ent))),
                         hd_table := rb\<rparr>)
                    (map_option (\<lambda>m. hd_map_remove m ent) mp)))
      else Some (ctx, mp))"
  by pat_completeness auto
termination
  by (relation "measure (\<lambda>(room, ctx, mp). rb_len (hd_table ctx))")
    (auto simp: hd_ringbuf_pop_back_def split: if_splits)

declare hd_evict.simps [simp del]

definition add_hd_table_incremental ::
  "nghttp2_hd_context \<Rightarrow> nghttp2_hd_nv \<Rightarrow> nghttp2_hd_map option \<Rightarrow> u32 \<Rightarrow>
   (unit res \<times> nghttp2_hd_context \<times> nghttp2_hd_map option) option" where
  "add_hd_table_incremental ctx nv mp hash =
     (let room = entry_room (length (hn_name nv)) (length (hn_value nv)) in
      case hd_evict room ctx mp of
        None \<Rightarrow> None
      | Some (ctx, mp) \<Rightarrow>
          if hd_table_bufsize_max ctx < room then Some (Inr (), ctx, mp)
          else
            let (ok, mem) = mem_alloc (hd_mem ctx); ctx = ctx\<lparr>hd_mem := mem\<rparr> in
            if \<not> ok then Some (Inl ERR_NOMEM, ctx, mp)
            else
              let new_ent = (nghttp2_hd_entry_init nv)\<lparr>ent_seq := next_seq ctx, ent_hash := hash\<rparr> in
              case hd_ringbuf_push_front (hd_table ctx) new_ent (hd_mem ctx) of
                (Inl e, rb, mem) \<Rightarrow> Some (Inl e, ctx\<lparr>hd_table := rb, hd_mem := mem\<rparr>, mp)
              | (Inr _, rb, mem) \<Rightarrow>
                  Some (Inr (),
                    ctx\<lparr>hd_table := rb, hd_mem := mem, next_seq := next_seq ctx + 1,
                        hd_table_bufsize := hd_table_bufsize ctx + room\<rparr>,
                    map_option (\<lambda>m. hd_map_insert m new_ent) mp))"

text \<open>The loop of \<open>hd_context_shrink_table_size\<close> is the eviction loop for no new entry.\<close>

definition hd_context_shrink_table_size ::
  "nghttp2_hd_context \<Rightarrow> nghttp2_hd_map option \<Rightarrow> (nghttp2_hd_context \<times> nghttp2_hd_map option) option" where
  "hd_context_shrink_table_size ctx mp = hd_evict 0 ctx mp"

section \<open>Lookup\<close>

record search_result =
  sr_index :: int
  name_value_match :: bool

function search_static_loop :: "nghttp2_nv \<Rightarrow> int \<Rightarrow> nat \<Rightarrow> search_result" where
  "search_static_loop nv token i =
     (if int i \<le> NGHTTP2_TOKEN_WWW_AUTHENTICATE \<and> se_token (static_table ! i) = token then
        let ent = static_table ! i in
        if length (se_value ent) = length (nv_value nv) \<and> memcmp (se_value ent) (nv_value nv) (length (nv_value nv)) = 0
        then \<lparr>sr_index = int i, name_value_match = True\<rparr>
        else search_static_loop nv token (i + 1)
      else \<lparr>sr_index = token, name_value_match = False\<rparr>)"
  by pat_completeness auto
termination by (relation "measure (\<lambda>(nv, token, i). 61 - i)") (auto simp: token_consts)

declare search_static_loop.simps [simp del]

definition search_static_table :: "nghttp2_nv \<Rightarrow> int \<Rightarrow> bool \<Rightarrow> search_result" where
  "search_static_table nv token name_only =
     (if name_only then \<lparr>sr_index = token, name_value_match = False\<rparr>
      else search_static_loop nv token (nat token))"

datatype nghttp2_hd_indexing_mode = HD_WITH_INDEXING | HD_WITHOUT_INDEXING | HD_NEVER_INDEXING

definition search_hd_table ::
  "nghttp2_hd_context \<Rightarrow> nghttp2_nv \<Rightarrow> int \<Rightarrow> nghttp2_hd_indexing_mode \<Rightarrow> nghttp2_hd_map \<Rightarrow> u32 \<Rightarrow> search_result" where
  "search_hd_table ctx nv token indexing_mode mp hash =
     (let name_only = (indexing_mode = HD_NEVER_INDEXING);
          (ent, exact_match) = hd_map_find mp nv token hash name_only
      in
        if \<not> exact_match \<and> 0 \<le> token \<and> token \<le> NGHTTP2_TOKEN_WWW_AUTHENTICATE
        then search_static_table nv token name_only
        else case ent of
            None \<Rightarrow> \<lparr>sr_index = - 1, name_value_match = False\<rparr>
          | Some ent \<Rightarrow>
              \<lparr>sr_index = uint (next_seq ctx - 1 - ent_seq ent + word_of_nat NGHTTP2_STATIC_TABLE_LENGTH),
               name_value_match = exact_match\<rparr>)"

definition INDEX_RANGE_VALID :: "nghttp2_hd_context \<Rightarrow> nat \<Rightarrow> bool" where
  "INDEX_RANGE_VALID ctx idx \<longleftrightarrow> idx < rb_len (hd_table ctx) + NGHTTP2_STATIC_TABLE_LENGTH"

definition get_max_index :: "nghttp2_hd_context \<Rightarrow> nat" where
  "get_max_index ctx = rb_len (hd_table ctx) + NGHTTP2_STATIC_TABLE_LENGTH"

definition nghttp2_hd_table_get :: "nghttp2_hd_context \<Rightarrow> nat \<Rightarrow> nghttp2_hd_nv option" where
  "nghttp2_hd_table_get ctx idx =
     (if \<not> INDEX_RANGE_VALID ctx idx then None
      else if NGHTTP2_STATIC_TABLE_LENGTH \<le> idx then
        map_option ent_nv (hd_ringbuf_get (hd_table ctx) (idx - NGHTTP2_STATIC_TABLE_LENGTH))
      else
        let ent = static_table ! idx in
        Some \<lparr>hn_name = se_name ent, hn_value = se_value ent, hn_token = se_token ent,
              hn_flags = NGHTTP2_NV_FLAG_NONE\<rparr>)"

definition nghttp2_hd_table_get2 :: "nghttp2_hd_context \<Rightarrow> nat \<Rightarrow> nghttp2_nv option" where
  "nghttp2_hd_table_get2 ctx idx =
     (if \<not> INDEX_RANGE_VALID ctx idx then None
      else if NGHTTP2_STATIC_TABLE_LENGTH \<le> idx then
        map_option ent_cnv (hd_ringbuf_get (hd_table ctx) (idx - NGHTTP2_STATIC_TABLE_LENGTH))
      else
        let ent = static_table ! idx in
        Some \<lparr>nv_name = se_name ent, nv_value = se_value ent, nv_flags = NGHTTP2_NV_FLAG_NONE\<rparr>)"

text \<open>The outer \<open>None\<close> is a failed assertion, the inner one the result NULL.\<close>

definition hd_get_table_entry :: "nghttp2_hd_context \<Rightarrow> nat \<Rightarrow> nghttp2_nv option option" where
  "hd_get_table_entry ctx idx =
     (if idx = 0 then Some None
      else if \<not> INDEX_RANGE_VALID ctx (idx - 1) then Some None
      else map_option Some (nghttp2_hd_table_get2 ctx (idx - 1)))"


section \<open>The ring buffer implements a list\<close>

definition ring_slot :: "nghttp2_hd_ringbuf \<Rightarrow> nat \<Rightarrow> nat" where
  "ring_slot rb i = unat ((rb_first rb + word_of_nat i) AND rb_mask rb)"

text \<open>\<open>ring_repr rb es\<close>: the buffer has a power of two slots and holds the entries \<open>es\<close>.\<close>

definition ring_repr :: "nghttp2_hd_ringbuf \<Rightarrow> nghttp2_hd_entry list \<Rightarrow> bool" where
  "ring_repr rb es \<longleftrightarrow>
     (\<exists>k < 62. rb_mask rb = mask k \<and> length (rb_buffer rb) = 2 ^ k) \<and>
     rb_len rb = length es \<and> length es \<le> length (rb_buffer rb) \<and>
     (\<forall>i < length es. rb_buffer rb ! ring_slot rb i = Some (es ! i))"

lemma unat_mask_add: "unat ((w + word_of_nat i) AND mask k :: u64) = (unat w + i) mod 2 ^ k" if "k \<le> 64"
proof -
  have d: "(2 :: nat) ^ k dvd 2 ^ 64" using that by (rule le_imp_power_dvd)
  have "unat ((w + word_of_nat i) AND mask k) = unat (w + word_of_nat i) mod 2 ^ k"
    unfolding take_bit_eq_mask [symmetric] unsigned_take_bit_eq by (simp add: take_bit_eq_mod)
  also have "unat (w + word_of_nat i) = (unat w + i) mod 2 ^ 64"
    by (simp add: unat_word_ariths unat_of_nat mod_simps)
  also have "(unat w + i) mod 2 ^ 64 mod 2 ^ k = (unat w + i) mod 2 ^ k"
    using d by (rule mod_mod_cancel)
  finally show ?thesis .
qed

lemma ring_slot_mod:
  "rb_mask rb = mask k \<Longrightarrow> k < 62 \<Longrightarrow> ring_slot rb i = (unat (rb_first rb) + i) mod 2 ^ k"
  by (simp add: ring_slot_def unat_mask_add)

lemma mod_window_le: "i \<le> j \<Longrightarrow> j < n \<Longrightarrow> (a + i) mod n = (a + j) mod n \<Longrightarrow> i = (j :: nat)"
proof (rule ccontr)
  assume l: "i \<le> j" "j < n" and e: "(a + i) mod n = (a + j) mod n" and "i \<noteq> j"
  have "n dvd (a + j) - (a + i)" using l e mod_eq_dvd_iff_nat [of "a + i" "a + j" n] by simp
  then have "n dvd j - i" by simp
  then have "n \<le> j - i" using l \<open>i \<noteq> j\<close> by (intro dvd_imp_le) auto
  then show False using l \<open>i \<noteq> j\<close> by simp
qed

lemma mod_window: "i < n \<Longrightarrow> j < n \<Longrightarrow> (a + i) mod n = (a + j) mod n \<longleftrightarrow> i = (j :: nat)"
  using mod_window_le [of i j n a] mod_window_le [of j i n a] by (metis nat_le_linear)

lemma ring_get [simp]:
  "ring_repr rb es \<Longrightarrow> hd_ringbuf_get rb i = (if i < length es then Some (es ! i) else None)"
  by (auto simp: ring_repr_def hd_ringbuf_get_def ring_slot_def)

lemma ring_size_power: "\<exists>j. ring_size k n = 2 ^ j \<and> n \<le> 2 ^ j \<and> (j = k \<or> 2 ^ j < 2 * n)"
proof (induction k n rule: ring_size.induct)
  case (1 k n)
  show ?case
  proof (cases "2 ^ k < n")
    case True
    then have "ring_size k n = ring_size (k + 1) n" by (subst ring_size.simps) simp
    with 1 [OF True] True show ?thesis by (auto intro: exI [of _ "Suc k"])
  next
    case False
    then show ?thesis by (subst ring_size.simps) auto
  qed
qed

lemma mask_word: "word_of_nat (2 ^ k - 1) = (mask k :: u64)"
  by (simp add: mask_eq_exp_minus_1 of_nat_diff)

lemma unat_mask_Suc: "k < 62 \<Longrightarrow> unat (mask k + 1 :: u64) = 2 ^ k"
proof -
  assume k: "k < 62"
  have "(mask k + 1 :: u64) = 2 ^ k" by (simp add: mask_eq_exp_minus_1)
  also have "\<dots> = word_of_nat (2 ^ k)" by simp
  finally have "unat (mask k + 1 :: u64) = 2 ^ k mod 2 ^ 64" by (simp only: unat_of_nat) simp
  moreover have "(2 :: nat) ^ k < 2 ^ 64" using k by (intro power_strict_increasing) auto
  ultimately show ?thesis by simp
qed

lemma ring_init:
  assumes "hd_ringbuf_init n mem = (r, mem')"
  shows "case r of Inl e \<Rightarrow> e = ERR_NOMEM | Inr rb \<Rightarrow> ring_repr rb []"
proof (cases r)
  case (Inr rb)
  obtain j where j: "ring_size 0 n = 2 ^ j" using ring_size_power [of 0 n] by auto
  have le: "(2 :: nat) ^ j \<le> (2 ^ 64 - 1) div 8" and
    rb: "rb = \<lparr>rb_buffer = replicate (2 ^ j) None, rb_mask = word_of_nat (2 ^ j - 1), rb_first = 0, rb_len = 0\<rparr>"
    using assms Inr by (auto simp: hd_ringbuf_init_def Let_def j split: if_splits prod.splits)
  have "j < 62"
  proof (rule ccontr)
    assume "\<not> j < 62"
    then have "(2 :: nat) ^ 62 \<le> 2 ^ j" by (intro power_increasing) auto
    then show False using le by simp
  qed
  then show ?thesis using Inr unfolding rb mask_word by (auto simp: ring_repr_def)
qed (use assms in \<open>auto simp: hd_ringbuf_init_def Let_def split: if_splits prod.splits\<close>)

lemma ring_reserve:
  assumes r: "ring_repr rb es" and n: "n < 2 ^ 60" "length es \<le> n"
    and e: "hd_ringbuf_reserve rb n mem = (x, rb', mem')"
  shows "ring_repr rb' es \<and> (case x of Inl e \<Rightarrow> e = ERR_NOMEM | Inr _ \<Rightarrow> n \<le> length (rb_buffer rb'))"
proof -
  obtain k where k: "k < 62" "rb_mask rb = mask k" "length (rb_buffer rb) = 2 ^ k"
    using r by (auto simp: ring_repr_def)
  obtain j where j: "ring_size 0 n = 2 ^ j" "n \<le> 2 ^ j" "j = 0 \<or> 2 ^ j < 2 * n" using ring_size_power [of 0 n] by auto
  have "(2 :: nat) ^ j < 2 ^ 61" using j(3) n(1) by auto
  then have j61: "j < 61" by (rule power_less_imp_less_exp [rotated]) simp
  show ?thesis
  proof (cases "n \<le> 2 ^ k")
    case True
    then show ?thesis using e r k by (auto simp: hd_ringbuf_reserve_def unat_mask_Suc)
  next
    case False
    show ?thesis
    proof (cases "fst (mem_alloc mem)")
      case True
      let ?rb = "rb\<lparr>rb_buffer := map Some es @ replicate (2 ^ j - length es) None, rb_mask := mask j, rb_first := 0\<rparr>"
      have l: "rb_len rb = length es" using r by (simp add: ring_repr_def)
      have m: "map (hd_ringbuf_get rb) [0..<length es] = map Some es"
        using ring_get [OF r] by (auto intro!: nth_equalityI)
      have "rb' = rb\<lparr>rb_buffer := map (hd_ringbuf_get rb) [0..<rb_len rb] @ replicate (2 ^ j - rb_len rb) None,
          rb_mask := word_of_nat (2 ^ j - 1), rb_first := 0\<rparr>" and x: "x = Inr ()"
        using e False k True
        by (auto simp: hd_ringbuf_reserve_def unat_mask_Suc j(1) Let_def split: prod.splits)
      then have rb': "rb' = ?rb" "x = Inr ()" unfolding l m mask_word by auto
      have le: "length es \<le> 2 ^ j" using n(2) j(2) by simp
      have "ring_slot ?rb i = i" if "i < length es" for i
      proof -
        have "ring_slot ?rb i = (unat (rb_first ?rb) + i) mod 2 ^ j"
          using j61 by (intro ring_slot_mod) auto
        then show ?thesis using that le by simp
      qed
      then have "ring_repr ?rb es" unfolding ring_repr_def
        using j61 le r by (auto simp: nth_append ring_repr_def)
      then show ?thesis using rb' j(2) le by simp
    next
      case False': False
      then show ?thesis using e False k r
        by (auto simp: hd_ringbuf_reserve_def unat_mask_Suc Let_def split: prod.splits)
    qed
  qed
qed

lemma ring_push_front:
  assumes r: "ring_repr rb es" and n: "length es + 1 < 2 ^ 60"
    and e: "hd_ringbuf_push_front rb ent mem = (x, rb', mem')"
  shows "case x of Inl e \<Rightarrow> e = ERR_NOMEM \<and> ring_repr rb' es | Inr _ \<Rightarrow> ring_repr rb' (ent # es)"
proof -
  obtain y rb1 mem1 where v: "hd_ringbuf_reserve rb (rb_len rb + 1) mem = (y, rb1, mem1)" by (metis prod_cases3)
  have l: "rb_len rb = length es" using r by (simp add: ring_repr_def)
  from ring_reserve [OF r _ _ v] have 1: "ring_repr rb1 es"
    "case y of Inl e \<Rightarrow> e = ERR_NOMEM | Inr _ \<Rightarrow> length es + 1 \<le> length (rb_buffer rb1)"
    using n l by (auto split: sum.splits)
  show ?thesis
  proof (cases y)
    case (Inl a)
    then show ?thesis using e v 1 by (auto simp: hd_ringbuf_push_front_def)
  next
    case (Inr u)
    then have room: "length es + 1 \<le> length (rb_buffer rb1)" using 1(2) by simp
    obtain k where k: "k < 62" "rb_mask rb1 = mask k" "length (rb_buffer rb1) = 2 ^ k"
      using 1(1) by (auto simp: ring_repr_def)
    define first where "first = rb_first rb1 - 1"
    let ?s = "unat (first AND rb_mask rb1)"
    define rb2 where "rb2 = rb1\<lparr>rb_first := first, rb_buffer := (rb_buffer rb1)[?s := Some ent], rb_len := rb_len rb1 + 1\<rparr>"
    have rb2 [simp]: "rb_first rb2 = first" "rb_mask rb2 = mask k" "rb_len rb2 = rb_len rb1 + 1"
      "rb_buffer rb2 = (rb_buffer rb1)[?s := Some ent]" using k by (simp_all add: rb2_def)
    have rb': "rb' = rb2" "x = Inr ()" using e v Inr by (auto simp: hd_ringbuf_push_front_def Let_def first_def rb2_def)
    have s0: "?s = unat first mod 2 ^ k" using unat_mask_add [of k first 0] k by simp
    have step: "ring_slot rb1 i = (unat first + Suc i) mod 2 ^ k" for i
    proof -
      have "rb_first rb1 + word_of_nat i = first + word_of_nat (Suc i)" by (simp add: first_def)
      then have "ring_slot rb1 i = unat ((first + word_of_nat (Suc i)) AND mask k)"
        unfolding ring_slot_def k(2) by (rule arg_cong)
      then show ?thesis using unat_mask_add [of k first "Suc i"] k(1) by simp
    qed
    have sl: "ring_slot rb2 i = (unat first + i) mod 2 ^ k" for i
      using ring_slot_mod [of rb2 k i] k by simp
    have "rb_buffer rb2 ! ring_slot rb2 i = Some ((ent # es) ! i)" if i: "i < Suc (length es)" for i
    proof (cases i)
      case 0
      have "?s < 2 ^ k" unfolding s0 by simp
      then show ?thesis using sl [of 0] s0 k by (simp add: 0)
    next
      case (Suc j)
      have ne: "(unat first + Suc j) mod 2 ^ k \<noteq> (unat first + 0) mod 2 ^ k"
        using mod_window [of "Suc j" "2 ^ k" 0 "unat first"] i Suc room k by simp
      have "ring_slot rb2 i = ring_slot rb1 j" unfolding sl step Suc ..
      moreover have "ring_slot rb1 j \<noteq> ?s" using ne unfolding step s0 by simp
      ultimately show ?thesis using 1(1) i Suc by (simp add: ring_repr_def)
    qed
    then have "ring_repr rb2 (ent # es)"
      using 1(1) room k by (auto simp: ring_repr_def)
    then show ?thesis using rb' by simp
  qed
qed

lemma ring_pop_back:
  assumes "ring_repr rb es" "es \<noteq> []"
  shows "hd_ringbuf_pop_back rb = Some (rb\<lparr>rb_len := rb_len rb - 1\<rparr>) \<and>
    ring_repr (rb\<lparr>rb_len := rb_len rb - 1\<rparr>) (butlast es)"
  using assms by (auto simp: hd_ringbuf_pop_back_def ring_repr_def ring_slot_def nth_butlast)

section \<open>Eviction\<close>

text \<open>The longest prefix of a table, newest entry first, that fits into \<open>m\<close> octets.\<close>

fun fit :: "('a \<Rightarrow> nat) \<Rightarrow> nat \<Rightarrow> 'a list \<Rightarrow> 'a list" where
  "fit room m [] = []"
| "fit room m (e # es) = (if room e \<le> m then e # fit room (m - room e) es else [])"

lemma fit_all: "sum_list (map room es) \<le> m \<Longrightarrow> fit room m es = es"
  by (induction es arbitrary: m) auto

lemma fit_snoc: "m < sum_list (map room (es @ [e])) \<Longrightarrow> fit room m (es @ [e]) = fit room m es"
  by (induction es arbitrary: m) auto

lemma fit_le: "sum_list (map room (fit room m es)) \<le> m"
proof (induction es arbitrary: m)
  case (Cons e es)
  show ?case using Cons [of "m - room e"] by auto
qed simp

lemma fit_prefix: "\<exists>k. fit room m es = take k es"
proof (induction es arbitrary: m)
  case (Cons e es)
  then obtain k where "fit room (m - room e) es = take k es" by blast
  then show ?case by (auto intro: exI [of _ 0] exI [of _ "Suc k"])
qed simp

lemma fit_map: "fit room m (map f es) = map f (fit (\<lambda>x. room (f x)) m es)"
  by (induction es arbitrary: m) auto

lemma fit_fit: "fit room a (fit room b es) = fit room (min a b) es"
proof (induction es arbitrary: a b)
  case (Cons e es)
  have "min (a - room e) (b - room e) = min a b - room e" by linarith
  then show ?case using Cons [of "a - room e" "b - room e"] by auto
qed simp

definition ent_room :: "nghttp2_hd_entry \<Rightarrow> nat" where
  "ent_room e = entry_room (length (hn_name (ent_nv e))) (length (hn_value (ent_nv e)))"

lemma ent_room_ge: "32 \<le> ent_room e"
  by (simp add: ent_room_def entry_room_def NGHTTP2_HD_ENTRY_OVERHEAD_def)

lemma length_rooms: "32 * length es \<le> sum_list (map ent_room es)"
proof (induction es)
  case (Cons e es)
  then show ?case using ent_room_ge [of e] by simp
qed simp

section \<open>The representation invariant\<close>

definition hd_hash :: "bytes \<Rightarrow> u32" where
  "hd_hash name =
     (let token = lookup_token name in
      if token = - 1 then name_hash name
      else if token \<le> NGHTTP2_TOKEN_WWW_AUTHENTICATE then se_hash (static_table ! nat token) else 0)"

definition ent_ok :: "nghttp2_hd_entry \<Rightarrow> bool" where
  "ent_ok e \<longleftrightarrow> hn_token (ent_nv e) = lookup_token (hn_name (ent_nv e)) \<and>
     ent_cnv e = \<lparr>nv_name = hn_name (ent_nv e), nv_value = hn_value (ent_nv e), nv_flags = hn_flags (ent_nv e)\<rparr>"

definition map_repr :: "nghttp2_hd_map \<Rightarrow> nghttp2_hd_entry list \<Rightarrow> bool" where
  "map_repr mp es \<longleftrightarrow> length mp = HD_MAP_SIZE \<and>
     (\<forall>b < HD_MAP_SIZE. mp ! b = filter (\<lambda>e. hd_bucket (ent_hash e) = b) es) \<and>
     (\<forall>e \<in> set es. ent_hash e = hd_hash (hn_name (ent_nv e)))"

definition seqs_ok :: "u32 \<Rightarrow> nghttp2_hd_entry list \<Rightarrow> bool" where
  "seqs_ok s es \<longleftrightarrow> (\<forall>j < length es. ent_seq (es ! j) = s - 1 - word_of_nat j)"

text \<open>The context \<open>ctx\<close>, with the map \<open>mp\<close> in the compressor, holds the entries \<open>es\<close>.\<close>

definition ctx_repr :: "nghttp2_hd_context \<Rightarrow> nghttp2_hd_map option \<Rightarrow> nghttp2_hd_entry list \<Rightarrow> bool" where
  "ctx_repr ctx mp es \<longleftrightarrow> ring_repr (hd_table ctx) es \<and>
     hd_table_bufsize ctx = sum_list (map ent_room es) \<and> hd_table_bufsize ctx < 2 ^ 32 \<and>
     seqs_ok (next_seq ctx) es \<and> (\<forall>e \<in> set es. ent_ok e) \<and>
     (case mp of None \<Rightarrow> True | Some m \<Rightarrow> map_repr m es)"

definition ctx_inv :: "nghttp2_hd_context \<Rightarrow> nghttp2_hd_map option \<Rightarrow> nghttp2_hd_entry list \<Rightarrow> bool" where
  "ctx_inv ctx mp es \<longleftrightarrow> ctx_repr ctx mp es \<and> hd_table_bufsize ctx \<le> hd_table_bufsize_max ctx \<and>
     hd_table_bufsize_max ctx < 2 ^ 32"

lemma hd_bucket_lt [simp]: "hd_bucket h < HD_MAP_SIZE"
proof -
  have e: "(word_of_nat (HD_MAP_SIZE - 1) :: u32) = mask 7" by (simp add: HD_MAP_SIZE_def mask_eq_exp_minus_1)
  have "unat (h AND mask 7) < 2 ^ 7"
    unfolding take_bit_eq_mask [symmetric] unsigned_take_bit_eq by (rule take_bit_nat_less_exp)
  then show ?thesis unfolding hd_bucket_def e by (simp add: HD_MAP_SIZE_def)
qed

lemma seqs_ok_snoc: "seqs_ok s (es @ [e]) \<Longrightarrow> seqs_ok s es"
  by (simp add: seqs_ok_def nth_append split: if_splits)

lemma seqs_ok_distinct:
  assumes "seqs_ok s (es @ [e])" "length es < 2 ^ 32"
  shows "\<forall>x \<in> set es. ent_seq x \<noteq> ent_seq e"
proof
  fix x assume "x \<in> set es"
  then obtain j where j: "j < length es" "x = es ! j" by (metis in_set_conv_nth)
  have "ent_seq x = s - 1 - word_of_nat j" "ent_seq e = s - 1 - word_of_nat (length es)"
    using assms(1) j by (auto simp: seqs_ok_def nth_append split: if_splits dest: spec [of _ j] spec [of _ "length es"])
  moreover have "(word_of_nat j :: u32) \<noteq> word_of_nat (length es)"
  proof
    assume "(word_of_nat j :: u32) = word_of_nat (length es)"
    then have "unat (word_of_nat j :: u32) = unat (word_of_nat (length es) :: u32)" by simp
    then show False using j assms(2) by (simp add: unat_of_nat)
  qed
  ultimately show "ent_seq x \<noteq> ent_seq e" by simp
qed

lemma seqs_ok_Cons: "seqs_ok s es \<Longrightarrow> ent_seq e = s \<Longrightarrow> seqs_ok (s + 1) (e # es)"
proof -
  assume s: "seqs_ok s es" "ent_seq e = s"
  show ?thesis unfolding seqs_ok_def
  proof (intro allI impI)
    fix j assume "j < length (e # es)"
    then show "ent_seq ((e # es) ! j) = s + 1 - 1 - word_of_nat j"
      using s by (cases j) (auto simp: seqs_ok_def)
  qed
qed

lemma hd_chain_remove_last:
  "\<forall>x \<in> set es. ent_seq x \<noteq> ent_seq e \<Longrightarrow> hd_chain_remove e (es @ [e]) = es"
  by (induction es) auto

lemma map_repr_remove:
  assumes "map_repr mp (es @ [e])" "\<forall>x \<in> set es. ent_seq x \<noteq> ent_seq e"
  shows "map_repr (hd_map_remove mp e) es"
proof -
  let ?P = "\<lambda>b x. hd_bucket (ent_hash x) = b"
  have "hd_chain_remove e (filter (?P (hd_bucket (ent_hash e))) (es @ [e])) =
      filter (?P (hd_bucket (ent_hash e))) es"
    using assms(2) hd_chain_remove_last [of "filter (?P (hd_bucket (ent_hash e))) es" e] by simp
  then show ?thesis using assms(1)
    by (auto simp: map_repr_def hd_map_remove_def Let_def nth_list_update)
qed

lemma map_repr_insert:
  assumes "map_repr mp es" "ent_hash e = hd_hash (hn_name (ent_nv e))"
  shows "map_repr (hd_map_insert mp e) (e # es)"
proof -
  have i: "hd_map_insert mp e = mp[hd_bucket (ent_hash e) := e # mp ! hd_bucket (ent_hash e)]"
    by (simp add: hd_map_insert_def Let_def)
  show ?thesis unfolding i using assms by (auto simp: map_repr_def nth_list_update)
qed

lemma map_repr_init: "map_repr hd_map_init []"
  by (simp add: map_repr_def hd_map_init_def)

lemma ctx_repr_length: "ctx_repr ctx mp es \<Longrightarrow> length es < 2 ^ 27"
  using length_rooms [of es] by (simp add: ctx_repr_def)

lemma ctx_repr_pop:
  assumes r: "ctx_repr ctx mp (es @ [e])"
  defines "rb \<equiv> (hd_table ctx)\<lparr>rb_len := rb_len (hd_table ctx) - 1\<rparr>"
  shows "hd_ringbuf_get (hd_table ctx) (rb_len (hd_table ctx) - 1) = Some e"
    "hd_ringbuf_pop_back (hd_table ctx) = Some rb"
    "ctx_repr (ctx\<lparr>hd_table_bufsize := hd_table_bufsize ctx - ent_room e, hd_table := rb\<rparr>)
       (map_option (\<lambda>m. hd_map_remove m e) mp) es"
proof -
  have ring: "ring_repr (hd_table ctx) (es @ [e])" using r by (simp add: ctx_repr_def)
  then have l: "rb_len (hd_table ctx) = Suc (length es)" by (simp add: ring_repr_def)
  show "hd_ringbuf_get (hd_table ctx) (rb_len (hd_table ctx) - 1) = Some e"
    using ring_get [OF ring] l by simp
  show "hd_ringbuf_pop_back (hd_table ctx) = Some rb" and "ctx_repr
    (ctx\<lparr>hd_table_bufsize := hd_table_bufsize ctx - ent_room e, hd_table := rb\<rparr>)
       (map_option (\<lambda>m. hd_map_remove m e) mp) es"
    using ring_pop_back [OF ring] r seqs_ok_snoc seqs_ok_distinct ctx_repr_length [OF r] map_repr_remove
    by (auto simp: rb_def ctx_repr_def split: option.splits)
qed

lemma hd_evict_repr:
  assumes "ctx_repr ctx mp es"
  shows "\<exists>ctx' mp' es'. hd_evict room ctx mp = Some (ctx', mp') \<and>
    es' = (if room \<le> hd_table_bufsize_max ctx then fit ent_room (hd_table_bufsize_max ctx - room) es else []) \<and>
    ctx_repr ctx' mp' es' \<and> hd_table_bufsize_max ctx' = hd_table_bufsize_max ctx \<and> hd_mem ctx' = hd_mem ctx \<and>
    hd_bad ctx' = hd_bad ctx \<and> (mp' = None \<longleftrightarrow> mp = None)"
  using assms
proof (induction es arbitrary: ctx mp rule: rev_induct)
  case Nil
  then have "rb_len (hd_table ctx) = 0" by (simp add: ctx_repr_def ring_repr_def)
  then show ?case using Nil by (subst hd_evict.simps) auto
next
  case (snoc e es)
  let ?max = "hd_table_bufsize_max ctx"
  have b: "hd_table_bufsize ctx = sum_list (map ent_room (es @ [e]))" and l: "0 < rb_len (hd_table ctx)"
    using snoc.prems by (auto simp: ctx_repr_def ring_repr_def)
  show ?case
  proof (cases "?max < hd_table_bufsize ctx + room")
    case False
    then have "fit ent_room (?max - room) (es @ [e]) = es @ [e]" "room \<le> ?max"
      using b by (auto intro!: fit_all)
    moreover have "hd_evict room ctx mp = Some (ctx, mp)" using False by (subst hd_evict.simps) simp
    ultimately show ?thesis using snoc.prems by auto
  next
    case True
    let ?rb = "(hd_table ctx)\<lparr>rb_len := rb_len (hd_table ctx) - 1\<rparr>"
    let ?ctx = "ctx\<lparr>hd_table_bufsize := hd_table_bufsize ctx - ent_room e, hd_table := ?rb\<rparr>"
    let ?mp = "map_option (\<lambda>m. hd_map_remove m e) mp"
    note p = ctx_repr_pop [OF snoc.prems]
    have "hd_evict room ctx mp = hd_evict room ?ctx ?mp"
      using True l p(1,2) by (subst hd_evict.simps) (simp add: ent_room_def)
    moreover have "room \<le> ?max \<Longrightarrow> fit ent_room (?max - room) (es @ [e]) = fit ent_room (?max - room) es"
      using True b by (intro fit_snoc) simp
    ultimately show ?thesis using snoc.IH [OF p(3)] by (cases "room \<le> ?max") auto
  qed
qed

section \<open>The context implements the dynamic table of RFC 7541\<close>

text \<open>A header field as a pair of name and value, its size, and insertion into a table.\<close>

type_synonym hfield = "bytes \<times> bytes"

definition field :: "nghttp2_hd_nv \<Rightarrow> hfield" where
  "field nv = (hn_name nv, hn_value nv)"

definition field_room :: "hfield \<Rightarrow> nat" where
  "field_room f = 32 + length (fst f) + length (snd f)"

definition table_insert :: "nat \<Rightarrow> hfield \<Rightarrow> hfield list \<Rightarrow> hfield list" where
  "table_insert m f fs = (if field_room f \<le> m then f # fit field_room (m - field_room f) fs else [])"

definition static_fields :: "hfield list" where
  "static_fields = map (\<lambda>e. (se_name e, se_value e)) static_table"

definition table_lookup :: "hfield list \<Rightarrow> nat \<Rightarrow> hfield option" where
  "table_lookup fs i = (if i < length (static_fields @ fs) then Some ((static_fields @ fs) ! i) else None)"

definition hfields :: "nghttp2_hd_entry list \<Rightarrow> hfield list" where
  "hfields es = map (\<lambda>e. field (ent_nv e)) es"

lemma field_room_ent: "field_room (field (ent_nv e)) = ent_room e"
  by (simp add: field_room_def field_def ent_room_def entry_room_def NGHTTP2_HD_ENTRY_OVERHEAD_def)

lemma hfields_fit: "hfields (fit ent_room m es) = fit field_room m (hfields es)"
  unfolding hfields_def fit_map by (simp add: field_room_ent)

lemma length_static_fields [simp]: "length static_fields = 61"
  by (simp add: static_fields_def)

lemma ctx_repr_take:
  "seqs_ok s es \<Longrightarrow> seqs_ok s (take k es)"
  by (simp add: seqs_ok_def)

lemma mem_alloc_Nil: "mem_alloc [] = (True, [])"
  by simp

lemma ring_push_unfailing:
  "fst (hd_ringbuf_push_front rb e []) = Inr () \<and> snd (snd (hd_ringbuf_push_front rb e [])) = []"
  by (simp add: hd_ringbuf_push_front_def hd_ringbuf_reserve_def Let_def)

lemma add_hd_table_repr:
  assumes inv: "ctx_inv ctx mp es" and tok: "hn_token nv = lookup_token (hn_name nv)"
    and hash: "mp \<noteq> None \<Longrightarrow> hash = hd_hash (hn_name nv)"
  shows "\<exists>r ctx' mp' es'. add_hd_table_incremental ctx nv mp hash = Some (r, ctx', mp') \<and> ctx_inv ctx' mp' es' \<and>
    hd_table_bufsize_max ctx' = hd_table_bufsize_max ctx \<and> hd_bad ctx' = hd_bad ctx \<and> (mp' = None \<longleftrightarrow> mp = None) \<and>
    (case r of Inl e \<Rightarrow> e = ERR_NOMEM
     | Inr _ \<Rightarrow> hfields es' = table_insert (hd_table_bufsize_max ctx) (field nv) (hfields es)) \<and>
    (hd_mem ctx = [] \<longrightarrow> r = Inr () \<and> hd_mem ctx' = []) \<and>
    (\<forall>e \<in> set es'. ent_nv e = nv \<or> e \<in> set es)"
proof -
  let ?room = "entry_room (length (hn_name nv)) (length (hn_value nv))" and ?max = "hd_table_bufsize_max ctx"
  have room: "?room = field_room (field nv)"
    by (simp add: field_room_def field_def entry_room_def NGHTTP2_HD_ENTRY_OVERHEAD_def)
  have repr: "ctx_repr ctx mp es" and m: "?max < 2 ^ 32" using inv by (auto simp: ctx_inv_def)
  from hd_evict_repr [OF repr, of ?room] obtain c m1 es1 where
    ev: "hd_evict ?room ctx mp = Some (c, m1)"
    and es1: "es1 = (if ?room \<le> ?max then fit ent_room (?max - ?room) es else [])"
    and c: "ctx_repr c m1 es1" "hd_table_bufsize_max c = ?max" "hd_mem c = hd_mem ctx" "hd_bad c = hd_bad ctx"
      "m1 = None \<longleftrightarrow> mp = None" by blast
  have b1: "hd_table_bufsize c + (if ?room \<le> ?max then ?room else 0) \<le> ?max"
    using c(1) fit_le [of ent_room "?max - ?room" es] by (auto simp: ctx_repr_def es1)
  have es1_sub: "set es1 \<subseteq> set es" using fit_prefix [of ent_room "?max - ?room" es] by (auto simp: es1 dest: in_set_takeD)
  have f1: "hfields es1 = (if ?room \<le> ?max then fit field_room (?max - ?room) (hfields es) else [])"
    by (simp add: es1 hfields_fit) (simp add: hfields_def)
  show ?thesis
  proof (cases "?max < ?room")
    case True
    then have "add_hd_table_incremental ctx nv mp hash = Some (Inr (), c, m1)"
      using c(2) by (simp add: add_hd_table_incremental_def ev)
    moreover have "ctx_inv c m1 es1" using c b1 m True by (simp add: ctx_inv_def)
    ultimately show ?thesis using c True f1 room es1_sub by (auto simp: table_insert_def)
  next
    case False
    obtain ok mem where ma: "mem_alloc (hd_mem ctx) = (ok, mem)" by fastforce
    let ?c = "c\<lparr>hd_mem := mem\<rparr>"
    have c': "ctx_inv ?c m1 es1" using c b1 m by (auto simp: ctx_inv_def ctx_repr_def)
    show ?thesis
    proof (cases ok)
      case no: False
      then have "add_hd_table_incremental ctx nv mp hash = Some (Inl ERR_NOMEM, ?c, m1)"
        using c False by (simp add: add_hd_table_incremental_def ev ma)
      moreover have "hd_mem ctx \<noteq> []" using ma no by auto
      ultimately show ?thesis using c c' es1_sub by auto
    next
      case ok: True
      let ?e = "(nghttp2_hd_entry_init nv)\<lparr>ent_seq := next_seq c, ent_hash := hash\<rparr>"
      obtain x rb mem1 where pf: "hd_ringbuf_push_front (hd_table c) ?e mem = (x, rb, mem1)" by (metis prod_cases3)
      have ring: "ring_repr (hd_table c) es1" and len: "length es1 + 1 < 2 ^ 60"
        using c(1) ctx_repr_length [OF c(1)] by (auto simp: ctx_repr_def)
      note push = ring_push_front [OF ring len pf]
      have ns: "hd_mem ctx = [] \<Longrightarrow> x = Inr () \<and> mem1 = []"
        using ring_push_unfailing [of "hd_table c" ?e] pf ma by auto
      show ?thesis
      proof (cases x)
        case (Inl e)
        let ?c2 = "c\<lparr>hd_mem := mem1, hd_table := rb\<rparr>"
        have "add_hd_table_incremental ctx nv mp hash = Some (Inl e, ?c2, m1)"
          using c False ok Inl pf by (simp add: add_hd_table_incremental_def ev ma)
        moreover have "ctx_inv ?c2 m1 es1" using c' push Inl by (auto simp: ctx_inv_def ctx_repr_def)
        ultimately show ?thesis using c push Inl ns es1_sub by auto
      next
        case (Inr u)
        let ?c2 = "c\<lparr>hd_mem := mem1, hd_table := rb, next_seq := next_seq c + 1,
          hd_table_bufsize := hd_table_bufsize c + ?room\<rparr>"
        let ?m2 = "map_option (\<lambda>m. hd_map_insert m ?e) m1"
        have a: "add_hd_table_incremental ctx nv mp hash = Some (Inr (), ?c2, ?m2)"
          using c False ok Inr pf by (simp add: add_hd_table_incremental_def ev ma)
        have er: "ent_room ?e = ?room" by (simp add: ent_room_def nghttp2_hd_entry_init_def)
        have eo: "ent_ok ?e" using tok by (simp add: ent_ok_def nghttp2_hd_entry_init_def)
        have "case ?m2 of None \<Rightarrow> True | Some m \<Rightarrow> map_repr m (?e # es1)"
        proof (cases m1)
          case (Some mm)
          then have "map_repr mm es1" "hash = hd_hash (hn_name nv)"
            using c hash by (auto simp: ctx_repr_def)
          then have "map_repr (hd_map_insert mm ?e) (?e # es1)"
            by (intro map_repr_insert) (simp_all add: nghttp2_hd_entry_init_def)
          then show ?thesis using Some by simp
        qed simp
        moreover have "seqs_ok (next_seq c + 1) (?e # es1)"
          using c(1) by (intro seqs_ok_Cons) (simp_all add: ctx_repr_def)
        ultimately have "ctx_repr ?c2 ?m2 (?e # es1)"
          using c(1) push Inr er eo b1 m False by (simp add: ctx_repr_def)
        then have inv2: "ctx_inv ?c2 ?m2 (?e # es1)" using b1 m c False by (simp add: ctx_inv_def)
        have "hfields (?e # es1) = table_insert ?max (field nv) (hfields es)"
          using False f1 by (simp add: table_insert_def room) (simp add: hfields_def nghttp2_hd_entry_init_def)
        moreover have "\<forall>e \<in> set (?e # es1). ent_nv e = nv \<or> e \<in> set es" using es1_sub by (auto simp: nghttp2_hd_entry_init_def)
        ultimately show ?thesis using a inv2 c ns Inr by (intro exI [of _ "Inr ()"] exI [of _ ?c2] exI [of _ ?m2] exI [of _ "?e # es1"]) auto
      qed
    qed
  qed
qed

lemma hd_table_get_repr:
  assumes "ctx_repr ctx mp es"
  shows "map_option field (nghttp2_hd_table_get ctx i) = table_lookup (hfields es) i"
    and "nghttp2_hd_table_get ctx i = Some nv \<Longrightarrow> hn_token nv = lookup_token (hn_name nv)"
    and "get_max_index ctx = 61 + length es"
    and "nghttp2_hd_table_get ctx i = Some nv \<Longrightarrow> hn_flags nv = NGHTTP2_NV_FLAG_NONE \<or> (\<exists>e \<in> set es. nv = ent_nv e)"
proof -
  have r: "ring_repr (hd_table ctx) es" and l: "rb_len (hd_table ctx) = length es"
    using assms by (auto simp: ctx_repr_def ring_repr_def)
  show "map_option field (nghttp2_hd_table_get ctx i) = table_lookup (hfields es) i"
    using ring_get [OF r] l
    by (auto simp: nghttp2_hd_table_get_def table_lookup_def INDEX_RANGE_VALID_def NGHTTP2_STATIC_TABLE_LENGTH_def
        Let_def nth_append hfields_def field_def static_fields_def)
  show "get_max_index ctx = 61 + length es" by (simp add: get_max_index_def l NGHTTP2_STATIC_TABLE_LENGTH_def)
  assume "nghttp2_hd_table_get ctx i = Some nv"
  then show "hn_token nv = lookup_token (hn_name nv)"
    using ring_get [OF r] l assms static_entry_token [of i]
    by (auto simp: nghttp2_hd_table_get_def INDEX_RANGE_VALID_def NGHTTP2_STATIC_TABLE_LENGTH_def Let_def
        ctx_repr_def ent_ok_def split: if_splits)
next
  have r: "ring_repr (hd_table ctx) es" and l: "rb_len (hd_table ctx) = length es"
    using assms by (auto simp: ctx_repr_def ring_repr_def)
  assume "nghttp2_hd_table_get ctx i = Some nv"
  then show "hn_flags nv = NGHTTP2_NV_FLAG_NONE \<or> (\<exists>e \<in> set es. nv = ent_nv e)"
    using ring_get [OF r] l
    by (auto simp: nghttp2_hd_table_get_def INDEX_RANGE_VALID_def Let_def split: if_splits)
qed

section \<open>The search of the compressor\<close>

lemma name_eq_iff: "name_eq a b \<longleftrightarrow> hn_name a = nv_name b"
  by (auto simp: name_eq_def memeq_whole)

lemma value_eq_iff: "value_eq a b \<longleftrightarrow> hn_value a = nv_value b"
  by (auto simp: value_eq_def memeq_whole)

text \<open>For entries with the right token and hash, the test of the loop compares the names.\<close>

lemma find_test:
  assumes "ent_ok p" "ent_hash p = hd_hash (hn_name (ent_nv p))"
  shows "(lookup_token (nv_name nv) \<noteq> hn_token (ent_nv p) \<or>
     (lookup_token (nv_name nv) = - 1 \<and> (hd_hash (nv_name nv) \<noteq> ent_hash p \<or> \<not> name_eq (ent_nv p) nv))) \<longleftrightarrow>
     hn_name (ent_nv p) \<noteq> nv_name nv"
proof (cases "hn_name (ent_nv p) = nv_name nv")
  case True
  then show ?thesis using assms by (simp add: ent_ok_def name_eq_iff)
next
  case False
  then show ?thesis using assms lookup_token_inj [of "nv_name nv" "hn_name (ent_nv p)"]
    by (metis ent_ok_def name_eq_iff)
qed

lemma hd_map_find_loop_step:
  assumes "ent_ok p" "ent_hash p = hd_hash (hn_name (ent_nv p))"
  shows "hd_map_find_loop nv (lookup_token (nv_name nv)) (hd_hash (nv_name nv)) name_only res (p # ps) =
    (if hn_name (ent_nv p) \<noteq> nv_name nv
     then hd_map_find_loop nv (lookup_token (nv_name nv)) (hd_hash (nv_name nv)) name_only res ps
     else if res = None \<and> name_only then (Some p, False)
     else if hn_value (ent_nv p) = nv_value nv then (Some p, True)
     else hd_map_find_loop nv (lookup_token (nv_name nv)) (hd_hash (nv_name nv)) name_only
            (if res = None then Some p else res) ps)"
  by (simp only: hd_map_find_loop.simps find_test [OF assms] value_eq_iff Let_def)

declare hd_map_find_loop.simps(2) [simp del]

lemma hd_map_find_loop_found:
  assumes "\<forall>p \<in> set ps. ent_ok p \<and> ent_hash p = hd_hash (hn_name (ent_nv p))"
  shows "hd_map_find_loop nv (lookup_token (nv_name nv)) (hd_hash (nv_name nv)) name_only (Some q) ps =
    (case find (\<lambda>p. field (ent_nv p) = (nv_name nv, nv_value nv)) ps of
       None \<Rightarrow> (Some q, False) | Some p \<Rightarrow> (Some p, True))"
  using assms by (induction ps) (simp_all add: hd_map_find_loop_step field_def)

lemma hd_map_find_loop_spec:
  assumes "\<forall>p \<in> set ps. ent_ok p \<and> ent_hash p = hd_hash (hn_name (ent_nv p))"
  shows "hd_map_find_loop nv (lookup_token (nv_name nv)) (hd_hash (nv_name nv)) name_only None ps =
    (let named = find (\<lambda>p. hn_name (ent_nv p) = nv_name nv) ps;
         exact = find (\<lambda>p. field (ent_nv p) = (nv_name nv, nv_value nv)) ps
     in if name_only then (named, False)
        else case exact of None \<Rightarrow> (named, False) | Some p \<Rightarrow> (Some p, True))"
  using assms
proof (induction ps)
  case (Cons p ps)
  then show ?case
    using hd_map_find_loop_found [of ps nv name_only p]
    by (cases name_only) (simp_all add: hd_map_find_loop_step field_def Let_def)
qed (simp add: Let_def)

lemma find_filter_bucket:
  assumes "\<forall>p \<in> set es. P p \<longrightarrow> Q p"
  shows "find P (filter Q es) = find P es"
  using assms by (induction es) auto

lemma hd_map_find_repr:
  assumes "map_repr mp es" "\<forall>e \<in> set es. ent_ok e"
  shows "hd_map_find mp nv (lookup_token (nv_name nv)) (hd_hash (nv_name nv)) name_only =
    (let named = find (\<lambda>p. hn_name (ent_nv p) = nv_name nv) es;
         exact = find (\<lambda>p. field (ent_nv p) = (nv_name nv, nv_value nv)) es
     in if name_only then (named, False)
        else case exact of None \<Rightarrow> (named, False) | Some p \<Rightarrow> (Some p, True))"
proof -
  let ?b = "hd_bucket (hd_hash (nv_name nv))"
  have b: "mp ! ?b = filter (\<lambda>e. hd_bucket (ent_hash e) = ?b) es"
    and h: "\<forall>e \<in> set es. ent_hash e = hd_hash (hn_name (ent_nv e))"
    using assms(1) by (auto simp: map_repr_def)
  then have "find (\<lambda>p. hn_name (ent_nv p) = nv_name nv) (mp ! ?b) = find (\<lambda>p. hn_name (ent_nv p) = nv_name nv) es"
    "find (\<lambda>p. field (ent_nv p) = (nv_name nv, nv_value nv)) (mp ! ?b) =
       find (\<lambda>p. field (ent_nv p) = (nv_name nv, nv_value nv)) es"
    unfolding b using h by (intro find_filter_bucket; auto simp: field_def)+
  moreover have "\<forall>p \<in> set (mp ! ?b). ent_ok p \<and> ent_hash p = hd_hash (hn_name (ent_nv p))"
    using assms(2) h unfolding b by simp
  ultimately show ?thesis unfolding hd_map_find_def by (simp add: hd_map_find_loop_spec)
qed

lemma search_static_loop_sound:
  assumes "int i \<le> NGHTTP2_TOKEN_WWW_AUTHENTICATE + 1" "0 \<le> token" "token \<le> NGHTTP2_TOKEN_WWW_AUTHENTICATE"
  shows "let r = search_static_loop nv token i in
    if name_value_match r
    then 0 \<le> sr_index r \<and> sr_index r < 61 \<and> se_token (static_table ! nat (sr_index r)) = token \<and>
      se_value (static_table ! nat (sr_index r)) = nv_value nv
    else sr_index r = token"
  using assms
proof (induction nv token i rule: search_static_loop.induct)
  case (1 nv token i)
  show ?case
  proof (cases "int i \<le> NGHTTP2_TOKEN_WWW_AUTHENTICATE \<and> se_token (static_table ! i) = token")
    case False
    then show ?thesis by (subst search_static_loop.simps) (auto simp: Let_def)
  next
    case True
    let ?e = "static_table ! i"
    have i: "i < 61" using True by (simp add: token_consts)
    show ?thesis
    proof (cases "se_value ?e = nv_value nv")
      case eq: True
      then have "search_static_loop nv token i = \<lparr>sr_index = int i, name_value_match = True\<rparr>"
        using True by (subst search_static_loop.simps) (simp add: Let_def memcmp_take)
      then show ?thesis using True i eq by (simp add: Let_def)
    next
      case ne: False
      then have c: "\<not> (length (se_value ?e) = length (nv_value nv) \<and> memcmp (se_value ?e) (nv_value nv) (length (nv_value nv)) = 0)"
        by (auto simp: memcmp_take)
      then have "search_static_loop nv token i = search_static_loop nv token (i + 1)"
        using True by (subst search_static_loop.simps) (simp only: Let_def if_True if_False simp_thms)
      moreover have "int (i + 1) \<le> NGHTTP2_TOKEN_WWW_AUTHENTICATE + 1" using True by simp
      ultimately show ?thesis using 1(1) [OF True refl c] 1(3,4) by simp
    qed
  qed
qed

lemma find_index: "find P es = Some e \<Longrightarrow> \<exists>j < length es. es ! j = e \<and> P e"
  by (metis find_Some_iff)

text \<open>
  The result of the search: -1 when no entry of the two tables has the name; otherwise the index
  of an entry with this name, and with this value when a full match is reported.
\<close>

lemma search_hd_table_sound:
  fixes nv mode
  assumes r: "ctx_repr ctx (Some mp) es"
  defines "res \<equiv> search_hd_table ctx nv (lookup_token (nv_name nv)) mode mp (hd_hash (nv_name nv))"
  shows "(sr_index res = - 1 \<and> \<not> name_value_match res) \<or>
    (\<exists>f. 0 \<le> sr_index res \<and> table_lookup (hfields es) (nat (sr_index res)) = Some f \<and> fst f = nv_name nv \<and>
       (name_value_match res \<longrightarrow> snd f = nv_value nv))"
proof -
  let ?t = "lookup_token (nv_name nv)"
  have m: "map_repr mp es" "\<forall>e \<in> set es. ent_ok e" and sq: "seqs_ok (next_seq ctx) es" using r by (auto simp: ctx_repr_def)
  have len: "length es < 2 ^ 27" by (rule ctx_repr_length [OF r])
  obtain ent ex where f: "hd_map_find mp nv ?t (hd_hash (nv_name nv)) (mode = HD_NEVER_INDEXING) = (ent, ex)" by fastforce
  note spec = f [unfolded hd_map_find_repr [OF m]]
  show ?thesis
  proof (cases "\<not> ex \<and> 0 \<le> ?t \<and> ?t \<le> NGHTTP2_TOKEN_WWW_AUTHENTICATE")
    case True
    then have res: "res = search_static_table nv ?t (mode = HD_NEVER_INDEXING)"
      using f by (simp add: res_def search_hd_table_def)
    have te: "nat ?t < 61" "se_name (static_table ! nat ?t) = nv_name nv"
      using token_entry [OF refl, of "nv_name nv"] True by auto
    note sound = search_static_loop_sound [of "nat ?t" ?t nv]
    have "\<exists>i < 61. sr_index res = int i \<and> se_name (static_table ! i) = nv_name nv \<and>
        (name_value_match res \<longrightarrow> se_value (static_table ! i) = nv_value nv)"
    proof (cases "name_value_match res")
      case True2: True
      then have rl: "res = search_static_loop nv ?t (nat ?t)" using res by (auto simp: search_static_table_def split: if_splits)
      then have s: "0 \<le> sr_index res" "sr_index res < 61" "se_token (static_table ! nat (sr_index res)) = ?t"
        "se_value (static_table ! nat (sr_index res)) = nv_value nv"
        using sound True True2 by (auto simp: Let_def)
      have "nat (sr_index res) < 61" using s by simp
      then have "lookup_token (se_name (static_table ! nat (sr_index res))) = ?t" using static_entry_token s(3) by simp
      then have "se_name (static_table ! nat (sr_index res)) = nv_name nv" using lookup_token_inj True by force
      then show ?thesis using s by (intro exI [of _ "nat (sr_index res)"]) auto
    next
      case False
      then have "sr_index res = ?t" using res sound True by (auto simp: search_static_table_def Let_def split: if_splits)
      then show ?thesis using te True False by (intro exI [of _ "nat ?t"]) auto
    qed
    then show ?thesis by (auto simp: table_lookup_def nth_append static_fields_def)
  next
    case False
    show ?thesis
    proof (cases ent)
      case None
      then show ?thesis using f False by (auto simp: res_def search_hd_table_def Let_def)
    next
      case (Some e)
      have "\<exists>j < length es. es ! j = e \<and> hn_name (ent_nv e) = nv_name nv \<and> (ex \<longrightarrow> hn_value (ent_nv e) = nv_value nv)"
        using spec Some by (auto simp: Let_def field_def split: if_splits option.splits dest!: find_index)
      then obtain j where j: "j < length es" "es ! j = e" "hn_name (ent_nv e) = nv_name nv"
        "ex \<longrightarrow> hn_value (ent_nv e) = nv_value nv" by blast
      have "ent_seq e = next_seq ctx - 1 - word_of_nat j" using sq j by (auto simp: seqs_ok_def)
      then have "next_seq ctx - 1 - ent_seq e + word_of_nat NGHTTP2_STATIC_TABLE_LENGTH = word_of_nat (61 + j)"
        by (simp add: NGHTTP2_STATIC_TABLE_LENGTH_def)
      moreover have "uint (word_of_nat (61 + j) :: u32) = 61 + int j"
      proof -
        have "61 + j < 2 ^ 32" using j(1) len by simp
        then have "unat (word_of_nat (61 + j) :: u32) = 61 + j" unfolding unat_of_nat by simp
        then show ?thesis by (metis of_nat_add of_nat_numeral unsigned_of_nat uint_nat)
      qed
      ultimately have u: "uint (next_seq ctx - 1 - ent_seq e + word_of_nat NGHTTP2_STATIC_TABLE_LENGTH) = 61 + int j"
        by (simp only:)
      have "res = \<lparr>sr_index = 61 + int j, name_value_match = ex\<rparr>"
        unfolding res_def search_hd_table_def Let_def f prod.case Some option.case u using False by auto
      then show ?thesis using j by (auto simp: table_lookup_def nth_append hfields_def field_def nat_add_distrib)
    qed
  qed
qed

lemma hd_context_init_repr:
  "hd_context_init mem = Inr ctx \<Longrightarrow>
     ctx_inv ctx None [] \<and> ctx_inv ctx (Some hd_map_init) [] \<and> \<not> hd_bad ctx \<and>
     hd_table_bufsize_max ctx = NGHTTP2_HD_DEFAULT_MAX_BUFFER_SIZE"
  using ring_init [of "NGHTTP2_HD_DEFAULT_MAX_BUFFER_SIZE div NGHTTP2_HD_ENTRY_OVERHEAD" mem]
  by (auto simp: hd_context_init_def ctx_inv_def ctx_repr_def seqs_ok_def map_repr_init
      NGHTTP2_HD_DEFAULT_MAX_BUFFER_SIZE_def split: prod.splits sum.splits)

lemma hd_context_init_mem:
  assumes "hd_context_init [] = Inr ctx"
  shows "hd_mem ctx = []"
proof -
  let ?n = "NGHTTP2_HD_DEFAULT_MAX_BUFFER_SIZE div NGHTTP2_HD_ENTRY_OVERHEAD"
  obtain r mem where i: "hd_ringbuf_init ?n [] = (r, mem)" by fastforce
  then have "mem = []" by (auto simp: hd_ringbuf_init_def Let_def split: if_splits)
  then show ?thesis using assms i by (cases r) (auto simp: hd_context_init_def)
qed

lemma shrink_repr:
  assumes "ctx_repr ctx mp es" "hd_table_bufsize_max ctx < 2 ^ 32"
  shows "\<exists>ctx' mp'. hd_context_shrink_table_size ctx mp = Some (ctx', mp') \<and>
    ctx_inv ctx' mp' (fit ent_room (hd_table_bufsize_max ctx) es) \<and>
    hd_table_bufsize_max ctx' = hd_table_bufsize_max ctx \<and> hd_mem ctx' = hd_mem ctx \<and> hd_bad ctx' = hd_bad ctx \<and>
    (mp' = None \<longleftrightarrow> mp = None)"
proof -
  from hd_evict_repr [OF assms(1), of 0] obtain ctx' mp' where
    e: "hd_evict 0 ctx mp = Some (ctx', mp')" "ctx_repr ctx' mp' (fit ent_room (hd_table_bufsize_max ctx) es)"
      "hd_table_bufsize_max ctx' = hd_table_bufsize_max ctx" "hd_mem ctx' = hd_mem ctx" "hd_bad ctx' = hd_bad ctx"
      "mp' = None \<longleftrightarrow> mp = None" by auto
  moreover from e(2) have "hd_table_bufsize ctx' \<le> hd_table_bufsize_max ctx"
    using fit_le [of ent_room "hd_table_bufsize_max ctx" es] by (simp add: ctx_repr_def)
  ultimately show ?thesis using assms(2) by (simp add: hd_context_shrink_table_size_def ctx_inv_def)
qed

section \<open>Interface: a dynamic table\<close>

text \<open>
  What RFC 7541 says of a table with a limit, the newest field first, under a sequence of operations: insertions,
  and changes of the limit. \<open>table_insert\<close> and \<open>fit\<close> drop fields from the old end until the rest has room.
\<close>

fun table_after :: "(nghttp2_hd_nv + nat) list \<Rightarrow> nat \<Rightarrow> hfield list \<Rightarrow> nat \<times> hfield list" where
  "table_after [] l fs = (l, fs)"
| "table_after (Inl nv # ops) l fs = table_after ops l (table_insert l (field nv) fs)"
| "table_after (Inr n # ops) l fs = table_after ops n (fit field_room n fs)"

text \<open>
  What the compressor and the decompressor rely on: insertion, a change of the limit and lookup
  act on the list of fields as RFC 7541 says, do not get stuck, and fail only when an allocation does.
\<close>

locale dynamic_table =
  fixes repr :: "'c \<Rightarrow> hfield list \<Rightarrow> bool"
    and limit :: "'c \<Rightarrow> nat"
    and insert :: "'c \<Rightarrow> nghttp2_hd_nv \<Rightarrow> (unit res \<times> 'c) option"
    and resize :: "'c \<Rightarrow> nat \<Rightarrow> 'c option"
    and get :: "'c \<Rightarrow> nat \<Rightarrow> nghttp2_hd_nv option"
    and mem :: "'c \<Rightarrow> nghttp2_mem"
  assumes insert_law: "repr c fs \<Longrightarrow> hn_token nv = lookup_token (hn_name nv) \<Longrightarrow>
      \<exists>r c' fs'. insert c nv = Some (r, c') \<and> repr c' fs' \<and> limit c' = limit c \<and>
        (r = Inr () \<longrightarrow> fs' = table_insert (limit c) (field nv) fs) \<and>
        (r = Inr () \<or> r = Inl ERR_NOMEM) \<and> (mem c = [] \<longrightarrow> r = Inr () \<and> mem c' = [])"
    and resize_law: "repr c fs \<Longrightarrow> n < 2 ^ 32 \<Longrightarrow>
      \<exists>c'. resize c n = Some c' \<and> repr c' (fit field_room n fs) \<and> limit c' = n \<and> mem c' = mem c"
    and get_law: "repr c fs \<Longrightarrow> map_option field (get c i) = table_lookup fs i"
begin

text \<open>A sequence of operations: insertions, and changes of the limit; it stops at the first error.\<close>

fun run :: "'c \<Rightarrow> (nghttp2_hd_nv + nat) list \<Rightarrow> (unit res \<times> 'c) option" where
  "run c [] = Some (Inr (), c)"
| "run c (Inl nv # ops) =
     (case insert c nv of
        None \<Rightarrow> None
      | Some (Inl e, c') \<Rightarrow> Some (Inl e, c')
      | Some (Inr _, c') \<Rightarrow> run c' ops)"
| "run c (Inr n # ops) = Option.bind (resize c n) (\<lambda>c'. run c' ops)"

lemma run_spec:
  assumes "repr c fs" "limit c = l"
    and "\<forall>op \<in> set ops. case op of Inl nv \<Rightarrow> hn_token nv = lookup_token (hn_name nv) | Inr n \<Rightarrow> n < 2 ^ 32"
  shows "\<exists>r c' fs'. run c ops = Some (r, c') \<and> repr c' fs' \<and> (r = Inr () \<longrightarrow> table_after ops l fs = (limit c', fs')) \<and>
    (r = Inr () \<or> r = Inl ERR_NOMEM) \<and> (mem c = [] \<longrightarrow> r = Inr ())"
  using assms
proof (induction ops arbitrary: c fs l)
  case Nil
  then show ?case by auto
next
  case (Cons op ops)
  show ?case
  proof (cases op)
    case (Inl nv)
    from Cons.prems Inl insert_law [of c fs nv] obtain r c' fs' where
      i: "insert c nv = Some (r, c')" "repr c' fs'" "limit c' = limit c"
      "r = Inr () \<longrightarrow> fs' = table_insert (limit c) (field nv) fs" "r = Inr () \<or> r = Inl ERR_NOMEM"
      "mem c = [] \<longrightarrow> r = Inr () \<and> mem c' = []" by auto
    then show ?thesis using Cons.IH [OF i(2,3)] Cons.prems Inl by (cases r) auto
  next
    case (Inr n)
    from Cons.prems Inr resize_law [of c fs n] obtain c' where
      i: "resize c n = Some c'" "repr c' (fit field_room n fs)" "limit c' = n" "mem c' = mem c" by auto
    then show ?thesis using Cons.IH [OF i(2,3)] Cons.prems Inr by auto
  qed
qed

end

text \<open>The table of the compressor, with its map, and the table of the decompressor.\<close>

definition deflate_table_repr :: "nghttp2_hd_context \<times> nghttp2_hd_map \<Rightarrow> hfield list \<Rightarrow> bool" where
  "deflate_table_repr c fs \<longleftrightarrow> (\<exists>es. ctx_inv (fst c) (Some (snd c)) es \<and> fs = hfields es)"

definition deflate_table_insert ::
  "nghttp2_hd_context \<times> nghttp2_hd_map \<Rightarrow> nghttp2_hd_nv \<Rightarrow>
   (unit res \<times> nghttp2_hd_context \<times> nghttp2_hd_map) option" where
  "deflate_table_insert c nv =
     map_option (\<lambda>(r, ctx, mp). (r, ctx, the mp))
       (add_hd_table_incremental (fst c) nv (Some (snd c)) (hd_hash (hn_name nv)))"

definition deflate_table_resize ::
  "nghttp2_hd_context \<times> nghttp2_hd_map \<Rightarrow> nat \<Rightarrow> (nghttp2_hd_context \<times> nghttp2_hd_map) option" where
  "deflate_table_resize c n =
     map_option (\<lambda>(ctx, mp). (ctx, the mp))
       (hd_context_shrink_table_size ((fst c)\<lparr>hd_table_bufsize_max := n\<rparr>) (Some (snd c)))"

definition inflate_table_repr :: "nghttp2_hd_context \<Rightarrow> hfield list \<Rightarrow> bool" where
  "inflate_table_repr c fs \<longleftrightarrow> (\<exists>es. ctx_inv c None es \<and> fs = hfields es)"

definition inflate_table_insert :: "nghttp2_hd_context \<Rightarrow> nghttp2_hd_nv \<Rightarrow> (unit res \<times> nghttp2_hd_context) option" where
  "inflate_table_insert c nv =
     map_option (\<lambda>(r, ctx, mp). (r, ctx)) (add_hd_table_incremental c nv None 0)"

definition inflate_table_resize :: "nghttp2_hd_context \<Rightarrow> nat \<Rightarrow> nghttp2_hd_context option" where
  "inflate_table_resize c n =
     map_option fst (hd_context_shrink_table_size (c\<lparr>hd_table_bufsize_max := n\<rparr>) None)"

lemma ctx_repr_max [simp]: "ctx_repr (ctx\<lparr>hd_table_bufsize_max := n\<rparr>) mp es = ctx_repr ctx mp es"
  by (simp add: ctx_repr_def)

lemma table_insert_law:
  assumes "ctx_inv ctx mp es" "hn_token nv = lookup_token (hn_name nv)" "mp \<noteq> None \<Longrightarrow> hash = hd_hash (hn_name nv)"
  shows "\<exists>r ctx' mp' es'. add_hd_table_incremental ctx nv mp hash = Some (r, ctx', mp') \<and>
    ctx_inv ctx' mp' es' \<and> hd_table_bufsize_max ctx' = hd_table_bufsize_max ctx \<and> (mp' = None \<longleftrightarrow> mp = None) \<and>
    (r = Inr () \<longrightarrow> hfields es' = table_insert (hd_table_bufsize_max ctx) (field nv) (hfields es)) \<and>
    (r = Inr () \<or> r = Inl ERR_NOMEM) \<and> (hd_mem ctx = [] \<longrightarrow> r = Inr () \<and> hd_mem ctx' = [])"
proof -
  from add_hd_table_repr [OF assms] obtain r ctx' mp' es' where
    a: "add_hd_table_incremental ctx nv mp hash = Some (r, ctx', mp')" "ctx_inv ctx' mp' es'"
      "hd_table_bufsize_max ctx' = hd_table_bufsize_max ctx" "mp' = None \<longleftrightarrow> mp = None"
      "hd_mem ctx = [] \<longrightarrow> r = Inr () \<and> hd_mem ctx' = []"
    and f: "case r of Inl e \<Rightarrow> e = ERR_NOMEM
      | Inr _ \<Rightarrow> hfields es' = table_insert (hd_table_bufsize_max ctx) (field nv) (hfields es)" by blast
  have "(r = Inr () \<longrightarrow> hfields es' = table_insert (hd_table_bufsize_max ctx) (field nv) (hfields es)) \<and>
      (r = Inr () \<or> r = Inl ERR_NOMEM)" using f by (cases r) auto
  with a show ?thesis by blast
qed

lemma table_resize_law:
  assumes "ctx_inv ctx mp es" "n < 2 ^ 32"
  obtains ctx' mp' where "hd_context_shrink_table_size (ctx\<lparr>hd_table_bufsize_max := n\<rparr>) mp = Some (ctx', mp')"
    "ctx_inv ctx' mp' (fit ent_room n es)" "hd_table_bufsize_max ctx' = n" "mp' = None \<longleftrightarrow> mp = None" "hd_mem ctx' = hd_mem ctx"
  using shrink_repr [of "ctx\<lparr>hd_table_bufsize_max := n\<rparr>" mp es] assms by (auto simp: ctx_inv_def)

interpretation deflate_table: dynamic_table deflate_table_repr "\<lambda>c. hd_table_bufsize_max (fst c)"
  deflate_table_insert deflate_table_resize "\<lambda>c. nghttp2_hd_table_get (fst c)" "\<lambda>c. hd_mem (fst c)"
proof unfold_locales
  fix c fs and nv :: nghttp2_hd_nv
  assume "deflate_table_repr c fs" and t: "hn_token nv = lookup_token (hn_name nv)"
  then obtain es where i: "ctx_inv (fst c) (Some (snd c)) es" and fs: "fs = hfields es" by (auto simp: deflate_table_repr_def)
  from table_insert_law [OF i t, of "hd_hash (hn_name nv)"] obtain r ctx' mp' es' where
    "add_hd_table_incremental (fst c) nv (Some (snd c)) (hd_hash (hn_name nv)) = Some (r, ctx', mp')"
    "ctx_inv ctx' mp' es'" "hd_table_bufsize_max ctx' = hd_table_bufsize_max (fst c)" "mp' \<noteq> None"
    "r = Inr () \<longrightarrow> hfields es' = table_insert (hd_table_bufsize_max (fst c)) (field nv) (hfields es)"
    "r = Inr () \<or> r = Inl ERR_NOMEM" "hd_mem (fst c) = [] \<longrightarrow> r = Inr () \<and> hd_mem ctx' = []" by blast
  then show "\<exists>r c' fs'. deflate_table_insert c nv = Some (r, c') \<and> deflate_table_repr c' fs' \<and>
      hd_table_bufsize_max (fst c') = hd_table_bufsize_max (fst c) \<and>
      (r = Inr () \<longrightarrow> fs' = table_insert (hd_table_bufsize_max (fst c)) (field nv) fs) \<and>
      (r = Inr () \<or> r = Inl ERR_NOMEM) \<and> (hd_mem (fst c) = [] \<longrightarrow> r = Inr () \<and> hd_mem (fst c') = [])"
    using fs by (auto simp: deflate_table_insert_def deflate_table_repr_def)
next
  fix c fs n
  assume "deflate_table_repr c fs" and n: "n < (2 :: nat) ^ 32"
  then obtain es where i: "ctx_inv (fst c) (Some (snd c)) es" and fs: "fs = hfields es" by (auto simp: deflate_table_repr_def)
  from table_resize_law [OF i n] obtain ctx' mp' where
    "hd_context_shrink_table_size ((fst c)\<lparr>hd_table_bufsize_max := n\<rparr>) (Some (snd c)) = Some (ctx', mp')"
    "ctx_inv ctx' mp' (fit ent_room n es)" "hd_table_bufsize_max ctx' = n" "mp' \<noteq> None" "hd_mem ctx' = hd_mem (fst c)" by auto
  then show "\<exists>c'. deflate_table_resize c n = Some c' \<and> deflate_table_repr c' (fit field_room n fs) \<and>
      hd_table_bufsize_max (fst c') = n \<and> hd_mem (fst c') = hd_mem (fst c)"
    using fs by (auto simp: deflate_table_resize_def deflate_table_repr_def hfields_fit)
next
  fix c fs i
  assume "deflate_table_repr c fs"
  then show "map_option field (nghttp2_hd_table_get (fst c) i) = table_lookup fs i"
    using hd_table_get_repr(1) by (auto simp: deflate_table_repr_def ctx_inv_def)
qed

interpretation inflate_table: dynamic_table inflate_table_repr hd_table_bufsize_max
  inflate_table_insert inflate_table_resize nghttp2_hd_table_get hd_mem
proof unfold_locales
  fix c fs and nv :: nghttp2_hd_nv
  assume "inflate_table_repr c fs" and t: "hn_token nv = lookup_token (hn_name nv)"
  then obtain es where i: "ctx_inv c None es" and fs: "fs = hfields es" by (auto simp: inflate_table_repr_def)
  from table_insert_law [OF i t, of 0] obtain r ctx' es' where
    "add_hd_table_incremental c nv None 0 = Some (r, ctx', None)"
    "ctx_inv ctx' None es'" "hd_table_bufsize_max ctx' = hd_table_bufsize_max c"
    "r = Inr () \<longrightarrow> hfields es' = table_insert (hd_table_bufsize_max c) (field nv) (hfields es)"
    "r = Inr () \<or> r = Inl ERR_NOMEM" "hd_mem c = [] \<longrightarrow> r = Inr () \<and> hd_mem ctx' = []" by blast
  then show "\<exists>r c' fs'. inflate_table_insert c nv = Some (r, c') \<and> inflate_table_repr c' fs' \<and>
      hd_table_bufsize_max c' = hd_table_bufsize_max c \<and>
      (r = Inr () \<longrightarrow> fs' = table_insert (hd_table_bufsize_max c) (field nv) fs) \<and>
      (r = Inr () \<or> r = Inl ERR_NOMEM) \<and> (hd_mem c = [] \<longrightarrow> r = Inr () \<and> hd_mem c' = [])"
    using fs by (auto simp: inflate_table_insert_def inflate_table_repr_def)
next
  fix c fs n
  assume "inflate_table_repr c fs" and n: "n < (2 :: nat) ^ 32"
  then obtain es where i: "ctx_inv c None es" and fs: "fs = hfields es" by (auto simp: inflate_table_repr_def)
  from table_resize_law [OF i n] obtain ctx' where
    "hd_context_shrink_table_size (c\<lparr>hd_table_bufsize_max := n\<rparr>) None = Some (ctx', None)"
    "ctx_inv ctx' None (fit ent_room n es)" "hd_table_bufsize_max ctx' = n" "hd_mem ctx' = hd_mem c" by auto
  then show "\<exists>c'. inflate_table_resize c n = Some c' \<and> inflate_table_repr c' (fit field_room n fs) \<and>
      hd_table_bufsize_max c' = n \<and> hd_mem c' = hd_mem c"
    using fs by (auto simp: inflate_table_resize_def inflate_table_repr_def hfields_fit)
next
  fix c fs i
  assume "inflate_table_repr c fs"
  then show "map_option field (nghttp2_hd_table_get c i) = table_lookup fs i"
    using hd_table_get_repr(1) by (auto simp: inflate_table_repr_def ctx_inv_def)
qed

section \<open>Properties\<close>

text \<open>The bytes that a context accounts for are the sizes of its fields.\<close>

lemma table_size: "ctx_inv ctx mp es \<Longrightarrow>
    hd_table_bufsize ctx = sum_list (map field_room (hfields es)) \<and> hd_table_bufsize ctx \<le> hd_table_bufsize_max ctx"
  by (simp add: ctx_inv_def ctx_repr_def hfields_def field_room_ent comp_def)

text \<open>
  C4. The two dynamic tables hold what RFC 7541 says, and so stay equal. Start from a table of the
  compressor (ring buffer and hash map) and a table of the decompressor (ring buffer only) that hold
  the same fields under the same limit, and run the same insertions and changes of the limit on both. No
  assertion fails and no slot is read before it was written; a run fails only with NOMEM, and not at all
  if no allocation fails. After a run that succeeds, on either side, with whatever allocations failed on the
  other, the limit is the last one set, every index denotes the field that the list of RFC
  7541 has there (the inserted fields, newest first behind the static table, less those that were
  evicted), and the octets accounted for are the sum over these fields and respect the limit.
\<close>

theorem hd_tables_in_sync:
  assumes "deflate_table_repr d fs" and "inflate_table_repr c fs"
    and "hd_table_bufsize_max (fst d) = l" and "hd_table_bufsize_max c = l"
    and "\<forall>op \<in> set ops. case op of Inl nv \<Rightarrow> hn_token nv = lookup_token (hn_name nv) | Inr n \<Rightarrow> n < 2 ^ 32"
  shows "\<exists>r d' s c'. deflate_table.run d ops = Some (r, d') \<and> inflate_table.run c ops = Some (s, c') \<and>
    (r = Inr () \<or> r = Inl ERR_NOMEM \<and> hd_mem (fst d) \<noteq> []) \<and> (s = Inr () \<or> s = Inl ERR_NOMEM \<and> hd_mem c \<noteq> []) \<and>
    (let (l', fs') = table_after ops l fs in
      (r = Inr () \<longrightarrow>
        hd_table_bufsize_max (fst d') = l' \<and>
        (\<forall>i. map_option field (nghttp2_hd_table_get (fst d') i) = table_lookup fs' i) \<and>
        hd_table_bufsize (fst d') = sum_list (map field_room fs') \<and> hd_table_bufsize (fst d') \<le> l') \<and>
      (s = Inr () \<longrightarrow>
        hd_table_bufsize_max c' = l' \<and>
        (\<forall>i. map_option field (nghttp2_hd_table_get c' i) = table_lookup fs' i) \<and>
        hd_table_bufsize c' = sum_list (map field_room fs') \<and> hd_table_bufsize c' \<le> l'))"
proof -
  from deflate_table.run_spec [OF assms(1,3,5)] obtain r d' fs1 where
    d: "deflate_table.run d ops = Some (r, d')" "deflate_table_repr d' fs1"
      "r = Inr () \<longrightarrow> table_after ops l fs = (hd_table_bufsize_max (fst d'), fs1)"
      "r = Inr () \<or> r = Inl ERR_NOMEM \<and> hd_mem (fst d) \<noteq> []"
    by blast
  from inflate_table.run_spec [OF assms(2,4,5)] obtain s c' fs2 where
    c: "inflate_table.run c ops = Some (s, c')" "inflate_table_repr c' fs2"
      "s = Inr () \<longrightarrow> table_after ops l fs = (hd_table_bufsize_max c', fs2)"
      "s = Inr () \<or> s = Inl ERR_NOMEM \<and> hd_mem c \<noteq> []"
    by blast
  have ds: "hd_table_bufsize (fst d') = sum_list (map field_room fs1) \<and> hd_table_bufsize (fst d') \<le> hd_table_bufsize_max (fst d')"
    using d(2) table_size by (auto simp: deflate_table_repr_def)
  have cs: "hd_table_bufsize c' = sum_list (map field_room fs2) \<and> hd_table_bufsize c' \<le> hd_table_bufsize_max c'"
    using c(2) table_size by (auto simp: inflate_table_repr_def)
  show ?thesis
    by (intro exI conjI, rule d(1), rule c(1), rule d(4), rule c(4))
      (use d(3) c(3) ds cs deflate_table.get_law [OF d(2)] inflate_table.get_law [OF c(2)] in \<open>auto split: prod.split\<close>)
qed

text \<open>A fresh context, a field to insert, and a small limit that evicts it.\<close>

definition example_ctx :: nghttp2_hd_context where
  "example_ctx = (case hd_context_init [] of Inr ctx \<Rightarrow> ctx)"

definition example_nv :: nghttp2_hd_nv where
  "example_nv = \<lparr>hn_name = lit ''te'', hn_value = lit ''x'', hn_token = NGHTTP2_TOKEN_TE, hn_flags = 0\<rparr>"

lemma example_ctx_init: "hd_context_init [] = Inr example_ctx"
proof -
  obtain j where j: "ring_size 0 128 = 2 ^ j" "j = 0 \<or> 2 ^ j < 2 * (128 :: nat)" using ring_size_power [of 0 128] by auto
  have "(2 :: nat) ^ j \<le> 256" using j(2) by auto
  then have "\<exists>rb. hd_ringbuf_init 128 [] = (Inr rb, [])" by (simp add: hd_ringbuf_init_def Let_def j(1))
  then show ?thesis
    by (auto simp: example_ctx_def hd_context_init_def NGHTTP2_HD_DEFAULT_MAX_BUFFER_SIZE_def NGHTTP2_HD_ENTRY_OVERHEAD_def)
qed

lemma example_nv_token: "hn_token example_nv = lookup_token (hn_name example_nv)"
  by (simp add: example_nv_def lookup_token_def lookup_token_2_def memeq_def lit_def)

theorem hd_tables_in_sync_witness:
  "\<exists>d' c'. deflate_table.run (example_ctx, hd_map_init) [Inl example_nv, Inr 100, Inl example_nv] = Some (Inr (), d') \<and>
     inflate_table.run example_ctx [Inl example_nv, Inr 100, Inl example_nv] = Some (Inr (), c') \<and>
     (\<forall>i \<in> {61, 62}. map_option field (nghttp2_hd_table_get (fst d') i) = Some (lit ''te'', lit ''x'') \<and>
        map_option field (nghttp2_hd_table_get c' i) = Some (lit ''te'', lit ''x'')) \<and>
     hd_table_bufsize (fst d') = 70 \<and> hd_table_bufsize c' = 70"
proof -
  let ?ops = "[Inl example_nv, Inr (100 :: nat), Inl example_nv]"
  have i: "ctx_inv example_ctx None []" "ctx_inv example_ctx (Some hd_map_init) []"
    and l: "hd_table_bufsize_max example_ctx = 4096"
    using hd_context_init_repr [OF example_ctx_init] by (auto simp: NGHTTP2_HD_DEFAULT_MAX_BUFFER_SIZE_def)
  have m: "hd_mem example_ctx = []" by (rule hd_context_init_mem [OF example_ctx_init])
  have r: "deflate_table_repr (example_ctx, hd_map_init) []" "inflate_table_repr example_ctx []"
    using i by (auto simp: deflate_table_repr_def inflate_table_repr_def hfields_def intro!: exI [of _ "[]"])
  have f: "field example_nv = (lit ''te'', lit ''x'')" by (simp add: field_def example_nv_def)
  have a: "table_after ?ops 4096 [] = (100, [field example_nv, field example_nv])"
    by (simp add: table_insert_def field_room_def f lit_def)
  let ?f = "(lit ''te'', lit ''x'')"
  have t: "table_lookup [?f, ?f] 61 = Some ?f" "table_lookup [?f, ?f] 62 = Some ?f"
    by (simp_all add: table_lookup_def nth_append)
  have s: "field_room ?f = 35" by (simp add: field_room_def lit_def)
  have pre: "\<forall>op \<in> set ?ops. case op of Inl nv \<Rightarrow> hn_token nv = lookup_token (hn_name nv) | Inr n \<Rightarrow> n < 2 ^ 32"
    using example_nv_token by simp
  have l': "hd_table_bufsize_max (fst (example_ctx, hd_map_init)) = 4096" using l by simp
  obtain u d' v c' where w: "deflate_table.run (example_ctx, hd_map_init) ?ops = Some (u, d')"
    "inflate_table.run example_ctx ?ops = Some (v, c')" "u = Inr ()" "v = Inr ()"
    "\<And>i. map_option field (nghttp2_hd_table_get (fst d') i) = table_lookup [field example_nv, field example_nv] i"
    "hd_table_bufsize (fst d') = sum_list (map field_room [field example_nv, field example_nv])"
    "\<And>i. map_option field (nghttp2_hd_table_get c' i) = table_lookup [field example_nv, field example_nv] i"
    "hd_table_bufsize c' = sum_list (map field_room [field example_nv, field example_nv])"
    using hd_tables_in_sync [OF r l' l pre] m unfolding a Let_def prod.case fst_conv by blast
  show ?thesis
    by (intro exI conjI, rule w(1) [unfolded w(3)], rule w(2) [unfolded w(4)])
      (simp_all add: w(5-8) [unfolded f] t s)
qed

text \<open>The search as it would be done on the two lists of fields.\<close>

fun first_index :: "('a \<Rightarrow> bool) \<Rightarrow> 'a list \<Rightarrow> nat option" where
  "first_index P [] = None"
| "first_index P (x # xs) = (if P x then Some 0 else map_option Suc (first_index P xs))"

definition search_lists :: "hfield list \<Rightarrow> bool \<Rightarrow> bytes \<Rightarrow> bytes \<Rightarrow> search_result" where
  "search_lists fs name_only name val =
     (let full = (\<lambda>fs. if name_only then None else first_index (\<lambda>f. f = (name, val)) fs);
          named = first_index (\<lambda>f. fst f = name)
      in case full fs of
           Some j \<Rightarrow> \<lparr>sr_index = 61 + int j, name_value_match = True\<rparr>
         | None \<Rightarrow>
             (case (full static_fields, named static_fields) of
                (Some i, _) \<Rightarrow> \<lparr>sr_index = int i, name_value_match = True\<rparr>
              | (None, Some i) \<Rightarrow> \<lparr>sr_index = int i, name_value_match = False\<rparr>
              | (None, None) \<Rightarrow>
                  (case named fs of
                     Some j \<Rightarrow> \<lparr>sr_index = 61 + int j, name_value_match = False\<rparr>
                   | None \<Rightarrow> \<lparr>sr_index = - 1, name_value_match = False\<rparr>)))"

lemma find_first_index: "find P xs = map_option ((!) xs) (first_index P xs)"
  by (induction xs) (auto simp: option.map_comp comp_def)

lemma first_index_map: "first_index P (map f xs) = first_index (\<lambda>x. P (f x)) xs"
  by (induction xs) simp_all

lemma first_index_cong: "(\<And>x. x \<in> set xs \<Longrightarrow> P x = Q x) \<Longrightarrow> first_index P xs = first_index Q xs"
  by (induction xs) simp_all

lemma first_index_None: "first_index P xs = None \<longleftrightarrow> (\<forall>x \<in> set xs. \<not> P x)"
  by (induction xs) auto

lemma first_index_less: "first_index P xs = Some j \<Longrightarrow> j < length xs"
  by (induction xs arbitrary: j) (auto split: if_splits)

lemma first_index_drop:
  "\<forall>e \<in> set (take i xs). \<not> P e \<Longrightarrow> first_index P xs = map_option ((+) i) (first_index P (drop i xs))"
proof (induction xs arbitrary: i)
  case (Cons x xs)
  then show ?case by (cases i) (auto simp: option.map_comp comp_def option.map_ident)
qed simp

lemma first_index_sorted:
  "sorted (map key ys) \<Longrightarrow> \<forall>e \<in> set ys. t \<le> key e \<Longrightarrow>
   first_index (\<lambda>e. key e = t \<and> Q e) ys = first_index Q (takeWhile (\<lambda>e. key e = t) ys)" for t :: int
proof (induction ys)
  case (Cons y ys)
  show ?case
  proof (cases "key y = t")
    case False
    then have "\<forall>e \<in> set (y # ys). key e \<noteq> t" using Cons.prems by fastforce
    then have "first_index (\<lambda>e. key e = t \<and> Q e) (y # ys) = None" unfolding first_index_None by blast
    then show ?thesis using False by simp
  qed (use Cons in auto)
qed simp

text \<open>The rows of a token are together in the static table, and the first one has the token as its index.\<close>

lemma static_table_sorted: "sorted (map se_token static_table)"
  "list_all (\<lambda>(k, e). 0 \<le> se_token e \<and> se_token e \<le> int k) (List.enumerate 0 static_table)"
  unfolding static_table_def by code_simp+

lemma static_token_le: "k < 61 \<Longrightarrow> 0 \<le> se_token (static_table ! k) \<and> se_token (static_table ! k) \<le> int k"
  using static_table_sorted(2) unfolding list_all_length by (auto simp: nth_enumerate_eq)

lemma static_rows:
  assumes t: "0 \<le> t" "t \<le> NGHTTP2_TOKEN_WWW_AUTHENTICATE" and row: "se_token (static_table ! nat t) = t"
  shows "first_index (\<lambda>e. se_token e = t \<and> Q e) static_table =
    map_option ((+) (nat t)) (first_index Q (takeWhile (\<lambda>e. se_token e = t) (drop (nat t) static_table)))"
proof -
  have n: "nat t < 61" using t by (simp add: token_consts)
  have "se_token e < t" if e: "e \<in> set (take (nat t) static_table)" for e
  proof -
    obtain k where "k < nat t" "e = static_table ! k" using e n by (auto simp: in_set_conv_nth)
    then show ?thesis using static_token_le [of k] n zless_nat_eq_int_zless [of k t] by simp
  qed
  then have "first_index (\<lambda>e. se_token e = t \<and> Q e) static_table =
      map_option ((+) (nat t)) (first_index (\<lambda>e. se_token e = t \<and> Q e) (drop (nat t) static_table))"
    by (intro first_index_drop) fastforce
  moreover have "t \<le> se_token e" if e: "e \<in> set (drop (nat t) static_table)" for e
  proof -
    obtain j where "j < 61 - nat t" "e = static_table ! (nat t + j)" using e n by (auto simp: in_set_conv_nth)
    then obtain k where "nat t \<le> k" "k < 61" "e = static_table ! k" by (metis le_add1 less_diff_conv add.commute)
    then show ?thesis using sorted_nth_mono [OF static_table_sorted(1), of "nat t" k] row by simp
  qed
  moreover have "sorted (map se_token (drop (nat t) static_table))"
    using static_table_sorted(1) by (simp add: drop_map [symmetric] sorted_wrt_drop)
  ultimately show ?thesis using first_index_sorted [of se_token "drop (nat t) static_table" t Q] by simp
qed

lemma search_static_loop_rows:
  assumes "i \<le> 61"
  shows "search_static_loop nv token i =
    (case first_index (\<lambda>e. se_value e = nv_value nv) (takeWhile (\<lambda>e. se_token e = token) (drop i static_table)) of
       Some k \<Rightarrow> \<lparr>sr_index = int (i + k), name_value_match = True\<rparr>
     | None \<Rightarrow> \<lparr>sr_index = token, name_value_match = False\<rparr>)"
  using assms
proof (induction "61 - i" arbitrary: i)
  case 0
  then show ?case by (subst search_static_loop.simps) (simp add: token_consts)
next
  case (Suc n)
  then have i: "i < 61" by simp
  then have d: "drop i static_table = static_table ! i # drop (Suc i) static_table" by (simp add: Cons_nth_drop_Suc)
  have m: "length (se_value e) = length v \<and> memcmp (se_value e) v (length v) = 0 \<longleftrightarrow> se_value e = v" for e v
    by (auto simp: memcmp_take)
  have "search_static_loop nv token (i + 1) =
    (case first_index (\<lambda>e. se_value e = nv_value nv) (takeWhile (\<lambda>e. se_token e = token) (drop (i + 1) static_table)) of
       Some k \<Rightarrow> \<lparr>sr_index = int (i + 1 + k), name_value_match = True\<rparr>
     | None \<Rightarrow> \<lparr>sr_index = token, name_value_match = False\<rparr>)"
    using Suc.hyps(1) [of "i + 1"] Suc.hyps(2) i by simp
  then show ?case using i unfolding d
    by (subst search_static_loop.simps) (simp add: m Let_def token_consts split: option.split)
qed

lemma static_name_token:
  assumes "e \<in> set static_table"
  shows "se_name e = name \<longleftrightarrow> 0 \<le> lookup_token name \<and> lookup_token name \<le> NGHTTP2_TOKEN_WWW_AUTHENTICATE \<and>
    se_token e = lookup_token name"
proof -
  obtain k where k: "k < 61" "e = static_table ! k" using assms by (auto simp: in_set_conv_nth)
  then have l: "lookup_token (se_name e) = se_token e" using static_entry_token by simp
  moreover have "0 \<le> se_token e" "se_token e \<le> NGHTTP2_TOKEN_WWW_AUTHENTICATE"
    using static_token_le [OF k(1)] k by (auto simp: token_consts)
  ultimately show ?thesis using lookup_token_inj [of "se_name e" name] by auto
qed

lemma search_static_lists:
  assumes t: "lookup_token name = t" "0 \<le> t" "t \<le> NGHTTP2_TOKEN_WWW_AUTHENTICATE" and v: "nv_value nv = val"
  shows "first_index (\<lambda>f. fst f = name) static_fields = Some (nat t)"
    "search_static_loop nv t (nat t) =
      (case first_index (\<lambda>f. f = (name, val)) static_fields of
         Some i \<Rightarrow> \<lparr>sr_index = int i, name_value_match = True\<rparr> | None \<Rightarrow> \<lparr>sr_index = t, name_value_match = False\<rparr>)"
proof -
  have row: "nat t < 61" "se_token (static_table ! nat t) = t" using token_entry [OF t(1)] t(2,3) by auto
  have nm: "se_name e = name \<longleftrightarrow> se_token e = t" if "e \<in> set static_table" for e
    using static_name_token [OF that, of name] t by auto
  have d: "drop (nat t) static_table = static_table ! nat t # drop (Suc (nat t)) static_table"
    using row(1) by (simp add: Cons_nth_drop_Suc)
  have "first_index (\<lambda>f. fst f = name) static_fields = first_index (\<lambda>e. se_token e = t \<and> True) static_table"
    unfolding static_fields_def first_index_map by (rule first_index_cong) (simp add: nm)
  then show "first_index (\<lambda>f. fst f = name) static_fields = Some (nat t)"
    unfolding static_rows [OF t(2,3) row(2), of "\<lambda>_. True"] d using row(2) by simp
  have "first_index (\<lambda>f. f = (name, val)) static_fields = first_index (\<lambda>e. se_token e = t \<and> se_value e = val) static_table"
    unfolding static_fields_def first_index_map by (rule first_index_cong) (auto simp: nm)
  moreover have "search_static_loop nv t (nat t) =
    (case first_index (\<lambda>e. se_value e = val) (takeWhile (\<lambda>e. se_token e = t) (drop (nat t) static_table)) of
       Some k \<Rightarrow> \<lparr>sr_index = int (nat t + k), name_value_match = True\<rparr>
     | None \<Rightarrow> \<lparr>sr_index = t, name_value_match = False\<rparr>)"
    using search_static_loop_rows [of "nat t" nv t] row(1) v by simp
  ultimately show "search_static_loop nv t (nat t) =
      (case first_index (\<lambda>f. f = (name, val)) static_fields of
         Some i \<Rightarrow> \<lparr>sr_index = int i, name_value_match = True\<rparr> | None \<Rightarrow> \<lparr>sr_index = t, name_value_match = False\<rparr>)"
    unfolding static_rows [OF t(2,3) row(2), of "\<lambda>e. se_value e = val"]
    by (simp split: option.split)
qed

lemma search_no_static:
  assumes "\<not> (0 \<le> lookup_token name \<and> lookup_token name \<le> NGHTTP2_TOKEN_WWW_AUTHENTICATE)"
  shows "first_index (\<lambda>f. fst f = name) static_fields = None" "first_index (\<lambda>f. f = (name, val)) static_fields = None"
  unfolding static_fields_def first_index_map first_index_None using assms static_name_token by auto

text \<open>The position of an entry, from its sequence number.\<close>

lemma entry_index:
  assumes r: "ctx_repr ctx (Some mp) es" and j: "j < length es"
  shows "uint (next_seq ctx - 1 - ent_seq (es ! j) + word_of_nat NGHTTP2_STATIC_TABLE_LENGTH) = 61 + int j"
proof -
  have len: "length es < 2 ^ 27" by (rule ctx_repr_length [OF r])
  have sq: "seqs_ok (next_seq ctx) es" using r by (auto simp: ctx_repr_def)
  have "ent_seq (es ! j) = next_seq ctx - 1 - word_of_nat j" using sq j by (auto simp: seqs_ok_def)
  then have "next_seq ctx - 1 - ent_seq (es ! j) + word_of_nat NGHTTP2_STATIC_TABLE_LENGTH = word_of_nat (61 + j)"
    by (simp add: NGHTTP2_STATIC_TABLE_LENGTH_def)
  moreover have "uint (word_of_nat (61 + j) :: u32) = 61 + int j"
  proof -
    have "61 + j < 2 ^ 32" using j len by simp
    then have "unat (word_of_nat (61 + j) :: u32) = 61 + j" unfolding unat_of_nat by simp
    then show ?thesis by (metis of_nat_add of_nat_numeral unsigned_of_nat uint_nat)
  qed
  ultimately show ?thesis by (simp only:)
qed

lemma search_hd_table_lists:
  assumes r: "ctx_repr ctx (Some mp) es"
  shows "search_hd_table ctx nv (lookup_token (nv_name nv)) mode mp (hd_hash (nv_name nv)) =
    search_lists (hfields es) (mode = HD_NEVER_INDEXING) (nv_name nv) (nv_value nv)"
proof -
  let ?t = "lookup_token (nv_name nv)" and ?no = "mode = HD_NEVER_INDEXING"
  have m: "map_repr mp es" "\<forall>e \<in> set es. ent_ok e" using r by (auto simp: ctx_repr_def)
  define full where "full = first_index (\<lambda>f. f = (nv_name nv, nv_value nv)) (hfields es)"
  define named where "named = first_index (\<lambda>f. fst f = nv_name nv) (hfields es)"
  have f: "find (\<lambda>p. field (ent_nv p) = (nv_name nv, nv_value nv)) es = map_option ((!) es) full"
    "find (\<lambda>p. hn_name (ent_nv p) = nv_name nv) es = map_option ((!) es) named"
    unfolding find_first_index full_def named_def hfields_def first_index_map by (simp_all add: field_def)
  have len: "j < length es" if "full = Some j \<or> named = Some j" for j
  proof -
    have "j < length (hfields es)" using that first_index_less unfolding full_def named_def by blast
    then show ?thesis by (simp add: hfields_def)
  qed
  note idx = entry_index [OF r len]
  note find = hd_map_find_repr [OF m, of nv ?no, unfolded f Let_def]
  show ?thesis
  proof (cases "0 \<le> ?t \<and> ?t \<le> NGHTTP2_TOKEN_WWW_AUTHENTICATE")
    case True
    note st = search_static_lists [OF refl, of "nv_name nv" nv, OF conjunct1 [OF True] conjunct2 [OF True] refl]
    show ?thesis using True
      by (cases full) (auto simp: search_hd_table_def find search_lists_def Let_def full_def [symmetric] idx
          search_static_table_def st split: option.split)
  next
    case False
    note st = search_no_static [OF False]
    show ?thesis using False
      by (cases full; cases named) (auto simp: search_hd_table_def find search_lists_def Let_def full_def [symmetric]
          named_def [symmetric] idx st)
  qed
qed

text \<open>
  C5. The search of the compressor is exact. Through the hash map, whose buckets mix the names, and the
  static table, which it enters at the row that the token of the name gives, it returns what a search
  of the two lists of fields returns: the newest dynamic entry with the name and the
  value, unless full matches are not wanted; otherwise, for a name of the static table, the row with the name and the value, or the first
  row with the name; otherwise the newest dynamic entry with the name; and -1 exactly when no field of
  either table has the name. So every index denotes a field with the name, and a reported full match one
  with the value too, also after the 32-bit sequence numbers have wrapped around.
\<close>

theorem hd_search_correct:
  assumes "ctx_inv ctx (Some mp) es"
    and "res = search_hd_table ctx nv (lookup_token (nv_name nv)) mode mp (hd_hash (nv_name nv))"
  shows "res = search_lists (hfields es) (mode = HD_NEVER_INDEXING) (nv_name nv) (nv_value nv) \<and>
    (sr_index res = - 1 \<longleftrightarrow> nv_name nv \<notin> fst ` set (static_fields @ hfields es)) \<and>
    (sr_index res \<noteq> - 1 \<longrightarrow> 0 \<le> sr_index res \<and>
      (\<exists>f. table_lookup (hfields es) (nat (sr_index res)) = Some f \<and> fst f = nv_name nv \<and>
         (name_value_match res \<longrightarrow> snd f = nv_value nv)))"
proof (intro conjI)
  have r: "ctx_repr ctx (Some mp) es" using assms(1) by (simp add: ctx_inv_def)
  show e: "res = search_lists (hfields es) (mode = HD_NEVER_INDEXING) (nv_name nv) (nv_value nv)"
    unfolding assms(2) by (rule search_hd_table_lists [OF r])
  have n: "first_index (\<lambda>f. fst f = nv_name nv) fs = None \<longleftrightarrow> nv_name nv \<notin> fst ` set fs"
    "first_index (\<lambda>f. f = (nv_name nv, nv_value nv)) fs = Some j \<Longrightarrow> nv_name nv \<in> fst ` set fs" for fs j
  proof -
    show "first_index (\<lambda>f. fst f = nv_name nv) fs = None \<longleftrightarrow> nv_name nv \<notin> fst ` set fs"
      unfolding first_index_None by force
    have "first_index (\<lambda>f. f = (nv_name nv, nv_value nv)) fs = None" if "nv_name nv \<notin> fst ` set fs"
      using that unfolding first_index_None by force
    then show "first_index (\<lambda>f. f = (nv_name nv, nv_value nv)) fs = Some j \<Longrightarrow> nv_name nv \<in> fst ` set fs" by auto
  qed
  show "sr_index res = - 1 \<longleftrightarrow> nv_name nv \<notin> fst ` set (static_fields @ hfields es)"
  proof -
    have m: "nv_name nv \<notin> fst ` set (static_fields @ hfields es) \<longleftrightarrow>
        first_index (\<lambda>f. fst f = nv_name nv) static_fields = None \<and> first_index (\<lambda>f. fst f = nv_name nv) (hfields es) = None"
      unfolding n(1) by (auto simp: image_Un)
    have s: "first_index (\<lambda>f. f = (nv_name nv, nv_value nv)) fs = None" if "first_index (\<lambda>f. fst f = nv_name nv) fs = None" for fs
      using n(2) [of fs] that unfolding n(1) by (metis not_Some_eq)
    show ?thesis unfolding m using s [of static_fields] s [of "hfields es"]
      by (auto simp: e search_lists_def Let_def split: option.split)
  qed
  show "sr_index res \<noteq> - 1 \<longrightarrow> 0 \<le> sr_index res \<and>
      (\<exists>f. table_lookup (hfields es) (nat (sr_index res)) = Some f \<and> fst f = nv_name nv \<and>
         (name_value_match res \<longrightarrow> snd f = nv_value nv))"
    using search_hd_table_sound [OF r, of nv mode, folded assms(2)] by auto
qed

text \<open>A full match in a dynamic table with one field, and one in the static table.\<close>

theorem hd_search_correct_witness:
  "\<exists>ctx mp es. ctx_inv ctx (Some mp) es \<and> hfields es = [(lit ''te'', lit ''x'')] \<and>
     search_hd_table ctx \<lparr>nv_name = lit ''te'', nv_value = lit ''x'', nv_flags = 0\<rparr> (lookup_token (lit ''te''))
       HD_WITH_INDEXING mp (hd_hash (lit ''te'')) = \<lparr>sr_index = 61, name_value_match = True\<rparr> \<and>
     search_hd_table ctx \<lparr>nv_name = lit '':method'', nv_value = lit ''POST'', nv_flags = 0\<rparr> (lookup_token (lit '':method''))
       HD_WITH_INDEXING mp (hd_hash (lit '':method'')) = \<lparr>sr_index = 2, name_value_match = True\<rparr>"
proof -
  have "ctx_inv example_ctx (Some hd_map_init) []" using hd_context_init_repr [OF example_ctx_init] by simp
  moreover have "hd_mem example_ctx = []" "hd_table_bufsize_max example_ctx = 4096"
    using hd_context_init_mem [OF example_ctx_init] hd_context_init_repr [OF example_ctx_init]
    by (auto simp: NGHTTP2_HD_DEFAULT_MAX_BUFFER_SIZE_def)
  ultimately obtain ctx mp es where i: "ctx_inv ctx (Some mp) es"
    "hfields es = table_insert 4096 (field example_nv) (hfields [])"
    using table_insert_law [of example_ctx "Some hd_map_init" "[]" example_nv "hd_hash (hn_name example_nv)"] example_nv_token
    by fastforce
  have h: "hfields es = [(lit ''te'', lit ''x'')]"
    using i(2) by (simp add: hfields_def table_insert_def field_room_def field_def example_nv_def lit_def)
  have e: "search_lists [(lit ''te'', lit ''x'')] False (lit ''te'') (lit ''x'') = \<lparr>sr_index = 61, name_value_match = True\<rparr>"
    "search_lists [(lit ''te'', lit ''x'')] False (lit '':method'') (lit ''POST'') = \<lparr>sr_index = 2, name_value_match = True\<rparr>"
    by code_simp+
  show ?thesis
    using i(1) h e hd_search_correct [OF i(1) refl, of "\<lparr>nv_name = lit ''te'', nv_value = lit ''x'', nv_flags = 0\<rparr>" HD_WITH_INDEXING]
      hd_search_correct [OF i(1) refl, of "\<lparr>nv_name = lit '':method'', nv_value = lit ''POST'', nv_flags = 0\<rparr>" HD_WITH_INDEXING]
    by (intro exI [of _ ctx] exI [of _ mp] exI [of _ es]) simp
qed
end
