(* ===== verification/Nghttp2_Hd_Int.thy ===== *)
theory Nghttp2_Hd_Int
  imports Nghttp2_Base
begin

text \<open>
  The prefixed integers of HPACK, from \<open>src/src/nghttp2/lib/nghttp2_hd.c\<close>: \<open>encode_length\<close>,
  \<open>count_encoded_length\<close> and the incremental decoder \<open>decode_length\<close> with its overflow checks.
\<close>

unbundle bit_operations_syntax

section \<open>Encoding\<close>

function count_groups :: "nat \<Rightarrow> nat \<Rightarrow> nat" where
  "count_groups n len = (if 128 \<le> n then count_groups (n div 2 ^ 7) (len + 1) else len)"
  by pat_completeness auto
termination by (relation "measure fst") auto

definition count_encoded_length :: "nat \<Rightarrow> nat \<Rightarrow> nat" where
  "count_encoded_length n prefix =
     (let k = 2 ^ prefix - 1 in if n < k then 1 else count_groups (n - k) 1 + 1)"

function encode_groups :: "nat \<Rightarrow> u8 list" where
  "encode_groups n =
     (if 128 \<le> n then (0x80 OR (word_of_nat n AND 0x7f)) # encode_groups (n div 2 ^ 7) else [word_of_nat n])"
  by pat_completeness auto
termination by (relation "measure id") auto

declare count_groups.simps [simp del] encode_groups.simps [simp del]

text \<open>\<open>b\<close> is the byte that the caller stored at \<open>*buf\<close>; its low \<open>prefix\<close> bits are replaced.\<close>

definition encode_length :: "u8 \<Rightarrow> nat \<Rightarrow> nat \<Rightarrow> u8 list" where
  "encode_length b n prefix =
     (let k = 2 ^ prefix - 1; b = b AND NOT (word_of_nat k) in
      if n < k then [b OR word_of_nat n] else (b OR word_of_nat k) # encode_groups (n - k))"

section \<open>Decoding\<close>

text \<open>
  The result of the decoder: the value so far, the number of shifts for the next call, whether
  the integer is complete, and the number of bytes that were read; \<open>None\<close> is the result -1.
\<close>

type_synonym decoded = "u32 \<times> nat \<times> bool \<times> nat"

fun decode_groups :: "u32 \<Rightarrow> nat \<Rightarrow> u8 list \<Rightarrow> nat \<Rightarrow> decoded option" where
  "decode_groups n shift [] c = Some (n, shift, False, c)"
| "decode_groups n shift (b # bs) c =
     (let add = ucast b AND 0x7f in
      if 32 \<le> shift then None
      else if drop_bit shift (- 1) < add then None
      else
        let add = push_bit shift add in
        if - 1 - add < n then None
        else
          let n = n + add in
          if b AND 0x80 = 0 then Some (n, shift, True, c + 1) else decode_groups n (shift + 7) bs (c + 1))"

definition decode_length :: "u32 \<Rightarrow> nat \<Rightarrow> u8 list \<Rightarrow> nat \<Rightarrow> decoded option" where
  "decode_length initial shift bs prefix =
     (let k = ucast (word_of_nat (2 ^ prefix - 1) :: u8) :: u32 in
      if initial = 0 then
        (if ucast (bs ! 0) AND k \<noteq> k then Some (ucast (bs ! 0) AND k, 0, True, 1)
         else if tl bs = [] then Some (k, 0, False, 1)
         else decode_groups k shift (tl bs) 1)
      else decode_groups initial shift bs 0)"

section \<open>The value of an encoding\<close>

lemma count_groups_encode: "count_groups n len = len + length (encode_groups n) - 1"
proof (induction n arbitrary: len rule: less_induct)
  case (less n)
  show ?case
  proof (cases "128 \<le> n")
    case True
    then have "count_groups n len = count_groups (n div 2 ^ 7) (len + 1)" by (subst count_groups.simps) simp
    moreover have "encode_groups n = (0x80 OR (word_of_nat n AND 0x7f)) # encode_groups (n div 2 ^ 7)"
      using True by (subst encode_groups.simps) simp
    moreover have "0 < length (encode_groups m)" for m by (subst encode_groups.simps) simp
    ultimately show ?thesis using less [of "n div 2 ^ 7" "len + 1"] True by (simp add: Suc_leI)
  next
    case False
    then show ?thesis by (simp add: count_groups.simps encode_groups.simps)
  qed
qed

text \<open>The announced length is the length of the encoding.\<close>

lemma count_encoded_length: "length (encode_length b n prefix) = count_encoded_length n prefix"
proof -
  have "0 < length (encode_groups m)" for m by (subst encode_groups.simps) simp
  then show ?thesis
    by (simp add: encode_length_def count_encoded_length_def count_groups_encode Let_def Suc_leI)
qed


section \<open>The decoder on numbers\<close>

definition low7 :: "u8 \<Rightarrow> nat" where
  "low7 b = unat b mod 128"

definition more :: "u8 \<Rightarrow> bool" where
  "more b \<longleftrightarrow> 128 \<le> unat b"

lemma low7_lt [simp]: "low7 b < 128"
  by (simp add: low7_def)

lemma mask_7: "(0x7f :: 'a :: len word) = mask 7"
  by (simp add: mask_eq_exp_minus_1)

lemma ucast_low7: "(ucast b AND 0x7f :: u32) = word_of_nat (low7 b)"
proof -
  have "unat (take_bit 7 (ucast b :: u32)) = take_bit 7 (take_bit 32 (unat b))"
    by (simp only: unsigned_take_bit_eq unsigned_ucast_eq) simp
  also have "\<dots> = unat b mod 128" by (simp add: take_bit_take_bit) (simp add: take_bit_eq_mod)
  also have "\<dots> = unat (word_of_nat (low7 b) :: u32)"
    by (simp add: low7_def unat_of_nat)
  finally show ?thesis unfolding mask_7 take_bit_eq_mask [symmetric] by (rule unsigned_word_eqI)
qed

lemma unat_bit7: "bit (b :: u8) 7 \<longleftrightarrow> 128 \<le> unat b"
proof -
  have "bit b 7 \<longleftrightarrow> bit (unat b) 7" by (simp add: bit_unsigned_iff)
  also have "\<dots> \<longleftrightarrow> odd (unat b div 128)" by (simp add: bit_iff_odd)
  also have "\<dots> \<longleftrightarrow> 128 \<le> unat b"
  proof -
    have "odd (x div 128) \<longleftrightarrow> 128 \<le> x" if "x < 256" for x :: nat
    proof (cases "128 \<le> x")
      case True
      then have "x div 128 = 1" using that by (intro div_nat_eqI) simp_all
      then show ?thesis using True by simp
    next
      case False
      then have "x div 128 = 0" by simp
      then show ?thesis using False by simp
    qed
    from this [OF unat_u8_lt] show ?thesis .
  qed
  finally show ?thesis .
qed

lemma more_bit: "b AND 0x80 = 0 \<longleftrightarrow> \<not> more (b :: u8)"
proof -
  have e: "(0x80 :: u8) = 2 ^ 7" by simp
  have "b AND 2 ^ 7 = 0 \<longleftrightarrow> \<not> bit b 7" by (rule and_exp_eq_0_iff_not_bit)
  then show ?thesis unfolding e more_def unat_bit7 .
qed

lemma unat_low: "n < 2 ^ 32 \<Longrightarrow> unat (word_of_nat n :: u32) = n"
  by (simp add: unat_of_nat)

lemma overflow_checks:
  fixes n :: u32
  assumes s: "shift < 32" and a: "a < 128"
  shows "drop_bit shift (- 1) < (word_of_nat a :: u32) \<or> - 1 - push_bit shift (word_of_nat a) < n \<longleftrightarrow>
      2 ^ 32 \<le> unat n + a * 2 ^ shift"
    and "a * 2 ^ shift < 2 ^ 32 \<Longrightarrow> n + push_bit shift (word_of_nat a) = word_of_nat (unat n + a * 2 ^ shift)"
proof -
  have d: "unat (drop_bit shift (- 1 :: u32)) = (2 ^ 32 - 1) div 2 ^ shift"
    unfolding unat_drop_bit_eq by (simp add: unsigned_minus_1_eq_mask mask_eq_exp_minus_1) (simp add: drop_bit_eq_div)
  have ua: "unat (word_of_nat a :: u32) = a" using a by (intro unat_low) simp
  have first: "drop_bit shift (- 1) < (word_of_nat a :: u32) \<longleftrightarrow> 2 ^ 32 \<le> a * 2 ^ shift"
  proof -
    have "drop_bit shift (- 1) < (word_of_nat a :: u32) \<longleftrightarrow> (2 ^ 32 - 1) div 2 ^ shift < a"
      unfolding word_less_nat_alt d ua ..
    also have "\<dots> \<longleftrightarrow> (2 ^ 32 - 1 :: nat) < a * 2 ^ shift" by (simp add: div_less_iff_less_mult)
    also have "\<dots> \<longleftrightarrow> 2 ^ 32 \<le> a * 2 ^ shift" by auto
    finally show ?thesis .
  qed
  have p: "push_bit shift (word_of_nat a :: u32) = word_of_nat (a * 2 ^ shift)" by (simp add: push_bit_eq_mult)
  show "n + push_bit shift (word_of_nat a) = word_of_nat (unat n + a * 2 ^ shift)"
    unfolding p by simp
  show "drop_bit shift (- 1) < (word_of_nat a :: u32) \<or> - 1 - push_bit shift (word_of_nat a) < n \<longleftrightarrow>
      2 ^ 32 \<le> unat n + a * 2 ^ shift"
  proof (cases "a * 2 ^ shift < 2 ^ 32")
    case True
    let ?x = "word_of_nat (a * 2 ^ shift) :: u32"
    have ux: "unat ?x = a * 2 ^ shift" by (rule unat_low [OF True])
    have "?x \<le> - 1" by (rule word_order.extremum)
    then have "unat (- 1 - ?x) = unat (- 1 :: u32) - unat ?x" by (simp add: unat_sub)
    then have "unat (- 1 - ?x) = 2 ^ 32 - 1 - a * 2 ^ shift"
      unfolding ux by (simp add: unsigned_minus_1_eq_mask mask_eq_exp_minus_1)
    then have "- 1 - ?x < n \<longleftrightarrow> 2 ^ 32 \<le> unat n + a * 2 ^ shift"
      using True by (simp add: word_less_nat_alt) linarith
    then show ?thesis using first True unfolding p by simp
  next
    case False
    then show ?thesis using first by simp
  qed
qed

lemma decode_groups_Cons:
  "decode_groups n shift (b # bs) c =
     (if 32 \<le> shift \<or> 2 ^ 32 \<le> unat n + low7 b * 2 ^ shift then None
      else let n' = word_of_nat (unat n + low7 b * 2 ^ shift) in
        if more b then decode_groups n' (shift + 7) bs (c + 1) else Some (n', shift, True, c + 1))"
proof (cases "32 \<le> shift")
  case True
  then show ?thesis by simp
next
  case False
  then have s: "shift < 32" by simp
  note o = overflow_checks [OF s low7_lt [of b], of n]
  show ?thesis
  proof (cases "2 ^ 32 \<le> unat n + low7 b * 2 ^ shift")
    case True
    then show ?thesis using o(1) by (auto simp: ucast_low7 Let_def)
  next
    case f: False
    then have "low7 b * 2 ^ shift < 2 ^ 32" by simp
    then show ?thesis using o f False by (auto simp: ucast_low7 Let_def more_bit)
  qed
qed

declare decode_groups.simps(2) [simp del]

text \<open>The value of a sequence of seven bit groups, least significant first, and its length.\<close>

fun group_value :: "u8 list \<Rightarrow> (nat \<times> nat) option" where
  "group_value [] = None"
| "group_value (b # bs) =
     (if more b then map_option (\<lambda>(v, l). (low7 b + 128 * v, l + 1)) (group_value bs) else Some (low7 b, 1))"

text \<open>The integer representation of RFC 7541, section 5.1.\<close>

definition hpack_int :: "nat \<Rightarrow> u8 list \<Rightarrow> (nat \<times> nat) option" where
  "hpack_int prefix bs =
     (case bs of
        [] \<Rightarrow> None
      | b # bs \<Rightarrow>
          let i = unat b mod 2 ^ prefix in
          if i < 2 ^ prefix - 1 then Some (i, 1)
          else map_option (\<lambda>(v, l). (i + v, l + 1)) (group_value bs))"

lemma group_value_pos: "group_value bs = Some (v, l) \<Longrightarrow> 0 < l"
  by (cases bs) (auto split: if_splits)

lemma decode_groups_value:
  assumes "group_value bs = Some (v, l)"
  shows "decode_groups n shift bs c =
     (if shift + 7 * (l - 1) < 32 \<and> unat n + v * 2 ^ shift < 2 ^ 32
      then Some (word_of_nat (unat n + v * 2 ^ shift), shift + 7 * (l - 1), True, c + l) else None)"
  using assms
proof (induction bs arbitrary: n shift c v l)
  case Nil
  then show ?case by simp
next
  case (Cons b bs)
  show ?case
  proof (cases "more b")
    case False
    then show ?thesis using Cons.prems by (auto simp: decode_groups_Cons Let_def)
  next
    case m: True
    then obtain w j where w: "group_value bs = Some (w, j)" "v = low7 b + 128 * w" "l = j + 1"
      using Cons.prems by auto
    have j: "0 < j" by (rule group_value_pos [OF w(1)])
    let ?m = "unat n + low7 b * 2 ^ shift"
    have sum: "unat n + v * 2 ^ shift = ?m + w * 2 ^ (shift + 7)"
      by (simp add: w algebra_simps power_add)
    have sh: "shift + 7 * (l - 1) = shift + 7 + 7 * (j - 1)" using j w by simp
    show ?thesis
    proof (cases "32 \<le> shift \<or> 2 ^ 32 \<le> ?m")
      case True
      then show ?thesis unfolding sum sh by (auto simp: decode_groups_Cons)
    next
      case False
      then have um: "unat (word_of_nat ?m :: u32) = ?m" by (intro unat_low) simp
      have "decode_groups n shift (b # bs) c = decode_groups (word_of_nat ?m) (shift + 7) bs (c + 1)"
        using False m by (simp add: decode_groups_Cons Let_def)
      then show ?thesis unfolding Cons.IH [OF w(1)] um sum sh using w(3) by simp
    qed
  qed
qed

lemma decode_groups_open:
  "group_value bs = None \<Longrightarrow> decode_groups n shift bs c = Some (r, s, fin, c') \<Longrightarrow>
     \<not> fin \<and> c' = c + length bs \<and> unat n \<le> unat r"
proof (induction bs arbitrary: n shift c)
  case Nil
  then show ?case by simp
next
  case (Cons b bs)
  let ?m = "unat n + low7 b * 2 ^ shift"
  have m: "more b" "group_value bs = None" using Cons.prems(1) by (auto split: if_splits)
  then have ok: "?m < 2 ^ 32" and d: "decode_groups (word_of_nat ?m) (shift + 7) bs (c + 1) = Some (r, s, fin, c')"
    using Cons.prems(2) by (auto simp: decode_groups_Cons Let_def split: if_splits)
  show ?case using Cons.IH [OF m(2) d] unat_low [OF ok] by simp
qed

lemma prefix_mask:
  assumes "0 < prefix" "prefix \<le> 8"
  shows "ucast (b :: u8) AND ucast (word_of_nat (2 ^ prefix - 1) :: u8) = (word_of_nat (unat b mod 2 ^ prefix) :: u32)"
    "ucast (word_of_nat (2 ^ prefix - 1) :: u8) = (word_of_nat (2 ^ prefix - 1) :: u32)"
proof -
  have p: "(2 :: nat) ^ prefix \<le> 2 ^ 8" using assms by (intro power_increasing) auto
  then have u: "unat (word_of_nat (2 ^ prefix - 1) :: u8) = 2 ^ prefix - 1" 
  proof -
    have "(2 :: nat) ^ prefix - 1 < 2 ^ 8" using p by simp
    then show ?thesis unfolding unat_of_nat by simp
  qed
  show k: "ucast (word_of_nat (2 ^ prefix - 1) :: u8) = (word_of_nat (2 ^ prefix - 1) :: u32)"
  proof (rule unsigned_word_eqI)
    show "unat (ucast (word_of_nat (2 ^ prefix - 1) :: u8) :: u32) = unat (word_of_nat (2 ^ prefix - 1) :: u32)"
      using u p unat_low [of "2 ^ prefix - 1"] unfolding unsigned_ucast_eq u by (simp add: take_bit_nat_eq_self)
  qed
  have m: "(word_of_nat (2 ^ prefix - 1) :: u32) = mask prefix"
    by (simp add: mask_eq_exp_minus_1 of_nat_diff)
  show "ucast b AND ucast (word_of_nat (2 ^ prefix - 1) :: u8) = (word_of_nat (unat b mod 2 ^ prefix) :: u32)"
    unfolding k m take_bit_eq_mask [symmetric]
  proof (rule unsigned_word_eqI)
    have "unat b mod 2 ^ prefix < 256"
      by (rule le_less_trans [OF mod_less_eq_dividend unat_u8_lt])
    then have "unat b mod 2 ^ prefix < 2 ^ 32" by (rule less_trans) simp
    then have "unat (word_of_nat (unat b mod 2 ^ prefix) :: u32) = unat b mod 2 ^ prefix" by (rule unat_low)
    moreover have "unat (take_bit prefix (ucast b :: u32)) = take_bit prefix (take_bit 32 (unat b))"
      by (simp only: unsigned_take_bit_eq unsigned_ucast_eq) simp
    ultimately show "unat (take_bit prefix (ucast b :: u32)) = unat (word_of_nat (unat b mod 2 ^ prefix) :: u32)"
      using assms by (simp add: take_bit_take_bit) (simp add: take_bit_eq_mod)
  qed
qed

lemma decode_length_start:
  assumes p: "0 < prefix" "prefix \<le> 8"
  shows "decode_length 0 0 (b # bs) prefix =
    (let i = unat b mod 2 ^ prefix in
     if i < 2 ^ prefix - 1 then Some (word_of_nat i, 0, True, 1)
     else if bs = [] then Some (word_of_nat (2 ^ prefix - 1), 0, False, 1)
     else decode_groups (word_of_nat (2 ^ prefix - 1)) 0 bs 1)"
proof -
  let ?i = "unat b mod 2 ^ prefix" let ?k = "2 ^ prefix - 1 :: nat"
  have pk: "(2 :: nat) ^ prefix \<le> 2 ^ 8" using p by (intro power_increasing) auto
  have "?i < 2 ^ prefix" by simp
  then have i: "?i \<le> ?k" by linarith
  have "(word_of_nat ?i :: u32) = word_of_nat ?k \<longleftrightarrow> ?i = ?k"
  proof
    assume "(word_of_nat ?i :: u32) = word_of_nat ?k"
    then have "unat (word_of_nat ?i :: u32) = unat (word_of_nat ?k :: u32)" by simp
    then show "?i = ?k" using i pk unat_low [of ?i] unat_low [of ?k] by simp
  qed simp
  then show ?thesis using i prefix_mask [OF p] by (auto simp: decode_length_def Let_def)
qed

section \<open>Round trip and exactness\<close>

lemma encode_group_byte:
  "low7 (0x80 OR (word_of_nat n AND 0x7f)) = n mod 128" "more (0x80 OR (word_of_nat n AND 0x7f))"
proof -
  let ?b = "0x80 OR (word_of_nat n AND 0x7f) :: u8"
  have e: "(0x80 :: u8) = push_bit 7 1" by simp
  have top: "bit (0x80 :: u8) k \<longleftrightarrow> k = 7" for k
    unfolding e bit_push_bit_iff by (auto simp: bit_1_iff)
  have bits: "bit ?b k \<longleftrightarrow> k < 8 \<and> (k = 7 \<or> k < 7 \<and> bit n k)" for k
    unfolding mask_7 bit_or_iff top by (auto simp: bit_and_iff bit_mask_iff bit_of_nat_iff)
  then show "more ?b" using unat_bit7 [of ?b] unfolding more_def by simp
  have "take_bit 7 (unat ?b) = take_bit 7 n"
    by (rule bit_eqI) (auto simp: bit_take_bit_iff bit_unsigned_iff bits)
  then show "low7 ?b = n mod 128" by (simp add: low7_def take_bit_eq_mod)
qed

lemma group_value_encode: "group_value (encode_groups n @ rest) = Some (n, length (encode_groups n))"
proof (induction n rule: less_induct)
  case (less n)
  show ?case
  proof (cases "128 \<le> n")
    case True
    have e: "encode_groups n = (0x80 OR (word_of_nat n AND 0x7f)) # encode_groups (n div 128)"
      using True by (subst encode_groups.simps) simp
    have "group_value (encode_groups (n div 128) @ rest) = Some (n div 128, length (encode_groups (n div 128)))"
      using True by (intro less) simp
    then show ?thesis unfolding e by (simp add: encode_group_byte)
  next
    case False
    then have "unat (word_of_nat n :: u8) = n" by (simp add: unat_of_nat)
    then show ?thesis using False by (simp add: encode_groups.simps [of n] low7_def more_def)
  qed
qed

lemma encode_groups_length: "n < 2 ^ (7 * Suc k) \<Longrightarrow> length (encode_groups n) \<le> Suc k"
proof (induction k arbitrary: n)
  case 0
  then show ?case by (simp add: encode_groups.simps [of n])
next
  case (Suc k)
  have "n div 128 < 2 ^ (7 * Suc k)"
    using Suc.prems by (simp add: less_mult_imp_div_less power_add algebra_simps)
  from Suc.IH [OF this] show ?case by (simp add: encode_groups.simps [of n])
qed

lemma hpack_int_encode:
  assumes "0 < prefix" "prefix \<le> 8"
  shows "hpack_int prefix (encode_length b n prefix @ rest) = Some (n, count_encoded_length n prefix)"
proof -
  let ?k = "2 ^ prefix - 1 :: nat"
  have pk: "(2 :: nat) ^ prefix \<le> 2 ^ 8" using assms by (intro power_increasing) auto
  have m: "(word_of_nat ?k :: u8) = mask prefix" by (simp add: mask_eq_exp_minus_1 of_nat_diff)
  have low: "unat ((b AND NOT (word_of_nat ?k)) OR (word_of_nat m)) mod 2 ^ prefix = m" if "m < 2 ^ prefix" for m
  proof -
    have "take_bit prefix (unat ((b AND NOT (mask prefix)) OR (word_of_nat m :: u8))) = take_bit prefix m"
      using assms by (intro bit_eqI)
        (auto simp: bit_take_bit_iff bit_unsigned_iff bit_or_iff bit_and_iff bit_not_iff bit_mask_iff bit_of_nat_iff)
    then show ?thesis unfolding m using that by (simp add: take_bit_eq_mod)
  qed
  have l: "length (encode_length b n prefix) = count_encoded_length n prefix" by (rule count_encoded_length)
  show ?thesis
  proof (cases "n < ?k")
    case True
    then show ?thesis using l low [of n] by (simp add: encode_length_def Let_def hpack_int_def)
  next
    case False
    then show ?thesis using l low [of ?k] group_value_encode [of "n - ?k" rest]
      by (simp add: encode_length_def Let_def hpack_int_def)
  qed
qed

lemma hpack_int_pos: "hpack_int prefix bs = Some (v, l) \<Longrightarrow> bs \<noteq> [] \<and> 0 < l"
  by (auto simp: hpack_int_def Let_def split: list.splits if_splits)

lemma decode_length_value:
  assumes p: "0 < prefix" "prefix \<le> 8" and h: "hpack_int prefix bs = Some (v, l)"
  shows "decode_length 0 0 bs prefix =
    (if v < 2 ^ 32 \<and> l \<le> 6 then Some (word_of_nat v, 7 * (l - 2), True, l) else None)"
proof -
  obtain b cs where bs: "bs = b # cs" using h by (cases bs) (auto simp: hpack_int_def)
  let ?i = "unat b mod 2 ^ prefix" let ?k = "2 ^ prefix - 1 :: nat"
  have pk: "(2 :: nat) ^ prefix \<le> 2 ^ 8" using p by (intro power_increasing) auto
  have "?i < 2 ^ prefix" by simp
  then have i: "?i \<le> ?k" by linarith
  show ?thesis
  proof (cases "?i < ?k")
    case True
    then have "v = ?i" "l = 1" using h by (auto simp: bs hpack_int_def Let_def)
    moreover have "?i < 2 ^ 32" using i pk by simp
    ultimately show ?thesis using True by (simp add: bs decode_length_start [OF p] Let_def)
  next
    case False
    then have ik: "?i = ?k" using i by simp
    then obtain w j where w: "group_value cs = Some (w, j)" "v = ?k + w" "l = j + 1"
      using h False by (auto simp: bs hpack_int_def Let_def)
    have uk: "unat (word_of_nat ?k :: u32) = ?k" by (rule unat_low) (use pk in simp)
    have "cs \<noteq> []" using w(1) by auto
    then have "decode_length 0 0 bs prefix = decode_groups (word_of_nat ?k) 0 cs 1"
      using False by (simp add: bs decode_length_start [OF p] Let_def)
    then show ?thesis
      unfolding decode_groups_value [OF w(1)] uk using w group_value_pos [OF w(1)] by auto
  qed
qed

lemma decode_length_open:
  assumes p: "0 < prefix" "prefix \<le> 8" and h: "hpack_int prefix bs = None" "bs \<noteq> []"
    and d: "decode_length 0 0 bs prefix = Some (r, s, fin, l)"
  shows "\<not> fin \<and> l = length bs \<and> r \<noteq> 0"
proof -
  obtain b cs where bs: "bs = b # cs" using h by (cases bs) auto
  let ?i = "unat b mod 2 ^ prefix" let ?k = "2 ^ prefix - 1 :: nat"
  have pk: "(2 :: nat) ^ prefix \<le> 2 ^ 8" using p by (intro power_increasing) auto
  have "(2 :: nat) ^ 1 \<le> 2 ^ prefix" using p by (intro power_increasing) auto
  then have k0: "0 < ?k" by simp
  have uk: "unat (word_of_nat ?k :: u32) = ?k" by (rule unat_low) (use pk in simp)
  have n: "\<not> ?i < ?k" and g: "group_value cs = None" using h by (auto simp: bs hpack_int_def Let_def split: if_splits)
  show ?thesis
  proof (cases "cs = []")
    case True
    then show ?thesis using d n uk k0 by (auto simp: bs decode_length_start [OF p] Let_def)
  next
    case False
    then have "decode_groups (word_of_nat ?k) 0 cs 1 = Some (r, s, fin, l)"
      using d n by (simp add: bs decode_length_start [OF p] Let_def)
    from decode_groups_open [OF g this] show ?thesis using uk k0 by (auto simp: bs)
  qed
qed

lemma encode_length_decode:
  assumes "0 < prefix" "prefix \<le> 8" "n < 2 ^ 32"
  shows "decode_length 0 0 (encode_length b n prefix @ rest) prefix =
    Some (word_of_nat n, 7 * (count_encoded_length n prefix - 2), True, count_encoded_length n prefix)"
    and "count_encoded_length n prefix \<le> 6"
proof -
  have "count_encoded_length n prefix = length (encode_length 0 n prefix)" by (simp add: count_encoded_length)
  also have "\<dots> \<le> 6"
  proof -
    have "n - (2 ^ prefix - 1) < 2 ^ (7 * Suc 4)" using assms by simp
    then have "length (encode_groups (n - (2 ^ prefix - 1))) \<le> Suc 4" by (rule encode_groups_length)
    then show ?thesis by (simp add: encode_length_def Let_def)
  qed
  finally show l: "count_encoded_length n prefix \<le> 6" .
  show "decode_length 0 0 (encode_length b n prefix @ rest) prefix =
    Some (word_of_nat n, 7 * (count_encoded_length n prefix - 2), True, count_encoded_length n prefix)"
    using decode_length_value [OF assms(1,2) hpack_int_encode [OF assms(1,2), of b n rest]] assms(3) l by simp
qed

lemma decode_groups_append:
  "decode_groups n shift (xs @ ys) c =
     (case decode_groups n shift xs c of
        None \<Rightarrow> None
      | Some (r, s, fin, c') \<Rightarrow> if fin then Some (r, s, fin, c') else decode_groups r s ys c')"
proof (induction xs arbitrary: n shift c)
  case Nil
  then show ?case by simp
next
  case (Cons b xs)
  then show ?case by (auto simp: decode_groups_Cons Let_def split: option.splits)
qed

lemma decode_groups_count:
  "decode_groups n shift xs (c + d) = map_option (\<lambda>(r, s, fin, c'). (r, s, fin, c' + d)) (decode_groups n shift xs c)"
proof (induction xs arbitrary: n shift c)
  case Nil
  then show ?case by simp
next
  case (Cons b xs)
  have "c + d + 1 = (c + 1) + d" by simp
  then show ?case unfolding decode_groups_Cons Let_def by (simp only: Cons.IH) simp
qed

text \<open>The decoder reads at least one byte of a non-empty range and never beyond its end.\<close>

lemma decode_groups_read:
  "decode_groups n shift bs c = Some (r, s, fin, c') \<Longrightarrow> c \<le> c' \<and> c' \<le> c + length bs \<and> (bs \<noteq> [] \<longrightarrow> c < c')"
proof (induction bs arbitrary: n shift c)
  case (Cons b bs)
  then show ?case by (fastforce simp: decode_groups_Cons Let_def split: if_splits)
qed simp

lemma decode_length_read:
  assumes "decode_length initial shift bs prefix = Some (r, s, fin, c)" "bs \<noteq> []"
  shows "0 < c \<and> c \<le> length bs"
proof -
  obtain b cs where bs: "bs = b # cs" using assms(2) by (cases bs) auto
  show ?thesis using assms(1) decode_groups_read
    by (fastforce simp: bs decode_length_def Let_def split: if_splits)
qed

text \<open>An integer may arrive in pieces.\<close>

lemma decode_groups_more:
  "decode_groups n shift bs c = Some (r, s, False, c') \<Longrightarrow> c' = c + length bs \<and> unat n \<le> unat r"
proof (induction bs arbitrary: n shift c)
  case (Cons b bs)
  let ?m = "unat n + low7 b * 2 ^ shift"
  from Cons.prems have ok: "?m < 2 ^ 32"
    and d: "decode_groups (word_of_nat ?m) (shift + 7) bs (c + 1) = Some (r, s, False, c')"
    by (auto simp: decode_groups_Cons Let_def split: if_splits)
  show ?case using Cons.IH [OF d] unat_low [OF ok] by simp
qed simp

lemma decode_groups_mono: "decode_groups n shift bs c = Some (r, s, fin, c') \<Longrightarrow> unat n \<le> unat r"
proof (induction bs arbitrary: n shift c)
  case (Cons b bs)
  let ?m = "unat n + low7 b * 2 ^ shift"
  from Cons.prems have ok: "?m < 2 ^ 32"
    and d: "decode_groups (word_of_nat ?m) (shift + 7) bs (c + 1) = Some (r, s, fin, c') \<or> r = word_of_nat ?m"
    by (auto simp: decode_groups_Cons Let_def split: if_splits)
  from d show ?case
  proof
    assume "decode_groups (word_of_nat ?m) (shift + 7) bs (c + 1) = Some (r, s, fin, c')"
    from Cons.IH [OF this] show ?thesis unfolding unat_low [OF ok] by linarith
  next
    assume "r = word_of_nat ?m"
    then have "unat r = ?m" using unat_low [OF ok] by (simp only:)
    then show ?thesis by linarith
  qed
qed simp

lemma decode_length_mono:
  "decode_length initial shift bs prefix = Some (r, s, fin, c) \<Longrightarrow> initial \<noteq> 0 \<Longrightarrow> unat initial \<le> unat r"
  using decode_groups_mono by (auto simp: decode_length_def Let_def)

lemma decode_length_more:
  assumes "decode_length initial shift bs prefix = Some (r, s, False, c)" "bs \<noteq> []" "0 < prefix" "prefix \<le> 8"
  shows "c = length bs \<and> r \<noteq> 0"
proof -
  obtain b cs where bs: "bs = b # cs" using assms(2) by (cases bs) auto
  let ?k = "2 ^ prefix - 1 :: nat"
  have pk: "(2 :: nat) ^ prefix \<le> 2 ^ 8" using assms by (intro power_increasing) auto
  have "(2 :: nat) ^ 1 \<le> 2 ^ prefix" using assms by (intro power_increasing) auto
  then have k0: "0 < ?k" by simp
  have uk: "unat (word_of_nat ?k :: u32) = ?k" by (rule unat_low) (use pk in simp)
  have nz: "unat r \<noteq> 0 \<Longrightarrow> r \<noteq> 0" by auto
  show ?thesis
  proof (cases "initial = 0")
    case True
    then show ?thesis using assms(1) uk k0 decode_groups_more [of "word_of_nat ?k" shift cs 1 r s c]
      unfolding decode_length_def bs prefix_mask(2) [OF assms(3,4)] by (auto simp: Let_def split: if_splits)
  next
    case False
    then have "0 < unat initial" by (simp add: unat_gt_0)
    then show ?thesis using assms(1) False decode_groups_more [of initial shift bs 0 r s c]
      by (auto simp: decode_length_def Let_def)
  qed
qed

lemma decode_length_append:
  assumes "xs \<noteq> []" "ys \<noteq> []" "0 < prefix" "prefix \<le> 8" "initial = 0 \<longrightarrow> shift = 0"
  shows "decode_length initial shift (xs @ ys) prefix =
    (case decode_length initial shift xs prefix of
       None \<Rightarrow> None
     | Some (r, s, fin, c) \<Rightarrow>
         if fin then Some (r, s, fin, c)
         else map_option (\<lambda>(r', s', f', c'). (r', s', f', c' + c)) (decode_length r s ys prefix))"
proof -
  obtain b cs where xs: "xs = b # cs" using assms(1) by (cases xs) auto
  have cont: "decode_groups r s ys c = map_option (\<lambda>(r', s', f', c'). (r', s', f', c' + c)) (decode_length r s ys prefix)"
    if "r \<noteq> 0" for r s c
    using that decode_groups_count [of r s ys 0 c] by (simp add: decode_length_def Let_def)
  have open_nz: "r \<noteq> 0" if "decode_length initial shift xs prefix = Some (r, s, False, c)" for r s c
    using decode_length_more [OF that assms(1,3,4)] by simp
  show ?thesis
  proof (cases "initial = 0")
    case False
    have "decode_length initial shift (xs @ ys) prefix = decode_groups initial shift (xs @ ys) 0"
      "decode_length initial shift xs prefix = decode_groups initial shift xs 0"
      using False by (simp_all add: decode_length_def Let_def)
    then show ?thesis using open_nz cont by (auto simp: decode_groups_append split: option.splits prod.splits)
  next
    case True
    let ?k = "ucast (word_of_nat (2 ^ prefix - 1) :: u8) :: u32"
    show ?thesis
    proof (cases "ucast b AND ?k \<noteq> ?k")
      case t: True
      then show ?thesis using True by (simp add: decode_length_def xs Let_def)
    next
      case False
      have w: "decode_length initial shift (xs @ ys) prefix = decode_groups ?k 0 (cs @ ys) 1"
        using True False assms(2,5) by (simp add: decode_length_def xs Let_def)
      have "decode_length initial shift xs prefix = decode_groups ?k 0 cs 1"
        using True False assms(5) by (simp add: decode_length_def xs Let_def)
      then show ?thesis unfolding w using open_nz cont by (auto simp: decode_groups_append split: option.splits prod.splits)
    qed
  qed
qed

text \<open>
  C6. The prefixed integers of HPACK. An integer below \<open>2 ^ 32\<close> is written in at most six bytes,
  as many as the size function announces, and is read back from the front of any buffer that
  starts with it. The decoder completes exactly on the representations of RFC 7541 section 5.1
  that are at most six bytes long and denote a value below \<open>2 ^ 32\<close>, with that value and that
  length, and it rejects every other complete representation: no addition, shift or
  subtraction of the 32-bit code wraps around unnoticed.
\<close>

theorem decode_length_exact:
  assumes "0 < prefix" "prefix \<le> 8"
  shows "(\<forall>n < 2 ^ 32. \<exists>s. decode_length 0 0 (encode_length b n prefix @ rest) prefix =
            Some (word_of_nat n, s, True, length (encode_length b n prefix)) \<and>
          length (encode_length b n prefix) = count_encoded_length n prefix \<and>
          count_encoded_length n prefix \<le> 6) \<and>
    (bs \<noteq> [] \<longrightarrow> ((\<exists>s. decode_length 0 0 bs prefix = Some (r, s, True, l)) \<longleftrightarrow>
       hpack_int prefix bs = Some (unat r, l) \<and> l \<le> 6)) \<and>
    (bs \<noteq> [] \<longrightarrow> decode_length 0 0 bs prefix = None \<longrightarrow>
       (\<forall>v j. hpack_int prefix bs = Some (v, j) \<longrightarrow> 2 ^ 32 \<le> v \<or> 6 < j))"
proof (intro conjI)
  show "\<forall>n < 2 ^ 32. \<exists>s. decode_length 0 0 (encode_length b n prefix @ rest) prefix =
            Some (word_of_nat n, s, True, length (encode_length b n prefix)) \<and>
          length (encode_length b n prefix) = count_encoded_length n prefix \<and>
          count_encoded_length n prefix \<le> 6"
    using encode_length_decode [OF assms] by (simp add: count_encoded_length)
  have r: "unat r < 2 ^ 32" using unsigned_less [of r] by simp
  show "bs \<noteq> [] \<longrightarrow> ((\<exists>s. decode_length 0 0 bs prefix = Some (r, s, True, l)) \<longleftrightarrow>
       hpack_int prefix bs = Some (unat r, l) \<and> l \<le> 6)"
  proof (cases "hpack_int prefix bs")
    case None
    then show ?thesis using decode_length_open [OF assms None] by auto
  next
    case (Some p)
    obtain v j where p: "p = (v, j)" by force
    from Some have "decode_length 0 0 bs prefix =
        (if v < 2 ^ 32 \<and> j \<le> 6 then Some (word_of_nat v, 7 * (j - 2), True, j) else None)"
      unfolding p by (rule decode_length_value [OF assms])
    moreover have "v < 2 ^ 32 \<Longrightarrow> word_of_nat v = r \<longleftrightarrow> v = unat r" using unat_low [of v] by auto
    ultimately show ?thesis using Some r unfolding p by (auto split: if_splits)
  qed
  show "bs \<noteq> [] \<longrightarrow> decode_length 0 0 bs prefix = None \<longrightarrow>
       (\<forall>v j. hpack_int prefix bs = Some (v, j) \<longrightarrow> 2 ^ 32 \<le> v \<or> 6 < j)"
    using decode_length_value [OF assms] by (auto split: if_splits)
qed

theorem decode_length_exact_witness:
  "hpack_int 5 [0x1f, 0x9a, 0x0a] = Some (1337, 3) \<and>
   (\<exists>s. decode_length 0 0 [0x1f, 0x9a, 0x0a] 5 = Some (1337, s, True, 3))"
proof -
  have v: "hpack_int 5 [0x1f, 0x9a, 0x0a] = Some (1337, 3)" by code_simp
  moreover have "(unat (1337 :: u32)) = 1337" by simp
  ultimately show ?thesis
    using decode_length_exact [of 5 0 "[]" "[0x1f, 0x9a, 0x0a]" 1337 3] by auto
qed
end
