(* ===== verification/Nghttp2_Hd_Inflate.thy ===== *)
theory Nghttp2_Hd_Inflate
  imports Nghttp2_Hd_Table Nghttp2_Hd_Int Nghttp2_Huffman
begin

text \<open>
  The decompressor of HPACK, from \<open>src/src/nghttp2/lib/nghttp2_hd.c\<close>: a state machine that
  consumes a header block in pieces of any length. Each case of the switch statement in
  \<open>nghttp2_hd_inflate_hd_nv\<close> is a definition that returns how the loop goes on; the loop and the
  code behind its labels follow. The position \<open>in\<close> is the list of the bytes from it to \<open>last\<close>. The
  result \<open>None\<close> stands for a failed assertion, a read beyond the input, or a write beyond the end
  of a buffer.
\<close>

unbundle bit_operations_syntax

section \<open>The inflater\<close>

datatype nghttp2_hd_opcode = OPCODE_NONE | OPCODE_INDEXED | OPCODE_NEWNAME | OPCODE_INDNAME

datatype nghttp2_hd_inflate_state =
    STATE_EXPECT_TABLE_SIZE | STATE_INFLATE_START | STATE_OPCODE | STATE_READ_TABLE_SIZE | STATE_READ_INDEX
  | STATE_NEWNAME_CHECK_NAMELEN | STATE_NEWNAME_READ_NAMELEN | STATE_NEWNAME_READ_NAMEHUFF
  | STATE_NEWNAME_READ_NAME | STATE_CHECK_VALUELEN | STATE_READ_VALUELEN | STATE_READ_VALUEHUFF | STATE_READ_VALUE

text \<open>
  The buffers \<open>namebuf\<close> and \<open>valuebuf\<close> wrap the memory of \<open>namercbuf\<close> and \<open>valuercbuf\<close>; of these
  two, the model keeps the member \<open>len\<close>, and \<open>None\<close> is the null pointer.
\<close>

record nghttp2_hd_inflater =
  if_ctx :: nghttp2_hd_context
  huff_decode_ctx :: nghttp2_hd_huff_decode_context
  namebuf :: nghttp2_buf
  valuebuf :: nghttp2_buf
  namercbuf :: "nat option"
  valuercbuf :: "nat option"
  nv_name_keep :: "bytes option"
  nv_value_keep :: "bytes option"
  if_left :: nat
  if_index :: nat
  settings_hd_table_bufsize_max :: nat
  if_min_hd_table_bufsize_max :: nat
  if_shift :: nat
  if_opcode :: nghttp2_hd_opcode
  if_state :: nghttp2_hd_inflate_state
  huffman_encoded :: bool
  index_required :: bool
  no_index :: bool

definition NGHTTP2_HD_MAX_NV :: nat where "NGHTTP2_HD_MAX_NV = 65536"

definition INFLATE_UINT32_MAX :: nat where "INFLATE_UINT32_MAX = 2 ^ 32 - 1"

text \<open>The Huffman context is not set by the initialisation; it is set before it is used.\<close>

definition nghttp2_hd_inflate_init :: "nghttp2_mem \<Rightarrow> nghttp2_hd_inflater res" where
  "nghttp2_hd_inflate_init mem =
     (case hd_context_init mem of
        Inl e \<Rightarrow> Inl e
      | Inr ctx \<Rightarrow>
          Inr \<lparr>if_ctx = ctx, huff_decode_ctx = nghttp2_hd_huff_decode_context_init,
               namebuf = nghttp2_buf_init, valuebuf = nghttp2_buf_init, namercbuf = None, valuercbuf = None,
               nv_name_keep = None, nv_value_keep = None, if_left = 0, if_index = 0,
               settings_hd_table_bufsize_max = NGHTTP2_HD_DEFAULT_MAX_BUFFER_SIZE,
               if_min_hd_table_bufsize_max = INFLATE_UINT32_MAX, if_shift = 0, if_opcode = OPCODE_NONE,
               if_state = STATE_INFLATE_START, huffman_encoded = False, index_required = False, no_index = False\<rparr>)"

definition nghttp2_hd_inflate_new2 :: "nghttp2_mem \<Rightarrow> nghttp2_hd_inflater res" where
  "nghttp2_hd_inflate_new2 mem =
     (let (ok, mem) = mem_alloc mem in if \<not> ok then Inl ERR_NOMEM else nghttp2_hd_inflate_init mem)"

definition hd_inflate_keep_free :: "nghttp2_hd_inflater \<Rightarrow> nghttp2_hd_inflater" where
  "hd_inflate_keep_free ifl = ifl\<lparr>nv_value_keep := None, nv_name_keep := None\<rparr>"

definition nghttp2_hd_inflate_change_table_size ::
  "nghttp2_hd_inflater \<Rightarrow> nat \<Rightarrow> (unit res \<times> nghttp2_hd_inflater) option" where
  "nghttp2_hd_inflate_change_table_size ifl settings_max =
     (if if_state ifl \<noteq> STATE_EXPECT_TABLE_SIZE \<and> if_state ifl \<noteq> STATE_INFLATE_START
      then Some (Inl ERR_INVALID_STATE, ifl)
      else
        let ifl = ifl\<lparr>settings_hd_table_bufsize_max := settings_max\<rparr> in
        if settings_max < hd_table_bufsize_max (if_ctx ifl) then
          (case hd_context_shrink_table_size ((if_ctx ifl)\<lparr>hd_table_bufsize_max := settings_max\<rparr>) None of
             None \<Rightarrow> None
           | Some (ctx, _) \<Rightarrow>
               Some (Inr (), ifl\<lparr>if_state := STATE_EXPECT_TABLE_SIZE, if_min_hd_table_bufsize_max := settings_max,
                                 if_ctx := ctx\<rparr>))
        else Some (Inr (), ifl))"

section \<open>Reading\<close>

definition hd_inflate_set_huffman_encoded :: "nghttp2_hd_inflater \<Rightarrow> u8 \<Rightarrow> nghttp2_hd_inflater" where
  "hd_inflate_set_huffman_encoded ifl b = ifl\<lparr>huffman_encoded := (b AND 0x80 \<noteq> 0)\<rparr>"

text \<open>The result is the number of bytes read and whether the integer is complete.\<close>

definition hd_inflate_read_len ::
  "nghttp2_hd_inflater \<Rightarrow> bytes \<Rightarrow> nat \<Rightarrow> nat \<Rightarrow> ((nat \<times> bool) res \<times> nghttp2_hd_inflater) option" where
  "hd_inflate_read_len ifl bs prefix maxlen =
     (if bs = [] then None
      else case decode_length (word_of_nat (if_left ifl)) (if_shift ifl) bs prefix of
          None \<Rightarrow> Some (Inl ERR_HEADER_COMP, ifl\<lparr>if_shift := 0\<rparr>)
        | Some (out, shift, fin, n) \<Rightarrow>
            let ifl = ifl\<lparr>if_shift := shift\<rparr> in
            if maxlen < unat out then Some (Inl ERR_HEADER_COMP, ifl)
            else Some (Inr (n, fin), ifl\<lparr>if_left := unat out\<rparr>))"

definition hd_inflate_read_huff ::
  "nghttp2_hd_inflater \<Rightarrow> nghttp2_buf \<Rightarrow> bytes \<Rightarrow> (nat res \<times> nghttp2_hd_inflater \<times> nghttp2_buf) option" where
  "hd_inflate_read_huff ifl buf bs =
     (let (src, fin) = (if if_left ifl \<le> length bs then (take (if_left ifl) bs, True) else (bs, False)) in
      case nghttp2_hd_huff_decode (huff_decode_ctx ifl) buf src fin of
        None \<Rightarrow> None
      | Some (r, hctx, buf) \<Rightarrow>
          let ifl = ifl\<lparr>huff_decode_ctx := hctx\<rparr> in
          Some (case r of
              Inl e \<Rightarrow> (Inl e, ifl, buf)
            | Inr readlen \<Rightarrow>
                if nghttp2_hd_huff_decode_failure_state hctx then (Inl ERR_HEADER_COMP, ifl, buf)
                else (Inr readlen, ifl\<lparr>if_left := if_left ifl - readlen\<rparr>, buf)))"

definition hd_inflate_read ::
  "nghttp2_hd_inflater \<Rightarrow> nghttp2_buf \<Rightarrow> bytes \<Rightarrow> (nat \<times> nghttp2_hd_inflater \<times> nghttp2_buf) option" where
  "hd_inflate_read ifl buf bs =
     (let len = min (length bs) (if_left ifl) in
      if nghttp2_buf_avail buf < len then None
      else Some (len, ifl\<lparr>if_left := if_left ifl - len\<rparr>, buf_write (take len bs) buf))"

text \<open>\<open>*buf.last = '\0'\<close>, and the content that the reference counted buffer then has.\<close>

definition buf_terminate :: "nghttp2_buf \<Rightarrow> nghttp2_buf option" where
  "buf_terminate buf = (if last buf < length (arr buf) then Some (buf\<lparr>arr := (arr buf)[last buf := 0]\<rparr>) else None)"

definition rc_content :: "nat option \<Rightarrow> nghttp2_buf \<Rightarrow> bytes option" where
  "rc_content rc buf = map_option (\<lambda>len. take len (arr buf)) rc"

section \<open>Committing a header field\<close>

definition emit_header :: "nghttp2_hd_nv \<Rightarrow> nghttp2_hd_nv" where
  "emit_header nv = nv"

definition hd_inflate_commit_indexed :: "nghttp2_hd_inflater \<Rightarrow> nghttp2_hd_nv option" where
  "hd_inflate_commit_indexed ifl = map_option emit_header (nghttp2_hd_table_get (if_ctx ifl) (if_index ifl))"

definition inflate_nv_flags :: "nghttp2_hd_inflater \<Rightarrow> u8" where
  "inflate_nv_flags ifl = (if no_index ifl then NGHTTP2_NV_FLAG_NO_INDEX else NGHTTP2_NV_FLAG_NONE)"

definition hd_inflate_commit_newname ::
  "nghttp2_hd_inflater \<Rightarrow> (nghttp2_hd_nv res \<times> nghttp2_hd_inflater) option" where
  "hd_inflate_commit_newname ifl =
     do {
       name \<leftarrow> rc_content (namercbuf ifl) (namebuf ifl);
       val \<leftarrow> rc_content (valuercbuf ifl) (valuebuf ifl);
       let nv = \<lparr>hn_name = name, hn_value = val, hn_token = lookup_token name, hn_flags = inflate_nv_flags ifl\<rparr>;
       (r, ctx, _) \<leftarrow> (if index_required ifl then add_hd_table_incremental (if_ctx ifl) nv None 0
                       else Some (Inr (), if_ctx ifl, None));
       let ifl = ifl\<lparr>if_ctx := ctx\<rparr>;
       (case r of
          Inl e \<Rightarrow> Some (Inl e, ifl)
        | Inr _ \<Rightarrow> Some (Inr (emit_header nv),
            ifl\<lparr>nv_name_keep := Some (hn_name nv), nv_value_keep := Some (hn_value nv),
                namercbuf := None, valuercbuf := None\<rparr>))
     }"

definition hd_inflate_commit_indname ::
  "nghttp2_hd_inflater \<Rightarrow> (nghttp2_hd_nv res \<times> nghttp2_hd_inflater) option" where
  "hd_inflate_commit_indname ifl =
     do {
       nv \<leftarrow> nghttp2_hd_table_get (if_ctx ifl) (if_index ifl);
       val \<leftarrow> rc_content (valuercbuf ifl) (valuebuf ifl);
       let nv = nv\<lparr>hn_flags := inflate_nv_flags ifl, hn_value := val\<rparr>;
       (r, ctx, _) \<leftarrow> (if index_required ifl then add_hd_table_incremental (if_ctx ifl) nv None 0
                       else Some (Inr (), if_ctx ifl, None));
       let ifl = ifl\<lparr>if_ctx := ctx\<rparr>;
       (case r of
          Inl e \<Rightarrow> Some (Inl ERR_NOMEM, ifl)
        | Inr _ \<Rightarrow> Some (Inr (emit_header nv),
            ifl\<lparr>nv_name_keep := Some (hn_name nv), nv_value_keep := Some (hn_value nv), valuercbuf := None\<rparr>))
     }"

section \<open>The cases of the state machine\<close>

text \<open>
  How a case ends: \<open>break\<close> with the new position and the flag \<open>busy\<close>; \<open>goto almost_ok\<close>; the
  return of an emitted field; \<open>goto fail\<close>.
\<close>

datatype inflate_outcome =
    Break nghttp2_hd_inflater bytes bool
  | Almost_ok nghttp2_hd_inflater bytes
  | Emitted nghttp2_hd_inflater bytes nghttp2_hd_nv
  | Failed nghttp2_error nghttp2_hd_inflater

definition inflate_opcode :: "nghttp2_hd_inflater \<Rightarrow> bytes \<Rightarrow> inflate_outcome option" where
  "inflate_opcode ifl bs =
     (case bs of
        [] \<Rightarrow> None
      | b # rest \<Rightarrow>
          Some (if if_state ifl = STATE_EXPECT_TABLE_SIZE \<and> b AND 0xe0 \<noteq> 0x20 then Failed ERR_HEADER_COMP ifl
            else if b AND 0xe0 = 0x20 then
              (if if_state ifl = STATE_OPCODE then Failed ERR_HEADER_COMP ifl
               else Break (ifl\<lparr>if_opcode := OPCODE_INDEXED, if_state := STATE_READ_TABLE_SIZE,
                               if_left := 0, if_shift := 0\<rparr>) bs False)
            else if b AND 0x80 \<noteq> 0 then
              Break (ifl\<lparr>if_opcode := OPCODE_INDEXED, if_state := STATE_READ_INDEX, if_left := 0, if_shift := 0\<rparr>) bs False
            else
              let ifl = (if b = 0x40 \<or> b = 0 \<or> b = 0x10
                         then ifl\<lparr>if_opcode := OPCODE_NEWNAME, if_state := STATE_NEWNAME_CHECK_NAMELEN\<rparr>
                         else ifl\<lparr>if_opcode := OPCODE_INDNAME, if_state := STATE_READ_INDEX\<rparr>);
                  ifl = ifl\<lparr>index_required := (b AND 0x40 \<noteq> 0), no_index := (b AND 0xf0 = 0x10)\<rparr>;
                  bs = (if if_opcode ifl = OPCODE_NEWNAME then rest else bs)
              in Break (ifl\<lparr>if_left := 0, if_shift := 0\<rparr>) bs False))"

definition inflate_read_table_size :: "nghttp2_hd_inflater \<Rightarrow> bytes \<Rightarrow> inflate_outcome option" where
  "inflate_read_table_size ifl bs =
     (case hd_inflate_read_len ifl bs 5 (min (if_min_hd_table_bufsize_max ifl) (settings_hd_table_bufsize_max ifl)) of
        None \<Rightarrow> None
      | Some (Inl e, ifl) \<Rightarrow> Some (Failed e ifl)
      | Some (Inr (n, fin), ifl) \<Rightarrow>
          let bs = drop n bs in
          if \<not> fin then Some (Almost_ok ifl bs)
          else
            let ifl = ifl\<lparr>if_min_hd_table_bufsize_max := INFLATE_UINT32_MAX\<rparr> in
            (case hd_context_shrink_table_size ((if_ctx ifl)\<lparr>hd_table_bufsize_max := if_left ifl\<rparr>) None of
               None \<Rightarrow> None
             | Some (ctx, _) \<Rightarrow> Some (Break (ifl\<lparr>if_ctx := ctx, if_state := STATE_INFLATE_START\<rparr>) bs False)))"

definition inflate_read_index :: "nghttp2_hd_inflater \<Rightarrow> bytes \<Rightarrow> inflate_outcome option" where
  "inflate_read_index ifl bs =
     (let prefixlen = (if if_opcode ifl = OPCODE_INDEXED then 7 else if index_required ifl then 6 else 4) in
      case hd_inflate_read_len ifl bs prefixlen (get_max_index (if_ctx ifl)) of
        None \<Rightarrow> None
      | Some (Inl e, ifl) \<Rightarrow> Some (Failed e ifl)
      | Some (Inr (n, fin), ifl) \<Rightarrow>
          let bs = drop n bs in
          if \<not> fin then Some (Almost_ok ifl bs)
          else if if_left ifl = 0 then Some (Failed ERR_HEADER_COMP ifl)
          else
            let ifl = ifl\<lparr>if_index := if_left ifl - 1\<rparr> in
            if if_opcode ifl = OPCODE_INDEXED then
              map_option (\<lambda>nv. Emitted (ifl\<lparr>if_state := STATE_OPCODE\<rparr>) bs nv) (hd_inflate_commit_indexed ifl)
            else Some (Break (ifl\<lparr>if_state := STATE_CHECK_VALUELEN\<rparr>) bs False))"

text \<open>\<open>nghttp2_rcbuf_new\<close> and \<open>nghttp2_buf_wrap_init\<close>; zeros stand for what the allocator leaves.\<close>

definition inflate_alloc :: "nghttp2_hd_inflater \<Rightarrow> nat \<Rightarrow> nghttp2_buf res \<times> nghttp2_hd_inflater" where
  "inflate_alloc ifl sz =
     (let (ok, mem) = mem_alloc (hd_mem (if_ctx ifl)); ifl = ifl\<lparr>if_ctx := (if_ctx ifl)\<lparr>hd_mem := mem\<rparr>\<rparr> in
      (if ok then Inr (nghttp2_buf_wrap_init (replicate sz 0)) else Inl ERR_NOMEM, ifl))"

definition inflate_read_namelen :: "nghttp2_hd_inflater \<Rightarrow> bytes \<Rightarrow> inflate_outcome option" where
  "inflate_read_namelen ifl bs =
     (case hd_inflate_read_len ifl bs 7 NGHTTP2_HD_MAX_NV of
        None \<Rightarrow> None
      | Some (Inl e, ifl) \<Rightarrow> Some (Failed e ifl)
      | Some (Inr (n, fin), ifl) \<Rightarrow>
          let bs = drop n bs in
          if \<not> fin then Some (Almost_ok ifl bs)
          else
            let (sz, ifl) =
              (if huffman_encoded ifl
               then (nghttp2_huff_estimate_decode_length (if_left ifl) + 1,
                     ifl\<lparr>huff_decode_ctx := nghttp2_hd_huff_decode_context_init, if_state := STATE_NEWNAME_READ_NAMEHUFF\<rparr>)
               else (if_left ifl + 1, ifl\<lparr>if_state := STATE_NEWNAME_READ_NAME\<rparr>))
            in
              case inflate_alloc ifl sz of
                (Inl e, ifl) \<Rightarrow> Some (Failed e ifl)
              | (Inr buf, ifl) \<Rightarrow> Some (Break (ifl\<lparr>namercbuf := Some sz, namebuf := buf\<rparr>) bs False))"

definition inflate_check_namelen :: "nghttp2_hd_inflater \<Rightarrow> bytes \<Rightarrow> inflate_outcome option" where
  "inflate_check_namelen ifl bs =
     (case bs of
        [] \<Rightarrow> None
      | b # _ \<Rightarrow>
          inflate_read_namelen
            ((hd_inflate_set_huffman_encoded ifl b)
               \<lparr>if_state := STATE_NEWNAME_READ_NAMELEN, if_left := 0, if_shift := 0\<rparr>) bs)"

definition inflate_name_done :: "nghttp2_hd_inflater \<Rightarrow> nghttp2_buf \<Rightarrow> bytes \<Rightarrow> inflate_outcome option" where
  "inflate_name_done ifl buf bs =
     (if if_left ifl \<noteq> 0 then Some (Almost_ok (ifl\<lparr>namebuf := buf\<rparr>) bs)
      else case buf_terminate buf of
          None \<Rightarrow> None
        | Some buf \<Rightarrow>
            Some (Break (ifl\<lparr>namebuf := buf, namercbuf := Some (nghttp2_buf_len buf),
                             if_state := STATE_CHECK_VALUELEN\<rparr>) bs False))"

definition inflate_read_namehuff :: "nghttp2_hd_inflater \<Rightarrow> bytes \<Rightarrow> inflate_outcome option" where
  "inflate_read_namehuff ifl bs =
     (case hd_inflate_read_huff ifl (namebuf ifl) bs of
        None \<Rightarrow> None
      | Some (Inl e, ifl, buf) \<Rightarrow> Some (Failed e (ifl\<lparr>namebuf := buf\<rparr>))
      | Some (Inr n, ifl, buf) \<Rightarrow> inflate_name_done ifl buf (drop n bs))"

definition inflate_read_name :: "nghttp2_hd_inflater \<Rightarrow> bytes \<Rightarrow> inflate_outcome option" where
  "inflate_read_name ifl bs =
     (case hd_inflate_read ifl (namebuf ifl) bs of
        None \<Rightarrow> None
      | Some (n, ifl, buf) \<Rightarrow> inflate_name_done ifl buf (drop n bs))"

definition inflate_read_valuelen :: "nghttp2_hd_inflater \<Rightarrow> bytes \<Rightarrow> inflate_outcome option" where
  "inflate_read_valuelen ifl bs =
     (case hd_inflate_read_len ifl bs 7 NGHTTP2_HD_MAX_NV of
        None \<Rightarrow> None
      | Some (Inl e, ifl) \<Rightarrow> Some (Failed e ifl)
      | Some (Inr (n, fin), ifl) \<Rightarrow>
          let bs = drop n bs in
          if \<not> fin then Some (Almost_ok ifl bs)
          else
            let (sz, ifl) =
              (if huffman_encoded ifl
               then (nghttp2_huff_estimate_decode_length (if_left ifl) + 1,
                     ifl\<lparr>huff_decode_ctx := nghttp2_hd_huff_decode_context_init, if_state := STATE_READ_VALUEHUFF\<rparr>)
               else (if_left ifl + 1, ifl\<lparr>if_state := STATE_READ_VALUE\<rparr>))
            in
              case inflate_alloc ifl sz of
                (Inl e, ifl) \<Rightarrow> Some (Failed e ifl)
              | (Inr buf, ifl) \<Rightarrow> Some (Break (ifl\<lparr>valuercbuf := Some sz, valuebuf := buf\<rparr>) bs True))"

definition inflate_check_valuelen :: "nghttp2_hd_inflater \<Rightarrow> bytes \<Rightarrow> inflate_outcome option" where
  "inflate_check_valuelen ifl bs =
     (case bs of
        [] \<Rightarrow> None
      | b # _ \<Rightarrow>
          inflate_read_valuelen
            ((hd_inflate_set_huffman_encoded ifl b)\<lparr>if_state := STATE_READ_VALUELEN, if_left := 0, if_shift := 0\<rparr>) bs)"

definition inflate_value_done :: "nghttp2_hd_inflater \<Rightarrow> nghttp2_buf \<Rightarrow> bytes \<Rightarrow> inflate_outcome option" where
  "inflate_value_done ifl buf bs =
     (if if_left ifl \<noteq> 0 then Some (Almost_ok (ifl\<lparr>valuebuf := buf\<rparr>) bs)
      else case buf_terminate buf of
          None \<Rightarrow> None
        | Some buf \<Rightarrow>
            let ifl = ifl\<lparr>valuebuf := buf, valuercbuf := Some (nghttp2_buf_len buf)\<rparr> in
            case (if if_opcode ifl = OPCODE_NEWNAME then hd_inflate_commit_newname ifl else hd_inflate_commit_indname ifl) of
              None \<Rightarrow> None
            | Some (Inl e, ifl) \<Rightarrow> Some (Failed e ifl)
            | Some (Inr nv, ifl) \<Rightarrow> Some (Emitted (ifl\<lparr>if_state := STATE_OPCODE\<rparr>) bs nv))"

definition inflate_read_valuehuff :: "nghttp2_hd_inflater \<Rightarrow> bytes \<Rightarrow> inflate_outcome option" where
  "inflate_read_valuehuff ifl bs =
     (case hd_inflate_read_huff ifl (valuebuf ifl) bs of
        None \<Rightarrow> None
      | Some (Inl e, ifl, buf) \<Rightarrow> Some (Failed e (ifl\<lparr>valuebuf := buf\<rparr>))
      | Some (Inr n, ifl, buf) \<Rightarrow> inflate_value_done ifl buf (drop n bs))"

definition inflate_read_value :: "nghttp2_hd_inflater \<Rightarrow> bytes \<Rightarrow> inflate_outcome option" where
  "inflate_read_value ifl bs =
     (case hd_inflate_read ifl (valuebuf ifl) bs of
        None \<Rightarrow> None
      | Some (n, ifl, buf) \<Rightarrow> inflate_value_done ifl buf (drop n bs))"

definition inflate_step :: "nghttp2_hd_inflater \<Rightarrow> bytes \<Rightarrow> inflate_outcome option" where
  "inflate_step ifl bs =
     (case if_state ifl of
        STATE_EXPECT_TABLE_SIZE \<Rightarrow> inflate_opcode ifl bs
      | STATE_INFLATE_START \<Rightarrow> inflate_opcode ifl bs
      | STATE_OPCODE \<Rightarrow> inflate_opcode ifl bs
      | STATE_READ_TABLE_SIZE \<Rightarrow> inflate_read_table_size ifl bs
      | STATE_READ_INDEX \<Rightarrow> inflate_read_index ifl bs
      | STATE_NEWNAME_CHECK_NAMELEN \<Rightarrow> inflate_check_namelen ifl bs
      | STATE_NEWNAME_READ_NAMELEN \<Rightarrow> inflate_read_namelen ifl bs
      | STATE_NEWNAME_READ_NAMEHUFF \<Rightarrow> inflate_read_namehuff ifl bs
      | STATE_NEWNAME_READ_NAME \<Rightarrow> inflate_read_name ifl bs
      | STATE_CHECK_VALUELEN \<Rightarrow> inflate_check_valuelen ifl bs
      | STATE_READ_VALUELEN \<Rightarrow> inflate_read_valuelen ifl bs
      | STATE_READ_VALUEHUFF \<Rightarrow> inflate_read_valuehuff ifl bs
      | STATE_READ_VALUE \<Rightarrow> inflate_read_value ifl bs)"


section \<open>The loop\<close>

text \<open>
  Every \<open>break\<close> makes progress: it consumes input, or it leads from one of the states of rank 1 to
  one of rank 0.
\<close>

definition state_rank :: "nghttp2_hd_inflate_state \<Rightarrow> nat" where
  "state_rank s =
     (if s \<in> {STATE_EXPECT_TABLE_SIZE, STATE_INFLATE_START, STATE_OPCODE, STATE_NEWNAME_READ_NAMEHUFF,
              STATE_NEWNAME_READ_NAME} then 1 else 0)"

definition step_weight :: "nghttp2_hd_inflater \<Rightarrow> bytes \<Rightarrow> nat" where
  "step_weight ifl bs = 2 * length bs + state_rank (if_state ifl)"

lemma read_len_cases:
  assumes "hd_inflate_read_len ifl bs p m = Some (Inr (n, fin), ifl')"
  shows "\<exists>s l. ifl' = ifl\<lparr>if_shift := s, if_left := l\<rparr> \<and> l \<le> m \<and> 0 < n \<and> n \<le> length bs \<and>
    decode_length (word_of_nat (if_left ifl)) (if_shift ifl) bs p = Some (word_of_nat l, s, fin, n) \<and> l < 2 ^ 32"
proof -
  from assms obtain out s where d: "decode_length (word_of_nat (if_left ifl)) (if_shift ifl) bs p = Some (out, s, fin, n)"
    and ne: "bs \<noteq> []" and l: "unat out \<le> m" "ifl' = ifl\<lparr>if_shift := s, if_left := unat out\<rparr>"
    by (auto simp: hd_inflate_read_len_def Let_def split: if_splits option.splits)
  moreover have "unat out < 2 ^ 32" using unsigned_less [of out] by simp
  moreover have "0 < n \<and> n \<le> length bs" by (rule decode_length_read [OF d ne])
  ultimately show ?thesis by (intro exI [of _ s] exI [of _ "unat out"]) simp
qed

lemma read_len_weight:
  "hd_inflate_read_len ifl bs p m = Some (Inr (n, fin), ifl') \<Longrightarrow> 2 * length (drop n bs) + 1 < 2 * length bs"
  using read_len_cases by fastforce

lemma step_weight_decreases:
  assumes "inflate_step ifl bs = Some (Break ifl' bs' busy)"
  shows "step_weight ifl' bs' < step_weight ifl bs"
proof -
  have rank: "state_rank s \<le> 1" for s by (simp add: state_rank_def)
  have namelen: "2 * length bs' + 1 < 2 * length bs"
    if "inflate_read_namelen i bs = Some (Break ifl' bs' busy)" for i
    using that read_len_weight by (fastforce simp: inflate_read_namelen_def Let_def split: option.splits sum.splits prod.splits if_splits)
  have valuelen: "2 * length bs' + 1 < 2 * length bs"
    if "inflate_read_valuelen i bs = Some (Break ifl' bs' busy)" for i
    using that read_len_weight by (fastforce simp: inflate_read_valuelen_def Let_def split: option.splits sum.splits prod.splits if_splits)
  have len: ?thesis if "2 * length bs' + 1 < 2 * length bs"
    using that rank [of "if_state ifl'"] by (simp add: step_weight_def)
  have op: ?thesis if "inflate_opcode ifl bs = Some (Break ifl' bs' busy)"
    "if_state ifl \<in> {STATE_EXPECT_TABLE_SIZE, STATE_INFLATE_START, STATE_OPCODE}"
    using that by (cases bs) (auto simp: inflate_opcode_def Let_def step_weight_def state_rank_def split: if_splits)
  have name: "step_weight ifl' bs' < 2 * length bs + 1"
    if "inflate_name_done i buf (drop n bs) = Some (Break ifl' bs' busy)" for i buf n
    using that by (auto simp: inflate_name_done_def step_weight_def state_rank_def split: if_splits option.splits)
  show ?thesis
  proof (cases "if_state ifl")
    case STATE_READ_TABLE_SIZE
    then show ?thesis using assms read_len_weight [of ifl bs 5]
      by (intro len) (fastforce simp: inflate_step_def inflate_read_table_size_def Let_def split: option.splits sum.splits prod.splits if_splits)
  next
    case STATE_READ_INDEX
    then show ?thesis using assms read_len_weight [of ifl bs]
      by (intro len) (fastforce simp: inflate_step_def inflate_read_index_def Let_def split: option.splits sum.splits prod.splits if_splits)
  next
    case STATE_NEWNAME_READ_NAMEHUFF
    then show ?thesis using assms name
      by (auto simp: inflate_step_def inflate_read_namehuff_def step_weight_def state_rank_def
          split: option.splits sum.splits prod.splits)
  next
    case STATE_NEWNAME_READ_NAME
    then show ?thesis using assms name
      by (auto simp: inflate_step_def inflate_read_name_def step_weight_def state_rank_def
          split: option.splits prod.splits)
  next
    case STATE_READ_VALUEHUFF
    then show ?thesis using assms
      by (auto simp: inflate_step_def inflate_read_valuehuff_def inflate_value_done_def Let_def
          split: option.splits sum.splits prod.splits if_splits)
  next
    case STATE_READ_VALUE
    then show ?thesis using assms
      by (auto simp: inflate_step_def inflate_read_value_def inflate_value_done_def Let_def
          split: option.splits sum.splits prod.splits if_splits)
  next
    case STATE_NEWNAME_CHECK_NAMELEN
    then show ?thesis using assms namelen
      by (intro len) (auto simp: inflate_step_def inflate_check_namelen_def split: list.splits)
  next
    case STATE_CHECK_VALUELEN
    then show ?thesis using assms valuelen
      by (intro len) (auto simp: inflate_step_def inflate_check_valuelen_def split: list.splits)
  qed (use assms op namelen valuelen len in \<open>auto simp: inflate_step_def\<close>)
qed

text \<open>The loop ends with \<open>Break ifl [] False\<close> when it leaves through its condition.\<close>

function inflate_loop :: "nghttp2_hd_inflater \<Rightarrow> bytes \<Rightarrow> bool \<Rightarrow> inflate_outcome option" where
  "inflate_loop ifl bs busy =
     (if bs \<noteq> [] \<or> busy then
        (case inflate_step ifl bs of
           None \<Rightarrow> None
         | Some (Break ifl' bs' busy') \<Rightarrow> inflate_loop ifl' bs' busy'
         | Some out \<Rightarrow> Some out)
      else Some (Break ifl [] False))"
  by pat_completeness auto
termination
  by (relation "measure (\<lambda>(ifl, bs, busy). step_weight ifl bs)") (auto intro: step_weight_decreases)

declare inflate_loop.simps [simp del]

section \<open>Entry points\<close>

definition NGHTTP2_HD_INFLATE_NONE :: int where "NGHTTP2_HD_INFLATE_NONE = 0"
definition NGHTTP2_HD_INFLATE_FINAL :: int where "NGHTTP2_HD_INFLATE_FINAL = 1"
definition NGHTTP2_HD_INFLATE_EMIT :: int where "NGHTTP2_HD_INFLATE_EMIT = 2"

definition inflate_fail :: "nghttp2_hd_inflater \<Rightarrow> nghttp2_hd_inflater" where
  "inflate_fail ifl = ifl\<lparr>if_ctx := (if_ctx ifl)\<lparr>hd_bad := True\<rparr>\<rparr>"

text \<open>The result is the number of bytes consumed, the flags, and the emitted field.\<close>

definition nghttp2_hd_inflate_hd_nv ::
  "nghttp2_hd_inflater \<Rightarrow> bytes \<Rightarrow> bool \<Rightarrow> ((nat \<times> int \<times> nghttp2_hd_nv option) res \<times> nghttp2_hd_inflater) option" where
  "nghttp2_hd_inflate_hd_nv ifl bs in_final =
     (if hd_bad (if_ctx ifl) then Some (Inl ERR_HEADER_COMP, ifl)
      else
        case inflate_loop (hd_inflate_keep_free ifl) bs False of
          None \<Rightarrow> None
        | Some (Failed e ifl) \<Rightarrow> Some (Inl e, inflate_fail ifl)
        | Some (Emitted ifl rest nv) \<Rightarrow>
            Some (Inr (length bs - length rest, NGHTTP2_HD_INFLATE_EMIT, Some nv), ifl)
        | Some (Almost_ok ifl rest) \<Rightarrow>
            if in_final then Some (Inl ERR_HEADER_COMP, inflate_fail ifl)
            else Some (Inr (length bs - length rest, NGHTTP2_HD_INFLATE_NONE, None), ifl)
        | Some (Break ifl rest _) \<Rightarrow>
            if rest \<noteq> [] then None
            else if in_final then
              (if if_state ifl \<noteq> STATE_OPCODE \<and> if_state ifl \<noteq> STATE_INFLATE_START
               then Some (Inl ERR_HEADER_COMP, inflate_fail ifl)
               else Some (Inr (length bs, NGHTTP2_HD_INFLATE_FINAL, None), ifl))
            else Some (Inr (length bs, NGHTTP2_HD_INFLATE_NONE, None), ifl))"

definition nghttp2_hd_inflate_hd3 ::
  "nghttp2_hd_inflater \<Rightarrow> bytes \<Rightarrow> bool \<Rightarrow> ((nat \<times> int \<times> nghttp2_nv option) res \<times> nghttp2_hd_inflater) option" where
  "nghttp2_hd_inflate_hd3 ifl bs in_final =
     (case nghttp2_hd_inflate_hd_nv ifl bs in_final of
        None \<Rightarrow> None
      | Some (Inl e, ifl) \<Rightarrow> Some (Inl e, ifl)
      | Some (Inr (n, flags, nv), ifl) \<Rightarrow>
          Some (Inr (n, flags, map_option (\<lambda>nv. \<lparr>nv_name = hn_name nv, nv_value = hn_value nv, nv_flags = hn_flags nv\<rparr>) nv), ifl))"

definition nghttp2_hd_inflate_end_headers :: "nghttp2_hd_inflater \<Rightarrow> nghttp2_hd_inflater" where
  "nghttp2_hd_inflate_end_headers ifl = (hd_inflate_keep_free ifl)\<lparr>if_state := STATE_INFLATE_START\<rparr>"

definition nghttp2_hd_inflate_get_num_table_entries :: "nghttp2_hd_inflater \<Rightarrow> nat" where
  "nghttp2_hd_inflate_get_num_table_entries ifl = get_max_index (if_ctx ifl)"

definition nghttp2_hd_inflate_get_table_entry :: "nghttp2_hd_inflater \<Rightarrow> nat \<Rightarrow> nghttp2_nv option option" where
  "nghttp2_hd_inflate_get_table_entry ifl idx = hd_get_table_entry (if_ctx ifl) idx"

definition nghttp2_hd_inflate_get_dynamic_table_size :: "nghttp2_hd_inflater \<Rightarrow> nat" where
  "nghttp2_hd_inflate_get_dynamic_table_size ifl = hd_table_bufsize (if_ctx ifl)"

definition nghttp2_hd_inflate_get_max_dynamic_table_size :: "nghttp2_hd_inflater \<Rightarrow> nat" where
  "nghttp2_hd_inflate_get_max_dynamic_table_size ifl = hd_table_bufsize_max (if_ctx ifl)"

end
