(* ===== verification/Nghttp2_Hd_Spec.thy ===== *)
theory Nghttp2_Hd_Spec
  imports Nghttp2_Hd_Table Nghttp2_Hd_Int Nghttp2_Huffman
begin

text \<open>
  Header blocks as RFC 7541 describes them, independent of the C code: the representations of
  section 6, their encoding, and their effect on a dynamic table. The compressor is shown to
  write such representations and the decompressor to execute them.
\<close>

unbundle bit_operations_syntax

section \<open>Representations and their effect\<close>

text \<open>
  An indexed field, a literal with an indexed name, a literal with a new name, and an update of
  the table size. Indices count from 0; on the wire they are larger by one.
\<close>

datatype hrepr =
    Indexed nat
  | Lit_Indexed nghttp2_hd_indexing_mode nat bytes
  | Lit_New nghttp2_hd_indexing_mode bytes bytes
  | Size_Update nat

text \<open>The state is the limit of the dynamic table and its fields, newest first.\<close>

type_synonym hstate = "nat \<times> hfield list"

text \<open>An emitted field, and whether it must never be indexed.\<close>

type_synonym emitted = "hfield \<times> bool"

definition literal :: "nghttp2_hd_indexing_mode \<Rightarrow> hfield \<Rightarrow> hstate \<Rightarrow> emitted option \<times> hstate" where
  "literal mode f s =
     (Some (f, mode = HD_NEVER_INDEXING),
      (fst s, if mode = HD_WITH_INDEXING then table_insert (fst s) f (snd s) else snd s))"

fun exec :: "hrepr \<Rightarrow> hstate \<Rightarrow> (emitted option \<times> hstate) option" where
  "exec (Indexed i) s = map_option (\<lambda>f. (Some (f, False), s)) (table_lookup (snd s) i)"
| "exec (Lit_Indexed mode i v) s = map_option (\<lambda>f. literal mode (fst f, v) s) (table_lookup (snd s) i)"
| "exec (Lit_New mode n v) s = Some (literal mode (n, v) s)"
| "exec (Size_Update n) s = Some (None, (n, fit field_room n (snd s)))"

fun exec_all :: "hrepr list \<Rightarrow> hstate \<Rightarrow> (emitted list \<times> hstate) option" where
  "exec_all [] s = Some ([], s)"
| "exec_all (c # cs) s =
     (case exec c s of
        None \<Rightarrow> None
      | Some (e, s') \<Rightarrow>
          map_option (\<lambda>(es, s''). ((case e of None \<Rightarrow> es | Some f \<Rightarrow> f # es), s'')) (exec_all cs s'))"

lemma exec_all_append:
  "exec_all (cs @ ds) s = (case exec_all cs s of
     None \<Rightarrow> None | Some (es, s') \<Rightarrow> map_option (\<lambda>(fs, s''). (es @ fs, s'')) (exec_all ds s'))"
proof (induction cs arbitrary: s)
  case Nil
  then show ?case by (simp add: option.map_id)
next
  case (Cons c cs)
  then show ?case
    by (simp add: case_prod_unfold option.map_comp comp_def split: option.splits)
qed

section \<open>Encoding\<close>

definition string_bytes :: "bytes \<Rightarrow> bytes" where
  "string_bytes s =
     (let e = huff_bytes s in
      if length e < length s then encode_length 0x80 (length e) 7 @ e
      else encode_length 0 (length s) 7 @ s)"

definition literal_prefix :: "nghttp2_hd_indexing_mode \<Rightarrow> nat" where
  "literal_prefix mode = (if mode = HD_WITH_INDEXING then 6 else 4)"

fun first_byte :: "nghttp2_hd_indexing_mode \<Rightarrow> u8" where
  "first_byte HD_WITH_INDEXING = 0x40"
| "first_byte HD_WITHOUT_INDEXING = 0"
| "first_byte HD_NEVER_INDEXING = 0x10"

fun repr_bytes :: "hrepr \<Rightarrow> bytes" where
  "repr_bytes (Indexed i) = encode_length 0x80 (i + 1) 7"
| "repr_bytes (Lit_Indexed mode i v) =
     encode_length (first_byte mode) (i + 1) (literal_prefix mode) @ string_bytes v"
| "repr_bytes (Lit_New mode n v) = first_byte mode # string_bytes n @ string_bytes v"
| "repr_bytes (Size_Update n) = encode_length 0x20 n 5"

text \<open>The length of the string data after the length prefix.\<close>

definition string_size :: "bytes \<Rightarrow> nat" where
  "string_size s = min (length (huff_bytes s)) (length s)"

lemma string_size_le: "string_size s \<le> length s"
  by (simp add: string_size_def)

text \<open>Representations whose numbers and strings stay within \<open>m\<close> and 32 bits.\<close>

fun repr_fits :: "nat \<Rightarrow> hrepr \<Rightarrow> bool" where
  "repr_fits m (Indexed i) \<longleftrightarrow> i + 1 < 2 ^ 32"
| "repr_fits m (Lit_Indexed mode i v) \<longleftrightarrow> i + 1 < 2 ^ 32 \<and> string_size v \<le> m"
| "repr_fits m (Lit_New mode n v) \<longleftrightarrow> string_size n \<le> m \<and> string_size v \<le> m"
| "repr_fits m (Size_Update n) \<longleftrightarrow> n < 2 ^ 32"

fun is_field :: "hrepr \<Rightarrow> bool" where
  "is_field (Size_Update n) \<longleftrightarrow> False"
| "is_field _ \<longleftrightarrow> True"

end
