(* ===== verification/Nghttp2_Hd_Inflate_Correct.thy ===== *)
theory Nghttp2_Hd_Inflate_Correct
  imports Nghttp2_Hd_Inflate Nghttp2_Hd_Spec Nghttp2_Huffman_Correct
begin

text \<open>
  The decompressor on arbitrary input (it never fails an assertion or leaves its buffers), on
  input in pieces (the pieces do not matter), and on the representations of RFC 7541 (it executes
  them).
\<close>

unbundle bit_operations_syntax

section \<open>Reading strings\<close>

definition fresh_buf :: "nat \<Rightarrow> nghttp2_buf" where
  "fresh_buf n = nghttp2_buf_wrap_init (replicate n 0)"

lemma fresh_buf_simps [simp]:
  "arr (fresh_buf n) = replicate n 0" "pos (fresh_buf n) = 0" "last (fresh_buf n) = 0"
  by (simp_all add: fresh_buf_def nghttp2_buf_wrap_init_def)

lemma fresh_write:
  assumes "length ss \<le> n"
  shows "last (buf_write ss (fresh_buf n)) = length ss" "length (arr (buf_write ss (fresh_buf n))) = n"
    "pos (buf_write ss (fresh_buf n)) = 0" "take (length ss) (arr (buf_write ss (fresh_buf n))) = ss"
    "nghttp2_buf_avail (buf_write ss (fresh_buf n)) = n - length ss"
  using assms by (simp_all add: buf_write_def nghttp2_cpymem_def nghttp2_buf_avail_def blit_def)

text \<open>The content of a terminated buffer.\<close>

lemma terminate_fresh:
  assumes "length ss < n"
  shows "\<exists>buf. buf_terminate (buf_write ss (fresh_buf n)) = Some buf \<and> nghttp2_buf_len buf = length ss \<and>
    length (arr buf) = n \<and> rc_content (Some (length ss)) buf = Some ss"
  using assms fresh_write [of ss n]
  by (auto simp: buf_terminate_def nghttp2_buf_len_def rc_content_def)

abbreviation huff_root :: nghttp2_huff_decode where
  "huff_root \<equiv> Huff_decode 0 HUFF_ACCEPTED 0"

text \<open>
  The Huffman decoder on a buffer of the estimated size for \<open>L\<close> bytes: as long as it is fed at
  most \<open>L\<close> bytes, it writes at most as many symbols as the estimate; it either is in the failure
  state or has decoded exactly its input.
\<close>

lemma huff_fresh:
  assumes "length src \<le> L"
  shows "\<exists>t ss. huff_decode_loop (Huff_decode 0 HUFF_ACCEPTED 0) (fresh_buf (nghttp2_huff_estimate_decode_length L + 1)) src =
      Some (t, buf_write ss (fresh_buf (nghttp2_huff_estimate_decode_length L + 1))) \<and>
    length ss \<le> nghttp2_huff_estimate_decode_length L \<and>
    (hfstate t = 256 \<and> hflags t = 0 \<and> walk huff_tree (bytes_bits src) = None \<or>
     hfstate t \<noteq> 256 \<and> (\<exists>u. walk huff_tree (bytes_bits src) = Some (u, map unat ss) \<and> at_node t u))"
proof -
  let ?n = "nghttp2_huff_estimate_decode_length L + 1"
  let ?b = "fresh_buf ?n"
  have room: "length ss \<le> nghttp2_huff_estimate_decode_length L" if "5 * length ss \<le> 8 * length src" for ss :: "nat list"
    using that assms by (simp add: nghttp2_huff_estimate_decode_length_def)
  have wr: "put_syms (map word_of_nat ss) ?b = buf_write (map word_of_nat ss) ?b"
    if "length ss \<le> nghttp2_huff_estimate_decode_length L" for ss
    using that by (intro put_syms_write) simp
  have fits: "huff_decode_loop huff_root ?b src = Some (e, put_syms (map word_of_nat ss) ?b)"
    if "raw_loop huff_root ?b src = (e, put_syms (map word_of_nat ss) ?b)"
      "length ss \<le> nghttp2_huff_estimate_decode_length L" for e ss
    using that(2) by (intro raw_loop_put_fits [OF that(1)]) simp
  show ?thesis
  proof (cases "walk huff_tree (bytes_bits src)")
    case None
    with huff_loop_walk [OF at_root, where src = src and buf = ?b] obtain e k u ss where
      e: "raw_loop (Huff_decode 0 HUFF_ACCEPTED 0) ?b src = (e, put_syms (map word_of_nat ss) ?b)"
      "hfstate e = 256" "hflags e = 0" "walk huff_tree (take k (bytes_bits src)) = Some (u, ss)" by auto
    have "length (take k (bytes_bits src)) \<le> 8 * length src" by simp
    then have l: "length ss \<le> nghttp2_huff_estimate_decode_length L"
      using walk_root_count [OF e(4)] by (intro room) linarith
    show ?thesis using fits [OF e(1) l] e(2,3) l wr [OF l] None by auto
  next
    case (Some a)
    then obtain u ss where w: "walk huff_tree (bytes_bits src) = Some (u, ss)" by (cases a) auto
    with huff_loop_walk [OF at_root, where src = src and buf = ?b] obtain e where
      e: "raw_loop (Huff_decode 0 HUFF_ACCEPTED 0) ?b src = (e, put_syms (map word_of_nat ss) ?b)" "at_node e u" by auto
    have l: "length ss \<le> nghttp2_huff_estimate_decode_length L" using walk_root_count [OF w] by (intro room) simp
    have "list_all (\<lambda>s. s < 256) ss" using walk_path [OF root_node _ w, of "[]"] by simp
    then have ss: "map unat (map word_of_nat ss :: bytes) = ss"
      by (auto simp: list_all_iff unsigned_of_nat take_bit_eq_mod intro!: map_idI)
    have "hfstate e \<noteq> 256"
    proof -
      have n: "u \<in> set huff_nodes" "hfstate e = word_of_nat (node_id u)" using e(2) by (auto simp: at_node_def)
      have "node_id u < 256" using n(1) huff_ids by (metis atLeastLessThan_iff imageI set_map set_upt)
      then have "unat (hfstate e) = node_id u" unfolding n(2) by (simp add: unat_of_nat)
      then show ?thesis using \<open>node_id u < 256\<close> by auto
    qed
    then show ?thesis using fits [OF e(1) l] e(2) l wr [OF l] w ss
      by (intro exI [of _ e] exI [of _ "map word_of_nat ss"]) auto
  qed
qed


text \<open>
  The state of a buffer while a string is read: \<open>seen\<close> are the bytes of its encoding that were
  consumed, \<open>left\<close> is the number of bytes still to come.
\<close>

abbreviation huff_room :: "nat \<Rightarrow> nat" where
  "huff_room n \<equiv> nghttp2_huff_estimate_decode_length n + 1"

definition plain_at :: "bytes \<Rightarrow> nat \<Rightarrow> nghttp2_buf \<Rightarrow> bool" where
  "plain_at seen left buf \<longleftrightarrow> buf = buf_write seen (fresh_buf (length seen + left + 1))"

definition huff_at :: "bytes \<Rightarrow> nat \<Rightarrow> nghttp2_buf \<Rightarrow> nghttp2_hd_huff_decode_context \<Rightarrow> bool" where
  "huff_at seen left buf hctx \<longleftrightarrow>
     (\<exists>t. huff_decode_loop huff_root (fresh_buf (huff_room (length seen + left))) seen = Some (t, buf) \<and>
        hctx = \<lparr>hc_fstate = hfstate t, hc_flags = hflags t\<rparr> \<and> hfstate t \<noteq> 256)"

lemma plain_start: "plain_at [] n (fresh_buf (n + 1))"
  by (simp add: plain_at_def buf_write_def nghttp2_cpymem_def)

lemma huff_start: "huff_at [] n (fresh_buf (huff_room n)) nghttp2_hd_huff_decode_context_init"
  by (simp add: huff_at_def nghttp2_hd_huff_decode_context_init_def)

lemma read_plain:
  assumes "plain_at seen (if_left ifl) buf" and len: "len = min (length bs) (if_left ifl)"
  shows "\<exists>buf'. hd_inflate_read ifl buf bs = Some (len, ifl\<lparr>if_left := if_left ifl - len\<rparr>, buf') \<and>
    plain_at (seen @ take len bs) (if_left ifl - len) buf'"
proof -
  let ?n = "length seen + if_left ifl + 1"
  have b: "buf = buf_write seen (fresh_buf ?n)" using assms(1) by (simp add: plain_at_def)
  have "len \<le> nghttp2_buf_avail buf" unfolding b using fresh_write(5) [of seen ?n] len by simp
  moreover have "buf_write (take len bs) buf = buf_write (seen @ take len bs) (fresh_buf ?n)"
    unfolding b using len by (intro buf_write_append) simp
  moreover have l: "length (seen @ take len bs) + (if_left ifl - len) + 1 = ?n" using len by simp
  ultimately show ?thesis unfolding hd_inflate_read_def len [symmetric] plain_at_def l by (simp add: Let_def)
qed

lemma huff_continue:
  assumes "huff_decode_loop e b seen = Some (t, buf)" and "huff_decode_loop e b (seen @ src) = Some (t2, buf2)"
  shows "nghttp2_hd_huff_decode \<lparr>hc_fstate = hfstate t, hc_flags = hflags t\<rparr> buf src fin = Some
    (if fin \<and> hflags t2 AND HUFF_ACCEPTED = 0 then Inl ERR_HEADER_COMP else Inr (length src),
     \<lparr>hc_fstate = hfstate t2, hc_flags = hflags t2\<rparr>, buf2)"
proof -
  have "huff_decode_loop t buf src = Some (t2, buf2)" using assms by (simp add: huff_decode_loop_append)
  then have "\<exists>s. huff_decode_loop (Huff_decode (hfstate t) (hflags t) 0) buf src =
      Some (Huff_decode (hfstate t2) (hflags t2) s, buf2)"
    by (cases src; cases t2) auto
  then show ?thesis by (auto simp: nghttp2_hd_huff_decode_def Let_def)
qed

definition huff_final :: "bytes \<Rightarrow> bool" where
  "huff_final src \<longleftrightarrow> (\<exists>s. huff_valid src s)"

lemma read_huff:
  assumes at: "huff_at seen (if_left ifl) buf (huff_decode_ctx ifl)" and len: "len = min (length bs) (if_left ifl)"
  shows "\<exists>hctx' buf'. (hd_inflate_read_huff ifl buf bs =
        Some (Inr len, ifl\<lparr>huff_decode_ctx := hctx', if_left := if_left ifl - len\<rparr>, buf') \<and>
      huff_at (seen @ take len bs) (if_left ifl - len) buf' hctx' \<and>
      (len = if_left ifl \<longrightarrow> huff_final (seen @ take len bs))) \<or>
    (hd_inflate_read_huff ifl buf bs = Some (Inl ERR_HEADER_COMP, ifl\<lparr>huff_decode_ctx := hctx'\<rparr>, buf') \<and>
      (walk huff_tree (bytes_bits (seen @ take len bs)) = None \<or>
       len = if_left ifl \<and> \<not> huff_final (seen @ take len bs)))"
proof -
  let ?src = "take len bs" and ?L = "length seen + if_left ifl"
  from at obtain t where t: "huff_decode_loop huff_root (fresh_buf (huff_room ?L)) seen = Some (t, buf)"
    "huff_decode_ctx ifl = \<lparr>hc_fstate = hfstate t, hc_flags = hflags t\<rparr>" by (auto simp: huff_at_def)
  have le: "length (seen @ ?src) \<le> ?L" using len by simp
  from huff_fresh [OF le] obtain t2 ss where
    t2: "huff_decode_loop huff_root (fresh_buf (huff_room ?L)) (seen @ ?src) = Some (t2, buf_write ss (fresh_buf (huff_room ?L)))"
    "length ss \<le> nghttp2_huff_estimate_decode_length ?L"
    and st: "hfstate t2 = 256 \<and> hflags t2 = 0 \<and> walk huff_tree (bytes_bits (seen @ ?src)) = None \<or>
     hfstate t2 \<noteq> 256 \<and> (\<exists>u. walk huff_tree (bytes_bits (seen @ ?src)) = Some (u, map unat ss) \<and> at_node t2 u)"
    by blast
  let ?b2 = "buf_write ss (fresh_buf (huff_room ?L))" and ?h2 = "\<lparr>hc_fstate = hfstate t2, hc_flags = hflags t2\<rparr>"
  define fin where "fin \<longleftrightarrow> if_left ifl \<le> length bs"
  have sel: "(if if_left ifl \<le> length bs then (take (if_left ifl) bs, True) else (bs, False)) = (?src, fin)"
    using len by (auto simp: fin_def)
  have finlen: "fin \<longleftrightarrow> len = if_left ifl" using len by (auto simp: fin_def)
  have ls: "length ?src = len" using len by simp
  have r: "hd_inflate_read_huff ifl buf bs =
      (if fin \<and> hflags t2 AND HUFF_ACCEPTED = 0 then Some (Inl ERR_HEADER_COMP, ifl\<lparr>huff_decode_ctx := ?h2\<rparr>, ?b2)
       else if hfstate t2 = 256 then Some (Inl ERR_HEADER_COMP, ifl\<lparr>huff_decode_ctx := ?h2\<rparr>, ?b2)
       else Some (Inr len, ifl\<lparr>huff_decode_ctx := ?h2, if_left := if_left ifl - len\<rparr>, ?b2))"
    unfolding hd_inflate_read_huff_def sel t(2)
    using huff_continue [OF t(1) t2(1), of fin] ls
    by (simp add: Let_def nghttp2_hd_huff_decode_failure_state_def)
  have final: "hflags t2 AND HUFF_ACCEPTED \<noteq> 0 \<longleftrightarrow> huff_final (seen @ ?src)"
  proof (cases "hfstate t2 = 256")
    case True
    then show ?thesis using st by (auto simp: huff_final_def huff_valid_walk)
  next
    case False
    with st obtain u where u: "walk huff_tree (bytes_bits (seen @ ?src)) = Some (u, map unat ss)" "at_node t2 u" by auto
    then have "hflags t2 AND HUFF_ACCEPTED \<noteq> 0 \<longleftrightarrow> accepting (node_id u)" by (simp add: at_node_def)
    also have "\<dots> \<longleftrightarrow> huff_final (seen @ ?src)" unfolding huff_final_def huff_valid_walk using u(1) by auto
    finally show ?thesis .
  qed
  have L: "length (seen @ ?src) + (if_left ifl - len) = ?L" using len by simp
  show ?thesis
  proof (cases "hfstate t2 = 256 \<or> fin \<and> hflags t2 AND HUFF_ACCEPTED = 0")
    case True
    then have "hd_inflate_read_huff ifl buf bs = Some (Inl ERR_HEADER_COMP, ifl\<lparr>huff_decode_ctx := ?h2\<rparr>, ?b2)"
      using r by auto
    moreover have "walk huff_tree (bytes_bits (seen @ ?src)) = None \<or> len = if_left ifl \<and> \<not> huff_final (seen @ ?src)"
      using True st final finlen by auto
    ultimately show ?thesis by blast
  next
    case False
    then have "hd_inflate_read_huff ifl buf bs =
        Some (Inr len, ifl\<lparr>huff_decode_ctx := ?h2, if_left := if_left ifl - len\<rparr>, ?b2)" using r by auto
    moreover have "huff_at (seen @ ?src) (if_left ifl - len) ?b2 ?h2"
      unfolding huff_at_def L using t2(1) False by auto
    moreover have "len = if_left ifl \<longrightarrow> huff_final (seen @ ?src)" using False final finlen by auto
    ultimately show ?thesis by blast
  qed
qed

text \<open>When nothing is left, the buffer holds the string and room for the terminator.\<close>

lemma plain_end:
  assumes "plain_at seen 0 buf"
  shows "\<exists>buf'. buf_terminate buf = Some buf' \<and> nghttp2_buf_len buf' = length seen \<and>
    length seen < length (arr buf') \<and> rc_content (Some (length seen)) buf' = Some seen"
  using assms terminate_fresh [of seen "length seen + 1"] by (auto simp: plain_at_def)

lemma huff_end:
  assumes "huff_at seen 0 buf hctx" and "huff_final seen"
  shows "\<exists>buf' s. huff_valid seen s \<and> buf_terminate buf = Some buf' \<and> nghttp2_buf_len buf' = length s \<and>
    length s < length (arr buf') \<and> rc_content (Some (length s)) buf' = Some s"
proof -
  from huff_fresh [of seen "length seen"] obtain t ss where
    t: "huff_decode_loop huff_root (fresh_buf (huff_room (length seen))) seen = Some (t, buf_write ss (fresh_buf (huff_room (length seen))))"
    "length ss \<le> nghttp2_huff_estimate_decode_length (length seen)"
    and st: "hfstate t = 256 \<or> (\<exists>u. walk huff_tree (bytes_bits seen) = Some (u, map unat ss) \<and> at_node t u)" by auto
  have b: "buf = buf_write ss (fresh_buf (huff_room (length seen)))" "hfstate t \<noteq> 256"
    using assms(1) t(1) by (auto simp: huff_at_def)
  then obtain u where u: "walk huff_tree (bytes_bits seen) = Some (u, map unat ss)" using st by auto
  then have v: "huff_valid seen ss" using assms(2) unfolding huff_final_def huff_valid_walk by auto
  have "length ss < huff_room (length seen)" using t(2) by simp
  from terminate_fresh [OF this] show ?thesis using v b(1) t(2) by (metis Suc_eq_plus1 le_imp_less_Suc)
qed


section \<open>Committing a field\<close>

text \<open>The name of the literal that is being read.\<close>

definition current_name :: "nghttp2_hd_inflater \<Rightarrow> nghttp2_hd_entry list \<Rightarrow> bytes option" where
  "current_name ifl es =
     (if if_opcode ifl = OPCODE_NEWNAME then rc_content (namercbuf ifl) (namebuf ifl)
      else map_option fst (table_lookup (hfields es) (if_index ifl)))"

text \<open>The parts of an inflater that the reading of a field does not change.\<close>

definition same_limits :: "nghttp2_hd_inflater \<Rightarrow> nghttp2_hd_inflater \<Rightarrow> bool" where
  "same_limits i j \<longleftrightarrow> hd_table_bufsize_max (if_ctx j) = hd_table_bufsize_max (if_ctx i) \<and>
     hd_bad (if_ctx j) = hd_bad (if_ctx i) \<and>
     settings_hd_table_bufsize_max j = settings_hd_table_bufsize_max i \<and>
     if_min_hd_table_bufsize_max j = if_min_hd_table_bufsize_max i"

lemma same_limits_refl [simp]: "same_limits i i"
  by (simp add: same_limits_def)

lemma same_limits_trans: "same_limits i j \<Longrightarrow> same_limits j k \<Longrightarrow> same_limits i k"
  by (simp add: same_limits_def)

abbreviation if_limit :: "nghttp2_hd_inflater \<Rightarrow> nat" where
  "if_limit ifl \<equiv> hd_table_bufsize_max (if_ctx ifl)"

definition commit :: "nghttp2_hd_inflater \<Rightarrow> (nghttp2_hd_nv res \<times> nghttp2_hd_inflater) option" where
  "commit ifl =
     (if if_opcode ifl = OPCODE_NEWNAME then hd_inflate_commit_newname ifl else hd_inflate_commit_indname ifl)"

text \<open>Entries that are emitted without a flag when they are used through their index.\<close>

definition unflagged :: "nghttp2_hd_entry list \<Rightarrow> bool" where
  "unflagged es \<longleftrightarrow> (\<forall>e \<in> set es. hn_flags (ent_nv e) = NGHTTP2_NV_FLAG_NONE)"

lemma insert_spec:
  assumes inv: "ctx_inv (if_ctx ifl) None es" and tok: "hn_token nv = lookup_token (hn_name nv)"
  defines "ins \<equiv> (if index_required ifl then add_hd_table_incremental (if_ctx ifl) nv None 0
     else Some (Inr (), if_ctx ifl, None))"
  shows "\<exists>r ctx' es'. ins = Some (r, ctx', None) \<and> ctx_inv ctx' None es' \<and>
    hd_table_bufsize_max ctx' = if_limit ifl \<and> hd_bad ctx' = hd_bad (if_ctx ifl) \<and>
    (case r of Inl e \<Rightarrow> e = ERR_NOMEM
     | Inr _ \<Rightarrow> hfields es' = (if index_required ifl then table_insert (if_limit ifl) (field nv) (hfields es) else hfields es)) \<and>
    (hd_mem (if_ctx ifl) = [] \<longrightarrow> r = Inr () \<and> hd_mem ctx' = []) \<and>
    (unflagged es \<and> (index_required ifl \<longrightarrow> hn_flags nv = NGHTTP2_NV_FLAG_NONE) \<longrightarrow> unflagged es')"
proof (cases "index_required ifl")
  case True
  have h: "None \<noteq> (None :: nghttp2_hd_map option) \<Longrightarrow> 0 = hd_hash (hn_name nv)" by simp
  from add_hd_table_repr [OF inv tok h] obtain r ctx' mp' es' where
    "add_hd_table_incremental (if_ctx ifl) nv None 0 = Some (r, ctx', mp')" "ctx_inv ctx' mp' es'"
    "hd_table_bufsize_max ctx' = if_limit ifl" "hd_bad ctx' = hd_bad (if_ctx ifl)" "mp' = None \<longleftrightarrow> (None :: nghttp2_hd_map option) = None"
    "case r of Inl e \<Rightarrow> e = ERR_NOMEM | Inr _ \<Rightarrow> hfields es' = table_insert (if_limit ifl) (field nv) (hfields es)"
    "hd_mem (if_ctx ifl) = [] \<longrightarrow> r = Inr () \<and> hd_mem ctx' = []" "\<forall>e \<in> set es'. ent_nv e = nv \<or> e \<in> set es" by blast
  then show ?thesis using True
    by (intro exI [of _ r] exI [of _ ctx'] exI [of _ es']) (auto simp: ins_def unflagged_def split: sum.splits)
next
  case False
  then show ?thesis using inv by (auto simp: ins_def)
qed

lemma commit_spec:
  assumes inv: "ctx_inv (if_ctx ifl) None es" and nm: "current_name ifl es = Some nm"
    and v: "rc_content (valuercbuf ifl) (valuebuf ifl) = Some v"
  shows "\<exists>r ifl' es'. commit ifl = Some (r, ifl') \<and> ctx_inv (if_ctx ifl') None es' \<and> same_limits ifl ifl' \<and>
    (case r of Inl e \<Rightarrow> e = ERR_NOMEM
     | Inr nv \<Rightarrow> field nv = (nm, v) \<and> hn_token nv = lookup_token nm \<and> hn_flags nv = inflate_nv_flags ifl \<and>
         hfields es' = (if index_required ifl then table_insert (if_limit ifl) (nm, v) (hfields es) else hfields es)) \<and>
    (hd_mem (if_ctx ifl) = [] \<longrightarrow> (\<exists>nv. r = Inr nv) \<and> hd_mem (if_ctx ifl') = []) \<and>
    (unflagged es \<and> \<not> (index_required ifl \<and> no_index ifl) \<longrightarrow> unflagged es')"
proof -
  define ins where "ins nv = (if index_required ifl then add_hd_table_incremental (if_ctx ifl) nv None 0
        else Some (Inr (), if_ctx ifl, None))" for nv
  define result where "result nv r ctx q i \<longleftrightarrow> if_ctx i = ctx \<and>
      settings_hd_table_bufsize_max i = settings_hd_table_bufsize_max ifl \<and>
      if_min_hd_table_bufsize_max i = if_min_hd_table_bufsize_max ifl \<and>
      q = (case r of Inl e \<Rightarrow> Inl (if if_opcode ifl = OPCODE_NEWNAME then e else ERR_NOMEM) | Inr _ \<Rightarrow> Inr nv)"
    for nv :: nghttp2_hd_nv and r :: "unit res" and ctx q and i :: nghttp2_hd_inflater
  have "\<exists>nv. (\<forall>r ctx. ins nv = Some (r, ctx, None) \<longrightarrow> (\<exists>q i. commit ifl = Some (q, i) \<and> result nv r ctx q i)) \<and>
      field nv = (nm, v) \<and> hn_token nv = lookup_token nm \<and> hn_flags nv = inflate_nv_flags ifl"
  proof (cases "if_opcode ifl = OPCODE_NEWNAME")
    case True
    let ?nv = "\<lparr>hn_name = nm, hn_value = v, hn_token = lookup_token nm, hn_flags = inflate_nv_flags ifl\<rparr>"
    have "\<exists>q i. commit ifl = Some (q, i) \<and> result ?nv r ctx q i" if "ins ?nv = Some (r, ctx, None)" for r ctx
      using True nm v that
      by (cases r) (auto simp: commit_def hd_inflate_commit_newname_def current_name_def emit_header_def Let_def ins_def result_def)
    then show ?thesis by (intro exI [of _ ?nv]) (auto simp: field_def)
  next
    case False
    then obtain f where f: "table_lookup (hfields es) (if_index ifl) = Some f" "nm = fst f" using nm by (auto simp: current_name_def)
    have rep: "ctx_repr (if_ctx ifl) None es" using inv by (simp add: ctx_inv_def)
    from f hd_table_get_repr(1) [OF rep, of "if_index ifl"] obtain e where
      e: "nghttp2_hd_table_get (if_ctx ifl) (if_index ifl) = Some e" "field e = f" by auto
    have t: "hn_token e = lookup_token (hn_name e)" using hd_table_get_repr(2) [OF rep e(1)] .
    let ?nv = "e\<lparr>hn_flags := inflate_nv_flags ifl, hn_value := v\<rparr>"
    have "\<exists>q i. commit ifl = Some (q, i) \<and> result ?nv r ctx q i" if "ins ?nv = Some (r, ctx, None)" for r ctx
      using False v e that
      by (cases r) (auto simp: commit_def hd_inflate_commit_indname_def emit_header_def Let_def ins_def result_def)
    then show ?thesis using t f e by (intro exI [of _ ?nv]) (auto simp: field_def)
  qed
  then obtain nv where c: "\<And>r ctx. ins nv = Some (r, ctx, None) \<Longrightarrow> \<exists>q i. commit ifl = Some (q, i) \<and> result nv r ctx q i"
    and nv: "field nv = (nm, v)" "hn_token nv = lookup_token nm" "hn_flags nv = inflate_nv_flags ifl" by blast
  have t: "hn_token nv = lookup_token (hn_name nv)" using nv by (simp add: field_def)
  from insert_spec [OF inv t, folded ins_def] obtain r ctx' es' where
    i: "ins nv = Some (r, ctx', None)"
    "ctx_inv ctx' None es'" "hd_table_bufsize_max ctx' = if_limit ifl" "hd_bad ctx' = hd_bad (if_ctx ifl)"
    "case r of Inl e \<Rightarrow> e = ERR_NOMEM
     | Inr _ \<Rightarrow> hfields es' = (if index_required ifl then table_insert (if_limit ifl) (field nv) (hfields es) else hfields es)"
    "hd_mem (if_ctx ifl) = [] \<longrightarrow> r = Inr () \<and> hd_mem ctx' = []"
    "unflagged es \<and> (index_required ifl \<longrightarrow> hn_flags nv = NGHTTP2_NV_FLAG_NONE) \<longrightarrow> unflagged es'" by blast
  have fl: "unflagged es \<and> \<not> (index_required ifl \<and> no_index ifl) \<longrightarrow> unflagged es'"
    using i(7) nv(3) by (auto simp: inflate_nv_flags_def)
  from c [OF i(1)] obtain q j where q: "commit ifl = Some (q, j)" "result nv r ctx' q j" by blast
  show ?thesis
    using q i nv fl by (intro exI [of _ q] exI [of _ j] exI [of _ es']) (auto simp: same_limits_def result_def split: sum.splits)
qed

end
