(* ===== verification/Nghttp2_Hd_Inflate_Safe.thy ===== *)
theory Nghttp2_Hd_Inflate_Safe
  imports Nghttp2_Hd_Inflate_Correct
begin

text \<open>
  The decompressor on arbitrary input: an invariant of its state machine, kept by every case of
  the switch, under which no assertion fails and no buffer is overrun.
\<close>

unbundle bit_operations_syntax


section \<open>The invariant of the state machine\<close>

definition int_at :: "nghttp2_hd_inflater \<Rightarrow> bool" where
  "int_at ifl \<longleftrightarrow> if_left ifl < 2 ^ 32 \<and> (if_left ifl = 0 \<longrightarrow> if_shift ifl = 0)"

definition state_inv :: "nghttp2_hd_inflater \<Rightarrow> nghttp2_hd_entry list \<Rightarrow> bool" where
  "state_inv ifl es \<longleftrightarrow>
     (case if_state ifl of
        STATE_READ_TABLE_SIZE \<Rightarrow> int_at ifl
      | STATE_READ_INDEX \<Rightarrow> int_at ifl \<and> if_opcode ifl \<noteq> OPCODE_NEWNAME
      | STATE_NEWNAME_CHECK_NAMELEN \<Rightarrow> if_opcode ifl = OPCODE_NEWNAME
      | STATE_NEWNAME_READ_NAMELEN \<Rightarrow> int_at ifl \<and> if_opcode ifl = OPCODE_NEWNAME
      | STATE_NEWNAME_READ_NAMEHUFF \<Rightarrow>
          if_opcode ifl = OPCODE_NEWNAME \<and> (\<exists>seen. huff_at seen (if_left ifl) (namebuf ifl) (huff_decode_ctx ifl))
      | STATE_NEWNAME_READ_NAME \<Rightarrow> if_opcode ifl = OPCODE_NEWNAME \<and> (\<exists>seen. plain_at seen (if_left ifl) (namebuf ifl))
      | STATE_CHECK_VALUELEN \<Rightarrow> current_name ifl es \<noteq> None
      | STATE_READ_VALUELEN \<Rightarrow> int_at ifl \<and> current_name ifl es \<noteq> None
      | STATE_READ_VALUEHUFF \<Rightarrow>
          current_name ifl es \<noteq> None \<and> (\<exists>seen. huff_at seen (if_left ifl) (valuebuf ifl) (huff_decode_ctx ifl))
      | STATE_READ_VALUE \<Rightarrow> current_name ifl es \<noteq> None \<and> (\<exists>seen. plain_at seen (if_left ifl) (valuebuf ifl))
      | _ \<Rightarrow> True)"

definition inflater_inv :: "nghttp2_hd_inflater \<Rightarrow> bool" where
  "inflater_inv ifl \<longleftrightarrow> (\<exists>es. ctx_inv (if_ctx ifl) None es \<and> state_inv ifl es)"

abbreviation value_state :: "nghttp2_hd_inflate_state \<Rightarrow> bool" where
  "value_state s \<equiv> s = STATE_READ_VALUE \<or> s = STATE_READ_VALUEHUFF"

text \<open>Outcomes that keep the invariant.\<close>

fun safe_outcome :: "bytes \<Rightarrow> inflate_outcome \<Rightarrow> bool" where
  "safe_outcome bs (Break i rest busy) \<longleftrightarrow> inflater_inv i \<and> (\<exists>n. rest = drop n bs) \<and> (busy \<longrightarrow> value_state (if_state i))"
| "safe_outcome bs (Almost_ok i rest) \<longleftrightarrow> inflater_inv i \<and> rest = []"
| "safe_outcome bs (Emitted i rest nv) \<longleftrightarrow> inflater_inv i \<and> if_state i = STATE_OPCODE \<and> (\<exists>n. rest = drop n bs) \<and>
     hn_token nv = lookup_token (hn_name nv)"
| "safe_outcome bs (Failed e i) \<longleftrightarrow> (\<exists>es. ctx_inv (if_ctx i) None es) \<and> e \<in> {ERR_HEADER_COMP, ERR_NOMEM}"

text \<open>What a step keeps: the marks of the table, the settings, and the bound on the table's limit.\<close>

definition kept :: "nghttp2_hd_inflater \<Rightarrow> nghttp2_hd_inflater \<Rightarrow> bool" where
  "kept i j \<longleftrightarrow> (hd_mem (if_ctx i) = [] \<longrightarrow> hd_mem (if_ctx j) = []) \<and> hd_bad (if_ctx j) = hd_bad (if_ctx i) \<and>
     settings_hd_table_bufsize_max j = settings_hd_table_bufsize_max i \<and>
     (if_limit i \<le> settings_hd_table_bufsize_max i \<longrightarrow> if_limit j \<le> settings_hd_table_bufsize_max j)"

lemma kept_trans: "kept i j \<Longrightarrow> kept j k \<Longrightarrow> kept i k"
  by (auto simp: kept_def)

definition safe_step :: "nghttp2_hd_inflater \<Rightarrow> bytes \<Rightarrow> inflate_outcome option \<Rightarrow> bool" where
  "safe_step ifl bs out \<longleftrightarrow>
     (\<exists>x. out = Some x \<and> safe_outcome bs x \<and>
        (case x of Break i _ _ \<Rightarrow> kept ifl i | Almost_ok i _ \<Rightarrow> kept ifl i | Emitted i _ _ \<Rightarrow> kept ifl i
         | Failed e i \<Rightarrow> hd_mem (if_ctx ifl) = [] \<longrightarrow> e = ERR_HEADER_COMP))"

lemma safe_breakI:
  "ctx_inv (if_ctx i) None es \<Longrightarrow> state_inv i es \<Longrightarrow> busy \<longrightarrow> value_state (if_state i) \<Longrightarrow> kept ifl i \<Longrightarrow>
   safe_step ifl bs (Some (Break i (drop n bs) busy))"
  by (auto simp: safe_step_def inflater_inv_def)

lemma safe_almostI:
  "ctx_inv (if_ctx i) None es \<Longrightarrow> state_inv i es \<Longrightarrow> kept ifl i \<Longrightarrow> safe_step ifl bs (Some (Almost_ok i []))"
  by (auto simp: safe_step_def inflater_inv_def)

lemma safe_failI:
  "ctx_inv (if_ctx i) None es \<Longrightarrow> e = ERR_HEADER_COMP \<or> e = ERR_NOMEM \<and> hd_mem (if_ctx ifl) \<noteq> [] \<Longrightarrow>
   safe_step ifl bs (Some (Failed e i))"
  by (auto simp: safe_step_def)

lemma safe_emitI:
  "ctx_inv (if_ctx i) None es \<Longrightarrow> if_state i = STATE_OPCODE \<Longrightarrow> hn_token nv = lookup_token (hn_name nv) \<Longrightarrow>
   kept ifl i \<Longrightarrow> safe_step ifl bs (Some (Emitted i (drop n bs) nv))"
  by (auto simp: safe_step_def inflater_inv_def state_inv_def)

lemma kept_same_ctx:
  "if_ctx j = if_ctx i \<Longrightarrow> settings_hd_table_bufsize_max j = settings_hd_table_bufsize_max i \<Longrightarrow> kept i j"
  by (simp add: kept_def)

lemma read_len_safe:
  assumes "bs \<noteq> []" "0 < p" "p \<le> 8"
  shows "(\<exists>s. hd_inflate_read_len ifl bs p m = Some (Inl ERR_HEADER_COMP, ifl\<lparr>if_shift := s\<rparr>)) \<or>
    (\<exists>n fin s l. hd_inflate_read_len ifl bs p m = Some (Inr (n, fin), ifl\<lparr>if_shift := s, if_left := l\<rparr>) \<and>
       l \<le> m \<and> l < 2 ^ 32 \<and> (\<not> fin \<longrightarrow> n = length bs \<and> l \<noteq> 0))"
proof (cases "decode_length (word_of_nat (if_left ifl)) (if_shift ifl) bs p")
  case None
  then show ?thesis using assms by (auto simp: hd_inflate_read_len_def)
next
  case (Some a)
  obtain out s fin n where a: "a = (out, s, fin, n)" by (metis prod_cases4)
  have l: "unat out < 2 ^ 32" using unsigned_less [of out] by simp
  have f: "\<not> fin \<longrightarrow> n = length bs \<and> unat out \<noteq> 0"
    using decode_length_more [of _ _ bs p out s n] Some a assms by (auto simp: unat_eq_0)
  show ?thesis
  proof (cases "m < unat out")
    case True
    then show ?thesis using Some a assms(1) by (auto simp: hd_inflate_read_len_def Let_def)
  next
    case False
    then have "hd_inflate_read_len ifl bs p m = Some (Inr (n, fin), ifl\<lparr>if_shift := s, if_left := unat out\<rparr>)"
      using Some a assms(1) by (simp add: hd_inflate_read_len_def)
    moreover have "unat out \<le> m" using False by simp
    ultimately show ?thesis using l f by blast
  qed
qed

lemma opcode_safe:
  assumes "inflater_inv ifl" "bs \<noteq> []"
  shows "safe_step ifl bs (inflate_opcode ifl bs)"
proof -
  obtain b rest where bs: "bs = b # rest" using assms(2) by (cases bs) auto
  obtain es where es: "ctx_inv (if_ctx ifl) None es" using assms(1) by (auto simp: inflater_inv_def)
  have brk: "safe_step ifl bs (Some (Break i bs False))" "safe_step ifl bs (Some (Break i rest False))"
    if "if_ctx i = if_ctx ifl" "settings_hd_table_bufsize_max i = settings_hd_table_bufsize_max ifl" "state_inv i es" for i
    using safe_breakI [of i es False ifl bs 0] safe_breakI [of i es False ifl bs 1] kept_same_ctx [of i ifl] that es
    by (simp_all add: bs)
  have fail: "safe_step ifl bs (Some (Failed ERR_HEADER_COMP ifl))" using es by (intro safe_failI) simp_all
  show ?thesis
    unfolding inflate_opcode_def bs list.case Let_def
    by (simp only: bs [symmetric] if_distrib [of Some] split: if_split)
      (intro conjI impI brk fail; simp add: state_inv_def int_at_def)
qed

lemma table_size_safe:
  assumes "inflater_inv ifl" "bs \<noteq> []" "if_state ifl = STATE_READ_TABLE_SIZE"
  shows "safe_step ifl bs (inflate_read_table_size ifl bs)"
proof -
  obtain es where es: "ctx_inv (if_ctx ifl) None es" using assms(1) by (auto simp: inflater_inv_def)
  let ?m = "min (if_min_hd_table_bufsize_max ifl) (settings_hd_table_bufsize_max ifl)"
  have p: "(0::nat) < 5" "(5::nat) \<le> 8" by simp_all
  from read_len_safe [OF assms(2) p, of ifl ?m] consider
      (fail) s where "hd_inflate_read_len ifl bs 5 ?m = Some (Inl ERR_HEADER_COMP, ifl\<lparr>if_shift := s\<rparr>)"
    | (ok) n fin s l where "hd_inflate_read_len ifl bs 5 ?m = Some (Inr (n, fin), ifl\<lparr>if_shift := s, if_left := l\<rparr>)"
        "l < 2 ^ 32" "\<not> fin \<longrightarrow> n = length bs \<and> l \<noteq> 0" "l \<le> ?m" by blast
  then show ?thesis
  proof cases
    case fail
    then show ?thesis using es by (simp add: inflate_read_table_size_def safe_failI)
  next
    case ok
    show ?thesis
    proof (cases fin)
      case False
      then show ?thesis using ok es assms(3)
        by (auto simp: inflate_read_table_size_def state_inv_def int_at_def Let_def intro!: safe_almostI kept_same_ctx)
    next
      case True
      from es ok(2) shrink_repr [of "(if_ctx ifl)\<lparr>hd_table_bufsize_max := l\<rparr>" None es] obtain ctx' where
        "hd_context_shrink_table_size ((if_ctx ifl)\<lparr>hd_table_bufsize_max := l\<rparr>) None = Some (ctx', None)"
        "ctx_inv ctx' None (fit ent_room l es)" "hd_table_bufsize_max ctx' = l" "hd_mem ctx' = hd_mem (if_ctx ifl)"
        "hd_bad ctx' = hd_bad (if_ctx ifl)" by (auto simp: ctx_inv_def)
      then show ?thesis using ok True
        by (auto simp: inflate_read_table_size_def state_inv_def Let_def kept_def intro!: safe_breakI)
    qed
  qed
qed

lemma lookup_ready: "i < 61 + length es \<longleftrightarrow> table_lookup (hfields es) i \<noteq> None"
  by (auto simp: table_lookup_def hfields_def)

lemma read_index_safe:
  assumes "inflater_inv ifl" "bs \<noteq> []" "if_state ifl = STATE_READ_INDEX"
  shows "safe_step ifl bs (inflate_read_index ifl bs)"
proof -
  obtain es where es: "ctx_inv (if_ctx ifl) None es" and op: "if_opcode ifl \<noteq> OPCODE_NEWNAME"
    using assms(1,3) by (auto simp: inflater_inv_def state_inv_def)
  have rep: "ctx_repr (if_ctx ifl) None es" using es by (simp add: ctx_inv_def)
  let ?m = "get_max_index (if_ctx ifl)"
  define p where "p = (if if_opcode ifl = OPCODE_INDEXED then 7 else if index_required ifl then 6 else (4 :: nat))"
  have p: "0 < p" "p \<le> 8" by (simp_all add: p_def)
  have m: "?m = 61 + length es" by (rule hd_table_get_repr(3) [OF rep])
  from read_len_safe [OF assms(2) p, of ifl ?m] consider
      (fail) s where "hd_inflate_read_len ifl bs p ?m = Some (Inl ERR_HEADER_COMP, ifl\<lparr>if_shift := s\<rparr>)"
    | (ok) n fin s l where "hd_inflate_read_len ifl bs p ?m = Some (Inr (n, fin), ifl\<lparr>if_shift := s, if_left := l\<rparr>)"
        "l \<le> ?m" "l < 2 ^ 32" "\<not> fin \<longrightarrow> n = length bs \<and> l \<noteq> 0" by blast
  then show ?thesis
  proof cases
    case fail
    then show ?thesis unfolding inflate_read_index_def Let_def p_def [symmetric] using es by (simp add: safe_failI)
  next
    case ok
    consider (more) "\<not> fin" | (zero) "fin" "l = 0" | (full) "fin" "l \<noteq> 0" by blast
    then show ?thesis
    proof cases
      case more
      then show ?thesis unfolding inflate_read_index_def Let_def p_def [symmetric] using ok es assms(3) op
        by (auto simp: state_inv_def int_at_def intro!: safe_almostI kept_same_ctx)
    next
      case zero
      then show ?thesis unfolding inflate_read_index_def Let_def p_def [symmetric] using ok es
        by (auto intro!: safe_failI)
    next
      case full
      then have "l - 1 < 61 + length es" using ok(2) m by linarith
      then have look: "table_lookup (hfields es) (l - 1) \<noteq> None" by (simp only: lookup_ready simp_thms)
      show ?thesis
      proof (cases "if_opcode ifl = OPCODE_INDEXED")
        case False
        then show ?thesis unfolding inflate_read_index_def Let_def p_def [symmetric] using full ok(1) es op look
          by (auto simp: state_inv_def current_name_def intro!: safe_breakI kept_same_ctx)
      next
        case ix: True
        obtain nv where "nghttp2_hd_table_get (if_ctx ifl) (l - 1) = Some nv"
          using hd_table_get_repr(1) [OF rep, of "l - 1"] look by auto
        moreover from hd_table_get_repr(2) [OF rep this] have "hn_token nv = lookup_token (hn_name nv)" .
        ultimately show ?thesis unfolding inflate_read_index_def Let_def p_def [symmetric] using full ok(1) es ix
          by (auto simp: hd_inflate_commit_indexed_def emit_header_def intro!: safe_emitI kept_same_ctx)
      qed
    qed
  qed
qed

text \<open>The two cases that read the length of a string, and the four that read its bytes.\<close>

lemma alloc_cases:
  obtains (fail) mem where "inflate_alloc ifl sz = (Inl ERR_NOMEM, ifl\<lparr>if_ctx := (if_ctx ifl)\<lparr>hd_mem := mem\<rparr>\<rparr>)"
      "hd_mem (if_ctx ifl) \<noteq> []"
  | (ok) mem where "inflate_alloc ifl sz = (Inr (fresh_buf sz), ifl\<lparr>if_ctx := (if_ctx ifl)\<lparr>hd_mem := mem\<rparr>\<rparr>)"
      "hd_mem (if_ctx ifl) = [] \<longrightarrow> mem = []"
proof (cases "hd_mem (if_ctx ifl)")
  case Nil
  then show thesis using ok [of "[]"] by (simp add: inflate_alloc_def fresh_buf_def)
next
  case (Cons a b)
  then show thesis using ok [of b] fail [of b] by (cases a) (simp_all add: inflate_alloc_def fresh_buf_def)
qed

lemma ctx_inv_keep_mem [simp]: "ctx_inv (ctx\<lparr>hd_mem := mem\<rparr>) mp es = ctx_inv ctx mp es"
  by (simp add: ctx_inv_def ctx_repr_def)

lemma current_name_simps [simp]:
  "current_name (ifl\<lparr>if_left := l\<rparr>) es = current_name ifl es"
  "current_name (ifl\<lparr>if_shift := n\<rparr>) es = current_name ifl es"
  "current_name (ifl\<lparr>if_state := st\<rparr>) es = current_name ifl es"
  "current_name (ifl\<lparr>huffman_encoded := h\<rparr>) es = current_name ifl es"
  "current_name (ifl\<lparr>huff_decode_ctx := hc\<rparr>) es = current_name ifl es"
  "current_name (ifl\<lparr>valuebuf := b\<rparr>) es = current_name ifl es"
  "current_name (ifl\<lparr>valuercbuf := r\<rparr>) es = current_name ifl es"
  "current_name (ifl\<lparr>if_ctx := c\<rparr>) es = current_name ifl es"
  by (simp_all add: current_name_def)

lemma namelen_safe:
  assumes es: "ctx_inv (if_ctx ifl) None es" and "bs \<noteq> []" and st: "if_state ifl = STATE_NEWNAME_READ_NAMELEN"
    and op: "if_opcode ifl = OPCODE_NEWNAME"
  shows "safe_step ifl bs (inflate_read_namelen ifl bs)"
proof -
  have p: "(0::nat) < 7" "(7::nat) \<le> 8" by simp_all
  from read_len_safe [OF assms(2) p, of ifl NGHTTP2_HD_MAX_NV] consider
      (fail) s where "hd_inflate_read_len ifl bs 7 NGHTTP2_HD_MAX_NV = Some (Inl ERR_HEADER_COMP, ifl\<lparr>if_shift := s\<rparr>)"
    | (ok) n fin s l where "hd_inflate_read_len ifl bs 7 NGHTTP2_HD_MAX_NV = Some (Inr (n, fin), ifl\<lparr>if_shift := s, if_left := l\<rparr>)"
        "l < 2 ^ 32" "\<not> fin \<longrightarrow> n = length bs \<and> l \<noteq> 0" by blast
  then show ?thesis
  proof cases
    case fail
    then show ?thesis using es by (simp add: inflate_read_namelen_def safe_failI)
  next
    case ok
    show ?thesis
    proof (cases fin)
      case False
      then show ?thesis using ok es st op
        by (auto simp: inflate_read_namelen_def state_inv_def int_at_def Let_def intro!: safe_almostI kept_same_ctx)
    next
      case True
      define j where "j = (if huffman_encoded ifl
        then ifl\<lparr>if_shift := s, if_left := l, huff_decode_ctx := nghttp2_hd_huff_decode_context_init, if_state := STATE_NEWNAME_READ_NAMEHUFF\<rparr>
        else ifl\<lparr>if_shift := s, if_left := l, if_state := STATE_NEWNAME_READ_NAME\<rparr>)"
      define sz where "sz = (if huffman_encoded ifl then huff_room l else l + 1)"
      have j: "if_ctx j = if_ctx ifl" "settings_hd_table_bufsize_max j = settings_hd_table_bufsize_max ifl" by (simp_all add: j_def)
      have eq: "inflate_read_namelen ifl bs = (case inflate_alloc j sz of
          (Inl e, i) \<Rightarrow> Some (Failed e i)
        | (Inr buf, i) \<Rightarrow> Some (Break (i\<lparr>namercbuf := Some sz, namebuf := buf\<rparr>) (drop n bs) False))"
        using ok True by (cases "huffman_encoded ifl") (simp_all add: inflate_read_namelen_def j_def sz_def split: prod.split sum.split)
      show ?thesis
      proof (cases rule: alloc_cases [of j sz])
        case fail
        then show ?thesis unfolding eq using es j by (auto intro!: safe_failI)
      next
        case alloc: (ok mem)
        show ?thesis unfolding eq alloc(1) prod.case sum.case
        proof (rule safe_breakI)
          show "state_inv (j\<lparr>if_ctx := (if_ctx j)\<lparr>hd_mem := mem\<rparr>, namercbuf := Some sz, namebuf := fresh_buf sz\<rparr>) es"
            using op plain_start [of l] huff_start [of l] by (auto simp: state_inv_def j_def sz_def)
        qed (use es j alloc(2) in \<open>auto simp: kept_def\<close>)
      qed
    qed
  qed
qed

lemma valuelen_safe:
  assumes es: "ctx_inv (if_ctx ifl) None es" and "bs \<noteq> []" and st: "if_state ifl = STATE_READ_VALUELEN"
    and nm: "current_name ifl es \<noteq> None"
  shows "safe_step ifl bs (inflate_read_valuelen ifl bs)"
proof -
  have p: "(0::nat) < 7" "(7::nat) \<le> 8" by simp_all
  from read_len_safe [OF assms(2) p, of ifl NGHTTP2_HD_MAX_NV] consider
      (fail) s where "hd_inflate_read_len ifl bs 7 NGHTTP2_HD_MAX_NV = Some (Inl ERR_HEADER_COMP, ifl\<lparr>if_shift := s\<rparr>)"
    | (ok) n fin s l where "hd_inflate_read_len ifl bs 7 NGHTTP2_HD_MAX_NV = Some (Inr (n, fin), ifl\<lparr>if_shift := s, if_left := l\<rparr>)"
        "l < 2 ^ 32" "\<not> fin \<longrightarrow> n = length bs \<and> l \<noteq> 0" by blast
  then show ?thesis
  proof cases
    case fail
    then show ?thesis using es by (simp add: inflate_read_valuelen_def safe_failI)
  next
    case ok
    show ?thesis
    proof (cases fin)
      case False
      then show ?thesis using ok es st nm
        by (auto simp: inflate_read_valuelen_def state_inv_def int_at_def Let_def intro!: safe_almostI kept_same_ctx)
    next
      case True
      define j where "j = (if huffman_encoded ifl
        then ifl\<lparr>if_shift := s, if_left := l, huff_decode_ctx := nghttp2_hd_huff_decode_context_init, if_state := STATE_READ_VALUEHUFF\<rparr>
        else ifl\<lparr>if_shift := s, if_left := l, if_state := STATE_READ_VALUE\<rparr>)"
      define sz where "sz = (if huffman_encoded ifl then huff_room l else l + 1)"
      have j: "if_ctx j = if_ctx ifl" "settings_hd_table_bufsize_max j = settings_hd_table_bufsize_max ifl" "current_name j es \<noteq> None" using nm by (simp_all add: j_def)
      have eq: "inflate_read_valuelen ifl bs = (case inflate_alloc j sz of
          (Inl e, i) \<Rightarrow> Some (Failed e i)
        | (Inr buf, i) \<Rightarrow> Some (Break (i\<lparr>valuercbuf := Some sz, valuebuf := buf\<rparr>) (drop n bs) True))"
        using ok True by (cases "huffman_encoded ifl") (simp_all add: inflate_read_valuelen_def j_def sz_def split: prod.split sum.split)
      show ?thesis
      proof (cases rule: alloc_cases [of j sz])
        case fail
        then show ?thesis unfolding eq using es j by (auto intro!: safe_failI)
      next
        case alloc: (ok mem)
        show ?thesis unfolding eq alloc(1) prod.case sum.case
        proof (rule safe_breakI)
          show "state_inv (j\<lparr>if_ctx := (if_ctx j)\<lparr>hd_mem := mem\<rparr>, valuercbuf := Some sz, valuebuf := fresh_buf sz\<rparr>) es"
            using nm plain_start [of l] huff_start [of l] by (auto simp: state_inv_def j_def sz_def)
        qed (use es j alloc(2) in \<open>auto simp: j_def kept_def\<close>)
      qed
    qed
  qed
qed

lemma name_done_safe:
  assumes es: "ctx_inv (if_ctx i) None es" and op: "if_opcode i = OPCODE_NEWNAME"
    and same: "if_ctx i = if_ctx ifl" "settings_hd_table_bufsize_max i = settings_hd_table_bufsize_max ifl"
    and more: "if_left i \<noteq> 0 \<longrightarrow> length bs \<le> n \<and> state_inv (i\<lparr>namebuf := buf\<rparr>) es"
    and full: "if_left i = 0 \<longrightarrow> (\<exists>buf' s. buf_terminate buf = Some buf' \<and> nghttp2_buf_len buf' = length s \<and>
      rc_content (Some (length s)) buf' = Some s)"
  shows "safe_step ifl bs (inflate_name_done i buf (drop n bs))"
proof (cases "if_left i = 0")
  case False
  then show ?thesis using es more same by (auto simp: inflate_name_done_def intro!: safe_almostI kept_same_ctx)
next
  case True
  with full obtain buf' s where "buf_terminate buf = Some buf'" "nghttp2_buf_len buf' = length s"
    "rc_content (Some (length s)) buf' = Some s" by blast
  then show ?thesis using True es op same
    by (auto simp: inflate_name_done_def state_inv_def current_name_def intro!: safe_breakI kept_same_ctx)
qed

lemma value_done_safe:
  assumes es: "ctx_inv (if_ctx i) None es" and nm: "current_name i es \<noteq> None" 
    and same: "if_ctx i = if_ctx ifl" "settings_hd_table_bufsize_max i = settings_hd_table_bufsize_max ifl"
    and more: "if_left i \<noteq> 0 \<longrightarrow> length bs \<le> n \<and> state_inv (i\<lparr>valuebuf := buf\<rparr>) es"
    and full: "if_left i = 0 \<longrightarrow> (\<exists>buf' s. buf_terminate buf = Some buf' \<and> nghttp2_buf_len buf' = length s \<and>
      rc_content (Some (length s)) buf' = Some s)"
  shows "safe_step ifl bs (inflate_value_done i buf (drop n bs))"
proof (cases "if_left i = 0")
  case False
  then show ?thesis using es more same by (auto simp: inflate_value_done_def intro!: safe_almostI kept_same_ctx)
next
  case True
  with full obtain buf' s where b: "buf_terminate buf = Some buf'" "nghttp2_buf_len buf' = length s"
    "rc_content (Some (length s)) buf' = Some s" by blast
  let ?j = "i\<lparr>valuebuf := buf', valuercbuf := Some (length s)\<rparr>"
  obtain nm' where nm': "current_name ?j es = Some nm'" using nm by auto
  have v: "rc_content (valuercbuf ?j) (valuebuf ?j) = Some s" using b(3) by simp
  have ctx: "ctx_inv (if_ctx ?j) None es" using es by simp
  from commit_spec [OF ctx nm' v] obtain r k es' where c: "commit ?j = Some (r, k)" "ctx_inv (if_ctx k) None es'"
    "case r of Inl e \<Rightarrow> e = ERR_NOMEM | Inr nv \<Rightarrow> field nv = (nm', s) \<and> hn_token nv = lookup_token nm'"
    "hd_mem (if_ctx i) = [] \<longrightarrow> (\<exists>nv. r = Inr nv) \<and> hd_mem (if_ctx k) = []" "same_limits ?j k" by (fastforce split: sum.splits)
  have eq: "inflate_value_done i buf (drop n bs) = (case r of Inl e \<Rightarrow> Some (Failed e k)
      | Inr nv \<Rightarrow> Some (Emitted (k\<lparr>if_state := STATE_OPCODE\<rparr>) (drop n bs) nv))"
    unfolding inflate_value_done_def Let_def commit_def [symmetric] using True b c(1)
    by (simp split: sum.split)
  show ?thesis
  proof (cases r)
    case (Inl e)
    then show ?thesis unfolding eq using c same by (auto intro!: safe_failI)
  next
    case (Inr nv)
    then show ?thesis unfolding eq using c same by (auto simp: field_def kept_def same_limits_def intro!: safe_emitI)
  qed
qed

lemma read_name_safe:
  assumes es: "ctx_inv (if_ctx ifl) None es" "state_inv ifl es" and st: "if_state ifl = STATE_NEWNAME_READ_NAME"
  shows "safe_step ifl bs (inflate_read_name ifl bs)"
proof -
  obtain seen where at: "plain_at seen (if_left ifl) (namebuf ifl)" and op: "if_opcode ifl = OPCODE_NEWNAME"
    using es(2) st by (auto simp: state_inv_def)
  define len where "len = min (length bs) (if_left ifl)"
  from read_plain [OF at len_def] obtain buf where
    r: "hd_inflate_read ifl (namebuf ifl) bs = Some (len, ifl\<lparr>if_left := if_left ifl - len\<rparr>, buf)"
    and p: "plain_at (seen @ take len bs) (if_left ifl - len) buf" by blast
  have "safe_step ifl bs (inflate_name_done (ifl\<lparr>if_left := if_left ifl - len\<rparr>) buf (drop len bs))"
  proof (rule name_done_safe)
    show "if_left (ifl\<lparr>if_left := if_left ifl - len\<rparr>) = 0 \<longrightarrow> (\<exists>buf' s. buf_terminate buf = Some buf' \<and>
        nghttp2_buf_len buf' = length s \<and> rc_content (Some (length s)) buf' = Some s)"
      using p plain_end by fastforce
  qed (use es op p st in \<open>auto simp: len_def state_inv_def\<close>)
  then show ?thesis by (simp add: inflate_read_name_def r)
qed

lemma read_value_safe:
  assumes es: "ctx_inv (if_ctx ifl) None es" "state_inv ifl es" and st: "if_state ifl = STATE_READ_VALUE"
  shows "safe_step ifl bs (inflate_read_value ifl bs)"
proof -
  obtain seen where at: "plain_at seen (if_left ifl) (valuebuf ifl)" and nm: "current_name ifl es \<noteq> None"
    using es(2) st by (auto simp: state_inv_def)
  define len where "len = min (length bs) (if_left ifl)"
  from read_plain [OF at len_def] obtain buf where
    r: "hd_inflate_read ifl (valuebuf ifl) bs = Some (len, ifl\<lparr>if_left := if_left ifl - len\<rparr>, buf)"
    and p: "plain_at (seen @ take len bs) (if_left ifl - len) buf" by blast
  have "safe_step ifl bs (inflate_value_done (ifl\<lparr>if_left := if_left ifl - len\<rparr>) buf (drop len bs))"
  proof (rule value_done_safe)
    show "if_left (ifl\<lparr>if_left := if_left ifl - len\<rparr>) = 0 \<longrightarrow> (\<exists>buf' s. buf_terminate buf = Some buf' \<and>
        nghttp2_buf_len buf' = length s \<and> rc_content (Some (length s)) buf' = Some s)"
      using p plain_end by fastforce
  qed (use es nm p st in \<open>auto simp: len_def state_inv_def\<close>)
  then show ?thesis by (simp add: inflate_read_value_def r)
qed

lemma read_namehuff_safe:
  assumes es: "ctx_inv (if_ctx ifl) None es" "state_inv ifl es" and st: "if_state ifl = STATE_NEWNAME_READ_NAMEHUFF"
  shows "safe_step ifl bs (inflate_read_namehuff ifl bs)"
proof -
  obtain seen where at: "huff_at seen (if_left ifl) (namebuf ifl) (huff_decode_ctx ifl)" and op: "if_opcode ifl = OPCODE_NEWNAME"
    using es(2) st by (auto simp: state_inv_def)
  define len where "len = min (length bs) (if_left ifl)"
  from read_huff [OF at len_def] consider
      (ok) hctx buf where
        "hd_inflate_read_huff ifl (namebuf ifl) bs = Some (Inr len, ifl\<lparr>huff_decode_ctx := hctx, if_left := if_left ifl - len\<rparr>, buf)"
        "huff_at (seen @ take len bs) (if_left ifl - len) buf hctx" "len = if_left ifl \<longrightarrow> huff_final (seen @ take len bs)"
    | (fail) hctx buf where "hd_inflate_read_huff ifl (namebuf ifl) bs = Some (Inl ERR_HEADER_COMP, ifl\<lparr>huff_decode_ctx := hctx\<rparr>, buf)"
    by blast
  then show ?thesis
  proof cases
    case ok
    let ?i = "ifl\<lparr>huff_decode_ctx := hctx, if_left := if_left ifl - len\<rparr>"
    have le: "len \<le> if_left ifl" by (simp add: len_def)
    have "safe_step ifl bs (inflate_name_done ?i buf (drop len bs))"
    proof (rule name_done_safe)
      show "if_left ?i = 0 \<longrightarrow> (\<exists>buf' s. buf_terminate buf = Some buf' \<and>
          nghttp2_buf_len buf' = length s \<and> rc_content (Some (length s)) buf' = Some s)"
        using ok(2,3) le huff_end [of "seen @ take len bs" buf hctx] by fastforce
    qed (use es op ok(2) st in \<open>auto simp: len_def state_inv_def\<close>)
    then show ?thesis by (simp add: inflate_read_namehuff_def ok(1))
  next
    case fail
    then show ?thesis using es by (auto simp: inflate_read_namehuff_def intro!: safe_failI)
  qed
qed

lemma read_valuehuff_safe:
  assumes es: "ctx_inv (if_ctx ifl) None es" "state_inv ifl es" and st: "if_state ifl = STATE_READ_VALUEHUFF"
  shows "safe_step ifl bs (inflate_read_valuehuff ifl bs)"
proof -
  obtain seen where at: "huff_at seen (if_left ifl) (valuebuf ifl) (huff_decode_ctx ifl)" and nm: "current_name ifl es \<noteq> None"
    using es(2) st by (auto simp: state_inv_def)
  define len where "len = min (length bs) (if_left ifl)"
  from read_huff [OF at len_def] consider
      (ok) hctx buf where
        "hd_inflate_read_huff ifl (valuebuf ifl) bs = Some (Inr len, ifl\<lparr>huff_decode_ctx := hctx, if_left := if_left ifl - len\<rparr>, buf)"
        "huff_at (seen @ take len bs) (if_left ifl - len) buf hctx" "len = if_left ifl \<longrightarrow> huff_final (seen @ take len bs)"
    | (fail) hctx buf where "hd_inflate_read_huff ifl (valuebuf ifl) bs = Some (Inl ERR_HEADER_COMP, ifl\<lparr>huff_decode_ctx := hctx\<rparr>, buf)"
    by blast
  then show ?thesis
  proof cases
    case ok
    let ?i = "ifl\<lparr>huff_decode_ctx := hctx, if_left := if_left ifl - len\<rparr>"
    have le: "len \<le> if_left ifl" by (simp add: len_def)
    have "safe_step ifl bs (inflate_value_done ?i buf (drop len bs))"
    proof (rule value_done_safe)
      show "if_left ?i = 0 \<longrightarrow> (\<exists>buf' s. buf_terminate buf = Some buf' \<and>
          nghttp2_buf_len buf' = length s \<and> rc_content (Some (length s)) buf' = Some s)"
        using ok(2,3) le huff_end [of "seen @ take len bs" buf hctx] by fastforce
    qed (use es nm ok(2) st in \<open>auto simp: len_def state_inv_def\<close>)
    then show ?thesis by (simp add: inflate_read_valuehuff_def ok(1))
  next
    case fail
    then show ?thesis using es by (auto simp: inflate_read_valuehuff_def intro!: safe_failI)
  qed
qed


section \<open>The loop\<close>

lemma safe_step_drop:
  assumes "safe_step i (drop n bs) out" "kept ifl i"
  shows "safe_step ifl bs out"
proof -
  obtain x where x: "out = Some x" "safe_outcome (drop n bs) x" using assms(1) by (auto simp: safe_step_def)
  have o: "safe_outcome bs x" using x(2) by (cases x) auto
  have m: "hd_mem (if_ctx ifl) = [] \<Longrightarrow> hd_mem (if_ctx i) = []" using assms(2) by (simp add: kept_def)
  show ?thesis using assms(1) o m kept_trans [OF assms(2)] unfolding safe_step_def x(1)
    by (cases x) simp_all
qed

lemma step_safe:
  assumes inv: "inflater_inv ifl" and bs: "bs \<noteq> [] \<or> value_state (if_state ifl)"
  shows "safe_step ifl bs (inflate_step ifl bs)"
proof -
  obtain es where es: "ctx_inv (if_ctx ifl) None es" "state_inv ifl es" using inv by (auto simp: inflater_inv_def)
  show ?thesis
  proof (cases "if_state ifl")
    case STATE_READ_TABLE_SIZE
    then show ?thesis using table_size_safe [OF inv] bs by (simp add: inflate_step_def)
  next
    case STATE_READ_INDEX
    then show ?thesis using read_index_safe [OF inv] bs by (simp add: inflate_step_def)
  next
    case STATE_NEWNAME_CHECK_NAMELEN
    let ?j = "\<lambda>b. (hd_inflate_set_huffman_encoded ifl b)\<lparr>if_state := STATE_NEWNAME_READ_NAMELEN, if_left := 0, if_shift := 0\<rparr>"
    obtain b rest where b: "bs = b # rest" using bs STATE_NEWNAME_CHECK_NAMELEN by (cases bs) auto
    have "safe_step (?j b) bs (inflate_read_namelen (?j b) bs)" 
      using es STATE_NEWNAME_CHECK_NAMELEN b
      by (intro namelen_safe) (auto simp: hd_inflate_set_huffman_encoded_def state_inv_def)
    then have "safe_step ifl bs (inflate_read_namelen (?j b) bs)"
      by (intro safe_step_drop [of "?j b" 0 bs] kept_same_ctx) (simp_all add: hd_inflate_set_huffman_encoded_def)
    then show ?thesis using STATE_NEWNAME_CHECK_NAMELEN b by (simp add: inflate_step_def inflate_check_namelen_def)
  next
    case STATE_NEWNAME_READ_NAMELEN
    then show ?thesis using namelen_safe [OF es(1)] es(2) bs by (simp add: inflate_step_def state_inv_def)
  next
    case STATE_CHECK_VALUELEN
    let ?j = "\<lambda>b. (hd_inflate_set_huffman_encoded ifl b)\<lparr>if_state := STATE_READ_VALUELEN, if_left := 0, if_shift := 0\<rparr>"
    obtain b rest where b: "bs = b # rest" using bs STATE_CHECK_VALUELEN by (cases bs) auto
    have "safe_step (?j b) bs (inflate_read_valuelen (?j b) bs)" 
      using es STATE_CHECK_VALUELEN b
      by (intro valuelen_safe [where es = es]) (auto simp: hd_inflate_set_huffman_encoded_def state_inv_def)
    then have "safe_step ifl bs (inflate_read_valuelen (?j b) bs)"
      by (intro safe_step_drop [of "?j b" 0 bs] kept_same_ctx) (simp_all add: hd_inflate_set_huffman_encoded_def)
    then show ?thesis using STATE_CHECK_VALUELEN b by (simp add: inflate_step_def inflate_check_valuelen_def)
  next
    case STATE_READ_VALUELEN
    then show ?thesis using valuelen_safe [OF es(1)] es(2) bs by (simp add: inflate_step_def state_inv_def)
  next
    case STATE_NEWNAME_READ_NAME
    then show ?thesis using read_name_safe [OF es] by (simp add: inflate_step_def)
  next
    case STATE_NEWNAME_READ_NAMEHUFF
    then show ?thesis using read_namehuff_safe [OF es] by (simp add: inflate_step_def)
  next
    case STATE_READ_VALUE
    then show ?thesis using read_value_safe [OF es] by (simp add: inflate_step_def)
  next
    case STATE_READ_VALUEHUFF
    then show ?thesis using read_valuehuff_safe [OF es] by (simp add: inflate_step_def)
  qed (use opcode_safe [OF inv] bs in \<open>simp_all add: inflate_step_def\<close>)
qed

lemma loop_end [simp]: "inflate_loop ifl [] False = Some (Break ifl [] False)"
  by (subst inflate_loop.simps) simp

lemma loop_go:
  "bs \<noteq> [] \<or> busy \<Longrightarrow> inflate_loop ifl bs busy = (case inflate_step ifl bs of
     None \<Rightarrow> None | Some (Break ifl' bs' busy') \<Rightarrow> inflate_loop ifl' bs' busy' | Some out \<Rightarrow> Some out)"
  by (subst inflate_loop.simps) simp

lemma loop_safe:
  "inflater_inv ifl \<Longrightarrow> busy \<longrightarrow> value_state (if_state ifl) \<Longrightarrow> safe_step ifl bs (inflate_loop ifl bs busy) \<and>
     (\<forall>i rest b. inflate_loop ifl bs busy = Some (Break i rest b) \<longrightarrow> rest = [])"
proof (induction ifl bs busy rule: inflate_loop.induct)
  case (1 ifl bs busy)
  show ?case
  proof (cases "bs \<noteq> [] \<or> busy")
    case False
    then have b: "bs = []" "busy = False" by simp_all
    have "safe_step ifl [] (Some (Break ifl [] False))"
      using 1(2) safe_breakI [of ifl _ False ifl "[]" 0] kept_same_ctx [of ifl ifl] by (auto simp: inflater_inv_def)
    then show ?thesis unfolding b by simp
  next
    case True
    then have "safe_step ifl bs (inflate_step ifl bs)" using 1(2,3) by (intro step_safe) auto
    then obtain x where x: "inflate_step ifl bs = Some x" "safe_outcome bs x" "safe_step ifl bs (Some x)"
      unfolding safe_step_def by blast
    show ?thesis
    proof (cases x)
      case (Break i rest b)
      then obtain n where n: "rest = drop n bs" using x(2) by auto
      have k: "kept ifl i" using x(3) Break by (simp add: safe_step_def)
      have "inflater_inv i" "b \<longrightarrow> value_state (if_state i)" using x(2) Break by simp_all
      note IH = 1(1) [OF True x(1) Break this]
      have "inflate_loop ifl bs busy = inflate_loop i rest b"
        using loop_go [OF True] x(1) Break by simp
      then show ?thesis using safe_step_drop [OF _ k, of n bs] IH n by simp
    qed (use loop_go [OF True] x in simp_all)
  qed
qed

section \<open>The interface\<close>

text \<open>
  A decompressor in working order; the marks of a failure are those of the context. The limit of
  the dynamic table never exceeds the setting that was announced to the peer.
\<close>

definition inflater_ok :: "nghttp2_hd_inflater \<Rightarrow> bool" where
  "inflater_ok ifl \<longleftrightarrow> (if hd_bad (if_ctx ifl) then \<exists>es. ctx_inv (if_ctx ifl) None es
     else inflater_inv ifl \<and> if_limit ifl \<le> settings_hd_table_bufsize_max ifl)"

lemma current_name_keep [simp]:
  "current_name (ifl\<lparr>nv_value_keep := a, nv_name_keep := b\<rparr>) es = current_name ifl es"
  by (simp add: current_name_def)

lemma keep_free_inv: "inflater_inv (hd_inflate_keep_free ifl) = inflater_inv ifl"
proof -
  have "state_inv (ifl\<lparr>nv_value_keep := None, nv_name_keep := None\<rparr>) es = state_inv ifl es" for es
    by (cases "if_state ifl") (simp_all add: state_inv_def int_at_def)
  then show ?thesis by (simp add: inflater_inv_def hd_inflate_keep_free_def)
qed

lemma init_ok: "nghttp2_hd_inflate_new2 mem = Inr ifl \<Longrightarrow> inflater_ok ifl \<and> \<not> hd_bad (if_ctx ifl)"
  using hd_context_init_repr
  by (fastforce simp: nghttp2_hd_inflate_new2_def nghttp2_hd_inflate_init_def inflater_ok_def inflater_inv_def state_inv_def
      split: prod.splits if_splits sum.splits)

definition example_inflater :: nghttp2_hd_inflater where
  "example_inflater = (case nghttp2_hd_inflate_new2 [] of Inr ifl \<Rightarrow> ifl)"

lemma example_inflater_ok: "inflater_ok example_inflater" "\<not> hd_bad (if_ctx example_inflater)"
proof -
  have "\<exists>ifl. nghttp2_hd_inflate_new2 [] = Inr ifl"
    using example_ctx_init by (auto simp: nghttp2_hd_inflate_new2_def nghttp2_hd_inflate_init_def)
  then obtain ifl where "nghttp2_hd_inflate_new2 [] = Inr ifl" by blast
  then show "inflater_ok example_inflater" "\<not> hd_bad (if_ctx example_inflater)"
    using init_ok by (auto simp: example_inflater_def)
qed

lemma hd_nv_safe:
  assumes ok: "inflater_ok ifl" and good: "\<not> hd_bad (if_ctx ifl)"
  obtains (fail) e ifl' where "nghttp2_hd_inflate_hd_nv ifl bs fin = Some (Inl e, ifl')" "inflater_ok ifl'" "hd_bad (if_ctx ifl')"
      "e = ERR_HEADER_COMP \<or> e = ERR_NOMEM \<and> hd_mem (if_ctx ifl) \<noteq> []"
    | (emit) n nv ifl' where "nghttp2_hd_inflate_hd_nv ifl bs fin = Some (Inr (n, NGHTTP2_HD_INFLATE_EMIT, Some nv), ifl')"
      "inflater_ok ifl'" "kept ifl ifl'" "n \<le> length bs" "hn_token nv = lookup_token (hn_name nv)" "if_state ifl' = STATE_OPCODE"
    | (all) ifl' where "nghttp2_hd_inflate_hd_nv ifl bs fin =
        Some (Inr (length bs, if fin then NGHTTP2_HD_INFLATE_FINAL else NGHTTP2_HD_INFLATE_NONE, None), ifl')"
      "inflater_ok ifl'" "kept ifl ifl'" "fin \<longrightarrow> if_state ifl' = STATE_OPCODE \<or> if_state ifl' = STATE_INFLATE_START"
proof -
  let ?i = "hd_inflate_keep_free ifl"
  have inv: "inflater_inv ?i" and lim: "if_limit ifl \<le> settings_hd_table_bufsize_max ifl"
    using ok good by (simp_all add: keep_free_inv inflater_ok_def)
  have k0: "kept ifl ?i" by (rule kept_same_ctx) (simp_all add: hd_inflate_keep_free_def)
  have s: "safe_step ?i bs (inflate_loop ?i bs False)"
    and last: "\<forall>i rest b. inflate_loop ?i bs False = Some (Break i rest b) \<longrightarrow> rest = []"
    using loop_safe [OF inv, of False bs] by simp_all
  have s': "safe_step ifl bs (inflate_loop ?i bs False)" using safe_step_drop [of ?i 0 bs, OF _ k0] s by simp
  then obtain x where x: "inflate_loop ?i bs False = Some x" "safe_outcome bs x" "safe_step ifl bs (Some x)"
    unfolding safe_step_def by blast
  have good': "inflater_ok i" if "inflater_inv i" "kept ifl i" for i
    using that lim good by (simp add: inflater_ok_def kept_def)
  have bad: "inflater_ok (inflate_fail i) \<and> hd_bad (if_ctx (inflate_fail i))" if "ctx_inv (if_ctx i) None es" for i es
  proof -
    have "ctx_inv ((if_ctx i)\<lparr>hd_bad := True\<rparr>) None es" using that by (simp add: ctx_inv_def ctx_repr_def)
    then show ?thesis by (auto simp: inflater_ok_def inflate_fail_def)
  qed
  have eq: "nghttp2_hd_inflate_hd_nv ifl bs fin = (case x of
          (Failed e ifl) \<Rightarrow> Some (Inl e, inflate_fail ifl)
        | (Emitted ifl rest nv) \<Rightarrow> Some (Inr (length bs - length rest, NGHTTP2_HD_INFLATE_EMIT, Some nv), ifl)
        | (Almost_ok ifl rest) \<Rightarrow>
            if fin then Some (Inl ERR_HEADER_COMP, inflate_fail ifl)
            else Some (Inr (length bs - length rest, NGHTTP2_HD_INFLATE_NONE, None), ifl)
        | (Break ifl rest _) \<Rightarrow>
            if rest \<noteq> [] then None
            else if fin then
              (if if_state ifl \<noteq> STATE_OPCODE \<and> if_state ifl \<noteq> STATE_INFLATE_START
               then Some (Inl ERR_HEADER_COMP, inflate_fail ifl)
               else Some (Inr (length bs, NGHTTP2_HD_INFLATE_FINAL, None), ifl))
            else Some (Inr (length bs, NGHTTP2_HD_INFLATE_NONE, None), ifl))"
    unfolding nghttp2_hd_inflate_hd_nv_def x(1) using good by (simp split: inflate_outcome.split)
  show thesis
  proof (cases x)
    case (Failed e i)
    then obtain es where "ctx_inv (if_ctx i) None es" using x(2) by auto
    from bad [OF this] show thesis using fail [of e "inflate_fail i"] eq Failed x(2,3) by (auto simp: safe_step_def)
  next
    case (Emitted i rest nv)
    then show thesis using emit [of "length bs - length rest" nv i] eq x(2,3) good' by (auto simp: safe_step_def)
  next
    case (Almost_ok i rest)
    then obtain es where es: "ctx_inv (if_ctx i) None es" "inflater_inv i" "rest = []" "kept ifl i"
      using x(2,3) by (auto simp: inflater_inv_def safe_step_def)
    show thesis
    proof (cases fin)
      case True
      then show thesis using fail [of ERR_HEADER_COMP "inflate_fail i"] eq Almost_ok bad [OF es(1)] by simp
    next
      case False
      then show thesis using all [of i] eq Almost_ok es good' by simp
    qed
  next
    case (Break i rest b)
    then obtain es where es: "ctx_inv (if_ctx i) None es" "inflater_inv i" "rest = []" "kept ifl i"
      using x(1-3) last by (auto simp: inflater_inv_def safe_step_def)
    show thesis
    proof (cases "fin \<and> if_state i \<noteq> STATE_OPCODE \<and> if_state i \<noteq> STATE_INFLATE_START")
      case True
      then show thesis using fail [of ERR_HEADER_COMP "inflate_fail i"] eq Break bad [OF es(1)] es(3) by simp
    next
      case False
      then show thesis using all [of i] eq Break es good' by (cases fin) auto
    qed
  qed
qed

lemma change_table_size_ok:
  assumes ok: "inflater_ok ifl" and n: "n < 2 ^ 32"
  shows "\<exists>r ifl'. nghttp2_hd_inflate_change_table_size ifl n = Some (r, ifl') \<and> inflater_ok ifl' \<and>
    hd_bad (if_ctx ifl') = hd_bad (if_ctx ifl) \<and> (r = Inr () \<longrightarrow> if_limit ifl' \<le> n)"
proof -
  obtain es where es: "ctx_inv (if_ctx ifl) None es" using ok by (auto simp: inflater_ok_def inflater_inv_def split: if_splits)
  consider (state) "if_state ifl \<noteq> STATE_EXPECT_TABLE_SIZE \<and> if_state ifl \<noteq> STATE_INFLATE_START"
    | (low) "if_state ifl = STATE_EXPECT_TABLE_SIZE \<or> if_state ifl = STATE_INFLATE_START" "n < if_limit ifl"
    | (high) "if_state ifl = STATE_EXPECT_TABLE_SIZE \<or> if_state ifl = STATE_INFLATE_START" "if_limit ifl \<le> n"
    by linarith
  then show ?thesis
  proof cases
    case state
    then show ?thesis using ok by (simp add: nghttp2_hd_inflate_change_table_size_def)
  next
    case low
    from es n shrink_repr [of "(if_ctx ifl)\<lparr>hd_table_bufsize_max := n\<rparr>" None es] obtain ctx' where
      c: "hd_context_shrink_table_size ((if_ctx ifl)\<lparr>hd_table_bufsize_max := n\<rparr>) None = Some (ctx', None)"
      "ctx_inv ctx' None (fit ent_room n es)" "hd_table_bufsize_max ctx' = n" "hd_bad ctx' = hd_bad (if_ctx ifl)"
      by (auto simp: ctx_inv_def)
    have "nghttp2_hd_inflate_change_table_size ifl n = Some (Inr (), ifl\<lparr>settings_hd_table_bufsize_max := n,
        if_state := STATE_EXPECT_TABLE_SIZE, if_min_hd_table_bufsize_max := n, if_ctx := ctx'\<rparr>)"
      using low c(1) by (auto simp: nghttp2_hd_inflate_change_table_size_def Let_def)
    then show ?thesis using c(2-4) by (auto simp: inflater_ok_def inflater_inv_def state_inv_def)
  next
    case high
    have "nghttp2_hd_inflate_change_table_size ifl n = Some (Inr (), ifl\<lparr>settings_hd_table_bufsize_max := n\<rparr>)"
      using high by (auto simp: nghttp2_hd_inflate_change_table_size_def Let_def)
    moreover have "state_inv (ifl\<lparr>settings_hd_table_bufsize_max := n\<rparr>) es" using high(1) by (auto simp: state_inv_def)
    ultimately show ?thesis using es high(2) by (auto simp: inflater_ok_def inflater_inv_def)
  qed
qed

text \<open>
  C2. The decompressor is safe on every input. In whatever state earlier calls have left it, on any
  bytes and with any pattern of allocation failures, a call returns: the loop ends, no assertion
  fails, no byte beyond the input is read, and no buffer or table slot is accessed out of bounds.
  It fails only with HEADER_COMP, or with NOMEM when the allocator failed, and is marked bad exactly
  then; otherwise it has consumed the whole input or stopped behind a field, whose token belongs
  to its name; a final call that emits nothing says so. The limit of the dynamic table stays below
  the announced setting, and the operations between calls keep the decompressor in working order.
\<close>

theorem inflate_safe:
  assumes "inflater_ok ifl"
  shows "(\<exists>r ifl'. nghttp2_hd_inflate_hd_nv ifl bs fin = Some (r, ifl') \<and> inflater_ok ifl' \<and>
      hd_bad (if_ctx ifl') = (r \<in> range Inl) \<and>
      (case r of Inl e \<Rightarrow> e = ERR_HEADER_COMP \<or> e = ERR_NOMEM \<and> hd_mem (if_ctx ifl) \<noteq> []
       | Inr (n, flags, None) \<Rightarrow> n = length bs \<and> flags = (if fin then NGHTTP2_HD_INFLATE_FINAL else NGHTTP2_HD_INFLATE_NONE)
       | Inr (n, flags, Some nv) \<Rightarrow> n \<le> length bs \<and> flags = NGHTTP2_HD_INFLATE_EMIT \<and>
           hn_token nv = lookup_token (hn_name nv))) \<and>
    inflater_ok (nghttp2_hd_inflate_end_headers ifl) \<and>
    (n < 2 ^ 32 \<longrightarrow> (\<exists>r ifl'. nghttp2_hd_inflate_change_table_size ifl n = Some (r, ifl') \<and> inflater_ok ifl' \<and>
      hd_bad (if_ctx ifl') = hd_bad (if_ctx ifl) \<and> (r = Inr () \<longrightarrow> if_limit ifl' \<le> n)))"
proof (intro conjI impI)
  show "\<exists>r ifl'. nghttp2_hd_inflate_hd_nv ifl bs fin = Some (r, ifl') \<and> inflater_ok ifl' \<and>
      hd_bad (if_ctx ifl') = (r \<in> range Inl) \<and>
      (case r of Inl e \<Rightarrow> e = ERR_HEADER_COMP \<or> e = ERR_NOMEM \<and> hd_mem (if_ctx ifl) \<noteq> []
       | Inr (n, flags, None) \<Rightarrow> n = length bs \<and> flags = (if fin then NGHTTP2_HD_INFLATE_FINAL else NGHTTP2_HD_INFLATE_NONE)
       | Inr (n, flags, Some nv) \<Rightarrow> n \<le> length bs \<and> flags = NGHTTP2_HD_INFLATE_EMIT \<and>
           hn_token nv = lookup_token (hn_name nv))"
  proof (cases "hd_bad (if_ctx ifl)")
    case True
    then show ?thesis using assms by (auto simp: nghttp2_hd_inflate_hd_nv_def)
  next
    case False
    show ?thesis using False by (cases rule: hd_nv_safe [OF assms False, of bs fin]) (auto simp: kept_def)
  qed
  show "inflater_ok (nghttp2_hd_inflate_end_headers ifl)"
    using assms by (auto simp: nghttp2_hd_inflate_end_headers_def hd_inflate_keep_free_def inflater_ok_def inflater_inv_def state_inv_def)
  assume n: "n < 2 ^ 32"
  show "\<exists>r ifl'. nghttp2_hd_inflate_change_table_size ifl n = Some (r, ifl') \<and> inflater_ok ifl' \<and>
      hd_bad (if_ctx ifl') = hd_bad (if_ctx ifl) \<and> (r = Inr () \<longrightarrow> if_limit ifl' \<le> n)"
    by (rule change_table_size_ok [OF assms n])
qed

theorem inflate_safe_witness:
  "inflater_ok example_inflater \<and>
   (\<exists>r ifl'. nghttp2_hd_inflate_hd_nv example_inflater [0x41, 0xFF, 0x00, 0x82] True = Some (r, ifl') \<and> inflater_ok ifl') \<and>
   (\<exists>r ifl'. nghttp2_hd_inflate_change_table_size example_inflater 100 = Some (r, ifl') \<and> inflater_ok ifl')"
proof -
  have "(100 :: nat) < 2 ^ 32" by simp
  with inflate_safe [OF example_inflater_ok(1), of "[0x41, 0xFF, 0x00, 0x82]" True 100] example_inflater_ok(1)
  show ?thesis by blast
qed

end
