(* ===== verification/Nghttp2_Hd_Inflate_Exec.thy ===== *)
theory Nghttp2_Hd_Inflate_Exec
  imports Nghttp2_Hd_Inflate_Safe
begin

text \<open>
  The decompressor executes representations: on input that begins with the encoding of a
  representation of RFC 7541, it emits the field and changes its table as the RFC defines, and
  stops right behind the representation.
\<close>

unbundle bit_operations_syntax

section \<open>Bytes\<close>

lemma u8_eq_bits: "(x :: u8) = y \<longleftrightarrow> (\<forall>n < 8. bit x n \<longleftrightarrow> bit y n)"
  by (auto intro: bit_word_eqI)

lemma all_less_8: "(\<forall>n < (8 :: nat). P n) \<longleftrightarrow> P 0 \<and> P 1 \<and> P 2 \<and> P 3 \<and> P 4 \<and> P 5 \<and> P 6 \<and> P 7"
  by (simp add: eval_nat_numeral less_Suc_eq conj_ac) blast

lemma byte_tests:
  "(x :: u8) AND 0x80 \<noteq> 0 \<longleftrightarrow> bit x 7"
  "x AND 0x40 \<noteq> 0 \<longleftrightarrow> bit x 6"
  "x AND 0xe0 = 0x20 \<longleftrightarrow> \<not> bit x 7 \<and> \<not> bit x 6 \<and> bit x 5"
  "x AND 0xf0 = 0x10 \<longleftrightarrow> \<not> bit x 7 \<and> \<not> bit x 6 \<and> \<not> bit x 5 \<and> bit x 4"
  unfolding u8_eq_bits all_less_8 by (auto simp: bit_simps)

text \<open>The first byte of an encoded integer: the high bits of the given byte, and a prefix that is not zero
  unless the integer is.\<close>

lemma encode_head:
  assumes "0 < p" "p < 8"
  shows "encode_length b n p \<noteq> []" "p \<le> k \<Longrightarrow> k < 8 \<Longrightarrow> bit (encode_length b n p ! 0) k \<longleftrightarrow> bit b k"
    "0 < n \<Longrightarrow> \<exists>k < p. bit (encode_length b n p ! 0) k"
proof -
  let ?m = "2 ^ p - 1 :: nat"
  let ?b = "b AND NOT (word_of_nat ?m)"
  define v where "v = min n ?m"
  have pw: "(2 :: nat) ^ p \<le> 2 ^ 7" using assms by (intro power_increasing) auto
  have p1: "(2 :: nat) ^ 1 \<le> 2 ^ p" using assms by (intro power_increasing) auto
  have v: "v < 2 ^ p" using p1 by (simp add: v_def)
  then have v8: "v < 2 ^ 8" using pw by simp
  have bitv: "bit (word_of_nat v :: u8) k \<longleftrightarrow> k < 8 \<and> bit v k" for k by (simp add: bit_simps)
  have high: "\<not> bit v k" if "p \<le> k" for k
  proof -
    have "v < 2 ^ k" using v that power_increasing [of p k "2 :: nat"] by linarith
    then show ?thesis by (simp add: bit_iff_odd)
  qed
  have m: "bit (word_of_nat ?m :: u8) k \<longleftrightarrow> k < 8 \<and> k < p" for k
    by (simp add: bit_simps bit_mask_iff flip: mask_eq_exp_minus_1)
  let ?w = "?b OR word_of_nat v"
  have e: "\<exists>tl. encode_length b n p = ?w # tl" using p1 by (auto simp: encode_length_def Let_def v_def)
  then obtain tl where tl: "encode_length b n p = ?w # tl" by blast
  have hi: "bit ?w k \<longleftrightarrow> bit b k" if "p \<le> k" "k < 8" for k
    using that high [of k] m [of k] bitv [of k] by (simp add: bit_simps)
  have lo: "\<exists>k < p. bit ?w k" if "0 < n"
  proof -
    have "0 < v" using that p1 by (simp add: v_def)
    then obtain k where k: "bit v k" by (metis bit_eqI bit_0_eq bot_apply bot_bool_def gr_implies_not0)
    then have "k < p" using high leI by blast
    then show ?thesis using k assms by (auto simp: bit_simps bitv intro!: exI [of _ k])
  qed
  show "encode_length b n p \<noteq> []" "p \<le> k \<Longrightarrow> k < 8 \<Longrightarrow> bit (encode_length b n p ! 0) k \<longleftrightarrow> bit b k"
    "0 < n \<Longrightarrow> \<exists>k < p. bit (encode_length b n p ! 0) k"
    using hi lo by (simp_all add: tl)
qed

section \<open>Strings\<close>

lemma read_len_encoded:
  assumes "if_left i = 0" "if_shift i = 0" "0 < p" "p \<le> 8" "n < 2 ^ 32" "n \<le> m"
  shows "\<exists>s. hd_inflate_read_len i (encode_length b n p @ rest) p m =
    Some (Inr (length (encode_length b n p), True), i\<lparr>if_shift := s, if_left := n\<rparr>)"
proof -
  have ne: "encode_length b n p @ rest \<noteq> []" by (simp add: encode_length_def Let_def)
  have u: "unat (word_of_nat n :: u32) = n" by (rule unat_low [OF assms(5)])
  show ?thesis
    using encode_length_decode(1) [OF assms(3-5), of b rest] ne assms(1,2,6) u
    by (intro exI [of _ "7 * (count_encoded_length n p - 2)"]) (simp add: hd_inflate_read_len_def count_encoded_length)
qed

lemma read_plain_string:
  assumes "if_left i = length s"
  shows "\<exists>buf buf'. hd_inflate_read i (fresh_buf (length s + 1)) (s @ rest) = Some (length s, i\<lparr>if_left := 0\<rparr>, buf) \<and>
    buf_terminate buf = Some buf' \<and> nghttp2_buf_len buf' = length s \<and> rc_content (Some (length s)) buf' = Some s"
proof -
  have len: "length s = min (length (s @ rest)) (if_left i)" using assms by simp
  from read_plain [OF _ len, of "[]" "fresh_buf (length s + 1)"] plain_start [of "length s"] assms obtain buf where
    b: "hd_inflate_read i (fresh_buf (length s + 1)) (s @ rest) = Some (length s, i\<lparr>if_left := 0\<rparr>, buf)" "plain_at s 0 buf"
    by auto
  from plain_end [OF b(2)] b(1) show ?thesis by blast
qed

lemma read_huff_string:
  assumes "if_left i = length (huff_bytes s)" "huff_decode_ctx i = nghttp2_hd_huff_decode_context_init"
  defines "e \<equiv> huff_bytes s"
  shows "\<exists>hctx buf buf'. hd_inflate_read_huff i (fresh_buf (huff_room (length e))) (e @ rest) =
      Some (Inr (length e), i\<lparr>huff_decode_ctx := hctx, if_left := 0\<rparr>, buf) \<and>
    buf_terminate buf = Some buf' \<and> nghttp2_buf_len buf' = length s \<and> rc_content (Some (length s)) buf' = Some s"
proof -
  have v: "huff_valid e s" by (simp add: e_def huff_bytes_valid)
  then have f: "huff_final e" by (auto simp: huff_final_def)
  have w: "walk huff_tree (bytes_bits e) \<noteq> None" using v by (auto simp: huff_valid_walk)
  have len: "length e = min (length (e @ rest)) (if_left i)" using assms by simp
  have at: "huff_at [] (if_left i) (fresh_buf (huff_room (length e))) (huff_decode_ctx i)"
    using huff_start [of "length e"] assms by simp
  have t: "[] @ take (length e) (e @ rest) = e" by simp
  have l: "if_left i - length e = 0" using assms(1) by (simp add: e_def)
  from read_huff [OF at len, unfolded t l] w f obtain hctx buf where
    b: "hd_inflate_read_huff i (fresh_buf (huff_room (length e))) (e @ rest) =
      Some (Inr (length e), i\<lparr>huff_decode_ctx := hctx, if_left := 0\<rparr>, buf)" "huff_at e 0 buf hctx" by blast
  from huff_end [OF b(2) f] obtain buf' s' where
    "huff_valid e s'" "buf_terminate buf = Some buf'" "nghttp2_buf_len buf' = length s'" "rc_content (Some (length s')) buf' = Some s'"
    by blast
  then show ?thesis using b(1) huff_valid_unique [OF v, of s'] by blast
qed

text \<open>The shape of an encoded string.\<close>

lemma string_bytes_head:
  obtains e where "string_bytes s \<noteq> []"
    "string_bytes s = encode_length e (string_size s) 7 @ (if bit (string_bytes s ! 0) 7 then huff_bytes s else s)"
    "string_size s = length (if bit (string_bytes s ! 0) 7 then huff_bytes s else s)"
proof -
  define h where "h \<longleftrightarrow> length (huff_bytes s) < length s"
  define e :: u8 where "e = (if h then 0x80 else 0)"
  define t where "t = (if h then huff_bytes s else s)"
  have sb: "string_bytes s = encode_length e (length t) 7 @ t" "string_size s = length t"
    by (simp_all add: string_bytes_def string_size_def Let_def h_def e_def t_def)
  have p: "(0 :: nat) < 7" "(7 :: nat) < 8" by simp_all
  note hd = encode_head(1) [OF p, where b = e and n = "length t"] encode_head(2) [OF p, where b = e and n = "length t" and k = 7]
  have "bit e 7 \<longleftrightarrow> h" by (simp add: e_def bit_simps)
  then have "bit (string_bytes s ! 0) 7 \<longleftrightarrow> h" using hd by (simp add: sb nth_append)
  then show thesis using that [of e] sb hd(1) by (simp add: t_def)
qed

section \<open>Reading a name and a value\<close>

text \<open>A decompressor with table \<open>es\<close> whose allocator does not fail.\<close>

definition ready :: "nghttp2_hd_inflater \<Rightarrow> nghttp2_hd_entry list \<Rightarrow> bool" where
  "ready i es \<longleftrightarrow> ctx_inv (if_ctx i) None es \<and> hd_mem (if_ctx i) = [] \<and> unflagged es"

text \<open>The parts of an inflater that describe the literal that is being read.\<close>

definition same_literal :: "nghttp2_hd_inflater \<Rightarrow> nghttp2_hd_inflater \<Rightarrow> bool" where
  "same_literal i j \<longleftrightarrow> same_limits i j \<and> if_opcode j = if_opcode i \<and> if_index j = if_index i \<and>
     index_required j = index_required i \<and> no_index j = no_index i"

lemma same_literal_trans: "same_literal i j \<Longrightarrow> same_literal j k \<Longrightarrow> same_literal i k"
  by (simp add: same_literal_def same_limits_def)

lemma alloc_ready: "hd_mem (if_ctx i) = [] \<Longrightarrow> inflate_alloc i sz = (Inr (fresh_buf sz), i)"
  by (simp add: inflate_alloc_def fresh_buf_def)

abbreviation huffed :: "bytes \<Rightarrow> bool" where
  "huffed s \<equiv> bit (string_bytes s ! 0) 7"

abbreviation string_data :: "bytes \<Rightarrow> bytes" where
  "string_data s \<equiv> (if huffed s then huff_bytes s else s)"

lemma check_namelen_string:
  assumes "ready i es" and small: "string_size s \<le> NGHTTP2_HD_MAX_NV"
  shows "\<exists>j. inflate_check_namelen i (string_bytes s @ rest) = Some (Break j (string_data s @ rest) False) \<and> ready j es \<and>
    same_literal i j \<and> if_left j = length (string_data s) \<and>
    if_state j = (if huffed s then STATE_NEWNAME_READ_NAMEHUFF else STATE_NEWNAME_READ_NAME) \<and>
    namebuf j = fresh_buf (if huffed s then huff_room (string_size s) else string_size s + 1) \<and>
    (huffed s \<longrightarrow> huff_decode_ctx j = nghttp2_hd_huff_decode_context_init)"
proof -
  obtain e where sb: "string_bytes s \<noteq> []" "string_bytes s = encode_length e (string_size s) 7 @ string_data s"
    "string_size s = length (string_data s)" by (rule string_bytes_head)
  let ?i = "(hd_inflate_set_huffman_encoded i (string_bytes s ! 0))
    \<lparr>if_state := STATE_NEWNAME_READ_NAMELEN, if_left := 0, if_shift := 0\<rparr>"
  have chk: "inflate_check_namelen i (string_bytes s @ rest) = inflate_read_namelen ?i (string_bytes s @ rest)"
    using sb(1) by (cases "string_bytes s") (simp_all add: inflate_check_namelen_def)
  have h: "huffman_encoded ?i \<longleftrightarrow> huffed s" by (simp add: hd_inflate_set_huffman_encoded_def byte_tests(1))
  have m: "hd_mem (if_ctx ?i) = []" using assms(1) by (simp add: ready_def hd_inflate_set_huffman_encoded_def)
  have bytes: "string_bytes s @ rest = encode_length e (string_size s) 7 @ (string_data s @ rest)" using sb(2) by simp
  have z: "if_left ?i = 0" "if_shift ?i = 0" by simp_all
  have lt: "string_size s < 2 ^ 32" using small by (simp add: NGHTTP2_HD_MAX_NV_def)
  have p: "(0::nat) < 7" "(7::nat) \<le> 8" by simp_all
  from read_len_encoded [OF z p lt small] obtain sh where
    r: "hd_inflate_read_len ?i (string_bytes s @ rest) 7 NGHTTP2_HD_MAX_NV =
      Some (Inr (length (encode_length e (string_size s) 7), True), ?i\<lparr>if_shift := sh, if_left := string_size s\<rparr>)"
    unfolding bytes by blast
  have d: "drop (length (encode_length e (string_size s) 7)) (string_bytes s @ rest) = string_data s @ rest"
    unfolding bytes by simp
  define j where "j = (if huffed s
      then ?i\<lparr>if_shift := sh, if_left := string_size s, huff_decode_ctx := nghttp2_hd_huff_decode_context_init, if_state := STATE_NEWNAME_READ_NAMEHUFF\<rparr>
      else ?i\<lparr>if_shift := sh, if_left := string_size s, if_state := STATE_NEWNAME_READ_NAME\<rparr>)"
  define sz where "sz = (if huffed s then huff_room (string_size s) else string_size s + 1)"
  have mj: "hd_mem (if_ctx j) = []" using m by (simp add: j_def)
  have "inflate_check_namelen i (string_bytes s @ rest) =
      Some (Break (j\<lparr>namercbuf := Some sz, namebuf := fresh_buf sz\<rparr>) (string_data s @ rest) False)"
    unfolding chk inflate_read_namelen_def r using h d alloc_ready [OF mj, of sz]
    by (cases "huffed s") (simp_all add: j_def sz_def)
  moreover have "ready (j\<lparr>namercbuf := Some sz, namebuf := fresh_buf sz\<rparr>) es"
    "same_literal i (j\<lparr>namercbuf := Some sz, namebuf := fresh_buf sz\<rparr>)"
    using assms(1) by (simp_all add: ready_def j_def same_literal_def same_limits_def hd_inflate_set_huffman_encoded_def)
  ultimately show ?thesis using sb(3) by (auto simp: j_def sz_def)
qed

lemma check_valuelen_string:
  assumes "ready i es" and small: "string_size s \<le> NGHTTP2_HD_MAX_NV"
  shows "\<exists>j. inflate_check_valuelen i (string_bytes s @ rest) = Some (Break j (string_data s @ rest) True) \<and> ready j es \<and>
    same_literal i j \<and> current_name j es = current_name i es \<and> if_left j = length (string_data s) \<and>
    if_state j = (if huffed s then STATE_READ_VALUEHUFF else STATE_READ_VALUE) \<and>
    valuebuf j = fresh_buf (if huffed s then huff_room (string_size s) else string_size s + 1) \<and>
    (huffed s \<longrightarrow> huff_decode_ctx j = nghttp2_hd_huff_decode_context_init)"
proof -
  obtain e where sb: "string_bytes s \<noteq> []" "string_bytes s = encode_length e (string_size s) 7 @ string_data s"
    "string_size s = length (string_data s)" by (rule string_bytes_head)
  let ?i = "(hd_inflate_set_huffman_encoded i (string_bytes s ! 0))
    \<lparr>if_state := STATE_READ_VALUELEN, if_left := 0, if_shift := 0\<rparr>"
  have chk: "inflate_check_valuelen i (string_bytes s @ rest) = inflate_read_valuelen ?i (string_bytes s @ rest)"
    using sb(1) by (cases "string_bytes s") (simp_all add: inflate_check_valuelen_def)
  have h: "huffman_encoded ?i \<longleftrightarrow> huffed s" by (simp add: hd_inflate_set_huffman_encoded_def byte_tests(1))
  have m: "hd_mem (if_ctx ?i) = []" using assms(1) by (simp add: ready_def hd_inflate_set_huffman_encoded_def)
  have bytes: "string_bytes s @ rest = encode_length e (string_size s) 7 @ (string_data s @ rest)" using sb(2) by simp
  have z: "if_left ?i = 0" "if_shift ?i = 0" by simp_all
  have lt: "string_size s < 2 ^ 32" using small by (simp add: NGHTTP2_HD_MAX_NV_def)
  have p: "(0::nat) < 7" "(7::nat) \<le> 8" by simp_all
  from read_len_encoded [OF z p lt small] obtain sh where
    r: "hd_inflate_read_len ?i (string_bytes s @ rest) 7 NGHTTP2_HD_MAX_NV =
      Some (Inr (length (encode_length e (string_size s) 7), True), ?i\<lparr>if_shift := sh, if_left := string_size s\<rparr>)"
    unfolding bytes by blast
  have d: "drop (length (encode_length e (string_size s) 7)) (string_bytes s @ rest) = string_data s @ rest"
    unfolding bytes by simp
  define j where "j = (if huffed s
      then ?i\<lparr>if_shift := sh, if_left := string_size s, huff_decode_ctx := nghttp2_hd_huff_decode_context_init, if_state := STATE_READ_VALUEHUFF\<rparr>
      else ?i\<lparr>if_shift := sh, if_left := string_size s, if_state := STATE_READ_VALUE\<rparr>)"
  define sz where "sz = (if huffed s then huff_room (string_size s) else string_size s + 1)"
  have mj: "hd_mem (if_ctx j) = []" using m by (simp add: j_def)
  have "inflate_check_valuelen i (string_bytes s @ rest) =
      Some (Break (j\<lparr>valuercbuf := Some sz, valuebuf := fresh_buf sz\<rparr>) (string_data s @ rest) True)"
    unfolding chk inflate_read_valuelen_def r using h d alloc_ready [OF mj, of sz]
    by (cases "huffed s") (simp_all add: j_def sz_def)
  moreover have "ready (j\<lparr>valuercbuf := Some sz, valuebuf := fresh_buf sz\<rparr>) es"
    "same_literal i (j\<lparr>valuercbuf := Some sz, valuebuf := fresh_buf sz\<rparr>)"
    "current_name (j\<lparr>valuercbuf := Some sz, valuebuf := fresh_buf sz\<rparr>) es = current_name i es"
    using assms(1) by (simp_all add: ready_def j_def same_literal_def same_limits_def hd_inflate_set_huffman_encoded_def)
  ultimately show ?thesis using sb(3) by (auto simp: j_def sz_def)
qed

lemma name_data:
  assumes rd: "ready j es" and op: "if_opcode j = OPCODE_NEWNAME" and left: "if_left j = length (string_data s)"
    and st: "if_state j = (if huffed s then STATE_NEWNAME_READ_NAMEHUFF else STATE_NEWNAME_READ_NAME)"
    and nb: "namebuf j = fresh_buf (if huffed s then huff_room (string_size s) else string_size s + 1)"
    and hc: "huffed s \<longrightarrow> huff_decode_ctx j = nghttp2_hd_huff_decode_context_init"
    and sz: "string_size s = length (string_data s)"
  shows "\<exists>k. inflate_step j (string_data s @ rest) = Some (Break k rest False) \<and> ready k es \<and> same_literal j k \<and>
    if_state k = STATE_CHECK_VALUELEN \<and> current_name k es = Some s"
proof (cases "huffed s")
  case True
  from read_huff_string [of j s rest] True left hc obtain hctx buf buf' where
    r: "hd_inflate_read_huff j (fresh_buf (huff_room (length (huff_bytes s)))) (huff_bytes s @ rest) =
      Some (Inr (length (huff_bytes s)), j\<lparr>huff_decode_ctx := hctx, if_left := 0\<rparr>, buf)"
    "buf_terminate buf = Some buf'" "nghttp2_buf_len buf' = length s" "rc_content (Some (length s)) buf' = Some s" by auto
  let ?k = "j\<lparr>huff_decode_ctx := hctx, if_left := 0, namebuf := buf', namercbuf := Some (length s), if_state := STATE_CHECK_VALUELEN\<rparr>"
  have "namebuf j = fresh_buf (huff_room (length (huff_bytes s)))" using nb sz True by simp
  then have "inflate_step j (string_data s @ rest) = Some (Break ?k rest False)" using True st r
    by (simp add: inflate_step_def inflate_read_namehuff_def inflate_name_done_def)
  moreover have "ready ?k es" "same_literal j ?k" "current_name ?k es = Some s"
    using rd op r(4) by (simp_all add: ready_def same_literal_def same_limits_def current_name_def)
  ultimately show ?thesis by (intro exI [of _ ?k]) simp
next
  case False
  from read_plain_string [of j s rest] False left obtain buf buf' where
    r: "hd_inflate_read j (fresh_buf (length s + 1)) (s @ rest) = Some (length s, j\<lparr>if_left := 0\<rparr>, buf)"
    "buf_terminate buf = Some buf'" "nghttp2_buf_len buf' = length s" "rc_content (Some (length s)) buf' = Some s" by auto
  let ?k = "j\<lparr>if_left := 0, namebuf := buf', namercbuf := Some (length s), if_state := STATE_CHECK_VALUELEN\<rparr>"
  have "namebuf j = fresh_buf (length s + 1)" using nb sz False by simp
  then have "inflate_step j (string_data s @ rest) = Some (Break ?k rest False)" using False st r
    by (simp add: inflate_step_def inflate_read_name_def inflate_name_done_def)
  moreover have "ready ?k es" "same_literal j ?k" "current_name ?k es = Some s"
    using rd op r(4) by (simp_all add: ready_def same_literal_def same_limits_def current_name_def)
  ultimately show ?thesis by (intro exI [of _ ?k]) simp
qed

text \<open>The result of committing a field.\<close>

definition committed :: "nghttp2_hd_inflater \<Rightarrow> nghttp2_hd_entry list \<Rightarrow> hfield \<Rightarrow> nghttp2_hd_inflater \<Rightarrow>
    nghttp2_hd_entry list \<Rightarrow> nghttp2_hd_nv \<Rightarrow> bool" where
  "committed i es f k es' nv \<longleftrightarrow> ready k es' \<and> same_limits i k \<and> if_state k = STATE_OPCODE \<and> field nv = f \<and>
     hn_token nv = lookup_token (fst f) \<and> hn_flags nv = inflate_nv_flags i \<and>
     hfields es' = (if index_required i then table_insert (if_limit i) f (hfields es) else hfields es)"

lemma committed_left [simp]:
  "committed (i\<lparr>if_left := n\<rparr>) es f k es' nv = committed i es f k es' nv"
  "committed (i\<lparr>huff_decode_ctx := h\<rparr>) es f k es' nv = committed i es f k es' nv"
  "committed (i\<lparr>huff_decode_ctx := h, if_left := n\<rparr>) es f k es' nv = committed i es f k es' nv"
  by (cases "index_required i"; simp add: committed_def same_limits_def inflate_nv_flags_def)+

lemma value_finish:
  assumes rd: "ready i es" and nm: "current_name i es = Some nm" and left: "if_left i = 0"
    and b: "buf_terminate buf = Some buf'" "nghttp2_buf_len buf' = length v" "rc_content (Some (length v)) buf' = Some v"
    and excl: "\<not> (index_required i \<and> no_index i)"
  shows "\<exists>k es' nv. inflate_value_done i buf rest = Some (Emitted k rest nv) \<and> committed i es (nm, v) k es' nv"
proof -
  let ?j = "i\<lparr>valuebuf := buf', valuercbuf := Some (length v)\<rparr>"
  have ctx: "ctx_inv (if_ctx ?j) None es" "hd_mem (if_ctx ?j) = []" "unflagged es" using rd by (simp_all add: ready_def)
  have nm': "current_name ?j es = Some nm" using nm by simp
  have v: "rc_content (valuercbuf ?j) (valuebuf ?j) = Some v" using b(3) by simp
  from commit_spec [OF ctx(1) nm' v] obtain r k es' where
    c: "commit ?j = Some (r, k)" "ctx_inv (if_ctx k) None es'" "same_limits ?j k"
    "case r of Inl e \<Rightarrow> e = ERR_NOMEM
     | Inr nv \<Rightarrow> field nv = (nm, v) \<and> hn_token nv = lookup_token nm \<and> hn_flags nv = inflate_nv_flags ?j \<and>
         hfields es' = (if index_required ?j then table_insert (if_limit ?j) (nm, v) (hfields es) else hfields es)"
    "(\<exists>nv. r = Inr nv) \<and> hd_mem (if_ctx k) = []" "unflagged es'" using ctx(2,3) excl by auto
  then obtain nv where nv: "r = Inr nv" by blast
  have "inflate_value_done i buf rest = Some (Emitted (k\<lparr>if_state := STATE_OPCODE\<rparr>) rest nv)"
    unfolding inflate_value_done_def Let_def commit_def [symmetric] using left b c(1) nv by simp
  moreover have "committed i es (nm, v) (k\<lparr>if_state := STATE_OPCODE\<rparr>) es' nv"
    using c nv by (simp add: committed_def ready_def same_limits_def inflate_nv_flags_def)
  ultimately show ?thesis by blast
qed

lemma value_data:
  assumes rd: "ready j es" and nm: "current_name j es = Some nm" and left: "if_left j = length (string_data s)"
    and st: "if_state j = (if huffed s then STATE_READ_VALUEHUFF else STATE_READ_VALUE)"
    and nb: "valuebuf j = fresh_buf (if huffed s then huff_room (string_size s) else string_size s + 1)"
    and hc: "huffed s \<longrightarrow> huff_decode_ctx j = nghttp2_hd_huff_decode_context_init"
    and sz: "string_size s = length (string_data s)" and excl: "\<not> (index_required j \<and> no_index j)"
  shows "\<exists>k es' nv. inflate_step j (string_data s @ rest) = Some (Emitted k rest nv) \<and> committed j es (nm, s) k es' nv"
proof (cases "huffed s")
  case True
  from read_huff_string [of j s rest] True left hc obtain hctx buf buf' where
    r: "hd_inflate_read_huff j (fresh_buf (huff_room (length (huff_bytes s)))) (huff_bytes s @ rest) =
      Some (Inr (length (huff_bytes s)), j\<lparr>huff_decode_ctx := hctx, if_left := 0\<rparr>, buf)"
    "buf_terminate buf = Some buf'" "nghttp2_buf_len buf' = length s" "rc_content (Some (length s)) buf' = Some s" by auto
  let ?i = "j\<lparr>huff_decode_ctx := hctx, if_left := 0\<rparr>"
  have "valuebuf j = fresh_buf (huff_room (length (huff_bytes s)))" using nb sz True by simp
  then have e: "inflate_step j (string_data s @ rest) = inflate_value_done ?i buf rest" using True st r
    by (simp add: inflate_step_def inflate_read_valuehuff_def)
  have "ready ?i es" "current_name ?i es = Some nm" "if_left ?i = 0" "\<not> (index_required ?i \<and> no_index ?i)"
    using rd nm excl by (simp_all add: ready_def)
  from value_finish [OF this(1-3) r(2-4) this(4)] show ?thesis unfolding e committed_left .
next
  case False
  from read_plain_string [of j s rest] False left obtain buf buf' where
    r: "hd_inflate_read j (fresh_buf (length s + 1)) (s @ rest) = Some (length s, j\<lparr>if_left := 0\<rparr>, buf)"
    "buf_terminate buf = Some buf'" "nghttp2_buf_len buf' = length s" "rc_content (Some (length s)) buf' = Some s" by auto
  let ?i = "j\<lparr>if_left := 0\<rparr>"
  have "valuebuf j = fresh_buf (length s + 1)" using nb sz False by simp
  then have e: "inflate_step j (string_data s @ rest) = inflate_value_done ?i buf rest" using False st r
    by (simp add: inflate_step_def inflate_read_value_def)
  have "ready ?i es" "current_name ?i es = Some nm" "if_left ?i = 0" "\<not> (index_required ?i \<and> no_index ?i)"
    using rd nm excl by (simp_all add: ready_def)
  from value_finish [OF this(1-3) r(2-4) this(4)] show ?thesis unfolding e committed_left .
qed

lemma inflate_name_string:
  assumes rd: "ready i es" and st: "if_state i = STATE_NEWNAME_CHECK_NAMELEN" and op: "if_opcode i = OPCODE_NEWNAME"
    and small: "string_size s \<le> NGHTTP2_HD_MAX_NV" and ne: "rest \<noteq> []"
  shows "\<exists>k. inflate_loop i (string_bytes s @ rest) False = inflate_loop k rest False \<and> ready k es \<and> same_literal i k \<and>
    if_state k = STATE_CHECK_VALUELEN \<and> current_name k es = Some s"
proof -
  obtain e where sz: "string_size s = length (string_data s)" by (rule string_bytes_head)
  from check_namelen_string [OF rd small] obtain j where
    j: "inflate_check_namelen i (string_bytes s @ rest) = Some (Break j (string_data s @ rest) False)" "ready j es"
    "same_literal i j" "if_left j = length (string_data s)"
    "if_state j = (if huffed s then STATE_NEWNAME_READ_NAMEHUFF else STATE_NEWNAME_READ_NAME)"
    "namebuf j = fresh_buf (if huffed s then huff_room (string_size s) else string_size s + 1)"
    "huffed s \<longrightarrow> huff_decode_ctx j = nghttp2_hd_huff_decode_context_init" by blast
  have op': "if_opcode j = OPCODE_NEWNAME" using op j(3) by (simp add: same_literal_def)
  from name_data [OF j(2) op' j(4-7) sz] obtain k where
    k: "inflate_step j (string_data s @ rest) = Some (Break k rest False)" "ready k es" "same_literal j k"
    "if_state k = STATE_CHECK_VALUELEN" "current_name k es = Some s" by blast
  have "inflate_loop i (string_bytes s @ rest) False = inflate_loop j (string_data s @ rest) False"
    using loop_go [of "string_bytes s @ rest" False i] ne j(1) st by (simp add: inflate_step_def)
  also have "\<dots> = inflate_loop k rest False" using loop_go [of "string_data s @ rest" False j] ne k(1) by simp
  finally show ?thesis using k j(3) same_literal_trans by blast
qed

lemma inflate_value_string:
  assumes rd: "ready i es" and st: "if_state i = STATE_CHECK_VALUELEN" and nm: "current_name i es = Some nm"
    and small: "string_size s \<le> NGHTTP2_HD_MAX_NV" and excl: "\<not> (index_required i \<and> no_index i)"
  shows "\<exists>k es' nv. inflate_loop i (string_bytes s @ rest) False = Some (Emitted k rest nv) \<and> committed i es (nm, s) k es' nv"
proof -
  obtain e where sz: "string_bytes s \<noteq> []" "string_size s = length (string_data s)" by (rule string_bytes_head)
  from check_valuelen_string [OF rd small] obtain j where
    j: "inflate_check_valuelen i (string_bytes s @ rest) = Some (Break j (string_data s @ rest) True)" "ready j es"
    "same_literal i j" "current_name j es = current_name i es" "if_left j = length (string_data s)"
    "if_state j = (if huffed s then STATE_READ_VALUEHUFF else STATE_READ_VALUE)"
    "valuebuf j = fresh_buf (if huffed s then huff_room (string_size s) else string_size s + 1)"
    "huffed s \<longrightarrow> huff_decode_ctx j = nghttp2_hd_huff_decode_context_init" by blast
  have nm': "current_name j es = Some nm" using nm j(4) by simp
  have excl': "\<not> (index_required j \<and> no_index j)" using excl j(3) by (simp add: same_literal_def)
  from value_data [OF j(2) nm' j(5-8) sz(2) excl'] obtain k es' nv where
    k: "inflate_step j (string_data s @ rest) = Some (Emitted k rest nv)" "committed j es (nm, s) k es' nv" by blast
  have "inflate_loop i (string_bytes s @ rest) False = inflate_loop j (string_data s @ rest) True"
    using loop_go [of "string_bytes s @ rest" False i] sz(1) j(1) st by (simp add: inflate_step_def)
  also have "\<dots> = Some (Emitted k rest nv)" using loop_go [of "string_data s @ rest" True j] k(1) by simp
  finally have "inflate_loop i (string_bytes s @ rest) False = Some (Emitted k rest nv)" .
  moreover have "committed i es (nm, s) k es' nv"
    using k(2) j(3) by (simp add: committed_def same_literal_def same_limits_def inflate_nv_flags_def)
  ultimately show ?thesis by blast
qed

section \<open>Representations\<close>

text \<open>How the first byte selects the case.\<close>

lemma opcode_indexed:
  assumes "if_state i \<noteq> STATE_EXPECT_TABLE_SIZE" "bit b 7"
  shows "inflate_opcode i (b # bs) =
    Some (Break (i\<lparr>if_opcode := OPCODE_INDEXED, if_state := STATE_READ_INDEX, if_left := 0, if_shift := 0\<rparr>) (b # bs) False)"
  using assms by (simp add: inflate_opcode_def byte_tests)

lemma opcode_update:
  assumes "if_state i \<noteq> STATE_OPCODE" "\<not> bit b 7" "\<not> bit b 6" "bit b 5"
  shows "inflate_opcode i (b # bs) =
    Some (Break (i\<lparr>if_opcode := OPCODE_INDEXED, if_state := STATE_READ_TABLE_SIZE, if_left := 0, if_shift := 0\<rparr>) (b # bs) False)"
  using assms by (simp add: inflate_opcode_def byte_tests)

lemma opcode_literal:
  assumes "if_state i \<noteq> STATE_EXPECT_TABLE_SIZE" and b: "\<not> bit b 7" "\<not> (\<not> bit b 6 \<and> bit b 5)"
  shows "inflate_opcode i (b # bs) =
    (let i = i\<lparr>index_required := bit b 6, no_index := (\<not> bit b 7 \<and> \<not> bit b 6 \<and> \<not> bit b 5 \<and> bit b 4), if_left := 0, if_shift := 0\<rparr> in
     if b = 0x40 \<or> b = 0 \<or> b = 0x10
     then Some (Break (i\<lparr>if_opcode := OPCODE_NEWNAME, if_state := STATE_NEWNAME_CHECK_NAMELEN\<rparr>) bs False)
     else Some (Break (i\<lparr>if_opcode := OPCODE_INDNAME, if_state := STATE_READ_INDEX\<rparr>) (b # bs) False))"
proof -
  have t: "(b AND 0x80 \<noteq> 0) = False" "(b AND 0x40 \<noteq> 0) = bit b 6" "(b AND 0xe0 = 0x20) = False"
    "(b AND 0xf0 = 0x10) = (\<not> bit b 7 \<and> \<not> bit b 6 \<and> \<not> bit b 5 \<and> bit b 4)"
    using b by (simp_all only: byte_tests) blast+
  show ?thesis using assms(1) unfolding inflate_opcode_def list.case t Let_def
    by (cases "b = 0x40 \<or> b = 0 \<or> b = 0x10") auto
qed

lemma byte_bits:
  "bit (0x80 :: u8) 7" "\<not> bit (0x40 :: u8) 7" "bit (0x40 :: u8) 6" "\<not> bit (0x10 :: u8) 7" "\<not> bit (0x10 :: u8) 6"
  "\<not> bit (0x10 :: u8) 5" "bit (0x10 :: u8) 4" "\<not> bit (0x20 :: u8) 7" "\<not> bit (0x20 :: u8) 6" "bit (0x20 :: u8) 5"
  "\<not> bit (0x40 :: u8) 5" "\<not> bit (0x40 :: u8) 4"
  by (simp_all add: bit_simps)

lemma reads_index:
  assumes rd: "ready i es" and st: "if_state i = STATE_READ_INDEX" "if_left i = 0" "if_shift i = 0"
    and p: "p = (if if_opcode i = OPCODE_INDEXED then 7 else if index_required i then 6 else 4)"
    and look: "table_lookup (hfields es) n = Some f" and n: "n + 1 < 2 ^ 32"
  shows "\<exists>s. inflate_step i (encode_length b (n + 1) p @ rest) =
    (if if_opcode i = OPCODE_INDEXED
     then map_option (Emitted (i\<lparr>if_shift := s, if_left := n + 1, if_index := n, if_state := STATE_OPCODE\<rparr>) rest)
       (nghttp2_hd_table_get (if_ctx i) n)
     else Some (Break (i\<lparr>if_shift := s, if_left := n + 1, if_index := n, if_state := STATE_CHECK_VALUELEN\<rparr>) rest False))"
proof -
  have rep: "ctx_repr (if_ctx i) None es" using rd by (simp add: ready_def ctx_inv_def)
  have "n < 61 + length es" using look lookup_ready [of n es] by simp
  then have m: "n + 1 \<le> get_max_index (if_ctx i)" using hd_table_get_repr(3) [OF rep] by simp
  have p': "0 < p" "p \<le> 8" by (simp_all add: p)
  from read_len_encoded [OF st(2,3) p' n m, of b rest] obtain s where
    r: "hd_inflate_read_len i (encode_length b (n + 1) p @ rest) p (get_max_index (if_ctx i)) =
      Some (Inr (length (encode_length b (n + 1) p), True), i\<lparr>if_shift := s, if_left := n + 1\<rparr>)" by blast
  show ?thesis unfolding inflate_step_def st inflate_read_index_def p [symmetric] Let_def r
    by (rule exI [of _ s]) (simp add: hd_inflate_commit_indexed_def emit_header_def option.map_comp comp_def)
qed

lemma inflate_indexed:
  assumes rd: "ready i es" and st: "if_state i = STATE_OPCODE \<or> if_state i = STATE_INFLATE_START"
    and look: "table_lookup (hfields es) n = Some f" and n: "n + 1 < 2 ^ 32"
  shows "\<exists>k nv. inflate_loop i (repr_bytes (Indexed n) @ rest) False = Some (Emitted k rest nv) \<and> ready k es \<and>
    same_limits i k \<and> if_state k = STATE_OPCODE \<and> field nv = f \<and> hn_token nv = lookup_token (fst f) \<and>
    hn_flags nv = NGHTTP2_NV_FLAG_NONE"
proof -
  have rep: "ctx_repr (if_ctx i) None es" using rd by (simp add: ready_def ctx_inv_def)
  let ?e = "encode_length 0x80 (n + 1) 7"
  have p: "(0 :: nat) < 7" "(7 :: nat) < 8" by simp_all
  note hd = encode_head(1) [OF p, of "0x80" "n + 1"] encode_head(2) [OF p, of 7 "0x80" "n + 1"]
  then obtain b tl where b: "?e = b # tl" "bit b 7" by (cases ?e) (auto simp: byte_bits)
  let ?i = "i\<lparr>if_opcode := OPCODE_INDEXED, if_state := STATE_READ_INDEX, if_left := 0, if_shift := 0\<rparr>"
  have 1: "inflate_loop i (?e @ rest) False = inflate_loop ?i (?e @ rest) False"
    using loop_go [of "?e @ rest" False i] st b opcode_indexed [of i b "tl @ rest"] by (auto simp: inflate_step_def)
  have rd': "ready ?i es" using rd by (simp add: ready_def)
  obtain nv where nv: "nghttp2_hd_table_get (if_ctx i) n = Some nv" "field nv = f"
    using hd_table_get_repr(1) [OF rep, of n] look by auto
  have t: "hn_token nv = lookup_token (fst f)" using hd_table_get_repr(2) [OF rep nv(1)] nv(2) by (auto simp: field_def)
  have fl: "hn_flags nv = NGHTTP2_NV_FLAG_NONE"
    using hd_table_get_repr(4) [OF rep nv(1)] rd by (auto simp: ready_def unflagged_def)
  from reads_index [OF rd' _ _ _ _ look n, of 7 "0x80" rest] obtain s where
    "inflate_step ?i (?e @ rest) = Some (Emitted (?i\<lparr>if_shift := s, if_left := n + 1, if_index := n, if_state := STATE_OPCODE\<rparr>) rest nv)"
    using nv(1) by auto
  then have "inflate_loop ?i (?e @ rest) False =
      Some (Emitted (?i\<lparr>if_shift := s, if_left := n + 1, if_index := n, if_state := STATE_OPCODE\<rparr>) rest nv)"
    using loop_go [of "?e @ rest" False ?i] hd by simp
  then show ?thesis using 1 nv t fl rd
    by (intro exI [of _ "?i\<lparr>if_shift := s, if_left := n + 1, if_index := n, if_state := STATE_OPCODE\<rparr>"] exI [of _ nv])
      (simp add: ready_def same_limits_def)
qed

lemma mode_bits:
  "bit (first_byte mode) 7 = False" "bit (first_byte mode) 5 = False"
  "bit (first_byte mode) 6 \<longleftrightarrow> mode = HD_WITH_INDEXING" "bit (first_byte mode) 4 \<longleftrightarrow> mode = HD_NEVER_INDEXING"
  by (cases mode; simp add: byte_bits)+

text \<open>The outcome of a literal.\<close>

definition literal_done :: "nghttp2_hd_inflater \<Rightarrow> nghttp2_hd_entry list \<Rightarrow> nghttp2_hd_indexing_mode \<Rightarrow> hfield \<Rightarrow>
    inflate_outcome option \<Rightarrow> bytes \<Rightarrow> bool" where
  "literal_done i es mode f out rest \<longleftrightarrow> (\<exists>k es' nv. out = Some (Emitted k rest nv) \<and> ready k es' \<and> same_limits i k \<and>
     if_state k = STATE_OPCODE \<and> field nv = f \<and> hn_token nv = lookup_token (fst f) \<and>
     hn_flags nv = (if mode = HD_NEVER_INDEXING then NGHTTP2_NV_FLAG_NO_INDEX else NGHTTP2_NV_FLAG_NONE) \<and>
     hfields es' = (if mode = HD_WITH_INDEXING then table_insert (if_limit i) f (hfields es) else hfields es))"

lemma value_literal:
  assumes "ready j es" "if_state j = STATE_CHECK_VALUELEN" "current_name j es = Some nm"
    and "string_size v \<le> NGHTTP2_HD_MAX_NV" and same: "same_limits i j"
    and mode: "index_required j = (mode = HD_WITH_INDEXING)" "no_index j = (mode = HD_NEVER_INDEXING)"
  shows "literal_done i es mode (nm, v) (inflate_loop j (string_bytes v @ rest) False) rest"
proof -
  have "\<not> (index_required j \<and> no_index j)" using mode by (cases mode) simp_all
  from inflate_value_string [OF assms(1-4) this] obtain k es' nv where
    k: "inflate_loop j (string_bytes v @ rest) False = Some (Emitted k rest nv)" "committed j es (nm, v) k es' nv" by blast
  have lim: "if_limit j = if_limit i" using same by (simp add: same_limits_def)
  show ?thesis unfolding literal_done_def k(1)
    using k(2) mode same_limits_trans [OF same] unfolding committed_def inflate_nv_flags_def mode lim
    by (intro exI [of _ k] exI [of _ es'] exI [of _ nv]) simp
qed

lemma inflate_lit_new:
  assumes rd: "ready i es" and st: "if_state i = STATE_OPCODE \<or> if_state i = STATE_INFLATE_START"
    and fits: "string_size n \<le> NGHTTP2_HD_MAX_NV" "string_size v \<le> NGHTTP2_HD_MAX_NV"
  shows "literal_done i es mode (n, v) (inflate_loop i (repr_bytes (Lit_New mode n v) @ rest) False) rest"
proof -
  let ?j = "i\<lparr>index_required := mode = HD_WITH_INDEXING, no_index := mode = HD_NEVER_INDEXING, if_left := 0, if_shift := 0,
    if_opcode := OPCODE_NEWNAME, if_state := STATE_NEWNAME_CHECK_NAMELEN\<rparr>"
  let ?r = "string_bytes v @ rest"
  have b: "first_byte mode = 0x40 \<or> first_byte mode = 0 \<or> first_byte mode = 0x10" by (cases mode) simp_all
  have x: "if_state i \<noteq> STATE_EXPECT_TABLE_SIZE" "\<not> bit (first_byte mode) 7" "\<not> (\<not> bit (first_byte mode) 6 \<and> bit (first_byte mode) 5)"
    using st by (auto simp: mode_bits)
  have "inflate_opcode i (first_byte mode # string_bytes n @ ?r) = Some (Break ?j (string_bytes n @ ?r) False)"
    using opcode_literal [OF x, of "string_bytes n @ ?r"] b by (cases mode) (simp_all add: Let_def mode_bits)
  then have 1: "inflate_loop i (repr_bytes (Lit_New mode n v) @ rest) False = inflate_loop ?j (string_bytes n @ ?r) False"
    using loop_go [of "first_byte mode # string_bytes n @ ?r" False i] st by (auto simp: inflate_step_def)
  have rd': "ready ?j es" using rd by (simp add: ready_def)
  have ne: "?r \<noteq> []" by (rule string_bytes_head [of v]) simp
  from inflate_name_string [OF rd' _ _ fits(1) ne] obtain k where
    k: "inflate_loop ?j (string_bytes n @ ?r) False = inflate_loop k ?r False" "ready k es" "same_literal ?j k"
    "if_state k = STATE_CHECK_VALUELEN" "current_name k es = Some n" by auto
  have s: "same_limits i k" "index_required k = (mode = HD_WITH_INDEXING)" "no_index k = (mode = HD_NEVER_INDEXING)"
    using k(3) by (simp_all add: same_literal_def same_limits_def)
  show ?thesis unfolding 1 k(1) by (rule value_literal [OF k(2,4,5) fits(2) s])
qed

lemma inflate_lit_indexed:
  assumes rd: "ready i es" and st: "if_state i = STATE_OPCODE \<or> if_state i = STATE_INFLATE_START"
    and look: "table_lookup (hfields es) n = Some f" and fits: "n + 1 < 2 ^ 32" "string_size v \<le> NGHTTP2_HD_MAX_NV"
  shows "literal_done i es mode (fst f, v) (inflate_loop i (repr_bytes (Lit_Indexed mode n v) @ rest) False) rest"
proof -
  let ?p = "literal_prefix mode" and ?r = "string_bytes v @ rest"
  let ?e = "encode_length (first_byte mode) (n + 1) ?p"
  let ?j = "i\<lparr>index_required := mode = HD_WITH_INDEXING, no_index := mode = HD_NEVER_INDEXING, if_left := 0, if_shift := 0,
    if_opcode := OPCODE_INDNAME, if_state := STATE_READ_INDEX\<rparr>"
  have p: "0 < ?p" "?p < 8" by (simp_all add: literal_prefix_def)
  obtain b tl where b: "?e = b # tl" using encode_head(1) [OF p] by (cases ?e) auto
  have hi: "bit b k = bit (first_byte mode) k" if "?p \<le> k" "k < 8" for k
    using encode_head(2) [OF p that, of "first_byte mode" "n + 1"] unfolding b by simp
  have lo: "\<exists>k < ?p. bit b k" using encode_head(3) [OF p, of "n + 1" "first_byte mode"] unfolding b by simp
  have bits: "\<not> bit b 7" "bit b 6 \<longleftrightarrow> mode = HD_WITH_INDEXING"
    "mode \<noteq> HD_WITH_INDEXING \<Longrightarrow> \<not> bit b 5" "mode \<noteq> HD_WITH_INDEXING \<Longrightarrow> bit b 4 \<longleftrightarrow> mode = HD_NEVER_INDEXING"
    using hi [of 7] hi [of 6] hi [of 5] hi [of 4] by (cases mode; simp add: literal_prefix_def byte_bits)+
  have not: "\<not> (b = 0x40 \<or> b = 0 \<or> b = 0x10)"
  proof
    assume "b = 0x40 \<or> b = 0 \<or> b = 0x10"
    with lo bits obtain k where k: "k < ?p" "bit b k" "b = 0x40 \<and> ?p = 6 \<or> b = 0x10 \<and> ?p = 4"
      by (cases mode) (auto simp: literal_prefix_def byte_bits)
    then have "k \<in> {0, 1, 2, 3, 4, 5} \<and> b = 0x40 \<or> k \<in> {0, 1, 2, 3} \<and> b = 0x10" by auto
    then show False using k(2) by (auto simp: bit_simps)
  qed
  have x: "if_state i \<noteq> STATE_EXPECT_TABLE_SIZE" "\<not> (\<not> bit b 6 \<and> bit b 5)" using st bits by auto
  have "inflate_opcode i (?e @ ?r) = Some (Break ?j (?e @ ?r) False)"
    using opcode_literal [OF x(1) bits(1) x(2), of "tl @ ?r"] not bits unfolding b
    by (cases mode) (simp_all add: Let_def)
  then have 1: "inflate_loop i (?e @ ?r) False = inflate_loop ?j (?e @ ?r) False"
    using loop_go [of "?e @ ?r" False i] st b by (auto simp: inflate_step_def)
  have rd': "ready ?j es" using rd by (simp add: ready_def)
  have pj: "?p = (if if_opcode ?j = OPCODE_INDEXED then 7 else if index_required ?j then 6 else 4)"
    by (simp add: literal_prefix_def)
  from reads_index [OF rd' _ _ _ pj look fits(1), of "first_byte mode" ?r] obtain s where
    s: "inflate_step ?j (?e @ ?r) =
      Some (Break (?j\<lparr>if_shift := s, if_left := n + 1, if_index := n, if_state := STATE_CHECK_VALUELEN\<rparr>) ?r False)"
    by auto
  let ?k = "?j\<lparr>if_shift := s, if_left := n + 1, if_index := n, if_state := STATE_CHECK_VALUELEN\<rparr>"
  have 2: "inflate_loop ?j (?e @ ?r) False = inflate_loop ?k ?r False"
    using loop_go [of "?e @ ?r" False ?j] s b by simp
  have k: "ready ?k es" "if_state ?k = STATE_CHECK_VALUELEN" "current_name ?k es = Some (fst f)" "same_limits i ?k"
    "index_required ?k = (mode = HD_WITH_INDEXING)" "no_index ?k = (mode = HD_NEVER_INDEXING)"
    using rd look by (simp_all add: ready_def current_name_def same_limits_def)
  have 3: "repr_bytes (Lit_Indexed mode n v) @ rest = ?e @ ?r" by simp
  show ?thesis unfolding 3 1 2 by (rule value_literal [OF k(1-3) fits(2) k(4-6)])
qed

lemma inflate_size_update:
  assumes rd: "ready i es" and st: "if_state i = STATE_INFLATE_START \<or> if_state i = STATE_EXPECT_TABLE_SIZE"
    and n: "n \<le> min (if_min_hd_table_bufsize_max i) (settings_hd_table_bufsize_max i)" "n < 2 ^ 32"
  shows "\<exists>k. inflate_loop i (repr_bytes (Size_Update n) @ rest) False = inflate_loop k rest False \<and>
    ready k (fit ent_room n es) \<and> if_state k = STATE_INFLATE_START \<and> if_limit k = n \<and>
    hd_bad (if_ctx k) = hd_bad (if_ctx i) \<and> settings_hd_table_bufsize_max k = settings_hd_table_bufsize_max i \<and>
    if_min_hd_table_bufsize_max k = INFLATE_UINT32_MAX"
proof -
  let ?e = "encode_length 0x20 n 5"
  let ?j = "i\<lparr>if_opcode := OPCODE_INDEXED, if_state := STATE_READ_TABLE_SIZE, if_left := 0, if_shift := 0\<rparr>"
  have p: "(0 :: nat) < 5" "(5 :: nat) < 8" "(5 :: nat) \<le> 8" by simp_all
  obtain b tl where b: "?e = b # tl" using encode_head(1) [OF p(1,2)] by (cases ?e) auto
  have hi: "bit b k = bit (0x20 :: u8) k" if "5 \<le> k" "k < 8" for k
    using encode_head(2) [OF p(1,2) that, of "0x20" n] by (simp add: b)
  have bits: "\<not> bit b 7" "\<not> bit b 6" "bit b 5" using hi [of 7] hi [of 6] hi [of 5] by (simp_all add: byte_bits)
  have "if_state i \<noteq> STATE_OPCODE" using st by auto
  note op = opcode_update [OF this bits, of "tl @ rest"]
  have 1: "inflate_loop i (?e @ rest) False = inflate_loop ?j (?e @ rest) False"
    using loop_go [of "?e @ rest" False i] st op b by (auto simp: inflate_step_def)
  have z: "if_left ?j = 0" "if_shift ?j = 0" by simp_all
  have m: "n \<le> min (if_min_hd_table_bufsize_max ?j) (settings_hd_table_bufsize_max ?j)" using n by simp
  from read_len_encoded [OF z p(1,3) n(2) m, of "0x20" rest] obtain s where
    r: "hd_inflate_read_len ?j (?e @ rest) 5 (min (if_min_hd_table_bufsize_max ?j) (settings_hd_table_bufsize_max ?j)) =
      Some (Inr (length ?e, True), ?j\<lparr>if_shift := s, if_left := n\<rparr>)" by blast
  have inv: "ctx_inv (if_ctx i) None es" using rd by (simp add: ready_def)
  with n(2) shrink_repr [of "(if_ctx i)\<lparr>hd_table_bufsize_max := n\<rparr>" None es] obtain ctx' where
    c: "hd_context_shrink_table_size ((if_ctx i)\<lparr>hd_table_bufsize_max := n\<rparr>) None = Some (ctx', None)"
    "ctx_inv ctx' None (fit ent_room n es)" "hd_table_bufsize_max ctx' = n" "hd_mem ctx' = hd_mem (if_ctx i)"
    "hd_bad ctx' = hd_bad (if_ctx i)" by (auto simp: ctx_inv_def)
  let ?k = "?j\<lparr>if_shift := s, if_left := n, if_min_hd_table_bufsize_max := INFLATE_UINT32_MAX, if_ctx := ctx', if_state := STATE_INFLATE_START\<rparr>"
  have "inflate_step ?j (?e @ rest) = Some (Break ?k rest False)"
    using r c(1) by (simp add: inflate_step_def inflate_read_table_size_def Let_def)
  then have 2: "inflate_loop ?j (?e @ rest) False = inflate_loop ?k rest False"
    using loop_go [of "?e @ rest" False ?j] b by simp
  have "unflagged (fit ent_room n es)"
    using rd fit_prefix [of ent_room n es] set_take_subset [of _ es] by (fastforce simp: ready_def unflagged_def)
  then have "ready ?k (fit ent_room n es)" using rd c by (simp add: ready_def)
  then show ?thesis using 1 2 c by (intro exI [of _ ?k]) simp
qed

text \<open>
  One field representation, executed as RFC 7541 says: the field, its flag, and the table.
\<close>

lemma inflate_field:
  assumes rd: "ready i es" and st: "if_state i = STATE_OPCODE \<or> if_state i = STATE_INFLATE_START"
    and c: "is_field c" "repr_fits NGHTTP2_HD_MAX_NV c"
    and ex: "exec c (if_limit i, hfields es) = Some (x, s)"
  shows "\<exists>f never k es' nv. x = Some (f, never) \<and> inflate_loop i (repr_bytes c @ rest) False = Some (Emitted k rest nv) \<and>
    ready k es' \<and> same_limits i k \<and> if_state k = STATE_OPCODE \<and> field nv = f \<and> hn_token nv = lookup_token (fst f) \<and>
    hn_flags nv = (if never then NGHTTP2_NV_FLAG_NO_INDEX else NGHTTP2_NV_FLAG_NONE) \<and> s = (if_limit i, hfields es')"
proof -
  have lit: ?thesis if "literal_done i es mode f (inflate_loop i (repr_bytes c @ rest) False) rest"
    "(x, s) = literal mode f (if_limit i, hfields es)" for mode f
  proof -
    from that(1) obtain k es' nv where
      k: "inflate_loop i (repr_bytes c @ rest) False = Some (Emitted k rest nv)" "ready k es'" "same_limits i k"
      "if_state k = STATE_OPCODE" "field nv = f" "hn_token nv = lookup_token (fst f)"
      "hn_flags nv = (if mode = HD_NEVER_INDEXING then NGHTTP2_NV_FLAG_NO_INDEX else NGHTTP2_NV_FLAG_NONE)"
      "hfields es' = (if mode = HD_WITH_INDEXING then table_insert (if_limit i) f (hfields es) else hfields es)"
      unfolding literal_done_def by blast
    moreover have "x = Some (f, mode = HD_NEVER_INDEXING)" "s = (if_limit i, hfields es')"
      using that(2) k(8) by (simp_all add: literal_def)
    ultimately show ?thesis by blast
  qed
  show ?thesis
  proof (cases c)
    case (Indexed n)
    then obtain f where f: "table_lookup (hfields es) n = Some f" "x = Some (f, False)" "s = (if_limit i, hfields es)"
      using ex by auto
    have "n + 1 < 2 ^ 32" using c(2) Indexed by simp
    from inflate_indexed [OF rd st f(1) this, of rest] show ?thesis using f(2,3) Indexed by auto
  next
    case (Lit_Indexed mode n v)
    then obtain f where f: "table_lookup (hfields es) n = Some f" "(x, s) = literal mode (fst f, v) (if_limit i, hfields es)"
      using ex by auto
    have "n + 1 < 2 ^ 32" "string_size v \<le> NGHTTP2_HD_MAX_NV" using c(2) Lit_Indexed by simp_all
    from lit [OF inflate_lit_indexed [OF rd st f(1) this, of mode rest, folded Lit_Indexed] f(2)] show ?thesis .
  next
    case (Lit_New mode n v)
    then have f: "(x, s) = literal mode (n, v) (if_limit i, hfields es)" using ex by simp
    have "string_size n \<le> NGHTTP2_HD_MAX_NV" "string_size v \<le> NGHTTP2_HD_MAX_NV" using c(2) Lit_New by simp_all
    from lit [OF inflate_lit_new [OF rd st this, of mode rest, folded Lit_New] f] show ?thesis .
  qed (use c(1) in simp)
qed

end
