(* ===== verification/Nghttp2_Hd_Deflate.thy ===== *)
theory Nghttp2_Hd_Deflate
  imports Nghttp2_Hd_Table Nghttp2_Hd_Int Nghttp2_Huffman
begin

text \<open>
  The compressor of HPACK, from \<open>src/src/nghttp2/lib/nghttp2_hd.c\<close>: the blocks it writes, the
  choice between them, table size updates and the entry points. The outer \<open>None\<close> of a result
  stands for a failed assertion.
\<close>

unbundle bit_operations_syntax

section \<open>The deflater\<close>

record nghttp2_hd_deflater =
  df_ctx :: nghttp2_hd_context
  df_map :: nghttp2_hd_map
  deflate_hd_table_bufsize_max :: nat
  df_min_hd_table_bufsize_max :: nat
  notify_table_size_change :: bool

definition NGHTTP2_HD_DEFAULT_MAX_DEFLATE_BUFFER_SIZE :: nat where
  "NGHTTP2_HD_DEFAULT_MAX_DEFLATE_BUFFER_SIZE = 2 ^ 12"

definition UINT32_MAX :: nat where "UINT32_MAX = 2 ^ 32 - 1"

definition nghttp2_hd_deflate_init2 :: "nat \<Rightarrow> nghttp2_mem \<Rightarrow> nghttp2_hd_deflater res" where
  "nghttp2_hd_deflate_init2 max_deflate_dynamic_table_size mem =
     (case hd_context_init mem of
        Inl e \<Rightarrow> Inl e
      | Inr ctx \<Rightarrow>
          let (notify, ctx) =
            (if max_deflate_dynamic_table_size < NGHTTP2_HD_DEFAULT_MAX_BUFFER_SIZE
             then (True, ctx\<lparr>hd_table_bufsize_max := max_deflate_dynamic_table_size\<rparr>) else (False, ctx))
          in Inr \<lparr>df_ctx = ctx, df_map = hd_map_init,
                  deflate_hd_table_bufsize_max = max_deflate_dynamic_table_size,
                  df_min_hd_table_bufsize_max = UINT32_MAX, notify_table_size_change = notify\<rparr>)"

definition nghttp2_hd_deflate_init :: "nghttp2_mem \<Rightarrow> nghttp2_hd_deflater res" where
  "nghttp2_hd_deflate_init mem = nghttp2_hd_deflate_init2 NGHTTP2_HD_DEFAULT_MAX_DEFLATE_BUFFER_SIZE mem"

definition nghttp2_hd_deflate_new2 :: "nat \<Rightarrow> nghttp2_mem \<Rightarrow> nghttp2_hd_deflater res" where
  "nghttp2_hd_deflate_new2 deflate_bufsize_max mem =
     (let (ok, mem) = mem_alloc mem in
      if \<not> ok then Inl ERR_NOMEM else nghttp2_hd_deflate_init2 deflate_bufsize_max mem)"

definition nghttp2_hd_deflate_change_table_size :: "nghttp2_hd_deflater \<Rightarrow> nat \<Rightarrow> nghttp2_hd_deflater option" where
  "nghttp2_hd_deflate_change_table_size deflater settings_max_dynamic_table_size =
     (let next_bufsize = min settings_max_dynamic_table_size (deflate_hd_table_bufsize_max deflater);
          ctx = (df_ctx deflater)\<lparr>hd_table_bufsize_max := next_bufsize\<rparr>;
          deflater = deflater\<lparr>df_min_hd_table_bufsize_max := min (df_min_hd_table_bufsize_max deflater) next_bufsize,
                              notify_table_size_change := True\<rparr>
      in
        case hd_context_shrink_table_size ctx (Some (df_map deflater)) of
          Some (ctx, Some mp) \<Rightarrow> Some (deflater\<lparr>df_ctx := ctx, df_map := mp\<rparr>)
        | _ \<Rightarrow> None)"

section \<open>Blocks\<close>

text \<open>\<open>sizeof(sb)\<close> is 16.\<close>

definition emit_table_size :: "nghttp2_bufs \<Rightarrow> nat \<Rightarrow> unit res \<times> nghttp2_bufs" where
  "emit_table_size bufs table_size =
     (let blocklen = count_encoded_length table_size 5 in
      if 16 < blocklen then (Inl ERR_HEADER_COMP, bufs)
      else nghttp2_bufs_add bufs (take blocklen (encode_length 0x20 table_size 5)))"

definition emit_indexed_block :: "nghttp2_bufs \<Rightarrow> nat \<Rightarrow> unit res \<times> nghttp2_bufs" where
  "emit_indexed_block bufs idx =
     (let blocklen = count_encoded_length (idx + 1) 7 in
      if 16 < blocklen then (Inl ERR_HEADER_COMP, bufs)
      else nghttp2_bufs_add bufs (take blocklen (encode_length 0x80 (idx + 1) 7)))"

definition emit_string :: "nghttp2_bufs \<Rightarrow> bytes \<Rightarrow> (unit res \<times> nghttp2_bufs) option" where
  "emit_string bufs str =
     (let enclen = nghttp2_hd_huff_encode_count str;
          huffman = (enclen < length str);
          enclen = (if huffman then enclen else length str);
          blocklen = count_encoded_length enclen 7
      in
        if 16 < blocklen then Some (Inl ERR_HEADER_COMP, bufs)
        else
          and_then_opt
            (Some (nghttp2_bufs_add bufs (take blocklen (encode_length (if huffman then 0x80 else 0) enclen 7))))
            (\<lambda>bufs. if huffman then nghttp2_hd_huff_encode bufs str else Some (nghttp2_bufs_add bufs str)))"

fun pack_first_byte :: "nghttp2_hd_indexing_mode \<Rightarrow> u8" where
  "pack_first_byte HD_WITH_INDEXING = 0x40"
| "pack_first_byte HD_WITHOUT_INDEXING = 0"
| "pack_first_byte HD_NEVER_INDEXING = 0x10"

definition emit_indname_block ::
  "nghttp2_bufs \<Rightarrow> nat \<Rightarrow> nghttp2_nv \<Rightarrow> nghttp2_hd_indexing_mode \<Rightarrow> (unit res \<times> nghttp2_bufs) option" where
  "emit_indname_block bufs idx nv indexing_mode =
     (let prefixlen = (if indexing_mode = HD_WITH_INDEXING then 6 else 4);
          blocklen = count_encoded_length (idx + 1) prefixlen
      in
        if 16 < blocklen then Some (Inl ERR_HEADER_COMP, bufs)
        else
          and_then_opt
            (Some (nghttp2_bufs_add bufs (take blocklen (encode_length (pack_first_byte indexing_mode) (idx + 1) prefixlen))))
            (\<lambda>bufs. emit_string bufs (nv_value nv)))"

definition emit_newname_block ::
  "nghttp2_bufs \<Rightarrow> nghttp2_nv \<Rightarrow> nghttp2_hd_indexing_mode \<Rightarrow> (unit res \<times> nghttp2_bufs) option" where
  "emit_newname_block bufs nv indexing_mode =
     and_then_opt (nghttp2_bufs_addb bufs (pack_first_byte indexing_mode))
       (\<lambda>bufs. and_then_opt (emit_string bufs (nv_name nv)) (\<lambda>bufs. emit_string bufs (nv_value nv)))"

section \<open>Compression of a header field\<close>

definition hd_deflate_decide_indexing ::
  "nghttp2_hd_deflater \<Rightarrow> nghttp2_nv \<Rightarrow> int \<Rightarrow> nghttp2_hd_indexing_mode" where
  "hd_deflate_decide_indexing deflater nv token =
     (if token = NGHTTP2_TOKEN__PATH \<or> token = NGHTTP2_TOKEN_AGE \<or> token = NGHTTP2_TOKEN_CONTENT_LENGTH \<or>
         token = NGHTTP2_TOKEN_ETAG \<or> token = NGHTTP2_TOKEN_IF_MODIFIED_SINCE \<or>
         token = NGHTTP2_TOKEN_IF_NONE_MATCH \<or> token = NGHTTP2_TOKEN_LOCATION \<or>
         token = NGHTTP2_TOKEN_SET_COOKIE \<or>
         hd_table_bufsize_max (df_ctx deflater) * 3 div 4 < entry_room (length (nv_name nv)) (length (nv_value nv))
      then HD_WITHOUT_INDEXING else HD_WITH_INDEXING)"

text \<open>
  The part of \<open>deflate_nv\<close> that stores the field in the dynamic table: the name is that of the
  entry \<open>idx\<close> or a copy, the value is a copy, and any error of the insertion is reported as
  \<open>NGHTTP2_ERR_HEADER_COMP\<close>.
\<close>

definition deflate_store ::
  "nghttp2_hd_deflater \<Rightarrow> nghttp2_nv \<Rightarrow> int \<Rightarrow> int \<Rightarrow> u32 \<Rightarrow> (unit res \<times> nghttp2_hd_deflater) option" where
  "deflate_store deflater nv idx token hash =
     (let ctx = df_ctx deflater;
          name = (if idx \<noteq> - 1 then map_option (\<lambda>e. (Inr (hn_name e), hd_mem ctx)) (nghttp2_hd_table_get ctx (nat idx))
                  else let (ok, mem) = mem_alloc (hd_mem ctx) in
                       Some (if ok then Inr (nv_name nv) else Inl ERR_NOMEM, mem))
      in
        case name of
          None \<Rightarrow> None
        | Some (Inl e, mem) \<Rightarrow> Some (Inl e, deflater\<lparr>df_ctx := ctx\<lparr>hd_mem := mem\<rparr>\<rparr>)
        | Some (Inr name, mem) \<Rightarrow>
            let (ok, mem) = mem_alloc mem; ctx = ctx\<lparr>hd_mem := mem\<rparr> in
            if \<not> ok then Some (Inl ERR_NOMEM, deflater\<lparr>df_ctx := ctx\<rparr>)
            else
              let hd_nv = \<lparr>hn_name = name, hn_value = nv_value nv, hn_token = token, hn_flags = NGHTTP2_NV_FLAG_NONE\<rparr> in
              case add_hd_table_incremental ctx hd_nv (Some (df_map deflater)) hash of
                Some (r, ctx, Some mp) \<Rightarrow>
                  Some (case r of Inl e \<Rightarrow> Inl ERR_HEADER_COMP | Inr u \<Rightarrow> Inr u, deflater\<lparr>df_ctx := ctx, df_map := mp\<rparr>)
              | _ \<Rightarrow> None)"

definition deflate_nv ::
  "nghttp2_hd_deflater \<Rightarrow> nghttp2_bufs \<Rightarrow> nghttp2_nv \<Rightarrow> (unit res \<times> nghttp2_hd_deflater \<times> nghttp2_bufs) option" where
  "deflate_nv deflater bufs nv =
     (let token = lookup_token (nv_name nv);
          hash = (if token = - 1 then name_hash (nv_name nv)
                  else if token \<le> NGHTTP2_TOKEN_WWW_AUTHENTICATE then se_hash (static_table ! nat token) else 0);
          indexing_mode =
            (if token = NGHTTP2_TOKEN_AUTHORIZATION \<or> (token = NGHTTP2_TOKEN_COOKIE \<and> length (nv_value nv) < 20) \<or>
                nv_flags nv AND NGHTTP2_NV_FLAG_NO_INDEX \<noteq> 0
             then HD_NEVER_INDEXING else hd_deflate_decide_indexing deflater nv token);
          res = search_hd_table (df_ctx deflater) nv token indexing_mode (df_map deflater) hash;
          idx = sr_index res
      in
        if name_value_match res then
          (let (r, bufs) = emit_indexed_block bufs (nat idx) in Some (r, deflater, bufs))
        else
          case (if indexing_mode = HD_WITH_INDEXING then deflate_store deflater nv idx token hash
                else Some (Inr (), deflater)) of
            None \<Rightarrow> None
          | Some (Inl e, deflater) \<Rightarrow> Some (Inl e, deflater, bufs)
          | Some (Inr _, deflater) \<Rightarrow>
              map_option (\<lambda>(r, bufs). (r, deflater, bufs))
                (if idx = - 1 then emit_newname_block bufs nv indexing_mode
                 else emit_indname_block bufs (nat idx) nv indexing_mode))"

fun deflate_nvs ::
  "nghttp2_hd_deflater \<Rightarrow> nghttp2_bufs \<Rightarrow> nghttp2_nv list \<Rightarrow> (unit res \<times> nghttp2_hd_deflater \<times> nghttp2_bufs) option" where
  "deflate_nvs deflater bufs [] = Some (Inr (), deflater, bufs)"
| "deflate_nvs deflater bufs (nv # nva) =
     (case deflate_nv deflater bufs nv of
        None \<Rightarrow> None
      | Some (Inl e, deflater, bufs) \<Rightarrow> Some (Inl e, deflater, bufs)
      | Some (Inr _, deflater, bufs) \<Rightarrow> deflate_nvs deflater bufs nva)"

section \<open>Header blocks\<close>

text \<open>The table size updates at the start of a block.\<close>

definition deflate_notify :: "nghttp2_hd_deflater \<Rightarrow> nghttp2_bufs \<Rightarrow> unit res \<times> nghttp2_hd_deflater \<times> nghttp2_bufs" where
  "deflate_notify deflater bufs =
     (if \<not> notify_table_size_change deflater then (Inr (), deflater, bufs)
      else
        let min_size = df_min_hd_table_bufsize_max deflater;
            deflater = deflater\<lparr>notify_table_size_change := False, df_min_hd_table_bufsize_max := UINT32_MAX\<rparr>;
            (r, bufs) =
              and_then (if min_size < hd_table_bufsize_max (df_ctx deflater) then emit_table_size bufs min_size
                        else (Inr (), bufs))
                (\<lambda>bufs. emit_table_size bufs (hd_table_bufsize_max (df_ctx deflater)))
        in (r, deflater, bufs))"

definition deflate_fail :: "nghttp2_hd_deflater \<Rightarrow> nghttp2_hd_deflater" where
  "deflate_fail deflater = deflater\<lparr>df_ctx := (df_ctx deflater)\<lparr>hd_bad := True\<rparr>\<rparr>"

definition nghttp2_hd_deflate_hd_bufs ::
  "nghttp2_hd_deflater \<Rightarrow> nghttp2_bufs \<Rightarrow> nghttp2_nv list \<Rightarrow> (unit res \<times> nghttp2_hd_deflater \<times> nghttp2_bufs) option" where
  "nghttp2_hd_deflate_hd_bufs deflater bufs nva =
     (if hd_bad (df_ctx deflater) then Some (Inl ERR_HEADER_COMP, deflater, bufs)
      else
        case deflate_notify deflater bufs of
          (Inl e, deflater, bufs) \<Rightarrow> Some (Inl e, deflate_fail deflater, bufs)
        | (Inr _, deflater, bufs) \<Rightarrow>
            (case deflate_nvs deflater bufs nva of
               None \<Rightarrow> None
             | Some (Inl e, deflater, bufs) \<Rightarrow> Some (Inl e, deflate_fail deflater, bufs)
             | Some (Inr u, deflater, bufs) \<Rightarrow> Some (Inr u, deflater, bufs)))"

text \<open>
  The entry points that write to memory of the caller. The bytes written are the content of the
  chain that wraps this memory. An allocation for the chain is taken from the allocator of the
  context.
\<close>

definition deflate_wrapped ::
  "nghttp2_hd_deflater \<Rightarrow> nghttp2_bufs res \<times> nghttp2_mem \<Rightarrow> nghttp2_nv list \<Rightarrow>
   (nat res \<times> nghttp2_hd_deflater \<times> bytes) option" where
  "deflate_wrapped deflater wrapped nva =
     (case wrapped of
        (Inl e, mem) \<Rightarrow> Some (Inl e, deflater\<lparr>df_ctx := (df_ctx deflater)\<lparr>hd_mem := mem\<rparr>\<rparr>, [])
      | (Inr bufs, mem) \<Rightarrow>
          (case nghttp2_hd_deflate_hd_bufs (deflater\<lparr>df_ctx := (df_ctx deflater)\<lparr>hd_mem := mem\<rparr>\<rparr>) bufs nva of
             None \<Rightarrow> None
           | Some (r, deflater, bufs) \<Rightarrow>
               let buflen = nghttp2_bufs_len bufs in
               Some (case r of
                   Inl e \<Rightarrow> Inl (if e = ERR_BUFFER_ERROR then ERR_INSUFF_BUFSIZE else e)
                 | Inr _ \<Rightarrow> Inr buflen, deflater, bufs_data bufs)))"

definition nghttp2_hd_deflate_hd2 ::
  "nghttp2_hd_deflater \<Rightarrow> bytes \<Rightarrow> nghttp2_nv list \<Rightarrow> (nat res \<times> nghttp2_hd_deflater \<times> bytes) option" where
  "nghttp2_hd_deflate_hd2 deflater buf nva =
     deflate_wrapped deflater (nghttp2_bufs_wrap_init buf (hd_mem (df_ctx deflater))) nva"

definition nghttp2_hd_deflate_hd_vec2 ::
  "nghttp2_hd_deflater \<Rightarrow> bytes list \<Rightarrow> nghttp2_nv list \<Rightarrow> (nat res \<times> nghttp2_hd_deflater \<times> bytes) option" where
  "nghttp2_hd_deflate_hd_vec2 deflater vec nva =
     deflate_wrapped deflater (nghttp2_bufs_wrap_init2 vec (hd_mem (df_ctx deflater))) nva"

definition nghttp2_hd_deflate_bound :: "nghttp2_hd_deflater \<Rightarrow> nghttp2_nv list \<Rightarrow> nat" where
  "nghttp2_hd_deflate_bound deflater nva =
     12 + 6 * 2 * length nva + sum_list (map (\<lambda>nv. length (nv_name nv) + length (nv_value nv)) nva)"

definition nghttp2_hd_deflate_get_num_table_entries :: "nghttp2_hd_deflater \<Rightarrow> nat" where
  "nghttp2_hd_deflate_get_num_table_entries deflater = get_max_index (df_ctx deflater)"

definition nghttp2_hd_deflate_get_table_entry :: "nghttp2_hd_deflater \<Rightarrow> nat \<Rightarrow> nghttp2_nv option option" where
  "nghttp2_hd_deflate_get_table_entry deflater idx = hd_get_table_entry (df_ctx deflater) idx"

definition nghttp2_hd_deflate_get_dynamic_table_size :: "nghttp2_hd_deflater \<Rightarrow> nat" where
  "nghttp2_hd_deflate_get_dynamic_table_size deflater = hd_table_bufsize (df_ctx deflater)"

definition nghttp2_hd_deflate_get_max_dynamic_table_size :: "nghttp2_hd_deflater \<Rightarrow> nat" where
  "nghttp2_hd_deflate_get_max_dynamic_table_size deflater = hd_table_bufsize_max (df_ctx deflater)"

end
