(* ===== verification/Nghttp2_Hd_Deflate_Correct.thy ===== *)
theory Nghttp2_Hd_Deflate_Correct
  imports Nghttp2_Hd_Deflate Nghttp2_Hd_Spec
begin

text \<open>
  What the compressor writes: every call appends the encoding of a sequence of representations
  whose execution on the dynamic table, as RFC 7541 defines it, yields the given header fields
  and the table that the compressor has afterwards.
\<close>

unbundle bit_operations_syntax

section \<open>Blocks are writes of encoded representations\<close>

text \<open>A chain that the producers of a header block may write to.\<close>

definition sink_ok :: "nghttp2_bufs \<Rightarrow> bool" where
  "sink_ok bufs \<longleftrightarrow> bufs_wf bufs \<and> bufs_roomy bufs"

lemma sink_add: "sink_ok bufs \<Longrightarrow> nghttp2_bufs_add bufs p = (r, bufs') \<Longrightarrow> sink_ok bufs'"
  using nghttp2_bufs_add_ok bufs_roomy_add by (auto simp: sink_ok_def)

lemma and_then_add:
  assumes "sink_ok bufs" and "\<And>b. sink_ok b \<Longrightarrow> k b = nghttp2_bufs_add b q"
  shows "and_then (nghttp2_bufs_add bufs p) k = nghttp2_bufs_add bufs (p @ q)"
proof -
  obtain r b where a: "nghttp2_bufs_add bufs p = (r, b)" by fastforce
  have "bufs_wf bufs" using assms(1) by (simp add: sink_ok_def)
  from nghttp2_bufs_add_append [OF this, of p q] show ?thesis
    using a assms(2) [OF sink_add [OF assms(1) a]] by (cases r) (auto simp: and_then_def)
qed

lemma and_then_opt_add:
  assumes "sink_ok bufs" and "\<And>b. sink_ok b \<Longrightarrow> k b = Some (nghttp2_bufs_add b q)"
  shows "and_then_opt (Some (nghttp2_bufs_add bufs p)) k = Some (nghttp2_bufs_add bufs (p @ q))"
proof -
  obtain r b where a: "nghttp2_bufs_add bufs p = (r, b)" by fastforce
  have "bufs_wf bufs" using assms(1) by (simp add: sink_ok_def)
  from nghttp2_bufs_add_append [OF this, of p q] show ?thesis
    using a assms(2) [OF sink_add [OF assms(1) a]] by (cases r) (auto simp: and_then_opt_def)
qed

lemma first_byte_pack: "pack_first_byte mode = first_byte mode"
  by (cases mode) simp_all

lemma encoded_short: "n < 2 ^ 32 \<Longrightarrow> 0 < prefix \<Longrightarrow> prefix \<le> 8 \<Longrightarrow> \<not> 16 < count_encoded_length n prefix"
  using encode_length_decode(2) [of prefix n] by simp

lemma take_encoded: "take (count_encoded_length n prefix) (encode_length b n prefix) = encode_length b n prefix"
  by (simp flip: count_encoded_length [of b n prefix])

lemma emit_table_size_add:
  "n < 2 ^ 32 \<Longrightarrow> emit_table_size bufs n = nghttp2_bufs_add bufs (repr_bytes (Size_Update n))"
  using encoded_short [of n 5] by (simp add: emit_table_size_def Let_def take_encoded)

lemma emit_indexed_block_add:
  "i + 1 < 2 ^ 32 \<Longrightarrow> emit_indexed_block bufs i = nghttp2_bufs_add bufs (repr_bytes (Indexed i))"
  using encoded_short [of "i + 1" 7] by (simp add: emit_indexed_block_def Let_def take_encoded)

lemma emit_string_add:
  assumes "sink_ok bufs" "string_size s < 2 ^ 32"
  shows "emit_string bufs s = Some (nghttp2_bufs_add bufs (string_bytes s))"
proof -
  let ?h = "length (huff_bytes s) < length s"
  let ?n = "if ?h then length (huff_bytes s) else length s"
  have n: "?n < 2 ^ 32" using assms(2) by (auto simp: string_size_def)
  have "emit_string bufs s =
      and_then_opt (Some (nghttp2_bufs_add bufs (encode_length (if ?h then 0x80 else 0) ?n 7)))
        (\<lambda>bufs. if ?h then nghttp2_hd_huff_encode bufs s else Some (nghttp2_bufs_add bufs s))"
    using encoded_short [OF n, of 7] unfolding emit_string_def huff_encode_count Let_def take_encoded by simp
  also have "\<dots> = Some (nghttp2_bufs_add bufs (encode_length (if ?h then 0x80 else 0) ?n 7 @ (if ?h then huff_bytes s else s)))"
    using huff_encode_is_add by (intro and_then_opt_add [OF assms(1)]) (auto simp: sink_ok_def)
  finally show ?thesis by (simp add: string_bytes_def Let_def split: if_splits)
qed

lemma emit_indname_block_add:
  assumes "sink_ok bufs" "i + 1 < 2 ^ 32" "string_size (nv_value nv) < 2 ^ 32"
  shows "emit_indname_block bufs i nv mode = Some (nghttp2_bufs_add bufs (repr_bytes (Lit_Indexed mode i (nv_value nv))))"
proof -
  have "0 < literal_prefix mode" "literal_prefix mode \<le> 8" by (simp_all add: literal_prefix_def)
  from encoded_short [OF assms(2) this] have "emit_indname_block bufs i nv mode =
      and_then_opt (Some (nghttp2_bufs_add bufs (encode_length (first_byte mode) (i + 1) (literal_prefix mode))))
        (\<lambda>bufs. emit_string bufs (nv_value nv))"
    unfolding emit_indname_block_def Let_def literal_prefix_def [symmetric] take_encoded first_byte_pack by simp
  also have "\<dots> = Some (nghttp2_bufs_add bufs (repr_bytes (Lit_Indexed mode i (nv_value nv))))"
    unfolding repr_bytes.simps using assms(3) by (intro and_then_opt_add [OF assms(1)] emit_string_add)
  finally show ?thesis .
qed

lemma emit_newname_block_add:
  assumes "sink_ok bufs" "string_size (nv_name nv) < 2 ^ 32" "string_size (nv_value nv) < 2 ^ 32"
  shows "emit_newname_block bufs nv mode = Some (nghttp2_bufs_add bufs (repr_bytes (Lit_New mode (nv_name nv) (nv_value nv))))"
proof -
  have rest: "and_then_opt (emit_string b (nv_name nv)) (\<lambda>b. emit_string b (nv_value nv)) =
      Some (nghttp2_bufs_add b (string_bytes (nv_name nv) @ string_bytes (nv_value nv)))" if b: "sink_ok b" for b
    unfolding emit_string_add [OF b assms(2)] using assms(3) by (intro and_then_opt_add [OF b] emit_string_add)
  have "nghttp2_bufs_addb bufs (first_byte mode) = Some (nghttp2_bufs_add bufs [first_byte mode])"
    using assms(1) by (intro nghttp2_bufs_addb_is_add) (simp_all add: sink_ok_def)
  then have "emit_newname_block bufs nv mode =
      Some (nghttp2_bufs_add bufs ([first_byte mode] @ (string_bytes (nv_name nv) @ string_bytes (nv_value nv))))"
    unfolding emit_newname_block_def first_byte_pack by (simp only:) (rule and_then_opt_add [OF assms(1) rest])
  then show ?thesis by simp
qed

section \<open>A header field\<close>

definition deflate_mode :: "nghttp2_hd_deflater \<Rightarrow> nghttp2_nv \<Rightarrow> nghttp2_hd_indexing_mode" where
  "deflate_mode d nv =
     (let token = lookup_token (nv_name nv) in
      if token = NGHTTP2_TOKEN_AUTHORIZATION \<or> (token = NGHTTP2_TOKEN_COOKIE \<and> length (nv_value nv) < 20) \<or>
         nv_flags nv AND NGHTTP2_NV_FLAG_NO_INDEX \<noteq> 0
      then HD_NEVER_INDEXING else hd_deflate_decide_indexing d nv token)"

definition deflate_search :: "nghttp2_hd_deflater \<Rightarrow> nghttp2_nv \<Rightarrow> search_result" where
  "deflate_search d nv =
     search_hd_table (df_ctx d) nv (lookup_token (nv_name nv)) (deflate_mode d nv) (df_map d) (hd_hash (nv_name nv))"

text \<open>The representation that is chosen.\<close>

definition deflate_choice :: "nghttp2_hd_deflater \<Rightarrow> nghttp2_nv \<Rightarrow> hrepr" where
  "deflate_choice d nv =
     (let res = deflate_search d nv; mode = deflate_mode d nv in
      if name_value_match res then Indexed (nat (sr_index res))
      else if sr_index res = - 1 then Lit_New mode (nv_name nv) (nv_value nv)
      else Lit_Indexed mode (nat (sr_index res)) (nv_value nv))"

text \<open>A deflater in working order holds the entries \<open>es\<close>.\<close>

definition deflater_repr :: "nghttp2_hd_deflater \<Rightarrow> nghttp2_hd_entry list \<Rightarrow> bool" where
  "deflater_repr d es \<longleftrightarrow> ctx_inv (df_ctx d) (Some (df_map d)) es"

abbreviation df_limit :: "nghttp2_hd_deflater \<Rightarrow> nat" where
  "df_limit d \<equiv> hd_table_bufsize_max (df_ctx d)"

lemma deflate_nv_unfold:
  "deflate_nv d bufs nv =
     (let res = deflate_search d nv; idx = sr_index res; mode = deflate_mode d nv in
      if name_value_match res then (let (r, bufs) = emit_indexed_block bufs (nat idx) in Some (r, d, bufs))
      else case (if mode = HD_WITH_INDEXING
                 then deflate_store d nv idx (lookup_token (nv_name nv)) (hd_hash (nv_name nv)) else Some (Inr (), d)) of
            None \<Rightarrow> None
          | Some (Inl e, d) \<Rightarrow> Some (Inl e, d, bufs)
          | Some (Inr _, d) \<Rightarrow>
              map_option (\<lambda>(r, bufs). (r, d, bufs))
                (if idx = - 1 then emit_newname_block bufs nv mode else emit_indname_block bufs (nat idx) nv mode))"
  by (simp only: deflate_nv_def deflate_search_def deflate_mode_def hd_hash_def Let_def)

lemma ctx_inv_mem [simp]: "ctx_inv (ctx\<lparr>hd_mem := mem\<rparr>) mp es = ctx_inv ctx mp es"
  by (simp add: ctx_inv_def ctx_repr_def)

lemma deflate_store_spec:
  assumes inv: "deflater_repr d es"
    and idx: "idx = - 1 \<or> (\<exists>f. 0 \<le> idx \<and> table_lookup (hfields es) (nat idx) = Some f \<and> fst f = nv_name nv)"
  shows "\<exists>r d' es'. deflate_store d nv idx (lookup_token (nv_name nv)) (hd_hash (nv_name nv)) = Some (r, d') \<and>
    deflater_repr d' es' \<and> df_limit d' = df_limit d \<and> hd_bad (df_ctx d') = hd_bad (df_ctx d) \<and>
    deflate_hd_table_bufsize_max d' = deflate_hd_table_bufsize_max d \<and>
    df_min_hd_table_bufsize_max d' = df_min_hd_table_bufsize_max d \<and>
    notify_table_size_change d' = notify_table_size_change d \<and>
    (r = Inr () \<longrightarrow> hfields es' = table_insert (df_limit d) (nv_name nv, nv_value nv) (hfields es)) \<and>
    (r \<noteq> Inr () \<longrightarrow> r = Inl ERR_NOMEM \<or> r = Inl ERR_HEADER_COMP) \<and>
    (hd_mem (df_ctx d) = [] \<longrightarrow> r = Inr () \<and> hd_mem (df_ctx d') = [])"
proof -
  let ?ctx = "df_ctx d"
  have inv': "ctx_inv ?ctx (Some (df_map d)) es" using inv by (simp add: deflater_repr_def)
  then have rep: "ctx_repr ?ctx (Some (df_map d)) es" by (simp add: ctx_inv_def)
  define name where "name = (if idx \<noteq> - 1 then map_option (\<lambda>e. (Inr (hn_name e), hd_mem ?ctx)) (nghttp2_hd_table_get ?ctx (nat idx))
      else let (ok, mem) = mem_alloc (hd_mem ?ctx) in
           Some (if ok then Inr (nv_name nv) else Inl ERR_NOMEM, mem))"
  have "\<exists>mem. name = Some (Inr (nv_name nv), mem) \<and> (hd_mem ?ctx = [] \<longrightarrow> mem = []) \<or>
      name = Some (Inl ERR_NOMEM, mem) \<and> hd_mem ?ctx \<noteq> []"
  proof (cases "idx = - 1")
    case True
    then show ?thesis by (cases "hd_mem ?ctx") (auto simp: name_def)
  next
    case False
    then obtain f where f: "table_lookup (hfields es) (nat idx) = Some f" "fst f = nv_name nv" using idx by auto
    then obtain e where "nghttp2_hd_table_get ?ctx (nat idx) = Some e" "field e = f"
      using hd_table_get_repr(1) [OF rep, of "nat idx"] by auto
    then show ?thesis using f(2) False by (auto simp: name_def field_def)
  qed
  then consider (ok) mem where "name = Some (Inr (nv_name nv), mem)" "hd_mem ?ctx = [] \<longrightarrow> mem = []"
    | (fail) mem where "name = Some (Inl ERR_NOMEM, mem)" "hd_mem ?ctx \<noteq> []" by blast
  then show ?thesis
  proof cases
    case fail
    then have "deflate_store d nv idx (lookup_token (nv_name nv)) (hd_hash (nv_name nv)) =
        Some (Inl ERR_NOMEM, d\<lparr>df_ctx := ?ctx\<lparr>hd_mem := mem\<rparr>\<rparr>)"
      unfolding deflate_store_def Let_def [of ?ctx] name_def [symmetric] by simp
    then show ?thesis using inv' fail by (auto simp: deflater_repr_def)
  next
    case ok
    obtain k mem' where m: "mem_alloc mem = (k, mem')" by fastforce
    let ?c = "?ctx\<lparr>hd_mem := mem'\<rparr>"
    let ?nv = "\<lparr>hn_name = nv_name nv, hn_value = nv_value nv, hn_token = lookup_token (nv_name nv), hn_flags = NGHTTP2_NV_FLAG_NONE\<rparr>"
    have st: "deflate_store d nv idx (lookup_token (nv_name nv)) (hd_hash (nv_name nv)) =
       (if \<not> k then Some (Inl ERR_NOMEM, d\<lparr>df_ctx := ?c\<rparr>)
        else case add_hd_table_incremental ?c ?nv (Some (df_map d)) (hd_hash (nv_name nv)) of
                Some (r, ctx, Some mp) \<Rightarrow>
                  Some (case r of Inl e \<Rightarrow> Inl ERR_HEADER_COMP | Inr u \<Rightarrow> Inr u, d\<lparr>df_ctx := ctx, df_map := mp\<rparr>)
              | _ \<Rightarrow> None)"
      unfolding deflate_store_def Let_def [of ?ctx] name_def [symmetric] ok(1) by (simp add: m)
    show ?thesis
    proof (cases k)
      case False
      moreover from False have "mem \<noteq> []" using m by auto
      ultimately show ?thesis using st inv' ok by (auto simp: deflater_repr_def)
    next
      case True
      have c: "ctx_inv ?c (Some (df_map d)) es" using inv' by simp
      have t: "hn_token ?nv = lookup_token (hn_name ?nv)" "Some (df_map d) \<noteq> None \<Longrightarrow> hd_hash (nv_name nv) = hd_hash (hn_name ?nv)"
        by simp_all
      have sel: "hd_mem ?c = mem'" "hd_table_bufsize_max ?c = df_limit d" "hd_bad ?c = hd_bad ?ctx" by simp_all
      from add_hd_table_repr [OF c t, unfolded sel] obtain r ctx' mp' es' where
        a: "add_hd_table_incremental ?c ?nv (Some (df_map d)) (hd_hash (nv_name nv)) = Some (r, ctx', mp')"
          "ctx_inv ctx' mp' es'" "hd_table_bufsize_max ctx' = df_limit d" "hd_bad ctx' = hd_bad ?ctx"
          "mp' = None \<longleftrightarrow> Some (df_map d) = None"
        and r: "case r of Inl e \<Rightarrow> e = ERR_NOMEM | Inr _ \<Rightarrow> hfields es' = table_insert (df_limit d) (field ?nv) (hfields es)"
          "mem' = [] \<longrightarrow> r = Inr () \<and> hd_mem ctx' = []"
        by blast
      from a(5) obtain mm where mm: "mp' = Some mm" by auto
      have "mem' = []" if "hd_mem ?ctx = []" using that ok(2) m by simp
      then show ?thesis using st a r True mm
        by (cases r) (auto simp: deflater_repr_def field_def)
    qed
  qed
qed


text \<open>What a header field leaves as it is.\<close>

definition same_config :: "nghttp2_hd_deflater \<Rightarrow> nghttp2_hd_deflater \<Rightarrow> bool" where
  "same_config d d' \<longleftrightarrow> df_limit d' = df_limit d \<and> hd_bad (df_ctx d') = hd_bad (df_ctx d) \<and>
     deflate_hd_table_bufsize_max d' = deflate_hd_table_bufsize_max d \<and>
     df_min_hd_table_bufsize_max d' = df_min_hd_table_bufsize_max d \<and>
     notify_table_size_change d' = notify_table_size_change d"

lemma same_config_trans: "same_config a b \<Longrightarrow> same_config b c \<Longrightarrow> same_config a c"
  by (simp add: same_config_def)

lemma search_never:
  assumes "deflater_repr d es" "deflate_mode d nv = HD_NEVER_INDEXING"
  shows "\<not> name_value_match (deflate_search d nv)"
proof -
  have m: "map_repr (df_map d) es" "\<forall>e \<in> set es. ent_ok e"
    using assms(1) by (auto simp: deflater_repr_def ctx_inv_def ctx_repr_def)
  show ?thesis
    unfolding deflate_search_def search_hd_table_def assms(2) Let_def [of "HD_NEVER_INDEXING = HD_NEVER_INDEXING"]
      hd_map_find_repr [OF m]
    by (auto simp: Let_def search_static_table_def split: option.splits)
qed

lemma deflate_search_index:
  assumes "deflater_repr d es"
  shows "let res = deflate_search d nv in (sr_index res = - 1 \<and> \<not> name_value_match res) \<or>
    (\<exists>f. 0 \<le> sr_index res \<and> table_lookup (hfields es) (nat (sr_index res)) = Some f \<and> fst f = nv_name nv \<and>
       (name_value_match res \<longrightarrow> snd f = nv_value nv) \<and> nat (sr_index res) + 1 < 2 ^ 32)"
proof -
  have r: "ctx_repr (df_ctx d) (Some (df_map d)) es" using assms by (simp add: deflater_repr_def ctx_inv_def)
  have "i + 1 < 2 ^ 32" if "table_lookup (hfields es) i = Some f" for i f
    using that ctx_repr_length [OF r] by (auto simp: table_lookup_def hfields_def split: if_splits)
  then show ?thesis using search_hd_table_sound [OF r, of nv "deflate_mode d nv"]
    unfolding deflate_search_def [symmetric] Let_def by blast
qed

lemma emit_choice:
  assumes "deflater_repr d es" "sink_ok bufs" "string_size (nv_name nv) < 2 ^ 32" "string_size (nv_value nv) < 2 ^ 32"
  defines "res \<equiv> deflate_search d nv"
  shows "(if name_value_match res then Some (emit_indexed_block bufs (nat (sr_index res)))
      else if sr_index res = - 1 then emit_newname_block bufs nv (deflate_mode d nv)
      else emit_indname_block bufs (nat (sr_index res)) nv (deflate_mode d nv)) =
    Some (nghttp2_bufs_add bufs (repr_bytes (deflate_choice d nv)))"
  using deflate_search_index [OF assms(1), of nv] assms(2-4)
    emit_indexed_block_add emit_newname_block_add emit_indname_block_add
  unfolding deflate_choice_def res_def [symmetric] Let_def by (auto simp del: repr_bytes.simps)

lemma exec_choice:
  assumes inv: "deflater_repr d es"
    and "\<not> name_value_match (deflate_search d nv) \<and> deflate_mode d nv = HD_WITH_INDEXING \<Longrightarrow>
      fs' = table_insert (df_limit d) (nv_name nv, nv_value nv) (hfields es)"
    and "name_value_match (deflate_search d nv) \<or> deflate_mode d nv \<noteq> HD_WITH_INDEXING \<Longrightarrow> fs' = hfields es"
  shows "exec (deflate_choice d nv) (df_limit d, hfields es) =
    Some (Some ((nv_name nv, nv_value nv), deflate_mode d nv = HD_NEVER_INDEXING), (df_limit d, fs'))"
  using deflate_search_index [OF inv, of nv] search_never [OF inv, of nv] assms(2,3)
  unfolding deflate_choice_def Let_def by (auto simp: literal_def)

lemma deflate_nv_spec:
  assumes inv: "deflater_repr d es" and sink: "sink_ok bufs"
    and len: "string_size (nv_name nv) < 2 ^ 32" "string_size (nv_value nv) < 2 ^ 32"
  shows "\<exists>r d' bufs' es'. deflate_nv d bufs nv = Some (r, d', bufs') \<and> deflater_repr d' es' \<and> sink_ok bufs' \<and>
    same_config d d' \<and>
    (r = Inr () \<longrightarrow> nghttp2_bufs_add bufs (repr_bytes (deflate_choice d nv)) = (Inr (), bufs') \<and>
       exec (deflate_choice d nv) (df_limit d, hfields es) =
         Some (Some ((nv_name nv, nv_value nv), deflate_mode d nv = HD_NEVER_INDEXING), (df_limit d, hfields es'))) \<and>
    (hd_mem (df_ctx d) = [] \<longrightarrow> hd_mem (df_ctx d') = [] \<and>
       nghttp2_bufs_add bufs (repr_bytes (deflate_choice d nv)) = (r, bufs'))"
proof -
  let ?res = "deflate_search d nv" and ?mode = "deflate_mode d nv"
  obtain r b where w: "nghttp2_bufs_add bufs (repr_bytes (deflate_choice d nv)) = (r, b)" by fastforce
  note emit = emit_choice [OF inv sink len, unfolded w]
  have b: "sink_ok b" by (rule sink_add [OF sink w])
  have same: "same_config d d" by (simp add: same_config_def)
  show ?thesis
  proof (cases "name_value_match ?res \<or> ?mode \<noteq> HD_WITH_INDEXING")
    case True
    then have "deflate_nv d bufs nv = Some (r, d, b)"
      using emit unfolding deflate_nv_unfold by (auto simp: Let_def split: if_splits)
    moreover have "exec (deflate_choice d nv) (df_limit d, hfields es) =
         Some (Some ((nv_name nv, nv_value nv), ?mode = HD_NEVER_INDEXING), (df_limit d, hfields es))"
      using True by (intro exec_choice [OF inv]) auto
    ultimately show ?thesis using inv b same w by blast
  next
    case False
    have idx: "sr_index ?res = - 1 \<or> (\<exists>f. 0 \<le> sr_index ?res \<and> table_lookup (hfields es) (nat (sr_index ?res)) = Some f \<and> fst f = nv_name nv)"
      using deflate_search_index [OF inv, of nv] by (auto simp: Let_def)
    from deflate_store_spec [OF inv idx] obtain q d' es' where
      st: "deflate_store d nv (sr_index ?res) (lookup_token (nv_name nv)) (hd_hash (nv_name nv)) = Some (q, d')"
      and d': "deflater_repr d' es'" "same_config d d'"
      and q: "q = Inr () \<longrightarrow> hfields es' = table_insert (df_limit d) (nv_name nv, nv_value nv) (hfields es)"
        "hd_mem (df_ctx d) = [] \<longrightarrow> q = Inr () \<and> hd_mem (df_ctx d') = []"
      unfolding same_config_def by blast
    show ?thesis
    proof (cases q)
      case (Inl e)
      then have "deflate_nv d bufs nv = Some (Inl e, d', bufs)"
        using False st unfolding deflate_nv_unfold by (simp add: Let_def)
      then show ?thesis using d' sink q Inl by auto
    next
      case (Inr u)
      then have "deflate_nv d bufs nv = Some (r, d', b)"
        using False st emit unfolding deflate_nv_unfold by (auto simp: Let_def split: if_splits)
      moreover have "exec (deflate_choice d nv) (df_limit d, hfields es) =
         Some (Some ((nv_name nv, nv_value nv), ?mode = HD_NEVER_INDEXING), (df_limit d, hfields es'))"
        using False q Inr by (intro exec_choice [OF inv]) auto
      ultimately show ?thesis using d' b w q Inr by (intro exI [of _ r] exI [of _ d'] exI [of _ b] exI [of _ es']) auto
    qed
  qed
qed

section \<open>Header lists\<close>

definition field_of :: "nghttp2_nv \<Rightarrow> hfield" where
  "field_of nv = (nv_name nv, nv_value nv)"

definition nv_short :: "nat \<Rightarrow> nghttp2_nv \<Rightarrow> bool" where
  "nv_short m nv \<longleftrightarrow> string_size (nv_name nv) \<le> m \<and> string_size (nv_value nv) \<le> m"

text \<open>Fields that the compressor treats as sensitive, whatever its state.\<close>

definition sensitive :: "nghttp2_nv \<Rightarrow> bool" where
  "sensitive nv \<longleftrightarrow> nv_flags nv AND NGHTTP2_NV_FLAG_NO_INDEX \<noteq> 0 \<or>
     lookup_token (nv_name nv) = NGHTTP2_TOKEN_AUTHORIZATION \<or>
     (lookup_token (nv_name nv) = NGHTTP2_TOKEN_COOKIE \<and> length (nv_value nv) < 20)"

lemma sensitive_mode: "sensitive nv \<longleftrightarrow> deflate_mode d nv = HD_NEVER_INDEXING"
  by (auto simp: sensitive_def deflate_mode_def Let_def hd_deflate_decide_indexing_def)

text \<open>
  \<open>block_spec m s nva cs s'\<close>: executing the representations \<open>cs\<close> in the state \<open>s\<close> yields the header
  list \<open>nva\<close>, with exactly the sensitive fields marked as never indexed, and the state \<open>s'\<close>.
\<close>

definition block_spec :: "nat \<Rightarrow> hstate \<Rightarrow> nghttp2_nv list \<Rightarrow> hrepr list \<Rightarrow> hstate \<Rightarrow> bool" where
  "block_spec m s nva cs s' \<longleftrightarrow> list_all is_field cs \<and> list_all (repr_fits m) cs \<and>
     exec_all cs s = Some (map (\<lambda>nv. (field_of nv, sensitive nv)) nva, s')"

lemma choice_fits:
  assumes "deflater_repr d es" "nv_short m nv"
  shows "is_field (deflate_choice d nv) \<and> repr_fits m (deflate_choice d nv)"
  using deflate_search_index [OF assms(1), of nv] assms(2) unfolding deflate_choice_def Let_def nv_short_def by auto

lemma deflate_nvs_spec:
  assumes "deflater_repr d es" "sink_ok bufs" "list_all (nv_short m) nva" "m < 2 ^ 32"
  shows "\<exists>r d' bufs' es'. deflate_nvs d bufs nva = Some (r, d', bufs') \<and> deflater_repr d' es' \<and> sink_ok bufs' \<and>
    same_config d d' \<and>
    (r = Inr () \<longrightarrow> (\<exists>cs. nghttp2_bufs_add bufs (concat (map repr_bytes cs)) = (Inr (), bufs') \<and>
       block_spec m (df_limit d, hfields es) nva cs (df_limit d, hfields es')))"
  using assms
proof (induction nva arbitrary: d es bufs)
  case Nil
  then show ?case
    by (intro exI [of _ "Inr ()"] exI [of _ d] exI [of _ bufs] exI [of _ es])
      (auto simp: same_config_def block_spec_def intro!: exI [of _ "[] :: hrepr list"])
next
  case (Cons nv nva)
  have short: "nv_short m nv" using Cons.prems by simp
  then have len: "string_size (nv_name nv) < 2 ^ 32" "string_size (nv_value nv) < 2 ^ 32"
    using Cons.prems(4) by (auto simp: nv_short_def)
  from deflate_nv_spec [OF Cons.prems(1,2) len] obtain r d1 b1 es1 where
    1: "deflate_nv d bufs nv = Some (r, d1, b1)" "deflater_repr d1 es1" "sink_ok b1" "same_config d d1"
      "r = Inr () \<longrightarrow> nghttp2_bufs_add bufs (repr_bytes (deflate_choice d nv)) = (Inr (), b1) \<and>
       exec (deflate_choice d nv) (df_limit d, hfields es) =
         Some (Some ((nv_name nv, nv_value nv), deflate_mode d nv = HD_NEVER_INDEXING), (df_limit d, hfields es1))"
    by blast
  show ?case
  proof (cases r)
    case (Inl e)
    then show ?thesis using 1 by auto
  next
    case (Inr u)
    have "list_all (nv_short m) nva" using Cons.prems(3) by simp
    from Cons.IH [OF 1(2,3) this Cons.prems(4)] obtain q d2 b2 es2 where
      2: "deflate_nvs d1 b1 nva = Some (q, d2, b2)" "deflater_repr d2 es2" "sink_ok b2" "same_config d1 d2"
      "q = Inr () \<longrightarrow> (\<exists>cs. nghttp2_bufs_add b1 (concat (map repr_bytes cs)) = (Inr (), b2) \<and>
       block_spec m (df_limit d1, hfields es1) nva cs (df_limit d1, hfields es2))" by blast
    have l: "df_limit d1 = df_limit d" using 1(4) by (simp add: same_config_def)
    have wf: "bufs_wf bufs" using Cons.prems(2) by (simp add: sink_ok_def)
    have "\<exists>cs. nghttp2_bufs_add bufs (concat (map repr_bytes cs)) = (Inr (), b2) \<and>
       block_spec m (df_limit d, hfields es) (nv # nva) cs (df_limit d, hfields es2)" if q: "q = Inr ()"
    proof -
      from 2(5) q obtain cs where cs: "nghttp2_bufs_add b1 (concat (map repr_bytes cs)) = (Inr (), b2)"
        "block_spec m (df_limit d, hfields es1) nva cs (df_limit d, hfields es2)" using l by auto
      have "nghttp2_bufs_add bufs (concat (map repr_bytes (deflate_choice d nv # cs))) = (Inr (), b2)"
        using 1(5) Inr cs(1) nghttp2_bufs_add_append [OF wf] by simp
      moreover have "block_spec m (df_limit d, hfields es) (nv # nva) (deflate_choice d nv # cs) (df_limit d, hfields es2)"
        using 1(5) Inr cs(2) choice_fits [OF Cons.prems(1) short] sensitive_mode [of nv d]
        by (auto simp: block_spec_def field_of_def)
      ultimately show ?thesis by blast
    qed
    then show ?thesis using 1 2 Inr same_config_trans [OF 1(4) 2(4)] by auto
  qed
qed

section \<open>Header blocks\<close>

definition size_updates :: "nghttp2_hd_deflater \<Rightarrow> hrepr list" where
  "size_updates d =
     (if \<not> notify_table_size_change d then []
      else (if df_min_hd_table_bufsize_max d < df_limit d then [Size_Update (df_min_hd_table_bufsize_max d)] else []) @
        [Size_Update (df_limit d)])"

lemma deflate_notify_spec:
  assumes "deflater_repr d es" "sink_ok bufs"
  shows "\<exists>r d' bufs'. deflate_notify d bufs = (r, d', bufs') \<and> deflater_repr d' es \<and> sink_ok bufs' \<and>
    nghttp2_bufs_add bufs (concat (map repr_bytes (size_updates d))) = (r, bufs') \<and>
    df_ctx d' = df_ctx d \<and> deflate_hd_table_bufsize_max d' = deflate_hd_table_bufsize_max d \<and>
    \<not> notify_table_size_change d' \<and>
    df_min_hd_table_bufsize_max d' = (if notify_table_size_change d then UINT32_MAX else df_min_hd_table_bufsize_max d)"
proof (cases "notify_table_size_change d")
  case False
  then show ?thesis using assms by (simp add: deflate_notify_def size_updates_def)
next
  case True
  let ?min = "df_min_hd_table_bufsize_max d" and ?cur = "df_limit d"
  have lim: "?cur < 2 ^ 32" using assms(1) by (simp add: deflater_repr_def ctx_inv_def)
  have "and_then (if ?min < ?cur then emit_table_size bufs ?min else (Inr (), bufs)) (\<lambda>bufs. emit_table_size bufs ?cur) =
      nghttp2_bufs_add bufs (concat (map repr_bytes (size_updates d)))"
  proof (cases "?min < ?cur")
    case t: True
    then have m: "?min < 2 ^ 32" using lim by simp
    have "and_then (nghttp2_bufs_add bufs (repr_bytes (Size_Update ?min))) (\<lambda>bufs. emit_table_size bufs ?cur) =
        nghttp2_bufs_add bufs (repr_bytes (Size_Update ?min) @ repr_bytes (Size_Update ?cur))"
      using emit_table_size_add [OF lim] by (intro and_then_add [OF assms(2)])
    then show ?thesis using t True emit_table_size_add [OF m, of bufs] by (simp add: size_updates_def)
  next
    case False
    then show ?thesis using True emit_table_size_add [OF lim, of bufs] by (simp add: size_updates_def and_then_def)
  qed
  moreover obtain r b where "nghttp2_bufs_add bufs (concat (map repr_bytes (size_updates d))) = (r, b)" by fastforce
  ultimately show ?thesis
    using True sink_add [OF assms(2)] assms(1) by (auto simp: deflate_notify_def Let_def deflater_repr_def)
qed

lemma deflate_hd_bufs_spec:
  assumes "deflater_repr d es" "sink_ok bufs" "list_all (nv_short m) nva" "m < 2 ^ 32" "\<not> hd_bad (df_ctx d)"
  shows "\<exists>r d' bufs' es'. nghttp2_hd_deflate_hd_bufs d bufs nva = Some (r, d', bufs') \<and> deflater_repr d' es' \<and>
    sink_ok bufs' \<and> df_limit d' = df_limit d \<and> deflate_hd_table_bufsize_max d' = deflate_hd_table_bufsize_max d \<and>
    \<not> notify_table_size_change d' \<and> hd_bad (df_ctx d') = (r \<noteq> Inr ()) \<and>
    df_min_hd_table_bufsize_max d' =
      (if notify_table_size_change d then UINT32_MAX else df_min_hd_table_bufsize_max d) \<and>
    (r = Inr () \<longrightarrow> (\<exists>cs. nghttp2_bufs_add bufs (concat (map repr_bytes (size_updates d @ cs))) = (Inr (), bufs') \<and>
       block_spec m (df_limit d, hfields es) nva cs (df_limit d, hfields es')))"
proof -
  from deflate_notify_spec [OF assms(1,2)] obtain r1 d1 b1 where
    1: "deflate_notify d bufs = (r1, d1, b1)" "deflater_repr d1 es" "sink_ok b1"
      "nghttp2_bufs_add bufs (concat (map repr_bytes (size_updates d))) = (r1, b1)"
      "df_ctx d1 = df_ctx d" "deflate_hd_table_bufsize_max d1 = deflate_hd_table_bufsize_max d"
      "\<not> notify_table_size_change d1"
      "df_min_hd_table_bufsize_max d1 = (if notify_table_size_change d then UINT32_MAX else df_min_hd_table_bufsize_max d)"
    by blast
  have fail: "deflater_repr (deflate_fail x) y = deflater_repr x y" for x y
    by (simp add: deflate_fail_def deflater_repr_def ctx_inv_def ctx_repr_def)
  show ?thesis
  proof (cases r1)
    case (Inl e)
    then show ?thesis using 1 assms(5) fail
      by (auto simp: nghttp2_hd_deflate_hd_bufs_def) (auto simp: deflate_fail_def)
  next
    case (Inr u)
    from deflate_nvs_spec [OF 1(2,3) assms(3,4)] obtain r d' b' es' where
      2: "deflate_nvs d1 b1 nva = Some (r, d', b')" "deflater_repr d' es'" "sink_ok b'" "same_config d1 d'"
      "r = Inr () \<longrightarrow> (\<exists>cs. nghttp2_bufs_add b1 (concat (map repr_bytes cs)) = (Inr (), b') \<and>
       block_spec m (df_limit d1, hfields es) nva cs (df_limit d1, hfields es'))" by blast
    have wf: "bufs_wf bufs" using assms(2) by (simp add: sink_ok_def)
    show ?thesis
    proof (cases r)
      case (Inl e)
      then show ?thesis using 1 2 assms(5) fail Inr
        by (auto simp: nghttp2_hd_deflate_hd_bufs_def same_config_def) (auto simp: deflate_fail_def)
    next
      case r: (Inr u')
      from 2(5) r obtain cs where cs: "nghttp2_bufs_add b1 (concat (map repr_bytes cs)) = (Inr (), b')"
        "block_spec m (df_limit d1, hfields es) nva cs (df_limit d1, hfields es')" by auto
      have "nghttp2_bufs_add bufs (concat (map repr_bytes (size_updates d @ cs))) = (Inr (), b')"
        using nghttp2_bufs_add_append [OF wf] 1(4) cs(1) Inr by simp
      then show ?thesis using 1 2 assms(5) r Inr cs
        by (auto simp: nghttp2_hd_deflate_hd_bufs_def same_config_def)
    qed
  qed
qed

section \<open>The size of a block\<close>

lemma encoded_five: "n < 2 ^ 28 \<Longrightarrow> length (encode_length b n prefix) \<le> 5"
proof -
  assume "n < 2 ^ 28"
  then have "n - (2 ^ prefix - 1) < 2 ^ 28" by (rule le_less_trans [OF diff_le_self])
  then have "n - (2 ^ prefix - 1) < 2 ^ (7 * Suc 3)" by simp
  then have "length (encode_groups (n - (2 ^ prefix - 1))) \<le> Suc 3" by (rule encode_groups_length)
  then show ?thesis by (simp add: encode_length_def Let_def)
qed

lemma string_bytes_length: "length s < 2 ^ 28 \<Longrightarrow> length (string_bytes s) \<le> 5 + length s"
  using encoded_five [of "length (huff_bytes s)" "0x80" 7] encoded_five [of "length s" 0 7]
  by (auto simp: string_bytes_def Let_def)

definition nv_bound :: "nghttp2_nv \<Rightarrow> nat" where
  "nv_bound nv = 12 + (length (nv_name nv) + length (nv_value nv))"

definition nv_tiny :: "nghttp2_nv \<Rightarrow> bool" where
  "nv_tiny nv \<longleftrightarrow> length (nv_name nv) < 2 ^ 28 \<and> length (nv_value nv) < 2 ^ 28"

lemma nv_tiny_short: "nv_tiny nv \<Longrightarrow> nv_short (2 ^ 28 - 1) nv"
  using string_size_le [of "nv_name nv"] string_size_le [of "nv_value nv"] by (simp add: nv_tiny_def nv_short_def)

lemma choice_length:
  assumes "deflater_repr d es" "nv_tiny nv"
  shows "length (repr_bytes (deflate_choice d nv)) \<le> nv_bound nv"
proof -
  have r: "ctx_repr (df_ctx d) (Some (df_map d)) es" using assms(1) by (simp add: deflater_repr_def ctx_inv_def)
  have idx: "i + 1 < 2 ^ 28" if "table_lookup (hfields es) i = Some f" for i f
    using that ctx_repr_length [OF r] by (auto simp: table_lookup_def hfields_def split: if_splits)
  have ints: "length (encode_length b (i + 1) p) \<le> 5" if "table_lookup (hfields es) i = Some f" for i f b p
    by (rule encoded_five [OF idx [OF that]])
  note str = string_bytes_length [of "nv_name nv"] string_bytes_length [of "nv_value nv"]
  show ?thesis
  proof (cases "deflate_choice d nv")
    case (Indexed i)
    then obtain f where "table_lookup (hfields es) i = Some f"
      using deflate_search_index [OF assms(1), of nv] by (auto simp: deflate_choice_def Let_def split: if_splits)
    then show ?thesis using Indexed ints [of i f "0x80" 7] by (simp add: nv_bound_def)
  next
    case (Lit_Indexed mode i v)
    then obtain f where f: "table_lookup (hfields es) i = Some f" and v: "v = nv_value nv"
      using deflate_search_index [OF assms(1), of nv] by (auto simp: deflate_choice_def Let_def split: if_splits)
    then show ?thesis using Lit_Indexed ints [OF f, of "first_byte mode" "literal_prefix mode"] str assms(2)
      by (simp add: nv_bound_def nv_tiny_def)
  next
    case (Lit_New mode n v)
    then have "n = nv_name nv" "v = nv_value nv" by (auto simp: deflate_choice_def Let_def split: if_splits)
    then show ?thesis using Lit_New str assms(2) by (simp add: nv_bound_def nv_tiny_def)
  next
    case (Size_Update n)
    then show ?thesis by (simp add: deflate_choice_def Let_def split: if_splits)
  qed
qed

lemma deflate_nvs_length:
  assumes "deflater_repr d es" "sink_ok bufs" "list_all nv_tiny nva" "hd_mem (df_ctx d) = []"
  shows "\<exists>r d' bufs' es' p. deflate_nvs d bufs nva = Some (r, d', bufs') \<and> deflater_repr d' es' \<and>
    nghttp2_bufs_add bufs p = (r, bufs') \<and> length p \<le> sum_list (map nv_bound nva) \<and> hd_mem (df_ctx d') = []"
  using assms
proof (induction nva arbitrary: d es bufs)
  case Nil
  then show ?case by (intro exI [of _ "Inr ()"] exI [of _ d] exI [of _ bufs] exI [of _ es] exI [of _ "[]"]) simp
next
  case (Cons nv nva)
  have tiny: "nv_tiny nv" using Cons.prems by simp
  have len: "string_size (nv_name nv) < 2 ^ 32" "string_size (nv_value nv) < 2 ^ 32"
    using nv_tiny_short [OF tiny] by (auto simp: nv_short_def)
  let ?p = "repr_bytes (deflate_choice d nv)"
  have pl: "length ?p \<le> nv_bound nv" by (rule choice_length [OF Cons.prems(1) tiny])
  from deflate_nv_spec [OF Cons.prems(1,2) len] Cons.prems(4) obtain r d1 b1 es1 where
    1: "deflate_nv d bufs nv = Some (r, d1, b1)" "deflater_repr d1 es1" "sink_ok b1" "hd_mem (df_ctx d1) = []"
      "nghttp2_bufs_add bufs ?p = (r, b1)" by blast
  show ?case
  proof (cases r)
    case (Inl e)
    then show ?thesis using 1 pl by (auto intro!: exI [of _ ?p])
  next
    case (Inr u)
    have "list_all nv_tiny nva" using Cons.prems(3) by simp
    from Cons.IH [OF 1(2,3) this 1(4)] obtain q d2 b2 es2 p where
      2: "deflate_nvs d1 b1 nva = Some (q, d2, b2)" "deflater_repr d2 es2"
        "nghttp2_bufs_add b1 p = (q, b2)" "length p \<le> sum_list (map nv_bound nva)" "hd_mem (df_ctx d2) = []" by blast
    have "bufs_wf bufs" using Cons.prems(2) by (simp add: sink_ok_def)
    then have "nghttp2_bufs_add bufs (?p @ p) = (q, b2)" using nghttp2_bufs_add_append 1(5) 2(3) Inr by simp
    moreover have "deflate_nvs d bufs (nv # nva) = Some (q, d2, b2)" using 1(1) 2(1) Inr by simp
    moreover have "length (?p @ p) \<le> sum_list (map nv_bound (nv # nva))" using pl 2(4) by simp
    ultimately show ?thesis using 2(2,5) by blast
  qed
qed

lemma size_updates_length: "deflater_repr d es \<Longrightarrow> length (concat (map repr_bytes (size_updates d))) \<le> 12"
proof -
  assume "deflater_repr d es"
  then have l: "df_limit d < 2 ^ 32" by (simp add: deflater_repr_def ctx_inv_def)
  have "length (encode_length 0x20 n 5) \<le> 6" if "n < 2 ^ 32" for n
    using that encode_length_decode(2) [of 5 n] by (simp add: count_encoded_length)
  then have "n \<le> df_limit d \<Longrightarrow> length (repr_bytes (Size_Update n)) \<le> 6" for n using l by simp
  from this [of "df_limit d"] this [of "df_min_hd_table_bufsize_max d"] show ?thesis
    by (auto simp: size_updates_def)
qed

lemma wrap_sink:
  assumes "0 < length buf" "nghttp2_bufs_wrap_init buf mem = (Inr bufs, mem')"
  shows "sink_ok bufs \<and> bufs_data bufs = [] \<and> bufs_space bufs = length buf \<and> bufs_mem bufs = mem'"
  using assms
  by (auto simp: nghttp2_bufs_wrap_init_def Let_def sink_ok_def bufs_wf_def buf_ok_def bufs_roomy_def bufs_data_def
      buf_data_def bufs_space_def nghttp2_buf_wrap_init_def nghttp2_buf_avail_def split: if_splits prod.splits)

section \<open>Properties\<close>

text \<open>
  C3. What the compressor writes. A compressor in working order returns (no assertion fails and no
  uninitialised slot is read) and stays in working order, under every pattern of allocation
  failures and of lack of space, with its table limit unchanged; it is marked bad exactly when it
  returns an error. On success it has appended to the chain the encoding of the pending table
  size updates, followed by field representations that, executed on its dynamic table as RFC
  7541 defines it, yield the given header list in order and the table that the compressor has
  afterwards. Exactly the sensitive fields (flagged by the caller, authorization, short
  cookies) are written as literals that are never indexed.
\<close>

theorem deflate_block_correct:
  assumes "deflater_repr d es" and "bufs_wf bufs" and "bufs_roomy bufs" and "list_all (nv_short m) nva"
    and "m < 2 ^ 32" and "\<not> hd_bad (df_ctx d)"
  shows "\<exists>r d' bufs' es'. nghttp2_hd_deflate_hd_bufs d bufs nva = Some (r, d', bufs') \<and> deflater_repr d' es' \<and>
    bufs_wf bufs' \<and> df_limit d' = df_limit d \<and> hd_bad (df_ctx d') = (r \<noteq> Inr ()) \<and>
    (r = Inr () \<longrightarrow> (\<exists>cs. bufs_data bufs' = bufs_data bufs @ concat (map repr_bytes (size_updates d @ cs)) \<and>
       list_all is_field cs \<and>
       exec_all cs (df_limit d, hfields es) =
         Some (map (\<lambda>nv. (field_of nv, sensitive nv)) nva, (df_limit d, hfields es'))))"
proof -
  have sink: "sink_ok bufs" using assms by (simp add: sink_ok_def)
  from deflate_hd_bufs_spec [OF assms(1) sink assms(4-6)] obtain r d' bufs' es' where
    1: "nghttp2_hd_deflate_hd_bufs d bufs nva = Some (r, d', bufs')" "deflater_repr d' es'" "sink_ok bufs'"
      "df_limit d' = df_limit d" "hd_bad (df_ctx d') = (r \<noteq> Inr ())"
      "r = Inr () \<longrightarrow> (\<exists>cs. nghttp2_bufs_add bufs (concat (map repr_bytes (size_updates d @ cs))) = (Inr (), bufs') \<and>
       block_spec m (df_limit d, hfields es) nva cs (df_limit d, hfields es'))" by blast
  have "\<exists>cs. bufs_data bufs' = bufs_data bufs @ concat (map repr_bytes (size_updates d @ cs)) \<and> list_all is_field cs \<and>
       exec_all cs (df_limit d, hfields es) =
         Some (map (\<lambda>nv. (field_of nv, sensitive nv)) nva, (df_limit d, hfields es'))" if "r = Inr ()"
  proof -
    from 1(6) that obtain cs where cs: "nghttp2_bufs_add bufs (concat (map repr_bytes (size_updates d @ cs))) = (Inr (), bufs')"
      "block_spec m (df_limit d, hfields es) nva cs (df_limit d, hfields es')" by blast
    from nghttp2_bufs_add_ok [OF assms(2) cs(1)] cs(2) show ?thesis unfolding block_spec_def by auto
  qed
  then show ?thesis using 1 by (auto simp: sink_ok_def)
qed

definition example_deflater :: nghttp2_hd_deflater where
  "example_deflater = (case nghttp2_hd_deflate_init2 4096 [] of Inr d \<Rightarrow> d)"

lemma deflate_init2_repr:
  assumes "nghttp2_hd_deflate_init2 n mem = Inr d"
  shows "deflater_repr d [] \<and> \<not> hd_bad (df_ctx d) \<and> deflate_hd_table_bufsize_max d = n \<and> df_limit d = min n 4096 \<and>
    df_min_hd_table_bufsize_max d = UINT32_MAX \<and> (notify_table_size_change d \<longleftrightarrow> n < 4096)"
proof (cases "hd_context_init mem")
  case (Inl e)
  then show ?thesis using assms by (simp add: nghttp2_hd_deflate_init2_def)
next
  case (Inr ctx)
  from hd_context_init_repr [OF Inr] have "ctx_inv ctx (Some hd_map_init) []" "\<not> hd_bad ctx"
    "hd_table_bufsize_max ctx = 4096" by (auto simp: NGHTTP2_HD_DEFAULT_MAX_BUFFER_SIZE_def)
  then show ?thesis using assms Inr
    by (auto simp: nghttp2_hd_deflate_init2_def Let_def deflater_repr_def ctx_inv_def ctx_repr_def
        NGHTTP2_HD_DEFAULT_MAX_BUFFER_SIZE_def split: if_splits)
qed

lemma example_deflater_init: "nghttp2_hd_deflate_init2 4096 [] = Inr example_deflater"
  by (simp add: example_deflater_def nghttp2_hd_deflate_init2_def example_ctx_init NGHTTP2_HD_DEFAULT_MAX_BUFFER_SIZE_def)

lemmas example_deflater_repr = deflate_init2_repr [OF example_deflater_init]

theorem deflate_block_correct_witness:
  "\<exists>r d' bufs'. nghttp2_hd_deflate_hd_bufs example_deflater example_bufs [\<lparr>nv_name = [], nv_value = [], nv_flags = 0\<rparr>] =
     Some (r, d', bufs') \<and> bufs_wf bufs'"
proof -
  have "bufs_wf example_bufs" "bufs_roomy example_bufs"
    by (simp_all add: example_bufs_def bufs_wf_def buf_ok_def bufs_roomy_def)
  moreover have "list_all (nv_short 0) [\<lparr>nv_name = [], nv_value = [], nv_flags = 0\<rparr>]"
    by (simp add: nv_short_def string_size_def)
  ultimately show ?thesis
    using deflate_block_correct [of example_deflater "[]" example_bufs 0] example_deflater_repr by fastforce
qed

text \<open>Compressing into a buffer of the announced bound, with everything that is then known.\<close>

lemma deflate_hd2_block:
  assumes repr: "deflater_repr d es" and good: "\<not> hd_bad (df_ctx d)" and mem: "hd_mem (df_ctx d) = []"
    and tiny: "list_all nv_tiny nva" and short: "list_all (nv_short m) nva" "m < 2 ^ 32"
    and room: "nghttp2_hd_deflate_bound d nva \<le> length buf"
  shows "\<exists>d' es' cs. nghttp2_hd_deflate_hd2 d buf nva =
        Some (Inr (length (concat (map repr_bytes (size_updates d @ cs)))), d', concat (map repr_bytes (size_updates d @ cs))) \<and>
      length (concat (map repr_bytes (size_updates d @ cs))) \<le> nghttp2_hd_deflate_bound d nva \<and>
      deflater_repr d' es' \<and> \<not> hd_bad (df_ctx d') \<and> hd_mem (df_ctx d') = [] \<and> df_limit d' = df_limit d \<and>
      deflate_hd_table_bufsize_max d' = deflate_hd_table_bufsize_max d \<and> \<not> notify_table_size_change d' \<and>
      df_min_hd_table_bufsize_max d' =
        (if notify_table_size_change d then UINT32_MAX else df_min_hd_table_bufsize_max d) \<and>
      block_spec m (df_limit d, hfields es) nva cs (df_limit d, hfields es')"
proof -
  let ?n = "nghttp2_hd_deflate_bound d nva"
  have bound: "?n = 12 + sum_list (map nv_bound nva)"
    unfolding nghttp2_hd_deflate_bound_def by (induction nva) (auto simp: nv_bound_def)
  have pos: "0 < length buf" using room bound by linarith
  obtain bufs where w: "nghttp2_bufs_wrap_init buf [] = (Inr bufs, [])" by (simp add: nghttp2_bufs_wrap_init_def)
  note b = wrap_sink [OF pos w]
  then have wf: "bufs_wf bufs" and sink: "sink_ok bufs" by (simp_all add: sink_ok_def)
  from deflate_notify_spec [OF repr sink] obtain r1 d1 b1 where
    1: "deflate_notify d bufs = (r1, d1, b1)" "deflater_repr d1 es" "sink_ok b1"
      "nghttp2_bufs_add bufs (concat (map repr_bytes (size_updates d))) = (r1, b1)" "df_ctx d1 = df_ctx d" by blast
  have m1: "hd_mem (df_ctx d1) = []" using 1(5) mem by simp
  from deflate_nvs_length [OF 1(2,3) tiny m1] obtain r2 d2 b2 es2 p where
    2: "deflate_nvs d1 b1 nva = Some (r2, d2, b2)" "nghttp2_bufs_add b1 p = (r2, b2)"
      "length p \<le> sum_list (map nv_bound nva)" "hd_mem (df_ctx d2) = []"
    by blast
  let ?u = "concat (map repr_bytes (size_updates d))"
  have u: "length ?u \<le> 12" by (rule size_updates_length [OF repr])
  have fits: "length (?u @ p) \<le> bufs_space bufs" using u 2(3) room bound b by simp
  then have "length ?u \<le> bufs_space bufs" by simp
  then have r1: "r1 = Inr ()" using nghttp2_bufs_add_space [OF wf, of ?u] b 1(4) by simp
  have whole: "nghttp2_bufs_add bufs (?u @ p) = (r2, b2)" using nghttp2_bufs_add_append [OF wf] 1(4) 2(2) r1 by simp
  then have r2: "r2 = Inr ()" using nghttp2_bufs_add_space [OF wf, of "?u @ p"] b fits by simp
  have run: "nghttp2_hd_deflate_hd_bufs d bufs nva = Some (Inr (), d2, b2)"
    using good 1(1) 2(1) r1 r2 by (simp add: nghttp2_hd_deflate_hd_bufs_def)
  from deflate_hd_bufs_spec [OF repr sink short good] run obtain es' cs where
    3: "deflater_repr d2 es'" "df_limit d2 = df_limit d" "deflate_hd_table_bufsize_max d2 = deflate_hd_table_bufsize_max d"
    "\<not> notify_table_size_change d2" "\<not> hd_bad (df_ctx d2)" "df_min_hd_table_bufsize_max d2 =
        (if notify_table_size_change d then UINT32_MAX else df_min_hd_table_bufsize_max d)"
    "nghttp2_bufs_add bufs (concat (map repr_bytes (size_updates d @ cs))) = (Inr (), b2)"
    "block_spec m (df_limit d, hfields es) nva cs (df_limit d, hfields es')" by auto
  let ?out = "concat (map repr_bytes (size_updates d @ cs))"
  have out: "bufs_wf b2" "bufs_data b2 = ?out" using nghttp2_bufs_add_ok [OF wf 3(7)] b by auto
  have "bufs_data b2 = ?u @ p" using nghttp2_bufs_add_ok [OF wf whole] b r2 by auto
  then have len: "length ?out \<le> ?n" using out(2) u 2(3) bound by simp
  have d: "d\<lparr>df_ctx := (df_ctx d)\<lparr>hd_mem := []\<rparr>\<rparr> = d" using mem by simp
  have d2: "d2\<lparr>df_ctx := (df_ctx d2)\<lparr>hd_mem := []\<rparr>\<rparr> = d2" using 2(4) by simp
  have "nghttp2_hd_deflate_hd2 d buf nva = Some (Inr (length ?out), d2, ?out)"
    unfolding nghttp2_hd_deflate_hd2_def deflate_wrapped_def mem w prod.case sum.case d using run out
    by (simp add: bufs_len_data)
  then show ?thesis using len 3 2(4) by blast
qed

text \<open>
  C8. The announced bound suffices: for names and values shorter than \<open>2 ^ 28\<close> bytes, compressing
  into a buffer of at least \<open>nghttp2_hd_deflate_bound\<close> bytes succeeds when the allocator does not
  fail, and writes no more than this bound.
\<close>

theorem deflate_bound_suffices:
  assumes "deflater_repr d es" and "\<not> hd_bad (df_ctx d)" and "hd_mem (df_ctx d) = []" and "list_all nv_tiny nva"
    and "nghttp2_hd_deflate_bound d nva \<le> length buf"
  shows "\<exists>n d' out. nghttp2_hd_deflate_hd2 d buf nva = Some (Inr n, d', out) \<and> length out = n \<and>
    n \<le> nghttp2_hd_deflate_bound d nva"
proof -
  have short: "list_all (nv_short (2 ^ 28 - 1)) nva" using assms(4) nv_tiny_short by (auto simp: list_all_iff)
  have m: "(2 :: nat) ^ 28 - 1 < 2 ^ 32" by simp
  from deflate_hd2_block [OF assms(1-4) short m assms(5)] show ?thesis by blast
qed

theorem deflate_bound_suffices_witness:
  "\<exists>n d' out. nghttp2_hd_deflate_hd2 example_deflater (replicate 26 0) [\<lparr>nv_name = [97], nv_value = [98], nv_flags = 0\<rparr>] =
     Some (Inr n, d', out) \<and> n \<le> 26"
proof -
  have "hd_mem example_ctx = []"
    by (rule hd_context_init_mem [OF example_ctx_init])
  moreover have "df_ctx example_deflater = example_ctx"
    by (simp add: example_deflater_def nghttp2_hd_deflate_init2_def example_ctx_init NGHTTP2_HD_DEFAULT_MAX_BUFFER_SIZE_def)
  ultimately have m: "hd_mem (df_ctx example_deflater) = []" by simp
  have "nghttp2_hd_deflate_bound example_deflater [\<lparr>nv_name = [97], nv_value = [98], nv_flags = 0\<rparr>] = 26"
    by (simp add: nghttp2_hd_deflate_bound_def)
  moreover have "list_all nv_tiny [\<lparr>nv_name = [97], nv_value = [98], nv_flags = 0\<rparr>]" by (simp add: nv_tiny_def)
  ultimately show ?thesis
    using deflate_bound_suffices [of example_deflater "[]" "[\<lparr>nv_name = [97], nv_value = [98], nv_flags = 0\<rparr>]" "replicate 26 0"]
      example_deflater_repr m by auto
qed

end
