(* ===== verification/Nghttp2_Hd_Correct.thy ===== *)
theory Nghttp2_Hd_Correct
  imports Nghttp2_Hd_Inflate_Exec Nghttp2_Hd_Deflate_Correct
begin

text \<open>
  The compressor and the decompressor together: over a connection, with changes of the table size
  and any number of header blocks, the receiver gets the header lists that were sent.
\<close>

section \<open>Receiving a block\<close>

text \<open>
  The calls that receive a whole block: the function is called on the rest of the block until it
  emits nothing more, then the end of the block is announced.
\<close>

partial_function (option) receive_block ::
  "nghttp2_hd_inflater \<Rightarrow> bytes \<Rightarrow> (nghttp2_hd_nv list res \<times> nghttp2_hd_inflater) option" where
  "receive_block i bs =
     (case nghttp2_hd_inflate_hd_nv i bs True of
        None \<Rightarrow> None
      | Some (Inl e, i) \<Rightarrow> Some (Inl e, i)
      | Some (Inr (n, flags, None), i) \<Rightarrow> Some (Inr [], nghttp2_hd_inflate_end_headers i)
      | Some (Inr (n, flags, Some nv), i) \<Rightarrow>
          Option.bind (receive_block i (drop n bs)) (\<lambda>(r, i). Some (map_sum id (\<lambda>nvs. nv # nvs) r, i)))"

lemma ready_keep [simp]: "ready (hd_inflate_keep_free i) es = ready i es"
  by (simp add: ready_def hd_inflate_keep_free_def)

lemma keep_simps [simp]:
  "if_ctx (hd_inflate_keep_free i) = if_ctx i" "if_state (hd_inflate_keep_free i) = if_state i"
  "settings_hd_table_bufsize_max (hd_inflate_keep_free i) = settings_hd_table_bufsize_max i"
  "if_min_hd_table_bufsize_max (hd_inflate_keep_free i) = if_min_hd_table_bufsize_max i"
  by (simp_all add: hd_inflate_keep_free_def)

lemma same_limits_keep [simp]: "same_limits (hd_inflate_keep_free i) j = same_limits i j"
  by (simp add: same_limits_def)

text \<open>What is emitted for a field.\<close>

definition emission :: "nghttp2_hd_nv \<Rightarrow> hfield \<times> u8" where
  "emission nv = (field nv, hn_flags nv)"

definition expected :: "emitted \<Rightarrow> hfield \<times> u8" where
  "expected e = (fst e, if snd e then NGHTTP2_NV_FLAG_NO_INDEX else NGHTTP2_NV_FLAG_NONE)"

text \<open>Fields behind a part \<open>u\<close> of the input that leads from \<open>i\<close> to \<open>j\<close> without emitting.\<close>

lemma receive_fields:
  assumes "inflate_loop (hd_inflate_keep_free i) (u @ concat (map repr_bytes cs)) False =
      inflate_loop j (concat (map repr_bytes cs)) False"
    and "\<not> hd_bad (if_ctx i)" "ready j es" "if_state j = STATE_OPCODE \<or> if_state j = STATE_INFLATE_START"
    and "list_all is_field cs" "list_all (repr_fits NGHTTP2_HD_MAX_NV) cs" "\<not> hd_bad (if_ctx j)"
    and "exec_all cs (if_limit j, hfields es) = Some (out, s)"
  shows "\<exists>nvs k es'. receive_block i (u @ concat (map repr_bytes cs)) = Some (Inr nvs, k) \<and> map emission nvs = map expected out \<and>
    list_all (\<lambda>nv. hn_token nv = lookup_token (hn_name nv)) nvs \<and>
    ready k es' \<and> s = (if_limit j, hfields es') \<and> same_limits j k \<and> if_state k = STATE_INFLATE_START"
  using assms
proof (induction cs arbitrary: i u j es out s)
  case Nil
  let ?k = "nghttp2_hd_inflate_end_headers j"
  have "nghttp2_hd_inflate_hd_nv i (u @ []) True = Some (Inr (length u, NGHTTP2_HD_INFLATE_FINAL, None), j)"
    using Nil(1,2,4) by (auto simp: nghttp2_hd_inflate_hd_nv_def)
  then have "receive_block i (u @ []) = Some (Inr [], ?k)" by (subst receive_block.simps) simp
  moreover have "ready ?k es" using Nil(3) by (simp add: nghttp2_hd_inflate_end_headers_def ready_def hd_inflate_keep_free_def)
  moreover have "same_limits j ?k" "if_state ?k = STATE_INFLATE_START"
    by (simp_all add: nghttp2_hd_inflate_end_headers_def same_limits_def)
  ultimately show ?case using Nil(8) by (intro exI [of _ "[]"] exI [of _ ?k] exI [of _ es]) simp
next
  case (Cons c cs)
  let ?rest = "concat (map repr_bytes cs)"
  from Cons.prems(8) obtain x s1 out1 where ex: "exec c (if_limit j, hfields es) = Some (x, s1)"
    "exec_all cs s1 = Some (out1, s)" "out = (case x of None \<Rightarrow> out1 | Some f \<Rightarrow> f # out1)"
    by (auto split: option.splits)
  have c: "is_field c" "repr_fits NGHTTP2_HD_MAX_NV c" using Cons.prems(5,6) by simp_all
  from inflate_field [OF Cons.prems(3,4) c ex(1), of ?rest] obtain f never k es1 nv where
    1: "x = Some (f, never)" "inflate_loop j (repr_bytes c @ ?rest) False = Some (Emitted k ?rest nv)"
    "ready k es1" "same_limits j k" "if_state k = STATE_OPCODE" "field nv = f" "hn_token nv = lookup_token (fst f)"
    "hn_flags nv = (if never then NGHTTP2_NV_FLAG_NO_INDEX else NGHTTP2_NV_FLAG_NONE)" "s1 = (if_limit j, hfields es1)"
    by blast
  let ?bs = "u @ repr_bytes c @ ?rest"
  have hd: "nghttp2_hd_inflate_hd_nv i ?bs True =
      Some (Inr (length ?bs - length ?rest, NGHTTP2_HD_INFLATE_EMIT, Some nv), k)"
    using Cons.prems(1,2) 1(2) by (simp add: nghttp2_hd_inflate_hd_nv_def)
  have lim: "if_limit k = if_limit j" "hd_bad (if_ctx k) = hd_bad (if_ctx j)" using 1(4) by (simp_all add: same_limits_def)
  have IH: "\<exists>nvs m es'. receive_block k ([] @ ?rest) = Some (Inr nvs, m) \<and> map emission nvs = map expected out1 \<and>
      list_all (\<lambda>nv. hn_token nv = lookup_token (hn_name nv)) nvs \<and> ready m es' \<and>
      s = (if_limit (hd_inflate_keep_free k), hfields es') \<and> same_limits (hd_inflate_keep_free k) m \<and>
      if_state m = STATE_INFLATE_START"
    using Cons.prems(5-7) 1(3,5,9) ex(2) lim by (intro Cons.IH [where es = es1]) simp_all
  then obtain nvs m es' where
    2: "receive_block k ?rest = Some (Inr nvs, m)" "map emission nvs = map expected out1"
    "list_all (\<lambda>nv. hn_token nv = lookup_token (hn_name nv)) nvs" "ready m es'"
    "s = (if_limit k, hfields es')" "same_limits k m" "if_state m = STATE_INFLATE_START" by auto
  have dr: "drop (length ?bs - length ?rest) ?bs = ?rest" by simp
  have "receive_block i ?bs = Some (Inr (nv # nvs), m)"
    by (subst receive_block.simps) (simp only: hd option.case prod.case sum.case dr 2(1), simp)
  moreover have "emission nv = expected (f, never)" using 1(6,8) by (simp add: emission_def expected_def)
  moreover have "hn_token nv = lookup_token (hn_name nv)" using 1(6,7) by (auto simp: field_def)
  ultimately show ?case
    using 2 lim 1(1) ex(3) same_limits_trans [OF 1(4) 2(6)]
    by (intro exI [of _ "nv # nvs"] exI [of _ m] exI [of _ es']) simp
qed

section \<open>Both ends in step\<close>

text \<open>
  Between two blocks. After a change of the table size, the compressor still has to announce the
  smallest limit since the last block and the limit it now has; the table of the decompressor may
  then hold more fields than that of the compressor, and catches up with the announcement.
\<close>

definition announced :: "nghttp2_hd_deflater \<Rightarrow> nat" where
  "announced d = min (df_min_hd_table_bufsize_max d) (df_limit d)"

definition in_step :: "nghttp2_hd_deflater \<Rightarrow> nghttp2_hd_inflater \<Rightarrow> bool" where
  "in_step d i \<longleftrightarrow> (\<exists>es fs. deflater_repr d es \<and> ready i fs \<and> \<not> hd_bad (df_ctx d) \<and> \<not> hd_bad (if_ctx i) \<and>
     hd_mem (df_ctx d) = [] \<and> df_limit d \<le> settings_hd_table_bufsize_max i \<and>
     announced d \<le> if_min_hd_table_bufsize_max i \<and>
     hfields es = fit field_room (announced d) (hfields fs) \<and>
     (if notify_table_size_change d
      then (if_state i = STATE_INFLATE_START \<or> if_state i = STATE_EXPECT_TABLE_SIZE) \<and>
        (df_min_hd_table_bufsize_max d \<le> df_limit d \<or> df_limit d = deflate_hd_table_bufsize_max d)
      else if_state i = STATE_INFLATE_START \<and> if_limit i = df_limit d \<and> df_min_hd_table_bufsize_max d = UINT32_MAX \<and>
        if_min_hd_table_bufsize_max i = UINT32_MAX))"

lemma in_step_init:
  assumes "nghttp2_hd_deflate_new2 n [] = Inr d" "nghttp2_hd_inflate_new2 [] = Inr i"
  shows "in_step d i"
proof -
  have d: "nghttp2_hd_deflate_init2 n [] = Inr d" using assms(1) by (simp add: nghttp2_hd_deflate_new2_def)
  have i: "nghttp2_hd_inflate_init [] = Inr i" using assms(2) by (simp add: nghttp2_hd_inflate_new2_def)
  note rd = deflate_init2_repr [OF d]
  from i obtain ctx where c: "hd_context_init [] = Inr ctx" "if_ctx i = ctx" and f: "if_state i = STATE_INFLATE_START"
    "settings_hd_table_bufsize_max i = 4096" "if_min_hd_table_bufsize_max i = UINT32_MAX"
    by (auto simp: nghttp2_hd_inflate_init_def NGHTTP2_HD_DEFAULT_MAX_BUFFER_SIZE_def INFLATE_UINT32_MAX_def UINT32_MAX_def split: sum.splits)
  have rc: "ctx_inv ctx None []" "\<not> hd_bad ctx" "hd_table_bufsize_max ctx = 4096" "hd_mem ctx = []"
    using hd_context_init_repr [OF c(1)] hd_context_init_mem [OF c(1)] by (simp_all add: NGHTTP2_HD_DEFAULT_MAX_BUFFER_SIZE_def)
  have dm: "hd_mem (df_ctx d) = []"
    using d hd_context_init_mem by (auto simp: nghttp2_hd_deflate_init2_def Let_def split: sum.splits if_splits)
  have "ready i []" using rc c by (simp add: ready_def unflagged_def)
  then show ?thesis using rd rc c f dm unfolding in_step_def
    by (intro exI [of _ "[]"]) (auto simp: announced_def hfields_def UINT32_MAX_def)
qed

lemma in_step_resize:
  assumes "in_step d i" and n: "n < 2 ^ 32"
  shows "\<exists>d' i'. nghttp2_hd_deflate_change_table_size d n = Some d' \<and>
    nghttp2_hd_inflate_change_table_size i n = Some (Inr (), i') \<and> in_step d' i'"
proof -
  from assms(1) obtain es fs where
    a: "deflater_repr d es" "ready i fs" "\<not> hd_bad (df_ctx d)" "\<not> hd_bad (if_ctx i)" "hd_mem (df_ctx d) = []"
      "df_limit d \<le> settings_hd_table_bufsize_max i" "announced d \<le> if_min_hd_table_bufsize_max i"
      "hfields es = fit field_room (announced d) (hfields fs)"
    and st: "if_state i = STATE_INFLATE_START \<or> if_state i = STATE_EXPECT_TABLE_SIZE"
    and p: "notify_table_size_change d \<Longrightarrow> df_min_hd_table_bufsize_max d \<le> df_limit d \<or> df_limit d = deflate_hd_table_bufsize_max d"
    and q: "\<not> notify_table_size_change d \<Longrightarrow> df_min_hd_table_bufsize_max d = UINT32_MAX \<and> if_limit i = df_limit d \<and>
      if_min_hd_table_bufsize_max i = UINT32_MAX"
    unfolding in_step_def by (auto split: if_splits)
  let ?next = "min n (deflate_hd_table_bufsize_max d)" and ?min = "df_min_hd_table_bufsize_max d"
  have nx: "?next < 2 ^ 32" "?next \<le> UINT32_MAX" using n by (auto simp: UINT32_MAX_def min_def)
  have inv: "ctx_inv (df_ctx d) (Some (df_map d)) es" using a(1) by (simp add: deflater_repr_def)
  with nx(1) shrink_repr [of "(df_ctx d)\<lparr>hd_table_bufsize_max := ?next\<rparr>" "Some (df_map d)" es] obtain ctx mp where
    c: "hd_context_shrink_table_size ((df_ctx d)\<lparr>hd_table_bufsize_max := ?next\<rparr>) (Some (df_map d)) = Some (ctx, Some mp)"
    "ctx_inv ctx (Some mp) (fit ent_room ?next es)" "hd_table_bufsize_max ctx = ?next" "hd_mem ctx = hd_mem (df_ctx d)"
    "hd_bad ctx = hd_bad (df_ctx d)" by (auto simp: ctx_inv_def)
  let ?d = "d\<lparr>df_min_hd_table_bufsize_max := min ?min ?next, notify_table_size_change := True, df_ctx := ctx, df_map := mp\<rparr>"
  have d: "nghttp2_hd_deflate_change_table_size d n = Some ?d"
    using c(1) by (simp add: nghttp2_hd_deflate_change_table_size_def Let_def)
  have ann: "announced ?d = min ?min ?next" using c(3) by (simp add: announced_def)
  have le: "announced ?d \<le> if_min_hd_table_bufsize_max i"
  proof (cases "notify_table_size_change d")
    case True
    then have "announced ?d \<le> announced d" using p ann by (auto simp: announced_def)
    then show ?thesis using a(7) by simp
  next
    case False
    then show ?thesis using q nx(2) ann by simp
  qed
  have es: "hfields (fit ent_room ?next es) = fit field_room (announced ?d) (hfields fs)"
  proof -
    have "hfields (fit ent_room ?next es) = fit field_room (min ?next (announced d)) (hfields fs)"
      by (simp only: hfields_fit a(8) fit_fit)
    also have "\<dots> = fit field_room (announced ?d) (hfields fs)"
    proof (cases "notify_table_size_change d")
      case True
      have "min ?next (announced d) = announced ?d"
        using p [OF True] unfolding ann unfolding announced_def by (auto simp: min_def)
      then show ?thesis by simp
    next
      case False
      have "ctx_inv (if_ctx i) None fs" using a(2) by (simp add: ready_def)
      then have "ctx_repr (if_ctx i) None fs" "hd_table_bufsize (if_ctx i) \<le> if_limit i" by (simp_all add: ctx_inv_def)
      moreover have "hd_table_bufsize (if_ctx i) = sum_list (map ent_room fs)" using calculation(1) by (simp add: ctx_repr_def)
      ultimately have small: "sum_list (map field_room (hfields fs)) \<le> df_limit d"
        using q [OF False] by (simp add: hfields_def field_room_ent comp_def)
      then have "fit field_room (df_limit d) (hfields fs) = hfields fs" by (rule fit_all)
      then have "fit field_room x (hfields fs) = fit field_room (min x (df_limit d)) (hfields fs)" for x
        by (metis fit_fit)
      then have "fit field_room ?next (hfields fs) = fit field_room (min ?next (df_limit d)) (hfields fs)" .
      moreover have "announced d = min UINT32_MAX (df_limit d)" using q [OF False] by (simp add: announced_def)
      moreover have "min ?next (min UINT32_MAX (df_limit d)) = min ?next (df_limit d)" using nx(2) by simp
      moreover have "announced ?d = ?next" using q [OF False] ann nx(2) by simp
      ultimately show ?thesis by simp
    qed
    finally show ?thesis .
  qed
  have rd: "deflater_repr ?d (fit ent_room ?next es)" using c(2) by (simp add: deflater_repr_def)
  have pend: "df_min_hd_table_bufsize_max ?d \<le> df_limit ?d" using c(3) by (auto simp: min_def)
  have lim: "df_limit ?d \<le> n" using c(3) by simp
  have pend': "min ?min ?next \<le> n" "min ?min ?next \<le> df_limit ?d" using c(3) by (auto simp: min_def)
  show ?thesis
  proof (cases "n < if_limit i")
    case True
    have invi: "ctx_inv (if_ctx i) None fs" using a(2) by (simp add: ready_def)
    with n shrink_repr [of "(if_ctx i)\<lparr>hd_table_bufsize_max := n\<rparr>" None fs] obtain ci where
      ci: "hd_context_shrink_table_size ((if_ctx i)\<lparr>hd_table_bufsize_max := n\<rparr>) None = Some (ci, None)"
      "ctx_inv ci None (fit ent_room n fs)" "hd_table_bufsize_max ci = n" "hd_mem ci = hd_mem (if_ctx i)"
      "hd_bad ci = hd_bad (if_ctx i)" by (auto simp: ctx_inv_def)
    let ?i = "i\<lparr>settings_hd_table_bufsize_max := n, if_state := STATE_EXPECT_TABLE_SIZE,
      if_min_hd_table_bufsize_max := n, if_ctx := ci\<rparr>"
    have i: "nghttp2_hd_inflate_change_table_size i n = Some (Inr (), ?i)"
      using True ci(1) st by (auto simp: nghttp2_hd_inflate_change_table_size_def Let_def)
    have "unflagged (fit ent_room n fs)"
      using a(2) fit_prefix [of ent_room n fs] set_take_subset [of _ fs] by (fastforce simp: ready_def unflagged_def)
    then have ri: "ready ?i (fit ent_room n fs)" using ci a(2) by (simp add: ready_def)
    have "min (announced ?d) n = announced ?d" using ann by simp
    then have "hfields (fit ent_room ?next es) = fit field_room (announced ?d) (hfields (fit ent_room n fs))"
      using es by (simp add: hfields_fit fit_fit)
    then have "in_step ?d ?i" unfolding in_step_def
      using rd ri c ci a lim pend ann
      by (intro exI [of _ "fit ent_room ?next es"] exI [of _ "fit ent_room n fs"]) simp
    then show ?thesis using d i by blast
  next
    case False
    let ?i = "i\<lparr>settings_hd_table_bufsize_max := n\<rparr>"
    have i: "nghttp2_hd_inflate_change_table_size i n = Some (Inr (), ?i)"
      using False st by (auto simp: nghttp2_hd_inflate_change_table_size_def Let_def)
    have ri: "ready ?i fs" using a(2) by (simp add: ready_def)
    have "in_step ?d ?i" unfolding in_step_def
      using rd ri c a lim pend le es st
      by (intro exI [of _ "fit ent_room ?next es"] exI [of _ fs]) simp
    then show ?thesis using d i by blast
  qed
qed

lemma in_step_updates:
  assumes repr: "deflater_repr d es" and rd: "ready i fs" and set: "df_limit d \<le> settings_hd_table_bufsize_max i"
    and min: "announced d \<le> if_min_hd_table_bufsize_max i" and es: "hfields es = fit field_room (announced d) (hfields fs)"
    and pending: "notify_table_size_change d" and st: "if_state i = STATE_INFLATE_START \<or> if_state i = STATE_EXPECT_TABLE_SIZE"
  shows "\<exists>j gs. inflate_loop i (concat (map repr_bytes (size_updates d)) @ rest) False = inflate_loop j rest False \<and>
    ready j gs \<and> if_state j = STATE_INFLATE_START \<and> if_limit j = df_limit d \<and> hfields gs = hfields es \<and>
    hd_bad (if_ctx j) = hd_bad (if_ctx i) \<and> settings_hd_table_bufsize_max j = settings_hd_table_bufsize_max i \<and>
    if_min_hd_table_bufsize_max j = UINT32_MAX"
proof -
  let ?min = "df_min_hd_table_bufsize_max d" and ?lim = "df_limit d"
  have lim: "?lim < 2 ^ 32" using repr by (simp add: deflater_repr_def ctx_inv_def)
  have last: "\<exists>j. inflate_loop k (repr_bytes (Size_Update ?lim) @ rest) False = inflate_loop j rest False \<and>
      ready j (fit ent_room ?lim gs) \<and> if_state j = STATE_INFLATE_START \<and> if_limit j = ?lim \<and>
      hd_bad (if_ctx j) = hd_bad (if_ctx k) \<and> settings_hd_table_bufsize_max j = settings_hd_table_bufsize_max k \<and>
      if_min_hd_table_bufsize_max j = UINT32_MAX"
    if "ready k gs" "if_state k = STATE_INFLATE_START \<or> if_state k = STATE_EXPECT_TABLE_SIZE"
      "?lim \<le> if_min_hd_table_bufsize_max k" "settings_hd_table_bufsize_max k = settings_hd_table_bufsize_max i" for k gs
    using inflate_size_update [OF that(1,2), of ?lim rest] that(3,4) set lim
    by (simp add: INFLATE_UINT32_MAX_def UINT32_MAX_def)
  show ?thesis
  proof (cases "?min < ?lim")
    case True
    then have m: "announced d = ?min" by (simp add: announced_def)
    let ?rest = "repr_bytes (Size_Update ?lim) @ rest"
    have n: "?min \<le> min (if_min_hd_table_bufsize_max i) (settings_hd_table_bufsize_max i)" "?min < 2 ^ 32"
      using min set m True lim by simp_all
    from inflate_size_update [OF rd st n, of ?rest] obtain k where
      k: "inflate_loop i (repr_bytes (Size_Update ?min) @ ?rest) False = inflate_loop k ?rest False"
      "ready k (fit ent_room ?min fs)" "if_state k = STATE_INFLATE_START" "hd_bad (if_ctx k) = hd_bad (if_ctx i)"
      "settings_hd_table_bufsize_max k = settings_hd_table_bufsize_max i" "if_min_hd_table_bufsize_max k = INFLATE_UINT32_MAX"
      by blast
    have "?lim \<le> if_min_hd_table_bufsize_max k" using k(6) lim by (simp add: INFLATE_UINT32_MAX_def)
    from last [OF k(2) _ this k(5)] k(3) obtain j where
      j: "inflate_loop k ?rest False = inflate_loop j rest False"
      "ready j (fit ent_room ?lim (fit ent_room ?min fs))" "if_state j = STATE_INFLATE_START" "if_limit j = ?lim"
      "hd_bad (if_ctx j) = hd_bad (if_ctx k)" "settings_hd_table_bufsize_max j = settings_hd_table_bufsize_max k"
      "if_min_hd_table_bufsize_max j = UINT32_MAX" by blast
    have "hfields (fit ent_room ?lim (fit ent_room ?min fs)) = hfields es"
      using True by (simp add: es m hfields_fit fit_fit)
    moreover have "concat (map repr_bytes (size_updates d)) @ rest = repr_bytes (Size_Update ?min) @ ?rest"
      using pending True by (simp add: size_updates_def)
    ultimately show ?thesis using k j
      by (intro exI [of _ j] exI [of _ "fit ent_room ?lim (fit ent_room ?min fs)"]) simp
  next
    case False
    then have m: "announced d = ?lim" by (simp add: announced_def)
    have "?lim \<le> if_min_hd_table_bufsize_max i" using min m by simp
    from last [OF rd st this refl] obtain j where
      j: "inflate_loop i (repr_bytes (Size_Update ?lim) @ rest) False = inflate_loop j rest False"
      "ready j (fit ent_room ?lim fs)" "if_state j = STATE_INFLATE_START" "if_limit j = ?lim"
      "hd_bad (if_ctx j) = hd_bad (if_ctx i)" "settings_hd_table_bufsize_max j = settings_hd_table_bufsize_max i"
      "if_min_hd_table_bufsize_max j = UINT32_MAX" by blast
    have "hfields (fit ent_room ?lim fs) = hfields es" by (simp add: es m hfields_fit)
    moreover have "concat (map repr_bytes (size_updates d)) @ rest = repr_bytes (Size_Update ?lim) @ rest"
      using pending False by (simp add: size_updates_def)
    ultimately show ?thesis using j by (intro exI [of _ j] exI [of _ "fit ent_room ?lim fs"]) simp
  qed
qed

lemma in_step_block:
  assumes step: "in_step d i" and nva: "list_all nv_tiny nva" "list_all (nv_short NGHTTP2_HD_MAX_NV) nva"
  shows "\<exists>n d' out nvs i'. nghttp2_hd_deflate_hd2 d (replicate (nghttp2_hd_deflate_bound d nva) 0) nva = Some (Inr n, d', out) \<and>
    receive_block i out = Some (Inr nvs, i') \<and> in_step d' i' \<and>
    map emission nvs = map (\<lambda>nv. expected (field_of nv, sensitive nv)) nva \<and>
    list_all (\<lambda>nv. hn_token nv = lookup_token (hn_name nv)) nvs"
proof -
  from step obtain es fs where
    a: "deflater_repr d es" "ready i fs" "\<not> hd_bad (df_ctx d)" "\<not> hd_bad (if_ctx i)" "hd_mem (df_ctx d) = []"
      "df_limit d \<le> settings_hd_table_bufsize_max i" "announced d \<le> if_min_hd_table_bufsize_max i"
      "hfields es = fit field_room (announced d) (hfields fs)"
    and p: "if notify_table_size_change d
      then (if_state i = STATE_INFLATE_START \<or> if_state i = STATE_EXPECT_TABLE_SIZE) \<and>
        (df_min_hd_table_bufsize_max d \<le> df_limit d \<or> df_limit d = deflate_hd_table_bufsize_max d)
      else if_state i = STATE_INFLATE_START \<and> if_limit i = df_limit d \<and> df_min_hd_table_bufsize_max d = UINT32_MAX \<and>
        if_min_hd_table_bufsize_max i = UINT32_MAX"
    unfolding in_step_def by blast
  let ?buf = "replicate (nghttp2_hd_deflate_bound d nva) (0 :: u8)"
  have lim: "NGHTTP2_HD_MAX_NV < 2 ^ 32" "nghttp2_hd_deflate_bound d nva \<le> length ?buf" by (simp_all add: NGHTTP2_HD_MAX_NV_def)
  from deflate_hd2_block [OF a(1,3,5) nva lim] obtain d' es' cs where
    b: "nghttp2_hd_deflate_hd2 d ?buf nva =
        Some (Inr (length (concat (map repr_bytes (size_updates d @ cs)))), d', concat (map repr_bytes (size_updates d @ cs)))"
      "deflater_repr d' es'" "\<not> hd_bad (df_ctx d')" "hd_mem (df_ctx d') = []" "df_limit d' = df_limit d"
      "\<not> notify_table_size_change d'"
      "df_min_hd_table_bufsize_max d' = (if notify_table_size_change d then UINT32_MAX else df_min_hd_table_bufsize_max d)"
      "block_spec NGHTTP2_HD_MAX_NV (df_limit d, hfields es) nva cs (df_limit d, hfields es')" by blast
  let ?u = "concat (map repr_bytes (size_updates d))" and ?c = "concat (map repr_bytes cs)" and ?i = "hd_inflate_keep_free i"
  have "\<exists>j gs. inflate_loop ?i (?u @ ?c) False = inflate_loop j ?c False \<and>
    ready j gs \<and> if_state j = STATE_INFLATE_START \<and> if_limit j = df_limit d \<and> hfields gs = hfields es \<and>
    hd_bad (if_ctx j) = hd_bad (if_ctx ?i) \<and> settings_hd_table_bufsize_max j = settings_hd_table_bufsize_max ?i \<and>
    if_min_hd_table_bufsize_max j = UINT32_MAX"
  proof (cases "notify_table_size_change d")
    case True
    then show ?thesis using a p by (intro in_step_updates) simp_all
  next
    case False
    have rep: "ctx_repr (if_ctx i) None fs" "hd_table_bufsize (if_ctx i) \<le> if_limit i" using a(2) by (simp_all add: ready_def ctx_inv_def)
    then have "sum_list (map field_room (hfields fs)) \<le> df_limit d"
      using p False by (simp add: ctx_repr_def hfields_def field_room_ent comp_def)
    then have all: "sum_list (map field_room (hfields fs)) \<le> announced d"
      using p False a(1) by (simp add: announced_def deflater_repr_def ctx_inv_def UINT32_MAX_def min_def)
    have fs: "hfields fs = hfields es" using a(8) by (simp add: fit_all [OF all])
    show ?thesis using a p False fs by (intro exI [of _ ?i] exI [of _ fs]) (simp add: size_updates_def)
  qed
  then obtain j gs where j: "inflate_loop ?i (?u @ ?c) False = inflate_loop j ?c False" "ready j gs"
    "if_state j = STATE_INFLATE_START" "if_limit j = df_limit d" "hfields gs = hfields es" "hd_bad (if_ctx j) = hd_bad (if_ctx i)"
    "settings_hd_table_bufsize_max j = settings_hd_table_bufsize_max i" "if_min_hd_table_bufsize_max j = UINT32_MAX" by auto
  have cs: "list_all is_field cs" "list_all (repr_fits NGHTTP2_HD_MAX_NV) cs"
    "exec_all cs (if_limit j, hfields gs) = Some (map (\<lambda>nv. (field_of nv, sensitive nv)) nva, (df_limit d, hfields es'))"
    using b(8) j(4,5) by (simp_all add: block_spec_def)
  have st: "if_state j = STATE_OPCODE \<or> if_state j = STATE_INFLATE_START" using j(3) by simp
  have bad: "\<not> hd_bad (if_ctx j)" using j(6) a(4) by simp
  from receive_fields [OF j(1) a(4) j(2) st cs(1,2) bad cs(3)] obtain nvs k hs where
    r: "receive_block i (?u @ ?c) = Some (Inr nvs, k)"
    "map emission nvs = map expected (map (\<lambda>nv. (field_of nv, sensitive nv)) nva)"
    "list_all (\<lambda>nv. hn_token nv = lookup_token (hn_name nv)) nvs" "ready k hs"
    "(df_limit d, hfields es') = (if_limit j, hfields hs)" "same_limits j k" "if_state k = STATE_INFLATE_START" by blast
  have small: "sum_list (map field_room (hfields hs)) \<le> announced d'"
  proof -
    have "ctx_repr (if_ctx k) None hs" "hd_table_bufsize (if_ctx k) \<le> if_limit k" "if_limit k < 2 ^ 32"
      using r(4) by (simp_all add: ready_def ctx_inv_def)
    then show ?thesis using r(5,6) p b(5,7)
      by (auto simp: ctx_repr_def hfields_def field_room_ent comp_def announced_def same_limits_def UINT32_MAX_def)
  qed
  have "hfields es' = fit field_room (announced d') (hfields hs)" using r(5) by (simp add: fit_all [OF small])
  moreover have "df_min_hd_table_bufsize_max d' = UINT32_MAX" using b(7) p by auto
  ultimately have "in_step d' k" unfolding in_step_def
    using b r j a(6) a(4) by (intro exI [of _ es'] exI [of _ hs]) (auto simp: same_limits_def announced_def)
  moreover have "map emission nvs = map (\<lambda>nv. expected (field_of nv, sensitive nv)) nva" using r(2) by (simp add: comp_def)
  moreover have "receive_block i (concat (map repr_bytes (size_updates d @ cs))) = Some (Inr nvs, k)" using r(1) by simp
  ultimately show ?thesis using b(1) r(3) by blast
qed

section \<open>A connection\<close>

text \<open>
  What happens between a sender and a receiver of header blocks, in order: a header list is sent
  through a buffer of the announced bound, or the setting for the table size takes effect on both
  sides. The result is the emitted fields and their flags, block by block; \<open>None\<close> if anything fails.
\<close>

datatype hpack_event = Headers "nghttp2_nv list" | Table_Size nat

fun hpack_run :: "nghttp2_hd_deflater \<Rightarrow> nghttp2_hd_inflater \<Rightarrow> hpack_event list \<Rightarrow> (hfield \<times> u8) list list option" where
  "hpack_run d i [] = Some []"
| "hpack_run d i (Headers nva # events) =
     (case nghttp2_hd_deflate_hd2 d (replicate (nghttp2_hd_deflate_bound d nva) 0) nva of
        Some (Inr n, d', block) \<Rightarrow>
          (case receive_block i block of
             Some (Inr nvs, i') \<Rightarrow> map_option (\<lambda>rest. map emission nvs # rest) (hpack_run d' i' events)
           | _ \<Rightarrow> None)
      | _ \<Rightarrow> None)"
| "hpack_run d i (Table_Size n # events) =
     (case (nghttp2_hd_deflate_change_table_size d n, nghttp2_hd_inflate_change_table_size i n) of
        (Some d', Some (Inr _, i')) \<Rightarrow> hpack_run d' i' events
      | _ \<Rightarrow> None)"

fun event_ok :: "hpack_event \<Rightarrow> bool" where
  "event_ok (Headers nva) \<longleftrightarrow> list_all nv_tiny nva \<and> list_all (nv_short NGHTTP2_HD_MAX_NV) nva"
| "event_ok (Table_Size n) \<longleftrightarrow> n < 2 ^ 32"

fun sent :: "hpack_event list \<Rightarrow> (hfield \<times> u8) list list" where
  "sent [] = []"
| "sent (Headers nva # events) =
     map (\<lambda>nv. ((nv_name nv, nv_value nv), if sensitive nv then NGHTTP2_NV_FLAG_NO_INDEX else NGHTTP2_NV_FLAG_NONE)) nva
     # sent events"
| "sent (Table_Size n # events) = sent events"

lemma hpack_run_in_step: "in_step d i \<Longrightarrow> list_all event_ok events \<Longrightarrow> hpack_run d i events = Some (sent events)"
proof (induction d i events rule: hpack_run.induct)
  case (2 d i nva events)
  have nva: "list_all nv_tiny nva" "list_all (nv_short NGHTTP2_HD_MAX_NV) nva" using 2(3) by simp_all
  from in_step_block [OF 2(2) nva] obtain n d' block nvs i' where
    b: "nghttp2_hd_deflate_hd2 d (replicate (nghttp2_hd_deflate_bound d nva) 0) nva = Some (Inr n, d', block)"
    "receive_block i block = Some (Inr nvs, i')" "in_step d' i'"
    "map emission nvs = map (\<lambda>nv. expected (field_of nv, sensitive nv)) nva" by blast
  have "hpack_run d' i' events = Some (sent events)" using 2(1) b 2(3) by simp
  then show ?case using b by (simp add: expected_def field_of_def)
next
  case (3 d i n events)
  have n: "n < 2 ^ 32" using 3(3) by simp
  from in_step_resize [OF 3(2) n] obtain d' i' where
    "nghttp2_hd_deflate_change_table_size d n = Some d'" "nghttp2_hd_inflate_change_table_size i n = Some (Inr (), i')"
    "in_step d' i'" by blast
  then show ?case using 3(1,3) by simp
qed simp

text \<open>
  C1. HPACK end to end. Take a fresh compressor, of any maximal table size, and a fresh decompressor,
  and any sequence of header lists and of changes of the table size setting, including changes to
  0 and several changes between two blocks. When the allocator does not fail, every header list
  is compressed into a buffer of the announced bound, and the decompressor emits from that block
  exactly its fields, in order; a field carries the flag that forbids indexing exactly when the
  sender's field was sensitive. Strings may be as long as the decompressor accepts, 65536 bytes
  on the wire.
\<close>

theorem hpack_end_to_end:
  assumes "nghttp2_hd_deflate_new2 n [] = Inr d" and "nghttp2_hd_inflate_new2 [] = Inr i" and "list_all event_ok events"
  shows "hpack_run d i events = Some (sent events)"
  using in_step_init [OF assms(1,2)] assms(3) by (rule hpack_run_in_step)

definition example_events :: "hpack_event list" where
  "example_events = [Table_Size 100, Table_Size 0, Headers [\<lparr>nv_name = [97], nv_value = [98], nv_flags = 0\<rparr>],
     Table_Size 4096, Headers [\<lparr>nv_name = [97], nv_value = [98], nv_flags = 0\<rparr>, \<lparr>nv_name = [97], nv_value = [98], nv_flags = 1\<rparr>]]"

theorem hpack_end_to_end_witness:
  "\<exists>d i. nghttp2_hd_deflate_new2 4096 [] = Inr d \<and> nghttp2_hd_inflate_new2 [] = Inr i \<and>
     hpack_run d i example_events = Some [[(([97], [98]), 0)], [(([97], [98]), 0), (([97], [98]), 1)]]"
proof -
  have d: "nghttp2_hd_deflate_new2 4096 [] = Inr example_deflater"
    by (simp add: nghttp2_hd_deflate_new2_def example_deflater_init)
  obtain i where i: "nghttp2_hd_inflate_new2 [] = Inr i"
    using example_ctx_init by (auto simp: nghttp2_hd_inflate_new2_def nghttp2_hd_inflate_init_def)
  have ok: "list_all event_ok example_events"
    using string_size_le [of "[97]"] string_size_le [of "[98]"]
    by (simp add: example_events_def nv_tiny_def nv_short_def NGHTTP2_HD_MAX_NV_def)
  have tok: "lookup_token [97] = - 1" by code_simp
  have "sent example_events = [[(([97], [98]), 0)], [(([97], [98]), 0), (([97], [98]), 1)]]"
    by (simp add: example_events_def sensitive_def tok NGHTTP2_NV_FLAG_NO_INDEX_def NGHTTP2_NV_FLAG_NONE_def token_consts)
  then show ?thesis using hpack_end_to_end [OF d i ok] d i by auto
qed

end
