(* ===== verification/Sfparse.thy ===== *)
theory Sfparse
  imports Nghttp2_Base "HOL-Library.Sublist"
begin

text \<open>
  The parser of structured field values (RFC 9651) in sfparse.c, which nghttp2 uses for the
  priority header field.

  The C parser keeps a pointer \<open>pos\<close>, a pointer \<open>end\<close> and a state word. The model keeps the
  bytes from \<open>pos\<close> to \<open>end\<close>; two positions of the same input determine the bytes between them.
  A function that only moves \<open>pos\<close> is a function of these bytes. The result \<open>None\<close> is a read at
  \<open>end\<close> or beyond, a failed assertion or a call of \<open>abort\<close>; \<open>Some (Inl e, _)\<close> is the return of an
  error code and \<open>Some (Inr x, _)\<close> the return of 0 with what was stored in the destinations. A
  destination that is NULL only leaves out the store. The code in the AVX2 sections, which
  computes the same spans 32 bytes at a time, is not modelled.
\<close>

unbundle bit_operations_syntax

section \<open>States, errors and values\<close>

definition SFPARSE_STATE_DICT :: u32 where "SFPARSE_STATE_DICT = 0x08"

definition SFPARSE_STATE_LIST :: u32 where "SFPARSE_STATE_LIST = 0x10"

definition SFPARSE_STATE_ITEM :: u32 where "SFPARSE_STATE_ITEM = 0x18"

definition SFPARSE_STATE_INNER_LIST :: u32 where "SFPARSE_STATE_INNER_LIST = 0x04"

definition SFPARSE_STATE_BEFORE :: u32 where "SFPARSE_STATE_BEFORE = 0x00"

definition SFPARSE_STATE_BEFORE_PARAMS :: u32 where "SFPARSE_STATE_BEFORE_PARAMS = 0x01"

definition SFPARSE_STATE_PARAMS :: u32 where "SFPARSE_STATE_PARAMS = 0x02"

definition SFPARSE_STATE_AFTER :: u32 where "SFPARSE_STATE_AFTER = 0x03"

definition SFPARSE_STATE_OP_MASK :: u32 where "SFPARSE_STATE_OP_MASK = 0x03"

definition SFPARSE_SET_STATE_AFTER :: "u32 \<Rightarrow> u32" where
  "SFPARSE_SET_STATE_AFTER name = name OR SFPARSE_STATE_AFTER"

definition SFPARSE_SET_STATE_BEFORE_PARAMS :: "u32 \<Rightarrow> u32" where
  "SFPARSE_SET_STATE_BEFORE_PARAMS name = name OR SFPARSE_STATE_BEFORE_PARAMS"

definition SFPARSE_SET_STATE_INNER_LIST_BEFORE :: "u32 \<Rightarrow> u32" where
  "SFPARSE_SET_STATE_INNER_LIST_BEFORE name = name OR SFPARSE_STATE_INNER_LIST OR SFPARSE_STATE_BEFORE"

definition SFPARSE_STATE_INITIAL :: u32 where "SFPARSE_STATE_INITIAL = 0x00"

datatype sfparse_error = SFPARSE_ERR_PARSE | SFPARSE_ERR_EOF

type_synonym 'a sf_res = "sfparse_error + 'a"

definition SFPARSE_VALUE_FLAG_NONE :: u32 where "SFPARSE_VALUE_FLAG_NONE = 0x0"

definition SFPARSE_VALUE_FLAG_ESCAPED_STRING :: u32 where "SFPARSE_VALUE_FLAG_ESCAPED_STRING = 0x1"

text \<open>
  The union of \<open>sfparse_value\<close>, by its tag. Only strings use the flags. A \<open>vec\<close> is the bytes it
  points to; an empty one has the base NULL in C.
\<close>

datatype sfparse_value =
    TYPE_BOOLEAN int
  | TYPE_INTEGER int
  | TYPE_DECIMAL int int
  | TYPE_STRING u32 bytes
  | TYPE_TOKEN bytes
  | TYPE_BYTESEQ bytes
  | TYPE_INNER_LIST
  | TYPE_DATE int
  | TYPE_DISPSTRING bytes

record sfparse_parser =
  sfp_data :: bytes
  sfp_state :: u32

section \<open>Character classes\<close>

abbreviation CH_SP :: u8 where "CH_SP \<equiv> 0x20"
abbreviation CH_HT :: u8 where "CH_HT \<equiv> 0x09"
abbreviation CH_QUOTE :: u8 where "CH_QUOTE \<equiv> 0x22"
abbreviation CH_PERCENT :: u8 where "CH_PERCENT \<equiv> 0x25"
abbreviation CH_LPAREN :: u8 where "CH_LPAREN \<equiv> 0x28"
abbreviation CH_RPAREN :: u8 where "CH_RPAREN \<equiv> 0x29"
abbreviation CH_STAR :: u8 where "CH_STAR \<equiv> 0x2a"
abbreviation CH_PLUS :: u8 where "CH_PLUS \<equiv> 0x2b"
abbreviation CH_COMMA :: u8 where "CH_COMMA \<equiv> 0x2c"
abbreviation CH_MINUS :: u8 where "CH_MINUS \<equiv> 0x2d"
abbreviation CH_DOT :: u8 where "CH_DOT \<equiv> 0x2e"
abbreviation CH_SLASH :: u8 where "CH_SLASH \<equiv> 0x2f"
abbreviation CH_0 :: u8 where "CH_0 \<equiv> 0x30"
abbreviation CH_1 :: u8 where "CH_1 \<equiv> 0x31"
abbreviation CH_COLON :: u8 where "CH_COLON \<equiv> 0x3a"
abbreviation CH_SEMICOLON :: u8 where "CH_SEMICOLON \<equiv> 0x3b"
abbreviation CH_EQ :: u8 where "CH_EQ \<equiv> 0x3d"
abbreviation CH_QUESTION :: u8 where "CH_QUESTION \<equiv> 0x3f"
abbreviation CH_AT :: u8 where "CH_AT \<equiv> 0x40"
abbreviation CH_BACKSLASH :: u8 where "CH_BACKSLASH \<equiv> 0x5c"
abbreviation CH_UNDERSCORE :: u8 where "CH_UNDERSCORE \<equiv> 0x5f"
abbreviation CH_a :: u8 where "CH_a \<equiv> 0x61"

definition DIGIT_CASES :: "u8 \<Rightarrow> bool" where "DIGIT_CASES c \<longleftrightarrow> 0x30 \<le> c \<and> c \<le> 0x39"

definition LCALPHA_CASES :: "u8 \<Rightarrow> bool" where "LCALPHA_CASES c \<longleftrightarrow> 0x61 \<le> c \<and> c \<le> 0x7a"

definition UCALPHA_CASES :: "u8 \<Rightarrow> bool" where "UCALPHA_CASES c \<longleftrightarrow> 0x41 \<le> c \<and> c \<le> 0x5a"

definition ALPHA_CASES :: "u8 \<Rightarrow> bool" where "ALPHA_CASES c \<longleftrightarrow> UCALPHA_CASES c \<or> LCALPHA_CASES c"

definition TOKEN_CASES :: "u8 \<Rightarrow> bool" where
  "TOKEN_CASES c \<longleftrightarrow>
     c = 0x21 \<or> c = 0x23 \<or> c = 0x24 \<or> c = 0x25 \<or> c = 0x26 \<or> c = 0x27 \<or> c = 0x2a \<or> c = 0x2b \<or> c = 0x2d \<or>
     c = 0x2e \<or> c = 0x2f \<or> DIGIT_CASES c \<or> c = 0x3a \<or> UCALPHA_CASES c \<or> c = 0x5e \<or> c = 0x5f \<or> c = 0x60 \<or>
     LCALPHA_CASES c \<or> c = 0x7c \<or> c = 0x7e"

definition LCHEXALPHA_CASES :: "u8 \<Rightarrow> bool" where "LCHEXALPHA_CASES c \<longleftrightarrow> 0x61 \<le> c \<and> c \<le> 0x66"

definition X00_1F_CASES :: "u8 \<Rightarrow> bool" where "X00_1F_CASES c \<longleftrightarrow> c \<le> 0x1f"

definition X20_21_CASES :: "u8 \<Rightarrow> bool" where "X20_21_CASES c \<longleftrightarrow> c = 0x20 \<or> c = 0x21"

definition X23_5B_CASES :: "u8 \<Rightarrow> bool" where "X23_5B_CASES c \<longleftrightarrow> 0x23 \<le> c \<and> c \<le> 0x5b"

definition X5D_7E_CASES :: "u8 \<Rightarrow> bool" where "X5D_7E_CASES c \<longleftrightarrow> 0x5d \<le> c \<and> c \<le> 0x7e"

definition X7F_FF_CASES :: "u8 \<Rightarrow> bool" where "X7F_FF_CASES c \<longleftrightarrow> 0x7f \<le> c"

definition is_ws :: "u8 \<Rightarrow> bool" where "is_ws c \<longleftrightarrow> c = CH_SP \<or> c = CH_HT"

section \<open>Positions\<close>

text \<open>\<open>!parser_eof(sfp) && *sfp->pos == c\<close>, and the bytes from \<open>base\<close> to \<open>pos\<close>.\<close>

fun at_char :: "u8 \<Rightarrow> bytes \<Rightarrow> bool" where
  "at_char c [] = False"
| "at_char c (b # bs) = (b = c)"

definition slice :: "bytes \<Rightarrow> bytes \<Rightarrow> bytes" where
  "slice base bs = take (length base - length bs) base"

definition discard_ows :: "bytes \<Rightarrow> bytes" where
  "discard_ows bs = dropWhile is_ws bs"

definition discard_sp :: "bytes \<Rightarrow> bytes" where
  "discard_sp bs = dropWhile (\<lambda>c. c = CH_SP) bs"

text \<open>\<open>if (rv != 0) return rv\<close>.\<close>

fun sf_bind :: "('a sf_res \<times> 's) option \<Rightarrow> ('a \<Rightarrow> 's \<Rightarrow> ('b sf_res \<times> 's) option) \<Rightarrow> ('b sf_res \<times> 's) option" where
  "sf_bind None f = None"
| "sf_bind (Some (Inl e, s)) f = Some (Inl e, s)"
| "sf_bind (Some (Inr x, s)) f = f x s"

section \<open>Keys and bare items\<close>

definition key_start :: "u8 \<Rightarrow> bool" where
  "key_start c \<longleftrightarrow> c = CH_STAR \<or> LCALPHA_CASES c"

definition key_char :: "u8 \<Rightarrow> bool" where
  "key_char c \<longleftrightarrow> c = CH_UNDERSCORE \<or> c = CH_MINUS \<or> c = CH_DOT \<or> c = CH_STAR \<or> DIGIT_CASES c \<or> LCALPHA_CASES c"

definition parser_key :: "bytes \<Rightarrow> (bytes sf_res \<times> bytes) option" where
  "parser_key base =
     (case base of
        [] \<Rightarrow> None
      | c # bs \<Rightarrow>
          if \<not> key_start c then Some (Inl SFPARSE_ERR_PARSE, base)
          else let pos = dropWhile key_char bs in Some (Inr (slice base pos), pos))"

text \<open>Both loops of \<open>parser_number\<close>: digits are counted and added to the value.\<close>

fun number_digits :: "nat \<Rightarrow> int \<Rightarrow> bytes \<Rightarrow> (nat \<times> int) sf_res \<times> bytes" where
  "number_digits len value [] = (Inr (len, value), [])"
| "number_digits len value (c # bs) =
     (if DIGIT_CASES c then
        (if 15 < len + 1 then (Inl SFPARSE_ERR_PARSE, c # bs)
         else number_digits (len + 1) (value * 10 + (uint c - 0x30)) bs)
      else (Inr (len, value), c # bs))"

definition parser_number :: "bytes \<Rightarrow> (sfparse_value sf_res \<times> bytes) option" where
  "parser_number bs =
     (if bs = [] then None
      else
        let sign = (if at_char CH_MINUS bs then - 1 else 1);
            bs = (if at_char CH_MINUS bs then tl bs else bs)
        in
          if bs = [] then Some (Inl SFPARSE_ERR_PARSE, bs)
          else case number_digits 0 0 bs of
              (Inl e, bs) \<Rightarrow> Some (Inl e, bs)
            | (Inr (len, value), bs) \<Rightarrow>
                if len = 0 then Some (Inl SFPARSE_ERR_PARSE, bs)
                else if \<not> at_char CH_DOT bs then Some (Inr (TYPE_INTEGER (value * sign)), bs)
                else if 12 < len then Some (Inl SFPARSE_ERR_PARSE, bs)
                else let fpos = len in
                  case number_digits len value (tl bs) of
                    (Inl e, bs) \<Rightarrow> Some (Inl e, bs)
                  | (Inr (len, value), bs) \<Rightarrow>
                      if fpos = len \<or> 3 < len - fpos then Some (Inl SFPARSE_ERR_PARSE, bs)
                      else
                        let denom = (if len - fpos = 1 then 10 else if len - fpos = 2 then 100 else 1000)
                        in Some (Inr (TYPE_DECIMAL (value * sign) denom), bs))"

definition parser_date :: "bytes \<Rightarrow> (sfparse_value sf_res \<times> bytes) option" where
  "parser_date bs =
     (if \<not> at_char CH_AT bs then None
      else if tl bs = [] then Some (Inl SFPARSE_ERR_PARSE, [])
      else sf_bind (parser_number (tl bs)) (\<lambda>val bs.
        case val of
          TYPE_INTEGER n \<Rightarrow> Some (Inr (TYPE_DATE n), bs)
        | _ \<Rightarrow> Some (Inl SFPARSE_ERR_PARSE, bs)))"

text \<open>The loop ends at the closing quote, with the flags.\<close>

fun string_loop :: "u32 \<Rightarrow> bytes \<Rightarrow> u32 sf_res \<times> bytes" where
  "string_loop flags [] = (Inl SFPARSE_ERR_PARSE, [])"
| "string_loop flags (c # bs) =
     (if X20_21_CASES c \<or> X23_5B_CASES c \<or> X5D_7E_CASES c then string_loop flags bs
      else if c = CH_BACKSLASH then
        (case bs of
           [] \<Rightarrow> (Inl SFPARSE_ERR_PARSE, [])
         | d # bs' \<Rightarrow>
             if d = CH_QUOTE \<or> d = CH_BACKSLASH then string_loop SFPARSE_VALUE_FLAG_ESCAPED_STRING bs'
             else (Inl SFPARSE_ERR_PARSE, d # bs'))
      else if c = CH_QUOTE then (Inr flags, c # bs)
      else (Inl SFPARSE_ERR_PARSE, c # bs))"

definition parser_string :: "bytes \<Rightarrow> (sfparse_value sf_res \<times> bytes) option" where
  "parser_string bs =
     (if \<not> at_char CH_QUOTE bs then None
      else let base = tl bs in
        case string_loop SFPARSE_VALUE_FLAG_NONE base of
          (Inl e, pos) \<Rightarrow> Some (Inl e, pos)
        | (Inr flags, pos) \<Rightarrow> Some (Inr (TYPE_STRING flags (slice base pos)), tl pos))"

definition parser_token :: "bytes \<Rightarrow> (sfparse_value sf_res \<times> bytes) option" where
  "parser_token base =
     (if base = [] then None
      else let pos = dropWhile TOKEN_CASES (tl base) in Some (Inr (TYPE_TOKEN (slice base pos)), pos))"

text \<open>\<open>n\<close> is \<open>sfp->pos - base\<close>; the loop ends at the closing colon.\<close>

fun byteseq_loop :: "nat \<Rightarrow> bytes \<Rightarrow> unit sf_res \<times> bytes" where
  "byteseq_loop n [] = (Inl SFPARSE_ERR_PARSE, [])"
| "byteseq_loop n (c # bs) =
     (if c = CH_PLUS \<or> c = CH_SLASH \<or> DIGIT_CASES c \<or> ALPHA_CASES c then byteseq_loop (n + 1) bs
      else if c = CH_EQ then
        (if n mod 4 = 0 \<or> n mod 4 = 1 then (Inl SFPARSE_ERR_PARSE, c # bs)
         else if n mod 4 = 2 \<and> bs = [] then (Inl SFPARSE_ERR_PARSE, bs)
         else
           let pos = (if n mod 4 = 2 \<and> at_char CH_EQ bs then tl bs else bs) in
           if at_char CH_COLON pos then (Inr (), pos) else (Inl SFPARSE_ERR_PARSE, pos))
      else if c = CH_COLON then
        (if n mod 4 = 1 then (Inl SFPARSE_ERR_PARSE, c # bs) else (Inr (), c # bs))
      else (Inl SFPARSE_ERR_PARSE, c # bs))"

definition parser_byteseq :: "bytes \<Rightarrow> (sfparse_value sf_res \<times> bytes) option" where
  "parser_byteseq bs =
     (if \<not> at_char CH_COLON bs then None
      else let base = tl bs in
        case byteseq_loop 0 base of
          (Inl e, pos) \<Rightarrow> Some (Inl e, pos)
        | (Inr _, pos) \<Rightarrow> Some (Inr (TYPE_BYTESEQ (slice base pos)), tl pos))"

definition parser_boolean :: "bytes \<Rightarrow> (sfparse_value sf_res \<times> bytes) option" where
  "parser_boolean bs =
     (if \<not> at_char CH_QUESTION bs then None
      else case tl bs of
          [] \<Rightarrow> Some (Inl SFPARSE_ERR_PARSE, [])
        | c # bs' \<Rightarrow>
            if c = CH_0 then Some (Inr (TYPE_BOOLEAN 0), bs')
            else if c = CH_1 then Some (Inr (TYPE_BOOLEAN 1), bs')
            else Some (Inl SFPARSE_ERR_PARSE, c # bs'))"

text \<open>
  The result of \<open>pctdecode\<close> is the byte, or \<open>None\<close> for -1, and the position it stops at; the
  digits are read without looking at the end.
\<close>

definition hex_value :: "u8 \<Rightarrow> u8 option" where
  "hex_value b =
     (if DIGIT_CASES b then Some (b - CH_0) else if LCHEXALPHA_CASES b then Some (b - CH_a + 10) else None)"

definition pctdecode :: "bytes \<Rightarrow> (u8 option \<times> bytes) option" where
  "pctdecode pos =
     (case pos of
        [] \<Rightarrow> None
      | b # rest \<Rightarrow>
          (case hex_value b of
             None \<Rightarrow> Some (None, pos)
           | Some h \<Rightarrow>
               (case rest of
                  [] \<Rightarrow> None
                | b' # rest' \<Rightarrow>
                    (case hex_value b' of
                       None \<Rightarrow> Some (None, rest)
                     | Some l \<Rightarrow> Some (Some (push_bit 4 h OR l), rest')))))"

definition UTF8_ACCEPT :: u32 where "UTF8_ACCEPT = 0"

definition UTF8_REJECT :: u32 where "UTF8_REJECT = 12"

definition utf8d :: "u8 list" where
  "utf8d =
    [0, 0, 0, 0, 0, 0, 0, 0, 0, 0, 0, 0, 0, 0, 0, 0, 0, 0, 0, 0, 0, 0, 0, 0,
     0, 0, 0, 0, 0, 0, 0, 0, 0, 0, 0, 0, 0, 0, 0, 0, 0, 0, 0, 0, 0, 0, 0, 0,
     0, 0, 0, 0, 0, 0, 0, 0, 0, 0, 0, 0, 0, 0, 0, 0, 0, 0, 0, 0, 0, 0, 0, 0,
     0, 0, 0, 0, 0, 0, 0, 0, 0, 0, 0, 0, 0, 0, 0, 0, 0, 0, 0, 0, 0, 0, 0, 0,
     0, 0, 0, 0, 0, 0, 0, 0, 0, 0, 0, 0, 0, 0, 0, 0, 0, 0, 0, 0, 0, 0, 0, 0,
     0, 0, 0, 0, 0, 0, 0, 0, 1, 1, 1, 1, 1, 1, 1, 1, 1, 1, 1, 1, 1, 1, 1, 1,
     9, 9, 9, 9, 9, 9, 9, 9, 9, 9, 9, 9, 9, 9, 9, 9, 7, 7, 7, 7, 7, 7, 7, 7,
     7, 7, 7, 7, 7, 7, 7, 7, 7, 7, 7, 7, 7, 7, 7, 7, 7, 7, 7, 7, 7, 7, 7, 7,
     8, 8, 2, 2, 2, 2, 2, 2, 2, 2, 2, 2, 2, 2, 2, 2, 2, 2, 2, 2, 2, 2, 2, 2,
     2, 2, 2, 2, 2, 2, 2, 2, 10, 3, 3, 3, 3, 3, 3, 3, 3, 3, 3, 3, 3, 4, 3, 3,
     11, 6, 6, 6, 5, 8, 8, 8, 8, 8, 8, 8, 8, 8, 8, 8, 0, 12, 24, 36, 60, 96, 84, 12,
     12, 12, 48, 72, 12, 12, 12, 12, 12, 12, 12, 12, 12, 12, 12, 12, 12, 0, 12, 12, 12, 12, 12, 0,
     12, 0, 12, 12, 12, 24, 12, 12, 12, 12, 12, 24, 12, 24, 12, 12, 12, 12, 12, 12, 12, 12, 12, 24,
     12, 12, 12, 12, 12, 24, 12, 12, 12, 12, 12, 12, 12, 24, 12, 12, 12, 12, 12, 12, 12, 12, 12, 36,
     12, 36, 12, 12, 12, 36, 12, 12, 12, 12, 12, 36, 12, 36, 12, 12, 12, 36, 12, 12, 12, 12, 12, 12,
     12, 12, 12, 12]"

definition utf8_decode :: "u32 \<Rightarrow> u8 \<Rightarrow> u32" where
  "utf8_decode state byte = ucast (utf8d ! unat (256 + state + ucast (utf8d ! unat byte)))"

lemma pctdecode_length: "pctdecode bs = Some (r, bs') \<Longrightarrow> length bs' \<le> length bs"
  by (auto simp: pctdecode_def split: list.splits option.splits)

function dispstring_loop :: "u32 \<Rightarrow> bytes \<Rightarrow> (unit sf_res \<times> bytes) option" where
  "dispstring_loop utf8state [] = Some (Inl SFPARSE_ERR_PARSE, [])"
| "dispstring_loop utf8state (c # bs) =
     (if X00_1F_CASES c \<or> X7F_FF_CASES c then Some (Inl SFPARSE_ERR_PARSE, c # bs)
      else if c = CH_PERCENT then
        (if length bs < 2 then Some (Inl SFPARSE_ERR_PARSE, bs)
         else case pctdecode bs of
             None \<Rightarrow> None
           | Some (None, pos) \<Rightarrow> Some (Inl SFPARSE_ERR_PARSE, pos)
           | Some (Some b, pos) \<Rightarrow>
               let utf8state = utf8_decode utf8state b in
               if utf8state = UTF8_REJECT then Some (Inl SFPARSE_ERR_PARSE, pos)
               else dispstring_loop utf8state pos)
      else if c = CH_QUOTE then
        (if utf8state \<noteq> UTF8_ACCEPT then Some (Inl SFPARSE_ERR_PARSE, c # bs) else Some (Inr (), c # bs))
      else if utf8state \<noteq> UTF8_ACCEPT then Some (Inl SFPARSE_ERR_PARSE, c # bs)
      else dispstring_loop utf8state bs)"
  by pat_completeness auto

termination dispstring_loop
  by (relation "measure (\<lambda>(s, bs). length bs)") (auto dest: pctdecode_length)

definition parser_dispstring :: "bytes \<Rightarrow> (sfparse_value sf_res \<times> bytes) option" where
  "parser_dispstring bs =
     (if \<not> at_char CH_PERCENT bs then None
      else if \<not> at_char CH_QUOTE (tl bs) then Some (Inl SFPARSE_ERR_PARSE, tl bs)
      else let base = tl (tl bs) in
        sf_bind (dispstring_loop UTF8_ACCEPT base) (\<lambda>_ pos.
          Some (Inr (TYPE_DISPSTRING (slice base pos)), tl pos)))"

definition parser_bare_item :: "bytes \<Rightarrow> (sfparse_value sf_res \<times> bytes) option" where
  "parser_bare_item bs =
     (case bs of
        [] \<Rightarrow> None
      | c # _ \<Rightarrow>
          if c = CH_QUOTE then parser_string bs
          else if c = CH_MINUS \<or> DIGIT_CASES c then parser_number bs
          else if c = CH_AT then parser_date bs
          else if c = CH_COLON then parser_byteseq bs
          else if c = CH_QUESTION then parser_boolean bs
          else if c = CH_STAR \<or> ALPHA_CASES c then parser_token bs
          else if c = CH_PERCENT then parser_dispstring bs
          else Some (Inl SFPARSE_ERR_PARSE, bs))"

section \<open>The parser\<close>

definition on_pos :: "(bytes \<Rightarrow> ('a sf_res \<times> bytes) option) \<Rightarrow> sfparse_parser \<Rightarrow> ('a sf_res \<times> sfparse_parser) option" where
  "on_pos f sfp = map_option (\<lambda>(r, bs). (r, sfp\<lparr>sfp_data := bs\<rparr>)) (f (sfp_data sfp))"

definition parser_eof :: "sfparse_parser \<Rightarrow> bool" where
  "parser_eof sfp \<longleftrightarrow> sfp_data sfp = []"

text \<open>\<open>++sfp->pos\<close>\<close>

definition next_char :: "sfparse_parser \<Rightarrow> sfparse_parser" where
  "next_char sfp = sfp\<lparr>sfp_data := tl (sfp_data sfp)\<rparr>"

definition parser_discard_ows :: "sfparse_parser \<Rightarrow> sfparse_parser" where
  "parser_discard_ows sfp = sfp\<lparr>sfp_data := discard_ows (sfp_data sfp)\<rparr>"

definition parser_discard_sp :: "sfparse_parser \<Rightarrow> sfparse_parser" where
  "parser_discard_sp sfp = sfp\<lparr>sfp_data := discard_sp (sfp_data sfp)\<rparr>"

definition parser_set_op_state :: "sfparse_parser \<Rightarrow> u32 \<Rightarrow> sfparse_parser" where
  "parser_set_op_state sfp op = sfp\<lparr>sfp_state := (sfp_state sfp AND NOT SFPARSE_STATE_OP_MASK) OR op\<rparr>"

definition parser_unset_inner_list_state :: "sfparse_parser \<Rightarrow> sfparse_parser" where
  "parser_unset_inner_list_state sfp = sfp\<lparr>sfp_state := sfp_state sfp AND NOT SFPARSE_STATE_INNER_LIST\<rparr>"

definition op_state :: "sfparse_parser \<Rightarrow> u32" where
  "op_state sfp = sfp_state sfp AND SFPARSE_STATE_OP_MASK"

definition sfparse_parser_init :: "bytes \<Rightarrow> sfparse_parser" where
  "sfparse_parser_init data = \<lparr>sfp_data = data, sfp_state = SFPARSE_STATE_INITIAL\<rparr>"

subsection \<open>Parameters\<close>

text \<open>
  The calls among \<open>sfparse_parser_param\<close>, \<open>parser_skip_inner_list\<close>, \<open>sfparse_parser_inner_list\<close>
  and \<open>parser_skip_params\<close> form a cycle, but \<open>parser_skip_params\<close> is never called with the
  operation state \<open>BEFORE\<close>, the only one in which \<open>sfparse_parser_param\<close> skips an inner list. The
  definitions follow the call order: first what \<open>sfparse_parser_param\<close> does after its switch, then
  its switch without that case, which is all the skip loop needs, and the whole function
  after the inner lists. Lemma \<open>parser_skip_params_as_written\<close> below states the recursion of the source.
\<close>

definition param_pair :: "sfparse_parser \<Rightarrow> ((bytes \<times> sfparse_value) sf_res \<times> sfparse_parser) option" where
  "param_pair sfp =
     (if \<not> at_char CH_SEMICOLON (sfp_data sfp)
      then Some (Inl SFPARSE_ERR_EOF, parser_set_op_state sfp SFPARSE_STATE_AFTER)
      else
        let sfp = parser_discard_sp (next_char sfp) in
        if parser_eof sfp then Some (Inl SFPARSE_ERR_PARSE, sfp)
        else sf_bind (on_pos parser_key sfp) (\<lambda>key sfp.
          if \<not> at_char CH_EQ (sfp_data sfp) then Some (Inr (key, TYPE_BOOLEAN 1), sfp)
          else
            let sfp = next_char sfp in
            if parser_eof sfp then Some (Inl SFPARSE_ERR_PARSE, sfp)
            else sf_bind (on_pos parser_bare_item sfp) (\<lambda>val sfp. Some (Inr (key, val), sfp))))"

definition param_in_params :: "sfparse_parser \<Rightarrow> ((bytes \<times> sfparse_value) sf_res \<times> sfparse_parser) option" where
  "param_in_params sfp =
     (if op_state sfp = SFPARSE_STATE_BEFORE_PARAMS then param_pair (parser_set_op_state sfp SFPARSE_STATE_PARAMS)
      else if op_state sfp = SFPARSE_STATE_PARAMS then param_pair sfp
      else None)"

subsection \<open>Every item that is read moves the position\<close>

named_theorems sf_suffix \<open>the position moves towards the end\<close>

lemma suffix_Cons_right [sf_suffix, intro]: "suffix xs ys \<Longrightarrow> suffix xs (y # ys)"
  by (simp add: suffix_ConsI)

lemma suffix_tl_left [sf_suffix]: "suffix xs ys \<Longrightarrow> suffix (tl xs) ys"
  by (metis suffix_order.order_trans suffix_tl)

lemma number_digits_suffix [sf_suffix]: "number_digits len v bs = (r, bs') \<Longrightarrow> suffix bs' bs"
  by (induction len v bs rule: number_digits.induct) (auto split: if_splits)

lemma string_loop_suffix [sf_suffix]: "string_loop flags bs = (r, bs') \<Longrightarrow> suffix bs' bs"
  by (induction flags bs rule: string_loop.induct) (auto split: if_splits list.splits)

lemma byteseq_loop_suffix [sf_suffix]: "byteseq_loop n bs = (r, bs') \<Longrightarrow> suffix bs' bs"
  by (induction n bs rule: byteseq_loop.induct) (auto simp: Let_def suffix_tl_left split: if_splits)

lemma pctdecode_suffix [sf_suffix]: "pctdecode bs = Some (r, bs') \<Longrightarrow> suffix bs' bs"
  by (auto simp: pctdecode_def split: list.splits option.splits)

lemma dispstring_loop_suffix [sf_suffix]: "dispstring_loop st bs = Some (r, bs') \<Longrightarrow> suffix bs' bs"
proof (induction st bs rule: dispstring_loop.induct)
  case (2 st c bs)
  then show ?case
    by (auto simp: Let_def suffix_Cons split: if_splits option.splits dest!: pctdecode_suffix)
      (metis suffix_order.trans)
qed simp

lemma strict_suffix_ConsI: "suffix xs ys \<Longrightarrow> strict_suffix xs (y # ys)"
  by (auto simp: strict_suffix_def suffix_ConsI suffix_length_le dest: suffix_length_le)

lemma strict_suffix_tl: "bs \<noteq> [] \<Longrightarrow> suffix xs (tl bs) \<Longrightarrow> strict_suffix xs bs"
  by (cases bs) (simp_all add: strict_suffix_ConsI)

lemma at_char_iff: "at_char c bs \<longleftrightarrow> (\<exists>bs'. bs = c # bs')"
  by (cases bs) auto

lemma sf_bind_eq_Some:
  "sf_bind m f = Some (r, s') \<longleftrightarrow>
     (\<exists>e. m = Some (Inl e, s') \<and> r = Inl e) \<or> (\<exists>x s. m = Some (Inr x, s) \<and> f x s = Some (r, s'))"
  by (cases "(m, f)" rule: sf_bind.cases) auto

lemma dropWhile_suffix [sf_suffix]: "suffix (dropWhile P xs) xs"
  by (simp add: suffix_dropWhile)

lemma parser_key_moves: "parser_key bs = Some (Inr k, bs') \<Longrightarrow> strict_suffix bs' bs"
  by (auto simp: parser_key_def Let_def sf_suffix intro!: strict_suffix_ConsI split: list.splits if_splits)

lemma parser_number_moves:
  assumes "parser_number bs = Some (Inr v, bs')"
  shows "strict_suffix bs' bs"
proof -
  let ?bs = "if at_char CH_MINUS bs then tl bs else bs"
  obtain len val mid where d: "number_digits 0 0 ?bs = (Inr (len, val), mid)" "len \<noteq> 0"
    using assms by (auto simp: parser_number_def Let_def split: if_splits sum.splits prod.splits)
  have "mid \<noteq> ?bs"
  proof
    assume "mid = ?bs"
    moreover have "number_digits l v xs = (Inr (l', v'), ys) \<Longrightarrow> l' + length ys = l + length xs"
      for l v l' v' and xs ys :: bytes
      by (induction l v xs rule: number_digits.induct) (auto split: if_splits)
    from this [OF d(1)] have "len + length mid = length ?bs" by simp
    ultimately show False using d(2) by simp
  qed
  moreover have "suffix mid ?bs" using number_digits_suffix [OF d(1)] .
  ultimately have m: "strict_suffix mid ?bs" by (simp add: strict_suffix_def)
  have "suffix ?bs bs" by simp
  with m have m': "strict_suffix mid bs" by (rule suffix_order.less_le_trans)
  obtain r s where t: "number_digits len val (tl mid) = (r, s)" by (cases "number_digits len val (tl mid)") auto
  have "bs' = mid \<or> bs' = s"
    using assms d t by (cases r) (auto simp: parser_number_def Let_def split: if_split_asm prod.split_asm)
  moreover have "suffix s mid" using number_digits_suffix [OF t] by (rule suffix_order.trans) (rule suffix_tl)
  ultimately have "suffix bs' mid" by auto
  then show ?thesis using m' by (rule suffix_order.le_less_trans)
qed

lemma parser_date_cases:
  obtains (None) "m = None" | (err) e s where "m = Some (Inl e, s)"
  | (int) n s where "m = Some (Inr (TYPE_INTEGER n), s)"
  | (other) v s where "m = Some (Inr v, s)" "\<And>n. v \<noteq> TYPE_INTEGER n"
proof (cases m)
  case (Some p)
  then show thesis using that by (cases p; cases "fst p") auto
qed

lemma parser_bare_item_moves:
  assumes "parser_bare_item bs = Some (Inr v, bs')"
  shows "strict_suffix bs' bs"
proof -
  have str: "parser_string bs = Some (Inr v, bs') \<Longrightarrow> strict_suffix bs' bs"
    by (auto simp: parser_string_def Let_def at_char_iff split: if_splits sum.splits prod.splits
        dest!: string_loop_suffix intro!: strict_suffix_ConsI suffix_tl_left)
  have date: "strict_suffix bs' bs" if "parser_date bs = Some (Inr v, bs')"
  proof -
    from that obtain rest x where "bs = CH_AT # rest" "parser_number rest = Some (Inr x, bs')"
      by (cases "parser_number (tl bs)" rule: parser_date_cases)
        (auto simp: parser_date_def at_char_iff split: if_splits sfparse_value.split_asm)
    then show ?thesis using parser_number_moves [of rest x bs'] by (simp add: strict_suffix_ConsI)
  qed
  have byteseq: "parser_byteseq bs = Some (Inr v, bs') \<Longrightarrow> strict_suffix bs' bs"
    by (auto simp: parser_byteseq_def Let_def at_char_iff split: if_splits sum.splits prod.splits
        dest!: byteseq_loop_suffix intro!: strict_suffix_ConsI suffix_tl_left)
  have bool: "parser_boolean bs = Some (Inr v, bs') \<Longrightarrow> strict_suffix bs' bs"
    by (auto simp: parser_boolean_def at_char_iff split: if_splits list.splits intro!: strict_suffix_ConsI)
  have token: "parser_token bs = Some (Inr v, bs') \<Longrightarrow> strict_suffix bs' bs"
    by (auto simp: parser_token_def Let_def sf_suffix split: if_splits intro!: strict_suffix_tl)
  have disp: "parser_dispstring bs = Some (Inr v, bs') \<Longrightarrow> strict_suffix bs' bs"
    by (auto simp: parser_dispstring_def Let_def at_char_iff sf_bind_eq_Some split: if_splits
        dest!: dispstring_loop_suffix intro!: strict_suffix_ConsI suffix_tl_left suffix_Cons_right)
  show ?thesis
    using assms str date byteseq bool token disp parser_number_moves [of bs v bs']
    by (auto simp: parser_bare_item_def split: list.splits if_splits)
qed

lemma on_pos_eq_Some:
  "on_pos f sfp = Some (r, sfp') \<longleftrightarrow> (\<exists>bs'. f (sfp_data sfp) = Some (r, bs') \<and> sfp' = sfp\<lparr>sfp_data := bs'\<rparr>)"
  by (auto simp: on_pos_def)

lemma sfp_data_simps [simp]:
  "sfp_data (next_char sfp) = tl (sfp_data sfp)"
  "sfp_data (parser_discard_sp sfp) = discard_sp (sfp_data sfp)"
  "sfp_data (parser_discard_ows sfp) = discard_ows (sfp_data sfp)"
  "sfp_data (parser_set_op_state sfp op) = sfp_data sfp"
  "sfp_data (parser_unset_inner_list_state sfp) = sfp_data sfp"
  "sfp_data (sfparse_parser_init bs) = bs"
  by (simp_all add: next_char_def parser_discard_sp_def parser_discard_ows_def parser_set_op_state_def
      parser_unset_inner_list_state_def sfparse_parser_init_def)

lemma sfp_state_simps [simp]:
  "sfp_state (next_char sfp) = sfp_state sfp"
  "sfp_state (parser_discard_sp sfp) = sfp_state sfp"
  "sfp_state (parser_discard_ows sfp) = sfp_state sfp"
  "sfp_state (parser_set_op_state sfp op) = (sfp_state sfp AND NOT SFPARSE_STATE_OP_MASK) OR op"
  "sfp_state (parser_unset_inner_list_state sfp) = sfp_state sfp AND NOT SFPARSE_STATE_INNER_LIST"
  "sfp_state (sfparse_parser_init bs) = SFPARSE_STATE_INITIAL"
  by (simp_all add: next_char_def parser_discard_sp_def parser_discard_ows_def parser_set_op_state_def
      parser_unset_inner_list_state_def sfparse_parser_init_def)

lemma discard_suffix [sf_suffix]: "suffix (discard_sp bs) bs" "suffix (discard_ows bs) bs"
  by (simp_all add: discard_sp_def discard_ows_def sf_suffix)

lemma sf_bind_cases:
  obtains (None) "m = None" | (err) e s where "m = Some (Inl e, s)" | (val) x s where "m = Some (Inr x, s)"
proof (cases m)
  case (Some p)
  then show thesis using that by (cases p; cases "fst p") auto
qed

lemma param_pair_moves:
  assumes "param_pair sfp = Some (Inr kv, sfp')"
  shows "strict_suffix (sfp_data sfp') (sfp_data sfp)"
proof -
  from assms obtain bs where d: "sfp_data sfp = CH_SEMICOLON # bs"
    by (auto simp: param_pair_def at_char_iff split: if_splits)
  let ?p = "parser_discard_sp (next_char sfp)"
  obtain k s1 where k: "on_pos parser_key ?p = Some (Inr k, s1)"
    and r: "(if \<not> at_char CH_EQ (sfp_data s1) then Some (Inr (k, TYPE_BOOLEAN 1), s1)
      else let sfp = next_char s1 in if parser_eof sfp then Some (Inl SFPARSE_ERR_PARSE, sfp)
        else sf_bind (on_pos parser_bare_item sfp) (\<lambda>val sfp. Some (Inr (k, val), sfp))) = Some (Inr kv, sfp')"
    using assms unfolding param_pair_def d Let_def
    by (cases "on_pos parser_key ?p" rule: sf_bind_cases) (simp_all add: Let_def split: if_split_asm)
  let ?mid = "sfp_data s1"
  have k': "parser_key (discard_sp bs) = Some (Inr k, ?mid)" using k by (auto simp: on_pos_eq_Some d)
  have "(\<not> at_char CH_EQ ?mid \<and> sfp_data sfp' = ?mid) \<or>
      (\<exists>v. parser_bare_item (tl ?mid) = Some (Inr v, sfp_data sfp'))"
    using r by (auto simp: Let_def sf_bind_eq_Some on_pos_eq_Some split: if_split_asm)
  then have "suffix (sfp_data sfp') ?mid"
    by (auto dest!: parser_bare_item_moves suffix_order.less_imp_le intro: suffix_order.trans [OF _ suffix_tl])
  also have "suffix ?mid (discard_sp bs)" using parser_key_moves [OF k'] by (rule suffix_order.less_imp_le)
  also have "suffix (discard_sp bs) bs" by (rule discard_suffix)
  finally show ?thesis by (simp add: d strict_suffix_ConsI)
qed

lemma param_in_params_moves:
  "param_in_params sfp = Some (Inr kv, sfp') \<Longrightarrow> strict_suffix (sfp_data sfp') (sfp_data sfp)"
  by (auto simp: param_in_params_def split: if_splits dest: param_pair_moves)

lemma strict_suffix_length: "strict_suffix xs ys \<Longrightarrow> length xs < length ys"
  by (auto simp: strict_suffix_def suffix_def)

function parser_skip_params :: "sfparse_parser \<Rightarrow> (unit sf_res \<times> sfparse_parser) option" where
  "parser_skip_params sfp =
     (case param_in_params sfp of
        None \<Rightarrow> None
      | Some (Inr _, sfp) \<Rightarrow> parser_skip_params sfp
      | Some (Inl SFPARSE_ERR_EOF, sfp) \<Rightarrow> Some (Inr (), sfp)
      | Some (Inl SFPARSE_ERR_PARSE, sfp) \<Rightarrow> Some (Inl SFPARSE_ERR_PARSE, sfp))"
  by pat_completeness auto

termination parser_skip_params
  by (relation "measure (\<lambda>sfp. length (sfp_data sfp))") (auto dest: param_in_params_moves strict_suffix_length)

declare parser_skip_params.simps [simp del]

subsection \<open>Inner lists\<close>

text \<open>\<open>inner_list_item\<close> is the code after the switch, \<open>inner_list_after\<close> the case \<open>AFTER\<close> and that code.\<close>

definition inner_list_item :: "sfparse_parser \<Rightarrow> (sfparse_value sf_res \<times> sfparse_parser) option" where
  "inner_list_item sfp =
     (if parser_eof sfp then None
      else if at_char CH_RPAREN (sfp_data sfp) then
        Some (Inl SFPARSE_ERR_EOF,
          parser_set_op_state (parser_unset_inner_list_state (next_char sfp)) SFPARSE_STATE_BEFORE_PARAMS)
      else sf_bind (on_pos parser_bare_item sfp) (\<lambda>val sfp.
        Some (Inr val, parser_set_op_state sfp SFPARSE_STATE_BEFORE_PARAMS)))"

definition inner_list_after :: "sfparse_parser \<Rightarrow> (sfparse_value sf_res \<times> sfparse_parser) option" where
  "inner_list_after sfp =
     (if parser_eof sfp then Some (Inl SFPARSE_ERR_PARSE, sfp)
      else if at_char CH_SP (sfp_data sfp) then
        (let sfp = parser_discard_sp sfp in
         if parser_eof sfp then Some (Inl SFPARSE_ERR_PARSE, sfp) else inner_list_item sfp)
      else if at_char CH_RPAREN (sfp_data sfp) then inner_list_item sfp
      else Some (Inl SFPARSE_ERR_PARSE, sfp))"

definition sfparse_parser_inner_list :: "sfparse_parser \<Rightarrow> (sfparse_value sf_res \<times> sfparse_parser) option" where
  "sfparse_parser_inner_list sfp =
     (if op_state sfp = SFPARSE_STATE_BEFORE then
        (let sfp = parser_discard_sp sfp in
         if parser_eof sfp then Some (Inl SFPARSE_ERR_PARSE, sfp) else inner_list_item sfp)
      else if op_state sfp = SFPARSE_STATE_BEFORE_PARAMS then
        sf_bind (parser_skip_params sfp) (\<lambda>_ sfp. inner_list_after sfp)
      else if op_state sfp = SFPARSE_STATE_AFTER then inner_list_after sfp
      else None)"

text \<open>An error of a lexical function is never \<open>EOF\<close>; that code only stands for the end of parameters or items.\<close>

lemma no_eof:
  "parser_key bs \<noteq> Some (Inl SFPARSE_ERR_EOF, bs')"
  "number_digits len v bs \<noteq> (Inl SFPARSE_ERR_EOF, bs')"
  "string_loop flags bs \<noteq> (Inl SFPARSE_ERR_EOF, bs')"
  "byteseq_loop n bs \<noteq> (Inl SFPARSE_ERR_EOF, bs')"
  "dispstring_loop st bs \<noteq> Some (Inl SFPARSE_ERR_EOF, bs')"
proof -
  show "parser_key bs \<noteq> Some (Inl SFPARSE_ERR_EOF, bs')" by (auto simp: parser_key_def Let_def split: list.splits)
  show "number_digits len v bs \<noteq> (Inl SFPARSE_ERR_EOF, bs')"
    by (induction len v bs rule: number_digits.induct) auto
  show "string_loop flags bs \<noteq> (Inl SFPARSE_ERR_EOF, bs')"
    by (induction flags bs rule: string_loop.induct) (auto split: list.splits)
  show "byteseq_loop n bs \<noteq> (Inl SFPARSE_ERR_EOF, bs')"
    by (induction n bs rule: byteseq_loop.induct) (auto simp: Let_def)
  show "dispstring_loop st bs \<noteq> Some (Inl SFPARSE_ERR_EOF, bs')"
    by (induction st bs rule: dispstring_loop.induct) (auto simp: Let_def split: option.splits)
qed

lemma parser_number_no_eof: "parser_number bs \<noteq> Some (Inl SFPARSE_ERR_EOF, bs')"
proof
  assume a: "parser_number bs = Some (Inl SFPARSE_ERR_EOF, bs')"
  let ?bs = "if at_char CH_MINUS bs then tl bs else bs"
  obtain r s where d: "number_digits 0 0 ?bs = (r, s)" by (cases "number_digits 0 0 ?bs") auto
  show False
  proof (cases r)
    case (Inl e)
    then show False using a d no_eof(2) [of 0 0 ?bs]
      by (cases e) (auto simp: parser_number_def Let_def split: if_split_asm)
  next
    case (Inr x)
    obtain len n where x: "x = (len, n)" by (cases x)
    obtain r' s' where d': "number_digits len n (tl s) = (r', s')" by (cases "number_digits len n (tl s)") auto
    show False using a d d' Inr x no_eof(2) [of len n "tl s"]
      by (cases r'; cases "projl r'") (auto simp: parser_number_def Let_def split: if_split_asm prod.split_asm)
  qed
qed

lemma parser_bare_item_no_eof: "parser_bare_item bs \<noteq> Some (Inl SFPARSE_ERR_EOF, bs')"
proof -
  have "parser_string bs \<noteq> Some (Inl SFPARSE_ERR_EOF, bs')"
    by (auto simp: parser_string_def Let_def no_eof split: sum.splits prod.splits if_splits)
  moreover have "parser_date bs \<noteq> Some (Inl SFPARSE_ERR_EOF, bs')"
    by (cases "parser_number (tl bs)" rule: parser_date_cases)
      (auto simp: parser_date_def parser_number_no_eof split: sfparse_value.splits)
  moreover have "parser_byteseq bs \<noteq> Some (Inl SFPARSE_ERR_EOF, bs')"
    by (auto simp: parser_byteseq_def Let_def no_eof split: sum.splits prod.splits if_splits)
  moreover have "parser_boolean bs \<noteq> Some (Inl SFPARSE_ERR_EOF, bs')"
    by (auto simp: parser_boolean_def split: list.splits)
  moreover have "parser_token bs \<noteq> Some (Inl SFPARSE_ERR_EOF, bs')"
    by (auto simp: parser_token_def Let_def)
  moreover have "parser_dispstring bs \<noteq> Some (Inl SFPARSE_ERR_EOF, bs')"
    by (auto simp: parser_dispstring_def Let_def sf_bind_eq_Some no_eof)
  ultimately show ?thesis by (auto simp: parser_bare_item_def parser_number_no_eof split: list.splits)
qed

lemma param_pair_eof:
  assumes "param_pair sfp = Some (Inl SFPARSE_ERR_EOF, sfp')"
  shows "\<not> at_char CH_SEMICOLON (sfp_data sfp)" and "sfp' = parser_set_op_state sfp SFPARSE_STATE_AFTER"
proof -
  let ?p = "parser_discard_sp (next_char sfp)"
  have "\<not> at_char CH_SEMICOLON (sfp_data sfp) \<and> sfp' = parser_set_op_state sfp SFPARSE_STATE_AFTER"
    using assms unfolding param_pair_def
    by (cases "on_pos parser_key ?p" rule: sf_bind_cases)
      (auto simp: Let_def sf_bind_eq_Some on_pos_eq_Some no_eof parser_bare_item_no_eof split: if_split_asm)
  then show "\<not> at_char CH_SEMICOLON (sfp_data sfp)" and "sfp' = parser_set_op_state sfp SFPARSE_STATE_AFTER" by simp_all
qed

lemma param_in_params_eof: "param_in_params sfp = Some (Inl SFPARSE_ERR_EOF, sfp') \<Longrightarrow> sfp_data sfp' = sfp_data sfp"
  by (auto simp: param_in_params_def param_pair_eof split: if_split_asm dest!: param_pair_eof(2))

lemma parser_skip_params_suffix [sf_suffix]:
  "parser_skip_params sfp = Some (Inr u, sfp') \<Longrightarrow> suffix (sfp_data sfp') (sfp_data sfp)"
proof (induction sfp rule: parser_skip_params.induct)
  case (1 sfp)
  show ?case
  proof (cases "param_in_params sfp" rule: sf_bind_cases)
    case None
    then show ?thesis using 1(2) by (simp add: parser_skip_params.simps)
  next
    case (err e s)
    then show ?thesis using 1(2)
      by (cases e) (auto simp: parser_skip_params.simps [of sfp] param_in_params_eof)
  next
    case (val x s)
    then have "suffix (sfp_data sfp') (sfp_data s)" using 1 by (simp add: parser_skip_params.simps [of sfp])
    then show ?thesis using param_in_params_moves [OF val] by (auto dest: suffix_order.less_imp_le suffix_order.trans)
  qed
qed

lemma inner_list_item_moves:
  "inner_list_item sfp = Some (Inr v, sfp') \<Longrightarrow> strict_suffix (sfp_data sfp') (sfp_data sfp)"
  by (auto simp: inner_list_item_def sf_bind_eq_Some on_pos_eq_Some split: if_splits dest: parser_bare_item_moves)

lemma inner_list_after_moves:
  "inner_list_after sfp = Some (Inr v, sfp') \<Longrightarrow> strict_suffix (sfp_data sfp') (sfp_data sfp)"
  by (auto simp: inner_list_after_def Let_def discard_suffix split: if_splits
      dest!: inner_list_item_moves intro: suffix_order.less_le_trans)

lemma sfparse_parser_inner_list_moves:
  "sfparse_parser_inner_list sfp = Some (Inr v, sfp') \<Longrightarrow> strict_suffix (sfp_data sfp') (sfp_data sfp)"
  by (auto simp: sfparse_parser_inner_list_def Let_def sf_bind_eq_Some discard_suffix split: if_splits
      dest!: inner_list_item_moves inner_list_after_moves parser_skip_params_suffix intro: suffix_order.less_le_trans)

function parser_skip_inner_list :: "sfparse_parser \<Rightarrow> (unit sf_res \<times> sfparse_parser) option" where
  "parser_skip_inner_list sfp =
     (case sfparse_parser_inner_list sfp of
        None \<Rightarrow> None
      | Some (Inr _, sfp) \<Rightarrow> parser_skip_inner_list sfp
      | Some (Inl SFPARSE_ERR_EOF, sfp) \<Rightarrow> Some (Inr (), sfp)
      | Some (Inl SFPARSE_ERR_PARSE, sfp) \<Rightarrow> Some (Inl SFPARSE_ERR_PARSE, sfp))"
  by pat_completeness auto

termination parser_skip_inner_list
  by (relation "measure (\<lambda>sfp. length (sfp_data sfp))") (auto dest: sfparse_parser_inner_list_moves strict_suffix_length)

declare parser_skip_inner_list.simps [simp del]

definition sfparse_parser_param :: "sfparse_parser \<Rightarrow> ((bytes \<times> sfparse_value) sf_res \<times> sfparse_parser) option" where
  "sfparse_parser_param sfp =
     (if op_state sfp = SFPARSE_STATE_BEFORE then
        sf_bind (parser_skip_inner_list sfp) (\<lambda>_ sfp. param_pair (parser_set_op_state sfp SFPARSE_STATE_PARAMS))
      else if op_state sfp = SFPARSE_STATE_BEFORE_PARAMS then
        param_pair (parser_set_op_state sfp SFPARSE_STATE_PARAMS)
      else if op_state sfp = SFPARSE_STATE_PARAMS then param_pair sfp
      else None)"

text \<open>The loop of \<open>parser_skip_params\<close> as the source has it, wherever it is called.\<close>

lemma parser_skip_params_as_written:
  assumes "op_state sfp \<noteq> SFPARSE_STATE_BEFORE"
  shows "parser_skip_params sfp =
     (case sfparse_parser_param sfp of
        None \<Rightarrow> None
      | Some (Inr _, sfp) \<Rightarrow> parser_skip_params sfp
      | Some (Inl SFPARSE_ERR_EOF, sfp) \<Rightarrow> Some (Inr (), sfp)
      | Some (Inl SFPARSE_ERR_PARSE, sfp) \<Rightarrow> Some (Inl SFPARSE_ERR_PARSE, sfp))"
  using assms by (subst parser_skip_params.simps) (simp add: sfparse_parser_param_def param_in_params_def)

subsection \<open>Dictionaries, lists and items\<close>

definition parser_next_key_or_item :: "sfparse_parser \<Rightarrow> (unit sf_res \<times> sfparse_parser) option" where
  "parser_next_key_or_item sfp =
     (let sfp = parser_discard_ows sfp in
      if parser_eof sfp then Some (Inl SFPARSE_ERR_EOF, sfp)
      else if \<not> at_char CH_COMMA (sfp_data sfp) then Some (Inl SFPARSE_ERR_PARSE, sfp)
      else
        let sfp = parser_discard_ows (next_char sfp) in
        if parser_eof sfp then Some (Inl SFPARSE_ERR_PARSE, sfp) else Some (Inr (), sfp))"

text \<open>
  The end of \<open>sfparse_parser_list\<close> and \<open>sfparse_parser_item\<close>, and of \<open>parser_dict_value\<close>: an inner list
  is only entered, a bare item is read; \<open>name\<close> is the kind of value the state is set to.
\<close>

definition parser_member :: "u32 \<Rightarrow> sfparse_parser \<Rightarrow> (sfparse_value sf_res \<times> sfparse_parser) option" where
  "parser_member name sfp =
     (if parser_eof sfp then None
      else if at_char CH_LPAREN (sfp_data sfp) then
        Some (Inr TYPE_INNER_LIST, (next_char sfp)\<lparr>sfp_state := SFPARSE_SET_STATE_INNER_LIST_BEFORE name\<rparr>)
      else sf_bind (on_pos parser_bare_item sfp) (\<lambda>val sfp.
        Some (Inr val, sfp\<lparr>sfp_state := SFPARSE_SET_STATE_BEFORE_PARAMS name\<rparr>)))"

definition parser_dict_value :: "sfparse_parser \<Rightarrow> (sfparse_value sf_res \<times> sfparse_parser) option" where
  "parser_dict_value sfp =
     (if \<not> at_char CH_EQ (sfp_data sfp) then
        Some (Inr (TYPE_BOOLEAN 1), sfp\<lparr>sfp_state := SFPARSE_SET_STATE_BEFORE_PARAMS SFPARSE_STATE_DICT\<rparr>)
      else
        let sfp = next_char sfp in
        if parser_eof sfp then Some (Inl SFPARSE_ERR_PARSE, sfp) else parser_member SFPARSE_STATE_DICT sfp)"

text \<open>
  The cases of the switches on the state in \<open>sfparse_parser_dict\<close> and \<open>sfparse_parser_list\<close> that follow
  a value: what the caller did not read is skipped.
\<close>

definition parser_next_member :: "u32 \<Rightarrow> sfparse_parser \<Rightarrow> (unit sf_res \<times> sfparse_parser) option" where
  "parser_next_member name sfp =
     (if sfp_state sfp = SFPARSE_SET_STATE_INNER_LIST_BEFORE name then
        sf_bind (parser_skip_inner_list sfp) (\<lambda>_ sfp.
        sf_bind (parser_skip_params sfp) (\<lambda>_ sfp. parser_next_key_or_item sfp))
      else if sfp_state sfp = SFPARSE_SET_STATE_BEFORE_PARAMS name then
        sf_bind (parser_skip_params sfp) (\<lambda>_ sfp. parser_next_key_or_item sfp)
      else if sfp_state sfp = SFPARSE_SET_STATE_AFTER name then parser_next_key_or_item sfp
      else None)"

definition parser_first_member :: "sfparse_parser \<Rightarrow> (unit sf_res \<times> sfparse_parser) option" where
  "parser_first_member sfp =
     (let sfp = parser_discard_sp sfp in
      if parser_eof sfp then Some (Inl SFPARSE_ERR_EOF, sfp) else Some (Inr (), sfp))"

definition sfparse_parser_dict :: "sfparse_parser \<Rightarrow> ((bytes \<times> sfparse_value) sf_res \<times> sfparse_parser) option" where
  "sfparse_parser_dict sfp =
     sf_bind (if sfp_state sfp = SFPARSE_STATE_INITIAL then parser_first_member sfp
              else parser_next_member SFPARSE_STATE_DICT sfp)
       (\<lambda>_ sfp. sf_bind (on_pos parser_key sfp) (\<lambda>key sfp.
        sf_bind (parser_dict_value sfp) (\<lambda>val sfp. Some (Inr (key, val), sfp))))"

definition sfparse_parser_list :: "sfparse_parser \<Rightarrow> (sfparse_value sf_res \<times> sfparse_parser) option" where
  "sfparse_parser_list sfp =
     sf_bind (if sfp_state sfp = SFPARSE_STATE_INITIAL then parser_first_member sfp
              else parser_next_member SFPARSE_STATE_LIST sfp)
       (\<lambda>_ sfp. parser_member SFPARSE_STATE_LIST sfp)"

definition item_end :: "sfparse_parser \<Rightarrow> (sfparse_value sf_res \<times> sfparse_parser) option" where
  "item_end sfp =
     (let sfp = parser_discard_sp sfp in
      Some (Inl (if parser_eof sfp then SFPARSE_ERR_EOF else SFPARSE_ERR_PARSE), sfp))"

definition sfparse_parser_item :: "sfparse_parser \<Rightarrow> (sfparse_value sf_res \<times> sfparse_parser) option" where
  "sfparse_parser_item sfp =
     (if sfp_state sfp = SFPARSE_STATE_INITIAL then
        (let sfp = parser_discard_sp sfp in
         if parser_eof sfp then Some (Inl SFPARSE_ERR_PARSE, sfp) else parser_member SFPARSE_STATE_ITEM sfp)
      else if sfp_state sfp = SFPARSE_SET_STATE_INNER_LIST_BEFORE SFPARSE_STATE_ITEM then
        sf_bind (parser_skip_inner_list sfp) (\<lambda>_ sfp. sf_bind (parser_skip_params sfp) (\<lambda>_ sfp. item_end sfp))
      else if sfp_state sfp = SFPARSE_SET_STATE_BEFORE_PARAMS SFPARSE_STATE_ITEM then
        sf_bind (parser_skip_params sfp) (\<lambda>_ sfp. item_end sfp)
      else if sfp_state sfp = SFPARSE_SET_STATE_AFTER SFPARSE_STATE_ITEM then item_end sfp
      else None)"

section \<open>Decoding the values\<close>

text \<open>
  The three decoders write to a buffer of the caller; the model returns what they write. \<open>None\<close> is a
  read outside \<open>src\<close>, a failed assertion or, in \<open>sfparse_pctdecode\<close>, a byte of the result that is left
  unwritten.
\<close>

function sfparse_unescape :: "bytes \<Rightarrow> bytes option" where
  "sfparse_unescape src =
     (case dropWhile (\<lambda>c. c \<noteq> CH_BACKSLASH) src of
        [] \<Rightarrow> Some src
      | [_] \<Rightarrow> None
      | _ # c # rest \<Rightarrow>
          map_option (\<lambda>out. takeWhile (\<lambda>c. c \<noteq> CH_BACKSLASH) src @ c # out) (sfparse_unescape rest))"
  by pat_completeness auto

lemma dropWhile_length2: "dropWhile P xs = a # b # ys \<Longrightarrow> length ys < length xs"
  using length_dropWhile_le [of P xs] by simp

termination sfparse_unescape
  by (relation "measure length") (auto dest: dropWhile_length2)

declare sfparse_unescape.simps [simp del]

function sfparse_pctdecode :: "bytes \<Rightarrow> bytes option" where
  "sfparse_pctdecode src =
     (case dropWhile (\<lambda>c. c \<noteq> CH_PERCENT) src of
        [] \<Rightarrow> Some src
      | _ # p \<Rightarrow>
          (case pctdecode p of
             Some (Some c, rest) \<Rightarrow>
               map_option (\<lambda>out. takeWhile (\<lambda>c. c \<noteq> CH_PERCENT) src @ c # out) (sfparse_pctdecode rest)
           | _ \<Rightarrow> None))"
  by pat_completeness auto

lemma dropWhile_length1: "dropWhile P xs = a # ys \<Longrightarrow> length ys < length xs"
  using length_dropWhile_le [of P xs] by simp

termination sfparse_pctdecode
  by (relation "measure length") (auto dest!: dropWhile_length1 pctdecode_length)

declare sfparse_pctdecode.simps [simp del]

definition index_tbl :: "int list" where
  "index_tbl =
    [- 1, - 1, - 1, - 1, - 1, - 1, - 1, - 1, - 1, - 1, - 1, - 1, - 1, - 1, - 1, - 1, - 1, - 1, - 1,
     - 1, - 1, - 1, - 1, - 1, - 1, - 1, - 1, - 1, - 1, - 1, - 1, - 1, - 1, - 1, - 1, - 1, - 1, - 1,
     - 1, - 1, - 1, - 1, - 1, 62, - 1, - 1, - 1, 63, 52, 53, 54, 55, 56, 57, 58, 59, 60,
     61, - 1, - 1, - 1, - 1, - 1, - 1, - 1, 0, 1, 2, 3, 4, 5, 6, 7, 8, 9, 10,
     11, 12, 13, 14, 15, 16, 17, 18, 19, 20, 21, 22, 23, 24, 25, - 1, - 1, - 1, - 1,
     - 1, - 1, 26, 27, 28, 29, 30, 31, 32, 33, 34, 35, 36, 37, 38, 39, 40, 41, 42,
     43, 44, 45, 46, 47, 48, 49, 50, 51, - 1, - 1, - 1, - 1, - 1, - 1, - 1, - 1, - 1, - 1,
     - 1, - 1, - 1, - 1, - 1, - 1, - 1, - 1, - 1, - 1, - 1, - 1, - 1, - 1, - 1, - 1, - 1, - 1, - 1,
     - 1, - 1, - 1, - 1, - 1, - 1, - 1, - 1, - 1, - 1, - 1, - 1, - 1, - 1, - 1, - 1, - 1, - 1, - 1,
     - 1, - 1, - 1, - 1, - 1, - 1, - 1, - 1, - 1, - 1, - 1, - 1, - 1, - 1, - 1, - 1, - 1, - 1, - 1,
     - 1, - 1, - 1, - 1, - 1, - 1, - 1, - 1, - 1, - 1, - 1, - 1, - 1, - 1, - 1, - 1, - 1, - 1, - 1,
     - 1, - 1, - 1, - 1, - 1, - 1, - 1, - 1, - 1, - 1, - 1, - 1, - 1, - 1, - 1, - 1, - 1, - 1, - 1,
     - 1, - 1, - 1, - 1, - 1, - 1, - 1, - 1, - 1, - 1, - 1, - 1, - 1, - 1, - 1, - 1, - 1, - 1, - 1,
     - 1, - 1, - 1, - 1, - 1, - 1, - 1, - 1, - 1]"

text \<open>The assertion that a digit is in the alphabet; the digits after the last full group are not checked.\<close>

definition base64_index :: "u8 \<Rightarrow> int option" where
  "base64_index c = (let idx = index_tbl ! unat c in if idx = - 1 then None else Some idx)"

fun base64_groups :: "bytes \<Rightarrow> bytes option" where
  "base64_groups [] = Some []"
| "base64_groups (a # b # c # d # p) =
     (case (base64_index a, base64_index b, base64_index c, base64_index d) of
        (Some i1, Some i2, Some i3, Some i4) \<Rightarrow>
          let n = word_of_int (i1 * 2 ^ 18) + word_of_int (i2 * 2 ^ 12) + word_of_int (i3 * 2 ^ 6) + word_of_int i4 :: u32
          in map_option (\<lambda>out. ucast (drop_bit 16 n) # ucast (drop_bit 8 n AND 0xff) # ucast (n AND 0xff) # out)
               (base64_groups p)
      | _ \<Rightarrow> None)"
| "base64_groups p = None"

text \<open>
  \<open>left\<close> is the number of bytes that are not decoded in full groups, the padding included, and then
  the number of digits among them. A shift of a negative table entry is undefined, so \<open>None\<close>.
\<close>

definition base64_rest :: "nat \<Rightarrow> bytes \<Rightarrow> bytes option" where
  "base64_rest left p =
     (if left = 2 then
        (case p of
           a # b # _ \<Rightarrow>
             (case (base64_index a, base64_index b) of
                (Some i1, Some i2) \<Rightarrow> Some [word_of_int (i1 * 2 ^ 2) OR word_of_int (i2 div 2 ^ 4)]
              | _ \<Rightarrow> None)
         | _ \<Rightarrow> None)
      else if left = 3 then
        (case p of
           a # b # c # _ \<Rightarrow>
             (case (base64_index a, base64_index b, base64_index c) of
                (Some i1, Some i2, Some i3) \<Rightarrow>
                  let n = word_of_int (i1 * 2 ^ 10) + word_of_int (i2 * 2 ^ 4) + word_of_int (i3 div 2 ^ 2) :: u32
                  in Some [ucast (drop_bit 8 n AND 0xff), ucast (n AND 0xff)]
              | _ \<Rightarrow> None)
         | _ \<Rightarrow> None)
      else Some [])"

definition sfparse_base64decode :: "bytes \<Rightarrow> bytes option" where
  "sfparse_base64decode src =
     (if src = [] then Some []
      else
        let len = length src;
            left = (if len mod 4 = 0 \<and> src ! (len - 1) = CH_EQ then 4 else len mod 4);
            digits = (if left = 3 \<and> src ! (len - 1) = CH_EQ then 2
                      else if left = 4 then (if src ! (len - 2) = CH_EQ then 2 else 3) else left)
        in
          case base64_groups (take (len - left) src) of
            None \<Rightarrow> None
          | Some out \<Rightarrow>
              if left = 1 then None
              else map_option (\<lambda>rest. out @ rest) (base64_rest digits (drop (len - left) src)))"

end
