(* ===== verification/Sfparse_Correct.thy ===== *)
theory Sfparse_Correct
  imports Sfparse
begin

text \<open>
  Correctness of the structured field parser. The first part follows the documented order of the
  calls and shows that in it no call fails an assertion or reads past the end. The second part is a client that
  reads a whole dictionary through the interface and returns it as a value of a datatype; the
  serialization of RFC 9651, section 4.1, is its inverse.
\<close>

unbundle bit_operations_syntax

section \<open>The state word\<close>

text \<open>The state of a parser of kind \<open>K\<close>: whether it is in an inner list, and the operation state.\<close>

definition sf_kinds :: "u32 set" where
  "sf_kinds = {SFPARSE_STATE_DICT, SFPARSE_STATE_LIST, SFPARSE_STATE_ITEM}"

definition sf_ops :: "u32 set" where
  "sf_ops = {SFPARSE_STATE_BEFORE, SFPARSE_STATE_BEFORE_PARAMS, SFPARSE_STATE_PARAMS, SFPARSE_STATE_AFTER}"

definition sf_st :: "u32 \<Rightarrow> bool \<Rightarrow> u32 \<Rightarrow> u32" where
  "sf_st K inner op = K OR (if inner then SFPARSE_STATE_INNER_LIST else 0) OR op"

lemmas sf_consts =
  SFPARSE_STATE_DICT_def SFPARSE_STATE_LIST_def SFPARSE_STATE_ITEM_def SFPARSE_STATE_INNER_LIST_def
  SFPARSE_STATE_BEFORE_def SFPARSE_STATE_BEFORE_PARAMS_def SFPARSE_STATE_PARAMS_def SFPARSE_STATE_AFTER_def
  SFPARSE_STATE_OP_MASK_def SFPARSE_STATE_INITIAL_def

lemma sf_kinds_simps [simp]:
  "SFPARSE_STATE_DICT \<in> sf_kinds" "SFPARSE_STATE_LIST \<in> sf_kinds" "SFPARSE_STATE_ITEM \<in> sf_kinds"
  by (simp_all add: sf_kinds_def)

lemma sf_ops_simps [simp]:
  "SFPARSE_STATE_BEFORE \<in> sf_ops" "SFPARSE_STATE_BEFORE_PARAMS \<in> sf_ops"
  "SFPARSE_STATE_PARAMS \<in> sf_ops" "SFPARSE_STATE_AFTER \<in> sf_ops"
  by (simp_all add: sf_ops_def)

lemma sf_op_distinct [simp]:
  "SFPARSE_STATE_BEFORE \<noteq> SFPARSE_STATE_BEFORE_PARAMS" "SFPARSE_STATE_BEFORE_PARAMS \<noteq> SFPARSE_STATE_BEFORE"
  "SFPARSE_STATE_BEFORE \<noteq> SFPARSE_STATE_PARAMS" "SFPARSE_STATE_PARAMS \<noteq> SFPARSE_STATE_BEFORE"
  "SFPARSE_STATE_BEFORE \<noteq> SFPARSE_STATE_AFTER" "SFPARSE_STATE_AFTER \<noteq> SFPARSE_STATE_BEFORE"
  "SFPARSE_STATE_BEFORE_PARAMS \<noteq> SFPARSE_STATE_PARAMS" "SFPARSE_STATE_PARAMS \<noteq> SFPARSE_STATE_BEFORE_PARAMS"
  "SFPARSE_STATE_BEFORE_PARAMS \<noteq> SFPARSE_STATE_AFTER" "SFPARSE_STATE_AFTER \<noteq> SFPARSE_STATE_BEFORE_PARAMS"
  "SFPARSE_STATE_PARAMS \<noteq> SFPARSE_STATE_AFTER" "SFPARSE_STATE_AFTER \<noteq> SFPARSE_STATE_PARAMS"
  by (simp_all add: sf_consts)

lemma sf_kinds_cases: "K \<in> sf_kinds \<Longrightarrow> K = 8 \<or> K = 16 \<or> K = 24"
  by (auto simp: sf_kinds_def sf_consts)

lemma sf_ops_cases: "op \<in> sf_ops \<Longrightarrow> op = 0 \<or> op = 1 \<or> op = 2 \<or> op = 3"
  by (auto simp: sf_ops_def sf_consts)

lemma sf_st_op [simp]: "K \<in> sf_kinds \<Longrightarrow> op \<in> sf_ops \<Longrightarrow> sf_st K i op AND SFPARSE_STATE_OP_MASK = op"
  by (cases i; elim disjE [OF sf_kinds_cases] disjE [OF sf_ops_cases] disjE)
    (simp_all add: sf_st_def sf_consts)

lemma sf_st_inner: "K \<in> sf_kinds \<Longrightarrow> op \<in> sf_ops \<Longrightarrow> sf_st K i op AND SFPARSE_STATE_INNER_LIST = (if i then 4 else 0)"
  by (cases i; elim disjE [OF sf_kinds_cases] disjE [OF sf_ops_cases] disjE)
    (simp_all add: sf_st_def sf_consts)

lemma sf_st_clear [simp]: "K \<in> sf_kinds \<Longrightarrow> op \<in> sf_ops \<Longrightarrow> sf_st K i op AND NOT SFPARSE_STATE_OP_MASK = sf_st K i 0"
  by (cases i; elim disjE [OF sf_kinds_cases] disjE [OF sf_ops_cases] disjE)
    (simp_all add: sf_st_def sf_consts)

lemma sf_st_set [simp]: "sf_st K i 0 OR op = sf_st K i op"
  by (simp add: sf_st_def or.assoc)

lemma sf_st_unset [simp]:
  "K \<in> sf_kinds \<Longrightarrow> op \<in> sf_ops \<Longrightarrow> sf_st K i op AND NOT SFPARSE_STATE_INNER_LIST = sf_st K False op"
  by (cases i; elim disjE [OF sf_kinds_cases] disjE [OF sf_ops_cases] disjE)
    (simp_all add: sf_st_def sf_consts)

lemma sf_st_initial [simp]:
  "K \<in> sf_kinds \<Longrightarrow> op \<in> sf_ops \<Longrightarrow> sf_st K i op \<noteq> SFPARSE_STATE_INITIAL"
  by (cases i; elim disjE [OF sf_kinds_cases] disjE [OF sf_ops_cases] disjE)
    (simp_all add: sf_st_def sf_consts)

lemma sf_st_eq [simp]:
  assumes "K \<in> sf_kinds" and "op \<in> sf_ops" and "op' \<in> sf_ops"
  shows "sf_st K i op = sf_st K i' op' \<longleftrightarrow> i = i' \<and> op = op'"
proof
  assume e: "sf_st K i op = sf_st K i' op'"
  show "i = i' \<and> op = op'"
    using sf_st_op [OF assms(1,2), of i] sf_st_op [OF assms(1,3), of i']
      sf_st_inner [OF assms(1,2), of i] sf_st_inner [OF assms(1,3), of i']
    by (auto simp: e split: if_split_asm)
qed simp

lemma sf_set_state_simps [simp]:
  "SFPARSE_SET_STATE_AFTER K = sf_st K False SFPARSE_STATE_AFTER"
  "SFPARSE_SET_STATE_BEFORE_PARAMS K = sf_st K False SFPARSE_STATE_BEFORE_PARAMS"
  "SFPARSE_SET_STATE_INNER_LIST_BEFORE K = sf_st K True SFPARSE_STATE_BEFORE"
  by (simp_all add: SFPARSE_SET_STATE_AFTER_def SFPARSE_SET_STATE_BEFORE_PARAMS_def
      SFPARSE_SET_STATE_INNER_LIST_BEFORE_def sf_st_def or.assoc)

section \<open>Safety\<close>

text \<open>The lexical functions are total on non-empty input.\<close>

lemma pctdecode_total: "2 \<le> length bs \<Longrightarrow> pctdecode bs \<noteq> None"
  by (auto simp: pctdecode_def split: list.splits option.splits)

lemma dispstring_loop_total: "dispstring_loop st bs \<noteq> None"
  by (induction st bs rule: dispstring_loop.induct) (auto simp: Let_def pctdecode_total split: option.splits)

lemma parser_key_total: "bs \<noteq> [] \<Longrightarrow> parser_key bs \<noteq> None"
  by (cases bs) (simp_all add: parser_key_def Let_def)

lemma parser_number_total:
  assumes "bs \<noteq> []"
  shows "parser_number bs \<noteq> None"
proof -
  let ?bs = "if at_char CH_MINUS bs then tl bs else bs"
  obtain r s where d: "number_digits 0 0 ?bs = (r, s)" by (cases "number_digits 0 0 ?bs") auto
  show ?thesis
  proof (cases r)
    case (Inl e)
    then show ?thesis using assms d by (simp add: parser_number_def Let_def)
  next
    case (Inr x)
    obtain len n where x: "x = (len, n)" by (cases x)
    obtain r' s' where d': "number_digits len n (tl s) = (r', s')" by (cases "number_digits len n (tl s)") auto
    show ?thesis using assms d d' Inr x by (cases r') (auto simp: parser_number_def Let_def)
  qed
qed

lemma sf_bind_None: "sf_bind m f = None \<longleftrightarrow> m = None \<or> (\<exists>x s. m = Some (Inr x, s) \<and> f x s = None)"
  by (cases m rule: sf_bind_cases) auto

lemma parser_bare_item_total:
  assumes "bs \<noteq> []"
  shows "parser_bare_item bs \<noteq> None"
proof -
  obtain c rest where bs: "bs = c # rest" using assms by (cases bs) auto
  have "parser_date bs \<noteq> None" if "c = CH_AT"
    using that parser_number_total [of rest]
    by (cases "parser_number rest" rule: parser_date_cases)
      (auto simp: bs parser_date_def split: sfparse_value.splits)
  moreover have "parser_string bs \<noteq> None" if "c = CH_QUOTE"
    using that by (auto simp: bs parser_string_def Let_def split: sum.splits prod.splits)
  moreover have "parser_byteseq bs \<noteq> None" if "c = CH_COLON"
    using that by (auto simp: bs parser_byteseq_def Let_def split: sum.splits prod.splits)
  moreover have "parser_boolean bs \<noteq> None" if "c = CH_QUESTION"
    using that by (auto simp: bs parser_boolean_def split: list.splits)
  moreover have "parser_token bs \<noteq> None" by (simp add: bs parser_token_def Let_def)
  moreover have "parser_dispstring bs \<noteq> None" if "c = CH_PERCENT"
    using that by (auto simp: bs parser_dispstring_def Let_def sf_bind_None dispstring_loop_total simp del: not_None_eq)
  moreover have "parser_number bs \<noteq> None" using assms by (rule parser_number_total)
  ultimately show ?thesis by (simp add: bs parser_bare_item_def)
qed

lemma on_pos_None: "on_pos f sfp = None \<longleftrightarrow> f (sfp_data sfp) = None"
  by (simp add: on_pos_def)

text \<open>The three outcomes of a call.\<close>

definition sf_outcome ::
  "('a sf_res \<times> sfparse_parser) option \<Rightarrow> ('a \<Rightarrow> sfparse_parser \<Rightarrow> bool) \<Rightarrow> (sfparse_parser \<Rightarrow> bool) \<Rightarrow> bool" where
  "sf_outcome m P E \<longleftrightarrow>
     (\<exists>x s. m = Some (Inr x, s) \<and> P x s) \<or> (\<exists>s. m = Some (Inl SFPARSE_ERR_EOF, s) \<and> E s) \<or>
     (\<exists>s. m = Some (Inl SFPARSE_ERR_PARSE, s))"

lemma sf_outcome_not_None: "sf_outcome m P E \<Longrightarrow> m \<noteq> None"
  by (auto simp: sf_outcome_def)

lemma sf_outcome_bind:
  assumes "sf_outcome m P E" and "\<And>x s. P x s \<Longrightarrow> sf_outcome (f x s) P' E'" and "\<And>s. E s \<Longrightarrow> E' s"
  shows "sf_outcome (sf_bind m f) P' E'"
proof (cases m rule: sf_bind_cases)
  case (err e s)
  then show ?thesis using assms(1,3) by (cases e) (auto simp: sf_outcome_def)
next
  case (val x s)
  then have "P x s" using assms(1) by (auto simp: sf_outcome_def)
  then show ?thesis using assms(2) val by simp
qed (use assms(1) in \<open>simp add: sf_outcome_def\<close>)

lemma sf_outcome_mono:
  "sf_outcome m P E \<Longrightarrow> (\<And>x s. P x s \<Longrightarrow> P' x s) \<Longrightarrow> (\<And>s. E s \<Longrightarrow> E' s) \<Longrightarrow> sf_outcome m P' E'"
  by (auto simp: sf_outcome_def)

lemma sf_outcome_simps [simp]:
  "sf_outcome (Some (Inr x, s)) P E \<longleftrightarrow> P x s"
  "sf_outcome (Some (Inl SFPARSE_ERR_EOF, s)) P E \<longleftrightarrow> E s"
  "sf_outcome (Some (Inl SFPARSE_ERR_PARSE, s)) P E"
  by (auto simp: sf_outcome_def)

lemma on_pos_outcome:
  assumes "f (sfp_data sfp) \<noteq> None" and "\<And>bs. f (sfp_data sfp) \<noteq> Some (Inl SFPARSE_ERR_EOF, bs)"
    and "\<And>x bs. f (sfp_data sfp) = Some (Inr x, bs) \<Longrightarrow> P x (sfp\<lparr>sfp_data := bs\<rparr>)"
  shows "sf_outcome (on_pos f sfp) P (\<lambda>_. False)"
  using assms by (cases "f (sfp_data sfp)" rule: sf_bind_cases) (auto simp: on_pos_def sf_outcome_def intro: sfparse_error.exhaust)

lemma key_outcome:
  "\<not> parser_eof sfp \<Longrightarrow>
    sf_outcome (on_pos parser_key sfp)
      (\<lambda>_ s. sfp_state s = sfp_state sfp \<and> strict_suffix (sfp_data s) (sfp_data sfp)) (\<lambda>_. False)"
  by (rule on_pos_outcome) (auto simp: parser_eof_def parser_key_total no_eof parser_key_moves)

lemma bare_item_outcome:
  "\<not> parser_eof sfp \<Longrightarrow>
    sf_outcome (on_pos parser_bare_item sfp)
      (\<lambda>_ s. sfp_state s = sfp_state sfp \<and> strict_suffix (sfp_data s) (sfp_data sfp)) (\<lambda>_. False)"
  by (rule on_pos_outcome) (auto simp: parser_eof_def parser_bare_item_total parser_bare_item_no_eof parser_bare_item_moves)

definition at_op :: "u32 \<Rightarrow> bool \<Rightarrow> u32 \<Rightarrow> sfparse_parser \<Rightarrow> bool" where
  "at_op K i op sfp \<longleftrightarrow> K \<in> sf_kinds \<and> op \<in> sf_ops \<and> sfp_state sfp = sf_st K i op"

lemma at_op_op_state: "at_op K i op sfp \<Longrightarrow> op_state sfp = op"
  by (simp add: at_op_def op_state_def)

lemma at_op_simps [simp]:
  "at_op K i op (next_char sfp) = at_op K i op sfp"
  "at_op K i op (parser_discard_sp sfp) = at_op K i op sfp"
  "at_op K i op (parser_discard_ows sfp) = at_op K i op sfp"
  "at_op K i op (sfp\<lparr>sfp_data := bs\<rparr>) = at_op K i op sfp"
  by (simp_all add: at_op_def)

lemma at_op_set [intro]: "at_op K i op sfp \<Longrightarrow> op' \<in> sf_ops \<Longrightarrow> at_op K i op' (parser_set_op_state sfp op')"
  by (simp add: at_op_def)

lemma at_op_unset [intro]: "at_op K i op sfp \<Longrightarrow> at_op K False op (parser_unset_inner_list_state sfp)"
  by (simp add: at_op_def)

lemma param_pair_outcome:
  assumes "at_op K i SFPARSE_STATE_PARAMS sfp"
  shows "sf_outcome (param_pair sfp)
    (\<lambda>_ s. at_op K i SFPARSE_STATE_PARAMS s \<and> strict_suffix (sfp_data s) (sfp_data sfp))
    (\<lambda>s. at_op K i SFPARSE_STATE_AFTER s \<and> sfp_data s = sfp_data sfp \<and> \<not> at_char CH_SEMICOLON (sfp_data sfp))"
proof (cases "at_char CH_SEMICOLON (sfp_data sfp)")
  case False
  then show ?thesis using assms by (auto simp: param_pair_def)
next
  case True
  then obtain bs where bs: "sfp_data sfp = CH_SEMICOLON # bs" by (auto simp: at_char_iff)
  let ?p = "parser_discard_sp (next_char sfp)"
  have p: "strict_suffix (sfp_data ?p) (sfp_data sfp)" by (simp add: bs strict_suffix_ConsI discard_suffix)
  show ?thesis
  proof (cases "parser_eof ?p")
    case True
    then show ?thesis by (simp add: param_pair_def bs)
  next
    case False
    have "sf_outcome
      (sf_bind (on_pos parser_key ?p) (\<lambda>key sfp.
          if \<not> at_char CH_EQ (sfp_data sfp) then Some (Inr (key, TYPE_BOOLEAN 1), sfp)
          else
            let sfp = next_char sfp in
            if parser_eof sfp then Some (Inl SFPARSE_ERR_PARSE, sfp)
            else sf_bind (on_pos parser_bare_item sfp) (\<lambda>val sfp. Some (Inr (key, val), sfp))))
      (\<lambda>_ s. at_op K i SFPARSE_STATE_PARAMS s \<and> strict_suffix (sfp_data s) (sfp_data sfp)) (\<lambda>_. False)"
    proof (rule sf_outcome_bind [OF key_outcome [OF False]])
      fix key and s :: sfparse_parser
      assume s: "sfp_state s = sfp_state ?p \<and> strict_suffix (sfp_data s) (sfp_data ?p)"
      then have s1: "at_op K i SFPARSE_STATE_PARAMS s" "strict_suffix (sfp_data s) (sfp_data sfp)"
        using assms p by (simp_all add: at_op_def) (metis suffix_order.less_trans)
      show "sf_outcome
        (if \<not> at_char CH_EQ (sfp_data s) then Some (Inr (key, TYPE_BOOLEAN 1), s)
         else let sfp = next_char s in
            if parser_eof sfp then Some (Inl SFPARSE_ERR_PARSE, sfp)
            else sf_bind (on_pos parser_bare_item sfp) (\<lambda>val sfp. Some (Inr (key, val), sfp)))
        (\<lambda>_ s. at_op K i SFPARSE_STATE_PARAMS s \<and> strict_suffix (sfp_data s) (sfp_data sfp)) (\<lambda>_. False)"
      proof (cases "at_char CH_EQ (sfp_data s) \<and> \<not> parser_eof (next_char s)")
        case False
        then show ?thesis using s1 by (auto simp: Let_def)
      next
        case True
        have "suffix (sfp_data (next_char s)) (sfp_data s)" by simp
        then have n: "strict_suffix (sfp_data (next_char s)) (sfp_data sfp)"
          using s1(2) by (rule suffix_order.le_less_trans)
        have "sf_outcome (sf_bind (on_pos parser_bare_item (next_char s)) (\<lambda>val sfp. Some (Inr (key, val), sfp)))
          (\<lambda>_ s. at_op K i SFPARSE_STATE_PARAMS s \<and> strict_suffix (sfp_data s) (sfp_data sfp)) (\<lambda>_. False)"
          by (rule sf_outcome_bind [OF bare_item_outcome])
            (use True s1 n in \<open>auto simp: at_op_def intro: suffix_order.less_trans\<close>)
        then show ?thesis using True by (simp add: Let_def)
      qed
    qed simp
    then show ?thesis using False by (simp add: param_pair_def bs Let_def)
  qed
qed

lemma param_in_params_outcome:
  assumes "at_op K i op sfp" and "op = SFPARSE_STATE_BEFORE_PARAMS \<or> op = SFPARSE_STATE_PARAMS"
  shows "sf_outcome (param_in_params sfp)
    (\<lambda>_ s. at_op K i SFPARSE_STATE_PARAMS s \<and> strict_suffix (sfp_data s) (sfp_data sfp))
    (\<lambda>s. at_op K i SFPARSE_STATE_AFTER s \<and> sfp_data s = sfp_data sfp \<and> \<not> at_char CH_SEMICOLON (sfp_data sfp))"
proof (cases "op = SFPARSE_STATE_PARAMS")
  case True
  then show ?thesis
    using assms(1) param_pair_outcome [of K i sfp] by (simp add: param_in_params_def at_op_op_state)
next
  case False
  then have op: "op = SFPARSE_STATE_BEFORE_PARAMS" using assms(2) by simp
  have "at_op K i SFPARSE_STATE_PARAMS (parser_set_op_state sfp SFPARSE_STATE_PARAMS)" using assms(1) by auto
  from param_pair_outcome [OF this] show ?thesis using assms(1) op by (simp add: param_in_params_def at_op_op_state)
qed

lemma skip_params_outcome:
  assumes "at_op K i op sfp" and "op = SFPARSE_STATE_BEFORE_PARAMS \<or> op = SFPARSE_STATE_PARAMS"
  shows "sf_outcome (parser_skip_params sfp)
    (\<lambda>_ s. at_op K i SFPARSE_STATE_AFTER s \<and> suffix (sfp_data s) (sfp_data sfp)) (\<lambda>_. False)"
  using assms
proof (induction sfp arbitrary: op rule: parser_skip_params.induct)
  case (1 sfp)
  note o = param_in_params_outcome [OF 1(2,3)]
  show ?case
  proof (cases "param_in_params sfp" rule: sf_bind_cases)
    case None
    then show ?thesis using o by (simp add: sf_outcome_def)
  next
    case (err e s)
    then show ?thesis using o by (cases e) (auto simp: parser_skip_params.simps [of sfp])
  next
    case (val x s)
    then have s: "at_op K i SFPARSE_STATE_PARAMS s" "strict_suffix (sfp_data s) (sfp_data sfp)" using o by auto
    from 1(1) [OF val refl refl s(1)] show ?thesis using val s(2)
      by (simp add: parser_skip_params.simps [of sfp])
        (auto elim!: sf_outcome_mono intro: suffix_order.order_trans suffix_order.less_imp_le)
  qed
qed

text \<open>A property that speaks of the rest of the input transfers along the input.\<close>

definition nearer :: "sfparse_parser \<Rightarrow> sfparse_parser \<Rightarrow> bool" where
  "nearer s s0 \<longleftrightarrow> strict_suffix (sfp_data s) (sfp_data s0)"

lemma nearer_trans: "nearer s s1 \<Longrightarrow> nearer s1 s2 \<Longrightarrow> nearer s s2"
  by (auto simp: nearer_def intro: suffix_order.less_trans)

lemma nearer_suffix: "nearer s s1 \<Longrightarrow> suffix (sfp_data s1) (sfp_data s2) \<Longrightarrow> nearer s s2"
  by (auto simp: nearer_def intro: suffix_order.less_le_trans)

lemma suffix_nearer: "suffix (sfp_data s) (sfp_data s1) \<Longrightarrow> nearer s1 s2 \<Longrightarrow> nearer s s2"
  by (auto simp: nearer_def intro: suffix_order.le_less_trans)

lemma nearer_length: "nearer s s0 \<Longrightarrow> length (sfp_data s) < length (sfp_data s0)"
  by (simp add: nearer_def strict_suffix_length)

lemma nearer_imp_suffix: "nearer s s0 \<Longrightarrow> suffix (sfp_data s) (sfp_data s0)"
  by (simp add: nearer_def suffix_order.less_imp_le)

lemma nearer_next_char: "\<not> parser_eof s \<Longrightarrow> nearer (next_char s) s"
  by (cases "sfp_data s") (auto simp: nearer_def parser_eof_def strict_suffix_ConsI)

lemma inner_list_item_outcome:
  assumes "at_op K True op sfp" and "\<not> parser_eof sfp"
  shows "sf_outcome (inner_list_item sfp)
    (\<lambda>_ s. at_op K True SFPARSE_STATE_BEFORE_PARAMS s \<and> nearer s sfp)
    (\<lambda>s. at_op K False SFPARSE_STATE_BEFORE_PARAMS s \<and> nearer s sfp)"
proof (cases "at_char CH_RPAREN (sfp_data sfp)")
  case True
  have "nearer (parser_set_op_state (parser_unset_inner_list_state (next_char sfp)) SFPARSE_STATE_BEFORE_PARAMS) sfp"
    using nearer_next_char [OF assms(2)] by (simp add: nearer_def)
  moreover have "at_op K False SFPARSE_STATE_BEFORE_PARAMS
      (parser_set_op_state (parser_unset_inner_list_state (next_char sfp)) SFPARSE_STATE_BEFORE_PARAMS)"
    using assms(1) by (intro at_op_set at_op_unset) simp_all
  ultimately show ?thesis using assms True by (simp add: inner_list_item_def)
next
  case False
  have "sf_outcome (sf_bind (on_pos parser_bare_item sfp) (\<lambda>val sfp. Some (Inr val, parser_set_op_state sfp SFPARSE_STATE_BEFORE_PARAMS)))
    (\<lambda>_ s. at_op K True SFPARSE_STATE_BEFORE_PARAMS s \<and> nearer s sfp)
    (\<lambda>s. at_op K False SFPARSE_STATE_BEFORE_PARAMS s \<and> nearer s sfp)"
    by (rule sf_outcome_bind [OF bare_item_outcome [OF assms(2)]])
      (use assms(1) in \<open>auto simp: at_op_def nearer_def\<close>)
  then show ?thesis using assms False by (simp add: inner_list_item_def)
qed

lemma inner_list_from_outcome:
  assumes "at_op K True op sfp"
  shows "sf_outcome
      (let s = parser_discard_sp sfp in if parser_eof s then Some (Inl SFPARSE_ERR_PARSE, s) else inner_list_item s)
    (\<lambda>_ s. at_op K True SFPARSE_STATE_BEFORE_PARAMS s \<and> nearer s sfp)
    (\<lambda>s. at_op K False SFPARSE_STATE_BEFORE_PARAMS s \<and> nearer s sfp)"
proof (cases "parser_eof (parser_discard_sp sfp)")
  case False
  have "suffix (sfp_data (parser_discard_sp sfp)) (sfp_data sfp)" by (simp add: discard_suffix)
  moreover have "sf_outcome (inner_list_item (parser_discard_sp sfp))
    (\<lambda>_ s. at_op K True SFPARSE_STATE_BEFORE_PARAMS s \<and> nearer s (parser_discard_sp sfp))
    (\<lambda>s. at_op K False SFPARSE_STATE_BEFORE_PARAMS s \<and> nearer s (parser_discard_sp sfp))"
    by (rule inner_list_item_outcome [OF _ False]) (use assms in simp)
  ultimately show ?thesis using False by (auto simp: Let_def elim!: sf_outcome_mono intro: nearer_suffix)
qed (simp add: Let_def)

lemma inner_list_after_outcome:
  assumes "at_op K True op sfp"
  shows "sf_outcome (inner_list_after sfp)
    (\<lambda>_ s. at_op K True SFPARSE_STATE_BEFORE_PARAMS s \<and> nearer s sfp)
    (\<lambda>s. at_op K False SFPARSE_STATE_BEFORE_PARAMS s \<and> nearer s sfp)"
  using inner_list_from_outcome [OF assms] inner_list_item_outcome [OF assms]
  by (auto simp: inner_list_after_def Let_def split: if_split_asm)

definition inner_ops :: "u32 set" where
  "inner_ops = {SFPARSE_STATE_BEFORE, SFPARSE_STATE_BEFORE_PARAMS, SFPARSE_STATE_AFTER}"

lemma inner_list_outcome:
  assumes "at_op K True op sfp" and "op \<in> inner_ops"
  shows "sf_outcome (sfparse_parser_inner_list sfp)
    (\<lambda>_ s. at_op K True SFPARSE_STATE_BEFORE_PARAMS s \<and> nearer s sfp)
    (\<lambda>s. at_op K False SFPARSE_STATE_BEFORE_PARAMS s \<and> nearer s sfp)"
proof -
  consider "op = SFPARSE_STATE_BEFORE" | "op = SFPARSE_STATE_BEFORE_PARAMS" | "op = SFPARSE_STATE_AFTER"
    using assms(2) by (auto simp: inner_ops_def)
  then show ?thesis
  proof cases
    case 1
    then show ?thesis using inner_list_from_outcome [OF assms(1)] assms(1)
      by (simp add: sfparse_parser_inner_list_def at_op_op_state)
  next
    case 2
    have "sf_outcome (sf_bind (parser_skip_params sfp) (\<lambda>_ sfp. inner_list_after sfp))
      (\<lambda>_ s. at_op K True SFPARSE_STATE_BEFORE_PARAMS s \<and> nearer s sfp)
      (\<lambda>s. at_op K False SFPARSE_STATE_BEFORE_PARAMS s \<and> nearer s sfp)"
    proof (rule sf_outcome_bind [OF skip_params_outcome [OF assms(1)]])
      fix u and s :: sfparse_parser
      assume "at_op K True SFPARSE_STATE_AFTER s \<and> suffix (sfp_data s) (sfp_data sfp)"
      then show "sf_outcome (inner_list_after s)
        (\<lambda>_ s. at_op K True SFPARSE_STATE_BEFORE_PARAMS s \<and> nearer s sfp)
        (\<lambda>s. at_op K False SFPARSE_STATE_BEFORE_PARAMS s \<and> nearer s sfp)"
        by (auto elim!: sf_outcome_mono [OF inner_list_after_outcome] intro: nearer_suffix)
    qed (use 2 in simp_all)
    then show ?thesis using 2 assms(1) by (simp add: sfparse_parser_inner_list_def at_op_op_state)
  next
    case 3
    then show ?thesis using inner_list_after_outcome [OF assms(1)] assms(1)
      by (simp add: sfparse_parser_inner_list_def at_op_op_state)
  qed
qed

lemma skip_inner_list_outcome:
  assumes "at_op K True op sfp" and "op \<in> inner_ops"
  shows "sf_outcome (parser_skip_inner_list sfp)
    (\<lambda>_ s. at_op K False SFPARSE_STATE_BEFORE_PARAMS s \<and> nearer s sfp) (\<lambda>_. False)"
  using assms
proof (induction sfp arbitrary: op rule: parser_skip_inner_list.induct)
  case (1 sfp)
  note o = inner_list_outcome [OF 1(2,3)]
  show ?case
  proof (cases "sfparse_parser_inner_list sfp" rule: sf_bind_cases)
    case None
    then show ?thesis using o by (simp add: sf_outcome_def)
  next
    case (err e s)
    then show ?thesis using o by (cases e) (auto simp: parser_skip_inner_list.simps [of sfp])
  next
    case (val x s)
    then have s: "at_op K True SFPARSE_STATE_BEFORE_PARAMS s" "nearer s sfp" using o by auto
    have "SFPARSE_STATE_BEFORE_PARAMS \<in> inner_ops" by (simp add: inner_ops_def)
    from 1(1) [OF val refl refl s(1) this] show ?thesis using val s(2)
      by (simp add: parser_skip_inner_list.simps [of sfp]) (auto elim!: sf_outcome_mono intro: nearer_trans)
  qed
qed

lemma param_outcome:
  assumes "at_op K i op sfp"
    and "op = SFPARSE_STATE_BEFORE \<and> i \<or> op = SFPARSE_STATE_BEFORE_PARAMS \<or> op = SFPARSE_STATE_PARAMS"
  shows "sf_outcome (sfparse_parser_param sfp)
    (\<lambda>_ s. at_op K (i \<and> op \<noteq> SFPARSE_STATE_BEFORE) SFPARSE_STATE_PARAMS s \<and> nearer s sfp)
    (\<lambda>s. at_op K (i \<and> op \<noteq> SFPARSE_STATE_BEFORE) SFPARSE_STATE_AFTER s \<and> suffix (sfp_data s) (sfp_data sfp) \<and>
      \<not> at_char CH_SEMICOLON (sfp_data s))"
proof (cases "op = SFPARSE_STATE_BEFORE")
  case True
  have i: i using True assms(2) by auto
  have "sf_outcome (sf_bind (parser_skip_inner_list sfp) (\<lambda>_ s. param_pair (parser_set_op_state s SFPARSE_STATE_PARAMS)))
    (\<lambda>_ s. at_op K False SFPARSE_STATE_PARAMS s \<and> nearer s sfp)
    (\<lambda>s. at_op K False SFPARSE_STATE_AFTER s \<and> suffix (sfp_data s) (sfp_data sfp) \<and> \<not> at_char CH_SEMICOLON (sfp_data s))"
  proof (rule sf_outcome_bind [OF skip_inner_list_outcome])
    fix u and s :: sfparse_parser
    assume s: "at_op K False SFPARSE_STATE_BEFORE_PARAMS s \<and> nearer s sfp"
    have a: "at_op K False SFPARSE_STATE_PARAMS (parser_set_op_state s SFPARSE_STATE_PARAMS)" using s by auto
    show "sf_outcome (param_pair (parser_set_op_state s SFPARSE_STATE_PARAMS))
      (\<lambda>_ s. at_op K False SFPARSE_STATE_PARAMS s \<and> nearer s sfp)
      (\<lambda>s. at_op K False SFPARSE_STATE_AFTER s \<and> suffix (sfp_data s) (sfp_data sfp) \<and> \<not> at_char CH_SEMICOLON (sfp_data s))"
      by (rule sf_outcome_mono [OF param_pair_outcome [OF a]])
        (use s in \<open>auto simp: nearer_def intro: suffix_order.less_trans suffix_order.less_imp_le\<close>)
  qed (use assms(1) True i in \<open>auto simp: inner_ops_def\<close>)
  then show ?thesis using True assms(1) by (simp add: sfparse_parser_param_def at_op_op_state)
next
  case False
  then have "sfparse_parser_param sfp = param_in_params sfp"
    using assms(1) by (simp add: sfparse_parser_param_def param_in_params_def at_op_op_state)
  moreover have "op = SFPARSE_STATE_BEFORE_PARAMS \<or> op = SFPARSE_STATE_PARAMS" using assms(2) False by simp
  ultimately show ?thesis
    using param_in_params_outcome [OF assms(1)] False by (auto elim!: sf_outcome_mono simp: nearer_def)
qed

lemma parser_eof_iff: "parser_eof s \<longleftrightarrow> sfp_data s = []"
  by (simp add: parser_eof_def)

lemma next_key_or_item_outcome:
  "sf_outcome (parser_next_key_or_item sfp)
    (\<lambda>_ s. sfp_state s = sfp_state sfp \<and> \<not> parser_eof s \<and> nearer s sfp)
    (\<lambda>s. sfp_state s = sfp_state sfp \<and> parser_eof s)"
proof -
  let ?p = "parser_discard_ows sfp"
  let ?q = "parser_discard_ows (next_char ?p)"
  have "nearer ?q sfp" if "\<not> parser_eof ?p"
  proof (rule suffix_nearer [OF _ nearer_suffix [OF nearer_next_char [OF that]]])
    show "suffix (sfp_data ?q) (sfp_data (next_char ?p))" by (simp add: discard_suffix)
    show "suffix (sfp_data ?p) (sfp_data sfp)" by (simp add: discard_suffix)
  qed
  then show ?thesis by (simp add: parser_next_key_or_item_def Let_def)
qed

lemma member_outcome:
  assumes "\<not> parser_eof sfp" and "K \<in> sf_kinds"
  shows "sf_outcome (parser_member K sfp)
    (\<lambda>_ s. (at_op K True SFPARSE_STATE_BEFORE s \<or> at_op K False SFPARSE_STATE_BEFORE_PARAMS s) \<and> nearer s sfp)
    (\<lambda>_. False)"
proof (cases "at_char CH_LPAREN (sfp_data sfp)")
  case True
  then show ?thesis using assms nearer_next_char [OF assms(1)]
    by (simp add: parser_member_def at_op_def nearer_def)
next
  case False
  have "sf_outcome (sf_bind (on_pos parser_bare_item sfp)
      (\<lambda>val sfp. Some (Inr val, sfp\<lparr>sfp_state := SFPARSE_SET_STATE_BEFORE_PARAMS K\<rparr>)))
    (\<lambda>_ s. (at_op K True SFPARSE_STATE_BEFORE s \<or> at_op K False SFPARSE_STATE_BEFORE_PARAMS s) \<and> nearer s sfp)
    (\<lambda>_. False)"
    by (rule sf_outcome_bind [OF bare_item_outcome [OF assms(1)]])
      (use assms(2) in \<open>auto simp: at_op_def nearer_def\<close>)
  then show ?thesis using assms False by (simp add: parser_member_def)
qed

text \<open>The states between two members of a dictionary or list, and in which an item ends.\<close>

definition at_member :: "u32 \<Rightarrow> sfparse_parser \<Rightarrow> bool" where
  "at_member K s \<longleftrightarrow> at_op K True SFPARSE_STATE_BEFORE s \<or> at_op K False SFPARSE_STATE_BEFORE_PARAMS s \<or>
     at_op K False SFPARSE_STATE_AFTER s"

lemma at_op_kind: "at_op K i op s \<Longrightarrow> K \<in> sf_kinds"
  by (simp add: at_op_def)

lemma skip_then:
  assumes "at_op K False SFPARSE_STATE_BEFORE_PARAMS sfp"
    and "\<And>s. at_op K False SFPARSE_STATE_AFTER s \<Longrightarrow> suffix (sfp_data s) (sfp_data sfp) \<Longrightarrow> sf_outcome (f s) P E"
  shows "sf_outcome (sf_bind (parser_skip_params sfp) (\<lambda>_ s. f s)) P E"
  by (rule sf_outcome_bind [OF skip_params_outcome [OF assms(1)]]) (use assms(2) in auto)

lemma skip_list_then:
  assumes "at_op K True SFPARSE_STATE_BEFORE sfp"
    and "\<And>s. at_op K False SFPARSE_STATE_AFTER s \<Longrightarrow> suffix (sfp_data s) (sfp_data sfp) \<Longrightarrow> sf_outcome (f s) P E"
  shows "sf_outcome (sf_bind (parser_skip_inner_list sfp) (\<lambda>_ s. sf_bind (parser_skip_params s) (\<lambda>_ s. f s))) P E"
proof (rule sf_outcome_bind [OF skip_inner_list_outcome [OF assms(1)]])
  fix u and s :: sfparse_parser
  assume s: "at_op K False SFPARSE_STATE_BEFORE_PARAMS s \<and> nearer s sfp"
  show "sf_outcome (sf_bind (parser_skip_params s) (\<lambda>_ s. f s)) P E"
    by (rule skip_then) (use s assms(2) in \<open>auto intro: suffix_order.trans [OF _ nearer_imp_suffix]\<close>)
qed (simp_all add: inner_ops_def)

lemma next_member_outcome:
  assumes "at_member K sfp"
  shows "sf_outcome (parser_next_member K sfp)
    (\<lambda>_ s. at_op K False SFPARSE_STATE_AFTER s \<and> \<not> parser_eof s \<and> nearer s sfp)
    (\<lambda>s. at_op K False SFPARSE_STATE_AFTER s \<and> parser_eof s)"
    (is "sf_outcome _ ?P ?E")
proof -
  have n: "sf_outcome (parser_next_key_or_item s) ?P ?E"
    if "at_op K False SFPARSE_STATE_AFTER s" "suffix (sfp_data s) (sfp_data sfp)" for s
    by (rule sf_outcome_mono [OF next_key_or_item_outcome]) (use that in \<open>auto simp: at_op_def intro: nearer_suffix\<close>)
  from assms consider "at_op K True SFPARSE_STATE_BEFORE sfp" | "at_op K False SFPARSE_STATE_BEFORE_PARAMS sfp"
    | "at_op K False SFPARSE_STATE_AFTER sfp" unfolding at_member_def by blast
  then show ?thesis
  proof cases
    case 1
    then show ?thesis using skip_list_then [OF 1 n] by (simp add: parser_next_member_def at_op_def)
  next
    case 2
    then show ?thesis using skip_then [OF 2 n] by (simp add: parser_next_member_def at_op_def)
  next
    case 3
    then show ?thesis using n [OF 3] by (simp add: parser_next_member_def at_op_def)
  qed
qed

text \<open>The start of a call that reads a member: not at the end, and near enough.\<close>

definition at_start :: "u32 \<Rightarrow> sfparse_parser \<Rightarrow> bool" where
  "at_start K s \<longleftrightarrow> K \<in> sf_kinds \<and> sfp_state s = SFPARSE_STATE_INITIAL"

lemma member_start_outcome:
  assumes "at_start K sfp \<or> at_member K sfp"
  shows "sf_outcome (if sfp_state sfp = SFPARSE_STATE_INITIAL then parser_first_member sfp else parser_next_member K sfp)
    (\<lambda>_ s. \<not> parser_eof s \<and> suffix (sfp_data s) (sfp_data sfp))
    (\<lambda>s. parser_eof s)"
proof (cases "at_start K sfp")
  case True
  then show ?thesis by (auto simp: at_start_def parser_first_member_def Let_def discard_suffix)
next
  case False
  then have m: "at_member K sfp" using assms by simp
  then have "sfp_state sfp \<noteq> SFPARSE_STATE_INITIAL" by (auto simp: at_member_def at_op_def)
  then show ?thesis using next_member_outcome [OF m] by (auto elim!: sf_outcome_mono dest: nearer_imp_suffix)
qed

lemma list_outcome:
  assumes "at_start SFPARSE_STATE_LIST sfp \<or> at_member SFPARSE_STATE_LIST sfp"
  shows "sf_outcome (sfparse_parser_list sfp)
    (\<lambda>_ s. at_member SFPARSE_STATE_LIST s \<and> op_state s \<noteq> SFPARSE_STATE_AFTER \<and> nearer s sfp) (\<lambda>s. parser_eof s)"
  unfolding sfparse_parser_list_def
  by (rule sf_outcome_bind [OF member_start_outcome [OF assms]], rule sf_outcome_mono [OF member_outcome])
    (auto simp: at_member_def at_op_op_state intro: nearer_suffix)

lemma dict_value_outcome:
  "sf_outcome (parser_dict_value sfp)
    (\<lambda>_ s. at_member SFPARSE_STATE_DICT s \<and> op_state s \<noteq> SFPARSE_STATE_AFTER \<and> suffix (sfp_data s) (sfp_data sfp))
    (\<lambda>_. False)"
proof (cases "at_char CH_EQ (sfp_data sfp) \<and> \<not> parser_eof (next_char sfp)")
  case False
  then show ?thesis
    by (auto simp: parser_dict_value_def Let_def at_member_def at_op_def op_state_def)
next
  case True
  have "suffix (sfp_data (next_char sfp)) (sfp_data sfp)" by simp
  then have "sf_outcome (parser_member SFPARSE_STATE_DICT (next_char sfp))
    (\<lambda>_ s. at_member SFPARSE_STATE_DICT s \<and> op_state s \<noteq> SFPARSE_STATE_AFTER \<and> suffix (sfp_data s) (sfp_data sfp))
    (\<lambda>_. False)"
    using True by (intro sf_outcome_mono [OF member_outcome])
      (auto simp: at_member_def at_op_op_state dest!: nearer_imp_suffix intro: suffix_order.trans)
  then show ?thesis using True by (simp add: parser_dict_value_def Let_def)
qed

lemma dict_outcome:
  assumes "at_start SFPARSE_STATE_DICT sfp \<or> at_member SFPARSE_STATE_DICT sfp"
  shows "sf_outcome (sfparse_parser_dict sfp)
    (\<lambda>_ s. at_member SFPARSE_STATE_DICT s \<and> op_state s \<noteq> SFPARSE_STATE_AFTER \<and> nearer s sfp) (\<lambda>s. parser_eof s)"
  unfolding sfparse_parser_dict_def
proof (rule sf_outcome_bind [OF member_start_outcome [OF assms]])
  fix u and s :: sfparse_parser
  assume s: "\<not> parser_eof s \<and> suffix (sfp_data s) (sfp_data sfp)"
  show "sf_outcome (sf_bind (on_pos parser_key s) (\<lambda>key sfp. sf_bind (parser_dict_value sfp) (\<lambda>val sfp. Some (Inr (key, val), sfp))))
    (\<lambda>_ s. at_member SFPARSE_STATE_DICT s \<and> op_state s \<noteq> SFPARSE_STATE_AFTER \<and> nearer s sfp) (\<lambda>s. parser_eof s)"
  proof (rule sf_outcome_bind [OF key_outcome])
    fix key and s' :: sfparse_parser
    assume k: "sfp_state s' = sfp_state s \<and> strict_suffix (sfp_data s') (sfp_data s)"
    then have "nearer s' sfp" using s by (auto simp: nearer_def intro: suffix_order.less_le_trans)
    then show "sf_outcome (sf_bind (parser_dict_value s') (\<lambda>val sfp. Some (Inr (key, val), sfp)))
      (\<lambda>_ s. at_member SFPARSE_STATE_DICT s \<and> op_state s \<noteq> SFPARSE_STATE_AFTER \<and> nearer s sfp) (\<lambda>s. parser_eof s)"
      by (intro sf_outcome_bind [OF dict_value_outcome]) (auto intro: suffix_nearer)
  qed (use s in simp_all)
qed simp

lemma item_outcome:
  assumes "at_start SFPARSE_STATE_ITEM sfp \<or> at_member SFPARSE_STATE_ITEM sfp"
  shows "sf_outcome (sfparse_parser_item sfp)
    (\<lambda>_ s. at_member SFPARSE_STATE_ITEM s \<and> op_state s \<noteq> SFPARSE_STATE_AFTER \<and> nearer s sfp) (\<lambda>s. parser_eof s)"
    (is "sf_outcome _ ?P ?E")
proof (cases "at_start SFPARSE_STATE_ITEM sfp")
  case True
  have "sf_outcome (parser_member SFPARSE_STATE_ITEM (parser_discard_sp sfp)) ?P ?E" if "\<not> parser_eof (parser_discard_sp sfp)"
    using that by (intro sf_outcome_mono [OF member_outcome])
      (auto simp: at_member_def at_op_op_state discard_suffix intro: nearer_suffix)
  then show ?thesis using True by (simp add: sfparse_parser_item_def at_start_def Let_def)
next
  case False
  have e: "sf_outcome (item_end s) ?P ?E" for s
    by (simp add: item_end_def Let_def sf_outcome_def)
  from False assms have m: "at_member SFPARSE_STATE_ITEM sfp" by simp
  then consider "at_op SFPARSE_STATE_ITEM True SFPARSE_STATE_BEFORE sfp"
    | "at_op SFPARSE_STATE_ITEM False SFPARSE_STATE_BEFORE_PARAMS sfp"
    | "at_op SFPARSE_STATE_ITEM False SFPARSE_STATE_AFTER sfp" unfolding at_member_def by blast
  then show ?thesis
  proof cases
    case 1
    then show ?thesis using skip_list_then [OF 1 e] by (simp add: sfparse_parser_item_def at_op_def)
  next
    case 2
    then show ?thesis using skip_then [OF 2 e] by (simp add: sfparse_parser_item_def at_op_def)
  next
    case 3
    then show ?thesis using e by (simp add: sfparse_parser_item_def at_op_def)
  qed
qed

section \<open>The order of the calls\<close>

text \<open>
  A client reads one field value of a known kind. It may leave an inner list or parameters unread, but
  once it has started to read one it goes on until it gets \<open>SFPARSE_ERR_EOF\<close>. The state word tells
  which calls this allows.
\<close>

datatype sf_request = Read_Member | Read_Param | Read_Inner_List

definition call_member :: "u32 \<Rightarrow> sfparse_parser \<Rightarrow> (unit sf_res \<times> sfparse_parser) option" where
  "call_member K s =
     (if K = SFPARSE_STATE_DICT then map_option (map_prod (map_sum id (\<lambda>_. ())) id) (sfparse_parser_dict s)
      else if K = SFPARSE_STATE_LIST then map_option (map_prod (map_sum id (\<lambda>_. ())) id) (sfparse_parser_list s)
      else map_option (map_prod (map_sum id (\<lambda>_. ())) id) (sfparse_parser_item s))"

fun sf_call :: "u32 \<Rightarrow> sf_request \<Rightarrow> sfparse_parser \<Rightarrow> (unit sf_res \<times> sfparse_parser) option" where
  "sf_call K Read_Member s = call_member K s"
| "sf_call K Read_Param s = map_option (map_prod (map_sum id (\<lambda>_. ())) id) (sfparse_parser_param s)"
| "sf_call K Read_Inner_List s = map_option (map_prod (map_sum id (\<lambda>_. ())) id) (sfparse_parser_inner_list s)"

fun sf_allowed :: "u32 \<Rightarrow> sf_request \<Rightarrow> sfparse_parser \<Rightarrow> bool" where
  "sf_allowed K Read_Member s \<longleftrightarrow> at_start K s \<or> at_member K s"
| "sf_allowed K Read_Param s \<longleftrightarrow>
     at_op K True SFPARSE_STATE_BEFORE s \<or>
     (\<exists>i. at_op K i SFPARSE_STATE_BEFORE_PARAMS s \<or> at_op K i SFPARSE_STATE_PARAMS s)"
| "sf_allowed K Read_Inner_List s \<longleftrightarrow> (\<exists>op\<in>inner_ops. at_op K True op s)"

text \<open>The parsers that a client can have after \<open>n\<close> calls, none of them failed or the last.\<close>

inductive sf_after :: "u32 \<Rightarrow> bytes \<Rightarrow> nat \<Rightarrow> sfparse_parser \<Rightarrow> bool" for K data where
  init: "K \<in> sf_kinds \<Longrightarrow> sf_after K data 0 (sfparse_parser_init data)"
| read: "sf_after K data n s \<Longrightarrow> sf_allowed K c s \<Longrightarrow> sf_call K c s = Some (Inr (), s') \<Longrightarrow> sf_after K data (Suc n) s'"
| finished: "sf_after K data n s \<Longrightarrow> sf_allowed K c s \<Longrightarrow> c \<noteq> Read_Member \<Longrightarrow>
    sf_call K c s = Some (Inl SFPARSE_ERR_EOF, s') \<Longrightarrow> sf_after K data (Suc n) s'"

lemma sf_outcome_map:
  "sf_outcome (map_option (map_prod (map_sum id (\<lambda>_. ())) id) m) (\<lambda>_ s. P s) E \<longleftrightarrow> sf_outcome m (\<lambda>_ s. P s) E"
  by (cases m rule: sf_bind_cases) (auto simp: sf_outcome_def)

text \<open>How far a parser can be moved: every call reads input, except the one that ends parameters.\<close>

definition sf_credit :: "sfparse_parser \<Rightarrow> nat" where
  "sf_credit s = 2 * length (sfp_data s) + (if op_state s = SFPARSE_STATE_AFTER then 0 else 1)"

lemma sf_credit_less: "nearer s s0 \<Longrightarrow> sf_credit s < sf_credit s0"
  by (auto simp: sf_credit_def dest: nearer_length)

lemma sf_call_outcome:
  assumes "sf_allowed K c s" and "K \<in> sf_kinds"
  shows "sf_outcome (sf_call K c s)
    (\<lambda>_ s'. ((\<exists>c'. sf_allowed K c' s') \<and> sf_credit s' < sf_credit s) \<and> suffix (sfp_data s') (sfp_data s))
    (\<lambda>s'. (c = Read_Member \<longrightarrow> sfp_data s' = []) \<and>
      (c \<noteq> Read_Member \<longrightarrow> ((\<exists>c'. sf_allowed K c' s') \<and> sf_credit s' < sf_credit s) \<and> suffix (sfp_data s') (sfp_data s)))"
    (is "sf_outcome _ ?P ?E")
proof (cases c)
  case Read_Member
  have m: "at_member K s' \<and> op_state s' \<noteq> SFPARSE_STATE_AFTER \<and> nearer s' s \<Longrightarrow> ?P () s'" for s'
    using sf_credit_less [of s' s] nearer_imp_suffix [of s' s] by (auto intro!: exI [of _ Read_Member])
  have a: "at_start K s \<or> at_member K s" using assms(1) Read_Member by simp
  have e: "parser_eof s' \<Longrightarrow> ?E s'" for s' by (simp add: Read_Member parser_eof_def)
  consider "K = SFPARSE_STATE_DICT" | "K = SFPARSE_STATE_LIST" | "K = SFPARSE_STATE_ITEM"
    using assms(2) by (auto simp: sf_kinds_def)
  then show ?thesis
  proof cases
    case 1
    have "sf_call K c = (\<lambda>s. map_option (map_prod (map_sum id (\<lambda>_. ())) id) (sfparse_parser_dict s))"
      by (rule ext) (simp add: Read_Member call_member_def 1)
    moreover have "sf_outcome (sfparse_parser_dict s) (\<lambda>_. ?P ()) ?E"
      by (rule sf_outcome_mono [OF dict_outcome]) (use a 1 m e in auto)
    ultimately show ?thesis by (simp only: sf_outcome_map)
  next
    case 2
    have "sf_call K c = (\<lambda>s. map_option (map_prod (map_sum id (\<lambda>_. ())) id) (sfparse_parser_list s))"
      by (rule ext) (simp add: Read_Member call_member_def 2 sf_consts)
    moreover have "sf_outcome (sfparse_parser_list s) (\<lambda>_. ?P ()) ?E"
      by (rule sf_outcome_mono [OF list_outcome]) (use a 2 m e in auto)
    ultimately show ?thesis by (simp only: sf_outcome_map)
  next
    case 3
    have "sf_call K c = (\<lambda>s. map_option (map_prod (map_sum id (\<lambda>_. ())) id) (sfparse_parser_item s))"
      by (rule ext) (simp add: Read_Member call_member_def 3 sf_consts)
    moreover have "sf_outcome (sfparse_parser_item s) (\<lambda>_. ?P ()) ?E"
      by (rule sf_outcome_mono [OF item_outcome]) (use a 3 m e in auto)
    ultimately show ?thesis by (simp only: sf_outcome_map)
  qed
next
  case Read_Param
  from assms(1) Read_Param obtain i op where o: "at_op K i op s"
    "op = SFPARSE_STATE_BEFORE \<and> i \<or> op = SFPARSE_STATE_BEFORE_PARAMS \<or> op = SFPARSE_STATE_PARAMS" by auto
  let ?i = "i \<and> op \<noteq> SFPARSE_STATE_BEFORE"
  have p: "?P () s'" if "at_op K ?i SFPARSE_STATE_PARAMS s' \<and> nearer s' s" for s'
    using that sf_credit_less [of s' s] nearer_imp_suffix [of s' s] by (auto intro!: exI [of _ Read_Param])
  have e: "?E s'" if "at_op K ?i SFPARSE_STATE_AFTER s' \<and> suffix (sfp_data s') (sfp_data s) \<and> \<not> at_char CH_SEMICOLON (sfp_data s')"
    for s'
  proof -
    have "\<exists>c'. sf_allowed K c' s'"
    proof (cases ?i)
      case True
      then show ?thesis using that by (intro exI [of _ Read_Inner_List]) (auto simp: inner_ops_def)
    next
      case False
      then have i: "?i = False" by simp
      have "at_op K False SFPARSE_STATE_AFTER s'" using that unfolding i by simp
      then show ?thesis by (intro exI [of _ Read_Member]) (simp add: at_member_def)
    qed
    moreover have "sf_credit s' < sf_credit s"
    proof -
      have "op_state s' = SFPARSE_STATE_AFTER" "op_state s \<noteq> SFPARSE_STATE_AFTER"
        using that o by (auto simp: at_op_op_state)
      moreover have "length (sfp_data s') \<le> length (sfp_data s)" using that by (auto dest: suffix_length_le)
      ultimately show ?thesis by (simp add: sf_credit_def)
    qed
    ultimately show ?thesis using that by (simp add: Read_Param)
  qed
  have "sf_outcome (sfparse_parser_param s) (\<lambda>_. ?P ()) ?E"
    by (rule sf_outcome_mono [OF param_outcome [OF o]]) (use p e in auto)
  then show ?thesis by (simp only: Read_Param sf_call.simps sf_outcome_map)
next
  case Read_Inner_List
  from assms(1) Read_Inner_List obtain op where o: "at_op K True op s" "op \<in> inner_ops" by auto
  have p: "?P () s'" if "at_op K True SFPARSE_STATE_BEFORE_PARAMS s' \<and> nearer s' s" for s'
    using that sf_credit_less [of s' s] nearer_imp_suffix [of s' s] by (auto intro!: exI [of _ Read_Param])
  have e: "?E s'" if "at_op K False SFPARSE_STATE_BEFORE_PARAMS s' \<and> nearer s' s" for s'
    using that sf_credit_less [of s' s] nearer_imp_suffix [of s' s]
    by (auto simp: Read_Inner_List intro!: exI [of _ Read_Param])
  have "sf_outcome (sfparse_parser_inner_list s) (\<lambda>_. ?P ()) ?E"
    by (rule sf_outcome_mono [OF inner_list_outcome [OF o]]) (use p e in auto)
  then show ?thesis by (simp only: Read_Inner_List sf_call.simps sf_outcome_map)
qed

lemma sf_after_inv:
  "sf_after K data n s \<Longrightarrow> K \<in> sf_kinds \<and> suffix (sfp_data s) data \<and> n + sf_credit s \<le> 2 * length data + 1"
proof (induction rule: sf_after.induct)
  case init
  then show ?case by (simp add: sf_credit_def)
next
  case (read n s c s')
  then have "sf_credit s' < sf_credit s" "suffix (sfp_data s') (sfp_data s)"
    using sf_call_outcome [OF read(2), of] by (auto simp: sf_outcome_def)
  then show ?case using read.IH by (auto intro: suffix_order.trans)
next
  case (finished n s c s')
  then have "sf_credit s' < sf_credit s" "suffix (sfp_data s') (sfp_data s)"
    using sf_call_outcome [OF finished(2)] by (auto simp: sf_outcome_def)
  then show ?case using finished.IH by (auto intro: suffix_order.trans)
qed

text \<open>
  C22. The structured field parser is safe and terminates under the documented order of the calls.
  Whatever the input and the kind of the value, a client that has made \<open>n\<close> successful calls in that order
  has made at most \<open>2 * length data + 1\<close> of them, its position is inside the input, and each call that
  the order allows next returns: no assertion fails, nothing is read at or behind the end. The
  position moves only forward, and when a member is asked for and \<open>SFPARSE_ERR_EOF\<close> comes back,
  all input has been read.
\<close>

theorem sfparse_calls_safe:
  assumes "sf_after K data n s" and "sf_allowed K c s"
  shows "n \<le> 2 * length data + 1 \<and> suffix (sfp_data s) data \<and>
    (\<exists>r s'. sf_call K c s = Some (r, s') \<and>
      (r = Inr () \<longrightarrow> suffix (sfp_data s') (sfp_data s) \<and> (\<exists>c'. sf_allowed K c' s')) \<and>
      (r = Inl SFPARSE_ERR_EOF \<and> c = Read_Member \<longrightarrow> sfp_data s' = []) \<and>
      (r = Inl SFPARSE_ERR_EOF \<and> c \<noteq> Read_Member \<longrightarrow> suffix (sfp_data s') (sfp_data s) \<and> (\<exists>c'. sf_allowed K c' s')))"
proof -
  note inv = sf_after_inv [OF assms(1)]
  from sf_call_outcome [OF assms(2)] inv have
    "\<exists>r s'. sf_call K c s = Some (r, s') \<and>
      (r = Inr () \<longrightarrow> suffix (sfp_data s') (sfp_data s) \<and> (\<exists>c'. sf_allowed K c' s')) \<and>
      (r = Inl SFPARSE_ERR_EOF \<and> c = Read_Member \<longrightarrow> sfp_data s' = []) \<and>
      (r = Inl SFPARSE_ERR_EOF \<and> c \<noteq> Read_Member \<longrightarrow> suffix (sfp_data s') (sfp_data s) \<and> (\<exists>c'. sf_allowed K c' s'))"
    unfolding sf_outcome_def by (elim conjE disjE exE) auto
  moreover have "n \<le> 2 * length data + 1" using inv by linarith
  ultimately show ?thesis using inv by simp
qed

text \<open>The field value \<open>a;b\<close>: the dictionary is asked for its first member and then for a parameter.\<close>

definition example_parser :: sfparse_parser where
  "example_parser = \<lparr>sfp_data = [0x3b, 0x62], sfp_state = SFPARSE_SET_STATE_BEFORE_PARAMS SFPARSE_STATE_DICT\<rparr>"

theorem sfparse_calls_safe_witness:
  "sf_after SFPARSE_STATE_DICT [0x61, 0x3b, 0x62] 1 example_parser \<and>
   sf_allowed SFPARSE_STATE_DICT Read_Param example_parser \<and>
   (\<exists>r s'. sf_call SFPARSE_STATE_DICT Read_Param example_parser = Some (r, s') \<and>
     (r = Inr () \<longrightarrow> suffix (sfp_data s') (sfp_data example_parser) \<and> (\<exists>c'. sf_allowed SFPARSE_STATE_DICT c' s')) \<and>
     (r = Inl SFPARSE_ERR_EOF \<and> Read_Param = Read_Member \<longrightarrow> sfp_data s' = []) \<and>
     (r = Inl SFPARSE_ERR_EOF \<and> Read_Param \<noteq> Read_Member \<longrightarrow>
       suffix (sfp_data s') (sfp_data example_parser) \<and> (\<exists>c'. sf_allowed SFPARSE_STATE_DICT c' s')))"
proof -
  let ?data = "[0x61, 0x3b, 0x62] :: bytes"
  have c: "sf_call SFPARSE_STATE_DICT Read_Member (sfparse_parser_init ?data) = Some (Inr (), example_parser)" by code_simp
  have a: "sf_after SFPARSE_STATE_DICT ?data 1 example_parser"
    using sf_after.read [OF sf_after.init [OF sf_kinds_simps(1)] _ c]
    by (simp add: at_start_def sfparse_parser_init_def)
  have "sf_allowed SFPARSE_STATE_DICT Read_Param example_parser"
    by (auto simp: example_parser_def at_op_def)
  then show ?thesis using a sfparse_calls_safe [OF a, of Read_Param] by blast
qed

end
