(* ===== verification/Sfparse_Utf8.thy ===== *)
theory Sfparse_Utf8
  imports Sfparse
begin

text \<open>
  The table driven UTF-8 automaton of sfparse.c against the grammar of RFC 3629: the classes of
  bytes, the rows of the transition table, and the language.
\<close>

section \<open>The grammar and the automaton\<close>

text \<open>The grammar of RFC 3629, section 4.\<close>

definition utf8_tail :: "u8 \<Rightarrow> bool" where
  "utf8_tail b \<longleftrightarrow> 0x80 \<le> b \<and> b \<le> 0xbf"

fun utf8_valid :: "bytes \<Rightarrow> bool" where
  "utf8_valid [] = True"
| "utf8_valid (b # bs) =
     (if b \<le> 0x7f then utf8_valid bs
      else if 0xc2 \<le> b \<and> b \<le> 0xdf then
        (case bs of b1 # bs' \<Rightarrow> utf8_tail b1 \<and> utf8_valid bs' | _ \<Rightarrow> False)
      else if 0xe0 \<le> b \<and> b \<le> 0xef then
        (case bs of
           b1 # b2 # bs' \<Rightarrow>
             utf8_tail b1 \<and> (b = 0xe0 \<longrightarrow> 0xa0 \<le> b1) \<and> (b = 0xed \<longrightarrow> b1 \<le> 0x9f) \<and> utf8_tail b2 \<and> utf8_valid bs'
         | _ \<Rightarrow> False)
      else if 0xf0 \<le> b \<and> b \<le> 0xf4 then
        (case bs of
           b1 # b2 # b3 # bs' \<Rightarrow>
             utf8_tail b1 \<and> (b = 0xf0 \<longrightarrow> 0x90 \<le> b1) \<and> (b = 0xf4 \<longrightarrow> b1 \<le> 0x8f) \<and> utf8_tail b2 \<and> utf8_tail b3 \<and>
             utf8_valid bs'
         | _ \<Rightarrow> False)
      else False)"

text \<open>A run of the automaton that is never rejected and ends in the accepting state.\<close>

fun utf8_run :: "u32 \<Rightarrow> bytes \<Rightarrow> bool" where
  "utf8_run state [] = (state = UTF8_ACCEPT)"
| "utf8_run state (b # bs) = (utf8_decode state b \<noteq> UTF8_REJECT \<and> utf8_run (utf8_decode state b) bs)"

lemma utf8d_classes:
  "take 256 utf8d = replicate 128 0 @ replicate 16 1 @ replicate 16 9 @ replicate 32 7 @ replicate 2 8 @ replicate 30 2 @
     replicate 1 10 @ replicate 12 3 @ replicate 1 4 @ replicate 2 3 @ replicate 1 11 @ replicate 3 6 @ replicate 1 5 @
     replicate 11 8 @ []"
  by (simp add: utf8d_def numeral_eq_Suc)

lemma nth_replicate_append: "(replicate k x @ ys) ! n = (if n < k then x else ys ! (n - k))"
  by (simp add: nth_append)

lemma utf8_class:
  fixes b :: u8
  obtains
    "0 \<le> unat b" "unat b \<le> 127" "utf8d ! unat b = 0" |
    "128 \<le> unat b" "unat b \<le> 143" "utf8d ! unat b = 1" |
    "144 \<le> unat b" "unat b \<le> 159" "utf8d ! unat b = 9" |
    "160 \<le> unat b" "unat b \<le> 191" "utf8d ! unat b = 7" |
    "192 \<le> unat b" "unat b \<le> 193" "utf8d ! unat b = 8" |
    "194 \<le> unat b" "unat b \<le> 223" "utf8d ! unat b = 2" |
    "224 \<le> unat b" "unat b \<le> 224" "utf8d ! unat b = 10" |
    "225 \<le> unat b" "unat b \<le> 236" "utf8d ! unat b = 3" |
    "237 \<le> unat b" "unat b \<le> 237" "utf8d ! unat b = 4" |
    "238 \<le> unat b" "unat b \<le> 239" "utf8d ! unat b = 3" |
    "240 \<le> unat b" "unat b \<le> 240" "utf8d ! unat b = 11" |
    "241 \<le> unat b" "unat b \<le> 243" "utf8d ! unat b = 6" |
    "244 \<le> unat b" "unat b \<le> 244" "utf8d ! unat b = 5" |
    "245 \<le> unat b" "unat b \<le> 255" "utf8d ! unat b = 8"
proof -
  have "utf8d ! unat b = take 256 utf8d ! unat b" by (rule nth_take [symmetric]) (rule unat_u8_lt)
  note e = this [unfolded utf8d_classes]
  have c0: "utf8d ! unat b = 0" if "0 \<le> unat b" "unat b \<le> 127"
    using e le_Suc_ex [OF that(1)] that(2) by (auto simp: nth_replicate_append simp del: append_Nil2)
  have c1: "utf8d ! unat b = 1" if "128 \<le> unat b" "unat b \<le> 143"
    using e le_Suc_ex [OF that(1)] that(2) by (auto simp: nth_replicate_append simp del: append_Nil2)
  have c2: "utf8d ! unat b = 9" if "144 \<le> unat b" "unat b \<le> 159"
    using e le_Suc_ex [OF that(1)] that(2) by (auto simp: nth_replicate_append simp del: append_Nil2)
  have c3: "utf8d ! unat b = 7" if "160 \<le> unat b" "unat b \<le> 191"
    using e le_Suc_ex [OF that(1)] that(2) by (auto simp: nth_replicate_append simp del: append_Nil2)
  have c4: "utf8d ! unat b = 8" if "192 \<le> unat b" "unat b \<le> 193"
    using e le_Suc_ex [OF that(1)] that(2) by (auto simp: nth_replicate_append simp del: append_Nil2)
  have c5: "utf8d ! unat b = 2" if "194 \<le> unat b" "unat b \<le> 223"
    using e le_Suc_ex [OF that(1)] that(2) by (auto simp: nth_replicate_append simp del: append_Nil2)
  have c6: "utf8d ! unat b = 10" if "224 \<le> unat b" "unat b \<le> 224"
    using e le_Suc_ex [OF that(1)] that(2) by (auto simp: nth_replicate_append simp del: append_Nil2)
  have c7: "utf8d ! unat b = 3" if "225 \<le> unat b" "unat b \<le> 236"
    using e le_Suc_ex [OF that(1)] that(2) by (auto simp: nth_replicate_append simp del: append_Nil2)
  have c8: "utf8d ! unat b = 4" if "237 \<le> unat b" "unat b \<le> 237"
    using e le_Suc_ex [OF that(1)] that(2) by (auto simp: nth_replicate_append simp del: append_Nil2)
  have c9: "utf8d ! unat b = 3" if "238 \<le> unat b" "unat b \<le> 239"
    using e le_Suc_ex [OF that(1)] that(2) by (auto simp: nth_replicate_append simp del: append_Nil2)
  have c10: "utf8d ! unat b = 11" if "240 \<le> unat b" "unat b \<le> 240"
    using e le_Suc_ex [OF that(1)] that(2) by (auto simp: nth_replicate_append simp del: append_Nil2)
  have c11: "utf8d ! unat b = 6" if "241 \<le> unat b" "unat b \<le> 243"
    using e le_Suc_ex [OF that(1)] that(2) by (auto simp: nth_replicate_append simp del: append_Nil2)
  have c12: "utf8d ! unat b = 5" if "244 \<le> unat b" "unat b \<le> 244"
    using e le_Suc_ex [OF that(1)] that(2) by (auto simp: nth_replicate_append simp del: append_Nil2)
  have c13: "utf8d ! unat b = 8" if "245 \<le> unat b" "unat b \<le> 255"
    using e le_Suc_ex [OF that(1)] that(2) by (auto simp: nth_replicate_append simp del: append_Nil2)
  show thesis
  proof (rule ccontr)
    assume f: "\<not> thesis"
    have h0: "0 \<le> unat b" by simp
    have h1: "128 \<le> unat b" by (rule ccontr) (use f h0 c0 that(1) in simp)
    have h2: "144 \<le> unat b" by (rule ccontr) (use f h1 c1 that(2) in simp)
    have h3: "160 \<le> unat b" by (rule ccontr) (use f h2 c2 that(3) in simp)
    have h4: "192 \<le> unat b" by (rule ccontr) (use f h3 c3 that(4) in simp)
    have h5: "194 \<le> unat b" by (rule ccontr) (use f h4 c4 that(5) in simp)
    have h6: "224 \<le> unat b" by (rule ccontr) (use f h5 c5 that(6) in simp)
    have h7: "225 \<le> unat b" by (rule ccontr) (use f h6 c6 that(7) in simp)
    have h8: "237 \<le> unat b" by (rule ccontr) (use f h7 c7 that(8) in simp)
    have h9: "238 \<le> unat b" by (rule ccontr) (use f h8 c8 that(9) in simp)
    have h10: "240 \<le> unat b" by (rule ccontr) (use f h9 c9 that(10) in simp)
    have h11: "241 \<le> unat b" by (rule ccontr) (use f h10 c10 that(11) in simp)
    have h12: "244 \<le> unat b" by (rule ccontr) (use f h11 c11 that(12) in simp)
    have h13: "245 \<le> unat b" by (rule ccontr) (use f h12 c12 that(13) in simp)
    show False using f h13 c13 that(14) unat_u8_lt [of b] by simp
  qed
qed

definition utf8_row :: "nat \<Rightarrow> u8 list" where
  "utf8_row state = take 12 (drop (256 + state) utf8d)"

lemma utf8_rows:
  "utf8_row 0 = [0, 12, 24, 36, 60, 96, 84, 12, 12, 12, 48, 72]"
  "utf8_row 24 = [12, 0, 12, 12, 12, 12, 12, 0, 12, 0, 12, 12]"
  "utf8_row 36 = [12, 24, 12, 12, 12, 12, 12, 24, 12, 24, 12, 12]"
  "utf8_row 48 = [12, 12, 12, 12, 12, 12, 12, 24, 12, 12, 12, 12]"
  "utf8_row 60 = [12, 24, 12, 12, 12, 12, 12, 12, 12, 24, 12, 12]"
  "utf8_row 72 = [12, 12, 12, 12, 12, 12, 12, 36, 12, 36, 12, 12]"
  "utf8_row 84 = [12, 36, 12, 12, 12, 12, 12, 36, 12, 36, 12, 12]"
  "utf8_row 96 = [12, 36, 12, 12, 12, 12, 12, 12, 12, 12, 12, 12]"
  by (simp_all add: utf8_row_def utf8d_def)

lemma length_utf8d: "length utf8d = 364"
  by (simp add: utf8d_def)

lemma utf8_decode_row:
  assumes "state \<le> 96"
  shows "utf8_decode (word_of_nat state) b = ucast (utf8_row state ! unat (utf8d ! unat b))"
proof -
  let ?c = "unat (utf8d ! unat b)"
  have c: "?c < 12" by (cases rule: utf8_class [of b]) simp_all
  have "256 + word_of_nat state + ucast (utf8d ! unat b) = (word_of_nat (256 + state + ?c) :: u32)"
    by (simp flip: unsigned_of_nat)
  moreover have "unat (word_of_nat (256 + state + ?c) :: u32) = 256 + state + ?c"
    using assms c by (simp only: unat_of_nat) simp
  ultimately have "unat (256 + word_of_nat state + ucast (utf8d ! unat b) :: u32) = 256 + state + ?c" by simp
  then show ?thesis using c assms by (simp add: utf8_decode_def utf8_row_def length_utf8d)
qed

lemma utf8_decode_accept: "utf8_decode 0 b =
    (if b \<le> 0x7f then 0 else if b \<le> 0xc1 then 12 else if b \<le> 0xdf then 24 else if b = 0xe0 then 48
     else if b \<le> 0xec then 36 else if b = 0xed then 60 else if b \<le> 0xef then 36 else if b = 0xf0 then 72
     else if b \<le> 0xf3 then 84 else if b = 0xf4 then 96 else 12)"
  using utf8_decode_row [of 0 b] by (cases rule: utf8_class [of b]) (simp_all add: utf8_rows word_le_nat_alt word_unat_eq_iff)

lemma utf8_decode_24: "utf8_decode 24 b = (if utf8_tail b then 0 else 12)"
  using utf8_decode_row [of 24 b] by (cases rule: utf8_class [of b])
    (simp_all add: utf8_rows utf8_tail_def word_le_nat_alt word_unat_eq_iff)

lemma utf8_decode_36: "utf8_decode 36 b = (if utf8_tail b then 24 else 12)"
  using utf8_decode_row [of 36 b] by (cases rule: utf8_class [of b])
    (simp_all add: utf8_rows utf8_tail_def word_le_nat_alt word_unat_eq_iff)

lemma utf8_decode_48: "utf8_decode 48 b = (if utf8_tail b \<and> 0xa0 \<le> b then 24 else 12)"
  using utf8_decode_row [of 48 b] by (cases rule: utf8_class [of b])
    (simp_all add: utf8_rows utf8_tail_def word_le_nat_alt word_unat_eq_iff)

lemma utf8_decode_60: "utf8_decode 60 b = (if utf8_tail b \<and> b \<le> 0x9f then 24 else 12)"
  using utf8_decode_row [of 60 b] by (cases rule: utf8_class [of b])
    (simp_all add: utf8_rows utf8_tail_def word_le_nat_alt word_unat_eq_iff)

lemma utf8_decode_72: "utf8_decode 72 b = (if utf8_tail b \<and> 0x90 \<le> b then 36 else 12)"
  using utf8_decode_row [of 72 b] by (cases rule: utf8_class [of b])
    (simp_all add: utf8_rows utf8_tail_def word_le_nat_alt word_unat_eq_iff)

lemma utf8_decode_84: "utf8_decode 84 b = (if utf8_tail b then 36 else 12)"
  using utf8_decode_row [of 84 b] by (cases rule: utf8_class [of b])
    (simp_all add: utf8_rows utf8_tail_def word_le_nat_alt word_unat_eq_iff)

lemma utf8_decode_96: "utf8_decode 96 b = (if utf8_tail b \<and> b \<le> 0x8f then 36 else 12)"
  using utf8_decode_row [of 96 b] by (cases rule: utf8_class [of b])
    (simp_all add: utf8_rows utf8_tail_def word_le_nat_alt word_unat_eq_iff)

lemmas utf8_decode_simps = utf8_decode_accept utf8_decode_24 utf8_decode_36 utf8_decode_48 utf8_decode_60 utf8_decode_72
  utf8_decode_84 utf8_decode_96

lemma utf8_run_Nil: "state \<noteq> 0 \<Longrightarrow> \<not> utf8_run state []"
  by (simp add: UTF8_ACCEPT_def)

lemma utf8_run_24: "utf8_run 24 (b # bs) \<longleftrightarrow> utf8_tail b \<and> utf8_run 0 bs"
  by (auto simp: utf8_decode_24 UTF8_REJECT_def)

lemma utf8_run_36: "utf8_run 36 (b # bs) \<longleftrightarrow> utf8_tail b \<and> utf8_run 24 bs"
  by (auto simp: utf8_decode_36 UTF8_REJECT_def)

lemma utf8_run_48: "utf8_run 48 (b # bs) \<longleftrightarrow> utf8_tail b \<and> 0xa0 \<le> b \<and> utf8_run 24 bs"
  by (auto simp: utf8_decode_48 UTF8_REJECT_def)

lemma utf8_run_60: "utf8_run 60 (b # bs) \<longleftrightarrow> utf8_tail b \<and> b \<le> 0x9f \<and> utf8_run 24 bs"
  by (auto simp: utf8_decode_60 UTF8_REJECT_def)

lemma utf8_run_72: "utf8_run 72 (b # bs) \<longleftrightarrow> utf8_tail b \<and> 0x90 \<le> b \<and> utf8_run 36 bs"
  by (auto simp: utf8_decode_72 UTF8_REJECT_def)

lemma utf8_run_84: "utf8_run 84 (b # bs) \<longleftrightarrow> utf8_tail b \<and> utf8_run 36 bs"
  by (auto simp: utf8_decode_84 UTF8_REJECT_def)

lemma utf8_run_96: "utf8_run 96 (b # bs) \<longleftrightarrow> utf8_tail b \<and> b \<le> 0x8f \<and> utf8_run 36 bs"
  by (auto simp: utf8_decode_96 UTF8_REJECT_def)

lemmas utf8_runs = utf8_run_24 utf8_run_36 utf8_run_48 utf8_run_60 utf8_run_72 utf8_run_84 utf8_run_96

lemma utf8_run_accept: "utf8_run 0 (b # bs) =
    (if b \<le> 0x7f then utf8_run 0 bs else if b \<le> 0xc1 then False else if b \<le> 0xdf then utf8_run 24 bs
     else if b = 0xe0 then utf8_run 48 bs else if b = 0xed then utf8_run 60 bs else if b \<le> 0xef then utf8_run 36 bs
     else if b = 0xf0 then utf8_run 72 bs else if b \<le> 0xf3 then utf8_run 84 bs
     else if b = 0xf4 then utf8_run 96 bs else False)"
  by (cases rule: utf8_class [of b])
    (simp_all add: utf8_decode_accept UTF8_REJECT_def word_le_nat_alt word_unat_eq_iff)

lemma utf8_run_zero: "utf8_run 0 [] = True" by (simp add: UTF8_ACCEPT_def)

lemma utf8_byte_range: "utf8_run 0 (b # bs) \<longleftrightarrow>
    (if b \<le> 0x7f then utf8_run 0 bs
     else if 0xc2 \<le> b \<and> b \<le> 0xdf then utf8_run 24 bs
     else if 0xe0 \<le> b \<and> b \<le> 0xef then
       (if b = 0xe0 then utf8_run 48 bs else if b = 0xed then utf8_run 60 bs else utf8_run 36 bs)
     else if 0xf0 \<le> b \<and> b \<le> 0xf4 then
       (if b = 0xf0 then utf8_run 72 bs else if b = 0xf4 then utf8_run 96 bs else utf8_run 84 bs)
     else False)"
  unfolding utf8_run_accept
  by (cases rule: utf8_class [of b]) (simp_all add: word_le_nat_alt word_unat_eq_iff)

lemma utf8_run_iff: "utf8_run 0 bs \<longleftrightarrow> utf8_valid bs"
proof (induction bs rule: utf8_valid.induct)
  case (2 b bs)
  let ?r = utf8_run and ?v = utf8_valid
  consider "b \<le> 0x7f" | "\<not> b \<le> 0x7f" "0xc2 \<le> b \<and> b \<le> 0xdf"
    | "\<not> b \<le> 0x7f" "\<not> (0xc2 \<le> b \<and> b \<le> 0xdf)" "0xe0 \<le> b \<and> b \<le> 0xef"
    | "\<not> b \<le> 0x7f" "\<not> (0xc2 \<le> b \<and> b \<le> 0xdf)" "\<not> (0xe0 \<le> b \<and> b \<le> 0xef)" "0xf0 \<le> b \<and> b \<le> 0xf4"
    | "\<not> b \<le> 0x7f" "\<not> (0xc2 \<le> b \<and> b \<le> 0xdf)" "\<not> (0xe0 \<le> b \<and> b \<le> 0xef)" "\<not> (0xf0 \<le> b \<and> b \<le> 0xf4)" by blast
  then show ?case
  proof cases
    case 1
    then show ?thesis using 2(1) by (simp add: utf8_byte_range del: utf8_run.simps)
  next
    case 2
    have "?r 24 bs \<longleftrightarrow> (case bs of b1 # bs' \<Rightarrow> utf8_tail b1 \<and> ?v bs' | _ \<Rightarrow> False)"
      using "2.IH"(2) [OF 2] by (cases bs) (auto simp: utf8_runs utf8_run_Nil simp del: utf8_run.simps)
    then show ?thesis using 2 by (simp add: utf8_byte_range del: utf8_run.simps)
  next
    case 3
    have "(if b = 0xe0 then ?r 48 bs else if b = 0xed then ?r 60 bs else ?r 36 bs) \<longleftrightarrow>
      (case bs of b1 # b2 # bs' \<Rightarrow> utf8_tail b1 \<and> (b = 0xe0 \<longrightarrow> 0xa0 \<le> b1) \<and> (b = 0xed \<longrightarrow> b1 \<le> 0x9f) \<and>
        utf8_tail b2 \<and> ?v bs' | _ \<Rightarrow> False)"
      using "2.IH"(3) [OF 3]
      by (cases bs; cases "tl bs") (auto simp: utf8_runs utf8_run_Nil simp del: utf8_run.simps)
    then show ?thesis using 3 by (simp only: utf8_byte_range utf8_valid.simps simp_thms if_True if_False)
  next
    case 4
    have "(if b = 0xf0 then ?r 72 bs else if b = 0xf4 then ?r 96 bs else ?r 84 bs) \<longleftrightarrow>
      (case bs of b1 # b2 # b3 # bs' \<Rightarrow> utf8_tail b1 \<and> (b = 0xf0 \<longrightarrow> 0x90 \<le> b1) \<and> (b = 0xf4 \<longrightarrow> b1 \<le> 0x8f) \<and>
        utf8_tail b2 \<and> utf8_tail b3 \<and> ?v bs' | _ \<Rightarrow> False)"
      using "2.IH"(4) [OF 4]
      by (cases bs; cases "tl bs"; cases "tl (tl bs)") (auto simp: utf8_runs utf8_run_Nil simp del: utf8_run.simps)
    then show ?thesis using 4 by (simp only: utf8_byte_range utf8_valid.simps simp_thms if_True if_False)
  next
    case 5
    then show ?thesis by (auto simp: utf8_byte_range simp del: utf8_run.simps)
  qed
qed (simp add: UTF8_ACCEPT_def)

section \<open>States\<close>

lemma decode_plain: "c \<le> 0x7f \<Longrightarrow> utf8_decode 0 c = 0"
  by (simp add: utf8_decode_accept)

lemma decode_plain_inside: "c \<le> 0x7f \<Longrightarrow> utf8_run state (c # bs) \<Longrightarrow> state \<in> {24, 36, 48, 60, 72, 84, 96} \<Longrightarrow> False"
  by (auto simp: utf8_runs utf8_tail_def word_le_nat_alt simp del: utf8_run.simps)

definition utf8_states :: "u32 set" where
  "utf8_states = {0, 24, 36, 48, 60, 72, 84, 96}"

lemma utf8_decode_states:
  "state \<in> utf8_states \<Longrightarrow> utf8_decode state b \<noteq> UTF8_REJECT \<Longrightarrow> utf8_decode state b \<in> utf8_states"
proof -
  have z: "utf8_decode 0 b \<in> insert 12 utf8_states" by (simp add: utf8_decode_accept utf8_states_def)
  assume "state \<in> utf8_states"
  then have "utf8_decode state b \<in> insert 12 utf8_states"
    unfolding utf8_states_def
    by (elim insertE emptyE) (use z in \<open>simp_all add: utf8_states_def utf8_decode_24 utf8_decode_36 utf8_decode_48
      utf8_decode_60 utf8_decode_72 utf8_decode_84 utf8_decode_96\<close>)
  then show "utf8_decode state b \<noteq> UTF8_REJECT \<Longrightarrow> utf8_decode state b \<in> utf8_states" by (simp add: UTF8_REJECT_def)
qed

text \<open>
  C24. The table of the UTF-8 automaton is right: fed byte by byte from the accepting state,
  \<open>utf8_decode\<close> never enters the rejecting state and ends in the accepting one exactly for the byte sequences that the
  grammar of RFC 3629 derives: no overlong form, no surrogate, nothing above U+10FFFF.
\<close>

theorem utf8_automaton_exact: "utf8_run UTF8_ACCEPT bs \<longleftrightarrow> utf8_valid bs"
  by (simp add: utf8_run_iff UTF8_ACCEPT_def)

end
