(* ===== verification/Sfparse_Value.thy ===== *)
theory Sfparse_Value
  imports Sfparse_Correct Sfparse_Utf8
begin

text \<open>
  Structured field values as data (RFC 9651, section 3) and the serialization of bare items (section
  4.1): the functions of sfparse.c that scan a bare item, and those that decode it, invert it.
\<close>

unbundle bit_operations_syntax

section \<open>Values\<close>

datatype sf_bare =
    Sf_Boolean bool | Sf_Integer int | Sf_Decimal int int | Sf_String bytes | Sf_Token bytes
  | Sf_Bytes bytes | Sf_Date int | Sf_Display bytes

type_synonym sf_params = "(bytes \<times> sf_bare) list"

type_synonym sf_item = "sf_bare \<times> sf_params"

datatype sf_member = Sf_Item sf_item | Sf_Inner_List "sf_item list" sf_params

type_synonym sf_dict = "(bytes \<times> sf_member) list"


section \<open>Serialization\<close>

subsection \<open>Strings\<close>

definition printable :: "u8 \<Rightarrow> bool" where
  "printable c \<longleftrightarrow> 0x20 \<le> c \<and> c \<le> 0x7e"

definition escape :: "u8 \<Rightarrow> bytes" where
  "escape c = (if c = CH_QUOTE \<or> c = CH_BACKSLASH then [CH_BACKSLASH, c] else [c])"

definition ser_chars :: "bytes \<Rightarrow> bytes" where
  "ser_chars s = concat (map escape s)"

lemma ser_chars_simps [simp]:
  "ser_chars [] = []" "ser_chars (c # s) = escape c @ ser_chars s"
  by (simp_all add: ser_chars_def)

lemma printable_classes:
  "printable c \<longleftrightarrow> X20_21_CASES c \<or> X23_5B_CASES c \<or> X5D_7E_CASES c \<or> c = CH_QUOTE \<or> c = CH_BACKSLASH"
  by (auto simp: printable_def X20_21_CASES_def X23_5B_CASES_def X5D_7E_CASES_def word_le_nat_alt word_unat_eq_iff)

lemma escape_classes:
  "\<not> X20_21_CASES CH_QUOTE" "\<not> X23_5B_CASES CH_QUOTE" "\<not> X5D_7E_CASES CH_QUOTE"
  "\<not> X20_21_CASES CH_BACKSLASH" "\<not> X23_5B_CASES CH_BACKSLASH" "\<not> X5D_7E_CASES CH_BACKSLASH"
  by (simp_all add: X20_21_CASES_def X23_5B_CASES_def X5D_7E_CASES_def)

definition needs_escape :: "bytes \<Rightarrow> bool" where
  "needs_escape s \<longleftrightarrow> CH_QUOTE \<in> set s \<or> CH_BACKSLASH \<in> set s"

lemma string_loop_ser:
  "list_all printable s \<Longrightarrow>
    string_loop flags (ser_chars s @ CH_QUOTE # rest) =
      (Inr (if needs_escape s then SFPARSE_VALUE_FLAG_ESCAPED_STRING else flags), CH_QUOTE # rest)"
  by (induction s arbitrary: flags) (auto simp: escape_def escape_classes printable_classes needs_escape_def)

lemma unescape_plain:
  assumes "CH_BACKSLASH \<notin> set s"
  shows "sfparse_unescape s = Some s"
proof -
  have "dropWhile (\<lambda>c. c \<noteq> CH_BACKSLASH) s = []" using assms by (auto simp: dropWhile_eq_Nil_conv)
  then show ?thesis unfolding sfparse_unescape.simps [of s] by (simp only: list.case)
qed

lemma unescape_append:
  "CH_BACKSLASH \<notin> set s \<Longrightarrow>
    sfparse_unescape (s @ CH_BACKSLASH # c # rest) = map_option (\<lambda>out. s @ c # out) (sfparse_unescape rest)"
  by (subst sfparse_unescape.simps) (simp add: dropWhile_append takeWhile_append split: list.split)

lemma unescape_ser_from: "CH_BACKSLASH \<notin> set p \<Longrightarrow> sfparse_unescape (p @ ser_chars s) = Some (p @ s)"
proof (induction s arbitrary: p)
  case (Cons c s)
  show ?case
  proof (cases "c = CH_QUOTE \<or> c = CH_BACKSLASH")
    case True
    then show ?thesis using Cons.IH [of "[]"] Cons.prems by (simp add: escape_def unescape_append)
  next
    case False
    then show ?thesis using Cons.IH [of "p @ [c]"] Cons.prems by (simp add: escape_def)
  qed
qed (simp add: unescape_plain)

lemma unescape_ser: "sfparse_unescape (ser_chars s) = Some s"
  using unescape_ser_from [of "[]"] by simp

lemma ser_chars_plain: "\<not> needs_escape s \<Longrightarrow> ser_chars s = s"
  by (induction s) (auto simp: needs_escape_def escape_def)

subsection \<open>Display strings\<close>

definition hex_char :: "nat \<Rightarrow> u8" where
  "hex_char n = (if n < 10 then CH_0 + word_of_nat n else CH_a + word_of_nat (n - 10))"

definition pct :: "u8 \<Rightarrow> bytes" where
  "pct c = (if printable c \<and> c \<noteq> CH_PERCENT \<and> c \<noteq> CH_QUOTE then [c]
            else [CH_PERCENT, hex_char (unat c div 16), hex_char (unat c mod 16)])"

definition ser_display :: "bytes \<Rightarrow> bytes" where
  "ser_display s = concat (map pct s)"

lemma ser_display_simps [simp]:
  "ser_display [] = []" "ser_display (c # s) = pct c @ ser_display s"
  by (simp_all add: ser_display_def)

lemma hex_value_hex_char:
  assumes "n < 16"
  shows "hex_value (hex_char n) = Some (word_of_nat n)"
proof -
  have "list_all (\<lambda>n. hex_value (hex_char n) = Some (word_of_nat n)) [0..<16]" by code_simp
  then show ?thesis using assms by (simp add: list_all_iff)
qed

lemma high_or_low: "push_bit k (drop_bit k c) OR take_bit k c = (c :: u8)"
  by (rule bit_word_eqI) (auto simp: bit_simps not_less)

lemma hex_pair: "push_bit 4 (word_of_nat (unat c div 16)) OR word_of_nat (unat c mod 16) = (c :: u8)"
proof -
  have "unat c div 16 < 256" using unat_u8_lt [of c] by linarith
  then have "word_of_nat (unat c div 16) = drop_bit 4 c"
    by (simp add: word_unat_eq_iff unat_drop_bit_eq drop_bit_eq_div [where 'a = nat] unat_of_nat)
  moreover have "word_of_nat (unat c mod 16) = take_bit 4 c"
    by (simp add: word_unat_eq_iff unsigned_take_bit_eq take_bit_eq_mod [where 'a = nat] unat_of_nat)
  moreover have "push_bit 4 (drop_bit 4 c) OR take_bit 4 c = c"
    by (rule high_or_low)
  ultimately show ?thesis by simp
qed

lemma pctdecode_hex: "pctdecode (hex_char (unat c div 16) # hex_char (unat c mod 16) # rest) = Some (Some c, rest)"
proof -
  have "unat c div 16 < 16" using unat_u8_lt [of c] by linarith
  then show ?thesis by (simp add: pctdecode_def hex_value_hex_char hex_pair)
qed

lemma dispstring_loop_ser:
  "state \<in> utf8_states \<Longrightarrow> utf8_run state s \<Longrightarrow>
    dispstring_loop state (ser_display s @ CH_QUOTE # rest) = Some (Inr (), CH_QUOTE # rest)"
proof (induction s arbitrary: state)
  case Nil
  then show ?case by (simp add: X00_1F_CASES_def X7F_FF_CASES_def)
next
  case (Cons c s)
  have r: "utf8_decode state c \<noteq> UTF8_REJECT" "utf8_run (utf8_decode state c) s" using Cons.prems(2) by simp_all
  have st: "utf8_decode state c \<in> utf8_states" using utf8_decode_states [OF Cons.prems(1) r(1)] .
  note IH = Cons.IH [OF st r(2)]
  show ?case
  proof (cases "printable c \<and> c \<noteq> CH_PERCENT \<and> c \<noteq> CH_QUOTE")
    case True
    then have c: "c \<le> 0x7f" "\<not> X00_1F_CASES c" "\<not> X7F_FF_CASES c"
      by (auto simp: printable_def X00_1F_CASES_def X7F_FF_CASES_def word_le_nat_alt)
    have "state = 0"
      using Cons.prems decode_plain_inside [OF c(1) Cons.prems(2)] by (auto simp: utf8_states_def)
    then show ?thesis using IH True c by (simp add: pct_def decode_plain UTF8_ACCEPT_def)
  next
    case False
    have "\<not> X00_1F_CASES CH_PERCENT" "\<not> X7F_FF_CASES CH_PERCENT" by (simp_all add: X00_1F_CASES_def X7F_FF_CASES_def)
    then show ?thesis using False IH r(1) by (auto simp: pct_def pctdecode_hex)
  qed
qed

lemma pctdecode_plain:
  assumes "CH_PERCENT \<notin> set s"
  shows "sfparse_pctdecode s = Some s"
proof -
  have "dropWhile (\<lambda>c. c \<noteq> CH_PERCENT) s = []" using assms by (auto simp: dropWhile_eq_Nil_conv)
  then show ?thesis unfolding sfparse_pctdecode.simps [of s] by (simp only: list.case)
qed

lemma pctdecode_append:
  "CH_PERCENT \<notin> set s \<Longrightarrow> pctdecode p = Some (Some c, rest) \<Longrightarrow>
    sfparse_pctdecode (s @ CH_PERCENT # p) = map_option (\<lambda>out. s @ c # out) (sfparse_pctdecode rest)"
  by (subst sfparse_pctdecode.simps) (simp add: dropWhile_append takeWhile_append)

lemma pctdecode_ser_from: "CH_PERCENT \<notin> set p \<Longrightarrow> sfparse_pctdecode (p @ ser_display s) = Some (p @ s)"
proof (induction s arbitrary: p)
  case (Cons c s)
  show ?case
  proof (cases "printable c \<and> c \<noteq> CH_PERCENT \<and> c \<noteq> CH_QUOTE")
    case True
    then show ?thesis using Cons.IH [of "p @ [c]"] Cons.prems by (simp add: pct_def)
  next
    case False
    then show ?thesis
      using Cons.IH [of "[]"] Cons.prems pctdecode_append [OF Cons.prems pctdecode_hex [of c "ser_display s"]]
      by (auto simp: pct_def)
  qed
qed (simp add: pctdecode_plain)

lemma pctdecode_ser: "sfparse_pctdecode (ser_display s) = Some s"
  using pctdecode_ser_from [of "[]"] by simp

subsection \<open>Byte sequences\<close>

definition base64_char :: "nat \<Rightarrow> u8" where
  "base64_char n =
     (if n < 26 then 0x41 + word_of_nat n
      else if n < 52 then CH_a + word_of_nat (n - 26)
      else if n < 62 then CH_0 + word_of_nat (n - 52)
      else if n = 62 then CH_PLUS else CH_SLASH)"

fun base64_encode :: "bytes \<Rightarrow> bytes" where
  "base64_encode [] = []"
| "base64_encode [a] =
     [base64_char (unat a div 4), base64_char (unat a mod 4 * 16), CH_EQ, CH_EQ]"
| "base64_encode [a, b] =
     [base64_char (unat a div 4), base64_char (unat a mod 4 * 16 + unat b div 16),
      base64_char (unat b mod 16 * 4), CH_EQ]"
| "base64_encode (a # b # c # s) =
     base64_char (unat a div 4) # base64_char (unat a mod 4 * 16 + unat b div 16) #
     base64_char (unat b mod 16 * 4 + unat c div 64) # base64_char (unat c mod 64) # base64_encode s"

lemma base64_char_index:
  assumes "n < 64"
  shows "base64_index (base64_char n) = Some (int n)" and "base64_char n \<noteq> CH_EQ"
    and "base64_char n = CH_PLUS \<or> base64_char n = CH_SLASH \<or> DIGIT_CASES (base64_char n) \<or> ALPHA_CASES (base64_char n)"
proof -
  have "list_all (\<lambda>n. base64_index (base64_char n) = Some (int n) \<and> base64_char n \<noteq> CH_EQ \<and>
     (base64_char n = CH_PLUS \<or> base64_char n = CH_SLASH \<or> DIGIT_CASES (base64_char n) \<or> ALPHA_CASES (base64_char n)))
     [0..<64]" by code_simp
  then show "base64_index (base64_char n) = Some (int n)" and "base64_char n \<noteq> CH_EQ"
    and "base64_char n = CH_PLUS \<or> base64_char n = CH_SLASH \<or> DIGIT_CASES (base64_char n) \<or> ALPHA_CASES (base64_char n)"
    using assms by (simp_all add: list_all_iff)
qed

lemma sextets:
  "unat (a :: u8) div 4 < 64" "unat (a :: u8) mod 4 * 16 < 64" "unat (b :: u8) mod 16 * 4 < 64"
  "unat (a :: u8) mod 4 * 16 + unat (b :: u8) div 16 < 64" "unat (b :: u8) mod 16 * 4 + unat (c :: u8) div 64 < 64"
  "unat (c :: u8) mod 64 < 64"
  using unat_u8_lt [of a] unat_u8_lt [of b] unat_u8_lt [of c] by (simp_all; linarith)+

text \<open>A group of three bytes is one number below \<open>2 ^ 24\<close>.\<close>

lemma sextets_value:
  "int (a div 4) * 2 ^ 18 + int (a mod 4 * 16 + b div 16) * 2 ^ 12 + int (b mod 16 * 4 + c div 64) * 2 ^ 6 + int (c mod 64)
   = int (a * 65536 + b * 256 + c)"
proof -
  have "int a = int (a div 4) * 4 + int (a mod 4)" "int b = int (b div 16) * 16 + int (b mod 16)"
    "int c = int (c div 64) * 64 + int (c mod 64)"
    by (simp_all add: zdiv_int zmod_int)
  then show ?thesis unfolding of_nat_add of_nat_mult of_nat_numeral by simp
qed

lemma group_bytes:
  fixes a b c :: u8
  defines "n \<equiv> word_of_nat (unat a * 65536 + unat b * 256 + unat c) :: u32"
  shows "ucast (drop_bit 16 n) = a" and "ucast (drop_bit 8 n AND 0xff) = b" and "ucast (n AND 0xff) = c"
proof -
  have l: "unat a < 256" "unat b < 256" "unat c < 256" by simp_all
  have "unat n = (unat a * 65536 + unat b * 256 + unat c) mod 2 ^ LENGTH(32)" unfolding n_def by (rule unat_of_nat)
  then have n: "unat n = unat a * 65536 + unat b * 256 + unat c" using l by simp
  have m: "x AND 0xff = take_bit 8 x" for x :: u32 by (simp add: take_bit_eq_mask mask_eq_exp_minus_1)
  have d: "(A * 65536 + B * 256 + C) div 65536 = A \<and> (A * 65536 + B * 256 + C) div 256 mod 256 = B \<and>
    (A * 65536 + B * 256 + C) mod 256 = C" if "A < 256" "B < 256" "C < 256" for A B C :: nat
  proof -
    have "B * 256 + C < 65536" using that by linarith
    then have "(A * 65536 + B * 256 + C) div 65536 = A" by (simp add: add.assoc)
    moreover have e: "A * 65536 + B * 256 + C = C + (A * 256 + B) * 256" by simp
    have "(A * 65536 + B * 256 + C) div 256 = A * 256 + B" unfolding e using that by (subst div_mult_self1) simp_all
    moreover have "(A * 65536 + B * 256 + C) mod 256 = C" unfolding e using that by (subst mod_mult_self1) simp
    ultimately show ?thesis using that by simp
  qed
  note D = d [OF l]
  show "ucast (drop_bit 16 n) = a" using D
    by (simp add: word_unat_eq_iff unsigned_ucast_eq take_bit_eq_mod [where 'a = nat] unat_drop_bit_eq
        drop_bit_eq_div [where 'a = nat] n)
  show "ucast (drop_bit 8 n AND 0xff) = b" using D
    by (simp add: m word_unat_eq_iff unsigned_ucast_eq unsigned_take_bit_eq take_bit_eq_mod [where 'a = nat]
        unat_drop_bit_eq drop_bit_eq_div [where 'a = nat] n)
  show "ucast (n AND 0xff) = c" using D
    by (simp add: m word_unat_eq_iff unsigned_ucast_eq unsigned_take_bit_eq take_bit_eq_mod [where 'a = nat] n)
qed

lemma base64_groups_four:
  "base64_groups (base64_char (unat a div 4) # base64_char (unat a mod 4 * 16 + unat b div 16) #
     base64_char (unat b mod 16 * 4 + unat c div 64) # base64_char (unat c mod 64) # p) =
   map_option (\<lambda>out. a # b # c # out) (base64_groups p)"
proof -
  have "word_of_int (int (unat a div 4) * 2 ^ 18) + word_of_int (int (unat a mod 4 * 16 + unat b div 16) * 2 ^ 12) +
     word_of_int (int (unat b mod 16 * 4 + unat c div 64) * 2 ^ 6) + word_of_int (int (unat c mod 64)) =
     (word_of_nat (unat a * 65536 + unat b * 256 + unat c) :: u32)"
    using arg_cong [OF sextets_value [of "unat a" "unat b" "unat c"], of "word_of_int :: int \<Rightarrow> u32"]
    by (simp only: of_int_add of_int_of_nat_eq)
  then show ?thesis by (simp only: base64_groups.simps base64_char_index(1) sextets option.case prod.case Let_def group_bytes)
qed

lemma base64_encode_split:
  obtains s t where "ds = s @ t" "base64_encode ds = base64_encode s @ base64_encode t" "length t < 3"
    "\<And>p. base64_groups (base64_encode s @ p) = map_option (\<lambda>out. s @ out) (base64_groups p)"
    "length (base64_encode s) mod 4 = 0" "s \<noteq> [] \<Longrightarrow> last (base64_encode s) \<noteq> CH_EQ" "s \<noteq> [] \<Longrightarrow> base64_encode s \<noteq> []"
proof (induction ds arbitrary: thesis rule: base64_encode.induct)
  case 1
  then show ?case by (auto simp: option.map_ident)
next
  case (2 a)
  show ?case by (rule 2 [of "[]" "[a]"]) (simp_all add: option.map_ident)
next
  case (3 a b)
  show ?case by (rule 3 [of "[]" "[a, b]"]) (simp_all add: option.map_ident)
next
  case (4 a b c ds)
  obtain s t where s: "ds = s @ t" "base64_encode ds = base64_encode s @ base64_encode t" "length t < 3"
    "\<And>p. base64_groups (base64_encode s @ p) = map_option (\<lambda>out. s @ out) (base64_groups p)"
    "length (base64_encode s) mod 4 = 0" "s \<noteq> [] \<Longrightarrow> last (base64_encode s) \<noteq> CH_EQ" "s \<noteq> [] \<Longrightarrow> base64_encode s \<noteq> []"
    using 4(1) by blast
  show ?case
  proof (rule 4(2) [of "a # b # c # s" t])
    show "a # b # c # ds = (a # b # c # s) @ t" using s(1) by simp
    show "base64_encode (a # b # c # ds) = base64_encode (a # b # c # s) @ base64_encode t" using s(2) by simp
    show "length t < 3" by (rule s(3))
    show "base64_groups (base64_encode (a # b # c # s) @ p) = map_option (\<lambda>out. (a # b # c # s) @ out) (base64_groups p)" for p
      by (simp add: base64_groups_four s(4) option.map_comp comp_def del: base64_groups.simps)
    show "length (base64_encode (a # b # c # s)) mod 4 = 0" using s(5) by simp
    show "last (base64_encode (a # b # c # s)) \<noteq> CH_EQ"
      using s(6,7) base64_char_index(2) [OF sextets(6) [of c]] by (cases "s = []") simp_all
    show "base64_encode (a # b # c # s) \<noteq> []" by simp
  qed
qed

lemma base64_tail_bytes:
  "word_of_int (int (unat a div 4) * 4) OR word_of_int (int (unat a mod 4 * 16) div 16) = (a :: u8)"
  "word_of_int (int (unat a div 4) * 4) OR word_of_int (int (unat a mod 4 * 16 + unat (b :: u8) div 16) div 16) = (a :: u8)"
proof -
  have m: "unat a mod 4 * 16 div 16 = unat a mod 4" "(unat a mod 4 * 16 + unat b div 16) div 16 = unat a mod 4"
    using unat_u8_lt [of b] by (simp_all add: less_mult_imp_div_less)
  have hi: "word_of_int (int (unat a div 4) * 4) = push_bit 2 (drop_bit 2 a)"
  proof -
    have "int (unat a div 4) * 4 = int (unat a div 4 * 4)" by simp
    then have "word_of_int (int (unat a div 4) * 4) = (word_of_nat (unat a div 4 * 4) :: u8)" by (simp only: of_int_of_nat_eq)
    also have "\<dots> = word_of_nat (unat a div 4) * 4" by simp
    also have "word_of_nat (unat a div 4) = drop_bit 2 a"
      using le_less_trans [OF div_le_dividend unat_u8_lt, of a 4]
      by (simp add: word_unat_eq_iff unat_drop_bit_eq drop_bit_eq_div [where 'a = nat] unat_of_nat)
    finally show ?thesis by (simp add: push_bit_eq_mult)
  qed
  have lo: "word_of_int (int (unat a mod 4)) = take_bit 2 a"
    by (simp add: word_unat_eq_iff unsigned_take_bit_eq take_bit_eq_mod [where 'a = nat] unat_of_nat)
  have c: "push_bit 2 (drop_bit 2 a) OR take_bit 2 a = a" by (rule high_or_low)
  have d: "int x div 16 = int (x div 16)" for x by (simp add: zdiv_int)
  show "word_of_int (int (unat a div 4) * 4) OR word_of_int (int (unat a mod 4 * 16) div 16) = a"
    by (simp only: d m hi lo c)
  show "word_of_int (int (unat a div 4) * 4) OR word_of_int (int (unat a mod 4 * 16 + unat b div 16) div 16) = a"
    by (simp only: d m hi lo c)
qed

lemma base64_rest_two:
  "base64_rest 2 (base64_char (unat a div 4) # base64_char (unat a mod 4 * 16) # p) = Some [a]"
  using base64_tail_bytes(1) [of a]
  by (simp add: base64_rest_def base64_char_index(1) [OF sextets(1)] base64_char_index(1) [OF sextets(2)])

lemma base64_rest_three:
  "base64_rest 3 (base64_char (unat a div 4) # base64_char (unat a mod 4 * 16 + unat b div 16) #
     base64_char (unat b mod 16 * 4) # p) = Some [a, b]"
proof -
  have e: "int (unat a div 4) * 2 ^ 10 + int (unat a mod 4 * 16 + unat b div 16) * 2 ^ 4 + int (unat b mod 16 * 4) div 2 ^ 2
    = int (0 * 65536 + unat a * 256 + unat b)"
  proof -
    have "int (unat a) = int (unat a div 4) * 4 + int (unat a mod 4)" "int (unat b) = int (unat b div 16) * 16 + int (unat b mod 16)"
      by (simp_all add: zdiv_int zmod_int)
    then show ?thesis unfolding of_nat_add of_nat_mult of_nat_numeral by simp
  qed
  have "word_of_int (int (unat a div 4) * 2 ^ 10) + word_of_int (int (unat a mod 4 * 16 + unat b div 16) * 2 ^ 4) +
     word_of_int (int (unat b mod 16 * 4) div 2 ^ 2) = (word_of_nat (unat (0 :: u8) * 65536 + unat a * 256 + unat b) :: u32)"
    using arg_cong [OF e, of "word_of_int :: int \<Rightarrow> u32"] by (simp only: of_int_add of_int_of_nat_eq unsigned_0)
  then show ?thesis using group_bytes(2,3) [of 0 a b]
    by (simp add: base64_rest_def base64_char_index(1) sextets Let_def del: of_int_add of_int_mult of_nat_add of_nat_mult)
qed

lemma base64_decode_encode: "sfparse_base64decode (base64_encode ds) = Some ds"
proof -
  obtain s t where s: "ds = s @ t" "base64_encode ds = base64_encode s @ base64_encode t" "length t < 3"
    "\<And>p. base64_groups (base64_encode s @ p) = map_option (\<lambda>out. s @ out) (base64_groups p)"
    "length (base64_encode s) mod 4 = 0" "s \<noteq> [] \<Longrightarrow> last (base64_encode s) \<noteq> CH_EQ" "s \<noteq> [] \<Longrightarrow> base64_encode s \<noteq> []"
    using base64_encode_split [of ds] by blast
  let ?e = "base64_encode s"
  have g: "base64_groups ?e = Some s" using s(4) [of "[]"] by simp
  have m: "(length ?e + 4) mod 4 = 0" using s(5) by simp
  consider "t = []" | a where "t = [a]" | a b where "t = [a, b]"
  proof -
    have "t = [] \<or> (\<exists>a. t = [a]) \<or> (\<exists>a b. t = [a, b])" using s(3) by (cases t; cases "tl t") auto
    then show thesis using that by blast
  qed
  then show ?thesis
  proof cases
    case 1
    show ?thesis
    proof (cases "s = []")
      case False
      then have "?e ! (length ?e - 1) \<noteq> CH_EQ" "?e \<noteq> []" using s(6,7) by (simp_all add: last_conv_nth)
      then show ?thesis using 1 s(1,2,5) g by (simp add: sfparse_base64decode_def base64_rest_def)
    qed (use 1 s(1,2) in \<open>simp add: sfparse_base64decode_def\<close>)
  next
    case (2 a)
    have e: "base64_encode ds = ?e @ [base64_char (unat a div 4), base64_char (unat a mod 4 * 16), CH_EQ, CH_EQ]"
      using s(2) 2 by simp
    show ?thesis unfolding e sfparse_base64decode_def
      using m g by (simp add: Let_def nth_append base64_rest_two s(1) 2)
  next
    case (3 a b)
    have e: "base64_encode ds = ?e @ [base64_char (unat a div 4), base64_char (unat a mod 4 * 16 + unat b div 16),
        base64_char (unat b mod 16 * 4), CH_EQ]"
      using s(2) 3 by simp
    show ?thesis unfolding e sfparse_base64decode_def
      using m g base64_char_index(2) [OF sextets(3) [of b]] by (simp add: Let_def nth_append base64_rest_three s(1) 3)
  qed
qed

lemma byteseq_loop_char:
  "k < 64 \<Longrightarrow> byteseq_loop n (base64_char k # bs) = byteseq_loop (n + 1) bs"
  using base64_char_index(3) [of k] by (auto simp del: One_nat_def)

lemma byteseq_loop_encode:
  "n mod 4 = 0 \<Longrightarrow> byteseq_loop n (base64_encode ds @ CH_COLON # rest) = (Inr (), CH_COLON # rest)"
proof (induction ds arbitrary: n rule: base64_encode.induct)
  case 1
  then show ?case by (simp add: DIGIT_CASES_def ALPHA_CASES_def UCALPHA_CASES_def LCALPHA_CASES_def)
next
  case (2 a)
  have n: "(n + 1 + 1) mod 4 = 2" using 2 by presburger
  have e: "\<not> DIGIT_CASES CH_EQ" "\<not> ALPHA_CASES CH_EQ"
    by (simp_all add: DIGIT_CASES_def ALPHA_CASES_def UCALPHA_CASES_def LCALPHA_CASES_def)
  show ?case using n
    by (simp add: byteseq_loop_char sextets e del: byteseq_loop.simps) (simp add: e)
next
  case (3 a b)
  have n: "(n + 1 + 1 + 1) mod 4 = 3" using 3 by presburger
  have e: "\<not> DIGIT_CASES CH_EQ" "\<not> ALPHA_CASES CH_EQ"
    by (simp_all add: DIGIT_CASES_def ALPHA_CASES_def UCALPHA_CASES_def LCALPHA_CASES_def)
  show ?case using n
    by (simp add: byteseq_loop_char sextets e del: byteseq_loop.simps) (simp add: e)
next
  case (4 a b c s)
  have n: "(n + 1 + 1 + 1 + 1) mod 4 = 0" using 4(2) by presburger
  show ?case using 4(1) [OF n] by (simp add: byteseq_loop_char sextets del: byteseq_loop.simps)
qed

subsection \<open>Numbers\<close>

definition digit :: "nat \<Rightarrow> u8" where
  "digit n = CH_0 + word_of_nat n"

fun dec :: "nat \<Rightarrow> bytes" where
  "dec n = (if n < 10 then [digit n] else dec (n div 10) @ [digit (n mod 10)])"

declare dec.simps [simp del]

fun fraction :: "nat \<Rightarrow> nat \<Rightarrow> bytes" where
  "fraction 0 n = []"
| "fraction (Suc k) n = fraction k (n div 10) @ [digit (n mod 10)]"

lemma digit_value:
  assumes "n < 10"
  shows "DIGIT_CASES (digit n)" and "uint (digit n) = int n + 0x30"
proof -
  have "list_all (\<lambda>n. DIGIT_CASES (digit n) \<and> uint (digit n) = int n + 0x30) [0..<10]" by code_simp
  then show "DIGIT_CASES (digit n)" and "uint (digit n) = int n + 0x30" using assms by (simp_all add: list_all_iff)
qed

definition digits_value :: "int \<Rightarrow> bytes \<Rightarrow> int" where
  "digits_value v ds = foldl (\<lambda>v c. v * 10 + (uint c - 0x30)) v ds"

lemma digits_value_simps [simp]:
  "digits_value v [] = v" "digits_value v (c # ds) = digits_value (v * 10 + (uint c - 0x30)) ds"
  "digits_value v (ds @ es) = digits_value (digits_value v ds) es"
  by (simp_all add: digits_value_def)

lemma dec_digits: "list_all DIGIT_CASES (dec n) \<and> digits_value 0 (dec n) = int n \<and> dec n \<noteq> []"
proof (induction n rule: dec.induct)
  case (1 n)
  have "int (n div 10) * 10 + int (n mod 10) = int n" by (simp add: zdiv_int zmod_int)
  then show ?case using 1 digit_value [of "n mod 10"] digit_value [of n] by (subst (1 2 3) dec.simps) auto
qed

lemma dec_length: "n < 10 ^ k \<Longrightarrow> 0 < k \<Longrightarrow> length (dec n) \<le> k"
proof (induction k arbitrary: n)
  case (Suc k)
  show ?case
  proof (cases "n < 10")
    case False
    then have "0 < k" using Suc.prems by (cases k) simp_all
    moreover have "n div 10 < 10 ^ k" using Suc.prems by (simp add: less_mult_imp_div_less mult.commute)
    ultimately show ?thesis using Suc.IH False by (subst dec.simps) simp
  qed (subst dec.simps, simp)
qed simp

lemma fraction_digits:
  "n < 10 ^ k \<Longrightarrow> list_all DIGIT_CASES (fraction k n) \<and> length (fraction k n) = k \<and>
    digits_value v (fraction k n) = v * 10 ^ k + int n"
proof (induction k arbitrary: n)
  case (Suc k)
  have "n div 10 < 10 ^ k" using Suc.prems by (simp add: less_mult_imp_div_less mult.commute)
  note IH = Suc.IH [OF this]
  have "int (n div 10) * 10 + int (n mod 10) = int n" by (simp add: zdiv_int zmod_int)
  then show ?case using IH digit_value [of "n mod 10"] by (simp add: algebra_simps)
qed simp

definition no_digit :: "bytes \<Rightarrow> bool" where
  "no_digit rest \<longleftrightarrow> (case rest of [] \<Rightarrow> True | c # _ \<Rightarrow> \<not> DIGIT_CASES c)"

lemma number_digits_all:
  "list_all DIGIT_CASES ds \<Longrightarrow> len + length ds \<le> 15 \<Longrightarrow> no_digit rest \<Longrightarrow>
    number_digits len v (ds @ rest) = (Inr (len + length ds, digits_value v ds), rest)"
  by (induction ds arbitrary: len v) (auto simp: no_digit_def split: list.splits)

definition ser_sign :: "int \<Rightarrow> bytes" where
  "ser_sign n = (if n < 0 then [CH_MINUS] else [])"

definition ser_integer :: "int \<Rightarrow> bytes" where
  "ser_integer n = ser_sign n @ dec (nat \<bar>n\<bar>)"

definition places :: "int \<Rightarrow> nat" where
  "places denom = (if denom = 10 then 1 else if denom = 100 then 2 else 3)"

definition ser_decimal :: "int \<Rightarrow> int \<Rightarrow> bytes" where
  "ser_decimal numer denom =
     ser_sign numer @ dec (nat (\<bar>numer\<bar> div denom)) @ [CH_DOT] @ fraction (places denom) (nat (\<bar>numer\<bar> mod denom))"

definition integer_ok :: "int \<Rightarrow> bool" where
  "integer_ok n \<longleftrightarrow> \<bar>n\<bar> < 10 ^ 15"

definition decimal_ok :: "int \<Rightarrow> int \<Rightarrow> bool" where
  "decimal_ok numer denom \<longleftrightarrow> (denom = 10 \<or> denom = 100 \<or> denom = 1000) \<and> \<bar>numer\<bar> div denom < 10 ^ 12"

lemma minus_no_digit: "\<not> DIGIT_CASES CH_MINUS" "\<not> DIGIT_CASES CH_DOT"
  by (simp_all add: DIGIT_CASES_def)

lemma sign_digits:
  assumes "list_all DIGIT_CASES ds" and "ds \<noteq> []"
  shows "at_char CH_MINUS (ser_sign n @ ds @ rest) \<longleftrightarrow> n < 0"
    and "(if n < 0 then tl (ser_sign n @ ds @ rest) else ser_sign n @ ds @ rest) = ds @ rest"
    and "ser_sign n @ ds @ rest \<noteq> []"
  using assms minus_no_digit by (cases ds; auto simp: ser_sign_def)+

lemma parser_number_integer:
  assumes "integer_ok n" and "no_digit rest" and "\<not> at_char CH_DOT rest"
  shows "parser_number (ser_integer n @ rest) = Some (Inr (TYPE_INTEGER n), rest)"
proof -
  let ?ds = "dec (nat \<bar>n\<bar>)"
  have d: "list_all DIGIT_CASES ?ds" "digits_value 0 ?ds = \<bar>n\<bar>" "?ds \<noteq> []" using dec_digits [of "nat \<bar>n\<bar>"] by simp_all
  have "nat \<bar>n\<bar> < 10 ^ 15" using assms(1) by (simp add: integer_ok_def nat_less_iff)
  then have l: "length ?ds \<le> 15" by (intro dec_length) simp_all
  have "\<bar>n\<bar> * (if n < 0 then - 1 else 1) = n" by simp
  then show ?thesis
    using d(3) l assms(3) number_digits_all [OF d(1), of 0 rest 0] assms(2)
    by (simp add: parser_number_def ser_integer_def sign_digits [OF d(1,3)] Let_def d(2) del: dec.simps)
qed

lemma parser_number_decimal:
  assumes "decimal_ok numer denom" and "no_digit rest"
  shows "parser_number (ser_decimal numer denom @ rest) = Some (Inr (TYPE_DECIMAL numer denom), rest)"
proof -
  let ?i = "nat (\<bar>numer\<bar> div denom)" and ?f = "nat (\<bar>numer\<bar> mod denom)" and ?k = "places denom"
  let ?ds = "dec ?i" and ?fs = "fraction ?k ?f"
  have den: "denom = 10 ^ ?k" "0 < denom" "1 \<le> ?k" "?k \<le> 3" using assms(1) by (auto simp: decimal_ok_def places_def)
  have d: "list_all DIGIT_CASES ?ds" "digits_value 0 ?ds = \<bar>numer\<bar> div denom" "?ds \<noteq> []"
    using dec_digits [of ?i] den(2) by (simp_all add: pos_imp_zdiv_nonneg_iff)
  have "?i < 10 ^ 12" using assms(1) den(2) by (auto simp: decimal_ok_def nat_less_iff pos_imp_zdiv_nonneg_iff)
  then have l: "length ?ds \<le> 12" by (intro dec_length) simp_all
  have "int ?f < int (10 ^ ?k)" using pos_mod_bound [OF den(2), of "\<bar>numer\<bar>"] den(1,2) by simp
  then have "?f < 10 ^ ?k" by (simp only: of_nat_less_iff)
  note f = fraction_digits [OF this, of "\<bar>numer\<bar> div denom"]
  have v: "\<bar>numer\<bar> div denom * 10 ^ ?k + int ?f = \<bar>numer\<bar>"
    using den(1,2) by (metis div_mult_mod_eq int_nat_eq pos_mod_sign)
  have n1: "number_digits 0 0 (?ds @ CH_DOT # ?fs @ rest) = (Inr (length ?ds, \<bar>numer\<bar> div denom), CH_DOT # ?fs @ rest)"
    using number_digits_all [OF d(1), of 0 "CH_DOT # ?fs @ rest" 0] l d(2) by (simp add: no_digit_def minus_no_digit)
  have n2: "number_digits (length ?ds) (\<bar>numer\<bar> div denom) (?fs @ rest) = (Inr (length ?ds + ?k, \<bar>numer\<bar>), rest)"
    using number_digits_all [of ?fs "length ?ds" rest] f l den(4) assms(2) v by simp
  have s: "\<bar>numer\<bar> * (if numer < 0 then - 1 else 1) = numer" by simp
  have k: "(if ?k = 1 then 10 else if ?k = 2 then 100 else 1000) = denom" using assms(1) by (auto simp: decimal_ok_def places_def)
  show ?thesis
    using d(3) l n1 n2 den(3,4) s
    by (simp add: parser_number_def ser_decimal_def sign_digits [OF d(1,3)] Let_def) (use k in \<open>auto split: if_split_asm\<close>)
qed

subsection \<open>Bare items\<close>

fun ser_bare :: "sf_bare \<Rightarrow> bytes" where
  "ser_bare (Sf_Boolean b) = [CH_QUESTION, if b then CH_1 else CH_0]"
| "ser_bare (Sf_Integer n) = ser_integer n"
| "ser_bare (Sf_Decimal numer denom) = ser_decimal numer denom"
| "ser_bare (Sf_String s) = CH_QUOTE # ser_chars s @ [CH_QUOTE]"
| "ser_bare (Sf_Token t) = t"
| "ser_bare (Sf_Bytes s) = CH_COLON # base64_encode s @ [CH_COLON]"
| "ser_bare (Sf_Date n) = CH_AT # ser_integer n"
| "ser_bare (Sf_Display s) = CH_PERCENT # CH_QUOTE # ser_display s @ [CH_QUOTE]"

definition token_ok :: "bytes \<Rightarrow> bool" where
  "token_ok t \<longleftrightarrow> t \<noteq> [] \<and> (hd t = CH_STAR \<or> ALPHA_CASES (hd t)) \<and> list_all TOKEN_CASES (tl t)"

definition key_ok :: "bytes \<Rightarrow> bool" where
  "key_ok k \<longleftrightarrow> k \<noteq> [] \<and> key_start (hd k) \<and> list_all key_char (tl k)"

fun bare_ok :: "sf_bare \<Rightarrow> bool" where
  "bare_ok (Sf_Boolean b) = True"
| "bare_ok (Sf_Integer n) = integer_ok n"
| "bare_ok (Sf_Decimal numer denom) = decimal_ok numer denom"
| "bare_ok (Sf_String s) = list_all printable s"
| "bare_ok (Sf_Token t) = token_ok t"
| "bare_ok (Sf_Bytes s) = True"
| "bare_ok (Sf_Date n) = integer_ok n"
| "bare_ok (Sf_Display s) = utf8_valid s"

text \<open>What the caller does with a value: the flags tell whether a string must be unescaped.\<close>

fun sf_decode :: "sfparse_value \<Rightarrow> sf_bare option" where
  "sf_decode (TYPE_BOOLEAN b) = Some (Sf_Boolean (b \<noteq> 0))"
| "sf_decode (TYPE_INTEGER n) = Some (Sf_Integer n)"
| "sf_decode (TYPE_DECIMAL numer denom) = Some (Sf_Decimal numer denom)"
| "sf_decode (TYPE_STRING flags vec) =
     (if flags AND SFPARSE_VALUE_FLAG_ESCAPED_STRING = 0 then Some (Sf_String vec)
      else map_option Sf_String (sfparse_unescape vec))"
| "sf_decode (TYPE_TOKEN vec) = Some (Sf_Token vec)"
| "sf_decode (TYPE_BYTESEQ vec) = map_option Sf_Bytes (sfparse_base64decode vec)"
| "sf_decode TYPE_INNER_LIST = None"
| "sf_decode (TYPE_DATE n) = Some (Sf_Date n)"
| "sf_decode (TYPE_DISPSTRING vec) = map_option Sf_Display (sfparse_pctdecode vec)"

text \<open>What can follow an item: the end, or a byte that starts the next part.\<close>

definition sf_stop :: "bytes \<Rightarrow> bool" where
  "sf_stop rest \<longleftrightarrow>
     (case rest of [] \<Rightarrow> True | c # _ \<Rightarrow> c = CH_SP \<or> c = CH_SEMICOLON \<or> c = CH_RPAREN \<or> c = CH_COMMA)"

lemma sf_stop_simps [simp]:
  "sf_stop []" "sf_stop (c # bs) \<longleftrightarrow> c = CH_SP \<or> c = CH_SEMICOLON \<or> c = CH_RPAREN \<or> c = CH_COMMA"
  by (simp_all add: sf_stop_def)

lemma sf_stop_cases:
  assumes "sf_stop rest"
  shows "no_digit rest" and "\<not> at_char CH_DOT rest" and "\<not> at_char CH_EQ rest" and "dropWhile TOKEN_CASES rest = rest"
    and "dropWhile key_char rest = rest"
  using assms
  by (cases rest; auto simp: no_digit_def DIGIT_CASES_def TOKEN_CASES_def UCALPHA_CASES_def LCALPHA_CASES_def key_char_def)+

lemma slice_append [simp]: "slice (xs @ ys) ys = xs" "slice (x # xs @ ys) ys = x # xs"
  by (simp_all add: slice_def Suc_diff_le)

lemma parser_key_ser:
  assumes "key_ok k" and "dropWhile key_char rest = rest"
  shows "parser_key (k @ rest) = Some (Inr k, rest)"
proof -
  obtain c cs where k: "k = c # cs" "key_start c" "list_all key_char cs"
    using assms(1) by (cases k) (auto simp: key_ok_def)
  have "dropWhile key_char (cs @ rest) = rest" using k(3) assms(2) by (simp add: dropWhile_append2 list_all_iff)
  then show ?thesis using k by (simp add: parser_key_def)
qed

lemma parser_token_ser:
  assumes "token_ok t" and "sf_stop rest"
  shows "parser_token (t @ rest) = Some (Inr (TYPE_TOKEN t), rest)"
proof -
  obtain c cs where t: "t = c # cs" "list_all TOKEN_CASES cs" using assms(1) by (cases t) (auto simp: token_ok_def)
  have "dropWhile TOKEN_CASES (cs @ rest) = rest"
    using t(2) sf_stop_cases(4) [OF assms(2)] by (simp add: dropWhile_append2 list_all_iff)
  then show ?thesis using t(1) by (simp add: parser_token_def)
qed

lemma number_start:
  "\<exists>c cs. ser_integer n @ rest = c # cs \<and> (c = CH_MINUS \<or> DIGIT_CASES c)"
  "\<exists>c cs. ser_decimal numer denom @ rest = c # cs \<and> (c = CH_MINUS \<or> DIGIT_CASES c)"
proof -
  have d: "\<exists>c cs. ser_sign n @ dec k @ rest = c # cs \<and> (c = CH_MINUS \<or> DIGIT_CASES c)" for n k rest
    using dec_digits [of k] by (cases "dec k") (auto simp: ser_sign_def)
  show "\<exists>c cs. ser_integer n @ rest = c # cs \<and> (c = CH_MINUS \<or> DIGIT_CASES c)"
    using d [of n "nat \<bar>n\<bar>" rest] by (simp add: ser_integer_def)
  show "\<exists>c cs. ser_decimal numer denom @ rest = c # cs \<and> (c = CH_MINUS \<or> DIGIT_CASES c)"
    using d [of numer "nat (\<bar>numer\<bar> div denom)"] by (simp add: ser_decimal_def)
qed

lemma number_start_char:
  "c = CH_MINUS \<or> DIGIT_CASES c \<Longrightarrow> parser_bare_item (c # cs) = parser_number (c # cs)"
  by (auto simp: parser_bare_item_def DIGIT_CASES_def)

lemma bare_item_start:
  "parser_bare_item (CH_QUOTE # bs) = parser_string (CH_QUOTE # bs)"
  "parser_bare_item (CH_AT # bs) = parser_date (CH_AT # bs)"
  "parser_bare_item (CH_COLON # bs) = parser_byteseq (CH_COLON # bs)"
  "parser_bare_item (CH_QUESTION # bs) = parser_boolean (CH_QUESTION # bs)"
  "parser_bare_item (CH_PERCENT # bs) = parser_dispstring (CH_PERCENT # bs)"
  "c = CH_STAR \<or> ALPHA_CASES c \<Longrightarrow> parser_bare_item (c # bs) = parser_token (c # bs)"
  by (auto simp: parser_bare_item_def DIGIT_CASES_def ALPHA_CASES_def UCALPHA_CASES_def LCALPHA_CASES_def word_le_nat_alt)

lemma parser_bare_item_ser:
  assumes "bare_ok b" and "sf_stop rest"
  shows "\<exists>v. parser_bare_item (ser_bare b @ rest) = Some (Inr v, rest) \<and> sf_decode v = Some b"
proof (cases b)
  case (Sf_Boolean x)
  then show ?thesis by (simp add: bare_item_start parser_boolean_def)
next
  case (Sf_Integer n)
  then show ?thesis using parser_number_integer [of n rest] assms sf_stop_cases [OF assms(2)] number_start(1) [of n rest]
    by (auto simp: number_start_char)
next
  case (Sf_Decimal numer denom)
  then show ?thesis using parser_number_decimal [of numer denom rest] assms sf_stop_cases [OF assms(2)]
      number_start(2) [of numer denom rest] by (auto simp: number_start_char)
next
  case (Sf_String s)
  let ?f = "if needs_escape s then SFPARSE_VALUE_FLAG_ESCAPED_STRING else SFPARSE_VALUE_FLAG_NONE"
  have "parser_string (CH_QUOTE # ser_chars s @ CH_QUOTE # rest) = Some (Inr (TYPE_STRING ?f (ser_chars s)), rest)"
    using string_loop_ser [of s SFPARSE_VALUE_FLAG_NONE rest] assms(1) Sf_String by (simp add: parser_string_def)
  then show ?thesis
    using Sf_String by (simp add: bare_item_start unescape_ser ser_chars_plain SFPARSE_VALUE_FLAG_NONE_def
        SFPARSE_VALUE_FLAG_ESCAPED_STRING_def)
next
  case (Sf_Token t)
  then obtain c cs where "t = c # cs" "c = CH_STAR \<or> ALPHA_CASES c" using assms(1) by (cases t) (auto simp: token_ok_def)
  then show ?thesis using parser_token_ser [of t rest] assms Sf_Token by (simp add: bare_item_start(6))
next
  case (Sf_Bytes s)
  have "parser_byteseq (CH_COLON # base64_encode s @ CH_COLON # rest) = Some (Inr (TYPE_BYTESEQ (base64_encode s)), rest)"
    using byteseq_loop_encode [of 0 s rest] by (simp add: parser_byteseq_def)
  then show ?thesis using Sf_Bytes by (simp add: bare_item_start base64_decode_encode)
next
  case (Sf_Date n)
  then show ?thesis using parser_number_integer [of n rest] assms sf_stop_cases [OF assms(2)] number_start(1) [of n rest]
    by (auto simp: bare_item_start parser_date_def)
next
  case (Sf_Display s)
  have "dispstring_loop UTF8_ACCEPT (ser_display s @ CH_QUOTE # rest) = Some (Inr (), CH_QUOTE # rest)"
    using dispstring_loop_ser [of 0 s rest] assms(1) Sf_Display by (simp add: utf8_run_iff utf8_states_def UTF8_ACCEPT_def)
  then have "parser_dispstring (CH_PERCENT # CH_QUOTE # ser_display s @ CH_QUOTE # rest) =
      Some (Inr (TYPE_DISPSTRING (ser_display s)), rest)"
    by (simp add: parser_dispstring_def)
  then show ?thesis using Sf_Display by (simp add: bare_item_start pctdecode_ser)
qed

end
