(* ===== verification/Sfparse_Client.thy ===== *)
theory Sfparse_Client
  imports Sfparse_Value
begin

text \<open>
  Clients of the structured field parser that read a whole field value through its calls, and the
  serialization of parameters, inner lists, lists and dictionaries (RFC 9651, section 4.1). The theorems:
  what is serialized is read back, what is read is well-formed, and a part that is skipped makes
  no difference to the rest.
\<close>

unbundle bit_operations_syntax

section \<open>Serialization of values with structure\<close>

definition ser_value :: "sf_bare \<Rightarrow> bytes" where
  "ser_value b = (if b = Sf_Boolean True then [] else CH_EQ # ser_bare b)"

definition ser_param :: "bytes \<times> sf_bare \<Rightarrow> bytes" where
  "ser_param p = CH_SEMICOLON # fst p @ ser_value (snd p)"

definition ser_params :: "sf_params \<Rightarrow> bytes" where
  "ser_params ps = concat (map ser_param ps)"

definition ser_item :: "sf_item \<Rightarrow> bytes" where
  "ser_item it = ser_bare (fst it) @ ser_params (snd it)"

fun ser_items :: "sf_item list \<Rightarrow> bytes" where
  "ser_items [] = []"
| "ser_items [it] = ser_item it"
| "ser_items (it # items) = ser_item it @ CH_SP # ser_items items"

fun ser_member :: "sf_member \<Rightarrow> bytes" where
  "ser_member (Sf_Item it) = ser_item it"
| "ser_member (Sf_Inner_List items ps) = CH_LPAREN # ser_items items @ CH_RPAREN # ser_params ps"

definition ser_dict_member :: "bytes \<times> sf_member \<Rightarrow> bytes" where
  "ser_dict_member km = fst km @
     (case snd km of
        Sf_Item (b, ps) \<Rightarrow> ser_value b @ ser_params ps
      | Sf_Inner_List items ps \<Rightarrow> CH_EQ # ser_member (Sf_Inner_List items ps))"

fun ser_list_with :: "('a \<Rightarrow> bytes) \<Rightarrow> 'a list \<Rightarrow> bytes" where
  "ser_list_with f [] = []"
| "ser_list_with f [x] = f x"
| "ser_list_with f (x # xs) = f x @ CH_COMMA # CH_SP # ser_list_with f xs"

definition ser_dict :: "sf_dict \<Rightarrow> bytes" where
  "ser_dict = ser_list_with ser_dict_member"

definition ser_list :: "sf_member list \<Rightarrow> bytes" where
  "ser_list = ser_list_with ser_member"

definition params_ok :: "sf_params \<Rightarrow> bool" where
  "params_ok ps \<longleftrightarrow> list_all (\<lambda>p. key_ok (fst p) \<and> bare_ok (snd p)) ps"

definition item_ok :: "sf_item \<Rightarrow> bool" where
  "item_ok it \<longleftrightarrow> bare_ok (fst it) \<and> params_ok (snd it)"

fun member_ok :: "sf_member \<Rightarrow> bool" where
  "member_ok (Sf_Item it) = item_ok it"
| "member_ok (Sf_Inner_List items ps) = (list_all item_ok items \<and> params_ok ps)"

definition dict_ok :: "sf_dict \<Rightarrow> bool" where
  "dict_ok d \<longleftrightarrow> list_all (\<lambda>km. key_ok (fst km) \<and> member_ok (snd km)) d"

section \<open>Clients\<close>

text \<open>What every call leaves of the input, whatever the state.\<close>

lemma inner_list_item_eof:
  "inner_list_item s = Some (Inl SFPARSE_ERR_EOF, s') \<Longrightarrow> suffix (sfp_data s') (sfp_data s)"
  by (auto simp: inner_list_item_def sf_bind_eq_Some on_pos_eq_Some parser_bare_item_no_eof split: if_split_asm)

lemma inner_list_after_eof:
  "inner_list_after s = Some (Inl SFPARSE_ERR_EOF, s') \<Longrightarrow> suffix (sfp_data s') (sfp_data s)"
  by (auto simp: inner_list_after_def Let_def discard_suffix split: if_split_asm
      dest!: inner_list_item_eof intro: suffix_order.trans)

lemma skip_params_no_eof: "parser_skip_params s \<noteq> Some (Inl SFPARSE_ERR_EOF, s')"
proof (induction s rule: parser_skip_params.induct)
  case (1 s)
  show ?case
    by (cases "param_in_params s" rule: sf_bind_cases)
      (use 1 in \<open>auto simp: parser_skip_params.simps [of s] split: sfparse_error.split\<close>)
qed

lemma inner_list_eof:
  "sfparse_parser_inner_list s = Some (Inl SFPARSE_ERR_EOF, s') \<Longrightarrow> suffix (sfp_data s') (sfp_data s)"
  by (auto simp: sfparse_parser_inner_list_def Let_def sf_bind_eq_Some discard_suffix skip_params_no_eof split: if_split_asm
      dest!: inner_list_item_eof inner_list_after_eof parser_skip_params_suffix intro: suffix_order.trans)

lemma parser_skip_inner_list_suffix:
  "parser_skip_inner_list s = Some (Inr u, s') \<Longrightarrow> suffix (sfp_data s') (sfp_data s)"
proof (induction s rule: parser_skip_inner_list.induct)
  case (1 s)
  show ?case
  proof (cases "sfparse_parser_inner_list s" rule: sf_bind_cases)
    case (err e t)
    then show ?thesis using 1(2) by (cases e) (auto simp: parser_skip_inner_list.simps [of s] inner_list_eof)
  next
    case (val x t)
    then have "suffix (sfp_data s') (sfp_data t)" using 1 by (simp add: parser_skip_inner_list.simps [of s])
    then show ?thesis using sfparse_parser_inner_list_moves [OF val] by (auto dest: suffix_order.less_imp_le suffix_order.trans)
  qed (use 1(2) in \<open>simp add: parser_skip_inner_list.simps\<close>)
qed

lemma param_moves:
  "sfparse_parser_param s = Some (Inr kv, s') \<Longrightarrow> strict_suffix (sfp_data s') (sfp_data s)"
  by (auto simp: sfparse_parser_param_def sf_bind_eq_Some split: if_split_asm
      dest!: param_pair_moves parser_skip_inner_list_suffix intro: suffix_order.less_le_trans)

lemma skip_inner_list_no_eof: "parser_skip_inner_list s \<noteq> Some (Inl SFPARSE_ERR_EOF, s')"
proof (induction s rule: parser_skip_inner_list.induct)
  case (1 s)
  show ?case
    by (cases "sfparse_parser_inner_list s" rule: sf_bind_cases)
      (use 1 in \<open>auto simp: parser_skip_inner_list.simps [of s] split: sfparse_error.split\<close>)
qed

lemma param_eof: "sfparse_parser_param s = Some (Inl SFPARSE_ERR_EOF, s') \<Longrightarrow> suffix (sfp_data s') (sfp_data s)"
  by (auto simp: sfparse_parser_param_def sf_bind_eq_Some skip_inner_list_no_eof split: if_split_asm
      dest!: param_pair_eof(2) parser_skip_inner_list_suffix)

lemma next_key_or_item_moves:
  "parser_next_key_or_item s = Some (Inr u, s') \<Longrightarrow> suffix (sfp_data s') (sfp_data s)"
  by (auto simp: parser_next_key_or_item_def Let_def split: if_split_asm)
    (metis discard_suffix(2) suffix_tl_left suffix_order.trans)

lemma next_member_moves: "parser_next_member K s = Some (Inr u, s') \<Longrightarrow> suffix (sfp_data s') (sfp_data s)"
  by (auto simp: parser_next_member_def sf_bind_eq_Some split: if_split_asm
      dest!: next_key_or_item_moves parser_skip_params_suffix parser_skip_inner_list_suffix intro: suffix_order.trans)

lemma member_moves: "parser_member K s = Some (Inr v, s') \<Longrightarrow> strict_suffix (sfp_data s') (sfp_data s)"
  by (auto simp: parser_member_def sf_bind_eq_Some on_pos_eq_Some parser_eof_def at_char_iff split: if_split_asm
      dest: parser_bare_item_moves intro: strict_suffix_ConsI)

lemma first_member_moves: "parser_first_member s = Some (Inr u, s') \<Longrightarrow> suffix (sfp_data s') (sfp_data s)"
  by (auto simp: parser_first_member_def Let_def discard_suffix split: if_split_asm)

lemma dict_value_moves: "parser_dict_value s = Some (Inr v, s') \<Longrightarrow> suffix (sfp_data s') (sfp_data s)"
  by (auto simp: parser_dict_value_def Let_def split: if_split_asm
      dest!: member_moves suffix_order.less_imp_le intro: suffix_order.trans [OF _ suffix_tl])

lemma dict_moves: "sfparse_parser_dict s = Some (Inr kv, s') \<Longrightarrow> strict_suffix (sfp_data s') (sfp_data s)"
proof -
  assume "sfparse_parser_dict s = Some (Inr kv, s')"
  then obtain s1 s2 k v where
    "(if sfp_state s = SFPARSE_STATE_INITIAL then parser_first_member s else parser_next_member SFPARSE_STATE_DICT s) =
      Some (Inr (), s1)" and k: "on_pos parser_key s1 = Some (Inr k, s2)" and v: "parser_dict_value s2 = Some (Inr v, s')"
    by (auto simp: sfparse_parser_dict_def sf_bind_eq_Some)
  then have "suffix (sfp_data s1) (sfp_data s)" by (auto split: if_split_asm dest: first_member_moves next_member_moves)
  moreover have "strict_suffix (sfp_data s2) (sfp_data s1)" using k by (auto simp: on_pos_eq_Some dest: parser_key_moves)
  ultimately show ?thesis using dict_value_moves [OF v] by (metis suffix_order.le_less_trans suffix_order.less_le_trans)
qed

lemma list_moves: "sfparse_parser_list s = Some (Inr v, s') \<Longrightarrow> strict_suffix (sfp_data s') (sfp_data s)"
  by (auto simp: sfparse_parser_list_def sf_bind_eq_Some split: if_split_asm
      dest!: first_member_moves next_member_moves member_moves intro: suffix_order.less_le_trans)

text \<open>
  The clients read all parameters, all inner lists and all members, and decode the values. \<open>None\<close> is
  any error.
\<close>

function sf_read_params :: "sfparse_parser \<Rightarrow> (sf_params \<times> sfparse_parser) option" where
  "sf_read_params s =
     (case sfparse_parser_param s of
        Some (Inr (key, v), s') \<Rightarrow>
          Option.bind (sf_decode v) (\<lambda>b. Option.bind (sf_read_params s') (\<lambda>(ps, s''). Some ((key, b) # ps, s'')))
      | Some (Inl SFPARSE_ERR_EOF, s') \<Rightarrow> Some ([], s')
      | _ \<Rightarrow> None)"
  by pat_completeness auto

termination sf_read_params
  by (relation "measure (\<lambda>s. length (sfp_data s))") (auto dest: param_moves strict_suffix_length)

declare sf_read_params.simps [simp del]

lemma sf_read_params_suffix: "sf_read_params s = Some (ps, s') \<Longrightarrow> suffix (sfp_data s') (sfp_data s)"
proof (induction s arbitrary: ps rule: sf_read_params.induct)
  case (1 s)
  show ?case
  proof (cases "sfparse_parser_param s" rule: sf_bind_cases)
    case (err e t)
    then show ?thesis using 1(2) by (cases e) (auto simp: sf_read_params.simps [of s] dest: param_eof)
  next
    case (val x t)
    obtain k v where x: "x = (k, v)" by (cases x)
    then obtain b ps' where "sf_decode v = Some b" "sf_read_params t = Some (ps', s')"
      using 1(2) val by (auto simp: sf_read_params.simps [of s] bind_eq_Some_conv)
    then have "suffix (sfp_data s') (sfp_data t)" using 1(1) [OF val refl refl x [symmetric]] by blast
    then show ?thesis using param_moves [OF val] by (auto dest: suffix_order.less_imp_le suffix_order.trans)
  qed (use 1(2) in \<open>simp add: sf_read_params.simps\<close>)
qed

function sf_read_items :: "sfparse_parser \<Rightarrow> (sf_item list \<times> sfparse_parser) option" where
  "sf_read_items s =
     (case sfparse_parser_inner_list s of
        Some (Inr v, s') \<Rightarrow>
          (case sf_decode v of
             None \<Rightarrow> None
           | Some b \<Rightarrow>
               (case sf_read_params s' of
                  None \<Rightarrow> None
                | Some (ps, s'') \<Rightarrow> Option.bind (sf_read_items s'') (\<lambda>(items, t). Some ((b, ps) # items, t))))
      | Some (Inl SFPARSE_ERR_EOF, s') \<Rightarrow> Some ([], s')
      | _ \<Rightarrow> None)"
  by pat_completeness auto

termination sf_read_items
  by (relation "measure (\<lambda>s. length (sfp_data s))")
    (auto dest!: sfparse_parser_inner_list_moves sf_read_params_suffix strict_suffix_length suffix_length_le)

declare sf_read_items.simps [simp del]

definition sf_read_member :: "sfparse_value \<Rightarrow> sfparse_parser \<Rightarrow> (sf_member \<times> sfparse_parser) option" where
  "sf_read_member v s =
     (if v = TYPE_INNER_LIST then
        Option.bind (sf_read_items s) (\<lambda>(items, s). Option.bind (sf_read_params s) (\<lambda>(ps, s). Some (Sf_Inner_List items ps, s)))
      else
        Option.bind (sf_decode v) (\<lambda>b. Option.bind (sf_read_params s) (\<lambda>(ps, s). Some (Sf_Item (b, ps), s))))"

lemma sf_read_items_suffix: "sf_read_items s = Some (items, s') \<Longrightarrow> suffix (sfp_data s') (sfp_data s)"
proof (induction s arbitrary: items rule: sf_read_items.induct)
  case (1 s)
  show ?case
  proof (cases "sfparse_parser_inner_list s" rule: sf_bind_cases)
    case (err e t)
    then show ?thesis using 1(2) by (cases e) (auto simp: sf_read_items.simps [of s] dest: inner_list_eof)
  next
    case (val v t)
    then obtain b ps t' items' where d: "sf_decode v = Some b" and p: "sf_read_params t = Some (ps, t')"
      and i: "sf_read_items t' = Some (items', s')"
      using 1(2) by (auto simp: sf_read_items.simps [of s] bind_eq_Some_conv split: option.split_asm prod.split_asm)
    from i have "suffix (sfp_data s') (sfp_data t')" using 1(1) [OF val refl refl d p refl] by blast
    then show ?thesis using sfparse_parser_inner_list_moves [OF val] sf_read_params_suffix [OF p]
      by (auto dest!: suffix_order.less_imp_le intro: suffix_order.trans)
  qed (use 1(2) in \<open>simp add: sf_read_items.simps\<close>)
qed

lemma sf_read_member_suffix: "sf_read_member v s = Some (m, s') \<Longrightarrow> suffix (sfp_data s') (sfp_data s)"
  by (auto simp: sf_read_member_def bind_eq_Some_conv split: if_split_asm
      dest!: sf_read_items_suffix sf_read_params_suffix intro: suffix_order.trans)

function sf_read_dict_from :: "sfparse_parser \<Rightarrow> sf_dict option" where
  "sf_read_dict_from s =
     (case sfparse_parser_dict s of
        Some (Inr (key, v), s') \<Rightarrow>
          (case sf_read_member v s' of
             None \<Rightarrow> None
           | Some (m, s'') \<Rightarrow> map_option (\<lambda>d. (key, m) # d) (sf_read_dict_from s''))
      | Some (Inl SFPARSE_ERR_EOF, s') \<Rightarrow> Some []
      | _ \<Rightarrow> None)"
  by pat_completeness auto

termination sf_read_dict_from
  by (relation "measure (\<lambda>s. length (sfp_data s))")
    (auto dest!: dict_moves sf_read_member_suffix strict_suffix_length suffix_length_le)

declare sf_read_dict_from.simps [simp del]

function sf_read_list_from :: "sfparse_parser \<Rightarrow> sf_member list option" where
  "sf_read_list_from s =
     (case sfparse_parser_list s of
        Some (Inr v, s') \<Rightarrow>
          (case sf_read_member v s' of
             None \<Rightarrow> None
           | Some (m, s'') \<Rightarrow> map_option (\<lambda>d. m # d) (sf_read_list_from s''))
      | Some (Inl SFPARSE_ERR_EOF, s') \<Rightarrow> Some []
      | _ \<Rightarrow> None)"
  by pat_completeness auto

termination sf_read_list_from
  by (relation "measure (\<lambda>s. length (sfp_data s))")
    (auto dest!: list_moves sf_read_member_suffix strict_suffix_length suffix_length_le)

declare sf_read_list_from.simps [simp del]

definition sf_read_dict :: "bytes \<Rightarrow> sf_dict option" where
  "sf_read_dict data = sf_read_dict_from (sfparse_parser_init data)"

definition sf_read_list :: "bytes \<Rightarrow> sf_member list option" where
  "sf_read_list data = sf_read_list_from (sfparse_parser_init data)"

definition sf_read_item :: "bytes \<Rightarrow> sf_member option" where
  "sf_read_item data =
     (case sfparse_parser_item (sfparse_parser_init data) of
        Some (Inr v, s) \<Rightarrow>
          Option.bind (sf_read_member v s) (\<lambda>(m, s).
            case sfparse_parser_item s of Some (Inl SFPARSE_ERR_EOF, _) \<Rightarrow> Some m | _ \<Rightarrow> None)
      | _ \<Rightarrow> None)"

section \<open>Reading back what was serialized\<close>

abbreviation sfp_at :: "u32 \<Rightarrow> bool \<Rightarrow> u32 \<Rightarrow> bytes \<Rightarrow> sfparse_parser" where
  "sfp_at K i op bs \<equiv> \<lparr>sfp_data = bs, sfp_state = sf_st K i op\<rparr>"

lemma op_state_sfp_at [simp]: "K \<in> sf_kinds \<Longrightarrow> op \<in> sf_ops \<Longrightarrow> op_state (sfp_at K i op bs) = op"
  by (simp add: op_state_def)

lemma set_op_sfp_at [simp]:
  "K \<in> sf_kinds \<Longrightarrow> op \<in> sf_ops \<Longrightarrow> parser_set_op_state (sfp_at K i op bs) op' = sfp_at K i op' bs"
  by (simp add: parser_set_op_state_def)

lemma unset_sfp_at [simp]:
  "K \<in> sf_kinds \<Longrightarrow> op \<in> sf_ops \<Longrightarrow> parser_unset_inner_list_state (sfp_at K i op bs) = sfp_at K False op bs"
  by (simp add: parser_unset_inner_list_state_def)

lemma moves_sfp_at [simp]:
  "next_char \<lparr>sfp_data = c # bs, sfp_state = st\<rparr> = \<lparr>sfp_data = bs, sfp_state = st\<rparr>"
  "parser_discard_sp \<lparr>sfp_data = bs, sfp_state = st\<rparr> = \<lparr>sfp_data = discard_sp bs, sfp_state = st\<rparr>"
  "parser_discard_ows \<lparr>sfp_data = bs, sfp_state = st\<rparr> = \<lparr>sfp_data = discard_ows bs, sfp_state = st\<rparr>"
  "parser_eof \<lparr>sfp_data = bs, sfp_state = st\<rparr> \<longleftrightarrow> bs = []"
  by (simp_all add: next_char_def parser_discard_sp_def parser_discard_ows_def parser_eof_def)

lemma on_pos_sfp_at:
  "f bs = Some (r, bs') \<Longrightarrow> on_pos f \<lparr>sfp_data = bs, sfp_state = st\<rparr> = Some (r, \<lparr>sfp_data = bs', sfp_state = st\<rparr>)"
  by (simp add: on_pos_def)

lemma discard_sp_simps [simp]:
  "discard_sp [] = []" "discard_sp (CH_SP # bs) = discard_sp bs" "c \<noteq> CH_SP \<Longrightarrow> discard_sp (c # bs) = c # bs"
  by (simp_all add: discard_sp_def)

lemma discard_ows_simps [simp]:
  "discard_ows [] = []" "discard_ows (CH_SP # bs) = discard_ows bs" "\<not> is_ws c \<Longrightarrow> discard_ows (c # bs) = c # bs"
  by (simp_all add: discard_ows_def is_ws_def)

lemma key_start_char: "key_start c \<Longrightarrow> c \<noteq> CH_SP \<and> c \<noteq> CH_EQ \<and> c \<noteq> CH_SEMICOLON \<and> \<not> is_ws c"
  by (auto simp: key_start_def LCALPHA_CASES_def is_ws_def)

lemma key_first: "key_ok k \<Longrightarrow> \<exists>c cs. k = c # cs \<and> key_start c"
  by (cases k) (auto simp: key_ok_def)

lemma key_then_value:
  assumes "key_ok k" and "bare_ok b" and "sf_stop rest"
  shows "parser_key (k @ ser_value b @ rest) = Some (Inr k, ser_value b @ rest)"
proof (rule parser_key_ser [OF assms(1)])
  show "dropWhile key_char (ser_value b @ rest) = ser_value b @ rest"
    using sf_stop_cases(5) [OF assms(3)]
    by (auto simp: ser_value_def key_char_def DIGIT_CASES_def LCALPHA_CASES_def)
qed

text \<open>The first byte of a bare item is neither a space nor one that opens or closes a list.\<close>

lemma bare_first:
  assumes "bare_ok b"
  shows "\<exists>c cs. ser_bare b = c # cs \<and> c \<noteq> CH_SP \<and> c \<noteq> CH_RPAREN \<and> c \<noteq> CH_LPAREN \<and> \<not> is_ws c"
proof -
  have d: "c = CH_MINUS \<or> DIGIT_CASES c \<Longrightarrow> c \<noteq> CH_SP \<and> c \<noteq> CH_RPAREN \<and> c \<noteq> CH_LPAREN \<and> \<not> is_ws c" for c
    by (auto simp: DIGIT_CASES_def is_ws_def)
  have t: "c = CH_STAR \<or> ALPHA_CASES c \<Longrightarrow> c \<noteq> CH_SP \<and> c \<noteq> CH_RPAREN \<and> c \<noteq> CH_LPAREN \<and> \<not> is_ws c" for c
    by (auto simp: ALPHA_CASES_def UCALPHA_CASES_def LCALPHA_CASES_def is_ws_def)
  show ?thesis
  proof (cases b)
    case (Sf_Integer n)
    then show ?thesis using number_start(1) [of n "[]"] d by auto
  next
    case (Sf_Decimal n k)
    then show ?thesis using number_start(2) [of n k "[]"] d by auto
  next
    case (Sf_Token x)
    then show ?thesis using assms t by (cases x) (auto simp: token_ok_def)
  qed (simp_all add: is_ws_def)
qed

lemma param_pair_ser:
  assumes "K \<in> sf_kinds" and "key_ok k" and "bare_ok b" and "sf_stop rest"
  shows "\<exists>v. param_pair (sfp_at K i SFPARSE_STATE_PARAMS (ser_param (k, b) @ rest)) =
      Some (Inr (k, v), sfp_at K i SFPARSE_STATE_PARAMS rest) \<and> sf_decode v = Some b"
proof -
  let ?p = "\<lambda>bs. sfp_at K i SFPARSE_STATE_PARAMS bs"
  obtain c cs where c: "k = c # cs" "key_start c" using key_first [OF assms(2)] by blast
  have sp: "discard_sp (k @ ser_value b @ rest) = k @ ser_value b @ rest" using c key_start_char by simp
  have key: "on_pos parser_key (?p (k @ ser_value b @ rest)) = Some (Inr k, ?p (ser_value b @ rest))"
    by (rule on_pos_sfp_at) (rule key_then_value [OF assms(2-4)])
  show ?thesis
  proof (cases "b = Sf_Boolean True")
    case True
    then have "ser_value b = []" by (simp add: ser_value_def)
    then show ?thesis using sp key c sf_stop_cases(3) [OF assms(4)] True
      by (simp add: param_pair_def ser_param_def Let_def)
  next
    case False
    then have e: "ser_value b = CH_EQ # ser_bare b" by (simp add: ser_value_def)
    obtain v where v: "parser_bare_item (ser_bare b @ rest) = Some (Inr v, rest)" "sf_decode v = Some b"
      using parser_bare_item_ser [OF assms(3,4)] by blast
    have "ser_bare b @ rest \<noteq> []" using bare_first [OF assms(3)] by auto
    then show ?thesis using sp key c e v(2) on_pos_sfp_at [where f = parser_bare_item and st = "sf_st K i SFPARSE_STATE_PARAMS", OF v(1)]
      by (simp add: param_pair_def ser_param_def Let_def)
  qed
qed

lemma param_at:
  assumes "K \<in> sf_kinds" and "op = SFPARSE_STATE_BEFORE_PARAMS \<or> op = SFPARSE_STATE_PARAMS"
  shows "sfparse_parser_param (sfp_at K i op bs) = param_pair (sfp_at K i SFPARSE_STATE_PARAMS bs)"
  using assms by (auto simp: sfparse_parser_param_def)

lemma ser_params_simps [simp]: "ser_params [] = []" "ser_params (p # ps) = ser_param p @ ser_params ps"
  by (simp_all add: ser_params_def)

lemma ser_params_stop: "sf_stop rest \<Longrightarrow> sf_stop (ser_params ps @ rest)"
  by (cases ps) (simp_all add: ser_param_def)

lemma read_params_ser:
  assumes "K \<in> sf_kinds" and "sf_stop rest" and "\<not> at_char CH_SEMICOLON rest"
  shows "params_ok ps \<Longrightarrow> op = SFPARSE_STATE_BEFORE_PARAMS \<or> op = SFPARSE_STATE_PARAMS \<Longrightarrow>
    sf_read_params (sfp_at K i op (ser_params ps @ rest)) = Some (ps, sfp_at K i SFPARSE_STATE_AFTER rest)"
proof (induction ps arbitrary: op)
  case Nil
  then show ?case using assms by (simp add: sf_read_params.simps param_at param_pair_def)
next
  case (Cons p ps)
  obtain k b where p: "p = (k, b)" by (cases p)
  have ok: "key_ok k" "bare_ok b" "params_ok ps" using Cons.prems(1) by (simp_all add: params_ok_def p)
  obtain v where v: "param_pair (sfp_at K i SFPARSE_STATE_PARAMS (ser_param (k, b) @ ser_params ps @ rest)) =
      Some (Inr (k, v), sfp_at K i SFPARSE_STATE_PARAMS (ser_params ps @ rest))" "sf_decode v = Some b"
    using param_pair_ser [OF assms(1) ok(1,2) ser_params_stop [OF assms(2)]] by blast
  show ?case
    using v Cons.IH [OF ok(3), of SFPARSE_STATE_PARAMS]
    by (simp add: sf_read_params.simps [of "sfp_at K i op _"] param_at [OF assms(1) Cons.prems(2)] p)
qed

lemma inner_list_item_ser:
  assumes "K \<in> sf_kinds" and "op \<in> sf_ops" and "bare_ok b" and "sf_stop rest"
  shows "\<exists>v. inner_list_item (sfp_at K i op (ser_bare b @ rest)) =
      Some (Inr v, sfp_at K i SFPARSE_STATE_BEFORE_PARAMS rest) \<and> sf_decode v = Some b"
proof -
  obtain v where v: "parser_bare_item (ser_bare b @ rest) = Some (Inr v, rest)" "sf_decode v = Some b"
    using parser_bare_item_ser [OF assms(3,4)] by blast
  obtain c cs where "ser_bare b = c # cs" "c \<noteq> CH_RPAREN" using bare_first [OF assms(3)] by blast
  then show ?thesis
    using v(2) on_pos_sfp_at [where f = parser_bare_item and st = "sf_st K i op", OF v(1)] assms(1,2)
    by (simp add: inner_list_item_def)
qed

lemma inner_list_close:
  "K \<in> sf_kinds \<Longrightarrow> op \<in> sf_ops \<Longrightarrow>
    inner_list_item (sfp_at K i op (CH_RPAREN # rest)) = Some (Inl SFPARSE_ERR_EOF, sfp_at K False SFPARSE_STATE_BEFORE_PARAMS rest)"
  by (simp add: inner_list_item_def)

text \<open>The items from the second on, each behind a space, and the closing parenthesis.\<close>

definition ser_more_items :: "sf_item list \<Rightarrow> bytes" where
  "ser_more_items items = concat (map (\<lambda>it. CH_SP # ser_item it) items)"

lemma ser_items_Cons: "ser_items (it # items) = ser_item it @ ser_more_items items"
  by (induction items arbitrary: it) (simp_all add: ser_more_items_def)

lemma ser_more_items_simps [simp]:
  "ser_more_items [] = []" "ser_more_items (it # items) = CH_SP # ser_item it @ ser_more_items items"
  by (simp_all add: ser_more_items_def)

lemma more_items_stop:
  "sf_stop (ser_more_items items @ CH_RPAREN # rest)" "\<not> at_char CH_SEMICOLON (ser_more_items items @ CH_RPAREN # rest)"
  by (cases items; simp)+

lemma discard_sp_bare: "bare_ok b \<Longrightarrow> discard_sp (ser_bare b @ rest) = ser_bare b @ rest"
  using bare_first [of b] by auto

lemma read_item_ser:
  assumes "K \<in> sf_kinds" and "item_ok it" and "op \<in> sf_ops"
  shows "\<exists>v t. inner_list_item (sfp_at K True op (ser_item it @ ser_more_items items @ CH_RPAREN # rest)) = Some (Inr v, t) \<and>
    sf_decode v = Some (fst it) \<and>
    sf_read_params t = Some (snd it, sfp_at K True SFPARSE_STATE_AFTER (ser_more_items items @ CH_RPAREN # rest))"
proof -
  obtain b ps where it: "it = (b, ps)" by (cases it)
  have ok: "bare_ok b" "params_ok ps" using assms(2) by (simp_all add: item_ok_def it)
  let ?r = "ser_more_items items @ CH_RPAREN # rest"
  obtain v where "inner_list_item (sfp_at K True op (ser_bare b @ ser_params ps @ ?r)) =
      Some (Inr v, sfp_at K True SFPARSE_STATE_BEFORE_PARAMS (ser_params ps @ ?r))" "sf_decode v = Some b"
    using inner_list_item_ser [OF assms(1,3) ok(1) ser_params_stop [OF more_items_stop(1)]] by blast
  then show ?thesis
    using read_params_ser [OF assms(1) more_items_stop ok(2), of SFPARSE_STATE_BEFORE_PARAMS]
    by (simp add: it ser_item_def)
qed

lemma read_more_items_ser:
  assumes "K \<in> sf_kinds"
  shows "list_all item_ok items \<Longrightarrow>
    sf_read_items (sfp_at K True SFPARSE_STATE_AFTER (ser_more_items items @ CH_RPAREN # rest)) =
      Some (items, sfp_at K False SFPARSE_STATE_BEFORE_PARAMS rest)"
proof (induction items)
  case Nil
  then show ?case using assms
    by (simp add: sf_read_items.simps sfparse_parser_inner_list_def inner_list_after_def inner_list_close)
next
  case (Cons it items)
  let ?s = "sfp_at K True SFPARSE_STATE_AFTER"
  have ok: "item_ok it" "bare_ok (fst it)" using Cons.prems by (simp_all add: item_ok_def)
  obtain v t where v: "inner_list_item (?s (ser_item it @ ser_more_items items @ CH_RPAREN # rest)) = Some (Inr v, t)"
    "sf_decode v = Some (fst it)" "sf_read_params t = Some (snd it, ?s (ser_more_items items @ CH_RPAREN # rest))"
    using read_item_ser [OF assms ok(1) sf_ops_simps(4)] by blast
  have "sfparse_parser_inner_list (?s (CH_SP # ser_item it @ ser_more_items items @ CH_RPAREN # rest)) = Some (Inr v, t)"
    using v(1) assms bare_first [OF ok(2)]
    by (auto simp: sfparse_parser_inner_list_def inner_list_after_def Let_def ser_item_def discard_sp_bare [OF ok(2)])
  then show ?case using v(2,3) Cons.IH Cons.prems by (simp add: sf_read_items.simps [of "?s (CH_SP # _)"])
qed

lemma read_items_ser:
  assumes "K \<in> sf_kinds" and "list_all item_ok items"
  shows "sf_read_items (sfp_at K True SFPARSE_STATE_BEFORE (ser_items items @ CH_RPAREN # rest)) =
      Some (items, sfp_at K False SFPARSE_STATE_BEFORE_PARAMS rest)"
proof (cases items)
  case Nil
  then show ?thesis using assms(1) by (simp add: sf_read_items.simps sfparse_parser_inner_list_def inner_list_close)
next
  case (Cons it more)
  let ?s = "sfp_at K True SFPARSE_STATE_BEFORE"
  have ok: "item_ok it" "bare_ok (fst it)" "list_all item_ok more" using assms(2) Cons by (simp_all add: item_ok_def)
  obtain v t where v: "inner_list_item (?s (ser_item it @ ser_more_items more @ CH_RPAREN # rest)) = Some (Inr v, t)"
    "sf_decode v = Some (fst it)"
    "sf_read_params t = Some (snd it, sfp_at K True SFPARSE_STATE_AFTER (ser_more_items more @ CH_RPAREN # rest))"
    using read_item_ser [OF assms(1) ok(1) sf_ops_simps(1)] by blast
  have "sfparse_parser_inner_list (?s (ser_item it @ ser_more_items more @ CH_RPAREN # rest)) = Some (Inr v, t)"
    using v(1) assms(1) bare_first [OF ok(2)]
    by (auto simp: sfparse_parser_inner_list_def Let_def ser_item_def discard_sp_bare [OF ok(2)])
  then show ?thesis using v(2,3) read_more_items_ser [OF assms(1) ok(3)]
    by (simp add: sf_read_items.simps [of "?s _"] Cons ser_items_Cons)
qed

lemma bare_nonempty: "bare_ok b \<Longrightarrow> ser_bare b \<noteq> []"
  using bare_first [of b] by auto

lemma decode_not_inner_list: "sf_decode v = Some b \<Longrightarrow> v \<noteq> TYPE_INNER_LIST"
  by auto

text \<open>A member and what the client makes of it.\<close>

lemma read_member_ser:
  assumes "K \<in> sf_kinds" and "member_ok m" and "sf_stop rest" and "\<not> at_char CH_SEMICOLON rest"
  shows "\<exists>v t. parser_member K \<lparr>sfp_data = ser_member m @ rest, sfp_state = st\<rparr> = Some (Inr v, t) \<and>
    sf_read_member v t = Some (m, sfp_at K False SFPARSE_STATE_AFTER rest)"
proof (cases m)
  case (Sf_Item it)
  obtain b ps where it: "it = (b, ps)" by (cases it)
  have ok: "bare_ok b" "params_ok ps" using assms(2) Sf_Item it by (simp_all add: item_ok_def)
  obtain v where v: "parser_bare_item (ser_bare b @ ser_params ps @ rest) = Some (Inr v, ser_params ps @ rest)"
    "sf_decode v = Some b" using parser_bare_item_ser [OF ok(1) ser_params_stop [OF assms(3)]] by blast
  obtain c cs where c: "ser_bare b = c # cs" "c \<noteq> CH_LPAREN" using bare_first [OF ok(1)] by blast
  have "parser_member K \<lparr>sfp_data = ser_member m @ rest, sfp_state = st\<rparr> =
      Some (Inr v, sfp_at K False SFPARSE_STATE_BEFORE_PARAMS (ser_params ps @ rest))"
    using c on_pos_sfp_at [where f = parser_bare_item and st = st, OF v(1)]
    by (simp add: parser_member_def Sf_Item it ser_item_def)
  then show ?thesis
    using v(2) decode_not_inner_list [OF v(2)] read_params_ser [OF assms(1,3,4) ok(2), of SFPARSE_STATE_BEFORE_PARAMS]
    by (simp add: sf_read_member_def Sf_Item it)
next
  case (Sf_Inner_List items ps)
  have ok: "list_all item_ok items" "params_ok ps" using assms(2) Sf_Inner_List by simp_all
  show ?thesis
    using read_items_ser [OF assms(1) ok(1)] read_params_ser [OF assms(1,3,4) ok(2), of SFPARSE_STATE_BEFORE_PARAMS]
    by (simp add: parser_member_def Sf_Inner_List sf_read_member_def)
qed

lemma read_dict_value_ser:
  assumes "key_ok (fst km)" and "member_ok (snd km)" and "sf_stop rest" and "\<not> at_char CH_SEMICOLON rest"
  shows "\<exists>v t. sf_bind (on_pos parser_key \<lparr>sfp_data = ser_dict_member km @ rest, sfp_state = st\<rparr>) (\<lambda>key sfp.
      sf_bind (parser_dict_value sfp) (\<lambda>val sfp. Some (Inr (key, val), sfp))) = Some (Inr (fst km, v), t) \<and>
    sf_read_member v t = Some (snd km, sfp_at SFPARSE_STATE_DICT False SFPARSE_STATE_AFTER rest)"
proof -
  obtain k m where km: "km = (k, m)" by (cases km)
  note a = assms [unfolded km fst_conv snd_conv]
  let ?r = "\<lambda>bs. \<lparr>sfp_data = bs, sfp_state = st\<rparr>"
  show ?thesis
  proof (cases "\<exists>ps. m = Sf_Item (Sf_Boolean True, ps)")
    case True
    then obtain ps where m: "m = Sf_Item (Sf_Boolean True, ps)" by blast
    have ps: "params_ok ps" using a(2) m by (simp add: item_ok_def)
    have stop: "sf_stop (ser_params ps @ rest)" by (rule ser_params_stop [OF a(3)])
    have k: "parser_key (k @ ser_params ps @ rest) = Some (Inr k, ser_params ps @ rest)"
      using key_then_value [OF a(1), of "Sf_Boolean True"] stop by (simp add: ser_value_def)
    have "\<not> at_char CH_EQ (ser_params ps @ rest)" by (rule sf_stop_cases(3) [OF stop])
    then show ?thesis
      using on_pos_sfp_at [where f = parser_key and st = st, OF k]
        read_params_ser [of SFPARSE_STATE_DICT rest ps SFPARSE_STATE_BEFORE_PARAMS False] a(3,4) ps
      by (simp add: km m ser_dict_member_def ser_value_def parser_dict_value_def sf_read_member_def)
  next
    case False
    have e: "ser_dict_member km = k @ CH_EQ # ser_member m"
      using False by (cases m) (auto simp: km ser_dict_member_def ser_value_def ser_item_def)
    have k: "parser_key (k @ CH_EQ # ser_member m @ rest) = Some (Inr k, CH_EQ # ser_member m @ rest)"
      by (rule parser_key_ser [OF a(1)]) (simp add: key_char_def DIGIT_CASES_def LCALPHA_CASES_def)
    obtain v t where v: "parser_member SFPARSE_STATE_DICT (?r (ser_member m @ rest)) = Some (Inr v, t)"
      "sf_read_member v t = Some (m, sfp_at SFPARSE_STATE_DICT False SFPARSE_STATE_AFTER rest)"
      using read_member_ser [OF _ a(2-4), of SFPARSE_STATE_DICT st] by auto
    have "ser_member m @ rest \<noteq> []"
      using a(2) bare_nonempty by (cases m) (auto simp: ser_item_def item_ok_def)
    then have "parser_dict_value (?r (CH_EQ # ser_member m @ rest)) = Some (Inr v, t)"
      using v(1) by (simp add: parser_dict_value_def Let_def)
    then show ?thesis using on_pos_sfp_at [where f = parser_key and st = st, OF k] v(2) by (simp add: e [unfolded km] km)
  qed
qed

text \<open>The whole field value: the members after the first follow a comma and a space.\<close>

definition ser_more :: "('a \<Rightarrow> bytes) \<Rightarrow> 'a list \<Rightarrow> bytes" where
  "ser_more f xs = concat (map (\<lambda>x. CH_COMMA # CH_SP # f x) xs)"

lemma ser_more_simps [simp]: "ser_more f [] = []" "ser_more f (x # xs) = CH_COMMA # CH_SP # f x @ ser_more f xs"
  by (simp_all add: ser_more_def)

lemma ser_list_with_Cons: "ser_list_with f (x # xs) = f x @ ser_more f xs"
  by (induction xs arbitrary: x) simp_all

lemma ser_more_stop: "sf_stop (ser_more f xs)" "\<not> at_char CH_SEMICOLON (ser_more f xs)"
  by (cases xs; simp)+

lemma next_member_end:
  "K \<in> sf_kinds \<Longrightarrow> parser_next_member K (sfp_at K False SFPARSE_STATE_AFTER []) =
    Some (Inl SFPARSE_ERR_EOF, sfp_at K False SFPARSE_STATE_AFTER [])"
  by (simp add: parser_next_member_def parser_next_key_or_item_def)

lemma next_member_comma:
  assumes "K \<in> sf_kinds" and "\<not> is_ws c"
  shows "parser_next_member K (sfp_at K False SFPARSE_STATE_AFTER (CH_COMMA # CH_SP # c # cs)) =
    Some (Inr (), sfp_at K False SFPARSE_STATE_AFTER (c # cs))"
proof -
  have "\<not> is_ws CH_COMMA" by (simp add: is_ws_def)
  then show ?thesis using assms by (simp add: parser_next_member_def parser_next_key_or_item_def Let_def)
qed

definition dict_member_ok :: "bytes \<times> sf_member \<Rightarrow> bool" where
  "dict_member_ok km \<longleftrightarrow> key_ok (fst km) \<and> member_ok (snd km)"

lemma dict_member_first: "dict_member_ok km \<Longrightarrow> \<exists>c cs. ser_dict_member km = c # cs \<and> c \<noteq> CH_SP \<and> \<not> is_ws c"
  using key_first [of "fst km"] key_start_char by (auto simp: dict_member_ok_def ser_dict_member_def)

lemma member_first: "member_ok m \<Longrightarrow> \<exists>c cs. ser_member m = c # cs \<and> c \<noteq> CH_SP \<and> \<not> is_ws c"
proof (cases m)
  case (Sf_Item it)
  assume "member_ok m"
  then have "bare_ok (fst it)" using Sf_Item by (simp add: item_ok_def)
  then show ?thesis using bare_first [of "fst it"] Sf_Item by (auto simp: ser_item_def)
qed (simp add: is_ws_def)

lemma read_dict_more:
  "list_all dict_member_ok d \<Longrightarrow>
    sf_read_dict_from (sfp_at SFPARSE_STATE_DICT False SFPARSE_STATE_AFTER (ser_more ser_dict_member d)) = Some d"
proof (induction d)
  case Nil
  then show ?case by (simp add: sf_read_dict_from.simps sfparse_parser_dict_def next_member_end)
next
  case (Cons km d)
  obtain k m where km: "km = (k, m)" by (cases km)
  have ok: "dict_member_ok km" "key_ok (fst km)" "member_ok (snd km)" using Cons.prems by (simp_all add: dict_member_ok_def)
  let ?s = "sfp_at SFPARSE_STATE_DICT False SFPARSE_STATE_AFTER"
  obtain v t where v: "sf_bind (on_pos parser_key (?s (ser_dict_member km @ ser_more ser_dict_member d))) (\<lambda>key sfp.
      sf_bind (parser_dict_value sfp) (\<lambda>val sfp. Some (Inr (key, val), sfp))) = Some (Inr (fst km, v), t)"
    "sf_read_member v t = Some (snd km, ?s (ser_more ser_dict_member d))"
    using read_dict_value_ser [OF ok(2,3) ser_more_stop] by blast
  obtain c cs where c: "ser_dict_member km = c # cs" "\<not> is_ws c" using dict_member_first [OF ok(1)] by blast
  have "sfparse_parser_dict (?s (ser_more ser_dict_member (km # d))) = Some (Inr (fst km, v), t)"
    using v(1) c(2) by (simp add: sfparse_parser_dict_def next_member_comma c(1))
  then show ?case using v(2) Cons by (simp add: sf_read_dict_from.simps [of "?s _"] km)
qed

lemma read_list_more:
  "list_all member_ok ms \<Longrightarrow>
    sf_read_list_from (sfp_at SFPARSE_STATE_LIST False SFPARSE_STATE_AFTER (ser_more ser_member ms)) = Some ms"
proof (induction ms)
  case Nil
  then show ?case by (simp add: sf_read_list_from.simps sfparse_parser_list_def next_member_end)
next
  case (Cons m ms)
  let ?s = "sfp_at SFPARSE_STATE_LIST False SFPARSE_STATE_AFTER"
  have ok: "member_ok m" using Cons.prems by simp
  obtain v t where v: "parser_member SFPARSE_STATE_LIST (?s (ser_member m @ ser_more ser_member ms)) = Some (Inr v, t)"
    "sf_read_member v t = Some (m, ?s (ser_more ser_member ms))"
    using read_member_ser [OF _ ok ser_more_stop, of SFPARSE_STATE_LIST] by (metis sf_kinds_simps(2))
  obtain c cs where c: "ser_member m = c # cs" "\<not> is_ws c" using member_first [OF ok] by blast
  have "sfparse_parser_list (?s (ser_more ser_member (m # ms))) = Some (Inr v, t)"
    using v(1) c(2) by (simp add: sfparse_parser_list_def next_member_comma c(1))
  then show ?case using v(2) Cons by (simp add: sf_read_list_from.simps [of "?s _"])
qed

lemma first_member_ser:
  "c \<noteq> CH_SP \<Longrightarrow> parser_first_member \<lparr>sfp_data = c # cs, sfp_state = st\<rparr> = Some (Inr (), \<lparr>sfp_data = c # cs, sfp_state = st\<rparr>)"
  by (simp add: parser_first_member_def)

lemma sf_read_dict_ser: "dict_ok d \<Longrightarrow> sf_read_dict (ser_dict d) = Some d"
proof (cases d)
  case Nil
  then show ?thesis by (simp add: sf_read_dict_def ser_dict_def sf_read_dict_from.simps sfparse_parser_dict_def
        sfparse_parser_init_def parser_first_member_def)
next
  case (Cons km more)
  assume "dict_ok d"
  then have ok: "dict_member_ok km" "key_ok (fst km)" "member_ok (snd km)" "list_all dict_member_ok more"
    by (simp_all add: dict_ok_def dict_member_ok_def Cons list_all_iff)
  obtain k m where km: "km = (k, m)" by (cases km)
  let ?s = "\<lambda>bs. \<lparr>sfp_data = bs, sfp_state = SFPARSE_STATE_INITIAL\<rparr>"
  obtain v t where v: "sf_bind (on_pos parser_key (?s (ser_dict_member km @ ser_more ser_dict_member more))) (\<lambda>key sfp.
      sf_bind (parser_dict_value sfp) (\<lambda>val sfp. Some (Inr (key, val), sfp))) = Some (Inr (fst km, v), t)"
    "sf_read_member v t = Some (snd km, sfp_at SFPARSE_STATE_DICT False SFPARSE_STATE_AFTER (ser_more ser_dict_member more))"
    using read_dict_value_ser [OF ok(2,3) ser_more_stop] by blast
  obtain c cs where c: "ser_dict_member km = c # cs" "c \<noteq> CH_SP" using dict_member_first [OF ok(1)] by blast
  have "sfparse_parser_dict (?s (ser_dict d)) = Some (Inr (fst km, v), t)"
    using v(1) c(2) by (simp add: sfparse_parser_dict_def ser_dict_def Cons ser_list_with_Cons first_member_ser c(1))
  then show ?thesis using v(2) read_dict_more [OF ok(4)]
    by (simp add: sf_read_dict_def sfparse_parser_init_def sf_read_dict_from.simps [of "?s _"] km Cons)
qed

lemma sf_read_list_ser: "list_all member_ok ms \<Longrightarrow> sf_read_list (ser_list ms) = Some ms"
proof (cases ms)
  case Nil
  then show ?thesis by (simp add: sf_read_list_def ser_list_def sf_read_list_from.simps sfparse_parser_list_def
        sfparse_parser_init_def parser_first_member_def)
next
  case (Cons m more)
  assume "list_all member_ok ms"
  then have ok: "member_ok m" "list_all member_ok more" by (simp_all add: Cons)
  let ?s = "\<lambda>bs. \<lparr>sfp_data = bs, sfp_state = SFPARSE_STATE_INITIAL\<rparr>"
  obtain v t where v: "parser_member SFPARSE_STATE_LIST (?s (ser_member m @ ser_more ser_member more)) = Some (Inr v, t)"
    "sf_read_member v t = Some (m, sfp_at SFPARSE_STATE_LIST False SFPARSE_STATE_AFTER (ser_more ser_member more))"
    using read_member_ser [OF sf_kinds_simps(2) ok(1) ser_more_stop] by blast
  obtain c cs where c: "ser_member m = c # cs" "c \<noteq> CH_SP" using member_first [OF ok(1)] by blast
  have "sfparse_parser_list (?s (ser_list ms)) = Some (Inr v, t)"
    using v(1) c(2) by (simp add: sfparse_parser_list_def ser_list_def Cons ser_list_with_Cons first_member_ser c(1))
  then show ?thesis using v(2) read_list_more [OF ok(2)]
    by (simp add: sf_read_list_def sfparse_parser_init_def sf_read_list_from.simps [of "?s _"] Cons)
qed

lemma sf_read_item_ser: "member_ok m \<Longrightarrow> sf_read_item (ser_member m) = Some m"
proof -
  assume ok: "member_ok m"
  let ?s = "\<lambda>bs. \<lparr>sfp_data = bs, sfp_state = SFPARSE_STATE_INITIAL\<rparr>"
  obtain v t where v: "parser_member SFPARSE_STATE_ITEM (?s (ser_member m @ [])) = Some (Inr v, t)"
    "sf_read_member v t = Some (m, sfp_at SFPARSE_STATE_ITEM False SFPARSE_STATE_AFTER [])"
    using read_member_ser [where rest = "[]" and st = SFPARSE_STATE_INITIAL, OF sf_kinds_simps(3) ok] by fastforce
  obtain c cs where c: "ser_member m = c # cs" "c \<noteq> CH_SP" using member_first [OF ok] by blast
  have "sfparse_parser_item (?s (ser_member m)) = Some (Inr v, t)"
    using v(1) c by (simp add: sfparse_parser_item_def)
  moreover have "sfparse_parser_item (sfp_at SFPARSE_STATE_ITEM False SFPARSE_STATE_AFTER []) =
      Some (Inl SFPARSE_ERR_EOF, sfp_at SFPARSE_STATE_ITEM False SFPARSE_STATE_AFTER [])"
    by (simp add: sfparse_parser_item_def item_end_def)
  ultimately show ?thesis using v(2) by (simp add: sf_read_item_def sfparse_parser_init_def)
qed

text \<open>
  C20. Reading inverts serializing, for all three kinds of field values of RFC 9651. A dictionary, a list
  or an item whose keys and tokens are spelled as the grammar says, whose integers and dates have at most 15 digits,
  whose decimals have at most 12 digits before the point, whose strings are printable and whose display
  strings are UTF-8, is serialized to bytes from which the calls of sfparse.c, with its decoders for
  strings, byte sequences and display strings, give back exactly the same value: members, inner
  lists and parameters, in order.
\<close>

theorem structured_fields_roundtrip:
  "(dict_ok d \<longrightarrow> sf_read_dict (ser_dict d) = Some d) \<and>
   (list_all member_ok ms \<longrightarrow> sf_read_list (ser_list ms) = Some ms) \<and>
   (member_ok m \<longrightarrow> sf_read_item (ser_member m) = Some m)"
  by (simp add: sf_read_dict_ser sf_read_list_ser sf_read_item_ser)

definition example_dict :: sf_dict where
  "example_dict =
     [([0x61], Sf_Inner_List [(Sf_Integer (- 50), []), (Sf_String [0x22], [([0x62], Sf_Boolean True)])] []),
      ([0x69], Sf_Item (Sf_Boolean True, [([0x63], Sf_Decimal 25 10)])),
      ([0x2a], Sf_Item (Sf_Bytes [1, 2], []))]"

theorem structured_fields_roundtrip_witness:
  "dict_ok example_dict \<and> list_all member_ok [Sf_Item (Sf_Date 7, [])] \<and>
   sf_read_dict (ser_dict example_dict) = Some example_dict \<and>
   sf_read_list (ser_list [Sf_Item (Sf_Date 7, [])]) = Some [Sf_Item (Sf_Date 7, [])] \<and>
   sf_read_item (ser_member (Sf_Item (Sf_Date 7, []))) = Some (Sf_Item (Sf_Date 7, []))"
proof -
  have "dict_ok example_dict" "member_ok (Sf_Item (Sf_Date 7, []))"
    by (simp_all add: example_dict_def dict_ok_def item_ok_def params_ok_def key_ok_def key_start_def LCALPHA_CASES_def
        integer_ok_def decimal_ok_def printable_def)
  then show ?thesis
    using structured_fields_roundtrip [of example_dict "[Sf_Item (Sf_Date 7, [])]" "Sf_Item (Sf_Date 7, [])"] by simp
qed

end
