(* ===== verification/Sfparse_Sound.thy ===== *)
theory Sfparse_Sound
  imports Sfparse_Client
begin

text \<open>
  What the structured field parser accepts: every value it returns can be decoded and is well-formed, and
  the caller may skip parameters and inner lists without changing what it reads.
\<close>

unbundle bit_operations_syntax

section \<open>Bare items\<close>

text \<open>A value that the decoders accept, and that is well-formed then.\<close>

definition sf_good :: "sfparse_value \<Rightarrow> bool" where
  "sf_good v \<longleftrightarrow> (\<exists>b. sf_decode v = Some b \<and> bare_ok b)"

lemma digit_bounds: "DIGIT_CASES c \<Longrightarrow> 0 \<le> uint c - 0x30 \<and> uint c - 0x30 \<le> 9"
  by (auto simp: DIGIT_CASES_def word_le_def)

lemma number_digits_sound:
  "number_digits len v bs = (Inr (len', v'), bs') \<Longrightarrow> 0 \<le> v \<Longrightarrow> len \<le> 15 \<Longrightarrow>
    len \<le> len' \<and> len' \<le> 15 \<and> v * 10 ^ (len' - len) \<le> v' \<and> v' < (v + 1) * 10 ^ (len' - len)"
proof (induction len v bs rule: number_digits.induct)
  case (2 len v c bs)
  show ?case
  proof (cases "DIGIT_CASES c")
    case True
    let ?d = "uint c - 0x30"
    have d: "0 \<le> ?d" "?d \<le> 9" using digit_bounds [OF True] by simp_all
    have p: "\<not> 15 < len + 1" "number_digits (len + 1) (v * 10 + ?d) bs = (Inr (len', v'), bs')"
      using 2(2) True by (auto split: if_split_asm)
    then have IH: "len + 1 \<le> len'" "len' \<le> 15" "(v * 10 + ?d) * 10 ^ (len' - (len + 1)) \<le> v'"
      "v' < (v * 10 + ?d + 1) * 10 ^ (len' - (len + 1))" using 2(1) [OF True p(1,2)] 2(3) d by auto
    have e: "(10 :: int) ^ (len' - len) = 10 * 10 ^ (len' - (len + 1))"
      using IH(1) by (simp flip: power_Suc add: Suc_diff_Suc)
    let ?p = "(10 :: int) ^ (len' - (len + 1))"
    have "v * 10 * ?p \<le> (v * 10 + ?d) * ?p" using d by (intro mult_right_mono) simp_all
    moreover have "(v * 10 + ?d + 1) * ?p \<le> (v * 10 + 10) * ?p" using d by (intro mult_right_mono) simp_all
    ultimately have "v * (10 * ?p) \<le> v'" "v' < (v + 1) * (10 * ?p)"
      using IH(3,4) by (simp_all add: distrib_right mult.assoc)
    then show ?thesis using IH(1,2) unfolding e by simp
  next
    case False
    then show ?thesis using 2(2,4) by simp
  qed
qed simp

lemma parser_number_sound:
  assumes "parser_number bs = Some (Inr v, bs')"
  shows "(\<exists>n. v = TYPE_INTEGER n \<and> integer_ok n) \<or> (\<exists>n k. v = TYPE_DECIMAL n k \<and> decimal_ok n k)"
proof -
  let ?bs = "if at_char CH_MINUS bs then tl bs else bs" and ?sign = "if at_char CH_MINUS bs then - 1 else 1 :: int"
  obtain len n mid where d: "number_digits 0 0 ?bs = (Inr (len, n), mid)" "len \<noteq> 0"
    using assms by (auto simp: parser_number_def Let_def split: if_splits sum.splits prod.splits)
  have b: "len \<le> 15" "0 \<le> n" "n < 10 ^ len" using number_digits_sound [OF d(1)] by simp_all
  have n15: "n < 10 ^ 15" using b(3) power_increasing [OF b(1), of "10 :: int"] by linarith
  have abs: "\<bar>x * ?sign\<bar> = x" if "0 \<le> x" for x :: int using that by simp
  obtain r s where t: "number_digits len n (tl mid) = (r, s)" by (cases "number_digits len n (tl mid)") auto
  show ?thesis
  proof (cases "at_char CH_DOT mid")
    case False
    then have "v = TYPE_INTEGER (n * ?sign)"
      using assms d by (auto simp: parser_number_def Let_def split: if_split_asm)
    then show ?thesis using abs [OF b(2)] n15 by (auto simp: integer_ok_def)
  next
    case True
    then obtain len' n' where r: "r = Inr (len', n')" "\<not> 12 < len" "len \<noteq> len'" "\<not> 3 < len' - len"
      and v: "v = TYPE_DECIMAL (n' * ?sign) (if len' - len = 1 then 10 else if len' - len = 2 then 100 else 1000)"
      using assms d t by (cases r) (auto simp: parser_number_def Let_def split: if_split_asm prod.split_asm)
    let ?k = "len' - len"
    have s: "len \<le> len'" "n * 10 ^ ?k \<le> n'" "n' < (n + 1) * 10 ^ ?k"
      using number_digits_sound [of len n "tl mid" len' n' s] t r(1) b by auto
    have k: "?k = 1 \<or> ?k = 2 \<or> ?k = 3" using s(1) r(3,4) by linarith
    then have den: "(if ?k = 1 then 10 else if ?k = 2 then 100 else 1000) = (10 :: int) ^ ?k" by auto
    have n': "0 \<le> n'" using s(2) b(2) by (meson order_trans zero_le_mult_iff zero_le_power zero_le_numeral)
    have "n' div 10 ^ ?k < n + 1"
    proof (rule ccontr)
      assume "\<not> n' div 10 ^ ?k < n + 1"
      then have "(n + 1) * 10 ^ ?k \<le> n' div 10 ^ ?k * 10 ^ ?k" by (intro mult_right_mono) simp_all
      moreover have "n' div 10 ^ ?k * 10 ^ ?k + n' mod 10 ^ ?k = n'" by (rule div_mult_mod_eq)
      moreover have "0 \<le> n' mod 10 ^ ?k" by simp
      ultimately show False using s(3) by linarith
    qed
    moreover have "n < 10 ^ 12" using b(3) power_increasing [of len 12 "10 :: int"] r(2) by linarith
    ultimately have "n' div 10 ^ ?k < 10 ^ 12" by linarith
    then have "decimal_ok (n' * ?sign) (10 ^ ?k)" using k abs [OF n'] by (auto simp: decimal_ok_def)
    then show ?thesis using v den by auto
  qed
qed

lemma string_loop_sound:
  "string_loop flags bs = (Inr f, pos) \<Longrightarrow>
    \<exists>s. bs = ser_chars s @ pos \<and> list_all printable s \<and> at_char CH_QUOTE pos \<and>
      f = (if needs_escape s then SFPARSE_VALUE_FLAG_ESCAPED_STRING else flags)"
proof (induction flags bs rule: string_loop.induct)
  case (2 flags c bs)
  consider "X20_21_CASES c \<or> X23_5B_CASES c \<or> X5D_7E_CASES c"
    | "\<not> (X20_21_CASES c \<or> X23_5B_CASES c \<or> X5D_7E_CASES c)" "c = CH_BACKSLASH"
    | "\<not> (X20_21_CASES c \<or> X23_5B_CASES c \<or> X5D_7E_CASES c)" "c \<noteq> CH_BACKSLASH" by blast
  then show ?case
  proof cases
    case 1
    then have c: "printable c" "c \<noteq> CH_QUOTE" "c \<noteq> CH_BACKSLASH" using escape_classes by (auto simp: printable_classes)
    obtain s where "bs = ser_chars s @ pos" "list_all printable s" "at_char CH_QUOTE pos"
      "f = (if needs_escape s then SFPARSE_VALUE_FLAG_ESCAPED_STRING else flags)"
      using 2(1) [OF 1] 2(3) 1 by auto
    then show ?thesis using c by (intro exI [of _ "c # s"]) (auto simp: escape_def needs_escape_def)
  next
    case 2
    then obtain d bs' where b: "bs = d # bs'" "d = CH_QUOTE \<or> d = CH_BACKSLASH"
      "string_loop SFPARSE_VALUE_FLAG_ESCAPED_STRING bs' = (Inr f, pos)"
      using "2.prems" by (auto split: list.split_asm if_split_asm)
    obtain s where "bs' = ser_chars s @ pos" "list_all printable s" "at_char CH_QUOTE pos"
      "f = (if needs_escape s then SFPARSE_VALUE_FLAG_ESCAPED_STRING else SFPARSE_VALUE_FLAG_ESCAPED_STRING)"
      using "2.IH"(2) [OF 2 b(1,2,3)] by blast
    moreover have "printable d" using b(2) by (auto simp: printable_classes)
    ultimately show ?thesis using b 2(2)
      by (intro exI [of _ "d # s"]) (auto simp: escape_def needs_escape_def)
  next
    case 3
    then show ?thesis using "2.prems" by (intro exI [of _ "[]"]) (auto simp: needs_escape_def split: if_split_asm)
  qed
qed simp

definition base64_alphabet :: "u8 \<Rightarrow> bool" where
  "base64_alphabet c \<longleftrightarrow> c = CH_PLUS \<or> c = CH_SLASH \<or> DIGIT_CASES c \<or> ALPHA_CASES c"

lemma base64_alphabet_index: "base64_alphabet c \<Longrightarrow> base64_index c \<noteq> None"
proof -
  assume a: "base64_alphabet c"
  have "list_all (\<lambda>n. base64_alphabet (word_of_nat n) \<longrightarrow> base64_index (word_of_nat n) \<noteq> None) [0..<256]" by code_simp
  moreover have "unat c \<in> set [0..<256]" by simp
  ultimately have "base64_alphabet (word_of_nat (unat c)) \<longrightarrow> base64_index (word_of_nat (unat c)) \<noteq> None"
    unfolding list_all_iff by (rule bspec)
  then show ?thesis using a by (simp only: word_of_nat_unat_u8 simp_thms not_None_eq)
qed

lemma base64_groups_total: "list_all base64_alphabet xs \<Longrightarrow> length xs mod 4 = 0 \<Longrightarrow> \<exists>out. base64_groups xs = Some out"
proof (induction xs rule: base64_groups.induct)
  case (2 a b c d p)
  then show ?case using base64_alphabet_index [of a] base64_alphabet_index [of b] base64_alphabet_index [of c]
      base64_alphabet_index [of d] by (auto simp: Let_def)
qed simp_all

lemma byteseq_loop_sound:
  "byteseq_loop n bs = (Inr (), pos) \<Longrightarrow>
    \<exists>ds pad. bs = ds @ pad @ pos \<and> at_char CH_COLON pos \<and> list_all base64_alphabet ds \<and>
      (pad = [] \<and> (n + length ds) mod 4 \<noteq> 1 \<or> pad = [CH_EQ] \<and> (n + length ds) mod 4 \<in> {2, 3} \<or>
       pad = [CH_EQ, CH_EQ] \<and> (n + length ds) mod 4 = 2)"
proof (induction n bs rule: byteseq_loop.induct)
  case (2 n c bs)
  show ?case
  proof (cases "base64_alphabet c")
    case True
    then have "c = CH_PLUS \<or> c = CH_SLASH \<or> DIGIT_CASES c \<or> ALPHA_CASES c" by (simp add: base64_alphabet_def)
    then obtain ds pad where "bs = ds @ pad @ pos" "at_char CH_COLON pos" "list_all base64_alphabet ds"
      "pad = [] \<and> (n + 1 + length ds) mod 4 \<noteq> 1 \<or> pad = [CH_EQ] \<and> (n + 1 + length ds) mod 4 \<in> {2, 3} \<or>
       pad = [CH_EQ, CH_EQ] \<and> (n + 1 + length ds) mod 4 = 2" using 2 by auto
    then show ?thesis using True by (intro exI [of _ "c # ds"] exI [of _ pad]) auto
  next
    case False
    then have f: "\<not> (c = CH_PLUS \<or> c = CH_SLASH \<or> DIGIT_CASES c \<or> ALPHA_CASES c)" by (simp add: base64_alphabet_def)
    show ?thesis
    proof (cases "c = CH_EQ")
      case True
      let ?pos = "if n mod 4 = 2 \<and> at_char CH_EQ bs then tl bs else bs"
      have p: "n mod 4 \<noteq> 0" "n mod 4 \<noteq> 1" "at_char CH_COLON ?pos" "pos = ?pos"
        using "2.prems" f True by (auto simp: Let_def split: if_split_asm)
      have m: "n mod 4 = 2 \<or> n mod 4 = 3" using p(1,2) by presburger
      show ?thesis
      proof (cases "n mod 4 = 2 \<and> at_char CH_EQ bs")
        case True
        then show ?thesis using p \<open>c = CH_EQ\<close> by (intro exI [of _ "[]"] exI [of _ "[CH_EQ, CH_EQ]"]) (auto simp: at_char_iff)
      next
        case False
        then show ?thesis using p(3,4) m \<open>c = CH_EQ\<close>
          by (intro exI [of _ "[]"] exI [of _ "[CH_EQ]"]) (auto split: if_split_asm)
      qed
    next
      case False
      then show ?thesis using "2.prems" f
        by (intro exI [of _ "[]"]) (auto split: if_split_asm)
    qed
  qed
qed simp

lemma base64_decode_total:
  assumes "list_all base64_alphabet ds"
    and "pad = [] \<and> length ds mod 4 \<noteq> 1 \<or> pad = [CH_EQ] \<and> length ds mod 4 \<in> {2, 3} \<or>
      pad = [CH_EQ, CH_EQ] \<and> length ds mod 4 = 2"
  shows "\<exists>out. sfparse_base64decode (ds @ pad) = Some out"
proof -
  let ?q = "length ds div 4 * 4" and ?r = "length ds mod 4"
  have split: "ds = take ?q ds @ drop ?q ds" "length (take ?q ds) = ?q" "length (drop ?q ds) = ?r"
    using minus_div_mult_eq_mod [of "length ds" 4] div_times_less_eq_dividend [of "length ds" 4] by simp_all
  have len: "length (ds @ pad) = ?q + ?r + length pad" by simp
  have g: "\<exists>out. base64_groups (take ?q ds) = Some out"
    by (rule base64_groups_total) (use assms(1) split(2) in \<open>auto simp: list_all_iff dest: in_set_takeD\<close>)
  have rest: "\<exists>out. base64_rest k (drop ?q ds @ p) = Some out" if kk: "k = 2 \<and> 2 \<le> ?r \<or> k = 3 \<and> 3 \<le> ?r \<or> k \<notin> {2, 3}" for k p
  proof -
    have a: "list_all base64_alphabet (drop ?q ds)" using assms(1) by (auto simp: list_all_iff dest: in_set_dropD)
    consider "k = 2" "2 \<le> length (drop ?q ds)" | "k = 3" "3 \<le> length (drop ?q ds)" | "k \<notin> {2, 3}"
      using kk unfolding split(3) by auto
    then show ?thesis
    proof cases
      case 1
      then obtain x y zs where d: "drop ?q ds = x # y # zs" by (cases "drop ?q ds"; cases "tl (drop ?q ds)") auto
      then have "base64_index x \<noteq> None" "base64_index y \<noteq> None" using a by (simp_all add: base64_alphabet_index del: not_None_eq)
      then show ?thesis using 1 d by (auto simp: base64_rest_def)
    next
      case 2
      then obtain x y z zs where d: "drop ?q ds = x # y # z # zs"
        by (cases "drop ?q ds"; cases "tl (drop ?q ds)"; cases "tl (tl (drop ?q ds))") auto
      then have "base64_index x \<noteq> None" "base64_index y \<noteq> None" "base64_index z \<noteq> None"
        using a by (simp_all add: base64_alphabet_index del: not_None_eq)
      then show ?thesis using 2 d by (auto simp: base64_rest_def Let_def)
    next
      case 3
      then show ?thesis by (simp add: base64_rest_def)
    qed
  qed
  have r4: "?r < 4" by simp
  have eq: "\<not> base64_alphabet CH_EQ"
    by (simp add: base64_alphabet_def DIGIT_CASES_def ALPHA_CASES_def UCALPHA_CASES_def LCALPHA_CASES_def)
  have last_ds: "(ds @ p) ! i \<noteq> CH_EQ" if "i < length ds" for i p
    using assms(1) eq that by (auto simp: list_all_length nth_append)
  have dec: "sfparse_base64decode (ds @ pad) = map_option (\<lambda>o2. o1 @ o2) (base64_rest k (drop ?q ds @ pad))"
    if "base64_groups (take ?q ds) = Some o1" "ds @ pad \<noteq> []" "left = ?r + length pad" "left \<noteq> 1"
      "left = (if length (ds @ pad) mod 4 = 0 \<and> (ds @ pad) ! (length (ds @ pad) - 1) = CH_EQ then 4 else length (ds @ pad) mod 4)"
      "k = (if left = 3 \<and> (ds @ pad) ! (length (ds @ pad) - 1) = CH_EQ then 2
            else if left = 4 then (if (ds @ pad) ! (length (ds @ pad) - 2) = CH_EQ then 2 else 3) else left)"
    for o1 left k
  proof -
    have "length (ds @ pad) - left = ?q" using that(3) len by linarith
    moreover have "take ?q (ds @ pad) = take ?q ds" "drop ?q (ds @ pad) = drop ?q ds @ pad" by simp_all
    ultimately show ?thesis using that(1,2,4) unfolding sfparse_base64decode_def that(5)[symmetric]
      by (simp only: Let_def that(5)[symmetric] that(6)[symmetric]) simp
  qed
  obtain o1 where o1: "base64_groups (take ?q ds) = Some o1" using g by blast
  show ?thesis
  proof (cases "ds @ pad = []")
    case False
    from assms(2) consider "pad = []" "?r \<noteq> 1" | "pad = [CH_EQ]" "?r = 2" | "pad = [CH_EQ]" "?r = 3" | "pad = [CH_EQ, CH_EQ]" "?r = 2"
      by auto
    then show ?thesis
    proof cases
      case 1
      have l: "(ds @ pad) ! (length (ds @ pad) - 1) \<noteq> CH_EQ" using last_ds [of "length ds - 1" "[]"] False 1 by auto
      have d: "sfparse_base64decode (ds @ pad) = map_option (\<lambda>o2. o1 @ o2) (base64_rest ?r (drop ?q ds @ pad))"
        by (rule dec [OF o1 False]) (use 1 l in auto)
      have "?r = 2 \<and> 2 \<le> ?r \<or> ?r = 3 \<and> 3 \<le> ?r \<or> ?r \<notin> {2, 3}" by auto
      from rest [OF this, of pad] show ?thesis using d by auto
    next
      case 2
      then have m: "length (ds @ pad) mod 4 = 3" by simp presburger
      have l: "(ds @ pad) ! (length (ds @ pad) - 1) = CH_EQ" using 2 by simp
      have d: "sfparse_base64decode (ds @ pad) = map_option (\<lambda>o2. o1 @ o2) (base64_rest 2 (drop ?q ds @ pad))"
        by (rule dec [OF o1 False, of 3]) (use 2 l m in simp_all)
      then show ?thesis using rest [of 2 pad] 2 by auto
    next
      case 3
      then have m: "length (ds @ pad) mod 4 = 0" by simp presburger
      have l: "(ds @ pad) ! (length (ds @ pad) - 1) = CH_EQ" using 3 by simp
      have l2: "(ds @ pad) ! (length (ds @ pad) - 2) \<noteq> CH_EQ"
        using last_ds [of "length ds - 1" pad] 3 by (cases ds) auto
      have d: "sfparse_base64decode (ds @ pad) = map_option (\<lambda>o2. o1 @ o2) (base64_rest 3 (drop ?q ds @ pad))"
        by (rule dec [OF o1 False, of 4]) (use 3 l l2 m in simp_all)
      then show ?thesis using rest [of 3 pad] 3 by auto
    next
      case 4
      then have m: "length (ds @ pad) mod 4 = 0" by simp presburger
      have l: "(ds @ pad) ! (length (ds @ pad) - 1) = CH_EQ" "(ds @ pad) ! (length (ds @ pad) - 2) = CH_EQ"
        using 4 by (simp_all add: nth_append)
      have d: "sfparse_base64decode (ds @ pad) = map_option (\<lambda>o2. o1 @ o2) (base64_rest 2 (drop ?q ds @ pad))"
        by (rule dec [OF o1 False, of 4]) (use 4 l m in simp_all)
      then show ?thesis using rest [of 2 pad] 4 by auto
    qed
  qed (simp add: sfparse_base64decode_def)
qed

lemma pctdecode_two:
  "pctdecode bs = Some (Some b, bs') \<Longrightarrow> \<exists>h l. bs = h # l # bs' \<and> (\<forall>rest. pctdecode (h # l # rest) = Some (Some b, rest))"
  by (auto simp: pctdecode_def split: list.split_asm option.split_asm)

lemma sfparse_pctdecode_char:
  "c \<noteq> CH_PERCENT \<Longrightarrow> sfparse_pctdecode (c # xs) = map_option (\<lambda>out. c # out) (sfparse_pctdecode xs)"
  unfolding sfparse_pctdecode.simps [of "c # xs"] sfparse_pctdecode.simps [of xs]
  by (cases "dropWhile (\<lambda>c. c \<noteq> CH_PERCENT) xs")
    (simp_all add: option.map_comp comp_def split: option.split del: dropWhile_eq_Nil_conv)

lemma sfparse_pctdecode_pct:
  "pctdecode p = Some (Some c, rest) \<Longrightarrow>
    sfparse_pctdecode (CH_PERCENT # p) = map_option (\<lambda>out. c # out) (sfparse_pctdecode rest)"
  using pctdecode_append [of "[]" p c rest] by simp

lemma dispstring_loop_sound:
  "dispstring_loop state bs = Some (Inr (), pos) \<Longrightarrow>
    \<exists>xs s. bs = xs @ pos \<and> at_char CH_QUOTE pos \<and> sfparse_pctdecode xs = Some s \<and> utf8_run state s"
proof (induction state bs rule: dispstring_loop.induct)
  case (2 state c bs)
  have x: "\<not> (X00_1F_CASES c \<or> X7F_FF_CASES c)" using "2.prems" by (auto split: if_split_asm)
  consider "c = CH_PERCENT" | "c \<noteq> CH_PERCENT" "c = CH_QUOTE" | "c \<noteq> CH_PERCENT" "c \<noteq> CH_QUOTE" by blast
  then show ?case
  proof cases
    case 1
    then obtain b p where b: "\<not> length bs < 2" "pctdecode bs = Some (Some b, p)"
      "utf8_decode state b \<noteq> UTF8_REJECT" "dispstring_loop (utf8_decode state b) p = Some (Inr (), pos)"
      using "2.prems" x by (auto simp: Let_def split: if_split_asm option.split_asm)
    obtain xs s where s: "p = xs @ pos" "at_char CH_QUOTE pos" "sfparse_pctdecode xs = Some s" "utf8_run (utf8_decode state b) s"
      using "2.IH"(1) [OF x 1 b(1) b(2) refl refl refl b(3,4)] by blast
    obtain h l where h: "bs = h # l # p" "pctdecode (h # l # xs) = Some (Some b, xs)" using pctdecode_two [OF b(2)] by blast
    show ?thesis using s h b(3) 1 sfparse_pctdecode_pct [OF h(2)]
      by (intro exI [of _ "CH_PERCENT # h # l # xs"] exI [of _ "b # s"]) simp
  next
    case 2
    then show ?thesis using "2.prems" x
      by (intro exI [of _ "[]"] exI [of _ "[]"]) (auto simp: sfparse_pctdecode.simps split: if_split_asm)
  next
    case 3
    then have d: "state = UTF8_ACCEPT" "dispstring_loop state bs = Some (Inr (), pos)"
      using "2.prems" x by (auto split: if_split_asm)
    obtain xs s where s: "bs = xs @ pos" "at_char CH_QUOTE pos" "sfparse_pctdecode xs = Some s" "utf8_run state s"
      using "2.IH"(2) [OF x 3 _ d(2)] d(1) by blast
    have "c \<le> 0x7f" using x by (auto simp: X7F_FF_CASES_def word_le_nat_alt)
    then have "utf8_run state (c # s)" using s(4) d(1) decode_plain [of c] by (simp add: UTF8_ACCEPT_def UTF8_REJECT_def)
    then show ?thesis using s 3(1) sfparse_pctdecode_char [OF 3(1), of xs]
      by (intro exI [of _ "c # xs"] exI [of _ "c # s"]) (simp del: utf8_run.simps)
  qed
qed simp

lemma takeWhile_slice: "slice (c # bs) (dropWhile P bs) = c # takeWhile P bs"
proof -
  have "bs = takeWhile P bs @ dropWhile P bs" by simp
  then show ?thesis by (metis slice_append(2))
qed

lemma list_all_takeWhile: "list_all P (takeWhile P xs)"
  by (induction xs) simp_all

lemma parser_key_sound: "parser_key bs = Some (Inr k, bs') \<Longrightarrow> key_ok k"
  by (auto simp: parser_key_def Let_def key_ok_def takeWhile_slice list_all_takeWhile split: list.split_asm if_split_asm)

lemma slice_drop: "slice (xs @ bs) bs = xs"
  by (simp add: slice_def)

lemma parser_bare_item_sound:
  assumes "parser_bare_item bs = Some (Inr v, bs')"
  shows "sf_good v"
proof -
  obtain c cs where bs: "bs = c # cs" using assms by (cases bs) (simp_all add: parser_bare_item_def)
  note a = assms [unfolded bs]
  have num: "sf_good w" if "parser_number xs = Some (Inr w, ys)" for w xs ys
    using parser_number_sound [OF that] by (auto simp: sf_good_def)
  consider "c = CH_QUOTE" | "c = CH_MINUS \<or> DIGIT_CASES c" | "c = CH_AT" | "c = CH_COLON" | "c = CH_QUESTION"
    | "c = CH_STAR \<or> ALPHA_CASES c" | "c = CH_PERCENT"
    using a by (auto simp: parser_bare_item_def split: if_split_asm)
  then show ?thesis
  proof cases
    case 1
    with a obtain f pos where l: "string_loop SFPARSE_VALUE_FLAG_NONE cs = (Inr f, pos)" "v = TYPE_STRING f (slice cs pos)"
      by (auto simp: bare_item_start parser_string_def Let_def split: sum.split_asm prod.split_asm)
    from string_loop_sound [OF l(1)] obtain s where s: "cs = ser_chars s @ pos" "list_all printable s"
      "f = (if needs_escape s then SFPARSE_VALUE_FLAG_ESCAPED_STRING else SFPARSE_VALUE_FLAG_NONE)" by blast
    then show ?thesis using l(2)
      by (simp add: sf_good_def slice_drop unescape_ser ser_chars_plain SFPARSE_VALUE_FLAG_NONE_def
          SFPARSE_VALUE_FLAG_ESCAPED_STRING_def)
  next
    case 2
    then show ?thesis using a num by (simp add: number_start_char)
  next
    case 3
    with a obtain w where w: "parser_number cs = Some (Inr (TYPE_INTEGER w), bs')" "v = TYPE_DATE w"
      by (cases "parser_number cs" rule: parser_date_cases)
        (auto simp: bare_item_start parser_date_def split: if_split_asm sfparse_value.split_asm)
    then show ?thesis using parser_number_sound [OF w(1)] by (simp add: sf_good_def)
  next
    case 4
    with a obtain u pos where l: "byteseq_loop 0 cs = (Inr u, pos)" "v = TYPE_BYTESEQ (slice cs pos)"
      by (auto simp: bare_item_start parser_byteseq_def Let_def split: sum.split_asm prod.split_asm)
    have "byteseq_loop 0 cs = (Inr (), pos)" using l(1) by simp
    from byteseq_loop_sound [OF this] obtain ds pad where d: "cs = (ds @ pad) @ pos" "list_all base64_alphabet ds"
      "pad = [] \<and> length ds mod 4 \<noteq> 1 \<or> pad = [CH_EQ] \<and> length ds mod 4 \<in> {2, 3} \<or>
       pad = [CH_EQ, CH_EQ] \<and> length ds mod 4 = 2" by auto
    have sl: "slice cs pos = ds @ pad" unfolding d(1) by (rule slice_drop)
    then show ?thesis using base64_decode_total [OF d(2,3)] l(2) by (auto simp: sf_good_def)
  next
    case 5
    then show ?thesis using a
      by (auto simp: bare_item_start parser_boolean_def sf_good_def split: list.split_asm if_split_asm)
  next
    case 6
    with a have "v = TYPE_TOKEN (slice (c # cs) (dropWhile TOKEN_CASES cs))"
      by (auto simp: bare_item_start(6) parser_token_def Let_def)
    then show ?thesis using 6 by (auto simp: sf_good_def token_ok_def takeWhile_slice list_all_takeWhile)
  next
    case 7
    with a obtain pos where l: "dispstring_loop UTF8_ACCEPT (tl cs) = Some (Inr (), pos)" "v = TYPE_DISPSTRING (slice (tl cs) pos)"
      by (auto simp: bare_item_start parser_dispstring_def Let_def sf_bind_eq_Some split: if_split_asm)
    from dispstring_loop_sound [OF l(1)] obtain xs s where s: "tl cs = xs @ pos" "sfparse_pctdecode xs = Some s"
      "utf8_run UTF8_ACCEPT s" by blast
    then show ?thesis using l(2) by (simp add: sf_good_def slice_drop utf8_run_iff UTF8_ACCEPT_def)
  qed
qed

section \<open>Values with structure\<close>

lemma param_pair_sound:
  assumes "param_pair s = Some (Inr (k, v), s')"
  shows "key_ok k \<and> sf_good v"
proof -
  have "sf_good (TYPE_BOOLEAN 1)" by (simp add: sf_good_def)
  with assms show ?thesis
    by (cases "on_pos parser_key (parser_discard_sp (next_char s))" rule: sf_bind_cases)
      (auto simp: param_pair_def Let_def sf_bind_eq_Some on_pos_eq_Some split: if_split_asm
        dest: parser_key_sound parser_bare_item_sound)
qed

lemma param_sound: "sfparse_parser_param s = Some (Inr (k, v), s') \<Longrightarrow> key_ok k \<and> sf_good v"
  by (auto simp: sfparse_parser_param_def sf_bind_eq_Some split: if_split_asm dest: param_pair_sound)

lemma inner_list_item_sound: "inner_list_item s = Some (Inr v, s') \<Longrightarrow> sf_good v"
  by (auto simp: inner_list_item_def sf_bind_eq_Some on_pos_eq_Some split: if_split_asm dest: parser_bare_item_sound)

lemma inner_list_sound: "sfparse_parser_inner_list s = Some (Inr v, s') \<Longrightarrow> sf_good v"
  by (auto simp: sfparse_parser_inner_list_def inner_list_after_def Let_def sf_bind_eq_Some split: if_split_asm
      dest: inner_list_item_sound)

lemma member_sound: "parser_member K s = Some (Inr v, s') \<Longrightarrow> v = TYPE_INNER_LIST \<or> sf_good v"
  by (auto simp: parser_member_def sf_bind_eq_Some on_pos_eq_Some split: if_split_asm dest: parser_bare_item_sound)

lemma dict_value_sound: "parser_dict_value s = Some (Inr v, s') \<Longrightarrow> v = TYPE_INNER_LIST \<or> sf_good v"
  by (auto simp: parser_dict_value_def Let_def sf_good_def split: if_split_asm dest!: member_sound)

lemma dict_sound: "sfparse_parser_dict s = Some (Inr (k, v), s') \<Longrightarrow> key_ok k \<and> (v = TYPE_INNER_LIST \<or> sf_good v)"
  by (auto simp: sfparse_parser_dict_def sf_bind_eq_Some on_pos_eq_Some dest: parser_key_sound dict_value_sound)

lemma list_sound: "sfparse_parser_list s = Some (Inr v, s') \<Longrightarrow> v = TYPE_INNER_LIST \<or> sf_good v"
  by (auto simp: sfparse_parser_list_def sf_bind_eq_Some dest: member_sound)

lemma item_sound: "sfparse_parser_item s = Some (Inr v, s') \<Longrightarrow> v = TYPE_INNER_LIST \<or> sf_good v"
  by (auto simp: sfparse_parser_item_def Let_def sf_bind_eq_Some item_end_def split: if_split_asm dest: member_sound)

lemma sf_good_decode: "sf_good v \<Longrightarrow> sf_decode v = Some b \<Longrightarrow> bare_ok b"
  by (auto simp: sf_good_def)

lemma read_params_sound: "sf_read_params s = Some (ps, s') \<Longrightarrow> params_ok ps"
proof (induction s arbitrary: ps rule: sf_read_params.induct)
  case (1 s)
  show ?case
  proof (cases "sfparse_parser_param s" rule: sf_bind_cases)
    case (err e t)
    then show ?thesis using 1(2) by (cases e) (auto simp: sf_read_params.simps [of s] params_ok_def)
  next
    case (val x t)
    obtain k v where x: "x = (k, v)" by (cases x)
    obtain b ps' where b: "sf_decode v = Some b" "sf_read_params t = Some (ps', s')" "ps = (k, b) # ps'"
      using 1(2) val x by (auto simp: sf_read_params.simps [of s] bind_eq_Some_conv)
    have "params_ok ps'" using 1(1) [OF val refl refl x [symmetric] b(1,2)] .
    then show ?thesis using b param_sound [of s k v t] val x sf_good_decode [OF _ b(1)] by (simp add: params_ok_def)
  qed (use 1(2) in \<open>simp add: sf_read_params.simps\<close>)
qed

lemma read_items_sound: "sf_read_items s = Some (items, s') \<Longrightarrow> list_all item_ok items"
proof (induction s arbitrary: items rule: sf_read_items.induct)
  case (1 s)
  show ?case
  proof (cases "sfparse_parser_inner_list s" rule: sf_bind_cases)
    case (err e t)
    then show ?thesis using 1(2) by (cases e) (auto simp: sf_read_items.simps [of s])
  next
    case (val v t)
    then obtain b ps t' items' where d: "sf_decode v = Some b" and p: "sf_read_params t = Some (ps, t')"
      and i: "sf_read_items t' = Some (items', s')" "items = (b, ps) # items'"
      using 1(2) by (auto simp: sf_read_items.simps [of s] bind_eq_Some_conv split: option.split_asm prod.split_asm)
    have "list_all item_ok items'" using 1(1) [OF val refl refl d p refl i(1)] .
    moreover have "item_ok (b, ps)"
      using read_params_sound [OF p] sf_good_decode [OF inner_list_sound [OF val] d] by (simp add: item_ok_def)
    ultimately show ?thesis using i(2) by simp
  qed (use 1(2) in \<open>simp add: sf_read_items.simps\<close>)
qed

lemma read_member_sound:
  "v = TYPE_INNER_LIST \<or> sf_good v \<Longrightarrow> sf_read_member v s = Some (m, s') \<Longrightarrow> member_ok m"
  by (auto simp: sf_read_member_def bind_eq_Some_conv item_ok_def split: if_split_asm
      dest: read_items_sound read_params_sound sf_good_decode)

lemma read_dict_from_sound: "sf_read_dict_from s = Some d \<Longrightarrow> dict_ok d"
proof (induction s arbitrary: d rule: sf_read_dict_from.induct)
  case (1 s)
  show ?case
  proof (cases "sfparse_parser_dict s" rule: sf_bind_cases)
    case (err e t)
    then show ?thesis using 1(2) by (cases e) (auto simp: sf_read_dict_from.simps [of s] dict_ok_def)
  next
    case (val x t)
    obtain k v where x: "x = (k, v)" by (cases x)
    obtain m t' d' where m: "sf_read_member v t = Some (m, t')" "sf_read_dict_from t' = Some d'" "d = (k, m) # d'"
      using 1(2) val x by (auto simp: sf_read_dict_from.simps [of s] split: option.split_asm prod.split_asm)
    have "dict_ok d'" using 1(1) [OF val refl refl x [symmetric] m(1) refl m(2)] .
    then show ?thesis using m(3) dict_sound [of s k v t] val x read_member_sound [OF _ m(1)] by (simp add: dict_ok_def)
  qed (use 1(2) in \<open>simp add: sf_read_dict_from.simps\<close>)
qed

lemma read_list_from_sound: "sf_read_list_from s = Some ms \<Longrightarrow> list_all member_ok ms"
proof (induction s arbitrary: ms rule: sf_read_list_from.induct)
  case (1 s)
  show ?case
  proof (cases "sfparse_parser_list s" rule: sf_bind_cases)
    case (err e t)
    then show ?thesis using 1(2) by (cases e) (auto simp: sf_read_list_from.simps [of s])
  next
    case (val v t)
    obtain m t' ms' where m: "sf_read_member v t = Some (m, t')" "sf_read_list_from t' = Some ms'" "ms = m # ms'"
      using 1(2) val by (auto simp: sf_read_list_from.simps [of s] split: option.split_asm prod.split_asm)
    have "list_all member_ok ms'" using 1(1) [OF val refl refl m(1) refl m(2)] .
    then show ?thesis using m(3) list_sound [OF val] read_member_sound [OF _ m(1)] by simp
  qed (use 1(2) in \<open>simp add: sf_read_list_from.simps\<close>)
qed

lemma read_item_sound:
  assumes "sf_read_item data = Some m"
  shows "member_ok m"
proof -
  obtain v s where v: "sfparse_parser_item (sfparse_parser_init data) = Some (Inr v, s)"
    using assms by (auto simp: sf_read_item_def split: option.split_asm prod.split_asm sum.split_asm)
  then obtain m' s' where m: "sf_read_member v s = Some (m', s')"
    using assms by (auto simp: sf_read_item_def bind_eq_Some_conv)
  then have "m' = m" using assms v
    by (auto simp: sf_read_item_def split: option.split_asm prod.split_asm sum.split_asm sfparse_error.split_asm)
  then show ?thesis using read_member_sound [OF item_sound [OF v] m] by simp
qed

text \<open>
  C21. Whatever the structured field parser accepts is well-formed. When a client reads a whole dictionary, list
  or item through the calls of sfparse.c, every key and token it gets is spelled as the grammar says,
  every integer and date has an absolute value below 10 to the power of 15, every decimal has one to
  three decimal places and an integer part below 10 to the power of 12, strings are printable and
  display strings are UTF-8. So nothing that is read overflows the fields of \<open>sfparse_value\<close>, and serializing the value and reading it
  again gives the same value.
\<close>

theorem structured_fields_read_ok:
  "(sf_read_dict data = Some d \<longrightarrow> dict_ok d \<and> sf_read_dict (ser_dict d) = Some d) \<and>
   (sf_read_list data = Some ms \<longrightarrow> list_all member_ok ms \<and> sf_read_list (ser_list ms) = Some ms) \<and>
   (sf_read_item data = Some m \<longrightarrow> member_ok m \<and> sf_read_item (ser_member m) = Some m)"
  using read_dict_from_sound read_list_from_sound read_item_sound
  by (auto simp: sf_read_dict_ser sf_read_list_ser sf_read_item_ser sf_read_dict_def [of data] sf_read_list_def [of data])

section \<open>Skipping\<close>

text \<open>A client that only asks for the members and never reads an inner list or a parameter.\<close>

function sf_scan_dict_from :: "sfparse_parser \<Rightarrow> (bytes \<times> sfparse_value) list option" where
  "sf_scan_dict_from s =
     (case sfparse_parser_dict s of
        Some (Inr kv, s') \<Rightarrow> map_option (\<lambda>kvs. kv # kvs) (sf_scan_dict_from s')
      | Some (Inl SFPARSE_ERR_EOF, s') \<Rightarrow> Some []
      | _ \<Rightarrow> None)"
  by pat_completeness auto

termination sf_scan_dict_from
  by (relation "measure (\<lambda>s. length (sfp_data s))") (auto dest: dict_moves strict_suffix_length)

declare sf_scan_dict_from.simps [simp del]

definition sf_scan_dict :: "bytes \<Rightarrow> (bytes \<times> sfparse_value) list option" where
  "sf_scan_dict data = sf_scan_dict_from (sfparse_parser_init data)"

text \<open>Reading parameters or items and skipping them succeed together and end at the same place.\<close>

definition same_end :: "('a \<times> sfparse_parser) option \<Rightarrow> (unit sf_res \<times> sfparse_parser) option \<Rightarrow> bool" where
  "same_end r m \<longleftrightarrow> (case r of Some (x, s) \<Rightarrow> m = Some (Inr (), s) | None \<Rightarrow> \<exists>s. m = Some (Inl SFPARSE_ERR_PARSE, s))"

lemma same_end_params:
  assumes "at_op K i op s" and "op = SFPARSE_STATE_BEFORE_PARAMS \<or> op = SFPARSE_STATE_PARAMS"
  shows "same_end (sf_read_params s) (parser_skip_params s)"
  using assms
proof (induction s arbitrary: op rule: sf_read_params.induct)
  case (1 s)
  have ns: "op_state s \<noteq> SFPARSE_STATE_BEFORE" using 1(2,3) by (auto simp: at_op_op_state)
  note o = param_outcome [OF 1(2)] and skip = parser_skip_params_as_written [OF ns]
  show ?case
  proof (cases "sfparse_parser_param s" rule: sf_bind_cases)
    case None
    then show ?thesis using o 1(3) by (auto simp: sf_outcome_def)
  next
    case (err e t)
    then show ?thesis using skip by (cases e) (auto simp: sf_read_params.simps [of s] same_end_def)
  next
    case (val x t)
    obtain k v where x: "x = (k, v)" by (cases x)
    obtain b where b: "sf_decode v = Some b" using param_sound [of s k v t] val x by (auto simp: sf_good_def)
    have "at_op K (i \<and> op \<noteq> SFPARSE_STATE_BEFORE) SFPARSE_STATE_PARAMS t" using o 1(3) val by (auto simp: sf_outcome_def)
    moreover have "(i \<and> op \<noteq> SFPARSE_STATE_BEFORE) = i" using 1(3) by auto
    ultimately have t: "at_op K i SFPARSE_STATE_PARAMS t" by simp
    have "same_end (sf_read_params t) (parser_skip_params t)" using 1(1) [OF val refl refl x [symmetric] b t] by simp
    then show ?thesis using skip val x b
      by (auto simp: sf_read_params.simps [of s] same_end_def split: option.splits)
  qed
qed

lemma inner_list_after_params:
  assumes "at_op K True SFPARSE_STATE_BEFORE_PARAMS s"
  shows "sfparse_parser_inner_list s =
    (case sf_read_params s of Some (ps, t) \<Rightarrow> sfparse_parser_inner_list t | None \<Rightarrow> map_option (\<lambda>(_, t). (Inl SFPARSE_ERR_PARSE, t)) (parser_skip_params s))"
proof -
  have e: "same_end (sf_read_params s) (parser_skip_params s)" using same_end_params [OF assms] by simp
  show ?thesis
  proof (cases "sf_read_params s")
    case None
    then show ?thesis using e assms by (auto simp: same_end_def sfparse_parser_inner_list_def at_op_op_state)
  next
    case (Some p)
    obtain ps t where p: "p = (ps, t)" by (cases p)
    then have sk: "parser_skip_params s = Some (Inr (), t)" using e Some by (simp add: same_end_def)
    then have "at_op K True SFPARSE_STATE_AFTER t" using skip_params_outcome [OF assms] by simp
    then show ?thesis using sk Some p assms by (simp add: sfparse_parser_inner_list_def at_op_op_state)
  qed
qed

lemma skip_list_after_params:
  assumes "at_op K True SFPARSE_STATE_BEFORE_PARAMS s"
  shows "parser_skip_inner_list s =
    (case sf_read_params s of Some (ps, t) \<Rightarrow> parser_skip_inner_list t | None \<Rightarrow> map_option (\<lambda>(_, t). (Inl SFPARSE_ERR_PARSE, t)) (parser_skip_params s))"
proof (cases "sf_read_params s")
  case None
  then obtain t where "parser_skip_params s = Some (Inl SFPARSE_ERR_PARSE, t)"
    using same_end_params [OF assms] by (auto simp: same_end_def)
  then show ?thesis using None inner_list_after_params [OF assms] by (simp add: parser_skip_inner_list.simps [of s])
next
  case (Some p)
  obtain ps t where "p = (ps, t)" by (cases p)
  then show ?thesis using Some inner_list_after_params [OF assms]
    by (simp add: parser_skip_inner_list.simps [of s] parser_skip_inner_list.simps [of t])
qed

lemma same_end_items:
  assumes "at_op K True op s" and "op = SFPARSE_STATE_BEFORE \<or> op = SFPARSE_STATE_AFTER"
  shows "same_end (sf_read_items s) (parser_skip_inner_list s)"
  using assms
proof (induction s arbitrary: op rule: sf_read_items.induct)
  case (1 s)
  have ops: "op \<in> inner_ops" using 1(3) by (auto simp: inner_ops_def)
  note o = inner_list_outcome [OF 1(2) ops] and skip = parser_skip_inner_list.simps [of s]
  show ?case
  proof (cases "sfparse_parser_inner_list s" rule: sf_bind_cases)
    case None
    then show ?thesis using o by (auto simp: sf_outcome_def)
  next
    case (err e t)
    then show ?thesis using skip by (cases e) (auto simp: sf_read_items.simps [of s] same_end_def)
  next
    case (val v t)
    obtain b where b: "sf_decode v = Some b" using inner_list_sound [OF val] by (auto simp: sf_good_def)
    have t: "at_op K True SFPARSE_STATE_BEFORE_PARAMS t" using o val by simp
    note e = same_end_params [OF t disjI1 [OF refl]]
    show ?thesis
    proof (cases "sf_read_params t")
      case None
      then obtain u where "parser_skip_params t = Some (Inl SFPARSE_ERR_PARSE, u)" using e by (auto simp: same_end_def)
      then have "parser_skip_inner_list t = Some (Inl SFPARSE_ERR_PARSE, u)" using None skip_list_after_params [OF t] by simp
      then show ?thesis using None val b skip by (simp add: sf_read_items.simps [of s] same_end_def)
    next
      case (Some p)
      obtain ps u where p: "p = (ps, u)" by (cases p)
      have "parser_skip_params t = Some (Inr (), u)" using e Some p by (simp add: same_end_def)
      then have u: "at_op K True SFPARSE_STATE_AFTER u" using skip_params_outcome [OF t] by simp
      have "same_end (sf_read_items u) (parser_skip_inner_list u)" using 1(1) [OF val refl refl b] Some p u by blast
      then show ?thesis using Some p val b skip skip_list_after_params [OF t]
        by (auto simp: sf_read_items.simps [of s] same_end_def split: option.splits)
    qed
  qed
qed

text \<open>What the scanning client sees of a member: the decoded value, or nothing of an inner list.\<close>

fun member_head :: "sf_member \<Rightarrow> sf_bare option" where
  "member_head (Sf_Item it) = Some (fst it)"
| "member_head (Sf_Inner_List items ps) = None"

text \<open>The parser after a member was read in full, and the one after only its value.\<close>

lemma read_member_then:
  assumes "(if v = TYPE_INNER_LIST then at_op K True SFPARSE_STATE_BEFORE s else at_op K False SFPARSE_STATE_BEFORE_PARAMS s \<and> sf_good v)"
  shows "(case sf_read_member v s of
      Some (m, t) \<Rightarrow> member_head m = sf_decode v \<and> at_op K False SFPARSE_STATE_AFTER t \<and> parser_next_member K s = parser_next_member K t
    | None \<Rightarrow> \<exists>t. parser_next_member K s = Some (Inl SFPARSE_ERR_PARSE, t))"
proof (cases "v = TYPE_INNER_LIST")
  case True
  have s: "at_op K True SFPARSE_STATE_BEFORE s" using assms True by simp
  note e = same_end_items [OF s disjI1 [OF refl]]
  have st: "sfp_state s = SFPARSE_SET_STATE_INNER_LIST_BEFORE K" using s by (simp add: at_op_def)
  show ?thesis
  proof (cases "sf_read_items s")
    case None
    then obtain t where "parser_skip_inner_list s = Some (Inl SFPARSE_ERR_PARSE, t)" using e by (auto simp: same_end_def)
    then show ?thesis using None True st by (simp add: sf_read_member_def parser_next_member_def del: sf_set_state_simps)
  next
    case (Some p)
    obtain items u where p: "p = (items, u)" by (cases p)
    then have sk: "parser_skip_inner_list s = Some (Inr (), u)" using e Some by (simp add: same_end_def)
    then have u: "at_op K False SFPARSE_STATE_BEFORE_PARAMS u" using skip_inner_list_outcome [OF s] by (simp add: inner_ops_def)
    note e' = same_end_params [OF u disjI1 [OF refl]]
    show ?thesis
    proof (cases "sf_read_params u")
      case None
      then obtain t where "parser_skip_params u = Some (Inl SFPARSE_ERR_PARSE, t)" using e' by (auto simp: same_end_def)
      then show ?thesis using None Some p True st sk by (simp add: sf_read_member_def parser_next_member_def del: sf_set_state_simps)
    next
      case (Some q)
      obtain ps t where q: "q = (ps, t)" by (cases q)
      then have sk': "parser_skip_params u = Some (Inr (), t)" using e' Some by (simp add: same_end_def)
      then have t: "at_op K False SFPARSE_STATE_AFTER t" using skip_params_outcome [OF u] by simp
      have "parser_next_member K t = parser_next_key_or_item t" using t by (simp add: parser_next_member_def at_op_def)
      moreover have "parser_next_member K s = parser_next_key_or_item t"
        using st sk sk' by (simp add: parser_next_member_def del: sf_set_state_simps)
      ultimately show ?thesis using \<open>sf_read_items s = Some p\<close> p Some q True t by (simp add: sf_read_member_def)
    qed
  qed
next
  case False
  have s: "at_op K False SFPARSE_STATE_BEFORE_PARAMS s" and g: "sf_good v" using assms False by simp_all
  obtain b where b: "sf_decode v = Some b" using g by (auto simp: sf_good_def)
  note e = same_end_params [OF s disjI1 [OF refl]]
  have nm: "parser_next_member K s = sf_bind (parser_skip_params s) (\<lambda>_ s. parser_next_key_or_item s)"
    using s by (simp add: parser_next_member_def at_op_def)
  show ?thesis
  proof (cases "sf_read_params s")
    case None
    then obtain t where "parser_skip_params s = Some (Inl SFPARSE_ERR_PARSE, t)" using e by (auto simp: same_end_def)
    then show ?thesis using None False b nm by (simp add: sf_read_member_def)
  next
    case (Some q)
    obtain ps t where q: "q = (ps, t)" by (cases q)
    then have sk: "parser_skip_params s = Some (Inr (), t)" using e Some by (simp add: same_end_def)
    then have t: "at_op K False SFPARSE_STATE_AFTER t" using skip_params_outcome [OF s] by simp
    have "parser_next_member K t = parser_next_key_or_item t" using t by (simp add: parser_next_member_def at_op_def)
    then show ?thesis using Some q False b nm sk t by (simp add: sf_read_member_def)
  qed
qed

lemma member_state:
  assumes "parser_member K s = Some (Inr v, t)" and "K \<in> sf_kinds"
  shows "if v = TYPE_INNER_LIST then at_op K True SFPARSE_STATE_BEFORE t else at_op K False SFPARSE_STATE_BEFORE_PARAMS t \<and> sf_good v"
proof (cases "at_char CH_LPAREN (sfp_data s)")
  case True
  then show ?thesis using assms by (auto simp: parser_member_def at_op_def split: if_split_asm)
next
  case False
  then have "sf_good v" "at_op K False SFPARSE_STATE_BEFORE_PARAMS t"
    using assms by (auto simp: parser_member_def at_op_def sf_bind_eq_Some on_pos_eq_Some split: if_split_asm
        dest: parser_bare_item_sound)
  then show ?thesis by (auto simp: sf_good_def)
qed

lemma dict_state:
  assumes "sfparse_parser_dict s = Some (Inr (k, v), t)"
  shows "if v = TYPE_INNER_LIST then at_op SFPARSE_STATE_DICT True SFPARSE_STATE_BEFORE t
    else at_op SFPARSE_STATE_DICT False SFPARSE_STATE_BEFORE_PARAMS t \<and> sf_good v"
proof -
  obtain u where u: "parser_dict_value u = Some (Inr v, t)" using assms by (auto simp: sfparse_parser_dict_def sf_bind_eq_Some)
  show ?thesis
  proof (cases "at_char CH_EQ (sfp_data u)")
    case True
    then have "parser_member SFPARSE_STATE_DICT (next_char u) = Some (Inr v, t)"
      using u by (auto simp: parser_dict_value_def Let_def split: if_split_asm)
    then show ?thesis by (rule member_state) simp
  next
    case False
    then have "v = TYPE_BOOLEAN 1" "at_op SFPARSE_STATE_DICT False SFPARSE_STATE_BEFORE_PARAMS t"
      using u by (auto simp: parser_dict_value_def at_op_def)
    then show ?thesis by (simp add: sf_good_def)
  qed
qed

lemma dict_next:
  "at_op SFPARSE_STATE_DICT i op s \<Longrightarrow> sfparse_parser_dict s =
    sf_bind (parser_next_member SFPARSE_STATE_DICT s) (\<lambda>_ sfp. sf_bind (on_pos parser_key sfp) (\<lambda>key sfp.
      sf_bind (parser_dict_value sfp) (\<lambda>val sfp. Some (Inr (key, val), sfp))))"
  by (simp add: sfparse_parser_dict_def at_op_def)

lemma sf_scan_dict_from_read:
  "map_option (map (\<lambda>(k, v). (k, sf_decode v))) (sf_scan_dict_from s) = map_option (map (\<lambda>(k, m). (k, member_head m))) (sf_read_dict_from s)"
proof (induction s rule: sf_read_dict_from.induct)
  case (1 s)
  show ?case
  proof (cases "sfparse_parser_dict s" rule: sf_bind_cases)
    case None
    then show ?thesis by (simp add: sf_scan_dict_from.simps sf_read_dict_from.simps)
  next
    case (err e t)
    then show ?thesis by (cases e) (simp_all add: sf_scan_dict_from.simps [of s] sf_read_dict_from.simps [of s])
  next
    case (val x t)
    obtain k v where x: "x = (k, v)" by (cases x)
    note st = dict_state [OF val [unfolded x]]
    then obtain i op where t: "at_op SFPARSE_STATE_DICT i op t" by (auto split: if_split_asm)
    note m = read_member_then [OF st]
    show ?thesis
    proof (cases "sf_read_member v t")
      case None
      then obtain u where "parser_next_member SFPARSE_STATE_DICT t = Some (Inl SFPARSE_ERR_PARSE, u)" using m by auto
      then have "sf_scan_dict_from t = None" by (simp add: sf_scan_dict_from.simps [of t] dict_next [OF t])
      then show ?thesis using None val x by (simp add: sf_scan_dict_from.simps [of s] sf_read_dict_from.simps [of s])
    next
      case (Some p)
      obtain m' u where p: "p = (m', u)" by (cases p)
      have u: "member_head m' = sf_decode v" "at_op SFPARSE_STATE_DICT False SFPARSE_STATE_AFTER u"
        "parser_next_member SFPARSE_STATE_DICT t = parser_next_member SFPARSE_STATE_DICT u" using m Some p by simp_all
      have "sfparse_parser_dict t = sfparse_parser_dict u" by (simp add: dict_next [OF t] dict_next [OF u(2)] u(3))
      then have "sf_scan_dict_from t = sf_scan_dict_from u" by (simp add: sf_scan_dict_from.simps [of t] sf_scan_dict_from.simps [of u])
      moreover have "map_option (map (\<lambda>(k, v). (k, sf_decode v))) (sf_scan_dict_from u) =
          map_option (map (\<lambda>(k, m). (k, member_head m))) (sf_read_dict_from u)"
        using 1 [OF val refl refl x [symmetric]] Some p by blast
      ultimately show ?thesis using val x Some p u(1)
        by (simp add: sf_scan_dict_from.simps [of s] sf_read_dict_from.simps [of s])
          (cases "sf_scan_dict_from u"; cases "sf_read_dict_from u"; simp)
    qed
  qed
qed

text \<open>
  C23. Skipping is as good as reading. A client that only asks for the members of a dictionary, as
  \<open>nghttp2_http_parse_priority\<close> does, leaves it to the parser to skip inner lists and
  parameters. It fails on exactly the same inputs as a client that reads everything, and gets the same keys and the same values, in the same
  order, but for the contents of inner lists.
\<close>

theorem skipping_equals_reading:
  "map_option (map (\<lambda>(k, v). (k, sf_decode v))) (sf_scan_dict data) =
   map_option (map (\<lambda>(k, m). (k, member_head m))) (sf_read_dict data)"
  using sf_scan_dict_from_read [of "sfparse_parser_init data"]
  by (simp add: sf_scan_dict_def sf_read_dict_def)

text \<open>The field value \<open>a=(1 2);b\<close>.\<close>

definition example_field :: bytes where
  "example_field = [0x61, 0x3d, 0x28, 0x31, 0x20, 0x32, 0x29, 0x3b, 0x62]"

definition example_field_value :: sf_dict where
  "example_field_value = [([0x61], Sf_Inner_List [(Sf_Integer 1, []), (Sf_Integer 2, [])] [([0x62], Sf_Boolean True)])]"

theorem structured_fields_read_ok_witness:
  "sf_read_dict example_field = Some example_field_value \<and> dict_ok example_field_value \<and>
   sf_read_dict (ser_dict example_field_value) = Some example_field_value"
proof -
  have "sf_read_dict example_field = Some example_field_value" by code_simp
  then show ?thesis using structured_fields_read_ok [of example_field example_field_value] by simp
qed

end
