(* ===== verification/Nghttp2_Http.thy ===== *)
theory Nghttp2_Http
  imports Nghttp2_Stream Nghttp2_Hd_Table Sfparse_Client
begin

text \<open>
  Model of \<open>src/src/nghttp2/lib/nghttp2_http.c\<close>: the rules of HTTP for a stream, checked field by
  field while a header block is decoded, and at the end of header blocks, of bodies and of the stream.

  A function that returns 0 or an error code and changes the stream returns both. \<open>None\<close> is a failed
  assertion or a signed overflow. Names and values are the bytes of the reference counted
  buffers; the byte at index 0 is read only where the code made sure that there is one. Of the session
  the functions read whether it is a server and whether the extended CONNECT method was enabled,
  and of a frame its type, its flags or its header list; these are arguments.
\<close>

unbundle bit_operations_syntax

section \<open>Flags of a stream\<close>

named_theorems http_flags \<open>the flags of the HTTP rules\<close>

definition NGHTTP2_HTTP_FLAG__AUTHORITY :: u32 where [http_flags]: "NGHTTP2_HTTP_FLAG__AUTHORITY = push_bit 0 1"
definition NGHTTP2_HTTP_FLAG__PATH :: u32 where [http_flags]: "NGHTTP2_HTTP_FLAG__PATH = push_bit 1 1"
definition NGHTTP2_HTTP_FLAG__METHOD :: u32 where [http_flags]: "NGHTTP2_HTTP_FLAG__METHOD = push_bit 2 1"
definition NGHTTP2_HTTP_FLAG__SCHEME :: u32 where [http_flags]: "NGHTTP2_HTTP_FLAG__SCHEME = push_bit 3 1"
definition NGHTTP2_HTTP_FLAG_HOST :: u32 where [http_flags]: "NGHTTP2_HTTP_FLAG_HOST = push_bit 4 1"
definition NGHTTP2_HTTP_FLAG__STATUS :: u32 where [http_flags]: "NGHTTP2_HTTP_FLAG__STATUS = push_bit 5 1"
definition NGHTTP2_HTTP_FLAG_REQ_HEADERS :: u32 where
  [http_flags]: "NGHTTP2_HTTP_FLAG_REQ_HEADERS =
     NGHTTP2_HTTP_FLAG__METHOD OR NGHTTP2_HTTP_FLAG__PATH OR NGHTTP2_HTTP_FLAG__SCHEME"
definition NGHTTP2_HTTP_FLAG_PSEUDO_HEADER_DISALLOWED :: u32 where
  [http_flags]: "NGHTTP2_HTTP_FLAG_PSEUDO_HEADER_DISALLOWED = push_bit 6 1"
definition NGHTTP2_HTTP_FLAG_METH_CONNECT :: u32 where [http_flags]: "NGHTTP2_HTTP_FLAG_METH_CONNECT = push_bit 7 1"
definition NGHTTP2_HTTP_FLAG_METH_HEAD :: u32 where [http_flags]: "NGHTTP2_HTTP_FLAG_METH_HEAD = push_bit 8 1"
definition NGHTTP2_HTTP_FLAG_METH_OPTIONS :: u32 where [http_flags]: "NGHTTP2_HTTP_FLAG_METH_OPTIONS = push_bit 9 1"
definition NGHTTP2_HTTP_FLAG_METH_UPGRADE_WORKAROUND :: u32 where
  [http_flags]: "NGHTTP2_HTTP_FLAG_METH_UPGRADE_WORKAROUND = push_bit 10 1"
definition NGHTTP2_HTTP_FLAG_METH_ALL :: u32 where
  [http_flags]: "NGHTTP2_HTTP_FLAG_METH_ALL =
     NGHTTP2_HTTP_FLAG_METH_CONNECT OR NGHTTP2_HTTP_FLAG_METH_HEAD OR
     NGHTTP2_HTTP_FLAG_METH_OPTIONS OR NGHTTP2_HTTP_FLAG_METH_UPGRADE_WORKAROUND"
definition NGHTTP2_HTTP_FLAG_PATH_REGULAR :: u32 where [http_flags]: "NGHTTP2_HTTP_FLAG_PATH_REGULAR = push_bit 11 1"
definition NGHTTP2_HTTP_FLAG_PATH_ASTERISK :: u32 where [http_flags]: "NGHTTP2_HTTP_FLAG_PATH_ASTERISK = push_bit 12 1"
definition NGHTTP2_HTTP_FLAG_SCHEME_HTTP :: u32 where [http_flags]: "NGHTTP2_HTTP_FLAG_SCHEME_HTTP = push_bit 13 1"
definition NGHTTP2_HTTP_FLAG_EXPECT_FINAL_RESPONSE :: u32 where
  [http_flags]: "NGHTTP2_HTTP_FLAG_EXPECT_FINAL_RESPONSE = push_bit 14 1"
definition NGHTTP2_HTTP_FLAG__PROTOCOL :: u32 where [http_flags]: "NGHTTP2_HTTP_FLAG__PROTOCOL = push_bit 15 1"
definition NGHTTP2_HTTP_FLAG_PRIORITY :: u32 where [http_flags]: "NGHTTP2_HTTP_FLAG_PRIORITY = push_bit 16 1"
definition NGHTTP2_HTTP_FLAG_BAD_PRIORITY :: u32 where [http_flags]: "NGHTTP2_HTTP_FLAG_BAD_PRIORITY = push_bit 17 1"

definition STREAM_FLAG_NO_RFC9113_LEADING_AND_TRAILING_WS_VALIDATION :: u8 where
  "STREAM_FLAG_NO_RFC9113_LEADING_AND_TRAILING_WS_VALIDATION = 0x40"

text \<open>The two tests and the two updates that the code writes out for the member \<open>http_flags\<close>.\<close>

definition has_http_flag :: "nghttp2_stream \<Rightarrow> u32 \<Rightarrow> bool" where
  "has_http_flag stream flg \<longleftrightarrow> st_http_flags stream AND flg \<noteq> 0"

definition set_http_flag :: "u32 \<Rightarrow> nghttp2_stream \<Rightarrow> nghttp2_stream" where
  "set_http_flag flg stream = stream\<lparr>st_http_flags := st_http_flags stream OR flg\<rparr>"

definition clear_http_flag :: "u32 \<Rightarrow> nghttp2_stream \<Rightarrow> nghttp2_stream" where
  "clear_http_flag flg stream = stream\<lparr>st_http_flags := st_http_flags stream AND NOT flg\<rparr>"

section \<open>Strings and numbers\<close>

definition lstreq :: "string \<Rightarrow> bytes \<Rightarrow> bool" where
  "lstreq a b \<longleftrightarrow> length a = length b \<and> memcmp (lit a) b (length b) = 0"

definition downcase :: "u8 \<Rightarrow> u8" where
  "downcase c = (if 0x41 \<le> c \<and> c \<le> 0x5a then c - 0x41 + 0x61 else c)"

fun memieq :: "bytes \<Rightarrow> bytes \<Rightarrow> nat \<Rightarrow> bool" where
  "memieq (x # a) (y # b) (Suc n) = (if downcase x \<noteq> downcase y then False else memieq a b n)"
| "memieq _ _ _ = True"

definition lstrieq :: "string \<Rightarrow> bytes \<Rightarrow> bool" where
  "lstrieq a b \<longleftrightarrow> length a = length b \<and> memieq (lit a) b (length b)"

definition INT64_MAX :: int where "INT64_MAX = 9223372036854775807"

fun parse_uint_loop :: "int \<Rightarrow> bytes \<Rightarrow> int" where
  "parse_uint_loop n [] = n"
| "parse_uint_loop n (c # s) =
     (if 0x30 \<le> c \<and> c \<le> 0x39 then
        if n > INT64_MAX div 10 then - 1
        else
          let n = n * 10 in
          if n > INT64_MAX - (uint c - 0x30) then - 1
          else parse_uint_loop (n + (uint c - 0x30)) s
      else - 1)"

definition parse_uint :: "bytes \<Rightarrow> int" where
  "parse_uint s = (if length s = 0 then - 1 else parse_uint_loop 0 s)"

text \<open>Conversion to \<open>int16_t\<close>, and the division of C, which rounds towards zero.\<close>

definition int16 :: "int \<Rightarrow> int" where
  "int16 x = (x + 2 ^ 15) mod 2 ^ 16 - 2 ^ 15"

definition status_class :: "nghttp2_stream \<Rightarrow> int" where
  "status_class stream =
     (if st_status_code stream < 0 then - (- st_status_code stream div 100) else st_status_code stream div 100)"

section \<open>Checks on a stream\<close>

definition check_pseudo_header :: "nghttp2_stream \<Rightarrow> nghttp2_hd_nv \<Rightarrow> u32 \<Rightarrow> bool \<times> nghttp2_stream" where
  "check_pseudo_header stream nv flg =
     (if has_http_flag stream flg \<or> length (hn_value nv) = 0 then (False, stream)
      else (True, set_http_flag flg stream))"

definition expect_response_body :: "nghttp2_stream \<Rightarrow> bool" where
  "expect_response_body stream \<longleftrightarrow>
     \<not> has_http_flag stream NGHTTP2_HTTP_FLAG_METH_HEAD \<and>
     status_class stream \<noteq> 1 \<and> st_status_code stream \<noteq> 304 \<and> st_status_code stream \<noteq> 204"

definition check_path :: "nghttp2_stream \<Rightarrow> bool" where
  "check_path stream \<longleftrightarrow>
     \<not> has_http_flag stream NGHTTP2_HTTP_FLAG_SCHEME_HTTP \<or>
     has_http_flag stream NGHTTP2_HTTP_FLAG_PATH_REGULAR \<or>
     has_http_flag stream NGHTTP2_HTTP_FLAG_METH_OPTIONS \<and> has_http_flag stream NGHTTP2_HTTP_FLAG_PATH_ASTERISK"

section \<open>The priority field\<close>

definition NGHTTP2_EXTPRI_URGENCY_HIGH :: int where "NGHTTP2_EXTPRI_URGENCY_HIGH = 0"

definition NGHTTP2_EXTPRI_URGENCY_LOW :: int where "NGHTTP2_EXTPRI_URGENCY_LOW = 7"

text \<open>The body of the loop after a member was read; \<open>None\<close> is the return of \<open>NGHTTP2_ERR_INVALID_ARGUMENT\<close>.\<close>

definition priority_member :: "bytes \<times> sfparse_value \<Rightarrow> nghttp2_extpri \<Rightarrow> nghttp2_extpri option" where
  "priority_member kv pri =
     (if length (fst kv) \<noteq> 1 then Some pri
      else if fst kv ! 0 = 0x69 then
        (case snd kv of TYPE_BOOLEAN b \<Rightarrow> Some (pri\<lparr>ep_inc := b\<rparr>) | _ \<Rightarrow> None)
      else if fst kv ! 0 = 0x75 then
        (case snd kv of
           TYPE_INTEGER n \<Rightarrow>
             if n < NGHTTP2_EXTPRI_URGENCY_HIGH \<or> NGHTTP2_EXTPRI_URGENCY_LOW < n then None
             else Some (pri\<lparr>ep_urgency := word_of_int n\<rparr>)
         | _ \<Rightarrow> None)
      else Some pri)"

text \<open>The loop ends: every member that is read moves the parser. A crash of the parser is \<open>None\<close>.\<close>

function parse_priority_loop :: "sfparse_parser \<Rightarrow> nghttp2_extpri \<Rightarrow> nghttp2_extpri res option" where
  "parse_priority_loop sfp pri =
     (case sfparse_parser_dict sfp of
        None \<Rightarrow> None
      | Some (Inl SFPARSE_ERR_EOF, sfp') \<Rightarrow> Some (Inr pri)
      | Some (Inl SFPARSE_ERR_PARSE, sfp') \<Rightarrow> Some (Inl ERR_INVALID_ARGUMENT)
      | Some (Inr kv, sfp') \<Rightarrow>
          (case priority_member kv pri of
             None \<Rightarrow> Some (Inl ERR_INVALID_ARGUMENT)
           | Some pri' \<Rightarrow> parse_priority_loop sfp' pri'))"
  by pat_completeness auto

termination parse_priority_loop
  by (relation "measure (\<lambda>(s, _). length (sfp_data s))") (auto dest: dict_moves strict_suffix_length)

declare parse_priority_loop.simps [simp del]

text \<open>The destination is changed only by a return of 0.\<close>

definition nghttp2_http_parse_priority :: "nghttp2_extpri \<Rightarrow> bytes \<Rightarrow> nghttp2_extpri res option" where
  "nghttp2_http_parse_priority dest val = parse_priority_loop (sfparse_parser_init val) dest"

definition nghttp2_extpri_parse_priority :: "nghttp2_extpri \<Rightarrow> bytes \<Rightarrow> nghttp2_extpri res option" where
  "nghttp2_extpri_parse_priority extpri val = nghttp2_http_parse_priority extpri val"

section \<open>A field of a request\<close>

type_synonym on_header = "(unit res \<times> nghttp2_stream) option"

definition reject :: "nghttp2_stream \<Rightarrow> on_header" where
  "reject stream = Some (Inl ERR_HTTP_HEADER, stream)"

text \<open>The end of both functions on a field, after the \<open>switch\<close>.\<close>

definition on_header_end :: "nghttp2_hd_nv \<Rightarrow> nghttp2_stream \<Rightarrow> on_header" where
  "on_header_end nv stream =
     Some (Inr (), if hn_name nv ! 0 \<noteq> CH_COLON then set_http_flag NGHTTP2_HTTP_FLAG_PSEUDO_HEADER_DISALLOWED stream
                   else stream)"

text \<open>The beginning of both functions.\<close>

definition pseudo_misplaced :: "nghttp2_stream \<Rightarrow> nghttp2_hd_nv \<Rightarrow> bool \<Rightarrow> bool" where
  "pseudo_misplaced stream nv trailer \<longleftrightarrow>
     hn_name nv ! 0 = CH_COLON \<and>
     (trailer \<or> has_http_flag stream NGHTTP2_HTTP_FLAG_PSEUDO_HEADER_DISALLOWED)"

definition disallowed_field :: "int \<Rightarrow> bool" where
  "disallowed_field token \<longleftrightarrow>
     token = NGHTTP2_TOKEN_CONNECTION \<or> token = NGHTTP2_TOKEN_KEEP_ALIVE \<or>
     token = NGHTTP2_TOKEN_PROXY_CONNECTION \<or> token = NGHTTP2_TOKEN_TRANSFER_ENCODING \<or>
     token = NGHTTP2_TOKEN_UPGRADE"

text \<open>A pseudo header field whose value needs no further treatment.\<close>

definition on_pseudo :: "nghttp2_stream \<Rightarrow> nghttp2_hd_nv \<Rightarrow> u32 \<Rightarrow> on_header" where
  "on_pseudo stream nv flg =
     (case check_pseudo_header stream nv flg of
        (False, s) \<Rightarrow> reject s
      | (True, s) \<Rightarrow> on_header_end nv s)"

definition on_method :: "nghttp2_stream \<Rightarrow> nghttp2_hd_nv \<Rightarrow> on_header" where
  "on_method stream nv =
     (case check_pseudo_header stream nv NGHTTP2_HTTP_FLAG__METHOD of
        (False, s) \<Rightarrow> reject s
      | (True, s) \<Rightarrow>
          if length (hn_value nv) = 4 then
            on_header_end nv (if lstreq ''HEAD'' (hn_value nv) then set_http_flag NGHTTP2_HTTP_FLAG_METH_HEAD s else s)
          else if length (hn_value nv) = 7 then
            (if hn_value nv ! 6 = 0x54 then
               (if lstreq ''CONNECT'' (hn_value nv) then
                  if st_stream_id s mod 2 = 0 then reject s
                  else on_header_end nv (set_http_flag NGHTTP2_HTTP_FLAG_METH_CONNECT s)
                else on_header_end nv s)
             else if hn_value nv ! 6 = 0x53 then
               on_header_end nv
                 (if lstreq ''OPTIONS'' (hn_value nv) then set_http_flag NGHTTP2_HTTP_FLAG_METH_OPTIONS s else s)
             else on_header_end nv s)
          else on_header_end nv s)"

definition on_path :: "nghttp2_stream \<Rightarrow> nghttp2_hd_nv \<Rightarrow> on_header" where
  "on_path stream nv =
     (case check_pseudo_header stream nv NGHTTP2_HTTP_FLAG__PATH of
        (False, s) \<Rightarrow> reject s
      | (True, s) \<Rightarrow>
          on_header_end nv
            (if hn_value nv ! 0 = CH_SLASH then set_http_flag NGHTTP2_HTTP_FLAG_PATH_REGULAR s
             else if length (hn_value nv) = 1 \<and> hn_value nv ! 0 = CH_STAR
               then set_http_flag NGHTTP2_HTTP_FLAG_PATH_ASTERISK s
             else s))"

definition on_scheme :: "nghttp2_stream \<Rightarrow> nghttp2_hd_nv \<Rightarrow> on_header" where
  "on_scheme stream nv =
     (case check_pseudo_header stream nv NGHTTP2_HTTP_FLAG__SCHEME of
        (False, s) \<Rightarrow> reject s
      | (True, s) \<Rightarrow>
          on_header_end nv
            (if length (hn_value nv) = 4 \<and> memieq (lit ''http'') (hn_value nv) 4 \<or>
                length (hn_value nv) = 5 \<and> memieq (lit ''https'') (hn_value nv) 5
             then set_http_flag NGHTTP2_HTTP_FLAG_SCHEME_HTTP s else s))"

text \<open>The content length is stored before it is compared with -1.\<close>

definition on_content_length :: "nghttp2_stream \<Rightarrow> nghttp2_hd_nv \<Rightarrow> on_header" where
  "on_content_length stream nv =
     (if st_content_length stream \<noteq> - 1 then reject stream
      else
        let s = stream\<lparr>st_content_length := parse_uint (hn_value nv)\<rparr> in
        if st_content_length s = - 1 then reject s else on_header_end nv s)"

definition on_priority :: "nghttp2_stream \<Rightarrow> nghttp2_hd_nv \<Rightarrow> bool \<Rightarrow> on_header" where
  "on_priority stream nv trailer =
     (if \<not> trailer \<and> odd (st_stream_id stream) \<and> \<not> has_http_flag stream NGHTTP2_HTTP_FLAG_BAD_PRIORITY then
        (case nghttp2_http_parse_priority (nghttp2_extpri_from_uint8 (st_http_extpri stream)) (hn_value nv) of
           None \<Rightarrow> None
         | Some (Inr extpri) \<Rightarrow>
             on_header_end nv
               (set_http_flag NGHTTP2_HTTP_FLAG_PRIORITY
                  (stream\<lparr>st_http_extpri := nghttp2_extpri_to_uint8 extpri\<rparr>))
         | Some (Inl e) \<Rightarrow>
             on_header_end nv
               (set_http_flag NGHTTP2_HTTP_FLAG_BAD_PRIORITY
                  (clear_http_flag NGHTTP2_HTTP_FLAG_PRIORITY stream)))
      else on_header_end nv stream)"

definition on_te :: "nghttp2_stream \<Rightarrow> nghttp2_hd_nv \<Rightarrow> on_header" where
  "on_te stream nv =
     (if \<not> lstrieq ''trailers'' (hn_value nv) then reject stream else on_header_end nv stream)"

definition http_request_on_header ::
  "nghttp2_stream \<Rightarrow> nghttp2_hd_nv \<Rightarrow> bool \<Rightarrow> bool \<Rightarrow> on_header" where
  "http_request_on_header stream nv trailer connect_protocol =
     (if pseudo_misplaced stream nv trailer then reject stream
      else if hn_token nv = NGHTTP2_TOKEN__AUTHORITY then on_pseudo stream nv NGHTTP2_HTTP_FLAG__AUTHORITY
      else if hn_token nv = NGHTTP2_TOKEN__METHOD then on_method stream nv
      else if hn_token nv = NGHTTP2_TOKEN__PATH then on_path stream nv
      else if hn_token nv = NGHTTP2_TOKEN__SCHEME then on_scheme stream nv
      else if hn_token nv = NGHTTP2_TOKEN__PROTOCOL then
        (if \<not> connect_protocol then reject stream else on_pseudo stream nv NGHTTP2_HTTP_FLAG__PROTOCOL)
      else if hn_token nv = NGHTTP2_TOKEN_HOST then on_pseudo stream nv NGHTTP2_HTTP_FLAG_HOST
      else if hn_token nv = NGHTTP2_TOKEN_CONTENT_LENGTH then on_content_length stream nv
      else if disallowed_field (hn_token nv) then reject stream
      else if hn_token nv = NGHTTP2_TOKEN_TE then on_te stream nv
      else if hn_token nv = NGHTTP2_TOKEN_PRIORITY then on_priority stream nv trailer
      else if hn_name nv ! 0 = CH_COLON then reject stream
      else on_header_end nv stream)"

section \<open>A field of a response\<close>

definition on_status :: "nghttp2_stream \<Rightarrow> nghttp2_hd_nv \<Rightarrow> on_header" where
  "on_status stream nv =
     (case check_pseudo_header stream nv NGHTTP2_HTTP_FLAG__STATUS of
        (False, s) \<Rightarrow> reject s
      | (True, s) \<Rightarrow>
          if length (hn_value nv) \<noteq> 3 then reject s
          else
            let s = s\<lparr>st_status_code := int16 (parse_uint (hn_value nv))\<rparr> in
            if st_status_code s = - 1 \<or> st_status_code s = 101 then reject s else on_header_end nv s)"

definition on_response_content_length :: "nghttp2_stream \<Rightarrow> nghttp2_hd_nv \<Rightarrow> on_header" where
  "on_response_content_length stream nv =
     (if st_status_code stream = 204 then
        (if st_content_length stream \<noteq> - 1 then reject stream
         else if \<not> lstrieq ''0'' (hn_value nv) then reject stream
         else Some (Inl ERR_REMOVE_HTTP_HEADER, stream\<lparr>st_content_length := 0\<rparr>))
      else if status_class stream = 1 then reject stream
      else if status_class stream = 2 \<and> has_http_flag stream NGHTTP2_HTTP_FLAG_METH_CONNECT
        then Some (Inl ERR_REMOVE_HTTP_HEADER, stream)
      else on_content_length stream nv)"

definition http_response_on_header :: "nghttp2_stream \<Rightarrow> nghttp2_hd_nv \<Rightarrow> bool \<Rightarrow> on_header" where
  "http_response_on_header stream nv trailer =
     (if pseudo_misplaced stream nv trailer then reject stream
      else if hn_token nv = NGHTTP2_TOKEN__STATUS then on_status stream nv
      else if hn_token nv = NGHTTP2_TOKEN_CONTENT_LENGTH then on_response_content_length stream nv
      else if disallowed_field (hn_token nv) then reject stream
      else if hn_token nv = NGHTTP2_TOKEN_TE then on_te stream nv
      else if hn_name nv ! 0 = CH_COLON then reject stream
      else on_header_end nv stream)"

section \<open>A field of a header block\<close>

fun check_scheme_chars :: "bytes \<Rightarrow> bool" where
  "check_scheme_chars [] = True"
| "check_scheme_chars (c # s) =
     (if \<not> (0x41 \<le> c \<and> c \<le> 0x5a \<or> 0x61 \<le> c \<and> c \<le> 0x7a \<or> 0x30 \<le> c \<and> c \<le> 0x39 \<or>
            c = CH_PLUS \<or> c = CH_MINUS \<or> c = CH_DOT) then False
      else check_scheme_chars s)"

fun check_scheme :: "bytes \<Rightarrow> bool" where
  "check_scheme [] = False"
| "check_scheme (c # s) =
     (if \<not> (0x41 \<le> c \<and> c \<le> 0x5a \<or> 0x61 \<le> c \<and> c \<le> 0x7a) then False else check_scheme_chars s)"

fun lws :: "bytes \<Rightarrow> bool" where
  "lws [] = True"
| "lws (c # s) = (if c \<noteq> CH_SP \<and> c \<noteq> CH_HT then False else lws s)"

definition HTTP_VALID_AUTHORITY_CHARS :: "nat list" where
  "HTTP_VALID_AUTHORITY_CHARS = [
  0, 0, 0, 0, 0, 0, 0, 0, 0, 0, 0, 0, 0, 0, 0, 0, 0, 0, 0, 0, 0, 0, 0, 0, 0, 0, 0, 0, 0, 0, 0,
  0, 0, 1, 0, 0, 1, 1, 1, 1, 1, 1, 1, 1, 1, 1, 1, 0, 1, 1, 1, 1, 1, 1, 1, 1, 1, 1, 1, 1, 0, 1,
  0, 0, 0, 1, 1, 1, 1, 1, 1, 1, 1, 1, 1, 1, 1, 1, 1, 1, 1, 1, 1, 1, 1, 1, 1, 1, 1, 1, 1, 1, 0,
  1, 0, 1, 0, 1, 1, 1, 1, 1, 1, 1, 1, 1, 1, 1, 1, 1, 1, 1, 1, 1, 1, 1, 1, 1, 1, 1, 1, 1, 1, 0,
  0, 0, 1, 0, 0, 0, 0, 0, 0, 0, 0, 0, 0, 0, 0, 0, 0, 0, 0, 0, 0, 0, 0, 0, 0, 0, 0, 0, 0, 0, 0,
  0, 0, 0, 0, 0, 0, 0, 0, 0, 0, 0, 0, 0, 0, 0, 0, 0, 0, 0, 0, 0, 0, 0, 0, 0, 0, 0, 0, 0, 0, 0,
  0, 0, 0, 0, 0, 0, 0, 0, 0, 0, 0, 0, 0, 0, 0, 0, 0, 0, 0, 0, 0, 0, 0, 0, 0, 0, 0, 0, 0, 0, 0,
  0, 0, 0, 0, 0, 0, 0, 0, 0, 0, 0, 0, 0, 0, 0, 0, 0, 0, 0, 0, 0, 0, 0, 0, 0, 0, 0, 0, 0, 0, 0,
  0, 0, 0, 0, 0, 0, 0, 0]"

definition check_authority :: "bytes \<Rightarrow> bool" where
  "check_authority val = check_chars HTTP_VALID_AUTHORITY_CHARS val"

text \<open>The loop that looks for an upper-case letter in a name.\<close>

fun has_upper :: "bytes \<Rightarrow> bool" where
  "has_upper [] = False"
| "has_upper (c # s) = (if 0x41 \<le> c \<and> c \<le> 0x5a then True else has_upper s)"

definition no_rfc9113_validation :: "nghttp2_stream \<Rightarrow> bool" where
  "no_rfc9113_validation stream \<longleftrightarrow>
     st_flags stream AND STREAM_FLAG_NO_RFC9113_LEADING_AND_TRAILING_WS_VALIDATION \<noteq> 0"

definition check_field_value :: "nghttp2_stream \<Rightarrow> bytes \<Rightarrow> bool" where
  "check_field_value stream val =
     (if no_rfc9113_validation stream then nghttp2_check_header_value val
      else nghttp2_check_header_value_rfc9113 val)"

text \<open>The \<open>switch\<close> that computes \<open>rv\<close> from the value of the field.\<close>

definition check_value :: "bool \<Rightarrow> nghttp2_stream \<Rightarrow> u8 \<Rightarrow> nghttp2_hd_nv \<Rightarrow> bool" where
  "check_value server stream frame_type nv =
     (if hn_token nv = NGHTTP2_TOKEN__METHOD then nghttp2_check_method (hn_value nv)
      else if hn_token nv = NGHTTP2_TOKEN__PATH then nghttp2_check_path (hn_value nv)
      else if hn_token nv = NGHTTP2_TOKEN__AUTHORITY \<or> hn_token nv = NGHTTP2_TOKEN_HOST then
        (if server \<or> frame_type = NGHTTP2_PUSH_PROMISE then check_authority (hn_value nv)
         else check_field_value stream (hn_value nv))
      else if hn_token nv = NGHTTP2_TOKEN__SCHEME then check_scheme (hn_value nv)
      else if hn_token nv = NGHTTP2_TOKEN__PROTOCOL \<and> no_rfc9113_validation stream \<and> lws (hn_value nv) then False
      else check_field_value stream (hn_value nv))"

definition ignore_field :: "nghttp2_stream \<Rightarrow> on_header" where
  "ignore_field stream =
     Some (Inl ERR_IGN_HTTP_HEADER, set_http_flag NGHTTP2_HTTP_FLAG_PSEUDO_HEADER_DISALLOWED stream)"

definition nghttp2_http_on_header ::
  "bool \<Rightarrow> bool \<Rightarrow> nghttp2_stream \<Rightarrow> u8 \<Rightarrow> nghttp2_hd_nv \<Rightarrow> bool \<Rightarrow> on_header" where
  "nghttp2_http_on_header server pending_enable_connect_protocol stream frame_type nv trailer =
     (if \<not> nghttp2_check_header_name (hn_name nv) then
        (if 0 < length (hn_name nv) \<and> hn_name nv ! 0 = CH_COLON then reject stream
         else if has_upper (hn_name nv) then reject stream
         else ignore_field stream)
      else if \<not> check_value server stream frame_type nv then
        (if length (hn_name nv) = 0 then None
         else if hn_name nv ! 0 = CH_COLON then reject stream
         else ignore_field stream)
      else if server \<or> frame_type = NGHTTP2_PUSH_PROMISE then
        http_request_on_header stream nv trailer (server \<and> pending_enable_connect_protocol)
      else http_response_on_header stream nv trailer)"

section \<open>The end of a header block, of the body and of the stream\<close>

text \<open>These functions return 0 or -1; the Boolean tells whether it is 0.\<close>

definition nghttp2_http_on_request_headers :: "nghttp2_stream \<Rightarrow> u8 \<Rightarrow> bool \<times> nghttp2_stream" where
  "nghttp2_http_on_request_headers stream frame_type =
     (let promised = (\<lambda>s. (True, if frame_type = NGHTTP2_PUSH_PROMISE
                          then s\<lparr>st_http_flags := st_http_flags s AND NGHTTP2_HTTP_FLAG_METH_ALL, st_content_length := - 1\<rparr>
                          else s))
      in
      if \<not> has_http_flag stream NGHTTP2_HTTP_FLAG__PROTOCOL \<and> has_http_flag stream NGHTTP2_HTTP_FLAG_METH_CONNECT then
        (if has_http_flag stream (NGHTTP2_HTTP_FLAG__SCHEME OR NGHTTP2_HTTP_FLAG__PATH) \<or>
            \<not> has_http_flag stream NGHTTP2_HTTP_FLAG__AUTHORITY
         then (False, stream)
         else promised (stream\<lparr>st_content_length := - 1\<rparr>))
      else if st_http_flags stream AND NGHTTP2_HTTP_FLAG_REQ_HEADERS \<noteq> NGHTTP2_HTTP_FLAG_REQ_HEADERS \<or>
              \<not> has_http_flag stream (NGHTTP2_HTTP_FLAG__AUTHORITY OR NGHTTP2_HTTP_FLAG_HOST)
        then (False, stream)
      else if has_http_flag stream NGHTTP2_HTTP_FLAG__PROTOCOL \<and>
              (\<not> has_http_flag stream NGHTTP2_HTTP_FLAG_METH_CONNECT \<or>
               \<not> has_http_flag stream NGHTTP2_HTTP_FLAG__AUTHORITY)
        then (False, stream)
      else if \<not> check_path stream then (False, stream)
      else promised stream)"

definition nghttp2_http_on_response_headers :: "nghttp2_stream \<Rightarrow> bool \<times> nghttp2_stream" where
  "nghttp2_http_on_response_headers stream =
     (if \<not> has_http_flag stream NGHTTP2_HTTP_FLAG__STATUS then (False, stream)
      else if status_class stream = 1 then
        (True, stream\<lparr>st_http_flags := (st_http_flags stream AND NGHTTP2_HTTP_FLAG_METH_ALL)
                        OR NGHTTP2_HTTP_FLAG_EXPECT_FINAL_RESPONSE,
                      st_content_length := - 1, st_status_code := - 1\<rparr>)
      else
        let s = clear_http_flag NGHTTP2_HTTP_FLAG_EXPECT_FINAL_RESPONSE stream in
        if \<not> expect_response_body s then (True, s\<lparr>st_content_length := 0\<rparr>)
        else if has_http_flag s (NGHTTP2_HTTP_FLAG_METH_CONNECT OR NGHTTP2_HTTP_FLAG_METH_UPGRADE_WORKAROUND)
          then (True, s\<lparr>st_content_length := - 1\<rparr>)
        else (True, s))"

definition nghttp2_http_on_trailer_headers :: "nghttp2_stream \<Rightarrow> nghttp2_frame_hd \<Rightarrow> bool" where
  "nghttp2_http_on_trailer_headers stream frame_hd =
     (if hd_flags frame_hd AND NGHTTP2_FLAG_END_STREAM = 0 then False else True)"

definition nghttp2_http_on_remote_end_stream :: "nghttp2_stream \<Rightarrow> bool" where
  "nghttp2_http_on_remote_end_stream stream =
     (if has_http_flag stream NGHTTP2_HTTP_FLAG_EXPECT_FINAL_RESPONSE then False
      else if st_content_length stream \<noteq> - 1 \<and> st_content_length stream \<noteq> st_recv_content_length stream then False
      else True)"

text \<open>Adding to an \<open>int64_t\<close>; the conversion of a \<open>size_t\<close> wraps around.\<close>

definition i64 :: "int \<Rightarrow> int option" where
  "i64 x = (if - INT64_MAX - 1 \<le> x \<and> x \<le> INT64_MAX then Some x else None)"

definition int64_of_size :: "nat \<Rightarrow> int" where
  "int64_of_size n = (int n + 2 ^ 63) mod 2 ^ 64 - 2 ^ 63"

definition nghttp2_http_on_data_chunk :: "nghttp2_stream \<Rightarrow> nat \<Rightarrow> (bool \<times> nghttp2_stream) option" where
  "nghttp2_http_on_data_chunk stream n =
     (case i64 (st_recv_content_length stream + int64_of_size n) of
        None \<Rightarrow> None
      | Some received \<Rightarrow>
          let s = stream\<lparr>st_recv_content_length := received\<rparr> in
          Some
            (if has_http_flag s NGHTTP2_HTTP_FLAG_EXPECT_FINAL_RESPONSE \<or>
                st_content_length s \<noteq> - 1 \<and> st_recv_content_length s > st_content_length s
             then False else True, s))"

section \<open>The method of a request that is sent\<close>

text \<open>The loop over the fields: the first one named \<open>:method\<close> ends it.\<close>

fun record_method_loop :: "nghttp2_nv list \<Rightarrow> nghttp2_stream \<Rightarrow> nghttp2_stream" where
  "record_method_loop [] stream = stream"
| "record_method_loop (nv # nva) stream =
     (if \<not> (length (nv_name nv) = 7 \<and> nv_name nv ! 6 = 0x64 \<and>
            memcmp (lit '':metho'') (nv_name nv) (length (nv_name nv) - 1) = 0)
      then record_method_loop nva stream
      else if lstreq ''CONNECT'' (nv_value nv) then set_http_flag NGHTTP2_HTTP_FLAG_METH_CONNECT stream
      else if lstreq ''HEAD'' (nv_value nv) then set_http_flag NGHTTP2_HTTP_FLAG_METH_HEAD stream
      else stream)"

text \<open>The two members of the union \<open>nghttp2_frame\<close> that are read, by the type of the frame.\<close>

datatype frame_with_fields = Headers_Frame nghttp2_headers | Push_Promise_Frame nghttp2_push_promise | Other_Frame u8

fun nghttp2_http_record_request_method :: "nghttp2_stream \<Rightarrow> frame_with_fields \<Rightarrow> nghttp2_stream" where
  "nghttp2_http_record_request_method stream (Headers_Frame f) = record_method_loop (headers_nva f) stream"
| "nghttp2_http_record_request_method stream (Push_Promise_Frame f) = record_method_loop (push_nva f) stream"
| "nghttp2_http_record_request_method stream (Other_Frame _) = stream"

end
