(* ===== verification/Nghttp2_Http_Fields.thy ===== *)
theory Nghttp2_Http_Fields
  imports Nghttp2_Http Sfparse_Sound
begin

text \<open>
  What nghttp2_http.c accepts of a single field: numbers, the priority field, the fields of a request. The rules
  for whole header blocks follow in the next theories.
\<close>

unbundle bit_operations_syntax

section \<open>Flags as sets of bits\<close>

lemma and_bit_flag: "(w :: u32) AND push_bit n 1 \<noteq> 0 \<longleftrightarrow> bit w n"
  by (simp add: bit_iff_and_push_bit_not_eq_0)

lemma and_or_flag: "(w :: u32) AND (a OR b) \<noteq> 0 \<longleftrightarrow> w AND a \<noteq> 0 \<or> w AND b \<noteq> 0"
  by (auto simp: bit_eq_iff bit_simps)

lemma bit_flag: "bit (push_bit m 1 :: u32) n \<longleftrightarrow> n = m \<and> n < 32"
  by (auto simp: bit_simps)

lemma flag_bits:
  "has_http_flag s NGHTTP2_HTTP_FLAG__AUTHORITY \<longleftrightarrow> bit (st_http_flags s) 0"
  "has_http_flag s NGHTTP2_HTTP_FLAG__PATH \<longleftrightarrow> bit (st_http_flags s) 1"
  "has_http_flag s NGHTTP2_HTTP_FLAG__METHOD \<longleftrightarrow> bit (st_http_flags s) 2"
  "has_http_flag s NGHTTP2_HTTP_FLAG__SCHEME \<longleftrightarrow> bit (st_http_flags s) 3"
  "has_http_flag s NGHTTP2_HTTP_FLAG_HOST \<longleftrightarrow> bit (st_http_flags s) 4"
  "has_http_flag s NGHTTP2_HTTP_FLAG__STATUS \<longleftrightarrow> bit (st_http_flags s) 5"
  "has_http_flag s NGHTTP2_HTTP_FLAG_PSEUDO_HEADER_DISALLOWED \<longleftrightarrow> bit (st_http_flags s) 6"
  "has_http_flag s NGHTTP2_HTTP_FLAG_METH_CONNECT \<longleftrightarrow> bit (st_http_flags s) 7"
  "has_http_flag s NGHTTP2_HTTP_FLAG_METH_HEAD \<longleftrightarrow> bit (st_http_flags s) 8"
  "has_http_flag s NGHTTP2_HTTP_FLAG_METH_OPTIONS \<longleftrightarrow> bit (st_http_flags s) 9"
  "has_http_flag s NGHTTP2_HTTP_FLAG_METH_UPGRADE_WORKAROUND \<longleftrightarrow> bit (st_http_flags s) 10"
  "has_http_flag s NGHTTP2_HTTP_FLAG_PATH_REGULAR \<longleftrightarrow> bit (st_http_flags s) 11"
  "has_http_flag s NGHTTP2_HTTP_FLAG_PATH_ASTERISK \<longleftrightarrow> bit (st_http_flags s) 12"
  "has_http_flag s NGHTTP2_HTTP_FLAG_SCHEME_HTTP \<longleftrightarrow> bit (st_http_flags s) 13"
  "has_http_flag s NGHTTP2_HTTP_FLAG_EXPECT_FINAL_RESPONSE \<longleftrightarrow> bit (st_http_flags s) 14"
  "has_http_flag s NGHTTP2_HTTP_FLAG__PROTOCOL \<longleftrightarrow> bit (st_http_flags s) 15"
  "has_http_flag s NGHTTP2_HTTP_FLAG_BAD_PRIORITY \<longleftrightarrow> bit (st_http_flags s) 17"
  unfolding has_http_flag_def http_flags by (rule and_bit_flag)+

lemma has_flag_or: "has_http_flag s (a OR b) \<longleftrightarrow> has_http_flag s a \<or> has_http_flag s b"
  by (simp add: has_http_flag_def and_or_flag)

lemma set_flag_bits [simp]:
  "bit (st_http_flags (set_http_flag f s)) n \<longleftrightarrow> bit (st_http_flags s) n \<or> bit f n"
  "bit (st_http_flags (clear_http_flag f s)) n \<longleftrightarrow> n < 32 \<and> bit (st_http_flags s) n \<and> \<not> bit f n"
  by (auto simp: set_http_flag_def clear_http_flag_def bit_simps dest: bit_imp_le_length)

lemma set_flag_other [simp]:
  "st_content_length (set_http_flag f s) = st_content_length s"
  "st_recv_content_length (set_http_flag f s) = st_recv_content_length s"
  "st_stream_id (set_http_flag f s) = st_stream_id s"
  "st_status_code (set_http_flag f s) = st_status_code s"
  "st_flags (set_http_flag f s) = st_flags s"
  "st_http_extpri (set_http_flag f s) = st_http_extpri s"
  "st_content_length (clear_http_flag f s) = st_content_length s"
  "st_recv_content_length (clear_http_flag f s) = st_recv_content_length s"
  "st_stream_id (clear_http_flag f s) = st_stream_id s"
  "st_status_code (clear_http_flag f s) = st_status_code s"
  "st_flags (clear_http_flag f s) = st_flags s"
  "st_http_extpri (clear_http_flag f s) = st_http_extpri s"
  by (simp_all add: set_http_flag_def clear_http_flag_def)

section \<open>Numbers\<close>

definition is_decimal :: "bytes \<Rightarrow> bool" where
  "is_decimal s \<longleftrightarrow> s \<noteq> [] \<and> list_all (\<lambda>c. is_digit (uint c)) s"

definition decimal :: "bytes \<Rightarrow> int" where
  "decimal s = foldl (\<lambda>n c. 10 * n + (uint c - 48)) 0 s"

lemma digit_range: "0x30 \<le> c \<and> c \<le> 0x39 \<longleftrightarrow> is_digit (uint (c :: u8))"
  by (simp add: is_digit_def word_le_def)

lemma decimal_grows: "0 \<le> n \<Longrightarrow> list_all (\<lambda>c. is_digit (uint c)) s \<Longrightarrow> n \<le> foldl (\<lambda>n c. 10 * n + (uint c - 48)) n s"
proof (induction s arbitrary: n)
  case (Cons c s)
  then have "0 \<le> uint c - 48" by (simp add: is_digit_def)
  then have "n \<le> 10 * n + (uint c - 48)" and "0 \<le> 10 * n + (uint c - 48)" using Cons.prems(1) by simp_all
  then show ?case using Cons by (simp, blast intro: order_trans)
qed simp

lemma parse_uint_loop_exact:
  assumes "0 \<le> n" and "n \<le> INT64_MAX"
  shows "parse_uint_loop n s =
    (if list_all (\<lambda>c. is_digit (uint c)) s \<and> foldl (\<lambda>n c. 10 * n + (uint c - 48)) n s \<le> INT64_MAX
     then foldl (\<lambda>n c. 10 * n + (uint c - 48)) n s else - 1)"
  using assms
proof (induction s arbitrary: n)
  case (Cons c s)
  show ?case
  proof (cases "is_digit (uint c)")
    case d: True
    let ?m = "10 * n + (uint c - 48)"
    have m: "0 \<le> ?m" using d Cons.prems by (simp add: is_digit_def)
    have big: "\<not> foldl (\<lambda>n c. 10 * n + (uint c - 48)) ?m s \<le> INT64_MAX"
      if "INT64_MAX < ?m" "list_all (\<lambda>c. is_digit (uint c)) s"
      using decimal_grows [OF m that(2)] that(1) by linarith
    have l: "parse_uint_loop n (c # s) = (if ?m \<le> INT64_MAX then parse_uint_loop ?m s else - 1)"
      using d Cons.prems unfolding parse_uint_loop.simps digit_range
      by (simp add: INT64_MAX_def is_digit_def Let_def algebra_simps)
    show ?thesis
    proof (cases "?m \<le> INT64_MAX")
      case True
      then show ?thesis using Cons.IH [OF m] d l by simp
    next
      case False
      then show ?thesis using big d l by auto
    qed
  next
    case False
    then show ?thesis unfolding parse_uint_loop.simps digit_range by simp
  qed
qed simp

lemma parse_uint_exact:
  "parse_uint s = (if is_decimal s \<and> decimal s \<le> INT64_MAX then decimal s else - 1)"
  using parse_uint_loop_exact [of 0 s] by (simp add: parse_uint_def is_decimal_def decimal_def INT64_MAX_def)

lemma decimal_nonneg: "is_decimal s \<Longrightarrow> 0 \<le> decimal s"
  using decimal_grows [of 0 s] by (simp add: is_decimal_def decimal_def)

section \<open>The priority field\<close>

text \<open>
  What the code makes of a dictionary: of equal keys the last one counts, members with other keys are
  ignored, and one member \<open>u\<close> that is no integer from 0 to 7, or one member \<open>i\<close> that is no
  Boolean, makes the whole field invalid. RFC 9218 (section 4) has such parameters ignored instead.
\<close>

definition KEY_U :: bytes where "KEY_U = lit ''u''"

definition KEY_I :: bytes where "KEY_I = lit ''i''"

fun urgency_ok :: "sf_bare option \<Rightarrow> bool" where
  "urgency_ok (Some (Sf_Integer n)) \<longleftrightarrow> 0 \<le> n \<and> n \<le> 7"
| "urgency_ok _ \<longleftrightarrow> False"

fun inc_ok :: "sf_bare option \<Rightarrow> bool" where
  "inc_ok (Some (Sf_Boolean b)) \<longleftrightarrow> True"
| "inc_ok _ \<longleftrightarrow> False"

fun priority_member_ok :: "bytes \<times> sf_bare option \<Rightarrow> bool" where
  "priority_member_ok (k, m) \<longleftrightarrow> (k = KEY_I \<longrightarrow> inc_ok m) \<and> (k = KEY_U \<longrightarrow> urgency_ok m)"

lemma priority_types [simp]:
  "inc_ok m \<longleftrightarrow> (\<exists>b. m = Some (Sf_Boolean b))"
  "urgency_ok m \<longleftrightarrow> (\<exists>n. m = Some (Sf_Integer n) \<and> 0 \<le> n \<and> n \<le> 7)"
  by (cases m rule: inc_ok.cases, auto) (cases m rule: urgency_ok.cases, auto)

definition last_urgency :: "(bytes \<times> sf_bare option) list \<Rightarrow> u32 \<Rightarrow> u32" where
  "last_urgency ms dflt = (case map_of (rev ms) KEY_U of Some (Some (Sf_Integer n)) \<Rightarrow> word_of_int n | _ \<Rightarrow> dflt)"

definition last_inc :: "(bytes \<times> sf_bare option) list \<Rightarrow> int \<Rightarrow> int" where
  "last_inc ms dflt = (case map_of (rev ms) KEY_I of Some (Some (Sf_Boolean b)) \<Rightarrow> of_bool b | _ \<Rightarrow> dflt)"

definition member_heads :: "sf_dict \<Rightarrow> (bytes \<times> sf_bare option) list" where
  "member_heads d = map (\<lambda>(k, m). (k, member_head m)) d"

definition priority_of :: "nghttp2_extpri \<Rightarrow> (bytes \<times> sf_bare option) list \<Rightarrow> nghttp2_extpri option" where
  "priority_of pri ms =
     (if list_all priority_member_ok ms
      then Some (pri\<lparr>ep_urgency := last_urgency ms (ep_urgency pri), ep_inc := last_inc ms (ep_inc pri)\<rparr>)
      else None)"

lemma number_no_boolean: "parser_number bs = Some (Inr v, r) \<Longrightarrow> v \<noteq> TYPE_BOOLEAN b"
  by (auto simp: parser_number_def Let_def split: sum.split_asm if_split_asm prod.split_asm)

lemma no_boolean:
  "parser_date bs = Some (Inr v, r) \<Longrightarrow> v \<noteq> TYPE_BOOLEAN b"
  "parser_string bs = Some (Inr v, r) \<Longrightarrow> v \<noteq> TYPE_BOOLEAN b"
  "parser_token bs = Some (Inr v, r) \<Longrightarrow> v \<noteq> TYPE_BOOLEAN b"
  "parser_byteseq bs = Some (Inr v, r) \<Longrightarrow> v \<noteq> TYPE_BOOLEAN b"
  "parser_dispstring bs = Some (Inr v, r) \<Longrightarrow> v \<noteq> TYPE_BOOLEAN b"
      apply (auto simp: parser_date_def sf_bind_eq_Some split: if_split_asm sfparse_value.split_asm)[1]
      subgoal for x by (cases x) auto
     apply (auto simp: parser_string_def Let_def split: if_split_asm prod.split_asm sum.split_asm)[1]
    apply (auto simp: parser_token_def Let_def split: if_split_asm)[1]
   apply (auto simp: parser_byteseq_def Let_def split: if_split_asm prod.split_asm sum.split_asm)[1]
  apply (auto simp: parser_dispstring_def Let_def sf_bind_eq_Some split: if_split_asm prod.split_asm sum.split_asm option.split_asm)[1]
  done

lemma boolean_range: "parser_boolean bs = Some (Inr (TYPE_BOOLEAN b), r) \<Longrightarrow> b \<in> {0, 1}"
  by (auto simp: parser_boolean_def split: if_split_asm list.split_asm)

lemma bare_item_boolean: "parser_bare_item bs = Some (Inr (TYPE_BOOLEAN b), r) \<Longrightarrow> b \<in> {0, 1}"
  by (auto simp: parser_bare_item_def dest: boolean_range no_boolean number_no_boolean split: if_split_asm list.split_asm)

lemma dict_boolean: "sfparse_parser_dict s = Some (Inr (k, TYPE_BOOLEAN b), s') \<Longrightarrow> b \<in> {0, 1}"
  by (auto simp: sfparse_parser_dict_def sf_bind_eq_Some on_pos_eq_Some parser_dict_value_def parser_member_def Let_def
      dest: bare_item_boolean split: if_split_asm)

lemma priority_member_spec:
  assumes "sfparse_parser_dict s = Some (Inr (k, v), s')"
  shows "priority_member (k, v) pri =
    (if priority_member_ok (k, sf_decode v) then
       Some (if k = KEY_I then pri\<lparr>ep_inc := last_inc [(k, sf_decode v)] 0\<rparr>
             else if k = KEY_U then pri\<lparr>ep_urgency := last_urgency [(k, sf_decode v)] 0\<rparr> else pri)
     else None)"
proof -
  have "length k = 1 \<and> k ! 0 = c \<longleftrightarrow> k = [c]" for c by (cases k) auto
  then show ?thesis using dict_boolean [of s k _ s'] assms
    by (cases v) (auto simp: priority_member_def KEY_I_def KEY_U_def lit_def last_inc_def last_urgency_def
        NGHTTP2_EXTPRI_URGENCY_HIGH_def NGHTTP2_EXTPRI_URGENCY_LOW_def)
qed

lemma last_nothing [simp]: "last_urgency [] d = d" "last_inc [] e = e"
  by (simp_all add: last_urgency_def last_inc_def)

lemma last_Cons:
  assumes "list_all priority_member_ok ms" and "priority_member_ok (k, m)"
  shows "last_urgency ((k, m) # ms) d = last_urgency ms (if k = KEY_U then last_urgency [(k, m)] 0 else d)"
    and "last_inc ((k, m) # ms) e = last_inc ms (if k = KEY_I then last_inc [(k, m)] 0 else e)"
proof -
  have ok: "priority_member_ok (c, x)" if "map_of (rev ms) c = Some x" for c x
    using map_of_SomeD [OF that] assms(1) by (auto simp: list_all_iff)
  show "last_urgency ((k, m) # ms) d = last_urgency ms (if k = KEY_U then last_urgency [(k, m)] 0 else d)"
    using ok [of KEY_U] assms(2) by (cases "map_of (rev ms) KEY_U") (auto simp: last_urgency_def map_add_def split: option.splits)
  show "last_inc ((k, m) # ms) e = last_inc ms (if k = KEY_I then last_inc [(k, m)] 0 else e)"
    using ok [of KEY_I] assms(2) by (cases "map_of (rev ms) KEY_I") (auto simp: last_inc_def map_add_def split: option.splits)
qed

lemma keys_differ: "KEY_I \<noteq> KEY_U"
  by (simp add: KEY_I_def KEY_U_def lit_def)

lemma priority_of_Cons:
  "priority_of pri ((k, m) # ms) =
    (if priority_member_ok (k, m) then
       priority_of (if k = KEY_I then pri\<lparr>ep_inc := last_inc [(k, m)] 0\<rparr>
             else if k = KEY_U then pri\<lparr>ep_urgency := last_urgency [(k, m)] 0\<rparr> else pri) ms
     else None)"
proof (cases "list_all priority_member_ok ms \<and> priority_member_ok (k, m)")
  case True
  then have "list_all priority_member_ok ms" "priority_member_ok (k, m)" by simp_all
  note l = last_Cons [OF this]
  show ?thesis using True keys_differ
    unfolding priority_of_def list.pred_inject l by (simp del: priority_member_ok.simps)
next
  case False
  then show ?thesis by (auto simp: priority_of_def simp del: priority_member_ok.simps)
qed

lemma parse_priority_loop_scan:
  assumes "at_start SFPARSE_STATE_DICT s \<or> at_member SFPARSE_STATE_DICT s"
  shows "parse_priority_loop s pri =
    (case map_option (map (\<lambda>(k, v). (k, sf_decode v))) (sf_scan_dict_from s) of
       None \<Rightarrow> Some (Inl ERR_INVALID_ARGUMENT)
     | Some ms \<Rightarrow> (case priority_of pri ms of None \<Rightarrow> Some (Inl ERR_INVALID_ARGUMENT) | Some p \<Rightarrow> Some (Inr p)))"
  using assms
proof (induction s arbitrary: pri rule: sf_scan_dict_from.induct)
  case (1 s)
  consider (eof) t where "sfparse_parser_dict s = Some (Inl SFPARSE_ERR_EOF, t)"
    | (err) t where "sfparse_parser_dict s = Some (Inl SFPARSE_ERR_PARSE, t)"
    | (mem) k v t where "sfparse_parser_dict s = Some (Inr (k, v), t)" "at_member SFPARSE_STATE_DICT t"
    using dict_outcome [OF 1(2)] by (auto simp: sf_outcome_def)
  then show ?case
  proof cases
    case eof
    then show ?thesis
      by (simp add: parse_priority_loop.simps sf_scan_dict_from.simps priority_of_def last_urgency_def last_inc_def)
  next
    case err
    then show ?thesis by (simp add: parse_priority_loop.simps sf_scan_dict_from.simps)
  next
    case mem
    note IH = 1(1) [OF mem(1) refl refl disjI2 [OF mem(2)]]
    note spec = priority_member_spec [OF mem(1)]
    show ?thesis
      using mem(1) spec IH
      by (cases "sf_scan_dict_from t")
        (simp_all add: parse_priority_loop.simps [of s] sf_scan_dict_from.simps [of s] priority_of_Cons
          del: priority_member_ok.simps)
  qed
qed

lemma parse_priority_exact:
  "nghttp2_http_parse_priority dest data =
     Some (case sf_read_dict data of
        None \<Rightarrow> Inl ERR_INVALID_ARGUMENT
      | Some d \<Rightarrow> (case priority_of dest (member_heads d) of None \<Rightarrow> Inl ERR_INVALID_ARGUMENT | Some p \<Rightarrow> Inr p))"
proof -
  have "at_start SFPARSE_STATE_DICT (sfparse_parser_init data)"
    by (simp add: at_start_def sfparse_parser_init_def sf_kinds_def)
  then show ?thesis
    using parse_priority_loop_scan [of "sfparse_parser_init data" dest]
    unfolding nghttp2_http_parse_priority_def sf_scan_dict_from_read sf_read_dict_def
    by (auto simp: member_heads_def split: option.splits)
qed

text \<open>
  C19. The priority field is read strictly, on every input: a bad parameter makes the whole field invalid, where RFC 9218
  (section 4) has it ignored. If the value is no dictionary
  of RFC 9651, or some member \<open>u\<close> is no integer from 0 to 7, or some member \<open>i\<close> no Boolean, the function
  returns INVALID_ARGUMENT and stores nothing, not even the members that are right. Else the last member \<open>u\<close> gives the
  urgency and the last member \<open>i\<close> the incremental flag, each staying as it was when there is none; other members,
  parameters and inner lists do not matter. The parser never fails an assertion or reads past the end on the way.
\<close>

theorem priority_field_exact:
  "nghttp2_http_parse_priority dest data =
     Some (case sf_read_dict data of
        None \<Rightarrow> Inl ERR_INVALID_ARGUMENT
      | Some d \<Rightarrow> (case priority_of dest (member_heads d) of None \<Rightarrow> Inl ERR_INVALID_ARGUMENT | Some p \<Rightarrow> Inr p)) \<and>
   nghttp2_extpri_parse_priority dest data = nghttp2_http_parse_priority dest data"
  using parse_priority_exact by (simp add: nghttp2_extpri_parse_priority_def)

text \<open>A good field, one that repeats a key and holds an unknown one, and three bad ones that lose the good member \<open>i\<close>.\<close>

theorem priority_field_exact_witness:
  "nghttp2_http_parse_priority \<lparr>ep_urgency = 3, ep_inc = 0\<rparr> (lit ''u=2, i'') = Some (Inr \<lparr>ep_urgency = 2, ep_inc = 1\<rparr>) \<and>
   nghttp2_http_parse_priority \<lparr>ep_urgency = 3, ep_inc = 1\<rparr> (lit ''u=7,x=(u i),u=0;i=?0'') =
     Some (Inr \<lparr>ep_urgency = 0, ep_inc = 1\<rparr>) \<and>
   list_all (\<lambda>v. nghttp2_http_parse_priority \<lparr>ep_urgency = 3, ep_inc = 0\<rparr> (lit v) = Some (Inl ERR_INVALID_ARGUMENT))
     [''i, u=9'', ''i, u=?1'', ''i, u='']"
  unfolding list.pred_inject conjunct1 [OF priority_field_exact] by code_simp

section \<open>The fields of a request\<close>

subsection \<open>The rules\<close>

text \<open>
  Names are written as strings. A field is a pair of name and value, as in the tables of HPACK. \<open>relaxed\<close>
  tells whether the stream accepts white space around a value.
\<close>

definition pseudo :: "hfield \<Rightarrow> bool" where
  "pseudo f \<longleftrightarrow> fst f \<noteq> [] \<and> hd (fst f) = CH_COLON"

definition upper_case :: "bytes \<Rightarrow> bool" where
  "upper_case name \<longleftrightarrow> list_ex (\<lambda>c. is_upper (uint c)) name"

definition plain_value :: "bool \<Rightarrow> bytes \<Rightarrow> bool" where
  "plain_value relaxed v \<longleftrightarrow>
     list_all (\<lambda>c. value_char (uint c)) v \<and>
     (relaxed \<or> v = [] \<or> hd v \<notin> {CH_SP, CH_HT} \<and> List.last v \<notin> {CH_SP, CH_HT})"

definition scheme_value :: "bytes \<Rightarrow> bool" where
  "scheme_value v \<longleftrightarrow> v \<noteq> [] \<and> (is_upper (uint (hd v)) \<or> is_lower (uint (hd v))) \<and>
     list_all (\<lambda>c. is_upper (uint c) \<or> is_lower (uint c) \<or> is_digit (uint c) \<or> c \<in> {CH_PLUS, CH_MINUS, CH_DOT}) v"

definition request_value :: "bool \<Rightarrow> hfield \<Rightarrow> bool" where
  "request_value relaxed f \<longleftrightarrow>
     (if fst f = lit '':method'' then snd f \<noteq> [] \<and> list_all (\<lambda>c. method_char (uint c)) (snd f)
      else if fst f = lit '':path'' then list_all (\<lambda>c. path_char (uint c)) (snd f)
      else if fst f \<in> {lit '':authority'', lit ''host''} then
        list_all (\<lambda>c. authority_char (uint c) \<and> c \<noteq> CH_AT) (snd f)
      else if fst f = lit '':scheme'' then scheme_value (snd f)
      else plain_value relaxed (snd f) \<and> \<not> (fst f = lit '':protocol'' \<and> relaxed \<and> set (snd f) \<subseteq> {CH_SP, CH_HT}))"

text \<open>An illegal regular field is not an error: it counts as not received.\<close>

definition dropped :: "bool \<Rightarrow> hfield \<Rightarrow> bool" where
  "dropped relaxed f \<longleftrightarrow> \<not> pseudo f \<and> (\<not> nghttp2_check_header_name (fst f) \<or> \<not> request_value relaxed f)"

definition received :: "bool \<Rightarrow> hfield list \<Rightarrow> hfield list" where
  "received relaxed fs = filter (\<lambda>f. \<not> dropped relaxed f) fs"

definition connection_fields :: "bytes set" where
  "connection_fields =
     {lit ''connection'', lit ''keep-alive'', lit ''proxy-connection'', lit ''transfer-encoding'', lit ''upgrade''}"

definition pseudo_names :: "bool \<Rightarrow> bytes set" where
  "pseudo_names connect_protocol =
     {lit '':authority'', lit '':method'', lit '':path'', lit '':scheme''} \<union> (if connect_protocol then {lit '':protocol''} else {})"

definition single_names :: "bytes set" where
  "single_names = {lit '':authority'', lit '':method'', lit '':path'', lit '':scheme'', lit '':protocol'', lit ''host'',
     lit ''content-length''}"

text \<open>What one field must satisfy by itself. A pushed request cannot be a CONNECT request.\<close>

definition request_field :: "bool \<Rightarrow> bool \<Rightarrow> bool \<Rightarrow> hfield \<Rightarrow> bool" where
  "request_field relaxed connect_protocol pushed f \<longleftrightarrow>
     (if pseudo f then
        fst f \<in> pseudo_names connect_protocol \<and> request_value relaxed f \<and> snd f \<noteq> [] \<and>
        \<not> (pushed \<and> f = (lit '':method'', lit ''CONNECT''))
      else
        \<not> upper_case (fst f) \<and>
        (dropped relaxed f \<or>
          fst f \<notin> connection_fields \<and>
          (fst f = lit ''te'' \<longrightarrow> map downcase (snd f) = lit ''trailers'') \<and>
          (fst f = lit ''host'' \<longrightarrow> snd f \<noteq> []) \<and>
          (fst f = lit ''content-length'' \<longrightarrow> is_decimal (snd f) \<and> decimal (snd f) \<le> INT64_MAX)))"

text \<open>The fields as a whole: pseudo header fields first, and none of the single ones twice.\<close>

definition pseudo_first :: "hfield list \<Rightarrow> bool" where
  "pseudo_first fs \<longleftrightarrow> list_all (\<lambda>f. \<not> pseudo f) (dropWhile pseudo fs)"

definition singles :: "bool \<Rightarrow> hfield list \<Rightarrow> bytes list" where
  "singles relaxed fs = filter (\<lambda>n. n \<in> single_names) (map fst (received relaxed fs))"

definition request_fields :: "bool \<Rightarrow> bool \<Rightarrow> bool \<Rightarrow> hfield list \<Rightarrow> bool" where
  "request_fields relaxed connect_protocol pushed fs \<longleftrightarrow>
     list_all (request_field relaxed connect_protocol pushed) fs \<and> pseudo_first fs \<and> distinct (singles relaxed fs)"

text \<open>The value of the first field with a name.\<close>

definition value_of :: "bool \<Rightarrow> hfield list \<Rightarrow> string \<Rightarrow> bytes option" where
  "value_of relaxed fs name = map_of (received relaxed fs) (lit name)"

definition http_scheme :: "bytes \<Rightarrow> bool" where
  "http_scheme v \<longleftrightarrow> map downcase v \<in> {lit ''http'', lit ''https''}"

text \<open>The mandatory fields of RFC 9113, section 8.3.1, and of RFC 8441 for the extended CONNECT method.\<close>

definition request_complete :: "(string \<Rightarrow> bytes option) \<Rightarrow> bool" where
  "request_complete val \<longleftrightarrow>
     (if val '':protocol'' = None \<and> val '':method'' = Some (lit ''CONNECT'') then
        val '':scheme'' = None \<and> val '':path'' = None \<and> val '':authority'' \<noteq> None
      else
        val '':method'' \<noteq> None \<and> val '':path'' \<noteq> None \<and> val '':scheme'' \<noteq> None \<and>
        (val '':authority'' \<noteq> None \<or> val ''host'' \<noteq> None) \<and>
        (val '':protocol'' \<noteq> None \<longrightarrow> val '':method'' = Some (lit ''CONNECT'') \<and> val '':authority'' \<noteq> None) \<and>
        (http_scheme (the (val '':scheme'')) \<longrightarrow>
           hd (the (val '':path'')) = CH_SLASH \<or>
           val '':method'' = Some (lit ''OPTIONS'') \<and> val '':path'' = Some (lit ''*'')))"

definition request_ok :: "bool \<Rightarrow> bool \<Rightarrow> bool \<Rightarrow> hfield list \<Rightarrow> bool" where
  "request_ok relaxed connect_protocol pushed fs \<longleftrightarrow>
     request_fields relaxed connect_protocol pushed fs \<and> request_complete (value_of relaxed fs)"

text \<open>The declared length of the body, or -1.\<close>

definition declared_length :: "(string \<Rightarrow> bytes option) \<Rightarrow> int" where
  "declared_length val =
     (if val '':protocol'' = None \<and> val '':method'' = Some (lit ''CONNECT'') then - 1
      else case val ''content-length'' of None \<Rightarrow> - 1 | Some v \<Rightarrow> decimal v)"

subsection \<open>Receiving a header block\<close>

text \<open>
  The part of \<open>inflate_header_block\<close> that concerns the fields: what is ignored or removed is not
  passed on, and the first error ends the block.
\<close>

fun receive_fields ::
  "(nghttp2_stream \<Rightarrow> nghttp2_hd_nv \<Rightarrow> on_header) \<Rightarrow> nghttp2_stream \<Rightarrow> nghttp2_hd_nv list \<Rightarrow>
   (hfield list res \<times> nghttp2_stream) option" where
  "receive_fields on_header stream [] = Some (Inr [], stream)"
| "receive_fields on_header stream (nv # nvs) =
     (case on_header stream nv of
        None \<Rightarrow> None
      | Some (r, stream') \<Rightarrow>
          (case r of
             Inl e \<Rightarrow>
               if e = ERR_IGN_HTTP_HEADER \<or> e = ERR_REMOVE_HTTP_HEADER then receive_fields on_header stream' nvs
               else Some (Inl e, stream')
           | Inr u \<Rightarrow>
               map_option (\<lambda>(r, s). (map_sum id (\<lambda>fs. field nv # fs) r, s)) (receive_fields on_header stream' nvs)))"

text \<open>A whole request: \<open>Inl\<close> if it is malformed, else the fields that are passed on.\<close>

definition receive_request ::
  "bool \<Rightarrow> bool \<Rightarrow> u8 \<Rightarrow> nghttp2_stream \<Rightarrow> nghttp2_hd_nv list \<Rightarrow> (hfield list res \<times> nghttp2_stream) option" where
  "receive_request server enabled frame_type stream nvs =
     (case receive_fields (\<lambda>s nv. nghttp2_http_on_header server enabled s frame_type nv False) stream nvs of
        None \<Rightarrow> None
      | Some (Inl e, s) \<Rightarrow> Some (Inl e, s)
      | Some (Inr fs, s) \<Rightarrow>
          (case nghttp2_http_on_request_headers s frame_type of
             (ok, s') \<Rightarrow> Some (if ok then Inr fs else Inl ERR_HTTP_MESSAGING, s')))"

subsection \<open>The checks of names and values\<close>

lemma token_name: "lookup_token (lit m) = t \<Longrightarrow> t \<noteq> - 1 \<Longrightarrow> lookup_token n = t \<longleftrightarrow> n = lit m"
  using lookup_token_inj by metis

lemma token_names:
  "lookup_token n = NGHTTP2_TOKEN__AUTHORITY \<longleftrightarrow> n = lit '':authority''"
  "lookup_token n = NGHTTP2_TOKEN__METHOD \<longleftrightarrow> n = lit '':method''"
  "lookup_token n = NGHTTP2_TOKEN__PATH \<longleftrightarrow> n = lit '':path''"
  "lookup_token n = NGHTTP2_TOKEN__SCHEME \<longleftrightarrow> n = lit '':scheme''"
  "lookup_token n = NGHTTP2_TOKEN__STATUS \<longleftrightarrow> n = lit '':status''"
  "lookup_token n = NGHTTP2_TOKEN__PROTOCOL \<longleftrightarrow> n = lit '':protocol''"
  "lookup_token n = NGHTTP2_TOKEN_HOST \<longleftrightarrow> n = lit ''host''"
  "lookup_token n = NGHTTP2_TOKEN_CONTENT_LENGTH \<longleftrightarrow> n = lit ''content-length''"
  "lookup_token n = NGHTTP2_TOKEN_CONNECTION \<longleftrightarrow> n = lit ''connection''"
  "lookup_token n = NGHTTP2_TOKEN_KEEP_ALIVE \<longleftrightarrow> n = lit ''keep-alive''"
  "lookup_token n = NGHTTP2_TOKEN_PROXY_CONNECTION \<longleftrightarrow> n = lit ''proxy-connection''"
  "lookup_token n = NGHTTP2_TOKEN_TRANSFER_ENCODING \<longleftrightarrow> n = lit ''transfer-encoding''"
  "lookup_token n = NGHTTP2_TOKEN_UPGRADE \<longleftrightarrow> n = lit ''upgrade''"
  "lookup_token n = NGHTTP2_TOKEN_TE \<longleftrightarrow> n = lit ''te''"
  "lookup_token n = NGHTTP2_TOKEN_PRIORITY \<longleftrightarrow> n = lit ''priority''"
  by (rule token_name, code_simp, code_simp)+

lemma bit_of_char:
  "bit (of_char c :: u8) n \<longleftrightarrow>
     n < 8 \<and> [digit0 c, digit1 c, digit2 c, digit3 c, digit4 c, digit5 c, digit6 c, digit7 c] ! n"
  unfolding of_char_def bit_horner_sum_bit_iff by (simp add: numeral_eq_Suc)

lemma of_char_inj: "of_char x = (of_char y :: u8) \<Longrightarrow> x = y"
proof -
  assume e: "of_char x = (of_char y :: u8)"
  have b: "bit (of_char x :: u8) n \<longleftrightarrow> bit (of_char y :: u8) n" for n by (simp only: e)
  show "x = y"
    using b [of 0] b [of 1] b [of 2] b [of 3] b [of 4] b [of 5] b [of 6] b [of 7]
    unfolding bit_of_char by (intro char.expand) simp
qed

lemma lit_inj [simp]: "lit a = lit b \<longleftrightarrow> a = b"
  unfolding lit_def by (intro inj_map_eq_map injI of_char_inj)

lemma has_upper_iff: "has_upper name \<longleftrightarrow> upper_case name"
  by (induction name) (auto simp: upper_case_def is_upper_def word_le_def)

lemma check_scheme_chars_iff:
  "check_scheme_chars v \<longleftrightarrow>
     list_all (\<lambda>c. is_upper (uint c) \<or> is_lower (uint c) \<or> is_digit (uint c) \<or> c \<in> {CH_PLUS, CH_MINUS, CH_DOT}) v"
  by (induction v) (auto simp: is_upper_def is_lower_def is_digit_def word_le_def)

lemma check_scheme_iff: "check_scheme v \<longleftrightarrow> scheme_value v"
  by (cases v) (auto simp: scheme_value_def check_scheme_chars_iff is_upper_def is_lower_def word_le_def)

lemma lws_iff: "lws v \<longleftrightarrow> set v \<subseteq> {CH_SP, CH_HT}"
  by (induction v) auto

lemma HTTP_VALID_AUTHORITY_CHARS_table:
  "table_of (flag (\<lambda>c. authority_char c \<and> c \<noteq> 64)) 0 HTTP_VALID_AUTHORITY_CHARS"
  by (simp add: HTTP_VALID_AUTHORITY_CHARS_def flag_def char_class_defs)

lemma check_authority_iff: "check_authority v \<longleftrightarrow> list_all (\<lambda>c. authority_char (uint c) \<and> c \<noteq> CH_AT) v"
proof -
  have "uint c = 64 \<longleftrightarrow> c = CH_AT" for c :: u8 by (simp add: word_uint_eq_iff)
  then show ?thesis
    by (simp add: check_authority_def check_chars_table [OF HTTP_VALID_AUTHORITY_CHARS_table])
qed

lemma check_field_value_iff: "check_field_value s v \<longleftrightarrow> plain_value (no_rfc9113_validation s) v"
  by (cases "v = []")
    (auto simp: check_field_value_def plain_value_def nghttp2_check_header_value_rfc9113_def check_header_value_iff
      hd_conv_nth last_conv_nth)

lemma check_value_request:
  assumes "server \<or> ft = NGHTTP2_PUSH_PROMISE" and "hn_token nv = lookup_token (hn_name nv)"
  shows "check_value server s ft nv \<longleftrightarrow> request_value (no_rfc9113_validation s) (field nv)"
  using assms
  by (auto simp: check_value_def request_value_def field_def token_names nghttp2_check_method_def
      nghttp2_check_path_def check_chars_tables check_authority_iff check_scheme_iff lws_iff check_field_value_iff)

lemma lstrieq_iff: "lstrieq a v \<longleftrightarrow> map downcase v = map downcase (lit a)"
proof -
  have "memieq x y n \<longleftrightarrow> map downcase y = map downcase x" if "length x = n" "length y = n" for x y n
    using that by (induction x y n rule: memieq.induct) (auto simp: length_Suc_conv)
  moreover have "length v = length a" if "map downcase v = map downcase (lit a)"
    using arg_cong [OF that, of length] by (simp add: lit_def)
  ultimately show ?thesis by (auto simp: lstrieq_def lit_def)
qed

lemma lstreq_iff: "lstreq a v \<longleftrightarrow> v = lit a"
proof -
  have "memcmp x y n = 0 \<longleftrightarrow> x = y" if "length x = n" "length y = n" for x y n
    using that by (induction x y n rule: memcmp.induct) (auto simp: length_Suc_conv)
  then show ?thesis by (auto simp: lstreq_def lit_def)
qed

lemma memieq_iff: "length a = n \<Longrightarrow> length v = n \<Longrightarrow> memieq (lit a) v n \<longleftrightarrow> map downcase v = map downcase (lit a)"
  using lstrieq_iff [of a v] by (simp add: lstrieq_def)

subsection \<open>One field\<close>

text \<open>What a field adds to the flags of the stream, as bit numbers; the two bits of the priority field are left out.\<close>

definition field_bits :: "bool \<Rightarrow> hfield \<Rightarrow> nat set" where
  "field_bits relaxed f =
     (if \<not> pseudo f then insert 6 (if fst f = lit ''host'' \<and> \<not> dropped relaxed f then {4} else {})
      else if fst f = lit '':authority'' then {0}
      else if fst f = lit '':method'' then
        insert 2 (if snd f = lit ''HEAD'' then {8} else if snd f = lit ''CONNECT'' then {7}
                  else if snd f = lit ''OPTIONS'' then {9} else {})
      else if fst f = lit '':path'' then
        insert 1 (if hd (snd f) = CH_SLASH then {11} else if snd f = lit ''*'' then {12} else {})
      else if fst f = lit '':scheme'' then insert 3 (if http_scheme (snd f) then {13} else {})
      else {15})"

definition priority_bits :: "nat set" where "priority_bits = {16, 17}"

definition stream_has :: "nghttp2_stream \<Rightarrow> bytes \<Rightarrow> bool" where
  "stream_has s name \<longleftrightarrow>
     (if name = lit '':authority'' then bit (st_http_flags s) 0
      else if name = lit '':method'' then bit (st_http_flags s) 2
      else if name = lit '':path'' then bit (st_http_flags s) 1
      else if name = lit '':scheme'' then bit (st_http_flags s) 3
      else if name = lit '':protocol'' then bit (st_http_flags s) 15
      else if name = lit ''host'' then bit (st_http_flags s) 4
      else if name = lit ''content-length'' then st_content_length s \<noteq> - 1
      else False)"

definition updated :: "nat set \<Rightarrow> int \<Rightarrow> nghttp2_stream \<Rightarrow> nghttp2_stream \<Rightarrow> bool" where
  "updated bits len s s' \<longleftrightarrow>
     (\<forall>n. n \<notin> priority_bits \<longrightarrow> (bit (st_http_flags s') n \<longleftrightarrow> bit (st_http_flags s) n \<or> n \<in> bits)) \<and>
     st_content_length s' = len \<and> st_stream_id s' = st_stream_id s \<and> st_flags s' = st_flags s \<and>
     st_status_code s' = st_status_code s \<and> st_recv_content_length s' = st_recv_content_length s"

definition accepts :: "nat set \<Rightarrow> int \<Rightarrow> nghttp2_stream \<Rightarrow> unit res \<Rightarrow> on_header \<Rightarrow> bool" where
  "accepts bits len s r out \<longleftrightarrow> (\<exists>s'. out = Some (r, s') \<and> updated bits len s s')"

definition rejects :: "on_header \<Rightarrow> bool" where
  "rejects out \<longleftrightarrow> (\<exists>s'. out = Some (Inl ERR_HTTP_HEADER, s'))"

lemma rejects_reject [simp]: "rejects (reject s)"
  by (simp add: rejects_def reject_def)

lemma name_first:
  "hn_name nv \<noteq> [] \<Longrightarrow> hn_name nv ! 0 = CH_COLON \<longleftrightarrow> pseudo (field nv)"
  by (simp add: pseudo_def field_def hd_conv_nth)

lemma pseudo_lit:
  "pseudo (lit '':authority'', v)" "pseudo (lit '':method'', v)" "pseudo (lit '':path'', v)" "pseudo (lit '':scheme'', v)"
  "pseudo (lit '':protocol'', v)" "pseudo (lit '':status'', v)" "\<not> pseudo (lit ''host'', v)"
  "\<not> pseudo (lit ''content-length'', v)" "\<not> pseudo (lit ''connection'', v)" "\<not> pseudo (lit ''keep-alive'', v)"
  "\<not> pseudo (lit ''proxy-connection'', v)" "\<not> pseudo (lit ''transfer-encoding'', v)" "\<not> pseudo (lit ''upgrade'', v)"
  "\<not> pseudo (lit ''te'', v)" "\<not> pseudo (lit ''priority'', v)"
  by (simp_all add: pseudo_def lit_def)

lemma flag_nth:
  "bit NGHTTP2_HTTP_FLAG__AUTHORITY n \<longleftrightarrow> n = 0" "bit NGHTTP2_HTTP_FLAG__PATH n \<longleftrightarrow> n = 1"
  "bit NGHTTP2_HTTP_FLAG__METHOD n \<longleftrightarrow> n = 2" "bit NGHTTP2_HTTP_FLAG__SCHEME n \<longleftrightarrow> n = 3"
  "bit NGHTTP2_HTTP_FLAG_HOST n \<longleftrightarrow> n = 4" "bit NGHTTP2_HTTP_FLAG__STATUS n \<longleftrightarrow> n = 5"
  "bit NGHTTP2_HTTP_FLAG_PSEUDO_HEADER_DISALLOWED n \<longleftrightarrow> n = 6"
  "bit NGHTTP2_HTTP_FLAG_METH_CONNECT n \<longleftrightarrow> n = 7" "bit NGHTTP2_HTTP_FLAG_METH_HEAD n \<longleftrightarrow> n = 8"
  "bit NGHTTP2_HTTP_FLAG_METH_OPTIONS n \<longleftrightarrow> n = 9" "bit NGHTTP2_HTTP_FLAG_METH_UPGRADE_WORKAROUND n \<longleftrightarrow> n = 10"
  "bit NGHTTP2_HTTP_FLAG_PATH_REGULAR n \<longleftrightarrow> n = 11" "bit NGHTTP2_HTTP_FLAG_PATH_ASTERISK n \<longleftrightarrow> n = 12"
  "bit NGHTTP2_HTTP_FLAG_SCHEME_HTTP n \<longleftrightarrow> n = 13" "bit NGHTTP2_HTTP_FLAG_EXPECT_FINAL_RESPONSE n \<longleftrightarrow> n = 14"
  "bit NGHTTP2_HTTP_FLAG__PROTOCOL n \<longleftrightarrow> n = 15" "bit NGHTTP2_HTTP_FLAG_PRIORITY n \<longleftrightarrow> n = 16"
  "bit NGHTTP2_HTTP_FLAG_BAD_PRIORITY n \<longleftrightarrow> n = 17"
  unfolding http_flags bit_flag by auto

lemma accepts_end:
  assumes "hn_name nv \<noteq> []"
    and "\<And>n. n \<notin> priority_bits \<Longrightarrow> bit (st_http_flags t) n \<longleftrightarrow> bit (st_http_flags s) n \<or> n \<in> bits"
    and "st_content_length t = len" "st_stream_id t = st_stream_id s" "st_flags t = st_flags s"
    "st_status_code t = st_status_code s" "st_recv_content_length t = st_recv_content_length s"
  shows "accepts (if pseudo (field nv) then bits else insert 6 bits) len s (Inr ()) (on_header_end nv t)"
  using assms(2-) unfolding accepts_def updated_def on_header_end_def name_first [OF assms(1)]
  by (auto simp: flag_nth)

lemma on_pseudo_outcome:
  assumes "hn_name nv \<noteq> []" and "\<And>n. bit flg n \<longleftrightarrow> n = k"
  shows "if bit (st_http_flags s) k \<or> hn_value nv = [] then rejects (on_pseudo s nv flg)
    else accepts (if pseudo (field nv) then {k} else {6, k}) (st_content_length s) s (Inr ()) (on_pseudo s nv flg)"
proof -
  have "\<not> bit (st_http_flags s) k" if "st_http_flags s AND flg = 0"
    using arg_cong [OF that, of "\<lambda>w. bit w k"] assms(2) by (simp add: bit_and_iff)
  moreover have "st_http_flags s AND flg = 0" if "\<not> bit (st_http_flags s) k"
    by (rule bit_eqI) (use that assms(2) in \<open>auto simp: bit_and_iff\<close>)
  ultimately have "has_http_flag s flg \<longleftrightarrow> bit (st_http_flags s) k" by (auto simp: has_http_flag_def)
  then show ?thesis
    using accepts_end [OF assms(1), of "set_http_flag flg s" s "{k}" "st_content_length s"] assms(2)
    by (auto simp: on_pseudo_def check_pseudo_header_def)
qed

lemma on_method_outcome:
  assumes "hn_name nv = lit '':method''"
  shows "if bit (st_http_flags s) 2 \<or> hn_value nv = [] \<or> even (st_stream_id s) \<and> hn_value nv = lit ''CONNECT''
    then rejects (on_method s nv)
    else accepts (field_bits relaxed (field nv)) (st_content_length s) s (Inr ()) (on_method s nv)"
proof -
  have ne: "hn_name nv \<noteq> []" and p: "pseudo (field nv)"
    using assms by (auto simp: lit_def field_def pseudo_def)
  note e = accepts_end [OF ne, unfolded if_P [OF p]]
  have c7: "hn_value nv = lit ''CONNECT'' \<Longrightarrow> length (hn_value nv) = 7 \<and> hn_value nv ! 6 = 0x54"
    "hn_value nv = lit ''OPTIONS'' \<Longrightarrow> length (hn_value nv) = 7 \<and> hn_value nv ! 6 = 0x53"
    "hn_value nv = lit ''HEAD'' \<Longrightarrow> length (hn_value nv) = 4"
    by (simp_all add: lit_def)
  have len: "st_content_length (set_http_flag f s) = st_content_length s" for f by simp
  show ?thesis
  proof (cases "bit (st_http_flags s) 2 \<or> hn_value nv = []")
    case True
    then show ?thesis by (auto simp: on_method_def check_pseudo_header_def flag_bits)
  next
    case False
    let ?t = "set_http_flag NGHTTP2_HTTP_FLAG__METHOD s"
    have m: "check_pseudo_header s nv NGHTTP2_HTTP_FLAG__METHOD = (True, ?t)"
      using False by (simp add: check_pseudo_header_def flag_bits)
    have fb: "field_bits relaxed (field nv) = insert 2 (if hn_value nv = lit ''HEAD'' then {8}
        else if hn_value nv = lit ''CONNECT'' then {7} else if hn_value nv = lit ''OPTIONS'' then {9} else {})"
      using p assms by (simp add: field_bits_def field_def)
    consider "hn_value nv = lit ''HEAD''" | "hn_value nv = lit ''CONNECT''" | "hn_value nv = lit ''OPTIONS''"
      | (other) "hn_value nv \<noteq> lit ''HEAD''" "hn_value nv \<noteq> lit ''CONNECT''" "hn_value nv \<noteq> lit ''OPTIONS''" by blast
    then show ?thesis
    proof cases
      case 1
      have "on_method s nv = on_header_end nv (set_http_flag NGHTTP2_HTTP_FLAG_METH_HEAD ?t)"
        using c7(3) [OF 1] 1 by (simp add: on_method_def m lstreq_iff)
      moreover have "accepts {2, 8} (st_content_length s) s (Inr ()) \<dots>" by (rule e) (auto simp: flag_nth)
      ultimately show ?thesis using False 1 fb by (simp add: insert_commute)
    next
      case 2
      have "on_method s nv = (if even (st_stream_id s) then reject ?t
          else on_header_end nv (set_http_flag NGHTTP2_HTTP_FLAG_METH_CONNECT ?t))"
        using c7(1) [OF 2] 2 by (simp add: on_method_def m lstreq_iff even_iff_mod_2_eq_zero)
      moreover have "accepts {2, 7} (st_content_length s) s (Inr ())
          (on_header_end nv (set_http_flag NGHTTP2_HTTP_FLAG_METH_CONNECT ?t))" by (rule e) (auto simp: flag_nth)
      ultimately show ?thesis using False 2 fb by (simp add: insert_commute)
    next
      case 3
      have "on_method s nv = on_header_end nv (set_http_flag NGHTTP2_HTTP_FLAG_METH_OPTIONS ?t)"
        using c7(2) [OF 3] 3 by (simp add: on_method_def m lstreq_iff)
      moreover have "accepts {2, 9} (st_content_length s) s (Inr ()) \<dots>" by (rule e) (auto simp: flag_nth)
      ultimately show ?thesis using False 3 fb by (simp add: insert_commute)
    next
      case other
      have "on_method s nv = on_header_end nv ?t"
        using other by (simp add: on_method_def m lstreq_iff)
      moreover have "accepts {2} (st_content_length s) s (Inr ()) \<dots>" by (rule e) (auto simp: flag_nth)
      ultimately show ?thesis using False other fb by simp
    qed
  qed
qed

lemma on_path_outcome:
  assumes "hn_name nv = lit '':path''"
  shows "if bit (st_http_flags s) 1 \<or> hn_value nv = [] then rejects (on_path s nv)
    else accepts (field_bits relaxed (field nv)) (st_content_length s) s (Inr ()) (on_path s nv)"
proof -
  have ne: "hn_name nv \<noteq> []" and p: "pseudo (field nv)"
    using assms by (auto simp: lit_def field_def pseudo_def)
  note e = accepts_end [OF ne, unfolded if_P [OF p]]
  have "hn_value nv = lit ''*'' \<longleftrightarrow> length (hn_value nv) = 1 \<and> hn_value nv ! 0 = CH_STAR"
    by (cases "hn_value nv") (auto simp: lit_def)
  then show ?thesis
    using p assms
    by (auto simp: on_path_def check_pseudo_header_def flag_bits field_bits_def flag_nth pseudo_lit field_def hd_conv_nth
        intro!: e)
qed

lemma on_scheme_outcome:
  assumes "hn_name nv = lit '':scheme''"
  shows "if bit (st_http_flags s) 3 \<or> hn_value nv = [] then rejects (on_scheme s nv)
    else accepts (field_bits relaxed (field nv)) (st_content_length s) s (Inr ()) (on_scheme s nv)"
proof -
  have ne: "hn_name nv \<noteq> []" and p: "pseudo (field nv)"
    using assms by (auto simp: lit_def field_def pseudo_def)
  note e = accepts_end [OF ne, unfolded if_P [OF p]]
  have "map downcase (lit ''http'') = lit ''http''" "map downcase (lit ''https'') = lit ''https''"
    by (simp_all add: lit_def downcase_def)
  moreover have "length v = length a" if "map downcase v = lit a" for a v
    using arg_cong [OF that, of length] by (simp add: lit_def)
  ultimately have "http_scheme (hn_value nv) \<longleftrightarrow>
      length (hn_value nv) = 4 \<and> memieq (lit ''http'') (hn_value nv) 4 \<or>
      length (hn_value nv) = 5 \<and> memieq (lit ''https'') (hn_value nv) 5"
    by (auto simp: http_scheme_def memieq_iff)
  then show ?thesis
    using p assms
    by (auto simp: on_scheme_def check_pseudo_header_def flag_bits field_bits_def flag_nth pseudo_lit field_def
        intro!: e)
qed

lemma on_content_length_outcome:
  assumes "hn_name nv = lit ''content-length''"
  shows "if st_content_length s \<noteq> - 1 \<or> \<not> (is_decimal (hn_value nv) \<and> decimal (hn_value nv) \<le> INT64_MAX)
    then rejects (on_content_length s nv)
    else accepts {6} (decimal (hn_value nv)) s (Inr ()) (on_content_length s nv)"
proof -
  have ne: "hn_name nv \<noteq> []" and p: "\<not> pseudo (field nv)"
    using assms by (auto simp: lit_def field_def pseudo_def)
  note e = accepts_end [OF ne, where bits = "{}", unfolded if_not_P [OF p]]
  show ?thesis
    using decimal_nonneg [of "hn_value nv"]
    by (auto simp: on_content_length_def parse_uint_exact intro!: e)
qed

lemma on_te_outcome:
  assumes "hn_name nv = lit ''te''"
  shows "if map downcase (hn_value nv) \<noteq> lit ''trailers'' then rejects (on_te s nv)
    else accepts {6} (st_content_length s) s (Inr ()) (on_te s nv)"
proof -
  have ne: "hn_name nv \<noteq> []" and p: "\<not> pseudo (field nv)"
    using assms by (auto simp: lit_def field_def pseudo_def)
  note e = accepts_end [OF ne, where bits = "{}", unfolded if_not_P [OF p]]
  have "map downcase (lit ''trailers'') = lit ''trailers''" by (simp add: lit_def downcase_def)
  then show ?thesis by (auto simp: on_te_def lstrieq_iff intro!: e)
qed

lemma on_priority_outcome:
  assumes "hn_name nv = lit ''priority''"
  shows "accepts {6} (st_content_length s) s (Inr ()) (on_priority s nv trailer)"
proof -
  have ne: "hn_name nv \<noteq> []" and p: "\<not> pseudo (field nv)"
    using assms by (auto simp: lit_def field_def pseudo_def)
  note e = accepts_end [OF ne, where bits = "{}", unfolded if_not_P [OF p]]
  have lt: "bit (st_http_flags s) n \<Longrightarrow> n < 32" for n by (auto dest: bit_imp_le_length)
  show ?thesis
    by (auto simp: on_priority_def parse_priority_exact flag_nth priority_bits_def
        dest: lt intro!: e split: option.split sum.split)
qed

definition field_length :: "bool \<Rightarrow> hfield \<Rightarrow> int \<Rightarrow> int" where
  "field_length relaxed f len = (if fst f = lit ''content-length'' \<and> \<not> dropped relaxed f then decimal (snd f) else len)"

text \<open>When a field is accepted in a state.\<close>

definition request_admits :: "bool \<Rightarrow> bool \<Rightarrow> bool \<Rightarrow> nghttp2_stream \<Rightarrow> hfield \<Rightarrow> bool" where
  "request_admits relaxed connect_protocol trailer s f \<longleftrightarrow>
     request_field relaxed connect_protocol (even (st_stream_id s)) f \<and>
     (pseudo f \<longrightarrow> \<not> trailer \<and> \<not> bit (st_http_flags s) 6) \<and>
     (\<not> dropped relaxed f \<and> fst f \<in> single_names \<longrightarrow> \<not> stream_has s (fst f))"

lemma colon_name: "hn_name nv \<noteq> [] \<Longrightarrow> pseudo_misplaced s nv trailer \<longleftrightarrow> pseudo (field nv) \<and> (trailer \<or> bit (st_http_flags s) 6)"
  by (simp add: pseudo_misplaced_def name_first flag_bits)

lemma request_on_header_outcome:
  assumes tok: "hn_token nv = lookup_token (hn_name nv)" and ne: "hn_name nv \<noteq> []"
    and nu: "\<not> pseudo (field nv) \<longrightarrow> \<not> upper_case (hn_name nv)"
    and nd: "\<not> dropped relaxed (field nv)" and val: "request_value relaxed (field nv)"
  shows "if request_admits relaxed cp trailer s (field nv)
    then accepts (field_bits relaxed (field nv)) (field_length relaxed (field nv) (st_content_length s)) s (Inr ())
           (http_request_on_header s nv trailer cp)
    else rejects (http_request_on_header s nv trailer cp)"
proof (cases "pseudo_misplaced s nv trailer")
  case True
  then show ?thesis
    by (auto simp: http_request_on_header_def request_admits_def colon_name [OF ne])
next
  case misplaced: False
  let ?n = "hn_name nv"
  have mis: "pseudo (field nv) \<longrightarrow> \<not> trailer \<and> \<not> bit (st_http_flags s) 6"
    using misplaced colon_name [OF ne] by blast
  define out where "out = http_request_on_header s nv trailer cp"
  note body = out_def [unfolded http_request_on_header_def misplaced [THEN Eq_FalseI] if_False tok token_names
      disallowed_field_def]
  note adm_defs = request_admits_def request_field_def stream_has_def single_names_def pseudo_names_def
    connection_fields_def pseudo_lit field_def
  have n: "hn_name nv = lit name \<Longrightarrow> field nv = (lit name, hn_value nv)" for name by (simp add: field_def)
  consider "?n = lit '':authority''" | "?n = lit '':method''" | "?n = lit '':path''" | "?n = lit '':scheme''"
    | "?n = lit '':protocol''" | "?n = lit ''host''" | "?n = lit ''content-length''"
    | "?n \<in> connection_fields" | "?n = lit ''te''" | "?n = lit ''priority''"
    | (other) "?n \<notin> single_names" "?n \<notin> connection_fields" "?n \<noteq> lit ''te''" "?n \<noteq> lit ''priority''"
    by (auto simp: single_names_def)
  then show ?thesis
  proof cases
    case 1
    note f = n [OF 1]
    have "out = on_pseudo s nv NGHTTP2_HTTP_FLAG__AUTHORITY" by (simp add: body 1)
    moreover have "request_admits relaxed cp trailer s (field nv) \<longleftrightarrow> \<not> (bit (st_http_flags s) 0 \<or> hn_value nv = [])"
      using val mis nd unfolding f by (auto simp: adm_defs)
    ultimately show ?thesis using on_pseudo_outcome [OF ne flag_nth(1), of s] unfolding f out_def [symmetric]
      by (auto simp: field_bits_def field_length_def pseudo_lit split: if_split_asm)
  next
    case 2
    note f = n [OF 2]
    have "out = on_method s nv" by (simp add: body 2)
    moreover have "request_admits relaxed cp trailer s (field nv) \<longleftrightarrow>
        \<not> (bit (st_http_flags s) 2 \<or> hn_value nv = [] \<or> even (st_stream_id s) \<and> hn_value nv = lit ''CONNECT'')"
      using val mis nd unfolding f by (auto simp: adm_defs)
    ultimately show ?thesis using on_method_outcome [OF 2, of s relaxed] unfolding f out_def [symmetric]
      by (auto simp: field_length_def split: if_split_asm)
  next
    case 3
    note f = n [OF 3]
    have "out = on_path s nv" by (simp add: body 3)
    moreover have "request_admits relaxed cp trailer s (field nv) \<longleftrightarrow> \<not> (bit (st_http_flags s) 1 \<or> hn_value nv = [])"
      using val mis nd unfolding f by (auto simp: adm_defs)
    ultimately show ?thesis using on_path_outcome [OF 3, of s relaxed] unfolding f out_def [symmetric]
      by (auto simp: field_length_def split: if_split_asm)
  next
    case 4
    note f = n [OF 4]
    have "out = on_scheme s nv" by (simp add: body 4)
    moreover have "request_admits relaxed cp trailer s (field nv) \<longleftrightarrow> \<not> (bit (st_http_flags s) 3 \<or> hn_value nv = [])"
      using val mis nd unfolding f by (auto simp: adm_defs)
    ultimately show ?thesis using on_scheme_outcome [OF 4, of s relaxed] unfolding f out_def [symmetric]
      by (auto simp: field_length_def split: if_split_asm)
  next
    case 5
    note f = n [OF 5]
    have "out = (if \<not> cp then reject s else on_pseudo s nv NGHTTP2_HTTP_FLAG__PROTOCOL)" by (simp add: body 5)
    moreover have "request_admits relaxed cp trailer s (field nv) \<longleftrightarrow>
        cp \<and> \<not> (bit (st_http_flags s) 15 \<or> hn_value nv = [])"
      using val mis nd unfolding f by (auto simp: adm_defs)
    ultimately show ?thesis using on_pseudo_outcome [OF ne flag_nth(16), of s] unfolding f out_def [symmetric]
      by (auto simp: field_bits_def field_length_def pseudo_lit split: if_split_asm)
  next
    case 6
    note f = n [OF 6]
    have "out = on_pseudo s nv NGHTTP2_HTTP_FLAG_HOST" by (simp add: body 6)
    moreover have "request_admits relaxed cp trailer s (field nv) \<longleftrightarrow> \<not> (bit (st_http_flags s) 4 \<or> hn_value nv = [])"
      using val nd nu unfolding f 6 by (auto simp: adm_defs)
    ultimately show ?thesis using on_pseudo_outcome [OF ne flag_nth(5), of s] nd unfolding f out_def [symmetric]
      by (auto simp: field_bits_def field_length_def pseudo_lit split: if_split_asm)
  next
    case 7
    note f = n [OF 7]
    have "out = on_content_length s nv" by (simp add: body 7)
    moreover have "request_admits relaxed cp trailer s (field nv) \<longleftrightarrow>
        \<not> (st_content_length s \<noteq> - 1 \<or> \<not> (is_decimal (hn_value nv) \<and> decimal (hn_value nv) \<le> INT64_MAX))"
      using val nd nu unfolding f 7 by (auto simp: adm_defs)
    ultimately show ?thesis using on_content_length_outcome [OF 7, of s] nd unfolding f out_def [symmetric]
      by (auto simp: field_bits_def field_length_def pseudo_lit split: if_split_asm)
  next
    case 8
    then have "out = reject s" by (auto simp: body connection_fields_def)
    moreover have "\<not> pseudo (field nv)" using 8 by (auto simp: connection_fields_def pseudo_lit field_def)
    then have "\<not> request_admits relaxed cp trailer s (field nv)"
      using 8 nd by (simp add: request_admits_def request_field_def field_def)
    ultimately show ?thesis unfolding out_def [symmetric] by simp
  next
    case 9
    note f = n [OF 9]
    have "out = on_te s nv" by (simp add: body 9)
    moreover have "request_admits relaxed cp trailer s (field nv) \<longleftrightarrow> map downcase (hn_value nv) = lit ''trailers''"
      using val nd nu unfolding f 9 by (auto simp: adm_defs)
    ultimately show ?thesis using on_te_outcome [OF 9, of s] nd unfolding f out_def [symmetric]
      by (auto simp: field_bits_def field_length_def pseudo_lit split: if_split_asm)
  next
    case 10
    note f = n [OF 10]
    have "out = on_priority s nv trailer" by (simp add: body 10)
    moreover have "request_admits relaxed cp trailer s (field nv)"
      using val nd nu unfolding f 10 by (auto simp: adm_defs)
    ultimately show ?thesis using on_priority_outcome [OF 10, of s trailer] nd unfolding f out_def [symmetric]
      by (auto simp: field_bits_def field_length_def pseudo_lit split: if_split_asm)
  next
    case other
    have o: "out = (if pseudo (field nv) then reject s else on_header_end nv s)"
      using other name_first [OF ne] by (simp add: body single_names_def connection_fields_def)
    show ?thesis
    proof (cases "pseudo (field nv)")
      case True
      then have "\<not> request_admits relaxed cp trailer s (field nv)"
        using other by (auto simp: request_admits_def request_field_def pseudo_names_def single_names_def field_def)
      then show ?thesis using o True unfolding out_def [symmetric] by simp
    next
      case False
      then have "request_admits relaxed cp trailer s (field nv)"
        using other nu nd by (auto simp: request_admits_def request_field_def single_names_def field_def)
      moreover have "field_bits relaxed (field nv) = {6}"
        using False other by (auto simp: field_bits_def single_names_def field_def)
      moreover have "field_length relaxed (field nv) (st_content_length s) = st_content_length s"
        using other by (auto simp: field_length_def single_names_def field_def)
      moreover have "accepts {6} (st_content_length s) s (Inr ()) (on_header_end nv s)"
        using accepts_end [OF ne, of s s "{}" "st_content_length s"] False by simp
      ultimately show ?thesis using o False unfolding out_def [symmetric] by simp
    qed
  qed
qed

lemma request_step:
  assumes side: "server \<or> ft = NGHTTP2_PUSH_PROMISE" and tok: "hn_token nv = lookup_token (hn_name nv)"
    and rel: "relaxed = no_rfc9113_validation s" and cp: "cp \<longleftrightarrow> server \<and> enabled"
  shows "if request_admits relaxed cp trailer s (field nv)
    then accepts (field_bits relaxed (field nv)) (field_length relaxed (field nv) (st_content_length s)) s
           (if dropped relaxed (field nv) then Inl ERR_IGN_HTTP_HEADER else Inr ())
           (nghttp2_http_on_header server enabled s ft nv trailer)
    else rejects (nghttp2_http_on_header server enabled s ft nv trailer)"
proof -
  let ?f = "field nv"
  have ign: "accepts {6} (st_content_length s) s (Inl ERR_IGN_HTTP_HEADER) (ignore_field s)"
    by (auto simp: accepts_def updated_def ignore_field_def flag_nth)
  have lower: "\<not> upper_case name \<and> name \<noteq> []" if "nghttp2_check_header_name name" "\<not> pseudo (name, v)" for name v
    using that check_chars_table [OF VALID_HD_NAME_CHARS_table, of name]
    by (auto simp: nghttp2_check_header_name_def pseudo_def upper_case_def hd_conv_nth list_ex_iff list_all_iff
        name_char_def is_upper_def is_lower_def is_digit_def is_token_symbol split: if_splits)
  have known: "nghttp2_check_header_name name" if "name \<in> pseudo_names cp" for name
    using that unfolding pseudo_names_def by (auto split: if_splits) (code_simp+)
  show ?thesis
  proof (cases "nghttp2_check_header_name (hn_name nv)")
    case bad: False
    show ?thesis
    proof (cases "pseudo ?f")
      case True
      then show ?thesis using bad known [of "hn_name nv"] name_first [of nv]
        by (auto simp: nghttp2_http_on_header_def request_admits_def request_field_def field_def pseudo_def)
    next
      case False
      then have d: "dropped relaxed ?f" using bad by (simp add: dropped_def field_def)
      have "\<not> (0 < length (hn_name nv) \<and> hn_name nv ! 0 = CH_COLON)" using False name_first [of nv] by auto
      then show ?thesis using bad False d ign
        by (auto simp: nghttp2_http_on_header_def request_admits_def request_field_def has_upper_iff field_def
            field_bits_def field_length_def)
    qed
  next
    case good: True
    then have ne: "hn_name nv \<noteq> []" by (auto simp: nghttp2_check_header_name_def split: if_splits)
    have v: "check_value server s ft nv \<longleftrightarrow> request_value relaxed ?f"
      using check_value_request [OF side tok] rel by simp
    have low: "\<not> pseudo ?f \<longrightarrow> \<not> upper_case (hn_name nv)" using lower good by (auto simp: field_def)
    show ?thesis
    proof (cases "request_value relaxed ?f")
      case bad: False
      show ?thesis
      proof (cases "pseudo ?f")
        case True
        then show ?thesis using good bad v ne name_first [OF ne]
          by (auto simp: nghttp2_http_on_header_def request_admits_def request_field_def)
      next
        case False
        then have d: "dropped relaxed ?f" using bad by (simp add: dropped_def)
        show ?thesis using good bad v ne name_first [OF ne] False d ign low
          by (auto simp: nghttp2_http_on_header_def request_admits_def request_field_def field_bits_def
              field_length_def) (auto simp: field_def)
      qed
    next
      case True
      then have nd: "\<not> dropped relaxed ?f" using good by (auto simp: dropped_def field_def)
      have "nghttp2_http_on_header server enabled s ft nv trailer = http_request_on_header s nv trailer cp"
        using good True v side cp by (auto simp: nghttp2_http_on_header_def)
      then show ?thesis
        using request_on_header_outcome [OF tok ne low nd True, of cp trailer s] nd by simp
    qed
  qed
qed

end
