(* ===== verification/Nghttp2_Http_Request.thy ===== *)
theory Nghttp2_Http_Request
  imports Nghttp2_Http_Fields
begin

text \<open>
  The rules of nghttp2_http.c for a whole request: which header lists are accepted, and what is
  kept of them.
\<close>

unbundle bit_operations_syntax

subsection \<open>All fields\<close>

definition length_of :: "bool \<Rightarrow> hfield list \<Rightarrow> int" where
  "length_of relaxed fs =
     (case value_of relaxed fs ''content-length'' of None \<Rightarrow> - 1 | Some v \<Rightarrow> decimal v)"

text \<open>The state of a new stream after the fields \<open>fs\<close>.\<close>

definition after_fields :: "bool \<Rightarrow> nghttp2_stream \<Rightarrow> hfield list \<Rightarrow> nghttp2_stream \<Rightarrow> bool" where
  "after_fields relaxed s0 fs s \<longleftrightarrow> updated (\<Union> (field_bits relaxed ` set fs)) (length_of relaxed fs) s0 s"

definition fresh :: "nghttp2_stream \<Rightarrow> bool" where
  "fresh s \<longleftrightarrow> st_http_flags s = 0 \<and> st_content_length s = - 1"

lemma pseudo_not_dropped: "pseudo f \<Longrightarrow> \<not> dropped relaxed f"
  by (simp add: dropped_def)

lemma received_append [simp]: "received relaxed (a @ b) = received relaxed a @ received relaxed b"
  by (simp add: received_def)

lemma received_iff: "f \<in> set (received relaxed fs) \<longleftrightarrow> f \<in> set fs \<and> \<not> dropped relaxed f"
  by (auto simp: received_def)

lemma received_single [simp]: "received relaxed [f] = (if dropped relaxed f then [] else [f])"
  by (simp add: received_def)

lemma pseudo_first_snoc: "pseudo_first (fs @ [f]) \<longleftrightarrow> pseudo_first fs \<and> (pseudo f \<longrightarrow> list_all pseudo fs)"
  by (induction fs) (auto simp: pseudo_first_def)

lemma pseudo_first_prefix: "pseudo_first (a @ b) \<Longrightarrow> pseudo_first a"
  by (induction a) (auto simp: pseudo_first_def)

lemma request_fields_prefix: "request_fields relaxed cp pushed (a @ b) \<Longrightarrow> request_fields relaxed cp pushed a"
  by (auto simp: request_fields_def singles_def dest: pseudo_first_prefix)

text \<open>The field of a single name is unique.\<close>

lemma map_of_filter_key: "P k \<Longrightarrow> map_of (filter (\<lambda>f. P (fst f)) xs) k = map_of xs k"
  by (induction xs) auto

lemma value_of_iff:
  assumes "request_fields relaxed cp pushed fs" and "lit name \<in> single_names"
  shows "value_of relaxed fs name = Some v \<longleftrightarrow> (lit name, v) \<in> set (received relaxed fs)"
proof -
  have "distinct (map fst (filter (\<lambda>f. fst f \<in> single_names) (received relaxed fs)))"
    using assms(1) by (simp add: request_fields_def singles_def filter_map o_def)
  moreover have "map_of (received relaxed fs) (lit name) = map_of (filter (\<lambda>f. fst f \<in> single_names) (received relaxed fs)) (lit name)"
    using map_of_filter_key [of "\<lambda>n. n \<in> single_names" "lit name" "received relaxed fs"] assms(2) by simp
  ultimately show ?thesis using assms(2) by (simp add: value_of_def)
qed

lemma value_of_None: "value_of relaxed fs name = None \<longleftrightarrow> lit name \<notin> fst ` set (received relaxed fs)"
  by (simp add: value_of_def map_of_eq_None_iff)

lemma singles_names:
  "lit '':authority'' \<in> single_names" "lit '':method'' \<in> single_names" "lit '':path'' \<in> single_names"
  "lit '':scheme'' \<in> single_names" "lit '':protocol'' \<in> single_names" "lit ''host'' \<in> single_names"
  "lit ''content-length'' \<in> single_names"
  by (auto simp: single_names_def)

lemma request_field_pseudo:
  assumes "request_field relaxed cp pushed f" and "pseudo f"
  shows "fst f = lit '':authority'' \<or> fst f = lit '':method'' \<or> fst f = lit '':path'' \<or> fst f = lit '':scheme'' \<or>
    fst f = lit '':protocol''"
  using assms by (auto simp: request_field_def pseudo_names_def split: if_splits)

lemma field_bits_iff:
  assumes "request_field relaxed cp pushed f"
  shows "0 \<in> field_bits relaxed f \<longleftrightarrow> fst f = lit '':authority''" "1 \<in> field_bits relaxed f \<longleftrightarrow> fst f = lit '':path''"
    "2 \<in> field_bits relaxed f \<longleftrightarrow> fst f = lit '':method''" "3 \<in> field_bits relaxed f \<longleftrightarrow> fst f = lit '':scheme''"
    "15 \<in> field_bits relaxed f \<longleftrightarrow> fst f = lit '':protocol''"
    "4 \<in> field_bits relaxed f \<longleftrightarrow> fst f = lit ''host'' \<and> \<not> dropped relaxed f" "6 \<in> field_bits relaxed f \<longleftrightarrow> \<not> pseudo f"
    "7 \<in> field_bits relaxed f \<longleftrightarrow> f = (lit '':method'', lit ''CONNECT'')"
    "8 \<in> field_bits relaxed f \<longleftrightarrow> f = (lit '':method'', lit ''HEAD'')"
    "9 \<in> field_bits relaxed f \<longleftrightarrow> f = (lit '':method'', lit ''OPTIONS'')"
    "11 \<in> field_bits relaxed f \<longleftrightarrow> fst f = lit '':path'' \<and> hd (snd f) = CH_SLASH"
    "12 \<in> field_bits relaxed f \<longleftrightarrow> f = (lit '':path'', lit ''*'')"
    "13 \<in> field_bits relaxed f \<longleftrightarrow> fst f = lit '':scheme'' \<and> http_scheme (snd f)"
    "5 \<notin> field_bits relaxed f" "10 \<notin> field_bits relaxed f" "14 \<notin> field_bits relaxed f"
proof -
  obtain n v where f: "f = (n, v)" by (cases f)
  have star: "hd (lit ''*'') \<noteq> CH_SLASH" by (simp add: lit_def)
  consider "n = lit '':authority''" | "n = lit '':method''" | "n = lit '':path''" | "n = lit '':scheme''"
    | "n = lit '':protocol''" | "\<not> pseudo f" using request_field_pseudo [OF assms] f by auto
  then have "(0 \<in> field_bits relaxed f \<longleftrightarrow> fst f = lit '':authority'') \<and> (1 \<in> field_bits relaxed f \<longleftrightarrow> fst f = lit '':path'') \<and>
    (2 \<in> field_bits relaxed f \<longleftrightarrow> fst f = lit '':method'') \<and> (3 \<in> field_bits relaxed f \<longleftrightarrow> fst f = lit '':scheme'') \<and>
    (15 \<in> field_bits relaxed f \<longleftrightarrow> fst f = lit '':protocol'') \<and>
    (4 \<in> field_bits relaxed f \<longleftrightarrow> fst f = lit ''host'' \<and> \<not> dropped relaxed f) \<and> (6 \<in> field_bits relaxed f \<longleftrightarrow> \<not> pseudo f) \<and>
    (7 \<in> field_bits relaxed f \<longleftrightarrow> f = (lit '':method'', lit ''CONNECT'')) \<and>
    (8 \<in> field_bits relaxed f \<longleftrightarrow> f = (lit '':method'', lit ''HEAD'')) \<and>
    (9 \<in> field_bits relaxed f \<longleftrightarrow> f = (lit '':method'', lit ''OPTIONS'')) \<and>
    (11 \<in> field_bits relaxed f \<longleftrightarrow> fst f = lit '':path'' \<and> hd (snd f) = CH_SLASH) \<and>
    (12 \<in> field_bits relaxed f \<longleftrightarrow> f = (lit '':path'', lit ''*'')) \<and>
    (13 \<in> field_bits relaxed f \<longleftrightarrow> fst f = lit '':scheme'' \<and> http_scheme (snd f)) \<and>
    5 \<notin> field_bits relaxed f \<and> 10 \<notin> field_bits relaxed f \<and> 14 \<notin> field_bits relaxed f"
  proof cases
    case 1
    then have "field_bits relaxed f = {0}" by (simp add: field_bits_def pseudo_lit f)
    then show ?thesis using 1 by (simp add: f pseudo_lit)
  next
    case 2
    then have "field_bits relaxed f = insert 2 (if v = lit ''HEAD'' then {8} else if v = lit ''CONNECT'' then {7}
        else if v = lit ''OPTIONS'' then {9} else {})" by (simp add: field_bits_def pseudo_lit f)
    then show ?thesis using 2 by (simp add: f pseudo_lit)
  next
    case 3
    then have "field_bits relaxed f = insert 1 (if hd v = CH_SLASH then {11} else if v = lit ''*'' then {12} else {})"
      by (simp add: field_bits_def pseudo_lit f)
    then show ?thesis using 3 star by (auto simp: f pseudo_lit)
  next
    case 4
    then have "field_bits relaxed f = insert 3 (if http_scheme v then {13} else {})" by (simp add: field_bits_def pseudo_lit f)
    then show ?thesis using 4 by (simp add: f pseudo_lit)
  next
    case 5
    then have "field_bits relaxed f = {15}" by (simp add: field_bits_def pseudo_lit f)
    then show ?thesis using 5 by (simp add: f pseudo_lit)
  next
    case 6
    then have "field_bits relaxed f = insert 6 (if n = lit ''host'' \<and> \<not> dropped relaxed f then {4} else {})"
      by (simp add: field_bits_def f)
    moreover have "n \<noteq> lit '':authority''" "n \<noteq> lit '':method''" "n \<noteq> lit '':path''" "n \<noteq> lit '':scheme''" "n \<noteq> lit '':protocol''"
      using 6 f pseudo_lit by metis+
    ultimately show ?thesis using 6 by (cases "n = lit ''host''") (simp_all add: f)
  qed
  then show "0 \<in> field_bits relaxed f \<longleftrightarrow> fst f = lit '':authority''" "1 \<in> field_bits relaxed f \<longleftrightarrow> fst f = lit '':path''"
    "2 \<in> field_bits relaxed f \<longleftrightarrow> fst f = lit '':method''" "3 \<in> field_bits relaxed f \<longleftrightarrow> fst f = lit '':scheme''"
    "15 \<in> field_bits relaxed f \<longleftrightarrow> fst f = lit '':protocol''"
    "4 \<in> field_bits relaxed f \<longleftrightarrow> fst f = lit ''host'' \<and> \<not> dropped relaxed f" "6 \<in> field_bits relaxed f \<longleftrightarrow> \<not> pseudo f"
    "7 \<in> field_bits relaxed f \<longleftrightarrow> f = (lit '':method'', lit ''CONNECT'')"
    "8 \<in> field_bits relaxed f \<longleftrightarrow> f = (lit '':method'', lit ''HEAD'')"
    "9 \<in> field_bits relaxed f \<longleftrightarrow> f = (lit '':method'', lit ''OPTIONS'')"
    "11 \<in> field_bits relaxed f \<longleftrightarrow> fst f = lit '':path'' \<and> hd (snd f) = CH_SLASH"
    "12 \<in> field_bits relaxed f \<longleftrightarrow> f = (lit '':path'', lit ''*'')"
    "13 \<in> field_bits relaxed f \<longleftrightarrow> fst f = lit '':scheme'' \<and> http_scheme (snd f)"
    "5 \<notin> field_bits relaxed f" "10 \<notin> field_bits relaxed f" "14 \<notin> field_bits relaxed f"
    by simp_all
qed

text \<open>What the flags say about the fields.\<close>

lemma fields_bits:
  assumes "request_fields relaxed cp pushed fs"
  defines "bits \<equiv> \<Union> (field_bits relaxed ` set fs)" and "val \<equiv> value_of relaxed fs"
  shows "0 \<in> bits \<longleftrightarrow> val '':authority'' \<noteq> None" "1 \<in> bits \<longleftrightarrow> val '':path'' \<noteq> None"
    "2 \<in> bits \<longleftrightarrow> val '':method'' \<noteq> None" "3 \<in> bits \<longleftrightarrow> val '':scheme'' \<noteq> None"
    "4 \<in> bits \<longleftrightarrow> val ''host'' \<noteq> None" "15 \<in> bits \<longleftrightarrow> val '':protocol'' \<noteq> None"
    "6 \<in> bits \<longleftrightarrow> (\<exists>f \<in> set fs. \<not> pseudo f)"
    "7 \<in> bits \<longleftrightarrow> val '':method'' = Some (lit ''CONNECT'')" "8 \<in> bits \<longleftrightarrow> val '':method'' = Some (lit ''HEAD'')"
    "9 \<in> bits \<longleftrightarrow> val '':method'' = Some (lit ''OPTIONS'')"
    "11 \<in> bits \<longleftrightarrow> (\<exists>v. val '':path'' = Some v \<and> hd v = CH_SLASH)" "12 \<in> bits \<longleftrightarrow> val '':path'' = Some (lit ''*'')"
    "13 \<in> bits \<longleftrightarrow> (\<exists>v. val '':scheme'' = Some v \<and> http_scheme v)"
    "5 \<notin> bits" "10 \<notin> bits" "14 \<notin> bits"
proof -
  have ok: "f \<in> set fs \<Longrightarrow> request_field relaxed cp pushed f" for f
    using assms(1) by (auto simp: request_fields_def list_all_iff)
  have bit: "n \<in> bits \<longleftrightarrow> (\<exists>f \<in> set fs. n \<in> field_bits relaxed f)" for n by (auto simp: bits_def)
  have ps: "\<not> dropped relaxed (lit '':authority'', v)" "\<not> dropped relaxed (lit '':method'', v)"
    "\<not> dropped relaxed (lit '':path'', v)" "\<not> dropped relaxed (lit '':scheme'', v)" "\<not> dropped relaxed (lit '':protocol'', v)" for v
    by (simp_all add: dropped_def pseudo_lit)
  have some: "val name = Some v \<longleftrightarrow> (lit name, v) \<in> set fs \<and> \<not> dropped relaxed (lit name, v)" if "lit name \<in> single_names" for name v
    using value_of_iff [OF assms(1) that] by (auto simp: val_def received_iff)
  note all = field_bits_iff [where cp = cp and pushed = pushed and relaxed = relaxed]
  show "0 \<in> bits \<longleftrightarrow> val '':authority'' \<noteq> None" "1 \<in> bits \<longleftrightarrow> val '':path'' \<noteq> None"
    "2 \<in> bits \<longleftrightarrow> val '':method'' \<noteq> None" "3 \<in> bits \<longleftrightarrow> val '':scheme'' \<noteq> None"
    "4 \<in> bits \<longleftrightarrow> val ''host'' \<noteq> None" "15 \<in> bits \<longleftrightarrow> val '':protocol'' \<noteq> None"
    "6 \<in> bits \<longleftrightarrow> (\<exists>f \<in> set fs. \<not> pseudo f)"
    "7 \<in> bits \<longleftrightarrow> val '':method'' = Some (lit ''CONNECT'')" "8 \<in> bits \<longleftrightarrow> val '':method'' = Some (lit ''HEAD'')"
    "9 \<in> bits \<longleftrightarrow> val '':method'' = Some (lit ''OPTIONS'')"
    "11 \<in> bits \<longleftrightarrow> (\<exists>v. val '':path'' = Some v \<and> hd v = CH_SLASH)" "12 \<in> bits \<longleftrightarrow> val '':path'' = Some (lit ''*'')"
    "13 \<in> bits \<longleftrightarrow> (\<exists>v. val '':scheme'' = Some v \<and> http_scheme v)"
    unfolding bit not_None_eq some [OF singles_names(1)] some [OF singles_names(2)] some [OF singles_names(3)]
      some [OF singles_names(4)] some [OF singles_names(5)] some [OF singles_names(6)]
    by (simp_all add: all [OF ok] all(2) [OF ok, unfolded One_nat_def] ps cong: bex_cong) (auto simp: Bex_def)
  show "5 \<notin> bits" "10 \<notin> bits" "14 \<notin> bits"
    unfolding bit using all(14-16) ok by blast+
qed

lemma length_of_snoc:
  assumes "distinct (singles relaxed (fs @ [f]))"
  shows "length_of relaxed (fs @ [f]) = field_length relaxed f (length_of relaxed fs)"
proof (cases "fst f = lit ''content-length'' \<and> \<not> dropped relaxed f")
  case True
  then have "lit ''content-length'' \<notin> fst ` set (received relaxed fs)"
    using assms singles_names(7) by (auto simp: singles_def image_iff)
  then have "value_of relaxed fs ''content-length'' = None" by (simp add: value_of_None)
  then show ?thesis using True
    by (cases f) (simp add: length_of_def value_of_def field_length_def map_add_def)
next
  case False
  have "value_of relaxed (fs @ [f]) ''content-length'' = value_of relaxed fs ''content-length''"
  proof (cases "dropped relaxed f")
    case True
    then show ?thesis by (simp add: value_of_def)
  next
    case d: False
    then have "fst f \<noteq> lit ''content-length''" using False by simp
    then show ?thesis using d
      by (cases f) (simp add: value_of_def map_add_def split: option.split)
  qed
  then show ?thesis using False by (auto simp: length_of_def field_length_def)
qed

lemma stream_has_iff:
  assumes r: "request_fields relaxed cp pushed fs" and a: "after_fields relaxed s0 fs s" and fr: "fresh s0"
    and n: "name \<in> single_names"
  shows "stream_has s name \<longleftrightarrow> name \<in> fst ` set (received relaxed fs)"
proof -
  have b: "n \<notin> priority_bits \<Longrightarrow> bit (st_http_flags s) n \<longleftrightarrow> n \<in> \<Union> (field_bits relaxed ` set fs)" for n
    using a fr by (simp add: after_fields_def updated_def fresh_def)
  have l: "st_content_length s = length_of relaxed fs" using a by (simp add: after_fields_def updated_def)
  have cl: "decimal v \<noteq> - 1" if "value_of relaxed fs ''content-length'' = Some v" for v
  proof -
    have "(lit ''content-length'', v) \<in> set (received relaxed fs)" by (rule iffD1 [OF value_of_iff [OF r singles_names(7)] that])
    then have "is_decimal v" using r
      by (force simp: request_fields_def list_all_iff received_iff request_field_def pseudo_lit)
    then show ?thesis using decimal_nonneg [of v] by simp
  qed
  have st: "stream_has s (lit '':authority'') \<longleftrightarrow> bit (st_http_flags s) 0"
    "stream_has s (lit '':path'') \<longleftrightarrow> bit (st_http_flags s) 1" "stream_has s (lit '':method'') \<longleftrightarrow> bit (st_http_flags s) 2"
    "stream_has s (lit '':scheme'') \<longleftrightarrow> bit (st_http_flags s) 3" "stream_has s (lit ''host'') \<longleftrightarrow> bit (st_http_flags s) 4"
    "stream_has s (lit '':protocol'') \<longleftrightarrow> bit (st_http_flags s) 15"
    "stream_has s (lit ''content-length'') \<longleftrightarrow> st_content_length s \<noteq> - 1"
    by (simp_all add: stream_has_def)
  have pr: "0 \<notin> priority_bits" "1 \<notin> priority_bits" "2 \<notin> priority_bits" "3 \<notin> priority_bits" "4 \<notin> priority_bits"
    "15 \<notin> priority_bits" by (simp_all add: priority_bits_def)
  have len: "st_content_length s \<noteq> - 1 \<longleftrightarrow> value_of relaxed fs ''content-length'' \<noteq> None"
    using cl by (simp add: l length_of_def split: option.split)
  note bits = fields_bits(1-6) [OF r, unfolded value_of_None not_not]
  show ?thesis
    using n unfolding single_names_def
    by (elim insertE emptyE) (simp_all only: st b [OF pr(1)] b [OF pr(2)] b [OF pr(3)] b [OF pr(4)] b [OF pr(5)]
      b [OF pr(6)] bits len value_of_None not_not)
qed

lemma request_admits_iff:
  assumes r: "request_fields relaxed cp (even (st_stream_id s)) fs" and a: "after_fields relaxed s0 fs s" and fr: "fresh s0"
  shows "request_admits relaxed cp False s f \<longleftrightarrow> request_fields relaxed cp (even (st_stream_id s)) (fs @ [f])"
proof -
  have "bit (st_http_flags s) 6 \<longleftrightarrow> 6 \<in> \<Union> (field_bits relaxed ` set fs)"
    using a fr by (simp add: after_fields_def updated_def fresh_def priority_bits_def)
  then have "bit (st_http_flags s) 6 \<longleftrightarrow> \<not> list_all pseudo fs"
    using fields_bits(7) [OF r] by (auto simp: list_all_iff)
  moreover have "distinct (singles relaxed (fs @ [f])) \<longleftrightarrow>
      distinct (singles relaxed fs) \<and> (\<not> dropped relaxed f \<and> fst f \<in> single_names \<longrightarrow> fst f \<notin> fst ` set (received relaxed fs))"
    by (auto simp: singles_def image_iff)
  ultimately show ?thesis
    using stream_has_iff [OF r a fr, of "fst f"] r
    by (auto simp: request_admits_def request_fields_def pseudo_first_snoc)
qed

lemma updated_step:
  "updated a l s0 s \<Longrightarrow> updated b l' s s' \<Longrightarrow> updated (a \<union> b) l' s0 s'"
  by (auto simp: updated_def)

lemma receive_request_fields:
  assumes side: "server \<or> ft = NGHTTP2_PUSH_PROMISE" and cp: "cp \<longleftrightarrow> server \<and> enabled" and fr: "fresh s0"
    and rel: "relaxed = no_rfc9113_validation s0" and pushed: "pushed = even (st_stream_id s0)"
  shows "list_all (\<lambda>nv. hn_token nv = lookup_token (hn_name nv)) nvs \<Longrightarrow> request_fields relaxed cp pushed fs \<Longrightarrow>
    after_fields relaxed s0 fs s \<Longrightarrow>
    \<exists>s'. receive_fields (\<lambda>s nv. nghttp2_http_on_header server enabled s ft nv False) s nvs =
        Some (if request_fields relaxed cp pushed (fs @ map field nvs) then Inr (received relaxed (map field nvs))
              else Inl ERR_HTTP_HEADER, s') \<and>
      (request_fields relaxed cp pushed (fs @ map field nvs) \<longrightarrow> after_fields relaxed s0 (fs @ map field nvs) s')"
proof (induction nvs arbitrary: fs s)
  case Nil
  then show ?case by (simp add: received_def)
next
  case (Cons nv nvs)
  let ?f = "field nv" and ?out = "nghttp2_http_on_header server enabled s ft nv False"
  have id: "even (st_stream_id s) = pushed" and rs: "relaxed = no_rfc9113_validation s"
    using Cons.prems(3) rel pushed by (simp_all add: after_fields_def updated_def no_rfc9113_validation_def)
  have adm: "request_admits relaxed cp False s ?f \<longleftrightarrow> request_fields relaxed cp pushed (fs @ [?f])"
    using request_admits_iff [OF _ Cons.prems(3) fr, of cp ?f] Cons.prems(2) id by simp
  have tok: "hn_token nv = lookup_token (hn_name nv)" using Cons.prems(1) by simp
  note step = request_step [OF side tok rs cp, of False, unfolded adm]
  have app: "fs @ map field (nv # nvs) = (fs @ [?f]) @ map field nvs" by simp
  show ?case
  proof (cases "request_fields relaxed cp pushed (fs @ [?f])")
    case False
    then have "\<not> request_fields relaxed cp pushed (fs @ map field (nv # nvs))"
      using request_fields_prefix app by metis
    moreover have "rejects ?out" using step False by simp
    ultimately show ?thesis by (auto simp: rejects_def)
  next
    case True
    then have acc: "accepts (field_bits relaxed ?f) (field_length relaxed ?f (st_content_length s)) s
        (if dropped relaxed ?f then Inl ERR_IGN_HTTP_HEADER else Inr ()) ?out" using step by simp
    then obtain s1 where s1: "?out = Some (if dropped relaxed ?f then Inl ERR_IGN_HTTP_HEADER else Inr (), s1)"
      "updated (field_bits relaxed ?f) (field_length relaxed ?f (st_content_length s)) s s1"
      by (auto simp: accepts_def)
    have "after_fields relaxed s0 (fs @ [?f]) s1"
      using updated_step [OF Cons.prems(3) [unfolded after_fields_def] s1(2)] True length_of_snoc [of relaxed fs ?f]
        Cons.prems(3)
      by (simp add: after_fields_def request_fields_def updated_def Un_commute)
    then obtain s' where s': "receive_fields (\<lambda>s nv. nghttp2_http_on_header server enabled s ft nv False) s1 nvs =
        Some (if request_fields relaxed cp pushed ((fs @ [?f]) @ map field nvs) then Inr (received relaxed (map field nvs))
              else Inl ERR_HTTP_HEADER, s')"
      "request_fields relaxed cp pushed ((fs @ [?f]) @ map field nvs) \<longrightarrow>
         after_fields relaxed s0 ((fs @ [?f]) @ map field nvs) s'"
      using Cons.IH [of "fs @ [?f]" s1] Cons.prems(1) True by auto
    show ?thesis unfolding app
      using s' s1(1) by (cases "dropped relaxed ?f") (simp_all add: received_def)
  qed
qed

section \<open>The end of the header block\<close>

lemma req_headers_flag:
  "w AND NGHTTP2_HTTP_FLAG_REQ_HEADERS = NGHTTP2_HTTP_FLAG_REQ_HEADERS \<longleftrightarrow> bit w 1 \<and> bit w 2 \<and> bit (w :: u32) 3"
proof -
  have m: "bit NGHTTP2_HTTP_FLAG_REQ_HEADERS n \<longleftrightarrow> n = 1 \<or> n = 2 \<or> n = 3" for n
    by (auto simp: NGHTTP2_HTTP_FLAG_REQ_HEADERS_def bit_or_iff flag_nth)
  have "bit w n" if "w AND NGHTTP2_HTTP_FLAG_REQ_HEADERS = NGHTTP2_HTTP_FLAG_REQ_HEADERS" "n = 1 \<or> n = 2 \<or> n = 3" for n
    using arg_cong [OF that(1), of "\<lambda>v. bit v n"] that(2) m [of n] by (simp add: bit_and_iff)
  moreover have "w AND NGHTTP2_HTTP_FLAG_REQ_HEADERS = NGHTTP2_HTTP_FLAG_REQ_HEADERS" if "bit w 1" "bit w 2" "bit w 3"
    by (rule bit_eqI) (use that in \<open>auto simp: bit_and_iff m\<close>)
  ultimately show ?thesis by blast
qed

lemma request_headers_complete:
  assumes r: "request_fields relaxed cp pushed fs" and a: "after_fields relaxed s0 fs s" and fr: "fresh s0"
  shows "\<exists>s'. nghttp2_http_on_request_headers s ft = (request_complete (value_of relaxed fs), s') \<and>
    (request_complete (value_of relaxed fs) \<longrightarrow>
      st_content_length s' = (if ft = NGHTTP2_PUSH_PROMISE then - 1 else declared_length (value_of relaxed fs)) \<and>
      (bit (st_http_flags s') 7 \<longleftrightarrow> value_of relaxed fs '':method'' = Some (lit ''CONNECT'')) \<and>
      (bit (st_http_flags s') 8 \<longleftrightarrow> value_of relaxed fs '':method'' = Some (lit ''HEAD'')) \<and>
      \<not> bit (st_http_flags s') 14 \<and> (ft = NGHTTP2_PUSH_PROMISE \<longrightarrow> \<not> bit (st_http_flags s') 5 \<and> \<not> bit (st_http_flags s') 6) \<and>
      st_recv_content_length s' = st_recv_content_length s0 \<and> st_status_code s' = st_status_code s0 \<and>
      st_stream_id s' = st_stream_id s0 \<and> st_flags s' = st_flags s0)"
proof -
  let ?val = "value_of relaxed fs"
  have b: "n \<notin> priority_bits \<Longrightarrow> bit (st_http_flags s) n \<longleftrightarrow> n \<in> \<Union> (field_bits relaxed ` set fs)" for n
    using a fr by (simp add: after_fields_def updated_def fresh_def)
  have pr: "n \<notin> priority_bits" if "n < 16" for n using that by (simp add: priority_bits_def)
  have bits: "bit (st_http_flags s) 0 \<longleftrightarrow> ?val '':authority'' \<noteq> None" "bit (st_http_flags s) 1 \<longleftrightarrow> ?val '':path'' \<noteq> None"
    "bit (st_http_flags s) 2 \<longleftrightarrow> ?val '':method'' \<noteq> None" "bit (st_http_flags s) 3 \<longleftrightarrow> ?val '':scheme'' \<noteq> None"
    "bit (st_http_flags s) 4 \<longleftrightarrow> ?val ''host'' \<noteq> None" "bit (st_http_flags s) 15 \<longleftrightarrow> ?val '':protocol'' \<noteq> None"
    "bit (st_http_flags s) 7 \<longleftrightarrow> ?val '':method'' = Some (lit ''CONNECT'')"
    "bit (st_http_flags s) 8 \<longleftrightarrow> ?val '':method'' = Some (lit ''HEAD'')"
    "bit (st_http_flags s) 9 \<longleftrightarrow> ?val '':method'' = Some (lit ''OPTIONS'')"
    "bit (st_http_flags s) 11 \<longleftrightarrow> (\<exists>v. ?val '':path'' = Some v \<and> hd v = CH_SLASH)"
    "bit (st_http_flags s) 12 \<longleftrightarrow> ?val '':path'' = Some (lit ''*'')"
    "bit (st_http_flags s) 13 \<longleftrightarrow> (\<exists>v. ?val '':scheme'' = Some v \<and> http_scheme v)"
    "\<not> bit (st_http_flags s) 14"
    by (simp_all only: b [OF pr] fields_bits [OF r] rel_simps simp_thms)
  have l: "st_content_length s = length_of relaxed fs" and keep: "st_recv_content_length s = st_recv_content_length s0"
    "st_status_code s = st_status_code s0" "st_stream_id s = st_stream_id s0" "st_flags s = st_flags s0"
    using a by (simp_all add: after_fields_def updated_def)
  have meth: "bit (w AND NGHTTP2_HTTP_FLAG_METH_ALL) n \<longleftrightarrow> bit w n \<and> n \<in> {7, 8, 9, 10}" for w n
    by (auto simp: bit_and_iff NGHTTP2_HTTP_FLAG_METH_ALL_def bit_or_iff flag_nth)
  define promised :: "nghttp2_stream \<Rightarrow> nghttp2_stream" where "promised = (\<lambda>s. if ft = NGHTTP2_PUSH_PROMISE
      then s\<lparr>st_http_flags := st_http_flags s AND NGHTTP2_HTTP_FLAG_METH_ALL, st_content_length := - 1\<rparr> else s)"
  define t where "t = (if ?val '':protocol'' = None \<and> ?val '':method'' = Some (lit ''CONNECT'')
      then s\<lparr>st_content_length := - 1\<rparr> else s)"
  have path: "check_path s \<longleftrightarrow> (\<forall>v. ?val '':scheme'' = Some v \<and> http_scheme v \<longrightarrow>
      (\<exists>v. ?val '':path'' = Some v \<and> hd v = CH_SLASH) \<or>
      ?val '':method'' = Some (lit ''OPTIONS'') \<and> ?val '':path'' = Some (lit ''*''))"
    by (auto simp: check_path_def flag_bits bits)
  have "nghttp2_http_on_request_headers s ft =
      (if request_complete ?val then (True, promised t) else (False, s))"
    unfolding nghttp2_http_on_request_headers_def Let_def promised_def [symmetric] has_flag_or flag_bits req_headers_flag
      bits path t_def request_complete_def
    by (cases "?val '':scheme''"; cases "?val '':path''"; cases "?val '':method''"; cases "?val '':authority''"; cases "?val '':protocol''")
      (simp_all add: promised_def)
  moreover have "st_content_length t = declared_length ?val"
    by (simp add: t_def declared_length_def l length_of_def)
  moreover have "st_http_flags t = st_http_flags s" "st_recv_content_length t = st_recv_content_length s"
    "st_status_code t = st_status_code s" "st_stream_id t = st_stream_id s" "st_flags t = st_flags s"
    by (simp_all add: t_def)
  ultimately show ?thesis
    using keep bits(7,8,13) by (auto simp: promised_def meth)
qed

section \<open>Whole requests\<close>

text \<open>
  Exactly the well-formed requests are accepted. A new stream that receives a header block as a request, on a
  server or in a PUSH_PROMISE frame, with tokens as HPACK assigns them, ends with an HTTP_HEADER
  error exactly when some field breaks the rules: an unknown, empty, illegal or late pseudo header field, an
  upper-case name, a field of the connection, a duplicate of a field that must be single, a content length that is no decimal number below
  2 to the power of 63, or a \<open>te\<close> other than \<open>trailers\<close>. It ends with an HTTP_MESSAGING error exactly when
  a mandatory field is missing. In all other cases the application gets the fields in
  order, but for the illegal regular ones, and the stream records the declared length of the body and the
  method.
\<close>

theorem http_request_exact:
  assumes "server \<or> ft = NGHTTP2_PUSH_PROMISE" and "fresh s"
    and "list_all (\<lambda>nv. hn_token nv = lookup_token (hn_name nv)) nvs"
  defines "relaxed \<equiv> no_rfc9113_validation s" and "fs \<equiv> map field nvs"
  shows "\<exists>s'. receive_request server enabled ft s nvs =
      Some (if \<not> request_fields relaxed (server \<and> enabled) (even (st_stream_id s)) fs then Inl ERR_HTTP_HEADER
            else if \<not> request_complete (value_of relaxed fs) then Inl ERR_HTTP_MESSAGING
            else Inr (received relaxed fs), s') \<and>
    (request_ok relaxed (server \<and> enabled) (even (st_stream_id s)) fs \<longrightarrow>
      st_content_length s' = (if ft = NGHTTP2_PUSH_PROMISE then - 1 else declared_length (value_of relaxed fs)) \<and>
      (has_http_flag s' NGHTTP2_HTTP_FLAG_METH_HEAD \<longleftrightarrow> value_of relaxed fs '':method'' = Some (lit ''HEAD'')) \<and>
      (has_http_flag s' NGHTTP2_HTTP_FLAG_METH_CONNECT \<longleftrightarrow> value_of relaxed fs '':method'' = Some (lit ''CONNECT'')) \<and>
      \<not> has_http_flag s' NGHTTP2_HTTP_FLAG_EXPECT_FINAL_RESPONSE \<and>
      st_recv_content_length s' = st_recv_content_length s)"
proof -
  have nil: "request_fields relaxed cp pushed []" "after_fields relaxed s [] s" for cp pushed
    using assms(2) by (auto simp: request_fields_def pseudo_first_def singles_def received_def after_fields_def updated_def
        length_of_def value_of_def fresh_def)
  obtain s1 where s1: "receive_fields (\<lambda>s nv. nghttp2_http_on_header server enabled s ft nv False) s nvs =
        Some (if request_fields relaxed (server \<and> enabled) (even (st_stream_id s)) fs then Inr (received relaxed fs)
              else Inl ERR_HTTP_HEADER, s1)"
      "request_fields relaxed (server \<and> enabled) (even (st_stream_id s)) fs \<longrightarrow> after_fields relaxed s fs s1"
    using receive_request_fields [OF assms(1) refl assms(2) relaxed_def [THEN meta_eq_to_obj_eq] refl assms(3) nil]
    unfolding fs_def [symmetric] append_Nil by blast
  show ?thesis
  proof (cases "request_fields relaxed (server \<and> enabled) (even (st_stream_id s)) fs")
    case False
    then show ?thesis using s1 by (simp add: receive_request_def request_ok_def)
  next
    case True
    then show ?thesis
      using s1 request_headers_complete [OF True _ assms(2), of s1 ft]
      by (auto simp: receive_request_def request_ok_def flag_bits)
  qed
qed

text \<open>A request with an illegal field name in the middle, and the same request with its path behind that field.\<close>

definition nv_of :: "string \<times> string \<Rightarrow> nghttp2_hd_nv" where
  "nv_of f = \<lparr>hn_name = lit (fst f), hn_value = lit (snd f), hn_token = lookup_token (lit (fst f)), hn_flags = 0\<rparr>"

definition example_request :: "nghttp2_hd_nv list" where
  "example_request = map nv_of
     [('':method'', ''POST''), ('':scheme'', ''https''), ('':path'', ''/x''), ('':authority'', ''a.org''),
      (''bad name'', ''1''), (''content-length'', ''12'')]"

definition example_late_path :: "nghttp2_hd_nv list" where
  "example_late_path = map nv_of
     [('':method'', ''POST''), ('':scheme'', ''https''), ('':authority'', ''a.org''), (''bad name'', ''1''), ('':path'', ''/x'')]"

definition example_stream :: nghttp2_stream where
  "example_stream = nghttp2_stream_init 1 0 STREAM_OPENING 65535 65535"

theorem http_request_exact_witness:
  "(\<exists>s'. receive_request True False NGHTTP2_HEADERS example_stream example_request =
      Some (Inr (map field (take 4 example_request @ drop 5 example_request)), s') \<and> st_content_length s' = 12) \<and>
   (\<exists>s'. receive_request True False NGHTTP2_HEADERS example_stream example_late_path = Some (Inl ERR_HTTP_HEADER, s'))"
proof -
  have fr: "fresh example_stream" by (simp add: fresh_def example_stream_def nghttp2_stream_init_def)
  have tok: "list_all (\<lambda>nv. hn_token nv = lookup_token (hn_name nv)) example_request"
    "list_all (\<lambda>nv. hn_token nv = lookup_token (hn_name nv)) example_late_path"
    by (simp_all add: example_request_def example_late_path_def nv_of_def)
  have rel: "no_rfc9113_validation example_stream = False" "even (st_stream_id example_stream) = False"
    "NGHTTP2_HEADERS \<noteq> NGHTTP2_PUSH_PROMISE" by code_simp+
  have ok: "request_fields False False False (map field example_request)"
    "request_complete (value_of False (map field example_request))"
    "declared_length (value_of False (map field example_request)) = 12"
    "received False (map field example_request) = map field (take 4 example_request @ drop 5 example_request)"
    "\<not> request_fields False False False (map field example_late_path)"
    by code_simp+
  show ?thesis
    using http_request_exact [OF _ fr tok(1), of True NGHTTP2_HEADERS False, unfolded rel]
      http_request_exact [OF _ fr tok(2), of True NGHTTP2_HEADERS False, unfolded rel] ok rel(3)
    by (auto simp: request_ok_def)
qed

end
