(* ===== verification/Nghttp2_Http_Response.thy ===== *)
theory Nghttp2_Http_Response
  imports Nghttp2_Http_Request
begin

text \<open>
  The rules of nghttp2_http.c for responses, interim and final ones, on a client.
\<close>

unbundle bit_operations_syntax

section \<open>The rules\<close>

text \<open>An illegal regular field is dropped as in a request; all values follow the same grammar.\<close>

definition resp_dropped :: "bool \<Rightarrow> hfield \<Rightarrow> bool" where
  "resp_dropped relaxed f \<longleftrightarrow> \<not> pseudo f \<and> (\<not> nghttp2_check_header_name (fst f) \<or> \<not> plain_value relaxed (snd f))"

definition resp_received :: "bool \<Rightarrow> hfield list \<Rightarrow> hfield list" where
  "resp_received relaxed fs = filter (\<lambda>f. \<not> resp_dropped relaxed f) fs"

text \<open>The status code, -1 before it is known.\<close>

definition status_of :: "hfield list \<Rightarrow> int" where
  "status_of fs = (case map_of fs (lit '':status'') of None \<Rightarrow> - 1 | Some v \<Rightarrow> decimal v)"

definition status_value :: "bytes \<Rightarrow> bool" where
  "status_value v \<longleftrightarrow> is_decimal v \<and> length v = 3 \<and> decimal v \<noteq> 101"

text \<open>In a response to CONNECT with a code 2xx a content length is ignored.\<close>

definition tunnel :: "bool \<Rightarrow> int \<Rightarrow> bool" where
  "tunnel connect code \<longleftrightarrow> connect \<and> code div 100 = 2"

definition resp_content_length :: "bool \<Rightarrow> int \<Rightarrow> bytes \<Rightarrow> bool" where
  "resp_content_length connect code v \<longleftrightarrow>
     (if code = 204 then v = lit ''0''
      else if code div 100 = 1 then False
      else if tunnel connect code then True
      else is_decimal v \<and> decimal v \<le> INT64_MAX)"

definition response_field :: "bool \<Rightarrow> bool \<Rightarrow> int \<Rightarrow> hfield \<Rightarrow> bool" where
  "response_field relaxed connect code f \<longleftrightarrow>
     (if pseudo f then fst f = lit '':status'' \<and> plain_value relaxed (snd f) \<and> status_value (snd f)
      else
        \<not> upper_case (fst f) \<and>
        (resp_dropped relaxed f \<or>
          fst f \<notin> connection_fields \<and>
          (fst f = lit ''te'' \<longrightarrow> map downcase (snd f) = lit ''trailers'') \<and>
          (fst f = lit ''content-length'' \<longrightarrow> resp_content_length connect code (snd f))))"

definition resp_single :: "bool \<Rightarrow> int \<Rightarrow> bytes set" where
  "resp_single connect code =
     insert (lit '':status'') (if code \<noteq> 204 \<and> tunnel connect code then {} else {lit ''content-length''})"

definition response_fields :: "bool \<Rightarrow> bool \<Rightarrow> hfield list \<Rightarrow> bool" where
  "response_fields relaxed connect fs \<longleftrightarrow>
     list_all (response_field relaxed connect (status_of fs)) fs \<and> pseudo_first fs \<and>
     distinct (filter (\<lambda>n. n \<in> resp_single connect (status_of fs)) (map fst (resp_received relaxed fs)))"

text \<open>What the application gets: a content length that is ignored is removed as well.\<close>

definition resp_removed :: "bool \<Rightarrow> int \<Rightarrow> hfield \<Rightarrow> bool" where
  "resp_removed connect code f \<longleftrightarrow> fst f = lit ''content-length'' \<and> (code = 204 \<or> tunnel connect code)"

definition resp_delivered :: "bool \<Rightarrow> bool \<Rightarrow> int \<Rightarrow> hfield list \<Rightarrow> hfield list" where
  "resp_delivered relaxed connect code fs = filter (\<lambda>f. \<not> resp_removed connect code f) (resp_received relaxed fs)"

text \<open>The length of the body of a final response, or -1.\<close>

definition resp_length :: "bool \<Rightarrow> bool \<Rightarrow> hfield list \<Rightarrow> int" where
  "resp_length relaxed connect fs =
     (if tunnel connect (status_of fs) \<and> status_of fs \<noteq> 204 then - 1
      else case map_of (resp_received relaxed fs) (lit ''content-length'') of None \<Rightarrow> - 1 | Some v \<Rightarrow> decimal v)"

text \<open>A whole response header block: \<open>Inl\<close> if it is malformed, else the fields that are passed on.\<close>

definition receive_response ::
  "u8 \<Rightarrow> nghttp2_stream \<Rightarrow> nghttp2_hd_nv list \<Rightarrow> (hfield list res \<times> nghttp2_stream) option" where
  "receive_response frame_type stream nvs =
     (case receive_fields (\<lambda>s nv. nghttp2_http_on_header False False s frame_type nv False) stream nvs of
        None \<Rightarrow> None
      | Some (Inl e, s) \<Rightarrow> Some (Inl e, s)
      | Some (Inr fs, s) \<Rightarrow>
          (case nghttp2_http_on_response_headers s of
             (ok, s') \<Rightarrow> Some (if ok then Inr fs else Inl ERR_HTTP_MESSAGING, s')))"

section \<open>One field\<close>

definition resp_field_bits :: "hfield \<Rightarrow> nat set" where
  "resp_field_bits f = (if pseudo f then {5} else {6})"

definition resp_updated :: "nat set \<Rightarrow> int \<Rightarrow> int \<Rightarrow> nghttp2_stream \<Rightarrow> nghttp2_stream \<Rightarrow> bool" where
  "resp_updated bits len code s s' \<longleftrightarrow>
     (\<forall>n. bit (st_http_flags s') n \<longleftrightarrow> bit (st_http_flags s) n \<or> n \<in> bits) \<and>
     st_content_length s' = len \<and> st_status_code s' = code \<and> st_flags s' = st_flags s \<and>
     st_recv_content_length s' = st_recv_content_length s"

definition resp_accepts :: "nat set \<Rightarrow> int \<Rightarrow> int \<Rightarrow> nghttp2_stream \<Rightarrow> unit res \<Rightarrow> on_header \<Rightarrow> bool" where
  "resp_accepts bits len code s r out \<longleftrightarrow> (\<exists>s'. out = Some (r, s') \<and> resp_updated bits len code s s')"

lemma resp_accepts_end:
  assumes "hn_name nv \<noteq> []" and "\<And>n. bit (st_http_flags t) n \<longleftrightarrow> bit (st_http_flags s) n \<or> n \<in> bits"
    and "st_content_length t = len" "st_status_code t = code" "st_flags t = st_flags s"
    "st_recv_content_length t = st_recv_content_length s"
  shows "resp_accepts (if pseudo (field nv) then bits else insert 6 bits) len code s (Inr ()) (on_header_end nv t)"
  using assms(2-) unfolding resp_accepts_def resp_updated_def on_header_end_def name_first [OF assms(1)]
  by (auto simp: flag_nth)

lemma status_parse: "length v = 3 \<Longrightarrow> int16 (parse_uint v) = (if is_decimal v then decimal v else - 1)"
proof -
  assume l: "length v = 3"
  then obtain a b c where v: "v = [a, b, c]" by (auto simp: numeral_eq_Suc length_Suc_conv)
  show ?thesis
  proof (cases "is_decimal v")
    case True
    then have "0 \<le> decimal v" "decimal v \<le> 999" by (auto simp: v is_decimal_def decimal_def is_digit_def)
    then show ?thesis using True by (simp add: parse_uint_exact int16_def INT64_MAX_def)
  next
    case False
    then show ?thesis by (simp add: parse_uint_exact int16_def)
  qed
qed

lemma on_status_outcome:
  assumes "hn_name nv = lit '':status''"
  shows "if bit (st_http_flags s) 5 \<or> \<not> status_value (hn_value nv) then rejects (on_status s nv)
    else resp_accepts {5} (st_content_length s) (decimal (hn_value nv)) s (Inr ()) (on_status s nv)"
proof -
  have ne: "hn_name nv \<noteq> []" and p: "pseudo (field nv)"
    using assms by (auto simp: lit_def field_def pseudo_def)
  note e = resp_accepts_end [OF ne, unfolded if_P [OF p]]
  show ?thesis
    using decimal_nonneg [of "hn_value nv"]
    by (auto simp: on_status_def check_pseudo_header_def flag_bits status_value_def Let_def status_parse flag_nth intro!: e)
qed

lemma status_class_nonneg: "- 1 \<le> st_status_code s \<Longrightarrow> status_class s = 1 \<longleftrightarrow> st_status_code s div 100 = 1"
  "- 1 \<le> st_status_code s \<Longrightarrow> status_class s = 2 \<longleftrightarrow> st_status_code s div 100 = 2"
  by (auto simp: status_class_def)

lemma on_response_content_length_outcome:
  assumes n: "hn_name nv = lit ''content-length''" and c: "- 1 \<le> st_status_code s"
    and conn: "connect \<longleftrightarrow> bit (st_http_flags s) 7"
  defines "code \<equiv> st_status_code s"
  shows "if \<not> resp_content_length connect code (hn_value nv) \<or>
        lit ''content-length'' \<in> resp_single connect code \<and> st_content_length s \<noteq> - 1
    then rejects (on_response_content_length s nv)
    else resp_accepts (if resp_removed connect code (field nv) then {} else {6})
      (if code \<noteq> 204 \<and> tunnel connect code then st_content_length s else decimal (hn_value nv)) code s
      (if resp_removed connect code (field nv) then Inl ERR_REMOVE_HTTP_HEADER else Inr ()) (on_response_content_length s nv)"
proof -
  have ne: "hn_name nv \<noteq> []" and p: "\<not> pseudo (field nv)"
    using n by (auto simp: lit_def field_def pseudo_def)
  note e = resp_accepts_end [OF ne, where bits = "{}", unfolded if_not_P [OF p]]
  have f: "fst (field nv) = lit ''content-length''" using n by (simp add: field_def)
  have zero: "map downcase v = map downcase (lit ''0'') \<longleftrightarrow> v = lit ''0''" for v
  proof
    assume h: "map downcase v = map downcase (lit ''0'')"
    then obtain c where "v = [c]" "downcase c = 0x30" by (auto simp: lit_def downcase_def)
    moreover from this(2) have "c = 0x30"
      by (auto simp: downcase_def word_le_def word_uint_eq_iff uint_word_ariths split: if_splits)
    ultimately show "v = lit ''0''" by (simp add: lit_def)
  qed simp
  have d0: "decimal (lit ''0'') = 0" by (simp add: decimal_def lit_def)
  note cls = status_class_nonneg [OF c]
  consider (z) "code = 204" | (one) "code div 100 = 1" "code \<noteq> 204"
    | (tun) "tunnel connect code" "code \<noteq> 204" "code div 100 \<noteq> 1"
    | (norm) "\<not> tunnel connect code" "code \<noteq> 204" "code div 100 \<noteq> 1" by blast
  then show ?thesis
  proof cases
    case z
    then show ?thesis using f
      by (auto simp: on_response_content_length_def resp_content_length_def resp_single_def resp_removed_def lstrieq_iff
          zero d0 code_def resp_accepts_def resp_updated_def)
  next
    case one
    then show ?thesis
      by (auto simp: on_response_content_length_def resp_content_length_def cls code_def)
  next
    case tun
    then show ?thesis using f conn
      by (auto simp: on_response_content_length_def resp_content_length_def resp_single_def resp_removed_def
          cls code_def tunnel_def flag_bits resp_accepts_def resp_updated_def)
  next
    case norm
    then have "on_response_content_length s nv = on_content_length s nv"
      using conn by (auto simp: on_response_content_length_def cls code_def tunnel_def flag_bits)
    then show ?thesis using norm decimal_nonneg [of "hn_value nv"]
      by (auto simp: on_content_length_def parse_uint_exact resp_content_length_def resp_single_def resp_removed_def
          code_def intro!: e)
  qed
qed

definition resp_bits :: "bool \<Rightarrow> bool \<Rightarrow> int \<Rightarrow> hfield \<Rightarrow> nat set" where
  "resp_bits relaxed connect code f =
     (if pseudo f then {5} else if resp_removed connect code f \<and> \<not> resp_dropped relaxed f then {} else {6})"

definition resp_result :: "bool \<Rightarrow> bool \<Rightarrow> int \<Rightarrow> hfield \<Rightarrow> unit res" where
  "resp_result relaxed connect code f =
     (if resp_dropped relaxed f then Inl ERR_IGN_HTTP_HEADER
      else if resp_removed connect code f then Inl ERR_REMOVE_HTTP_HEADER else Inr ())"

definition resp_field_length :: "bool \<Rightarrow> bool \<Rightarrow> int \<Rightarrow> hfield \<Rightarrow> int \<Rightarrow> int" where
  "resp_field_length relaxed connect code f len =
     (if fst f = lit ''content-length'' \<and> \<not> resp_dropped relaxed f \<and> \<not> (code \<noteq> 204 \<and> tunnel connect code)
      then decimal (snd f) else len)"

definition status_after :: "hfield \<Rightarrow> int \<Rightarrow> int" where
  "status_after f code = (if fst f = lit '':status'' then decimal (snd f) else code)"

definition response_admits :: "bool \<Rightarrow> bool \<Rightarrow> nghttp2_stream \<Rightarrow> hfield \<Rightarrow> bool" where
  "response_admits relaxed connect s f \<longleftrightarrow>
     response_field relaxed connect (status_after f (st_status_code s)) f \<and>
     (pseudo f \<longrightarrow> \<not> bit (st_http_flags s) 5 \<and> \<not> bit (st_http_flags s) 6) \<and>
     (\<not> resp_dropped relaxed f \<and> fst f = lit ''content-length'' \<and>
        lit ''content-length'' \<in> resp_single connect (st_status_code s) \<longrightarrow> st_content_length s = - 1)"

lemma check_value_response:
  assumes "ft \<noteq> NGHTTP2_PUSH_PROMISE" and "hn_token nv = lookup_token (hn_name nv)"
    and "\<not> pseudo (field nv) \<or> hn_name nv = lit '':status''"
  shows "check_value False s ft nv \<longleftrightarrow> plain_value (no_rfc9113_validation s) (hn_value nv)"
proof -
  have "hn_name nv \<noteq> lit '':method''" "hn_name nv \<noteq> lit '':path''" "hn_name nv \<noteq> lit '':authority''"
    "hn_name nv \<noteq> lit '':scheme''" "hn_name nv \<noteq> lit '':protocol''"
    using assms(3) pseudo_lit unfolding field_def by auto
  then show ?thesis using assms(1,2) by (simp add: check_value_def token_names check_field_value_iff)
qed

lemma response_on_header_outcome:
  assumes tok: "hn_token nv = lookup_token (hn_name nv)" and ne: "hn_name nv \<noteq> []"
    and nu: "\<not> pseudo (field nv) \<longrightarrow> \<not> upper_case (hn_name nv)" and nd: "\<not> resp_dropped relaxed (field nv)"
    and val: "\<not> pseudo (field nv) \<or> hn_name nv = lit '':status'' \<longrightarrow> plain_value relaxed (hn_value nv)"
    and c: "- 1 \<le> st_status_code s" and conn: "connect \<longleftrightarrow> bit (st_http_flags s) 7"
  shows "if response_admits relaxed connect s (field nv)
    then resp_accepts (resp_bits relaxed connect (st_status_code s) (field nv))
           (resp_field_length relaxed connect (st_status_code s) (field nv) (st_content_length s))
           (status_after (field nv) (st_status_code s)) s
           (resp_result relaxed connect (st_status_code s) (field nv)) (http_response_on_header s nv False)
    else rejects (http_response_on_header s nv False)"
proof (cases "pseudo_misplaced s nv False")
  case True
  then show ?thesis by (auto simp: http_response_on_header_def response_admits_def colon_name [OF ne])
next
  case misplaced: False
  let ?n = "hn_name nv"
  have mis: "pseudo (field nv) \<longrightarrow> \<not> bit (st_http_flags s) 6"
    using misplaced colon_name [OF ne] by blast
  note body = http_response_on_header_def [of s nv False, unfolded misplaced [THEN Eq_FalseI] if_False tok token_names
      disallowed_field_def]
  have n: "hn_name nv = lit name \<Longrightarrow> field nv = (lit name, hn_value nv)" for name by (simp add: field_def)
  note defs = resp_bits_def resp_field_length_def resp_result_def resp_removed_def status_after_def pseudo_lit
  consider "?n = lit '':status''" | "?n = lit ''content-length''" | "?n \<in> connection_fields" | "?n = lit ''te''"
    | (other) "?n \<noteq> lit '':status''" "?n \<noteq> lit ''content-length''" "?n \<notin> connection_fields" "?n \<noteq> lit ''te''" by blast
  then show ?thesis
  proof cases
    case 1
    note f = n [OF 1]
    have "http_response_on_header s nv False = on_status s nv" by (simp add: body 1)
    moreover have "response_admits relaxed connect s (field nv) \<longleftrightarrow> \<not> (bit (st_http_flags s) 5 \<or> \<not> status_value (hn_value nv))"
      using val mis 1 unfolding f by (auto simp: response_admits_def response_field_def pseudo_lit)
    ultimately show ?thesis using on_status_outcome [OF 1, of s] nd unfolding f
      by (auto simp: defs split: if_split_asm)
  next
    case 2
    note f = n [OF 2]
    have "http_response_on_header s nv False = on_response_content_length s nv" by (simp add: body 2)
    moreover have "response_admits relaxed connect s (field nv) \<longleftrightarrow>
        \<not> (\<not> resp_content_length connect (st_status_code s) (hn_value nv) \<or>
          lit ''content-length'' \<in> resp_single connect (st_status_code s) \<and> st_content_length s \<noteq> - 1)"
      using nu nd 2 unfolding f
      by (auto simp: response_admits_def response_field_def pseudo_lit connection_fields_def status_after_def)
    ultimately show ?thesis using on_response_content_length_outcome [OF 2 c conn] nd unfolding f
      by (auto simp: defs split: if_split_asm)
  next
    case 3
    then have "http_response_on_header s nv False = reject s" by (auto simp: body connection_fields_def)
    moreover have "\<not> pseudo (field nv)" using 3 by (auto simp: connection_fields_def pseudo_lit field_def)
    then have "\<not> response_admits relaxed connect s (field nv)"
      using 3 nd by (simp add: response_admits_def response_field_def field_def)
    ultimately show ?thesis by simp
  next
    case 4
    note f = n [OF 4]
    have "http_response_on_header s nv False = on_te s nv" by (simp add: body 4)
    moreover have "response_admits relaxed connect s (field nv) \<longleftrightarrow> map downcase (hn_value nv) = lit ''trailers''"
      using nu nd 4 unfolding f
      by (auto simp: response_admits_def response_field_def pseudo_lit connection_fields_def)
    moreover have "resp_accepts {6} (st_content_length s) (st_status_code s) s (Inr ()) (on_header_end nv s)"
      using resp_accepts_end [OF ne, of s s "{}"] by (simp add: f pseudo_lit)
    moreover have "map downcase (lit ''trailers'') = lit ''trailers''" by (simp add: lit_def downcase_def)
    ultimately show ?thesis using nd unfolding f by (auto simp: defs on_te_def lstrieq_iff)
  next
    case other
    have o: "http_response_on_header s nv False = (if pseudo (field nv) then reject s else on_header_end nv s)"
      using other name_first [OF ne] by (simp add: body connection_fields_def)
    have nf: "fst (field nv) = ?n" by (simp add: field_def)
    show ?thesis
    proof (cases "pseudo (field nv)")
      case True
      then have "\<not> response_admits relaxed connect s (field nv)"
        using other by (simp add: response_admits_def response_field_def nf)
      then show ?thesis using o True by simp
    next
      case False
      then have "response_admits relaxed connect s (field nv)"
        using other nu nd by (simp add: response_admits_def response_field_def nf)
      moreover have "resp_accepts {6} (st_content_length s) (st_status_code s) s (Inr ()) (on_header_end nv s)"
        using resp_accepts_end [OF ne, of s s "{}"] False by simp
      ultimately show ?thesis using o False other nd by (simp add: defs nf)
    qed
  qed
qed

lemma response_step:
  assumes ft: "ft \<noteq> NGHTTP2_PUSH_PROMISE" and tok: "hn_token nv = lookup_token (hn_name nv)"
    and rel: "relaxed = no_rfc9113_validation s" and c: "- 1 \<le> st_status_code s"
    and conn: "connect \<longleftrightarrow> bit (st_http_flags s) 7"
  shows "if response_admits relaxed connect s (field nv)
    then resp_accepts (resp_bits relaxed connect (st_status_code s) (field nv))
           (resp_field_length relaxed connect (st_status_code s) (field nv) (st_content_length s))
           (status_after (field nv) (st_status_code s)) s
           (resp_result relaxed connect (st_status_code s) (field nv)) (nghttp2_http_on_header False False s ft nv False)
    else rejects (nghttp2_http_on_header False False s ft nv False)"
proof -
  let ?f = "field nv"
  have nf: "fst ?f = hn_name nv" "snd ?f = hn_value nv" by (simp_all add: field_def)
  have lower: "\<not> upper_case name" if "nghttp2_check_header_name name" "\<not> pseudo (name, v)" for name v
    using that check_chars_table [OF VALID_HD_NAME_CHARS_table, of name]
    by (auto simp: nghttp2_check_header_name_def pseudo_def upper_case_def hd_conv_nth list_ex_iff list_all_iff
        name_char_def is_upper_def is_lower_def is_digit_def is_token_symbol split: if_splits)
  have known: "nghttp2_check_header_name (lit '':status'')" by code_simp
  have ns: "\<not> pseudo ?f \<Longrightarrow> hn_name nv \<noteq> lit '':status''" using pseudo_lit(6) by (auto simp: field_def)
  have ign: "resp_accepts {6} (st_content_length s) (st_status_code s) s (Inl ERR_IGN_HTTP_HEADER) (ignore_field s)"
    by (auto simp: resp_accepts_def resp_updated_def ignore_field_def flag_nth)
  have dropped: ?thesis if d: "resp_dropped relaxed ?f" "nghttp2_http_on_header False False s ft nv False =
      (if upper_case (hn_name nv) then reject s else ignore_field s)"
  proof -
    have np: "\<not> pseudo ?f" using d(1) by (simp add: resp_dropped_def)
    then show ?thesis using ns d ign
      by (auto simp: response_admits_def response_field_def resp_bits_def resp_field_length_def resp_result_def
          status_after_def nf)
  qed
  show ?thesis
  proof (cases "nghttp2_check_header_name (hn_name nv)")
    case bad: False
    show ?thesis
    proof (cases "pseudo ?f")
      case True
      then show ?thesis using bad known name_first [of nv]
        by (auto simp: nghttp2_http_on_header_def response_admits_def response_field_def field_def pseudo_def)
    next
      case False
      have "\<not> (0 < length (hn_name nv) \<and> hn_name nv ! 0 = CH_COLON)" using False name_first [of nv] by auto
      then show ?thesis using bad False
        by (intro dropped) (auto simp: resp_dropped_def nf nghttp2_http_on_header_def has_upper_iff)
    qed
  next
    case good: True
    then have ne: "hn_name nv \<noteq> []" by (auto simp: nghttp2_check_header_name_def split: if_splits)
    have low: "\<not> pseudo ?f \<longrightarrow> \<not> upper_case (hn_name nv)" using lower good by (auto simp: field_def)
    have v: "\<not> pseudo ?f \<or> hn_name nv = lit '':status'' \<Longrightarrow> check_value False s ft nv \<longleftrightarrow> plain_value relaxed (hn_value nv)"
      using check_value_response [OF ft tok] rel by simp
    show ?thesis
    proof (cases "check_value False s ft nv")
      case bad: False
      show ?thesis
      proof (cases "pseudo ?f")
        case True
        then have "\<not> response_admits relaxed connect s ?f"
          using bad v by (auto simp: response_admits_def response_field_def nf)
        then show ?thesis using good bad True ne name_first [OF ne]
          by (simp add: nghttp2_http_on_header_def)
      next
        case False
        show ?thesis using good bad v ne name_first [OF ne] False low
          by (intro dropped) (auto simp: resp_dropped_def nf nghttp2_http_on_header_def)
      qed
    next
      case True
      then have nd: "\<not> resp_dropped relaxed ?f" using good v by (auto simp: resp_dropped_def nf)
      have "nghttp2_http_on_header False False s ft nv False = http_response_on_header s nv False"
        using good True ft by (simp add: nghttp2_http_on_header_def)
      then show ?thesis
        using response_on_header_outcome [OF tok ne low nd _ c conn] True v by simp
    qed
  qed
qed

section \<open>All fields\<close>

definition resp_after :: "bool \<Rightarrow> bool \<Rightarrow> nghttp2_stream \<Rightarrow> hfield list \<Rightarrow> nghttp2_stream \<Rightarrow> bool" where
  "resp_after relaxed connect s0 fs s \<longleftrightarrow>
     resp_updated (\<Union> (resp_bits relaxed connect (status_of fs) ` set fs)) (resp_length relaxed connect fs) (status_of fs) s0 s"

text \<open>A stream that waits for a response, final or not.\<close>

definition awaiting_response :: "nghttp2_stream \<Rightarrow> bool" where
  "awaiting_response s \<longleftrightarrow>
     \<not> bit (st_http_flags s) 5 \<and> \<not> bit (st_http_flags s) 6 \<and> st_content_length s = - 1 \<and> st_status_code s = - 1"

lemma resp_received_append [simp]:
  "resp_received relaxed (a @ b) = resp_received relaxed a @ resp_received relaxed b"
  "resp_received relaxed [f] = (if resp_dropped relaxed f then [] else [f])"
  by (simp_all add: resp_received_def)

lemma status_of_snoc:
  "status_of (fs @ [f]) = (if map_of fs (lit '':status'') = None then status_after f (status_of fs) else status_of fs)"
  by (cases f) (auto simp: status_of_def status_after_def map_add_def split: option.splits)

text \<open>Only an empty list can be followed by a pseudo header field, which is the status.\<close>

lemma pseudo_only_first:
  assumes "list_all (response_field relaxed connect code) (fs @ [f])" and "pseudo_first (fs @ [f])" and "pseudo f"
    and "distinct (filter (\<lambda>n. n \<in> resp_single connect code) (map fst (resp_received relaxed (fs @ [f]))))"
  shows "fs = []"
proof (rule ccontr)
  assume "fs \<noteq> []"
  then obtain g where g: "g \<in> set fs" by (cases fs) auto
  have "pseudo g" using assms(2,3) g by (auto simp: pseudo_first_snoc list_all_iff)
  moreover have "response_field relaxed connect code g" "response_field relaxed connect code f"
    using assms(1) g by (auto simp: list_all_iff)
  ultimately have "fst g = lit '':status''" "fst f = lit '':status''" "g \<in> set (resp_received relaxed fs)" "\<not> resp_dropped relaxed f"
    using assms(3) g by (auto simp: response_field_def resp_received_def resp_dropped_def)
  then show False using assms(4) by (auto simp: resp_single_def image_iff)
qed

lemma only_regular:
  assumes "\<And>f. f \<in> set fs \<Longrightarrow> \<not> pseudo f"
  shows "map_of fs (lit '':status'') = None"
proof (cases "map_of fs (lit '':status'')")
  case (Some v)
  then show ?thesis using assms [OF map_of_SomeD [OF Some]] pseudo_lit(6) by simp
qed

lemma response_fields_snoc:
  assumes r: "response_fields relaxed connect fs"
  shows "response_fields relaxed connect (fs @ [f]) \<longleftrightarrow>
    response_field relaxed connect (status_after f (status_of fs)) f \<and> (pseudo f \<longrightarrow> fs = []) \<and>
    (\<not> resp_dropped relaxed f \<and> fst f \<in> resp_single connect (status_of fs) \<longrightarrow> fst f \<notin> fst ` set (resp_received relaxed fs))"
proof (cases "pseudo f")
  case True
  have "fst f = lit '':status''" if "response_field relaxed connect c f" for c
    using that True by (simp add: response_field_def)
  then show ?thesis
    using True r pseudo_only_first [of relaxed connect "status_of (fs @ [f])" fs f]
    by (auto simp: response_fields_def status_of_snoc pseudo_first_def resp_received_def)
next
  case False
  then have n: "fst f \<noteq> lit '':status''" using pseudo_lit(6) by (metis prod.collapse)
  have "status_of (fs @ [f]) = status_of fs" using n by (simp add: status_of_snoc status_after_def)
  then show ?thesis
    using r n False
    by (auto simp: response_fields_def pseudo_first_snoc status_after_def image_iff)
qed

lemma response_fields_butlast:
  assumes r: "response_fields relaxed connect (fs @ [f])"
  shows "response_fields relaxed connect fs"
proof (cases "status_of (fs @ [f]) = status_of fs")
  case True
  then show ?thesis using r pseudo_first_prefix [of fs "[f]"] by (simp add: response_fields_def)
next
  case False
  then have n: "fst f = lit '':status''"
    by (auto simp: status_of_snoc status_after_def split: if_splits)
  then have "pseudo f" using pseudo_lit(6) by (metis prod.collapse)
  then have "fs = []" using r pseudo_only_first [of relaxed connect "status_of (fs @ [f])" fs f]
    by (simp add: response_fields_def)
  then show ?thesis by (simp add: response_fields_def pseudo_first_def resp_received_def)
qed

lemma response_fields_prefix:
  "response_fields relaxed connect (a @ b) \<Longrightarrow> response_fields relaxed connect a"
proof (induction b rule: rev_induct)
  case (snoc f b)
  then show ?case using response_fields_butlast [of relaxed connect "a @ b" f] by simp
qed simp

lemma single_length:
  assumes r: "response_fields relaxed connect fs" and s: "lit ''content-length'' \<in> resp_single connect (status_of fs)"
  shows "resp_length relaxed connect fs = - 1 \<longleftrightarrow> lit ''content-length'' \<notin> fst ` set (resp_received relaxed fs)"
proof -
  have cl: "decimal v \<noteq> - 1" if "map_of (resp_received relaxed fs) (lit ''content-length'') = Some v" for v
  proof -
    have "(lit ''content-length'', v) \<in> set (resp_received relaxed fs)" using that by (rule map_of_SomeD)
    then have "response_field relaxed connect (status_of fs) (lit ''content-length'', v)"
      "\<not> resp_dropped relaxed (lit ''content-length'', v)"
      using r by (auto simp: response_fields_def list_all_iff resp_received_def)
    then have "resp_content_length connect (status_of fs) v" by (simp add: response_field_def pseudo_lit)
    then have "v = lit ''0'' \<or> is_decimal v"
      using s by (auto simp: resp_content_length_def resp_single_def split: if_splits)
    moreover have "decimal (lit ''0'') = 0" by (simp add: decimal_def lit_def)
    ultimately show ?thesis using decimal_nonneg [of v] by auto
  qed
  moreover have "lit ''content-length'' \<notin> fst ` set (resp_received relaxed fs) \<longleftrightarrow>
      map_of (resp_received relaxed fs) (lit ''content-length'') = None" by (simp add: map_of_eq_None_iff)
  ultimately show ?thesis using s
    by (cases "map_of (resp_received relaxed fs) (lit ''content-length'')")
      (auto simp: resp_length_def resp_single_def split: if_splits)
qed

lemma response_admits_iff:
  assumes r: "response_fields relaxed connect fs" and a: "resp_after relaxed connect s0 fs s" and w: "awaiting_response s0"
  shows "response_admits relaxed connect s f \<longleftrightarrow> response_fields relaxed connect (fs @ [f])"
proof -
  have code: "st_status_code s = status_of fs" and len: "st_content_length s = resp_length relaxed connect fs"
    and b: "\<And>n. bit (st_http_flags s) n \<longleftrightarrow>
      bit (st_http_flags s0) n \<or> n \<in> \<Union> (resp_bits relaxed connect (status_of fs) ` set fs)"
    using a by (simp_all add: resp_after_def resp_updated_def)
  have fs: "\<not> bit (st_http_flags s) 5 \<and> \<not> bit (st_http_flags s) 6 \<longleftrightarrow> fs = []"
  proof
    assume h: "\<not> bit (st_http_flags s) 5 \<and> \<not> bit (st_http_flags s) 6"
    show "fs = []"
    proof (rule ccontr)
      assume "fs \<noteq> []"
      then obtain g where g: "g \<in> set fs" by (cases fs) auto
      have np: "\<not> pseudo x" if "x \<in> set fs" for x using h b [of 5] that by (auto simp: resp_bits_def split: if_splits)
      have "map_of fs (lit '':status'') = None"
        by (rule only_regular [OF np])
      then have "status_of fs = - 1" by (simp add: status_of_def)
      then have "resp_bits relaxed connect (status_of fs) g = {6}"
        using np [OF g] by (simp add: resp_bits_def resp_removed_def tunnel_def)
      then show False using h b [of 6] g by auto
    qed
  qed (use b w in \<open>simp add: awaiting_response_def\<close>)
  have st: "fst f \<in> resp_single connect (status_of fs) \<longleftrightarrow>
      fst f = lit '':status'' \<or> fst f = lit ''content-length'' \<and> lit ''content-length'' \<in> resp_single connect (status_of fs)"
    by (auto simp: resp_single_def)
  have ps: "pseudo f" if "fst f = lit '':status''" using that pseudo_lit(6) by (metis prod.collapse)
  have nil: "resp_received relaxed [] = []" by (simp add: resp_received_def)
  have cl: "(fst f \<in> resp_single connect (status_of fs) \<longrightarrow> fst f \<notin> fst ` set (resp_received relaxed fs))
      \<longleftrightarrow> (fst f = lit ''content-length'' \<and> lit ''content-length'' \<in> resp_single connect (status_of fs) \<longrightarrow>
            resp_length relaxed connect fs = - 1)" if "\<not> pseudo f"
    using single_length [OF r] st ps that by metis
  show ?thesis
  proof (cases "pseudo f")
    case True
    then have "fst f \<noteq> lit ''content-length''" using pseudo_lit(8) by (metis prod.collapse)
    then show ?thesis using True fs nil
      unfolding response_admits_def response_fields_snoc [OF r] code len by auto
  next
    case False
    then show ?thesis using cl [OF False]
      unfolding response_admits_def response_fields_snoc [OF r] code len by blast
  qed
qed

lemma resp_length_snoc:
  assumes r: "response_fields relaxed connect (fs @ [f])"
  shows "resp_length relaxed connect (fs @ [f]) = resp_field_length relaxed connect (status_of fs) f (resp_length relaxed connect fs)"
proof -
  note r0 = response_fields_butlast [OF r] and sn = r [unfolded response_fields_snoc [OF response_fields_butlast [OF r]]]
  show ?thesis
  proof (cases "fst f = lit ''content-length'' \<and> \<not> resp_dropped relaxed f")
    case True
    then have code: "status_of (fs @ [f]) = status_of fs" by (simp add: status_of_snoc status_after_def)
    show ?thesis
    proof (cases "status_of fs \<noteq> 204 \<and> tunnel connect (status_of fs)")
      case tun: True
      then show ?thesis unfolding resp_length_def resp_field_length_def code by simp
    next
      case tun: False
      then have "map_of (resp_received relaxed fs) (lit ''content-length'') = None"
        using sn True by (auto simp: resp_single_def map_of_eq_None_iff)
      then show ?thesis using tun True unfolding resp_length_def resp_field_length_def code
        by (cases f) (auto simp: map_add_def)
    qed
  next
    case no: False
    then have m: "map_of (resp_received relaxed (fs @ [f])) (lit ''content-length'') =
        map_of (resp_received relaxed fs) (lit ''content-length'')"
      by (cases f) (auto simp: map_add_def split: option.split)
    show ?thesis
    proof (cases "pseudo f")
      case True
      then have "fs = []" using sn by simp
      then show ?thesis using no m
        by (auto simp: resp_length_def resp_field_length_def resp_received_def status_of_def tunnel_def split: option.split)
    next
      case False
      then have "fst f \<noteq> lit '':status''" using pseudo_lit(6) by (metis prod.collapse)
      then have "status_of (fs @ [f]) = status_of fs" by (simp add: status_of_snoc status_after_def)
      then show ?thesis using no m unfolding resp_length_def resp_field_length_def by auto
    qed
  qed
qed

lemma resp_after_snoc:
  assumes r: "response_fields relaxed connect (fs @ [f])" and a: "resp_after relaxed connect s0 fs s"
    and u: "resp_updated (resp_bits relaxed connect (st_status_code s) f)
      (resp_field_length relaxed connect (st_status_code s) f (st_content_length s)) (status_after f (st_status_code s)) s s'"
  shows "resp_after relaxed connect s0 (fs @ [f]) s'"
proof -
  note sn = r [unfolded response_fields_snoc [OF response_fields_butlast [OF r]]]
  have code: "st_status_code s = status_of fs" and len: "st_content_length s = resp_length relaxed connect fs"
    using a by (simp_all add: resp_after_def resp_updated_def)
  have st: "status_of (fs @ [f]) = status_after f (status_of fs)"
  proof (cases "fst f = lit '':status''")
    case True
    then have "pseudo f" using pseudo_lit(6) by (metis prod.collapse)
    then have "fs = []" using sn by simp
    then show ?thesis by (cases f) (simp add: status_of_def status_after_def)
  next
    case False
    then show ?thesis by (simp add: status_of_snoc status_after_def)
  qed
  have "\<Union> (resp_bits relaxed connect (status_of (fs @ [f])) ` set (fs @ [f])) =
      \<Union> (resp_bits relaxed connect (status_of fs) ` set fs) \<union> resp_bits relaxed connect (status_of fs) f"
  proof (cases "pseudo f")
    case True
    then show ?thesis using sn by (simp add: resp_bits_def)
  next
    case False
    then have "fst f \<noteq> lit '':status''" using pseudo_lit(6) by (metis prod.collapse)
    then show ?thesis unfolding st by (simp add: status_after_def Un_commute)
  qed
  then show ?thesis
    using a u unfolding resp_after_def resp_updated_def resp_length_snoc [OF r] st code len by auto
qed

lemma resp_delivered_Cons:
  "resp_delivered relaxed connect code (f # fs) =
     (if resp_result relaxed connect code f = Inr () then f # resp_delivered relaxed connect code fs
      else resp_delivered relaxed connect code fs)"
  by (simp add: resp_delivered_def resp_received_def resp_result_def)

lemma status_of_prefix:
  assumes "response_fields relaxed connect (fs @ fs')" and "f \<in> set fs'" and "fs \<noteq> []"
  shows "\<not> pseudo f"
proof -
  obtain a b where "fs' = a @ f # b" using assms(2) by (meson split_list)
  then have r: "response_fields relaxed connect ((fs @ a) @ [f])"
    using response_fields_prefix [of relaxed connect "(fs @ a) @ [f]" b] assms(1) by simp
  then show ?thesis using response_fields_snoc [OF response_fields_butlast [OF r]] assms(3) by simp
qed

lemma receive_response_fields:
  assumes ft: "ft \<noteq> NGHTTP2_PUSH_PROMISE" and w: "awaiting_response s0"
    and rel: "relaxed = no_rfc9113_validation s0" and conn: "connect \<longleftrightarrow> bit (st_http_flags s0) 7"
  shows "list_all (\<lambda>nv. hn_token nv = lookup_token (hn_name nv)) nvs \<Longrightarrow> response_fields relaxed connect fs \<Longrightarrow>
    resp_after relaxed connect s0 fs s \<Longrightarrow>
    \<exists>s'. receive_fields (\<lambda>s nv. nghttp2_http_on_header False False s ft nv False) s nvs =
        Some (if response_fields relaxed connect (fs @ map field nvs)
              then Inr (resp_delivered relaxed connect (status_of (fs @ map field nvs)) (map field nvs))
              else Inl ERR_HTTP_HEADER, s') \<and>
      (response_fields relaxed connect (fs @ map field nvs) \<longrightarrow> resp_after relaxed connect s0 (fs @ map field nvs) s')"
proof (induction nvs arbitrary: fs s)
  case Nil
  then show ?case by (simp add: resp_received_def resp_delivered_def)
next
  case (Cons nv nvs)
  let ?f = "field nv" and ?out = "nghttp2_http_on_header False False s ft nv False"
  have b7: "bit (st_http_flags s) 7 \<longleftrightarrow> connect"
    using Cons.prems(3) conn by (auto simp: resp_after_def resp_updated_def resp_bits_def split: if_split_asm)
  have rs: "relaxed = no_rfc9113_validation s" and code: "st_status_code s = status_of fs"
    using Cons.prems(3) rel by (simp_all add: resp_after_def resp_updated_def no_rfc9113_validation_def)
  have c: "- 1 \<le> st_status_code s"
  proof (cases "map_of fs (lit '':status'')")
    case None
    then show ?thesis by (simp add: code status_of_def)
  next
    case (Some v)
    then have "is_decimal v" using Cons.prems(2) map_of_SomeD [OF Some]
      by (auto simp: response_fields_def list_all_iff response_field_def pseudo_lit status_value_def)
    then show ?thesis using decimal_nonneg [of v] Some by (simp add: code status_of_def)
  qed
  have tok: "hn_token nv = lookup_token (hn_name nv)" using Cons.prems(1) by simp
  note adm = response_admits_iff [OF Cons.prems(2,3) w, of ?f]
  note step = response_step [OF ft tok rs c b7 [symmetric], unfolded adm]
  have app: "fs @ map field (nv # nvs) = (fs @ [?f]) @ map field nvs" by simp
  show ?case
  proof (cases "response_fields relaxed connect (fs @ [?f])")
    case False
    then have "\<not> response_fields relaxed connect (fs @ map field (nv # nvs))"
      using response_fields_prefix app by metis
    moreover have "rejects ?out" using step False by simp
    ultimately show ?thesis by (auto simp: rejects_def)
  next
    case True
    then obtain s1 where s1: "?out = Some (resp_result relaxed connect (st_status_code s) ?f, s1)"
      "resp_updated (resp_bits relaxed connect (st_status_code s) ?f)
        (resp_field_length relaxed connect (st_status_code s) ?f (st_content_length s)) (status_after ?f (st_status_code s)) s s1"
      using step by (auto simp: resp_accepts_def)
    obtain s' where s': "receive_fields (\<lambda>s nv. nghttp2_http_on_header False False s ft nv False) s1 nvs =
        Some (if response_fields relaxed connect ((fs @ [?f]) @ map field nvs)
              then Inr (resp_delivered relaxed connect (status_of ((fs @ [?f]) @ map field nvs)) (map field nvs))
              else Inl ERR_HTTP_HEADER, s')"
      "response_fields relaxed connect ((fs @ [?f]) @ map field nvs) \<longrightarrow>
         resp_after relaxed connect s0 ((fs @ [?f]) @ map field nvs) s'"
      using Cons.IH [of "fs @ [?f]" s1] Cons.prems(1) True resp_after_snoc [OF True Cons.prems(3) s1(2)] by auto
    have same: "resp_result relaxed connect (status_of ((fs @ [?f]) @ map field nvs)) ?f =
        resp_result relaxed connect (st_status_code s) ?f"
      if ok: "response_fields relaxed connect ((fs @ [?f]) @ map field nvs)"
    proof (cases "pseudo ?f")
      case True
      then show ?thesis using pseudo_lit(8) by (auto simp: resp_result_def resp_removed_def) (metis prod.collapse)+
    next
      case np: False
      then have "fst ?f \<noteq> lit '':status''" using pseudo_lit(6) by (metis prod.collapse)
      moreover have "\<not> pseudo x" if "x \<in> set (map field nvs)" for x
        using status_of_prefix [OF ok that] by simp
      then have "map_of (map field nvs) (lit '':status'') = None"
        by (rule only_regular)
      ultimately have "status_of ((fs @ [?f]) @ map field nvs) = status_of fs"
        by (cases ?f) (auto simp: status_of_def map_add_def split: option.split)
      then show ?thesis by (simp add: code)
    qed
    show ?thesis unfolding app
      using s' s1(1) same by (auto simp: resp_result_def resp_delivered_Cons split: if_split_asm)
  qed
qed

section \<open>The end of the header block\<close>

text \<open>
  The body that a final response promises. It has no content if it answers HEAD or has the code 204 or 304, and its length is
  not known in advance in a tunnel (CONNECT and 2xx) or without a content length. Else the content length counts, but not on a
  stream where the code checks no length at all: that of a request from an upgrade from HTTP/1.1,
  and that of a CONNECT request, even if the response is not a 2xx one. RFC 9110 has no such exception for a CONNECT
  that fails; the definition states what \<open>nghttp2_http_on_response_headers\<close> does.
\<close>

definition no_content :: "bool \<Rightarrow> hfield list \<Rightarrow> bool" where
  "no_content head fs \<longleftrightarrow> head \<or> status_of fs = 304 \<or> status_of fs = 204"

definition promised_length :: "bool \<Rightarrow> bool \<Rightarrow> bool \<Rightarrow> hfield list \<Rightarrow> int" where
  "promised_length relaxed head connect fs =
     (if no_content head fs then 0 else resp_length relaxed connect fs)"

definition length_unchecked :: "bool \<Rightarrow> bool \<Rightarrow> bool \<Rightarrow> hfield list \<Rightarrow> bool" where
  "length_unchecked head connect upgrade fs \<longleftrightarrow>
     \<not> no_content head fs \<and> (upgrade \<or> connect \<and> \<not> tunnel connect (status_of fs))"

definition resp_body :: "bool \<Rightarrow> bool \<Rightarrow> bool \<Rightarrow> bool \<Rightarrow> hfield list \<Rightarrow> int" where
  "resp_body relaxed head connect upgrade fs =
     (if length_unchecked head connect upgrade fs then - 1 else promised_length relaxed head connect fs)"

lemma resp_body_cases:
  "resp_body relaxed head connect upgrade fs =
     (if head \<or> status_of fs = 304 \<or> status_of fs = 204 then 0
      else if connect \<or> upgrade then - 1 else resp_length relaxed connect fs)"
  by (simp add: resp_body_def length_unchecked_def promised_length_def no_content_def resp_length_def tunnel_def)

lemma resp_body_ge:
  assumes r: "response_fields relaxed connect fs"
  shows "- 1 \<le> resp_body relaxed head connect upgrade fs"
proof -
  have "0 \<le> decimal v" if "map_of (resp_received relaxed fs) (lit ''content-length'') = Some v"
    "\<not> (tunnel connect (status_of fs) \<and> status_of fs \<noteq> 204)" for v
  proof -
    have "(lit ''content-length'', v) \<in> set (resp_received relaxed fs)" using that(1) by (rule map_of_SomeD)
    then have "resp_content_length connect (status_of fs) v"
      using r by (auto simp: response_fields_def list_all_iff resp_received_def response_field_def pseudo_lit)
    then have "v = lit ''0'' \<or> is_decimal v"
      using that(2) by (auto simp: resp_content_length_def split: if_splits)
    moreover have "decimal (lit ''0'') = 0" by (simp add: decimal_def lit_def)
    ultimately show ?thesis using decimal_nonneg [of v] by auto
  qed
  then show ?thesis
    by (fastforce simp: resp_body_cases resp_length_def split: option.split)
qed

definition interim :: "hfield list \<Rightarrow> bool" where
  "interim fs \<longleftrightarrow> status_of fs div 100 = 1"

definition has_status :: "hfield list \<Rightarrow> bool" where
  "has_status fs \<longleftrightarrow> map_of fs (lit '':status'') \<noteq> None"

lemma meth_all_bits:
  "bit (w AND NGHTTP2_HTTP_FLAG_METH_ALL) n \<longleftrightarrow> bit (w :: u32) n \<and> (n = 7 \<or> n = 8 \<or> n = 9 \<or> n = 10)"
  by (auto simp: bit_and_iff NGHTTP2_HTTP_FLAG_METH_ALL_def bit_or_iff flag_nth)

lemma response_headers_complete:
  assumes r: "response_fields relaxed connect fs" and a: "resp_after relaxed connect s0 fs s" and w: "awaiting_response s0"
    and conn: "connect \<longleftrightarrow> bit (st_http_flags s0) 7"
  shows "\<exists>s'. nghttp2_http_on_response_headers s = (has_status fs, s') \<and>
    (has_status fs \<longrightarrow>
      st_recv_content_length s' = st_recv_content_length s0 \<and> st_flags s' = st_flags s0 \<and>
      (\<forall>n \<in> {7, 8, 9, 10}. bit (st_http_flags s') n \<longleftrightarrow> bit (st_http_flags s0) n) \<and>
      (bit (st_http_flags s') 14 \<longleftrightarrow> interim fs) \<and>
      (if interim fs then awaiting_response s'
       else st_content_length s' = resp_body relaxed (bit (st_http_flags s0) 8) connect (bit (st_http_flags s0) 10) fs))"
proof -
  have code: "st_status_code s = status_of fs" and len: "st_content_length s = resp_length relaxed connect fs"
    and keep: "st_recv_content_length s = st_recv_content_length s0" "st_flags s = st_flags s0"
    and b: "\<And>n. bit (st_http_flags s) n \<longleftrightarrow>
      bit (st_http_flags s0) n \<or> n \<in> \<Union> (resp_bits relaxed connect (status_of fs) ` set fs)"
    using a by (simp_all add: resp_after_def resp_updated_def)
  have other: "bit (st_http_flags s) n \<longleftrightarrow> bit (st_http_flags s0) n" if "n \<noteq> 5" "n \<noteq> 6" for n
    using b [of n] that by (auto simp: resp_bits_def split: if_split_asm)
  have lt: "bit (st_http_flags s) n \<Longrightarrow> n < 32" for n by (auto dest: bit_imp_le_length)
  have st: "bit (st_http_flags s) 5 \<longleftrightarrow> has_status fs"
  proof
    assume "has_status fs"
    then obtain v where "(lit '':status'', v) \<in> set fs" by (auto simp: has_status_def dest: map_of_SomeD)
    moreover have five: "5 \<in> resp_bits relaxed connect (status_of fs) (lit '':status'', v)"
      by (simp add: resp_bits_def pseudo_lit)
    ultimately show "bit (st_http_flags s) 5" using b [of 5] five by blast
  next
    assume "bit (st_http_flags s) 5"
    then obtain f where f: "f \<in> set fs" "pseudo f"
      using b [of 5] w by (auto simp: awaiting_response_def resp_bits_def split: if_split_asm)
    then have "response_field relaxed connect (status_of fs) f" using r by (simp add: response_fields_def list_all_iff)
    then have "fst f = lit '':status''" using f(2) by (simp add: response_field_def)
    then show "has_status fs" using f(1) unfolding has_status_def map_of_eq_None_iff by (metis image_eqI)
  qed
  have c: "0 \<le> status_of fs" if "has_status fs"
  proof -
    obtain v where v: "map_of fs (lit '':status'') = Some v" using \<open>has_status fs\<close> by (auto simp: has_status_def)
    then have "is_decimal v" using r map_of_SomeD [OF v]
      by (auto simp: response_fields_def list_all_iff response_field_def pseudo_lit status_value_def)
    then show ?thesis using decimal_nonneg [of v] v by (simp add: status_of_def)
  qed
  show ?thesis
  proof (cases "has_status fs")
    case False
    then show ?thesis using st by (simp add: nghttp2_http_on_response_headers_def flag_bits)
  next
    case hs: True
    have cls: "status_class s = 1 \<longleftrightarrow> interim fs" using c [OF hs] code by (simp add: interim_def status_class_nonneg)
    show ?thesis
    proof (cases "interim fs")
      case True
      then show ?thesis using st hs cls other keep w
        by (auto simp: nghttp2_http_on_response_headers_def flag_bits meth_all_bits bit_or_iff flag_nth awaiting_response_def)
    next
      case False
      let ?t = "clear_http_flag NGHTTP2_HTTP_FLAG_EXPECT_FINAL_RESPONSE s"
      have t: "bit (st_http_flags ?t) n \<longleftrightarrow> bit (st_http_flags s) n \<and> n \<noteq> 14" for n
        using lt [of n] by (auto simp: flag_nth)
      have body: "expect_response_body ?t \<longleftrightarrow>
          \<not> (bit (st_http_flags s0) 8 \<or> status_of fs = 304 \<or> status_of fs = 204)"
        using False cls other [of 8] by (auto simp: expect_response_body_def flag_bits t flag_nth code status_class_def)
      show ?thesis using st hs cls False other keep body conn
        by (auto simp: nghttp2_http_on_response_headers_def flag_bits has_flag_or t flag_nth resp_body_cases len)
    qed
  qed
qed

definition response_ok :: "bool \<Rightarrow> bool \<Rightarrow> hfield list \<Rightarrow> bool" where
  "response_ok relaxed connect fs \<longleftrightarrow> response_fields relaxed connect fs \<and> has_status fs"

lemma receive_response_outcome:
  assumes ft: "ft \<noteq> NGHTTP2_PUSH_PROMISE" and w: "awaiting_response s"
    and tok: "list_all (\<lambda>nv. hn_token nv = lookup_token (hn_name nv)) nvs"
  defines "relaxed \<equiv> no_rfc9113_validation s" and "fs \<equiv> map field nvs" and "connect \<equiv> bit (st_http_flags s) 7"
  shows "\<exists>s'. receive_response ft s nvs =
      Some (if \<not> response_fields relaxed connect fs then Inl ERR_HTTP_HEADER
            else if \<not> has_status fs then Inl ERR_HTTP_MESSAGING
            else Inr (resp_delivered relaxed connect (status_of fs) fs), s') \<and>
    (response_ok relaxed connect fs \<longrightarrow>
      st_recv_content_length s' = st_recv_content_length s \<and> st_flags s' = st_flags s \<and>
      (\<forall>n \<in> {7, 8, 9, 10}. bit (st_http_flags s') n \<longleftrightarrow> bit (st_http_flags s) n) \<and>
      (bit (st_http_flags s') 14 \<longleftrightarrow> interim fs) \<and>
      (if interim fs then awaiting_response s'
       else st_content_length s' = resp_body relaxed (bit (st_http_flags s) 8) connect (bit (st_http_flags s) 10) fs))"
proof -
  have nil: "response_fields relaxed connect []" "resp_after relaxed connect s [] s"
    using w by (auto simp: response_fields_def pseudo_first_def resp_received_def resp_after_def resp_updated_def
        resp_length_def status_of_def awaiting_response_def)
  obtain s1 where s1: "receive_fields (\<lambda>s nv. nghttp2_http_on_header False False s ft nv False) s nvs =
        Some (if response_fields relaxed connect fs then Inr (resp_delivered relaxed connect (status_of fs) fs)
              else Inl ERR_HTTP_HEADER, s1)"
      "response_fields relaxed connect fs \<longrightarrow> resp_after relaxed connect s fs s1"
    using receive_response_fields [OF ft w relaxed_def [THEN meta_eq_to_obj_eq] connect_def [THEN meta_eq_to_obj_eq] tok nil]
    unfolding fs_def [symmetric] append_Nil by blast
  show ?thesis
  proof (cases "response_fields relaxed connect fs")
    case False
    then show ?thesis using s1 by (simp add: receive_response_def response_ok_def)
  next
    case True
    then obtain s2 where s2: "nghttp2_http_on_response_headers s1 = (has_status fs, s2)"
      "has_status fs \<longrightarrow>
        st_recv_content_length s2 = st_recv_content_length s \<and> st_flags s2 = st_flags s \<and>
        (\<forall>n \<in> {7, 8, 9, 10}. bit (st_http_flags s2) n \<longleftrightarrow> bit (st_http_flags s) n) \<and>
        (bit (st_http_flags s2) 14 \<longleftrightarrow> interim fs) \<and>
        (if interim fs then awaiting_response s2
         else st_content_length s2 = resp_body relaxed (bit (st_http_flags s) 8) connect (bit (st_http_flags s) 10) fs)"
      using response_headers_complete [OF True _ w connect_def [THEN meta_eq_to_obj_eq], of s1] s1(2) by blast
    have "receive_response ft s nvs =
        Some (if has_status fs then Inr (resp_delivered relaxed connect (status_of fs) fs) else Inl ERR_HTTP_MESSAGING, s2)"
      using s1(1) True s2(1) by (simp add: receive_response_def)
    then show ?thesis using True s2(2) unfolding response_ok_def by (cases "has_status fs") auto
  qed
qed

section \<open>The body\<close>

text \<open>
  The DATA frames of a message, as pieces of any sizes. The session calls \<open>nghttp2_http_on_data_chunk\<close> for the
  pieces that are not empty; the first one that is refused ends the message.
\<close>

fun receive_body :: "nghttp2_stream \<Rightarrow> nat list \<Rightarrow> (bool \<times> nghttp2_stream) option" where
  "receive_body s [] = Some (True, s)"
| "receive_body s (n # ns) =
     (if n = 0 then receive_body s ns
      else
        (case nghttp2_http_on_data_chunk s n of
           None \<Rightarrow> None
         | Some (ok, s') \<Rightarrow> if ok then receive_body s' ns else Some (False, s')))"

text \<open>
  The header block, the body and the end of the stream. The session answers a refused piece with a PROTOCOL_ERROR and a
  wrong end with HTTP_MESSAGING (\<open>nghttp2_session_mem_recv2\<close> and \<open>nghttp2_session_on_data_received\<close>).
\<close>

definition receive_message ::
  "(hfield list res \<times> nghttp2_stream) option \<Rightarrow> nat list \<Rightarrow> hfield list res option" where
  "receive_message headers ns =
     (case headers of
        None \<Rightarrow> None
      | Some (Inl e, s) \<Rightarrow> Some (Inl e)
      | Some (Inr fs, s) \<Rightarrow>
          (case receive_body s ns of
             None \<Rightarrow> None
           | Some (ok, s') \<Rightarrow>
               Some (if \<not> ok then Inl ERR_PROTO
                     else if \<not> nghttp2_http_on_remote_end_stream s' then Inl ERR_HTTP_MESSAGING else Inr fs)))"

text \<open>The error of a body of \<open>n\<close> bytes where \<open>len\<close> are promised, -1 for no promise.\<close>

definition length_error :: "int \<Rightarrow> int \<Rightarrow> nghttp2_error option" where
  "length_error len n =
     (if len = - 1 \<or> n = len then None else if len < n then Some ERR_PROTO else Some ERR_HTTP_MESSAGING)"

lemma data_chunk_outcome:
  assumes "0 \<le> st_recv_content_length s" and "st_recv_content_length s + int n \<le> INT64_MAX"
  shows "nghttp2_http_on_data_chunk s n =
    Some (\<not> bit (st_http_flags s) 14 \<and>
        (st_content_length s = - 1 \<or> st_recv_content_length s + int n \<le> st_content_length s),
      s\<lparr>st_recv_content_length := st_recv_content_length s + int n\<rparr>)"
proof -
  have "int64_of_size n = int n" using assms by (simp add: int64_of_size_def INT64_MAX_def)
  then show ?thesis
    using assms by (auto simp: nghttp2_http_on_data_chunk_def i64_def INT64_MAX_def flag_bits Let_def)
qed

lemma receive_body_outcome:
  assumes "\<not> bit (st_http_flags s) 14" and "0 \<le> st_recv_content_length s"
    and "st_recv_content_length s + int (sum_list ns) \<le> INT64_MAX"
    and "st_content_length s = - 1 \<or> st_recv_content_length s \<le> st_content_length s"
  shows "\<exists>s'. receive_body s ns =
      Some (st_content_length s = - 1 \<or> st_recv_content_length s + int (sum_list ns) \<le> st_content_length s, s') \<and>
    (st_content_length s = - 1 \<or> st_recv_content_length s + int (sum_list ns) \<le> st_content_length s \<longrightarrow>
      (nghttp2_http_on_remote_end_stream s' \<longleftrightarrow>
       st_content_length s = - 1 \<or> st_recv_content_length s + int (sum_list ns) = st_content_length s))"
  using assms
proof (induction ns arbitrary: s)
  case Nil
  then show ?case by (auto simp: nghttp2_http_on_remote_end_stream_def flag_bits)
next
  case (Cons n ns)
  let ?r = "st_recv_content_length s + int n" and ?t = "s\<lparr>st_recv_content_length := st_recv_content_length s + int n\<rparr>"
  have n: "?r \<le> INT64_MAX" "0 \<le> ?r" "?r + int (sum_list ns) \<le> INT64_MAX"
    using Cons.prems(2,3) by auto
  note d = data_chunk_outcome [OF Cons.prems(2) n(1)]
  show ?case
  proof (cases "n = 0")
    case True
    then show ?thesis using Cons.IH [of s] Cons.prems by simp
  next
    case pos: False
    show ?thesis
    proof (cases "st_content_length s = - 1 \<or> ?r \<le> st_content_length s")
      case True
      then show ?thesis using Cons.IH [of ?t] Cons.prems(1) n d pos by (auto simp: add.assoc)
    next
      case False
      then show ?thesis using d pos by auto
    qed
  qed
qed

lemma receive_message_outcome:
  assumes "headers = Some (Inr fs, s)" and "\<not> bit (st_http_flags s) 14" and "st_recv_content_length s = 0"
    and "int (sum_list ns) \<le> INT64_MAX" and "- 1 \<le> st_content_length s"
  shows "receive_message headers ns =
    Some (case length_error (st_content_length s) (int (sum_list ns)) of Some e \<Rightarrow> Inl e | None \<Rightarrow> Inr fs)"
proof -
  have "st_content_length s = - 1 \<or> 0 \<le> st_content_length s" using assms(5) by linarith
  then show ?thesis
    using receive_body_outcome [of s ns] assms(1-4) by (auto simp: receive_message_def length_error_def)
qed

text \<open>Before the final response no piece of a body may come, and the stream must not end.\<close>

lemma receive_body_early:
  assumes "bit (st_http_flags s) 14" and "st_recv_content_length s = 0" and "int (sum_list ns) \<le> INT64_MAX"
  shows "\<exists>s'. receive_body s ns = Some (sum_list ns = 0, s') \<and> (sum_list ns = 0 \<longrightarrow> s' = s)"
  using assms
proof (induction ns)
  case (Cons n ns)
  then show ?case using data_chunk_outcome [of s n] by (cases "n = 0") auto
qed simp

lemma receive_message_early:
  assumes "headers = Some (Inr fs, s)" and "bit (st_http_flags s) 14" and "st_recv_content_length s = 0"
    and "int (sum_list ns) \<le> INT64_MAX"
  shows "receive_message headers ns = Some (Inl (if sum_list ns = 0 then ERR_HTTP_MESSAGING else ERR_PROTO))"
  using receive_body_early [OF assms(2-4)] assms(1,2)
  by (auto simp: receive_message_def nghttp2_http_on_remote_end_stream_def flag_bits)

text \<open>Response header blocks, until one is final or the last one is read.\<close>

fun receive_responses ::
  "u8 \<Rightarrow> nghttp2_stream \<Rightarrow> nghttp2_hd_nv list list \<Rightarrow> (hfield list res \<times> nghttp2_stream) option" where
  "receive_responses ft s [] = Some (Inr [], s)"
| "receive_responses ft s (nvs # blocks) =
     (case receive_response ft s nvs of
        Some (Inr fs, s') \<Rightarrow>
          if blocks \<noteq> [] \<and> has_http_flag s' NGHTTP2_HTTP_FLAG_EXPECT_FINAL_RESPONSE then receive_responses ft s' blocks
          else Some (Inr fs, s')
      | r \<Rightarrow> r)"

lemma declared_length_ge:
  assumes r: "request_fields relaxed cp pushed fs"
  shows "- 1 \<le> declared_length (value_of relaxed fs)"
proof -
  have "0 \<le> decimal v" if "value_of relaxed fs ''content-length'' = Some v" for v
  proof -
    have "(lit ''content-length'', v) \<in> set (received relaxed fs)" by (rule iffD1 [OF value_of_iff [OF r singles_names(7)] that])
    then have "is_decimal v" using r
      by (force simp: request_fields_def list_all_iff received_iff request_field_def pseudo_lit)
    then show ?thesis by (rule decimal_nonneg)
  qed
  then show ?thesis by (fastforce simp: declared_length_def split: option.split)
qed

section \<open>Properties\<close>

text \<open>
  C17. A request with its body, from the first field to the end of the stream, is accepted exactly if it is well-formed and
  the body has the declared length. A server that receives header block, DATA frames in pieces of any sizes and
  the end of the stream on a new stream reports an HTTP_HEADER error exactly when a field breaks the rules, an HTTP_MESSAGING error
  exactly when a mandatory field is missing or the body is shorter than a declared content
  length, a PROTO error exactly when it is longer, and else passes on the fields. So no request can be read in two ways by its length.
  The sizes add up to less than 2 to the power of 63, the range of the counter.
\<close>

theorem http_request_message_exact:
  assumes "fresh s" and "st_recv_content_length s = 0" and "int (sum_list ns) \<le> INT64_MAX"
    and "list_all (\<lambda>nv. hn_token nv = lookup_token (hn_name nv)) nvs"
  defines "relaxed \<equiv> no_rfc9113_validation s" and "fs \<equiv> map field nvs"
  defines "len \<equiv> declared_length (value_of relaxed fs)"
  shows "receive_message (receive_request True enabled NGHTTP2_HEADERS s nvs) ns =
    Some (if \<not> request_fields relaxed enabled (even (st_stream_id s)) fs then Inl ERR_HTTP_HEADER
          else if \<not> request_complete (value_of relaxed fs) then Inl ERR_HTTP_MESSAGING
          else (case length_error len (int (sum_list ns)) of Some e \<Rightarrow> Inl e | None \<Rightarrow> Inr (received relaxed fs)))"
proof -
  obtain s' where s': "receive_request True enabled NGHTTP2_HEADERS s nvs =
      Some (if \<not> request_fields relaxed enabled (even (st_stream_id s)) fs then Inl ERR_HTTP_HEADER
            else if \<not> request_complete (value_of relaxed fs) then Inl ERR_HTTP_MESSAGING
            else Inr (received relaxed fs), s')"
    "request_ok relaxed enabled (even (st_stream_id s)) fs \<longrightarrow>
      st_content_length s' = len \<and> \<not> bit (st_http_flags s') 14 \<and> st_recv_content_length s' = 0"
    using http_request_exact [OF _ assms(1,4), of True NGHTTP2_HEADERS enabled] assms(2)
    unfolding relaxed_def [symmetric] fs_def [symmetric] len_def
    by (auto simp: flag_bits NGHTTP2_HEADERS_def NGHTTP2_PUSH_PROMISE_def)
  show ?thesis
  proof (cases "request_ok relaxed enabled (even (st_stream_id s)) fs")
    case True
    then have r: "receive_request True enabled NGHTTP2_HEADERS s nvs = Some (Inr (received relaxed fs), s')"
      and ge: "- 1 \<le> st_content_length s'"
      using s' declared_length_ge [of relaxed enabled "even (st_stream_id s)" fs] by (simp_all add: request_ok_def len_def)
    show ?thesis using receive_message_outcome [OF r _ _ assms(3) ge] s'(2) True by (simp add: request_ok_def)
  next
    case False
    then show ?thesis using s'(1) by (auto simp: receive_message_def request_ok_def)
  qed
qed


text \<open>A request with a body of 12 bytes: whole, with a byte too many, and with a byte too few.\<close>

theorem http_request_message_exact_witness:
  "receive_message (receive_request True False NGHTTP2_HEADERS example_stream example_request) [5, 0, 7] =
     Some (Inr (received False (map field example_request))) \<and>
   receive_message (receive_request True False NGHTTP2_HEADERS example_stream example_request) [5, 8] =
     Some (Inl ERR_PROTO) \<and>
   receive_message (receive_request True False NGHTTP2_HEADERS example_stream example_request) [5, 6] =
     Some (Inl ERR_HTTP_MESSAGING)"
proof -
  have fr: "fresh example_stream" "st_recv_content_length example_stream = 0"
    by (simp_all add: fresh_def example_stream_def nghttp2_stream_init_def)
  have tok: "list_all (\<lambda>nv. hn_token nv = lookup_token (hn_name nv)) example_request"
    by (simp add: example_request_def nv_of_def)
  have sum: "int (sum_list [5, 0, 7 :: nat]) \<le> INT64_MAX" "int (sum_list [5, 8 :: nat]) \<le> INT64_MAX"
    "int (sum_list [5, 6 :: nat]) \<le> INT64_MAX"
    by (simp_all add: INT64_MAX_def)
  have rel: "no_rfc9113_validation example_stream = False" "even (st_stream_id example_stream) = False"
    "request_fields False False False (map field example_request) = True"
    "request_complete (value_of False (map field example_request)) = True"
    "declared_length (value_of False (map field example_request)) = 12"
    by code_simp+
  show ?thesis
    using http_request_message_exact [OF fr sum(1) tok, of False, unfolded rel]
      http_request_message_exact [OF fr sum(2) tok, of False, unfolded rel]
      http_request_message_exact [OF fr sum(3) tok, of False, unfolded rel] by (simp add: length_error_def)
qed

text \<open>
  An interim response and a final one with a body that is right, too long or too short; and a failed CONNECT with a content length of
  3, whose body of 9 bytes is accepted.
\<close>

definition example_interim :: "nghttp2_hd_nv list" where
  "example_interim = map nv_of [('':status'', ''103''), (''link'', ''</a>'')]"

definition example_response :: "nghttp2_hd_nv list" where
  "example_response = map nv_of [('':status'', ''200''), (''content-length'', ''3'')]"

definition example_refusal :: "nghttp2_hd_nv list" where
  "example_refusal = map nv_of [('':status'', ''404''), (''content-length'', ''3'')]"

definition example_connect :: nghttp2_stream where
  "example_connect = example_stream\<lparr>st_http_flags := NGHTTP2_HTTP_FLAG_METH_CONNECT\<rparr>"


end
