(* ===== verification/Spec2Isabelle.thy ===== *)
theory Spec2Isabelle
  imports Nghttp2_Frame_Correct Nghttp2_Map Nghttp2_Ratelim Nghttp2_Queue Nghttp2_Rcbuf Nghttp2_Sched Nghttp2_Huffman_Correct
    Nghttp2_Hd_Token Nghttp2_Hd_Correct Sfparse_Sound Nghttp2_Http_Response
begin

text \<open>
  \<^bold>\<open>A verification library for the HTTP/2 core of dusty.\<close>

  Dusty is an HTTP server and client in Zig (\<open>src/src/*.zig\<close>) on top of two C libraries that it
  carries along: the HTTP/1 parser llhttp (\<open>src/src/llhttp\<close>, generated code) and the HTTP/2
  library nghttp2 (\<open>src/src/nghttp2/lib\<close>). The theories model the C code of nghttp2, from the
  containers at the bottom to the rules of HTTP messages.

  \<^bold>\<open>The program.\<close> A session (\<open>nghttp2_session.c\<close>) owns a table of streams (\<open>nghttp2_map.c\<close>,
  \<open>nghttp2_stream.c\<close>), queues of outgoing frames (the linked queues inside the session, priority queues of
  streams with data from \<open>nghttp2_pq.c\<close>, chosen by urgency and virtual time), one HPACK compressor
  and one decompressor (\<open>nghttp2_hd.c\<close>, with the Huffman code of \<open>nghttp2_hd_huffman.c\<close>), and chains of
  byte buffers (\<open>nghttp2_buf.c\<close>) into which frames are packed (\<open>nghttp2_frame.c\<close>). Strings that the header
  tables share with the application are counted references (\<open>nghttp2_rcbuf.c\<close>). Incoming frames are read by the
  same frame layer, their header blocks by the decompressor; every decoded field passes the rules of
  \<open>nghttp2_http.c\<close>, which use the character tables of \<open>nghttp2_helper.c\<close> and, for the priority field, the parser of
  structured fields (\<open>sfparse.c\<close>). Floods of control frames are limited by the token bucket of
  \<open>nghttp2_ratelim.c\<close>.

  \<^bold>\<open>Conventions.\<close> Every definition has the name of the C function, macro, type or table it models; a loop
  in the body of a function is a definition of its own with the suffix \<open>_loop\<close> or a name of what the
  loop does. A struct is a record with the source's members, an enumeration a datatype (or words, where
  the code computes with the numbers), \<open>uint8_t\<close>, \<open>uint32_t\<close> and so on are words of that width, so that
  arithmetic wraps as in C; signed values and sizes are integers and naturals, and wherever signed arithmetic
  could overflow or a cast could truncate, the definition says so (\<open>i32\<close>, \<open>i64\<close>, \<open>int16\<close>, \<open>None\<close> for undefined
  behaviour). A failed assertion and an access outside of an object are \<open>None\<close> as well: a theorem that
  says that a function returns \<open>Some\<close> value says that none of them happens. Error codes are the datatype
  \<open>nghttp2_error\<close>, results are sums with the error on the left, or pairs of an error and the new state where the
  code changes its state and fails. Memory allocation is a parameter of the operations that allocate
  (the sequence of answers of the allocator), so that every failure path is a path of the model.

  \<^bold>\<open>Prelude.\<close> \<open>Nghttp2_Base\<close>: integer types, error codes, the allocator, and facts on words, bytes, lists
  and array memory. \<open>Nghttp2_Helper\<close> (\<open>nghttp2_helper.c\<close>): byte order, the window arithmetic of flow control, the
  character tables, with the sets of characters they stand for. The window adjustment never overflows; its result is
  stated in full, and how it changes the window that the peer sees.

  \<^bold>\<open>Containers.\<close>
  \<open>Nghttp2_Buf\<close>: buffers and chunked chains; writing strings appends bytes or fails without losing any. The
  writes of single bytes do not check the room of the chunk they move to; where they would write outside of the array
  the model is \<open>None\<close>, and the condition is exact. The locale \<open>byte_sink\<close> is what the writers above rely on.
  \<open>Nghttp2_Queue\<close>: cells on a heap; the locale \<open>fifo\<close> is the contract of a queue, the linked queue an instance.
  \<open>Nghttp2_Rcbuf\<close>: counted references on a store; a buffer is freed with its last owner.
  \<open>Nghttp2_Pq\<close>: an indexed heap of pointers. Its locale \<open>strict_weak_order\<close> is the comparison the client gives;
  every operation keeps the heap order and the index of each entry, and an insertion stores within the capacity.
  \<open>Nghttp2_Map\<close>: Robin Hood hashing with probe lengths; the locale \<open>object_table\<close> is a finite map, the hash table
  with displacement, growth and backward shift an instance. The outcome of an insertion is exact (report, contents,
  number of slots) as long as the one-byte probe counters cannot wrap around (at most 253 before the insertion).
  \<open>Nghttp2_Ratelim\<close>: every run of refills and requests does what a token bucket on unbounded numbers does, in
  spite of the overflow of its 64-bit words.

  \<^bold>\<open>Streams and scheduling.\<close> \<open>Nghttp2_Stream\<close> (\<open>nghttp2_stream.c\<close>, \<open>nghttp2_extpri.c\<close>): the record of a stream, its state
  predicates, initial window changes, the priority byte. \<open>Nghttp2_Sched\<close>: the data scheduler of
  \<open>nghttp2_session.c\<close>, eight priority queues of streams compared by the wrapping 64-bit cycle. Its
  invariant (a ready stream is in the queue of its urgency exactly once, all cycles lie in half of the ring) is kept by
  every operation; the next item is that of the most urgent, least served stream.

  \<^bold>\<open>Frames.\<close> \<open>Nghttp2_Frame\<close> (\<open>nghttp2_frame.c\<close>, \<open>nghttp2_priority_spec.c\<close>): packing and unpacking.
  \<open>Nghttp2_Frame_Correct\<close>: the locale \<open>frame_codec\<close> (pack, then unpack) with an instance per frame type;
  padding; the split of a header block into HEADERS and CONTINUATION frames; the check of settings;
  the outcome of the ORIGIN and ALTSVC parsers on every payload.

  \<^bold>\<open>HPACK.\<close> \<open>Nghttp2_Huffman_Data\<close>, \<open>_Tree\<close>, \<open>Nghttp2_Huffman\<close>, \<open>_Correct\<close>: both tables entry by entry, their
  agreement with the code of RFC 7541 as a tree, the encoder with its 64-bit register, the decoder
  automaton. \<open>Nghttp2_Hd_Token\<close>: static table, tokens and hashes. \<open>Nghttp2_Hd_Int\<close>: prefixed integers.
  \<open>Nghttp2_Hd_Table\<close>: ring buffer, hash map and search; the locale \<open>dynamic_table\<close> is the table of the RFC, the
  tables of the two ends are its instances; the search is stated as a search of the two lists of fields.
  \<open>Nghttp2_Hd_Deflate\<close> and \<open>Nghttp2_Hd_Inflate\<close> are compressor and
  decompressor. \<open>Nghttp2_Hd_Spec\<close> states the RFC without reference to the code; the compressor writes its
  representations (\<open>_Deflate_Correct\<close>), the decompressor executes them (\<open>_Inflate_Exec\<close>), is safe on
  every input (\<open>_Inflate_Safe\<close>) and does not care how the input is cut (\<open>_Inflate_Correct\<close>); over a connection the two
  ends transfer what was sent (\<open>Nghttp2_Hd_Correct\<close>).

  \<^bold>\<open>HTTP rules.\<close> \<open>Sfparse\<close> models the parser of structured fields; \<open>Sfparse_Utf8\<close>, \<open>_Correct\<close>, \<open>_Value\<close>, \<open>_Client\<close> and \<open>_Sound\<close>
  show that its calls are safe and end, that what is serialized is read back, that what is read is well-formed, and
  that skipping equals reading. \<open>Nghttp2_Http\<close> is \<open>nghttp2_http.c\<close>; \<open>Nghttp2_Http_Fields\<close>, \<open>_Request\<close> and
  \<open>_Response\<close> characterize the accepted messages: field order, duplicates, mandatory fields, content length
  against the received body, interim responses, the priority field. \<open>receive_request\<close>, \<open>receive_responses\<close>
  and \<open>receive_message\<close> stand for the part of the session that calls these rules, with its error codes. Two
  places depart from the RFCs, and the theorems say so: the length of the body of a response to CONNECT is never
  checked, not even if the request failed, and a bad parameter makes the whole priority field invalid.

  \<^bold>\<open>Bounds.\<close> Loops are structural recursions or have a measure: the rest of the input for the parsers (so 2 n + 1
  calls suffice for a field value of n bytes), the free slots for a probe of the hash table, the position in the heap
  for its sifting. The decompressor's loop returns on every input because each step that consumes nothing
  lowers the rank of the state. The end-to-end theorem of HPACK assumes strings below
  2^28 + 127 bytes, the limit that the check of encoded integers enforces; the insertion theorem of the hash table assumes
  probe counters up to 253, and every table with at most 253 entries has these; the content length theorems
  assume that the received chunks sum up to at most 2^63 - 1 bytes, which the signed counter can hold.

  \<^bold>\<open>Not modelled.\<close> Of \<open>nghttp2_session.c\<close> everything but the data scheduler: the receive loop with its callbacks
  and the connection state machine; with it the submission of requests (\<open>nghttp2_submit.c\<close>), which builds items
  for the session; the setters of options and callbacks; the selection of a protocol from the TLS list; the wrappers of
  malloc, clock and stderr. Of \<open>sfparse.c\<close> the AVX2 variants of the span loops. The HTTP/1 parser
  \<open>llhttp.c\<close> is generated from a grammar that the repository does not have, and the HTTP server and client around the
  libraries are written in Zig.
\<close>

end
